(* ===== verification/Prelude.thy ===== *)
theory Prelude
  imports Main "HOL-Library.Char_ord" "HOL-Library.List_Lexorder" "HOL-Library.Product_Lexorder"
begin

text \<open>
  What every component shares: results of fallible Rust functions, the part of Rust's string
  library the code uses, and \<open>BTreeMap\<close>/\<open>BTreeSet\<close> as sorted lists.

  A Rust \<open>&str\<close> is its UTF-8 bytes, so a string here is a list of \<open>char\<close> (a byte each),
  \<open>length\<close> is \<open>str::len\<close> and byte offsets are \<open>nat\<close>. Functions the library
  defines on Unicode scalar values (\<open>trim\<close>, \<open>split_whitespace\<close>, \<open>chars\<close>) work on
  the groups of bytes that \<open>chars\<close> cuts out: a byte and the continuation bytes after it.
  \<open>boundary s\<close> says that \<open>s\<close> begins at a character boundary, which holds of every
  Rust \<open>&str\<close>.
\<close>

section \<open>Fallible results\<close>

text \<open>\<open>Result<T, E>\<close> is \<open>'e + 'a\<close>: \<open>Inl\<close> the error, \<open>Inr\<close> the value. The
  question mark operator is \<open>try_res\<close>.\<close>

definition try_res :: "'e + 'a \<Rightarrow> ('a \<Rightarrow> 'e + 'b) \<Rightarrow> 'e + 'b" where
  "try_res r f = (case r of Inl e \<Rightarrow> Inl e | Inr x \<Rightarrow> f x)"

lemma try_res_simps [simp]:
  "try_res (Inl e) f = Inl e" "try_res (Inr x) f = f x"
  by (simp_all add: try_res_def)

lemma map_sum_Inr_iff: "map_sum f id r = Inr x \<longleftrightarrow> r = Inr x"
  by (cases r) auto

lemma try_res_Inr_iff: "try_res r f = Inr y \<longleftrightarrow> (\<exists>x. r = Inr x \<and> f x = Inr y)"
  by (cases r) auto

lemma try_res_Inl_iff: "try_res r f = Inl e \<longleftrightarrow> r = Inl e \<or> (\<exists>x. r = Inr x \<and> f x = Inl e)"
  by (cases r) auto

lemma try_res_split:
  "P (try_res r f) \<longleftrightarrow> (\<forall>e. r = Inl e \<longrightarrow> P (Inl e)) \<and> (\<forall>x. r = Inr x \<longrightarrow> P (f x))"
  by (cases r) auto

definition ok_or :: "'e \<Rightarrow> 'a option \<Rightarrow> 'e + 'a" where
  "ok_or e opt = (case opt of None \<Rightarrow> Inl e | Some x \<Rightarrow> Inr x)"

lemma ok_or_simps [simp]: "ok_or e None = Inl e" "ok_or e (Some x) = Inr x"
  by (simp_all add: ok_or_def)

lemma ok_or_Inr_iff [simp]: "ok_or e r = Inr x \<longleftrightarrow> r = Some x"
  by (cases r) auto

definition is_ok :: "'e + 'a \<Rightarrow> bool" where
  "is_ok r = (case r of Inl _ \<Rightarrow> False | Inr _ \<Rightarrow> True)"

lemma is_ok_simps [simp]: "\<not> is_ok (Inl e)" "is_ok (Inr x)"
  by (simp_all add: is_ok_def)

lemma is_ok_iff: "is_ok r \<longleftrightarrow> (\<exists>x. r = Inr x)"
  by (cases r) auto

lemma is_ok_try_res: "is_ok (try_res r f) \<longleftrightarrow> (\<exists>x. r = Inr x \<and> is_ok (f x))"
  by (cases r) auto

text \<open>\<open>find_map\<close> and the first match of a list.\<close>

fun find_map :: "('a \<Rightarrow> 'b option) \<Rightarrow> 'a list \<Rightarrow> 'b option" where
  "find_map f [] = None"
| "find_map f (x # xs) = (case f x of Some y \<Rightarrow> Some y | None \<Rightarrow> find_map f xs)"

lemma find_map_cong [fundef_cong]:
  "xs = ys \<Longrightarrow> (\<And>x. x \<in> set ys \<Longrightarrow> f x = g x) \<Longrightarrow> find_map f xs = find_map g ys"
proof (induction xs arbitrary: ys)
  case Nil
  then show ?case by simp
next
  case (Cons x xs)
  then show ?case by (auto split: option.splits)
qed

lemma find_map_append:
  "find_map f (xs @ ys) = (case find_map f xs of Some y \<Rightarrow> Some y | None \<Rightarrow> find_map f ys)"
  by (induction xs) (auto split: option.splits)

lemma find_map_SomeD: "find_map f xs = Some y \<Longrightarrow> \<exists>x \<in> set xs. f x = Some y"
  by (induction xs) (auto split: option.splits)

lemma find_map_None_iff: "find_map f xs = None \<longleftrightarrow> (\<forall>x \<in> set xs. f x = None)"
  by (induction xs) (auto split: option.splits)

lemma find_SomeD: "find P xs = Some x \<Longrightarrow> x \<in> set xs \<and> P x"
  by (induction xs) (auto split: if_splits)

text \<open>\<open>iter_mut().rev().find(p)\<close> and \<open>iter().rposition(p)\<close>: the last element that
  satisfies the predicate, changed in place or by its index.\<close>

fun update_first :: "('a \<Rightarrow> bool) \<Rightarrow> ('a \<Rightarrow> 'a) \<Rightarrow> 'a list \<Rightarrow> 'a list" where
  "update_first P f [] = []"
| "update_first P f (x # xs) = (if P x then f x # xs else x # update_first P f xs)"

definition update_last :: "('a \<Rightarrow> bool) \<Rightarrow> ('a \<Rightarrow> 'a) \<Rightarrow> 'a list \<Rightarrow> 'a list" where
  "update_last P f xs = rev (update_first P f (rev xs))"

definition rposition :: "('a \<Rightarrow> bool) \<Rightarrow> 'a list \<Rightarrow> nat option" where
  "rposition P xs =
     (let ks = filter (\<lambda>i. P (xs ! i)) [0..<length xs] in if ks = [] then None else Some (last ks))"

lemma update_first_none: "\<forall>x \<in> set xs. \<not> P x \<Longrightarrow> update_first P f xs = xs"
  by (induction xs) auto

lemma update_first_split:
  "x \<in> set xs \<Longrightarrow> P x \<Longrightarrow> \<exists>ys z zs. xs = ys @ z # zs \<and> P z \<and> (\<forall>y \<in> set ys. \<not> P y) \<and>
     update_first P f xs = ys @ f z # zs"
proof (induction xs)
  case (Cons a xs)
  show ?case
  proof (cases "P a")
    case True
    then show ?thesis by (intro exI [of _ "[]"] exI [of _ a] exI [of _ xs]) simp
  next
    case False
    then obtain ys z zs where r: "xs = ys @ z # zs" "P z" "\<forall>y \<in> set ys. \<not> P y"
      "update_first P f xs = ys @ f z # zs"
      using Cons by auto
    have "update_first P f (a # xs) = (a # ys) @ f z # zs" using False r(4) by simp
    moreover have "a # xs = (a # ys) @ z # zs" using r(1) by simp
    moreover have "\<forall>y \<in> set (a # ys). \<not> P y" using r(3) False by simp
    ultimately show ?thesis using r(2) by blast
  qed
qed simp

lemma update_last_none: "\<forall>x \<in> set xs. \<not> P x \<Longrightarrow> update_last P f xs = xs"
  by (simp add: update_last_def update_first_none)

lemma update_last_split:
  assumes "x \<in> set xs" "P x"
  obtains ys z zs where "xs = ys @ z # zs" "P z" "\<forall>y \<in> set zs. \<not> P y"
    "update_last P f xs = ys @ f z # zs"
proof -
  obtain ys z zs where r: "rev xs = ys @ z # zs" "P z" "\<forall>y \<in> set ys. \<not> P y"
    "update_first P f (rev xs) = ys @ f z # zs"
    using update_first_split [of x "rev xs" P f] assms by auto
  have "xs = rev zs @ z # rev ys" using arg_cong [OF r(1), of rev] by simp
  then show ?thesis using that [of "rev zs" z "rev ys"] r by (simp add: update_last_def)
qed

lemma length_update_last [simp]: "length (update_last P f xs) = length xs"
proof -
  have "length (update_first P f ys) = length ys" for ys by (induction ys) auto
  then show ?thesis by (simp add: update_last_def)
qed

text \<open>A change that keeps a property of each element keeps it of all.\<close>

lemma update_last_all:
  "\<forall>x \<in> set xs. Q x \<Longrightarrow> (\<And>x. x \<in> set xs \<Longrightarrow> Q x \<Longrightarrow> P x \<Longrightarrow> Q (f x)) \<Longrightarrow>
     \<forall>x \<in> set (update_last P f xs). Q x"
proof -
  assume "\<forall>x \<in> set xs. Q x" "\<And>x. x \<in> set xs \<Longrightarrow> Q x \<Longrightarrow> P x \<Longrightarrow> Q (f x)"
  then have "\<forall>x \<in> set (update_first P f ys). Q x" if "set ys \<subseteq> set xs" for ys
    using that by (induction ys) auto
  from this [of "rev xs"] show ?thesis by (simp add: update_last_def)
qed

lemma rposition_Some:
  "rposition P xs = Some i \<Longrightarrow> i < length xs \<and> P (xs ! i)"
proof -
  assume "rposition P xs = Some i"
  then have "filter (\<lambda>i. P (xs ! i)) [0..<length xs] \<noteq> []"
    "i = last (filter (\<lambda>i. P (xs ! i)) [0..<length xs])"
    by (auto simp: rposition_def Let_def split: if_splits)
  then have "i \<in> set (filter (\<lambda>i. P (xs ! i)) [0..<length xs])" by (metis last_in_set)
  then show ?thesis by simp
qed

section \<open>Bytes\<close>

definition byte :: "char \<Rightarrow> nat" where
  "byte c = of_char c"

lemma byte_Char [simp]:
  "byte (Char b0 b1 b2 b3 b4 b5 b6 b7) =
     of_bool b0 + 2 * (of_bool b1 + 2 * (of_bool b2 + 2 * (of_bool b3 + 2 * (of_bool b4 +
     2 * (of_bool b5 + 2 * (of_bool b6 + 2 * of_bool b7))))))"
  by (simp add: byte_def of_char_def horner_sum_simps)

lemma byte_char_of [simp]: "byte (char_of n) = n mod 256"
  by (simp add: byte_def)

lemma byte_inject: "byte c = byte d \<longleftrightarrow> c = d"
  by (simp add: byte_def)

definition is_cont :: "char \<Rightarrow> bool" where
  "is_cont c \<longleftrightarrow> 128 \<le> byte c \<and> byte c < 192"

definition is_ascii_digit :: "char \<Rightarrow> bool" where
  "is_ascii_digit c \<longleftrightarrow> 48 \<le> byte c \<and> byte c \<le> 57"

definition is_ascii_uppercase :: "char \<Rightarrow> bool" where
  "is_ascii_uppercase c \<longleftrightarrow> 65 \<le> byte c \<and> byte c \<le> 90"

definition is_ascii_lowercase :: "char \<Rightarrow> bool" where
  "is_ascii_lowercase c \<longleftrightarrow> 97 \<le> byte c \<and> byte c \<le> 122"

definition is_ascii_alphabetic :: "char \<Rightarrow> bool" where
  "is_ascii_alphabetic c \<longleftrightarrow> is_ascii_uppercase c \<or> is_ascii_lowercase c"

definition is_ascii_alphanumeric :: "char \<Rightarrow> bool" where
  "is_ascii_alphanumeric c \<longleftrightarrow> is_ascii_alphabetic c \<or> is_ascii_digit c"

lemmas ascii_defs = is_cont_def is_ascii_digit_def is_ascii_uppercase_def
  is_ascii_lowercase_def is_ascii_alphabetic_def is_ascii_alphanumeric_def

definition ascii_lower_byte :: "char \<Rightarrow> char" where
  "ascii_lower_byte c = (if is_ascii_uppercase c then char_of (byte c + 32) else c)"

definition ascii_upper_byte :: "char \<Rightarrow> char" where
  "ascii_upper_byte c = (if is_ascii_lowercase c then char_of (byte c - 32) else c)"

text \<open>The two case maps flip one bit: the equations that evaluation uses.\<close>

lemma ascii_lower_byte_code [code]:
  "ascii_lower_byte (Char b0 b1 b2 b3 b4 b5 b6 b7) =
     (if is_ascii_uppercase (Char b0 b1 b2 b3 b4 b5 b6 b7) then Char b0 b1 b2 b3 b4 True b6 b7
      else Char b0 b1 b2 b3 b4 b5 b6 b7)"
  by (cases b0; cases b1; cases b2; cases b3; cases b4; cases b5; cases b6; cases b7;
      simp add: ascii_lower_byte_def is_ascii_uppercase_def byte_inject [symmetric])

lemma ascii_upper_byte_code [code]:
  "ascii_upper_byte (Char b0 b1 b2 b3 b4 b5 b6 b7) =
     (if is_ascii_lowercase (Char b0 b1 b2 b3 b4 b5 b6 b7) then Char b0 b1 b2 b3 b4 False b6 b7
      else Char b0 b1 b2 b3 b4 b5 b6 b7)"
  by (cases b0; cases b1; cases b2; cases b3; cases b4; cases b5; cases b6; cases b7;
      simp add: ascii_upper_byte_def is_ascii_lowercase_def byte_inject [symmetric])

definition to_ascii_lowercase :: "string \<Rightarrow> string" where
  "to_ascii_lowercase s = map ascii_lower_byte s"

definition to_ascii_uppercase :: "string \<Rightarrow> string" where
  "to_ascii_uppercase s = map ascii_upper_byte s"

definition eq_ignore_ascii_case :: "string \<Rightarrow> string \<Rightarrow> bool" where
  "eq_ignore_ascii_case s t \<longleftrightarrow> to_ascii_lowercase s = to_ascii_lowercase t"

abbreviation LF :: char where "LF \<equiv> CHR 0x0A"
abbreviation CR :: char where "CR \<equiv> CHR 0x0D"
abbreviation TAB :: char where "TAB \<equiv> CHR 0x09"

end
