(* ===== verification/Rust_Str.thy ===== *)
theory Rust_Str
  imports Prelude
begin

text \<open>
  The operations of Rust's \<open>str\<close> the program calls, on lists of bytes, with the facts about
  them the components use: \<open>chars\<close> groups, Unicode white space, trimming, prefixes and
  suffixes, splitting at a character, at white space and at line ends, and searching.
\<close>

section \<open>Characters of a string\<close>

text \<open>\<open>str::chars\<close>: each group is the UTF-8 encoding of one character.\<close>

fun chars :: "string \<Rightarrow> string list" where
  "chars [] = []"
| "chars [c] = [[c]]"
| "chars (c # d # cs) =
     (if is_cont d then (case chars (d # cs) of [] \<Rightarrow> [[c]] | g # gs \<Rightarrow> (c # g) # gs)
      else [c] # chars (d # cs))"

definition boundary :: "string \<Rightarrow> bool" where
  "boundary s \<longleftrightarrow> (case s of [] \<Rightarrow> True | c # _ \<Rightarrow> \<not> is_cont c)"

lemma boundary_simps [simp]: "boundary []" "boundary (c # s) \<longleftrightarrow> \<not> is_cont c"
  by (simp_all add: boundary_def)

lemma chars_Cons_boundary [simp]: "boundary s \<Longrightarrow> chars (c # s) = [c] # chars s"
  by (cases s) auto

text \<open>In a Rust string an ASCII byte is a whole character: no continuation byte follows it.\<close>

fun whole_ascii :: "string \<Rightarrow> bool" where
  "whole_ascii (c # d # cs) \<longleftrightarrow> (128 \<le> byte c \<or> \<not> is_cont d) \<and> whole_ascii (d # cs)"
| "whole_ascii _ \<longleftrightarrow> True"

lemma whole_ascii_tail: "whole_ascii (c # s) \<Longrightarrow> whole_ascii s \<and> (byte c < 128 \<longrightarrow> boundary s)"
  by (cases s) auto

lemma whole_ascii_suffix: "whole_ascii (a @ b) \<Longrightarrow> whole_ascii b"
  by (induction a) (auto dest: whole_ascii_tail)

lemma whole_ascii_prefix: "whole_ascii (a @ b) \<Longrightarrow> whole_ascii a"
  by (induction a rule: whole_ascii.induct) auto

lemma whole_ascii_after: "whole_ascii (a @ c # b) \<Longrightarrow> byte c < 128 \<Longrightarrow> boundary b"
  using whole_ascii_suffix whole_ascii_tail by blast

lemma chars_eq_Nil_iff [simp]: "chars s = [] \<longleftrightarrow> s = []"
  by (induction s rule: chars.induct) (auto split: list.splits)

lemma concat_chars [simp]: "concat (chars s) = s"
  by (induction s rule: chars.induct) (auto split: list.splits)

lemma Nil_notin_chars [simp]: "[] \<notin> set (chars s)"
  by (induction s rule: chars.induct) (auto split: list.splits)

lemma chars_append:
  assumes "boundary t"
  shows "chars (s @ t) = chars s @ chars t"
proof (induction s rule: chars.induct)
  case (2 c)
  then show ?case using assms by simp
next
  case (3 c d cs)
  then show ?case by (auto split: list.splits)
qed simp

lemma chars_ascii: "(\<forall>c \<in> set s. \<not> is_cont c) \<Longrightarrow> chars s = map (\<lambda>c. [c]) s"
proof (induction s)
  case (Cons c s)
  then show ?case by (cases s) auto
qed simp

lemma hd_chars: "chars s = g # gs \<Longrightarrow> hd g = hd s \<and> g \<noteq> []"
  by (induction s arbitrary: g gs rule: chars.induct) (auto split: list.splits if_splits)

text \<open>Cutting a string between two of its characters cuts its characters there.\<close>

lemma chars_split:
  "chars s = gs @ hs \<Longrightarrow> chars (concat gs) = gs \<and> chars (concat hs) = hs"
proof (induction s arbitrary: gs rule: chars.induct)
  case (2 c)
  then show ?case by (cases gs) auto
next
  case (3 c d cs)
  show ?case
  proof (cases gs)
    case Nil
    with 3 show ?thesis by (metis append_Nil concat.simps(1) chars.simps(1) concat_chars)
  next
    case (Cons g gs')
    show ?thesis
    proof (cases "is_cont d")
      case False
      with 3 Cons have g: "g = [c]" and dc: "chars (d # cs) = gs' @ hs" by auto
      with 3(2) False have IH: "chars (concat gs') = gs'" "chars (concat hs) = hs" by blast+
      have "boundary (concat gs')"
      proof (cases gs')
        case (Cons k ks)
        then have "hd k = d \<and> k \<noteq> []" using dc hd_chars by fastforce
        then show ?thesis using Cons False by (cases k) auto
      qed simp
      then show ?thesis using Cons g IH by simp
    next
      case True
      obtain k ks where k: "chars (d # cs) = k # ks"
        by (cases "chars (d # cs)") auto
      with 3(3) True Cons have g: "g = c # k" and ks: "ks = gs' @ hs" by auto
      have "chars (d # cs) = (k # gs') @ hs" using k ks by simp
      with 3(1) True have IH: "chars (concat (k # gs')) = k # gs'" "chars (concat hs) = hs"
        by blast+
      obtain k' where k': "k = d # k'" using hd_chars [OF k] by (cases k) auto
      have "chars (c # concat (k # gs')) = (c # k) # gs'"
        using IH(1) True k' by simp
      then show ?thesis using Cons g IH by simp
    qed
  qed
qed simp

section \<open>White space\<close>

text \<open>\<open>char::is_whitespace\<close>, the Unicode property White_Space, in UTF-8.\<close>

definition ws_chars :: "string list" where
  "ws_chars =
    [[CHR 0x20], [CHR 0x09], [CHR 0x0A], [CHR 0x0B], [CHR 0x0C], [CHR 0x0D],
     [CHR 0xC2, CHR 0x85], [CHR 0xC2, CHR 0xA0], [CHR 0xE1, CHR 0x9A, CHR 0x80],
     [CHR 0xE2, CHR 0x80, CHR 0x80], [CHR 0xE2, CHR 0x80, CHR 0x81],
     [CHR 0xE2, CHR 0x80, CHR 0x82], [CHR 0xE2, CHR 0x80, CHR 0x83],
     [CHR 0xE2, CHR 0x80, CHR 0x84], [CHR 0xE2, CHR 0x80, CHR 0x85],
     [CHR 0xE2, CHR 0x80, CHR 0x86], [CHR 0xE2, CHR 0x80, CHR 0x87],
     [CHR 0xE2, CHR 0x80, CHR 0x88], [CHR 0xE2, CHR 0x80, CHR 0x89],
     [CHR 0xE2, CHR 0x80, CHR 0x8A], [CHR 0xE2, CHR 0x80, CHR 0xA8],
     [CHR 0xE2, CHR 0x80, CHR 0xA9], [CHR 0xE2, CHR 0x80, CHR 0xAF],
     [CHR 0xE2, CHR 0x81, CHR 0x9F], [CHR 0xE3, CHR 0x80, CHR 0x80]]"

definition is_whitespace :: "string \<Rightarrow> bool" where
  "is_whitespace g \<longleftrightarrow> g \<in> set ws_chars"

text \<open>\<open>u8::is_ascii_whitespace\<close>-like test on one byte that is a whole character.\<close>

definition ascii_ws :: "char \<Rightarrow> bool" where
  "ascii_ws c \<longleftrightarrow> c \<in> {CHR 0x20, CHR 0x09, CHR 0x0A, CHR 0x0B, CHR 0x0C, CHR 0x0D}"

lemma is_whitespace_single [simp]: "is_whitespace [c] \<longleftrightarrow> ascii_ws c"
  by (auto simp: is_whitespace_def ws_chars_def ascii_ws_def)

lemma is_whitespace_Nil [simp]: "\<not> is_whitespace []"
  by (simp add: is_whitespace_def ws_chars_def)

lemma ascii_ws_not_cont: "ascii_ws c \<Longrightarrow> \<not> is_cont c"
  by (auto simp: ascii_ws_def is_cont_def)

text \<open>\<open>char::is_control\<close> (the category Cc).\<close>

definition is_control :: "string \<Rightarrow> bool" where
  "is_control g \<longleftrightarrow>
     (case g of
        [c] \<Rightarrow> byte c < 32 \<or> byte c = 127
      | [c, d] \<Rightarrow> byte c = 194 \<and> 128 \<le> byte d \<and> byte d < 160
      | _ \<Rightarrow> False)"

section \<open>Trimming\<close>

definition trim_start :: "string \<Rightarrow> string" where
  "trim_start s = concat (dropWhile is_whitespace (chars s))"

definition trim_end :: "string \<Rightarrow> string" where
  "trim_end s = concat (rev (dropWhile is_whitespace (rev (chars s))))"

definition trim :: "string \<Rightarrow> string" where
  "trim s = trim_end (trim_start s)"

text \<open>\<open>trim_start_matches(c)\<close>, \<open>trim_end_matches(c)\<close> and \<open>trim_matches(c)\<close>
  for one ASCII character.\<close>

definition trim_start_matches :: "char \<Rightarrow> string \<Rightarrow> string" where
  "trim_start_matches c s = dropWhile (\<lambda>x. x = c) s"

definition trim_end_matches :: "char \<Rightarrow> string \<Rightarrow> string" where
  "trim_end_matches c s = rev (dropWhile (\<lambda>x. x = c) (rev s))"

definition trim_matches :: "char \<Rightarrow> string \<Rightarrow> string" where
  "trim_matches c s = trim_end_matches c (trim_start_matches c s)"

lemma trim_Nil [simp]: "trim_start [] = []" "trim_end [] = []" "trim [] = []"
  by (simp_all add: trim_start_def trim_end_def trim_def)

lemma trim_start_split: "s = concat (takeWhile is_whitespace (chars s)) @ trim_start s"
  by (metis concat_append concat_chars takeWhile_dropWhile_id trim_start_def)

lemma trim_end_split:
  "s = trim_end s @ concat (rev (takeWhile is_whitespace (rev (chars s))))"
proof -
  have "chars s = rev (dropWhile is_whitespace (rev (chars s))) @
      rev (takeWhile is_whitespace (rev (chars s)))"
    by (metis rev_append rev_rev_ident takeWhile_dropWhile_id)
  then show ?thesis
    by (metis concat_append concat_chars trim_end_def)
qed

lemma length_trim_start: "length (trim_start s) \<le> length s"
  by (subst (2) trim_start_split) simp

lemma length_trim_end: "length (trim_end s) \<le> length s"
  by (subst (2) trim_end_split) simp

lemma length_trim: "length (trim s) \<le> length s"
  unfolding trim_def using length_trim_start length_trim_end le_trans by blast

lemma chars_trim_start: "chars (trim_start s) = dropWhile is_whitespace (chars s)"
  by (metis chars_split takeWhile_dropWhile_id trim_start_def)

lemma chars_trim_end: "chars (trim_end s) = rev (dropWhile is_whitespace (rev (chars s)))"
  unfolding trim_end_def by (metis chars_split rev_append rev_rev_ident takeWhile_dropWhile_id)

lemma trim_start_idem [simp]: "trim_start (trim_start s) = trim_start s"
  by (metis chars_trim_start dropWhile_idem trim_start_def)

lemma trim_end_idem [simp]: "trim_end (trim_end s) = trim_end s"
  by (metis chars_trim_end dropWhile_idem rev_rev_ident trim_end_def)

lemma trim_start_trim_end: "trim_start (trim_end (trim_start s)) = trim_end (trim_start s)"
proof -
  let ?gs = "chars (trim_start s)"
  have nws: "?gs = [] \<or> \<not> is_whitespace (hd ?gs)"
    using hd_dropWhile [of is_whitespace "chars s"] by (auto simp: chars_trim_start)
  let ?hs = "chars (trim_end (trim_start s))"
  have "?gs = ?hs @ rev (takeWhile is_whitespace (rev ?gs))"
    by (metis chars_trim_end rev_append rev_rev_ident takeWhile_dropWhile_id)
  then have "?hs = [] \<or> \<not> is_whitespace (hd ?hs)"
    using nws by (metis append_is_Nil_conv hd_append2)
  then have "dropWhile is_whitespace ?hs = ?hs"
    by (cases ?hs) auto
  then show ?thesis by (simp add: trim_start_def)
qed

text \<open>An ASCII byte that is not white space stops \<open>trim_start\<close>.\<close>

lemma trim_start_ascii:
  assumes "byte c < 128" "\<not> ascii_ws c"
  shows "trim_start (c # s) = c # s"
proof -
  obtain g gs where g: "chars (c # s) = (c # g) # gs"
    using hd_chars [of "c # s"] by (cases "chars (c # s)") (auto simp: neq_Nil_conv)
  have "\<not> is_whitespace (c # g)"
  proof (cases "g = []")
    case True
    then show ?thesis using assms(2) by simp
  next
    case False
    then show ?thesis using assms(1) by (auto simp: is_whitespace_def ws_chars_def)
  qed
  then have "trim_start (c # s) = concat (chars (c # s))" using g by (simp add: trim_start_def)
  then show ?thesis by simp
qed

lemma trim_start_code [code]:
  "trim_start s =
     (case s of
        [] \<Rightarrow> []
      | c # r \<Rightarrow>
          if byte c < 128 \<and> \<not> ascii_ws c then s else concat (dropWhile is_whitespace (chars s)))"
proof (cases s)
  case (Cons c r)
  then show ?thesis using trim_start_ascii [of c r] by (simp add: trim_start_def [of "c # r", symmetric])
qed simp

lemma trim_idem [simp]: "trim (trim s) = trim s"
  by (simp add: trim_def trim_start_trim_end)

lemma chars_tail_boundary: "boundary (concat (tl (chars s)))"
proof (induction s rule: chars.induct)
  case (3 c d cs)
  have "concat (chars (d # cs)) = d # cs" by simp
  then show ?case using 3 by (cases "is_cont d"; cases "chars (d # cs)") (auto simp del: concat_chars)
qed simp_all

lemma chars_suffix_boundary: "chars s = gs @ hs \<Longrightarrow> gs \<noteq> [] \<Longrightarrow> boundary (concat hs)"
proof (induction gs arbitrary: s)
  case (Cons g gs)
  show ?case
  proof (cases "gs = []")
    case True
    then show ?thesis using Cons.prems(1) chars_tail_boundary [of s] by simp
  next
    case False
    have "chars (concat (gs @ hs)) = gs @ hs"
      using chars_split [of s "[g]" "gs @ hs"] Cons.prems(1) by simp
    then show ?thesis using Cons.IH False by blast
  qed
qed simp

lemma boundary_trim_start: "boundary s \<Longrightarrow> boundary (trim_start s)"
proof (cases "takeWhile is_whitespace (chars s) = []")
  case True
  assume "boundary s"
  then show ?thesis using trim_start_split [of s] True by simp
next
  case False
  then show ?thesis
    unfolding trim_start_def by (rule chars_suffix_boundary [OF takeWhile_dropWhile_id [symmetric]])
qed

lemma boundary_prefix: "boundary (s @ t) \<Longrightarrow> boundary s"
  by (cases s) auto

lemma boundary_trim: "boundary s \<Longrightarrow> boundary (trim s)"
  unfolding trim_def
  using boundary_trim_start boundary_prefix trim_end_split [of "trim_start s"] by metis

lemma trim_split: "\<exists>p q. s = p @ trim s @ q \<and> length p = length s - length (trim_start s)"
proof -
  obtain p where p: "s = p @ trim_start s" using trim_start_split by blast
  obtain q where q: "trim_start s = trim s @ q" unfolding trim_def using trim_end_split by blast
  have "length p = length s - length (trim_start s)" using arg_cong [OF p, of length] by simp
  then show ?thesis using p q by metis
qed

lemma trim_end_matches_split: "\<exists>q. s = trim_end_matches c s @ q"
  unfolding trim_end_matches_def by (metis rev_append rev_rev_ident takeWhile_dropWhile_id)

lemma trim_end_matches_last: "s = [] \<or> last s \<noteq> c \<Longrightarrow> trim_end_matches c s = s"
  by (cases s rule: rev_cases) (auto simp: trim_end_matches_def)

lemma trim_eq_selfD:
  assumes "trim s = s"
  shows "trim_start s = s" and "trim_end s = s"
proof -
  have 1: "length s \<le> length (trim_start s)"
    using assms length_trim_end [of "trim_start s"] by (simp add: trim_def)
  obtain p where p: "s = p @ trim_start s" using trim_start_split by blast
  then have "length s = length p + length (trim_start s)" by (metis length_append)
  with 1 have "p = []" by simp
  with p show a: "trim_start s = s" by simp
  show "trim_end s = s" using assms a by (simp add: trim_def)
qed

lemma trim_eq_selfI: "trim_start s = s \<Longrightarrow> trim_end s = s \<Longrightarrow> trim s = s"
  by (simp add: trim_def)

lemma trim_start_Cons_ws: "ascii_ws c \<Longrightarrow> boundary s \<Longrightarrow> trim_start (c # s) = trim_start s"
  by (simp add: trim_start_def)

lemma trim_start_Cons_not_ws: "\<not> ascii_ws c \<Longrightarrow> boundary s \<Longrightarrow> trim_start (c # s) = c # s"
  by (simp add: trim_start_def)

lemma trim_start_spaces: "boundary s \<Longrightarrow> trim_start (replicate n (CHR '' '') @ s) = trim_start s"
proof (induction n)
  case (Suc n)
  have "boundary (replicate n (CHR '' '') @ s)"
    using Suc.prems by (cases n) (auto simp: is_cont_def)
  then show ?case using Suc by (simp add: trim_start_Cons_ws ascii_ws_def)
qed simp

lemma trim_end_snoc_ws: "ascii_ws c \<Longrightarrow> trim_end (s @ [c]) = trim_end s"
  by (simp add: trim_end_def chars_append ascii_ws_not_cont)

lemma trim_end_snoc_not_ws:
  "\<not> ascii_ws c \<Longrightarrow> \<not> is_cont c \<Longrightarrow> trim_end (s @ [c]) = s @ [c]"
  by (simp add: trim_end_def chars_append)

text \<open>A nonempty string trimmed at its end does not end in ASCII white space.\<close>

lemma trim_end_last:
  assumes "trim_end s = s" "s \<noteq> []"
  shows "\<not> ascii_ws (last s)"
proof
  assume ws: "ascii_ws (last s)"
  obtain t c where s: "s = t @ [c]" using assms(2) by (cases s rule: rev_cases) auto
  with ws have "trim_end s = trim_end t" by (simp add: trim_end_snoc_ws)
  then have "length s \<le> length t" using assms(1) length_trim_end [of t] by metis
  then show False using s by simp
qed

lemma trim_start_hd:
  assumes "trim_start s = s" "s = c # r" "boundary r"
  shows "\<not> ascii_ws c"
proof
  assume "ascii_ws c"
  then have "trim_start s = trim_start r" using assms by (simp add: trim_start_Cons_ws)
  then show False using assms length_trim_start [of r] by simp
qed

lemma trim_end_append:
  assumes "trim_end t = t" "t \<noteq> []" "boundary t"
  shows "trim_end (s @ t) = s @ t"
proof -
  have ne: "chars t \<noteq> []" using assms(2) by simp
  have "rev (dropWhile is_whitespace (rev (chars t))) = chars t"
    using assms(1) chars_trim_end by metis
  then have "dropWhile is_whitespace (rev (chars t)) = rev (chars t)"
    by (metis rev_rev_ident)
  then have "\<not> is_whitespace (hd (rev (chars t)))"
    using ne by (metis hd_dropWhile rev_is_Nil_conv)
  then have "\<not> is_whitespace (hd (rev (chars (s @ t))))"
    using ne by (simp add: chars_append [OF assms(3)] hd_append)
  then have "dropWhile is_whitespace (rev (chars (s @ t))) = rev (chars (s @ t))"
    using assms(2) by (cases "rev (chars (s @ t))") auto
  then show ?thesis by (simp add: trim_end_def)
qed

section \<open>Prefixes, suffixes, searching\<close>

definition starts_with :: "string \<Rightarrow> string \<Rightarrow> bool" where
  "starts_with s p \<longleftrightarrow> take (length p) s = p"

definition ends_with :: "string \<Rightarrow> string \<Rightarrow> bool" where
  "ends_with s p \<longleftrightarrow> length p \<le> length s \<and> drop (length s - length p) s = p"

definition strip_prefix :: "string \<Rightarrow> string \<Rightarrow> string option" where
  "strip_prefix s p = (if starts_with s p then Some (drop (length p) s) else None)"

definition strip_suffix :: "string \<Rightarrow> string \<Rightarrow> string option" where
  "strip_suffix s p = (if ends_with s p then Some (take (length s - length p) s) else None)"

lemma starts_with_append [simp]: "starts_with (p @ s) p"
  by (simp add: starts_with_def)

lemma starts_with_Nil [simp]: "starts_with s []"
  by (simp add: starts_with_def)

lemma starts_with_Cons [simp]:
  "starts_with (c # s) (d # p) \<longleftrightarrow> c = d \<and> starts_with s p"
  "\<not> starts_with [] (d # p)"
  by (auto simp: starts_with_def)

lemma starts_with_iff: "starts_with s p \<longleftrightarrow> (\<exists>r. s = p @ r)"
  unfolding starts_with_def by (metis append_eq_conv_conj append_take_drop_id)

lemma ends_with_iff: "ends_with s p \<longleftrightarrow> (\<exists>r. s = r @ p)"
proof
  assume "ends_with s p"
  then show "\<exists>r. s = r @ p" unfolding ends_with_def by (metis append_take_drop_id)
next
  assume "\<exists>r. s = r @ p"
  then show "ends_with s p" by (auto simp: ends_with_def)
qed

lemma starts_with_length: "starts_with s p \<Longrightarrow> length p \<le> length s"
  by (auto simp: starts_with_iff)

lemma strip_prefix_Some_iff: "strip_prefix s p = Some r \<longleftrightarrow> s = p @ r"
  by (auto simp: strip_prefix_def starts_with_iff)

lemma strip_prefix_append [simp]: "strip_prefix (p @ s) p = Some s"
  by (simp add: strip_prefix_Some_iff)

lemma strip_suffix_Some_iff: "strip_suffix s p = Some r \<longleftrightarrow> s = r @ p"
  by (auto simp: strip_suffix_def ends_with_iff)

text \<open>\<open>str::find\<close>, \<open>str::rfind\<close> and \<open>str::contains\<close> of a pattern string.\<close>

fun find_sub :: "string \<Rightarrow> string \<Rightarrow> nat option" where
  "find_sub p [] = (if p = [] then Some 0 else None)"
| "find_sub p (c # s) = (if starts_with (c # s) p then Some 0 else map_option Suc (find_sub p s))"

fun rfind_sub :: "string \<Rightarrow> string \<Rightarrow> nat option" where
  "rfind_sub p [] = (if p = [] then Some 0 else None)"
| "rfind_sub p (c # s) =
     (case rfind_sub p s of
        Some i \<Rightarrow> Some (Suc i)
      | None \<Rightarrow> if starts_with (c # s) p then Some 0 else None)"

lemma find_sub_Some:
  "find_sub p s = Some i \<Longrightarrow> i + length p \<le> length s \<and> starts_with (drop i s) p"
proof (induction s arbitrary: i)
  case (Cons c s)
  show ?case
  proof (cases "starts_with (c # s) p")
    case True
    then show ?thesis using Cons.prems starts_with_length [OF True] by simp
  next
    case False
    then show ?thesis using Cons by auto
  qed
qed (auto split: if_splits)

lemma find_sub_None_iff: "find_sub p s = None \<longleftrightarrow> (\<forall>a b. s \<noteq> a @ p @ b)"
proof (induction s)
  case (Cons c s)
  show ?case
  proof (cases "starts_with (c # s) p")
    case True
    then show ?thesis by (auto simp: starts_with_iff) (metis append_Nil)
  next
    case False
    then have ne: "c # s \<noteq> p @ b" for b by (auto simp: starts_with_iff)
    have "(\<forall>a b. s \<noteq> a @ p @ b) \<longleftrightarrow> (\<forall>a b. c # s \<noteq> a @ p @ b)"
      using ne by (auto simp: Cons_eq_append_conv)
    then show ?thesis using Cons False by simp
  qed
qed (auto split: if_splits)

lemma rfind_sub_Some:
  "rfind_sub p s = Some i \<Longrightarrow> i + length p \<le> length s \<and> starts_with (drop i s) p"
proof (induction s arbitrary: i)
  case (Cons c s)
  show ?case
  proof (cases "rfind_sub p s")
    case None
    then show ?thesis
      using Cons.prems starts_with_length [of "c # s" p] by (auto split: if_splits)
  next
    case (Some j)
    then show ?thesis using Cons by auto
  qed
qed (auto split: if_splits)

definition str_contains :: "string \<Rightarrow> string \<Rightarrow> bool" where
  "str_contains s p \<longleftrightarrow> find_sub p s \<noteq> None"

section \<open>Splitting\<close>

text \<open>\<open>split_once(c)\<close>, \<open>rsplit_once(c)\<close> and \<open>split(c)\<close> for an ASCII
  character, and \<open>[String]::join\<close>.\<close>

definition split_once :: "char \<Rightarrow> string \<Rightarrow> (string \<times> string) option" where
  "split_once c s =
     (case dropWhile (\<lambda>x. x \<noteq> c) s of
        [] \<Rightarrow> None
      | _ # r \<Rightarrow> Some (takeWhile (\<lambda>x. x \<noteq> c) s, r))"

definition rsplit_once :: "char \<Rightarrow> string \<Rightarrow> (string \<times> string) option" where
  "rsplit_once c s =
     (case dropWhile (\<lambda>x. x \<noteq> c) (rev s) of
        [] \<Rightarrow> None
      | _ # r \<Rightarrow> Some (rev r, rev (takeWhile (\<lambda>x. x \<noteq> c) (rev s))))"

fun split_on :: "char \<Rightarrow> string \<Rightarrow> string list" where
  "split_on c [] = [[]]"
| "split_on c (x # xs) =
     (if x = c then [] # split_on c xs
      else (case split_on c xs of [] \<Rightarrow> [[x]] | y # ys \<Rightarrow> (x # y) # ys))"

fun join :: "string \<Rightarrow> string list \<Rightarrow> string" where
  "join sep [] = []"
| "join sep [x] = x"
| "join sep (x # y # ys) = x @ sep @ join sep (y # ys)"

lemma split_once_append [simp]: "c \<notin> set a \<Longrightarrow> split_once c (a @ c # b) = Some (a, b)"
proof -
  assume "c \<notin> set a"
  then have "\<forall>x \<in> set a. x \<noteq> c" by blast
  then show ?thesis by (simp add: split_once_def takeWhile_append2 dropWhile_append2)
qed

lemma split_once_Some_iff: "split_once c s = Some (a, b) \<longleftrightarrow> s = a @ c # b \<and> c \<notin> set a"
proof
  assume "split_once c s = Some (a, b)"
  then obtain x where d: "dropWhile (\<lambda>x. x \<noteq> c) s = x # b" and a: "a = takeWhile (\<lambda>x. x \<noteq> c) s"
    by (auto simp: split_once_def split: list.splits)
  have "x = c" using hd_dropWhile [of "\<lambda>x. x \<noteq> c" s] d by auto
  then show "s = a @ c # b \<and> c \<notin> set a"
    using a d takeWhile_dropWhile_id [of "\<lambda>x. x \<noteq> c" s] by (auto dest: set_takeWhileD)
qed auto

lemma split_once_None_iff: "split_once c s = None \<longleftrightarrow> c \<notin> set s"
proof (cases "c \<in> set s")
  case True
  then obtain a b where "s = a @ c # b" "c \<notin> set a" by (meson split_list_first)
  then show ?thesis by simp
next
  case False
  then have d: "dropWhile (\<lambda>x. x \<noteq> c) s = []" by (auto simp: dropWhile_eq_Nil_conv)
  show ?thesis unfolding split_once_def d using False by simp
qed

lemma rsplit_once_rev:
  "rsplit_once c s = map_option (\<lambda>(a, b). (rev b, rev a)) (split_once c (rev s))"
proof (cases "dropWhile (\<lambda>x. x \<noteq> c) (rev s)")
  case Nil
  show ?thesis unfolding rsplit_once_def split_once_def Nil by simp
next
  case (Cons x r)
  show ?thesis unfolding rsplit_once_def split_once_def Cons by simp
qed

lemma rsplit_once_Some_iff: "rsplit_once c s = Some (a, b) \<longleftrightarrow> s = a @ c # b \<and> c \<notin> set b"
proof
  assume "rsplit_once c s = Some (a, b)"
  then have "split_once c (rev s) = Some (rev b, rev a)"
    by (auto simp: rsplit_once_rev)
  then have "rev s = rev b @ c # rev a" "c \<notin> set b" by (auto simp: split_once_Some_iff)
  then show "s = a @ c # b \<and> c \<notin> set b"
    by (metis append.assoc append_Cons append_Nil rev.simps(2) rev_append rev_rev_ident)
next
  assume "s = a @ c # b \<and> c \<notin> set b"
  then have "split_once c (rev s) = Some (rev b, rev a)" by (simp add: split_once_Some_iff)
  then show "rsplit_once c s = Some (a, b)" by (simp add: rsplit_once_rev)
qed

lemma split_on_not_Nil [simp]: "split_on c s \<noteq> []"
  by (induction s) (auto split: list.splits)

lemma join_split_on: "join [c] (split_on c s) = s"
proof (induction s)
  case (Cons x s)
  show ?case
  proof (cases "x = c")
    case True
    then show ?thesis using Cons by (cases "split_on c s") auto
  next
    case False
    then show ?thesis using Cons by (cases "split_on c s"; cases "tl (split_on c s)") auto
  qed
qed simp

lemma split_on_no_sep: "c \<notin> set s \<Longrightarrow> split_on c s = [s]"
  by (induction s) auto

lemma split_on_Cons_append:
  "c \<notin> set a \<Longrightarrow> split_on c (a @ c # s) = a # split_on c s"
  by (induction a) auto

lemma split_on_join:
  "xs \<noteq> [] \<Longrightarrow> \<forall>x \<in> set xs. c \<notin> set x \<Longrightarrow> split_on c (join [c] xs) = xs"
proof (induction "[c]" xs rule: join.induct)
  case (3 x y ys)
  then show ?case by (simp add: split_on_Cons_append)
qed (auto simp: split_on_no_sep)

lemma split_on_no_sep_in: "x \<in> set (split_on c s) \<Longrightarrow> c \<notin> set x"
proof (induction s arbitrary: x)
  case (Cons y s)
  then show ?case by (fastforce split: if_splits list.splits)
qed simp

text \<open>\<open>split_whitespace\<close>: the maximal runs of characters that are not white space.\<close>

fun ws_words :: "string \<Rightarrow> string list \<Rightarrow> string list" where
  "ws_words cur [] = (if cur = [] then [] else [cur])"
| "ws_words cur (g # gs) =
     (if is_whitespace g then (if cur = [] then ws_words [] gs else cur # ws_words [] gs)
      else ws_words (cur @ g) gs)"

definition split_whitespace :: "string \<Rightarrow> string list" where
  "split_whitespace s = ws_words [] (chars s)"

definition no_ws :: "string \<Rightarrow> bool" where
  "no_ws s \<longleftrightarrow> (\<forall>g \<in> set (chars s). \<not> is_whitespace g)"

lemma ws_words_run:
  "\<forall>g \<in> set gs. \<not> is_whitespace g \<Longrightarrow> ws_words cur (gs @ hs) = ws_words (cur @ concat gs) hs"
  by (induction gs arbitrary: cur) auto

lemma ws_words_nonempty: "[] \<notin> set (ws_words cur gs)"
  by (induction cur gs rule: ws_words.induct) auto

lemma split_whitespace_nonempty: "[] \<notin> set (split_whitespace s)"
  by (simp add: split_whitespace_def ws_words_nonempty)

lemma split_whitespace_Nil [simp]: "split_whitespace [] = []"
  by (simp add: split_whitespace_def)

lemma split_whitespace_word: "no_ws w \<Longrightarrow> split_whitespace w = (if w = [] then [] else [w])"
  using ws_words_run [of "chars w" "[]" "[]"] by (simp add: split_whitespace_def no_ws_def)

lemma split_whitespace_word_space:
  assumes "no_ws w" "w \<noteq> []" "boundary s"
  shows "split_whitespace (w @ CHR '' '' # s) = w # split_whitespace s"
proof -
  have "chars (w @ CHR '' '' # s) = chars w @ [CHR '' ''] # chars s"
    using assms(3) by (subst chars_append) (auto simp: is_cont_def)
  then show ?thesis
    using assms ws_words_run [of "chars w" "[]"]
    by (simp add: split_whitespace_def no_ws_def ascii_ws_def)
qed

lemma split_whitespace_join:
  assumes "\<forall>w \<in> set ws. no_ws w \<and> w \<noteq> [] \<and> boundary w"
  shows "split_whitespace (join '' '' ws) = ws"
  using assms
proof (induction "'' ''" ws rule: join.induct)
  case (2 x)
  then show ?case by (simp add: split_whitespace_word)
next
  case (3 x y ys)
  have "boundary (join '' '' (y # ys))"
    using "3.prems" by (cases ys; cases y) auto
  then have "split_whitespace (x @ CHR '' '' # join '' '' (y # ys)) =
      x # split_whitespace (join '' '' (y # ys))"
    using "3.prems" by (intro split_whitespace_word_space) auto
  then show ?case using 3 by simp
qed simp

text \<open>\<open>split_inclusive('\n')\<close> and \<open>str::lines\<close>: a line keeps a carriage return only
  when no line feed follows it.\<close>

fun split_inclusive_lf :: "string \<Rightarrow> string list" where
  "split_inclusive_lf [] = []"
| "split_inclusive_lf (c # cs) =
     (if c = LF then [c] # split_inclusive_lf cs
      else (case split_inclusive_lf cs of [] \<Rightarrow> [[c]] | l # ls \<Rightarrow> (c # l) # ls))"

definition strip_line_end :: "string \<Rightarrow> string" where
  "strip_line_end l =
     (case strip_suffix l [LF] of
        None \<Rightarrow> l
      | Some m \<Rightarrow> (case strip_suffix m [CR] of None \<Rightarrow> m | Some k \<Rightarrow> k))"

definition str_lines :: "string \<Rightarrow> string list" where
  "str_lines s = map strip_line_end (split_inclusive_lf s)"

lemma concat_split_inclusive_lf [simp]: "concat (split_inclusive_lf s) = s"
  by (induction s) (auto split: list.splits)

lemma split_inclusive_lf_cut:
  "LF \<notin> set x \<Longrightarrow> split_inclusive_lf (x @ LF # y) = (x @ [LF]) # split_inclusive_lf y"
  by (induction x) auto

lemma split_inclusive_lf_last: "LF \<notin> set x \<Longrightarrow> x \<noteq> [] \<Longrightarrow> split_inclusive_lf x = [x]"
proof (induction x)
  case (Cons c x)
  then show ?case by (cases x) auto
qed simp

lemma split_inclusive_lf_append:
  "a = [] \<or> last a = LF \<Longrightarrow> split_inclusive_lf (a @ b) = split_inclusive_lf a @ split_inclusive_lf b"
proof (induction a)
  case (Cons c a)
  show ?case
  proof (cases a)
    case Nil
    then show ?thesis using Cons.prems by simp
  next
    case (Cons d ds)
    then have "split_inclusive_lf (a @ b) = split_inclusive_lf a @ split_inclusive_lf b"
      using Cons.IH Cons.prems by simp
    moreover have "split_inclusive_lf a \<noteq> []"
      using Cons concat_split_inclusive_lf [of a] by (metis concat.simps(1) list.distinct(1))
    ultimately show ?thesis by (cases "split_inclusive_lf a") auto
  qed
qed simp

lemma str_lines_append:
  "a = [] \<or> last a = LF \<Longrightarrow> str_lines (a @ b) = str_lines a @ str_lines b"
  by (simp add: str_lines_def split_inclusive_lf_append)

section \<open>Slices, replacement, display\<close>

text \<open>A byte range \<open>a..b\<close> and the slice it selects. The code only slices ranges inside the
  string, where this is \<open>&s[a..b]\<close>; the components prove that their ranges are inside.\<close>

type_synonym span = "nat \<times> nat"

definition slice :: "string \<Rightarrow> span \<Rightarrow> string" where
  "slice s r = take (snd r - fst r) (drop (fst r) s)"

definition replace_range :: "string \<Rightarrow> span \<Rightarrow> string \<Rightarrow> string" where
  "replace_range s r t = take (fst r) s @ t @ drop (snd r) s"

definition span_in :: "span \<Rightarrow> nat \<Rightarrow> bool" where
  "span_in r n \<longleftrightarrow> fst r \<le> snd r \<and> snd r \<le> n"

lemma slice_append_left [simp]: "b \<le> length s \<Longrightarrow> slice (s @ t) (a, b) = slice s (a, b)"
  by (simp add: slice_def)

lemma slice_append_right [simp]:
  "slice (s @ t) (length s + a, length s + b) = slice t (a, b)"
  by (simp add: slice_def)

lemma slice_full [simp]: "slice s (0, length s) = s"
  by (simp add: slice_def)

lemma slice_empty [simp]: "slice s (a, a) = []"
  by (simp add: slice_def)

lemma slice_adjacent:
  "a \<le> b \<Longrightarrow> b \<le> c \<Longrightarrow> slice s (a, b) @ slice s (b, c) = slice s (a, c)"
proof -
  assume a: "a \<le> b" "b \<le> c"
  have "drop b s = drop (b - a) (drop a s)" using a by simp
  moreover have "c - a = (b - a) + (c - b)" using a by simp
  ultimately show ?thesis by (simp add: slice_def take_add)
qed

lemma length_slice: "span_in r (length s) \<Longrightarrow> length (slice s r) = snd r - fst r"
  by (auto simp: slice_def span_in_def min_def)

lemma replace_range_slice:
  "span_in r (length s) \<Longrightarrow> replace_range s r (slice s r) = s"
proof -
  assume r: "span_in r (length s)"
  have "take (fst r) s @ take (snd r - fst r) (drop (fst r) s) = take (snd r) s"
    using r take_add [of "fst r" "snd r - fst r" s] by (simp add: span_in_def)
  then show ?thesis
    unfolding replace_range_def slice_def by (metis append.assoc append_take_drop_id)
qed

lemma slice_inside:
  assumes "slice s (a, b) = p @ v @ q"
  shows "slice s (a + length p, a + length p + length v) = v"
proof -
  obtain r where d: "drop a s = p @ v @ q @ r"
    using assms append_take_drop_id [of "b - a" "drop a s"] by (metis append.assoc fst_conv slice_def snd_conv)
  have "drop (a + length p) s = drop (length p) (drop a s)" by (simp add: add.commute)
  also have "\<dots> = v @ q @ r" by (simp only: d) simp
  finally show ?thesis by (simp add: slice_def)
qed

text \<open>Decimal display of a \<open>usize\<close>.\<close>

fun show_nat :: "nat \<Rightarrow> string" where
  "show_nat n =
     (if n < 10 then [char_of (48 + n)] else show_nat (n div 10) @ [char_of (48 + n mod 10)])"

declare show_nat.simps [simp del]

section \<open>Hexadecimal text\<close>

text \<open>\<open>format!("{b:02x}")\<close> of every byte.\<close>

definition hex_digit :: "nat \<Rightarrow> char" where
  "hex_digit n = ''0123456789abcdef'' ! n"

definition hex_bytes :: "string \<Rightarrow> string" where
  "hex_bytes bytes = concat (map (\<lambda>b. [hex_digit (byte b div 16), hex_digit (byte b mod 16)]) bytes)"

lemma length_hex_bytes: "length (hex_bytes bytes) = 2 * length bytes"
  by (induction bytes) (simp_all add: hex_bytes_def)

lemma hex_bytes_digits: "set (hex_bytes bytes) \<subseteq> set ''0123456789abcdef''"
proof -
  have "byte b div 16 < 16" for b by (cases b) (simp add: less_mult_imp_div_less)
  then have "set (hex_bytes bytes) \<subseteq> hex_digit ` {..<16}" unfolding hex_bytes_def by auto
  moreover have "hex_digit ` {..<16} \<subseteq> set ''0123456789abcdef''"
  proof (rule image_subsetI)
    fix n :: nat
    assume "n \<in> {..<16}"
    then show "hex_digit n \<in> set ''0123456789abcdef''" unfolding hex_digit_def by (intro nth_mem) simp
  qed
  ultimately show ?thesis by (rule subset_trans)
qed

end
