(* ===== verification/Ordered_Map.thy ===== *)
theory Ordered_Map
  imports Prelude
begin

text \<open>
  Rust's \<open>BTreeMap\<close> and \<open>BTreeSet\<close>: a map is its list of entries in key order, so that
  iteration order is part of the model. The interface \<open>ordered_map\<close> states what the components
  rely on; \<open>bt\<close> interprets it on the sorted lists the models use.
\<close>

fun bt_insert :: "'k::linorder \<Rightarrow> 'v \<Rightarrow> ('k \<times> 'v) list \<Rightarrow> ('k \<times> 'v) list" where
  "bt_insert k v [] = [(k, v)]"
| "bt_insert k v ((k', v') # m) =
     (if k < k' then (k, v) # (k', v') # m
      else if k = k' then (k, v) # m
      else (k', v') # bt_insert k v m)"

fun bt_remove :: "'k::linorder \<Rightarrow> ('k \<times> 'v) list \<Rightarrow> ('k \<times> 'v) list" where
  "bt_remove k [] = []"
| "bt_remove k ((k', v') # m) = (if k = k' then m else (k', v') # bt_remove k m)"

abbreviation bt_get :: "('k \<times> 'v) list \<Rightarrow> 'k \<Rightarrow> 'v option" where
  "bt_get \<equiv> map_of"

definition bt_ok :: "('k::linorder \<times> 'v) list \<Rightarrow> bool" where
  "bt_ok m \<longleftrightarrow> sorted_wrt (<) (map fst m)"

text \<open>\<open>map.entry(k).or_default().push(x)\<close> for a map of vectors.\<close>

definition bt_push :: "'k::linorder \<Rightarrow> 'x \<Rightarrow> ('k \<times> 'x list) list \<Rightarrow> ('k \<times> 'x list) list" where
  "bt_push k x m = bt_insert k ((case bt_get m k of None \<Rightarrow> [] | Some xs \<Rightarrow> xs) @ [x]) m"

text \<open>\<open>BTreeSet::insert\<close>, on the sorted list of the members; the set says itself whether the
  member is new.\<close>

fun bs_insert :: "'k::linorder \<Rightarrow> 'k list \<Rightarrow> 'k list" where
  "bs_insert x [] = [x]"
| "bs_insert x (y # ys) =
     (if x < y then x # y # ys else if x = y then y # ys else y # bs_insert x ys)"

lemma bt_ok_Nil [simp]: "bt_ok []"
  by (simp add: bt_ok_def)

lemma bt_ok_Cons [simp]: "bt_ok ((k, v) # m) \<longleftrightarrow> bt_ok m \<and> (\<forall>k' \<in> fst ` set m. k < k')"
  by (auto simp: bt_ok_def)

lemma fst_set_bt_insert [simp]: "fst ` set (bt_insert k v m) = insert k (fst ` set m)"
  by (induction k v m rule: bt_insert.induct) auto

lemma bt_ok_insert: "bt_ok m \<Longrightarrow> bt_ok (bt_insert k v m)"
proof (induction k v m rule: bt_insert.induct)
  case (2 k v k' v' m)
  then show ?case by (auto dest: less_trans)
qed simp

lemma bt_get_insert: "bt_get (bt_insert k v m) = (bt_get m)(k \<mapsto> v)"
  by (induction k v m rule: bt_insert.induct) (auto simp: fun_eq_iff)

lemma set_bt_remove: "set (bt_remove k m) \<subseteq> set m"
  by (induction k m rule: bt_remove.induct) auto

lemma bt_ok_remove: "bt_ok m \<Longrightarrow> bt_ok (bt_remove k m)"
proof (induction k m rule: bt_remove.induct)
  case (2 k k' v' m)
  then show ?case using set_bt_remove [of k m] by auto
qed simp

lemma bt_get_notin: "k \<notin> fst ` set m \<Longrightarrow> bt_get m k = None"
  by (simp add: map_of_eq_None_iff)

lemma bt_get_remove: "bt_ok m \<Longrightarrow> bt_get (bt_remove k m) = (bt_get m)(k := None)"
proof (induction k m rule: bt_remove.induct)
  case (2 k k' v' m)
  show ?case
  proof (cases "k = k'")
    case True
    then have "bt_get m k = None" using 2(2) by (intro bt_get_notin) auto
    then show ?thesis using True by (auto simp: fun_eq_iff)
  next
    case False
    then show ?thesis using 2 by (auto simp: fun_eq_iff)
  qed
qed auto

lemma bt_ok_distinct: "bt_ok m \<Longrightarrow> distinct (map fst m)"
  by (simp add: bt_ok_def strict_sorted_iff)

lemma bt_ok_push: "bt_ok m \<Longrightarrow> bt_ok (bt_push k x m)"
  by (simp add: bt_push_def bt_ok_insert)

lemma bt_get_push:
  "bt_get (bt_push k x m) =
     (bt_get m)(k \<mapsto> (case bt_get m k of None \<Rightarrow> [] | Some xs \<Rightarrow> xs) @ [x])"
  unfolding bt_push_def by (rule bt_get_insert)

lemma set_bs_insert [simp]: "set (bs_insert x ys) = insert x (set ys)"
  by (induction x ys rule: bs_insert.induct) auto

lemma bs_insert_sorted: "sorted_wrt (<) ys \<Longrightarrow> sorted_wrt (<) (bs_insert x ys)"
proof (induction x ys rule: bs_insert.induct)
  case (2 x y ys)
  then show ?case by (auto dest: less_trans)
qed simp

text \<open>Two sorted maps with the same lookups are the same map: iteration sees nothing else.\<close>

lemma bt_ok_keys_values:
  assumes "distinct (map fst m)"
  shows "m = map (\<lambda>k. (k, the (map_of m k))) (map fst m)"
proof -
  have "(fst kv, the (map_of m (fst kv))) = kv" if "kv \<in> set m" for kv
    using assms that by (cases kv) simp
  then show ?thesis by (simp add: map_idI)
qed

lemma bt_ext:
  assumes "bt_ok m" "bt_ok n" "bt_get m = bt_get n"
  shows "m = n"
proof -
  have "set (map fst m) = set (map fst n)"
    using assms(3) dom_map_of_conv_image_fst [of m] dom_map_of_conv_image_fst [of n] by simp
  then have "map fst m = map fst n"
    using assms(1,2) by (simp add: bt_ok_def strict_sorted_equal)
  then show ?thesis
    using bt_ok_keys_values [OF bt_ok_distinct [OF assms(1)]]
      bt_ok_keys_values [OF bt_ok_distinct [OF assms(2)]] assms(3) by metis
qed

section \<open>The interface\<close>

locale ordered_map =
  fixes get :: "'m \<Rightarrow> 'k::linorder \<Rightarrow> 'v option"
    and put :: "'k \<Rightarrow> 'v \<Rightarrow> 'm \<Rightarrow> 'm"
    and del :: "'k \<Rightarrow> 'm \<Rightarrow> 'm"
    and entries :: "'m \<Rightarrow> ('k \<times> 'v) list"
    and new :: 'm
    and invar :: "'m \<Rightarrow> bool"
  assumes invar_new: "invar new"
    and get_new: "get new = Map.empty"
    and invar_put: "invar m \<Longrightarrow> invar (put k v m)"
    and get_put: "invar m \<Longrightarrow> get (put k v m) = (get m)(k \<mapsto> v)"
    and invar_del: "invar m \<Longrightarrow> invar (del k m)"
    and get_del: "invar m \<Longrightarrow> get (del k m) = (get m)(k := None)"
    and entries_get: "invar m \<Longrightarrow> (k, v) \<in> set (entries m) \<longleftrightarrow> get m k = Some v"
    and entries_sorted: "invar m \<Longrightarrow> sorted_wrt (<) (map fst (entries m))"
begin

definition put_all :: "('k \<times> 'v) list \<Rightarrow> 'm \<Rightarrow> 'm" where
  "put_all kvs m = fold (\<lambda>(k, v). put k v) kvs m"

lemma invar_put_all: "invar m \<Longrightarrow> invar (put_all kvs m)"
  by (induction kvs arbitrary: m) (auto simp: put_all_def invar_put)

lemma get_put_all: "invar m \<Longrightarrow> get (put_all kvs m) = get m ++ map_of (rev kvs)"
proof (induction kvs arbitrary: m)
  case Nil
  then show ?case by (simp add: put_all_def)
next
  case (Cons kv kvs)
  obtain k v where kv: "kv = (k, v)" by (cases kv)
  have "get (put_all kvs (put k v m)) = get (put k v m) ++ map_of (rev kvs)"
    using Cons by (simp add: invar_put)
  then show ?case using Cons.prems kv by (simp add: put_all_def get_put)
qed

lemma distinct_entries: "invar m \<Longrightarrow> distinct (map fst (entries m))"
  using entries_sorted strict_sorted_iff by blast

lemma entries_ext:
  assumes "invar m" "invar n" "get m = get n"
  shows "entries m = entries n"
proof -
  have "map_of (entries m) k = map_of (entries n) k" for k
  proof (cases "get m k")
    case None
    then have "k \<notin> fst ` set (entries m)" "k \<notin> fst ` set (entries n)"
      using assms entries_get by fastforce+
    then have "map_of (entries m) k = None" "map_of (entries n) k = None"
      by (simp_all add: map_of_eq_None_iff)
    then show ?thesis by simp
  next
    case (Some v)
    then have "(k, v) \<in> set (entries m)" "(k, v) \<in> set (entries n)"
      using assms entries_get by auto
    then show ?thesis using assms distinct_entries by simp
  qed
  then have "map_of (entries m) = map_of (entries n)" by blast
  then show ?thesis
    using assms entries_sorted by (intro bt_ext) (auto simp: bt_ok_def)
qed

end

interpretation bt: ordered_map bt_get bt_insert bt_remove "\<lambda>m. m" "[]" bt_ok
proof unfold_locales
  show "(k, v) \<in> set m \<longleftrightarrow> bt_get m k = Some v" if "bt_ok m" for m k v
    using bt_ok_distinct [OF that] by simp
  show "sorted_wrt (<) (map fst m)" if "bt_ok m" for m
    using that by (simp add: bt_ok_def)
qed (simp_all add: bt_ok_insert bt_get_insert bt_ok_remove bt_get_remove)

end
