(* ===== verification/Ids.thy ===== *)
theory Ids
  imports Rust_Str Ordered_Map
begin

text \<open>
  \<open>crates/orgasmic-core/src/id.rs\<close>: node ids, their validators, minting from a random source,
  cross-project references, and the \<open>:PARENT:\<close> tree with its validation.

  The random source is the sequence of draws \<open>gen_range(0..32)\<close> returns; a mint takes its draws
  from the front and returns the rest.
\<close>

definition CROCKFORD :: string where
  "CROCKFORD = ''0123456789ABCDEFGHJKMNPQRSTVWXYZ''"

definition STEM_LEN :: nat where
  "STEM_LEN = 5"

datatype node_id_class = TaskClass | DecisionClass | TermClass | ArtifactClass

text \<open>The prefix of each class as the embedded descriptors of
  \<open>shipped/schema/node-types\<close> give it; \<open>Node_Registry\<close> derives these four from the
  descriptor files.\<close>

fun class_prefix :: "node_id_class \<Rightarrow> string" where
  "class_prefix TaskClass = ''TASK-''"
| "class_prefix DecisionClass = ''dec_''"
| "class_prefix TermClass = ''term_''"
| "class_prefix ArtifactClass = ''ART-''"

definition matches_id_prefix :: "node_id_class \<Rightarrow> string \<Rightarrow> bool" where
  "matches_id_prefix c i \<longleftrightarrow>
     starts_with i (class_prefix c) \<or> (c = TermClass \<and> starts_with i ''term:'')"

definition node_id_class_by_prefix :: "string \<Rightarrow> node_id_class option" where
  "node_id_class_by_prefix i =
     find (\<lambda>c. matches_id_prefix c i) [TaskClass, DecisionClass, TermClass, ArtifactClass]"

section \<open>Cross-project references\<close>

definition project_id_byte :: "char \<Rightarrow> bool" where
  "project_id_byte b \<longleftrightarrow> is_ascii_alphanumeric b \<or> b \<in> {CHR ''-'', CHR ''_'', CHR ''.''}"

definition split_cross_project_reference :: "string \<Rightarrow> (string \<times> string) option" where
  "split_cross_project_reference token =
     (case split_once (CHR '':'') token of
        None \<Rightarrow> None
      | Some (project, i) \<Rightarrow>
          if project = [] \<or> 64 < length project \<or> \<not> list_all project_id_byte project then None
          else if starts_with i ''TASK-'' \<or> starts_with i ''dec_'' \<or> starts_with i ''term_''
          then Some (project, i)
          else None)"

section \<open>Stems and identities\<close>

definition is_crockford_char :: "char \<Rightarrow> bool" where
  "is_crockford_char c \<longleftrightarrow>
     is_ascii_digit c \<or>
     (is_ascii_uppercase c \<and> c \<noteq> CHR ''I'' \<and> c \<noteq> CHR ''L'' \<and> c \<noteq> CHR ''O'' \<and> c \<noteq> CHR ''U'')"

definition is_minted_stem :: "string \<Rightarrow> bool" where
  "is_minted_stem stem \<longleftrightarrow>
     length stem = STEM_LEN \<and> list_all is_crockford_char stem \<and> list_ex is_ascii_alphabetic stem"

text \<open>The random stem: five draws into the alphabet, repeated until one is a letter. \<open>None\<close>
  when the draws run out, which the real source never does.\<close>

fun random_stem :: "nat list \<Rightarrow> (string \<times> nat list) option" where
  "random_stem (a # b # c # d # e # rest) =
     (let stem = map (\<lambda>i. CROCKFORD ! i) [a, b, c, d, e]
      in if list_ex is_ascii_alphabetic stem then Some (stem, rest) else random_stem rest)"
| "random_stem _ = None"

definition mint_node_id :: "node_id_class \<Rightarrow> nat list \<Rightarrow> (string \<times> nat list) option" where
  "mint_node_id c draws =
     (case random_stem draws of
        None \<Rightarrow> None
      | Some (stem, rest) \<Rightarrow> Some (class_prefix c @ stem, rest))"

definition all_ascii_digits :: "string \<Rightarrow> bool" where
  "all_ascii_digits s \<longleftrightarrow> list_all is_ascii_digit s"

definition is_legacy_numeric_task_stem :: "string \<Rightarrow> bool" where
  "is_legacy_numeric_task_stem stem \<longleftrightarrow> stem \<noteq> [] \<and> all_ascii_digits stem"

definition is_valid_task_stem :: "string \<Rightarrow> bool" where
  "is_valid_task_stem stem \<longleftrightarrow> is_legacy_numeric_task_stem stem \<or> is_minted_stem stem"

definition is_valid_task_path_id :: "string \<Rightarrow> bool" where
  "is_valid_task_path_id value =
     (case strip_prefix value ''TASK-'' of
        None \<Rightarrow> False
      | Some rest \<Rightarrow>
          (case split_on (CHR ''.'') rest of
             [] \<Rightarrow> False
           | first # parts \<Rightarrow>
               is_valid_task_stem first \<and>
               list_all (\<lambda>part. part \<noteq> [] \<and> all_ascii_digits part) parts))"

definition derive_task_parent_id :: "string \<Rightarrow> string option" where
  "derive_task_parent_id i =
     (case strip_prefix i ''TASK-'' of
        None \<Rightarrow> None
      | Some rest \<Rightarrow>
          (case rsplit_once (CHR ''.'') rest of
             None \<Rightarrow> None
           | Some (stem, suffix) \<Rightarrow>
               if suffix = [] \<or> \<not> all_ascii_digits suffix then None
               else (let parent = ''TASK-'' @ stem
                     in if is_valid_task_path_id parent then Some parent else None)))"

definition dec_stem_valid :: "string \<Rightarrow> bool" where
  "dec_stem_valid stem \<longleftrightarrow> is_minted_stem stem \<or> (stem \<noteq> [] \<and> all_ascii_digits stem)"

definition is_dec_id :: "string \<Rightarrow> bool" where
  "is_dec_id value =
     (case strip_prefix value ''dec_'' of None \<Rightarrow> False | Some stem \<Rightarrow> dec_stem_valid stem)"

fun is_legacy_sequential_create_id :: "node_id_class \<Rightarrow> string \<Rightarrow> bool" where
  "is_legacy_sequential_create_id TaskClass i \<longleftrightarrow>
     starts_with i ''TASK-'' \<and> CHR ''.'' \<notin> set i \<and> all_ascii_digits (drop (length ''TASK-'') i)"
| "is_legacy_sequential_create_id DecisionClass i \<longleftrightarrow>
     starts_with i ''dec_'' \<and> all_ascii_digits (drop 4 i)"
| "is_legacy_sequential_create_id TermClass i \<longleftrightarrow> False"
| "is_legacy_sequential_create_id ArtifactClass i \<longleftrightarrow> False"

definition looks_like_legacy_numeric_task :: "string \<Rightarrow> bool" where
  "looks_like_legacy_numeric_task i \<longleftrightarrow> is_legacy_sequential_create_id TaskClass i"

definition is_valid_greenfield_task_id :: "string \<Rightarrow> bool" where
  "is_valid_greenfield_task_id value =
     (case strip_prefix value ''TASK-'' of
        None \<Rightarrow> False
      | Some rest \<Rightarrow>
          (case split_on (CHR ''.'') rest of
             [] \<Rightarrow> False
           | stem # parts \<Rightarrow>
               is_minted_stem stem \<and>
               list_all (\<lambda>part. part \<noteq> [] \<and> all_ascii_digits part) parts))"

definition is_valid_greenfield_dec_id :: "string \<Rightarrow> bool" where
  "is_valid_greenfield_dec_id value =
     (case strip_prefix value ''dec_'' of None \<Rightarrow> False | Some stem \<Rightarrow> is_minted_stem stem)"

definition is_valid_greenfield_arch_id :: "string \<Rightarrow> bool" where
  "is_valid_greenfield_arch_id value =
     (case strip_prefix value ''arch_'' of
        None \<Rightarrow> False
      | Some rest \<Rightarrow>
          (case split_on (CHR ''.'') rest of
             [] \<Rightarrow> False
           | stem # parts \<Rightarrow>
               is_minted_stem stem \<and>
               (case parts of
                  [] \<Rightarrow> True
                | part # more \<Rightarrow> part \<noteq> [] \<and> all_ascii_digits part \<and> more = [])))"

definition is_valid_greenfield_term_id :: "string \<Rightarrow> bool" where
  "is_valid_greenfield_term_id value =
     (case strip_prefix value ''term_'' of None \<Rightarrow> False | Some stem \<Rightarrow> is_minted_stem stem)"

definition is_valid_greenfield_artifact_id :: "string \<Rightarrow> bool" where
  "is_valid_greenfield_artifact_id value =
     (case strip_prefix value ''ART-'' of None \<Rightarrow> False | Some stem \<Rightarrow> is_minted_stem stem)"

definition is_valid_greenfield_identity :: "string \<Rightarrow> bool" where
  "is_valid_greenfield_identity i =
     (if starts_with i ''TASK-'' then is_valid_greenfield_task_id i
      else if starts_with i ''dec_'' then is_valid_greenfield_dec_id i
      else if starts_with i ''arch_'' then is_valid_greenfield_arch_id i
      else if starts_with i ''term_'' then is_valid_greenfield_term_id i
      else if starts_with i ''ART-'' then is_valid_greenfield_artifact_id i
      else False)"

section \<open>The parent tree\<close>

datatype parent_tree_error =
    MalformedParent string string
  | WrongClass string string node_id_class
  | MissingParent string string
  | SelfParent string
  | Cycle "string list"
  | DuplicateId string
  | UnknownId string

record parent_tree_node =
  pn_id :: string
  pn_parent :: "string option"

record parent_tree =
  parents :: "(string \<times> string option) list"
  children :: "(string \<times> string list) list"

definition validate_parent_pointer ::
  "node_id_class \<Rightarrow> string \<Rightarrow> string \<Rightarrow> parent_tree_error + unit" where
  "validate_parent_pointer c i parent =
     (if parent = i then Inl (SelfParent i)
      else if \<not> matches_id_prefix c parent then Inl (WrongClass i parent c)
      else Inr ())"

definition parse_parent_value ::
  "node_id_class \<Rightarrow> string \<Rightarrow> string option \<Rightarrow> parent_tree_error + string option" where
  "parse_parent_value c i raw =
     (case map_option trim raw of
        None \<Rightarrow> Inr None
      | Some raw' \<Rightarrow>
          if raw' = [] then Inr None
          else (case split_whitespace raw' of
                  [parent] \<Rightarrow>
                    try_res (validate_parent_pointer c i parent) (\<lambda>_. Inr (Some parent))
                | [] \<Rightarrow> try_res (validate_parent_pointer c i []) (\<lambda>_. Inr (Some []))
                | _ # _ # _ \<Rightarrow> Inl (MalformedParent i raw')))"

definition validate_parent_exists ::
  "string \<Rightarrow> string option \<Rightarrow> string list \<Rightarrow> parent_tree_error + unit" where
  "validate_parent_exists i parent ids =
     (case parent of
        None \<Rightarrow> Inr ()
      | Some p \<Rightarrow> if p \<in> set ids then Inr () else Inl (MissingParent i p))"

definition parent_of :: "parent_tree \<Rightarrow> string \<Rightarrow> parent_tree_error + string option" where
  "parent_of t i = ok_or (UnknownId i) (bt_get (parents t) i)"

definition children_of :: "parent_tree \<Rightarrow> string \<Rightarrow> string list" where
  "children_of t i = (case bt_get (children t) i of None \<Rightarrow> [] | Some cs \<Rightarrow> cs)"

text \<open>The loop of \<open>ancestor_chain\<close>; it may run forever on a cyclic tree, which is \<open>None\<close>.\<close>

partial_function (option) ancestor_loop ::
  "parent_tree \<Rightarrow> string \<Rightarrow> string list \<Rightarrow> (parent_tree_error + string list) option" where
  "ancestor_loop t current out =
     (case parent_of t current of
        Inl e \<Rightarrow> Some (Inl e)
      | Inr None \<Rightarrow> Some (Inr out)
      | Inr (Some parent) \<Rightarrow> ancestor_loop t parent (out @ [parent]))"

definition ancestor_chain ::
  "parent_tree \<Rightarrow> string \<Rightarrow> (parent_tree_error + string list) option" where
  "ancestor_chain t i =
     (if bt_get (parents t) i = None then Some (Inl (UnknownId i)) else ancestor_loop t i [])"

text \<open>\<open>validate_parent_tree\<close>, loop by loop: collecting the nodes, existence of every parent,
  the cycle walk from each id with the set of parents seen so far, and the children lists.\<close>

type_synonym parent_map = "(string \<times> string option) list"

fun collect_nodes ::
  "node_id_class \<Rightarrow> parent_tree_node list \<Rightarrow> parent_map \<Rightarrow> string list \<Rightarrow>
     parent_tree_error + parent_map \<times> string list" where
  "collect_nodes c [] ps ord = Inr (ps, ord)"
| "collect_nodes c (n # ns) ps ord =
     (if bt_get ps (pn_id n) \<noteq> None then Inl (DuplicateId (pn_id n))
      else
        (case pn_parent n of
           None \<Rightarrow> collect_nodes c ns (bt_insert (pn_id n) None ps) (ord @ [pn_id n])
         | Some p \<Rightarrow>
             (case validate_parent_pointer c (pn_id n) p of
                Inl e \<Rightarrow> Inl e
              | Inr _ \<Rightarrow> collect_nodes c ns (bt_insert (pn_id n) (Some p) ps) (ord @ [pn_id n]))))"

fun check_parents_exist :: "parent_map \<Rightarrow> parent_map \<Rightarrow> parent_tree_error + unit" where
  "check_parents_exist ps [] = Inr ()"
| "check_parents_exist ps ((i, parent) # rest) =
     (case parent of
        None \<Rightarrow> check_parents_exist ps rest
      | Some p \<Rightarrow>
          if bt_get ps p = None then Inl (MissingParent i p) else check_parents_exist ps rest)"

text \<open>The walk stops after at most as many steps as there are parents not yet seen.\<close>

function cycle_walk ::
  "parent_map \<Rightarrow> string list \<Rightarrow> string list \<Rightarrow> string \<Rightarrow> parent_tree_error + unit" where
  "cycle_walk ps seen chain current =
     (case Option.bind (bt_get ps current) (\<lambda>p. p) of
        None \<Rightarrow> Inr ()
      | Some parent \<Rightarrow>
          if parent \<in> set seen then Inl (Cycle (chain @ [parent]))
          else cycle_walk ps (bs_insert parent seen) (chain @ [parent]) parent)"
  by pat_completeness auto
termination
proof (relation "measure (\<lambda>(ps, seen, chain, current).
    card ({p. Some p \<in> snd ` set ps} - set seen))")
  fix ps :: parent_map and seen :: "string list" and chain current parent
  assume a: "Option.bind (bt_get ps current) (\<lambda>p. p) = Some parent" "parent \<notin> set seen"
  let ?P = "{p. Some p \<in> snd ` set ps}"
  have "Some parent \<in> snd ` set ps"
    using a(1) by (auto simp: Option.bind_eq_Some_conv dest!: map_of_SomeD)
      (metis image_eqI snd_conv)
  moreover have "finite ?P"
    by (rule finite_subset [of _ "the ` (snd ` set ps)"])
      (use image_iff in \<open>fastforce+\<close>)
  ultimately have "card (?P - set (bs_insert parent seen)) < card (?P - set seen)"
    using a(2) by (intro psubset_card_mono) auto
  then show "((ps, bs_insert parent seen, chain @ [parent], parent), ps, seen, chain, current)
      \<in> measure (\<lambda>(ps, seen, chain, current). card ({p. Some p \<in> snd ` set ps} - set seen))"
    by simp
qed simp

declare cycle_walk.simps [simp del]

fun check_cycles :: "parent_map \<Rightarrow> string list \<Rightarrow> parent_tree_error + unit" where
  "check_cycles ps [] = Inr ()"
| "check_cycles ps (i # ids) =
     (case cycle_walk ps [] [i] i of Inl e \<Rightarrow> Inl e | Inr _ \<Rightarrow> check_cycles ps ids)"

fun collect_children ::
  "parent_map \<Rightarrow> string list \<Rightarrow> (string \<times> string list) list \<Rightarrow> (string \<times> string list) list" where
  "collect_children ps [] ch = ch"
| "collect_children ps (i # ids) ch =
     (case Option.bind (bt_get ps i) (\<lambda>p. p) of
        None \<Rightarrow> collect_children ps ids ch
      | Some parent \<Rightarrow> collect_children ps ids (bt_push parent i ch))"

definition validate_parent_tree ::
  "node_id_class \<Rightarrow> parent_tree_node list \<Rightarrow> parent_tree_error + parent_tree" where
  "validate_parent_tree c nodes =
     (case collect_nodes c nodes [] [] of
        Inl e \<Rightarrow> Inl e
      | Inr (ps, ord) \<Rightarrow>
          (case check_parents_exist ps ps of
             Inl e \<Rightarrow> Inl e
           | Inr _ \<Rightarrow>
               (case check_cycles ps (map fst ps) of
                  Inl e \<Rightarrow> Inl e
                | Inr _ \<Rightarrow> Inr \<lparr>parents = ps, children = collect_children ps ord []\<rparr>)))"

section \<open>Facts about minting\<close>

lemma CROCKFORD_ok: "i < 32 \<Longrightarrow> is_crockford_char (CROCKFORD ! i)"
proof -
  have "list_all is_crockford_char CROCKFORD"
    by (simp add: CROCKFORD_def is_crockford_char_def ascii_defs)
  moreover have "length CROCKFORD = 32" by (simp add: CROCKFORD_def)
  ultimately show "i < 32 \<Longrightarrow> ?thesis" by (simp add: list_all_length)
qed

lemma random_stem_minted:
  "random_stem draws = Some (stem, rest) \<Longrightarrow> \<forall>d \<in> set draws. d < 32 \<Longrightarrow> is_minted_stem stem"
  by (induction draws rule: random_stem.induct)
    (auto simp: is_minted_stem_def STEM_LEN_def Let_def CROCKFORD_ok split: if_splits)

lemma random_stem_returns:
  "list_ex is_ascii_alphabetic (map (\<lambda>i. CROCKFORD ! i) [a, b, c, d, e]) \<Longrightarrow>
   random_stem (a # b # c # d # e # rest) \<noteq> None"
  by (simp add: Let_def)

lemma minted_stem_no_dot: "is_minted_stem stem \<Longrightarrow> CHR ''.'' \<notin> set stem"
  by (auto simp: is_minted_stem_def is_crockford_char_def ascii_defs list_all_iff)

lemma minted_stem_not_digits: "is_minted_stem stem \<Longrightarrow> \<not> all_ascii_digits stem"
proof
  assume "is_minted_stem stem" "all_ascii_digits stem"
  then obtain x where "is_ascii_alphabetic x" "is_ascii_digit x"
    by (auto simp: is_minted_stem_def all_ascii_digits_def list_ex_iff list_all_iff)
  then show False by (auto simp: ascii_defs)
qed

lemma split_minted_stem: "is_minted_stem stem \<Longrightarrow> split_on (CHR ''.'') stem = [stem]"
  by (simp add: split_on_no_sep minted_stem_no_dot)

lemma minted_identity: "is_minted_stem stem \<Longrightarrow> is_valid_greenfield_identity (class_prefix c @ stem)"
  by (cases c)
    (simp_all add: is_valid_greenfield_identity_def is_valid_greenfield_task_id_def
      is_valid_greenfield_dec_id_def is_valid_greenfield_term_id_def
      is_valid_greenfield_artifact_id_def split_minted_stem strip_prefix_def starts_with_def)

lemma minted_not_legacy:
  "is_minted_stem stem \<Longrightarrow> \<not> is_legacy_sequential_create_id k (class_prefix c @ stem)"
  by (cases k; cases c) (simp_all add: minted_stem_not_digits starts_with_def)

lemma minted_class: "node_id_class_by_prefix (class_prefix c @ stem) = Some c"
  by (cases c) (simp_all add: node_id_class_by_prefix_def matches_id_prefix_def starts_with_def)

text \<open>Every id \<open>mint_node_id\<close> returns is a well-formed current identity of the
  class it was minted for, and is never mistaken for a legacy sequential id of any class, whatever
  the random draws.\<close>

theorem mint_node_id_sound:
  assumes "mint_node_id c draws = Some (i, rest)" "\<forall>d \<in> set draws. d < 32"
  shows "is_valid_greenfield_identity i \<and> node_id_class_by_prefix i = Some c \<and>
    (\<forall>k. \<not> is_legacy_sequential_create_id k i)"
proof -
  from assms(1) obtain stem where "random_stem draws = Some (stem, rest)" "i = class_prefix c @ stem"
    by (auto simp: mint_node_id_def split: option.splits)
  with assms(2) show ?thesis
    using random_stem_minted minted_identity minted_not_legacy minted_class by metis
qed

theorem mint_node_id_sound_witness:
  "mint_node_id TaskClass [1, 2, 3, 4, 5, 0, 1, 2, 3, 10] = Some (''TASK-0123A'', []) \<and>
   is_valid_greenfield_identity ''TASK-0123A''"
proof -
  have a: "mint_node_id TaskClass [1, 2, 3, 4, 5, 0, 1, 2, 3, 10] = Some (''TASK-0123A'', [])"
    by code_simp
  show ?thesis using a mint_node_id_sound [OF a] by simp
qed

section \<open>Relations between the validators\<close>

lemma greenfield_task_is_path_id:
  "is_valid_greenfield_task_id i \<Longrightarrow> is_valid_task_path_id i"
  by (auto simp: is_valid_greenfield_task_id_def is_valid_task_path_id_def is_valid_task_stem_def
      split: option.splits list.splits)

lemma greenfield_dec_is_dec_id: "is_valid_greenfield_dec_id i \<Longrightarrow> is_dec_id i"
  by (auto simp: is_valid_greenfield_dec_id_def is_dec_id_def dec_stem_valid_def
      split: option.splits)

lemma split_on_append_sep:
  "c \<notin> set b \<Longrightarrow> split_on c (a @ c # b) = split_on c a @ [b]"
proof (induction a)
  case Nil
  then show ?case by (simp add: split_on_no_sep)
next
  case (Cons x a)
  then show ?case by (cases "split_on c a") auto
qed

text \<open>A derived parent is the id without its last \<open>.n\<close>, and is itself a valid path id; the
  subtask id below it is valid too.\<close>

lemma derive_task_parent_id_Some:
  assumes "derive_task_parent_id i = Some p"
  shows "\<exists>n. i = p @ ''.'' @ n \<and> n \<noteq> [] \<and> all_ascii_digits n \<and>
    is_valid_task_path_id p \<and> is_valid_task_path_id i"
proof -
  from assms obtain rest stem n where
    r: "i = ''TASK-'' @ rest" and s: "rest = stem @ CHR ''.'' # n" "CHR ''.'' \<notin> set n" and
    n: "n \<noteq> []" "all_ascii_digits n" and p: "p = ''TASK-'' @ stem" "is_valid_task_path_id p"
    by (auto simp: derive_task_parent_id_def strip_prefix_Some_iff rsplit_once_Some_iff Let_def
        split: option.splits if_splits)
  have "is_valid_task_path_id i"
    using p n r s split_on_append_sep [OF s(2), of stem]
    by (auto simp: is_valid_task_path_id_def strip_prefix_def starts_with_def split: list.splits)
  with r s n p show ?thesis by auto
qed

text \<open>Every subtask of a valid task id has exactly that task as its derived parent.\<close>

lemma derive_task_parent_id_child:
  assumes "is_valid_task_path_id p" "n \<noteq> []" "all_ascii_digits n"
  shows "derive_task_parent_id (p @ ''.'' @ n) = Some p"
proof -
  from assms(1) obtain stem where p: "p = ''TASK-'' @ stem"
    by (auto simp: is_valid_task_path_id_def strip_prefix_Some_iff split: option.splits)
  have "CHR ''.'' \<notin> set n"
    using assms(3) by (auto simp: all_ascii_digits_def list_all_iff is_ascii_digit_def)
  then have "rsplit_once (CHR ''.'') (stem @ CHR ''.'' # n) = Some (stem, n)"
    by (simp add: rsplit_once_Some_iff)
  with assms p show ?thesis
    by (simp add: derive_task_parent_id_def strip_prefix_def starts_with_def Let_def)
qed

lemma cross_project_reference_parts:
  "split_cross_project_reference t = Some (p, i) \<Longrightarrow>
     t = p @ '':'' @ i \<and> p \<noteq> [] \<and> length p \<le> 64 \<and> CHR '':'' \<notin> set p \<and>
     node_id_class_by_prefix i \<noteq> None"
  by (auto simp: split_cross_project_reference_def split_once_Some_iff starts_with_iff
      node_id_class_by_prefix_def matches_id_prefix_def split: option.splits if_splits)

section \<open>Facts about the parent tree\<close>

abbreviation par :: "parent_map \<Rightarrow> string \<Rightarrow> string option" where
  "par ps i \<equiv> Option.bind (bt_get ps i) (\<lambda>p. p)"

text \<open>\<open>is_chain ps i anc\<close>: \<open>anc\<close> is the whole walk from \<open>i\<close> to a root.\<close>

fun is_chain :: "parent_map \<Rightarrow> string \<Rightarrow> string list \<Rightarrow> bool" where
  "is_chain ps i [] \<longleftrightarrow> par ps i = None"
| "is_chain ps i (p # anc) \<longleftrightarrow> par ps i = Some p \<and> is_chain ps p anc"

lemma is_chain_unique: "is_chain ps i a \<Longrightarrow> is_chain ps i b \<Longrightarrow> a = b"
proof (induction a arbitrary: i b)
  case Nil
  then show ?case by (cases b) auto
next
  case (Cons p a)
  then show ?case by (cases b) auto
qed

lemma is_chain_suffix: "is_chain ps i (xs @ j # ys) \<Longrightarrow> is_chain ps j ys"
  by (induction xs arbitrary: i) auto

lemma is_chain_irrefl: "is_chain ps i anc \<Longrightarrow> i \<notin> set anc"
proof
  assume c: "is_chain ps i anc" and "i \<in> set anc"
  then obtain xs ys where a: "anc = xs @ i # ys" by (meson split_list)
  with c have "is_chain ps i ys" using is_chain_suffix by blast
  with c have "anc = ys" by (rule is_chain_unique)
  with a show False by simp
qed

lemma is_chain_distinct: "is_chain ps i anc \<Longrightarrow> distinct anc"
  by (induction anc arbitrary: i) (auto simp: is_chain_irrefl)

lemma cycle_walk_chain: "cycle_walk ps seen chain i = Inr () \<Longrightarrow> \<exists>anc. is_chain ps i anc"
proof (induction ps seen chain i rule: cycle_walk.induct)
  case (1 ps seen chain i)
  show ?case
  proof (cases "par ps i")
    case None
    then show ?thesis by (metis is_chain.simps(1))
  next
    case (Some p)
    then have "p \<notin> set seen"
      using 1(2) by (auto simp: cycle_walk.simps [of ps seen chain i] split: if_splits)
    moreover from this Some 1(2) have "cycle_walk ps (bs_insert p seen) (chain @ [p]) p = Inr ()"
      by (simp add: cycle_walk.simps [of ps seen chain i])
    ultimately obtain anc where "is_chain ps p anc" using 1(1) [OF Some] by blast
    then have "is_chain ps i (p # anc)" using Some by simp
    then show ?thesis by blast
  qed
qed

lemma check_cycles_chain:
  "check_cycles ps ids = Inr () \<Longrightarrow> i \<in> set ids \<Longrightarrow> \<exists>anc. is_chain ps i anc"
  by (induction ids) (auto split: sum.splits dest: cycle_walk_chain)

lemma check_parents_exist_iff:
  "check_parents_exist ps qs = Inr () \<longleftrightarrow>
     (\<forall>(i, parent) \<in> set qs. \<forall>p. parent = Some p \<longrightarrow> bt_get ps p \<noteq> None)"
  by (induction ps qs rule: check_parents_exist.induct) (auto split: option.splits)

lemma ancestor_loop_chain:
  "is_chain (parents t) i anc \<Longrightarrow> bt_get (parents t) i \<noteq> None \<Longrightarrow>
   (\<forall>(j, parent) \<in> set (parents t). \<forall>p. parent = Some p \<longrightarrow> bt_get (parents t) p \<noteq> None) \<Longrightarrow>
   ancestor_loop t i out = Some (Inr (out @ anc))"
proof (induction anc arbitrary: i out)
  case Nil
  then have "bt_get (parents t) i = Some None" by (cases "bt_get (parents t) i") auto
  then show ?case by (simp add: ancestor_loop.simps [of t i out] parent_of_def)
next
  case (Cons p anc)
  then have g: "bt_get (parents t) i = Some (Some p)"
    by (auto simp: Option.bind_eq_Some_conv)
  then have "bt_get (parents t) p \<noteq> None"
    using Cons.prems(3) map_of_SomeD by fastforce
  then have "ancestor_loop t p (out @ [p]) = Some (Inr ((out @ [p]) @ anc))"
    using Cons by auto
  then show ?case using g by (simp add: ancestor_loop.simps [of t i out] parent_of_def)
qed

lemma collect_nodes_result:
  assumes "collect_nodes c ns ps ord = Inr (ps', ord')" "bt_ok ps"
  shows "bt_ok ps' \<and> ord' = ord @ map pn_id ns \<and> distinct (map pn_id ns) \<and>
    (\<forall>n \<in> set ns. bt_get ps (pn_id n) = None) \<and>
    bt_get ps' = bt_get ps ++ map_of (map (\<lambda>n. (pn_id n, pn_parent n)) ns) \<and>
    (\<forall>n \<in> set ns. \<forall>p. pn_parent n = Some p \<longrightarrow> p \<noteq> pn_id n \<and> matches_id_prefix c p)"
  using assms
proof (induction c ns ps ord rule: collect_nodes.induct)
  case (2 c n ns ps ord)
  let ?ps = "bt_insert (pn_id n) (pn_parent n) ps"
  from 2(3) have new: "bt_get ps (pn_id n) = None"
    and rec: "collect_nodes c ns ?ps (ord @ [pn_id n]) = Inr (ps', ord')"
    and ptr: "\<forall>p. pn_parent n = Some p \<longrightarrow> p \<noteq> pn_id n \<and> matches_id_prefix c p"
    by (auto simp: validate_parent_pointer_def split: if_splits option.splits sum.splits)
  have ok: "bt_ok ?ps" using 2(4) by (simp add: bt_ok_insert)
  have IH: "bt_ok ps' \<and> ord' = (ord @ [pn_id n]) @ map pn_id ns \<and> distinct (map pn_id ns) \<and>
    (\<forall>n' \<in> set ns. bt_get ?ps (pn_id n') = None) \<and>
    bt_get ps' = bt_get ?ps ++ map_of (map (\<lambda>n. (pn_id n, pn_parent n)) ns) \<and>
    (\<forall>n \<in> set ns. \<forall>p. pn_parent n = Some p \<longrightarrow> p \<noteq> pn_id n \<and> matches_id_prefix c p)"
  proof (cases "pn_parent n")
    case None
    then show ?thesis using 2(1) new rec ok by simp
  next
    case (Some p)
    then have "validate_parent_pointer c (pn_id n) p = Inr ()"
      using ptr by (simp add: validate_parent_pointer_def)
    then show ?thesis using 2(2) new rec ok Some by simp
  qed
  have fresh: "\<forall>n' \<in> set ns. pn_id n' \<noteq> pn_id n \<and> bt_get ps (pn_id n') = None"
    using IH by (auto simp: bt_get_insert split: if_splits)
  have "map_of (map (\<lambda>n. (pn_id n, pn_parent n)) ns) (pn_id n) = None"
    using fresh by (auto simp: map_of_eq_None_iff)
  then have eq: "bt_get ps' = bt_get ps ++ map_of (map (\<lambda>n. (pn_id n, pn_parent n)) (n # ns))"
    using IH by (auto simp: bt_get_insert fun_eq_iff map_add_def split: option.splits)
  have "\<forall>n' \<in> set (n # ns). bt_get ps (pn_id n') = None" "distinct (map pn_id (n # ns))"
    using IH fresh new by auto
  moreover have "ord' = ord @ map pn_id (n # ns)" using IH by simp
  moreover have "\<forall>m \<in> set (n # ns). \<forall>p. pn_parent m = Some p \<longrightarrow> p \<noteq> pn_id m \<and> matches_id_prefix c p"
    using IH ptr by simp
  ultimately show ?case using IH eq by blast
qed simp

lemma collect_children_get:
  "bt_get (collect_children ps ids ch) p =
     (case [i \<leftarrow> ids. par ps i = Some p] of
        [] \<Rightarrow> bt_get ch p
      | js \<Rightarrow> Some ((case bt_get ch p of None \<Rightarrow> [] | Some xs \<Rightarrow> xs) @ js))"
proof (induction ps ids ch rule: collect_children.induct)
  case (2 ps i ids ch)
  show ?case
  proof (cases "par ps i")
    case None
    then show ?thesis using 2 by simp
  next
    case (Some q)
    then show ?thesis using 2(2) [OF Some] by (auto simp: bt_get_push split: list.splits option.splits)
  qed
qed simp

text \<open>The whole of a validated tree, as its components see it.\<close>

lemma validate_parent_tree_facts:
  assumes "validate_parent_tree c nodes = Inr t"
  shows "distinct (map pn_id nodes)"
    and "bt_get (parents t) = map_of (map (\<lambda>n. (pn_id n, pn_parent n)) nodes)"
    and "\<And>n p. n \<in> set nodes \<Longrightarrow> pn_parent n = Some p \<Longrightarrow>
      p \<noteq> pn_id n \<and> matches_id_prefix c p \<and> p \<in> pn_id ` set nodes"
    and "\<And>i. i \<in> pn_id ` set nodes \<Longrightarrow>
      \<exists>anc. is_chain (parents t) i anc \<and> ancestor_chain t i = Some (Inr anc)"
    and "children_of t p = [i \<leftarrow> map pn_id nodes. par (parents t) i = Some p]"
proof -
  from assms obtain ps ord where col: "collect_nodes c nodes [] [] = Inr (ps, ord)"
    and ex: "check_parents_exist ps ps = Inr ()" and cyc: "check_cycles ps (map fst ps) = Inr ()"
    and t: "t = \<lparr>parents = ps, children = collect_children ps ord []\<rparr>"
    by (auto simp: validate_parent_tree_def split: sum.splits)
  note R = collect_nodes_result [OF col bt_ok_Nil]
  have get: "bt_get ps = map_of (map (\<lambda>n. (pn_id n, pn_parent n)) nodes)" using R by simp
  have dom: "bt_get ps i \<noteq> None \<longleftrightarrow> i \<in> pn_id ` set nodes" for i
    unfolding get by (auto simp: map_of_eq_None_iff image_image)
  have keys: "i \<in> set (map fst ps)" if "i \<in> pn_id ` set nodes" for i
    using that dom [of i] by (metis map_of_eq_None_iff set_map)
  show "distinct (map pn_id nodes)" using R by simp
  show "bt_get (parents t) = map_of (map (\<lambda>n. (pn_id n, pn_parent n)) nodes)"
    using t get by simp
  have all: "\<forall>(j, parent) \<in> set ps. \<forall>p. parent = Some p \<longrightarrow> bt_get ps p \<noteq> None"
    using ex by (simp add: check_parents_exist_iff)
  show "p \<noteq> pn_id n \<and> matches_id_prefix c p \<and> p \<in> pn_id ` set nodes"
    if "n \<in> set nodes" "pn_parent n = Some p" for n p
  proof -
    have "bt_get ps (pn_id n) = Some (Some p)"
      using that R unfolding get by (intro map_of_is_SomeI) (auto simp: comp_def image_iff)
    then have "bt_get ps p \<noteq> None" using all map_of_SomeD by fastforce
    then show ?thesis using R that dom by blast
  qed
  show "\<exists>anc. is_chain (parents t) i anc \<and> ancestor_chain t i = Some (Inr anc)"
    if i: "i \<in> pn_id ` set nodes" for i
  proof -
    obtain anc where "is_chain ps i anc"
      using check_cycles_chain [OF cyc keys [OF i]] by blast
    then show ?thesis
      using ancestor_loop_chain [of t i anc "[]"] all dom [of i] i t
      by (auto simp: ancestor_chain_def)
  qed
  show "children_of t p = [i \<leftarrow> map pn_id nodes. par (parents t) i = Some p]"
    using R t by (simp add: children_of_def collect_children_get split: list.splits)
qed

lemma chain_in_nodes:
  assumes v: "validate_parent_tree c nodes = Inr t"
  shows "is_chain (parents t) i anc \<Longrightarrow>
    \<forall>a \<in> set anc. a \<in> pn_id ` set nodes \<and> matches_id_prefix c a"
proof (induction anc arbitrary: i)
  case (Cons p anc)
  then have "bt_get (parents t) i = Some (Some p)" by (auto simp: Option.bind_eq_Some_conv)
  then obtain n where "n \<in> set nodes" "pn_parent n = Some p"
    unfolding validate_parent_tree_facts(2) [OF v] by (auto dest!: map_of_SomeD)
  then show ?case using Cons validate_parent_tree_facts(3) [OF v] by auto
qed simp

lemma map_of_nodes:
  "distinct (map pn_id nodes) \<Longrightarrow> n \<in> set nodes \<Longrightarrow>
   map_of (map (\<lambda>n. (pn_id n, pn_parent n)) nodes) (pn_id n) = Some (pn_parent n)"
  by (rule map_of_is_SomeI) (auto simp: comp_def)

text \<open>The chain of parents of a node, as the nodes declare them: \<open>declared_chain nodes i anc\<close> says
  that \<open>anc\<close> leads from the node \<open>i\<close>, one declared parent at a time, to a node that declares none.\<close>

fun declared_chain :: "parent_tree_node list \<Rightarrow> string \<Rightarrow> string list \<Rightarrow> bool" where
  "declared_chain nodes i [] \<longleftrightarrow> (\<exists>n \<in> set nodes. pn_id n = i \<and> pn_parent n = None)"
| "declared_chain nodes i (p # anc) \<longleftrightarrow>
     (\<exists>n \<in> set nodes. pn_id n = i \<and> pn_parent n = Some p) \<and> declared_chain nodes p anc"

lemma declared_chain_of_walk:
  assumes v: "validate_parent_tree c nodes = Inr t"
  shows "i \<in> pn_id ` set nodes \<Longrightarrow> is_chain (parents t) i anc \<Longrightarrow> declared_chain nodes i anc"
proof (induction anc arbitrary: i)
  case Nil
  then obtain n where n: "n \<in> set nodes" "pn_id n = i" by blast
  have "bt_get (parents t) i = Some (pn_parent n)"
    using n map_of_nodes [OF validate_parent_tree_facts(1) [OF v] n(1)]
    unfolding validate_parent_tree_facts(2) [OF v] by simp
  then have "pn_parent n = None" using Nil.prems(2) by simp
  then show ?case using n by auto
next
  case (Cons p anc)
  then have "bt_get (parents t) i = Some (Some p)" by (auto simp: Option.bind_eq_Some_conv)
  then obtain n where n: "n \<in> set nodes" "pn_id n = i" "pn_parent n = Some p"
    unfolding validate_parent_tree_facts(2) [OF v] by (auto dest!: map_of_SomeD)
  then have "p \<in> pn_id ` set nodes" using validate_parent_tree_facts(3) [OF v] by blast
  then show ?case using Cons n by auto
qed

text \<open>Claim C14. A tree \<open>validate_parent_tree\<close> accepts has no cycle: from every node the
  ancestor walk returns, and what it returns is the whole chain of the node's declared parents, nearest
  first, up to a node that declares no parent. The node and its ancestors are pairwise distinct, and
  every ancestor is a node of the tree and of the tree's class.\<close>

theorem validated_ancestor_chain:
  assumes v: "validate_parent_tree c nodes = Inr t" and i: "i \<in> pn_id ` set nodes"
  shows "\<exists>anc. ancestor_chain t i = Some (Inr anc) \<and> declared_chain nodes i anc \<and>
    distinct (i # anc) \<and> (\<forall>a \<in> set anc. a \<in> pn_id ` set nodes \<and> matches_id_prefix c a)"
proof -
  obtain anc where "is_chain (parents t) i anc" "ancestor_chain t i = Some (Inr anc)"
    using validate_parent_tree_facts(4) [OF v i] by blast
  then show ?thesis
    using declared_chain_of_walk [OF v i] chain_in_nodes [OF v] is_chain_irrefl is_chain_distinct
    by (metis distinct.simps(2))
qed

theorem validated_ancestor_chain_witness:
  "\<exists>t anc. validate_parent_tree TaskClass
      [\<lparr>pn_id = ''TASK-1'', pn_parent = None\<rparr>, \<lparr>pn_id = ''TASK-1.1'', pn_parent = Some ''TASK-1''\<rparr>]
      = Inr t \<and> ancestor_chain t ''TASK-1.1'' = Some (Inr anc) \<and> distinct (''TASK-1.1'' # anc) \<and>
      declared_chain [\<lparr>pn_id = ''TASK-1'', pn_parent = None\<rparr>,
        \<lparr>pn_id = ''TASK-1.1'', pn_parent = Some ''TASK-1''\<rparr>] ''TASK-1.1'' anc"
proof -
  let ?ns = "[\<lparr>pn_id = ''TASK-1'', pn_parent = None\<rparr>,
    \<lparr>pn_id = ''TASK-1.1'', pn_parent = Some ''TASK-1''\<rparr>]"
  have a: "validate_parent_tree TaskClass ?ns =
      Inr \<lparr>parents = [(''TASK-1'', None), (''TASK-1.1'', Some ''TASK-1'')],
           children = [(''TASK-1'', [''TASK-1.1''])]\<rparr>"
    by code_simp
  have i: "''TASK-1.1'' \<in> pn_id ` set ?ns" by simp
  show ?thesis using a validated_ancestor_chain [OF a i] by blast
qed

text \<open>In a validated tree the children of a node are exactly the nodes whose parent
  it is, in document order, and \<open>parent_of\<close> gives every node the parent it declared.\<close>

theorem validated_children_parents:
  assumes v: "validate_parent_tree c nodes = Inr t"
  shows "children_of t p = map pn_id [n \<leftarrow> nodes. pn_parent n = Some p] \<and>
    (\<forall>n \<in> set nodes. parent_of t (pn_id n) = Inr (pn_parent n))"
proof
  note F = validate_parent_tree_facts [OF v]
  have get: "bt_get (parents t) (pn_id n) = Some (pn_parent n)" if "n \<in> set nodes" for n
    unfolding F(2) using F(1) that by (rule map_of_nodes)
  then show "\<forall>n \<in> set nodes. parent_of t (pn_id n) = Inr (pn_parent n)"
    by (simp add: parent_of_def)
  have "filter (\<lambda>i. par (parents t) i = Some p) (map pn_id nodes) =
      map pn_id (filter (\<lambda>n. par (parents t) (pn_id n) = Some p) nodes)"
    by (simp add: filter_map comp_def)
  also have "\<dots> = map pn_id (filter (\<lambda>n. pn_parent n = Some p) nodes)"
    using get by (intro arg_cong [where f = "map pn_id"] filter_cong) auto
  finally show "children_of t p = map pn_id [n \<leftarrow> nodes. pn_parent n = Some p]"
    by (simp add: F(5))
qed

theorem validated_children_parents_witness:
  "\<exists>t. validate_parent_tree DecisionClass
      [\<lparr>pn_id = ''dec_B'', pn_parent = Some ''dec_A''\<rparr>, \<lparr>pn_id = ''dec_A'', pn_parent = None\<rparr>]
      = Inr t \<and> children_of t ''dec_A'' = [''dec_B'']"
proof -
  let ?ns = "[\<lparr>pn_id = ''dec_B'', pn_parent = Some ''dec_A''\<rparr>, \<lparr>pn_id = ''dec_A'', pn_parent = None\<rparr>]"
  have a: "validate_parent_tree DecisionClass ?ns =
      Inr \<lparr>parents = [(''dec_A'', None), (''dec_B'', Some ''dec_A'')],
           children = [(''dec_A'', [''dec_B''])]\<rparr>"
    by code_simp
  show ?thesis using a validated_children_parents [OF a, of "''dec_A''"] by auto
qed

lemma cycle_walk_complete:
  "is_chain ps i anc \<Longrightarrow> set anc \<inter> set seen = {} \<Longrightarrow> cycle_walk ps seen chain i = Inr ()"
proof (induction anc arbitrary: i seen chain)
  case Nil
  then show ?case by (simp add: cycle_walk.simps [of ps seen chain i])
next
  case (Cons p anc)
  then have "p \<notin> set anc" using is_chain_irrefl by auto
  then have "cycle_walk ps (bs_insert p seen) (chain @ [p]) p = Inr ()"
    using Cons by (intro Cons.IH) auto
  then show ?case using Cons.prems by (simp add: cycle_walk.simps [of ps seen chain i])
qed

lemma check_cycles_complete:
  "\<forall>i \<in> set ids. \<exists>anc. is_chain ps i anc \<Longrightarrow> check_cycles ps ids = Inr ()"
proof (induction ids)
  case (Cons i ids)
  then obtain anc where "is_chain ps i anc" by auto
  then have "cycle_walk ps [] [i] i = Inr ()" by (rule cycle_walk_complete) simp
  then show ?case using Cons by simp
qed simp

lemma collect_nodes_complete:
  "distinct (map pn_id ns) \<Longrightarrow> \<forall>n \<in> set ns. bt_get ps (pn_id n) = None \<Longrightarrow>
   \<forall>n \<in> set ns. \<forall>p. pn_parent n = Some p \<longrightarrow> p \<noteq> pn_id n \<and> matches_id_prefix c p \<Longrightarrow>
   \<exists>r. collect_nodes c ns ps ord = Inr r"
proof (induction c ns ps ord rule: collect_nodes.induct)
  case (2 c n ns ps ord)
  have new: "bt_get ps (pn_id n) = None" using 2(4) by simp
  have rest: "distinct (map pn_id ns)"
    "\<forall>m \<in> set ns. \<forall>p. pn_parent m = Some p \<longrightarrow> p \<noteq> pn_id m \<and> matches_id_prefix c p"
    using 2(3,5) by simp_all
  have fresh: "\<forall>n' \<in> set ns. bt_get (bt_insert (pn_id n) x ps) (pn_id n') = None" for x
    using 2(3,4) by (auto simp: bt_get_insert) (metis image_eqI)
  show ?case
  proof (cases "pn_parent n")
    case None
    then show ?thesis using 2(1) [OF _ None rest(1) fresh rest(2)] new by simp
  next
    case (Some p)
    then have "validate_parent_pointer c (pn_id n) p = Inr ()"
      using 2(5) by (simp add: validate_parent_pointer_def)
    then show ?thesis using 2(2) [OF _ Some _ rest(1) fresh rest(2)] new Some by simp
  qed
qed simp

text \<open>Claim C15. \<open>validate_parent_tree\<close> accepts exactly the node lists whose ids are distinct,
  whose parents are other nodes of the list and of the class, and in which every node's walk ends
  at a root; every other list is refused.\<close>

theorem validate_parent_tree_accepts_iff:
  "is_ok (validate_parent_tree c nodes) \<longleftrightarrow>
     distinct (map pn_id nodes) \<and>
     (\<forall>n \<in> set nodes. \<forall>p. pn_parent n = Some p \<longrightarrow>
        p \<noteq> pn_id n \<and> matches_id_prefix c p \<and> p \<in> pn_id ` set nodes) \<and>
     (\<forall>n \<in> set nodes. \<exists>anc.
        is_chain (map (\<lambda>n. (pn_id n, pn_parent n)) nodes) (pn_id n) anc)"
  (is "?ok \<longleftrightarrow> ?spec")
proof
  have chain_cong: "is_chain ps i anc = is_chain qs i anc"
    if "map_of ps = map_of qs" for ps qs :: parent_map and i anc
    using that by (induction anc arbitrary: i) auto
  {
    assume ?ok
    then obtain t where v: "validate_parent_tree c nodes = Inr t" by (auto simp: is_ok_iff)
    note F = validate_parent_tree_facts [OF v]
    show ?spec
      using F(1,3,4) chain_cong [OF F(2)] by (metis imageI)
  next
    assume spec: ?spec
    then obtain ps ord where col: "collect_nodes c nodes [] [] = Inr (ps, ord)"
      using collect_nodes_complete [of nodes "[]" c "[]"] by auto
    note R = collect_nodes_result [OF col bt_ok_Nil]
    have get: "map_of ps = map_of (map (\<lambda>n. (pn_id n, pn_parent n)) nodes)" using R by simp
    have dom: "fst ` set ps = pn_id ` set nodes"
      using arg_cong [OF get, of dom] by (simp add: dom_map_of_conv_image_fst image_image)
    have "check_parents_exist ps ps = Inr ()"
    proof -
      have "bt_get ps p \<noteq> None" if "(i, Some p) \<in> set ps" for i p
      proof -
        have "map_of ps i = Some (Some p)" using R that bt_ok_distinct by (intro map_of_is_SomeI) auto
        then obtain n where "n \<in> set nodes" "pn_parent n = Some p"
          unfolding get by (auto dest!: map_of_SomeD)
        then have "p \<in> fst ` set ps" using spec dom by auto
        then show ?thesis by (simp add: map_of_eq_None_iff)
      qed
      then show ?thesis by (auto simp: check_parents_exist_iff)
    qed
    moreover have "check_cycles ps (map fst ps) = Inr ()"
      using spec chain_cong [OF get] dom by (intro check_cycles_complete) auto
    ultimately show ?ok using col by (simp add: validate_parent_tree_def)
  }
qed


theorem validate_parent_tree_accepts_iff_witness:
  "is_ok (validate_parent_tree DecisionClass
     [\<lparr>pn_id = ''dec_B'', pn_parent = Some ''dec_A''\<rparr>, \<lparr>pn_id = ''dec_A'', pn_parent = None\<rparr>]) \<and>
   \<not> is_ok (validate_parent_tree DecisionClass [\<lparr>pn_id = ''dec_B'', pn_parent = Some ''dec_A''\<rparr>])"
proof
  have m: "matches_id_prefix DecisionClass ''dec_A''" by code_simp
  show "is_ok (validate_parent_tree DecisionClass
     [\<lparr>pn_id = ''dec_B'', pn_parent = Some ''dec_A''\<rparr>, \<lparr>pn_id = ''dec_A'', pn_parent = None\<rparr>])"
    unfolding validate_parent_tree_accepts_iff using m
    by (auto intro: exI [of _ "[''dec_A'']"] exI [of _ "[]"])
  show "\<not> is_ok (validate_parent_tree DecisionClass [\<lparr>pn_id = ''dec_B'', pn_parent = Some ''dec_A''\<rparr>])"
    unfolding validate_parent_tree_accepts_iff by simp
qed

end
