(* ===== verification/Org_Syntax.thy ===== *)
theory Org_Syntax
  imports Rust_Str
begin

text \<open>
  The line level of \<open>crates/orgasmic-core/src/org.rs\<close>: splitting a source into line spans,
  the mask of lines inside \<open>#+begin_\<close> blocks, heading lines with their TODO keyword and tags,
  file keywords and drawer properties. Parsing files from these is \<open>Org_Parser\<close>.
\<close>

section \<open>Line spans\<close>

record line_span =
  ls_start :: nat
  ls_content_end :: nat
  ls_next :: nat

definition ls_full :: "line_span \<Rightarrow> span" where
  "ls_full l = (ls_start l, ls_next l)"

definition ls_content :: "line_span \<Rightarrow> span" where
  "ls_content l = (ls_start l, ls_content_end l)"

text \<open>The byte loop of \<open>split_lines\<close>, at byte \<open>i\<close> of the line that began at
  \<open>start\<close>.\<close>

function split_lines_loop :: "string \<Rightarrow> nat \<Rightarrow> nat \<Rightarrow> line_span list" where
  "split_lines_loop bytes start i =
     (if i < length bytes then
        if bytes ! i = LF then
          \<lparr>ls_start = start,
           ls_content_end = (if start < i \<and> bytes ! (i - 1) = CR then i - 1 else i),
           ls_next = i + 1\<rparr> # split_lines_loop bytes (i + 1) (i + 1)
        else split_lines_loop bytes start (i + 1)
      else if start < length bytes then
        [\<lparr>ls_start = start, ls_content_end = length bytes, ls_next = length bytes\<rparr>]
      else [])"
  by pat_completeness auto
termination
  by (relation "measure (\<lambda>(bytes, start, i). length bytes - i)") auto

declare split_lines_loop.simps [simp del]

definition split_lines :: "string \<Rightarrow> line_span list" where
  "split_lines source = split_lines_loop source 0 0"

section \<open>Blocks and headings\<close>

text \<open>\<open>heading_level\<close>: the stars at column 0, when a space follows them.\<close>

definition heading_level :: "string \<Rightarrow> nat option" where
  "heading_level text =
     (case text of
        [] \<Rightarrow> None
      | c # _ \<Rightarrow>
          if c \<noteq> CHR ''*'' then None
          else (let n = length (takeWhile (\<lambda>x. x = CHR ''*'') text)
                in if n = 0 \<or> length text \<le> n \<or> text ! n \<noteq> CHR '' '' then None else Some n))"

definition starts_block :: "string \<Rightarrow> bool" where
  "starts_block text \<longleftrightarrow> starts_with (to_ascii_lowercase (trim_start text)) ''#+begin_''"

definition ends_block :: "string \<Rightarrow> bool" where
  "ends_block text \<longleftrightarrow> starts_with (to_ascii_lowercase (trim_start text)) ''#+end_''"

text \<open>Only the first bytes matter, which is what evaluation looks at.\<close>

lemma starts_with_lowercase:
  "starts_with (to_ascii_lowercase s) p \<longleftrightarrow> to_ascii_lowercase (take (length p) s) = p"
  by (simp add: starts_with_def to_ascii_lowercase_def take_map)

lemma ascii_lower_byte_punct:
  "ascii_lower_byte c = d \<Longrightarrow> \<not> is_ascii_lowercase d \<Longrightarrow> c = d"
  by (auto simp: ascii_lower_byte_def ascii_defs split: if_splits)

lemma lowercase_directive:
  "to_ascii_lowercase (take (Suc (Suc n)) s) = CHR ''#'' # CHR ''+'' # p \<Longrightarrow> starts_with s ''#+''"
  by (cases s; cases "tl s")
    (auto simp: to_ascii_lowercase_def is_ascii_lowercase_def dest: ascii_lower_byte_punct)

lemma starts_block_code [code]:
  "starts_block text \<longleftrightarrow>
     starts_with (trim_start text) ''#+'' \<and>
     to_ascii_lowercase (take 8 (trim_start text)) = ''#+begin_''"
  using lowercase_directive [of 6 "trim_start text"]
  by (auto simp: starts_block_def starts_with_lowercase eval_nat_numeral)

lemma ends_block_code [code]:
  "ends_block text \<longleftrightarrow>
     starts_with (trim_start text) ''#+'' \<and>
     to_ascii_lowercase (take 6 (trim_start text)) = ''#+end_''"
  using lowercase_directive [of 4 "trim_start text"]
  by (auto simp: ends_block_def starts_with_lowercase eval_nat_numeral)

text \<open>One line of \<open>org_block_line_mask\<close>: the depth after the line.\<close>

definition block_depth_after :: "nat \<Rightarrow> string \<Rightarrow> nat" where
  "block_depth_after depth text =
     (let depth' = (if starts_block text then depth + 1 else depth)
      in if ends_block text \<and> 0 < depth' then depth' - 1 else depth')"

fun org_block_line_mask :: "string \<Rightarrow> nat \<Rightarrow> line_span list \<Rightarrow> bool list" where
  "org_block_line_mask source depth [] = []"
| "org_block_line_mask source depth (l # ls) =
     (let text = slice source (ls_content l)
      in (0 < depth \<or> starts_block text) #
         org_block_line_mask source (block_depth_after depth text) ls)"

section \<open>Heading lines\<close>

record parsed_heading_line =
  phl_todo :: "string option"
  phl_title :: string
  phl_tags :: "string list"

definition TODO_KEYWORDS :: "string list" where
  "TODO_KEYWORDS =
    [''BACKLOG'', ''TODO'', ''IN_PROGRESS'', ''IN_REVIEW'', ''DONE'', ''CANCELLED'',
     ''GOAL'', ''CLEARED'', ''SUPERSEDED'']"

definition is_todo_keyword :: "string \<Rightarrow> bool" where
  "is_todo_keyword s \<longleftrightarrow> s \<in> set TODO_KEYWORDS"

definition is_tag_char :: "char \<Rightarrow> bool" where
  "is_tag_char b \<longleftrightarrow> is_ascii_alphanumeric b \<or> b \<in> {CHR ''_'', CHR ''-'', CHR ''@'', CHR ''#''}"

definition is_tag_run_char :: "char \<Rightarrow> bool" where
  "is_tag_run_char b \<longleftrightarrow> b = CHR '':'' \<or> is_tag_char b"

definition split_trailing_tags :: "string \<Rightarrow> string \<times> string list" where
  "split_trailing_tags line =
     (let trimmed = trim_end line
      in if \<not> ends_with trimmed '':'' \<or> length trimmed < 3 then (line, [])
         else
           (let start = length trimmed - length (takeWhile is_tag_run_char (rev trimmed))
            in if start = length trimmed then (line, [])
               else if start = 0 then (line, [])
               else if trimmed ! (start - 1) \<noteq> CHR '' '' \<and> trimmed ! (start - 1) \<noteq> TAB
               then (line, [])
               else
                 (let run = drop start trimmed
                  in if \<not> starts_with run '':'' \<or> \<not> ends_with run '':'' \<or> length run < 3
                     then (line, [])
                     else
                       (let segments = split_on (CHR '':'') (trim_matches (CHR '':'') run)
                        in if segments = [] \<or> [] \<in> set segments then (line, [])
                           else (take (length (trim_end (take start trimmed))) line, segments)))))"

definition parse_heading_line ::
  "string \<Rightarrow> nat \<Rightarrow> string list \<Rightarrow> parsed_heading_line option" where
  "parse_heading_line text level declared =
     (let stars = length (takeWhile (\<lambda>c. c = CHR ''*'') text);
          after_stars = (if stars = length text then 0 else stars)
      in if stars \<noteq> level then None
         else if \<not> starts_with (drop after_stars text) '' '' then None
         else
           (let rest = trim_end_matches CR (drop (after_stars + 1) text)
            in if rest = [] then Some \<lparr>phl_todo = None, phl_title = [], phl_tags = []\<rparr>
               else
                 (let (body, tags) = split_trailing_tags rest;
                      body_trimmed = trim_end body;
                      (todo, title) =
                        (let whole =
                               (if is_todo_keyword body_trimmed \<or> body_trimmed \<in> set declared
                                then (Some body_trimmed, []) else (None, body_trimmed))
                         in case split_once (CHR '' '') body_trimmed of
                              Some (first, remainder) \<Rightarrow>
                                if is_todo_keyword first \<or> first \<in> set declared
                                then (Some first, trim_start remainder)
                                else whole
                            | None \<Rightarrow> whole)
                  in Some \<lparr>phl_todo = todo, phl_title = title, phl_tags = tags\<rparr>)))"

section \<open>Keywords and properties\<close>

definition parse_keyword_line :: "string \<Rightarrow> (string \<times> string) option" where
  "parse_keyword_line rest =
     (case split_once (CHR '':'') (trim_end_matches CR rest) of
        None \<Rightarrow> None
      | Some (key, value) \<Rightarrow> if trim key = [] then None else Some (trim key, trim value))"

record property_entry =
  pe_key :: string
  pe_value :: string
  pe_span :: span
  pe_value_span :: span

definition parse_property_line :: "string \<Rightarrow> line_span \<Rightarrow> property_entry option" where
  "parse_property_line text span =
     (let stripped = trim_end_matches CR text;
          leading_ws_len = length stripped - length (trim_start stripped);
          trimmed = drop leading_ws_len stripped
      in if \<not> starts_with trimmed '':'' then None
         else
           (case find_sub '':'' (drop 1 trimmed) of
              None \<Rightarrow> None
            | Some key_end \<Rightarrow>
                (let key = take key_end (drop 1 trimmed)
                 in if key = [] then None
                    else
                      (let after_kv = leading_ws_len + 1 + key_end + 1;
                           raw_value = drop after_kv stripped;
                           leading_value_ws = length raw_value - length (trim_start raw_value);
                           value_start = ls_start span + after_kv + leading_value_ws;
                           value_trimmed = trim raw_value
                       in Some \<lparr>pe_key = key, pe_value = value_trimmed,
                                pe_span = ls_full span,
                                pe_value_span = (value_start, value_start + length value_trimmed)\<rparr>))))"

section \<open>The spans of split_lines\<close>

text \<open>Consecutive spans that tile \<open>a..b\<close>, each with its content inside it.\<close>

fun tiles :: "nat \<Rightarrow> nat \<Rightarrow> line_span list \<Rightarrow> bool" where
  "tiles a b [] \<longleftrightarrow> a = b"
| "tiles a b (l # ls) \<longleftrightarrow>
     ls_start l = a \<and> a \<le> ls_content_end l \<and> ls_content_end l \<le> ls_next l \<and> a < ls_next l \<and>
     tiles (ls_next l) b ls"

lemma tiles_le: "tiles a b ls \<Longrightarrow> a \<le> b"
  by (induction ls arbitrary: a) fastforce+

lemma split_lines_loop_tiles:
  "start \<le> i \<Longrightarrow> i \<le> length bytes \<Longrightarrow> tiles start (length bytes) (split_lines_loop bytes start i)"
proof (induction bytes start i rule: split_lines_loop.induct)
  case (1 bytes start i)
  show ?case
  proof (cases "i < length bytes")
    case True
    then show ?thesis
      using 1 by (cases "bytes ! i = LF") (auto simp: split_lines_loop.simps [of bytes start i])
  next
    case False
    then have "i = length bytes" using 1(4) by simp
    then show ?thesis
      using 1(3) by (simp add: split_lines_loop.simps [of bytes start "length bytes"])
  qed
qed

lemma split_lines_tiles: "tiles 0 (length source) (split_lines source)"
  by (simp add: split_lines_def split_lines_loop_tiles)

lemma tiles_slices:
  "tiles a b ls \<Longrightarrow> b \<le> length s \<Longrightarrow> concat (map (\<lambda>l. slice s (ls_full l)) ls) = slice s (a, b)"
proof (induction ls arbitrary: a)
  case (Cons l ls)
  then have "slice s (a, ls_next l) @ slice s (ls_next l, b) = slice s (a, b)"
    using tiles_le by (intro slice_adjacent) auto
  moreover have "concat (map (\<lambda>l. slice s (ls_full l)) ls) = slice s (ls_next l, b)"
    using Cons by simp
  ultimately show ?case using Cons.prems by (simp add: ls_full_def)
qed simp

lemma tiles_member:
  "tiles a b ls \<Longrightarrow> l \<in> set ls \<Longrightarrow>
   a \<le> ls_start l \<and> ls_start l \<le> ls_content_end l \<and> ls_content_end l \<le> ls_next l \<and> ls_next l \<le> b"
proof (induction ls arbitrary: a)
  case (Cons x ls)
  then show ?case using tiles_le [of "ls_next x" b ls] by fastforce
qed simp

end
