(* ===== verification/Org_Parser.thy ===== *)
theory Org_Parser
  imports Org_Syntax
begin

text \<open>
  \<open>OrgFile::parse\<close> of \<open>crates/orgasmic-core/src/org.rs\<close>: the data of a parsed file with its
  byte spans, the recursive descent over headings, and the lookups on the result.

  The parser's index into its table of lines is here the list of the lines from that index on; a line
  carries its number, span, text and block flag, so \<open>lines[idx]\<close>, \<open>line_text(idx)\<close>
  and \<open>heading_level_at(idx)\<close> read the head of the list.
\<close>

section \<open>Data\<close>

record keyword =
  kw_key :: string
  kw_value :: string
  kw_span :: span

record property_drawer =
  pd_entries :: "property_entry list"
  pd_span :: span

datatype heading =
  Heading (h_level: nat) (h_todo: "string option") (h_title: string) (h_tags: "string list")
    (h_properties: "property_drawer option") (h_sections: "heading list")
    (h_title_line: span) (h_span: span) (h_body: span)

record org_file =
  of_source :: string
  of_keywords :: "keyword list"
  of_headings :: "heading list"
  of_prelude :: span

datatype org_error =
    BadProperty string nat string
  | UnterminatedDrawer string nat
  | BadHeading string nat string
  | BadKeyword string nat string
  | HeadingNotFound string string
  | PropertyNotFound string string string
  | SectionNotFound string string string
  | NoPropertyDrawer string string
  | BodyHeadingInjection string
  | BodyRoundTripLoss string string nat nat
  | HeadingRoundTripLoss string string string string

section \<open>Lookups\<close>

definition property_entries :: "heading \<Rightarrow> property_entry list" where
  "property_entries h = (case h_properties h of None \<Rightarrow> [] | Some d \<Rightarrow> pd_entries d)"

definition property :: "heading \<Rightarrow> string \<Rightarrow> string option" where
  "property h key =
     (case h_properties h of
        None \<Rightarrow> None
      | Some d \<Rightarrow> map_option pe_value (find (\<lambda>e. pe_key e = key) (pd_entries d)))"

lemma size_section: "x \<in> set (h_sections h) \<Longrightarrow> size x < size h"
proof (cases h)
  case (Heading a b c d e secs f g k)
  assume "x \<in> set (h_sections h)"
  then have "size x \<le> size_list size secs" using Heading by (simp add: size_list_estimation')
  then show ?thesis using Heading by simp
qed

function find_by_id :: "string \<Rightarrow> heading \<Rightarrow> heading option" where
  "find_by_id i h =
     (if property h ''ID'' = Some i then Some h else find_map (find_by_id i) (h_sections h))"
  by pat_completeness auto
termination
  by (relation "measure (\<lambda>(i, h). size h)") (auto simp: size_section)

declare find_by_id.simps [simp del]

definition file_find_by_id :: "org_file \<Rightarrow> string \<Rightarrow> heading option" where
  "file_find_by_id f i = find_map (find_by_id i) (of_headings f)"

definition find_by_title_prefix :: "org_file \<Rightarrow> string \<Rightarrow> heading option" where
  "find_by_title_prefix f prefix = find (\<lambda>h. starts_with (h_title h) prefix) (of_headings f)"

definition section_of :: "heading \<Rightarrow> string \<Rightarrow> heading option" where
  "section_of h title = find (\<lambda>s. h_title s = title) (h_sections h)"

definition file_slice :: "org_file \<Rightarrow> span \<Rightarrow> string" where
  "file_slice f r = slice (of_source f) r"

section \<open>The parser's lines\<close>

record org_line =
  ol_no :: nat
  ol_span :: line_span
  ol_text :: string
  ol_in_block :: bool

fun number_lines :: "string \<Rightarrow> nat \<Rightarrow> line_span list \<Rightarrow> bool list \<Rightarrow> org_line list" where
  "number_lines source n (l # ls) (b # bs) =
     \<lparr>ol_no = n, ol_span = l, ol_text = slice source (ls_content l), ol_in_block = b\<rparr> #
     number_lines source (n + 1) ls bs"
| "number_lines source n _ _ = []"

definition parser_lines :: "string \<Rightarrow> org_line list" where
  "parser_lines source =
     (let lines = split_lines source
      in number_lines source 1 lines (org_block_line_mask source 0 lines))"

definition heading_level_at :: "org_line \<Rightarrow> nat option" where
  "heading_level_at l = (if ol_in_block l then None else heading_level (ol_text l))"

definition is_heading_line :: "org_line \<Rightarrow> bool" where
  "is_heading_line l \<longleftrightarrow> heading_level_at l \<noteq> None"

abbreviation ol_start :: "org_line \<Rightarrow> nat" where
  "ol_start l \<equiv> ls_start (ol_span l)"

abbreviation ol_next :: "org_line \<Rightarrow> nat" where
  "ol_next l \<equiv> ls_next (ol_span l)"

text \<open>\<open>lines[idx].start\<close>, or the end of the source when no line is left.\<close>

definition start_or :: "nat \<Rightarrow> org_line list \<Rightarrow> nat" where
  "start_or eof ls = (case ls of [] \<Rightarrow> eof | l # _ \<Rightarrow> ol_start l)"

section \<open>Drawers\<close>

fun parse_drawer_loop ::
  "string \<Rightarrow> org_line \<Rightarrow> property_entry list \<Rightarrow> org_line list \<Rightarrow>
     org_error + property_drawer \<times> org_line list" where
  "parse_drawer_loop d open_line entries [] = Inl (UnterminatedDrawer d (ol_no open_line))"
| "parse_drawer_loop d open_line entries (l # ls) =
     (if trim (ol_text l) = '':END:'' then
        Inr (\<lparr>pd_entries = entries, pd_span = (ol_start open_line, start_or (ol_next l) ls)\<rparr>, ls)
      else if trim (ol_text l) = [] then
        Inl (BadProperty d (ol_no l) ''blank line inside property drawer'')
      else
        (case parse_property_line (ol_text l) (ol_span l) of
           None \<Rightarrow> Inl (BadProperty d (ol_no l) (ol_text l))
         | Some e \<Rightarrow> parse_drawer_loop d open_line (entries @ [e]) ls))"

definition parse_opt_drawer ::
  "string \<Rightarrow> org_line list \<Rightarrow> org_error + property_drawer option \<times> org_line list" where
  "parse_opt_drawer d ls =
     (case ls of
        [] \<Rightarrow> Inr (None, [])
      | l # rest \<Rightarrow>
          if trim (ol_text l) = '':PROPERTIES:'' then
            (case parse_drawer_loop d l [] rest of
               Inl e \<Rightarrow> Inl e
             | Inr (drawer, next) \<Rightarrow> Inr (Some drawer, next))
          else Inr (None, ls))"

section \<open>Headings\<close>

text \<open>The free body: every branch of the scan breaks at a heading line, whatever its level.\<close>

definition body_span :: "nat \<Rightarrow> org_line list \<Rightarrow> span" where
  "body_span eof ls =
     (let body = takeWhile (\<lambda>l. \<not> is_heading_line l) ls
      in if body = [] then (start_or eof ls, start_or eof ls)
         else (ol_start (hd body), ol_next (last body)))"

definition after_body :: "org_line list \<Rightarrow> org_line list" where
  "after_body ls = dropWhile (\<lambda>l. \<not> is_heading_line l) ls"

text \<open>The error text for a heading that skips a level.\<close>

definition nested_level_detail :: "nat \<Rightarrow> nat \<Rightarrow> string" where
  "nested_level_detail level other =
     ''expected nested heading at level '' @ show_nat (level + 1) @ '' but got level '' @
     show_nat other"

text \<open>\<open>parse_heading\<close> on the lines from its title line on, and its loop over nested sections.
  The test that the section consumed a line never fails (\<open>parse_heading_consumes\<close>); it stands
  for the progress of the code's index, and makes the recursion visibly terminate.\<close>

function (sequential) parse_heading ::
  "string \<Rightarrow> string list \<Rightarrow> nat \<Rightarrow> nat \<Rightarrow> org_line list \<Rightarrow> org_error + heading \<times> org_line list"
and parse_sections ::
  "string \<Rightarrow> string list \<Rightarrow> nat \<Rightarrow> nat \<Rightarrow> org_line list \<Rightarrow>
     org_error + heading list \<times> org_line list" where
  "parse_heading d todo eof level [] = Inl (BadHeading d 0 [])"
| "parse_heading d todo eof level (l # ls) =
     (case parse_heading_line (ol_text l) level todo of
        None \<Rightarrow> Inl (BadHeading d (ol_no l) (ol_text l))
      | Some parsed \<Rightarrow>
          (case parse_opt_drawer d ls of
             Inl e \<Rightarrow> Inl e
           | Inr (properties, ls1) \<Rightarrow>
               if length ls1 \<le> length ls then
                 (case parse_sections d todo eof level (after_body ls1) of
                    Inl e \<Rightarrow> Inl e
                  | Inr (sections, ls2) \<Rightarrow>
                      Inr (Heading level (phl_todo parsed) (phl_title parsed) (phl_tags parsed)
                             properties sections (ls_content (ol_span l))
                             (ol_start l, start_or eof ls2) (body_span eof ls1), ls2))
               else Inl (BadHeading d 0 [])))"
| "parse_sections d todo eof level [] = Inr ([], [])"
| "parse_sections d todo eof level (l # ls) =
     (case heading_level_at l of
        None \<Rightarrow> if trim (ol_text l) = [] then parse_sections d todo eof level ls else Inr ([], l # ls)
      | Some other \<Rightarrow>
          if other \<le> level then Inr ([], l # ls)
          else if other \<noteq> level + 1 then
            Inl (BadHeading d (ol_no l) (nested_level_detail level other))
          else
            (case parse_heading d todo eof (level + 1) (l # ls) of
               Inl e \<Rightarrow> Inl e
             | Inr (sec, next) \<Rightarrow>
                 if length next \<le> length ls then
                   (case parse_sections d todo eof level next of
                      Inl e \<Rightarrow> Inl e
                    | Inr (secs, rest) \<Rightarrow> Inr (sec # secs, rest))
                 else Inl (BadHeading d 0 [])))"
  by pat_completeness auto
termination
  by (relation "measure (\<lambda>x. case x of
        Inl (d, todo, eof, level, ls) \<Rightarrow> 2 * length ls
      | Inr (d, todo, eof, level, ls) \<Rightarrow> 2 * length ls + 1)")
    (auto simp: after_body_def less_Suc_eq_le intro: le_trans [OF length_dropWhile_le])

section \<open>Files\<close>

text \<open>The words a \<open>#+todo:\<close> keyword declares.\<close>

definition todo_words :: "string \<Rightarrow> string list" where
  "todo_words value = filter (\<lambda>w. w \<noteq> ''|'') (split_whitespace value)"

fun parse_keywords ::
  "string \<Rightarrow> string list \<Rightarrow> keyword list \<Rightarrow> org_line list \<Rightarrow>
     org_error + string list \<times> keyword list \<times> org_line list" where
  "parse_keywords d todo kws [] = Inr (todo, kws, [])"
| "parse_keywords d todo kws (l # ls) =
     (case strip_prefix (trim_start (ol_text l)) ''#+'' of
        Some rest \<Rightarrow>
          (case parse_keyword_line rest of
             None \<Rightarrow> Inl (BadKeyword d (ol_no l) (ol_text l))
           | Some (key, value) \<Rightarrow>
               parse_keywords d
                 (if eq_ignore_ascii_case key ''todo'' then todo @ todo_words value else todo)
                 (kws @ [\<lparr>kw_key = key, kw_value = value, kw_span = ls_full (ol_span l)\<rparr>]) ls)
      | None \<Rightarrow>
          if trim (ol_text l) = [] then parse_keywords d todo kws ls else Inr (todo, kws, l # ls))"

function (sequential) parse_top ::
  "string \<Rightarrow> string list \<Rightarrow> nat \<Rightarrow> org_line list \<Rightarrow> org_error + heading list" where
  "parse_top d todo eof [] = Inr []"
| "parse_top d todo eof (l # ls) =
     (if trim (ol_text l) = [] then parse_top d todo eof ls
      else
        (case heading_level_at l of
           None \<Rightarrow> Inl (BadHeading d (ol_no l) (''expected heading, got: '' @ ol_text l))
         | Some level \<Rightarrow>
             if level \<noteq> 1 then
               Inl (BadHeading d (ol_no l)
                 (''expected top-level heading (`* `), got level '' @ show_nat level))
             else
               (case parse_heading d todo eof 1 (l # ls) of
                  Inl e \<Rightarrow> Inl e
                | Inr (h, next) \<Rightarrow>
                    if length next \<le> length ls then
                      (case parse_top d todo eof next of
                         Inl e \<Rightarrow> Inl e
                       | Inr hs \<Rightarrow> Inr (h # hs))
                    else Inl (BadHeading d 0 []))))"
  by pat_completeness auto
termination
  by (relation "measure (\<lambda>(d, todo, eof, ls). length ls)") auto

definition org_parse :: "string \<Rightarrow> string \<Rightarrow> org_error + org_file" where
  "org_parse source d =
     (let eof = length source
      in case parse_keywords d [] [] (parser_lines source) of
           Inl e \<Rightarrow> Inl e
         | Inr (todo, kws, ls) \<Rightarrow>
             (case parse_top d todo eof (after_body ls) of
                Inl e \<Rightarrow> Inl e
              | Inr hs \<Rightarrow>
                  Inr \<lparr>of_source = source, of_keywords = kws, of_headings = hs,
                       of_prelude = (0, start_or eof (after_body ls))\<rparr>))"

end
