(* ===== verification/Org_Structure.thy ===== *)
theory Org_Structure
  imports Org_Parser
begin

text \<open>
  What a parsed file looks like: the parser consumes its lines from the front and stops at headings
  only, the spans it records tile the source, and every recorded value reads back at its span.
\<close>

section \<open>Progress\<close>

lemma start_or_simps [simp]: "start_or eof [] = eof" "start_or eof (l # ls) = ol_start l"
  by (simp_all add: start_or_def)

lemma parse_drawer_loop_suffix:
  "parse_drawer_loop d op es ls = Inr (drawer, rest) \<Longrightarrow> \<exists>used. ls = used @ rest \<and> used \<noteq> []"
proof (induction d op es ls rule: parse_drawer_loop.induct)
  case (2 d op es l ls)
  show ?case
  proof (cases "trim (ol_text l) = '':END:''")
    case True
    then show ?thesis using 2(2) by auto
  next
    case False
    then obtain e where "trim (ol_text l) \<noteq> []" "parse_property_line (ol_text l) (ol_span l) = Some e"
      and "parse_drawer_loop d op (es @ [e]) ls = Inr (drawer, rest)"
      using 2(2) by (auto split: if_splits option.splits)
    then obtain used where "ls = used @ rest" using 2(1) False by blast
    then show ?thesis by (intro exI [of _ "l # used"]) simp
  qed
qed simp

lemma parse_opt_drawer_suffix:
  "parse_opt_drawer d ls = Inr (props, rest) \<Longrightarrow> \<exists>used. ls = used @ rest"
  by (auto simp: parse_opt_drawer_def dest: parse_drawer_loop_suffix
      split: list.splits if_splits sum.splits)

lemma parse_opt_drawer_length:
  "parse_opt_drawer d ls = Inr (props, rest) \<Longrightarrow> length rest \<le> length ls"
  using parse_opt_drawer_suffix by fastforce

lemma after_body_suffix: "\<exists>used. ls = used @ after_body ls"
  unfolding after_body_def by (metis takeWhile_dropWhile_id)

lemma after_body_heading: "after_body ls = l # rest \<Longrightarrow> is_heading_line l"
  unfolding after_body_def using hd_dropWhile [of "\<lambda>l. \<not> is_heading_line l" ls] by auto

lemma after_body_idem [simp]: "after_body (after_body ls) = after_body ls"
  by (simp add: after_body_def)

text \<open>\<open>stops_at k ls\<close>: nothing is left, or the next line is a heading of level at most
  \<open>k\<close>.\<close>

definition stops_at :: "nat \<Rightarrow> org_line list \<Rightarrow> bool" where
  "stops_at k ls \<longleftrightarrow>
     (case ls of [] \<Rightarrow> True | l # _ \<Rightarrow> (\<exists>j. heading_level_at l = Some j \<and> j \<le> k))"

lemma parse_heading_consumes:
  "parse_heading d todo eof level ls = Inr (h, rest) \<Longrightarrow>
     (\<exists>used. ls = used @ rest \<and> used \<noteq> []) \<and> stops_at level rest"
  "parse_sections d todo eof level ls = Inr (hs, rest) \<Longrightarrow>
     (\<exists>used. ls = used @ rest) \<and> (after_body ls = ls \<longrightarrow> stops_at level rest)"
proof (induction d todo eof level ls and d todo eof level ls arbitrary: h rest and hs rest
    rule: parse_heading_parse_sections.induct)
  case (2 d todo eof level l ls)
  then obtain parsed props ls1 secs where
    parsed: "parse_heading_line (ol_text l) level todo = Some parsed" and
    dr: "parse_opt_drawer d ls = Inr (props, ls1)" and
    sec: "parse_sections d todo eof level (after_body ls1) = Inr (secs, rest)"
    by (auto split: option.splits sum.splits if_splits)
  have len: "length ls1 \<le> length ls" using parse_opt_drawer_length [OF dr] .
  have IH: "(\<exists>used. after_body ls1 = used @ rest) \<and> stops_at level rest"
    using "2.IH" [OF parsed dr refl len sec] by simp
  obtain u1 where "ls = u1 @ ls1" using parse_opt_drawer_suffix [OF dr] by blast
  moreover obtain u2 where "ls1 = u2 @ after_body ls1" using after_body_suffix by blast
  moreover obtain u3 where "after_body ls1 = u3 @ rest" using IH by blast
  ultimately have "l # ls = (l # u1 @ u2 @ u3) @ rest" by (metis append.assoc append_Cons)
  then show ?case using IH by blast
next
  case (4 d todo eof level l ls)
  show ?case
  proof (cases "heading_level_at l")
    case None
    then have nb: "after_body (l # ls) \<noteq> l # ls"
      using after_body_heading [of "l # ls" l ls] by (auto simp: is_heading_line_def)
    show ?thesis
    proof (cases "trim (ol_text l) = []")
      case True
      then obtain used where "ls = used @ rest" using None "4.IH"(1) 4(4) by auto
      then show ?thesis using nb by (metis append_Cons)
    next
      case False
      then show ?thesis using None 4(4) nb by auto
    qed
  next
    case (Some other)
    show ?thesis
    proof (cases "other \<le> level")
      case True
      then show ?thesis using Some 4(4) by (auto simp: stops_at_def)
    next
      case False
      then obtain sec nx secs where
        o: "\<not> other \<noteq> level + 1" and ph: "parse_heading d todo eof (level + 1) (l # ls) = Inr (sec, nx)" and
        len: "length nx \<le> length ls" and ps: "parse_sections d todo eof level nx = Inr (secs, rest)"
        using Some 4(4) by (auto split: sum.splits if_splits)
      have 1: "(\<exists>used. l # ls = used @ nx \<and> used \<noteq> []) \<and> stops_at (level + 1) nx"
        using "4.IH"(2) [OF Some False o ph] .
      have 2: "(\<exists>used. nx = used @ rest) \<and> (after_body nx = nx \<longrightarrow> stops_at level rest)"
        using "4.IH"(3) [OF Some False o ph refl len ps] .
      have "after_body nx = nx"
        using 1 by (cases nx) (auto simp: stops_at_def after_body_def is_heading_line_def)
      then show ?thesis using 1 2 by (metis append.assoc)
    qed
  qed
qed (auto simp: stops_at_def)

lemma parse_heading_length:
  "parse_heading d todo eof level (l # ls) = Inr (h, rest) \<Longrightarrow> length rest \<le> length ls"
proof -
  assume "parse_heading d todo eof level (l # ls) = Inr (h, rest)"
  then obtain used where u: "l # ls = used @ rest" "used \<noteq> []"
    using parse_heading_consumes(1) by blast
  then have "Suc (length ls) = length used + length rest" by (metis length_Cons length_append)
  moreover have "0 < length used" using u by simp
  ultimately show ?thesis by linarith
qed

declare parse_heading.simps(2) [simp del] parse_sections.simps(2) [simp del]
  parse_top.simps(2) [simp del]

text \<open>The equations of the code, without the tests for progress.\<close>

lemma parse_heading_eq:
  "parse_heading d todo eof level (l # ls) =
     (case parse_heading_line (ol_text l) level todo of
        None \<Rightarrow> Inl (BadHeading d (ol_no l) (ol_text l))
      | Some parsed \<Rightarrow>
          try_res (parse_opt_drawer d ls) (\<lambda>(properties, ls1).
          try_res (parse_sections d todo eof level (after_body ls1)) (\<lambda>(sections, ls2).
            Inr (Heading level (phl_todo parsed) (phl_title parsed) (phl_tags parsed)
                   properties sections (ls_content (ol_span l))
                   (ol_start l, start_or eof ls2) (body_span eof ls1), ls2))))"
  by (auto simp: parse_heading.simps(2) [of d todo eof level l ls] try_res_def
      dest: parse_opt_drawer_length split: option.split sum.split)

lemma parse_sections_heading_eq:
  "heading_level_at l = Some other \<Longrightarrow>
   parse_sections d todo eof level (l # ls) =
     (if other \<le> level then Inr ([], l # ls)
      else if other \<noteq> level + 1 then Inl (BadHeading d (ol_no l) (nested_level_detail level other))
      else
        try_res (parse_heading d todo eof (level + 1) (l # ls)) (\<lambda>(sec, next).
        try_res (parse_sections d todo eof level next) (\<lambda>(secs, rest). Inr (sec # secs, rest))))"
  by (auto simp: parse_sections.simps(2) [of d todo eof level l ls] try_res_def
      dest: parse_heading_length split: sum.split)

lemma parse_top_heading_eq:
  "heading_level_at l = Some level \<Longrightarrow> trim (ol_text l) \<noteq> [] \<Longrightarrow>
   parse_top d todo eof (l # ls) =
     (if level \<noteq> 1 then
        Inl (BadHeading d (ol_no l)
          (''expected top-level heading (`* `), got level '' @ show_nat level))
      else
        try_res (parse_heading d todo eof 1 (l # ls)) (\<lambda>(h, next).
        try_res (parse_top d todo eof next) (\<lambda>hs. Inr (h # hs))))"
  by (auto simp: parse_top.simps(2) [of d todo eof l ls] try_res_def
      dest: parse_heading_length split: sum.split)


section \<open>Spans\<close>

text \<open>A parsed property lies inside its line, and its value span reads the value.\<close>

lemma parse_property_line_span:
  assumes e: "parse_property_line text sp = Some e"
    and tx: "text = slice source (ls_content sp)" and len: "ls_content_end sp \<le> length source"
    and le: "ls_start sp \<le> ls_content_end sp"
  shows "pe_span e = ls_full sp \<and> slice source (pe_value_span e) = pe_value e \<and>
    trim (pe_value e) = pe_value e \<and> ls_start sp < fst (pe_value_span e) \<and>
    fst (pe_value_span e) \<le> snd (pe_value_span e) \<and> snd (pe_value_span e) \<le> ls_content_end sp"
proof -
  define stripped where "stripped = trim_end_matches CR text"
  define lead where "lead = length stripped - length (trim_start stripped)"
  define trimmed where "trimmed = drop lead stripped"
  obtain k where k: "find_sub '':'' (drop 1 trimmed) = Some k" and colon: "starts_with trimmed '':''"
    using e by (auto simp: parse_property_line_def Let_def stripped_def lead_def trimmed_def
        split: if_splits option.splits)
  define raw where "raw = drop (lead + 1 + k + 1) stripped"
  have e': "e = \<lparr>pe_key = take k (drop 1 trimmed), pe_value = trim raw, pe_span = ls_full sp,
      pe_value_span =
        (ls_start sp + (lead + 1 + k + 1) + (length raw - length (trim_start raw)),
         ls_start sp + (lead + 1 + k + 1) + (length raw - length (trim_start raw)) +
           length (trim raw))\<rparr>"
    using e k colon unfolding parse_property_line_def Let_def raw_def stripped_def lead_def trimmed_def
    by (auto split: if_splits)
  have "k + 1 \<le> length (drop 1 trimmed)" using find_sub_Some [OF k] by simp
  then have n: "lead + 1 + k + 1 \<le> length stripped" by (simp add: trimmed_def)
  obtain q where q: "text = stripped @ q"
    unfolding stripped_def using trim_end_matches_split by blast
  obtain p r where pr: "raw = p @ trim raw @ r" "length p = length raw - length (trim_start raw)"
    using trim_split by blast
  have split: "text = (take (lead + 1 + k + 1) stripped @ p) @ trim raw @ (r @ q)"
  proof -
    have "stripped = take (lead + 1 + k + 1) stripped @ raw" by (simp add: raw_def)
    then show ?thesis using q pr(1) by (metis append.assoc)
  qed
  let ?p = "take (lead + 1 + k + 1) stripped @ p"
  have lp: "length ?p = lead + 1 + k + 1 + length p" using n by simp
  have "slice source (ls_start sp, ls_content_end sp) = ?p @ trim raw @ (r @ q)"
    using split tx by (simp add: ls_content_def)
  then have read: "slice source (ls_start sp + length ?p, ls_start sp + length ?p + length (trim raw)) =
      trim raw"
    by (rule slice_inside)
  have "length text = ls_content_end sp - ls_start sp"
    using tx len le by (simp add: length_slice span_in_def ls_content_def)
  then have bound: "ls_start sp + length ?p + length (trim raw) \<le> ls_content_end sp"
    using split le by (metis (no_types, lifting) add.assoc add_le_cancel_left le_add1 le_add_diff_inverse length_append)
  show ?thesis using e' read bound lp pr(2) by (simp add: add.assoc)
qed

text \<open>The spans of a parsed heading: its title line, drawer, body and sections follow each other
  and fill its span, its sections lie one level deeper, and each property value reads back.\<close>

fun adjacent :: "nat \<Rightarrow> nat \<Rightarrow> span list \<Rightarrow> bool" where
  "adjacent a b [] \<longleftrightarrow> a = b"
| "adjacent a b (r # rs) \<longleftrightarrow> fst r = a \<and> a < snd r \<and> adjacent (snd r) b rs"

definition entry_in :: "string \<Rightarrow> span \<Rightarrow> property_entry \<Rightarrow> bool" where
  "entry_in source r e \<longleftrightarrow>
     fst r < fst (pe_span e) \<and> fst (pe_span e) < fst (pe_value_span e) \<and>
     fst (pe_value_span e) \<le> snd (pe_value_span e) \<and> snd (pe_value_span e) \<le> snd (pe_span e) \<and>
     snd (pe_span e) < snd r \<and> slice source (pe_value_span e) = pe_value e \<and>
     trim (pe_value e) = pe_value e"

text \<open>The drawer of a heading begins at \<open>a\<close> and ends at \<open>b\<close>, where its body begins.\<close>

definition drawer_ok :: "string \<Rightarrow> nat \<Rightarrow> property_drawer \<Rightarrow> bool" where
  "drawer_ok source b d \<longleftrightarrow>
     fst (pd_span d) < snd (pd_span d) \<and> snd (pd_span d) = b \<and>
     list_all (entry_in source (pd_span d)) (pd_entries d) \<and>
     (\<exists>i. fst (pd_span d) < i \<and> i + 5 \<le> b \<and> slice source (i, i + 5) = '':END:'' \<and>
        list_all (\<lambda>e. snd (pe_span e) \<le> i) (pd_entries d))"

definition after_title :: "heading \<Rightarrow> nat" where
  "after_title h =
     (case h_properties h of None \<Rightarrow> fst (h_body h) | Some d \<Rightarrow> fst (pd_span d))"

function heading_ok :: "string \<Rightarrow> nat \<Rightarrow> heading \<Rightarrow> bool" where
  "heading_ok source level h \<longleftrightarrow>
     h_level h = level \<and> fst (h_title_line h) = fst (h_span h) \<and>
     fst (h_title_line h) \<le> snd (h_title_line h) \<and>
     fst (h_span h) < after_title h \<and> snd (h_title_line h) \<le> after_title h \<and>
     (case h_properties h of None \<Rightarrow> True | Some d \<Rightarrow> drawer_ok source (fst (h_body h)) d) \<and>
     fst (h_body h) \<le> snd (h_body h) \<and>
     adjacent (snd (h_body h)) (snd (h_span h)) (map h_span (h_sections h)) \<and>
     list_all (heading_ok source (level + 1)) (h_sections h)"
  by pat_completeness auto
termination
  by (relation "measure (\<lambda>(s, l, h). size h)") (auto simp: size_section)

declare heading_ok.simps [simp del]

text \<open>The parser's lines from a position on: they tile the rest of the source and read it.\<close>

definition lines_ok :: "string \<Rightarrow> nat \<Rightarrow> org_line list \<Rightarrow> bool" where
  "lines_ok source a ls \<longleftrightarrow>
     tiles a (length source) (map ol_span ls) \<and>
     (\<forall>l \<in> set ls. ol_text l = slice source (ls_content (ol_span l)))"

lemma lines_ok_Nil [simp]: "lines_ok source a [] \<longleftrightarrow> a = length source"
  by (simp add: lines_ok_def)

lemma lines_ok_Cons [simp]:
  "lines_ok source a (l # ls) \<longleftrightarrow>
     ol_start l = a \<and> a \<le> ls_content_end (ol_span l) \<and> ls_content_end (ol_span l) \<le> ol_next l \<and>
     a < ol_next l \<and> ol_text l = slice source (ls_content (ol_span l)) \<and>
     lines_ok source (ol_next l) ls"
  by (auto simp: lines_ok_def)

lemma lines_ok_le: "lines_ok source a ls \<Longrightarrow> a \<le> length source"
  by (auto simp: lines_ok_def dest: tiles_le)

lemma lines_ok_start: "lines_ok source a ls \<Longrightarrow> start_or (length source) ls = a"
  by (cases ls) auto

lemma lines_ok_append:
  "lines_ok source a (xs @ ys) \<Longrightarrow>
     lines_ok source (start_or (length source) ys) ys \<and> a \<le> start_or (length source) ys \<and>
     (xs \<noteq> [] \<longrightarrow> a < start_or (length source) ys \<and> ol_start (hd xs) = a \<and>
        ol_next (last xs) = start_or (length source) ys)"
proof (induction xs arbitrary: a)
  case Nil
  then show ?case using lines_ok_start by force
next
  case (Cons x xs)
  then have IH: "lines_ok source (start_or (length source) ys) ys"
    "ol_next x \<le> start_or (length source) ys"
    "xs \<noteq> [] \<longrightarrow> ol_next (last xs) = start_or (length source) ys"
    by auto
  have "ol_next x = start_or (length source) ys" if "xs = []"
    using Cons.prems that lines_ok_start by force
  then show ?case using IH Cons.prems by auto
qed

lemma number_lines_spans:
  "length bs = length ls \<Longrightarrow> map ol_span (number_lines source n ls bs) = ls"
  by (induction source n ls bs rule: number_lines.induct) auto

lemma number_lines_text:
  "l \<in> set (number_lines source n ls bs) \<Longrightarrow> ol_text l = slice source (ls_content (ol_span l))"
  by (induction source n ls bs rule: number_lines.induct) auto

lemma length_org_block_line_mask [simp]: "length (org_block_line_mask source k ls) = length ls"
  by (induction ls arbitrary: k) (auto simp: Let_def)

lemma parser_lines_ok: "lines_ok source 0 (parser_lines source)"
  by (auto simp: lines_ok_def parser_lines_def Let_def number_lines_spans split_lines_tiles
      number_lines_text)

lemma entry_in_mono: "entry_in source (a, b) e \<Longrightarrow> b \<le> c \<Longrightarrow> entry_in source (a, c) e"
  by (auto simp: entry_in_def)

lemma parse_drawer_loop_ok:
  "parse_drawer_loop d op es ls = Inr (dr, rest) \<Longrightarrow> lines_ok source a ls \<Longrightarrow> ol_start op < a \<Longrightarrow>
   list_all (entry_in source (ol_start op, Suc a)) es \<Longrightarrow>
     pd_span dr = (ol_start op, start_or (length source) rest) \<and> drawer_ok source (start_or (length source) rest) dr \<and>
     a < start_or (length source) rest"
proof (induction d op es ls arbitrary: a rule: parse_drawer_loop.induct)
  case (2 d op es l ls)
  note ok = "2.prems"(2)
  then have next_ok: "lines_ok source (ol_next l) ls" and lt: "a < ol_next l" by auto
  show ?case
  proof (cases "trim (ol_text l) = '':END:''")
    case True
    then have dr: "dr = \<lparr>pd_entries = es, pd_span = (ol_start op, start_or (ol_next l) ls)\<rparr>" "rest = ls"
      using "2.prems"(1) by auto
    have s: "start_or (ol_next l) ls = ol_next l" "start_or (length source) ls = ol_next l"
      using next_ok lines_ok_start by (cases ls; auto)+
    obtain p q where pq: "ol_text l = p @ '':END:'' @ q"
      using True trim_split [of "ol_text l"] by metis
    have sl: "slice source (a, ls_content_end (ol_span l)) = p @ '':END:'' @ q"
      using ok pq by (simp add: ls_content_def)
    have "length (slice source (a, ls_content_end (ol_span l))) \<le> ls_content_end (ol_span l) - a"
      by (simp add: slice_def)
    then have len: "a + length p + 5 \<le> ls_content_end (ol_span l)" unfolding sl by simp
    have "slice source (a + length p, a + length p + 5) = '':END:''"
      using slice_inside [OF sl] by (simp add: eval_nat_numeral)
    with len have "\<exists>i. ol_start op < i \<and> i + 5 \<le> ol_next l \<and> slice source (i, i + 5) = '':END:'' \<and>
        list_all (\<lambda>e. snd (pe_span e) \<le> i) es"
      using ok "2.prems"(3,4)
      by (intro exI [of _ "a + length p"]) (auto simp: list_all_iff entry_in_def)
    moreover have "list_all (entry_in source (ol_start op, ol_next l)) es"
      using "2.prems"(4) lt by (auto simp: list_all_iff intro: entry_in_mono [of _ _ "Suc a"])
    ultimately show ?thesis using dr s lt "2.prems"(3) by (simp add: drawer_ok_def)
  next
    case False
    then obtain e where ne: "trim (ol_text l) \<noteq> []"
      and e: "parse_property_line (ol_text l) (ol_span l) = Some e"
      and rec: "parse_drawer_loop d op (es @ [e]) ls = Inr (dr, rest)"
      using "2.prems"(1) by (auto split: if_splits option.splits)
    have "ls_content_end (ol_span l) \<le> length source" using lines_ok_le [OF next_ok] ok by simp
    then have "entry_in source (ol_start op, Suc (ol_next l)) e"
      using parse_property_line_span [OF e, of source] ok "2.prems"(3)
      by (auto simp: entry_in_def ls_full_def)
    moreover have "list_all (entry_in source (ol_start op, Suc (ol_next l))) es"
      using "2.prems"(4) lt by (auto simp: list_all_iff intro: entry_in_mono [of _ _ "Suc a"])
    ultimately have "list_all (entry_in source (ol_start op, Suc (ol_next l))) (es @ [e])" by simp
    then show ?thesis
      using "2.IH" [OF False ne e rec next_ok] "2.prems"(3) lt by force
  qed
qed simp

lemma parse_opt_drawer_ok:
  assumes "parse_opt_drawer d ls = Inr (props, rest)" "lines_ok source a ls"
  shows "(case props of
      None \<Rightarrow> rest = ls
    | Some dr \<Rightarrow> fst (pd_span dr) = a \<and> drawer_ok source (start_or (length source) rest) dr) \<and>
    lines_ok source (start_or (length source) rest) rest \<and> a \<le> start_or (length source) rest"
proof -
  obtain used where "ls = used @ rest" using parse_opt_drawer_suffix [OF assms(1)] by blast
  then have "lines_ok source (start_or (length source) rest) rest \<and> a \<le> start_or (length source) rest"
    using assms(2) lines_ok_append [of source a used rest] by blast
  moreover have "case props of
      None \<Rightarrow> rest = ls
    | Some dr \<Rightarrow> fst (pd_span dr) = a \<and> drawer_ok source (start_or (length source) rest) dr"
  proof (cases ls)
    case (Cons l r)
    show ?thesis
    proof (cases "trim (ol_text l) = '':PROPERTIES:''")
      case True
      then obtain dr where dr: "props = Some dr" "parse_drawer_loop d l [] r = Inr (dr, rest)"
        using assms(1) Cons by (auto simp: parse_opt_drawer_def split: sum.splits)
      then show ?thesis
        using parse_drawer_loop_ok [of d l "[]" r dr rest source "ol_next l"] assms(2) Cons by simp
    qed (use assms(1) Cons in \<open>auto simp: parse_opt_drawer_def\<close>)
  qed (use assms(1) in \<open>auto simp: parse_opt_drawer_def\<close>)
  ultimately show ?thesis by blast
qed

lemma body_span_ok:
  assumes "lines_ok source a ls"
  shows "body_span (length source) ls = (a, start_or (length source) (after_body ls)) \<and>
    lines_ok source (start_or (length source) (after_body ls)) (after_body ls) \<and>
    a \<le> start_or (length source) (after_body ls)"
proof -
  let ?body = "takeWhile (\<lambda>l. \<not> is_heading_line l) ls"
  have split: "ls = ?body @ after_body ls" by (simp add: after_body_def)
  then have ok: "lines_ok source a (?body @ after_body ls)" using assms by simp
  show ?thesis
  proof (cases "?body = []")
    case True
    then have "after_body ls = ls" using split by simp
    then show ?thesis using True assms lines_ok_start [OF assms]
      by (simp add: body_span_def Let_def)
  next
    case False
    then show ?thesis using lines_ok_append [OF ok] by (simp add: body_span_def Let_def)
  qed
qed

lemma stops_at_after_body: "stops_at k ls \<Longrightarrow> after_body ls = ls"
  by (cases ls) (auto simp: stops_at_def after_body_def is_heading_line_def)

lemma parse_heading_ok:
  "parse_heading d todo eof level ls = Inr (h, rest) \<Longrightarrow> lines_ok source a ls \<Longrightarrow>
   eof = length source \<Longrightarrow>
     heading_ok source level h \<and> h_span h = (a, start_or eof rest) \<and> a < start_or eof rest"
  "parse_sections d todo eof level ls = Inr (hs, rest) \<Longrightarrow> lines_ok source a ls \<Longrightarrow>
   eof = length source \<Longrightarrow> after_body ls = ls \<Longrightarrow>
     list_all (heading_ok source (level + 1)) hs \<and> adjacent a (start_or eof rest) (map h_span hs)"
proof (induction d todo eof level ls and d todo eof level ls arbitrary: a h rest and a hs rest
    rule: parse_heading_parse_sections.induct)
  case (2 d todo eof level l ls)
  then obtain parsed props ls1 secs where
    parsed: "parse_heading_line (ol_text l) level todo = Some parsed" and
    dr: "parse_opt_drawer d ls = Inr (props, ls1)" and
    sec: "parse_sections d todo eof level (after_body ls1) = Inr (secs, rest)" and
    h: "h = Heading level (phl_todo parsed) (phl_title parsed) (phl_tags parsed) props secs
          (ls_content (ol_span l)) (ol_start l, start_or eof rest) (body_span eof ls1)"
    by (auto simp: parse_heading_eq try_res_Inr_iff split: option.splits)
  have ok: "lines_ok source (ol_next l) ls" and l: "ol_start l = a" "a < ol_next l"
    "ls_content_end (ol_span l) \<le> ol_next l" "a \<le> ls_content_end (ol_span l)" using "2.prems"(2) by auto
  note d = parse_opt_drawer_ok [OF dr ok]
  note b = body_span_ok [OF d [THEN conjunct2, THEN conjunct1]]
  have IH: "list_all (heading_ok source (level + 1)) secs \<and>
      adjacent (start_or eof (after_body ls1)) (start_or eof rest) (map h_span secs)"
    using "2.IH" [OF parsed dr refl parse_opt_drawer_length [OF dr] sec _ "2.prems"(3) after_body_idem]
      b "2.prems"(3) by blast
  have "after_title h = ol_next l"
    using d h b "2.prems"(3) lines_ok_start [OF ok] by (auto simp: after_title_def split: option.splits)
  then have "heading_ok source level h"
    using d b IH h l "2.prems"(3)
    unfolding heading_ok.simps [of source level h] by (simp add: ls_content_def split: option.splits)
  moreover have "a < start_or eof rest"
  proof -
    obtain used where "l # ls = used @ rest" "used \<noteq> []"
      using parse_heading_consumes(1) [OF "2.prems"(1)] by blast
    then show ?thesis using lines_ok_append [of source a used rest] "2.prems"(2,3) by simp
  qed
  ultimately show ?case using h l by simp
next
  case (3 d todo eof level)
  then show ?case by (auto dest: lines_ok_start)
next
  case (4 d todo eof level l ls)
  have "is_heading_line l" using after_body_heading [of "l # ls" l ls] "4.prems"(4) by simp
  then obtain other where Some: "heading_level_at l = Some other" by (auto simp: is_heading_line_def)
  show ?case
  proof (cases "other \<le> level")
    case True
    then show ?thesis
      using Some 4(4,5) by (auto simp: parse_sections_heading_eq)
  next
    case False
    then obtain sec nx secs where
      o: "\<not> other \<noteq> level + 1" and ph: "parse_heading d todo eof (level + 1) (l # ls) = Inr (sec, nx)" and
      ps: "parse_sections d todo eof level nx = Inr (secs, rest)" and hs: "hs = sec # secs"
      using Some 4(4) by (auto simp: parse_sections_heading_eq try_res_Inr_iff split: if_splits)
    have len: "length nx \<le> length ls" using parse_heading_length [OF ph] .
    have 1: "heading_ok source (level + 1) sec \<and> h_span sec = (a, start_or eof nx) \<and>
        a < start_or eof nx"
      using "4.IH"(2) [OF Some False o ph "4.prems"(2,3)] .
    obtain used where u: "l # ls = used @ nx" and st: "stops_at (level + 1) nx"
      using parse_heading_consumes(1) [OF ph] by blast
    have "lines_ok source (start_or eof nx) nx"
      using lines_ok_append [of source a used nx] u "4.prems"(2,3) by simp
    then have "list_all (heading_ok source (level + 1)) secs \<and>
        adjacent (start_or eof nx) (start_or eof rest) (map h_span secs)"
      using "4.IH"(3) [OF Some False o ph refl len ps _ "4.prems"(3) stops_at_after_body [OF st]]
      by blast
    then show ?thesis using 1 hs by simp
  qed
qed simp_all

section \<open>Files\<close>

lemma parse_top_ok:
  "parse_top d todo eof ls = Inr hs \<Longrightarrow> lines_ok source a ls \<Longrightarrow> eof = length source \<Longrightarrow>
   after_body ls = ls \<Longrightarrow>
     list_all (heading_ok source 1) hs \<and> adjacent a eof (map h_span hs)"
proof (induction d todo eof ls arbitrary: a hs rule: parse_top.induct)
  case (2 d todo eof l ls)
  have "is_heading_line l" using after_body_heading [of "l # ls" l ls] "2.prems"(4) by simp
  then obtain level where lv: "heading_level_at l = Some level" by (auto simp: is_heading_line_def)
  then obtain r where "ol_text l = CHR ''*'' # r"
    by (auto simp: heading_level_at_def heading_level_def split: if_splits list.splits)
  then have ne: "trim (ol_text l) \<noteq> []"
  proof -
    have "\<exists>g gs. chars (ol_text l) = (CHR ''*'' # g) # gs"
      using \<open>ol_text l = _\<close> by (cases r) (auto split: list.splits)
    then obtain g gs where "chars (ol_text l) = (CHR ''*'' # g) # gs" by blast
    moreover have "\<not> is_whitespace (CHR ''*'' # g)" by (simp add: is_whitespace_def ws_chars_def)
    ultimately have "chars (trim_start (ol_text l)) = (CHR ''*'' # g) # gs"
      and nw: "\<not> is_whitespace (CHR ''*'' # g)" by (auto simp: chars_trim_start)
    then have "chars (trim (ol_text l)) \<noteq> []"
      by (auto simp: trim_def chars_trim_end simp del: chars_eq_Nil_iff)
    then show ?thesis by simp
  qed
  obtain h nx hs' where l1: "\<not> level \<noteq> 1" and ph: "parse_heading d todo eof 1 (l # ls) = Inr (h, nx)"
    and pt: "parse_top d todo eof nx = Inr hs'" and hs: "hs = h # hs'"
    using "2.prems"(1) unfolding parse_top_heading_eq [OF lv ne]
    by (auto simp: try_res_Inr_iff split: if_splits)
  have 1: "heading_ok source 1 h \<and> h_span h = (a, start_or eof nx) \<and> a < start_or eof nx"
    using parse_heading_ok(1) [OF ph "2.prems"(2,3)] .
  obtain used where u: "l # ls = used @ nx" and st: "stops_at 1 nx"
    using parse_heading_consumes(1) [OF ph] by blast
  have "lines_ok source (start_or eof nx) nx"
    using lines_ok_append [of source a used nx] u "2.prems"(2,3) by simp
  then have "list_all (heading_ok source 1) hs' \<and> adjacent (start_or eof nx) eof (map h_span hs')"
    using "2.IH"(2) [OF ne lv l1 ph refl parse_heading_length [OF ph] pt _ "2.prems"(3)
        stops_at_after_body [OF st]] by blast
  then show ?case using 1 hs by simp
qed auto

lemma parse_keywords_suffix:
  "parse_keywords d todo kws ls = Inr (todo', kws', rest) \<Longrightarrow> \<exists>used. ls = used @ rest"
proof (induction ls arbitrary: todo kws)
  case (Cons l ls)
  have "rest = l # ls \<or> (\<exists>t k. parse_keywords d t k ls = Inr (todo', kws', rest))"
    using Cons.prems by (auto split: option.splits if_splits)
  then have "rest = l # ls \<or> (\<exists>used. ls = used @ rest)" using Cons.IH by blast
  then show ?case by (metis append_Cons append_Nil)
qed simp

lemma adjacent_le: "adjacent a b rs \<Longrightarrow> a \<le> b"
  by (induction rs arbitrary: a) fastforce+

lemma adjacent_member:
  "adjacent a b rs \<Longrightarrow> r \<in> set rs \<Longrightarrow> a \<le> fst r \<and> fst r < snd r \<and> snd r \<le> b"
proof (induction rs arbitrary: a)
  case (Cons x rs)
  then show ?case using adjacent_le [of "snd x" b rs] by fastforce
qed simp

lemma adjacent_slices:
  "adjacent a b rs \<Longrightarrow> b \<le> length s \<Longrightarrow> concat (map (slice s) rs) = slice s (a, b)"
proof (induction rs arbitrary: a)
  case (Cons r rs)
  obtain c where r: "r = (a, c)" using Cons.prems by (cases r) auto
  then have "slice s (a, c) @ slice s (c, b) = slice s (a, b)"
    using Cons.prems adjacent_le by (intro slice_adjacent) auto
  moreover have "concat (map (slice s) rs) = slice s (c, b)" using Cons r by simp
  ultimately show ?case using r by simp
qed simp

definition file_ok :: "org_file \<Rightarrow> bool" where
  "file_ok f \<longleftrightarrow>
     fst (of_prelude f) = 0 \<and>
     adjacent (snd (of_prelude f)) (length (of_source f)) (map h_span (of_headings f)) \<and>
     list_all (heading_ok (of_source f) 1) (of_headings f)"

lemma org_parse_ok: "org_parse source d = Inr f \<Longrightarrow> of_source f = source \<and> file_ok f"
proof -
  assume "org_parse source d = Inr f"
  then obtain todo kws ls hs where
    kw: "parse_keywords d [] [] (parser_lines source) = Inr (todo, kws, ls)" and
    top: "parse_top d todo (length source) (after_body ls) = Inr hs" and
    f: "f = \<lparr>of_source = source, of_keywords = kws, of_headings = hs,
          of_prelude = (0, start_or (length source) (after_body ls))\<rparr>"
    by (auto simp: org_parse_def Let_def split: sum.splits)
  obtain u1 where u1: "parser_lines source = u1 @ ls" using parse_keywords_suffix [OF kw] by blast
  obtain u2 where "ls = u2 @ after_body ls" using after_body_suffix by blast
  then have "lines_ok source 0 ((u1 @ u2) @ after_body ls)"
    using parser_lines_ok [of source] u1 by (metis append.assoc)
  then have "lines_ok source (start_or (length source) (after_body ls)) (after_body ls)"
    using lines_ok_append by blast
  then show ?thesis using parse_top_ok [OF top _ refl after_body_idem] f by (simp add: file_ok_def)
qed

text \<open>A heading found by id, at whatever depth, has its spans in order and inside the file.\<close>

lemma find_by_id_ok:
  "find_by_id i h = Some g \<Longrightarrow> heading_ok s level h \<Longrightarrow>
     property g ''ID'' = Some i \<and> (\<exists>k \<ge> level. heading_ok s k g) \<and>
     fst (h_span h) \<le> fst (h_span g) \<and> snd (h_span g) \<le> snd (h_span h)"
proof (induction i h arbitrary: level rule: find_by_id.induct)
  case (1 i h)
  show ?case
  proof (cases "property h ''ID'' = Some i")
    case True
    then show ?thesis using 1(2,3) by (auto simp: find_by_id.simps [of i h])
  next
    case False
    then obtain c where c: "c \<in> set (h_sections h)" "find_by_id i c = Some g"
      using 1(2) by (auto simp: find_by_id.simps [of i h] dest: find_map_SomeD)
    have ok: "heading_ok s (level + 1) c"
      and adj: "adjacent (snd (h_body h)) (snd (h_span h)) (map h_span (h_sections h))"
      and le: "fst (h_body h) \<le> snd (h_body h)" "fst (h_span h) \<le> fst (h_body h)"
      using 1(3) c(1) unfolding heading_ok.simps [of s level h]
      by (auto simp: list_all_iff after_title_def drawer_ok_def split: option.splits)
    have "snd (h_body h) \<le> fst (h_span c) \<and> snd (h_span c) \<le> snd (h_span h)"
      using adjacent_member [OF adj] c(1) by auto
    then show ?thesis using 1(1) [OF False c ok] le by (meson Suc_leD add_leD1 le_trans)
  qed
qed

text \<open>Every heading of the tree below a heading, itself first, and every heading of a file.\<close>

function subtree :: "heading \<Rightarrow> heading list" where
  "subtree h = h # concat (map subtree (h_sections h))"
  by pat_completeness auto
termination
  by (relation "measure size") (auto simp: size_section)

declare subtree.simps [simp del]

definition all_headings :: "org_file \<Rightarrow> heading list" where
  "all_headings f = concat (map subtree (of_headings f))"

lemma subtree_ok:
  "g \<in> set (subtree h) \<Longrightarrow> heading_ok s level h \<Longrightarrow>
     (\<exists>k \<ge> level. heading_ok s k g) \<and> snd (h_span g) \<le> snd (h_span h)"
proof (induction h arbitrary: level rule: subtree.induct)
  case (1 h)
  show ?case
  proof (cases "g = h")
    case True
    then show ?thesis using 1(3) by auto
  next
    case False
    then obtain c where c: "c \<in> set (h_sections h)" "g \<in> set (subtree c)"
      using 1(2) by (auto simp: subtree.simps [of h])
    have ok: "heading_ok s (level + 1) c"
      and adj: "adjacent (snd (h_body h)) (snd (h_span h)) (map h_span (h_sections h))"
      using 1(3) c(1) unfolding heading_ok.simps [of s level h] by (auto simp: list_all_iff)
    have "snd (h_span c) \<le> snd (h_span h)" using adjacent_member [OF adj] c(1) by auto
    then show ?thesis using 1(1) [OF c ok] by (meson add_leD1 le_trans)
  qed
qed

lemma all_headings_ok:
  assumes "g \<in> set (all_headings f)" "file_ok f"
  shows "(\<exists>k \<ge> 1. heading_ok (of_source f) k g) \<and> snd (h_span g) \<le> length (of_source f)"
proof -
  obtain h where h: "h \<in> set (of_headings f)" "g \<in> set (subtree h)"
    using assms(1) by (auto simp: all_headings_def)
  have ok: "heading_ok (of_source f) 1 h" using assms(2) h(1) by (auto simp: file_ok_def list_all_iff)
  have "snd (h_span h) \<le> length (of_source f)"
    using assms(2) h(1) adjacent_member unfolding file_ok_def
    by (metis (no_types, opaque_lifting) image_eqI list.set_map)
  then show ?thesis using subtree_ok [OF h(2) ok] by auto
qed

lemma find_by_id_subtree: "find_by_id i h = Some g \<Longrightarrow> g \<in> set (subtree h)"
proof (induction i h rule: find_by_id.induct)
  case (1 i h)
  then show ?case
    by (cases "property h ''ID'' = Some i")
      (auto simp: find_by_id.simps [of i h] subtree.simps [of g] subtree.simps [of h]
        dest!: find_map_SomeD)
qed

text \<open>A lookup by id is a lookup among the headings of the file.\<close>

lemma file_find_by_id_all: "file_find_by_id f i = Some h \<Longrightarrow> h \<in> set (all_headings f)"
  by (auto simp: file_find_by_id_def all_headings_def dest!: find_map_SomeD find_by_id_subtree)

lemma file_find_by_id_ok:
  assumes "file_find_by_id f i = Some g" "file_ok f"
  shows "property g ''ID'' = Some i \<and> (\<exists>k \<ge> 1. heading_ok (of_source f) k g) \<and>
    snd (h_span g) \<le> length (of_source f)"
proof -
  obtain h where h: "h \<in> set (of_headings f)" "find_by_id i h = Some g"
    using assms(1) by (auto simp: file_find_by_id_def dest: find_map_SomeD)
  have ok: "heading_ok (of_source f) 1 h" using assms(2) h(1) by (auto simp: file_ok_def list_all_iff)
  have "snd (h_span h) \<le> length (of_source f)"
    using assms(2) h(1) adjacent_member unfolding file_ok_def
    by (metis (no_types, opaque_lifting) image_eqI list.set_map)
  then show ?thesis using find_by_id_ok [OF h(2) ok] by auto
qed

text \<open>The spans a heading carries, in order.\<close>

lemma heading_ok_spans:
  assumes "heading_ok s k h"
  shows "fst (h_title_line h) = fst (h_span h)" "fst (h_span h) < after_title h"
    "fst (h_title_line h) \<le> snd (h_title_line h)"
    "snd (h_title_line h) \<le> fst (h_body h)" "fst (h_span h) < fst (h_body h)"
    "fst (h_body h) \<le> snd (h_body h)" "snd (h_body h) \<le> snd (h_span h)"
    "\<And>c. c \<in> set (h_sections h) \<Longrightarrow>
       heading_ok s (Suc k) c \<and> snd (h_body h) \<le> fst (h_span c) \<and> snd (h_span c) \<le> snd (h_span h)"
    "\<And>d. h_properties h = Some d \<Longrightarrow> drawer_ok s (fst (h_body h)) d \<and> snd (h_title_line h) \<le> fst (pd_span d) \<and>
       fst (h_span h) < fst (pd_span d)"
proof -
  have adj: "adjacent (snd (h_body h)) (snd (h_span h)) (map h_span (h_sections h))"
    and title: "fst (h_title_line h) = fst (h_span h)" "fst (h_span h) < after_title h"
      "fst (h_title_line h) \<le> snd (h_title_line h)" "snd (h_title_line h) \<le> after_title h"
    and body: "fst (h_body h) \<le> snd (h_body h)"
    and dr: "\<And>d. h_properties h = Some d \<Longrightarrow> drawer_ok s (fst (h_body h)) d"
    and secs: "\<And>c. c \<in> set (h_sections h) \<Longrightarrow> heading_ok s (Suc k) c"
    using assms unfolding heading_ok.simps [of s k h] by (auto simp: list_all_iff)
  have "after_title h \<le> fst (h_body h)"
    using dr by (cases "h_properties h") (auto simp: after_title_def drawer_ok_def)
  then show "fst (h_title_line h) = fst (h_span h)" "fst (h_span h) < after_title h"
    "fst (h_title_line h) \<le> snd (h_title_line h)"
    "snd (h_title_line h) \<le> fst (h_body h)" "fst (h_span h) < fst (h_body h)"
    "fst (h_body h) \<le> snd (h_body h)" "snd (h_body h) \<le> snd (h_span h)"
    using title body adjacent_le [OF adj] by simp_all
  show "heading_ok s (Suc k) c \<and> snd (h_body h) \<le> fst (h_span c) \<and> snd (h_span c) \<le> snd (h_span h)"
    if "c \<in> set (h_sections h)" for c
    using secs [OF that] adjacent_member [OF adj, of "h_span c"] that by simp
  show "drawer_ok s (fst (h_body h)) d \<and> snd (h_title_line h) \<le> fst (pd_span d) \<and>
      fst (h_span h) < fst (pd_span d)" if "h_properties h = Some d" for d
    using dr [OF that] title that by (simp add: after_title_def)
qed

section \<open>Properties of the parser\<close>

text \<open>The example file the witnesses use.\<close>

definition sample_org :: string where
  "sample_org = concat (map (\<lambda>l. l @ [LF])
     [''#+k: v'', ''* TODO A  :c:'', '':PROPERTIES:'', '':ID: T-A'', '':OWNER:  kim'', '':END:'',
      ''Why.'', ''** E'', ''ok'', ''* B''])"

text \<open>Claim C11. Parsing loses no byte: the prelude and the spans of the top-level headings follow
  each other from the first byte to the last, their slices put back together are the source, and
  inside every heading its title line, drawer, body and sections follow each other in the same way,
  with each section one level deeper (\<open>heading_ok\<close>).\<close>

theorem org_parse_tiles:
  assumes "org_parse source d = Inr f"
  shows "of_source f = source \<and>
    file_slice f (of_prelude f) @ concat (map (\<lambda>h. file_slice f (h_span h)) (of_headings f)) = source \<and>
    fst (of_prelude f) = 0 \<and>
    adjacent (snd (of_prelude f)) (length source) (map h_span (of_headings f)) \<and>
    list_all (heading_ok source 1) (of_headings f)"
proof -
  have s: "of_source f = source" and ok: "file_ok f" using org_parse_ok [OF assms] by auto
  obtain b where p: "of_prelude f = (0, b)" using ok by (cases "of_prelude f") (auto simp: file_ok_def)
  have adj: "adjacent b (length source) (map h_span (of_headings f))"
    using ok s p by (simp add: file_ok_def)
  have "concat (map (slice source) (map h_span (of_headings f))) = slice source (b, length source)"
    using adjacent_slices [OF adj] by simp
  moreover have "slice source (0, b) @ slice source (b, length source) = source"
    using slice_adjacent [of 0 b "length source" source] adjacent_le [OF adj] by simp
  ultimately show ?thesis using s ok p by (simp add: file_ok_def file_slice_def o_def)
qed

theorem org_parse_tiles_witness:
  "\<exists>f. org_parse sample_org ''demo'' = Inr f \<and> length (of_headings f) = 2 \<and>
     file_slice f (of_prelude f) @ concat (map (\<lambda>h. file_slice f (h_span h)) (of_headings f)) =
       sample_org"
proof -
  have "(case org_parse sample_org ''demo'' of Inl _ \<Rightarrow> False | Inr f \<Rightarrow> length (of_headings f) = 2)"
    by code_simp
  then obtain f where f: "org_parse sample_org ''demo'' = Inr f" "length (of_headings f) = 2"
    by (auto split: sum.splits)
  then show ?thesis using org_parse_tiles [OF f(1)] by blast
qed

text \<open>Claim C12. Every property of every heading of a parsed file, at whatever depth the heading is,
  reads back from the source: the heading has a drawer that holds the entry, the bytes of the value span
  are the (trimmed) value, and the spans are nested: the value span inside its line, the line inside the
  span of the drawer, the drawer inside the heading and the heading inside the file. A heading that an
  id finds is one of them and carries that id.\<close>

theorem org_property_spans_read:
  assumes "org_parse source d = Inr f" "h \<in> set (all_headings f)" "e \<in> set (property_entries h)"
  shows "slice source (pe_value_span e) = pe_value e \<and> trim (pe_value e) = pe_value e \<and>
    (\<exists>dr. h_properties h = Some dr \<and> e \<in> set (pd_entries dr) \<and>
       fst (h_span h) < fst (pd_span dr) \<and> fst (pd_span dr) < fst (pe_span e) \<and>
       fst (pe_span e) < fst (pe_value_span e) \<and> fst (pe_value_span e) \<le> snd (pe_value_span e) \<and>
       snd (pe_value_span e) \<le> snd (pe_span e) \<and> snd (pe_span e) < snd (pd_span dr) \<and>
       snd (pd_span dr) \<le> snd (h_span h) \<and> snd (h_span h) \<le> length source) \<and>
    (\<forall>i g. file_find_by_id f i = Some g \<longrightarrow> g \<in> set (all_headings f) \<and> property g ''ID'' = Some i)"
proof -
  have s: "of_source f = source" and ok: "file_ok f" using org_parse_ok [OF assms(1)] by auto
  note g = all_headings_ok [OF assms(2) ok]
  then obtain k where k: "heading_ok source k h" using s by auto
  obtain dr where dr: "h_properties h = Some dr" "e \<in> set (pd_entries dr)"
    using assms(3) by (cases "h_properties h") (auto simp: property_entries_def)
  then have "entry_in source (pd_span dr) e" "snd (pd_span dr) = fst (h_body h)"
    "fst (h_span h) < fst (pd_span dr)"
    using heading_ok_spans(9) [OF k dr(1)] by (auto simp: drawer_ok_def list_all_iff)
  moreover have "\<forall>i g. file_find_by_id f i = Some g \<longrightarrow>
      g \<in> set (all_headings f) \<and> property g ''ID'' = Some i"
    using file_find_by_id_all file_find_by_id_ok [OF _ ok] by blast
  ultimately show ?thesis
    using g s dr heading_ok_spans(6,7) [OF k] by (auto simp: entry_in_def)
qed

theorem org_property_spans_read_witness:
  "\<exists>f h e. org_parse sample_org ''demo'' = Inr f \<and> file_find_by_id f ''T-A'' = Some h \<and>
     e \<in> set (property_entries h) \<and> pe_key e = ''OWNER'' \<and> slice sample_org (pe_value_span e) = ''kim''"
proof -
  have "(case org_parse sample_org ''demo'' of
      Inl _ \<Rightarrow> False
    | Inr f \<Rightarrow> (case file_find_by_id f ''T-A'' of
        None \<Rightarrow> False
      | Some h \<Rightarrow> map (\<lambda>e. (pe_key e, pe_value e)) (property_entries h) =
          [(''ID'', ''T-A''), (''OWNER'', ''kim'')]))"
    by code_simp
  then obtain f h where f: "org_parse sample_org ''demo'' = Inr f" "file_find_by_id f ''T-A'' = Some h"
    "map (\<lambda>e. (pe_key e, pe_value e)) (property_entries h) = [(''ID'', ''T-A''), (''OWNER'', ''kim'')]"
    by (auto split: sum.splits option.splits)
  then have "(''OWNER'', ''kim'') \<in> set (map (\<lambda>e. (pe_key e, pe_value e)) (property_entries h))" by simp
  then obtain e where e: "e \<in> set (property_entries h)" "pe_key e = ''OWNER''" "pe_value e = ''kim''"
    unfolding set_map by auto
  have "slice sample_org (pe_value_span e) = ''kim''"
    using org_property_spans_read [OF f(1) file_find_by_id_all [OF f(2)] e(1)] e(3) by simp
  then show ?thesis using f(1,2) e(1,2) by blast
qed

end
