(* ===== verification/Org_Rewriter.thy ===== *)
theory Org_Rewriter
  imports Org_Structure
begin

text \<open>
  \<open>OrgRewriter\<close> of \<open>crates/orgasmic-core/src/org.rs\<close>: heading lines as values, the
  structural snapshot, raw body wrapping, and every editing operation. An operation takes the
  rewriter and returns its result with the rewriter after it, so what a failing call leaves behind
  is part of the model.
\<close>

section \<open>Heading lines as values\<close>

record heading_line =
  hl_level :: nat
  hl_todo :: "string option"
  hl_title :: string
  hl_tags :: "string list"

definition heading_line_of :: "heading \<Rightarrow> heading_line" where
  "heading_line_of h =
     \<lparr>hl_level = h_level h, hl_todo = h_todo h, hl_title = trim (h_title h), hl_tags = h_tags h\<rparr>"

definition render_heading_line :: "heading_line \<Rightarrow> string" where
  "render_heading_line l =
     (let tokens = filter (\<lambda>t. t \<noteq> [])
            ((case hl_todo l of None \<Rightarrow> [] | Some t \<Rightarrow> [t]) @ [hl_title l]);
          line = replicate (hl_level l) (CHR ''*'') @ concat (map (\<lambda>t. CHR '' '' # t) tokens)
      in if hl_tags l \<noteq> [] then line @ ''    :'' @ join '':'' (hl_tags l) @ '':'' else line)"

record heading_line_edit =
  hle_title :: "string option"
  hle_tags :: "string list option"

section \<open>Structure and raw bodies\<close>

function collect_heading_structure :: "heading \<Rightarrow> (nat \<times> string option) list" where
  "collect_heading_structure h =
     (h_level h, property h ''ID'') # concat (map collect_heading_structure (h_sections h))"
  by pat_completeness auto
termination
  by (relation "measure size") (auto simp: size_section)

declare collect_heading_structure.simps [simp del]

definition heading_structure_snapshot :: "heading list \<Rightarrow> (nat \<times> string option) list" where
  "heading_structure_snapshot hs = concat (map collect_heading_structure hs)"

definition raw_body_line_needs_comma_escape :: "string \<Rightarrow> bool" where
  "raw_body_line_needs_comma_escape content =
     (let after_commas = trim_start_matches (CHR '','') content
      in starts_with after_commas ''*'' \<or> starts_with after_commas ''#+'')"

definition escape_raw_line :: "string \<Rightarrow> string" where
  "escape_raw_line line =
     (let content = (case strip_suffix line [LF] of None \<Rightarrow> line | Some c \<Rightarrow> c)
      in if raw_body_line_needs_comma_escape content then CHR '','' # line else line)"

definition wrap_raw_body :: "string \<Rightarrow> string" where
  "wrap_raw_body payload =
     (let escaped = concat (map escape_raw_line (split_inclusive_lf payload));
          closed = (if ends_with escaped [LF] then escaped else escaped @ [LF])
      in ''#+begin_example'' @ [LF] @ closed @ ''#+end_example'' @ [LF])"

fun body_heading_lines_loop :: "nat \<Rightarrow> nat \<Rightarrow> string list \<Rightarrow> (nat \<times> string) list" where
  "body_heading_lines_loop index depth [] = []"
| "body_heading_lines_loop index depth (line # ls) =
     (let in_block = (0 < depth \<or> starts_block line);
          rest = body_heading_lines_loop (index + 1) (block_depth_after depth line) ls
      in if \<not> in_block \<and> heading_level (trim_end_matches CR line) \<noteq> None
         then (index + 1, trim_end line) # rest else rest)"

definition body_heading_lines :: "string \<Rightarrow> (nat \<times> string) list" where
  "body_heading_lines content = body_heading_lines_loop 0 0 (str_lines content)"

section \<open>The rewriter and its edits\<close>

record rewriter =
  rw_source :: string
  rw_edits :: "(span \<times> string) list"
  rw_file_name :: string

type_synonym 'a edit = "rewriter \<Rightarrow> (org_error + 'a) \<times> rewriter"

text \<open>\<open>sort_by_key\<close> on the reversed start is a stable descending sort.\<close>

definition apply_edits :: "string \<Rightarrow> (span \<times> string) list \<Rightarrow> string" where
  "apply_edits source edits =
     foldl (\<lambda>out (r, t). replace_range out r t) source
       (sort_key (\<lambda>(r, t). - int (fst r)) edits)"

definition rewriter_new :: "org_file \<Rightarrow> string \<Rightarrow> rewriter" where
  "rewriter_new f name = \<lparr>rw_source = of_source f, rw_edits = [], rw_file_name = name\<rparr>"

definition current_text :: "rewriter \<Rightarrow> string" where
  "current_text rw = apply_edits (rw_source rw) (rw_edits rw)"

definition rewriter_finish :: "rewriter \<Rightarrow> string" where
  "rewriter_finish rw = apply_edits (rw_source rw) (rw_edits rw)"

definition replace_with_view :: "span \<Rightarrow> string \<Rightarrow> rewriter \<Rightarrow> rewriter" where
  "replace_with_view r t rw =
     rw\<lparr>rw_source := apply_edits (rw_source rw) (rw_edits rw), rw_edits := [(r, t)]\<rparr>"

definition pop_edit :: "rewriter \<Rightarrow> rewriter" where
  "pop_edit rw = rw\<lparr>rw_edits := butlast (rw_edits rw)\<rparr>"

definition rw_parse :: "rewriter \<Rightarrow> org_error + org_file" where
  "rw_parse rw = org_parse (current_text rw) (rw_file_name rw)"

definition heading_or_err :: "rewriter \<Rightarrow> org_file \<Rightarrow> string \<Rightarrow> org_error + heading" where
  "heading_or_err rw view heading_id =
     ok_or (HeadingNotFound (rw_file_name rw) ('':ID: '' @ heading_id)) (file_find_by_id view heading_id)"

text \<open>The view of the current text and the heading with an id in it: how every operation starts.\<close>

definition located :: "rewriter \<Rightarrow> string \<Rightarrow> org_error + org_file \<times> heading" where
  "located rw heading_id =
     try_res (rw_parse rw) (\<lambda>view.
     try_res (heading_or_err rw view heading_id) (\<lambda>h. Inr (view, h)))"

section \<open>The guards after a write\<close>

datatype body_target = Node_Target | Section_Target string

definition assert_structural_invariant :: "(nat \<times> string option) list \<Rightarrow> unit edit" where
  "assert_structural_invariant before rw =
     (case rw_parse rw of
        Inl _ \<Rightarrow> (Inl (BodyHeadingInjection (rw_file_name rw)), pop_edit rw)
      | Inr f \<Rightarrow>
          if heading_structure_snapshot (of_headings f) \<noteq> before
          then (Inl (BodyHeadingInjection (rw_file_name rw)), pop_edit rw)
          else (Inr (), rw))"

definition stored_body :: "rewriter \<Rightarrow> string \<Rightarrow> body_target \<Rightarrow> string option" where
  "stored_body rw heading_id target =
     (case rw_parse rw of
        Inl _ \<Rightarrow> None
      | Inr view \<Rightarrow>
          Option.bind (file_find_by_id view heading_id) (\<lambda>heading.
            case target of
              Node_Target \<Rightarrow> Some (trim (file_slice view (h_body heading)))
            | Section_Target title \<Rightarrow>
                map_option (\<lambda>s. trim (file_slice view (h_body s))) (section_of heading title)))"

definition target_name :: "string \<Rightarrow> body_target \<Rightarrow> string" where
  "target_name heading_id target =
     (case target of
        Node_Target \<Rightarrow> ''body of '' @ heading_id
      | Section_Target title \<Rightarrow> ''section '' @ title @ '' of '' @ heading_id)"

definition assert_body_round_trip :: "string \<Rightarrow> body_target \<Rightarrow> string \<Rightarrow> unit edit" where
  "assert_body_round_trip heading_id target submitted rw =
     (let stored = stored_body rw heading_id target; expected = trim submitted
      in if stored = Some expected then (Inr (), rw)
         else
           (Inl (BodyRoundTripLoss (rw_file_name rw) (target_name heading_id target)
              (length (chars expected)) (case stored of None \<Rightarrow> 0 | Some t \<Rightarrow> length (chars t))),
            pop_edit rw))"

text \<open>Both guards in the order of the body writes, the second only when the first accepts.\<close>

definition assert_body_write ::
  "(nat \<times> string option) list \<Rightarrow> string \<Rightarrow> body_target \<Rightarrow> string \<Rightarrow> unit edit" where
  "assert_body_write before heading_id target submitted rw =
     (case assert_structural_invariant before rw of
        (Inl e, rw') \<Rightarrow> (Inl e, rw')
      | (Inr _, rw') \<Rightarrow> assert_body_round_trip heading_id target submitted rw')"

section \<open>Properties\<close>

definition find_property :: "heading \<Rightarrow> string \<Rightarrow> property_entry option" where
  "find_property h key = find (\<lambda>e. pe_key e = key) (property_entries h)"

definition set_property :: "string \<Rightarrow> string \<Rightarrow> string \<Rightarrow> unit edit" where
  "set_property heading_id key value rw =
     (case located rw heading_id of
        Inl e \<Rightarrow> (Inl e, rw)
      | Inr (view, heading) \<Rightarrow>
          (case find_property heading key of
             None \<Rightarrow> (Inl (PropertyNotFound (rw_file_name rw) key heading_id), rw)
           | Some entry \<Rightarrow>
               (let value_span = pe_value_span entry
                in if fst value_span \<ge> snd value_span \<and> value \<noteq> []
                   then (Inr (), replace_with_view value_span (CHR '' '' # value) rw)
                   else (Inr (), replace_with_view value_span value rw))))"

definition render_property_line :: "string \<Rightarrow> string \<Rightarrow> nat option \<Rightarrow> string" where
  "render_property_line key value value_col =
     (let prefix = '':'' @ key @ '':'';
          pad = (case value_col of
                   Some col \<Rightarrow> if length prefix < col then col - length prefix else 1
                 | None \<Rightarrow> 1)
      in prefix @ replicate pad (CHR '' '') @ value @ [LF])"

text \<open>Where \<open>insert_property\<close> puts the new line, and the value column it aligns to.\<close>

definition insert_point :: "org_file \<Rightarrow> property_drawer \<Rightarrow> nat \<times> nat option" where
  "insert_point view drawer =
     (if pd_entries drawer \<noteq> [] then
        (let l = last (pd_entries drawer)
         in (snd (pe_span l), Some (fst (pe_value_span l) - fst (pe_span l))))
      else
        (case find_sub [LF] (file_slice view (pd_span drawer)) of
           Some off \<Rightarrow> (fst (pd_span drawer) + off + 1, None)
         | None \<Rightarrow> (fst (pd_span drawer), None)))"

definition insert_property :: "string \<Rightarrow> string \<Rightarrow> string \<Rightarrow> unit edit" where
  "insert_property heading_id key value rw =
     (case located rw heading_id of
        Inl e \<Rightarrow> (Inl e, rw)
      | Inr (view, heading) \<Rightarrow>
          (case h_properties heading of
             None \<Rightarrow> (Inl (NoPropertyDrawer (rw_file_name rw) heading_id), rw)
           | Some drawer \<Rightarrow>
               (let (insert_at, value_col) = insert_point view drawer
                in (Inr (), replace_with_view (insert_at, insert_at)
                      (render_property_line key value value_col) rw))))"

definition remove_property :: "string \<Rightarrow> string \<Rightarrow> unit edit" where
  "remove_property heading_id key rw =
     (case located rw heading_id of
        Inl e \<Rightarrow> (Inl e, rw)
      | Inr (view, heading) \<Rightarrow>
          (case find_property heading key of
             None \<Rightarrow> (Inl (PropertyNotFound (rw_file_name rw) key heading_id), rw)
           | Some entry \<Rightarrow> (Inr (), replace_with_view (pe_span entry) [] rw)))"

definition upsert_property :: "string \<Rightarrow> string \<Rightarrow> string \<Rightarrow> unit edit" where
  "upsert_property heading_id key value rw =
     (case located rw heading_id of
        Inl e \<Rightarrow> (Inl e, rw)
      | Inr (view, heading) \<Rightarrow>
          if \<exists>e \<in> set (property_entries heading). pe_key e = key
          then set_property heading_id key value rw
          else insert_property heading_id key value rw)"

section \<open>Title lines\<close>

definition set_title_line :: "string \<Rightarrow> string \<Rightarrow> unit edit" where
  "set_title_line heading_id new_title_line rw =
     (case located rw heading_id of
        Inl e \<Rightarrow> (Inl e, rw)
      | Inr (view, heading) \<Rightarrow> (Inr (), replace_with_view (h_title_line heading) new_title_line rw))"

text \<open>The heading line that an edit of a heading intends.\<close>

definition edited_line :: "heading_line_edit \<Rightarrow> heading_line \<Rightarrow> heading_line" where
  "edited_line edit current =
     \<lparr>hl_level = hl_level current, hl_todo = hl_todo current,
      hl_title = (case hle_title edit of None \<Rightarrow> hl_title current | Some t \<Rightarrow> trim t),
      hl_tags = (case hle_tags edit of None \<Rightarrow> hl_tags current | Some ts \<Rightarrow> ts)\<rparr>"

definition read_heading_line :: "rewriter \<Rightarrow> string \<Rightarrow> heading_line option" where
  "read_heading_line rw heading_id =
     (case rw_parse rw of
        Inl _ \<Rightarrow> None
      | Inr view \<Rightarrow> map_option heading_line_of (file_find_by_id view heading_id))"

definition edit_heading_line :: "string \<Rightarrow> heading_line_edit \<Rightarrow> unit edit" where
  "edit_heading_line heading_id edit rw =
     (case located rw heading_id of
        Inl e \<Rightarrow> (Inl e, rw)
      | Inr (view, heading) \<Rightarrow>
          (let before = heading_structure_snapshot (of_headings view);
               expected = edited_line edit (heading_line_of heading);
               wrote = render_heading_line expected
           in case set_title_line heading_id wrote rw of
                (Inl e, rw1) \<Rightarrow> (Inl e, rw1)
              | (Inr _, rw1) \<Rightarrow>
                  (case assert_structural_invariant before rw1 of
                     (Inl _, rw2) \<Rightarrow>
                       (Inl (HeadingRoundTripLoss (rw_file_name rw) heading_id wrote
                          ''a different heading tree''), rw2)
                   | (Inr _, rw2) \<Rightarrow>
                       (let read_back = read_heading_line rw2 heading_id
                        in if read_back = Some expected then (Inr (), rw2)
                           else
                             (Inl (HeadingRoundTripLoss (rw_file_name rw) heading_id wrote
                                (case read_back of
                                   Some line \<Rightarrow> render_heading_line line
                                 | None \<Rightarrow> ''no heading with that :ID:'')), pop_edit rw2)))))"

definition remove_heading :: "string \<Rightarrow> unit edit" where
  "remove_heading heading_id rw =
     (case located rw heading_id of
        Inl e \<Rightarrow> (Inl e, rw)
      | Inr (view, heading) \<Rightarrow> (Inr (), replace_with_view (h_span heading) [] rw))"

section \<open>Bodies and sections\<close>

definition set_section_body :: "string \<Rightarrow> string \<Rightarrow> string \<Rightarrow> unit edit" where
  "set_section_body heading_id section_title new_body rw =
     (case located rw heading_id of
        Inl e \<Rightarrow> (Inl e, rw)
      | Inr (view, heading) \<Rightarrow>
          (case section_of heading section_title of
             None \<Rightarrow> (Inl (SectionNotFound (rw_file_name rw) section_title heading_id), rw)
           | Some sec \<Rightarrow>
               assert_body_write (heading_structure_snapshot (of_headings view)) heading_id
                 (Section_Target section_title) new_body
                 (replace_with_view (h_body sec) new_body rw)))"

text \<open>What \<open>set_node_body\<close> writes over the old body: the white space around it is kept.\<close>

definition node_body_replacement :: "string \<Rightarrow> string \<Rightarrow> string" where
  "node_body_replacement body content =
     (let (prefix, tail) =
            (if trim body = [] then ([LF], [LF, LF])
             else (take (length body - length (trim_start body)) body,
                   drop (length (trim_end body)) body))
      in if content = [] then (if trim body = [] then body else tail)
         else prefix @ content @ tail)"

definition set_node_body :: "string \<Rightarrow> string \<Rightarrow> unit edit" where
  "set_node_body heading_id content0 rw =
     (case located rw heading_id of
        Inl e \<Rightarrow> (Inl e, rw)
      | Inr (view, heading) \<Rightarrow>
          (let content = trim_end content0;
               replacement = node_body_replacement (file_slice view (h_body heading)) content
           in assert_body_write (heading_structure_snapshot (of_headings view)) heading_id
                Node_Target content (replace_with_view (h_body heading) replacement rw)))"

definition render_section :: "string \<Rightarrow> string \<Rightarrow> nat \<Rightarrow> string" where
  "render_section title body level =
     (let stars = replicate level (CHR ''*''); body = trim_end body
      in if body = [] then [LF] @ stars @ '' '' @ title
         else [LF] @ stars @ '' '' @ title @ [LF] @ body)"

definition append_section :: "string \<Rightarrow> string \<Rightarrow> string \<Rightarrow> unit edit" where
  "append_section heading_id title body rw =
     (case located rw heading_id of
        Inl e \<Rightarrow> (Inl e, rw)
      | Inr (view, heading) \<Rightarrow>
          (let at = fst (h_span heading) + length (trim_end (file_slice view (h_span heading)));
               level = h_level heading + 1;
               rw1 = replace_with_view (at, at) (render_section title [] level) rw
           in case rw_parse rw1 of
                Inl e \<Rightarrow> (Inl e, pop_edit rw1)
              | Inr header_view \<Rightarrow>
                  assert_body_write (heading_structure_snapshot (of_headings header_view)) heading_id
                    (Section_Target title) body
                    (replace_with_view (at, at) (render_section title body level) (pop_edit rw1))))"

definition section_titles :: "rewriter \<Rightarrow> string \<Rightarrow> org_error + string list" where
  "section_titles rw heading_id =
     try_res (located rw heading_id) (\<lambda>(view, heading). Inr (map h_title (h_sections heading)))"

definition has_section :: "rewriter \<Rightarrow> string \<Rightarrow> string \<Rightarrow> org_error + bool" where
  "has_section rw heading_id section_title =
     try_res (section_titles rw heading_id) (\<lambda>ts. Inr (section_title \<in> set ts))"

definition remove_section :: "string \<Rightarrow> string \<Rightarrow> unit edit" where
  "remove_section heading_id section_title rw =
     (case located rw heading_id of
        Inl e \<Rightarrow> (Inl e, rw)
      | Inr (view, heading) \<Rightarrow>
          (case section_of heading section_title of
             None \<Rightarrow> (Inl (SectionNotFound (rw_file_name rw) section_title heading_id), rw)
           | Some sec \<Rightarrow>
               (let sp = h_span sec;
                    upto = (if ends_with (file_slice view sp) [LF, LF] then snd sp - 1 else snd sp)
                in (Inr (), replace_with_view (fst sp, upto) [] rw))))"

definition upsert_section_text :: "string \<Rightarrow> string \<Rightarrow> string \<Rightarrow> unit edit" where
  "upsert_section_text heading_id section_title content rw =
     (case located rw heading_id of
        Inl e \<Rightarrow> (Inl e, rw)
      | Inr (view, heading) \<Rightarrow>
          (case section_of heading section_title of
             Some sec \<Rightarrow>
               (let body = file_slice view (h_body sec);
                    tail = drop (length (trim_end body)) body;
                    trailing = (if tail = [] then [LF] else tail)
                in set_section_body heading_id section_title (trim_end content @ trailing) rw)
           | None \<Rightarrow> append_section heading_id section_title content rw))"


section \<open>What the operations leave in the text\<close>

lemma apply_edits_simps [simp]:
  "apply_edits s [] = s" "apply_edits s [(r, t)] = replace_range s r t"
  by (simp_all add: apply_edits_def)

lemma current_text_replace [simp]:
  "current_text (replace_with_view r t rw) = replace_range (current_text rw) r t"
  by (simp add: current_text_def replace_with_view_def)

lemma current_text_pop [simp]:
  "current_text (pop_edit (replace_with_view r t rw)) = current_text rw"
  by (simp add: current_text_def replace_with_view_def pop_edit_def)

lemma file_name_simps [simp]:
  "rw_file_name (replace_with_view r t rw) = rw_file_name rw"
  "rw_file_name (pop_edit rw) = rw_file_name rw"
  by (simp_all add: replace_with_view_def pop_edit_def)

lemma replace_with_view_pop [simp]:
  "replace_with_view q u (pop_edit (replace_with_view r t rw)) = replace_with_view q u rw"
  by (simp add: replace_with_view_def pop_edit_def)

lemma located_Inr:
  assumes "located rw i = Inr (view, h)"
  shows "rw_parse rw = Inr view \<and> file_find_by_id view i = Some h \<and> of_source view = current_text rw \<and>
    file_ok view \<and> snd (h_span h) \<le> length (current_text rw) \<and>
    (\<exists>k \<ge> 1. heading_ok (current_text rw) k h)"
proof -
  have p: "rw_parse rw = Inr view" and f: "file_find_by_id view i = Some h"
    using assms by (auto simp: located_def heading_or_err_def try_res_Inr_iff)
  then have "of_source view = current_text rw \<and> file_ok view"
    using org_parse_ok unfolding rw_parse_def by blast
  then show ?thesis using p f file_find_by_id_ok [OF f] by auto
qed

text \<open>The guards return the rewriter they were given, or drop its pending edit.\<close>

lemma guards_result:
  "assert_structural_invariant b rw = (r, rw') \<Longrightarrow>
     (case r of Inl _ \<Rightarrow> rw' = pop_edit rw | Inr _ \<Rightarrow> rw' = rw)"
  "assert_body_round_trip i tgt c rw = (r, rw') \<Longrightarrow>
     (case r of Inl _ \<Rightarrow> rw' = pop_edit rw | Inr _ \<Rightarrow> rw' = rw)"
  by (auto simp: assert_structural_invariant_def assert_body_round_trip_def Let_def
      split: sum.splits if_splits)

lemma assert_body_write_result:
  "assert_body_write b i tgt c rw = (r, rw') \<Longrightarrow>
     (case r of Inl _ \<Rightarrow> rw' = pop_edit rw | Inr _ \<Rightarrow> rw' = rw)"
  by (auto simp: assert_body_write_def dest!: guards_result split: sum.splits prod.splits)

lemma assert_body_write_ok:
  assumes "assert_body_write b i tgt c rw = (Inr x, rw')"
  shows "rw' = rw \<and> (\<exists>f. rw_parse rw = Inr f \<and> heading_structure_snapshot (of_headings f) = b) \<and>
    stored_body rw i tgt = Some (trim c)"
proof -
  have 1: "assert_structural_invariant b rw = (Inr (), rw)"
    using assms guards_result(1) by (fastforce simp: assert_body_write_def split: prod.splits sum.splits)
  then have "assert_body_round_trip i tgt c rw = (Inr x, rw')"
    using assms by (simp add: assert_body_write_def)
  then show ?thesis
    using 1 by (auto simp: assert_body_round_trip_def assert_structural_invariant_def Let_def
        split: if_splits sum.splits)
qed

section \<open>Operations as edits of a text\<close>

text \<open>The contract of every public operation: when it fails, the text (and the file name) are as
  before; when it succeeds, one byte range inside the text was replaced.\<close>

definition edits_text :: "rewriter \<Rightarrow> rewriter \<Rightarrow> bool" where
  "edits_text rw rw' \<longleftrightarrow>
     rw_file_name rw' = rw_file_name rw \<and>
     (\<exists>r t. span_in r (length (current_text rw)) \<and>
        current_text rw' = replace_range (current_text rw) r t)"

locale atomic_edit =
  fixes run :: "rewriter \<Rightarrow> (org_error + 'a) \<times> rewriter"
  assumes failure: "run rw = (Inl e, rw') \<Longrightarrow>
      current_text rw' = current_text rw \<and> rw_file_name rw' = rw_file_name rw"
    and success: "run rw = (Inr x, rw') \<Longrightarrow> edits_text rw rw'"
begin

lemma failed_then_same_view: "run rw = (Inl e, rw') \<Longrightarrow> rw_parse rw' = rw_parse rw"
  using failure by (simp add: rw_parse_def)

text \<open>A success keeps a prefix and a suffix of the text, byte for byte, and these two meet
  around the replaced range.\<close>

lemma success_keeps_outside:
  "run rw = (Inr x, rw') \<Longrightarrow>
     \<exists>p old new s. current_text rw = p @ old @ s \<and> current_text rw' = p @ new @ s"
proof -
  assume "run rw = (Inr x, rw')"
  then obtain r t where r: "span_in r (length (current_text rw))"
    "current_text rw' = replace_range (current_text rw) r t"
    using success unfolding edits_text_def by blast
  let ?s = "current_text rw"
  have "?s = replace_range ?s r (slice ?s r)" using replace_range_slice [OF r(1)] by simp
  then show ?thesis using r(2) unfolding replace_range_def by metis
qed

end

lemma edits_text_replace:
  "span_in r (length (current_text rw)) \<Longrightarrow> edits_text rw (replace_with_view r t rw)"
  unfolding edits_text_def by (intro conjI exI [of _ r] exI [of _ t]) simp_all

lemma located_Inl_cases:
  "(case located rw i of Inl e \<Rightarrow> (Inl e, rw) | Inr (view, h) \<Rightarrow> f view h) = (r, rw') \<Longrightarrow>
     (\<And>e. r = Inl e \<Longrightarrow> rw' = rw \<Longrightarrow> located rw i = Inl e \<Longrightarrow> P) \<Longrightarrow>
     (\<And>view h. located rw i = Inr (view, h) \<Longrightarrow> f view h = (r, rw') \<Longrightarrow> P) \<Longrightarrow> P"
  by (auto split: sum.splits)

lemma find_property_Some:
  "find_property h key = Some e \<Longrightarrow> e \<in> set (property_entries h) \<and> pe_key e = key"
  by (auto simp: find_property_def dest: find_SomeD)

lemma entry_spans:
  assumes "heading_ok s k h" "snd (h_span h) \<le> length s" "e \<in> set (property_entries h)"
  shows "span_in (pe_value_span e) (length s)" "span_in (pe_span e) (length s)"
proof -
  obtain d where d: "h_properties h = Some d" "e \<in> set (pd_entries d)"
    using assms(3) by (cases "h_properties h") (auto simp: property_entries_def)
  then have "entry_in s (pd_span d) e" "snd (pd_span d) = fst (h_body h)"
    using heading_ok_spans(9) [OF assms(1) d(1)] by (auto simp: drawer_ok_def list_all_iff)
  then show "span_in (pe_value_span e) (length s)" "span_in (pe_span e) (length s)"
    using assms(2) heading_ok_spans(6,7) [OF assms(1)] by (auto simp: entry_in_def span_in_def)
qed

lemma section_of_Some: "section_of h t = Some c \<Longrightarrow> c \<in> set (h_sections h) \<and> h_title c = t"
  by (auto simp: section_of_def dest: find_SomeD)

lemma heading_spans_in:
  assumes "heading_ok s k h" "snd (h_span h) \<le> length s"
  shows "span_in (h_span h) (length s)" "span_in (h_body h) (length s)"
    "span_in (h_title_line h) (length s)"
  using heading_ok_spans(1-7) [OF assms(1)] assms(2)
  by (auto simp: span_in_def)

text \<open>The operations that are one replacement in the located heading.\<close>

lemma atomic_located:
  assumes "\<And>rw. run rw =
      (case located rw i of Inl e \<Rightarrow> (Inl e, rw) | Inr (view, h) \<Rightarrow> f rw view h)"
    and "\<And>rw view h e rw'. located rw i = Inr (view, h) \<Longrightarrow> f rw view h = (Inl e, rw') \<Longrightarrow>
      current_text rw' = current_text rw \<and> rw_file_name rw' = rw_file_name rw"
    and "\<And>rw view h x rw'. located rw i = Inr (view, h) \<Longrightarrow> f rw view h = (Inr x, rw') \<Longrightarrow>
      edits_text rw rw'"
  shows "atomic_edit run"
  using assms(2,3) by unfold_locales (auto simp: assms(1) elim!: located_Inl_cases)

interpretation set_property: atomic_edit "set_property i k v" for i k v
proof (rule atomic_located, unfold set_property_def, rule refl)
  fix rw view h x rw'
  assume l: "located rw i = Inr (view, h)"
    and s: "(case find_property h k of
        None \<Rightarrow> (Inl (PropertyNotFound (rw_file_name rw) k i), rw)
      | Some entry \<Rightarrow>
          (let value_span = pe_value_span entry
           in if snd value_span \<le> fst value_span \<and> v \<noteq> []
              then (Inr (), replace_with_view value_span (CHR '' '' # v) rw)
              else (Inr (), replace_with_view value_span v rw))) = (Inr x, rw')"
  then obtain e where e: "find_property h k = Some e" by (auto split: option.splits)
  have "span_in (pe_value_span e) (length (current_text rw))"
    using located_Inr [OF l] entry_spans(1) find_property_Some [OF e] by blast
  then show "edits_text rw rw'"
    using s e by (auto simp: Let_def intro!: edits_text_replace split: if_splits)
qed (auto simp: Let_def split: option.splits if_splits)

interpretation remove_property: atomic_edit "remove_property i k" for i k
proof (rule atomic_located, unfold remove_property_def, rule refl)
  fix rw view h x rw'
  assume l: "located rw i = Inr (view, h)"
    and s: "(case find_property h k of
        None \<Rightarrow> (Inl (PropertyNotFound (rw_file_name rw) k i), rw)
      | Some entry \<Rightarrow> (Inr (), replace_with_view (pe_span entry) [] rw)) = (Inr x, rw')"
  then obtain e where e: "find_property h k = Some e" by (auto split: option.splits)
  have "span_in (pe_span e) (length (current_text rw))"
    using located_Inr [OF l] entry_spans(2) find_property_Some [OF e] by blast
  then show "edits_text rw rw'" using s e by (auto intro!: edits_text_replace)
qed (auto split: option.splits)

lemma insert_position:
  assumes "located rw i = Inr (view, h)" "h_properties h = Some d"
  shows "pd_entries d \<noteq> []" "snd (pe_span (last (pd_entries d))) \<le> length (current_text rw)"
proof -
  obtain k where k: "property h ''ID'' = Some i" "heading_ok (current_text rw) k h"
    "snd (h_span h) \<le> length (current_text rw)"
    using located_Inr [OF assms(1)] file_find_by_id_ok by metis
  then obtain e where "e \<in> set (pd_entries d)"
    using assms(2) by (auto simp: property_def dest: find_SomeD)
  then show ne: "pd_entries d \<noteq> []" by auto
  then have "last (pd_entries d) \<in> set (property_entries h)"
    using assms(2) by (simp add: property_entries_def)
  then show "snd (pe_span (last (pd_entries d))) \<le> length (current_text rw)"
    using entry_spans(2) [OF k(2,3)] by (simp add: span_in_def)
qed

interpretation insert_property: atomic_edit "insert_property i k v" for i k v
proof (rule atomic_located, unfold insert_property_def, rule refl)
  fix rw view h x rw'
  assume l: "located rw i = Inr (view, h)"
    and s: "(case h_properties h of
        None \<Rightarrow> (Inl (NoPropertyDrawer (rw_file_name rw) i), rw)
      | Some drawer \<Rightarrow>
          (let (insert_at, value_col) = insert_point view drawer
           in (Inr (), replace_with_view (insert_at, insert_at)
                 (render_property_line k v value_col) rw))) = (Inr x, rw')"
  then obtain d where d: "h_properties h = Some d" by (auto split: option.splits)
  show "edits_text rw rw'"
    using s d insert_position [OF l d]
    by (auto simp: Let_def insert_point_def span_in_def intro!: edits_text_replace)
qed (auto split: option.splits prod.splits)

interpretation upsert_property: atomic_edit "upsert_property i k v" for i k v
  by (rule atomic_located, unfold upsert_property_def, rule refl)
    (auto split: if_splits dest: set_property.failure set_property.success
      insert_property.failure insert_property.success)

interpretation set_title_line: atomic_edit "set_title_line i t" for i t
proof (rule atomic_located, unfold set_title_line_def, rule refl)
  fix rw view h x rw'
  assume l: "located rw i = Inr (view, h)"
    and s: "(Inr (), replace_with_view (h_title_line h) t rw) = (Inr x, rw')"
  then show "edits_text rw rw'"
    using located_Inr [OF l] heading_spans_in(3) edits_text_replace by blast
qed auto

interpretation remove_heading: atomic_edit "remove_heading i" for i
proof (rule atomic_located, unfold remove_heading_def, rule refl)
  fix rw view h x rw'
  assume l: "located rw i = Inr (view, h)"
    and s: "(Inr (), replace_with_view (h_span h) [] rw) = (Inr x, rw')"
  then show "edits_text rw rw'"
    using located_Inr [OF l] heading_spans_in(1) edits_text_replace by blast
qed auto

lemma assert_body_write_atomic:
  assumes "assert_body_write b i tgt c (replace_with_view r t rw) = (res, rw')"
    "span_in r (length (current_text rw))"
  shows "case res of
      Inl e \<Rightarrow> current_text rw' = current_text rw \<and> rw_file_name rw' = rw_file_name rw
    | Inr x \<Rightarrow> edits_text rw rw'"
  using assert_body_write_result [OF assms(1)] edits_text_replace [OF assms(2)]
  by (auto split: sum.splits)

lemma section_spans:
  assumes "located rw i = Inr (view, h)" "section_of h t = Some c"
  shows "span_in (h_span c) (length (current_text rw))" "span_in (h_body c) (length (current_text rw))"
proof -
  obtain k where k: "heading_ok (current_text rw) k h" "snd (h_span h) \<le> length (current_text rw)"
    using located_Inr [OF assms(1)] by blast
  have c: "heading_ok (current_text rw) (Suc k) c" "snd (h_span c) \<le> snd (h_span h)"
    using heading_ok_spans(8) [OF k(1)] section_of_Some [OF assms(2)] by auto
  then show "span_in (h_span c) (length (current_text rw))"
    "span_in (h_body c) (length (current_text rw))"
    using heading_spans_in(1,2) [OF c(1)] k(2) by auto
qed

interpretation set_section_body: atomic_edit "set_section_body i st b" for i st b
proof (rule atomic_located, unfold set_section_body_def, rule refl)
  fix rw view h e rw'
  assume l: "located rw i = Inr (view, h)"
    and s: "(case section_of h st of
        None \<Rightarrow> (Inl (SectionNotFound (rw_file_name rw) st i), rw)
      | Some sec \<Rightarrow> assert_body_write (heading_structure_snapshot (of_headings view)) i
          (Section_Target st) b (replace_with_view (h_body sec) b rw)) = (Inl e, rw')"
  show "current_text rw' = current_text rw \<and> rw_file_name rw' = rw_file_name rw"
  proof (cases "section_of h st")
    case None
    then show ?thesis using s by auto
  next
    case (Some sec)
    show ?thesis
      using assert_body_write_atomic [OF _ section_spans(2) [OF l Some]] s Some by force
  qed
next
  fix rw view h x rw'
  assume l: "located rw i = Inr (view, h)"
    and s: "(case section_of h st of
        None \<Rightarrow> (Inl (SectionNotFound (rw_file_name rw) st i), rw)
      | Some sec \<Rightarrow> assert_body_write (heading_structure_snapshot (of_headings view)) i
          (Section_Target st) b (replace_with_view (h_body sec) b rw)) = (Inr x, rw')"
  then obtain sec where sec: "section_of h st = Some sec" by (cases "section_of h st") auto
  show "edits_text rw rw'"
    using assert_body_write_atomic [OF _ section_spans(2) [OF l sec]] s sec by force
qed

interpretation set_node_body: atomic_edit "set_node_body i c" for i c
proof (rule atomic_located, unfold set_node_body_def Let_def, rule refl)
  fix rw view h e rw'
  assume l: "located rw i = Inr (view, h)"
    and s: "assert_body_write (heading_structure_snapshot (of_headings view)) i Node_Target
        (trim_end c) (replace_with_view (h_body h)
          (node_body_replacement (file_slice view (h_body h)) (trim_end c)) rw) = (Inl e, rw')"
  have "span_in (h_body h) (length (current_text rw))"
    using located_Inr [OF l] heading_spans_in(2) by blast
  then show "current_text rw' = current_text rw \<and> rw_file_name rw' = rw_file_name rw"
    using assert_body_write_atomic [OF s] by simp
next
  fix rw view h x rw'
  assume l: "located rw i = Inr (view, h)"
    and s: "assert_body_write (heading_structure_snapshot (of_headings view)) i Node_Target
        (trim_end c) (replace_with_view (h_body h)
          (node_body_replacement (file_slice view (h_body h)) (trim_end c)) rw) = (Inr x, rw')"
  have "span_in (h_body h) (length (current_text rw))"
    using located_Inr [OF l] heading_spans_in(2) by blast
  then show "edits_text rw rw'" using assert_body_write_atomic [OF s] by simp
qed

lemma append_point:
  assumes "located rw i = Inr (view, h)"
  shows "span_in (fst (h_span h) + length (trim_end (file_slice view (h_span h))),
      fst (h_span h) + length (trim_end (file_slice view (h_span h)))) (length (current_text rw))"
proof -
  have "span_in (h_span h) (length (current_text rw))"
    using located_Inr [OF assms] heading_spans_in(1) by blast
  moreover from this have "length (file_slice view (h_span h)) = snd (h_span h) - fst (h_span h)"
    using located_Inr [OF assms] by (simp add: file_slice_def length_slice)
  ultimately show ?thesis
    using length_trim_end [of "file_slice view (h_span h)"] by (auto simp: span_in_def)
qed

interpretation append_section: atomic_edit "append_section i st b" for i st b
proof (rule atomic_located, unfold append_section_def Let_def, rule refl)
  fix rw view h e rw'
  let ?at = "fst (h_span h) + length (trim_end (file_slice view (h_span h)))"
  let ?rw1 = "replace_with_view (?at, ?at) (render_section st [] (h_level h + 1)) rw"
  assume l: "located rw i = Inr (view, h)"
    and s: "(case rw_parse ?rw1 of
        Inl e \<Rightarrow> (Inl e, pop_edit ?rw1)
      | Inr v \<Rightarrow> assert_body_write (heading_structure_snapshot (of_headings v)) i (Section_Target st) b
          (replace_with_view (?at, ?at) (render_section st b (h_level h + 1)) (pop_edit ?rw1))) =
        (Inl e, rw')"
  show "current_text rw' = current_text rw \<and> rw_file_name rw' = rw_file_name rw"
  proof (cases "rw_parse ?rw1")
    case (Inr v)
    then show ?thesis
      using assert_body_write_atomic [OF _ append_point [OF l]] s by force
  qed (use s in auto)
next
  fix rw view h x rw'
  let ?at = "fst (h_span h) + length (trim_end (file_slice view (h_span h)))"
  let ?rw1 = "replace_with_view (?at, ?at) (render_section st [] (h_level h + 1)) rw"
  assume l: "located rw i = Inr (view, h)"
    and s: "(case rw_parse ?rw1 of
        Inl e \<Rightarrow> (Inl e, pop_edit ?rw1)
      | Inr v \<Rightarrow> assert_body_write (heading_structure_snapshot (of_headings v)) i (Section_Target st) b
          (replace_with_view (?at, ?at) (render_section st b (h_level h + 1)) (pop_edit ?rw1))) =
        (Inr x, rw')"
  then obtain v where "rw_parse ?rw1 = Inr v" by (cases "rw_parse ?rw1") auto
  then show "edits_text rw rw'"
    using assert_body_write_atomic [OF _ append_point [OF l]] s by force
qed

interpretation remove_section: atomic_edit "remove_section i st" for i st
proof (rule atomic_located, unfold remove_section_def, rule refl)
  fix rw view h x rw'
  assume l: "located rw i = Inr (view, h)"
    and s: "(case section_of h st of
        None \<Rightarrow> (Inl (SectionNotFound (rw_file_name rw) st i), rw)
      | Some sec \<Rightarrow>
          (let sp = h_span sec;
               upto = (if ends_with (file_slice view sp) [LF, LF] then snd sp - 1 else snd sp)
           in (Inr (), replace_with_view (fst sp, upto) [] rw))) = (Inr x, rw')"
  then obtain sec where sec: "section_of h st = Some sec" by (cases "section_of h st") auto
  have sp: "span_in (h_span sec) (length (current_text rw))" using section_spans(1) [OF l sec] .
  have "fst (h_span sec) < snd (h_span sec)" if "ends_with (file_slice view (h_span sec)) [LF, LF]"
    using that by (auto simp: ends_with_def file_slice_def slice_def)
  then show "edits_text rw rw'"
    using s sec sp by (auto simp: Let_def span_in_def intro!: edits_text_replace split: if_splits)
qed (auto simp: Let_def split: option.splits)

interpretation upsert_section_text: atomic_edit "upsert_section_text i st c" for i st c
  by (rule atomic_located, unfold upsert_section_text_def Let_def, rule refl)
    (auto split: option.splits if_splits dest: set_section_body.failure set_section_body.success
      append_section.failure append_section.success)

text \<open>The outcome of \<open>edit_heading_line\<close> on a located heading.\<close>

lemma edit_heading_line_cases:
  assumes "located rw i = Inr (view, h)" "edit_heading_line i ed rw = (res, rw')"
  defines "rw1 \<equiv> replace_with_view (h_title_line h)
      (render_heading_line (edited_line ed (heading_line_of h))) rw"
  shows "case res of
      Inl e \<Rightarrow> rw' = pop_edit rw1
    | Inr x \<Rightarrow> rw' = rw1 \<and> read_heading_line rw1 i = Some (edited_line ed (heading_line_of h)) \<and>
        (\<exists>f. rw_parse rw1 = Inr f \<and>
           heading_structure_snapshot (of_headings f) = heading_structure_snapshot (of_headings view))"
proof -
  let ?before = "heading_structure_snapshot (of_headings view)"
  have t: "set_title_line i (render_heading_line (edited_line ed (heading_line_of h))) rw = (Inr (), rw1)"
    using assms(1) by (simp add: set_title_line_def rw1_def)
  obtain r rw2 where g: "assert_structural_invariant ?before rw1 = (r, rw2)" by fastforce
  show ?thesis
  proof (cases r)
    case (Inl e)
    then show ?thesis
      using assms(1,2) t g guards_result(1) [OF g] by (auto simp: edit_heading_line_def Let_def)
  next
    case (Inr u)
    then have "rw2 = rw1" using guards_result(1) [OF g] by simp
    moreover have "\<exists>f. rw_parse rw1 = Inr f \<and> heading_structure_snapshot (of_headings f) = ?before"
      using g Inr by (auto simp: assert_structural_invariant_def split: sum.splits if_splits)
    ultimately show ?thesis
      using assms(1,2) t g Inr by (auto simp: edit_heading_line_def Let_def split: if_splits)
  qed
qed

interpretation edit_heading_line: atomic_edit "edit_heading_line i ed" for i ed
proof unfold_locales
  fix rw rw' e
  assume s: "edit_heading_line i ed rw = (Inl e, rw')"
  show "current_text rw' = current_text rw \<and> rw_file_name rw' = rw_file_name rw"
  proof (cases "located rw i")
    case (Inl x)
    then show ?thesis using s by (simp add: edit_heading_line_def)
  next
    case (Inr vh)
    then show ?thesis using edit_heading_line_cases [of rw i "fst vh" "snd vh", OF _ s] by simp
  qed
next
  fix rw rw' x
  assume s: "edit_heading_line i ed rw = (Inr x, rw')"
  then obtain view h where l: "located rw i = Inr (view, h)"
    by (auto simp: edit_heading_line_def split: sum.splits)
  have "span_in (h_title_line h) (length (current_text rw))"
    using located_Inr [OF l] heading_spans_in(3) by blast
  then show "edits_text rw rw'"
    using edit_heading_line_cases [OF l s] by (auto intro!: edits_text_replace)
qed

section \<open>Properties of the rewriter\<close>

text \<open>The public operations as data, and what running one does.\<close>

datatype org_edit =
    SetProperty string string string
  | InsertProperty string string string
  | RemoveProperty string string
  | UpsertProperty string string string
  | SetTitleLine string string
  | EditHeadingLine string heading_line_edit
  | RemoveHeading string
  | SetSectionBody string string string
  | SetNodeBody string string
  | AppendSection string string string
  | RemoveSection string string
  | UpsertSectionText string string string

fun run_edit :: "org_edit \<Rightarrow> unit edit" where
  "run_edit (SetProperty i k v) = set_property i k v"
| "run_edit (InsertProperty i k v) = insert_property i k v"
| "run_edit (RemoveProperty i k) = remove_property i k"
| "run_edit (UpsertProperty i k v) = upsert_property i k v"
| "run_edit (SetTitleLine i t) = set_title_line i t"
| "run_edit (EditHeadingLine i ed) = edit_heading_line i ed"
| "run_edit (RemoveHeading i) = remove_heading i"
| "run_edit (SetSectionBody i st b) = set_section_body i st b"
| "run_edit (SetNodeBody i c) = set_node_body i c"
| "run_edit (AppendSection i st b) = append_section i st b"
| "run_edit (RemoveSection i st) = remove_section i st"
| "run_edit (UpsertSectionText i st c) = upsert_section_text i st c"

lemmas edit_axioms =
  set_property.atomic_edit_axioms insert_property.atomic_edit_axioms
  remove_property.atomic_edit_axioms upsert_property.atomic_edit_axioms
  set_title_line.atomic_edit_axioms edit_heading_line.atomic_edit_axioms
  remove_heading.atomic_edit_axioms set_section_body.atomic_edit_axioms
  set_node_body.atomic_edit_axioms append_section.atomic_edit_axioms
  remove_section.atomic_edit_axioms upsert_section_text.atomic_edit_axioms

interpretation run_edit: atomic_edit "run_edit e" for e
  by (cases e) (simp_all add: edit_axioms)

text \<open>Where an operation may write, and what it writes there: the byte range in the view of the text
  that belongs to the addressed heading, and the bytes that replace it.\<close>

fun edited_id :: "org_edit \<Rightarrow> string" where
  "edited_id (SetProperty i k v) = i"
| "edited_id (InsertProperty i k v) = i"
| "edited_id (RemoveProperty i k) = i"
| "edited_id (UpsertProperty i k v) = i"
| "edited_id (SetTitleLine i t) = i"
| "edited_id (EditHeadingLine i ed) = i"
| "edited_id (RemoveHeading i) = i"
| "edited_id (SetSectionBody i st b) = i"
| "edited_id (SetNodeBody i c) = i"
| "edited_id (AppendSection i st b) = i"
| "edited_id (RemoveSection i st) = i"
| "edited_id (UpsertSectionText i st c) = i"

definition value_edit :: "heading \<Rightarrow> string \<Rightarrow> string \<Rightarrow> (span \<times> string) option" where
  "value_edit h k v =
     map_option (\<lambda>e. (pe_value_span e,
         if snd (pe_value_span e) \<le> fst (pe_value_span e) \<and> v \<noteq> [] then CHR '' '' # v else v))
       (find_property h k)"

definition drawer_edit ::
  "org_file \<Rightarrow> heading \<Rightarrow> string \<Rightarrow> string \<Rightarrow> (span \<times> string) option" where
  "drawer_edit view h k v =
     map_option (\<lambda>d. let (p, col) = insert_point view d in ((p, p), render_property_line k v col))
       (h_properties h)"

definition heading_end_edit ::
  "org_file \<Rightarrow> heading \<Rightarrow> string \<Rightarrow> string \<Rightarrow> span \<times> string" where
  "heading_end_edit view h st b =
     (let p = fst (h_span h) + length (trim_end (file_slice view (h_span h)))
      in ((p, p), render_section st b (h_level h + 1)))"

definition without_blank_line :: "org_file \<Rightarrow> span \<Rightarrow> span" where
  "without_blank_line view sp =
     (fst sp, if ends_with (file_slice view sp) [LF, LF] then snd sp - 1 else snd sp)"

definition section_text :: "string \<Rightarrow> string \<Rightarrow> string" where
  "section_text body c =
     (let tail = drop (length (trim_end body)) body
      in trim_end c @ (if tail = [] then [LF] else tail))"

fun addressed_edit :: "org_edit \<Rightarrow> org_file \<Rightarrow> heading \<Rightarrow> (span \<times> string) option" where
  "addressed_edit (SetProperty i k v) view h = value_edit h k v"
| "addressed_edit (InsertProperty i k v) view h = drawer_edit view h k v"
| "addressed_edit (RemoveProperty i k) view h =
     map_option (\<lambda>e. (pe_span e, [])) (find_property h k)"
| "addressed_edit (UpsertProperty i k v) view h =
     (if find_property h k = None then drawer_edit view h k v else value_edit h k v)"
| "addressed_edit (SetTitleLine i t) view h = Some (h_title_line h, t)"
| "addressed_edit (EditHeadingLine i ed) view h =
     Some (h_title_line h, render_heading_line (edited_line ed (heading_line_of h)))"
| "addressed_edit (RemoveHeading i) view h = Some (h_span h, [])"
| "addressed_edit (SetSectionBody i st b) view h =
     map_option (\<lambda>sec. (h_body sec, b)) (section_of h st)"
| "addressed_edit (SetNodeBody i c) view h =
     Some (h_body h, node_body_replacement (file_slice view (h_body h)) (trim_end c))"
| "addressed_edit (AppendSection i st b) view h = Some (heading_end_edit view h st b)"
| "addressed_edit (RemoveSection i st) view h =
     map_option (\<lambda>sec. (without_blank_line view (h_span sec), [])) (section_of h st)"
| "addressed_edit (UpsertSectionText i st c) view h =
     (case section_of h st of
        None \<Rightarrow> Some (heading_end_edit view h st c)
      | Some sec \<Rightarrow> Some (h_body sec, section_text (file_slice view (h_body sec)) c))"

lemma run_edit_locates:
  "run_edit e rw = (Inr u, rw') \<Longrightarrow> \<exists>view h. located rw (edited_id e) = Inr (view, h)"
  by (cases e)
    (auto simp: set_property_def insert_property_def remove_property_def upsert_property_def
      set_title_line_def edit_heading_line_def remove_heading_def set_section_body_def
      set_node_body_def append_section_def remove_section_def upsert_section_text_def
      split: sum.splits)

lemma body_write_replaces:
  "assert_body_write b i tgt c (replace_with_view r t rw) = (Inr u, rw') \<Longrightarrow>
     current_text rw' = replace_range (current_text rw) r t"
  using assert_body_write_result by fastforce

definition replaced_by :: "rewriter \<Rightarrow> rewriter \<Rightarrow> (span \<times> string) option \<Rightarrow> bool" where
  "replaced_by rw rw' edit \<longleftrightarrow>
     (case edit of
        None \<Rightarrow> False
      | Some w \<Rightarrow> current_text rw' = replace_range (current_text rw) (fst w) (snd w))"

lemma append_section_replaces:
  assumes "located rw i = Inr (view, h)" "append_section i st b rw = (Inr u, rw')"
  shows "replaced_by rw rw' (Some (heading_end_edit view h st b))"
  using assms
  by (auto simp: replaced_by_def append_section_def heading_end_edit_def Let_def split: sum.splits
      dest!: body_write_replaces)

lemma set_section_body_replaces:
  assumes "located rw i = Inr (view, h)" "section_of h st = Some sec"
    and "set_section_body i st b rw = (Inr u, rw')"
  shows "replaced_by rw rw' (Some (h_body sec, b))"
  using assms by (auto simp: replaced_by_def set_section_body_def dest!: body_write_replaces)

lemma set_property_replaces:
  assumes "located rw i = Inr (view, h)" "set_property i k v rw = (Inr u, rw')"
  shows "replaced_by rw rw' (value_edit h k v)"
  using assms
  by (auto simp: replaced_by_def set_property_def value_edit_def Let_def split: option.splits if_splits)

lemma insert_property_replaces:
  assumes "located rw i = Inr (view, h)" "insert_property i k v rw = (Inr u, rw')"
  shows "replaced_by rw rw' (drawer_edit view h k v)"
  using assms
  by (auto simp: replaced_by_def insert_property_def drawer_edit_def Let_def split: option.splits prod.splits)

lemma find_property_None:
  "find_property h k = None \<longleftrightarrow> \<not> (\<exists>e \<in> set (property_entries h). pe_key e = k)"
  by (auto simp: find_property_def find_None_iff)

text \<open>A success replaced the addressed range with the text of the operation.\<close>

lemma run_edit_addressed:
  assumes l: "located rw (edited_id e) = Inr (view, h)" and run: "run_edit e rw = (Inr u, rw')"
  shows "replaced_by rw rw' (addressed_edit e view h)"
proof (cases e)
  case (UpsertProperty i k v)
  then show ?thesis
    using assms set_property_replaces insert_property_replaces
    by (auto simp: upsert_property_def find_property_None split: if_splits)
next
  case (EditHeadingLine i ed)
  then show ?thesis using assms edit_heading_line_cases [of rw i view h ed "Inr u" rw']
    by (simp add: replaced_by_def)
next
  case (UpsertSectionText i st c)
  show ?thesis
  proof (cases "section_of h st")
    case None
    then show ?thesis
      using assms UpsertSectionText append_section_replaces [of rw i view h st c u rw']
      by (simp add: upsert_section_text_def)
  next
    case (Some sec)
    then show ?thesis
      using assms UpsertSectionText set_section_body_replaces [of rw i view h st sec _ u rw']
      by (simp add: upsert_section_text_def section_text_def Let_def)
  qed
next
  case (AppendSection i st b)
  then show ?thesis using assms append_section_replaces [of rw i view h st b u rw'] by simp
next
  case (SetSectionBody i st b)
  then obtain sec where "section_of h st = Some sec"
    using assms by (auto simp: set_section_body_def split: option.splits)
  then show ?thesis using assms SetSectionBody set_section_body_replaces [of rw i view h st sec b u rw'] by simp
next
  case (SetNodeBody i c)
  then show ?thesis using assms by (auto simp: replaced_by_def set_node_body_def Let_def dest!: body_write_replaces)
next
  case (SetProperty i k v)
  then show ?thesis using assms set_property_replaces by simp
next
  case (InsertProperty i k v)
  then show ?thesis using assms insert_property_replaces by simp
next
  case (RemoveProperty i k)
  then show ?thesis using assms by (auto simp: replaced_by_def remove_property_def split: option.splits)
next
  case (RemoveSection i st)
  then show ?thesis
    using assms by (auto simp: replaced_by_def remove_section_def without_blank_line_def Let_def split: option.splits)
qed (use assms in \<open>auto simp: replaced_by_def set_title_line_def remove_heading_def\<close>)

text \<open>The addressed range lies in the span of the addressed heading.\<close>

definition span_within :: "span \<Rightarrow> span \<Rightarrow> bool" where
  "span_within r s \<longleftrightarrow> fst s \<le> fst r \<and> fst r \<le> snd r \<and> snd r \<le> snd s"

lemma heading_within:
  assumes "heading_ok s k h"
  shows "span_within (h_span h) (h_span h)" "span_within (h_body h) (h_span h)"
    "span_within (h_title_line h) (h_span h)"
  using heading_ok_spans(1-7) [OF assms] by (auto simp: span_within_def)

lemma section_within:
  assumes "heading_ok s k h" "section_of h st = Some c"
  shows "span_within (h_span c) (h_span h)" "span_within (h_body c) (h_span h)"
proof -
  have c: "heading_ok s (Suc k) c" "snd (h_body h) \<le> fst (h_span c)" "snd (h_span c) \<le> snd (h_span h)"
    using heading_ok_spans(8) [OF assms(1)] section_of_Some [OF assms(2)] by auto
  show "span_within (h_span c) (h_span h)" "span_within (h_body c) (h_span h)"
    using c(2,3) heading_within(1,2) [OF c(1)] heading_within(2) [OF assms(1)]
    by (auto simp: span_within_def)
qed

lemma entry_within:
  assumes "heading_ok s k h" "e \<in> set (property_entries h)"
  shows "span_within (pe_value_span e) (h_span h)" "span_within (pe_span e) (h_span h)"
proof -
  obtain d where d: "h_properties h = Some d" "e \<in> set (pd_entries d)"
    using assms(2) by (cases "h_properties h") (auto simp: property_entries_def)
  then have "entry_in s (pd_span d) e" "snd (pd_span d) = fst (h_body h)"
    "fst (h_span h) < fst (pd_span d)"
    using heading_ok_spans(9) [OF assms(1) d(1)] by (auto simp: drawer_ok_def list_all_iff)
  then show "span_within (pe_value_span e) (h_span h)" "span_within (pe_span e) (h_span h)"
    using heading_within(2) [OF assms(1)] by (auto simp: entry_in_def span_within_def)
qed

lemma value_edit_within:
  "heading_ok s k h \<Longrightarrow> value_edit h key v = Some w \<Longrightarrow> span_within (fst w) (h_span h)"
  using entry_within(1) find_property_Some by (fastforce simp: value_edit_def)

lemma drawer_edit_within:
  assumes "heading_ok s k h" "property h ''ID'' = Some i" "drawer_edit view h key v = Some w"
  shows "span_within (fst w) (h_span h)"
proof -
  obtain d where d: "h_properties h = Some d" using assms(3) by (auto simp: drawer_edit_def)
  then have "pd_entries d \<noteq> []" using assms(2) by (auto simp: property_def dest: find_SomeD)
  moreover from this have "span_within (pe_span (last (pd_entries d))) (h_span h)"
    using entry_within(2) [OF assms(1), of "last (pd_entries d)"] d by (simp add: property_entries_def)
  ultimately show ?thesis
    using assms(3) d by (auto simp: drawer_edit_def insert_point_def Let_def span_within_def)
qed

lemma heading_end_within:
  assumes "heading_ok s k h" "snd (h_span h) \<le> length (of_source view)"
  shows "span_within (fst (heading_end_edit view h st b)) (h_span h)"
proof -
  have "length (file_slice view (h_span h)) = snd (h_span h) - fst (h_span h)"
    using assms(2) heading_within(1) [OF assms(1)]
    by (simp add: file_slice_def length_slice span_in_def span_within_def)
  then show ?thesis
    using length_trim_end [of "file_slice view (h_span h)"] heading_within(1) [OF assms(1)]
    by (auto simp: heading_end_edit_def Let_def span_within_def)
qed

lemma without_blank_line_within:
  assumes "span_within sp (h_span h)"
  shows "span_within (without_blank_line view sp) (h_span h)"
proof -
  have "fst sp < snd sp" if "ends_with (file_slice view sp) [LF, LF]"
    using that by (auto simp: ends_with_def file_slice_def slice_def)
  then show ?thesis using assms by (auto simp: without_blank_line_def span_within_def)
qed

lemma addressed_edit_within:
  assumes l: "located rw (edited_id e) = Inr (view, h)" and w: "addressed_edit e view h = Some w"
  shows "span_within (fst w) (h_span h)"
proof -
  obtain k where ok: "heading_ok (current_text rw) k h"
    and le: "snd (h_span h) \<le> length (of_source view)" using located_Inr [OF l] by auto
  have i: "property h ''ID'' = Some (edited_id e)"
    using located_Inr [OF l] file_find_by_id_ok by blast
  note within = heading_within [OF ok] section_within [OF ok] value_edit_within [OF ok]
    drawer_edit_within [OF ok i] heading_end_within [OF ok le]
    without_blank_line_within [OF section_within(1) [OF ok]]
  show ?thesis
  proof (cases e)
    case (RemoveProperty i key)
    then show ?thesis using w entry_within(2) [OF ok] find_property_Some by fastforce
  qed (use w within in \<open>auto split: if_splits option.splits\<close>)
qed

text \<open>Claim C1. Every operation of the rewriter is atomic and local. Whatever the operation and the
  text: if it returns an error, the text it leaves (what a later call parses, and what
  \<open>finish\<close> returns) is the text before, guards included. If it succeeds, the text parsed, the id it
  was given names a heading of it, and exactly one byte range of that heading's own span was replaced:
  the range and the bytes that \<open>addressed_edit\<close> gives for the operation (the value or line of the
  property, the end of its drawer, the title line, the body, the section, the end of the heading).
  Every byte of the file outside that range, and so outside the heading, is kept.\<close>

theorem rewriter_edits_atomic:
  shows "case run_edit e rw of
      (Inl err, rw') \<Rightarrow> current_text rw' = current_text rw \<and> rewriter_finish rw' = current_text rw
    | (Inr u, rw') \<Rightarrow>
        (\<exists>view h a b t. rw_parse rw = Inr view \<and> file_find_by_id view (edited_id e) = Some h \<and>
           addressed_edit e view h = Some ((a, b), t) \<and>
           fst (h_span h) \<le> a \<and> a \<le> b \<and> b \<le> snd (h_span h) \<and>
           snd (h_span h) \<le> length (current_text rw) \<and>
           current_text rw' = take a (current_text rw) @ t @ drop b (current_text rw))"
proof -
  obtain res rw' where run: "run_edit e rw = (res, rw')" by fastforce
  show ?thesis
  proof (cases res)
    case (Inl err)
    then have "current_text rw' = current_text rw" using run run_edit.failure by blast
    then show ?thesis using run Inl by (simp add: rewriter_finish_def current_text_def)
  next
    case (Inr u)
    obtain view h where l: "located rw (edited_id e) = Inr (view, h)"
      using run_edit_locates run Inr by blast
    have "replaced_by rw rw' (addressed_edit e view h)" using run_edit_addressed [OF l] run Inr by blast
    then obtain a b t where w: "addressed_edit e view h = Some ((a, b), t)"
      "current_text rw' = replace_range (current_text rw) (a, b) t"
      by (auto simp: replaced_by_def split: option.splits)
    show ?thesis
      using run Inr located_Inr [OF l] addressed_edit_within [OF l w(1)] w
      by (auto simp: span_within_def replace_range_def)
  qed
qed

text \<open>Claim C2. A body write that succeeds wrote what it was given: when \<open>set_node_body\<close> or
  \<open>set_section_body\<close> returns Ok, the text parses, has exactly the headings (levels and ids, in
  order) that it had before, and the body of the addressed heading, or of its section, reads back as
  the submitted text up to surrounding white space.\<close>

theorem body_write_reads_back:
  assumes "rw_parse rw = Inr f"
    and "set_node_body i c rw = (Inr u, rw') \<and> target = Node_Target \<or>
         set_section_body i st c rw = (Inr u, rw') \<and> target = Section_Target st"
  shows "\<exists>f'. rw_parse rw' = Inr f' \<and>
      heading_structure_snapshot (of_headings f') = heading_structure_snapshot (of_headings f) \<and>
      stored_body rw' i target = Some (trim (case target of Node_Target \<Rightarrow> trim_end c | _ \<Rightarrow> c))"
  using assms(2)
proof
  assume a: "set_node_body i c rw = (Inr u, rw') \<and> target = Node_Target"
  then obtain view h where l: "located rw i = Inr (view, h)"
    by (auto simp: set_node_body_def split: sum.splits)
  have "view = f" using located_Inr [OF l] assms(1) by simp
  then show ?thesis
    using a l by (auto simp: set_node_body_def Let_def dest!: assert_body_write_ok)
next
  assume a: "set_section_body i st c rw = (Inr u, rw') \<and> target = Section_Target st"
  then obtain view h where l: "located rw i = Inr (view, h)"
    by (auto simp: set_section_body_def split: sum.splits)
  have "view = f" using located_Inr [OF l] assms(1) by simp
  then show ?thesis
    using a l by (auto simp: set_section_body_def split: option.splits dest!: assert_body_write_ok)
qed

text \<open>\<open>edit_heading_line\<close> never loses a field: when it returns Ok, the heading with
  that id reads back with its old level and TODO keyword, the new title (trimmed) or the old one,
  and the new tags or the old ones, and the headings of the file are the same as before.\<close>

theorem edit_heading_line_keeps_fields:
  assumes "rw_parse rw = Inr f" "file_find_by_id f i = Some h"
    and "edit_heading_line i ed rw = (Inr u, rw')"
  shows "\<exists>f' h'. rw_parse rw' = Inr f' \<and> file_find_by_id f' i = Some h' \<and>
      heading_line_of h' = edited_line ed (heading_line_of h) \<and> h_level h' = h_level h \<and> h_todo h' = h_todo h \<and>
      heading_structure_snapshot (of_headings f') = heading_structure_snapshot (of_headings f)"
proof -
  have l: "located rw i = Inr (f, h)" using assms(1,2) by (simp add: located_def heading_or_err_def)
  obtain f' where f': "rw_parse rw' = Inr f'"
    "heading_structure_snapshot (of_headings f') = heading_structure_snapshot (of_headings f)"
    and r: "read_heading_line rw' i = Some (edited_line ed (heading_line_of h))"
    using edit_heading_line_cases [OF l assms(3)] by auto
  obtain h' where h': "file_find_by_id f' i = Some h'"
    "heading_line_of h' = edited_line ed (heading_line_of h)"
    using r f'(1) by (auto simp: read_heading_line_def)
  then have "hl_level (heading_line_of h') = h_level h \<and> hl_todo (heading_line_of h') = h_todo h"
    by (simp add: edited_line_def heading_line_of_def)
  then show ?thesis using f' h' by (auto simp: heading_line_of_def)
qed

theorem body_write_reads_back_witness:
  "\<exists>f rw'. rw_parse \<lparr>rw_source = sample_org, rw_edits = [], rw_file_name = ''demo''\<rparr> = Inr f \<and>
     set_node_body ''T-A'' ''Now.  '' \<lparr>rw_source = sample_org, rw_edits = [], rw_file_name = ''demo''\<rparr> =
       (Inr (), rw') \<and>
     stored_body rw' ''T-A'' Node_Target = Some ''Now.''"
proof -
  let ?rw = "\<lparr>rw_source = sample_org, rw_edits = [], rw_file_name = ''demo''\<rparr>"
  have "is_ok (rw_parse ?rw)" by code_simp
  then obtain f where f: "rw_parse ?rw = Inr f" by (auto simp: is_ok_iff)
  have "is_ok (fst (set_node_body ''T-A'' ''Now.  '' ?rw))" by code_simp
  then obtain rw' where w: "set_node_body ''T-A'' ''Now.  '' ?rw = (Inr (), rw')"
    by (cases "set_node_body ''T-A'' ''Now.  '' ?rw") (auto simp: is_ok_iff)
  have "trim (trim_end ''Now.  '') = ''Now.''" by code_simp
  then have "stored_body rw' ''T-A'' Node_Target = Some ''Now.''"
    using body_write_reads_back [OF f, of "''T-A''" "''Now.  ''" "()" rw' Node_Target "''''"] w by auto
  then show ?thesis using f w by blast
qed

theorem edit_heading_line_keeps_fields_witness:
  "\<exists>f h rw'. rw_parse \<lparr>rw_source = sample_org, rw_edits = [], rw_file_name = ''demo''\<rparr> = Inr f \<and>
     file_find_by_id f ''T-A'' = Some h \<and>
     edit_heading_line ''T-A'' \<lparr>hle_title = Some ''Z'', hle_tags = None\<rparr>
       \<lparr>rw_source = sample_org, rw_edits = [], rw_file_name = ''demo''\<rparr> = (Inr (), rw') \<and>
     (\<exists>f' h'. rw_parse rw' = Inr f' \<and> file_find_by_id f' ''T-A'' = Some h' \<and>
        heading_line_of h' = \<lparr>hl_level = 1, hl_todo = Some ''TODO'', hl_title = ''Z'', hl_tags = [''c'']\<rparr>)"
proof -
  let ?rw = "\<lparr>rw_source = sample_org, rw_edits = [], rw_file_name = ''demo''\<rparr>"
  let ?ed = "\<lparr>hle_title = Some ''Z'', hle_tags = None\<rparr>"
  have "(case located ?rw ''T-A'' of
      Inl _ \<Rightarrow> False
    | Inr (f, h) \<Rightarrow> edited_line ?ed (heading_line_of h) =
        \<lparr>hl_level = 1, hl_todo = Some ''TODO'', hl_title = ''Z'', hl_tags = [''c'']\<rparr>)"
    by code_simp
  then obtain f h where l: "located ?rw ''T-A'' = Inr (f, h)"
    and e: "edited_line ?ed (heading_line_of h) =
        \<lparr>hl_level = 1, hl_todo = Some ''TODO'', hl_title = ''Z'', hl_tags = [''c'']\<rparr>"
    by (auto split: sum.splits)
  have f: "rw_parse ?rw = Inr f" "file_find_by_id f ''T-A'' = Some h" using located_Inr [OF l] by auto
  have "is_ok (fst (edit_heading_line ''T-A'' ?ed ?rw))" by code_simp
  then obtain rw' where w: "edit_heading_line ''T-A'' ?ed ?rw = (Inr (), rw')"
    by (cases "edit_heading_line ''T-A'' ?ed ?rw") (auto simp: is_ok_iff)
  show ?thesis using edit_heading_line_keeps_fields [OF f w] f w e by auto
qed

section \<open>Raw bodies\<close>

text \<open>No line of the string begins with a star; \<open>bol\<close>: the string begins at a line start.\<close>

fun no_star_line :: "bool \<Rightarrow> string \<Rightarrow> bool" where
  "no_star_line bol [] \<longleftrightarrow> True"
| "no_star_line bol (c # cs) \<longleftrightarrow> \<not> (bol \<and> c = CHR ''*'') \<and> no_star_line (c = LF) cs"

lemma no_star_line_mono: "no_star_line True s \<Longrightarrow> no_star_line b s"
  by (cases s) auto

lemma no_star_line_append:
  "no_star_line b s \<Longrightarrow> no_star_line True t \<Longrightarrow> no_star_line b (s @ t)"
  by (induction b s rule: no_star_line.induct) (auto intro: no_star_line_mono)

lemma no_star_line_concat: "\<forall>s \<in> set ss. no_star_line True s \<Longrightarrow> no_star_line True (concat ss)"
  by (induction ss) (auto intro: no_star_line_append)

lemma no_star_line_lines:
  "(no_star_line False s \<longrightarrow> (\<forall>l \<in> set (tl (split_inclusive_lf s)). hd l \<noteq> CHR ''*'')) \<and>
   (no_star_line True s \<longrightarrow> (\<forall>l \<in> set (split_inclusive_lf s). hd l \<noteq> CHR ''*''))"
proof (induction s)
  case (Cons c s)
  show ?case
  proof (cases "c = LF")
    case False
    then show ?thesis using Cons by (cases "split_inclusive_lf s") auto
  qed (use Cons in simp)
qed simp

lemma split_inclusive_lf_line:
  "l \<in> set (split_inclusive_lf s) \<Longrightarrow> l \<noteq> [] \<and> LF \<notin> set (butlast l)"
proof (induction s arbitrary: l)
  case (Cons c s)
  show ?case
  proof (cases "c = LF")
    case False
    show ?thesis
    proof (cases "split_inclusive_lf s")
      case Nil
      then show ?thesis using Cons.prems False by simp
    next
      case (Cons m ms)
      then have "l = c # m \<or> l \<in> set (split_inclusive_lf s)"
        using Cons.prems False by auto
      moreover have "m \<noteq> [] \<and> LF \<notin> set (butlast m)" using Cons Cons.IH by simp
      ultimately show ?thesis using False Cons.IH by auto
    qed
  qed (use Cons in auto)
qed simp

lemma no_star_line_tail: "LF \<notin> set (butlast s) \<Longrightarrow> no_star_line False s"
  by (induction s) (auto split: if_splits)

lemma escape_raw_line_no_star:
  assumes "l \<noteq> []" "LF \<notin> set (butlast l)"
  shows "no_star_line True (escape_raw_line l)"
proof -
  obtain c r where l: "l = c # r" using assms(1) by (cases l) auto
  have r: "no_star_line (c = LF) r"
    using assms(2) l no_star_line_tail [of r] by (cases r) (auto split: if_splits)
  have "raw_body_line_needs_comma_escape (case strip_suffix l [LF] of None \<Rightarrow> l | Some c \<Rightarrow> c)"
    if "c = CHR ''*''"
  proof -
    have "\<exists>q. (case strip_suffix l [LF] of None \<Rightarrow> l | Some c \<Rightarrow> c) = CHR ''*'' # q"
    proof (cases "strip_suffix l [LF]")
      case (Some m)
      then have "l = m @ [LF]" by (simp add: strip_suffix_Some_iff)
      then show ?thesis using Some l that by (cases m) auto
    qed (use l that in simp)
    then show ?thesis
      by (auto simp: raw_body_line_needs_comma_escape_def trim_start_matches_def Let_def)
  qed
  then show ?thesis using r l by (auto simp: escape_raw_line_def Let_def)
qed

lemma wrap_raw_body_no_star: "no_star_line True (wrap_raw_body payload)"
proof -
  have "no_star_line True (concat (map escape_raw_line (split_inclusive_lf payload)))"
    by (rule no_star_line_concat)
      (auto dest: split_inclusive_lf_line intro: escape_raw_line_no_star)
  then show ?thesis
    unfolding wrap_raw_body_def Let_def by (auto intro!: no_star_line_append)
qed

lemma heading_level_star: "heading_level s = Some n \<Longrightarrow> \<exists>r. s = CHR ''*'' # r"
  by (auto simp: heading_level_def split: list.splits if_splits)

lemma body_heading_lines_loop_empty:
  "\<forall>l \<in> set ls. \<forall>r. l \<noteq> CHR ''*'' # r \<Longrightarrow> body_heading_lines_loop n k ls = []"
proof (induction ls arbitrary: n k)
  case (Cons l ls)
  have "heading_level (trim_end_matches CR l) = None"
  proof (cases "heading_level (trim_end_matches CR l)")
    case (Some m)
    then obtain r where "trim_end_matches CR l = CHR ''*'' # r" using heading_level_star by blast
    moreover obtain q where "l = trim_end_matches CR l @ q" using trim_end_matches_split by blast
    ultimately show ?thesis using Cons.prems by (metis append_Cons list.set_intros(1))
  qed simp
  then show ?case using Cons by (simp add: Let_def)
qed simp

lemma strip_line_end_prefix: "\<exists>q. l = strip_line_end l @ q"
  by (auto simp: strip_line_end_def strip_suffix_Some_iff split: option.splits)

text \<open>A raw body cannot bring in a heading: whatever the payload, the wrapped text has no
  line that \<open>body_heading_lines\<close> reports, and no line of it begins with a star, so the structural
  guard never sees a heading come from it.\<close>

theorem wrap_raw_body_no_headings:
  "body_heading_lines (wrap_raw_body payload) = [] \<and> no_star_line True (wrap_raw_body payload)"
proof -
  have "l \<noteq> CHR ''*'' # r" if l: "l \<in> set (str_lines (wrap_raw_body payload))" for l r
  proof
    assume eq: "l = CHR ''*'' # r"
    obtain m where m: "m \<in> set (split_inclusive_lf (wrap_raw_body payload))" "l = strip_line_end m"
      using l by (auto simp: str_lines_def)
    obtain q where q: "m = strip_line_end m @ q" using strip_line_end_prefix by blast
    have "m = (CHR ''*'' # r) @ q" using q by (simp only: m(2) [symmetric] eq)
    then have "hd m = CHR ''*''" by simp
    then show False using m(1) no_star_line_lines wrap_raw_body_no_star by blast
  qed
  then show ?thesis
    using wrap_raw_body_no_star by (simp add: body_heading_lines_def body_heading_lines_loop_empty)
qed

text \<open>The wrapper does not keep the block structure closed, though: an indented
  \<open>#+begin_\<close> line of the payload is not escaped (the escape looks at column 0 only) while the
  parser's block mask trims white space before it looks, so the block opened by the wrapper is still
  open after it, and a heading that follows it in the file is read as block text.\<close>

theorem wrap_raw_body_can_swallow:
  "(case org_parse (''* A'' @ [LF] @ wrap_raw_body '' #+begin_x'' @ ''* B'' @ [LF]) ''f'' of
      Inl _ \<Rightarrow> False
    | Inr f \<Rightarrow> map h_title (of_headings f) = [''A''])"
  by code_simp

end
