(* ===== verification/Org_Heading_Line.thy ===== *)
theory Org_Heading_Line
  imports Org_Rewriter
begin

text \<open>
  \<open>HeadingLine::render\<close> against \<open>parse_heading_line\<close> of
  \<open>crates/orgasmic-core/src/org.rs\<close>: which heading lines read back as the fields they were
  rendered from.
\<close>

section \<open>Trailing tags\<close>

definition tag_ok :: "string \<Rightarrow> bool" where
  "tag_ok t \<longleftrightarrow> t \<noteq> [] \<and> list_all is_tag_char t"

lemma is_tag_char_facts:
  "is_tag_char c \<Longrightarrow> c \<noteq> CHR '':'' \<and> c \<noteq> CHR '' '' \<and> \<not> is_cont c \<and> \<not> ascii_ws c \<and> c \<noteq> CR"
  by (auto simp: is_tag_char_def ascii_defs ascii_ws_def)

lemma tag_ok_colon: "tag_ok t \<Longrightarrow> CHR '':'' \<notin> set t"
  by (auto simp: tag_ok_def list_all_iff dest: is_tag_char_facts)

lemma join_tags_run:
  "\<forall>t \<in> set ts. tag_ok t \<Longrightarrow> c \<in> set (join '':'' ts) \<Longrightarrow> is_tag_run_char c"
proof (induction "'':''" ts rule: join.induct)
  case (3 x y ys)
  then show ?case by (auto simp: is_tag_run_char_def tag_ok_def list_all_iff)
qed (auto simp: is_tag_run_char_def tag_ok_def list_all_iff)

lemma join_tags_ends:
  assumes "ts \<noteq> []" "\<forall>t \<in> set ts. tag_ok t"
  shows "join '':'' ts \<noteq> []" "hd (join '':'' ts) \<noteq> CHR '':''" "last (join '':'' ts) \<noteq> CHR '':''"
proof -
  have "join '':'' ts \<noteq> [] \<and> hd (join '':'' ts) \<noteq> CHR '':'' \<and> last (join '':'' ts) \<noteq> CHR '':''"
    using assms
  proof (induction "'':''" ts rule: join.induct)
    case (2 x)
    then show ?case
      by (auto simp: tag_ok_def list_all_iff dest!: is_tag_char_facts
          dest: bspec [OF _ hd_in_set] bspec [OF _ last_in_set])
  next
    case (3 x y ys)
    have "x \<noteq> []" "hd x \<noteq> CHR '':''"
      using "3.prems" tag_ok_colon [of x] by (auto simp: tag_ok_def dest: hd_in_set)
    then show ?case using 3 by auto
  qed simp
  then show "join '':'' ts \<noteq> []" "hd (join '':'' ts) \<noteq> CHR '':''" "last (join '':'' ts) \<noteq> CHR '':''"
    by auto
qed

lemma trim_matches_colons:
  assumes "s \<noteq> []" "hd s \<noteq> CHR '':''" "last s \<noteq> CHR '':''"
  shows "trim_matches (CHR '':'') (CHR '':'' # s @ '':'') = s"
proof -
  have "trim_start_matches (CHR '':'') (CHR '':'' # s @ '':'') = s @ '':''"
    using assms(1,2) by (cases s) (auto simp: trim_start_matches_def)
  moreover have "trim_end_matches (CHR '':'') (s @ '':'') = s"
    using assms(1,3) by (cases s rule: rev_cases) (auto simp: trim_end_matches_def)
  ultimately show ?thesis by (simp add: trim_matches_def)
qed

lemma takeWhile_all_stop: "\<forall>c \<in> set xs. P c \<Longrightarrow> \<not> P y \<Longrightarrow> takeWhile P (xs @ y # ys) = xs"
  by (simp add: takeWhile_append2)

lemma trim_end_colon: "trim_end (s @ '':'') = s @ '':''"
  by (rule trim_end_snoc_not_ws) (auto simp: ascii_ws_def is_cont_def)

lemma trim_end_spaces: "trim_end (s @ replicate n (CHR '' '')) = trim_end s"
proof (induction n)
  case (Suc n)
  have "s @ replicate (Suc n) (CHR '' '') = (s @ replicate n (CHR '' '')) @ [CHR '' '']"
    by (simp add: replicate_append_same)
  then show ?case using Suc by (metis ascii_ws_def insertI1 trim_end_snoc_ws)
qed simp

text \<open>A run of good tags after spaces is split off, and the text before it keeps no space.\<close>

lemma split_trailing_tags_render:
  assumes "ts \<noteq> []" "\<forall>t \<in> set ts. tag_ok t" "trim_end b = b"
  shows "split_trailing_tags (b @ replicate (Suc n) (CHR '' '') @ CHR '':'' # join '':'' ts @ '':'') =
    (b, ts)"
proof -
  let ?tags = "CHR '':'' # join '':'' ts @ '':''"
  let ?pre = "b @ replicate (Suc n) (CHR '' '')"
  let ?line = "?pre @ ?tags"
  note ends = join_tags_ends [OF assms(1,2)]
  have "\<exists>x. ?line = x @ '':''" by (intro exI [of _ "?pre @ CHR '':'' # join '':'' ts"]) simp
  then have tr: "trim_end ?line = ?line" using trim_end_colon by metis
  have run: "takeWhile is_tag_run_char (rev ?line) = rev ?tags"
  proof -
    have rev: "rev ?line = rev ?tags @ CHR '' '' # rev (b @ replicate n (CHR '' ''))"
      by (simp add: replicate_append_same)
    have "\<forall>c \<in> set (rev ?tags). is_tag_run_char c"
      using join_tags_run [OF assms(2)] by (auto simp: is_tag_run_char_def)
    moreover have "\<not> is_tag_run_char (CHR '' '')"
      by (simp add: is_tag_run_char_def is_tag_char_def ascii_defs)
    ultimately show ?thesis unfolding rev by (rule takeWhile_all_stop)
  qed
  have segs: "split_on (CHR '':'') (join '':'' ts) = ts"
    using assms(1,2) tag_ok_colon by (intro split_on_join) auto
  have noempty: "[] \<notin> set ts" using assms(2) by (auto simp: tag_ok_def)
  have start: "length ?line - length (rev ?tags) = length ?pre" by simp
  have len: "3 \<le> length ?tags" using ends(1) by (cases "join '':'' ts") auto
  have prev: "?line ! (length ?pre - 1) = CHR '' ''"
  proof -
    have "?line = (b @ replicate n (CHR '' '')) @ CHR '' '' # ?tags" by (simp add: replicate_append_same)
    moreover have "length ?pre - 1 = length (b @ replicate n (CHR '' ''))" by simp
    ultimately show ?thesis by (metis nth_append_length)
  qed
  have bt: "trim_end (take (length ?pre) ?line) = b"
    using trim_end_spaces [of b "Suc n"] assms(3) by (simp add: take_append)
  define L where "L = ?line"
  define m where "m = length ?pre"
  have drop: "drop m L = ?tags" "m \<noteq> length L" "m \<noteq> 0" "take (length b) L = b"
    using len by (auto simp: L_def m_def)
  have ends_L: "ends_with L '':''" "\<not> length L < 3"
    unfolding ends_with_iff L_def
    by (intro exI [of _ "?pre @ CHR '':'' # join '':'' ts"]) (use len ends(1) in auto)
  have ends_t: "starts_with ?tags '':''" "ends_with ?tags '':''" "\<not> length ?tags < 3"
    unfolding ends_with_iff
    by (simp, intro exI [of _ "CHR '':'' # join '':'' ts"], use len ends(1) in auto)
  have facts: "trim_end L = L" "length L - length (takeWhile is_tag_run_char (rev L)) = m"
    "L ! (m - 1) = CHR '' ''" "trim_end (take m L) = b"
    using tr run start prev bt unfolding L_def m_def by simp_all
  have "split_trailing_tags L = (b, ts)"
    unfolding split_trailing_tags_def Let_def
    by (simp only: facts drop ends_L ends_t trim_matches_colons [OF ends] segs assms(1) noempty
        if_True if_False simp_thms)
  then show ?thesis by (simp add: L_def)
qed

section \<open>Rendering and parsing back\<close>

text \<open>What a heading line must satisfy to be storable: tags of tag characters, a trimmed title that
  does not look like a keyword or end like a tag, a recognised keyword.\<close>

definition keyword_word :: "string list \<Rightarrow> string \<Rightarrow> bool" where
  "keyword_word declared w \<longleftrightarrow> is_todo_keyword w \<or> w \<in> set declared"

definition line_text :: "heading_line \<Rightarrow> string" where
  "line_text l =
     (case hl_todo l of
        None \<Rightarrow> hl_title l
      | Some w \<Rightarrow> if hl_title l = [] then w else w @ CHR '' '' # hl_title l)"

definition storable :: "string list \<Rightarrow> heading_line \<Rightarrow> bool" where
  "storable declared l \<longleftrightarrow>
     trim (hl_title l) = hl_title l \<and> boundary (hl_title l) \<and>
     (case hl_todo l of
        None \<Rightarrow> \<not> keyword_word declared (hl_title l) \<and>
          \<not> keyword_word declared (takeWhile (\<lambda>c. c \<noteq> CHR '' '') (hl_title l))
      | Some w \<Rightarrow> w \<noteq> [] \<and> keyword_word declared w \<and> CHR '' '' \<notin> set w \<and> trim w = w) \<and>
     (if hl_tags l = [] then line_text l \<noteq> [] \<and> \<not> ends_with (line_text l) '':''
      else list_all tag_ok (hl_tags l))"

lemma render_heading_line_text:
  assumes "storable declared l"
  shows "render_heading_line l =
    replicate (hl_level l) (CHR ''*'') @
    (if line_text l = [] then [] else CHR '' '' # line_text l) @
    (if hl_tags l = [] then []
     else replicate 4 (CHR '' '') @ CHR '':'' # join '':'' (hl_tags l) @ '':'')"
  using assms
  by (auto simp: render_heading_line_def line_text_def storable_def Let_def eval_nat_numeral
      split: option.splits)

lemma trim_end_line_text: "storable declared l \<Longrightarrow> trim_end (line_text l) = line_text l"
proof -
  assume s: "storable declared l"
  have t: "trim_end (hl_title l) = hl_title l" "boundary (hl_title l)"
    using s trim_eq_selfD(2) by (auto simp: storable_def)
  show ?thesis
  proof (cases "hl_todo l")
    case (Some w)
    then have "trim w = w" using s by (simp add: storable_def)
    then show ?thesis
      using Some t trim_eq_selfD(2) [of w] trim_end_append [of "hl_title l" "w @ '' ''"]
      by (simp add: line_text_def)
  qed (use t in \<open>simp add: line_text_def\<close>)
qed

text \<open>The keyword and title of the text of a storable line.\<close>

lemma line_text_fields:
  assumes "storable declared l"
  shows "(case split_once (CHR '' '') (line_text l) of
      Some (first, remainder) \<Rightarrow>
        if is_todo_keyword first \<or> first \<in> set declared then (Some first, trim_start remainder)
        else if is_todo_keyword (line_text l) \<or> line_text l \<in> set declared then (Some (line_text l), [])
        else (None, line_text l)
    | None \<Rightarrow>
        if is_todo_keyword (line_text l) \<or> line_text l \<in> set declared then (Some (line_text l), [])
        else (None, line_text l)) = (hl_todo l, hl_title l)"
proof (cases "hl_todo l")
  case None
  then have k: "\<not> keyword_word declared (hl_title l)"
    "\<not> keyword_word declared (takeWhile (\<lambda>c. c \<noteq> CHR '' '') (hl_title l))"
    and lt: "line_text l = hl_title l"
    using assms by (auto simp: storable_def line_text_def)
  have "\<not> keyword_word declared a" if "split_once (CHR '' '') (hl_title l) = Some (a, b)" for a b
  proof -
    have "a = takeWhile (\<lambda>c. c \<noteq> CHR '' '') (hl_title l)"
      using that by (auto simp: split_once_def split: list.splits)
    then show ?thesis using k(2) by simp
  qed
  then show ?thesis using k(1) lt None by (auto simp: keyword_word_def split: option.splits)
next
  case (Some w)
  then have w: "keyword_word declared w" "CHR '' '' \<notin> set w" using assms by (auto simp: storable_def)
  have t: "trim_start (hl_title l) = hl_title l" using assms trim_eq_selfD(1) by (simp add: storable_def)
  show ?thesis
  proof (cases "hl_title l = []")
    case True
    then have "split_once (CHR '' '') (line_text l) = None"
      using Some w by (simp add: line_text_def split_once_None_iff)
    then show ?thesis using True Some w by (auto simp: keyword_word_def line_text_def)
  next
    case False
    then have "split_once (CHR '' '') (line_text l) = Some (w, hl_title l)"
      using Some w by (simp add: line_text_def)
    then show ?thesis using Some w t by (auto simp: keyword_word_def)
  qed
qed

text \<open>Claim C13. Heading lines round-trip: a storable line (tags made of tag characters, a trimmed
  title that does not begin with a keyword, no trailing colon when there are no tags) rendered by
  \<open>HeadingLine::render\<close> parses back to exactly its keyword, title and tags.\<close>

theorem heading_line_round_trip:
  assumes "storable declared l"
  shows "parse_heading_line (render_heading_line l) (hl_level l) declared =
    Some \<lparr>phl_todo = hl_todo l, phl_title = hl_title l, phl_tags = hl_tags l\<rparr>"
proof -
  let ?stars = "replicate (hl_level l) (CHR ''*'')"
  obtain rest where rest: "render_heading_line l = ?stars @ CHR '' '' # rest"
    and rest_eq: "rest = (if hl_tags l = [] then line_text l
      else line_text l @ replicate (Suc (if line_text l = [] then 2 else 3)) (CHR '' '') @
        CHR '':'' # join '':'' (hl_tags l) @ '':'')"
    using assms render_heading_line_text [OF assms]
    by (auto simp: storable_def eval_nat_numeral split: if_splits)
  have tags: "hl_tags l \<noteq> [] \<Longrightarrow> \<forall>t \<in> set (hl_tags l). tag_ok t"
    using assms by (auto simp: storable_def list_all_iff)
  have ne: "rest \<noteq> []" using assms rest_eq by (auto simp: storable_def)
  have cr: "trim_end_matches CR rest = rest"
  proof (rule trim_end_matches_last)
    show "rest = [] \<or> last rest \<noteq> CR"
      using rest_eq trim_end_last [OF trim_end_line_text [OF assms]]
      by (auto simp: ascii_ws_def)
  qed
  have split: "split_trailing_tags rest = (line_text l, hl_tags l)"
  proof (cases "hl_tags l = []")
    case True
    then show ?thesis
      using assms rest_eq trim_end_line_text [OF assms] by (simp add: split_trailing_tags_def storable_def)
  next
    case False
    then show ?thesis
      using split_trailing_tags_render [OF False tags [OF False] trim_end_line_text [OF assms]] rest_eq
      by simp
  qed
  have count: "takeWhile (\<lambda>c. c = CHR ''*'') (render_heading_line l) = ?stars"
    unfolding rest by (rule takeWhile_all_stop) auto
  show ?thesis
    using line_text_fields [OF assms]
    unfolding parse_heading_line_def Let_def count
    by (simp add: rest ne cr split trim_end_line_text [OF assms] split del: if_split cong: if_cong option.case_cong)
qed

theorem heading_line_round_trip_witness:
  "parse_heading_line (render_heading_line
     \<lparr>hl_level = 2, hl_todo = Some ''TODO'', hl_title = ''Ship it'', hl_tags = [''a'', ''b'']\<rparr>) 2 [] =
   Some \<lparr>phl_todo = Some ''TODO'', phl_title = ''Ship it'', phl_tags = [''a'', ''b'']\<rparr>"
proof -
  have "storable []
      \<lparr>hl_level = 2, hl_todo = Some ''TODO'', hl_title = ''Ship it'', hl_tags = [''a'', ''b'']\<rparr>"
    by code_simp
  from heading_line_round_trip [OF this] show ?thesis by simp
qed

end
