(* ===== verification/Tx.thy ===== *)
theory Tx
  imports Org_Structure
begin

text \<open>
  The tx ledger of \<open>crates/orgasmic-core/src/tx.rs\<close>: entries, their rendering, the checks in
  front of the writer, the reader, and the writer's file as a byte string. The texts of
  \<open>InvalidValue\<close> and \<open>RoundTripLoss\<close> are constructors here, one per message.
\<close>

section \<open>Entries\<close>

record tx_entry =
  tx_id :: string
  tx_time :: string
  tx_ty :: string
  tx_actor :: string
  tx_machine :: string
  tx_project :: "string option"
  tx_task :: "string option"
  tx_target :: "string option"
  tx_reason :: "string option"
  tx_extra :: "(string \<times> string) list"

datatype value_fault =
    KeyEmpty
  | KeyBadChar string
  | KeyReserved
  | KeyShape
  | KeyNotCanonical string
  | ValueLineBreak
  | ValueCarriageReturn
  | ValueControl string

datatype round_trip_fault =
    EntryCount nat
  | ValueLoss string nat nat
  | KeyDropped string
  | KeyInvented string
  | PropertyCount nat nat

datatype tx_error =
    TxIo
  | TxParse org_error
  | TxMissingField string
  | TxNonPropertyOnly string
  | TxInvalidValue string value_fault
  | TxRoundTripLoss round_trip_fault

definition tx_new :: "string \<Rightarrow> string \<Rightarrow> string \<Rightarrow> string \<Rightarrow> string \<Rightarrow> tx_entry" where
  "tx_new i ty time actor machine =
     \<lparr>tx_id = i, tx_time = time, tx_ty = ty, tx_actor = actor, tx_machine = machine,
      tx_project = None, tx_task = None, tx_target = None, tx_reason = None, tx_extra = []\<rparr>"

definition opt_prop :: "string \<Rightarrow> string option \<Rightarrow> (string \<times> string) list" where
  "opt_prop k v = (case v of None \<Rightarrow> [] | Some x \<Rightarrow> [(k, x)])"

definition ordered_properties :: "tx_entry \<Rightarrow> (string \<times> string) list" where
  "ordered_properties e =
     [(''TX_ID'', tx_id e), (''TIME'', tx_time e), (''TYPE'', tx_ty e), (''ACTOR'', tx_actor e),
      (''MACHINE'', tx_machine e)] @
     opt_prop ''PROJECT'' (tx_project e) @ opt_prop ''TASK'' (tx_task e) @
     opt_prop ''TARGET'' (tx_target e) @ opt_prop ''REASON'' (tx_reason e) @ tx_extra e"

definition extra :: "tx_entry \<Rightarrow> string \<Rightarrow> string option" where
  "extra e key = map_option snd (find (\<lambda>(k, _). k = key) (tx_extra e))"

definition entry_tasks :: "tx_entry \<Rightarrow> string list" where
  "entry_tasks e = split_whitespace (case tx_task e of None \<Rightarrow> [] | Some t \<Rightarrow> t)"

section \<open>Rendering\<close>

definition strip_brackets :: "string \<Rightarrow> string" where
  "strip_brackets time = trim_end_matches (CHR '']'') (trim_start_matches (CHR ''['') time)"

definition title_summary :: "tx_entry \<Rightarrow> string" where
  "title_summary e =
     (case tx_task e of
        Some t \<Rightarrow> t
      | None \<Rightarrow>
          (case tx_project e of
             Some p \<Rightarrow> p
           | None \<Rightarrow> (case tx_target e of Some t \<Rightarrow> t | None \<Rightarrow> [])))"

definition render_property :: "string \<times> string \<Rightarrow> string" where
  "render_property kv =
     (let (k, v) = kv; prefix_len = 2 + length k; pad = (if prefix_len < 15 then 15 - prefix_len else 1)
      in if trim v = [] then '':'' @ k @ '':'' @ [LF]
         else '':'' @ k @ '':'' @ replicate pad (CHR '' '') @ v @ [LF])"

definition tx_title :: "tx_entry \<Rightarrow> string" where
  "tx_title e =
     ''* TX '' @ strip_brackets (tx_time e) @ '' '' @ tx_ty e @ '' '' @ title_summary e"

definition tx_render :: "tx_entry \<Rightarrow> string" where
  "tx_render e =
     tx_title e @ [LF] @ '':PROPERTIES:'' @ [LF] @
     concat (map render_property (ordered_properties e)) @ '':END:'' @ [LF]"

section \<open>Validation\<close>

definition RESERVED_PROPERTY_KEYS :: "string list" where
  "RESERVED_PROPERTY_KEYS = [''END'', ''PROPERTIES'']"

definition is_uppercase_snake_key :: "string \<Rightarrow> bool" where
  "is_uppercase_snake_key key =
     (case key of
        [] \<Rightarrow> False
      | c # cs \<Rightarrow>
          is_ascii_uppercase c \<and>
          list_all (\<lambda>c. is_ascii_uppercase c \<or> is_ascii_digit c \<or> c = CHR ''_'') cs)"

definition validate_property_key :: "string \<Rightarrow> tx_error + unit" where
  "validate_property_key key =
     (if key = [] then Inl (TxInvalidValue key KeyEmpty)
      else
        (case find (\<lambda>g. g = '':'' \<or> is_whitespace g \<or> is_control g) (chars key) of
           Some g \<Rightarrow> Inl (TxInvalidValue key (KeyBadChar g))
         | None \<Rightarrow>
             (let canonical = to_ascii_uppercase key
              in if canonical \<in> set RESERVED_PROPERTY_KEYS then Inl (TxInvalidValue key KeyReserved)
                 else if \<not> is_uppercase_snake_key canonical then Inl (TxInvalidValue key KeyShape)
                 else if key \<noteq> canonical then Inl (TxInvalidValue key (KeyNotCanonical canonical))
                 else Inr ())))"

fun validate_value_chars :: "string \<Rightarrow> string list \<Rightarrow> tx_error + unit" where
  "validate_value_chars key [] = Inr ()"
| "validate_value_chars key (g # gs) =
     (if g = [LF] then Inl (TxInvalidValue key ValueLineBreak)
      else if g = [CR] then Inl (TxInvalidValue key ValueCarriageReturn)
      else if is_control g \<and> g \<noteq> [TAB] then Inl (TxInvalidValue key (ValueControl g))
      else validate_value_chars key gs)"

definition validate_property_value :: "string \<Rightarrow> string \<Rightarrow> tx_error + unit" where
  "validate_property_value key v = validate_value_chars key (chars v)"

fun validate_properties :: "(string \<times> string) list \<Rightarrow> tx_error + unit" where
  "validate_properties [] = Inr ()"
| "validate_properties ((k, v) # kvs) =
     try_res (validate_property_key k) (\<lambda>_.
     try_res (validate_property_value k v) (\<lambda>_. validate_properties kvs))"

definition tx_validate :: "tx_entry \<Rightarrow> tx_error + unit" where
  "tx_validate e = validate_properties (ordered_properties e)"

section \<open>The reader\<close>

definition STANDARD_KEYS :: "string list" where
  "STANDARD_KEYS =
    [''TX_ID'', ''TIME'', ''TYPE'', ''ACTOR'', ''MACHINE'', ''PROJECT'', ''TASK'', ''TARGET'',
     ''REASON'']"

definition require_field :: "heading \<Rightarrow> string \<Rightarrow> tx_error + string" where
  "require_field h key = ok_or (TxMissingField key) (property h key)"

definition tx_entry_of_heading :: "org_file \<Rightarrow> string \<Rightarrow> heading \<Rightarrow> tx_error + tx_entry" where
  "tx_entry_of_heading file display h =
     (if trim (file_slice file (h_body h)) \<noteq> [] \<or> h_sections h \<noteq> []
      then Inl (TxNonPropertyOnly display)
      else
        try_res (require_field h ''TX_ID'') (\<lambda>i.
        try_res (require_field h ''TIME'') (\<lambda>time.
        try_res (require_field h ''TYPE'') (\<lambda>ty.
        try_res (require_field h ''ACTOR'') (\<lambda>actor.
        try_res (require_field h ''MACHINE'') (\<lambda>machine.
          Inr \<lparr>tx_id = i, tx_time = time, tx_ty = ty, tx_actor = actor, tx_machine = machine,
               tx_project = property h ''PROJECT'', tx_task = property h ''TASK'',
               tx_target = property h ''TARGET'', tx_reason = property h ''REASON'',
               tx_extra = map (\<lambda>e. (pe_key e, pe_value e))
                 (filter (\<lambda>e. pe_key e \<notin> set STANDARD_KEYS) (property_entries h))\<rparr>))))))"

fun tx_entries_of_headings ::
  "org_file \<Rightarrow> string \<Rightarrow> heading list \<Rightarrow> tx_error + tx_entry list" where
  "tx_entries_of_headings file display [] = Inr []"
| "tx_entries_of_headings file display (h # hs) =
     try_res (tx_entry_of_heading file display h) (\<lambda>e.
     try_res (tx_entries_of_headings file display hs) (\<lambda>es. Inr (e # es)))"

definition parse_tx_file :: "string \<Rightarrow> string \<Rightarrow> tx_error + tx_entry list" where
  "parse_tx_file source display =
     (case org_parse source display of
        Inl e \<Rightarrow> Inl (TxParse e)
      | Inr file \<Rightarrow> tx_entries_of_headings file display (of_headings file))"

section \<open>The round-trip check\<close>

definition TX_ENTRY_DISPLAY :: string where
  "TX_ENTRY_DISPLAY = ''<tx entry>''"

definition trimmed_properties :: "tx_entry \<Rightarrow> (string \<times> string) list" where
  "trimmed_properties e = sort (map (\<lambda>(k, v). (k, trim v)) (ordered_properties e))"

definition describe_property_loss ::
  "(string \<times> string) list \<Rightarrow> (string \<times> string) list \<Rightarrow> round_trip_fault" where
  "describe_property_loss submitted read_back =
     (case find (\<lambda>kv. kv \<notin> set read_back) submitted of
        Some (key, v) \<Rightarrow>
          (case find (\<lambda>(k, _). k = key) read_back of
             Some (_, got) \<Rightarrow> ValueLoss key (length (chars v)) (length (chars got))
           | None \<Rightarrow> KeyDropped key)
      | None \<Rightarrow>
          (case find (\<lambda>kv. kv \<notin> set submitted) read_back of
             Some (key, _) \<Rightarrow> KeyInvented key
           | None \<Rightarrow> PropertyCount (length submitted) (length read_back)))"

definition assert_round_trip :: "tx_entry \<Rightarrow> tx_error + unit" where
  "assert_round_trip e =
     try_res (parse_tx_file (tx_render e) TX_ENTRY_DISPLAY) (\<lambda>parsed.
       case parsed of
         [stored] \<Rightarrow>
           if trimmed_properties e = trimmed_properties stored then Inr ()
           else Inl (TxRoundTripLoss
                  (describe_property_loss (trimmed_properties e) (trimmed_properties stored)))
       | _ \<Rightarrow> Inl (TxRoundTripLoss (EntryCount (length parsed))))"

section \<open>The writer\<close>

text \<open>The file's bytes and the writer's flag. A write either stores all the bytes it is given or
  fails after some of them.\<close>

record tx_writer =
  tw_bytes :: string
  tw_needs_leading_blank :: bool

datatype write_outcome = Wrote | WriteFailed nat

definition file_ends_with_blank_line :: "string \<Rightarrow> bool" where
  "file_ends_with_blank_line bytes =
     (let n = length bytes
      in if bytes = [] then True
         else if 2 \<le> n \<and> bytes ! (n - 1) = LF \<and> bytes ! (n - 2) = LF then True
         else bytes ! (n - 1) = LF \<and> n = 1)"

text \<open>\<open>TxWriter::open\<close> on the bytes the path holds before (none for a new file).\<close>

definition tx_open :: "string \<Rightarrow> string \<Rightarrow> tx_writer" where
  "tx_open basename prior =
     (if prior \<noteq> [] then
        \<lparr>tw_bytes = prior, tw_needs_leading_blank = \<not> file_ends_with_blank_line prior\<rparr>
      else
        \<lparr>tw_bytes = ''#+title: orgasmic tx '' @ basename @ [LF] @ ''#+orgasmic_version: 1'' @ [LF],
         tw_needs_leading_blank = False\<rparr>)"

fun render_checked :: "tx_entry list \<Rightarrow> tx_error + string" where
  "render_checked [] = Inr []"
| "render_checked (e # es) =
     try_res (tx_validate e) (\<lambda>_.
     try_res (assert_round_trip e) (\<lambda>_.
     try_res (render_checked es) (\<lambda>s. Inr ([LF] @ tx_render e @ s))))"

definition append_many ::
  "write_outcome \<Rightarrow> tx_entry list \<Rightarrow> tx_writer \<Rightarrow> (tx_error + unit) \<times> tx_writer" where
  "append_many io entries w =
     (if entries = [] then (Inr (), w)
      else
        (case render_checked entries of
           Inl e \<Rightarrow> (Inl e, w)
         | Inr s \<Rightarrow>
             (let rendered = (if tw_needs_leading_blank w then [LF] else []) @ s
              in case io of
                   Wrote \<Rightarrow>
                     (Inr (), \<lparr>tw_bytes = tw_bytes w @ rendered, tw_needs_leading_blank = False\<rparr>)
                 | WriteFailed n \<Rightarrow>
                     (Inl TxIo, w\<lparr>tw_bytes := tw_bytes w @ take n rendered\<rparr>))))"

definition append_one :: "write_outcome \<Rightarrow> tx_entry \<Rightarrow> tx_writer \<Rightarrow> (tx_error + unit) \<times> tx_writer" where
  "append_one io e w = append_many io [e] w"

end
