(* ===== verification/Tx_Lines.thy ===== *)
theory Tx_Lines
  imports Tx
begin

text \<open>
  The tx reader of \<open>crates/orgasmic-core/src/tx.rs\<close> line by line: a reference reader over the
  lines of a ledger, without spans and headings, and the proof that \<open>parse_tx_file\<close> (which goes
  through the whole org parser) accepts the same files and gives the same entries.
\<close>

section \<open>The lines of a source\<close>

lemma strip_line_end_LF:
  "strip_line_end (x @ [LF]) = (if x \<noteq> [] \<and> last x = CR then butlast x else x)"
proof -
  have lf: "strip_suffix (x @ [LF]) [LF] = Some x" by (simp add: strip_suffix_Some_iff)
  show ?thesis
  proof (cases "x \<noteq> [] \<and> last x = CR")
    case True
    then have "strip_suffix x [CR] = Some (butlast x)"
      by (metis append_butlast_last_id strip_suffix_Some_iff)
    then show ?thesis using lf True by (simp add: strip_line_end_def)
  next
    case False
    then have "strip_suffix x [CR] = None"
      by (cases "strip_suffix x [CR]") (auto simp: strip_suffix_Some_iff)
    then show ?thesis using lf False by (auto simp: strip_line_end_def)
  qed
qed

lemma strip_line_end_no_LF: "LF \<notin> set x \<Longrightarrow> strip_line_end x = x"
  by (cases "strip_suffix x [LF]") (auto simp: strip_line_end_def strip_suffix_Some_iff)

text \<open>The spans of \<open>split_lines\<close> select the lines of \<open>str::lines\<close>.\<close>

definition span_reads :: "string \<Rightarrow> line_span \<Rightarrow> bool" where
  "span_reads source l \<longleftrightarrow>
     slice source (ls_content l) = strip_line_end (slice source (ls_full l)) \<and>
     (ls_next l = length source \<or> (0 < ls_next l \<and> source ! (ls_next l - 1) = LF))"

lemma split_lines_loop_reads:
  "start \<le> i \<Longrightarrow> i \<le> length bytes \<Longrightarrow> LF \<notin> set (slice bytes (start, i)) \<Longrightarrow>
     map (\<lambda>l. slice bytes (ls_full l)) (split_lines_loop bytes start i) = split_inclusive_lf (drop start bytes) \<and>
     list_all (span_reads bytes) (split_lines_loop bytes start i)"
proof (induction bytes start i rule: split_lines_loop.induct)
  case (1 bytes start i)
  let ?x = "slice bytes (start, i)"
  have split: "drop start bytes = ?x @ drop i bytes"
    using "1.prems"(1,2) by (simp add: slice_def)
      (metis append_take_drop_id drop_drop le_add_diff_inverse2)
  have lx: "length ?x = i - start" using "1.prems"(1,2) by (simp add: slice_def)
  show ?case
  proof (cases "i < length bytes")
    case long: True
    then have di: "drop i bytes = bytes ! i # drop (i + 1) bytes" by (simp add: Cons_nth_drop_Suc)
    show ?thesis
    proof (cases "bytes ! i = LF")
      case True
      have full: "slice bytes (start, i + 1) = ?x @ [LF]"
        using "1.prems"(1) long True by (simp add: slice_def Suc_diff_le take_Suc_conv_app_nth)
      have last: "?x \<noteq> [] \<Longrightarrow> last ?x = bytes ! (i - 1) \<and> butlast ?x = slice bytes (start, i - 1)"
        using lx long by (auto simp: last_conv_nth slice_def butlast_take)
      have ne: "?x \<noteq> [] \<longleftrightarrow> start < i" using lx by (metis length_greater_0_conv zero_less_diff)
      have IH: "map (\<lambda>l. slice bytes (ls_full l)) (split_lines_loop bytes (i + 1) (i + 1)) =
          split_inclusive_lf (drop (i + 1) bytes) \<and>
          list_all (span_reads bytes) (split_lines_loop bytes (i + 1) (i + 1))"
        using "1.IH"(1) long True by (simp add: slice_def)
      have "split_inclusive_lf (drop start bytes) = (?x @ [LF]) # split_inclusive_lf (drop (i + 1) bytes)"
        using split di True split_inclusive_lf_cut "1.prems"(3) by metis
      moreover have "span_reads bytes \<lparr>ls_start = start,
           ls_content_end = (if start < i \<and> bytes ! (i - 1) = CR then i - 1 else i), ls_next = i + 1\<rparr>"
        using full last ne True strip_line_end_LF [of ?x]
        by (auto simp: span_reads_def ls_content_def ls_full_def)
      ultimately show ?thesis
        using IH long True full by (simp add: split_lines_loop.simps [of bytes start i] ls_full_def)
    next
      case False
      have "slice bytes (start, i + 1) = ?x @ [bytes ! i]"
        using "1.prems"(1) long by (simp add: slice_def Suc_diff_le take_Suc_conv_app_nth)
      then have "LF \<notin> set (slice bytes (start, i + 1))" using "1.prems"(3) False by simp
      then show ?thesis
        using "1.IH"(2) "1.prems"(1) long False by (simp add: split_lines_loop.simps [of bytes start i])
    qed
  next
    case False
    then have i: "i = length bytes" using "1.prems"(2) by simp
    then have x: "?x = drop start bytes" by (simp add: slice_def)
    then show ?thesis
      using i "1.prems"(1,3) split_inclusive_lf_last [of ?x] strip_line_end_no_LF [of ?x]
      by (auto simp: split_lines_loop.simps [of bytes start "length bytes"] span_reads_def
          ls_full_def ls_content_def)
  qed
qed

lemma split_lines_reads:
  "map (\<lambda>l. slice source (ls_content l)) (split_lines source) = str_lines source \<and>
     list_all (span_reads source) (split_lines source)"
proof -
  have r: "map (\<lambda>l. slice source (ls_full l)) (split_lines source) = split_inclusive_lf source"
    "list_all (span_reads source) (split_lines source)"
    using split_lines_loop_reads [of 0 0 source] by (auto simp: split_lines_def slice_def)
  have "map (\<lambda>l. slice source (ls_content l)) (split_lines source) =
      map strip_line_end (map (\<lambda>l. slice source (ls_full l)) (split_lines source))"
    using r(2) by (auto simp: list_all_iff span_reads_def)
  then show ?thesis using r by (simp add: str_lines_def)
qed

section \<open>Lines without spans\<close>

text \<open>What the parser looks at in a line: its text and whether it stands inside a block.\<close>

type_synonym bare_line = "string \<times> bool"

definition bare :: "org_line \<Rightarrow> bare_line" where
  "bare l = (ol_text l, ol_in_block l)"

fun mask_texts :: "nat \<Rightarrow> string list \<Rightarrow> bare_line list" where
  "mask_texts depth [] = []"
| "mask_texts depth (t # ts) =
     (t, 0 < depth \<or> starts_block t) # mask_texts (block_depth_after depth t) ts"

definition depth_after :: "nat \<Rightarrow> string list \<Rightarrow> nat" where
  "depth_after depth ts = fold (\<lambda>t k. block_depth_after k t) ts depth"

lemma depth_after_simps [simp]:
  "depth_after k [] = k"
  "depth_after k (t # ts) = depth_after (block_depth_after k t) ts"
  "depth_after k (ts @ us) = depth_after (depth_after k ts) us"
  by (simp_all add: depth_after_def)

lemma mask_texts_append:
  "mask_texts k (ts @ us) = mask_texts k ts @ mask_texts (depth_after k ts) us"
  by (induction ts arbitrary: k) simp_all

lemma number_lines_bare:
  "map bare (number_lines source n ls (org_block_line_mask source k ls)) =
     mask_texts k (map (\<lambda>l. slice source (ls_content l)) ls)"
  by (induction ls arbitrary: n k) (auto simp: Let_def bare_def)

lemma parser_lines_bare: "map bare (parser_lines source) = mask_texts 0 (str_lines source)"
  using split_lines_reads [of source] by (simp add: parser_lines_def Let_def number_lines_bare)


text \<open>Blank text: white space only.\<close>

lemma trim_Nil_iff: "trim s = [] \<longleftrightarrow> list_all is_whitespace (chars s)"
proof -
  let ?ys = "dropWhile is_whitespace (chars s)"
  have "trim s = [] \<longleftrightarrow> chars (trim s) = []" by simp
  also have "\<dots> \<longleftrightarrow> (\<forall>g \<in> set ?ys. is_whitespace g)"
    unfolding trim_def chars_trim_end chars_trim_start by simp
  also have "\<dots> \<longleftrightarrow> ?ys = []"
  proof (cases ?ys)
    case (Cons g gs)
    then have "\<not> is_whitespace g" using hd_dropWhile [of is_whitespace "chars s"] by simp
    then show ?thesis unfolding Cons by simp
  qed (simp only: list.set(1) ball_empty simp_thms)
  also have "\<dots> \<longleftrightarrow> list_all is_whitespace (chars s)" by (simp add: list_all_iff)
  finally show ?thesis .
qed

lemma trim_append_Nil_iff: "boundary t \<Longrightarrow> trim (s @ t) = [] \<longleftrightarrow> trim s = [] \<and> trim t = []"
  by (simp add: trim_Nil_iff chars_append)

lemma trim_strip_line_end: "trim (strip_line_end x) = [] \<longleftrightarrow> trim x = []"
proof (cases "strip_suffix x [LF]")
  case None
  then show ?thesis by (simp add: strip_line_end_def)
next
  case (Some m)
  then have x: "x = m @ [LF]" by (simp add: strip_suffix_Some_iff)
  have m: "trim x = [] \<longleftrightarrow> trim m = []"
    unfolding x by (subst trim_append_Nil_iff) (simp_all add: trim_Nil_iff is_cont_def ascii_ws_def)
  show ?thesis
  proof (cases "strip_suffix m [CR]")
    case None
    then show ?thesis using Some m by (simp add: strip_line_end_def)
  next
    case k: (Some k)
    then have "m = k @ [CR]" by (simp add: strip_suffix_Some_iff)
    then have "trim m = [] \<longleftrightarrow> trim k = []"
      using trim_append_Nil_iff [of "[CR]" k] by (simp add: trim_Nil_iff [of "[CR]"] is_cont_def ascii_ws_def)
    then show ?thesis using Some k m by (simp add: strip_line_end_def)
  qed
qed

definition reads_all :: "string \<Rightarrow> org_line list \<Rightarrow> bool" where
  "reads_all source ls \<longleftrightarrow> list_all (\<lambda>l. span_reads source (ol_span l)) ls"

lemma reads_all_simps [simp]:
  "reads_all source []"
  "reads_all source (l # ls) \<longleftrightarrow> span_reads source (ol_span l) \<and> reads_all source ls"
  "reads_all source (ls @ ls') \<longleftrightarrow> reads_all source ls \<and> reads_all source ls'"
  by (simp_all add: reads_all_def)

lemma parser_lines_reads: "reads_all source (parser_lines source)"
proof -
  have "map ol_span (parser_lines source) = split_lines source"
    by (simp add: parser_lines_def Let_def number_lines_spans)
  then show ?thesis
    using split_lines_reads [of source] unfolding reads_all_def by (metis list.pred_map comp_apply list_all_cong)
qed

text \<open>A run of lines is blank exactly when each of them is.\<close>

lemma blank_lines:
  "lines_ok source a (xs @ ys) \<Longrightarrow> reads_all source xs \<Longrightarrow> whole_ascii source \<Longrightarrow>
     trim (slice source (a, start_or (length source) ys)) = [] \<longleftrightarrow>
     list_all (\<lambda>l. trim (ol_text l) = []) xs"
proof (induction xs arbitrary: a)
  case Nil
  then show ?case using lines_ok_start [of source a ys] by simp
next
  case (Cons l xs)
  let ?e = "start_or (length source) ys"
  have ok: "lines_ok source (ol_next l) (xs @ ys)" and a: "ol_start l = a" "a < ol_next l"
    and tx: "ol_text l = slice source (ls_content (ol_span l))"
    using Cons.prems(1) by auto
  have le: "ol_next l \<le> ?e" "?e \<le> length source"
    using lines_ok_append [OF ok] lines_ok_le by blast+
  have "boundary (slice source (ol_next l, ?e))"
  proof (cases "ol_next l = length source")
    case True
    then show ?thesis using le by simp
  next
    case False
    then have lf: "0 < ol_next l" "source ! (ol_next l - 1) = LF"
      using Cons.prems(2) by (auto simp: span_reads_def)
    have nl: "ol_next l - 1 < length source" using False le lf(1) by simp
    have "source = take (ol_next l - 1) source @ LF # drop (ol_next l) source"
      using id_take_nth_drop [OF nl] lf by simp
    then have "boundary (drop (ol_next l) source)"
      using whole_ascii_after [of "take (ol_next l - 1) source" LF "drop (ol_next l) source"] Cons.prems(3)
      by simp
    then have "boundary (take (?e - ol_next l) (drop (ol_next l) source))"
      by (metis append_take_drop_id boundary_prefix)
    then show ?thesis by (simp add: slice_def)
  qed
  moreover have "slice source (a, ?e) = slice source (a, ol_next l) @ slice source (ol_next l, ?e)"
    using slice_adjacent [of a "ol_next l" ?e source] a(2) le by simp
  moreover have "trim (slice source (a, ol_next l)) = [] \<longleftrightarrow> trim (ol_text l) = []"
    using Cons.prems(2) tx a(1) trim_strip_line_end by (simp add: span_reads_def ls_full_def)
  ultimately show ?case using Cons.IH [OF ok] Cons.prems(2,3) by (simp add: trim_append_Nil_iff)
qed

section \<open>The reference reader\<close>

type_synonym properties = "(string \<times> string) list"

definition property_kv :: "string \<Rightarrow> (string \<times> string) option" where
  "property_kv t =
     map_option (\<lambda>e. (pe_key e, pe_value e))
       (parse_property_line t \<lparr>ls_start = 0, ls_content_end = 0, ls_next = 0\<rparr>)"

fun drawer_kvs :: "properties \<Rightarrow> bare_line list \<Rightarrow> (properties \<times> bare_line list) option" where
  "drawer_kvs kvs [] = None"
| "drawer_kvs kvs ((t, b) # ls) =
     (if trim t = '':END:'' then Some (kvs, ls)
      else if trim t = [] then None
      else
        (case property_kv t of
           None \<Rightarrow> None
         | Some kv \<Rightarrow> drawer_kvs (kvs @ [kv]) ls))"

definition opt_drawer_kvs :: "bare_line list \<Rightarrow> (properties \<times> bare_line list) option" where
  "opt_drawer_kvs ls =
     (case ls of
        [] \<Rightarrow> Some ([], [])
      | (t, b) # rest \<Rightarrow> if trim t = '':PROPERTIES:'' then drawer_kvs [] rest else Some ([], ls))"

lemma drawer_kvs_length: "drawer_kvs kvs ls = Some (kvs', rest) \<Longrightarrow> length rest < length ls"
  by (induction kvs ls rule: drawer_kvs.induct) (fastforce split: if_splits option.splits)+

lemma opt_drawer_kvs_length: "opt_drawer_kvs ls = Some (kvs', rest) \<Longrightarrow> length rest \<le> length ls"
  by (auto simp: opt_drawer_kvs_def split: list.splits if_splits dest!: drawer_kvs_length)

function entry_props :: "bare_line list \<Rightarrow> properties list option" where
  "entry_props [] = Some []"
| "entry_props ((t, b) # ls) =
     (if trim t = [] then entry_props ls
      else if \<not> b \<and> heading_level t = Some 1 then
        (case opt_drawer_kvs ls of
           None \<Rightarrow> None
         | Some (kvs, rest) \<Rightarrow> map_option ((#) kvs) (entry_props rest))
      else None)"
  by pat_completeness auto
termination
  by (relation "measure length") (auto dest: opt_drawer_kvs_length)

declare entry_props.simps(2) [simp del]

definition lookup_prop :: "properties \<Rightarrow> string \<Rightarrow> string option" where
  "lookup_prop kvs key = map_option snd (find (\<lambda>(k, _). k = key) kvs)"

definition entry_of_props :: "properties \<Rightarrow> tx_entry option" where
  "entry_of_props kvs =
     (case (lookup_prop kvs ''TX_ID'', lookup_prop kvs ''TIME'', lookup_prop kvs ''TYPE'',
            lookup_prop kvs ''ACTOR'', lookup_prop kvs ''MACHINE'') of
        (Some i, Some time, Some ty, Some actor, Some machine) \<Rightarrow>
          Some \<lparr>tx_id = i, tx_time = time, tx_ty = ty, tx_actor = actor, tx_machine = machine,
            tx_project = lookup_prop kvs ''PROJECT'', tx_task = lookup_prop kvs ''TASK'',
            tx_target = lookup_prop kvs ''TARGET'', tx_reason = lookup_prop kvs ''REASON'',
            tx_extra = filter (\<lambda>(k, _). k \<notin> set STANDARD_KEYS) kvs\<rparr>
      | _ \<Rightarrow> None)"

fun entries_of_props :: "properties list \<Rightarrow> tx_entry list option" where
  "entries_of_props [] = Some []"
| "entries_of_props (p # ps) =
     (case entry_of_props p of
        None \<Rightarrow> None
      | Some e \<Rightarrow> map_option ((#) e) (entries_of_props ps))"

fun skip_keywords :: "bare_line list \<Rightarrow> bare_line list option" where
  "skip_keywords [] = Some []"
| "skip_keywords ((t, b) # ls) =
     (case strip_prefix (trim_start t) ''#+'' of
        Some rest \<Rightarrow> if parse_keyword_line rest = None then None else skip_keywords ls
      | None \<Rightarrow> if trim t = [] then skip_keywords ls else Some ((t, b) # ls))"

definition bare_heading :: "bare_line \<Rightarrow> bool" where
  "bare_heading l \<longleftrightarrow> \<not> snd l \<and> heading_level (fst l) \<noteq> None"

definition lines_entries :: "bare_line list \<Rightarrow> tx_entry list option" where
  "lines_entries ls =
     (case skip_keywords ls of
        None \<Rightarrow> None
      | Some rest \<Rightarrow>
          (case entry_props (dropWhile (\<lambda>l. \<not> bare_heading l) rest) of
             None \<Rightarrow> None
           | Some ps \<Rightarrow> entries_of_props ps))"

definition read_ledger :: "string \<Rightarrow> tx_entry list option" where
  "read_ledger source = lines_entries (mask_texts 0 (str_lines source))"

section \<open>The two readers agree\<close>

lemma parse_property_line_kv:
  "map_option (\<lambda>e. (pe_key e, pe_value e)) (parse_property_line t sp) = property_kv t"
  by (auto simp: property_kv_def parse_property_line_def Let_def split: option.split)

definition kvs_of :: "property_entry list \<Rightarrow> properties" where
  "kvs_of es = map (\<lambda>e. (pe_key e, pe_value e)) es"

lemma kvs_of_simps [simp]:
  "kvs_of [] = []" "kvs_of (es @ [e]) = kvs_of es @ [(pe_key e, pe_value e)]"
  by (simp_all add: kvs_of_def)

lemma drawer_loop_bare:
  "drawer_kvs (kvs_of es) (map bare ls) =
     (case parse_drawer_loop d op es ls of
        Inl _ \<Rightarrow> None
      | Inr (dr, rest) \<Rightarrow> Some (kvs_of (pd_entries dr), map bare rest))"
proof (induction d op es ls rule: parse_drawer_loop.induct)
  case (2 d op es l ls)
  show ?case
  proof (cases "trim (ol_text l) = '':END:'' \<or> trim (ol_text l) = []")
    case True
    then show ?thesis by (auto simp: bare_def)
  next
    case False
    show ?thesis
    proof (cases "parse_property_line (ol_text l) (ol_span l)")
      case None
      then show ?thesis
        using False parse_property_line_kv [of "ol_text l" "ol_span l"] by (simp add: bare_def)
    next
      case (Some e)
      then have "property_kv (ol_text l) = Some (pe_key e, pe_value e)"
        using parse_property_line_kv [of "ol_text l" "ol_span l"] by simp
      then show ?thesis using 2 False Some by (simp add: bare_def)
    qed
  qed
qed simp

lemma opt_drawer_bare:
  "opt_drawer_kvs (map bare ls) =
     (case parse_opt_drawer d ls of
        Inl _ \<Rightarrow> None
      | Inr (props, rest) \<Rightarrow>
          Some (case props of None \<Rightarrow> [] | Some dr \<Rightarrow> kvs_of (pd_entries dr), map bare rest))"
proof (cases ls)
  case (Cons l rest)
  then show ?thesis
    using drawer_loop_bare [of "[]" rest d l]
    by (auto simp: opt_drawer_kvs_def parse_opt_drawer_def bare_def split: sum.splits)
qed (simp add: opt_drawer_kvs_def parse_opt_drawer_def)

lemma heading_level_parses:
  assumes "heading_level t = Some n"
  shows "parse_heading_line t n todo \<noteq> None"
proof -
  have n: "length (takeWhile (\<lambda>x. x = CHR ''*'') t) = n" "n < length t" "t ! n = CHR '' ''"
    using assms by (auto simp: heading_level_def Let_def split: list.splits if_splits)
  have sp: "starts_with (drop n t) '' ''"
    using n(2,3) by (simp add: starts_with_def take_Suc hd_drop_conv_nth)
  have "stars = length t \<longleftrightarrow> False" if "stars = n" for stars using n(2) that by simp
  then show ?thesis
    using n(1) sp by (simp add: parse_heading_line_def Let_def split: prod.split)
qed

lemma bare_heading_iff: "bare_heading (bare l) \<longleftrightarrow> is_heading_line l"
  by (simp add: bare_heading_def bare_def is_heading_line_def heading_level_at_def)

lemma after_body_bare: "dropWhile (\<lambda>l. \<not> bare_heading l) (map bare ls) = map bare (after_body ls)"
  by (simp add: dropWhile_map bare_heading_iff after_body_def comp_def)

lemma heading_not_blank: "heading_level t = Some n \<Longrightarrow> trim t \<noteq> []"
proof
  assume h: "heading_level t = Some n" and "trim t = []"
  then obtain g gs where "chars t = g # gs" "is_whitespace g"
    by (cases "chars t") (auto simp: trim_Nil_iff heading_level_def)
  moreover have "hd t = CHR ''*''" using h by (auto simp: heading_level_def split: list.splits if_splits)
  ultimately have "hd g = CHR ''*''" "g \<in> set ws_chars"
    using hd_chars [of t g gs] by (auto simp: is_whitespace_def)
  then show False by (auto simp: ws_chars_def)
qed

text \<open>Lines that are neither blank nor a heading of level one end the reference reader.\<close>

lemma entry_props_blank:
  "list_all (\<lambda>l. trim (fst l) = []) xs \<Longrightarrow> entry_props (xs @ ys) = entry_props ys"
proof (induction xs)
  case (Cons x xs)
  then show ?case by (cases x) (simp add: entry_props.simps(2))
qed simp

lemma entry_props_junk:
  "list_all (\<lambda>l. \<not> bare_heading l) xs \<Longrightarrow> \<not> list_all (\<lambda>l. trim (fst l) = []) xs \<Longrightarrow>
     entry_props (xs @ ys) = None"
proof (induction xs)
  case (Cons x xs)
  obtain t b where x: "x = (t, b)" by (cases x)
  show ?case
  proof (cases "trim t = []")
    case True
    then show ?thesis using Cons x by (simp add: entry_props.simps(2))
  next
    case False
    then show ?thesis using Cons.prems x by (auto simp: entry_props.simps(2) bare_heading_def)
  qed
qed simp

definition only_properties :: "string \<Rightarrow> heading \<Rightarrow> bool" where
  "only_properties source h \<longleftrightarrow> trim (slice source (h_body h)) = [] \<and> h_sections h = []"

definition top_props :: "string \<Rightarrow> org_error + heading list \<Rightarrow> properties list option" where
  "top_props source r =
     (case r of
        Inl _ \<Rightarrow> None
      | Inr hs \<Rightarrow>
          if list_all (only_properties source) hs then Some (map (\<lambda>h. kvs_of (property_entries h)) hs)
          else None)"

lemma parse_sections_stop:
  assumes "after_body ls = ls"
  shows "(\<exists>secs rest. parse_sections d todo eof 1 ls = Inr (secs, rest) \<and> secs = []) \<longleftrightarrow> stops_at 1 ls"
    and "stops_at 1 ls \<Longrightarrow> parse_sections d todo eof 1 ls = Inr ([], ls)"
proof -
  have "ls = [] \<or> (\<exists>l rest k. ls = l # rest \<and> heading_level_at l = Some k)"
    using assms after_body_heading [of ls] by (cases ls) (auto simp: is_heading_line_def)
  then show "(\<exists>secs rest. parse_sections d todo eof 1 ls = Inr (secs, rest) \<and> secs = []) \<longleftrightarrow> stops_at 1 ls"
    "stops_at 1 ls \<Longrightarrow> parse_sections d todo eof 1 ls = Inr ([], ls)"
    by (auto simp: stops_at_def parse_sections_heading_eq try_res_Inr_iff split: if_splits)
qed

lemma top_props_simps [simp]:
  "top_props source (Inl e) = None"
  "top_props source (try_res r f) = (case r of Inl _ \<Rightarrow> None | Inr x \<Rightarrow> top_props source (f x))"
  by (simp_all add: top_props_def try_res_def split: sum.split)

lemma top_props_cons:
  "top_props source (try_res r (\<lambda>hs. Inr (h # hs))) =
     (if only_properties source h then map_option ((#) (kvs_of (property_entries h))) (top_props source r)
      else None)"
  by (cases r) (auto simp: top_props_def)

text \<open>One entry: the drawer, the blank lines after it, and no nested heading.\<close>

lemma after_drawer_bare:
  assumes ok: "lines_ok source a ls1" "reads_all source ls1" "whole_ascii source"
    and IH: "stops_at 1 (after_body ls1) \<Longrightarrow>
      top_props source (parse_top d todo (length source) (after_body ls1)) =
      entry_props (map bare (after_body ls1))"
  shows "entry_props (map bare ls1) =
    (if trim (slice source (body_span (length source) ls1)) = [] \<and> stops_at 1 (after_body ls1)
     then top_props source (parse_top d todo (length source) (after_body ls1)) else None)"
proof -
  let ?xs = "takeWhile (\<lambda>l. \<not> is_heading_line l) ls1"
  let ?L = "after_body ls1"
  have split: "ls1 = ?xs @ ?L" by (simp add: after_body_def)
  then have bare: "map bare ls1 = map bare ?xs @ map bare ?L" by (metis map_append)
  have reads: "reads_all source ?xs" using ok(2) split by (metis reads_all_simps(3))
  have blank: "trim (slice source (body_span (length source) ls1)) = [] \<longleftrightarrow>
      list_all (\<lambda>l. trim (fst l) = []) (map bare ?xs)"
    using blank_lines [of source a ?xs ?L] ok(1,3) reads split body_span_ok [OF ok(1)]
    by (simp add: list_all_iff bare_def)
  have nohead: "list_all (\<lambda>l. \<not> bare_heading l) (map bare ?xs)"
    by (auto simp: list_all_iff bare_heading_iff dest: set_takeWhileD)
  show ?thesis
  proof (cases "list_all (\<lambda>l. trim (fst l) = []) (map bare ?xs)")
    case False
    then show ?thesis using entry_props_junk [OF nohead False] bare blank by simp
  next
    case bl: True
    then have e: "entry_props (map bare ls1) = entry_props (map bare ?L)"
      using entry_props_blank [OF bl] bare by simp
    show ?thesis
    proof (cases "stops_at 1 ?L")
      case True
      then show ?thesis using e IH blank bl by simp
    next
      case False
      then obtain l rest where L: "?L = l # rest" by (cases ?L) (auto simp: stops_at_def)
      then obtain k where k: "heading_level_at l = Some k"
        using after_body_heading [OF L] by (auto simp: is_heading_line_def)
      then have "k \<noteq> 1" using False L by (auto simp: stops_at_def)
      then have "entry_props (map bare ?L) = None"
        using k L heading_not_blank
        by (auto simp: entry_props.simps(2) bare_def heading_level_at_def split: if_splits)
      then show ?thesis using e False by simp
    qed
  qed
qed

lemma parse_top_bare:
  "lines_ok source a ls \<Longrightarrow> reads_all source ls \<Longrightarrow> whole_ascii source \<Longrightarrow>
     top_props source (parse_top d todo (length source) ls) = entry_props (map bare ls)"
proof (induction "length ls" arbitrary: a ls rule: less_induct)
  case less
  show ?case
  proof (cases ls)
    case Nil
    then show ?thesis by (simp add: top_props_def)
  next
    case (Cons l rest)
    have rest: "lines_ok source (ol_next l) rest" "reads_all source rest"
      using less.prems Cons by auto
    show ?thesis
    proof (cases "trim (ol_text l) = []")
      case True
      then show ?thesis
        using less.hyps [OF _ rest less.prems(3)] Cons
        by (simp add: parse_top.simps(2) [of d todo "length source" l rest] entry_props.simps(2) bare_def)
    next
      case nb: False
      show ?thesis
      proof (cases "heading_level_at l = Some 1")
        case False
        then have "top_props source (parse_top d todo (length source) (l # rest)) = None"
          using nb by (auto simp: parse_top.simps(2) [of d todo "length source" l rest] split: option.split)
        moreover have "entry_props (map bare (l # rest)) = None"
          using nb False by (auto simp: entry_props.simps(2) bare_def heading_level_at_def split: if_splits)
        ultimately show ?thesis using Cons by simp
      next
        case True
        then have hl: "heading_level (ol_text l) = Some 1" "\<not> ol_in_block l"
          by (auto simp: heading_level_at_def split: if_splits)
        then obtain parsed where parsed: "parse_heading_line (ol_text l) 1 todo = Some parsed"
          using heading_level_parses by blast
        show ?thesis
        proof (cases "parse_opt_drawer d rest")
          case (Inl e)
          then show ?thesis
            using Cons nb True hl parsed opt_drawer_bare [of rest d]
            by (simp add: parse_top_heading_eq parse_heading_eq entry_props.simps(2) bare_def)
        next
          case (Inr r)
          obtain props ls1 where r: "r = (props, ls1)" by (cases r)
          obtain used where used: "rest = used @ ls1"
            using parse_opt_drawer_suffix Inr r by blast
          then have ok1: "lines_ok source (start_or (length source) ls1) ls1" "reads_all source ls1"
            using rest lines_ok_append [of source "ol_next l" used ls1] by auto
          obtain used2 where used2: "ls1 = used2 @ after_body ls1" using after_body_suffix by blast
          have ok2: "lines_ok source (start_or (length source) (after_body ls1)) (after_body ls1)"
            "reads_all source (after_body ls1)"
            using body_span_ok [OF ok1(1)] ok1(2) used2 by (auto simp: reads_all_def) (metis list_all_append)
          have "length (after_body ls1) < length ls"
            using arg_cong [OF used, of length] arg_cong [OF used2, of length] Cons by simp
          then have IH: "top_props source (parse_top d todo (length source) (after_body ls1)) =
              entry_props (map bare (after_body ls1))"
            using less.hyps ok2 less.prems(3) by blast
          let ?kvs = "case props of None \<Rightarrow> [] | Some dr \<Rightarrow> kvs_of (pd_entries dr)"
          have "entry_props (map bare ls) = map_option ((#) ?kvs) (entry_props (map bare ls1))"
            using Cons nb hl opt_drawer_bare [of rest d] Inr r
            by (simp add: entry_props.simps(2) bare_def)
          moreover have "top_props source (parse_top d todo (length source) ls) =
              (if trim (slice source (body_span (length source) ls1)) = [] \<and> stops_at 1 (after_body ls1)
               then map_option ((#) ?kvs) (top_props source (parse_top d todo (length source) (after_body ls1)))
               else None)"
          proof -
            have top: "parse_top d todo (length source) ls =
                try_res (parse_sections d todo (length source) 1 (after_body ls1)) (\<lambda>(sections, ls2).
                try_res (parse_top d todo (length source) ls2) (\<lambda>hs. Inr
                  (Heading 1 (phl_todo parsed) (phl_title parsed) (phl_tags parsed)
                   props sections (ls_content (ol_span l))
                   (ol_start l, start_or (length source) ls2) (body_span (length source) ls1) # hs)))"
              using Cons nb True parsed Inr r
              by (cases "parse_sections d todo (length source) 1 (after_body ls1)")
                (auto simp: parse_top_heading_eq parse_heading_eq)
            note stop = parse_sections_stop [of "after_body ls1" d todo "length source"]
            show ?thesis
            proof (cases "parse_sections d todo (length source) 1 (after_body ls1)")
              case (Inl e)
              then show ?thesis using top stop by auto
            next
              case (Inr x)
              obtain sections ls2 where x: "x = (sections, ls2)" by (cases x)
              have "sections = [] \<longleftrightarrow> stops_at 1 (after_body ls1)" using stop Inr x by auto
              moreover have "stops_at 1 (after_body ls1) \<Longrightarrow> ls2 = after_body ls1" using stop Inr x by auto
              ultimately show ?thesis
                using top Inr x
                by (auto simp: top_props_cons only_properties_def property_entries_def split: option.split
                    simp del: top_props_simps(2))
            qed
          qed
          ultimately show ?thesis
            using after_drawer_bare [OF ok1 less.prems(3), of d todo] IH by (auto split: if_splits)
        qed
      qed
    qed
  qed
qed

lemma property_lookup: "property h key = lookup_prop (kvs_of (property_entries h)) key"
proof -
  have "map_option pe_value (find (\<lambda>e. pe_key e = key) es) =
      map_option snd (find (\<lambda>(k, _). k = key) (kvs_of es))" for es
    by (induction es) (auto simp: kvs_of_def)
  then show ?thesis
    by (auto simp: property_def lookup_prop_def property_entries_def split: option.split)
qed

lemma filter_kvs_of:
  "map (\<lambda>e. (pe_key e, pe_value e)) (filter (\<lambda>e. P (pe_key e)) es) = filter (\<lambda>kv. P (fst kv)) (kvs_of es)"
  by (induction es) (auto simp: kvs_of_def)

lemma entry_of_heading_iff:
  "tx_entry_of_heading file d h = Inr e \<longleftrightarrow>
     only_properties (of_source file) h \<and> entry_of_props (kvs_of (property_entries h)) = Some e"
  unfolding tx_entry_of_heading_def require_field_def property_lookup only_properties_def
    file_slice_def entry_of_props_def case_prod_unfold filter_kvs_of [of "\<lambda>k. k \<notin> set STANDARD_KEYS"]
  by (cases "lookup_prop (kvs_of (property_entries h)) ''TX_ID''";
      cases "lookup_prop (kvs_of (property_entries h)) ''TIME''";
      cases "lookup_prop (kvs_of (property_entries h)) ''TYPE''";
      cases "lookup_prop (kvs_of (property_entries h)) ''ACTOR''";
      cases "lookup_prop (kvs_of (property_entries h)) ''MACHINE''") auto

lemma entries_of_headings_iff:
  "tx_entries_of_headings file d hs = Inr es \<longleftrightarrow>
     list_all (only_properties (of_source file)) hs \<and>
     entries_of_props (map (\<lambda>h. kvs_of (property_entries h)) hs) = Some es"
proof (induction hs arbitrary: es)
  case (Cons h hs)
  show ?case
    by (auto simp: try_res_Inr_iff entry_of_heading_iff Cons split: option.split)
qed auto

lemma skip_keywords_bare:
  "skip_keywords (map bare ls) =
     (case parse_keywords d todo kws ls of Inl _ \<Rightarrow> None | Inr (_, _, rest) \<Rightarrow> Some (map bare rest))"
proof (induction d todo kws ls rule: parse_keywords.induct)
  case (2 d todo kws l ls)
  show ?case
  proof (cases "strip_prefix (trim_start (ol_text l)) ''#+''")
    case None
    then show ?thesis
      using "2.IH" None by (cases "trim (ol_text l) = []") (simp_all add: bare_def [of l])
  next
    case (Some rest)
    then show ?thesis
      using "2.IH" Some by (cases "parse_keyword_line rest") (auto simp: bare_def [of l])
  qed
qed simp

text \<open>The property drawers of a file whose headings hold nothing else, read line by line.\<close>

definition line_props :: "bare_line list \<Rightarrow> properties list option" where
  "line_props ls =
     (case skip_keywords ls of
        None \<Rightarrow> None
      | Some rest \<Rightarrow> entry_props (dropWhile (\<lambda>l. \<not> bare_heading l) rest))"

definition file_props :: "org_error + org_file \<Rightarrow> properties list option" where
  "file_props r = (case r of Inl _ \<Rightarrow> None | Inr f \<Rightarrow> top_props (of_source f) (Inr (of_headings f)))"

lemma org_parse_props:
  assumes "whole_ascii source"
  shows "file_props (org_parse source display) = line_props (mask_texts 0 (str_lines source))"
proof -
  let ?ls = "parser_lines source"
  have bare: "mask_texts 0 (str_lines source) = map bare ?ls" using parser_lines_bare by simp
  show ?thesis
  proof (cases "parse_keywords display [] [] ?ls")
    case (Inl e)
    then show ?thesis
      using skip_keywords_bare [of ?ls display "[]" "[]"]
      by (simp add: file_props_def org_parse_def line_props_def bare Let_def)
  next
    case (Inr r)
    obtain todo kws rest where r: "r = (todo, kws, rest)" by (cases r)
    obtain used where used: "?ls = used @ rest" using parse_keywords_suffix Inr r by blast
    then have ok: "lines_ok source (start_or (length source) rest) rest" "reads_all source rest"
      using parser_lines_ok [of source] parser_lines_reads [of source] lines_ok_append by (fastforce, simp)
    obtain used2 where "rest = used2 @ after_body rest" using after_body_suffix by blast
    then have ok2: "lines_ok source (start_or (length source) (after_body rest)) (after_body rest)"
      "reads_all source (after_body rest)"
      using body_span_ok [OF ok(1)] ok(2) by (auto simp: reads_all_def) (metis list_all_append)
    have top: "entry_props (dropWhile (\<lambda>l. \<not> bare_heading l) (map bare rest)) =
        top_props source (parse_top display todo (length source) (after_body rest))"
      using parse_top_bare [OF ok2 assms] by (simp add: after_body_bare)
    show ?thesis
      using Inr r skip_keywords_bare [of ?ls display "[]" "[]"] top
      by (cases "parse_top display todo (length source) (after_body rest)")
        (auto simp: file_props_def org_parse_def line_props_def bare Let_def)
  qed
qed

lemma org_parse_source: "org_parse source display = Inr f \<Longrightarrow> of_source f = source"
  by (auto simp: org_parse_def Let_def split: sum.splits prod.splits)

lemma tx_reader_lines:
  assumes "whole_ascii source"
  shows "parse_tx_file source display = Inr es \<longleftrightarrow> read_ledger source = Some es"
proof -
  have "read_ledger source = Option.bind (file_props (org_parse source display)) entries_of_props"
    unfolding org_parse_props [OF assms] read_ledger_def lines_entries_def line_props_def
    by (auto split: option.split)
  then show ?thesis
    using org_parse_source [of source display]
    by (cases "org_parse source display")
      (auto simp: parse_tx_file_def file_props_def top_props_def entries_of_headings_iff)
qed

text \<open>Claim C28. The reader that goes through the org parser is the line reader: for every Rust string
  the two accept the same ledgers and read the same entries, whatever name the file is shown under.\<close>

theorem tx_reader_by_lines:
  assumes "whole_ascii source"
  shows "parse_tx_file source display = Inr es \<longleftrightarrow> read_ledger source = Some es"
  using assms by (rule tx_reader_lines)

text \<open>Two entries, one with a property outside the standard ones, and a carriage return.\<close>

definition sample_ledger :: string where
  "sample_ledger =
     ''#+title: t'' @ [LF] @ [LF] @ ''* TX'' @ [LF] @ '':PROPERTIES:'' @ [LF] @ '':TX_ID: a'' @ [LF] @
     '':TIME: 1'' @ [LF] @ '':TYPE: y'' @ [LF] @ '':ACTOR: z'' @ [LF] @ '':MACHINE: m'' @ [LF] @
     '':K: v'' @ [CR, LF] @ '':END:'' @ [LF]"

theorem tx_reader_by_lines_witness:
  "\<exists>e. read_ledger sample_ledger = Some [e] \<and> parse_tx_file sample_ledger ''f'' = Inr [e] \<and>
     tx_extra e = [(''K'', ''v'')]"
proof -
  have w: "whole_ascii sample_ledger" by code_simp
  have "(case read_ledger sample_ledger of Some [e] \<Rightarrow> tx_extra e = [(''K'', ''v'')] | _ \<Rightarrow> False)"
    by code_simp
  then obtain e where e: "read_ledger sample_ledger = Some [e]" "tx_extra e = [(''K'', ''v'')]"
    by (auto split: option.splits list.splits)
  then show ?thesis using tx_reader_by_lines [OF w, of "''f''" "[e]"] by blast
qed

end
