(* ===== verification/Tx_Ledger.thy ===== *)
theory Tx_Ledger
  imports Tx_Lines
begin

text \<open>
  The tx ledger as a log: what \<open>TxWriter::open\<close> and \<open>TxWriter::append_many\<close> of
  \<open>crates/orgasmic-core/src/tx.rs\<close> leave in the file reads back as the entries that were accepted,
  in order. The abstract log is a list of property lists (\<open>trimmed_properties\<close>); an accepted
  batch appends to it, a refused one and a reopening leave it alone.
\<close>

section \<open>Rust strings\<close>

definition rust_str :: "string \<Rightarrow> bool" where
  "rust_str s \<longleftrightarrow> boundary s \<and> whole_ascii s"

lemma whole_ascii_append: "whole_ascii a \<Longrightarrow> rust_str b \<Longrightarrow> whole_ascii (a @ b)"
proof (induction a rule: whole_ascii.induct)
  fix c
  assume "rust_str b"
  then show "whole_ascii ([c] @ b)" by (cases b) (auto simp: rust_str_def)
qed (auto simp: rust_str_def)

lemma rust_str_append [simp, intro]: "rust_str a \<Longrightarrow> rust_str b \<Longrightarrow> rust_str (a @ b)"
  using whole_ascii_append [of a b] by (cases a) (simp_all add: rust_str_def)

lemma rust_str_Nil [simp]: "rust_str []"
  by (simp add: rust_str_def)

lemma rust_str_Cons: "rust_str s \<Longrightarrow> \<not> is_cont c \<Longrightarrow> rust_str (c # s)"
  using rust_str_append [of "[c]" s] by (simp add: rust_str_def)

lemma rust_str_concat: "list_all rust_str xs \<Longrightarrow> rust_str (concat xs)"
  by (induction xs) auto

lemma rust_str_replicate_space: "rust_str (replicate n (CHR '' ''))"
  by (induction n) (auto intro: rust_str_Cons simp: is_cont_def)

lemma rust_str_trim_start_matches:
  "rust_str t \<Longrightarrow> byte c < 128 \<Longrightarrow> rust_str (trim_start_matches c t)"
proof (induction t)
  case (Cons x t)
  have "x = c \<Longrightarrow> rust_str t" using Cons.prems whole_ascii_tail by (auto simp: rust_str_def)
  then show ?case using Cons by (auto simp: trim_start_matches_def)
qed (simp add: trim_start_matches_def)

lemma rust_str_prefix: "rust_str (a @ b) \<Longrightarrow> rust_str a"
  using whole_ascii_prefix boundary_prefix by (auto simp: rust_str_def)

lemma rust_str_strip_brackets: "rust_str t \<Longrightarrow> rust_str (strip_brackets t)"
proof -
  assume "rust_str t"
  then have "rust_str (trim_start_matches (CHR ''['') t)"
    using rust_str_trim_start_matches by simp
  then show ?thesis
    using trim_end_matches_split [of "trim_start_matches (CHR ''['') t" "CHR '']''"] rust_str_prefix
    unfolding strip_brackets_def by metis
qed

text \<open>In a Rust string an ASCII byte is a character.\<close>

lemma ascii_char: "whole_ascii s \<Longrightarrow> c \<in> set s \<Longrightarrow> byte c < 128 \<Longrightarrow> [c] \<in> set (chars s)"
proof (induction s rule: chars.induct)
  case (3 x d cs)
  have IH: "c \<in> set (d # cs) \<Longrightarrow> [c] \<in> set (chars (d # cs))"
    using 3 by (cases "is_cont d") auto
  show ?case
  proof (cases "is_cont d")
    case True
    then have x: "128 \<le> byte x" using "3.prems"(1) by simp
    then have "c \<in> set (d # cs)" using "3.prems"(2,3) by auto
    then have "[c] \<in> set (chars (d # cs))" using IH by blast
    moreover obtain g gs where g: "chars (d # cs) = g # gs" by (cases "chars (d # cs)") auto
    moreover have "g \<noteq> [c]"
      using hd_chars [OF g] True "3.prems"(3) by (auto simp: is_cont_def)
    ultimately show ?thesis using True by simp
  next
    case False
    then show ?thesis using IH "3.prems"(2) by auto
  qed
qed auto

section \<open>Reading appended lines\<close>

lemma drawer_kvs_append:
  "drawer_kvs kvs ls = Some (kvs', rest) \<Longrightarrow> drawer_kvs kvs (ls @ us) = Some (kvs', rest @ us)"
  by (induction kvs ls rule: drawer_kvs.induct) (auto split: if_splits option.splits)

definition not_drawer :: "bare_line list \<Rightarrow> bool" where
  "not_drawer us \<longleftrightarrow> (case us of [] \<Rightarrow> True | (t, b) # _ \<Rightarrow> trim t \<noteq> '':PROPERTIES:'')"

lemma opt_drawer_kvs_append:
  "opt_drawer_kvs ls = Some (kvs, rest) \<Longrightarrow> not_drawer us \<Longrightarrow>
     opt_drawer_kvs (ls @ us) = Some (kvs, rest @ us)"
  by (cases ls)
    (auto simp: opt_drawer_kvs_def not_drawer_def drawer_kvs_append split: list.splits if_splits)

lemma entry_props_append:
  "entry_props ls = Some ps \<Longrightarrow> not_drawer us \<Longrightarrow>
     entry_props (ls @ us) = map_option ((@) ps) (entry_props us)"
proof (induction ls arbitrary: ps rule: entry_props.induct)
  case 1
  then show ?case by (simp add: option.map_ident)
next
  case (2 t b ls)
  show ?case
  proof (cases "trim t = []")
    case True
    then show ?thesis using 2 by (simp add: entry_props.simps(2))
  next
    case False
    then have h: "\<not> b \<and> heading_level t = Some 1"
      using "2.prems"(1) by (auto simp: entry_props.simps(2) split: if_splits)
    then obtain kvs rest qs where k: "opt_drawer_kvs ls = Some (kvs, rest)"
      "entry_props rest = Some qs" "ps = kvs # qs"
      using "2.prems"(1) False by (auto simp: entry_props.simps(2) split: option.splits)
    then have "entry_props (rest @ us) = map_option ((@) qs) (entry_props us)"
      using "2.IH"(2) [OF False h] "2.prems"(2) by auto
    then show ?thesis
      using False h k opt_drawer_kvs_append [OF k(1) "2.prems"(2)]
      by (simp add: entry_props.simps(2) option.map_comp comp_def)
  qed
qed

lemma entries_of_props_append:
  "entries_of_props (ps @ qs) =
     (case entries_of_props ps of
        None \<Rightarrow> None
      | Some es \<Rightarrow> map_option ((@) es) (entries_of_props qs))"
proof (induction ps)
  case Nil
  then show ?case by (cases "entries_of_props qs") simp_all
next
  case (Cons p ps)
  then show ?case by (cases "entries_of_props qs") (auto split: option.split)
qed

text \<open>Appended text that opens with blank lines and a heading is neither a keyword nor prelude.\<close>

definition opens_entry :: "bare_line list \<Rightarrow> bool" where
  "opens_entry us \<longleftrightarrow>
     (\<exists>xs h rest. us = xs @ h # rest \<and> list_all (\<lambda>l. l = ([], False)) xs \<and> bare_heading h)"

lemma heading_star: "heading_level t = Some n \<Longrightarrow> \<exists>r. t = CHR ''*'' # r \<and> boundary r"
proof (cases t)
  case (Cons c r)
  assume h: "heading_level t = Some n"
  then have c: "c = CHR ''*''" using Cons by (auto simp: heading_level_def split: if_splits)
  have n: "length (takeWhile (\<lambda>x. x = CHR ''*'') t) = n" "n < length t" "t ! n = CHR '' ''"
    using h Cons by (auto simp: heading_level_def Let_def split: if_splits)
  have "boundary r"
  proof (cases r)
    case r: (Cons d ds)
    then have "d = CHR ''*'' \<or> d = CHR '' ''" using n Cons c by (auto split: if_splits)
    then show ?thesis using r by (auto simp: is_cont_def)
  qed simp
  then show ?thesis using Cons c by simp
qed (simp add: heading_level_def)

lemma skip_keywords_heading:
  assumes "bare_heading h"
  shows "skip_keywords (h # rest) = Some (h # rest)"
proof -
  obtain t where h: "h = (t, False)" using assms by (cases h) (auto simp: bare_heading_def)
  obtain n where n: "heading_level t = Some n" using assms h by (auto simp: bare_heading_def)
  obtain r where r: "t = CHR ''*'' # r" "boundary r" using heading_star [OF n] by blast
  have "trim_start t = t" using r trim_start_Cons_not_ws [of "CHR ''*''" r] by (simp add: ascii_ws_def)
  then have "strip_prefix (trim_start t) ''#+'' = None"
    using r by (simp add: strip_prefix_def)
  then show ?thesis using heading_not_blank [OF n] h by simp
qed

lemma opens_entry_reads:
  assumes "opens_entry us"
  shows "(\<exists>rest. skip_keywords us = Some rest \<and>
      dropWhile (\<lambda>l. \<not> bare_heading l) rest = dropWhile (\<lambda>l. \<not> bare_heading l) us) \<and>
    entry_props (dropWhile (\<lambda>l. \<not> bare_heading l) us) = entry_props us \<and> not_drawer us"
proof -
  obtain xs h rest where us: "us = xs @ h # rest" "list_all (\<lambda>l. l = ([], False)) xs" "bare_heading h"
    using assms by (auto simp: opens_entry_def)
  have "skip_keywords us = Some (h # rest)"
    unfolding us(1) using us(2) skip_keywords_heading [OF us(3)]
    by (induction xs) (auto simp: strip_prefix_def)
  moreover have "dropWhile (\<lambda>l. \<not> bare_heading l) us = h # rest"
    unfolding us(1) using us(2,3) by (induction xs) (auto simp: bare_heading_def heading_level_def)
  moreover have "entry_props us = entry_props (h # rest)"
    unfolding us(1) using us(2) by (intro entry_props_blank) (auto simp: list_all_iff)
  moreover have "not_drawer us"
  proof (cases xs)
    case Nil
    have "trim (fst h) \<noteq> '':PROPERTIES:''"
    proof
      assume t: "trim (fst h) = '':PROPERTIES:''"
      obtain n where n: "heading_level (fst h) = Some n" using us(3) by (auto simp: bare_heading_def)
      obtain r where r: "fst h = CHR ''*'' # r" "boundary r" using heading_star [OF n] by blast
      have "trim_start (fst h) = CHR ''*'' # r"
        using r trim_start_Cons_not_ws [of "CHR ''*''" r] by (simp add: ascii_ws_def)
      then obtain q where "CHR ''*'' # r = trim (fst h) @ q"
        using trim_end_split [of "CHR ''*'' # r"] by (metis trim_def)
      then show False using t by simp
    qed
    then show ?thesis using Nil us(1) by (cases h) (simp add: not_drawer_def)
  next
    case (Cons x ys)
    then show ?thesis using us(1,2) by (simp add: not_drawer_def)
  qed
  ultimately show ?thesis by (simp add: us(3))
qed

lemma skip_keywords_append:
  "skip_keywords ls = Some rest \<Longrightarrow>
     skip_keywords (ls @ us) = (if rest = [] then skip_keywords us else Some (rest @ us))"
proof (induction ls)
  case (Cons l ls)
  obtain t b where l: "l = (t, b)" by (cases l)
  show ?case
    using Cons l by (auto split: option.splits if_splits)
qed simp

lemma lines_entries_append:
  assumes a: "lines_entries ls = Some es" and u: "opens_entry us"
    and p: "entry_props us = Some ps" "entries_of_props ps = Some fs"
  shows "lines_entries (ls @ us) = Some (es @ fs)"
proof -
  let ?drop = "dropWhile (\<lambda>l. \<not> bare_heading l)"
  obtain rest qs where r: "skip_keywords ls = Some rest" "entry_props (?drop rest) = Some qs"
    "entries_of_props qs = Some es"
    using a by (auto simp: lines_entries_def split: option.splits)
  obtain rest' where u': "skip_keywords us = Some rest'" "?drop rest' = ?drop us"
    "entry_props (?drop us) = Some ps" "not_drawer us"
    using opens_entry_reads [OF u] p(1) by auto
  have "\<exists>rest2. skip_keywords (ls @ us) = Some rest2 \<and> entry_props (?drop rest2) = Some (qs @ ps)"
  proof (cases "?drop rest")
    case Nil
    then have q: "qs = []" using r(2) unfolding Nil by simp
    show ?thesis
    proof (cases "rest = []")
      case True
      then show ?thesis using skip_keywords_append [OF r(1)] u' q by simp
    next
      case False
      have "?drop (rest @ us) = ?drop us"
        using Nil by (simp add: dropWhile_append dropWhile_eq_Nil_conv)
      then show ?thesis using skip_keywords_append [OF r(1)] u' q False by simp
    qed
  next
    case (Cons l ls')
    then have "?drop (rest @ us) = ?drop rest @ us"
      by (metis dropWhile_append1 dropWhile_eq_Nil_conv list.distinct(1))
    moreover have "rest \<noteq> []" using Cons by auto
    ultimately show ?thesis
      using skip_keywords_append [OF r(1)] entry_props_append [OF r(2) u'(4)] p(1) by simp
  qed
  then show ?thesis using entries_of_props_append [of qs ps] r(3) p(2) by (auto simp: lines_entries_def)
qed


section \<open>The lines of a rendered entry\<close>

definition rust_entry :: "tx_entry \<Rightarrow> bool" where
  "rust_entry e \<longleftrightarrow> list_all (\<lambda>(k, v). rust_str k \<and> rust_str v) (ordered_properties e)"

definition one_line :: "string \<Rightarrow> bool" where
  "one_line s \<longleftrightarrow> LF \<notin> set s \<and> CR \<notin> set s"

lemma one_line_simps [simp]:
  "one_line []"
  "one_line (c # s) \<longleftrightarrow> c \<noteq> LF \<and> c \<noteq> CR \<and> one_line s"
  "one_line (s @ t) \<longleftrightarrow> one_line s \<and> one_line t"
  by (auto simp: one_line_def)

lemma one_line_replicate: "one_line (replicate n (CHR '' ''))"
  by (induction n) auto

lemma LF_CR_control [simp]: "is_control [LF]" "is_control [CR]"
  by (simp_all add: is_control_def)

lemma valid_key_one_line:
  "validate_property_key k = Inr () \<Longrightarrow> rust_str k \<Longrightarrow> one_line k"
  using ascii_char [of k LF] ascii_char [of k CR]
  by (force simp: validate_property_key_def one_line_def rust_str_def find_None_iff Let_def
      split: option.splits if_splits)

lemma valid_value_one_line:
  "validate_property_value key v = Inr () \<Longrightarrow> rust_str v \<Longrightarrow> one_line v"
proof -
  have "validate_value_chars key gs = Inr () \<Longrightarrow> [LF] \<notin> set gs \<and> [CR] \<notin> set gs" for gs
    by (induction gs) (auto split: if_splits)
  then show "validate_property_value key v = Inr () \<Longrightarrow> rust_str v \<Longrightarrow> one_line v"
    using ascii_char [of v LF] ascii_char [of v CR]
    by (auto simp: validate_property_value_def one_line_def rust_str_def)
qed

lemma validated_one_line:
  assumes "tx_validate e = Inr ()" "rust_entry e"
  shows "list_all (\<lambda>(k, v). one_line k \<and> one_line v) (ordered_properties e)"
proof -
  have "validate_properties kvs = Inr () \<Longrightarrow> list_all (\<lambda>(k, v). rust_str k \<and> rust_str v) kvs \<Longrightarrow>
      list_all (\<lambda>(k, v). one_line k \<and> one_line v) kvs" for kvs
    by (induction kvs rule: validate_properties.induct)
      (auto simp: try_res_Inr_iff valid_key_one_line valid_value_one_line)
  then show ?thesis using assms by (simp add: tx_validate_def rust_entry_def)
qed

definition property_text :: "string \<times> string \<Rightarrow> string" where
  "property_text kv =
     (let (k, v) = kv; prefix_len = 2 + length k; pad = (if prefix_len < 15 then 15 - prefix_len else 1)
      in if trim v = [] then '':'' @ k @ '':'' else '':'' @ k @ '':'' @ replicate pad (CHR '' '') @ v)"

lemma render_property_text: "render_property kv = property_text kv @ [LF]"
  by (auto simp: render_property_def property_text_def Let_def split: prod.split)

definition entry_texts :: "tx_entry \<Rightarrow> string list" where
  "entry_texts e = [tx_title e, '':PROPERTIES:''] @ map property_text (ordered_properties e) @ ['':END:'']"

lemma tx_render_texts: "tx_render e = concat (map (\<lambda>t. t @ [LF]) (entry_texts e))"
proof -
  have p: "map render_property kvs = map (\<lambda>t. t @ [LF]) (map property_text kvs)" for kvs
    by (simp add: render_property_text)
  show ?thesis unfolding tx_render_def p entry_texts_def by simp
qed

lemma one_line_strip_brackets: "one_line t \<Longrightarrow> one_line (strip_brackets t)"
proof -
  have "set (strip_brackets t) \<subseteq> set t"
    by (auto simp: strip_brackets_def trim_end_matches_def trim_start_matches_def dest!: set_dropWhileD)
  then show "one_line t \<Longrightarrow> one_line (strip_brackets t)" by (auto simp: one_line_def)
qed

lemma title_summary_in:
  "title_summary e = [] \<or> title_summary e \<in> snd ` set (ordered_properties e)"
  by (force simp: title_summary_def ordered_properties_def opt_prop_def split: option.split)

lemma title_parts_in:
  "tx_time e \<in> snd ` set (ordered_properties e)" "tx_ty e \<in> snd ` set (ordered_properties e)"
  by (force simp: ordered_properties_def)+

lemma entry_texts_one_line:
  assumes "tx_validate e = Inr ()" "rust_entry e"
  shows "list_all one_line (entry_texts e)"
proof -
  note ok = validated_one_line [OF assms]
  then have v: "x \<in> snd ` set (ordered_properties e) \<Longrightarrow> one_line x" for x
    by (auto simp: list_all_iff)
  have "one_line (title_summary e)" using title_summary_in [of e] v by auto
  then have title: "one_line (tx_title e)"
    using v title_parts_in one_line_strip_brackets by (simp add: tx_title_def)
  have "list_all one_line (map property_text (ordered_properties e))"
    using ok by (auto simp: list_all_iff property_text_def Let_def one_line_replicate)
  then show ?thesis using title by (simp add: entry_texts_def)
qed

lemma rust_str_render: "rust_entry e \<Longrightarrow> rust_str (tx_render e)"
proof -
  assume ok: "rust_entry e"
  then have v: "x \<in> snd ` set (ordered_properties e) \<Longrightarrow> rust_str x" for x
    by (auto simp: list_all_iff rust_entry_def)
  have "rust_str (title_summary e)" using title_summary_in [of e] v by auto
  then have "rust_str (tx_title e)"
    using v [OF title_parts_in(1)] v [OF title_parts_in(2)] rust_str_strip_brackets
    unfolding tx_title_def by (intro rust_str_append) (auto simp: rust_str_def is_cont_def)
  moreover have "rust_str (property_text kv)" if "kv \<in> set (ordered_properties e)" for kv
  proof -
    obtain k v where kv: "kv = (k, v)" by (cases kv)
    then have "rust_str k" "rust_str v" using ok that by (auto simp: rust_entry_def list_all_iff)
    then show ?thesis
      using rust_str_replicate_space kv
      by (auto simp: property_text_def Let_def is_cont_def intro!: rust_str_Cons rust_str_append)
  qed
  ultimately have ts: "list_all rust_str (entry_texts e)"
    by (auto simp: entry_texts_def list_all_iff rust_str_def is_cont_def)
  have "rust_str [LF]" by (simp add: rust_str_def is_cont_def)
  then have "list_all rust_str (map (\<lambda>t. t @ [LF]) (entry_texts e))"
    using ts by (auto simp: list_all_iff)
  then show "rust_str (tx_render e)" unfolding tx_render_texts by (rule rust_str_concat)
qed

lemma str_lines_texts:
  "list_all one_line ts \<Longrightarrow> str_lines (concat (map (\<lambda>t. t @ [LF]) ts) @ s) = ts @ str_lines s"
proof (induction ts)
  case (Cons t ts)
  then have t: "LF \<notin> set t" "t \<noteq> [] \<longrightarrow> last t \<noteq> CR" by (auto simp: one_line_def dest: last_in_set)
  then have "strip_line_end (t @ [LF]) = t" using strip_line_end_LF [of t] by auto
  moreover have "str_lines (t @ LF # u) = strip_line_end (t @ [LF]) # str_lines u" for u
    using split_inclusive_lf_cut [OF t(1)] by (simp add: str_lines_def)
  ultimately show ?case using Cons by simp
qed simp

text \<open>No line of an entry opens or closes a block.\<close>

lemma trim_start_mark:
  assumes "c = CHR ''*'' \<or> c = CHR '':'' \<or> c = CHR ''#''"
  shows "trim_start (c # s) = c # s"
proof -
  obtain g gs where g: "chars (c # s) = g # gs" by (cases "chars (c # s)") auto
  then have "hd g = c" using hd_chars by fastforce
  then have "\<not> is_whitespace g" using assms by (auto simp: is_whitespace_def ws_chars_def)
  then show ?thesis using g by (metis concat_chars dropWhile.simps(2) trim_start_def)
qed

lemma no_block:
  assumes "c = CHR ''*'' \<or> c = CHR '':''"
  shows "block_depth_after k (c # s) = k" "\<not> starts_block (c # s)"
proof -
  have "\<not> starts_with (to_ascii_lowercase (c # s)) (CHR ''#'' # p)" for p
    using assms ascii_lower_byte_punct [of c "CHR ''#''"]
    by (auto simp: to_ascii_lowercase_def starts_with_def is_ascii_lowercase_def)
  then show "block_depth_after k (c # s) = k" "\<not> starts_block (c # s)"
    using trim_start_mark [of c s] assms
    by (auto simp: block_depth_after_def starts_block_def ends_block_def Let_def)
qed

definition marked :: "string \<Rightarrow> bool" where
  "marked t \<longleftrightarrow> t = [] \<or> (\<exists>c s. t = c # s \<and> (c = CHR ''*'' \<or> c = CHR '':''))"

lemma mask_marked:
  "list_all marked ts \<Longrightarrow> mask_texts 0 ts = map (\<lambda>t. (t, False)) ts \<and> depth_after 0 ts = 0"
proof (induction ts)
  case (Cons t ts)
  have "\<not> starts_block []" "block_depth_after 0 [] = 0"
    by (simp_all add: starts_block_def ends_block_def block_depth_after_def to_ascii_lowercase_def
        starts_with_def)
  then show ?case using Cons no_block by (auto simp: marked_def)
qed simp

lemma entry_texts_marked: "list_all marked (entry_texts e)"
  by (auto simp: entry_texts_def marked_def tx_title_def property_text_def Let_def list_all_iff)

section \<open>A batch of entries\<close>

definition bare_texts :: "string list \<Rightarrow> bare_line list" where
  "bare_texts ts = map (\<lambda>t. (t, False)) ts"

definition batch_texts :: "tx_entry list \<Rightarrow> string list" where
  "batch_texts es = concat (map (\<lambda>e. [] # entry_texts e) es)"

lemma batch_texts_simps [simp]:
  "batch_texts [] = []" "batch_texts (e # es) = [] # entry_texts e @ batch_texts es"
  by (simp_all add: batch_texts_def)

lemma marked_Nil [simp]: "marked []"
  by (simp add: marked_def)

lemma batch_texts_marked: "list_all marked (batch_texts es)"
  by (induction es) (simp_all add: entry_texts_marked)

definition storable :: "tx_entry \<Rightarrow> bool" where
  "storable e \<longleftrightarrow> tx_validate e = Inr () \<and> assert_round_trip e = Inr ()"

lemma title_heading: "bare_heading (tx_title e, False)"
  by (simp add: bare_heading_def tx_title_def heading_level_def)

lemma entry_texts_read:
  assumes "storable e" "rust_entry e"
  shows "\<exists>kvs stored. entry_props (bare_texts (entry_texts e)) = Some [kvs] \<and>
    entry_of_props kvs = Some stored \<and> trimmed_properties stored = trimmed_properties e"
proof -
  obtain stored where st: "parse_tx_file (tx_render e) TX_ENTRY_DISPLAY = Inr [stored]"
    "trimmed_properties e = trimmed_properties stored"
  proof -
    obtain parsed where p: "parse_tx_file (tx_render e) TX_ENTRY_DISPLAY = Inr parsed"
      using assms(1) by (auto simp: storable_def assert_round_trip_def try_res_Inr_iff)
    then show thesis
      using assms(1) that by (cases parsed; cases "tl parsed")
        (auto simp: storable_def assert_round_trip_def split: if_splits)
  qed
  have "whole_ascii (tx_render e)" using rust_str_render assms(2) by (simp add: rust_str_def)
  then have "read_ledger (tx_render e) = Some [stored]" using tx_reader_lines st(1) by blast
  moreover have "str_lines (tx_render e) = entry_texts e"
    using str_lines_texts [of "entry_texts e" "[]"] entry_texts_one_line assms
    by (simp add: tx_render_texts storable_def str_lines_def)
  ultimately have "lines_entries (bare_texts (entry_texts e)) = Some [stored]"
    using mask_marked [OF entry_texts_marked] by (simp add: read_ledger_def bare_texts_def)
  moreover obtain rest where r: "bare_texts (entry_texts e) = (tx_title e, False) # rest"
    by (simp add: bare_texts_def entry_texts_def)
  ultimately obtain ps where "entry_props (bare_texts (entry_texts e)) = Some ps"
    "entries_of_props ps = Some [stored]"
    using skip_keywords_heading [OF title_heading] title_heading
    by (auto simp: lines_entries_def split: option.splits)
  moreover from this obtain kvs where "ps = [kvs]" "entry_of_props kvs = Some stored"
    by (cases ps; cases "tl ps") (auto split: option.splits)
  ultimately show ?thesis using st(2) by auto
qed

lemma batch_texts_read:
  "list_all storable es \<Longrightarrow> list_all rust_entry es \<Longrightarrow>
     \<exists>ps stored. entry_props (bare_texts (batch_texts es)) = Some ps \<and>
       entries_of_props ps = Some stored \<and> map trimmed_properties stored = map trimmed_properties es"
proof (induction es)
  case (Cons e es)
  obtain kvs s where e: "entry_props (bare_texts (entry_texts e)) = Some [kvs]"
    "entry_of_props kvs = Some s" "trimmed_properties s = trimmed_properties e"
    using entry_texts_read [of e] Cons.prems by auto
  obtain ps stored where es: "entry_props (bare_texts (batch_texts es)) = Some ps"
    "entries_of_props ps = Some stored" "map trimmed_properties stored = map trimmed_properties es"
    using Cons by auto
  have "not_drawer (bare_texts (batch_texts es))"
    by (cases es) (auto simp: not_drawer_def bare_texts_def)
  then have "entry_props (bare_texts (entry_texts e @ batch_texts es)) = Some (kvs # ps)"
    using entry_props_append [OF e(1)] es(1) by (simp add: bare_texts_def)
  then have "entry_props (bare_texts (batch_texts (e # es))) = Some (kvs # ps)"
    by (simp add: bare_texts_def entry_props.simps(2))
  then show ?case using e es by auto
qed (simp add: bare_texts_def)

section \<open>The ledger\<close>

text \<open>A ledger file that reads as the entries \<open>es\<close>: complete lines, no block left open.\<close>

definition ledger :: "string \<Rightarrow> tx_entry list \<Rightarrow> bool" where
  "ledger bytes es \<longleftrightarrow>
     rust_str bytes \<and> (bytes = [] \<or> last bytes = LF) \<and> depth_after 0 (str_lines bytes) = 0 \<and>
     read_ledger bytes = Some es"

lemma ledger_parses: "ledger bytes es \<Longrightarrow> parse_tx_file bytes display = Inr es"
  using tx_reader_lines by (simp add: ledger_def rust_str_def)

lemma render_checked_Inr:
  "render_checked es = Inr s \<Longrightarrow>
     list_all storable es \<and> s = concat (map (\<lambda>e. [LF] @ tx_render e) es)"
  by (induction es arbitrary: s) (auto simp: try_res_Inr_iff storable_def)

lemma concat_render: "concat (map (\<lambda>e. [LF] @ tx_render e) es) = concat (map (\<lambda>t. t @ [LF]) (batch_texts es))"
  by (induction es) (simp_all add: tx_render_texts)

lemma batch_texts_one_line:
  "list_all storable es \<Longrightarrow> list_all rust_entry es \<Longrightarrow> list_all one_line (batch_texts es)"
  by (induction es) (auto simp: entry_texts_one_line storable_def)

lemma opens_entry_blank: "opens_entry us \<Longrightarrow> opens_entry (([], False) # us)"
proof -
  assume "opens_entry us"
  then obtain xs h rest where us: "us = xs @ h # rest" "list_all (\<lambda>l. l = ([], False)) xs" "bare_heading h"
    by (auto simp: opens_entry_def)
  then show ?thesis
    unfolding opens_entry_def by (intro exI [of _ "([], False) # xs"] exI [of _ h] exI [of _ rest]) simp
qed

lemma opens_entry_batch: "es \<noteq> [] \<Longrightarrow> opens_entry (bare_texts (batch_texts es))"
proof (cases es)
  case (Cons e es')
  have "bare_texts (batch_texts es) =
      [([], False)] @ (tx_title e, False) # bare_texts (tl (entry_texts e) @ batch_texts es')"
    using Cons by (simp add: bare_texts_def entry_texts_def)
  then show ?thesis
    using title_heading [of e] unfolding opens_entry_def
    by (intro exI [of _ "[([], False)]"] exI [of _ "(tx_title e, False)"]
        exI [of _ "bare_texts (tl (entry_texts e) @ batch_texts es')"]) simp
qed simp

lemma last_lines:
  "ts \<noteq> [] \<Longrightarrow> concat (map (\<lambda>t. t @ [LF]) ts) \<noteq> [] \<and> last (concat (map (\<lambda>t. t @ [LF]) ts)) = LF"
  by (induction ts) (auto simp: concat_eq_Nil_conv)

lemma rust_str_batch:
  "list_all rust_entry es \<Longrightarrow> rust_str (concat (map (\<lambda>e. [LF] @ tx_render e) es))"
proof -
  have "rust_str [LF]" by (simp add: rust_str_def is_cont_def)
  then show "list_all rust_entry es \<Longrightarrow> rust_str (concat (map (\<lambda>e. [LF] @ tx_render e) es))"
    using rust_str_render by (intro rust_str_concat) (auto simp: list_all_iff simp del: append_Cons)
qed

text \<open>An accepted batch, with or without the blank line in front.\<close>

lemma ledger_append:
  assumes old: "ledger bytes es" and batch: "render_checked batch = Inr s" "list_all rust_entry batch"
    and ne: "batch \<noteq> []" and pre: "pre = [] \<or> pre = [LF]"
  shows "\<exists>stored. ledger (bytes @ pre @ s) (es @ stored) \<and>
    map trimmed_properties stored = map trimmed_properties batch"
proof -
  have st: "list_all storable batch" and s: "s = concat (map (\<lambda>t. t @ [LF]) (batch_texts batch))"
    using render_checked_Inr [OF batch(1)] concat_render by auto
  define ts where "ts = (if pre = [] then [] else [[]]) @ batch_texts batch"
  have ps: "pre @ s = concat (map (\<lambda>t. t @ [LF]) ts)" using pre s by (auto simp: ts_def)
  have marked: "list_all marked ts" using batch_texts_marked by (simp add: ts_def)
  have "list_all one_line ts" using batch_texts_one_line [OF st batch(2)] by (simp add: ts_def)
  then have lines: "str_lines (pre @ s) = ts"
    using str_lines_texts [of ts "[]"] ps by (simp add: str_lines_def)
  have old_lines: "str_lines (bytes @ pre @ s) = str_lines bytes @ ts"
    using old lines str_lines_append unfolding ledger_def by metis
  have "depth_after 0 (str_lines (bytes @ pre @ s)) = 0"
    using old old_lines mask_marked [OF marked] by (simp add: ledger_def)
  moreover obtain ps' stored where st': "entry_props (bare_texts (batch_texts batch)) = Some ps'"
    "entries_of_props ps' = Some stored" "map trimmed_properties stored = map trimmed_properties batch"
    using batch_texts_read [OF st batch(2)] by blast
  moreover have "lines_entries (mask_texts 0 (str_lines bytes) @ bare_texts ts) = Some (es @ stored)"
  proof (rule lines_entries_append)
    show "lines_entries (mask_texts 0 (str_lines bytes)) = Some es"
      using old by (simp add: ledger_def read_ledger_def)
    show "opens_entry (bare_texts ts)"
      using opens_entry_batch [OF ne] opens_entry_blank by (simp add: ts_def bare_texts_def)
    show "entry_props (bare_texts ts) = Some ps'"
      using st'(1) by (simp add: ts_def bare_texts_def entry_props.simps(2))
    show "entries_of_props ps' = Some stored" using st'(2) .
  qed
  then have "read_ledger (bytes @ pre @ s) = Some (es @ stored)"
    using old old_lines mask_marked [OF marked]
    by (simp add: read_ledger_def mask_texts_append ledger_def bare_texts_def)
  moreover have "rust_str [LF]" by (simp add: rust_str_def is_cont_def)
  then have "rust_str (bytes @ pre @ s)"
    using old pre rust_str_batch [OF batch(2)] render_checked_Inr [OF batch(1)]
    by (intro rust_str_append) (auto simp: ledger_def)
  moreover have "last (pre @ s) = LF \<and> pre @ s \<noteq> []"
    using last_lines [of ts] ne unfolding ps by (cases batch) (auto simp: ts_def)
  ultimately show ?thesis by (auto simp: ledger_def)
qed

text \<open>The file a fresh writer seeds.\<close>

lemma ledger_seed:
  assumes "rust_str base" "LF \<notin> set base"
  shows "ledger (tw_bytes (tx_open base [])) []"
proof -
  let ?l1 = "''#+title: orgasmic tx '' @ base" and ?l2 = "''#+orgasmic_version: 1''"
  have b: "tw_bytes (tx_open base []) = ?l1 @ LF # ?l2 @ [LF]" by (simp add: tx_open_def)
  have l2: "str_lines (?l2 @ [LF]) = [?l2]" by code_simp
  have lf: "LF \<notin> set ?l1" using assms(2) by simp
  have "str_lines (?l1 @ LF # ?l2 @ [LF]) = strip_line_end (?l1 @ [LF]) # [?l2]"
    using split_inclusive_lf_cut [OF lf] l2 by (simp add: str_lines_def)
  moreover obtain t where t: "strip_line_end (?l1 @ [LF]) = ''#+title: '' @ t"
  proof (cases "base \<noteq> [] \<and> last base = CR")
    case True
    then show ?thesis
      using strip_line_end_LF [of ?l1] that [of "''orgasmic tx '' @ butlast base"]
      by (simp add: butlast_append)
  next
    case False
    then have "\<not> (?l1 \<noteq> [] \<and> last ?l1 = CR)" by auto
    then have "strip_line_end (?l1 @ [LF]) = ?l1" using strip_line_end_LF [of ?l1] by presburger
    then show ?thesis using that [of "''orgasmic tx '' @ base"] by simp
  qed
  ultimately have lines: "str_lines (tw_bytes (tx_open base [])) = [''#+title: '' @ t, ?l2]"
    using b by simp
  have ts: "trim_start (''#+'' @ r) = ''#+'' @ r" for r using trim_start_mark by simp
  have nb: "block_depth_after 0 (''#+title: '' @ t) = 0" "\<not> starts_block (''#+title: '' @ t)"
    "block_depth_after 0 ?l2 = 0" "\<not> starts_block ?l2"
    using ts [of "''title: '' @ t"] ts [of "''orgasmic_version: 1''"]
    by (simp_all add: block_depth_after_def starts_block_def ends_block_def to_ascii_lowercase_def
        starts_with_def ascii_lower_byte_code)
  have kw: "parse_keyword_line (''title: '' @ t) \<noteq> None" "parse_keyword_line ''orgasmic_version: 1'' \<noteq> None"
  proof -
    have "\<exists>v. split_once (CHR '':'') (trim_end_matches CR (''title: '' @ t)) = Some (''title'', v)"
    proof -
      have "\<exists>v. trim_end_matches CR (''title: '' @ t) = ''title:'' @ v"
        by (simp add: trim_end_matches_def dropWhile_append) (metis rev_rev_ident)
      then show ?thesis by (auto simp: split_once_Some_iff)
    qed
    then show "parse_keyword_line (''title: '' @ t) \<noteq> None"
      by (auto simp: parse_keyword_line_def split: option.splits) (code_simp)
    show "parse_keyword_line ''orgasmic_version: 1'' \<noteq> None" by code_simp
  qed
  have "lines_entries [(''#+title: '' @ t, False), (?l2, False)] = Some []"
    using ts [of "''title: '' @ t"] ts [of "''orgasmic_version: 1''"] kw
    by (simp add: lines_entries_def strip_prefix_def)
  moreover have "rust_str (tw_bytes (tx_open base []))"
    unfolding b using assms(1) by (intro rust_str_append) (auto simp: rust_str_def is_cont_def)
  ultimately show ?thesis
    using lines nb b by (simp add: ledger_def read_ledger_def)
qed

section \<open>The life of a ledger\<close>

text \<open>What happens to one ledger: it is created, batches are accepted or refused, and the file is
  opened again by another writer. The second component is the log of the accepted entries.\<close>

inductive ledger_run :: "tx_writer \<Rightarrow> tx_entry list \<Rightarrow> bool" where
  created: "rust_str base \<Longrightarrow> LF \<notin> set base \<Longrightarrow> ledger_run (tx_open base []) []"
| accepted: "ledger_run w log \<Longrightarrow> list_all rust_entry batch \<Longrightarrow>
    append_many Wrote batch w = (Inr (), w') \<Longrightarrow> ledger_run w' (log @ batch)"
| refused: "ledger_run w log \<Longrightarrow> append_many io batch w = (Inl e, w') \<Longrightarrow> e \<noteq> TxIo \<Longrightarrow>
    ledger_run w' log"
| reopened: "ledger_run w log \<Longrightarrow> ledger_run (tx_open base (tw_bytes w)) log"

lemma append_many_Wrote:
  assumes "append_many Wrote batch w = (Inr (), w')" "batch \<noteq> []"
  shows "\<exists>s pre. render_checked batch = Inr s \<and> (pre = [] \<or> pre = [LF]) \<and>
    tw_bytes w' = tw_bytes w @ pre @ s"
  using assms by (auto simp: append_many_def Let_def split: sum.splits if_splits)

lemma append_many_refused:
  "append_many io batch w = (Inl e, w') \<Longrightarrow> e \<noteq> TxIo \<Longrightarrow> w' = w"
  by (auto simp: append_many_def Let_def split: sum.splits write_outcome.splits if_splits)

lemma ledger_run_reads:
  "ledger_run w log \<Longrightarrow>
     tw_bytes w \<noteq> [] \<and>
     (\<exists>es. ledger (tw_bytes w) es \<and> map trimmed_properties es = map trimmed_properties log)"
proof (induction rule: ledger_run.induct)
  case (created base)
  then show ?case using ledger_seed by (auto simp: tx_open_def)
next
  case (accepted w log batch w')
  show ?case
  proof (cases "batch = []")
    case True
    then show ?thesis using accepted by (simp add: append_many_def)
  next
    case False
    obtain s pre where s: "render_checked batch = Inr s" "pre = [] \<or> pre = [LF]"
      "tw_bytes w' = tw_bytes w @ pre @ s"
      using append_many_Wrote [OF accepted(3) False] by blast
    obtain es where "ledger (tw_bytes w) es" "map trimmed_properties es = map trimmed_properties log"
      using accepted(4) by blast
    then show ?thesis
      using ledger_append [OF _ s(1) accepted(2) False s(2)] s(3) accepted(4) by fastforce
  qed
next
  case (refused w log io batch e w')
  then show ?case using append_many_refused by blast
next
  case (reopened w log base)
  then show ?case by (simp add: tx_open_def)
qed

text \<open>Claim C26. The ledger is its log: after any history of creating it, accepting and refusing
  batches and opening it again, the file parses, and its entries have, in order, exactly the
  properties of the accepted entries. Torn writes are not part of these histories: a batch fails
  before it writes or is written whole (\<open>ledger_run\<close> has no step that ends in \<open>TxIo\<close>).\<close>

theorem ledger_is_its_log:
  assumes "ledger_run w log"
  shows "\<exists>es. parse_tx_file (tw_bytes w) display = Inr es \<and>
    map trimmed_properties es = map trimmed_properties log"
  using ledger_run_reads [OF assms] ledger_parses by blast

text \<open>A batch is all or nothing while writes complete: a refused batch leaves every byte of
  the file as it was, and an accepted one only adds bytes at the end.\<close>

theorem append_many_all_or_nothing:
  "case append_many io batch w of
     (Inr _, w') \<Rightarrow> \<exists>s. tw_bytes w' = tw_bytes w @ s \<and>
       (s = [] \<longleftrightarrow> batch = []) \<and> list_all (\<lambda>e. tx_validate e = Inr () \<and> assert_round_trip e = Inr ()) batch
   | (Inl e, w') \<Rightarrow> w' = w \<or> (e = TxIo \<and> (\<exists>s. tw_bytes w' = tw_bytes w @ s))"
proof (cases "batch = []")
  case True
  then show ?thesis by (simp add: append_many_def)
next
  case False
  show ?thesis
  proof (cases "render_checked batch")
    case (Inl e)
    then show ?thesis using False by (simp add: append_many_def)
  next
    case (Inr s)
    then have "list_all storable batch" "s \<noteq> []"
      using render_checked_Inr [OF Inr] False by (cases batch; simp)+
    then show ?thesis
      using Inr False
      by (cases io) (auto simp: append_many_def Let_def storable_def [abs_def])
  qed
qed

section \<open>Witnesses\<close>

definition sample_tx :: tx_entry where
  "sample_tx = (tx_new ''t1'' ''y'' ''1'' ''a'' ''m'')\<lparr>tx_extra := [(''K'', '' v '')]\<rparr>"

theorem ledger_is_its_log_witness:
  "\<exists>w es. append_many Wrote [sample_tx] (tx_open ''b'' []) = (Inr (), w) \<and>
     parse_tx_file (tw_bytes w) ''f'' = Inr es \<and>
     map trimmed_properties es = [trimmed_properties sample_tx]"
proof -
  have "fst (append_many Wrote [sample_tx] (tx_open ''b'' [])) = Inr ()" by code_simp
  then obtain w where w: "append_many Wrote [sample_tx] (tx_open ''b'' []) = (Inr (), w)"
    by (cases "append_many Wrote [sample_tx] (tx_open ''b'' [])") auto
  have "rust_str ''b''" "list_all rust_entry [sample_tx]" by code_simp+
  then have "ledger_run w ([] @ [sample_tx])"
    using created [of "''b''"] w by (intro accepted) auto
  then show ?thesis using ledger_is_its_log [of w "[sample_tx]" "''f''"] w by auto
qed


end
