(* ===== verification/Tx_Fold.thy ===== *)
theory Tx_Fold
  imports Tx Ordered_Map
begin

text \<open>
  Folds over the tx ledger: dispatch generations (\<open>fold_dispatches\<close> of
  \<open>crates/orgasmic-core/src/tx.rs\<close>) and task claims (\<open>crates/orgasmic-core/src/claims.rs\<close>).
\<close>

section \<open>Dispatch generations\<close>

record dispatch_fold =
  df_started :: tx_entry
  df_run :: "tx_entry option"
  df_addressed_run_id :: "string option"
  df_run_ids :: "string list"
  df_closed_tasks :: "string list"
  df_cleanup_already_run :: bool
  df_reported :: bool
  df_closed :: bool

definition dispatch_new :: "tx_entry \<Rightarrow> dispatch_fold" where
  "dispatch_new e =
     \<lparr>df_started = e, df_run = None, df_addressed_run_id = None, df_run_ids = [],
      df_closed_tasks = [], df_cleanup_already_run = False, df_reported = False, df_closed = False\<rparr>"

definition attach_initial_run :: "tx_entry \<Rightarrow> dispatch_fold list \<Rightarrow> dispatch_fold list" where
  "attach_initial_run e ds =
     (let dispatch_tx = extra e ''DISPATCH_TX''; tasks = entry_tasks e; kind = extra e ''KIND''
      in update_last
           (\<lambda>d.
             (let started_tasks = entry_tasks (df_started d);
                  exact = (dispatch_tx = Some (tx_id (df_started d)));
                  legacy = (tasks \<noteq> [] \<and> (\<exists>t \<in> set tasks. t \<in> set started_tasks) \<and>
                    (case kind of None \<Rightarrow> True | Some k \<Rightarrow> extra (df_started d) ''KIND'' = Some k) \<and>
                    df_addressed_run_id d = None)
              in exact \<or> legacy))
           (\<lambda>d.
             (let d' = (case extra e ''RUN_ID'' of
                          None \<Rightarrow> d
                        | Some r \<Rightarrow> d\<lparr>df_run_ids := bs_insert r (df_run_ids d),
                                      df_addressed_run_id := Some r\<rparr>)
              in d'\<lparr>df_run := Some e\<rparr>))
           ds)"

fun start_pass :: "tx_entry list \<Rightarrow> dispatch_fold list \<Rightarrow> dispatch_fold list" where
  "start_pass [] ds = ds"
| "start_pass (e # es) ds =
     (if tx_ty e = ''manager.dispatch_started'' \<and> entry_tasks e \<noteq> [] \<and> extra e ''KIND'' \<noteq> None
      then start_pass es (ds @ [dispatch_new e])
      else if tx_ty e = ''run.created'' \<and> extra e ''ORIGIN'' = Some ''cli_dispatch''
      then start_pass es (attach_initial_run e ds)
      else start_pass es ds)"

text \<open>A recovery edge from one run to its replacement.\<close>

definition recovery_edge :: "tx_entry \<Rightarrow> (string \<times> string) option" where
  "recovery_edge e =
     (if tx_ty e \<noteq> ''run.created'' \<or> extra e ''ORIGIN'' \<noteq> Some ''recovery'' then None
      else
        (case (extra e ''ORIGIN_RUN_ID'', extra e ''RUN_ID'') of
           (Some origin, Some replacement) \<Rightarrow> Some (origin, replacement)
         | _ \<Rightarrow> None))"

text \<open>One round of the fixed-point loop, with its \<open>changed\<close> flag.\<close>

fun recovery_pass ::
  "tx_entry list \<Rightarrow> dispatch_fold list \<Rightarrow> bool \<Rightarrow> dispatch_fold list \<times> bool" where
  "recovery_pass [] ds changed = (ds, changed)"
| "recovery_pass (e # es) ds changed =
     (case recovery_edge e of
        None \<Rightarrow> recovery_pass es ds changed
      | Some (origin, replacement) \<Rightarrow>
          (case rposition (\<lambda>d. origin \<in> set (df_run_ids d)) ds of
             None \<Rightarrow> recovery_pass es ds changed
           | Some i \<Rightarrow>
               if replacement \<in> set (df_run_ids (ds ! i)) then recovery_pass es ds changed
               else recovery_pass es
                      (ds[i := (ds ! i)\<lparr>df_run_ids := bs_insert replacement (df_run_ids (ds ! i)),
                                        df_addressed_run_id := Some replacement\<rparr>]) True))"

partial_function (option) recovery_loop ::
  "tx_entry list \<Rightarrow> dispatch_fold list \<Rightarrow> dispatch_fold list option" where
  "recovery_loop es ds =
     (let (ds', changed) = recovery_pass es ds False
      in if changed then recovery_loop es ds' else Some ds')"

declare recovery_loop.simps [code]

definition mark_reported :: "tx_entry \<Rightarrow> dispatch_fold list \<Rightarrow> dispatch_fold list" where
  "mark_reported e ds =
     (case extra e ''RUN_ID'' of
        Some r \<Rightarrow>
          update_last (\<lambda>d. \<not> df_closed d \<and> r \<in> set (df_run_ids d)) (\<lambda>d. d\<lparr>df_reported := True\<rparr>) ds
      | None \<Rightarrow>
          update_last
            (\<lambda>d. \<not> df_closed d \<and> (\<exists>t \<in> set (entry_tasks e). t \<in> set (entry_tasks (df_started d))))
            (\<lambda>d. d\<lparr>df_reported := True\<rparr>) ds)"

definition close_index :: "tx_entry \<Rightarrow> dispatch_fold list \<Rightarrow> nat option" where
  "close_index e ds =
     (let by_tasks = rposition (\<lambda>d. \<not> df_closed d \<and>
            (\<exists>t \<in> set (entry_tasks e). t \<in> set (entry_tasks (df_started d)))) ds
      in case extra e ''CLOSED_TX'' of
           None \<Rightarrow> by_tasks
         | Some tx \<Rightarrow>
             (case rposition (\<lambda>d. tx_id (df_started d) = tx) ds of
                Some i \<Rightarrow> Some i
              | None \<Rightarrow> by_tasks))"

definition close_with :: "tx_entry \<Rightarrow> dispatch_fold \<Rightarrow> dispatch_fold" where
  "close_with e d =
     (let close_tasks = entry_tasks e;
          started_tasks = entry_tasks (df_started d);
          cleanup = (extra e ''CLEANUP_STATUS'' \<in> {Some ''ok'', Some ''worktree_missing''});
          added = (if close_tasks = [] then started_tasks
                   else filter (\<lambda>t. t \<in> set started_tasks) close_tasks);
          closed_tasks = fold bs_insert added (df_closed_tasks d)
      in d\<lparr>df_cleanup_already_run := df_cleanup_already_run d \<or> cleanup,
           df_closed_tasks := closed_tasks,
           df_closed := length started_tasks \<le> length closed_tasks\<rparr>)"

definition close_dispatch :: "tx_entry \<Rightarrow> dispatch_fold list \<Rightarrow> dispatch_fold list" where
  "close_dispatch e ds =
     (case close_index e ds of None \<Rightarrow> ds | Some i \<Rightarrow> ds[i := close_with e (ds ! i)])"

fun report_pass :: "tx_entry list \<Rightarrow> dispatch_fold list \<Rightarrow> dispatch_fold list" where
  "report_pass [] ds = ds"
| "report_pass (e # es) ds =
     (if tx_ty e \<in> {''implementer.reported'', ''reviewer.reported'', ''architector.reported''}
      then report_pass es (mark_reported e ds)
      else if tx_ty e \<in> {''implementer.done'', ''reviewer.done'', ''architector.done'',
                          ''manager.dispatch_aborted''}
      then report_pass es (close_dispatch e ds)
      else report_pass es ds)"

definition fold_dispatches :: "tx_entry list \<Rightarrow> dispatch_fold list option" where
  "fold_dispatches es = map_option (report_pass es) (recovery_loop es (start_pass es []))"

section \<open>The fixed point is reached\<close>

text \<open>Runs that recovery edges can still add, over all dispatches: it falls with every round that
  changes something.\<close>

definition replacements :: "tx_entry list \<Rightarrow> string set" where
  "replacements es = {r. \<exists>e \<in> set es. \<exists>origin. recovery_edge e = Some (origin, r)}"

definition missing :: "string set \<Rightarrow> dispatch_fold list \<Rightarrow> nat" where
  "missing R ds = sum_list (map (\<lambda>d. card (R - set (df_run_ids d))) ds)"

lemma finite_replacements [simp]: "finite (replacements es)"
proof -
  have "replacements es \<subseteq> (\<lambda>e. snd (the (recovery_edge e))) ` set es"
    by (force simp: replacements_def)
  then show ?thesis by (rule finite_subset) simp
qed

lemma sum_list_update_less:
  fixes f :: "'a \<Rightarrow> nat"
  shows "i < length xs \<Longrightarrow> f x < f (xs ! i) \<Longrightarrow>
     sum_list (map f (xs[i := x])) < sum_list (map f xs)"
proof (induction xs arbitrary: i)
  case (Cons y ys)
  then show ?case by (cases i) auto
qed simp

lemma recovery_pass_missing:
  assumes "finite R"
  shows "recovery_pass es ds c = (ds', c') \<Longrightarrow> replacements es \<subseteq> R \<Longrightarrow>
     (c \<longrightarrow> c') \<and> missing R ds' \<le> missing R ds \<and> (c' \<and> \<not> c \<longrightarrow> missing R ds' < missing R ds)"
proof (induction es ds c rule: recovery_pass.induct)
  case (2 e es ds c)
  have sub: "replacements es \<subseteq> R" using "2.prems"(2) by (auto simp: replacements_def)
  show ?case
  proof (cases "recovery_edge e")
    case None
    then show ?thesis using 2 sub by simp
  next
    case (Some edge)
    obtain origin r where edge: "edge = (origin, r)" by (cases edge)
    show ?thesis
    proof (cases "rposition (\<lambda>d. origin \<in> set (df_run_ids d)) ds")
      case None
      then show ?thesis using 2 sub Some edge by simp
    next
      case i: (Some i)
      let ?d = "(ds ! i)\<lparr>df_run_ids := bs_insert r (df_run_ids (ds ! i)), df_addressed_run_id := Some r\<rparr>"
      show ?thesis
      proof (cases "r \<in> set (df_run_ids (ds ! i))")
        case True
        then show ?thesis using 2 sub Some edge i by simp
      next
        case False
        have R: "r \<in> R" using "2.prems"(2) Some edge by (force simp: replacements_def)
        have "R - set (df_run_ids ?d) \<subset> R - set (df_run_ids (ds ! i))" using False R by auto
        then have "card (R - set (df_run_ids ?d)) < card (R - set (df_run_ids (ds ! i)))"
          using assms by (intro psubset_card_mono) auto
        then have "missing R (ds[i := ?d]) < missing R ds"
          unfolding missing_def using rposition_Some [OF i] by (intro sum_list_update_less) auto
        moreover have "recovery_pass es (ds[i := ?d]) True = (ds', c')"
          using "2.prems"(1) Some edge i False by simp
        ultimately show ?thesis using "2.IH"(4) [OF Some edge [symmetric] i False] sub by fastforce
      qed
    qed
  qed
qed simp

lemma recovery_loop_defined: "\<exists>ds'. recovery_loop es ds = Some ds'"
proof (induction "missing (replacements es) ds" arbitrary: ds rule: less_induct)
  case less
  obtain ds' c where p: "recovery_pass es ds False = (ds', c)" by fastforce
  show ?case
  proof (cases c)
    case True
    then have "missing (replacements es) ds' < missing (replacements es) ds"
      using recovery_pass_missing [OF finite_replacements p] by simp
    then show ?thesis using less p True by (simp add: recovery_loop.simps [of es ds])
  next
    case False
    then show ?thesis using p by (simp add: recovery_loop.simps [of es ds])
  qed
qed

text \<open>Claim C23. The recovery fixed point is always reached: whatever the ledger, with cycles and
  repeated edges among its recovery entries, \<open>fold_dispatches\<close> returns.\<close>

theorem fold_dispatches_returns: "\<exists>ds. fold_dispatches es = Some ds"
  using recovery_loop_defined by (simp add: fold_dispatches_def)

section \<open>What the fold says\<close>

lemma recovery_pass_changed: "recovery_pass es ds True = (ds', c) \<Longrightarrow> c"
  using recovery_pass_missing [OF finite_replacements, of es ds True ds' c] by blast

text \<open>A round that changes nothing has found every edge closed.\<close>

definition edge_closed :: "dispatch_fold list \<Rightarrow> string \<Rightarrow> string \<Rightarrow> bool" where
  "edge_closed ds origin r \<longleftrightarrow>
     (case rposition (\<lambda>d. origin \<in> set (df_run_ids d)) ds of
        None \<Rightarrow> True
      | Some i \<Rightarrow> r \<in> set (df_run_ids (ds ! i)))"

lemma recovery_pass_unchanged:
  "recovery_pass es ds False = (ds', False) \<Longrightarrow>
     ds' = ds \<and> (\<forall>e \<in> set es. \<forall>origin r. recovery_edge e = Some (origin, r) \<longrightarrow> edge_closed ds origin r)"
proof (induction es)
  case (Cons e es)
  show ?case
  proof (cases "recovery_edge e")
    case None
    then show ?thesis using Cons by simp
  next
    case (Some edge)
    obtain origin r where edge: "edge = (origin, r)" by (cases edge)
    show ?thesis
    proof (cases "rposition (\<lambda>d. origin \<in> set (df_run_ids d)) ds")
      case None
      then show ?thesis using Cons Some edge by (simp add: edge_closed_def)
    next
      case i: (Some i)
      then have "r \<in> set (df_run_ids (ds ! i))"
        using Cons.prems Some edge by (auto split: if_splits dest: recovery_pass_changed)
      then show ?thesis using Cons Some edge i by (simp add: edge_closed_def)
    qed
  qed
qed simp

lemma recovery_loop_result:
  "recovery_loop es ds = Some ds' \<Longrightarrow> e \<in> set es \<Longrightarrow> recovery_edge e = Some (origin, r) \<Longrightarrow>
     edge_closed ds' origin r"
proof (induction "missing (replacements es) ds" arbitrary: ds rule: less_induct)
  case less
  obtain ds1 c where p: "recovery_pass es ds False = (ds1, c)" by fastforce
  show ?case
  proof (cases c)
    case True
    then have "missing (replacements es) ds1 < missing (replacements es) ds"
      using recovery_pass_missing [OF finite_replacements p] by simp
    moreover have "recovery_loop es ds1 = Some ds'"
      using less.prems(1) p True by (simp add: recovery_loop.simps [of es ds])
    ultimately show ?thesis using less.hyps less.prems(2,3) by blast
  next
    case False
    then have "ds' = ds1" using less.prems(1) p by (simp add: recovery_loop.simps [of es ds])
    moreover have "recovery_pass es ds False = (ds1, False)" using p False by simp
    ultimately show ?thesis using recovery_pass_unchanged less.prems(2,3) by blast
  qed
qed

text \<open>Reports and closes leave the runs of every dispatch alone.\<close>

lemma update_last_map: "(\<And>x. g (f x) = g x) \<Longrightarrow> map g (update_last P f xs) = map g xs"
proof -
  assume g: "\<And>x. g (f x) = g x"
  have "map g (update_first P f ys) = map g ys" for ys by (induction ys) (auto simp: g)
  then show ?thesis by (metis rev_map rev_rev_ident update_last_def)
qed

lemma mark_reported_run_ids: "map df_run_ids (mark_reported e ds) = map df_run_ids ds"
  by (auto simp: mark_reported_def update_last_map split: option.split)

lemma close_dispatch_run_ids: "map df_run_ids (close_dispatch e ds) = map df_run_ids ds"
proof (cases "close_index e ds")
  case (Some i)
  have "df_run_ids (close_with e (ds ! i)) = df_run_ids (ds ! i)" by (simp add: close_with_def Let_def)
  then show ?thesis
    using Some by (simp add: close_dispatch_def map_update) (metis list_update_id map_update)
qed (simp add: close_dispatch_def)

lemma report_pass_run_ids: "map df_run_ids (report_pass es ds) = map df_run_ids ds"
  by (induction es ds rule: report_pass.induct)
    (simp_all add: mark_reported_run_ids close_dispatch_run_ids)

lemma rposition_cong_map:
  "map f xs = map f ys \<Longrightarrow> rposition (\<lambda>x. Q (f x)) xs = rposition (\<lambda>x. Q (f x)) ys"
proof -
  assume m: "map f xs = map f ys"
  then have len: "length xs = length ys" by (metis length_map)
  have "f (xs ! i) = f (ys ! i)" if "i < length ys" for i using m len that by (metis nth_map)
  then have "filter (\<lambda>i. Q (f (xs ! i))) [0..<length xs] = filter (\<lambda>i. Q (f (ys ! i))) [0..<length ys]"
    using len by (intro filter_cong) auto
  then show ?thesis by (simp add: rposition_def)
qed

lemma rposition_None: "rposition P xs = None \<Longrightarrow> x \<in> set xs \<Longrightarrow> \<not> P x"
  by (auto simp: rposition_def Let_def in_set_conv_nth filter_empty_conv split: if_splits)

text \<open>Claim C24. Recovery chains stay in one generation: for every recovery entry of the ledger,
  wherever it stands, if any dispatch of the fold has the run it recovers, then the last dispatch
  that has it has the replacement run too.\<close>

theorem recovery_chains_closed:
  assumes "fold_dispatches es = Some ds" "e \<in> set es" "recovery_edge e = Some (origin, r)"
    and "d \<in> set ds" "origin \<in> set (df_run_ids d)"
  shows "\<exists>i < length ds. rposition (\<lambda>d. origin \<in> set (df_run_ids d)) ds = Some i \<and>
      origin \<in> set (df_run_ids (ds ! i)) \<and> r \<in> set (df_run_ids (ds ! i))"
proof -
  obtain ds1 where ds1: "recovery_loop es (start_pass es []) = Some ds1" "ds = report_pass es ds1"
    using assms(1) by (auto simp: fold_dispatches_def)
  have same: "map df_run_ids ds = map df_run_ids ds1" using ds1(2) report_pass_run_ids by simp
  have pos: "rposition (\<lambda>d. origin \<in> set (df_run_ids d)) ds =
      rposition (\<lambda>d. origin \<in> set (df_run_ids d)) ds1"
    using rposition_cong_map [OF same, of "\<lambda>rs. origin \<in> set rs"] .
  obtain i where i: "rposition (\<lambda>d. origin \<in> set (df_run_ids d)) ds = Some i"
    using rposition_None [of "\<lambda>d. origin \<in> set (df_run_ids d)" ds d] assms(4,5) by fastforce
  have "r \<in> set (df_run_ids (ds1 ! i))"
    using recovery_loop_result [OF ds1(1) assms(2,3)] i pos by (simp add: edge_closed_def)
  moreover have "df_run_ids (ds1 ! i) = df_run_ids (ds ! i)"
    using same rposition_Some [OF i] by (metis length_map nth_map)
  ultimately show ?thesis using i rposition_Some [OF i] by auto
qed

text \<open>The bookkeeping of closed tasks.\<close>

definition df_inv :: "dispatch_fold \<Rightarrow> bool" where
  "df_inv d \<longleftrightarrow>
     sorted_wrt (<) (df_closed_tasks d) \<and>
     set (df_closed_tasks d) \<subseteq> set (entry_tasks (df_started d)) \<and>
     (df_closed d \<longrightarrow> set (df_closed_tasks d) = set (entry_tasks (df_started d)))"

lemma fold_bs_insert:
  "sorted_wrt (<) ys \<Longrightarrow> sorted_wrt (<) (fold bs_insert xs ys) \<and> set (fold bs_insert xs ys) = set xs \<union> set ys"
  by (induction xs arbitrary: ys) (auto simp: bs_insert_sorted)

lemma close_with_inv: "df_inv d \<Longrightarrow> df_inv (close_with e d)"
proof -
  assume d: "df_inv d"
  let ?st = "entry_tasks (df_started d)"
  let ?added = "if entry_tasks e = [] then ?st else filter (\<lambda>t. t \<in> set ?st) (entry_tasks e)"
  let ?cl = "fold bs_insert ?added (df_closed_tasks d)"
  have cl: "sorted_wrt (<) ?cl" "set ?cl \<subseteq> set ?st"
    using d fold_bs_insert [of "df_closed_tasks d" ?added] by (auto simp: df_inv_def split: if_splits)
  have "set ?cl = set ?st" if "length ?st \<le> length ?cl"
  proof -
    have "distinct ?cl" using cl(1) strict_sorted_iff by blast
    then have "card (set ?st) \<le> card (set ?cl)"
      using that card_length [of ?st] by (simp add: distinct_card)
    then show ?thesis using cl(2) by (intro card_seteq) auto
  qed
  then show ?thesis using cl by (simp add: df_inv_def close_with_def Let_def)
qed

definition dfs_inv :: "dispatch_fold list \<Rightarrow> bool" where
  "dfs_inv ds \<longleftrightarrow> list_all df_inv ds"

lemma dfs_inv_update:
  "dfs_inv ds \<Longrightarrow> (\<And>d. df_inv d \<Longrightarrow> df_inv (f d)) \<Longrightarrow> dfs_inv (update_last P f ds)"
  using update_last_all [of ds df_inv P f] by (simp add: dfs_inv_def list_all_iff)

lemma dfs_inv_nth_update: "dfs_inv ds \<Longrightarrow> df_inv d \<Longrightarrow> dfs_inv (ds[i := d])"
  using set_update_subset_insert [of ds i d] by (auto simp: dfs_inv_def list_all_iff)

lemma mark_reported_inv: "dfs_inv ds \<Longrightarrow> dfs_inv (mark_reported e ds)"
  by (cases "extra e ''RUN_ID''") (auto simp: mark_reported_def df_inv_def intro: dfs_inv_update)

lemma attach_initial_run_inv: "dfs_inv ds \<Longrightarrow> dfs_inv (attach_initial_run e ds)"
  unfolding attach_initial_run_def Let_def
  by (cases "extra e ''RUN_ID''") (auto simp: df_inv_def intro: dfs_inv_update)

lemma close_dispatch_inv: "dfs_inv ds \<Longrightarrow> dfs_inv (close_dispatch e ds)"
proof (cases "close_index e ds")
  case (Some i)
  assume inv: "dfs_inv ds"
  have "i < length ds"
    using Some rposition_Some unfolding close_index_def Let_def
    by (auto split: option.splits)
  then have "df_inv (ds ! i)" using inv by (simp add: dfs_inv_def list_all_length)
  then show ?thesis
    using Some inv close_with_inv by (simp add: close_dispatch_def dfs_inv_nth_update)
qed (simp add: close_dispatch_def)

lemma start_pass_inv: "dfs_inv ds \<Longrightarrow> dfs_inv (start_pass es ds)"
proof (induction es ds rule: start_pass.induct)
  case (2 e es ds)
  have "dfs_inv (ds @ [dispatch_new e])"
    using "2.prems" by (simp add: dfs_inv_def df_inv_def dispatch_new_def)
  then show ?case using 2 attach_initial_run_inv by simp
qed simp

lemma recovery_pass_inv: "recovery_pass es ds c = (ds', c') \<Longrightarrow> dfs_inv ds \<Longrightarrow> dfs_inv ds'"
proof (induction es arbitrary: ds c)
  case (Cons e es)
  show ?case
  proof (cases "recovery_edge e")
    case None
    then show ?thesis using Cons by simp
  next
    case (Some edge)
    obtain origin r where edge: "edge = (origin, r)" by (cases edge)
    show ?thesis
    proof (cases "rposition (\<lambda>d. origin \<in> set (df_run_ids d)) ds")
      case None
      then show ?thesis using Cons Some edge by simp
    next
      case i: (Some i)
      have "df_inv (ds ! i)"
        using rposition_Some [OF i] Cons.prems(2) by (simp add: dfs_inv_def list_all_length)
      then have "dfs_inv (ds[i := (ds ! i)\<lparr>df_run_ids := rs, df_addressed_run_id := a\<rparr>])" for rs a
        using Cons.prems(2) by (intro dfs_inv_nth_update) (auto simp: df_inv_def)
      then show ?thesis using Cons Some edge i by (auto split: if_splits)
    qed
  qed
qed simp

lemma recovery_loop_inv: "recovery_loop es ds = Some ds' \<Longrightarrow> dfs_inv ds \<Longrightarrow> dfs_inv ds'"
proof (induction "missing (replacements es) ds" arbitrary: ds rule: less_induct)
  case less
  obtain ds1 c where p: "recovery_pass es ds False = (ds1, c)" by fastforce
  note inv = recovery_pass_inv [OF p less.prems(2)]
  show ?case
  proof (cases c)
    case True
    then have "missing (replacements es) ds1 < missing (replacements es) ds"
      using recovery_pass_missing [OF finite_replacements p] by simp
    then show ?thesis
      using less.hyps [OF _ _ inv] less.prems(1) p True by (simp add: recovery_loop.simps [of es ds])
  next
    case False
    then show ?thesis using less.prems(1) p inv by (simp add: recovery_loop.simps [of es ds])
  qed
qed

lemma report_pass_inv: "dfs_inv ds \<Longrightarrow> dfs_inv (report_pass es ds)"
  by (induction es ds rule: report_pass.induct) (simp_all add: mark_reported_inv close_dispatch_inv)

text \<open>A dispatch is reported closed only when every task it started was closed, and no
  close entry ever counts a task the dispatch did not start.\<close>

theorem closed_dispatch_closed_all_tasks:
  assumes "fold_dispatches es = Some ds" "d \<in> set ds"
  shows "set (df_closed_tasks d) \<subseteq> set (entry_tasks (df_started d)) \<and>
    (df_closed d \<longrightarrow> set (df_closed_tasks d) = set (entry_tasks (df_started d)))"
proof -
  obtain ds1 where ds1: "recovery_loop es (start_pass es []) = Some ds1" "ds = report_pass es ds1"
    using assms(1) by (auto simp: fold_dispatches_def)
  have "dfs_inv []" by (simp add: dfs_inv_def)
  then have "dfs_inv ds"
    using report_pass_inv recovery_loop_inv [OF ds1(1)] start_pass_inv ds1(2) by blast
  then show ?thesis using assms(2) by (auto simp: dfs_inv_def list_all_iff df_inv_def)
qed

section \<open>Witnesses\<close>

text \<open>A dispatch, its first run, a recovery of it listed before the run it recovers, and its close.\<close>

definition sample_txs :: "tx_entry list" where
  "sample_txs =
    [(tx_new ''t1'' ''manager.dispatch_started'' [] [] [])
       \<lparr>tx_task := Some ''T-A'', tx_extra := [(''KIND'', ''impl'')]\<rparr>,
     (tx_new ''t2'' ''run.created'' [] [] [])
       \<lparr>tx_extra := [(''ORIGIN'', ''recovery''), (''ORIGIN_RUN_ID'', ''r2''), (''RUN_ID'', ''r3'')]\<rparr>,
     (tx_new ''t3'' ''run.created'' [] [] [])
       \<lparr>tx_extra := [(''ORIGIN'', ''recovery''), (''ORIGIN_RUN_ID'', ''r1''), (''RUN_ID'', ''r2'')]\<rparr>,
     (tx_new ''t4'' ''run.created'' [] [] [])
       \<lparr>tx_extra := [(''ORIGIN'', ''cli_dispatch''), (''DISPATCH_TX'', ''t1''), (''RUN_ID'', ''r1'')]\<rparr>,
     (tx_new ''t5'' ''implementer.done'' [] [] [])\<lparr>tx_task := Some ''T-A''\<rparr>]"

lemma sample_fold:
  obtains ds d where "fold_dispatches sample_txs = Some ds" "ds = [d]"
    "df_run_ids d = [''r1'', ''r2'', ''r3'']" "df_closed d" "df_closed_tasks d = [''T-A'']"
proof -
  have 1: "start_pass sample_txs [] =
      [(dispatch_new (sample_txs ! 0))\<lparr>df_run := Some (sample_txs ! 3),
         df_run_ids := [''r1''], df_addressed_run_id := Some ''r1''\<rparr>]" (is "_ = [?d]")
    by code_simp
  have 2: "recovery_pass sample_txs [?d] False =
      ([?d\<lparr>df_run_ids := [''r1'', ''r2''], df_addressed_run_id := Some ''r2''\<rparr>], True)"
    (is "_ = ([?e], True)") by code_simp
  have 3: "recovery_pass sample_txs [?e] False =
      ([?e\<lparr>df_run_ids := [''r1'', ''r2'', ''r3''], df_addressed_run_id := Some ''r3''\<rparr>], True)"
    (is "_ = ([?f], True)") by code_simp
  have 4: "recovery_pass sample_txs [?f] False = ([?f], False)" by code_simp
  have loop: "recovery_loop sample_txs [?d] = Some [?f]"
    using 2 3 4 by (simp add: recovery_loop.simps [of sample_txs])
  have 5: "map df_run_ids (report_pass sample_txs [?f]) = [[''r1'', ''r2'', ''r3'']] \<and>
      map df_closed (report_pass sample_txs [?f]) = [True] \<and>
      map df_closed_tasks (report_pass sample_txs [?f]) = [[''T-A'']]"
    by code_simp
  then obtain d where d: "report_pass sample_txs [?f] = [d]" by (cases "report_pass sample_txs [?f]") auto
  show thesis
    using that [of "[d]" d] d 1 loop 5 by (simp add: fold_dispatches_def)
qed

theorem recovery_chains_closed_witness:
  "\<exists>ds. fold_dispatches sample_txs = Some ds \<and>
     (\<exists>i < length ds. ''r2'' \<in> set (df_run_ids (ds ! i)) \<and> ''r3'' \<in> set (df_run_ids (ds ! i)))"
proof -
  obtain ds d where ds: "fold_dispatches sample_txs = Some ds" "ds = [d]"
    "df_run_ids d = [''r1'', ''r2'', ''r3'']"
    by (rule sample_fold) blast
  have "sample_txs ! 1 \<in> set sample_txs" by (simp add: sample_txs_def)
  moreover have "recovery_edge (sample_txs ! 1) = Some (''r2'', ''r3'')" by code_simp
  ultimately show ?thesis
    using recovery_chains_closed [OF ds(1), of "sample_txs ! 1" "''r2''" "''r3''" d] ds by auto
qed

theorem closed_dispatch_closed_all_tasks_witness:
  "\<exists>ds d. fold_dispatches sample_txs = Some ds \<and> d \<in> set ds \<and> df_closed d \<and>
     set (df_closed_tasks d) = set (entry_tasks (df_started d))"
proof -
  obtain ds d where ds: "fold_dispatches sample_txs = Some ds" "ds = [d]" "df_closed d"
    by (rule sample_fold) blast
  then show ?thesis using closed_dispatch_closed_all_tasks [OF ds(1), of d] by auto
qed

text \<open>A start entry that names the same task twice can never be closed: the members of a set are
  counted against the words of the entry.\<close>

theorem repeated_task_never_closes:
  "(case fold_dispatches
      [(tx_new ''t1'' ''manager.dispatch_started'' [] [] [])
         \<lparr>tx_task := Some ''T-A T-A'', tx_extra := [(''KIND'', ''impl'')]\<rparr>,
       (tx_new ''t5'' ''implementer.done'' [] [] [])\<lparr>tx_task := Some ''T-A T-A''\<rparr>] of
      None \<Rightarrow> False
    | Some ds \<Rightarrow> map df_closed_tasks ds = [[''T-A'']] \<and> map df_closed ds = [False])"
  by code_simp

end
