(* ===== verification/Claims.thy ===== *)
theory Claims
  imports Tx Ordered_Map "HOL-Library.Multiset"
begin

text \<open>
  Task claims, \<open>crates/orgasmic-core/src/claims.rs\<close>: every machine appends its claims and
  releases to its own log, and \<open>fold_claims\<close> decides from all of them who holds a task. Reading
  the logs from the machines directory is left to the caller (\<open>read_claims\<close> is file I/O around
  \<open>parse_tx_file\<close> and this fold); its check that a log names its own machine is
  \<open>foreign_event\<close>.
\<close>

definition CLAIMED :: string where
  "CLAIMED = ''task.claimed''"

definition RELEASED :: string where
  "RELEASED = ''task.claim_released''"

record task_claim =
  tc_task :: string
  tc_holder :: string
  tc_claimed_at :: string
  tc_write_scope :: "string option"
  tc_contenders :: "string list"

text \<open>The key both sorts use: time, then machine, then tx id.\<close>

definition claim_order :: "tx_entry \<Rightarrow> string \<times> string \<times> string" where
  "claim_order e = (tx_time e, tx_machine e, tx_id e)"

definition is_claim_event :: "tx_entry \<Rightarrow> bool" where
  "is_claim_event e \<longleftrightarrow> (tx_ty e = CLAIMED \<or> tx_ty e = RELEASED) \<and> tx_task e \<noteq> None"

definition claim_key :: "tx_entry \<Rightarrow> string \<times> string" where
  "claim_key e = (the (tx_task e), tx_machine e)"

definition apply_claim ::
  "tx_entry \<Rightarrow> ((string \<times> string) \<times> tx_entry) list \<Rightarrow> ((string \<times> string) \<times> tx_entry) list" where
  "apply_claim e active =
     (if tx_ty e = CLAIMED then bt_insert (claim_key e) e active else bt_remove (claim_key e) active)"

definition sorted_events :: "tx_entry list \<Rightarrow> tx_entry list" where
  "sorted_events entries = sort_key claim_order (filter is_claim_event entries)"

definition active_claims :: "tx_entry list \<Rightarrow> ((string \<times> string) \<times> tx_entry) list" where
  "active_claims entries = fold apply_claim (sorted_events entries) []"

definition claims_by_task ::
  "((string \<times> string) \<times> tx_entry) list \<Rightarrow> (string \<times> tx_entry list) list" where
  "claims_by_task active = fold (\<lambda>((task, _), e). bt_push task e) active []"

definition settle_claim :: "string \<Rightarrow> tx_entry list \<Rightarrow> task_claim" where
  "settle_claim task claims0 =
     (let claims = sort_key claim_order claims0;
          winner = claims ! 0;
          scope = (case extra winner ''WRITE_SCOPE'' of
                     Some v \<Rightarrow> if v = [] then None else Some v
                   | None \<Rightarrow> None)
      in \<lparr>tc_task = task, tc_holder = tx_machine winner, tc_claimed_at = tx_time winner,
          tc_write_scope = scope, tc_contenders = map tx_machine claims\<rparr>)"

definition fold_claims :: "tx_entry list \<Rightarrow> (string \<times> task_claim) list" where
  "fold_claims entries =
     map (\<lambda>(task, claims). (task, settle_claim task claims))
       (claims_by_task (active_claims entries))"

text \<open>The check of \<open>read_claims\<close> on one parsed log.\<close>

definition foreign_event :: "string \<Rightarrow> tx_entry list \<Rightarrow> tx_entry option" where
  "foreign_event machine_id parsed = find (\<lambda>e. tx_machine e \<noteq> machine_id) parsed"

section \<open>The order of the logs does not matter\<close>

text \<open>Claim C21. The fold does not depend on the order in which logs and directories are read: any
  two arrangements of the same events, no two of which share time, machine and tx id, give the same
  claims.\<close>

theorem fold_claims_order_independent:
  assumes "mset es = mset es'" "inj_on claim_order (set (filter is_claim_event es))"
  shows "fold_claims es = fold_claims es'"
proof -
  have m: "mset (filter is_claim_event es) = mset (filter is_claim_event es')"
    using assms(1) by (metis mset_filter)
  let ?C = "filter is_claim_event es" and ?D = "filter is_claim_event es'"
  have same: "filter (\<lambda>x. claim_order x = k) ?C = filter (\<lambda>x. claim_order x = k) ?D" for k
  proof -
    let ?A = "filter (\<lambda>x. claim_order x = k) ?C" and ?B = "filter (\<lambda>x. claim_order x = k) ?D"
    have mAB: "mset ?A = mset ?B" using m by (metis mset_filter)
    show ?thesis
    proof (cases ?A)
      case Nil
      then show ?thesis using mAB by simp
    next
      case (Cons y ys)
      then have y: "y \<in> set ?A" by simp
      have all: "\<forall>z \<in> set ?A. z = y"
      proof
        fix z assume "z \<in> set ?A"
        then show "z = y" using y assms(2) by (auto dest: inj_onD)
      qed
      then have "?A = replicate (length ?A) y" by (metis replicate_length_same)
      moreover have "?B = replicate (length ?B) y"
        using all mAB by (metis mset_eq_setD replicate_length_same)
      moreover have "length ?A = length ?B" using mAB by (metis size_mset)
      ultimately show ?thesis by metis
    qed
  qed
  have "sort_key claim_order ?C = sort_key claim_order ?D"
  proof (rule properties_for_sort_key)
    show "mset (sort_key claim_order ?D) = mset ?C" using m by simp
    show "filter (\<lambda>x. claim_order k = claim_order x) (sort_key claim_order ?D) =
        filter (\<lambda>x. claim_order k = claim_order x) ?C" for k
      using same [of "claim_order k"] sort_key_stable [of claim_order "claim_order k" ?D]
      by (simp add: eq_commute [of "claim_order k"])
    show "sorted (map claim_order (sort_key claim_order ?D))" by simp
  qed
  then show ?thesis by (simp add: fold_claims_def active_claims_def sorted_events_def)
qed


theorem fold_claims_order_independent_witness:
  "fold_claims
     [(tx_new ''t1'' CLAIMED ''1'' ''a'' ''m1'')\<lparr>tx_task := Some ''T''\<rparr>,
      (tx_new ''t2'' CLAIMED ''0'' ''b'' ''m2'')\<lparr>tx_task := Some ''T''\<rparr>] =
   fold_claims
     [(tx_new ''t2'' CLAIMED ''0'' ''b'' ''m2'')\<lparr>tx_task := Some ''T''\<rparr>,
      (tx_new ''t1'' CLAIMED ''1'' ''a'' ''m1'')\<lparr>tx_task := Some ''T''\<rparr>]"
  by (rule fold_claims_order_independent)
    (simp_all add: tx_new_def is_claim_event_def claim_order_def CLAIMED_def)

section \<open>Who holds a task\<close>

text \<open>The last event, in claim order, of one machine about one task.\<close>

definition last_event :: "tx_entry list \<Rightarrow> string \<times> string \<Rightarrow> tx_entry option" where
  "last_event es k =
     (let ev = filter (\<lambda>e. claim_key e = k) (sorted_events es) in if ev = [] then None else Some (last ev))"

lemma active_claims_fold:
  "bt_ok (fold apply_claim evs []) \<and>
   bt_get (fold apply_claim evs []) k =
     (let ev = filter (\<lambda>e. claim_key e = k) evs
      in if ev \<noteq> [] \<and> tx_ty (last ev) = CLAIMED then Some (last ev) else None)"
proof (induction evs rule: rev_induct)
  case (snoc e evs)
  then show ?case
    by (auto simp: apply_claim_def bt_ok_insert bt_ok_remove bt_get_insert bt_get_remove Let_def)
qed simp

lemma active_claims_ok: "bt_ok (active_claims es)"
  using active_claims_fold by (simp add: active_claims_def)

lemma active_claims_get:
  "bt_get (active_claims es) k =
     (case last_event es k of
        Some e \<Rightarrow> if tx_ty e = CLAIMED then Some e else None
      | None \<Rightarrow> None)"
  using active_claims_fold [of "sorted_events es" k]
  by (auto simp: active_claims_def last_event_def Let_def)

lemma claims_by_task_fold:
  "bt_ok m \<Longrightarrow> bt_ok (fold (\<lambda>((task, _), e). bt_push task e) act m) \<and>
   bt_get (fold (\<lambda>((task, _), e). bt_push task e) act m) t =
     (let new = map snd (filter (\<lambda>((task, _), _). task = t) act)
      in if new = [] then bt_get m t
         else Some ((case bt_get m t of None \<Rightarrow> [] | Some xs \<Rightarrow> xs) @ new))"
proof (induction act arbitrary: m)
  case (Cons a act)
  obtain task mach e where a: "a = ((task, mach), e)" by (metis surj_pair)
  have "bt_ok (bt_push task e m)" using Cons.prems by (rule bt_ok_push)
  from Cons.IH [OF this] show ?case by (auto simp: a bt_get_push Let_def)
qed simp

lemma claims_by_task_ok: "bt_ok (claims_by_task act)"
  using claims_by_task_fold [of "[]" act] by (simp add: claims_by_task_def)

lemma claims_by_task_get:
  "bt_get (claims_by_task act) t =
     (let new = map snd (filter (\<lambda>((task, _), _). task = t) act) in if new = [] then None else Some new)"
  using claims_by_task_fold [of "[]" act t] by (simp add: claims_by_task_def Let_def)

lemma fold_claims_get:
  "bt_get (fold_claims es) t =
     map_option (settle_claim t) (bt_get (claims_by_task (active_claims es)) t)"
proof -
  have "map_of (map (\<lambda>(k, v). (k, f k v)) m) t = map_option (f t) (map_of m t)"
    for f :: "string \<Rightarrow> tx_entry list \<Rightarrow> task_claim" and m
    by (induction m) auto
  then show ?thesis by (simp add: fold_claims_def)
qed

text \<open>An entry's machine and task are its key: keys of active claims come from their entries.\<close>

lemma last_event_key: "last_event es k = Some e \<Longrightarrow> claim_key e = k"
proof -
  assume "last_event es k = Some e"
  then have "e \<in> set (filter (\<lambda>e. claim_key e = k) (sorted_events es))"
    by (auto simp: last_event_def Let_def split: if_splits dest: last_in_set)
  then show ?thesis by simp
qed

lemma active_claims_member:
  "(k, e) \<in> set (active_claims es) \<longleftrightarrow> last_event es k = Some e \<and> tx_ty e = CLAIMED"
  unfolding bt.entries_get [OF active_claims_ok] active_claims_get
  by (auto split: option.splits if_splits)

text \<open>Claim C22. Who holds what: a task appears in the fold exactly when the last event of some
  machine about it is a claim; the contenders are exactly these machines; and the holder is the one
  whose claim comes first in claim order (time, then machine, then tx id), at that claim's time and
  with that claim's \<open>WRITE_SCOPE\<close> as its scope (none when it is missing or empty).\<close>

theorem fold_claims_holder:
  "case bt_get (fold_claims es) task of
     None \<Rightarrow> \<not> (\<exists>m e. last_event es (task, m) = Some e \<and> tx_ty e = CLAIMED)
   | Some c \<Rightarrow>
       set (tc_contenders c) = {m. \<exists>e. last_event es (task, m) = Some e \<and> tx_ty e = CLAIMED} \<and>
       tc_task c = task \<and>
       (\<exists>e. last_event es (task, tc_holder c) = Some e \<and> tx_ty e = CLAIMED \<and>
          tc_claimed_at c = tx_time e \<and>
          tc_write_scope c =
            (case extra e ''WRITE_SCOPE'' of Some v \<Rightarrow> if v = [] then None else Some v | None \<Rightarrow> None) \<and>
          {x. (\<exists>m. last_event es (task, m) = Some x) \<and> tx_ty x = CLAIMED \<and>
              claim_order x < claim_order e} = {})"
proof -
  let ?act = "active_claims es"
  let ?new = "map snd (filter (\<lambda>((t, _), _). t = task) ?act)"
  have new: "e \<in> set ?new \<longleftrightarrow> last_event es (task, tx_machine e) = Some e \<and> tx_ty e = CLAIMED" for e
  proof
    assume "e \<in> set ?new"
    then obtain m where "((task, m), e) \<in> set ?act" by auto
    then have "last_event es (task, m) = Some e" "tx_ty e = CLAIMED" using active_claims_member by auto
    moreover from this have "m = tx_machine e" using last_event_key by (fastforce simp: claim_key_def)
    ultimately show "last_event es (task, tx_machine e) = Some e \<and> tx_ty e = CLAIMED" by simp
  next
    assume "last_event es (task, tx_machine e) = Some e \<and> tx_ty e = CLAIMED"
    then have "((task, tx_machine e), e) \<in> set ?act" using active_claims_member by auto
    then show "e \<in> set ?new" by force
  qed
  have key: "last_event es (task, m) = Some e \<Longrightarrow> tx_machine e = m" for m e
    using last_event_key by (fastforce simp: claim_key_def)
  show ?thesis
  proof (cases "?new = []")
    case True
    then have "bt_get (fold_claims es) task = None"
      by (simp add: fold_claims_get claims_by_task_get)
    moreover have "\<not> (last_event es (task, m) = Some e \<and> tx_ty e = CLAIMED)" for m e
      using new [of e] True key by fastforce
    ultimately show ?thesis by auto
  next
    case False
    let ?sorted = "sort_key claim_order ?new"
    have c: "bt_get (fold_claims es) task = Some (settle_claim task ?new)"
      using False by (simp add: fold_claims_get claims_by_task_get Let_def)
    obtain w ws where w: "?sorted = w # ws"
      using False by (cases ?sorted) (metis set_empty set_sort, blast)
    have win: "w \<in> set ?new" using w by (metis list.set_intros(1) set_sort)
    have "sorted (map claim_order ?sorted)" by simp
    then have min: "\<forall>x \<in> set ?new. claim_order w \<le> claim_order x"
      using w by (metis (no_types, lifting) list.set_map list.simps(9) order_refl set_ConsD set_sort
          sorted_simps(2) image_eqI)
    have "set (tc_contenders (settle_claim task ?new)) = tx_machine ` set ?new"
      by (simp add: settle_claim_def Let_def)
    also have "\<dots> = {m. \<exists>e. last_event es (task, m) = Some e \<and> tx_ty e = CLAIMED}"
    proof (intro set_eqI iffI)
      fix m assume "m \<in> tx_machine ` set ?new"
      then obtain e where "e \<in> set ?new" "m = tx_machine e" by blast
      then show "m \<in> {m. \<exists>e. last_event es (task, m) = Some e \<and> tx_ty e = CLAIMED}"
        using new [of e] by blast
    next
      fix m assume "m \<in> {m. \<exists>e. last_event es (task, m) = Some e \<and> tx_ty e = CLAIMED}"
      then obtain e where e: "last_event es (task, m) = Some e" "tx_ty e = CLAIMED" by blast
      then have "e \<in> set ?new" using new [of e] key by simp
      then show "m \<in> tx_machine ` set ?new" using key [OF e(1)] by force
    qed
    finally have 1: "set (tc_contenders (settle_claim task ?new)) =
        {m. \<exists>e. last_event es (task, m) = Some e \<and> tx_ty e = CLAIMED}" .
    have 2: "tc_holder (settle_claim task ?new) = tx_machine w"
      "tc_claimed_at (settle_claim task ?new) = tx_time w" "tc_task (settle_claim task ?new) = task"
      "tc_write_scope (settle_claim task ?new) =
        (case extra w ''WRITE_SCOPE'' of Some v \<Rightarrow> if v = [] then None else Some v | None \<Rightarrow> None)"
      using w by (simp_all add: settle_claim_def Let_def)
    have 3: "{x. (\<exists>m. last_event es (task, m) = Some x) \<and> tx_ty x = CLAIMED \<and>
        claim_order x < claim_order w} = {}"
      using min new key by (fastforce simp: not_less)
    show ?thesis unfolding c using 1 2 3 new [of w] win by auto
  qed
qed

end
