(* ===== verification/Codecs.thy ===== *)
theory Codecs
  imports Prelude
begin

text \<open>
  Two interfaces that several components share: a codec between a finite vocabulary and its names,
  and a chain of layers each of which may only narrow a permission.
\<close>

section \<open>Names\<close>

text \<open>\<open>dec\<close> reads a name up to a normal form; every value is read back from its own name.\<close>

locale name_codec =
  fixes enc :: "'a \<Rightarrow> string" and dec :: "string \<Rightarrow> 'a option" and norm :: "string \<Rightarrow> string"
  assumes dec_iff: "dec s = Some x \<longleftrightarrow> norm s = enc x"
    and norm_enc: "norm (enc x) = enc x"
begin

lemma dec_enc: "dec (enc x) = Some x"
  by (simp add: dec_iff norm_enc)

lemma enc_inject: "enc x = enc y \<longleftrightarrow> x = y"
  using dec_enc by (metis option.inject)

lemma dec_norm: "norm (norm s) = norm s \<Longrightarrow> dec (norm s) = dec s"
  using dec_iff by (metis option.exhaust)

lemma dec_None: "dec s = None \<longleftrightarrow> norm s \<notin> range enc"
  using dec_iff by (metis (no_types, opaque_lifting) option.distinct(1) option.exhaust range_eqI rangeE)

end

section \<open>Narrowing layers\<close>

locale narrowing =
  fixes narrow :: "'p \<Rightarrow> 's \<Rightarrow> 's" and le :: "'s \<Rightarrow> 's \<Rightarrow> bool"
  assumes le_refl: "le s s"
    and le_trans: "le s t \<Longrightarrow> le t u \<Longrightarrow> le s u"
    and narrow_le: "le (narrow p s) s"
    and narrow_mono: "le s t \<Longrightarrow> le (narrow p s) (narrow p t)"
begin

definition layers :: "'p list \<Rightarrow> 's \<Rightarrow> 's" where
  "layers ps s = fold narrow ps s"

lemma layers_simps [simp]: "layers [] s = s" "layers (p # ps) s = layers ps (narrow p s)"
  by (simp_all add: layers_def)

lemma layers_mono: "le s t \<Longrightarrow> le (layers ps s) (layers ps t)"
  by (induction ps arbitrary: s t) (auto intro: narrow_mono)

lemma layers_le: "le (layers ps s) s"
  by (induction ps arbitrary: s) (auto intro: le_refl le_trans narrow_le)

text \<open>Taking a layer out of a chain can only widen the outcome.\<close>

lemma layers_drop: "le (layers (ps @ p # qs) s) (layers (ps @ qs) s)"
  by (simp add: layers_def) (metis layers_def layers_mono narrow_le)

text \<open>Whatever a layer decides on its own bounds the outcome.\<close>

lemma layers_member: "p \<in> set ps \<Longrightarrow> \<exists>t. le (layers ps s) (narrow p t) \<and> le t s"
proof (induction ps arbitrary: s)
  case (Cons q ps)
  show ?case
  proof (cases "p = q")
    case True
    then show ?thesis using layers_le [of ps "narrow p s"] le_refl by auto
  next
    case False
    then obtain t where "le (layers ps (narrow q s)) (narrow p t)" "le t (narrow q s)"
      using Cons by auto
    then show ?thesis using le_trans narrow_le by auto
  qed
qed simp

end

end
