(* ===== verification/Authz.thy ===== *)
theory Authz
  imports Rust_Str Codecs
begin

text \<open>
  The authorization seam of the daemon, \<open>crates/orgasmic-daemon/src/authz.rs\<close>: actions, roles,
  identities, \<open>require\<close>, project visibility and the event filter, with the topics and payloads
  of \<open>events.rs\<close> it looks at.
\<close>

section \<open>Actions\<close>

datatype action =
    ProjectRead | GraphRead | TasksRead | TasksComment | SessionsWatch | SessionsInteract
  | ArtifactsRead | ArtifactsComment | ArtifactsGenerate | OrgWrite | NodesWrite
  | LinksRead | LinksWrite | AttachmentsRead | AttachmentsWrite | ChatRead | ChatWrite
  | ChatExecute | MembersManage

definition ALL_ACTIONS :: "action list" where
  "ALL_ACTIONS =
    [ProjectRead, GraphRead, TasksRead, TasksComment, SessionsWatch, SessionsInteract,
     ArtifactsRead, ArtifactsComment, ArtifactsGenerate, OrgWrite, NodesWrite, LinksRead,
     LinksWrite, AttachmentsRead, AttachmentsWrite, ChatRead, ChatWrite, ChatExecute,
     MembersManage]"

fun action_name :: "action \<Rightarrow> string" where
  "action_name ProjectRead = ''project.read''"
| "action_name GraphRead = ''graph.read''"
| "action_name TasksRead = ''tasks.read''"
| "action_name TasksComment = ''tasks.comment''"
| "action_name SessionsWatch = ''sessions.watch''"
| "action_name SessionsInteract = ''sessions.interact''"
| "action_name ArtifactsRead = ''artifacts.read''"
| "action_name ArtifactsComment = ''artifacts.comment''"
| "action_name ArtifactsGenerate = ''artifacts.generate''"
| "action_name OrgWrite = ''org.write''"
| "action_name NodesWrite = ''nodes.write''"
| "action_name LinksRead = ''links.read''"
| "action_name LinksWrite = ''links.write''"
| "action_name AttachmentsRead = ''attachments.read''"
| "action_name AttachmentsWrite = ''attachments.write''"
| "action_name ChatRead = ''chat.read''"
| "action_name ChatWrite = ''chat.write''"
| "action_name ChatExecute = ''chat.execute''"
| "action_name MembersManage = ''members.manage''"

definition action_from_name :: "string \<Rightarrow> action option" where
  "action_from_name name = find (\<lambda>a. action_name a = name) ALL_ACTIONS"

lemma ALL_ACTIONS_complete: "a \<in> set ALL_ACTIONS"
  by (cases a) (simp_all add: ALL_ACTIONS_def)

lemma action_names_distinct: "distinct (map action_name ALL_ACTIONS)"
  by code_simp

lemma action_name_inject: "action_name a = action_name b \<longleftrightarrow> a = b"
  using action_names_distinct ALL_ACTIONS_complete by (metis distinct_map inj_on_def)

interpretation action: name_codec action_name action_from_name "\<lambda>s. s"
proof unfold_locales
  fix s x
  show "action_from_name s = Some x \<longleftrightarrow> s = action_name x"
  proof
    assume "action_from_name s = Some x"
    then show "s = action_name x" by (auto simp: action_from_name_def dest: find_SomeD)
  next
    assume "s = action_name x"
    moreover obtain y where "action_from_name (action_name x) = Some y"
      using ALL_ACTIONS_complete [of x]
      by (cases "find (\<lambda>a. action_name a = action_name x) ALL_ACTIONS")
        (auto simp: action_from_name_def find_None_iff)
    ultimately show "action_from_name s = Some x"
      by (auto simp: action_from_name_def action_name_inject dest: find_SomeD)
  qed
qed simp

text \<open>\<open>{action:?}\<close>, as refusals print it.\<close>

fun action_debug :: "action \<Rightarrow> string" where
  "action_debug ProjectRead = ''ProjectRead''"
| "action_debug GraphRead = ''GraphRead''"
| "action_debug TasksRead = ''TasksRead''"
| "action_debug TasksComment = ''TasksComment''"
| "action_debug SessionsWatch = ''SessionsWatch''"
| "action_debug SessionsInteract = ''SessionsInteract''"
| "action_debug ArtifactsRead = ''ArtifactsRead''"
| "action_debug ArtifactsComment = ''ArtifactsComment''"
| "action_debug ArtifactsGenerate = ''ArtifactsGenerate''"
| "action_debug OrgWrite = ''OrgWrite''"
| "action_debug NodesWrite = ''NodesWrite''"
| "action_debug LinksRead = ''LinksRead''"
| "action_debug LinksWrite = ''LinksWrite''"
| "action_debug AttachmentsRead = ''AttachmentsRead''"
| "action_debug AttachmentsWrite = ''AttachmentsWrite''"
| "action_debug ChatRead = ''ChatRead''"
| "action_debug ChatWrite = ''ChatWrite''"
| "action_debug ChatExecute = ''ChatExecute''"
| "action_debug MembersManage = ''MembersManage''"

section \<open>Roles and identities\<close>

definition role_capabilities :: "string \<Rightarrow> action list" where
  "role_capabilities role =
     (if role = ''viewer'' then
        [LinksRead, AttachmentsRead, ProjectRead, GraphRead, TasksRead, TasksComment,
         SessionsWatch, ArtifactsRead, ArtifactsComment, ChatRead]
      else if role = ''editor'' then
        [LinksRead, LinksWrite, AttachmentsRead, AttachmentsWrite, NodesWrite, ProjectRead,
         GraphRead, TasksRead, TasksComment, SessionsWatch, ArtifactsRead, ArtifactsComment,
         ArtifactsGenerate, ChatRead, ChatWrite]
      else if role = ''artifacts'' then
        [ProjectRead, ArtifactsRead, ArtifactsComment, LinksRead, AttachmentsRead]
      else [])"

datatype identity =
    Admin
  | Plugin (pl_id: string) (pl_project: string) (pl_capabilities: "string list") (pl_caller: identity)
  | Member (mb_name: string) (mb_grants: "(string \<times> string) list") (mb_actions: "string list")

fun member_name :: "identity \<Rightarrow> string option" where
  "member_name Admin = None"
| "member_name (Member name grants actions) = Some name"
| "member_name (Plugin i project caps caller) = Some (''plugin:'' @ i)"

definition grant_role :: "(string \<times> string) list \<Rightarrow> string \<Rightarrow> string option" where
  "grant_role grants project =
     map_option snd
       (case find (\<lambda>(p, _). p = project) grants of
          Some g \<Rightarrow> Some g
        | None \<Rightarrow> find (\<lambda>(p, _). p = ''*'') grants)"

fun role_for :: "identity \<Rightarrow> string \<Rightarrow> string option" where
  "role_for (Member name grants actions) project = grant_role grants project"
| "role_for _ project = None"

fun explicit_action :: "identity \<Rightarrow> action \<Rightarrow> bool" where
  "explicit_action (Member name grants actions) a \<longleftrightarrow> action_name a \<in> set actions"
| "explicit_action _ a \<longleftrightarrow> False"

section \<open>The seam\<close>

fun plugin_capability :: "action \<Rightarrow> string option" where
  "plugin_capability ProjectRead = Some ''nodes.read''"
| "plugin_capability GraphRead = Some ''nodes.read''"
| "plugin_capability TasksRead = Some ''nodes.read''"
| "plugin_capability ArtifactsRead = Some ''nodes.read''"
| "plugin_capability NodesWrite = Some ''nodes.write''"
| "plugin_capability LinksRead = Some ''links.read''"
| "plugin_capability LinksWrite = Some ''links.write''"
| "plugin_capability AttachmentsRead = Some ''attachments.read''"
| "plugin_capability AttachmentsWrite = Some ''attachments.write''"
| "plugin_capability ChatRead = Some ''chat.read''"
| "plugin_capability ChatWrite = Some ''chat.write''"
| "plugin_capability _ = None"

fun require :: "identity \<Rightarrow> string option \<Rightarrow> action \<Rightarrow> string + unit" where
  "require Admin project a = Inr ()"
| "require (Plugin i allowed capabilities caller) project a =
     (if project \<noteq> Some allowed then Inl ''plugin is scoped to another project''
      else
        (case plugin_capability a of
           None \<Rightarrow> Inl ''action is unavailable to plugin principals''
         | Some capability \<Rightarrow>
             if capability \<notin> set capabilities then Inl (''plugin lacks '' @ capability)
             else require caller project a))"
| "require (Member name grants actions) project a =
     (case project of
        None \<Rightarrow> Inl ''action requires a project''
      | Some p \<Rightarrow>
          (case role_for (Member name grants actions) p of
             None \<Rightarrow> Inl (''no grant for project '' @ p)
           | Some role \<Rightarrow>
               if a \<in> set (role_capabilities role) \<or> explicit_action (Member name grants actions) a
               then Inr ()
               else Inl (''role '' @ role @ '' lacks '' @ action_debug a)))"

fun visible_project_ids :: "identity \<Rightarrow> string list \<Rightarrow> string list" where
  "visible_project_ids Admin all = all"
| "visible_project_ids (Plugin i project caps caller) all = filter (\<lambda>p. p = project) all"
| "visible_project_ids (Member name grants actions) all =
     (let wildcard = (\<exists>g \<in> set grants. fst g = ''*'')
      in filter (\<lambda>p. wildcard \<or> (\<exists>g \<in> set grants. fst g = p)) all)"

section \<open>Events\<close>

datatype topic = BoardTopic | TaskTopic | RunTopic | ManagerTopic | GraphTopic | DaemonTopic
  | ArtifactTopic

definition ALL_TOPICS :: "topic list" where
  "ALL_TOPICS =
    [BoardTopic, TaskTopic, RunTopic, ManagerTopic, GraphTopic, DaemonTopic, ArtifactTopic]"

definition topic_parse :: "string \<Rightarrow> topic option" where
  "topic_parse s =
     (if s = ''board'' then Some BoardTopic
      else if s = ''task'' then Some TaskTopic
      else if s = ''run'' then Some RunTopic
      else if s = ''manager'' then Some ManagerTopic
      else if s = ''graph'' then Some GraphTopic
      else if s = ''daemon'' then Some DaemonTopic
      else if s = ''artifact'' then Some ArtifactTopic
      else None)"

datatype event_payload =
    BoardRefreshed
  | ProjectIndexed string
  | ProjectParseError "string option" string string
  | TaskUpdated string string
  | TxAppended "string option" string string
  | RunEvent string nat
  | RunLifecycle string string
  | ManagerNotice string
  | GraphChanged string
  | GraphNodeCreated string string string string
  | GraphNodeRevised string string string string string
  | StageRequested string string "string option" string string "string option"
  | StageCompleted string string string string string
  | StageFailed string string string string string
  | DaemonStarted string
  | DaemonRestartRequested
  | DaemonHeartbeat
  | ArtifactChanged string string string
  | ArtifactCommentAdded string string string

fun payload_project_id :: "event_payload \<Rightarrow> string option" where
  "payload_project_id (ProjectIndexed p) = Some p"
| "payload_project_id (TaskUpdated p _) = Some p"
| "payload_project_id (GraphNodeCreated p _ _ _) = Some p"
| "payload_project_id (GraphNodeRevised p _ _ _ _) = Some p"
| "payload_project_id (StageRequested _ p _ _ _ _) = Some p"
| "payload_project_id (StageCompleted _ p _ _ _) = Some p"
| "payload_project_id (StageFailed _ p _ _ _) = Some p"
| "payload_project_id (ArtifactChanged p _ _) = Some p"
| "payload_project_id (ArtifactCommentAdded p _ _) = Some p"
| "payload_project_id (ProjectParseError p _ _) = p"
| "payload_project_id (TxAppended p _ _) = p"
| "payload_project_id _ = None"

definition role_topics :: "string \<Rightarrow> topic set" where
  "role_topics role =
     (let caps = set (role_capabilities role)
      in (if ArtifactsRead \<in> caps then {ArtifactTopic} else {}) \<union>
         (if GraphRead \<in> caps then {GraphTopic, BoardTopic} else {}) \<union>
         (if TasksRead \<in> caps then {TaskTopic, BoardTopic} else {}))"

fun allowed_topics :: "identity \<Rightarrow> topic set" where
  "allowed_topics Admin = set ALL_TOPICS"
| "allowed_topics (Plugin i project caps caller) = {}"
| "allowed_topics (Member name grants actions) = \<Union> (set (map (\<lambda>g. role_topics (snd g)) grants))"

definition event_visible :: "identity \<Rightarrow> topic \<Rightarrow> event_payload \<Rightarrow> bool" where
  "event_visible i t payload \<longleftrightarrow>
     t \<in> allowed_topics i \<and>
     (case i of
        Admin \<Rightarrow> True
      | Plugin _ _ _ _ \<Rightarrow> False
      | Member _ grants _ \<Rightarrow>
          (case payload_project_id payload of
             None \<Rightarrow> True
           | Some p \<Rightarrow> (\<exists>g \<in> set grants. fst g = p \<or> fst g = ''*'')))"

section \<open>Properties\<close>

lemma require_plugin_iff:
  "is_ok (require (Plugin i pr caps caller) project a) \<longleftrightarrow>
     is_ok (require caller project a) \<and> project = Some pr \<and>
     (\<exists>capability. plugin_capability a = Some capability \<and> capability \<in> set caps)"
  by (auto split: option.split)

lemma require_member_iff:
  "is_ok (require (Member n grants actions) project a) \<longleftrightarrow>
     (\<exists>p role. project = Some p \<and> grant_role grants p = Some role \<and>
        (a \<in> set (role_capabilities role) \<or> action_name a \<in> set actions))"
  by (auto split: option.split)

text \<open>The identity a chain of plugins acts for.\<close>

fun principal :: "identity \<Rightarrow> identity" where
  "principal (Plugin i pr caps caller) = principal caller"
| "principal i = i"

text \<open>The scopes of the plugins on the way to it.\<close>

fun plugin_links :: "identity \<Rightarrow> (string \<times> string list) list" where
  "plugin_links (Plugin i pr caps caller) = (pr, caps) # plugin_links caller"
| "plugin_links i = []"

text \<open>A plugin never exceeds its caller: whatever chain of plugins acts for an identity,
  the call is allowed exactly when the identity at the end may make it, and every plugin on the way
  is scoped to this very project and holds the capability the action maps to.\<close>

theorem require_plugin_chain:
  "is_ok (require i project a) \<longleftrightarrow>
     is_ok (require (principal i) project a) \<and>
     list_all (\<lambda>(pr, caps). project = Some pr \<and>
         (case plugin_capability a of None \<Rightarrow> False | Some capability \<Rightarrow> capability \<in> set caps))
       (plugin_links i)"
proof (induction i)
  case (Plugin i pr caps caller)
  then show ?case using require_plugin_iff [of i pr caps caller project a] by (auto split: option.splits)
qed simp_all

lemma require_principal: "is_ok (require i project a) \<Longrightarrow> is_ok (require (principal i) project a)"
proof (induction i)
  case (Plugin i pr caps caller)
  then have "is_ok (require caller project a)"
    using require_plugin_iff [of i pr caps caller project a] by blast
  then show ?case using Plugin.IH by simp
qed simp_all

lemma grant_role_member:
  "grant_role grants p = Some role \<Longrightarrow> \<exists>g \<in> set grants. (fst g = p \<or> fst g = ''*'') \<and> snd g = role"
proof -
  assume "grant_role grants p = Some role"
  then obtain g where g: "snd g = role"
    "(case find (\<lambda>(q, _). q = p) grants of
        Some g \<Rightarrow> Some g
      | None \<Rightarrow> find (\<lambda>(q, _). q = ''*'') grants) = Some g"
    unfolding grant_role_def map_option_eq_Some by blast
  then have "g \<in> set grants \<and> (fst g = p \<or> fst g = ''*'')"
    by (auto split: option.splits dest: find_SomeD)
  then show ?thesis using g(1) by blast
qed

text \<open>No role carries the host's dangerous actions: unless the identity at the end of the
  chain is the admin, running an agent, steering a session, rewriting whole files and managing
  members are refused except to a member whose own action list names that action, and never to a
  plugin.\<close>

theorem dangerous_actions_need_explicit_grant:
  assumes "a \<in> {ChatExecute, SessionsInteract, OrgWrite, MembersManage}"
    and "is_ok (require i project a)"
  shows "i = Admin \<or>
    (\<exists>n grants actions p role. i = Member n grants actions \<and> action_name a \<in> set actions \<and>
       project = Some p \<and> grant_role grants p = Some role)"
proof (cases i)
  case (Plugin j pr caps caller)
  then show ?thesis using assms require_plugin_iff [of j pr caps caller project a] by auto
next
  case (Member n grants actions)
  have "a \<notin> set (role_capabilities role)" for role
    using assms(1) by (auto simp: role_capabilities_def)
  then show ?thesis using assms(2) Member require_member_iff [of n grants actions project a] by auto
qed simp

theorem dangerous_actions_need_explicit_grant_witness:
  "is_ok (require (Member ''kim'' [(''p'', ''editor'')] [''chat.execute'']) (Some ''p'') ChatExecute) \<and>
   ''chat.execute'' \<in> set [''chat.execute'']"
proof
  show ok: "is_ok (require (Member ''kim'' [(''p'', ''editor'')] [''chat.execute'']) (Some ''p'') ChatExecute)"
    by code_simp
  show "''chat.execute'' \<in> set [''chat.execute'']"
    using dangerous_actions_need_explicit_grant [OF _ ok] by auto
qed

text \<open>The actions that change something or act for the user.\<close>

definition write_actions :: "action list" where
  "write_actions =
     [SessionsInteract, ArtifactsGenerate, OrgWrite, NodesWrite, LinksWrite, AttachmentsWrite, ChatWrite,
      ChatExecute, MembersManage]"

lemma grant_role_precedence:
  "grant_role grants p = Some role \<Longrightarrow>
     (p, role) \<in> set grants \<or> (''*'', role) \<in> set grants \<and> (\<forall>r. (p, r) \<notin> set grants)"
  by (auto simp: grant_role_def find_None_iff split: option.splits dest!: find_SomeD)

lemma role_capabilities_bounds:
  "role_capabilities role \<noteq> [] \<Longrightarrow> role \<in> {''viewer'', ''editor'', ''artifacts''}"
  "role \<noteq> ''editor'' \<Longrightarrow> set (role_capabilities role) \<inter> set write_actions = {}"
  "set (role_capabilities role) \<inter> {ChatExecute, SessionsInteract, OrgWrite, MembersManage} = {}"
  by (auto simp: role_capabilities_def write_actions_def split: if_splits)

lemma principal_no_plugin: "principal i \<noteq> Plugin j q caps caller"
proof -
  have "principal i = Admin \<or> (\<exists>n gr ac. principal i = Member n gr ac)" by (induction i) auto
  then show ?thesis by auto
qed

text \<open>Claim C20. The seam fails closed. Whoever is let through, unless the identity at the end of the
  chain of plugins is the admin, is a member acting in a named project, and the member's grant that governs
  the project (the one for the project itself, the wildcard one only when there is none) gives a role that
  has the action, or else the member's own action list names it. In particular: a role that is none of
  viewer, editor and artifacts gives nothing, so the action list must name the action; a role other than
  editor gives no writing action; running an agent, steering a session, rewriting whole files and managing
  members need the action list under every role, and no plugin may do them. Every plugin on the way is
  scoped to this very project and holds the capability the action maps to, and the project is one the
  caller sees in its project list.\<close>

theorem require_fails_closed:
  assumes "is_ok (require i project a)" "principal i \<noteq> Admin"
  shows "\<exists>p n grants actions role. project = Some p \<and> principal i = Member n grants actions \<and>
    grant_role grants p = Some role \<and>
    ((p, role) \<in> set grants \<or> (''*'', role) \<in> set grants \<and> (\<forall>r. (p, r) \<notin> set grants)) \<and>
    (a \<in> set (role_capabilities role) \<or> action_name a \<in> set actions) \<and>
    (role \<notin> {''viewer'', ''editor'', ''artifacts''} \<longrightarrow> action_name a \<in> set actions) \<and>
    (role \<noteq> ''editor'' \<and> a \<in> set write_actions \<longrightarrow> action_name a \<in> set actions) \<and>
    (a \<in> {ChatExecute, SessionsInteract, OrgWrite, MembersManage} \<longrightarrow>
       action_name a \<in> set actions \<and> plugin_links i = []) \<and>
    (\<forall>(pr, caps) \<in> set (plugin_links i).
       pr = p \<and> (\<exists>c. plugin_capability a = Some c \<and> c \<in> set caps)) \<and>
    visible_project_ids i [p] = [p]"
proof -
  have pr: "is_ok (require (principal i) project a)" using require_principal assms(1) .
  obtain n grants actions where m: "principal i = Member n grants actions"
    using assms(2) principal_no_plugin by (cases "principal i") auto
  then obtain p role where p: "project = Some p" "grant_role grants p = Some role"
    and may: "a \<in> set (role_capabilities role) \<or> action_name a \<in> set actions"
    using pr require_member_iff [of n grants actions project a] by auto
  have links: "\<forall>(pr, caps) \<in> set (plugin_links i).
      pr = p \<and> (\<exists>c. plugin_capability a = Some c \<and> c \<in> set caps)"
    using require_plugin_chain [of i project a] assms(1) p(1)
    by (auto simp: list_all_iff split: option.splits)
  have "visible_project_ids i [p] = [p]"
  proof (cases i)
    case (Plugin j q caps caller)
    then show ?thesis using links by simp
  next
    case (Member n' gr ac)
    then have "\<exists>g \<in> set gr. fst g = p \<or> fst g = ''*''"
      using m grant_role_member [OF p(2)] by auto
    then show ?thesis using Member by (auto simp: Let_def)
  qed simp
  moreover have "plugin_links i = []" if "a \<in> {ChatExecute, SessionsInteract, OrgWrite, MembersManage}"
    using links that by (cases "plugin_links i") auto
  moreover have "action_name a \<in> set actions" if "a \<notin> set (role_capabilities role)"
    using may that by blast
  moreover have "a \<notin> set (role_capabilities role)"
    if "role \<notin> {''viewer'', ''editor'', ''artifacts''} \<or> role \<noteq> ''editor'' \<and> a \<in> set write_actions \<or>
      a \<in> {ChatExecute, SessionsInteract, OrgWrite, MembersManage}"
    using that role_capabilities_bounds [of role] by force
  ultimately show ?thesis
    using m p may links grant_role_precedence [OF p(2)] by blast
qed

theorem require_fails_closed_witness:
  "visible_project_ids (Plugin ''x'' ''p'' [''chat.read''] (Member ''kim'' [(''*'', ''viewer'')] [])) [''p''] =
    [''p''] \<and> ChatRead \<in> set (role_capabilities ''viewer'')"
proof -
  let ?i = "Plugin ''x'' ''p'' [''chat.read''] (Member ''kim'' [(''*'', ''viewer'')] [])"
  have "is_ok (require ?i (Some ''p'') ChatRead)" by code_simp
  from require_fails_closed [OF this] show ?thesis by auto
qed

lemma find_filter: "find P (filter P xs) = find P xs"
  by (induction xs) auto

lemma find_append: "find P (xs @ ys) = (case find P xs of Some z \<Rightarrow> Some z | None \<Rightarrow> find P ys)"
  by (induction xs) auto

text \<open>Grants are scoped and ranked: what a member may do in a project depends on its
  grants for that project and, after them, on its wildcard grants; grants for other projects and the
  order in which exact and wildcard grants are listed change nothing.\<close>

theorem grants_scoped_and_ranked:
  "require (Member n grants actions) (Some p) a =
   require (Member n (filter (\<lambda>g. fst g = p) grants @ filter (\<lambda>g. fst g = ''*'') grants) actions) (Some p) a"
proof -
  have f: "(\<lambda>(q, _). q = x) = (\<lambda>g :: string \<times> string. fst g = x)" for x by auto
  have none: "find (\<lambda>g. fst g = x) (filter (\<lambda>g. fst g = y) gs) = None" if "x \<noteq> y"
    for x y :: string and gs :: "(string \<times> string) list"
    using that by (auto simp: find_None_iff)
  have "grant_role (filter (\<lambda>g. fst g = p) grants @ filter (\<lambda>g. fst g = ''*'') grants) p =
      grant_role grants p"
    by (cases "p = ''*''")
      (auto simp: grant_role_def f find_append find_filter none split: option.split)
  then show ?thesis by (simp cong: option.case_cong)
qed

text \<open>The event filter is coarser than the seam: a member who may not read a project's tasks still
  receives its task events when a grant on another project makes the topic eligible.\<close>

theorem event_filter_exceeds_require:
  "event_visible (Member ''kim'' [(''a'', ''viewer''), (''b'', ''artifacts'')] []) TaskTopic
     (TaskUpdated ''b'' ''T-1'') \<and>
   \<not> is_ok (require (Member ''kim'' [(''a'', ''viewer''), (''b'', ''artifacts'')] []) (Some ''b'') TasksRead)"
  by code_simp

text \<open>What the filter does promise: an event that names a project reaches a member exactly
  when some grant is for that project (or the wildcard) and some role of the member makes the topic
  eligible; it never reaches a plugin, and the admin gets every event.\<close>

theorem event_visible_project:
  "(event_visible (Member n grants actions) t (TaskUpdated p task) \<longleftrightarrow>
      (\<exists>g \<in> set grants. fst g = p \<or> fst g = ''*'') \<and> (\<exists>g \<in> set grants. t \<in> role_topics (snd g))) \<and>
   \<not> event_visible (Plugin i q caps caller) t payload \<and> event_visible Admin t payload"
proof -
  have "t \<in> set ALL_TOPICS" by (cases t) (simp_all add: ALL_TOPICS_def)
  then show ?thesis by (auto simp: event_visible_def)
qed

end
