(* ===== verification/Sandbox.thy ===== *)
theory Sandbox
  imports Rust_Str Codecs
begin

text \<open>
  Sandbox permission allowlists, \<open>crates/orgasmic-core/src/sandbox.rs\<close>: the four switches, the
  parser of \<open>key=true|false\<close> lists and the least-privilege \<open>resolve\<close>.
\<close>

record sandbox_allowlist =
  allow_exec :: bool
  allow_patch :: bool
  allow_network :: bool
  allow_writes_outside_cwd :: bool

definition sandbox_default :: sandbox_allowlist where
  "sandbox_default =
     \<lparr>allow_exec = True, allow_patch = True, allow_network = True, allow_writes_outside_cwd = True\<rparr>"

datatype sandbox_error = UnknownKey string | InvalidBool string string | EmptyPermissions

definition narrow_to :: "sandbox_allowlist \<Rightarrow> sandbox_allowlist \<Rightarrow> sandbox_allowlist" where
  "narrow_to task base =
     \<lparr>allow_exec = allow_exec base \<and> allow_exec task,
      allow_patch = allow_patch base \<and> allow_patch task,
      allow_network = allow_network base \<and> allow_network task,
      allow_writes_outside_cwd = allow_writes_outside_cwd base \<and> allow_writes_outside_cwd task\<rparr>"

definition sandbox_resolve ::
  "sandbox_allowlist option \<Rightarrow> sandbox_allowlist option \<Rightarrow> sandbox_allowlist" where
  "sandbox_resolve task governance =
     (let base = (case governance of None \<Rightarrow> sandbox_default | Some g \<Rightarrow> g)
      in case task of None \<Rightarrow> base | Some t \<Rightarrow> narrow_to t base)"

definition bool_of_str :: "string \<Rightarrow> bool option" where
  "bool_of_str s = (if s = ''true'' then Some True else if s = ''false'' then Some False else None)"

definition set_permission ::
  "string \<Rightarrow> bool \<Rightarrow> sandbox_allowlist \<Rightarrow> sandbox_error + sandbox_allowlist" where
  "set_permission key v l =
     (if key = ''allow_exec'' then Inr (l\<lparr>allow_exec := v\<rparr>)
      else if key = ''allow_patch'' then Inr (l\<lparr>allow_patch := v\<rparr>)
      else if key = ''allow_network'' then Inr (l\<lparr>allow_network := v\<rparr>)
      else if key = ''allow_writes_outside_cwd'' then Inr (l\<lparr>allow_writes_outside_cwd := v\<rparr>)
      else Inl (UnknownKey key))"

fun csv_parts :: "string list \<Rightarrow> sandbox_allowlist \<Rightarrow> sandbox_error + sandbox_allowlist" where
  "csv_parts [] l = Inr l"
| "csv_parts (raw # parts) l =
     (let part = trim raw
      in if part = [] then csv_parts parts l
         else
           (case split_once (CHR ''='') part of
              None \<Rightarrow> Inl (UnknownKey part)
            | Some (k, v) \<Rightarrow>
                (let key = trim k; v = trim v
                 in case bool_of_str v of
                      None \<Rightarrow> Inl (InvalidBool key v)
                    | Some b \<Rightarrow> try_res (set_permission key b l) (csv_parts parts))))"

definition sandbox_from_csv :: "string \<Rightarrow> sandbox_error + sandbox_allowlist" where
  "sandbox_from_csv input =
     (let trimmed = trim input
      in if trimmed = [] then Inl EmptyPermissions
         else csv_parts (split_on (CHR '','') trimmed) sandbox_default)"

section \<open>Least privilege\<close>

definition sandbox_le :: "sandbox_allowlist \<Rightarrow> sandbox_allowlist \<Rightarrow> bool" where
  "sandbox_le a b \<longleftrightarrow>
     (allow_exec a \<longrightarrow> allow_exec b) \<and> (allow_patch a \<longrightarrow> allow_patch b) \<and>
     (allow_network a \<longrightarrow> allow_network b) \<and>
     (allow_writes_outside_cwd a \<longrightarrow> allow_writes_outside_cwd b)"

interpretation task_layer: narrowing narrow_to sandbox_le
  by unfold_locales (auto simp: sandbox_le_def narrow_to_def)

text \<open>A task can only restrict: what \<open>resolve\<close> grants is granted by the governance
  layer (or by the trust-all default when there is none) and by the task layer when there is one,
  and nothing that both grant is withheld.\<close>

theorem sandbox_resolve_meet:
  "sandbox_le s (sandbox_resolve task governance) \<longleftrightarrow>
     sandbox_le s (case governance of None \<Rightarrow> sandbox_default | Some g \<Rightarrow> g) \<and>
     (case task of None \<Rightarrow> True | Some t \<Rightarrow> sandbox_le s t)"
  by (auto simp: sandbox_resolve_def narrow_to_def sandbox_le_def Let_def split: option.splits)

lemma sandbox_resolve_le_governance:
  "sandbox_le (sandbox_resolve task (Some g)) g"
  using task_layer.narrow_le task_layer.le_refl by (simp add: sandbox_resolve_def split: option.split)

end
