(* ===== verification/Schema.thy ===== *)
theory Schema
  imports Org_Parser Ids Sandbox
begin

text \<open>
  Typed views of headings, \<open>crates/orgasmic-core/src/schema.rs\<close>: lifecycle stages, worker
  kinds, and the projections of project, task, decision, glossary, tx and skill headings.
\<close>

section \<open>Enums and their names\<close>

datatype lifecycle_stage = Backlog | Todo | InProgress | InReview | Done | Cancelled

fun stage_str :: "lifecycle_stage \<Rightarrow> string" where
  "stage_str Backlog = ''backlog''"
| "stage_str Todo = ''todo''"
| "stage_str InProgress = ''in_progress''"
| "stage_str InReview = ''in_review''"
| "stage_str Done = ''done''"
| "stage_str Cancelled = ''cancelled''"

fun todo_keyword :: "lifecycle_stage \<Rightarrow> string" where
  "todo_keyword Backlog = ''BACKLOG''"
| "todo_keyword Todo = ''TODO''"
| "todo_keyword InProgress = ''IN_PROGRESS''"
| "todo_keyword InReview = ''IN_REVIEW''"
| "todo_keyword Done = ''DONE''"
| "todo_keyword Cancelled = ''CANCELLED''"

definition stage_from_str :: "string \<Rightarrow> lifecycle_stage option" where
  "stage_from_str s0 =
     (let s = to_ascii_lowercase s0
      in if s = ''backlog'' then Some Backlog
         else if s = ''todo'' then Some Todo
         else if s = ''in_progress'' then Some InProgress
         else if s = ''in_review'' then Some InReview
         else if s = ''done'' then Some Done
         else if s = ''cancelled'' then Some Cancelled
         else None)"

text \<open>The derived order follows the declaration.\<close>

fun stage_rank :: "lifecycle_stage \<Rightarrow> nat" where
  "stage_rank Backlog = 0"
| "stage_rank Todo = 1"
| "stage_rank InProgress = 2"
| "stage_rank InReview = 3"
| "stage_rank Done = 4"
| "stage_rank Cancelled = 5"

lemma stage_rank_inject: "stage_rank a = stage_rank b \<longleftrightarrow> a = b"
  by (cases a; cases b) simp_all

instantiation lifecycle_stage :: linorder
begin

definition less_eq_lifecycle_stage :: "lifecycle_stage \<Rightarrow> lifecycle_stage \<Rightarrow> bool" where
  "less_eq_lifecycle_stage a b \<longleftrightarrow> stage_rank a \<le> stage_rank b"

definition less_lifecycle_stage :: "lifecycle_stage \<Rightarrow> lifecycle_stage \<Rightarrow> bool" where
  "less_lifecycle_stage a b \<longleftrightarrow> stage_rank a < stage_rank b"

instance
  by standard (auto simp: less_eq_lifecycle_stage_def less_lifecycle_stage_def stage_rank_inject)

end

datatype worker_kind =
    Implementer | Reviewer | Planner | Analyzer | Griller | Glossarist | Manager | Artifactor

fun kind_str :: "worker_kind \<Rightarrow> string" where
  "kind_str Implementer = ''implementer''"
| "kind_str Reviewer = ''reviewer''"
| "kind_str Planner = ''planner''"
| "kind_str Analyzer = ''analyzer''"
| "kind_str Griller = ''griller''"
| "kind_str Glossarist = ''glossarist''"
| "kind_str Manager = ''manager''"
| "kind_str Artifactor = ''artifactor''"

definition kind_from_str :: "string \<Rightarrow> worker_kind option" where
  "kind_from_str s =
     (if s = ''implementer'' then Some Implementer
      else if s = ''reviewer'' then Some Reviewer
      else if s = ''planner'' then Some Planner
      else if s = ''analyzer'' then Some Analyzer
      else if s = ''griller'' then Some Griller
      else if s = ''glossarist'' then Some Glossarist
      else if s = ''manager'' then Some Manager
      else if s = ''artifactor'' then Some Artifactor
      else None)"

datatype attachment_storage = Lfs | Local

lemma stage_str_lower: "to_ascii_lowercase (stage_str x) = stage_str x"
  by (induction x) code_simp+

interpretation stage: name_codec stage_str stage_from_str to_ascii_lowercase
proof unfold_locales
  show "stage_from_str s = Some x \<longleftrightarrow> to_ascii_lowercase s = stage_str x" for s x
    by (cases x) (auto simp: stage_from_str_def Let_def)
qed (rule stage_str_lower)

interpretation kind: name_codec kind_str kind_from_str "\<lambda>s. s"
proof unfold_locales
  show "kind_from_str s = Some x \<longleftrightarrow> s = kind_str x" for s x
    by (cases x) (auto simp: kind_from_str_def)
qed simp

section \<open>Errors and helpers\<close>

datatype schema_error =
    MissingProperty string string string
  | MissingSection string string
  | UnknownLifecycleStage string string string
  | MissingLifecycleStage string string
  | InvalidParentTask string string string
  | InvalidSandbox string string sandbox_error
  | InvalidParent string string parent_tree_error
  | UnknownAttachmentStorage string string string

definition required :: "heading \<Rightarrow> string \<Rightarrow> string \<Rightarrow> schema_error + string" where
  "required h key display = ok_or (MissingProperty display (h_title h) key) (property h key)"

definition normalize_optional_property :: "string option \<Rightarrow> string option" where
  "normalize_optional_property v =
     (case v of None \<Rightarrow> None | Some s \<Rightarrow> if trim s = [] then None else Some (trim s))"

definition section_body :: "org_file \<Rightarrow> heading \<Rightarrow> string \<Rightarrow> string option" where
  "section_body file h title = map_option (\<lambda>s. file_slice file (h_body s)) (section_of h title)"

definition tokenize :: "string option \<Rightarrow> string list" where
  "tokenize v = (case v of None \<Rightarrow> [] | Some s \<Rightarrow> split_whitespace s)"

text \<open>The title without its leading id token, when it has one.\<close>

definition title_without_id :: "string \<Rightarrow> heading \<Rightarrow> string" where
  "title_without_id i h =
     (case strip_prefix (h_title h) i of Some s \<Rightarrow> trim_start s | None \<Rightarrow> h_title h)"

section \<open>Views\<close>

record project_file =
  pf_id :: string
  pf_attachment_storage :: attachment_storage
  pf_mission :: "string option"
  pf_operating_constraints :: "string option"

definition project_from_org :: "org_file \<Rightarrow> string \<Rightarrow> schema_error + project_file" where
  "project_from_org file display =
     try_res (ok_or (MissingSection display ''PROJECT'') (find_by_title_prefix file ''PROJECT ''))
       (\<lambda>heading.
     try_res (required heading ''ID'' display) (\<lambda>i.
     try_res
       (case property heading ''ATTACHMENT_STORAGE'' of
          None \<Rightarrow> Inr Lfs
        | Some v \<Rightarrow>
            if v = ''lfs'' then Inr Lfs else if v = ''local'' then Inr Local
            else Inl (UnknownAttachmentStorage display i v)) (\<lambda>storage.
       Inr \<lparr>pf_id = i, pf_attachment_storage = storage,
            pf_mission = section_body file heading ''Mission'',
            pf_operating_constraints = section_body file heading ''Operating Constraints''\<rparr>)))"

record task_heading =
  th_id :: string
  th_title :: string
  th_todo :: "string option"
  th_tags :: "string list"
  th_lifecycle_stage :: lifecycle_stage
  th_parent_task :: "string option"
  th_priority :: "string option"
  th_provider :: "string option"
  th_model :: "string option"
  th_reasoning_effort :: "string option"
  th_write_scope :: "string list"
  th_read_scope :: "string list"
  th_produces :: "string list"
  th_implements :: "string list"
  th_depends_on :: "string list"
  th_blocked_by :: "string list"
  th_test_cmd :: "string option"
  th_verify_artifact :: "string option"
  th_sandbox_permissions :: "sandbox_allowlist option"
  th_description :: "string option"
  th_acceptance :: "string option"
  th_evidence :: "string option"
  th_worklog :: "string option"

definition checked_parent_task :: "string \<Rightarrow> string \<Rightarrow> schema_error + string option" where
  "checked_parent_task i display =
     (case derive_task_parent_id i of
        None \<Rightarrow> Inr None
      | Some p \<Rightarrow>
          if is_valid_task_path_id p then Inr (Some p) else Inl (InvalidParentTask display i p))"

definition parsed_sandbox :: "heading \<Rightarrow> string \<Rightarrow> string \<Rightarrow> schema_error + sandbox_allowlist option" where
  "parsed_sandbox h i display =
     (case property h ''SANDBOX_PERMISSIONS'' of
        None \<Rightarrow> Inr None
      | Some v \<Rightarrow>
          (case sandbox_from_csv v of
             Inl e \<Rightarrow> Inl (InvalidSandbox display i e)
           | Inr l \<Rightarrow> Inr (Some l)))"

definition task_from_heading :: "org_file \<Rightarrow> heading \<Rightarrow> string \<Rightarrow> schema_error + task_heading" where
  "task_from_heading file h display =
     try_res (required h ''ID'' display) (\<lambda>i.
     try_res (ok_or (MissingLifecycleStage display i) (h_todo h)) (\<lambda>todo.
     try_res (ok_or (UnknownLifecycleStage display i todo) (stage_from_str todo)) (\<lambda>stage.
     try_res (checked_parent_task i display) (\<lambda>parent_task.
     try_res (parsed_sandbox h i display) (\<lambda>sandbox.
       Inr \<lparr>th_id = i, th_title = title_without_id i h, th_todo = h_todo h, th_tags = h_tags h,
            th_lifecycle_stage = stage, th_parent_task = parent_task,
            th_priority = property h ''PRIORITY'',
            th_provider = normalize_optional_property (property h ''PROVIDER''),
            th_model = normalize_optional_property (property h ''MODEL''),
            th_reasoning_effort = normalize_optional_property (property h ''REASONING_EFFORT''),
            th_write_scope = tokenize (property h ''WRITE_SCOPE''),
            th_read_scope = tokenize (property h ''READ_SCOPE''),
            th_produces = tokenize (property h ''PRODUCES''),
            th_implements = tokenize (property h ''IMPLEMENTS''),
            th_depends_on = tokenize (property h ''DEPENDS_ON''),
            th_blocked_by = tokenize (property h ''BLOCKED_BY''),
            th_test_cmd = property h ''TEST_CMD'',
            th_verify_artifact = normalize_optional_property (property h ''VERIFY_ARTIFACT''),
            th_sandbox_permissions = sandbox,
            th_description = section_body file h ''Description'',
            th_acceptance = section_body file h ''Acceptance Criteria'',
            th_evidence = section_body file h ''Evidence'',
            th_worklog = section_body file h ''Worklog''\<rparr>)))))"

record decision_node =
  dn_id :: string
  dn_title :: string
  dn_tags :: "string list"
  dn_parent :: "string option"
  dn_glossary_refs :: "string list"
  dn_decided_at :: "string option"
  dn_source :: "string option"
  dn_context :: "string option"
  dn_decision :: "string option"
  dn_consequences :: "string option"

definition decision_from_heading ::
  "org_file \<Rightarrow> heading \<Rightarrow> string \<Rightarrow> schema_error + decision_node" where
  "decision_from_heading file h display =
     try_res (required h ''ID'' display) (\<lambda>i.
     try_res
       (case parse_parent_value DecisionClass i (property h ''PARENT'') of
          Inl e \<Rightarrow> Inl (InvalidParent display i e) | Inr p \<Rightarrow> Inr p) (\<lambda>parent.
       Inr \<lparr>dn_id = i, dn_title = title_without_id i h, dn_tags = h_tags h, dn_parent = parent,
            dn_glossary_refs = tokenize (property h ''GLOSSARY_REFS''),
            dn_decided_at = property h ''DECIDED_AT'', dn_source = property h ''SOURCE'',
            dn_context = section_body file h ''Context'',
            dn_decision = section_body file h ''Decision'',
            dn_consequences = section_body file h ''Consequences''\<rparr>))"

record glossary_term =
  gt_id :: string
  gt_canonical :: "string option"
  gt_avoid :: "string option"
  gt_relates_to :: "string list"
  gt_definition :: "string option"
  gt_decided_at :: "string option"

definition glossary_from_heading :: "heading \<Rightarrow> string \<Rightarrow> schema_error + glossary_term" where
  "glossary_from_heading h display =
     try_res (required h ''ID'' display) (\<lambda>i.
       Inr \<lparr>gt_id = i, gt_canonical = property h ''CANONICAL'', gt_avoid = property h ''AVOID'',
            gt_relates_to = tokenize (property h ''RELATES_TO''),
            gt_definition = property h ''DEFINITION'', gt_decided_at = property h ''DECIDED_AT''\<rparr>)"

record tx_heading_view =
  tv_tx_id :: string
  tv_time :: string
  tv_ty :: string
  tv_actor :: string
  tv_machine :: string
  tv_project :: "string option"
  tv_task :: "string option"
  tv_target :: "string option"
  tv_reason :: "string option"
  tv_extras :: "(string \<times> string) list"

definition TX_VIEW_KNOWN :: "string list" where
  "TX_VIEW_KNOWN =
    [''TX_ID'', ''TIME'', ''TYPE'', ''ACTOR'', ''MACHINE'', ''PROJECT'', ''TASK'', ''TARGET'',
     ''REASON'']"

definition tx_view_from_heading :: "heading \<Rightarrow> string \<Rightarrow> schema_error + tx_heading_view" where
  "tx_view_from_heading h display =
     try_res (required h ''TX_ID'' display) (\<lambda>i.
     try_res (required h ''TIME'' display) (\<lambda>time.
     try_res (required h ''TYPE'' display) (\<lambda>ty.
     try_res (required h ''ACTOR'' display) (\<lambda>actor.
     try_res (required h ''MACHINE'' display) (\<lambda>machine.
       Inr \<lparr>tv_tx_id = i, tv_time = time, tv_ty = ty, tv_actor = actor, tv_machine = machine,
            tv_project = property h ''PROJECT'', tv_task = property h ''TASK'',
            tv_target = property h ''TARGET'', tv_reason = property h ''REASON'',
            tv_extras = map (\<lambda>e. (pe_key e, pe_value e))
              (filter (\<lambda>e. pe_key e \<notin> set TX_VIEW_KNOWN) (property_entries h))\<rparr>)))))"

record skill_metadata =
  sm_id :: string
  sm_title :: string
  sm_description :: "string option"
  sm_triggers :: "string list"
  sm_absolute_path :: "string option"

definition skill_from_heading :: "heading \<Rightarrow> string \<Rightarrow> schema_error + skill_metadata" where
  "skill_from_heading h display =
     try_res (required h ''ID'' display) (\<lambda>i.
       Inr \<lparr>sm_id = i, sm_title = h_title h, sm_description = property h ''DESCRIPTION'',
            sm_triggers = tokenize (property h ''TRIGGERS''),
            sm_absolute_path = property h ''ABSOLUTE_PATH''\<rparr>)"

section \<open>Properties\<close>

lemma todo_keyword_reads: "stage_from_str (todo_keyword x) = Some x"
  by (induction x) code_simp+

text \<open>A heading becomes a task exactly when it has an id, its TODO keyword names a
  lifecycle stage in any letter case, the parent its dotted id names is a valid task path, and its
  sandbox list, when it has one, parses.\<close>

theorem task_from_heading_accepts_iff:
  "is_ok (task_from_heading file h display) \<longleftrightarrow>
     (\<exists>i todo. property h ''ID'' = Some i \<and> h_todo h = Some todo \<and>
        to_ascii_lowercase todo \<in> range stage_str \<and>
        (case derive_task_parent_id i of None \<Rightarrow> True | Some p \<Rightarrow> is_valid_task_path_id p) \<and>
        (case property h ''SANDBOX_PERMISSIONS'' of
           None \<Rightarrow> True
         | Some v \<Rightarrow> is_ok (sandbox_from_csv v)))"
proof -
  have s: "stage_from_str w = Some x \<longleftrightarrow> to_ascii_lowercase w = stage_str x" for w x
    by (rule stage.dec_iff)
  have p: "(\<exists>r. checked_parent_task i display = Inr r) \<longleftrightarrow>
      (case derive_task_parent_id i of None \<Rightarrow> True | Some p \<Rightarrow> is_valid_task_path_id p)" for i
    by (simp add: checked_parent_task_def split: option.split)
  have b: "(\<exists>r. parsed_sandbox h i display = Inr r) \<longleftrightarrow>
      (case property h ''SANDBOX_PERMISSIONS'' of None \<Rightarrow> True | Some v \<Rightarrow> is_ok (sandbox_from_csv v))" for i
    by (auto simp: parsed_sandbox_def is_ok_iff split: option.split sum.split)
  show ?thesis
    unfolding task_from_heading_def is_ok_try_res
    by (simp add: required_def s p b image_iff)
qed

text \<open>Lifecycle names survive letter case: the keyword written on a heading and the name
  used in prose both read back as their stage, and a name reads as a stage only if it spells it.\<close>

theorem lifecycle_names_round_trip:
  "stage_from_str (todo_keyword x) = Some x \<and> stage_from_str (stage_str x) = Some x \<and>
   is_todo_keyword (todo_keyword x) \<and>
   (stage_from_str s = Some x \<longleftrightarrow> to_ascii_lowercase s = to_ascii_lowercase (todo_keyword x))"
proof -
  have "to_ascii_lowercase (todo_keyword x) = stage_str x" by (induction x) code_simp+
  moreover have "is_todo_keyword (todo_keyword x)" by (induction x) code_simp+
  ultimately show ?thesis using todo_keyword_reads stage.dec_enc stage.dec_iff by simp
qed

end
