(* ===== verification/Governance.thy ===== *)
theory Governance
  imports Schema Ordered_Map "HOL-Library.Word"
begin

text \<open>
  Governance defaults and overlays, \<open>crates/orgasmic-daemon/src/governance.rs\<close>: the values of a
  run's limits, states, skills and sandbox switches, resolved from the defaults of the worker kind
  and up to three sparse patches. The \<open>u32\<close> values are words of 32 bits.
\<close>

type_synonym u32 = "32 word"

definition DEFAULT_STALL_TIMEOUT_SECS :: u32 where
  "DEFAULT_STALL_TIMEOUT_SECS = 600"

definition DEFAULT_MAX_RUN_DURATION_SECS :: u32 where
  "DEFAULT_MAX_RUN_DURATION_SECS = 14400"

definition BASE_STATES :: "string list" where
  "BASE_STATES = [''working'', ''done'', ''blocked'', ''cancelled'']"

definition REVIEWER_STATES :: "string list" where
  "REVIEWER_STATES =
    [''working'', ''done'', ''blocked'', ''cancelled'', ''approved'', ''requested_changes'']"

section \<open>Values and patches\<close>

record governance_defaults =
  gd_max_iterations :: "u32 option"
  gd_context_budget_chars :: "u32 option"
  gd_stall_timeout_secs :: "u32 option"
  gd_max_run_duration_secs :: "u32 option"
  gd_applicable_states :: "string list"
  gd_linked_skills :: "string list"
  gd_sandbox_permissions :: "sandbox_allowlist option"

record sandbox_permissions_patch =
  sp_allow_exec :: "bool option"
  sp_allow_patch :: "bool option"
  sp_allow_network :: "bool option"
  sp_allow_writes_outside_cwd :: "bool option"

record governance_patch =
  gp_max_iterations :: "u32 option"
  gp_context_budget_chars :: "u32 option"
  gp_stall_timeout_secs :: "u32 option"
  gp_max_run_duration_secs :: "u32 option"
  gp_applicable_states :: "string list option"
  gp_linked_skills :: "string list option"
  gp_sandbox_permissions :: "sandbox_permissions_patch option"

text \<open>The raw map a patch is deserialized from, with the retired token budget beside the new one.\<close>

record raw_patch =
  raw_max_iterations :: "u32 option"
  raw_context_budget :: "u32 option"
  raw_context_budget_chars :: "u32 option"
  raw_stall_timeout_secs :: "u32 option"
  raw_max_run_duration_secs :: "u32 option"
  raw_applicable_states :: "string list option"
  raw_linked_skills :: "string list option"
  raw_sandbox_permissions :: "sandbox_permissions_patch option"

definition checked_mul :: "u32 \<Rightarrow> u32 \<Rightarrow> u32 option" where
  "checked_mul a b = (if unat a * unat b < 2 ^ 32 then Some (a * b) else None)"

datatype patch_error = BothBudgets | BudgetOverflow

definition migrated_budget :: "u32 option \<Rightarrow> u32 option \<Rightarrow> patch_error + u32 option" where
  "migrated_budget tokens characters =
     (case (tokens, characters) of
        (Some _, Some _) \<Rightarrow> Inl BothBudgets
      | (Some t, None) \<Rightarrow> (case checked_mul t 4 of None \<Rightarrow> Inl BudgetOverflow | Some c \<Rightarrow> Inr (Some c))
      | (None, c) \<Rightarrow> Inr c)"

definition patch_of_raw :: "raw_patch \<Rightarrow> patch_error + governance_patch" where
  "patch_of_raw raw =
     try_res (migrated_budget (raw_context_budget raw) (raw_context_budget_chars raw)) (\<lambda>chars.
       Inr \<lparr>gp_max_iterations = raw_max_iterations raw, gp_context_budget_chars = chars,
            gp_stall_timeout_secs = raw_stall_timeout_secs raw,
            gp_max_run_duration_secs = raw_max_run_duration_secs raw,
            gp_applicable_states = raw_applicable_states raw,
            gp_linked_skills = raw_linked_skills raw,
            gp_sandbox_permissions = raw_sandbox_permissions raw\<rparr>)"

definition and_opt :: "bool option \<Rightarrow> bool \<Rightarrow> bool" where
  "and_opt v b = (case v of None \<Rightarrow> b | Some x \<Rightarrow> b \<and> x)"

definition merge_into :: "sandbox_permissions_patch \<Rightarrow> sandbox_allowlist \<Rightarrow> sandbox_allowlist" where
  "merge_into p l =
     \<lparr>allow_exec = and_opt (sp_allow_exec p) (allow_exec l),
      allow_patch = and_opt (sp_allow_patch p) (allow_patch l),
      allow_network = and_opt (sp_allow_network p) (allow_network l),
      allow_writes_outside_cwd =
        and_opt (sp_allow_writes_outside_cwd p) (allow_writes_outside_cwd l)\<rparr>"

section \<open>Keys and overlays\<close>

type_synonym governance_overlay = "(string \<times> governance_patch) list"

definition kind_harness_key :: "worker_kind \<Rightarrow> string \<Rightarrow> string" where
  "kind_harness_key k harness = kind_str k @ '','' @ trim harness"

definition for_kind :: "governance_overlay \<Rightarrow> worker_kind \<Rightarrow> governance_patch option" where
  "for_kind overlay k = bt_get overlay (kind_str k)"

definition for_kind_harness ::
  "governance_overlay \<Rightarrow> worker_kind \<Rightarrow> string \<Rightarrow> governance_patch option" where
  "for_kind_harness overlay k harness = bt_get overlay (kind_harness_key k harness)"

datatype key_error = InvalidKind | EmptyHarness | ExtraComma

definition normalize_governance_key :: "string \<Rightarrow> key_error + string" where
  "normalize_governance_key key =
     (let trimmed = trim key
      in case find_sub '','' trimmed of
           Some comma \<Rightarrow>
             (let kind_s = trim (take comma trimmed); rest = trim (drop (comma + 1) trimmed)
              in if str_contains rest '','' then Inl ExtraComma
                 else if rest = [] then Inl EmptyHarness
                 else
                   (case kind_from_str kind_s of
                      None \<Rightarrow> Inl InvalidKind
                    | Some k \<Rightarrow> Inr (kind_harness_key k rest)))
         | None \<Rightarrow>
             (case kind_from_str trimmed of
                None \<Rightarrow> Inl InvalidKind
              | Some k \<Rightarrow> Inr (kind_str k)))"

definition parse_governance_key :: "string \<Rightarrow> (worker_kind \<times> string option) option" where
  "parse_governance_key key =
     (case normalize_governance_key key of
        Inl _ \<Rightarrow> None
      | Inr canonical \<Rightarrow>
          (case split_once (CHR '','') canonical of
             Some (kind_s, harness) \<Rightarrow>
               (case kind_from_str kind_s of None \<Rightarrow> None | Some k \<Rightarrow> Some (k, Some harness))
           | None \<Rightarrow>
               (case kind_from_str canonical of None \<Rightarrow> None | Some k \<Rightarrow> Some (k, None))))"

definition is_governance_overlay_key :: "string \<Rightarrow> bool" where
  "is_governance_overlay_key key \<longleftrightarrow> is_ok (normalize_governance_key key)"

section \<open>Resolution\<close>

definition gov_defaults :: "u32 option \<Rightarrow> u32 option \<Rightarrow> string list \<Rightarrow> governance_defaults" where
  "gov_defaults max_iterations context_budget_chars states =
     \<lparr>gd_max_iterations = max_iterations, gd_context_budget_chars = context_budget_chars,
      gd_stall_timeout_secs = Some DEFAULT_STALL_TIMEOUT_SECS,
      gd_max_run_duration_secs = Some DEFAULT_MAX_RUN_DURATION_SECS,
      gd_applicable_states = states, gd_linked_skills = [], gd_sandbox_permissions = None\<rparr>"

fun kind_defaults :: "worker_kind \<Rightarrow> governance_defaults" where
  "kind_defaults Implementer = gov_defaults (Some 20) (Some 600000) BASE_STATES"
| "kind_defaults Reviewer = gov_defaults (Some 10) (Some 600000) REVIEWER_STATES"
| "kind_defaults Planner = gov_defaults (Some 12) (Some 480000) BASE_STATES"
| "kind_defaults Artifactor = gov_defaults (Some 20) (Some 600000) BASE_STATES"
| "kind_defaults Griller = gov_defaults (Some 10) (Some 400000) BASE_STATES"
| "kind_defaults Analyzer = gov_defaults None None BASE_STATES"
| "kind_defaults Glossarist = gov_defaults None None BASE_STATES"
| "kind_defaults Manager = gov_defaults None None BASE_STATES"

text \<open>\<open>if let Some(v) = patch.f { self.f = Some(v) }\<close>.\<close>

definition over :: "'a option \<Rightarrow> 'a option \<Rightarrow> 'a option" where
  "over new old = (case new of None \<Rightarrow> old | Some v \<Rightarrow> Some v)"

definition apply_patch :: "governance_patch \<Rightarrow> governance_defaults \<Rightarrow> governance_defaults" where
  "apply_patch p g =
     \<lparr>gd_max_iterations = over (gp_max_iterations p) (gd_max_iterations g),
      gd_context_budget_chars = over (gp_context_budget_chars p) (gd_context_budget_chars g),
      gd_stall_timeout_secs = over (gp_stall_timeout_secs p) (gd_stall_timeout_secs g),
      gd_max_run_duration_secs = over (gp_max_run_duration_secs p) (gd_max_run_duration_secs g),
      gd_applicable_states =
        (case gp_applicable_states p of None \<Rightarrow> gd_applicable_states g | Some s \<Rightarrow> s),
      gd_linked_skills = (case gp_linked_skills p of None \<Rightarrow> gd_linked_skills g | Some s \<Rightarrow> s),
      gd_sandbox_permissions =
        (case gp_sandbox_permissions p of
           None \<Rightarrow> gd_sandbox_permissions g
         | Some sp \<Rightarrow>
             Some (merge_into sp
               (case gd_sandbox_permissions g of None \<Rightarrow> sandbox_default | Some l \<Rightarrow> l)))\<rparr>"

definition apply_opt :: "governance_patch option \<Rightarrow> governance_defaults \<Rightarrow> governance_defaults" where
  "apply_opt p g = (case p of None \<Rightarrow> g | Some p \<Rightarrow> apply_patch p g)"

text \<open>The patch of the harness, when a harness with a name is given.\<close>

definition harness_patch ::
  "worker_kind \<Rightarrow> string option \<Rightarrow> governance_overlay \<Rightarrow> governance_patch option" where
  "harness_patch k harness overlay =
     (case harness of
        None \<Rightarrow> None
      | Some h \<Rightarrow> if trim h = [] then None else for_kind_harness overlay k (trim h))"

definition resolve_governance ::
  "worker_kind \<Rightarrow> string option \<Rightarrow> governance_overlay \<Rightarrow> governance_patch option \<Rightarrow>
     governance_defaults" where
  "resolve_governance k harness overlay dispatch_override =
     apply_opt dispatch_override
       (apply_opt (harness_patch k harness overlay)
         (apply_opt (for_kind overlay k) (kind_defaults k)))"

section \<open>Least privilege across layers\<close>

interpretation sandbox_layer: narrowing merge_into sandbox_le
  by unfold_locales (auto simp: sandbox_le_def merge_into_def and_opt_def split: option.splits)

definition effective_sandbox :: "governance_defaults \<Rightarrow> sandbox_allowlist" where
  "effective_sandbox g =
     (case gd_sandbox_permissions g of None \<Rightarrow> sandbox_default | Some l \<Rightarrow> l)"

definition sandbox_layers :: "governance_patch option list \<Rightarrow> sandbox_permissions_patch list" where
  "sandbox_layers ps = concat (map (\<lambda>p. case p of
      None \<Rightarrow> []
    | Some p \<Rightarrow> (case gp_sandbox_permissions p of None \<Rightarrow> [] | Some sp \<Rightarrow> [sp])) ps)"

lemma effective_apply_opt:
  "effective_sandbox (apply_opt p g) = sandbox_layer.layers (sandbox_layers [p]) (effective_sandbox g)"
  by (auto simp: apply_opt_def effective_sandbox_def apply_patch_def sandbox_layers_def split: option.split)

lemma sandbox_layers_append: "sandbox_layers (ps @ qs) = sandbox_layers ps @ sandbox_layers qs"
  by (simp add: sandbox_layers_def)

lemma layers_append:
  "sandbox_layer.layers (ps @ qs) s = sandbox_layer.layers qs (sandbox_layer.layers ps s)"
  by (simp add: sandbox_layer.layers_def)

lemma kind_defaults_sandbox [simp]: "effective_sandbox (kind_defaults k) = sandbox_default"
  by (cases k) (simp_all add: gov_defaults_def effective_sandbox_def)

lemma resolve_sandbox:
  "effective_sandbox (resolve_governance k harness overlay ov) =
     sandbox_layer.layers (sandbox_layers [for_kind overlay k, harness_patch k harness overlay, ov])
       sandbox_default"
  using sandbox_layers_append [of "[for_kind overlay k]" "[harness_patch k harness overlay, ov]"]
    sandbox_layers_append [of "[harness_patch k harness overlay]" "[ov]"]
  by (simp add: resolve_governance_def effective_apply_opt layers_append)

text \<open>No overlay can widen what another denies: the sandbox permissions of the resolved
  governance are within what every single layer (kind, kind with harness, dispatch override) leaves
  of the trust-all default, and giving a dispatch override never grants more than giving none.\<close>

theorem governance_sandbox_least_privilege:
  assumes "p \<in> {for_kind overlay k, harness_patch k harness overlay, ov}"
  shows "sandbox_le (effective_sandbox (resolve_governance k harness overlay ov))
      (effective_sandbox (apply_opt p (kind_defaults k))) \<and>
    sandbox_le (effective_sandbox (resolve_governance k harness overlay ov))
      (effective_sandbox (resolve_governance k harness overlay None))"
proof
  let ?A = "sandbox_layers [for_kind overlay k]"
    and ?B = "sandbox_layers [harness_patch k harness overlay]" and ?C = "sandbox_layers [ov]"
  have r: "effective_sandbox (resolve_governance k harness overlay ov) =
      sandbox_layer.layers ?C (sandbox_layer.layers ?B (sandbox_layer.layers ?A sandbox_default))"
    by (simp add: resolve_governance_def effective_apply_opt)
  have b: "sandbox_le (sandbox_layer.layers ps s) s" for ps s by (rule sandbox_layer.layers_le)
  note m = sandbox_layer.layers_mono and t = sandbox_layer.le_trans
  show "sandbox_le (effective_sandbox (resolve_governance k harness overlay ov))
      (effective_sandbox (apply_opt p (kind_defaults k)))"
  proof -
    have "sandbox_le (sandbox_layer.layers ?C (sandbox_layer.layers ?B (sandbox_layer.layers ?A sandbox_default)))
        (sandbox_layer.layers ?A sandbox_default)" using b t by blast
    moreover have "sandbox_le (sandbox_layer.layers ?C (sandbox_layer.layers ?B (sandbox_layer.layers ?A sandbox_default)))
        (sandbox_layer.layers ?B sandbox_default)" using b m t by blast
    moreover have "sandbox_le (sandbox_layer.layers ?C (sandbox_layer.layers ?B (sandbox_layer.layers ?A sandbox_default)))
        (sandbox_layer.layers ?C sandbox_default)" using b m t by blast
    ultimately show ?thesis using assms unfolding r by (auto simp: effective_apply_opt)
  qed
  have "effective_sandbox (resolve_governance k harness overlay None) =
      sandbox_layer.layers ?B (sandbox_layer.layers ?A sandbox_default)"
    by (simp add: resolve_governance_def effective_apply_opt sandbox_layers_def [of "[None]"])
  then show "sandbox_le (effective_sandbox (resolve_governance k harness overlay ov))
      (effective_sandbox (resolve_governance k harness overlay None))"
    unfolding r using b by simp
qed

text \<open>The scalar settings take the most specific layer that sets them: the dispatch
  override, then the overlay of kind and harness, then the overlay of the kind, then the default of
  the kind; and the stall and run timeouts are always set.\<close>

theorem governance_precedence:
  "gd_max_iterations (resolve_governance k harness overlay ov) =
     over (Option.bind ov gp_max_iterations)
       (over (Option.bind (harness_patch k harness overlay) gp_max_iterations)
         (over (Option.bind (for_kind overlay k) gp_max_iterations) (gd_max_iterations (kind_defaults k)))) \<and>
   gd_context_budget_chars (resolve_governance k harness overlay ov) =
     over (Option.bind ov gp_context_budget_chars)
       (over (Option.bind (harness_patch k harness overlay) gp_context_budget_chars)
         (over (Option.bind (for_kind overlay k) gp_context_budget_chars)
           (gd_context_budget_chars (kind_defaults k)))) \<and>
   gd_stall_timeout_secs (resolve_governance k harness overlay ov) \<noteq> None \<and>
   gd_max_run_duration_secs (resolve_governance k harness overlay ov) \<noteq> None"
proof -
  have "gd_max_iterations (apply_opt p g) = over (Option.bind p gp_max_iterations) (gd_max_iterations g)"
    "gd_context_budget_chars (apply_opt p g) =
       over (Option.bind p gp_context_budget_chars) (gd_context_budget_chars g)" for p g
    by (auto simp: apply_opt_def apply_patch_def over_def split: option.split)
  moreover have
    "gd_stall_timeout_secs g \<noteq> None \<Longrightarrow> gd_stall_timeout_secs (apply_opt p g) \<noteq> None"
    "gd_max_run_duration_secs g \<noteq> None \<Longrightarrow> gd_max_run_duration_secs (apply_opt p g) \<noteq> None" for p g
    by (auto simp: apply_opt_def apply_patch_def over_def split: option.split)
  moreover have "gd_stall_timeout_secs (kind_defaults k) \<noteq> None"
    "gd_max_run_duration_secs (kind_defaults k) \<noteq> None"
    by (cases k; simp add: gov_defaults_def)+
  ultimately show ?thesis by (simp add: resolve_governance_def)
qed

text \<open>The patch of the examples: no network.\<close>

definition no_network :: governance_patch where
  "no_network =
     \<lparr>gp_max_iterations = None, gp_context_budget_chars = None, gp_stall_timeout_secs = None,
      gp_max_run_duration_secs = None, gp_applicable_states = None, gp_linked_skills = None,
      gp_sandbox_permissions = Some \<lparr>sp_allow_exec = None, sp_allow_patch = None,
        sp_allow_network = Some False, sp_allow_writes_outside_cwd = None\<rparr>\<rparr>"

theorem governance_sandbox_least_privilege_witness:
  "\<not> allow_network (effective_sandbox
     (resolve_governance Planner None [] (Some no_network)))"
proof -
  have "sandbox_le (effective_sandbox (resolve_governance Planner None [] (Some no_network)))
      (effective_sandbox (apply_opt (Some no_network) (kind_defaults Planner)))"
    using governance_sandbox_least_privilege [of "Some no_network" "[]" Planner None "Some no_network"]
    by blast
  moreover have "\<not> allow_network (effective_sandbox (apply_opt (Some no_network) (kind_defaults Planner)))"
    by (simp add: apply_opt_def apply_patch_def no_network_def effective_sandbox_def merge_into_def
        and_opt_def)
  ultimately show ?thesis by (auto simp: sandbox_le_def)
qed

section \<open>The migrated budget\<close>

text \<open>Migrating a token budget to characters never wraps: it is refused exactly when four
  times the tokens does not fit in 32 bits (or both spellings are set), and otherwise the stored
  number is exactly four times the tokens.\<close>

theorem migrated_budget_exact:
  "(case migrated_budget (Some t) None of
      Inl e \<Rightarrow> 2 ^ 32 \<le> 4 * unat t \<and> e = BudgetOverflow
    | Inr c \<Rightarrow> (\<exists>w. c = Some w \<and> unat w = 4 * unat t)) \<and>
   migrated_budget (Some t) (Some u) = Inl BothBudgets \<and> migrated_budget None c = Inr c"
proof -
  have four: "unat (4 :: u32) = 4" by simp
  have "unat (t * 4) = 4 * unat t" if "unat t * 4 < 2 ^ 32"
    using that four unat_mult_lem [of t 4] by simp
  then show ?thesis by (auto simp: migrated_budget_def checked_mul_def four)
qed

section \<open>Keys\<close>

lemma kind_str_shape: "CHR '','' \<notin> set (kind_str k)" "trim (kind_str k) = kind_str k" "kind_str k \<noteq> []"
  by (induction k; code_simp)+


lemma find_sub_char: "find_sub [c] s = (if c \<in> set s then Some (length (takeWhile (\<lambda>x. x \<noteq> c) s)) else None)"
  by (induction s) auto

lemma find_sub_comma_append:
  "c \<notin> set a \<Longrightarrow> find_sub [c] (a @ c # b) = Some (length a)"
  by (simp add: find_sub_char) (metis (mono_tags, lifting) append.right_neutral takeWhile_append2 takeWhile.simps(2))

lemma str_contains_comma: "str_contains s [c] \<longleftrightarrow> c \<in> set s"
  by (simp add: str_contains_def find_sub_char)

text \<open>The canonical key of a kind and a harness name.\<close>

lemma canonical_key_trimmed:
  assumes "trim h = h" "h \<noteq> []" "boundary h"
  shows "trim (kind_str k @ '','' @ h) = kind_str k @ '','' @ h"
proof -
  have "trim_end (kind_str k @ '','' @ h) = kind_str k @ '','' @ h"
    using trim_end_append [of h "kind_str k @ '',''"] assms trim_eq_selfD(2) [of h] by simp
  moreover have "trim_start (kind_str k @ '','' @ h) = kind_str k @ '','' @ h"
    by (cases k) (simp_all add: trim_start_ascii ascii_ws_def)
  ultimately show ?thesis by (rule trim_eq_selfI [rotated])
qed

text \<open>Overlay keys have one spelling: a normalized key is a fixed point of the
  normalization, and it parses to the kind and harness whose lookup key it is.\<close>

theorem governance_key_canonical:
  assumes "normalize_governance_key key = Inr c" "whole_ascii key"
  shows "normalize_governance_key c = Inr c \<and>
    (\<exists>k harness. parse_governance_key key = Some (k, harness) \<and>
       c = (case harness of None \<Rightarrow> kind_str k | Some h \<Rightarrow> kind_harness_key k h))"
proof (cases "find_sub '','' (trim key)")
  case None
  then obtain k where k: "kind_from_str (trim key) = Some k" "c = kind_str k"
    using assms(1) by (auto simp: normalize_governance_key_def Let_def split: option.splits)
  have f: "find_sub '','' (kind_str k) = None" "split_once (CHR '','') (kind_str k) = None"
    using kind_str_shape(1) [of k] by (auto simp: find_sub_char split_once_None_iff)
  then have "normalize_governance_key c = Inr c"
    using k by (simp add: normalize_governance_key_def kind_str_shape kind.dec_enc)
  moreover have "parse_governance_key key = Some (k, None)"
    using assms(1) k f by (simp add: parse_governance_key_def kind.dec_enc)
  ultimately show ?thesis using k by force
next
  case (Some n)
  let ?h = "trim (drop (n + 1) (trim key))"
  obtain k where k: "c = kind_str k @ '','' @ ?h" and h: "?h \<noteq> []" "CHR '','' \<notin> set ?h"
    using assms(1) Some
    by (auto simp: normalize_governance_key_def Let_def kind_harness_key_def str_contains_comma
        split: option.splits if_splits)
  obtain b where b: "trim key = take n (trim key) @ CHR '','' # b" "drop (n + 1) (trim key) = b"
  proof -
    obtain r where r: "drop n (trim key) = CHR '','' # r"
      using find_sub_Some [OF Some] by (auto simp: starts_with_iff)
    then have "drop (n + 1) (trim key) = r" by (metis drop_drop add.commute drop_Suc_Cons drop0 One_nat_def plus_1_eq_Suc)
    then show thesis using that r by (metis append_take_drop_id)
  qed
  obtain p q where "key = p @ trim key @ q" using trim_split by blast
  then have "whole_ascii (trim key)" using assms(2) whole_ascii_suffix whole_ascii_prefix by metis
  then have "boundary b" using b(1) whole_ascii_after [of "take n (trim key)" "CHR '',''" b] by simp
  then have bh: "boundary ?h" using boundary_trim b(2) by simp
  have canon: "trim c = c" using canonical_key_trimmed [OF trim_idem h(1) bh] k by simp
  have f: "find_sub '','' c = Some (length (kind_str k))"
    "split_once (CHR '','') c = Some (kind_str k, ?h)"
    using find_sub_comma_append [OF kind_str_shape(1)] kind_str_shape(1) k by auto
  have "normalize_governance_key c = Inr c"
    using canon f h k
    by (simp add: normalize_governance_key_def kind_str_shape kind.dec_enc kind_harness_key_def
        str_contains_comma)
  moreover have "parse_governance_key key = Some (k, Some ?h)"
    using assms(1) f by (simp add: parse_governance_key_def kind.dec_enc)
  ultimately show ?thesis using k by (force simp: kind_harness_key_def)
qed

theorem governance_key_canonical_witness:
  "normalize_governance_key ''planner,codex'' = Inr ''planner,codex''"
proof -
  have k: "normalize_governance_key '' planner , codex '' = Inr ''planner,codex''" by code_simp
  have "whole_ascii '' planner , codex ''" by code_simp
  from governance_key_canonical [OF k this] show ?thesis by blast
qed

end
