(* ===== verification/Slots.thy ===== *)
theory Slots
  imports Rust_Str Ordered_Map
begin

text \<open>
  The strict slot compiler of \<open>crates/orgasmic-core/src/slots.rs\<close>: the scan for
  \<open>{{ namespace.field }}\<close> references, the dry run and the substitution. Indexing a template with
  a range that is out of order or cuts a character panics in Rust, as does the \<open>expect\<close> of
  \<open>compile\<close>: a panic is the outer \<open>None\<close> of the results here, so that not panicking is a
  theorem. The \<open>detail\<close> texts of \<open>Malformed\<close> are the constructors of \<open>slot_fault\<close>.
\<close>

section \<open>The registry\<close>

datatype slot_fault =
    UnterminatedSlot
  | NewlineInSlot
  | EmptySlot
  | InvalidSlotName string
  | ControlSyntax string

datatype slot_error =
    Malformed nat slot_fault
  | DryRunFailed "string list" "string list"

definition default_registry :: "string set" where
  "default_registry = set
    [''task.id'', ''task.title'', ''task.description'', ''task.priority'', ''task.tags'',
     ''task.acceptance'', ''task.write_scope'', ''task.read_scope'', ''task.depends_on'',
     ''task.activity'', ''dispatch.brief'', ''dispatch.workdir'', ''project.id'', ''project.name'',
     ''project.path'', ''project.test_cmd'', ''project.lint_cmd'', ''project.build_cmd'',
     ''project.default_branch'', ''worker.id'', ''worker.kind'', ''skills.all'', ''run.id'',
     ''run.iteration_count'', ''run.previous_state'', ''evidence.so_far'', ''worklog.tail'',
     ''artifact.subject_nodes'', ''artifact.user_prompt'', ''node.id'', ''node.type'',
     ''node.content'', ''node.comments'', ''node.extra_prompt'', ''node.links'',
     ''conversation.purpose'']"

definition is_dynamic_skill_slot :: "string \<Rightarrow> bool" where
  "is_dynamic_skill_slot name \<longleftrightarrow>
     name = ''task.activity'' \<or>
     (case split_once (CHR ''.'') name of
        None \<Rightarrow> False
      | Some (ns, rest) \<Rightarrow>
          (ns = ''skills'' \<or> ns = ''skill_path'' \<or> ns = ''conventions'') \<and> rest \<noteq> [])"

definition is_known_slot :: "string \<Rightarrow> string set \<Rightarrow> string set option \<Rightarrow> bool" where
  "is_known_slot name registry linked_skills =
     (if name \<in> registry then True
      else
        (case linked_skills of
           Some linked \<Rightarrow>
             (case split_once (CHR ''.'') name of
                None \<Rightarrow> False
              | Some (ns, rest) \<Rightarrow>
                  if ns = ''skills'' \<or> ns = ''skill_path'' then rest \<in> linked
                  else if ns = ''conventions'' then rest \<noteq> []
                  else False)
         | None \<Rightarrow> is_dynamic_skill_slot name))"

section \<open>Scanning\<close>

record slot_ref =
  sr_name :: string
  sr_start :: nat
  sr_end :: nat

text \<open>The bytes of a range of a \<open>str\<close>, and \<open>None\<close> where indexing panics.\<close>

definition is_char_boundary :: "string \<Rightarrow> nat \<Rightarrow> bool" where
  "is_char_boundary s i \<longleftrightarrow> i = 0 \<or> (i \<le> length s \<and> boundary (drop i s))"

definition str_index :: "string \<Rightarrow> nat \<Rightarrow> nat \<Rightarrow> string option" where
  "str_index s a b =
     (if a \<le> b \<and> is_char_boundary s a \<and> is_char_boundary s b then Some (slice s (a, b)) else None)"

definition is_valid_name :: "string \<Rightarrow> bool" where
  "is_valid_name s =
     (case split_once (CHR ''.'') s of
        None \<Rightarrow> False
      | Some (ns, field) \<Rightarrow>
          if ns = [] \<or> field = [] then False
          else
            (case ns of
               [] \<Rightarrow> False
             | c # cs \<Rightarrow>
                 (is_ascii_alphabetic c \<or> c = CHR ''_'') \<and>
                 list_all (\<lambda>c. is_ascii_alphanumeric c \<or> c = CHR ''_'') cs \<and>
                 list_all (\<lambda>c. is_ascii_alphanumeric c \<or> c = CHR ''_'' \<or> c = CHR ''-'') field))"

text \<open>The inner loop: the index of the closing braces.\<close>

function scan_close :: "string \<Rightarrow> nat \<Rightarrow> slot_fault + nat" where
  "scan_close bs j =
     (if length bs \<le> j + 1 then Inl UnterminatedSlot
      else if bs ! j = CHR ''}'' \<and> bs ! (j + 1) = CHR ''}'' then Inr j
      else if bs ! j = LF then Inl NewlineInSlot
      else scan_close bs (j + 1))"
  by pat_completeness auto
termination by (relation "measure (\<lambda>(bs, j). length bs - j)") auto

declare scan_close.simps [simp del]

lemma scan_close_ge: "scan_close bs j = Inr k \<Longrightarrow> j \<le> k \<and> k + 1 < length bs"
proof (induction bs j rule: scan_close.induct)
  case (1 bs j)
  then show ?case by (auto simp: scan_close.simps [of bs j] split: if_splits)
qed

text \<open>What is checked of the text between the braces.\<close>

definition slot_name :: "string \<Rightarrow> slot_fault + string" where
  "slot_name between =
     (let inside = trim between
      in if inside = [] then Inl EmptySlot
         else if \<not> is_valid_name inside then Inl (InvalidSlotName inside)
         else if CHR ''#'' \<in> set inside \<or> CHR '' '' \<in> set inside \<or> CHR ''|'' \<in> set inside
           then Inl (ControlSyntax inside)
         else Inr inside)"

text \<open>The outer loop from the index \<open>i\<close>; the references found before an error are dropped with
  it.\<close>

function scan_from :: "string \<Rightarrow> nat \<Rightarrow> (slot_error + slot_ref list) option" where
  "scan_from bs i =
     (if i + 1 < length bs then
        if bs ! i = CHR ''{'' \<and> bs ! (i + 1) = CHR ''{'' then
          (case scan_close bs (i + 2) of
             Inl f \<Rightarrow> Some (Inl (Malformed i f))
           | Inr j \<Rightarrow>
               (case str_index bs (i + 2) j of
                  None \<Rightarrow> None
                | Some between \<Rightarrow>
                    (case slot_name between of
                       Inl f \<Rightarrow> Some (Inl (Malformed i f))
                     | Inr name \<Rightarrow>
                         map_option (map_sum id
                             ((#) \<lparr>sr_name = name, sr_start = i, sr_end = j + 2\<rparr>))
                           (scan_from bs (j + 2)))))
        else scan_from bs (i + 1)
      else Some (Inr []))"
  by pat_completeness auto
termination
  by (relation "measure (\<lambda>(bs, i). length bs - i)") (auto dest: scan_close_ge)

declare scan_from.simps [simp del]

definition scan :: "string \<Rightarrow> (slot_error + slot_ref list) option" where
  "scan template = scan_from template 0"

section \<open>The dry run and the substitution\<close>

record dry_run_report =
  dr_filled :: "string list"
  dr_unfilled :: "string list"
  dr_unknown :: "string list"

definition report_ok :: "dry_run_report \<Rightarrow> bool" where
  "report_ok r \<longleftrightarrow> dr_unfilled r = [] \<and> dr_unknown r = []"

type_synonym slot_values = "string \<rightharpoonup> string"

text \<open>The loop of \<open>dry_run_inner\<close> on the three ordered sets.\<close>

fun classify ::
  "slot_values \<Rightarrow> string set \<Rightarrow> string set option \<Rightarrow> slot_ref list \<Rightarrow> dry_run_report \<Rightarrow> dry_run_report" where
  "classify vals registry linked [] rep = rep"
| "classify vals registry linked (r # rs) rep =
     (if \<not> is_known_slot (sr_name r) registry linked then
        classify vals registry linked rs
          (rep\<lparr>dr_unknown := bs_insert (sr_name r) (dr_unknown rep)\<rparr>)
      else if vals (sr_name r) \<noteq> None then
        classify vals registry linked rs
          (rep\<lparr>dr_filled := bs_insert (sr_name r) (dr_filled rep)\<rparr>)
      else
        classify vals registry linked rs
          (rep\<lparr>dr_unfilled := bs_insert (sr_name r) (dr_unfilled rep)\<rparr>))"

definition dry_run_inner ::
  "string \<Rightarrow> slot_values \<Rightarrow> string set \<Rightarrow> string set option \<Rightarrow> (slot_error + dry_run_report) option" where
  "dry_run_inner template vals registry linked =
     map_option (map_sum id (\<lambda>refs. classify vals registry linked refs
         \<lparr>dr_filled = [], dr_unfilled = [], dr_unknown = []\<rparr>))
       (scan template)"

definition dry_run ::
  "string \<Rightarrow> slot_values \<Rightarrow> string set \<Rightarrow> (slot_error + dry_run_report) option" where
  "dry_run template vals registry = dry_run_inner template vals registry None"

definition dry_run_with_linked_skills ::
  "string \<Rightarrow> slot_values \<Rightarrow> string set \<Rightarrow> string set \<Rightarrow> (slot_error + dry_run_report) option" where
  "dry_run_with_linked_skills template vals registry linked =
     dry_run_inner template vals registry (Some linked)"

text \<open>The loop of \<open>compile\<close>: the literal up to each reference, its value, the rest.\<close>

fun fill_refs :: "string \<Rightarrow> slot_values \<Rightarrow> nat \<Rightarrow> slot_ref list \<Rightarrow> string option" where
  "fill_refs template vals cursor [] = str_index template cursor (length template)"
| "fill_refs template vals cursor (r # rs) =
     (case str_index template cursor (sr_start r) of
        None \<Rightarrow> None
      | Some literal \<Rightarrow>
          (case vals (sr_name r) of
             None \<Rightarrow> None
           | Some v \<Rightarrow>
               map_option (\<lambda>rest. literal @ v @ rest) (fill_refs template vals (sr_end r) rs)))"

definition compile ::
  "string \<Rightarrow> slot_values \<Rightarrow> string set \<Rightarrow> (slot_error + string) option" where
  "compile template vals registry =
     (case dry_run template vals registry of
        None \<Rightarrow> None
      | Some (Inl e) \<Rightarrow> Some (Inl e)
      | Some (Inr report) \<Rightarrow>
          if \<not> report_ok report
          then Some (Inl (DryRunFailed (dr_unknown report) (dr_unfilled report)))
          else
            (case scan template of
               None \<Rightarrow> None
             | Some (Inl e) \<Rightarrow> Some (Inl e)
             | Some (Inr refs) \<Rightarrow> map_option Inr (fill_refs template vals 0 refs)))"


section \<open>The grammar of templates\<close>

text \<open>A template is literal text and references: pairs of a literal and the text between the
  braces after it, then the last literal. No literal opens a reference.\<close>

definition fill :: "(string \<Rightarrow> string) \<Rightarrow> (string \<times> string) list \<Rightarrow> string \<Rightarrow> string" where
  "fill f pieces tail = concat (map (\<lambda>(literal, between). literal @ f between) pieces) @ tail"

definition braced :: "string \<Rightarrow> string" where
  "braced between = ''{{'' @ between @ ''}}''"

definition piece_ok :: "string \<times> string \<Rightarrow> bool" where
  "piece_ok = (\<lambda>(literal, between).
     \<not> str_contains (literal @ ''{'') ''{{'' \<and> LF \<notin> set between \<and> is_valid_name (trim between))"

definition template_ok :: "(string \<times> string) list \<Rightarrow> string \<Rightarrow> bool" where
  "template_ok pieces tail \<longleftrightarrow> list_all piece_ok pieces \<and> \<not> str_contains tail ''{{''"

fun positions :: "nat \<Rightarrow> (string \<times> string) list \<Rightarrow> slot_ref list" where
  "positions i [] = []"
| "positions i ((literal, between) # ps) =
     (let start = i + length literal; stop = start + length between + 4
      in \<lparr>sr_name = trim between, sr_start = start, sr_end = stop\<rparr> # positions stop ps)"

lemma fill_simps [simp]:
  "fill f [] tail = tail"
  "fill f ((l, b) # ps) tail = l @ f b @ fill f ps tail"
  by (simp_all add: fill_def)

lemma drop_ConsD:
  "drop i bs = c # r \<Longrightarrow> bs ! i = c \<and> i < length bs \<and> drop (Suc i) bs = r \<and> length bs = i + Suc (length r)"
proof -
  assume d: "drop i bs = c # r"
  then have i: "i < length bs" by (metis drop_all linorder_not_less list.distinct(1))
  have "length (drop i bs) = Suc (length r)" using d by simp
  then have "length bs = i + Suc (length r)" using i by simp
  then show ?thesis using d i by (auto simp: nth_via_drop drop_Suc tl_drop [symmetric])
qed

lemma drop_appendD: "drop i bs = a @ r \<Longrightarrow> drop (i + length a) bs = r"
  by (metis add.commute append_eq_conv_conj drop_drop)

text \<open>White space holds no brace, so trimming keeps every brace.\<close>

lemma ws_chars_brace: "g \<in> set ws_chars \<Longrightarrow> CHR ''}'' \<notin> set g \<and> CHR ''{'' \<notin> set g"
  by (auto simp: ws_chars_def)

lemma in_trim:
  assumes "c \<in> set s" "\<And>g. g \<in> set ws_chars \<Longrightarrow> c \<notin> set g"
  shows "c \<in> set (trim s)"
proof -
  have pre: "c \<notin> set (concat (takeWhile is_whitespace gs))" for gs
    using assms(2) by (auto dest!: set_takeWhileD simp: is_whitespace_def)
  have "c \<in> set (trim_start s)"
    using assms(1) pre trim_start_split [of s] by (metis Un_iff set_append)
  moreover have "trim_start s = trim s @ concat (rev (takeWhile is_whitespace (rev (chars (trim_start s)))))"
    using trim_end_split [of "trim_start s"] by (simp add: trim_def trim_start_trim_end)
  moreover have "c \<notin> set (concat (rev (takeWhile is_whitespace gs)))" for gs using pre by simp
  ultimately show ?thesis by (metis Un_iff set_append)
qed

lemma valid_name_char:
  assumes "is_valid_name s" "c \<in> set s"
  shows "is_ascii_alphanumeric c \<or> c = CHR ''_'' \<or> c = CHR ''-'' \<or> c = CHR ''.''"
proof -
  obtain ns field where s: "split_once (CHR ''.'') s = Some (ns, field)"
    using assms(1) by (auto simp: is_valid_name_def split: option.splits)
  then obtain d ds where ns: "ns = d # ds"
    using assms(1) by (cases ns) (auto simp: is_valid_name_def)
  show ?thesis
    using assms s ns
    by (auto simp: is_valid_name_def list_all_iff is_ascii_alphanumeric_def split: if_splits
        dest!: split_once_Some_iff [THEN iffD1])
qed

lemma valid_name_no:
  assumes "is_valid_name s"
  shows "CHR ''#'' \<notin> set s" "CHR '' '' \<notin> set s" "CHR ''|'' \<notin> set s" "CHR ''}'' \<notin> set s" "s \<noteq> []"
proof -
  show "CHR ''#'' \<notin> set s" "CHR '' '' \<notin> set s" "CHR ''|'' \<notin> set s" "CHR ''}'' \<notin> set s"
    using valid_name_char [OF assms] by (force simp: ascii_defs)+
  show "s \<noteq> []" using assms by (auto simp: is_valid_name_def split_once_def)
qed

lemma slot_name_Inr_iff: "slot_name b = Inr n \<longleftrightarrow> n = trim b \<and> is_valid_name n"
  using valid_name_no by (auto simp: slot_name_def Let_def)

lemma slot_name_never_control: "slot_name b \<noteq> Inl (ControlSyntax n)"
  using valid_name_no by (auto simp: slot_name_def Let_def)

lemma piece_no_brace: "piece_ok (l, b) \<Longrightarrow> CHR ''}'' \<notin> set b"
  using in_trim [of "CHR ''}''" b] ws_chars_brace valid_name_no(4) [of "trim b"]
  by (auto simp: piece_ok_def)

section \<open>Scanning reads the grammar\<close>

lemma drop_two:
  "drop j bs = c # d # r \<Longrightarrow> bs ! j = c \<and> bs ! Suc j = d \<and> Suc j < length bs"
  using drop_ConsD [of j bs c "d # r"] drop_ConsD [of "Suc j" bs d r] by blast

lemma scan_close_hit:
  "bs ! j = CHR ''}'' \<Longrightarrow> bs ! Suc j = CHR ''}'' \<Longrightarrow> Suc j < length bs \<Longrightarrow> scan_close bs j = Inr j"
  unfolding scan_close.simps [of bs j] by simp

lemma scan_close_step:
  assumes "Suc j < length bs" "\<not> (bs ! j = CHR ''}'' \<and> bs ! Suc j = CHR ''}'')" "bs ! j \<noteq> LF"
  shows "scan_close bs j = scan_close bs (Suc j)"
proof -
  have "\<not> length bs \<le> j + 1" "\<not> (bs ! j = CHR ''}'' \<and> bs ! (j + 1) = CHR ''}'')"
    using assms by simp_all
  then have "scan_close bs j = scan_close bs (j + 1)"
    using scan_close.simps [of bs j] assms(3) by presburger
  then show ?thesis by simp
qed

lemma scan_close_finds:
  "drop j bs = b @ ''}}'' @ rest \<Longrightarrow> CHR ''}'' \<notin> set b \<Longrightarrow> LF \<notin> set b \<Longrightarrow>
     scan_close bs j = Inr (j + length b)"
proof (induction b arbitrary: j)
  case Nil
  then show ?case using drop_two scan_close_hit by fastforce
next
  case (Cons c b)
  then have c: "bs ! j = c" "length bs = j + Suc (length (b @ ''}}'' @ rest))"
    "drop (Suc j) bs = b @ ''}}'' @ rest"
    using drop_ConsD [of j bs c "b @ ''}}'' @ rest"] by auto
  then have "scan_close bs (Suc j) = Inr (Suc j + length b)" using Cons by simp
  moreover have "scan_close bs j = scan_close bs (Suc j)"
    using c Cons.prems by (intro scan_close_step) auto
  ultimately show ?case by simp
qed

lemma scan_close_found:
  "scan_close bs j = Inr k \<Longrightarrow>
     \<exists>b rest. drop j bs = b @ ''}}'' @ rest \<and> k = j + length b \<and> LF \<notin> set b"
proof (induction bs j rule: scan_close.induct)
  case (1 bs j)
  have long: "Suc j < length bs" using "1.prems" by (auto simp: scan_close.simps [of bs j] split: if_splits)
  then have d: "drop j bs = bs ! j # bs ! Suc j # drop (j + 2) bs"
    by (simp add: Cons_nth_drop_Suc)
  show ?case
  proof (cases "bs ! j = CHR ''}'' \<and> bs ! Suc j = CHR ''}''")
    case True
    then have "k = j" using "1.prems" scan_close_hit [of bs j] long by simp
    then show ?thesis
      using d True by (intro exI [of _ "[]"] exI [of _ "drop (j + 2) bs"]) simp
  next
    case False
    then have lf: "bs ! j \<noteq> LF"
      using "1.prems" long by (auto simp: scan_close.simps [of bs j] split: if_splits)
    then have k: "scan_close bs (Suc j) = Inr k" using scan_close_step [OF long False] "1.prems" by simp
    have "\<exists>b rest. drop (Suc j) bs = b @ ''}}'' @ rest \<and> k = Suc j + length b \<and> LF \<notin> set b"
      using "1.IH" k lf False long by simp
    then obtain b rest where b: "drop (Suc j) bs = b @ ''}}'' @ rest" "k = Suc j + length b" "LF \<notin> set b"
      by blast
    have "drop j bs = bs ! j # drop (Suc j) bs" using long by (simp add: Cons_nth_drop_Suc)
    then show ?thesis using b lf by (intro exI [of _ "bs ! j # b"] exI [of _ rest]) auto
  qed
qed

lemma contains_Cons2:
  "str_contains (c # d # s) ''{{'' \<longleftrightarrow> c = CHR ''{'' \<and> d = CHR ''{'' \<or> str_contains (d # s) ''{{''"
  by (auto simp: str_contains_def)

lemma contains_short [simp]: "\<not> str_contains [] ''{{''" "\<not> str_contains [c] ''{{''"
  by (simp_all add: str_contains_def)

text \<open>The outer loop steps over a literal.\<close>

lemma scan_from_end [simp]: "scan_from bs (length bs) = Some (Inr [])"
  by (simp add: scan_from.simps [of bs "length bs"])

lemma scan_from_skip:
  "drop i bs = l @ r \<Longrightarrow> \<not> str_contains (l @ take 1 r) ''{{'' \<Longrightarrow>
     scan_from bs i = scan_from bs (i + length l)"
proof (induction l arbitrary: i)
  case (Cons c l)
  have c: "bs ! i = c" "length bs = i + Suc (length (l @ r))" "drop (Suc i) bs = l @ r"
    using Cons.prems(1) drop_ConsD [of i bs c "l @ r"] by auto
  have "\<not> str_contains (l @ take 1 r) ''{{''"
    using Cons.prems(2) by (cases "l @ take 1 r") (auto simp: contains_Cons2)
  then have IH: "scan_from bs (Suc i) = scan_from bs (Suc i + length l)"
    using Cons.IH c(3) by blast
  have "scan_from bs i = scan_from bs (Suc i)"
  proof (cases "l @ r")
    case Nil
    then show ?thesis
      using c scan_from_end [of bs] by (simp add: scan_from.simps [of bs i])
  next
    case (Cons d ds)
    then have d: "bs ! Suc i = d" using c(3) drop_ConsD [of "Suc i" bs d ds] by simp
    have "\<exists>xs. l @ take 1 r = d # xs" using Cons by (cases l; cases r) auto
    then have "\<not> (c = CHR ''{'' \<and> d = CHR ''{'')"
      using Cons.prems(2) contains_Cons2 by (metis append_Cons)
    then show ?thesis using c(1,2) d Cons by (auto simp: scan_from.simps [of bs i])
  qed
  then show ?case using IH by simp
qed simp

lemma str_index_between:
  assumes "drop i bs = ''{{'' @ b @ ''}}'' @ rest" "whole_ascii bs"
  shows "str_index bs (i + 2) (i + 2 + length b) = Some b"
proof -
  have bs: "bs = take i bs @ ''{{'' @ b @ ''}}'' @ rest" by (metis append_take_drop_id assms(1))
  have "i < length bs" using drop_ConsD [of i bs "CHR ''{''" "CHR ''{'' # b @ ''}}'' @ rest"] assms(1) by simp
  then have len: "length (take i bs) = i" by simp
  have d2: "drop (i + 2) bs = b @ ''}}'' @ rest"
    using drop_appendD [of i bs "''{{''"] assms(1) by (simp add: numeral_2_eq_2)
  have dk: "drop (i + 2 + length b) bs = ''}}'' @ rest" using drop_appendD [OF d2] .
  have "boundary (drop (i + 2) bs)"
    using whole_ascii_after [of "take i bs @ ''{''" "CHR ''{''" "b @ ''}}'' @ rest"] assms(2) bs d2
    by (simp add: byte_def)
  moreover have "boundary (drop (i + 2 + length b) bs)" using dk by (simp add: is_cont_def)
  moreover have "length bs = i + 4 + length b + length rest"
    using arg_cong [OF bs, of length] len by simp
  moreover have "slice bs (i + 2, i + 2 + length b) = b" using d2 by (simp add: slice_def drop_take)
  ultimately show ?thesis by (simp add: str_index_def is_char_boundary_def)
qed

lemma positions_append_char:
  "positions (Suc i) ((l, b) # ps) = positions i ((c # l, b) # ps)"
  by simp

lemma scan_from_opened:
  assumes "bs ! i = CHR ''{''" "bs ! Suc i = CHR ''{''" "Suc i < length bs"
  shows "scan_from bs i =
      (case scan_close bs (i + 2) of
         Inl f \<Rightarrow> Some (Inl (Malformed i f))
       | Inr j \<Rightarrow>
           (case str_index bs (i + 2) j of
              None \<Rightarrow> None
            | Some between \<Rightarrow>
                (case slot_name between of
                   Inl f \<Rightarrow> Some (Inl (Malformed i f))
                 | Inr name \<Rightarrow>
                     map_option (map_sum id
                         ((#) \<lparr>sr_name = name, sr_start = i, sr_end = j + 2\<rparr>))
                       (scan_from bs (j + 2)))))"
  unfolding scan_from.simps [of bs i] using assms by simp

text \<open>At an opening the text up to the first closing braces decides.\<close>

lemma scan_from_reference:
  assumes d: "drop i bs = ''{{'' @ b @ ''}}'' @ rest" and "whole_ascii bs"
    and b: "LF \<notin> set b" "CHR ''}'' \<notin> set b" "is_valid_name (trim b)"
  shows "scan_from bs i =
    map_option (map_sum id ((#) \<lparr>sr_name = trim b, sr_start = i, sr_end = i + length b + 4\<rparr>))
      (scan_from bs (i + length b + 4))"
proof -
  have two: "bs ! i = CHR ''{'' \<and> bs ! Suc i = CHR ''{'' \<and> Suc i < length bs"
    using d by (intro drop_two [of i bs _ _ "b @ ''}}'' @ rest"]) simp
  have "drop (i + 2) bs = b @ ''}}'' @ rest"
    using drop_appendD [of i bs "''{{''"] d by (simp add: numeral_2_eq_2)
  then have "scan_close bs (i + 2) = Inr (i + 2 + length b)" using scan_close_finds b by blast
  moreover have "str_index bs (i + 2) (i + 2 + length b) = Some b"
    using str_index_between assms(1,2) .
  moreover have "slot_name b = Inr (trim b)" using b by (simp add: slot_name_Inr_iff)
  moreover have "i + 2 + length b + 2 = i + length b + 4" by simp
  ultimately show ?thesis using two by (simp only: scan_from_opened sum.case option.case)
qed

lemma scan_from_reads:
  "drop i bs = fill braced ps tail \<Longrightarrow> template_ok ps tail \<Longrightarrow> whole_ascii bs \<Longrightarrow> i \<le> length bs \<Longrightarrow>
     scan_from bs i = Some (Inr (positions i ps))"
proof (induction ps arbitrary: i)
  case Nil
  have "length bs = i + length tail" using arg_cong [OF Nil(1), of length] Nil(4) by simp
  then have "scan_from bs (i + length tail) = Some (Inr [])" using scan_from_end by metis
  then show ?case using Nil scan_from_skip [of i bs tail "[]"] by (simp add: template_ok_def)
next
  case (Cons p ps)
  obtain l b where p: "p = (l, b)" by (cases p)
  have pok: "piece_ok (l, b)" "template_ok ps tail" using Cons.prems p by (auto simp: template_ok_def)
  let ?rest = "fill braced ps tail"
  have d: "drop i bs = l @ ''{{'' @ b @ ''}}'' @ ?rest" using Cons.prems(1) unfolding p by (simp add: braced_def [of b])
  have skip: "scan_from bs i = scan_from bs (i + length l)"
    using scan_from_skip [OF d] pok by (simp add: piece_ok_def)
  have d2: "drop (i + length l) bs = ''{{'' @ b @ ''}}'' @ ?rest" using drop_appendD [OF d] .
  have ref: "scan_from bs (i + length l) =
     map_option (map_sum id ((#) \<lparr>sr_name = trim b, sr_start = i + length l,
         sr_end = i + length l + length b + 4\<rparr>)) (scan_from bs (i + length l + length b + 4))"
    using scan_from_reference [OF d2 Cons.prems(3)] pok piece_no_brace [OF pok(1)]
    by (simp add: piece_ok_def)
  have "drop (i + length l + length (''{{'' @ b @ ''}}'')) bs = ?rest"
    using d2 by (intro drop_appendD [of "i + length l"]) simp
  moreover have "i + length l + length (''{{'' @ b @ ''}}'') = i + length l + length b + 4" by simp
  ultimately have d3: "drop (i + length l + length b + 4) bs = ?rest" by (simp only:)
  have "length bs = i + length (drop i bs)" using Cons.prems(4) by simp
  then have "i + length l + length b + 4 \<le> length bs" unfolding d by simp
  then have "scan_from bs (i + length l + length b + 4) =
      Some (Inr (positions (i + length l + length b + 4) ps))"
    using Cons.IH d3 pok(2) Cons.prems(3) by blast
  then show ?case using skip ref p by (simp add: Let_def add.assoc)
qed

lemma scan_from_found:
  "scan_from bs i = Some (Inr rs) \<Longrightarrow> whole_ascii bs \<Longrightarrow> i \<le> length bs \<Longrightarrow>
     \<exists>ps tail. drop i bs = fill braced ps tail \<and> template_ok ps tail \<and> rs = positions i ps"
proof (induction bs i arbitrary: rs rule: scan_from.induct)
  case (1 bs i)
  show ?case
  proof (cases "Suc i < length bs")
    case False
    then have "length (drop i bs) \<le> 1" "rs = []" using "1.prems" by (auto simp: scan_from.simps [of bs i])
    then have "\<not> str_contains (drop i bs) ''{{''" by (cases "drop i bs") auto
    then show ?thesis
      using \<open>rs = []\<close> by (intro exI [of _ "[]"] exI [of _ "drop i bs"]) (simp add: template_ok_def)
  next
    case long: True
    then have dd: "drop i bs = bs ! i # bs ! Suc i # drop (i + 2) bs" by (simp add: Cons_nth_drop_Suc)
    show ?thesis
    proof (cases "bs ! i = CHR ''{'' \<and> bs ! Suc i = CHR ''{''")
      case False
      then have "scan_from bs (i + 1) = Some (Inr rs)"
        using "1.prems"(1) long by (auto simp: scan_from.simps [of bs i])
      then obtain ps tail where ps: "drop (Suc i) bs = fill braced ps tail" "template_ok ps tail"
        "rs = positions (Suc i) ps"
        using "1.IH"(2) "1.prems"(2) long False by fastforce
      have one: "drop i bs = bs ! i # drop (Suc i) bs" using long by (simp add: Cons_nth_drop_Suc)
      have hd: "drop (Suc i) bs = bs ! Suc i # drop (i + 2) bs" using one dd by simp
      show ?thesis
      proof (cases ps)
        case Nil
        have "\<not> str_contains (bs ! i # tail) ''{{''"
          using ps Nil False hd by (auto simp: template_ok_def contains_Cons2)
        then show ?thesis
          using ps Nil one by (intro exI [of _ "[]"] exI [of _ "bs ! i # tail"]) (simp add: template_ok_def)
      next
        case (Cons p qs)
        obtain l b where p: "p = (l, b)" by (cases p)
        have "\<exists>xs. l @ ''{'' = bs ! Suc i # xs"
          using ps(1) hd Cons p by (cases l) (auto simp: braced_def)
        then have "piece_ok (bs ! i # l, b)"
          using ps(2) Cons p False by (auto simp: template_ok_def piece_ok_def contains_Cons2)
        then show ?thesis
          using ps Cons p one by (intro exI [of _ "(bs ! i # l, b) # qs"] exI [of _ tail])
            (simp add: template_ok_def)
      qed
    next
      case True
      then obtain j between name rs' where j: "scan_close bs (i + 2) = Inr j"
        "str_index bs (i + 2) j = Some between" "slot_name between = Inr name"
        "scan_from bs (j + 2) = Some (Inr rs')"
        "rs = \<lparr>sr_name = name, sr_start = i, sr_end = j + 2\<rparr> # rs'"
        using "1.prems"(1) long
        by (auto simp: scan_from_opened split: sum.splits option.splits)
           (metis (no_types, lifting) map_sum.simps old.sum.exhaust sum.distinct(1) sum.inject(2))
      obtain b rest where b: "drop (i + 2) bs = b @ ''}}'' @ rest" "j = i + 2 + length b" "LF \<notin> set b"
        using scan_close_found [OF j(1)] by blast
      have d: "drop i bs = ''{{'' @ b @ ''}}'' @ rest" using dd True b(1) by simp
      have bt: "between = b" using str_index_between [OF d "1.prems"(2)] j(2) b(2) by simp
      have "drop (i + length (''{{'' @ b @ ''}}'')) bs = rest" using d by (intro drop_appendD) simp
      then have rest: "drop (j + 2) bs = rest" using b(2) by (simp add: algebra_simps)
      have "length bs = i + length (drop i bs)" using "1.prems"(3) by simp
      then have "j + 2 \<le> length bs" unfolding d using b(2) by simp
      then obtain ps tail where ps: "drop (j + 2) bs = fill braced ps tail" "template_ok ps tail"
        "rs' = positions (j + 2) ps"
        using "1.IH"(1) [of j between name rs'] j True long "1.prems"(2) by auto
      have "piece_ok ([], b)" using j(3) bt b(3) by (auto simp: piece_ok_def slot_name_Inr_iff)
      moreover have "drop i bs = fill braced (([], b) # ps) tail"
        using d ps(1) rest braced_def [of b] by simp
      moreover have "j + 2 = i + length b + 4" using b(2) by simp
      then have "rs = positions i (([], b) # ps)"
        using j(3,5) ps(3) bt by (simp only: slot_name_Inr_iff positions.simps Let_def) simp
      ultimately show ?thesis
        using ps(2) by (intro exI [of _ "([], b) # ps"] exI [of _ tail]) (simp add: template_ok_def)
    qed
  qed
qed

lemma byte_close: "byte (CHR ''}'') < 128"
  by simp

lemma scan_iff:
  assumes "whole_ascii t"
  shows "scan t = Some (Inr rs) \<longleftrightarrow>
    (\<exists>ps tail. t = fill braced ps tail \<and> template_ok ps tail \<and> rs = positions 0 ps)"
  using scan_from_found [of t 0 rs] scan_from_reads [of 0 t] assms by (auto simp: scan_def)

text \<open>No scan of a Rust string panics.\<close>

lemma scan_from_no_panic: "whole_ascii bs \<Longrightarrow> scan_from bs i \<noteq> None"
proof (induction bs i rule: scan_from.induct)
  case (1 bs i)
  show ?case
  proof (cases "Suc i < length bs \<and> bs ! i = CHR ''{'' \<and> bs ! Suc i = CHR ''{''")
    case True
    show ?thesis
    proof (cases "scan_close bs (i + 2)")
      case (Inl f)
      then show ?thesis using True by (simp add: scan_from_opened)
    next
      case (Inr j)
      obtain b rest where b: "drop (i + 2) bs = b @ ''}}'' @ rest" "j = i + 2 + length b"
        using scan_close_found [OF Inr] by blast
      have "drop i bs = ''{{'' @ drop (i + 2) bs" using True by (simp add: Cons_nth_drop_Suc [symmetric])
      then have "str_index bs (i + 2) j = Some b"
        using str_index_between [of i bs b rest] "1.prems" b by simp
      then show ?thesis
        using True Inr "1.IH"(1) [of j b] "1.prems" by (simp add: scan_from_opened split: sum.split)
    qed
  next
    case False
    then show ?thesis
      using "1.IH"(2) "1.prems" by (auto simp: scan_from.simps [of bs i])
  qed
qed

text \<open>Every reference stands inside the template, after the ones before it, and is its braces
  around the text its name is trimmed from.\<close>

lemma positions_increasing:
  "sorted_wrt (\<lambda>r r'. sr_end r \<le> sr_start r') (positions i ps) \<and>
     (\<forall>r \<in> set (positions i ps). i \<le> sr_start r \<and> sr_start r < sr_end r \<and>
        sr_end r \<le> i + length (fill braced ps tail))"
proof (induction i ps rule: positions.induct)
  case (2 i l b ps)
  then show ?case by (fastforce simp: Let_def braced_def [of b])
qed simp

lemma fill_refs_positions:
  "drop i t = fill braced ps tail \<Longrightarrow> is_char_boundary t i \<Longrightarrow> whole_ascii t \<Longrightarrow> i \<le> length t \<Longrightarrow>
     \<forall>r \<in> set (positions i ps). vals (sr_name r) \<noteq> None \<Longrightarrow>
     fill_refs t vals i (positions i ps) = Some (fill (\<lambda>b. the (vals (trim b))) ps tail)"
proof (induction ps arbitrary: i)
  case Nil
  then have "str_index t i (length t) = Some tail"
    by (auto simp: str_index_def is_char_boundary_def slice_def)
  then show ?case by simp
next
  case (Cons p ps)
  obtain l b where p: "p = (l, b)" by (cases p)
  let ?rest = "fill braced ps tail"
  have d: "drop i t = l @ ''{{'' @ b @ ''}}'' @ ?rest"
    using Cons.prems(1) unfolding p by (simp add: braced_def [of b])
  have d2: "drop (i + length l) t = ''{{'' @ b @ ''}}'' @ ?rest" using drop_appendD [OF d] .
  have len: "length t = i + length (drop i t)" using Cons.prems(4) by simp
  have "boundary (drop (i + length l) t)" unfolding d2 by (simp add: is_cont_def)
  then have lit: "str_index t i (i + length l) = Some l"
    using Cons.prems(2) len d by (auto simp: str_index_def is_char_boundary_def slice_def)
  have "drop (i + length l + length (''{{'' @ b @ ''}}'')) t = ?rest"
    using d2 by (intro drop_appendD [of "i + length l"]) simp
  moreover have "i + length l + length (''{{'' @ b @ ''}}'') = i + length l + length b + 4" by simp
  ultimately have d3: "drop (i + length l + length b + 4) t = ?rest" by (simp only:)
  have long: "i + length l + length b + 4 \<le> length t" using len unfolding d by simp
  have "t = (take i t @ l @ ''{{'' @ b @ ''}'') @ CHR ''}'' # ?rest"
    using append_take_drop_id [of i t] unfolding d by simp
  then have "boundary ?rest" using whole_ascii_after Cons.prems(3) by (metis byte_close)
  then have "is_char_boundary t (i + length l + length b + 4)"
    using d3 long by (simp add: is_char_boundary_def)
  then have "fill_refs t vals (i + length l + length b + 4) (positions (i + length l + length b + 4) ps) =
      Some (fill (\<lambda>b. the (vals (trim b))) ps tail)"
    using Cons.IH [of "i + length l + length b + 4"] d3 Cons.prems(3,5) long p
    by (simp add: Let_def)
  then show ?case using lit Cons.prems(5) p by (auto simp: Let_def)
qed

text \<open>The loop of the dry run sorts the names into three ordered sets.\<close>

definition names_of :: "(string \<Rightarrow> bool) \<Rightarrow> slot_ref list \<Rightarrow> string set" where
  "names_of P rs = Set.filter P (sr_name ` set rs)"

lemma names_of_simps [simp]:
  "names_of P [] = {}"
  "names_of P (r # rs) = (if P (sr_name r) then {sr_name r} else {}) \<union> names_of P rs"
  by (auto simp: names_of_def)

lemma classify_sets:
  "set (dr_unknown (classify vals registry linked rs rep)) = set (dr_unknown rep) \<union>
     names_of (\<lambda>n. \<not> is_known_slot n registry linked) rs"
  "set (dr_filled (classify vals registry linked rs rep)) = set (dr_filled rep) \<union>
     names_of (\<lambda>n. is_known_slot n registry linked \<and> vals n \<noteq> None) rs"
  "set (dr_unfilled (classify vals registry linked rs rep)) = set (dr_unfilled rep) \<union>
     names_of (\<lambda>n. is_known_slot n registry linked \<and> vals n = None) rs"
  by (induction vals registry linked rs rep rule: classify.induct) auto

definition report_sorted :: "dry_run_report \<Rightarrow> bool" where
  "report_sorted r \<longleftrightarrow> sorted_wrt (<) (dr_filled r) \<and> sorted_wrt (<) (dr_unfilled r) \<and>
     sorted_wrt (<) (dr_unknown r)"

lemma classify_sorted:
  "report_sorted rep \<Longrightarrow> report_sorted (classify vals registry linked rs rep)"
  by (induction vals registry linked rs rep rule: classify.induct)
    (auto simp: report_sorted_def bs_insert_sorted)

abbreviation empty_report :: dry_run_report where
  "empty_report \<equiv> \<lparr>dr_filled = [], dr_unfilled = [], dr_unknown = []\<rparr>"

lemma report_ok_classify:
  "report_ok (classify vals registry linked rs empty_report) \<longleftrightarrow>
     (\<forall>r \<in> set rs. is_known_slot (sr_name r) registry linked \<and> vals (sr_name r) \<noteq> None)"
  (is "report_ok ?r \<longleftrightarrow> ?P")
proof -
  have "report_ok ?r \<longleftrightarrow> set (dr_unfilled ?r) = {} \<and> set (dr_unknown ?r) = {}"
    by (simp add: report_ok_def)
  also have "\<dots> \<longleftrightarrow> ?P" unfolding classify_sets by (auto simp: names_of_def)
  finally show ?thesis .
qed

section \<open>Properties\<close>

lemma compile_cases:
  assumes "whole_ascii t"
  shows "(\<exists>e. scan t = Some (Inl e) \<and> compile t vals registry = Some (Inl e)) \<or>
    (\<exists>ps tail. t = fill braced ps tail \<and> template_ok ps tail \<and> scan t = Some (Inr (positions 0 ps)) \<and>
       compile t vals registry =
         (if \<forall>b \<in> set (map snd ps). is_known_slot (trim b) registry None \<and> vals (trim b) \<noteq> None
          then Some (Inr (fill (\<lambda>b. the (vals (trim b))) ps tail))
          else (let r = classify vals registry None (positions 0 ps) empty_report
                in Some (Inl (DryRunFailed (dr_unknown r) (dr_unfilled r))))))"
proof (cases "scan t")
  case None
  then show ?thesis using scan_from_no_panic [OF assms, of 0] by (simp add: scan_def)
next
  case (Some res)
  show ?thesis
  proof (cases res)
    case (Inl e)
    then show ?thesis using Some by (simp add: compile_def dry_run_def dry_run_inner_def)
  next
    case (Inr rs)
    then obtain ps tail where ps: "t = fill braced ps tail" "template_ok ps tail" "rs = positions 0 ps"
      using Some scan_iff [OF assms] by blast
    have names: "sr_name ` set (positions i ps) = trim ` snd ` set ps" for i
      by (induction i ps rule: positions.induct) (auto simp: Let_def)
    let ?ok = "\<forall>b \<in> set (map snd ps). is_known_slot (trim b) registry None \<and> vals (trim b) \<noteq> None"
    have ok: "(\<forall>r \<in> set (positions 0 ps). is_known_slot (sr_name r) registry None \<and> vals (sr_name r) \<noteq> None)
        \<longleftrightarrow> ?ok"
      (is "?A \<longleftrightarrow> _")
    proof -
      have "?A \<longleftrightarrow> (\<forall>n \<in> sr_name ` set (positions 0 ps). is_known_slot n registry None \<and> vals n \<noteq> None)"
        by blast
      then show ?thesis unfolding names by simp
    qed
    have "fill_refs t vals 0 (positions 0 ps) = Some (fill (\<lambda>b. the (vals (trim b))) ps tail)" if ?ok
      using fill_refs_positions [of 0 t ps tail vals] ps(1) ok that assms
      by (simp add: is_char_boundary_def)
    moreover have dry: "dry_run t vals registry =
        Some (Inr (classify vals registry None (positions 0 ps) empty_report))"
      using Some Inr ps(3) by (simp add: dry_run_def dry_run_inner_def)
    moreover have "report_ok (classify vals registry None (positions 0 ps) empty_report) \<longleftrightarrow> ?ok"
      unfolding report_ok_classify ok by (rule refl)
    ultimately have "compile t vals registry =
         (if ?ok then Some (Inr (fill (\<lambda>b. the (vals (trim b))) ps tail))
          else (let r = classify vals registry None (positions 0 ps) empty_report
                in Some (Inl (DryRunFailed (dr_unknown r) (dr_unfilled r)))))"
      using Some Inr ps(3) unfolding compile_def
      by (cases "report_ok (classify vals registry None (positions 0 ps) empty_report)") (simp_all add: Let_def)
    then show ?thesis using Some Inr ps by blast
  qed
qed

lemma positions_inj:
  "fill braced ps tail = fill braced qs tail' \<Longrightarrow> positions i ps = positions i qs \<Longrightarrow> template_ok ps tail \<Longrightarrow>
    ps = qs \<and> tail = tail'"
proof (induction ps arbitrary: i qs)
  case Nil
  then show ?case by (cases qs) (auto simp: Let_def)
next
  case (Cons p ps)
  obtain l b where p: "p = (l, b)" by (cases p)
  then obtain l' b' qs' where q: "qs = (l', b') # qs'"
    using Cons.prems(2) by (cases qs) (auto simp: Let_def)
  have len: "length l = length l'" "length b = length b'"
    "positions (i + length l + length b + 4) ps = positions (i + length l + length b + 4) qs'"
    using Cons.prems(2) p q by (auto simp: Let_def)
  have lb: "l = l' \<and> b = b' \<and> fill braced ps tail = fill braced qs' tail'"
    using Cons.prems(1) len(1,2) p q by (simp add: braced_def [of b] braced_def [of b'])
  have "template_ok ps tail" using Cons.prems(3) by (simp add: template_ok_def)
  then have "ps = qs' \<and> tail = tail'" using lb Cons.IH [OF _ len(3)] by blast
  then show ?case using lb p q by simp
qed

text \<open>Claim C25. What the compiler produces: for every template (a Rust string) it never panics, and
  it succeeds exactly when the template is literal text and references \<open>{{ name }}\<close> in the grammar
  above, each name known and given a value; the text is then the literals as they stand, with each
  reference replaced by its value and no value read again.\<close>

theorem compile_substitutes:
  assumes "whole_ascii t"
  shows "compile t vals registry \<noteq> None \<and>
    (compile t vals registry = Some (Inr out) \<longleftrightarrow>
      (\<exists>ps tail. t = fill braced ps tail \<and> template_ok ps tail \<and>
         (\<forall>b \<in> set (map snd ps). is_known_slot (trim b) registry None \<and> vals (trim b) \<noteq> None) \<and>
         out = fill (\<lambda>b. the (vals (trim b))) ps tail))"
    (is "?np \<and> (?c \<longleftrightarrow> ?g)")
proof -
  note cases = compile_cases [OF assms, of vals registry]
  have np: ?np using cases by (auto simp: Let_def)
  have "?c \<Longrightarrow> ?g" using cases by (auto simp: Let_def split: if_splits)
  moreover have ?c if g: ?g
  proof -
    obtain ps tail where ps: "t = fill braced ps tail" "template_ok ps tail"
      "\<forall>b \<in> set (map snd ps). is_known_slot (trim b) registry None \<and> vals (trim b) \<noteq> None"
      "out = fill (\<lambda>b. the (vals (trim b))) ps tail"
      using g by blast
    then have scan: "scan t = Some (Inr (positions 0 ps))" using scan_iff [OF assms] by blast
    with cases obtain qs tail' where qs: "t = fill braced qs tail'" "template_ok qs tail'"
      "positions 0 ps = positions 0 qs"
      "compile t vals registry =
         (if \<forall>b \<in> set (map snd qs). is_known_slot (trim b) registry None \<and> vals (trim b) \<noteq> None
          then Some (Inr (fill (\<lambda>b. the (vals (trim b))) qs tail'))
          else (let r = classify vals registry None (positions 0 qs) empty_report
                in Some (Inl (DryRunFailed (dr_unknown r) (dr_unfilled r)))))"
      by auto
    have "ps = qs \<and> tail = tail'" using positions_inj qs(1,3) ps(1,2) by metis
    then show ?c using ps qs(4) by simp
  qed
  ultimately show ?thesis using np by blast
qed

text \<open>The dry run sorts every name of the scan, once and in order: unknown names, known
  names with a value and known names without, with or without a list of linked skills.\<close>

theorem dry_run_classifies:
  assumes "dry_run_inner t vals registry linked = Some (Inr rep)"
  shows "\<exists>rs. scan t = Some (Inr rs) \<and>
    sorted_wrt (<) (dr_filled rep) \<and> sorted_wrt (<) (dr_unfilled rep) \<and> sorted_wrt (<) (dr_unknown rep) \<and>
    set (dr_unknown rep) = {n \<in> sr_name ` set rs. \<not> is_known_slot n registry linked} \<and>
    set (dr_filled rep) = {n \<in> sr_name ` set rs. is_known_slot n registry linked \<and> vals n \<noteq> None} \<and>
    set (dr_unfilled rep) = {n \<in> sr_name ` set rs. is_known_slot n registry linked \<and> vals n = None}"
proof -
  obtain rs where rs: "scan t = Some (Inr rs)" "rep = classify vals registry linked rs empty_report"
    using assms by (auto simp: dry_run_inner_def map_sum_def split: sum.splits) (metis sum.exhaust)
  have "report_sorted rep" using rs(2) classify_sorted by (simp add: report_sorted_def)
  then show ?thesis
    using rs by (auto simp: report_sorted_def classify_sets names_of_def)
qed

section \<open>Witnesses\<close>

definition sample_values :: slot_values where
  "sample_values = [''task.id'' \<mapsto> ''T-1'', ''node.id'' \<mapsto> ''{{ x }}'']"

theorem compile_substitutes_witness:
  "compile ''a {{ task.id}} b{{node.id}}}'' sample_values default_registry = Some (Inr ''a T-1 b{{ x }}}'')"
proof -
  let ?t = "''a {{ task.id}} b{{node.id}}}''"
  let ?ps = "[(''a '', '' task.id''), ('' b'', ''node.id'')]"
  have ok: "whole_ascii ?t" "template_ok ?ps ''}''" "?t = fill braced ?ps ''}''"
    "\<forall>b \<in> set (map snd ?ps). is_known_slot (trim b) default_registry None \<and> sample_values (trim b) \<noteq> None"
    "''a T-1 b{{ x }}}'' = fill (\<lambda>b. the (sample_values (trim b))) ?ps ''}''"
    by code_simp+
  show ?thesis
    using compile_substitutes [OF ok(1), of sample_values default_registry "''a T-1 b{{ x }}}''"]
      ok(2-5) by blast
qed

theorem dry_run_classifies_witness:
  "\<exists>rep rs. dry_run_inner ''{{task.id}}{{ q.r }}'' sample_values default_registry None = Some (Inr rep) \<and>
     scan ''{{task.id}}{{ q.r }}'' = Some (Inr rs) \<and>
     set (dr_unknown rep) = {n \<in> sr_name ` set rs. \<not> is_known_slot n default_registry None}"
proof -
  have "dry_run_inner ''{{task.id}}{{ q.r }}'' sample_values default_registry None =
      Some (Inr \<lparr>dr_filled = [''task.id''], dr_unfilled = [], dr_unknown = [''q.r'']\<rparr>)"
    by code_simp
  then show ?thesis using dry_run_classifies by meson
qed

end
