(* ===== verification/Node_Kernel.thy ===== *)
theory Node_Kernel
  imports Tx
begin

text \<open>
  The node kernel of \<open>crates/orgasmic-core/src/node_kernel.rs\<close>: the node file, journal entries and
  their rendering, and the edits of a journal in place. The functions take and return file contents;
  creating the node directory is input and output. An \<open>anyhow\<close> message is a constructor of
  \<open>kernel_error\<close>. The spans used are those of the org parser, which lie in the file
  (\<open>Org_Structure\<close>), so slicing is total here.
\<close>

section \<open>Nodes\<close>

definition NODE_FILE :: string where
  "NODE_FILE = ''node.org''"

definition JOURNAL_FILE :: string where
  "JOURNAL_FILE = ''journal.org''"

definition ORGASMIC_VERSION :: nat where
  "ORGASMIC_VERSION = 2"

definition JOURNAL_SIZE_LINT_BYTES :: nat where
  "JOURNAL_SIZE_LINT_BYTES = 500 * 1024"

definition node_org_header :: "string \<Rightarrow> string \<Rightarrow> string" where
  "node_org_header kind_label i =
     ''#+title: orgasmic '' @ kind_label @ '' '' @ i @ [LF] @ ''#+orgasmic_version: '' @
     show_nat ORGASMIC_VERSION @ [LF, LF]"

definition journal_header :: "string \<Rightarrow> string" where
  "journal_header i =
     ''#+title: orgasmic journal '' @ i @ [LF] @ ''#+orgasmic_version: '' @
     show_nat ORGASMIC_VERSION @ [LF]"

datatype kernel_error =
    OrgFailure org_error
  | NoHeading string
  | ManyHeadings string
  | NoId string
  | DuplicateProperty string string
  | LacksRequired string
  | InvalidDrawer tx_error
  | EntryNotFound string
  | EntryWithoutType string
  | NotAComment string
  | DrawerEnd

record node =
  nd_id :: string
  nd_title :: string
  nd_state :: "string option"
  nd_properties :: "(string \<times> string) list"
  nd_body :: string

definition parse_file :: "string \<Rightarrow> string \<Rightarrow> kernel_error + org_file" where
  "parse_file content display = map_sum OrgFailure id (org_parse content display)"

definition parse_node :: "string \<Rightarrow> string \<Rightarrow> kernel_error + node" where
  "parse_node content display =
     try_res (parse_file content display) (\<lambda>file.
       case of_headings file of
         [] \<Rightarrow> Inl (NoHeading display)
       | h # hs \<Rightarrow>
           if hs \<noteq> [] then Inl (ManyHeadings display)
           else
             try_res (ok_or (NoId display) (property h ''ID'')) (\<lambda>i.
               Inr \<lparr>nd_id = i, nd_title = h_title h, nd_state = h_todo h,
                    nd_properties = map (\<lambda>e. (pe_key e, pe_value e)) (property_entries h),
                    nd_body = slice content (h_body h)\<rparr>))"

section \<open>Journal entries\<close>

record journal_entry =
  je_id :: string
  je_time :: string
  je_ty :: string
  je_actor :: string
  je_machine :: string
  je_extras :: "(string \<times> string) list"
  je_body :: string

definition je_extra :: "journal_entry \<Rightarrow> string \<Rightarrow> string option" where
  "je_extra e key = map_option snd (find (\<lambda>(k, _). k = key) (je_extras e))"

definition is_open_comment :: "journal_entry \<Rightarrow> bool" where
  "is_open_comment e \<longleftrightarrow> je_ty e = ''comment'' \<and> je_extra e ''CONSUMED'' \<noteq> Some ''true''"

definition REQUIRED :: "string list" where
  "REQUIRED = [''TX_ID'', ''TIME'', ''TYPE'', ''ACTOR'', ''MACHINE'']"

text \<open>The first key that \<open>seen\<close> already holds.\<close>

fun duplicate_key :: "string set \<Rightarrow> string list \<Rightarrow> string option" where
  "duplicate_key seen [] = None"
| "duplicate_key seen (k # ks) = (if k \<in> seen then Some k else duplicate_key (insert k seen) ks)"

definition je_validate :: "journal_entry \<Rightarrow> kernel_error + unit" where
  "je_validate e =
     (case duplicate_key (set REQUIRED) (map fst (je_extras e)) of
        Some key \<Rightarrow> Inl (DuplicateProperty (je_id e) key)
      | None \<Rightarrow>
          map_sum InvalidDrawer id
            (tx_validate ((tx_new (je_id e) (je_ty e) (je_time e) (je_actor e) (je_machine e))
               \<lparr>tx_extra := je_extras e\<rparr>)))"

definition journal_entry_of_heading :: "string \<Rightarrow> string \<Rightarrow> heading \<Rightarrow> kernel_error + journal_entry" where
  "journal_entry_of_heading content display h =
     (case duplicate_key {} (map pe_key (property_entries h)) of
        Some key \<Rightarrow> Inl (DuplicateProperty (h_title h) key)
      | None \<Rightarrow>
          (case (property h ''TX_ID'', property h ''TIME'', property h ''TYPE'', property h ''ACTOR'',
                 property h ''MACHINE'') of
             (Some i, Some time, Some ty, Some actor, Some machine) \<Rightarrow>
               let entry = \<lparr>je_id = i, je_time = time, je_ty = ty, je_actor = actor,
                 je_machine = machine,
                 je_extras = map (\<lambda>e. (pe_key e, pe_value e))
                   (filter (\<lambda>e. pe_key e \<notin> set REQUIRED) (property_entries h)),
                 je_body = trim (slice content (fst (h_body h), snd (h_span h)))\<rparr>
               in try_res (je_validate entry) (\<lambda>_. Inr entry)
           | _ \<Rightarrow> Inl (LacksRequired (h_title h))))"

fun journal_entries_of ::
  "string \<Rightarrow> string \<Rightarrow> heading list \<Rightarrow> kernel_error + journal_entry list" where
  "journal_entries_of content display [] = Inr []"
| "journal_entries_of content display (h # hs) =
     try_res (journal_entry_of_heading content display h) (\<lambda>e.
     try_res (journal_entries_of content display hs) (\<lambda>es. Inr (e # es)))"

definition parse_journal :: "string \<Rightarrow> string \<Rightarrow> kernel_error + journal_entry list" where
  "parse_journal content display =
     (if trim content = [] then Inr []
      else
        try_res (parse_file content display) (\<lambda>file.
          journal_entries_of content display (of_headings file)))"

definition journal_entry_block :: "journal_entry \<Rightarrow> string" where
  "journal_entry_block e =
     [LF] @ ''* '' @ je_id e @ '' '' @ je_ty e @ [LF] @ '':PROPERTIES:'' @ [LF] @
     '':TX_ID:   '' @ je_id e @ [LF] @ '':TIME:    '' @ je_time e @ [LF] @
     '':TYPE:    '' @ je_ty e @ [LF] @ '':ACTOR:   '' @ je_actor e @ [LF] @
     '':MACHINE: '' @ je_machine e @ [LF] @
     concat (map (\<lambda>(k, v). '':'' @ k @ '': '' @ v @ [LF]) (je_extras e)) @
     '':END:'' @ [LF] @ (if je_body e \<noteq> [] then [LF] @ je_body e @ [LF] else [])"

definition append_entry :: "string \<Rightarrow> string \<Rightarrow> journal_entry \<Rightarrow> string" where
  "append_entry current i entry =
     (if current = [] then journal_header i else current) @ journal_entry_block entry"

definition journal_size_lint :: "string \<Rightarrow> bool" where
  "journal_size_lint content \<longleftrightarrow> JOURNAL_SIZE_LINT_BYTES < length content"

section \<open>Edits in place\<close>

type_synonym entry_spans = "span \<times> (string \<times> span) list"

definition entry_spans_of :: "string \<Rightarrow> string \<Rightarrow> kernel_error + entry_spans" where
  "entry_spans_of content entry_id =
     try_res (parse_file content JOURNAL_FILE) (\<lambda>file.
       case find (\<lambda>h. property h ''TX_ID'' = Some entry_id) (of_headings file) of
         None \<Rightarrow> Inl (EntryNotFound entry_id)
       | Some h \<Rightarrow>
           Inr ((fst (h_body h), snd (h_span h)),
                map (\<lambda>e. (pe_key e, pe_value_span e)) (property_entries h)))"

definition comment_spans :: "string \<Rightarrow> string \<Rightarrow> kernel_error + entry_spans" where
  "comment_spans content entry_id =
     try_res (entry_spans_of content entry_id) (\<lambda>spans.
       case find (\<lambda>(k, _). k = ''TYPE'') (snd spans) of
         None \<Rightarrow> Inl (EntryWithoutType entry_id)
       | Some (_, ty) \<Rightarrow>
           if slice content ty \<noteq> ''comment'' then Inl (NotAComment entry_id) else Inr spans)"

definition drawer_end :: "string \<Rightarrow> nat \<Rightarrow> kernel_error + nat" where
  "drawer_end content body_start = ok_or DrawerEnd (rfind_sub '':END:'' (take body_start content))"

definition upsert_comment_property ::
  "string \<Rightarrow> string \<Rightarrow> string \<Rightarrow> string \<Rightarrow> kernel_error + string" where
  "upsert_comment_property content entry_id key v =
     try_res (comment_spans content entry_id) (\<lambda>(body, props).
       case find (\<lambda>(k, _). k = key) props of
         Some (_, sp) \<Rightarrow> Inr (replace_range content sp v)
       | None \<Rightarrow>
           try_res (drawer_end content (fst body)) (\<lambda>i.
             Inr (replace_range content (i, i) ('':'' @ key @ '': '' @ v @ [LF]))))"

definition edit_comment_body ::
  "string \<Rightarrow> string \<Rightarrow> string \<Rightarrow> string \<Rightarrow> string \<Rightarrow> kernel_error + string" where
  "edit_comment_body content entry_id new_body edited_by edited_at =
     try_res (upsert_comment_property content entry_id ''EDITED_BY'' edited_by) (\<lambda>stamped1.
     try_res (upsert_comment_property stamped1 entry_id ''EDITED_AT'' edited_at) (\<lambda>stamped.
     try_res (comment_spans stamped entry_id) (\<lambda>(body, _).
       Inr (replace_range stamped body ([LF] @ trim new_body @ [LF])))))"

text \<open>The \<open>expect\<close> of \<open>tombstone_comment\<close> is the error branch here; \<open>comment_spans\<close>
  has just found a \<open>TYPE\<close>.\<close>

definition tombstone_comment ::
  "string \<Rightarrow> string \<Rightarrow> string \<Rightarrow> string \<Rightarrow> kernel_error + string" where
  "tombstone_comment content entry_id deleted_by deleted_at =
     try_res (upsert_comment_property content entry_id ''DELETED_BY'' deleted_by) (\<lambda>stamped1.
     try_res (upsert_comment_property stamped1 entry_id ''DELETED_AT'' deleted_at) (\<lambda>stamped.
     try_res (comment_spans stamped entry_id) (\<lambda>(body, props).
       case find (\<lambda>(k, _). k = ''TYPE'') props of
         None \<Rightarrow> Inl (EntryWithoutType entry_id)
       | Some (_, ty) \<Rightarrow>
           Inr (take (fst ty) stamped @ ''comment.deleted'' @ slice stamped (snd ty, fst body) @
                drop (snd body) stamped))))"

section \<open>Consuming the open comments\<close>

type_synonym splice = "span \<times> string"

definition open_heading :: "heading \<Rightarrow> bool" where
  "open_heading h \<longleftrightarrow>
     \<not> (property h ''TYPE'' \<noteq> Some ''comment'' \<or> property h ''CONSUMED'' = Some ''true'')"

definition consume_edit :: "string \<Rightarrow> heading \<Rightarrow> kernel_error + splice" where
  "consume_edit content h =
     (case find (\<lambda>e. pe_key e = ''CONSUMED'') (property_entries h) of
        Some e \<Rightarrow> Inr (pe_value_span e, ''true'')
      | None \<Rightarrow>
          try_res (drawer_end content (fst (h_body h))) (\<lambda>i. Inr ((i, i), '':CONSUMED: true'' @ [LF])))"

fun consume_loop :: "string \<Rightarrow> heading list \<Rightarrow> kernel_error + (splice list \<times> string list)" where
  "consume_loop content [] = Inr ([], [])"
| "consume_loop content (h # hs) =
     (if \<not> open_heading h then consume_loop content hs
      else
        try_res (consume_edit content h) (\<lambda>edit.
        try_res (consume_loop content hs) (\<lambda>(edits, ids).
          Inr (edit # edits, (case property h ''TX_ID'' of None \<Rightarrow> [] | Some i \<Rightarrow> i) # ids))))"

fun splice_all :: "string \<Rightarrow> nat \<Rightarrow> splice list \<Rightarrow> string" where
  "splice_all content cursor [] = drop cursor content"
| "splice_all content cursor ((r, rep) # es) =
     slice content (cursor, fst r) @ rep @ splice_all content (snd r) es"

definition consume_open_comments :: "string \<Rightarrow> kernel_error + (string \<times> string list)" where
  "consume_open_comments content =
     (if trim content = [] then Inr (content, [])
      else
        try_res (parse_file content JOURNAL_FILE) (\<lambda>file.
        try_res (consume_loop content (of_headings file)) (\<lambda>(edits, consumed).
          Inr (splice_all content 0 (sort_key (\<lambda>e. fst (fst e)) edits), consumed))))"

section \<open>Properties\<close>

text \<open>Edits in order: each starts where the one before it ended or later, and inside the text.\<close>

fun in_order :: "nat \<Rightarrow> nat \<Rightarrow> splice list \<Rightarrow> bool" where
  "in_order n cursor [] \<longleftrightarrow> cursor \<le> n"
| "in_order n cursor ((r, _) # es) \<longleftrightarrow> cursor \<le> fst r \<and> fst r \<le> snd r \<and> in_order n (snd r) es"

lemma in_order_mono: "in_order n c es \<Longrightarrow> c' \<le> c \<Longrightarrow> in_order n c' es"
  by (cases es) auto

lemma in_order_le: "in_order n c es \<Longrightarrow> c \<le> n"
  by (induction n c es rule: in_order.induct) auto

lemma in_order_sorted: "in_order n c es \<Longrightarrow> sorted (map (\<lambda>e. fst (fst e)) es) \<and> (\<forall>e \<in> set es. c \<le> fst (fst e))"
  by (induction n c es rule: in_order.induct) (auto intro: le_trans)

text \<open>The last \<open>:END:\<close> before a position is at or after any other one there.\<close>

lemma rfind_sub_last: "starts_with (drop j s) p \<Longrightarrow> j \<le> length s \<Longrightarrow> \<exists>i \<ge> j. rfind_sub p s = Some i"
proof (induction s arbitrary: j)
  case (Cons c s)
  show ?case
  proof (cases j)
    case 0
    then show ?thesis using Cons.prems by (auto split: option.split)
  next
    case (Suc k)
    then obtain i where "i \<ge> k" "rfind_sub p s = Some i" using Cons by auto
    then show ?thesis using Suc by simp
  qed
qed (simp add: starts_with_def)

text \<open>The edit of one comment: the value of its \<open>:CONSUMED:\<close> line, or a new line in front of the
  \<open>:END:\<close> of its drawer; in both cases inside the heading, before its body.\<close>

definition consume_edit_ok :: "string \<Rightarrow> heading \<Rightarrow> splice \<Rightarrow> bool" where
  "consume_edit_ok content h edit \<longleftrightarrow>
     fst (h_span h) \<le> fst (fst edit) \<and> fst (fst edit) \<le> snd (fst edit) \<and>
     snd (fst edit) \<le> fst (h_body h) \<and>
     (if property h ''CONSUMED'' = None
      then slice content (fst edit) = [] \<and>
           slice content (fst (fst edit), fst (fst edit) + 5) = '':END:'' \<and>
           list_all (\<lambda>e. snd (pe_span e) \<le> fst (fst edit)) (property_entries h) \<and>
           snd edit = '':CONSUMED: true'' @ [LF]
      else property h ''CONSUMED'' = Some (slice content (fst edit)) \<and> snd edit = ''true'')"

lemma consume_edit_works:
  assumes ok: "heading_ok content 1 h" and len: "snd (h_span h) \<le> length content"
    and op: "open_heading h"
  shows "\<exists>edit. consume_edit content h = Inr edit \<and> consume_edit_ok content h edit"
proof -
  have "property h ''TYPE'' = Some ''comment''" using op by (simp add: open_heading_def)
  then obtain d where d: "h_properties h = Some d" by (auto simp: property_def split: option.splits)
  note spans = heading_ok_spans [OF ok]
  have dr: "drawer_ok content (fst (h_body h)) d" and ti: "fst (h_span h) < fst (pd_span d)"
    using spans(9) [OF d] by auto
  have es: "property_entries h = pd_entries d" using d by (simp add: property_entries_def)
  have body: "fst (h_body h) \<le> length content" using spans(6,7) len by simp
  show ?thesis
  proof (cases "find (\<lambda>e. pe_key e = ''CONSUMED'') (property_entries h)")
    case (Some e)
    then have "e \<in> set (pd_entries d)" using find_SomeD es by metis
    then have e: "entry_in content (pd_span d) e" "snd (pd_span d) = fst (h_body h)"
      using dr by (auto simp: drawer_ok_def list_all_iff)
    moreover have "property h ''CONSUMED'' = Some (pe_value e)"
      using Some d es by (simp add: property_def)
    ultimately show ?thesis
      using Some ti by (auto simp: consume_edit_def consume_edit_ok_def entry_in_def)
  next
    case None
    obtain i where i: "fst (pd_span d) < i" "i + 5 \<le> fst (h_body h)" "slice content (i, i + 5) = '':END:''"
      "list_all (\<lambda>e. snd (pe_span e) \<le> i) (pd_entries d)"
      using dr by (auto simp: drawer_ok_def)
    let ?pre = "take (fst (h_body h)) content"
    have "take 5 (drop i ?pre) = slice content (i, i + 5)"
      using i(2) by (simp add: slice_def drop_take min_def)
    then have "starts_with (drop i ?pre) '':END:''" using i(3) by (simp add: starts_with_def eval_nat_numeral)
    then obtain j where j: "i \<le> j" "rfind_sub '':END:'' ?pre = Some j"
      using rfind_sub_last [of i ?pre] i(2) body by fastforce
    have lp: "length ?pre = fst (h_body h)" using body by simp
    have e: "j + 5 \<le> length ?pre" "take 5 (drop j ?pre) = '':END:''"
      using rfind_sub_Some [OF j(2)] by (auto simp: starts_with_def eval_nat_numeral)
    have j5: "j + 5 \<le> fst (h_body h)" using e(1) unfolding lp .
    then have "slice content (j, j + 5) = take 5 (drop j ?pre)"
      by (simp add: slice_def drop_take min_def)
    note j5 = j5 this [unfolded e(2)]
    have "list_all (\<lambda>e. snd (pe_span e) \<le> j) (pd_entries d)"
      using i(4) j(1) by (auto simp: list_all_iff)
    moreover have "property h ''CONSUMED'' = None" using None d es by (simp add: property_def)
    ultimately show ?thesis
      using None j j5 i(1) ti es
      by (auto simp: consume_edit_def consume_edit_ok_def drawer_end_def)
  qed
qed

lemma consume_loop_works:
  "adjacent a (length content) (map h_span hs) \<Longrightarrow> list_all (heading_ok content 1) hs \<Longrightarrow>
     \<exists>edits. consume_loop content hs =
         Inr (edits, map (\<lambda>h. case property h ''TX_ID'' of None \<Rightarrow> [] | Some i \<Rightarrow> i)
                (filter open_heading hs)) \<and>
       list_all2 (consume_edit_ok content) (filter open_heading hs) edits \<and>
       in_order (length content) a edits"
proof (induction hs arbitrary: a)
  case (Cons h hs)
  have adj: "fst (h_span h) = a" "adjacent (snd (h_span h)) (length content) (map h_span hs)"
    using Cons.prems(1) by auto
  have h: "heading_ok content 1 h" using Cons.prems(2) by simp
  have le: "snd (h_span h) \<le> length content" using adjacent_le [OF adj(2)] .
  obtain edits where IH: "consume_loop content hs =
      Inr (edits, map (\<lambda>h. case property h ''TX_ID'' of None \<Rightarrow> [] | Some i \<Rightarrow> i)
        (filter open_heading hs))"
    "list_all2 (consume_edit_ok content) (filter open_heading hs) edits"
    "in_order (length content) (snd (h_span h)) edits"
    using Cons.IH [OF adj(2)] Cons.prems(2) by auto
  show ?case
  proof (cases "open_heading h")
    case False
    have "a \<le> snd (h_span h)" using Cons.prems(1) by simp
    then show ?thesis using False IH in_order_mono by auto
  next
    case True
    obtain edit where e: "consume_edit content h = Inr edit" "consume_edit_ok content h edit"
      using consume_edit_works [OF h le True] by blast
    have "snd (fst edit) \<le> snd (h_span h)"
      using e(2) heading_ok_spans(6,7) [OF h] by (auto simp: consume_edit_ok_def)
    then have "in_order (length content) a (edit # edits)"
      using e(2) adj(1) in_order_mono [OF IH(3)] by (cases edit) (auto simp: consume_edit_ok_def)
    then show ?thesis using True e IH by auto
  qed
qed simp

text \<open>Consuming the open comments of a journal that parses never fails: the returned ids are
  those of the open comments, in file order, and the new text is the old one with exactly one edit per
  open comment, in order, none overlapping another, each replacing the value of the comment's
  \<open>:CONSUMED:\<close> line or adding that line at the end of its drawer. A journal that does not parse is
  an error, and a blank one stays as it is.\<close>

theorem consume_open_comments_exact:
  "if trim content = [] then consume_open_comments content = Inr (content, [])
   else (case org_parse content JOURNAL_FILE of
           Inl e \<Rightarrow> consume_open_comments content = Inl (OrgFailure e)
         | Inr file \<Rightarrow>
             (\<exists>edits. consume_open_comments content =
                 Inr (splice_all content 0 edits,
                      map (\<lambda>h. case property h ''TX_ID'' of None \<Rightarrow> [] | Some i \<Rightarrow> i)
                        (filter open_heading (of_headings file))) \<and>
               list_all2 (consume_edit_ok content) (filter open_heading (of_headings file)) edits \<and>
               in_order (length content) 0 edits))"
proof (cases "org_parse content JOURNAL_FILE")
  case (Inl e)
  then show ?thesis by (simp add: consume_open_comments_def parse_file_def)
next
  case (Inr f)
  have fok: "of_source f = content" "file_ok f" using org_parse_ok [OF Inr] by auto
  obtain edits where edits: "consume_loop content (of_headings f) =
      Inr (edits, map (\<lambda>h. case property h ''TX_ID'' of None \<Rightarrow> [] | Some i \<Rightarrow> i)
        (filter open_heading (of_headings f)))"
    "list_all2 (consume_edit_ok content) (filter open_heading (of_headings f)) edits"
    "in_order (length content) (snd (of_prelude f)) edits"
    using consume_loop_works [of "snd (of_prelude f)" content "of_headings f"] fok
    by (auto simp: file_ok_def)
  have ord: "in_order (length content) 0 edits" using in_order_mono [OF edits(3)] by simp
  have "sort_key (\<lambda>e. fst (fst e)) edits = edits"
    using in_order_sorted [OF ord] by (simp add: sort_key_id_if_sorted)
  then show ?thesis
    using Inr edits ord by (auto simp: consume_open_comments_def parse_file_def)
qed

end
