(* ===== verification/Node_Types.thy ===== *)
theory Node_Types
  imports Ids Org_Structure
begin

text \<open>
  Node types: the descriptors of \<open>crates/orgasmic-core/src/node_type.rs\<close>, the registry of
  \<open>node_registry.rs\<close>, the kinds of \<open>node_kind.rs\<close> and the collection names of
  \<open>paths.rs\<close>. Messages are constructors of \<open>nt_error\<close>. The compiled write hooks, function
  pointers the caller registers, are functions of the model with errors of type \<open>string\<close>. Creating a
  directory is a parameter: what \<open>create_dir\<close> answers for each id.
\<close>

section \<open>Collections\<close>

datatype nt_error =
    InvalidComponent
  | NtParse org_error
  | NotOneHeading string
  | MissingNodeType string
  | MultipleNodeTypes string
  | MissingRequired string string
  | ReservedCollection string string
  | InvalidCollection string string
  | BadIdPrefix string
  | BadStates string
  | BadTransition string string
  | TransitionSource string string
  | TransitionTarget string string
  | DuplicateTransition string string
  | IncompleteTransitions string
  | TransitionsWithoutStates string
  | UnknownCollection string
  | MissingId
  | ForeignId string
  | MissingProperty string
  | DuplicateKey string
  | BadState "string list"
  | TransitionRefused string string
  | NotInitial
  | StateRemoved
  | HookRefused string
  | SingletonPrefix string
  | CollectionTaken string
  | PrefixConflict string string
  | UnknownKind string
  | ForeignKind string string
  | UnownedId string

definition validate_component :: "string \<Rightarrow> nt_error + unit" where
  "validate_component v =
     (if v = [] \<or> v = ''.'' \<or> v = ''..'' \<or> CHR ''/'' \<in> set v \<or> CHR 0x5C \<in> set v \<or>
         list_ex is_control (chars v)
      then Inl InvalidComponent else Inr ())"

definition infrastructure_names :: "string list" where
  "infrastructure_names =
    [''machines'', ''project'', ''goal'', ''handoff'', ''task'', ''decision'', ''term'', ''artifact'',
     ''tx'', ''tmp'', ''views'', ''attachments'', ''chat'', ''conventions'', ''schema'', ''skills'',
     ''prompts'', ''plugins'', ''sessions'', ''runs'', ''dispatches'', ''dispatch-records'', ''repairs'',
     ''claims'', ''hooks'', ''config'', ''history'']"

definition is_node_collection :: "string \<Rightarrow> bool" where
  "is_node_collection name \<longleftrightarrow>
     is_ok (validate_component name) \<and> name \<notin> set infrastructure_names \<and>
     \<not> starts_with name ''.''"

section \<open>Kinds\<close>

datatype node_kind = NodeKind (kind_name: string)

definition kind_of_collection :: "string \<Rightarrow> node_kind" where
  "kind_of_collection collection =
     (if collection = ''tasks'' then NodeKind ''task''
      else if collection = ''decisions'' then NodeKind ''decision''
      else if collection = ''glossary'' then NodeKind ''glossary''
      else if collection = ''artifacts'' then NodeKind ''artifact''
      else NodeKind collection)"

definition singleton_kind :: "string \<Rightarrow> node_kind option" where
  "singleton_kind kind =
     (if kind = ''project'' then Some (NodeKind ''project'')
      else if kind = ''goal'' then Some (NodeKind ''goal'')
      else if kind = ''handoff'' then Some (NodeKind ''handoff'')
      else None)"

definition collection_name :: "node_kind \<Rightarrow> string option" where
  "collection_name k =
     (let s = kind_name k
      in if s = ''project'' \<or> s = ''goal'' \<or> s = ''handoff'' then None
         else if s = ''task'' then Some ''tasks''
         else if s = ''decision'' then Some ''decisions''
         else if s = ''artifact'' then Some ''artifacts''
         else Some s)"

definition kind_artifact_name :: "node_kind \<Rightarrow> string" where
  "kind_artifact_name k =
     (let s = kind_name k
      in if s = ''project'' then ''project file''
         else if s = ''goal'' then ''goal file''
         else if s = ''handoff'' then ''handoff file''
         else if s = ''task'' then ''task file''
         else if s = ''decision'' then ''decisions file''
         else if s = ''glossary'' then ''glossary file''
         else ''node file'')"

section \<open>Descriptors\<close>

record descriptor =
  nt_collection :: string
  nt_id_prefix :: string
  nt_label :: string
  nt_label_plural :: string
  nt_required :: "string list"
  nt_states :: "string list"
  nt_transitions :: "(string \<times> string list) list"
  nt_regenerate_prompt :: "string option"
  nt_chat_prompt :: "string option"

definition opt_words :: "string option \<Rightarrow> string list" where
  "opt_words v = (case v of None \<Rightarrow> [] | Some s \<Rightarrow> split_whitespace s)"

definition nonblank_property :: "heading \<Rightarrow> string \<Rightarrow> string option" where
  "nonblank_property h key =
     (case property h key of
        None \<Rightarrow> None
      | Some v \<Rightarrow> if trim v = [] then None else Some (trim v))"

definition required_property :: "string \<Rightarrow> heading \<Rightarrow> string \<Rightarrow> nt_error + string" where
  "required_property display h key = ok_or (MissingRequired display key) (nonblank_property h key)"

text \<open>The heading the descriptor is on: the root, or its one section with a \<open>COLLECTION\<close>.\<close>

definition descriptor_heading :: "string \<Rightarrow> heading \<Rightarrow> nt_error + heading" where
  "descriptor_heading display root =
     (if property root ''COLLECTION'' \<noteq> None then Inr root
      else
        (case filter (\<lambda>h. property h ''COLLECTION'' \<noteq> None) (h_sections root) of
           [] \<Rightarrow> Inl (MissingNodeType display)
         | [h] \<Rightarrow> Inr h
         | _ \<Rightarrow> Inl (MultipleNodeTypes display)))"

fun parse_transitions ::
  "string \<Rightarrow> string list \<Rightarrow> string list \<Rightarrow> (string \<times> string list) list \<Rightarrow>
     nt_error + (string \<times> string list) list" where
  "parse_transitions display states [] acc = Inr acc"
| "parse_transitions display states (rule # rules) acc =
     (case split_once (CHR ''>'') rule of
        None \<Rightarrow> Inl (BadTransition display rule)
      | Some (source, targets) \<Rightarrow>
          if source \<notin> set states then Inl (TransitionSource display source)
          else
            (let targets = (if targets = ''-'' then [] else split_on (CHR '','') targets)
             in case find (\<lambda>t. t \<notin> set states) targets of
                  Some t \<Rightarrow> Inl (TransitionTarget display t)
                | None \<Rightarrow>
                    if bt_get acc source \<noteq> None then Inl (DuplicateTransition display source)
                    else parse_transitions display states rules (bt_insert source targets acc)))"

definition parse_descriptor :: "string \<Rightarrow> string \<Rightarrow> nt_error + descriptor" where
  "parse_descriptor source display =
     try_res (map_sum NtParse id (org_parse source display)) (\<lambda>file.
       case of_headings file of
         [root] \<Rightarrow>
           try_res (descriptor_heading display root) (\<lambda>h.
           try_res (required_property display h ''COLLECTION'') (\<lambda>collection.
             if \<not> is_node_collection collection then Inl (ReservedCollection display collection)
             else if collection = ''.'' \<or> collection = ''..'' \<or> CHR ''/'' \<in> set collection \<or>
                     CHR 0x5C \<in> set collection \<or> collection = []
               then Inl (InvalidCollection display collection)
             else
               try_res (required_property display h ''ID_PREFIX'') (\<lambda>id_prefix.
               if \<not> list_all (\<lambda>b. is_ascii_alphanumeric b \<or> b = CHR ''-'' \<or> b = CHR ''_'') id_prefix
               then Inl (BadIdPrefix display)
               else
                 let states = opt_words (property h ''STATES'') in
                 if list_ex (\<lambda>s. \<not> list_all (\<lambda>b. is_ascii_lowercase b \<or> is_ascii_digit b \<or> b = CHR ''_'') s)
                      states
                 then Inl (BadStates display)
                 else
                   try_res (parse_transitions display states (opt_words (property h ''TRANSITIONS'')) [])
                     (\<lambda>transitions.
                     if states \<noteq> [] \<and> length transitions \<noteq> length states
                     then Inl (IncompleteTransitions display)
                     else if states = [] \<and> transitions \<noteq> [] then Inl (TransitionsWithoutStates display)
                     else
                       try_res (required_property display h ''LABEL'') (\<lambda>label.
                       try_res (required_property display h ''LABEL_PLURAL'') (\<lambda>label_plural.
                         Inr \<lparr>nt_collection = collection, nt_id_prefix = id_prefix, nt_label = label,
                              nt_label_plural = label_plural,
                              nt_required = opt_words (property h ''REQUIRED_PROPERTIES''),
                              nt_states = states, nt_transitions = transitions,
                              nt_regenerate_prompt = nonblank_property h ''REGENERATE_PROMPT'',
                              nt_chat_prompt = nonblank_property h ''CHAT_PROMPT''\<rparr>))))))
       | _ \<Rightarrow> Inl (NotOneHeading display))"

definition allows_transition :: "descriptor \<Rightarrow> string \<Rightarrow> string \<Rightarrow> bool" where
  "allows_transition d a b = (case bt_get (nt_transitions d) a of None \<Rightarrow> False | Some ts \<Rightarrow> b \<in> set ts)"

section \<open>Minting\<close>

definition mint_typed_id :: "descriptor \<Rightarrow> nat list \<Rightarrow> (string \<times> nat list) option" where
  "mint_typed_id d draws = map_option (\<lambda>(stem, rest). (nt_id_prefix d @ stem, rest)) (random_stem draws)"

datatype create_outcome = DirCreated | DirExists | DirFailed

text \<open>The retry loop on the ids that \<open>mint\<close> draws: \<open>Some (Inr i)\<close> is the id whose directory was
  created, \<open>Some (Inl ())\<close> an input-output error, \<open>None\<close> that the draws ran out.\<close>

fun reserve_id :: "(string \<Rightarrow> create_outcome) \<Rightarrow> string list \<Rightarrow> (unit + string) option" where
  "reserve_id create [] = None"
| "reserve_id create (i # is) =
     (case create i of
        DirCreated \<Rightarrow> Some (Inr i)
      | DirExists \<Rightarrow> reserve_id create is
      | DirFailed \<Rightarrow> Some (Inl ()))"

section \<open>The registry\<close>

record write_hooks =
  wh_validate_write :: "(org_file \<Rightarrow> heading \<Rightarrow> string + unit) option"
  wh_validate_transition :: "(org_file \<Rightarrow> heading \<Rightarrow> heading option \<Rightarrow> string + unit) option"

record registry =
  reg_descriptors :: "(string \<times> descriptor) list"
  reg_hooks :: "(string \<times> write_hooks) list"

definition empty_registry :: registry where
  "empty_registry = \<lparr>reg_descriptors = [], reg_hooks = []\<rparr>"

definition reg_descriptor :: "registry \<Rightarrow> string \<Rightarrow> descriptor option" where
  "reg_descriptor r collection = bt_get (reg_descriptors r) collection"

definition register_hooks :: "string \<Rightarrow> write_hooks \<Rightarrow> registry \<Rightarrow> nt_error + registry" where
  "register_hooks collection hooks r =
     (if reg_descriptor r collection = None then Inl (UnknownCollection collection)
      else Inr (r\<lparr>reg_hooks := bt_insert collection hooks (reg_hooks r)\<rparr>))"

definition run_hook :: "(string + unit) option \<Rightarrow> nt_error + unit" where
  "run_hook res = (case res of None \<Rightarrow> Inr () | Some x \<Rightarrow> map_sum HookRefused id x)"

fun first_repeat :: "string set \<Rightarrow> string list \<Rightarrow> string option" where
  "first_repeat seen [] = None"
| "first_repeat seen (k # ks) = (if k \<in> seen then Some k else first_repeat (insert k seen) ks)"

definition validate_write :: "registry \<Rightarrow> string \<Rightarrow> org_file \<Rightarrow> heading \<Rightarrow> nt_error + unit" where
  "validate_write r collection file h =
     try_res (ok_or (UnknownCollection collection) (reg_descriptor r collection)) (\<lambda>d.
     try_res (ok_or MissingId (property h ''ID'')) (\<lambda>i.
     try_res (validate_component i) (\<lambda>_.
       if \<not> (starts_with i (nt_id_prefix d) \<or> collection = ''glossary'' \<and> starts_with i ''term:'')
       then Inl (ForeignId collection)
       else
         (case find (\<lambda>req. case property h req of None \<Rightarrow> True | Some v \<Rightarrow> trim v = []) (nt_required d) of
            Some req \<Rightarrow> Inl (MissingProperty req)
          | None \<Rightarrow>
              (case first_repeat {} (map pe_key (property_entries h)) of
                 Some key \<Rightarrow> Inl (DuplicateKey key)
               | None \<Rightarrow>
                   if nt_states d \<noteq> [] \<and>
                      \<not> (case h_todo h of None \<Rightarrow> False | Some s \<Rightarrow> to_ascii_lowercase s \<in> set (nt_states d))
                   then Inl (BadState (nt_states d))
                   else
                     run_hook (Option.bind (bt_get (reg_hooks r) collection) (\<lambda>hooks.
                       map_option (\<lambda>v. v file h) (wh_validate_write hooks))))))))"

definition state_of :: "heading option \<Rightarrow> string option" where
  "state_of h = map_option to_ascii_lowercase (Option.bind h h_todo)"

definition validate_transition ::
  "registry \<Rightarrow> string \<Rightarrow> heading option \<Rightarrow> org_file \<Rightarrow> heading \<Rightarrow> nt_error + unit" where
  "validate_transition r collection before file after =
     try_res (ok_or (UnknownCollection collection) (reg_descriptor r collection)) (\<lambda>d.
     try_res (run_hook (Option.bind (bt_get (reg_hooks r) collection) (\<lambda>hooks.
         map_option (\<lambda>v. v file after before) (wh_validate_transition hooks)))) (\<lambda>_.
       if state_of before = state_of (Some after) then Inr ()
       else
         (case state_of (Some after) of
            Some next \<Rightarrow>
              (case state_of before of
                 Some previous \<Rightarrow>
                   if \<not> allows_transition d previous next then Inl (TransitionRefused previous next)
                   else Inr ()
               | None \<Rightarrow>
                   if (case nt_states d of [] \<Rightarrow> None | s # _ \<Rightarrow> Some s) \<noteq> Some next then Inl NotInitial
                   else Inr ())
          | None \<Rightarrow> if nt_states d \<noteq> [] then Inl StateRemoved else Inr ())))"

definition prefixes_meet :: "string \<Rightarrow> string \<Rightarrow> bool" where
  "prefixes_meet a b \<longleftrightarrow> starts_with a b \<or> starts_with b a"

definition register :: "descriptor \<Rightarrow> bool \<Rightarrow> registry \<Rightarrow> nt_error + registry" where
  "register d replace r =
     (if list_ex (\<lambda>res. prefixes_meet res (nt_id_prefix d)) [''goal-'', ''handoff-current'']
      then Inl (SingletonPrefix (nt_id_prefix d))
      else if \<not> replace \<and> reg_descriptor r (nt_collection d) \<noteq> None
      then Inl (CollectionTaken (nt_collection d))
      else
        (case find (\<lambda>other. nt_collection other \<noteq> nt_collection d \<and>
                  prefixes_meet (nt_id_prefix other) (nt_id_prefix d))
              (map snd (reg_descriptors r)) of
           Some other \<Rightarrow> Inl (PrefixConflict (nt_id_prefix d) (nt_collection other))
         | None \<Rightarrow>
             Inr (r\<lparr>reg_descriptors := bt_insert (nt_collection d) d (reg_descriptors r)\<rparr>)))"

text \<open>\<open>max_by_key\<close> keeps the last of equal maxima.\<close>

definition longest_prefix :: "descriptor list \<Rightarrow> descriptor option" where
  "longest_prefix ds =
     fold (\<lambda>d best.
         case best of
           None \<Rightarrow> Some d
         | Some b \<Rightarrow> if length (nt_id_prefix b) \<le> length (nt_id_prefix d) then Some d else Some b)
       ds None"

definition descriptor_for_id :: "registry \<Rightarrow> string \<Rightarrow> descriptor option" where
  "descriptor_for_id r i =
     longest_prefix (filter (\<lambda>d. starts_with i (nt_id_prefix d)) (map snd (reg_descriptors r)))"

definition collection_for_kind :: "registry \<Rightarrow> string \<Rightarrow> descriptor option" where
  "collection_for_kind r kind =
     reg_descriptor r
       (if kind = ''task'' then ''tasks''
        else if kind = ''decision'' then ''decisions''
        else if kind = ''term'' then ''glossary''
        else if kind = ''artifact'' then ''artifacts''
        else if kind = ''conversation'' then ''conversations''
        else kind)"

definition inferred_kind :: "registry \<Rightarrow> string \<Rightarrow> node_kind option" where
  "inferred_kind r i =
     (if i = ''handoff-current'' then Some (NodeKind ''handoff'')
      else if starts_with i ''goal-'' then Some (NodeKind ''goal'')
      else if starts_with i ''term:'' then Some (NodeKind ''glossary'')
      else map_option (\<lambda>d. kind_of_collection (nt_collection d)) (descriptor_for_id r i))"

definition resolve_node :: "registry \<Rightarrow> string option \<Rightarrow> string \<Rightarrow> nt_error + node_kind" where
  "resolve_node r kind i =
     try_res (validate_component i) (\<lambda>_.
       case kind of
         Some k \<Rightarrow>
           try_res
             (ok_or (UnknownKind k)
               (case singleton_kind k of
                  Some s \<Rightarrow> Some s
                | None \<Rightarrow> map_option (\<lambda>d. kind_of_collection (nt_collection d)) (collection_for_kind r k)))
             (\<lambda>explicit.
               if (case inferred_kind r i of None \<Rightarrow> False | Some k' \<Rightarrow> k' \<noteq> explicit)
               then Inl (ForeignKind i k)
               else if inferred_kind r i = None \<and> collection_name explicit \<noteq> None then Inl (UnownedId i)
               else Inr explicit)
       | None \<Rightarrow> ok_or (UnownedId i) (inferred_kind r i))"

record resolved_collection =
  rc_descriptor :: "descriptor option"
  rc_label :: string
  rc_lint :: "string option"

definition resolve_collection :: "registry \<Rightarrow> string \<Rightarrow> resolved_collection" where
  "resolve_collection r collection =
     (case reg_descriptor r collection of
        Some d \<Rightarrow> \<lparr>rc_descriptor = Some d, rc_label = nt_label d, rc_lint = None\<rparr>
      | None \<Rightarrow> \<lparr>rc_descriptor = None, rc_label = collection, rc_lint = Some collection\<rparr>)"

text \<open>\<open>load\<close> registers the parsed files of a directory in the order it is read.\<close>

fun load_registry :: "(string \<times> string) list \<Rightarrow> registry \<Rightarrow> nt_error + registry" where
  "load_registry [] r = Inr r"
| "load_registry ((display, source) # files) r =
     try_res (parse_descriptor source display) (\<lambda>d.
     try_res (register d False r) (load_registry files))"


section \<open>Parsed descriptors\<close>

lemma parse_transitions_ok:
  "parse_transitions display states rules acc = Inr ts \<Longrightarrow> bt_ok acc \<Longrightarrow>
     list_all (\<lambda>(s, targets). s \<in> set states \<and> set targets \<subseteq> set states) acc \<Longrightarrow>
     bt_ok ts \<and> list_all (\<lambda>(s, targets). s \<in> set states \<and> set targets \<subseteq> set states) ts"
proof (induction display states rules acc rule: parse_transitions.induct)
  case (2 display states rule rules acc)
  obtain source targets where sp: "split_once (CHR ''>'') rule = Some (source, targets)" "source \<in> set states"
    using "2.prems"(1) by (auto split: option.splits if_splits)
  let ?ts = "if targets = ''-'' then [] else split_on (CHR '','') targets"
  have f: "find (\<lambda>t. t \<notin> set states) ?ts = None" "bt_get acc source = None"
    "parse_transitions display states rules (bt_insert source ?ts acc) = Inr ts"
    using "2.prems"(1) sp by (auto simp: Let_def split: option.splits if_splits)
  have "set ?ts \<subseteq> set states" using f(1) by (auto simp: find_None_iff)
  then have "list_all (\<lambda>(s, targets). s \<in> set states \<and> set targets \<subseteq> set states) (bt_insert source ?ts acc)"
    using "2.prems"(3) sp(2) by (induction acc) auto
  then show ?case
    using "2.IH" [OF sp(1) refl _ _ f(1)] sp(2) f bt_ok_insert [OF "2.prems"(2)] by auto
qed simp

text \<open>The transitions of a parsed descriptor are a total function on its states.\<close>

definition descriptor_ok :: "descriptor \<Rightarrow> bool" where
  "descriptor_ok d \<longleftrightarrow>
     is_node_collection (nt_collection d) \<and> nt_id_prefix d \<noteq> [] \<and>
     list_all (\<lambda>b. is_ascii_alphanumeric b \<or> b = CHR ''-'' \<or> b = CHR ''_'') (nt_id_prefix d) \<and>
     distinct (nt_states d) \<and> bt_ok (nt_transitions d) \<and>
     fst ` set (nt_transitions d) = set (nt_states d) \<and>
     list_all (\<lambda>(_, targets). set targets \<subseteq> set (nt_states d)) (nt_transitions d)"

lemma required_property_nonblank: "required_property display h key = Inr v \<Longrightarrow> v \<noteq> []"
  by (auto simp: required_property_def nonblank_property_def split: option.splits if_splits)

lemma transitions_total:
  assumes "bt_ok ts" "list_all (\<lambda>(s, targets). s \<in> set states \<and> set targets \<subseteq> set states) ts"
    and "\<not> (states \<noteq> [] \<and> length ts \<noteq> length states)" "\<not> (states = [] \<and> ts \<noteq> [])"
  shows "distinct states \<and> fst ` set ts = set states"
proof -
  have sub: "fst ` set ts \<subseteq> set states" using assms(2) by (auto simp: list_all_iff)
  have len: "length ts = length states" using assms(3,4) by auto
  have "card (fst ` set ts) = length ts"
    using bt_ok_distinct [OF assms(1)] distinct_card by fastforce
  then have c: "length states \<le> card (set states)"
    using card_mono [OF finite_set sub] len by simp
  then have "distinct states" by (simp add: card_distinct card_length le_antisym)
  moreover have "fst ` set ts = set states"
    using c sub \<open>card (fst ` set ts) = length ts\<close> len card_length [of states]
    by (intro card_seteq) auto
  ultimately show ?thesis by blast
qed

lemma parsed_descriptor: "parse_descriptor source display = Inr d \<Longrightarrow> descriptor_ok d"
proof -
  assume p: "parse_descriptor source display = Inr d"
  then obtain f root h where h: "org_parse source display = Inr f" "of_headings f = [root]"
    "descriptor_heading display root = Inr h"
    by (auto simp: parse_descriptor_def try_res_Inr_iff map_sum_def split: sum.splits list.splits)
  let ?states = "opt_words (property h ''STATES'')"
  obtain transitions where
    c: "required_property display h ''COLLECTION'' = Inr (nt_collection d)"
      "is_node_collection (nt_collection d)" and
    i: "required_property display h ''ID_PREFIX'' = Inr (nt_id_prefix d)"
      "list_all (\<lambda>b. is_ascii_alphanumeric b \<or> b = CHR ''-'' \<or> b = CHR ''_'') (nt_id_prefix d)" and
    t: "parse_transitions display ?states (opt_words (property h ''TRANSITIONS'')) [] =
        Inr (nt_transitions d)" "nt_states d = ?states" and
    n: "\<not> (?states \<noteq> [] \<and> length (nt_transitions d) \<noteq> length ?states)"
      "\<not> (?states = [] \<and> nt_transitions d \<noteq> [])"
    using p h by (auto simp: parse_descriptor_def try_res_Inr_iff Let_def split: if_splits)
  have "bt_ok (nt_transitions d) \<and>
      list_all (\<lambda>(s, targets). s \<in> set ?states \<and> set targets \<subseteq> set ?states) (nt_transitions d)"
    using parse_transitions_ok [OF t(1)] by simp
  then show ?thesis
    using transitions_total [OF _ _ n] c i t(2) required_property_nonblank [OF i(1)]
    by (auto simp: descriptor_ok_def list_all_iff)
qed

text \<open>The state machine of a parsed descriptor is closed: its states are distinct, each has
  exactly one rule, and every target of a rule is a state; its collection name is one that can be a
  directory of nodes and its id prefix holds only letters, digits, hyphens and underscores.\<close>

theorem parsed_descriptor_closed:
  assumes "parse_descriptor source display = Inr d"
  shows "distinct (nt_states d) \<and> distinct (map fst (nt_transitions d)) \<and>
    fst ` set (nt_transitions d) = set (nt_states d) \<and>
    (allows_transition d a b \<longrightarrow> a \<in> set (nt_states d) \<and> b \<in> set (nt_states d)) \<and>
    is_node_collection (nt_collection d) \<and> nt_id_prefix d \<noteq> [] \<and>
    list_all (\<lambda>b. is_ascii_alphanumeric b \<or> b = CHR ''-'' \<or> b = CHR ''_'') (nt_id_prefix d)"
proof -
  have ok: "descriptor_ok d" using parsed_descriptor [OF assms] .
  have "allows_transition d a b \<Longrightarrow> a \<in> set (nt_states d) \<and> b \<in> set (nt_states d)"
    using ok by (force simp: allows_transition_def descriptor_ok_def list_all_iff
        split: option.splits dest!: map_of_SomeD)
  then show ?thesis using ok bt_ok_distinct by (auto simp: descriptor_ok_def)
qed

section \<open>Who owns an id\<close>

text \<open>The registries the program can build: descriptors it parsed, registered one by one, with or
  without replacing, and hooks.\<close>

inductive registry_reach :: "registry \<Rightarrow> bool" where
  empty: "registry_reach empty_registry"
| registered: "registry_reach r \<Longrightarrow> parse_descriptor source display = Inr d \<Longrightarrow>
    register d replace r = Inr r' \<Longrightarrow> registry_reach r'"
| hooked: "registry_reach r \<Longrightarrow> register_hooks collection hooks r = Inr r' \<Longrightarrow> registry_reach r'"

definition registry_ok :: "registry \<Rightarrow> bool" where
  "registry_ok r \<longleftrightarrow>
     bt_ok (reg_descriptors r) \<and>
     list_all (\<lambda>(c, d). c = nt_collection d \<and> descriptor_ok d \<and>
       \<not> prefixes_meet ''goal-'' (nt_id_prefix d) \<and>
       \<not> prefixes_meet ''handoff-current'' (nt_id_prefix d)) (reg_descriptors r) \<and>
     (\<forall>d \<in> snd ` set (reg_descriptors r). \<forall>d' \<in> snd ` set (reg_descriptors r).
        nt_collection d \<noteq> nt_collection d' \<longrightarrow> \<not> prefixes_meet (nt_id_prefix d) (nt_id_prefix d'))"

lemma set_bt_insert: "bt_ok m \<Longrightarrow> set (bt_insert k v m) = insert (k, v) {p \<in> set m. fst p \<noteq> k}"
  by (induction k v m rule: bt_insert.induct) (auto split: if_splits)

lemma prefixes_meet_commute: "prefixes_meet a b \<longleftrightarrow> prefixes_meet b a"
  by (auto simp: prefixes_meet_def)

lemma register_ok:
  assumes ok: "registry_ok r" and d: "descriptor_ok d" and reg: "register d replace r = Inr r'"
  shows "registry_ok r'"
proof -
  have r': "r' = r\<lparr>reg_descriptors := bt_insert (nt_collection d) d (reg_descriptors r)\<rparr>"
    and core: "\<not> prefixes_meet ''goal-'' (nt_id_prefix d)" "\<not> prefixes_meet ''handoff-current'' (nt_id_prefix d)"
    and free: "find (\<lambda>other. nt_collection other \<noteq> nt_collection d \<and>
        prefixes_meet (nt_id_prefix other) (nt_id_prefix d)) (map snd (reg_descriptors r)) = None"
    using reg by (auto simp: register_def split: if_splits option.splits)
  have bt: "bt_ok (reg_descriptors r)" using ok by (simp add: registry_ok_def)
  have free': "\<And>other. other \<in> snd ` set (reg_descriptors r) \<Longrightarrow> nt_collection other \<noteq> nt_collection d \<Longrightarrow>
      \<not> prefixes_meet (nt_id_prefix other) (nt_id_prefix d)"
    using free by (auto simp: find_None_iff)
  have sub: "snd ` set (reg_descriptors r') \<subseteq> insert d (snd ` set (reg_descriptors r))"
    using set_bt_insert [OF bt] r' by auto
  have "\<not> prefixes_meet (nt_id_prefix x) (nt_id_prefix y)"
    if xy: "x \<in> snd ` set (reg_descriptors r')" "y \<in> snd ` set (reg_descriptors r')"
      "nt_collection x \<noteq> nt_collection y" for x y
  proof -
    consider "x = d" "y \<in> snd ` set (reg_descriptors r)" | "y = d" "x \<in> snd ` set (reg_descriptors r)"
      | "x \<in> snd ` set (reg_descriptors r)" "y \<in> snd ` set (reg_descriptors r)"
      using xy(3) subsetD [OF sub xy(1)] subsetD [OF sub xy(2)] by (elim insertE) simp_all
    then show ?thesis
    proof cases
      case 1
      then show ?thesis using free' [of y] xy(3) prefixes_meet_commute by metis
    next
      case 2
      then show ?thesis using free' [of x] xy(3) by blast
    next
      case 3
      then show ?thesis using ok xy(3) unfolding registry_ok_def by blast
    qed
  qed
  moreover have "list_all (\<lambda>(c, d). c = nt_collection d \<and> descriptor_ok d \<and>
       \<not> prefixes_meet ''goal-'' (nt_id_prefix d) \<and>
       \<not> prefixes_meet ''handoff-current'' (nt_id_prefix d)) (reg_descriptors r')"
    using ok d core r' set_bt_insert [OF bt] by (auto simp: registry_ok_def list_all_iff)
  ultimately show ?thesis using bt_ok_insert [OF bt] r' by (simp add: registry_ok_def)
qed

lemma registry_reach_ok: "registry_reach r \<Longrightarrow> registry_ok r"
proof (induction rule: registry_reach.induct)
  case empty
  then show ?case by (simp add: registry_ok_def empty_registry_def)
next
  case (registered r source display d replace r')
  then show ?case using register_ok parsed_descriptor by blast
next
  case (hooked r collection hooks r')
  then have "reg_descriptors r' = reg_descriptors r" by (auto simp: register_hooks_def split: if_splits)
  then show ?case using hooked.IH by (simp add: registry_ok_def)
qed

lemma starts_with_meet: "starts_with i a \<Longrightarrow> starts_with i b \<Longrightarrow> prefixes_meet a b"
  unfolding prefixes_meet_def starts_with_iff by (metis append_eq_append_conv2)

lemma owner_unique:
  assumes ok: "registry_ok r" and d: "d \<in> snd ` set (reg_descriptors r)" and i: "starts_with i (nt_id_prefix d)"
  shows "descriptor_for_id r i = Some d"
proof -
  let ?ds = "filter (\<lambda>d. starts_with i (nt_id_prefix d)) (map snd (reg_descriptors r))"
  have same: "x = d" if "x \<in> set ?ds" for x
  proof -
    have x: "x \<in> snd ` set (reg_descriptors r)" "starts_with i (nt_id_prefix x)" using that by auto
    then have "nt_collection x = nt_collection d"
      using ok d starts_with_meet [OF x(2) i] unfolding registry_ok_def by blast
    moreover obtain c c' where "(c, x) \<in> set (reg_descriptors r)" "(c', d) \<in> set (reg_descriptors r)"
      using x d by auto
    ultimately have "(nt_collection d, x) \<in> set (reg_descriptors r)" "(nt_collection d, d) \<in> set (reg_descriptors r)"
      using ok by (auto simp: registry_ok_def list_all_iff)
    then show "x = d"
      using ok bt_ok_distinct [of "reg_descriptors r"] by (metis eq_key_imp_eq_value registry_ok_def)
  qed
  have "d \<in> set ?ds" using d i by auto
  moreover have "longest_prefix ds = Some d" if "set ds \<subseteq> {d}" "ds \<noteq> []" for ds
    using that unfolding longest_prefix_def
  proof (induction ds rule: rev_induct)
    case (snoc x xs)
    then show ?case by (cases "xs = []") auto
  qed simp
  moreover have "set ?ds \<subseteq> {d}" using same by auto
  ultimately show ?thesis unfolding descriptor_for_id_def by (metis empty_iff list.set(1))
qed


definition id_char :: "char \<Rightarrow> bool" where
  "id_char b \<longleftrightarrow> is_ascii_alphanumeric b \<or> b = CHR ''-'' \<or> b = CHR ''_''"

lemma id_chars_component: "list_all id_char i \<Longrightarrow> i \<noteq> [] \<Longrightarrow> validate_component i = Inr ()"
proof -
  assume i: "list_all id_char i" "i \<noteq> []"
  then have nc: "\<forall>c \<in> set i. \<not> is_cont c \<and> c \<noteq> CHR ''.'' \<and> c \<noteq> CHR ''/'' \<and> c \<noteq> CHR 0x5C \<and> \<not> is_control [c]"
    by (auto simp: list_all_iff id_char_def ascii_defs is_control_def)
  then have "chars i = map (\<lambda>c. [c]) i" using chars_ascii by blast
  then have "\<not> list_ex is_control (chars i)" using nc by (auto simp: list_ex_iff)
  then show ?thesis using i(2) nc by (cases i) (auto simp: validate_component_def)
qed

lemma minted_stem_id_chars: "is_minted_stem stem \<Longrightarrow> list_all id_char stem \<and> stem \<noteq> []"
  by (auto simp: is_minted_stem_def STEM_LEN_def id_char_def list_all_iff is_crockford_char_def ascii_defs)

text \<open>Claim C30. Ids belong to one type: in every registry the program can build, an id minted for a
  registered descriptor is a valid directory name, is owned by that descriptor and no other, and
  resolves, with no kind given, to the kind of its own collection.\<close>

theorem minted_id_resolves:
  assumes "registry_reach r" "reg_descriptor r c = Some d"
    and "mint_typed_id d draws = Some (i, rest)" "\<forall>x \<in> set draws. x < 32"
  shows "descriptor_for_id r i = Some d \<and> resolve_node r None i = Inr (kind_of_collection c)"
proof -
  have ok: "registry_ok r" using registry_reach_ok [OF assms(1)] .
  have mem: "(c, d) \<in> set (reg_descriptors r)" using assms(2) by (auto simp: reg_descriptor_def map_of_SomeD)
  then have d: "descriptor_ok d" "c = nt_collection d" "\<not> prefixes_meet ''goal-'' (nt_id_prefix d)"
    "\<not> prefixes_meet ''handoff-current'' (nt_id_prefix d)"
    using ok by (auto simp: registry_ok_def list_all_iff)
  obtain stem where stem: "random_stem draws = Some (stem, rest)" "i = nt_id_prefix d @ stem"
    using assms(3) by (auto simp: mint_typed_id_def)
  have "is_minted_stem stem" using random_stem_minted [OF stem(1) assms(4)] .
  then have chars: "list_all id_char i" "i \<noteq> []"
    using d(1) minted_stem_id_chars stem(2) by (auto simp: descriptor_ok_def list_all_iff id_char_def)
  have pre: "starts_with i (nt_id_prefix d)" using stem(2) by simp
  have "d \<in> snd ` set (reg_descriptors r)" using mem by force
  then have own: "descriptor_for_id r i = Some d" using owner_unique [OF ok _ pre] by blast
  have "i \<noteq> ''handoff-current''" using d(4) pre by (auto simp: prefixes_meet_def)
  moreover have "\<not> starts_with i ''goal-''" using d(3) starts_with_meet [OF pre] prefixes_meet_commute by blast
  moreover have "\<not> starts_with i ''term:''"
    using chars(1) by (auto simp: starts_with_iff id_char_def ascii_defs)
  ultimately have "inferred_kind r i = Some (kind_of_collection c)"
    using own d(2) by (simp add: inferred_kind_def)
  then show ?thesis using own id_chars_component [OF chars] by (simp add: resolve_node_def)
qed

section \<open>The states of a node\<close>

text \<open>The writes of one node that the registry accepts: its creation and its updates; the last
  component is the states it went through, oldest first.\<close>

inductive node_run :: "registry \<Rightarrow> string \<Rightarrow> heading \<Rightarrow> string option list \<Rightarrow> bool"
  for r :: registry and c :: string where
  created: "validate_write r c file h = Inr () \<Longrightarrow> validate_transition r c None file h = Inr () \<Longrightarrow>
    node_run r c h [state_of (Some h)]"
| updated: "node_run r c h ss \<Longrightarrow> validate_write r c file h' = Inr () \<Longrightarrow>
    validate_transition r c (Some h) file h' = Inr () \<Longrightarrow>
    node_run r c h' (ss @ [state_of (Some h')])"

definition follows :: "descriptor \<Rightarrow> string option \<Rightarrow> string option \<Rightarrow> bool" where
  "follows d a b \<longleftrightarrow>
     a = b \<or> (case (a, b) of (Some x, Some y) \<Rightarrow> allows_transition d x y | _ \<Rightarrow> False)"

lemma written_state:
  assumes "validate_write r c file h = Inr ()" "reg_descriptor r c = Some d" "nt_states d \<noteq> []"
  shows "\<exists>s \<in> set (nt_states d). state_of (Some h) = Some s"
  using assms
  by (auto simp: validate_write_def try_res_Inr_iff state_of_def split: if_splits option.splits)

lemma transition_follows:
  assumes "validate_transition r c (Some h) file h' = Inr ()" "reg_descriptor r c = Some d"
    and "state_of (Some h) = Some s" "state_of (Some h') = Some s'"
  shows "follows d (Some s) (Some s')"
  using assms by (auto simp: validate_transition_def try_res_Inr_iff follows_def split: if_splits)

lemma creation_initial:
  assumes "validate_transition r c None file h = Inr ()" "reg_descriptor r c = Some d"
    and "state_of (Some h) = Some s"
  shows "nt_states d \<noteq> [] \<and> s = hd (nt_states d)"
proof -
  have "state_of None = None" by (simp add: state_of_def)
  then show ?thesis
    using assms by (auto simp: validate_transition_def try_res_Inr_iff split: if_splits list.splits)
qed

lemma successively_snoc:
  "successively P (xs @ [y]) \<longleftrightarrow> successively P xs \<and> (xs \<noteq> [] \<longrightarrow> P (last xs) y)"
  by (auto simp: successively_append_iff)

lemma node_run_states:
  "node_run r c h ss \<Longrightarrow> reg_descriptor r c = Some d \<Longrightarrow> nt_states d \<noteq> [] \<Longrightarrow>
     ss \<noteq> [] \<and> last ss = state_of (Some h) \<and> hd ss = Some (hd (nt_states d)) \<and>
     list_all (\<lambda>s. s \<in> Some ` set (nt_states d)) ss \<and> successively (follows d) ss"
proof (induction rule: node_run.induct)
  case (created f h)
  obtain s where s: "s \<in> set (nt_states d)" "state_of (Some h) = Some s"
    using written_state [OF created(1,3,4)] by blast
  then show ?case using creation_initial [OF created(2,3) s(2)] by auto
next
  case (updated h ss f h')
  note IH = updated.IH [OF updated.prems]
  obtain s' where s': "s' \<in> set (nt_states d)" "state_of (Some h') = Some s'"
    using written_state [OF updated(2) updated.prems] by blast
  obtain s where s: "last ss = Some s" using IH by (metis imageE last_in_set list_all_iff)
  then have "follows d (last ss) (Some s')"
    using transition_follows [OF updated(3) updated.prems(1)] IH s'(2) by simp
  then show ?case using IH s' by (simp add: successively_snoc)
qed

text \<open>Claim C29. Nodes follow their descriptor: the states a node of a stateful type goes through, over
  all the writes the registry accepts, begin with the first state declared, are all declared, and each
  is the one before it or a declared transition from it. Write hooks can only refuse more.\<close>

theorem node_states_follow_descriptor:
  assumes "node_run r c h ss" "reg_descriptor r c = Some d" "nt_states d \<noteq> []"
  shows "hd ss = Some (hd (nt_states d)) \<and> list_all (\<lambda>s. s \<in> Some ` set (nt_states d)) ss \<and>
    successively (follows d) ss"
  using node_run_states [OF assms] by blast

section \<open>Witnesses\<close>

definition sample_descriptor_source :: string where
  "sample_descriptor_source = concat (map (\<lambda>l. l @ [LF])
     [''* N'', '':PROPERTIES:'', '':COLLECTION: cs'', '':ID_PREFIX: C-'', '':LABEL: c'',
      '':LABEL_PLURAL: cs'', '':STATES: a b'', '':TRANSITIONS: a>b b>-'', '':END:''])"

definition sample_descriptor :: descriptor where
  "sample_descriptor =
     \<lparr>nt_collection = ''cs'', nt_id_prefix = ''C-'', nt_label = ''c'', nt_label_plural = ''cs'',
      nt_required = [], nt_states = [''a'', ''b''], nt_transitions = [(''a'', [''b'']), (''b'', [])],
      nt_regenerate_prompt = None, nt_chat_prompt = None\<rparr>"

definition sample_registry :: registry where
  "sample_registry = \<lparr>reg_descriptors = [(''cs'', sample_descriptor)], reg_hooks = []\<rparr>"

lemma sample_descriptor_parses: "parse_descriptor sample_descriptor_source ''f'' = Inr sample_descriptor"
  by code_simp

lemma sample_registry_reach: "registry_reach sample_registry"
proof -
  have "register sample_descriptor False empty_registry = Inr sample_registry"
    by (simp add: register_def prefixes_meet_def starts_with_def empty_registry_def reg_descriptor_def
        sample_registry_def sample_descriptor_def)
  then show ?thesis using registered [OF registry_reach.empty sample_descriptor_parses] by blast
qed

theorem parsed_descriptor_closed_witness:
  "parse_descriptor sample_descriptor_source ''f'' = Inr sample_descriptor \<and>
     allows_transition sample_descriptor ''a'' ''b'' \<and> ''b'' \<in> set (nt_states sample_descriptor)"
proof -
  have "allows_transition sample_descriptor ''a'' ''b''" by code_simp
  then show ?thesis
    using parsed_descriptor_closed [OF sample_descriptor_parses, of "''a''" "''b''"] sample_descriptor_parses
    by blast
qed

theorem minted_id_resolves_witness:
  "mint_typed_id sample_descriptor [1, 2, 3, 4, 10] = Some (''C-1234A'', []) \<and>
     resolve_node sample_registry None ''C-1234A'' = Inr (NodeKind ''cs'')"
proof -
  have m: "mint_typed_id sample_descriptor [1, 2, 3, 4, 10] = Some (''C-1234A'', [])" by code_simp
  have r: "reg_descriptor sample_registry ''cs'' = Some sample_descriptor"
    and k: "kind_of_collection ''cs'' = NodeKind ''cs''"
    by code_simp+
  show ?thesis using minted_id_resolves [OF sample_registry_reach r m] m k by simp
qed

definition sample_node :: "string \<Rightarrow> heading" where
  "sample_node state =
     Heading 1 (Some state) ''T'' []
       (Some \<lparr>pd_entries = [\<lparr>pe_key = ''ID'', pe_value = ''C-1'', pe_span = (0, 0), pe_value_span = (0, 0)\<rparr>],
              pd_span = (0, 0)\<rparr>) [] (0, 0) (0, 0) (0, 0)"

theorem node_states_follow_descriptor_witness:
  "\<exists>ss. node_run sample_registry ''cs'' (sample_node ''B'') ss \<and> ss = [Some ''a'', Some ''b''] \<and>
     successively (follows sample_descriptor) ss"
proof -
  let ?f = "\<lparr>of_source = [], of_keywords = [], of_headings = [], of_prelude = (0, 0)\<rparr>"
  have v: "validate_write sample_registry ''cs'' ?f (sample_node ''A'') = Inr ()"
    "validate_transition sample_registry ''cs'' None ?f (sample_node ''A'') = Inr ()"
    "validate_write sample_registry ''cs'' ?f (sample_node ''B'') = Inr ()"
    "validate_transition sample_registry ''cs'' (Some (sample_node ''A'')) ?f (sample_node ''B'') = Inr ()"
    "state_of (Some (sample_node ''A'')) = Some ''a''" "state_of (Some (sample_node ''B'')) = Some ''b''"
    "reg_descriptor sample_registry ''cs'' = Some sample_descriptor" "nt_states sample_descriptor \<noteq> []"
    by code_simp+
  have "node_run sample_registry ''cs'' (sample_node ''B'') [Some ''a'', Some ''b'']"
    using updated [OF created [OF v(1,2)] v(3,4)] v(5,6) by simp
  then show ?thesis using node_states_follow_descriptor [OF _ v(7,8)] by blast
qed

end
