(* ===== verification/Event_Bound.thy ===== *)
theory Event_Bound
  imports Ordered_Map Rust_Str "HOL-Library.Word" "HOL-Library.List_Lexorder" "HOL-Library.Char_ord"
    "HOL-Library.Product_Lexorder" "HOL-Library.Multiset"
begin

text \<open>
  The payload budget of \<open>crates/orgasmic-core/src/session.rs\<close>: every \<open>driver_event\<close> that is
  persisted passes through \<open>bound_driver_event_payload\<close>, which replaces long strings by a head
  and a digest, large subtrees by a digest, and at last whole fields, until the serialized event
  fits. A JSON value is a tree whose objects list their fields in key order. The serializer and
  SHA-256 are crates: \<open>ser\<close> and \<open>sha256\<close> are arguments wherever a digest is made.
\<close>

section \<open>JSON values\<close>

text \<open>\<open>serde_json::Value\<close>. A number is kept as the text \<open>Number::to_string\<close> gives.\<close>

datatype json =
    JNull
  | JBool bool
  | JNumber string
  | JString string
  | JArray "json list"
  | JObject "(string \<times> json) list"

text \<open>The keys of every object are in order: what \<open>serde_json::Map\<close> keeps by itself.\<close>

fun json_ok :: "json \<Rightarrow> bool" and items_ok :: "json list \<Rightarrow> bool"
  and fields_ok :: "(string \<times> json) list \<Rightarrow> bool" where
  "json_ok (JArray vs) \<longleftrightarrow> items_ok vs"
| "json_ok (JObject m) \<longleftrightarrow> bt_ok m \<and> fields_ok m"
| "json_ok _ \<longleftrightarrow> True"
| "items_ok [] \<longleftrightarrow> True"
| "items_ok (v # vs) \<longleftrightarrow> json_ok v \<and> items_ok vs"
| "fields_ok [] \<longleftrightarrow> True"
| "fields_ok ((k, v) # m) \<longleftrightarrow> json_ok v \<and> fields_ok m"

section \<open>Serialized lengths\<close>

definition short_escapes :: "string list" where
  "short_escapes = map (\<lambda>n. [char_of (n :: nat)]) [34, 92, 10, 13, 9, 8, 12]"

definition json_char_len :: "string \<Rightarrow> nat" where
  "json_char_len g =
     (if g \<in> set short_escapes then 2
      else if length g = 1 \<and> byte (hd g) < 32 then 6
      else length g)"

definition json_string_len :: "string \<Rightarrow> nat" where
  "json_string_len text = 2 + sum_list (map json_char_len (chars text))"

fun json_len :: "json \<Rightarrow> nat" and items_len :: "json list \<Rightarrow> nat"
  and fields_len :: "(string \<times> json) list \<Rightarrow> nat" where
  "json_len JNull = 4"
| "json_len (JBool b) = (if b then 4 else 5)"
| "json_len (JNumber n) = length n"
| "json_len (JString s) = json_string_len s"
| "json_len (JArray vs) = 2 + (length vs - 1) + items_len vs"
| "json_len (JObject m) = 2 + (length m - 1) + fields_len m"
| "items_len [] = 0"
| "items_len (v # vs) = json_len v + items_len vs"
| "fields_len [] = 0"
| "fields_len ((k, v) # m) = json_string_len k + 1 + json_len v + fields_len m"

abbreviation json_len_of_object :: "(string \<times> json) list \<Rightarrow> nat" where
  "json_len_of_object m \<equiv> json_len (JObject m)"

section \<open>Digests\<close>

definition BOUNDED_PAYLOAD_HEAD_BYTES :: nat where
  "BOUNDED_PAYLOAD_HEAD_BYTES = 2 * 1024"

definition DRIVER_EVENT_PAYLOAD_CAP_BYTES :: nat where
  "DRIVER_EVENT_PAYLOAD_CAP_BYTES = 16 * 1024"

definition BOUND_MAX_DEPTH :: nat where
  "BOUND_MAX_DEPTH = 16"

definition BOUNDED_SUFFIX :: string where
  "BOUNDED_SUFFIX = ''_bounded''"

definition BOUNDED_PAYLOAD_SOURCE :: string where
  "BOUNDED_PAYLOAD_SOURCE =
     ''harness-native session transcript (vendor-owned; never copied by orgasmic)''"

definition STRUCTURAL_KEYS :: "string list" where
  "STRUCTURAL_KEYS =
     [''type'', ''call_id'', ''name'', ''ok'', ''seq'', ''stream'', ''phase'', ''protocol_version'']"

text \<open>\<open>usize::saturating_mul\<close> on a 64-bit target.\<close>

definition driver_event_total_cap :: "nat \<Rightarrow> nat" where
  "driver_event_total_cap payload_cap = min (payload_cap * 4) (2 ^ 64 - 1)"

text \<open>\<open>format!("{byte:02x}")\<close>, byte by byte.\<close>

definition hex_sha256 :: "(string \<Rightarrow> string) \<Rightarrow> string \<Rightarrow> string" where
  "hex_sha256 sha256 bytes = hex_bytes (sha256 bytes)"

text \<open>\<open>Value::from(n as u64)\<close>.\<close>

definition json_u64 :: "nat \<Rightarrow> json" where
  "json_u64 n = JNumber (show_nat (unat (of_nat n :: 64 word)))"

fun char_boundary_at_or_below :: "string \<Rightarrow> nat \<Rightarrow> nat" where
  "char_boundary_at_or_below text index =
     (if length text \<le> index then length text
      else if 0 < index \<and> is_cont (text ! index)
        then char_boundary_at_or_below text (index - 1)
      else index)"

declare char_boundary_at_or_below.simps [simp del]

definition digest_payload :: "(string \<Rightarrow> string) \<Rightarrow> string \<Rightarrow> string \<times> json" where
  "digest_payload sha256 text =
     (let sha = hex_sha256 sha256 text;
          head_end = char_boundary_at_or_below text BOUNDED_PAYLOAD_HEAD_BYTES;
          head = take head_end text @ map char_of [226 :: nat, 128, 166] @ ''[orgasmic-bounded: '' @
            show_nat (length text) @ '' bytes, sha256 '' @ sha @ '', retained '' @
            show_nat head_end @ ''; full payload stays in the '' @ BOUNDED_PAYLOAD_SOURCE @ '']'';
          d = bt_insert ''source'' (JString BOUNDED_PAYLOAD_SOURCE)
            (bt_insert ''retained_bytes'' (json_u64 head_end)
            (bt_insert ''sha256'' (JString sha)
            (bt_insert ''bytes'' (json_u64 (length text)) [])))
      in (head, JObject d))"

text \<open>The counters of one run of the bounding.\<close>

record bound_stats =
  bounded_payloads :: nat
  bytes_elided :: nat

definition note_elided :: "nat \<Rightarrow> bound_stats \<Rightarrow> bound_stats" where
  "note_elided n stats =
     stats\<lparr>bounded_payloads := bounded_payloads stats + 1, bytes_elided := bytes_elided stats + n\<rparr>"

definition digest_of :: "(json \<Rightarrow> string) \<Rightarrow> (string \<Rightarrow> string) \<Rightarrow> json \<Rightarrow> string \<Rightarrow> json" where
  "digest_of ser sha256 v reason =
     (let serialized = ser v in
      JObject
        (bt_insert ''source'' (JString BOUNDED_PAYLOAD_SOURCE)
        (bt_insert ''reason'' (JString reason)
        (bt_insert ''retained_bytes'' (json_u64 0)
        (bt_insert ''sha256'' (JString (hex_sha256 sha256 serialized))
        (bt_insert ''bytes'' (json_u64 (length serialized)) []))))))"

text \<open>Every operation on a value gives its serialized length, the value and the counters after
  it.\<close>

definition digest_subtree ::
  "(json \<Rightarrow> string) \<Rightarrow> (string \<Rightarrow> string) \<Rightarrow> json \<Rightarrow> string \<Rightarrow> bound_stats \<Rightarrow> nat \<times> json \<times> bound_stats"
where
  "digest_subtree ser sha256 v reason stats =
     (let w = JObject [(''orgasmic_bounded'', digest_of ser sha256 v reason)]
      in (json_len w, w, note_elided (length (ser v)) stats))"

definition is_bounded_marker :: "json \<Rightarrow> bool" where
  "is_bounded_marker v =
     (case v of JObject m \<Rightarrow> length m = 1 \<and> map_of m ''orgasmic_bounded'' \<noteq> None | _ \<Rightarrow> False)"

section \<open>Bounding a value\<close>

text \<open>
  \<open>bound_fields\<close> and \<open>bound_items\<close> are the loops of \<open>bound_value\<close> over an object and an
  array: the sum of the sizes, the children, the digests to publish beside them, the counters.
\<close>

function (sequential) bound_value ::
  "(json \<Rightarrow> string) \<Rightarrow> (string \<Rightarrow> string) \<Rightarrow> nat \<Rightarrow> nat \<Rightarrow> json \<Rightarrow> bound_stats
    \<Rightarrow> nat \<times> json \<times> bound_stats"
and bound_child ::
  "(json \<Rightarrow> string) \<Rightarrow> (string \<Rightarrow> string) \<Rightarrow> nat \<Rightarrow> nat \<Rightarrow> json \<Rightarrow> bound_stats
    \<Rightarrow> nat \<times> json option \<times> json \<times> bound_stats"
and bound_fields ::
  "(json \<Rightarrow> string) \<Rightarrow> (string \<Rightarrow> string) \<Rightarrow> nat \<Rightarrow> nat \<Rightarrow> (string \<times> json) list \<Rightarrow> bound_stats
    \<Rightarrow> nat \<times> (string \<times> json) list \<times> (string \<times> json) list \<times> bound_stats"
and bound_items ::
  "(json \<Rightarrow> string) \<Rightarrow> (string \<Rightarrow> string) \<Rightarrow> nat \<Rightarrow> nat \<Rightarrow> json list \<Rightarrow> bound_stats
    \<Rightarrow> nat \<times> json list \<times> bound_stats"
where
  "bound_value ser sha cap depth (JObject m) stats =
     (let (n, m', digests, stats') = bound_fields ser sha cap (depth + 1) m stats;
          n' = 2 + (length m - 1) + n;
          n'' = n' + sum_list (map (\<lambda>(k, d). json_string_len k + 2 + json_len d) digests);
          m'' = fold (\<lambda>(k, d). bt_insert k d) digests m'
      in (n'', JObject m'', stats'))"
| "bound_value ser sha cap depth (JArray vs) stats =
     (let (n, vs', stats') = bound_items ser sha cap (depth + 1) vs stats
      in (2 + (length vs - 1) + n, JArray vs', stats'))"
| "bound_value ser sha cap depth v stats = (json_len v, v, stats)"
| "bound_child ser sha cap depth v stats =
     (if is_bounded_marker v then (json_len v, None, v, stats)
      else if BOUND_MAX_DEPTH \<le> depth
        then (let (n, w, stats') = digest_subtree ser sha v ''depth'' stats
              in (n, None, w, stats'))
      else case v of
        JString text \<Rightarrow>
          if cap < length text
          then (let (head, digest) = digest_payload sha text
                in (json_string_len head, Some digest, JString head,
                    note_elided (length text - length head) stats))
          else (json_string_len text, None, v, stats)
      | JObject m \<Rightarrow>
          (let (n, w, stats') = bound_value ser sha cap depth (JObject m) stats in
           if cap < n
           then (let (n', w', stats'') = digest_subtree ser sha w ''subtree-size'' stats'
                 in (n', None, w', stats''))
           else (n, None, w, stats'))
      | JArray vs \<Rightarrow>
          (let (n, w, stats') = bound_value ser sha cap depth (JArray vs) stats in
           if cap < n
           then (let (n', w', stats'') = digest_subtree ser sha w ''subtree-size'' stats'
                 in (n', None, w', stats''))
           else (n, None, w, stats'))
      | _ \<Rightarrow> (json_len v, None, v, stats))"
| "bound_fields ser sha cap depth [] stats = (0, [], [], stats)"
| "bound_fields ser sha cap depth ((k, v) # m) stats =
     (let (n, digest, v', stats') = bound_child ser sha cap depth v stats;
          (n', m', digests, stats'') = bound_fields ser sha cap depth m stats'
      in (json_string_len k + 1 + n + n', (k, v') # m',
          (case digest of None \<Rightarrow> digests | Some d \<Rightarrow> (k @ BOUNDED_SUFFIX, d) # digests), stats''))"
| "bound_items ser sha cap depth [] stats = (0, [], stats)"
| "bound_items ser sha cap depth (v # vs) stats =
     (let (n, _, v', stats') = bound_child ser sha cap depth v stats;
          (n', vs', stats'') = bound_items ser sha cap depth vs stats'
      in (n + n', v' # vs', stats''))"
  by pat_completeness auto

termination
  by (relation "measure (\<lambda>x. case x of
        Inl (Inl (_, _, _, _, v, _)) \<Rightarrow> 2 * size v
      | Inl (Inr (_, _, _, _, v, _)) \<Rightarrow> 2 * size v + 1
      | Inr (Inl (_, _, _, _, m, _)) \<Rightarrow> 2 * size_list (size_prod (\<lambda>_. 0) size) m
      | Inr (Inr (_, _, _, _, vs, _)) \<Rightarrow> 2 * size_list size vs)") auto


section \<open>Bounding a whole event\<close>

text \<open>\<open>map.get_mut(key)\<close> and an assignment through it.\<close>

definition set_field :: "string \<Rightarrow> json \<Rightarrow> (string \<times> json) list \<Rightarrow> (string \<times> json) list" where
  "set_field key w m = map (\<lambda>(k, v). (k, if k = key then w else v)) m"

text \<open>The fields that may be given up, the longest first.\<close>

definition elision_order :: "(string \<times> json) list \<Rightarrow> (string \<times> nat) list" where
  "elision_order m =
     sort_key (\<lambda>(key, n). (- int n, key))
       (map (\<lambda>(key, child). (key, json_len child))
         (filter (\<lambda>(key, _). key \<notin> set STRUCTURAL_KEYS) m))"

fun elide_loop ::
  "(json \<Rightarrow> string) \<Rightarrow> (string \<Rightarrow> string) \<Rightarrow> nat \<Rightarrow> (string \<times> nat) list \<Rightarrow> nat
    \<Rightarrow> (string \<times> json) list \<Rightarrow> bound_stats \<Rightarrow> nat \<times> (string \<times> json) list \<times> bound_stats"
where
  "elide_loop ser sha total_cap [] current m stats = (current, m, stats)"
| "elide_loop ser sha total_cap ((key, was) # order) current m stats =
     (if current \<le> total_cap then (current, m, stats)
      else case map_of m key of
        None \<Rightarrow> elide_loop ser sha total_cap order current m stats
      | Some child \<Rightarrow>
          (let (now, w, stats') = digest_subtree ser sha child ''event-size'' stats
           in elide_loop ser sha total_cap order (current - was + now) (set_field key w m) stats'))"

definition bound_whole_event ::
  "(json \<Rightarrow> string) \<Rightarrow> (string \<Rightarrow> string) \<Rightarrow> nat \<Rightarrow> json \<Rightarrow> bound_stats \<Rightarrow> nat \<times> json \<times> bound_stats"
where
  "bound_whole_event ser sha total_cap v stats =
     (case v of
        JObject m \<Rightarrow>
          (let (current, m', stats') =
              elide_loop ser sha total_cap (elision_order m) (json_len_of_object m) m stats in
           if current \<le> total_cap then (current, JObject m', stats')
           else
             (let ty = map_of m' ''type'';
                  (size, w, stats'') = digest_subtree ser sha (JObject m') ''event-size'' stats'
              in case (ty, w) of
                (Some t, JObject d) \<Rightarrow>
                  (size + json_string_len ''type'' + 2 + json_len t,
                    JObject (bt_insert ''type'' t d), stats'')
              | _ \<Rightarrow> (size, w, stats'')))
      | _ \<Rightarrow> digest_subtree ser sha v ''event-size'' stats)"

definition bound_driver_event_payload ::
  "(json \<Rightarrow> string) \<Rightarrow> (string \<Rightarrow> string) \<Rightarrow> json \<Rightarrow> nat \<Rightarrow> json \<times> bound_stats" where
  "bound_driver_event_payload ser sha event cap =
     (let (size, v, stats) =
        bound_value ser sha cap 0 event \<lparr>bounded_payloads = 0, bytes_elided = 0\<rparr> in
      if driver_event_total_cap cap < size
      then (let (_, v', stats') = bound_whole_event ser sha (driver_event_total_cap cap) v stats
            in (v', stats'))
      else (v, stats))"

section \<open>Sizes of the pieces\<close>

lemma json_char_len_le: "json_char_len g \<le> 6 * length g" if "g \<noteq> []"
proof -
  have "1 \<le> length g" using that by (simp add: Suc_leI)
  then show ?thesis unfolding json_char_len_def by (simp split: if_splits)
qed

lemma json_char_len_ge: "length g \<le> json_char_len g"
  by (auto simp: json_char_len_def short_escapes_def)

lemma json_string_len_bounds: "length s + 2 \<le> json_string_len s" "json_string_len s \<le> 6 * length s + 2"
proof -
  have n: "length s = sum_list (map length (chars s))"
    using concat_chars [of s] length_concat [of "chars s"] by simp
  have "sum_list (map length gs) \<le> sum_list (map json_char_len gs)" for gs
    by (induction gs) (auto intro: add_mono json_char_len_ge)
  with n show "length s + 2 \<le> json_string_len s"
    by (simp add: json_string_len_def)
  have "[] \<notin> set gs \<Longrightarrow> sum_list (map json_char_len gs) \<le> 6 * sum_list (map length gs)" for gs
  proof (induction gs)
    case (Cons g gs)
    then show ?case using json_char_len_le [of g] by auto
  qed simp
  with n Nil_notin_chars [of s] show "json_string_len s \<le> 6 * length s + 2"
    by (simp add: json_string_len_def)
qed

lemma short_escapes_byte: "[c] \<in> set short_escapes \<longleftrightarrow> byte c \<in> {34, 92, 10, 13, 9, 8, 12}"
proof -
  have "c = char_of (n :: nat) \<longleftrightarrow> byte c = n" if "n < 256" for n
    using that byte_inject [of c "char_of n"] by simp
  then show ?thesis by (simp add: short_escapes_def)
qed

text \<open>Text without escapes, in ASCII: its JSON form adds the quotes.\<close>

definition plain_byte :: "char \<Rightarrow> bool" where
  "plain_byte c \<longleftrightarrow> 32 \<le> byte c \<and> byte c < 128 \<and> byte c \<noteq> 34 \<and> byte c \<noteq> 92"

lemma json_string_len_plain:
  assumes "\<forall>c \<in> set s. plain_byte c"
  shows "json_string_len s = length s + 2"
proof -
  have "chars s = map (\<lambda>c. [c]) s"
    by (rule chars_ascii) (use assms in \<open>auto simp: plain_byte_def is_cont_def\<close>)
  moreover have "json_char_len [c] = 1" if "plain_byte c" for c
    using that by (auto simp: json_char_len_def short_escapes_def plain_byte_def)
  ultimately show ?thesis
    using assms by (simp add: json_string_len_def sum_list_triv comp_def cong: map_cong)
qed

lemma length_show_nat: "n < 10 ^ k \<Longrightarrow> 0 < k \<Longrightarrow> length (show_nat n) \<le> k"
proof (induction n arbitrary: k rule: show_nat.induct)
  case (1 n)
  show ?case
  proof (cases "n < 10")
    case True
    then show ?thesis using 1 by (simp add: show_nat.simps [of n])
  next
    case False
    then obtain j where j: "k = Suc j" "0 < j"
      using "1.prems" by (cases k; cases "k - 1") auto
    then have "n div 10 < 10 ^ j" using "1.prems" by (simp add: less_mult_imp_div_less mult.commute)
    with 1 False j show ?thesis by (simp add: show_nat.simps [of n])
  qed
qed

lemma json_len_u64: "json_len (json_u64 n) \<le> 20"
proof -
  have "unat (of_nat n :: 64 word) < 2 ^ 64"
    using unsigned_less [of "of_nat n :: 64 word"] by simp
  then have "unat (of_nat n :: 64 word) < 10 ^ 20"
    by (rule order.strict_trans2) simp
  then show ?thesis by (simp add: json_u64_def length_show_nat)
qed

lemma length_hex_sha256: "length (hex_sha256 sha s) = 2 * length (sha s)"
  by (simp add: hex_sha256_def length_hex_bytes)

lemma hex_sha256_plain: "\<forall>c \<in> set (hex_sha256 sha s). plain_byte c"
proof -
  have "plain_byte c" if "c \<in> set ''0123456789abcdef''" for c
    using that by (auto simp: plain_byte_def)
  then show ?thesis using hex_bytes_digits by (auto simp: hex_sha256_def)
qed

section \<open>The digests are small\<close>

lemma digest_of_fields:
  "digest_of ser sha v reason =
     JObject [(''bytes'', json_u64 (length (ser v))), (''reason'', JString reason),
       (''retained_bytes'', json_u64 0), (''sha256'', JString (hex_sha256 sha (ser v))),
       (''source'', JString BOUNDED_PAYLOAD_SOURCE)]"
  by (simp add: digest_of_def Let_def less_char_def)

lemma digest_payload_fields:
  "snd (digest_payload sha text) =
     JObject [(''bytes'', json_u64 (length text)),
       (''retained_bytes'', json_u64 (char_boundary_at_or_below text BOUNDED_PAYLOAD_HEAD_BYTES)),
       (''sha256'', JString (hex_sha256 sha text)), (''source'', JString BOUNDED_PAYLOAD_SOURCE)]"
  by (simp add: digest_payload_def Let_def less_char_def)

lemma plain_literals:
  "\<forall>c \<in> set BOUNDED_PAYLOAD_SOURCE. plain_byte c"
  "\<forall>c \<in> set ''bytes''. plain_byte c" "\<forall>c \<in> set ''reason''. plain_byte c"
  "\<forall>c \<in> set ''retained_bytes''. plain_byte c" "\<forall>c \<in> set ''sha256''. plain_byte c"
  "\<forall>c \<in> set ''source''. plain_byte c" "\<forall>c \<in> set ''orgasmic_bounded''. plain_byte c"
  "\<forall>c \<in> set ''type''. plain_byte c" "\<forall>c \<in> set ''depth''. plain_byte c"
  "\<forall>c \<in> set ''subtree-size''. plain_byte c" "\<forall>c \<in> set ''event-size''. plain_byte c"
  by (simp_all add: plain_byte_def BOUNDED_PAYLOAD_SOURCE_def)

lemmas literal_lens = plain_literals [THEN json_string_len_plain]

text \<open>A SHA-256 digest has 32 bytes.\<close>

definition sha_ok :: "(string \<Rightarrow> string) \<Rightarrow> bool" where
  "sha_ok sha \<longleftrightarrow> (\<forall>s. length (sha s) = 32)"

definition digest_reasons :: "string list" where
  "digest_reasons = [''depth'', ''subtree-size'', ''event-size'']"

lemma source_len: "length BOUNDED_PAYLOAD_SOURCE = 74"
  by (simp add: BOUNDED_PAYLOAD_SOURCE_def)

lemma sha_len: "sha_ok sha \<Longrightarrow> json_string_len (hex_sha256 sha s) = 66"
  by (simp add: json_string_len_plain [OF hex_sha256_plain] length_hex_sha256 sha_ok_def)

lemma json_len_digest_of:
  assumes "sha_ok sha" "reason \<in> set digest_reasons"
  shows "json_len (digest_of ser sha v reason) \<le> 276"
proof -
  have "json_string_len reason \<le> 14"
    using assms(2) by (auto simp: digest_reasons_def literal_lens)
  with json_len_u64 [of "length (ser v)"] json_len_u64 [of 0] show ?thesis
    by (simp add: digest_of_fields literal_lens source_len sha_len [OF assms(1)])
qed

lemma json_len_digest_payload:
  assumes "sha_ok sha"
  shows "json_len (snd (digest_payload sha text)) \<le> 260"
  using json_len_u64 [of "length text"]
    json_len_u64 [of "char_boundary_at_or_below text BOUNDED_PAYLOAD_HEAD_BYTES"]
  by (simp add: digest_payload_fields literal_lens source_len sha_len [OF assms])

lemma digest_subtree_eq:
  "digest_subtree ser sha v reason stats =
     (let w = JObject [(''orgasmic_bounded'', digest_of ser sha v reason)]
      in (json_len w, w, snd (snd (digest_subtree ser sha v reason stats))))"
  by (simp add: digest_subtree_def Let_def)

lemma json_len_marker:
  assumes "sha_ok sha" "reason \<in> set digest_reasons"
  shows "json_len (JObject [(''orgasmic_bounded'', digest_of ser sha v reason)]) \<le> 300"
  using json_len_digest_of [OF assms, of ser v] by (simp add: literal_lens)

lemma marker_is_marker [simp]:
  "is_bounded_marker (JObject [(''orgasmic_bounded'', d)])"
  by (simp add: is_bounded_marker_def)

lemma digests_ok [simp]: "json_ok (digest_of ser sha v reason)" "json_ok (snd (digest_payload sha text))"
  by (simp_all add: digest_of_fields digest_payload_fields json_u64_def less_char_def)

lemma char_boundary_le:
  "char_boundary_at_or_below s i \<le> i" "char_boundary_at_or_below s i \<le> length s"
proof -
  have "char_boundary_at_or_below s i \<le> i \<and> char_boundary_at_or_below s i \<le> length s"
  proof (induction s i rule: char_boundary_at_or_below.induct)
    case (1 s i)
    then show ?case by (subst (1 2) char_boundary_at_or_below.simps) auto
  qed
  then show "char_boundary_at_or_below s i \<le> i" "char_boundary_at_or_below s i \<le> length s"
    by simp_all
qed



section \<open>The sizes are never below the serialized lengths\<close>

lemma fields_ok_bt_insert: "fields_ok m \<Longrightarrow> json_ok v \<Longrightarrow> fields_ok (bt_insert k v m)"
  by (induction m rule: bt_insert.induct) auto

lemma length_bt_insert: "length (bt_insert k v m) \<le> Suc (length m)"
  by (induction k v m rule: bt_insert.induct) auto

lemma fields_len_bt_insert:
  "fields_len (bt_insert k v m) \<le> json_string_len k + 1 + json_len v + fields_len m"
  by (induction m) (auto split: if_splits)

lemma json_len_bt_insert:
  "json_len_of_object (bt_insert k v m) \<le> json_len_of_object m + json_string_len k + 2 + json_len v"
proof (cases m)
  case Nil
  then show ?thesis by simp
next
  case (Cons x xs)
  then show ?thesis using length_bt_insert [of k v m] fields_len_bt_insert [of k v m] by simp
qed

lemma insert_digests:
  assumes "bt_ok m" "fields_ok m" "\<forall>d \<in> snd ` set ds. json_ok d"
  shows "json_ok (JObject (fold (\<lambda>(k, d). bt_insert k d) ds m)) \<and>
    json_len_of_object (fold (\<lambda>(k, d). bt_insert k d) ds m)
      \<le> json_len_of_object m + sum_list (map (\<lambda>(k, d). json_string_len k + 2 + json_len d) ds)"
  using assms
proof (induction ds arbitrary: m)
  case (Cons kd ds)
  obtain k d where kd: "kd = (k, d)" by (cases kd)
  have "json_ok (JObject (fold (\<lambda>(k, d). bt_insert k d) ds (bt_insert k d m))) \<and>
    json_len_of_object (fold (\<lambda>(k, d). bt_insert k d) ds (bt_insert k d m))
      \<le> json_len_of_object (bt_insert k d m)
        + sum_list (map (\<lambda>(k, d). json_string_len k + 2 + json_len d) ds)"
    using Cons.prems kd by (intro Cons.IH) (auto simp: bt_ok_insert fields_ok_bt_insert)
  then show ?case using json_len_bt_insert [of k d m] by (simp add: kd)
qed simp

lemma bt_ok_keys: "map fst m' = map fst m \<Longrightarrow> bt_ok m' = bt_ok m"
  by (simp add: bt_ok_def)

text \<open>What one step of the bounding gives back: values in order, no longer than the sizes say.\<close>

lemma bound_sizes:
  shows "json_ok v \<Longrightarrow> bound_value ser sha cap depth v stats = (n, w, st) \<Longrightarrow> json_ok w \<and> json_len w \<le> n"
    and "json_ok v \<Longrightarrow> bound_child ser sha cap depth v stats = (n, dg, w, st)
      \<Longrightarrow> json_ok w \<and> json_len w \<le> n \<and> (\<forall>d. dg = Some d \<longrightarrow> json_ok d)"
    and "fields_ok m \<Longrightarrow> bound_fields ser sha cap depth m stats = (n, m', ds, st)
      \<Longrightarrow> map fst m' = map fst m \<and> fields_ok m' \<and> fields_len m' \<le> n \<and> (\<forall>d \<in> snd ` set ds. json_ok d)"
    and "items_ok vs \<Longrightarrow> bound_items ser sha cap depth vs stats = (n, vs', st)
      \<Longrightarrow> length vs' = length vs \<and> items_ok vs' \<and> items_len vs' \<le> n"
proof (induction ser sha cap depth v stats and ser sha cap depth v stats
    and ser sha cap depth m stats and ser sha cap depth vs stats
    arbitrary: n w st and n dg w st and n m' ds st and n vs' st
    rule: bound_value_bound_child_bound_fields_bound_items.induct)
  case (1 ser sha cap depth m stats)
  obtain k m' ds st' where f: "bound_fields ser sha cap (depth + 1) m stats = (k, m', ds, st')"
    by (cases "bound_fields ser sha cap (depth + 1) m stats")
  have ih: "map fst m' = map fst m" "fields_ok m'" "fields_len m' \<le> k" "\<forall>d \<in> snd ` set ds. json_ok d"
    using "1.IH" [OF _ f] "1.prems"(1) by simp_all
  have len: "length m' = length m" using map_eq_imp_length_eq [OF ih(1)] .
  have "bt_ok m'" using "1.prems"(1) bt_ok_keys [OF ih(1)] by simp
  then show ?case
    using insert_digests [OF _ ih(2,4)] "1.prems"(2) f ih(3) len by (auto simp: Let_def)
next
  case (2 ser sha cap depth vs stats)
  then show ?case by (auto split: prod.splits)
next
  case (4 ser sha cap depth v stats)
  show ?case
  proof (cases v)
    case (JString s)
    obtain head d where h: "digest_payload sha s = (head, d)" by (cases "digest_payload sha s")
    then have "json_ok d" using digests_ok(2) [of sha s] by simp
    then show ?thesis
      using "4.prems" JString h by (auto simp: digest_subtree_def Let_def split: if_splits)
  next
    case (JObject m)
    then show ?thesis using 4
      by (auto simp: digest_subtree_def Let_def split: if_splits prod.splits)
  next
    case (JArray vs)
    then show ?thesis using 4
      by (auto simp: digest_subtree_def Let_def split: if_splits prod.splits)
  qed (use "4.prems" in \<open>auto simp: digest_subtree_def Let_def split: if_splits prod.splits\<close>)
next
  case (6 ser sha cap depth k v m stats)
  obtain a dg v' s1 where c: "bound_child ser sha cap depth v stats = (a, dg, v', s1)"
    by (cases "bound_child ser sha cap depth v stats")
  obtain b m1 es s2 where f: "bound_fields ser sha cap depth m s1 = (b, m1, es, s2)"
    by (cases "bound_fields ser sha cap depth m s1")
  have "json_ok v' \<and> json_len v' \<le> a \<and> (\<forall>d. dg = Some d \<longrightarrow> json_ok d)"
    using "6.IH"(1) [OF _ c] "6.prems"(1) by simp
  moreover have "map fst m1 = map fst m \<and> fields_ok m1 \<and> fields_len m1 \<le> b \<and> (\<forall>d \<in> snd ` set es. json_ok d)"
    using "6.IH"(2) [OF c [symmetric] refl refl refl _ f] "6.prems"(1) by simp
  ultimately show ?case
    using "6.prems"(2) c f by (auto split: option.splits)
next
  case (8 ser sha cap depth v vs stats)
  obtain a dg v' s1 where c: "bound_child ser sha cap depth v stats = (a, dg, v', s1)"
    by (cases "bound_child ser sha cap depth v stats")
  obtain b vs1 s2 where f: "bound_items ser sha cap depth vs s1 = (b, vs1, s2)"
    by (cases "bound_items ser sha cap depth vs s1")
  have "json_ok v' \<and> json_len v' \<le> a"
    using "8.IH"(1) [OF _ c] "8.prems"(1) by simp
  moreover have "length vs1 = length vs \<and> items_ok vs1 \<and> items_len vs1 \<le> b"
    using "8.IH"(2) [OF c [symmetric] refl refl refl _ f] "8.prems"(1) by simp
  ultimately show ?case
    using "8.prems"(2) c f by auto
qed auto

section \<open>The budget of an event\<close>

lemma set_field_keys [simp]: "map fst (set_field key w m) = map fst m"
  by (induction m) (auto simp: set_field_def)

lemma map_of_set_field: "map_of (set_field key w m) k =
    (if k = key then map_option (\<lambda>_. w) (map_of m k) else map_of m k)"
  by (induction m) (auto simp: set_field_def)

lemma fields_ok_set_field: "fields_ok m \<Longrightarrow> json_ok w \<Longrightarrow> fields_ok (set_field key w m)"
  by (induction m) (auto simp: set_field_def)

lemma set_field_notin: "key \<notin> fst ` set m \<Longrightarrow> set_field key w m = m"
  by (induction m) (auto simp: set_field_def)

lemma fields_len_set_field:
  "distinct (map fst m) \<Longrightarrow> map_of m key = Some child
    \<Longrightarrow> fields_len (set_field key w m) + json_len child = fields_len m + json_len w"
proof (induction m)
  case (Cons kv m)
  obtain k v where kv: "kv = (k, v)" by (cases kv)
  show ?case
  proof (cases "k = key")
    case True
    with Cons.prems kv have "set_field key w m = m" by (intro set_field_notin) (simp add: image_image)
    then have "set_field key w (kv # m) = (k, w) # m"
      using kv True by (simp add: set_field_def)
    then show ?thesis using Cons.prems kv True by simp
  next
    case False
    then have "set_field key w (kv # m) = (k, v) # set_field key w m"
      using kv by (simp add: set_field_def)
    then show ?thesis using Cons kv False by simp
  qed
qed simp

lemma length_set_field [simp]: "length (set_field key w m) = length m"
  by (simp add: set_field_def)

lemma fields_len_member: "map_of m key = Some child \<Longrightarrow> json_len child \<le> fields_len m"
  by (induction m) (auto split: if_splits)

lemma json_len_set_field:
  assumes "distinct (map fst m)" "map_of m key = Some child"
  shows "json_len_of_object m - json_len child + json_len w = json_len_of_object (set_field key w m)"
  using fields_len_set_field [OF assms, of w] fields_len_member [OF assms(2)] by simp

text \<open>The running size of the loop is exact, the structural fields stay, and the loop ends under
  the cap or has been through all it may give up.\<close>

lemma elide_loop_result:
  assumes "elide_loop ser sha tcap order current m stats = (n, m', st)"
    and "bt_ok m" "fields_ok m" "current = json_len_of_object m"
    and "\<forall>(k, was) \<in> set order. \<forall>c. map_of m k = Some c \<longrightarrow> json_len c = was"
    and "distinct (map fst order)"
  shows "n = json_len_of_object m' \<and> bt_ok m' \<and> fields_ok m' \<and> map fst m' = map fst m
    \<and> (\<forall>k. k \<notin> fst ` set order \<longrightarrow> map_of m' k = map_of m k)"
  using assms
proof (induction order arbitrary: current m stats)
  case (Cons kw order)
  obtain key was where kw: "kw = (key, was)" by (cases kw)
  consider "current \<le> tcap" | "tcap < current" "map_of m key = None"
    | child where "tcap < current" "map_of m key = Some child"
    by (cases "current \<le> tcap"; cases "map_of m key") auto
  then show ?case
  proof cases
    case 1
    then show ?thesis using Cons.prems kw by auto
  next
    case 2
    then show ?thesis using Cons kw by auto
  next
    case 3
    let ?w = "JObject [(''orgasmic_bounded'', digest_of ser sha child ''event-size'')]"
    let ?s = "snd (snd (digest_subtree ser sha child ''event-size'' stats))"
    let ?m = "set_field key ?w m"
    have was: "json_len child = was" using Cons.prems(5) kw 3(2) by auto
    have run: "elide_loop ser sha tcap order (current - was + json_len ?w) ?m ?s = (n, m', st)"
      using Cons.prems(1) kw 3 by (simp add: digest_subtree_def Let_def)
    have dist: "distinct (map fst m)" using Cons.prems(2) by (rule bt_ok_distinct)
    have size: "current - was + json_len ?w = json_len_of_object ?m"
      using json_len_set_field [OF dist 3(2)] unfolding Cons.prems(4) was .
    have "n = json_len_of_object m' \<and> bt_ok m' \<and> fields_ok m' \<and> map fst m' = map fst ?m
      \<and> (\<forall>k. k \<notin> fst ` set order \<longrightarrow> map_of m' k = map_of ?m k)"
    proof (rule Cons.IH [OF run])
      show "bt_ok ?m" using Cons.prems(2) by (simp add: bt_ok_def)
      show "fields_ok ?m" using Cons.prems(3) by (intro fields_ok_set_field) simp_all
      show "current - was + json_len ?w = json_len_of_object ?m" by (rule size)
      show "\<forall>(k, was) \<in> set order. \<forall>c. map_of ?m k = Some c \<longrightarrow> json_len c = was"
      proof (intro ballI, clarify)
        fix k was' c
        assume k: "(k, was') \<in> set order" and c: "map_of ?m k = Some c"
        have "k \<noteq> key" using k Cons.prems(6) kw by (auto simp: image_iff)
        with c have "map_of m k = Some c" by (simp add: map_of_set_field)
        with k Cons.prems(5) show "json_len c = was'" by auto
      qed
      show "distinct (map fst order)" using Cons.prems(6) by simp
    qed
    then show ?thesis using kw by (auto simp: map_of_set_field)
  qed
qed auto

lemma elision_order_facts:
  assumes "bt_ok m"
  shows "\<forall>(k, was) \<in> set (elision_order m). \<forall>c. map_of m k = Some c \<longrightarrow> json_len c = was"
    and "distinct (map fst (elision_order m))"
    and "fst ` set (elision_order m) \<inter> set STRUCTURAL_KEYS = {}"
proof -
  have d: "distinct (map fst m)" using assms by (rule bt_ok_distinct)
  show "\<forall>(k, was) \<in> set (elision_order m). \<forall>c. map_of m k = Some c \<longrightarrow> json_len c = was"
    using d by (auto simp: elision_order_def dest: eq_key_imp_eq_value [OF d] dest!: map_of_SomeD)
  show "fst ` set (elision_order m) \<inter> set STRUCTURAL_KEYS = {}"
    by (auto simp: elision_order_def)
  let ?l = "map (\<lambda>(key, child). (key, json_len child)) (filter (\<lambda>(key, _). key \<notin> set STRUCTURAL_KEYS) m)"
  have "map fst ?l = map fst (filter (\<lambda>(key, _). key \<notin> set STRUCTURAL_KEYS) m)"
    by (simp add: case_prod_unfold comp_def)
  moreover have "distinct (map fst (filter (\<lambda>(key, _). key \<notin> set STRUCTURAL_KEYS) m))"
    using d by (rule distinct_map_filter)
  ultimately have "distinct (map fst ?l)" by (simp only:)
  moreover have "mset (map fst (elision_order m)) = mset (map fst ?l)"
    unfolding mset_map elision_order_def by simp
  ultimately show "distinct (map fst (elision_order m))"
    using mset_eq_imp_distinct_iff by blast
qed

text \<open>A whole event is given up by steps; what remains is under the cap, or it is the digest with
  the type tag beside it.\<close>

lemma bound_whole_event_result:
  assumes "sha_ok sha" "json_ok v" "bound_whole_event ser sha tcap v stats = (n, w, st)"
  shows "json_ok w \<and> (json_len w \<le> tcap \<or> json_len w \<le> 300
    \<or> (\<exists>m t. v = JObject m \<and> map_of m ''type'' = Some t \<and> json_len w \<le> json_len t + 308))"
proof (cases v)
  case (JObject m)
  obtain k m' s1 where run:
    "elide_loop ser sha tcap (elision_order m) (json_len_of_object m) m stats = (k, m', s1)"
    by (cases "elide_loop ser sha tcap (elision_order m) (json_len_of_object m) m stats")
  have ok: "bt_ok m" "fields_ok m" using assms(2) JObject by simp_all
  have r: "k = json_len_of_object m'" "bt_ok m'" "fields_ok m'"
    "\<forall>key. key \<notin> fst ` set (elision_order m) \<longrightarrow> map_of m' key = map_of m key"
    using elide_loop_result [OF run ok refl elision_order_facts(1,2) [OF ok(1)]] by simp_all
  have ty: "map_of m' ''type'' = map_of m ''type''"
    using r(4) elision_order_facts(3) [OF ok(1)] by (auto simp: STRUCTURAL_KEYS_def)
  let ?d = "digest_of ser sha (JObject m') ''event-size''"
  have marker: "json_len (JObject [(''orgasmic_bounded'', ?d)]) \<le> 300"
    by (rule json_len_marker [OF assms(1)]) (simp add: digest_reasons_def)
  have t_ok: "json_ok t" if "map_of m' ''type'' = Some t" for t
    using r(3) that by (induction m') (auto split: if_splits)
  show ?thesis
  proof (cases "k \<le> tcap")
    case True
    then show ?thesis using assms(3) run r JObject by (auto simp: bound_whole_event_def)
  next
    case False
    show ?thesis
    proof (cases "map_of m ''type''")
      case None
      then have "w = JObject [(''orgasmic_bounded'', ?d)]"
        using assms(3) run False ty JObject
        by (simp add: bound_whole_event_def digest_subtree_def Let_def)
      then show ?thesis using marker by simp
    next
      case (Some t)
      then have w: "w = JObject (bt_insert ''type'' t [(''orgasmic_bounded'', ?d)])"
        using assms(3) run False ty JObject
        by (simp add: bound_whole_event_def digest_subtree_def Let_def)
      then have "json_len w \<le> json_len t + 308"
        using marker json_len_bt_insert [of "''type''" t "[(''orgasmic_bounded'', ?d)]"]
        by (simp add: literal_lens)
      moreover have "json_ok w"
        unfolding w json_ok.simps using t_ok ty Some
        by (intro conjI bt_ok_insert fields_ok_bt_insert) simp_all
      ultimately show ?thesis using JObject Some by blast
    qed
  qed
qed (use assms json_len_marker [OF assms(1), of "''event-size''" ser v] in
    \<open>auto simp: bound_whole_event_def digest_subtree_def digest_reasons_def Let_def\<close>)



text \<open>A short string child is kept as it is, and an absent key stays absent.\<close>

lemma bound_fields_type:
  assumes "bound_fields ser sha cap depth m stats = (n, m', ds, st)" "depth < BOUND_MAX_DEPTH"
  shows "map_of m' key = None \<longleftrightarrow> map_of m key = None"
    and "map_of m key = Some (JString s) \<Longrightarrow> length s \<le> cap \<Longrightarrow> map_of m' key = Some (JString s)"
proof -
  have "(map_of m' key = None \<longleftrightarrow> map_of m key = None) \<and>
    (map_of m key = Some (JString s) \<longrightarrow> length s \<le> cap \<longrightarrow> map_of m' key = Some (JString s))"
    using assms(1)
  proof (induction m arbitrary: n m' ds st stats)
    case (Cons kv m)
    obtain k v where kv: "kv = (k, v)" by (cases kv)
    obtain a dg v' s1 where c: "bound_child ser sha cap depth v stats = (a, dg, v', s1)"
      by (cases "bound_child ser sha cap depth v stats")
    obtain b m1 es s2 where f: "bound_fields ser sha cap depth m s1 = (b, m1, es, s2)"
      by (cases "bound_fields ser sha cap depth m s1")
    have m': "m' = (k, v') # m1" using Cons.prems c f kv by simp
    have "v' = JString s" if "v = JString s" "length s \<le> cap"
      using c that assms(2) by (simp add: is_bounded_marker_def)
    then show ?case using Cons.IH [OF f] by (auto simp: m' kv)
  qed simp
  then show "map_of m' key = None \<longleftrightarrow> map_of m key = None"
    and "map_of m key = Some (JString s) \<Longrightarrow> length s \<le> cap \<Longrightarrow> map_of m' key = Some (JString s)"
    by blast+
qed

text \<open>No published digest is called \<open>type\<close>.\<close>

lemma bound_fields_digest_keys:
  assumes "bound_fields ser sha cap depth m stats = (n, m', ds, st)"
  shows "''type'' \<notin> fst ` set ds"
  using assms
proof (induction m arbitrary: n m' ds st stats)
  case (Cons kv m)
  obtain k v where kv: "kv = (k, v)" by (cases kv)
  obtain a dg v' s1 where c: "bound_child ser sha cap depth v stats = (a, dg, v', s1)"
    by (cases "bound_child ser sha cap depth v stats")
  obtain b m1 es s2 where f: "bound_fields ser sha cap depth m s1 = (b, m1, es, s2)"
    by (cases "bound_fields ser sha cap depth m s1")
  have "k @ BOUNDED_SUFFIX \<noteq> ''type''"
  proof
    assume k: "k @ BOUNDED_SUFFIX = ''type''"
    then have "last (k @ BOUNDED_SUFFIX) = last ''type''" by simp
    then show False by (simp add: BOUNDED_SUFFIX_def)
  qed
  then show ?case using Cons.IH [OF f] Cons.prems c f kv by (auto split: option.splits)
qed simp

lemma map_of_insert_digests:
  "key \<notin> fst ` set ds \<Longrightarrow> map_of (fold (\<lambda>(k, d). bt_insert k d) ds m) key = map_of m key"
  by (induction ds arbitrary: m) (auto simp: bt_get_insert)

text \<open>The tag of an event: a string that is short even when it is escaped.\<close>

definition short_type_tag :: "nat \<Rightarrow> json \<Rightarrow> bool" where
  "short_type_tag cap event =
     (case event of
        JObject m \<Rightarrow>
          (case map_of m ''type'' of
             None \<Rightarrow> True
           | Some (JString s) \<Rightarrow> json_string_len s \<le> cap
           | Some _ \<Rightarrow> False)
      | _ \<Rightarrow> True)"

lemma bound_value_type:
  assumes "bound_value ser sha cap 0 event stats = (n, JObject m', st)" "short_type_tag cap event"
    and "map_of m' ''type'' = Some t"
  shows "json_len t \<le> cap"
proof (cases event)
  case (JObject m)
  obtain k m1 ds s1 where f: "bound_fields ser sha cap 1 m stats = (k, m1, ds, s1)"
    by (cases "bound_fields ser sha cap 1 m stats")
  have "m' = fold (\<lambda>(k, d). bt_insert k d) ds m1"
    using assms(1) JObject f by (simp add: Let_def)
  then have t: "map_of m1 ''type'' = Some t"
    using assms(3) map_of_insert_digests bound_fields_digest_keys [OF f] by metis
  have d: "1 < BOUND_MAX_DEPTH" by (simp add: BOUND_MAX_DEPTH_def)
  have "map_of m ''type'' \<noteq> None"
    using bound_fields_type(1) [OF f d] t by (metis option.distinct(1))
  then obtain s where s: "map_of m ''type'' = Some (JString s)" "json_string_len s \<le> cap"
    using assms(2) JObject by (auto simp: short_type_tag_def split: json.splits option.splits)
  then have "length s \<le> cap" using json_string_len_bounds(1) [of s] by simp
  then show ?thesis using bound_fields_type(2) [OF f d s(1)] t s(2) by simp
qed (use assms in \<open>auto split: prod.splits\<close>)

lemma bounded_event_size:
  assumes "sha_ok sha" "json_ok event" "105 \<le> cap" "cap < 2 ^ 62" "short_type_tag cap event"
  shows "json_ok (fst (bound_driver_event_payload ser sha event cap))
    \<and> json_len (fst (bound_driver_event_payload ser sha event cap)) \<le> 4 * cap"
proof -
  let ?s = "\<lparr>bounded_payloads = 0, bytes_elided = 0\<rparr>"
  have tcap: "driver_event_total_cap cap = 4 * cap"
    using assms(4) by (simp add: driver_event_total_cap_def)
  obtain n v st where b: "bound_value ser sha cap 0 event ?s = (n, v, st)"
    by (cases "bound_value ser sha cap 0 event ?s")
  have v: "json_ok v" "json_len v \<le> n" using bound_sizes(1) [OF assms(2) b] by simp_all
  show ?thesis
  proof (cases "4 * cap < n")
    case False
    then show ?thesis using v b by (simp add: bound_driver_event_payload_def tcap)
  next
    case True
    obtain k w st' where w: "bound_whole_event ser sha (4 * cap) v st = (k, w, st')"
      by (cases "bound_whole_event ser sha (4 * cap) v st")
    have "json_len t \<le> cap" if "v = JObject m" "map_of m ''type'' = Some t" for m t
      using bound_value_type [OF _ assms(5)] b that by blast
    then have "json_len w \<le> 4 * cap"
      using bound_whole_event_result [OF assms(1) v(1) w] assms(3) by fastforce
    moreover have "json_ok w" using bound_whole_event_result [OF assms(1) v(1) w] by simp
    ultimately show ?thesis
      using True b w by (simp add: bound_driver_event_payload_def tcap)
  qed
qed

text \<open>Claim C31. What is persisted for a driver event is within the budget: whatever the harness
  sent, if its type tag is a short string then the serialized form of the bounded event is at most
  four payload caps long, and it is a well-formed JSON value.\<close>

theorem bounded_event_fits:
  assumes "sha_ok sha" "json_ok event" "105 \<le> cap" "cap < 2 ^ 62" "short_type_tag cap event"
  shows "json_ok (fst (bound_driver_event_payload ser sha event cap))
    \<and> json_len (fst (bound_driver_event_payload ser sha event cap)) \<le> 4 * cap"
  using assms by (rule bounded_event_size)



lemma bounded_event_fits_witness:
  "json_ok (fst (bound_driver_event_payload (\<lambda>_. ''{}'') (\<lambda>_. replicate 32 CHR ''0'')
      (JObject [(''chunk'', JString (replicate 200 CHR ''a'')), (''type'', JString ''text_chunk'')]) 105))
    \<and> json_len (fst (bound_driver_event_payload (\<lambda>_. ''{}'') (\<lambda>_. replicate 32 CHR ''0'')
      (JObject [(''chunk'', JString (replicate 200 CHR ''a'')), (''type'', JString ''text_chunk'')]) 105)) \<le> 4 * 105"
proof (rule bounded_event_fits)
  show "sha_ok (\<lambda>_. replicate 32 CHR ''0'')" by (simp add: sha_ok_def)
  show "json_ok (JObject [(''chunk'', JString (replicate 200 CHR ''a'')), (''type'', JString ''text_chunk'')])"
    by (simp add: less_char_def)
  have "json_string_len ''text_chunk'' = 12"
    using json_string_len_plain [of "''text_chunk''"] by (simp add: plain_byte_def)
  then show "short_type_tag 105
      (JObject [(''chunk'', JString (replicate 200 CHR ''a'')), (''type'', JString ''text_chunk'')])"
    by (simp add: short_type_tag_def)
qed simp_all

text \<open>
  The tag itself has no budget of its own: with a tag of control characters, which is as long as
  one payload may be and six times as long when it is escaped, the default caps are exceeded.
\<close>

lemma json_string_len_control: "json_string_len (replicate n CHR 0x01) = 6 * n + 2"
proof -
  have "chars (replicate n CHR 0x01) = map (\<lambda>c. [c]) (replicate n CHR 0x01)"
    by (rule chars_ascii) (simp add: is_cont_def)
  moreover have "json_char_len [CHR 0x01] = 6"
    by (simp add: json_char_len_def short_escapes_byte)
  ultimately show ?thesis
    by (simp add: json_string_len_def sum_list_replicate)
qed

lemma type_tag_exceeds_budget:
  "driver_event_total_cap DRIVER_EVENT_PAYLOAD_CAP_BYTES
    < json_len (fst (bound_driver_event_payload ser sha
        (JObject [(''type'', JString (replicate DRIVER_EVENT_PAYLOAD_CAP_BYTES CHR 0x01))])
        DRIVER_EVENT_PAYLOAD_CAP_BYTES))"
proof -
  define tag where "tag = replicate DRIVER_EVENT_PAYLOAD_CAP_BYTES CHR 0x01"
  have len: "length tag = 16384" "json_string_len tag = 98306"
    by (simp_all add: tag_def json_string_len_control DRIVER_EVENT_PAYLOAD_CAP_BYTES_def)
  have cap: "driver_event_total_cap 16384 = 65536"
    by (simp add: driver_event_total_cap_def)
  have "bound_value ser sha 16384 0 (JObject [(''type'', JString tag)]) s
      = (98315, JObject [(''type'', JString tag)], s)" for s
    by (simp add: is_bounded_marker_def BOUND_MAX_DEPTH_def len literal_lens)
  then show ?thesis
    unfolding tag_def [symmetric] unfolding DRIVER_EVENT_PAYLOAD_CAP_BYTES_def
    by (simp add: bound_driver_event_payload_def cap bound_whole_event_def elision_order_def
        STRUCTURAL_KEYS_def len literal_lens digest_subtree_def Let_def less_char_def)
qed

section \<open>Bounding twice\<close>

fun json_depth :: "json \<Rightarrow> nat" and items_depth :: "json list \<Rightarrow> nat"
  and fields_depth :: "(string \<times> json) list \<Rightarrow> nat" where
  "json_depth (JArray vs) = Suc (items_depth vs)"
| "json_depth (JObject m) = Suc (fields_depth m)"
| "json_depth _ = 0"
| "items_depth [] = 0"
| "items_depth (v # vs) = max (json_depth v) (items_depth vs)"
| "fields_depth [] = 0"
| "fields_depth ((k, v) # m) = max (json_depth v) (fields_depth m)"

declare bound_child.simps [simp del]

text \<open>A value that the bounding leaves alone at a depth.\<close>

definition settled :: "nat \<Rightarrow> nat \<Rightarrow> json \<Rightarrow> bool" where
  "settled cap depth v \<longleftrightarrow>
     (\<forall>ser sha stats. bound_child ser sha cap depth v stats = (json_len v, None, v, stats))"

lemma settled_marker: "is_bounded_marker v \<Longrightarrow> settled cap depth v"
  by (simp add: settled_def bound_child.simps)

lemma settled_string: "length s \<le> cap \<Longrightarrow> depth < BOUND_MAX_DEPTH \<Longrightarrow> settled cap depth (JString s)"
  by (simp add: settled_def bound_child.simps is_bounded_marker_def)

lemma settled_number: "depth < BOUND_MAX_DEPTH \<Longrightarrow> settled cap depth (json_u64 n)"
  by (simp add: settled_def bound_child.simps is_bounded_marker_def json_u64_def)

lemma settled_fields:
  "\<forall>v \<in> snd ` set m. settled cap depth v
    \<Longrightarrow> bound_fields ser sha cap depth m stats = (fields_len m, m, [], stats)"
  by (induction m) (auto simp: settled_def)

lemma settled_items:
  "\<forall>v \<in> set vs. settled cap depth v
    \<Longrightarrow> bound_items ser sha cap depth vs stats = (items_len vs, vs, stats)"
  by (induction vs) (auto simp: settled_def)

lemma settled_object:
  assumes "\<forall>v \<in> snd ` set m. settled cap (Suc depth) v" "json_len (JObject m) \<le> cap"
    "depth < BOUND_MAX_DEPTH"
  shows "settled cap depth (JObject m)"
  using assms by (simp add: settled_def bound_child.simps settled_fields [OF assms(1)])

lemma settled_array:
  assumes "\<forall>v \<in> set vs. settled cap (Suc depth) v" "json_len (JArray vs) \<le> cap"
    "depth < BOUND_MAX_DEPTH"
  shows "settled cap depth (JArray vs)"
  using assms by (simp add: settled_def bound_child.simps settled_items [OF assms(1)] is_bounded_marker_def)

lemma settled_digest_payload:
  assumes "sha_ok sha" "276 \<le> cap" "Suc depth < BOUND_MAX_DEPTH"
  shows "settled cap depth (snd (digest_payload sha s))"
proof -
  have "length (hex_sha256 sha s) \<le> cap" "length BOUNDED_PAYLOAD_SOURCE \<le> cap"
    using assms(1,2) by (simp_all add: length_hex_sha256 sha_ok_def source_len)
  then show ?thesis
    using json_len_digest_payload [OF assms(1), of s] assms(2,3) unfolding digest_payload_fields
    by (intro settled_object) (auto intro: settled_string settled_number)
qed

lemma settled_digest_of:
  assumes "sha_ok sha" "276 \<le> cap" "Suc depth < BOUND_MAX_DEPTH" "reason \<in> set digest_reasons"
  shows "settled cap depth (digest_of ser sha v reason)"
proof -
  have "length (hex_sha256 sha (ser v)) \<le> cap" "length BOUNDED_PAYLOAD_SOURCE \<le> cap"
    "length reason \<le> cap"
    using assms(1,2,4) by (auto simp: length_hex_sha256 sha_ok_def source_len digest_reasons_def)
  then show ?thesis
    using json_len_digest_of [OF assms(1,4), of ser v] assms(2,3) unfolding digest_of_fields
    by (intro settled_object) (auto intro: settled_string settled_number)
qed

text \<open>The head that replaces a long string is short.\<close>

lemma digest_payload_head:
  assumes "sha_ok sha" "length s < 2 ^ 64"
  shows "length (fst (digest_payload sha s)) \<le> 2400"
proof -
  let ?e = "char_boundary_at_or_below s BOUNDED_PAYLOAD_HEAD_BYTES"
  have "(10 :: nat) ^ 20 > 2 ^ 64" by simp
  then have "length (show_nat (length s)) \<le> 20" 
    using assms(2) by (intro length_show_nat) auto
  moreover have e: "?e \<le> 2048"
    using char_boundary_le(1) [of s BOUNDED_PAYLOAD_HEAD_BYTES]
    by (simp add: BOUNDED_PAYLOAD_HEAD_BYTES_def)
  moreover have "length (show_nat ?e) \<le> 4"
    by (rule length_show_nat) (use e in simp_all)
  ultimately show ?thesis
    using assms(1)
    by (simp add: digest_payload_def Let_def length_hex_sha256 sha_ok_def BOUNDED_PAYLOAD_SOURCE_def)
qed



definition inside_settled :: "nat \<Rightarrow> nat \<Rightarrow> json \<Rightarrow> bool" where
  "inside_settled cap depth v \<longleftrightarrow>
     (case v of
        JObject m \<Rightarrow> \<forall>c \<in> snd ` set m. settled cap depth c
      | JArray vs \<Rightarrow> \<forall>c \<in> set vs. settled cap depth c
      | _ \<Rightarrow> True)"

lemma inside_settled_bound_value:
  "inside_settled cap (Suc depth) v \<Longrightarrow> bound_value ser sha cap depth v stats = (json_len v, v, stats)"
  by (cases v) (simp_all add: inside_settled_def settled_fields settled_items)

lemma set_bt_insert_subset: "set (bt_insert k v m) \<subseteq> insert (k, v) (set m)"
  by (induction k v m rule: bt_insert.induct) auto

lemma set_fold_bt_insert: "set (fold (\<lambda>(k, d). bt_insert k d) ds m) \<subseteq> set ds \<union> set m"
proof (induction ds arbitrary: m)
  case (Cons kd ds)
  obtain k d where kd: "kd = (k, d)" by (cases kd)
  show ?case using Cons.IH [of "bt_insert k d m"] set_bt_insert_subset [of k d m] by (auto simp: kd)
qed simp

lemma bound_settled:
  assumes cap: "2400 \<le> cap" and sha: "sha_ok sha"
  shows "json_ok v \<Longrightarrow> depth + json_depth v \<le> 14 \<Longrightarrow> json_len v < 2 ^ 64
      \<Longrightarrow> bound_value ser sha cap depth v stats = (n, w, st) \<Longrightarrow> inside_settled cap (Suc depth) w"
    and "json_ok v \<Longrightarrow> depth + json_depth v \<le> 14 \<Longrightarrow> json_len v < 2 ^ 64
      \<Longrightarrow> bound_child ser sha cap depth v stats = (n, dg, w, st)
      \<Longrightarrow> settled cap depth w \<and> (\<forall>d. dg = Some d \<longrightarrow> settled cap depth d)"
    and "fields_ok m \<Longrightarrow> depth + fields_depth m \<le> 14 \<Longrightarrow> fields_len m < 2 ^ 64
      \<Longrightarrow> bound_fields ser sha cap depth m stats = (n, m', ds, st)
      \<Longrightarrow> \<forall>c \<in> snd ` set m' \<union> snd ` set ds. settled cap depth c"
    and "items_ok vs \<Longrightarrow> depth + items_depth vs \<le> 14 \<Longrightarrow> items_len vs < 2 ^ 64
      \<Longrightarrow> bound_items ser sha cap depth vs stats = (n, vs', st)
      \<Longrightarrow> \<forall>c \<in> set vs'. settled cap depth c"
  using sha cap
proof (induction ser sha cap depth v stats and ser sha cap depth v stats
    and ser sha cap depth m stats and ser sha cap depth vs stats
    arbitrary: n w st and n dg w st and n m' ds st and n vs' st
    rule: bound_value_bound_child_bound_fields_bound_items.induct)
  case (1 ser sha cap depth m stats)
  obtain k m' ds st' where f: "bound_fields ser sha cap (depth + 1) m stats = (k, m', ds, st')"
    by (cases "bound_fields ser sha cap (depth + 1) m stats")
  have "\<forall>c \<in> snd ` set m' \<union> snd ` set ds. settled cap (depth + 1) c"
    using "1.prems" by (intro "1.IH" [OF _ _ _ f]) auto
  moreover have w: "w = JObject (fold (\<lambda>(k, d). bt_insert k d) ds m')"
    using "1.prems"(4) f by (simp add: Let_def)
  moreover have "snd ` set (fold (\<lambda>(k, d). bt_insert k d) ds m') \<subseteq> snd ` set m' \<union> snd ` set ds"
    unfolding image_Un [symmetric] using set_fold_bt_insert [of ds m'] by (intro image_mono) auto
  ultimately have "\<forall>c \<in> snd ` set (fold (\<lambda>(k, d). bt_insert k d) ds m'). settled cap (Suc depth) c"
    unfolding Suc_eq_plus1 by blast
  then show ?case using w by (simp add: inside_settled_def)
next
  case (2 ser sha cap depth vs stats)
  obtain k vs' st' where f: "bound_items ser sha cap (depth + 1) vs stats = (k, vs', st')"
    by (cases "bound_items ser sha cap (depth + 1) vs stats")
  have "\<forall>c \<in> set vs'. settled cap (depth + 1) c"
    using "2.prems" by (intro "2.IH" [OF _ _ _ f]) auto
  then show ?case using "2.prems"(4) f by (auto simp: inside_settled_def)
next
  case (4 ser sha cap depth v stats)
  note cc = bound_child.simps [of ser sha cap depth v stats]
  have depth: "depth < BOUND_MAX_DEPTH" "Suc depth < BOUND_MAX_DEPTH"
    using "4.prems"(2) by (auto simp: BOUND_MAX_DEPTH_def)
  show ?case
  proof (cases "is_bounded_marker v")
    case True
    then show ?thesis using "4.prems"(4) cc by (simp add: settled_marker)
  next
    case no_marker: False
    have container: "settled cap depth w \<and> dg = None"
      if v: "(\<exists>m. v = JObject m) \<or> (\<exists>vs. v = JArray vs)"
    proof -
      obtain k u s1 where b: "bound_value ser sha cap depth v stats = (k, u, s1)"
        by (cases "bound_value ser sha cap depth v stats")
      have u: "inside_settled cap (Suc depth) u"
        using v
      proof
        assume "\<exists>m. v = JObject m"
        then obtain m where m: "v = JObject m" ..
        show ?thesis using "4.IH"(2) [OF no_marker _ m _ _ _ b [unfolded m]] depth "4.prems" m by simp
      next
        assume "\<exists>vs. v = JArray vs"
        then obtain vs where vs: "v = JArray vs" ..
        show ?thesis using "4.IH"(1) [OF no_marker _ vs _ _ _ b [unfolded vs]] depth "4.prems" vs by simp
      qed
      have len: "json_len u \<le> k" using bound_sizes(1) [OF "4.prems"(1) b] by simp
      have uc: "(\<exists>m. u = JObject m) \<or> (\<exists>vs. u = JArray vs)"
        using v b by (auto simp: Let_def split: prod.splits)
      show ?thesis
      proof (cases "cap < k")
        case True
        then have "is_bounded_marker w \<and> dg = None"
          using "4.prems"(4) cc no_marker depth v b
          by (auto simp: digest_subtree_def Let_def simp del: bound_value.simps)
        then show ?thesis by (simp add: settled_marker)
      next
        case False
        then have "w = u \<and> dg = None"
          using "4.prems"(4) cc no_marker depth v b by (auto simp del: bound_value.simps)
        moreover have "settled cap depth u"
          using uc
        proof (elim disjE exE)
          fix m assume "u = JObject m"
          then show ?thesis using u len False depth settled_object [of m cap depth]
            by (simp add: inside_settled_def del: json_len.simps)
        next
          fix vs assume "u = JArray vs"
          then show ?thesis using u len False depth settled_array [of vs cap depth]
            by (simp add: inside_settled_def del: json_len.simps)
        qed
        ultimately show ?thesis by simp
      qed
    qed
    show ?thesis
    proof (cases v)
      case (JString s)
      then have "length s < 2 ^ 64"
        using "4.prems"(3) json_string_len_bounds(1) [of s] by simp
      then have head: "length (fst (digest_payload sha s)) \<le> cap"
        using digest_payload_head [OF "4.prems"(5)] "4.prems"(6) by force
      obtain hd_s d where h: "digest_payload sha s = (hd_s, d)" by (cases "digest_payload sha s")
      have "settled cap depth d"
        using settled_digest_payload [OF "4.prems"(5) _ depth(2), of cap s] "4.prems"(6) h by simp
      then show ?thesis
        using "4.prems"(4) cc no_marker depth JString head h
        by (auto intro: settled_string split: if_splits)
    next
      case (JObject m)
      then show ?thesis using container by simp
    next
      case (JArray vs)
      then show ?thesis using container by simp
    qed (use "4.prems"(4) cc no_marker depth in
        \<open>auto simp: settled_def bound_child.simps is_bounded_marker_def\<close>)
  qed
next
  case (6 ser sha cap depth k v m stats)
  obtain a dg v' s1 where c: "bound_child ser sha cap depth v stats = (a, dg, v', s1)"
    by (cases "bound_child ser sha cap depth v stats")
  obtain b m1 es s2 where f: "bound_fields ser sha cap depth m s1 = (b, m1, es, s2)"
    by (cases "bound_fields ser sha cap depth m s1")
  have "settled cap depth v' \<and> (\<forall>d. dg = Some d \<longrightarrow> settled cap depth d)"
    using "6.prems" by (intro "6.IH"(1) [OF _ _ _ c]) auto
  moreover have "\<forall>c \<in> snd ` set m1 \<union> snd ` set es. settled cap depth c"
    using "6.prems" by (intro "6.IH"(2) [OF c [symmetric] refl refl refl _ _ _ f]) auto
  moreover have "m' = (k, v') # m1"
    "ds = (case dg of None \<Rightarrow> es | Some d \<Rightarrow> (k @ BOUNDED_SUFFIX, d) # es)"
    using "6.prems"(4) c f by simp_all
  ultimately show ?case by (cases dg) (simp_all add: ball_Un)
next
  case (8 ser sha cap depth v vs stats)
  obtain a dg v' s1 where c: "bound_child ser sha cap depth v stats = (a, dg, v', s1)"
    by (cases "bound_child ser sha cap depth v stats")
  obtain b vs1 s2 where f: "bound_items ser sha cap depth vs s1 = (b, vs1, s2)"
    by (cases "bound_items ser sha cap depth vs s1")
  have "settled cap depth v'"
    using "8.prems" "8.IH"(1) [OF _ _ _ c] by auto
  moreover have "\<forall>c \<in> set vs1. settled cap depth c"
    using "8.prems" by (intro "8.IH"(2) [OF c [symmetric] refl refl refl _ _ _ f]) auto
  ultimately show ?case
    using "8.prems"(4) c f by auto
qed (auto simp: inside_settled_def)



text \<open>Fields that the loop gives up become markers; the others stay as they are.\<close>

lemma elide_loop_settled:
  assumes "elide_loop ser sha tcap order current m stats = (n, m', st)"
    and "\<forall>c \<in> snd ` set m. settled cap depth c"
  shows "\<forall>c \<in> snd ` set m'. settled cap depth c"
  using assms
proof (induction order arbitrary: current m stats)
  case (Cons kw order)
  obtain key was where kw: "kw = (key, was)" by (cases kw)
  consider "current \<le> tcap" | "tcap < current" "map_of m key = None"
    | child where "tcap < current" "map_of m key = Some child"
    by (cases "current \<le> tcap"; cases "map_of m key") auto
  then show ?case
  proof cases
    case 3
    let ?w = "JObject [(''orgasmic_bounded'', digest_of ser sha child ''event-size'')]"
    have "\<forall>c \<in> snd ` set (set_field key ?w m). settled cap depth c"
      using Cons.prems(2) settled_marker [OF marker_is_marker] by (auto simp: set_field_def)
    then show ?thesis
      using Cons.IH Cons.prems(1) kw 3 by (simp add: digest_subtree_def Let_def)
  qed (use Cons kw in auto)
qed simp

lemma marker_settled:
  assumes "sha_ok sha" "2500 \<le> cap"
  shows "settled cap 1 (digest_of ser sha v ''event-size'')"
  using assms by (intro settled_digest_of) (simp_all add: BOUND_MAX_DEPTH_def digest_reasons_def)

lemma bound_whole_event_settled:
  assumes "sha_ok sha" "2500 \<le> cap" "inside_settled cap 1 v"
    and "bound_whole_event ser sha tcap v stats = (n, w, st)"
  shows "inside_settled cap 1 w"
proof (cases v)
  case (JObject m)
  obtain k m' s1 where run:
    "elide_loop ser sha tcap (elision_order m) (json_len_of_object m) m stats = (k, m', s1)"
    by (cases "elide_loop ser sha tcap (elision_order m) (json_len_of_object m) m stats")
  have fields: "\<forall>c \<in> snd ` set m'. settled cap 1 c"
    using elide_loop_settled [OF run] assms(3) JObject by (simp add: inside_settled_def)
  let ?d = "digest_of ser sha (JObject m') ''event-size''"
  consider "w = JObject m'" | "w = JObject [(''orgasmic_bounded'', ?d)]"
    | t where "map_of m' ''type'' = Some t" "w = JObject (bt_insert ''type'' t [(''orgasmic_bounded'', ?d)])"
    using assms(4) run JObject
    by (auto simp: bound_whole_event_def digest_subtree_def Let_def split: if_splits option.splits)
  then show ?thesis
  proof cases
    case 1
    then show ?thesis using fields by (simp add: inside_settled_def)
  next
    case 2
    then show ?thesis using marker_settled [OF assms(1,2)] by (simp add: inside_settled_def)
  next
    case 3
    then have "t \<in> snd ` set m'" by (auto dest: map_of_SomeD intro: rev_image_eqI)
    then have "settled cap 1 t" using fields by blast
    with 3 show ?thesis using marker_settled [OF assms(1,2)]
      by (simp add: inside_settled_def less_char_def)
  qed
qed (use assms marker_settled [OF assms(1,2)] in
    \<open>auto simp: bound_whole_event_def digest_subtree_def Let_def inside_settled_def\<close>)

text \<open>Bounding is idempotent on the events it is meant for: when an event is nested at
  most 14 deep and its tag is short, bounding the bounded event again, by any serializer and
  digest, gives it back unchanged and counts nothing as elided.\<close>

theorem bounding_idempotent:
  assumes "sha_ok sha" "json_ok event" "2500 \<le> cap" "cap < 2 ^ 62" "short_type_tag cap event"
    "json_depth event \<le> 14" "json_len event < 2 ^ 64"
  shows "bound_driver_event_payload ser' sha' (fst (bound_driver_event_payload ser sha event cap)) cap
    = (fst (bound_driver_event_payload ser sha event cap), \<lparr>bounded_payloads = 0, bytes_elided = 0\<rparr>)"
proof -
  let ?s = "\<lparr>bounded_payloads = 0, bytes_elided = 0\<rparr>"
  let ?w = "fst (bound_driver_event_payload ser sha event cap)"
  have tcap: "driver_event_total_cap cap = 4 * cap"
    using assms(4) by (simp add: driver_event_total_cap_def)
  obtain n v st where b: "bound_value ser sha cap 0 event ?s = (n, v, st)"
    by (cases "bound_value ser sha cap 0 event ?s")
  have v: "inside_settled cap 1 v"
    using bound_settled(1) [OF _ assms(1,2) _ assms(7) b] assms(3,6) by simp
  have "inside_settled cap 1 ?w"
  proof (cases "4 * cap < n")
    case True
    obtain k w st' where w: "bound_whole_event ser sha (4 * cap) v st = (k, w, st')"
      by (cases "bound_whole_event ser sha (4 * cap) v st")
    then show ?thesis
      using bound_whole_event_settled [OF assms(1,3) v w] True b
      by (simp add: bound_driver_event_payload_def tcap)
  qed (use v b in \<open>simp add: bound_driver_event_payload_def tcap\<close>)
  then have "bound_value ser' sha' cap 0 ?w ?s = (json_len ?w, ?w, ?s)"
    by (intro inside_settled_bound_value) simp
  moreover have "json_len ?w \<le> 4 * cap"
    using bounded_event_size [OF assms(1,2) _ assms(4,5), of ser] assms(3) by simp
  ultimately show ?thesis
    by (subst bound_driver_event_payload_def) (simp add: tcap)
qed

lemma json_len_sample: "json_len (JObject [(''chunk'', JString (replicate 3000 CHR ''a'')), (''type'', JString ''text_chunk'')]) < 2 ^ 64"
  using json_string_len_bounds(2) [of "replicate 3000 CHR ''a''"] json_string_len_bounds(2) [of "''text_chunk''"]
    json_string_len_bounds(2) [of "''chunk''"] by (simp add: literal_lens)

lemma bounding_idempotent_witness:
  "bound_driver_event_payload (\<lambda>_. ''null'') (\<lambda>_. [])
      (fst (bound_driver_event_payload (\<lambda>_. ''{}'') (\<lambda>_. replicate 32 CHR ''0'')
        (JObject [(''chunk'', JString (replicate 3000 CHR ''a'')), (''type'', JString ''text_chunk'')]) 2500)) 2500
    = (fst (bound_driver_event_payload (\<lambda>_. ''{}'') (\<lambda>_. replicate 32 CHR ''0'')
        (JObject [(''chunk'', JString (replicate 3000 CHR ''a'')), (''type'', JString ''text_chunk'')]) 2500),
       \<lparr>bounded_payloads = 0, bytes_elided = 0\<rparr>)"
proof (rule bounding_idempotent)
  show "sha_ok (\<lambda>_. replicate 32 CHR ''0'')" by (simp add: sha_ok_def)
  show "json_ok (JObject [(''chunk'', JString (replicate 3000 CHR ''a'')), (''type'', JString ''text_chunk'')])"
    by (simp add: less_char_def)
  show "short_type_tag 2500
      (JObject [(''chunk'', JString (replicate 3000 CHR ''a'')), (''type'', JString ''text_chunk'')])"
    using json_string_len_plain [of "''text_chunk''"] by (simp add: plain_byte_def short_type_tag_def)
qed (use json_len_sample in simp_all)

text \<open>
  One level deeper it is not: the digest published beside a long string at depth 15 has its fields
  at depth 16, where the second pass replaces each of them.
\<close>

definition wrap :: "json \<Rightarrow> json" where
  "wrap v = JObject [(''a'', v)]"

lemma bound_child_wrap:
  assumes "bound_child ser sha cap (Suc depth) v stats = (n, None, w, st)" "n + 6 \<le> cap"
    "depth < BOUND_MAX_DEPTH"
  shows "bound_child ser sha cap depth (wrap v) stats = (n + 6, None, wrap w, st)"
proof -
  have "json_string_len ''a'' = 3"
    using json_string_len_plain [of "''a''"] by (simp add: plain_byte_def)
  with assms show ?thesis
    by (subst bound_child.simps) (simp add: wrap_def is_bounded_marker_def)
qed

lemma bound_child_wraps:
  assumes "bound_child ser sha cap (k + depth) v stats = (n, None, w, st)" "n + 6 * k \<le> cap"
    "k + depth < BOUND_MAX_DEPTH"
  shows "bound_child ser sha cap depth ((wrap ^^ k) v) stats = (n + 6 * k, None, (wrap ^^ k) w, st)"
  using assms
proof (induction k arbitrary: depth)
  case (Suc k)
  have "bound_child ser sha cap (Suc depth) ((wrap ^^ k) v) stats = (n + 6 * k, None, (wrap ^^ k) w, st)"
    using Suc.prems by (intro Suc.IH) simp_all
  then show ?case using bound_child_wrap Suc.prems by fastforce
qed simp

lemma bound_value_wraps:
  assumes "bound_child ser sha cap 14 v stats = (n, None, w, st)" "n + 84 \<le> cap" "cap < 2 ^ 62"
    "stats = \<lparr>bounded_payloads = 0, bytes_elided = 0\<rparr>"
  shows "bound_driver_event_payload ser sha ((wrap ^^ 14) v) cap = ((wrap ^^ 14) w, st)"
proof -
  have c: "bound_child ser sha cap 1 ((wrap ^^ 13) v) stats = (n + 78, None, (wrap ^^ 13) w, st)"
    using bound_child_wraps [of ser sha cap 13 1 v stats n w st] assms by (simp add: BOUND_MAX_DEPTH_def)
  have wrap14: "(wrap ^^ 14) u = JObject [(''a'', (wrap ^^ 13) u)]" for u
    by (simp add: wrap_def eval_nat_numeral)
  have "json_string_len ''a'' = 3"
    using json_string_len_plain [of "''a''"] by (simp add: plain_byte_def)
  then have "bound_value ser sha cap 0 ((wrap ^^ 14) v) stats = (n + 84, (wrap ^^ 14) w, st)"
    using c by (simp add: wrap14)
  then show ?thesis
    using assms(2-4) by (simp add: bound_driver_event_payload_def driver_event_total_cap_def)
qed

lemma long_text_at_15:
  assumes "sha_ok sha" "length s = 16385"
    and "digest_payload sha s = (h, d)"
  shows "\<exists>n. n + 84 \<le> 16384 \<and> bound_child ser sha 16384 14 (JObject [(''a'', JString s)]) stats
    = (n, None, JObject [(''a'', JString h), (''a_bounded'', d)], note_elided (16385 - length h) stats)"
proof -
  have lens: "json_string_len ''a'' = 3" "json_string_len ''a_bounded'' = 11"
    using json_string_len_plain [of "''a''"] json_string_len_plain [of "''a_bounded''"]
    by (simp_all add: plain_byte_def)
  have "length h \<le> 2400" using digest_payload_head [OF assms(1), of s] assms(2,3) by simp
  then have h: "json_string_len h \<le> 14402" using json_string_len_bounds(2) [of h] by simp
  have d: "json_len d \<le> 260" using json_len_digest_payload [OF assms(1), of s] assms(3) by simp
  have "bound_child ser sha 16384 15 (JString s) stats
      = (json_string_len h, Some d, JString h, note_elided (16385 - length h) stats)"
    using assms(2,3) by (simp add: bound_child.simps is_bounded_marker_def BOUND_MAX_DEPTH_def)
  then show ?thesis
    using h d
    by (subst bound_child.simps)
      (simp add: is_bounded_marker_def BOUND_MAX_DEPTH_def lens BOUNDED_SUFFIX_def less_char_def)
qed

lemma digest_at_15:
  assumes "sha_ok sha"
  shows "\<exists>n w st. n \<le> 1300 \<and> bound_child ser sha 16384 15 (snd (digest_payload sha s)) stats = (n, None, w, st)
    \<and> bounded_payloads st = bounded_payloads stats + 4"
proof -
  have m: "json_len (JObject [(''orgasmic_bounded'', digest_of ser sha v ''depth'')]) \<le> 300" for v
    by (rule json_len_marker [OF assms]) (simp add: digest_reasons_def)
  have deep: "bound_child ser sha 16384 16 v st =
      (json_len (JObject [(''orgasmic_bounded'', digest_of ser sha v ''depth'')]), None,
        JObject [(''orgasmic_bounded'', digest_of ser sha v ''depth'')], note_elided (length (ser v)) st)"
    if "\<not> is_bounded_marker v" for v st
    using that by (simp add: bound_child.simps BOUND_MAX_DEPTH_def digest_subtree_def Let_def)
  have f: "\<exists>n m' st. n \<le> 1260 \<and> bound_fields ser sha 16384 16
      [(''bytes'', json_u64 a), (''retained_bytes'', json_u64 b), (''sha256'', JString x), (''source'', JString y)] stats
      = (n, m', [], st) \<and> bounded_payloads st = bounded_payloads stats + 4" for a b x y
    using m [of "json_u64 a"] m [of "json_u64 b"] m [of "JString x"] m [of "JString y"]
    by (simp add: deep is_bounded_marker_def json_u64_def literal_lens note_elided_def del: json_len.simps)
  obtain a b x y where d: "snd (digest_payload sha s) =
      JObject [(''bytes'', json_u64 a), (''retained_bytes'', json_u64 b), (''sha256'', JString x), (''source'', JString y)]"
    unfolding digest_payload_fields by blast
  obtain n m' st where "n \<le> 1260" "bound_fields ser sha 16384 16
      [(''bytes'', json_u64 a), (''retained_bytes'', json_u64 b), (''sha256'', JString x), (''source'', JString y)] stats
      = (n, m', [], st)" "bounded_payloads st = bounded_payloads stats + 4"
    using f by blast
  then show ?thesis
    unfolding d by (subst bound_child.simps) (simp add: is_bounded_marker_def BOUND_MAX_DEPTH_def)
qed

lemma bounding_twice_at_15:
  assumes "sha_ok sha" "length s = 16385"
  shows "bounded_payloads (snd (bound_driver_event_payload ser sha
      (fst (bound_driver_event_payload ser sha ((wrap ^^ 15) (JString s)) DRIVER_EVENT_PAYLOAD_CAP_BYTES))
      DRIVER_EVENT_PAYLOAD_CAP_BYTES)) = 4"
proof -
  let ?s = "\<lparr>bounded_payloads = 0, bytes_elided = 0\<rparr>"
  obtain h d where hd: "digest_payload sha s = (h, d)" by (cases "digest_payload sha s")
  have outer: "(wrap ^^ 15) v = (wrap ^^ 14) (JObject [(''a'', v)])" for v
    by (simp add: wrap_def eval_nat_numeral)
  let ?w = "JObject [(''a'', JString h), (''a_bounded'', d)]"
  have first: "fst (bound_driver_event_payload ser sha ((wrap ^^ 15) (JString s)) 16384) = (wrap ^^ 14) ?w"
    using long_text_at_15 [OF assms hd, of ser ?s] bound_value_wraps [of ser sha 16384]
    unfolding outer by fastforce
  have lens: "json_string_len ''a'' = 3" "json_string_len ''a_bounded'' = 11"
    using json_string_len_plain [of "''a''"] json_string_len_plain [of "''a_bounded''"]
    by (simp_all add: plain_byte_def)
  have "length h \<le> 2400" using digest_payload_head [OF assms(1), of s] assms(2) hd by simp
  then have h: "json_string_len h \<le> 14402" "length h \<le> 16384"
    using json_string_len_bounds(2) [of h] by simp_all
  have a: "bound_child ser sha 16384 15 (JString h) ?s = (json_string_len h, None, JString h, ?s)"
    using h(2) by (simp add: bound_child.simps is_bounded_marker_def BOUND_MAX_DEPTH_def)
  obtain n w st where d: "n \<le> 1300" "bound_child ser sha 16384 15 d ?s = (n, None, w, st)"
    "bounded_payloads st = 4"
    using digest_at_15 [OF assms(1), of ser s ?s] hd by auto
  have "bound_child ser sha 16384 14 ?w ?s
      = (json_string_len h + n + 19, None, JObject [(''a'', JString h), (''a_bounded'', w)], st)"
    using a d(1,2) h
    by (subst bound_child.simps) (simp add: is_bounded_marker_def BOUND_MAX_DEPTH_def lens)
  then have "bound_driver_event_payload ser sha ((wrap ^^ 14) ?w) 16384
      = ((wrap ^^ 14) (JObject [(''a'', JString h), (''a_bounded'', w)]), st)"
    using bound_value_wraps d(1) h(1) by fastforce
  then show ?thesis
    using first d(3) by (simp add: DRIVER_EVENT_PAYLOAD_CAP_BYTES_def)
qed

end
