(* ===== verification/Session_Log.thy ===== *)
theory Session_Log
  imports Event_Bound
begin

text \<open>
  The session log of a run, \<open>SessionWriter\<close> of \<open>crates/orgasmic-core/src/session.rs\<close>: one
  envelope per line, appended under the identity of the writer, with driver events bounded and
  screen output of a pane transport refused. The file is its bytes. \<open>serde_json\<close> is a crate: the
  line of an envelope and the reading of a line are arguments, with the round trip as hypothesis.
\<close>

section \<open>Envelopes\<close>

datatype session_event_kind = DriverEventKind | LifecycleKind | NoteKind

record runtime_identity =
  ri_run_id :: string
  ri_runtime_id :: string
  ri_boot_id :: string

text \<open>A time is kept as the text that is written.\<close>

record session_envelope =
  env_seq :: "64 word"
  env_time :: string
  env_run_id :: string
  env_runtime_id :: string
  env_boot_id :: string
  env_kind :: session_event_kind
  env_event :: json

datatype session_error =
    SessionIo
  | SessionSerialize
  | InvalidRunSubState string
  | RenderedPanePayloadRefused string

text \<open>\<open>Value::get\<close> with a key, and \<open>Value::as_str\<close>.\<close>

definition json_get :: "string \<Rightarrow> json \<Rightarrow> json option" where
  "json_get key v = (case v of JObject m \<Rightarrow> map_of m key | _ \<Rightarrow> None)"

definition json_as_str :: "json \<Rightarrow> string option" where
  "json_as_str v = (case v of JString s \<Rightarrow> Some s | _ \<Rightarrow> None)"

definition get_str :: "string \<Rightarrow> json \<Rightarrow> string option" where
  "get_str key v = Option.bind (json_get key v) json_as_str"

section \<open>The transport of a run\<close>

definition transport_is_pane :: "string \<Rightarrow> bool" where
  "transport_is_pane transport \<longleftrightarrow> trim transport \<in> {''tmux'', ''tmux-tui''}"

definition run_meta_transport :: "json \<Rightarrow> string option" where
  "run_meta_transport event =
     (if get_str ''phase'' event \<noteq> Some ''run_meta'' then None else get_str ''transport'' event)"

definition TRANSPORT_PROBE_BYTES :: nat where
  "TRANSPORT_PROBE_BYTES = 256 * 1024"

text \<open>The newest transport of the lines in the probed window.\<close>

definition probe_line ::
  "(string \<Rightarrow> session_envelope option) \<Rightarrow> string \<Rightarrow> string option \<Rightarrow> string option" where
  "probe_line parse line transport =
     (case parse line of
        None \<Rightarrow> transport
      | Some e \<Rightarrow>
          if env_kind e \<noteq> LifecycleKind then transport
          else (case run_meta_transport (env_event e) of
                  None \<Rightarrow> transport
                | Some recorded \<Rightarrow> Some recorded))"

definition recorded_transport ::
  "(string \<Rightarrow> session_envelope option) \<Rightarrow> string \<Rightarrow> string option" where
  "recorded_transport parse contents =
     fold (probe_line parse) (split_on LF (take TRANSPORT_PROBE_BYTES contents)) None"

section \<open>The writer\<close>

record session_writer =
  wr_identity :: runtime_identity
  wr_seq :: "64 word"
  wr_transport :: "string option"

text \<open>Both \<open>open\<close>, which creates the file when there is none, and \<open>from_file\<close>.\<close>

definition writer_open ::
  "(string \<Rightarrow> session_envelope option) \<Rightarrow> string \<Rightarrow> runtime_identity \<Rightarrow> session_writer" where
  "writer_open parse contents identity =
     \<lparr>wr_identity = identity, wr_seq = 0, wr_transport = recorded_transport parse contents\<rparr>"

text \<open>
  One append. \<open>fault\<close> is what the system does with the write: \<open>None\<close> when it completes, \<open>Some k\<close>
  when only the first \<open>k\<close> bytes of the line are in the file and the call fails. The result, the
  writer and the file after it.
\<close>

definition writer_append ::
  "(session_envelope \<Rightarrow> string option) \<Rightarrow> (json \<Rightarrow> string) \<Rightarrow> (string \<Rightarrow> string) \<Rightarrow> nat option \<Rightarrow> string
    \<Rightarrow> session_event_kind \<Rightarrow> json \<Rightarrow> session_writer \<times> string
    \<Rightarrow> (session_error + 64 word) \<times> session_writer \<times> string"
where
  "writer_append to_line ser sha fault now kind event = (\<lambda>(w, contents).
     case (if kind = DriverEventKind \<and> get_str ''type'' event = Some ''text_chunk''
           then (case wr_transport w of
                   Some transport \<Rightarrow> if transport_is_pane transport then Some transport else None
                 | None \<Rightarrow> None)
           else None) of
       Some transport \<Rightarrow> (Inl (RenderedPanePayloadRefused transport), w, contents)
     | None \<Rightarrow>
         (let w' = (case (if kind = LifecycleKind then run_meta_transport event else None) of
                      Some transport \<Rightarrow> w\<lparr>wr_transport := Some transport\<rparr>
                    | None \<Rightarrow> w);
              event' = (case kind of
                          DriverEventKind \<Rightarrow>
                            fst (bound_driver_event_payload ser sha event DRIVER_EVENT_PAYLOAD_CAP_BYTES)
                        | _ \<Rightarrow> event);
              envelope = \<lparr>env_seq = wr_seq w', env_time = now,
                env_run_id = ri_run_id (wr_identity w'),
                env_runtime_id = ri_runtime_id (wr_identity w'),
                env_boot_id = ri_boot_id (wr_identity w'), env_kind = kind, env_event = event'\<rparr>
          in case to_line envelope of
               None \<Rightarrow> (Inl SessionSerialize, w', contents)
             | Some line \<Rightarrow>
                 (case fault of
                    Some k \<Rightarrow> (Inl SessionIo, w', contents @ take k (line @ [LF]))
                  | None \<Rightarrow>
                      (Inr (wr_seq w'), w'\<lparr>wr_seq := wr_seq w' + 1\<rparr>, contents @ line @ [LF]))))"

text \<open>What \<open>read_session_file\<close> gives for the contents of a file: every line that is not blank
  must parse.\<close>

fun read_lines ::
  "(string \<Rightarrow> session_envelope option) \<Rightarrow> string list \<Rightarrow> session_error + session_envelope list" where
  "read_lines parse [] = Inr []"
| "read_lines parse (line # lines) =
     (if trim line = [] then read_lines parse lines
      else case parse line of
        None \<Rightarrow> Inl SessionSerialize
      | Some e \<Rightarrow> try_res (read_lines parse lines) (\<lambda>es. Inr (e # es)))"

definition read_session_file ::
  "(string \<Rightarrow> session_envelope option) \<Rightarrow> string \<Rightarrow> session_error + session_envelope list" where
  "read_session_file parse contents = read_lines parse (str_lines contents)"

section \<open>Run sub-states\<close>

definition is_valid_sub_state_namespace :: "string \<Rightarrow> bool" where
  "is_valid_sub_state_namespace namespace \<longleftrightarrow>
     (case namespace of
        [] \<Rightarrow> False
      | c # cs \<Rightarrow> is_ascii_lowercase c \<and>
          list_all (\<lambda>c. is_ascii_lowercase c \<or> is_ascii_digit c \<or> c = CHR ''_'') cs)"

definition run_sub_state_new :: "string \<Rightarrow> session_error + string" where
  "run_sub_state_new s =
     (case split_once CHR ''.'' s of
        None \<Rightarrow> Inl (InvalidRunSubState s)
      | Some (namespace, verb) \<Rightarrow>
          if \<not> is_valid_sub_state_namespace namespace \<or> verb = []
            \<or> \<not> list_all (\<lambda>c. is_ascii_lowercase c \<or> c = CHR ''_'') verb
          then Inl (InvalidRunSubState s)
          else Inr s)"

section \<open>The log of a run\<close>

text \<open>A write that breaks off leaves a piece of its line, and the next line follows it: a line of the file
  is a sequence of pieces, each a non-empty beginning of the line of an envelope. What is assumed of the
  crate: a written line reads back, is one line and is not blank; and pieces put together are read as an
  envelope only when they are one whole line (no text of a JSON object begins another one, and the braces
  that a piece leaves open are not closed by lines that begin anew).\<close>

definition piece ::
  "(session_envelope \<Rightarrow> string option) \<Rightarrow> session_envelope \<times> string \<Rightarrow> bool" where
  "piece to_line = (\<lambda>(e, p). p \<noteq> [] \<and> (\<exists>q. to_line e = Some (p @ q)))"

definition row_text :: "(session_envelope \<times> string) list \<Rightarrow> string" where
  "row_text ps = concat (map snd ps)"

definition session_codec ::
  "(session_envelope \<Rightarrow> string option) \<Rightarrow> (string \<Rightarrow> session_envelope option) \<Rightarrow> bool" where
  "session_codec to_line parse \<longleftrightarrow>
     (\<forall>e line. to_line e = Some line \<longrightarrow>
        parse line = Some e \<and> LF \<notin> set line \<and> trim line \<noteq> [] \<and> last line \<noteq> CR) \<and>
     (\<forall>ps e. list_all (piece to_line) ps \<and> parse (row_text ps) = Some e \<longrightarrow>
        (\<exists>line. to_line e = Some line \<and> ps = [(e, line)]))"

definition newest_transport :: "session_envelope list \<Rightarrow> string option" where
  "newest_transport es =
     fold (\<lambda>e transport.
       if env_kind e \<noteq> LifecycleKind then transport
       else (case run_meta_transport (env_event e) of None \<Rightarrow> transport | Some t \<Rightarrow> Some t)) es None"

text \<open>
  The histories of the session file of a run whose transport is \<open>T\<close>: a writer opened on the new file,
  appends of any event, whatever the system does with the write, and writers opened later by any boot. The
  run states its transport in its \<open>run_meta\<close> events, each of which names \<open>T\<close>. The flag says that no write
  was torn.
\<close>

inductive session_history ::
  "(session_envelope \<Rightarrow> string option) \<Rightarrow> (string \<Rightarrow> session_envelope option) \<Rightarrow> (json \<Rightarrow> string)
    \<Rightarrow> (string \<Rightarrow> string) \<Rightarrow> string \<Rightarrow> bool \<Rightarrow> session_writer \<Rightarrow> string \<Rightarrow> bool"
  for to_line parse ser sha T
where
  opened: "session_history to_line parse ser sha T True (writer_open parse [] identity) []"
| appended: "session_history to_line parse ser sha T (clean \<and> fault = None) w' contents'"
  if "session_history to_line parse ser sha T clean w contents" "json_ok event"
    "kind = LifecycleKind \<Longrightarrow> run_meta_transport event \<in> {None, Some T}"
    "writer_append to_line ser sha fault now kind event (w, contents) = (r, w', contents')"
| reopened: "session_history to_line parse ser sha T clean (writer_open parse contents identity) contents"
  if "session_history to_line parse ser sha T clean w contents"

text \<open>The envelopes that the lines of the file are read as, and the condition that a whole \<open>run_meta\<close> line
  ends within the probed window.\<close>

definition parsed_envelopes ::
  "(string \<Rightarrow> session_envelope option) \<Rightarrow> string \<Rightarrow> session_envelope list" where
  "parsed_envelopes parse contents = List.map_filter parse (split_on LF contents)"

definition states_transport :: "session_envelope \<Rightarrow> bool" where
  "states_transport e \<longleftrightarrow> env_kind e = LifecycleKind \<and> run_meta_transport (env_event e) \<noteq> None"

definition meta_in_window :: "(string \<Rightarrow> session_envelope option) \<Rightarrow> string \<Rightarrow> bool" where
  "meta_in_window parse contents \<longleftrightarrow>
     (\<exists>pre line post e. contents = pre @ line @ post \<and> (pre = [] \<or> last pre = LF) \<and>
        (post = [] \<or> hd post = LF) \<and> LF \<notin> set line \<and>
        length pre + length line \<le> TRANSPORT_PROBE_BYTES \<and> parse line = Some e \<and> states_transport e)"

text \<open>No screen output after a pane transport was recorded.\<close>

definition pane_fenced :: "session_envelope list \<Rightarrow> bool" where
  "pane_fenced es \<longleftrightarrow>
     (\<forall>i < length es. env_kind (es ! i) = DriverEventKind \<and>
        get_str ''type'' (env_event (es ! i)) = Some ''text_chunk'' \<longrightarrow>
        (case newest_transport (take i es) of None \<Rightarrow> True | Some t \<Rightarrow> \<not> transport_is_pane t))"

lemma newest_transport_snoc:
  "newest_transport (es @ [e]) =
     (if env_kind e \<noteq> LifecycleKind then newest_transport es
      else (case run_meta_transport (env_event e) of None \<Rightarrow> newest_transport es | Some t \<Rightarrow> Some t))"
  unfolding newest_transport_def by simp

lemma pane_fenced_snoc:
  assumes "pane_fenced es"
    and "env_kind e = DriverEventKind \<Longrightarrow> get_str ''type'' (env_event e) = Some ''text_chunk''
      \<Longrightarrow> (case newest_transport es of None \<Rightarrow> True | Some t \<Rightarrow> \<not> transport_is_pane t)"
  shows "pane_fenced (es @ [e])"
  using assms by (auto simp: pane_fenced_def nth_append less_Suc_eq split: option.splits)

lemma pane_fenced_take: "pane_fenced (xs @ ys) \<Longrightarrow> pane_fenced xs"
  unfolding pane_fenced_def
proof (intro allI impI)
  fix i
  assume all: "\<forall>i < length (xs @ ys). env_kind ((xs @ ys) ! i) = DriverEventKind \<and>
      get_str ''type'' (env_event ((xs @ ys) ! i)) = Some ''text_chunk'' \<longrightarrow>
      (case newest_transport (take i (xs @ ys)) of None \<Rightarrow> True | Some t \<Rightarrow> \<not> transport_is_pane t)"
    and i: "i < length xs" "env_kind (xs ! i) = DriverEventKind \<and>
      get_str ''type'' (env_event (xs ! i)) = Some ''text_chunk''"
  show "case newest_transport (take i xs) of None \<Rightarrow> True | Some t \<Rightarrow> \<not> transport_is_pane t"
    using all [rule_format, of i] i by (simp add: nth_append)
qed

lemma read_lines_append:
  "read_lines parse ls = Inr es \<Longrightarrow> read_lines parse (ls @ ms) = try_res (read_lines parse ms) (\<lambda>fs. Inr (es @ fs))"
proof (induction ls arbitrary: es)
  case Nil
  then show ?case by (cases "read_lines parse ms") simp_all
next
  case (Cons l ls)
  show ?case
  proof (cases "trim l = []")
    case False
    with Cons.prems obtain e fs where p: "parse l = Some e" "read_lines parse ls = Inr fs" "es = e # fs"
      by (auto simp: try_res_Inr_iff split: option.splits)
    then show ?thesis using Cons.IH [OF p(2)] False by (cases "read_lines parse ms") simp_all
  qed (use Cons in simp)
qed

text \<open>A file of whole lines reads as before after one more line.\<close>

lemma read_session_file_append:
  assumes "session_codec to_line parse" "to_line e = Some line"
    and "contents = [] \<or> last contents = LF" "read_session_file parse contents = Inr es"
  shows "read_session_file parse (contents @ line @ [LF]) = Inr (es @ [e])"
proof -
  have l: "parse line = Some e" "LF \<notin> set line" "trim line \<noteq> []" "last line \<noteq> CR"
    using assms(1,2) by (auto simp: session_codec_def)
  have "strip_suffix (line @ [LF]) [LF] = Some line" by (simp add: strip_suffix_Some_iff)
  moreover have "strip_suffix line [CR] = None"
    using l(4) by (cases "strip_suffix line [CR]") (auto simp: strip_suffix_Some_iff)
  ultimately have "str_lines (line @ [LF]) = [line]"
    using split_inclusive_lf_cut [OF l(2), of "[]"] by (simp add: str_lines_def strip_line_end_def)
  then have "str_lines (contents @ line @ [LF]) = str_lines contents @ [line]"
    using str_lines_append [OF assms(3), of "line @ [LF]"] by simp
  then show ?thesis
    using read_lines_append assms(4) l(1,3) by (fastforce simp: read_session_file_def)
qed

text \<open>The tag of a bounded event is \<open>text_chunk\<close> only when the tag of the event is.\<close>

lemma digest_payload_head_long: "fst (digest_payload sha s) \<noteq> ''text_chunk''"
proof
  assume "fst (digest_payload sha s) = ''text_chunk''"
  then have "length (fst (digest_payload sha s)) = 10" by simp
  then show False by (simp add: digest_payload_def Let_def)
qed

lemma bound_child_string:
  assumes "bound_child ser sha cap depth v stats = (n, dg, JString s, st)"
  shows "v = JString s \<or> (\<exists>u. s = fst (digest_payload sha u))"
proof (cases v)
  case (JString u)
  then show ?thesis
    using assms by (cases "digest_payload sha u")
      (auto simp: bound_child.simps digest_subtree_def Let_def split: if_splits
        intro!: exI [of _ u])
qed (use assms in \<open>auto simp: bound_child.simps digest_subtree_def Let_def
    split: if_splits prod.splits\<close>)

lemma bound_fields_string:
  assumes "bound_fields ser sha cap depth m stats = (n, m', ds, st)" "map_of m' key = Some (JString s)"
  shows "map_of m key = Some (JString s) \<or> (\<exists>u. s = fst (digest_payload sha u))"
  using assms
proof (induction m arbitrary: n m' ds st stats)
  case (Cons kv m)
  obtain k v where kv: "kv = (k, v)" by (cases kv)
  obtain a dg v' s1 where c: "bound_child ser sha cap depth v stats = (a, dg, v', s1)"
    by (cases "bound_child ser sha cap depth v stats")
  obtain b m1 es s2 where f: "bound_fields ser sha cap depth m s1 = (b, m1, es, s2)"
    by (cases "bound_fields ser sha cap depth m s1")
  have m': "m' = (k, v') # m1" using Cons.prems(1) c f kv by simp
  show ?case
  proof (cases "k = key")
    case True
    then show ?thesis using Cons.prems(2) c m' kv bound_child_string by fastforce
  next
    case False
    then show ?thesis using Cons.IH [OF f] Cons.prems(2) m' kv by simp
  qed
qed simp

lemma bounded_text_chunk:
  assumes "json_ok event"
    and "get_str ''type'' (fst (bound_driver_event_payload ser sha event cap)) = Some ''text_chunk''"
  shows "get_str ''type'' event = Some ''text_chunk''"
proof -
  let ?s = "\<lparr>bounded_payloads = 0, bytes_elided = 0\<rparr>"
  obtain n v st where b: "bound_value ser sha cap 0 event ?s = (n, v, st)"
    by (cases "bound_value ser sha cap 0 event ?s")
  have ok: "json_ok v" using bound_sizes(1) [OF assms(1) b] by simp
  have whole: "get_str ''type'' v = Some ''text_chunk''"
    if w: "bound_whole_event ser sha tcap v st = (k, w, st')" and
      ty: "get_str ''type'' w = Some ''text_chunk''" for tcap k w st'
  proof (cases v)
    case (JObject m)
    obtain j m' s1 where run:
      "elide_loop ser sha tcap (elision_order m) (json_len_of_object m) m st = (j, m', s1)"
      by (cases "elide_loop ser sha tcap (elision_order m) (json_len_of_object m) m st")
    have okm: "bt_ok m" "fields_ok m" using ok JObject by simp_all
    have "map_of m' ''type'' = map_of m ''type''"
      using elide_loop_result [OF run okm refl elision_order_facts(1,2) [OF okm(1)]]
        elision_order_facts(3) [OF okm(1)] by (auto simp: STRUCTURAL_KEYS_def)
    then show ?thesis
      using w ty run JObject
      by (auto simp: bound_whole_event_def get_str_def json_get_def json_as_str_def
          digest_subtree_def Let_def bt_get_insert split: if_splits option.splits)
  qed (use w ty in \<open>auto simp: bound_whole_event_def get_str_def json_get_def digest_subtree_def Let_def\<close>)
  have v: "get_str ''type'' v = Some ''text_chunk''"
  proof (cases "driver_event_total_cap cap < n")
    case True
    then show ?thesis
      using whole assms(2) b
      by (cases "bound_whole_event ser sha (driver_event_total_cap cap) v st")
        (auto simp: bound_driver_event_payload_def)
  qed (use assms(2) b in \<open>simp add: bound_driver_event_payload_def\<close>)
  show ?thesis
  proof (cases event)
    case (JObject m)
    obtain k m1 ds s1 where f: "bound_fields ser sha cap 1 m ?s = (k, m1, ds, s1)"
      by (cases "bound_fields ser sha cap 1 m ?s")
    have "v = JObject (fold (\<lambda>(k, d). bt_insert k d) ds m1)"
      using b JObject f by (simp add: Let_def)
    then have "map_of m1 ''type'' = Some (JString ''text_chunk'')"
      using v map_of_insert_digests [OF bound_fields_digest_keys [OF f], of m1]
      by (auto simp: get_str_def json_get_def json_as_str_def split: json.splits Option.bind_splits)
    then have "map_of m ''type'' = Some (JString ''text_chunk'')"
      using bound_fields_string [OF f] digest_payload_head_long by metis
    then show ?thesis by (simp add: JObject get_str_def json_get_def json_as_str_def)
  qed (use v b in \<open>auto simp: get_str_def json_get_def split: prod.splits\<close>)
qed

section \<open>Lines and pieces\<close>

lemma split_on_cut: "split_on c (a @ c # b) = split_on c a @ split_on c b"
  by (induction a) (auto split: list.splits)

lemma split_on_free: "c \<notin> set s \<Longrightarrow> split_on c s = [s]"
  by (induction s) auto

lemma split_on_extend:
  "c \<notin> set s \<Longrightarrow> split_on c (a @ s) = butlast (split_on c a) @ [last (split_on c a) @ s]"
proof (induction a)
  case Nil
  then show ?case by (simp add: split_on_free)
next
  case (Cons x a)
  then have IH: "split_on c (a @ s) = butlast (split_on c a) @ [last (split_on c a) @ s]" by simp
  show ?case
  proof (cases "x = c")
    case False
    obtain y ys where y: "split_on c a = y # ys" by (cases "split_on c a") auto
    then show ?thesis using IH False by (cases "ys = []") (simp_all add: y)
  qed (simp add: IH)
qed

lemma split_on_prefix:
  "split_on c (a @ b) = butlast (split_on c a) @ (last (split_on c a) @ hd (split_on c b)) # tl (split_on c b)"
proof (induction a)
  case Nil
  then show ?case by (cases "split_on c b") auto
next
  case (Cons x a)
  show ?case
  proof (cases "x = c")
    case False
    obtain y ys where y: "split_on c a = y # ys" by (cases "split_on c a") auto
    then show ?thesis using Cons False by (cases "ys = []") (simp_all add: y)
  qed (simp add: Cons)
qed

text \<open>A part of the text between line ends is one of its lines, and every line is such a part.\<close>

definition line_at :: "string \<Rightarrow> string \<Rightarrow> string \<Rightarrow> string \<Rightarrow> bool" where
  "line_at contents pre line post \<longleftrightarrow> contents = pre @ line @ post \<and> (pre = [] \<or> last pre = LF) \<and>
     (post = [] \<or> hd post = LF) \<and> LF \<notin> set line"

lemma line_at_member: "line_at contents pre line post \<Longrightarrow> line \<in> set (split_on LF contents)"
proof -
  assume at: "line_at contents pre line post"
  have line: "line \<in> set (split_on LF (line @ post))"
  proof (cases post)
    case (Cons c r)
    then show ?thesis using at split_on_cut [of LF line r] split_on_free [of LF line] by (simp add: line_at_def)
  qed (use at split_on_free [of LF line] in \<open>simp add: line_at_def\<close>)
  show ?thesis
  proof (cases "pre = []")
    case False
    then have "pre = butlast pre @ [LF]" using at by (metis append_butlast_last_id line_at_def)
    then have "contents = butlast pre @ LF # (line @ post)"
      using at by (metis append.assoc append_Cons append_Nil line_at_def)
    then show ?thesis using line split_on_cut [of LF "butlast pre" "line @ post"] by simp
  qed (use at line in \<open>simp add: line_at_def\<close>)
qed

lemma member_line_at: "line \<in> set (split_on LF contents) \<Longrightarrow> \<exists>pre post. line_at contents pre line post"
proof (induction contents rule: length_induct)
  case (1 contents)
  show ?case
  proof (cases "LF \<in> set contents")
    case False
    then have "line = contents" using 1(2) split_on_free by fastforce
    then show ?thesis using False by (intro exI [of _ "[]"]) (simp add: line_at_def)
  next
    case True
    then obtain a b where ab: "contents = a @ LF # b" "LF \<notin> set a" by (meson split_list_first)
    then have "line = a \<or> line \<in> set (split_on LF b)"
      using 1(2) split_on_cut [of LF a b] split_on_free [of LF a] by auto
    then show ?thesis
    proof
      assume "line = a"
      then show ?thesis using ab by (intro exI [of _ "[]"] exI [of _ "LF # b"]) (simp add: line_at_def)
    next
      assume "line \<in> set (split_on LF b)"
      moreover have "length b < length contents" using ab(1) by simp
      ultimately obtain pre post where "line_at b pre line post" using 1(1) by blast
      then show ?thesis
        using ab(1) by (intro exI [of _ "a @ LF # pre"] exI [of _ post]) (auto simp: line_at_def)
    qed
  qed
qed

lemma line_at_take:
  assumes "line_at contents pre line post" "length pre + length line \<le> n"
  shows "line \<in> set (split_on LF (take n contents))"
proof -
  have "line_at (take n contents) pre line (take (n - (length pre + length line)) post)"
    using assms by (auto simp: line_at_def hd_take diff_diff_eq)
  then show ?thesis by (rule line_at_member)
qed

lemma meta_in_window_at:
  "meta_in_window parse contents \<longleftrightarrow> (\<exists>pre line post e. line_at contents pre line post \<and>
     length pre + length line \<le> TRANSPORT_PROBE_BYTES \<and> parse line = Some e \<and> states_transport e)"
  by (auto simp: meta_in_window_def line_at_def)

text \<open>The lines of a file that pieces of good envelopes make up.\<close>

definition pieced ::
  "(session_envelope \<Rightarrow> string option) \<Rightarrow> (session_envelope \<Rightarrow> bool) \<Rightarrow> string \<Rightarrow> bool" where
  "pieced to_line good s \<longleftrightarrow>
     (\<exists>ps. s = row_text ps \<and> list_all (piece to_line) ps \<and> list_all (\<lambda>(e, p). good e) ps)"

lemma pieced_Nil [simp]: "pieced to_line good []"
  unfolding pieced_def by (rule exI [of _ "[]"]) (simp add: row_text_def)

lemma pieced_snoc: "pieced to_line good s \<Longrightarrow> piece to_line (e, p) \<Longrightarrow> good e \<Longrightarrow> pieced to_line good (s @ p)"
  unfolding pieced_def by (elim exE conjE, rule_tac x = "ps @ [(e, p)]" in exI) (simp add: row_text_def)

lemma pieced_prefix: "pieced to_line good (s @ t) \<Longrightarrow> pieced to_line good s"
proof -
  have "pieced to_line good s"
    if "s @ t = row_text ps" "list_all (piece to_line) ps" "list_all (\<lambda>(e, p). good e) ps" for ps
    using that
  proof (induction ps arbitrary: s)
    case (Cons ep ps)
    obtain e p where ep: "ep = (e, p)" by (cases ep)
    have eq: "s @ t = p @ row_text ps" using Cons.prems(1) ep by (simp add: row_text_def)
    then consider (inside) u where "p = s @ u" | (beyond) u where "s = p @ u" "u @ t = row_text ps"
      by (auto simp: append_eq_append_conv2)
    then show ?case
    proof cases
      case inside
      then show ?thesis
      proof (cases "s = []")
        case False
        then have "piece to_line (e, s)" using Cons.prems(2) ep inside by (auto simp: piece_def)
        then show ?thesis using pieced_snoc [OF pieced_Nil] Cons.prems(3) ep by fastforce
      qed simp
    next
      case beyond
      have "pieced to_line good u" using Cons.IH [OF beyond(2)] Cons.prems by simp
      then obtain qs where "u = row_text qs" "list_all (piece to_line) qs" "list_all (\<lambda>(e, p). good e) qs"
        by (auto simp: pieced_def)
      then show ?thesis
        using beyond(1) Cons.prems(2,3) ep unfolding pieced_def
        by (intro exI [of _ "(e, p) # qs"]) (simp add: row_text_def)
    qed
  qed (simp add: row_text_def)
  then show "pieced to_line good (s @ t) \<Longrightarrow> ?thesis" unfolding pieced_def by blast
qed

definition file_pieced ::
  "(session_envelope \<Rightarrow> string option) \<Rightarrow> (session_envelope \<Rightarrow> bool) \<Rightarrow> string \<Rightarrow> bool" where
  "file_pieced to_line good contents \<longleftrightarrow> (\<forall>s \<in> set (split_on LF contents). pieced to_line good s)"

lemma file_pieced_take: "file_pieced to_line good contents \<Longrightarrow> file_pieced to_line good (take n contents)"
proof -
  assume all: "file_pieced to_line good contents"
  let ?a = "take n contents" and ?b = "drop n contents"
  have "split_on LF contents =
      butlast (split_on LF ?a) @ (last (split_on LF ?a) @ hd (split_on LF ?b)) # tl (split_on LF ?b)"
    using split_on_prefix [of LF ?a ?b] by simp
  then have "\<forall>s \<in> set (butlast (split_on LF ?a)). pieced to_line good s"
    "pieced to_line good (last (split_on LF ?a))"
    using all pieced_prefix by (auto simp: file_pieced_def)
  moreover have "set (split_on LF ?a) = insert (last (split_on LF ?a)) (set (butlast (split_on LF ?a)))"
    by (metis append_butlast_last_id list.set(2) list.simps(15) rotate1.simps(2) set_rotate1 split_on_not_Nil)
  ultimately show ?thesis by (simp add: file_pieced_def)
qed

lemma pieced_parses:
  assumes "session_codec to_line parse" "pieced to_line good s" "parse s = Some e"
  shows "to_line e = Some s \<and> good e"
  using assms unfolding session_codec_def pieced_def by (fastforce simp: row_text_def)

lemma codec_empty: "session_codec to_line parse \<Longrightarrow> parse [] = None"
  unfolding session_codec_def using row_text_def by (metis concat.simps(1) list.distinct(1) list.pred_inject(1) list.simps(8) not_Some_eq)

text \<open>What one more piece makes of the last line: an envelope only if it is the whole line of a new row.\<close>

lemma piece_extends:
  assumes "session_codec to_line parse" "pieced to_line good s" "piece to_line (e, p)" "parse (s @ p) = Some e'"
  shows "s = [] \<and> e' = e \<and> to_line e = Some p"
proof -
  obtain ps where ps: "s = row_text ps" "list_all (piece to_line) ps" using assms(2) by (auto simp: pieced_def)
  have "list_all (piece to_line) (ps @ [(e, p)])" "parse (row_text (ps @ [(e, p)])) = Some e'"
    using ps assms(3,4) by (simp_all add: row_text_def)
  then obtain line where "to_line e' = Some line" "ps @ [(e, p)] = [(e', line)]"
    using assms(1) unfolding session_codec_def by blast
  then show ?thesis using ps(1) by (auto simp: row_text_def)
qed

section \<open>The invariant of a session file\<close>

text \<open>What is true of every envelope that was written, whole or in part.\<close>

definition good_envelope ::
  "(json \<Rightarrow> string) \<Rightarrow> (string \<Rightarrow> string) \<Rightarrow> string \<Rightarrow> session_envelope \<Rightarrow> bool" where
  "good_envelope ser sha T e \<longleftrightarrow>
     (env_kind e = DriverEventKind \<longrightarrow>
        (\<exists>event. json_ok event \<and> env_event e =
           fst (bound_driver_event_payload ser sha event DRIVER_EVENT_PAYLOAD_CAP_BYTES))) \<and>
     (env_kind e = LifecycleKind \<longrightarrow> run_meta_transport (env_event e) \<in> {None, Some T})"

definition session_log_ok ::
  "(session_envelope \<Rightarrow> string option) \<Rightarrow> (string \<Rightarrow> session_envelope option) \<Rightarrow> (json \<Rightarrow> string) \<Rightarrow> (string \<Rightarrow> string)
    \<Rightarrow> string \<Rightarrow> bool \<Rightarrow> session_writer \<Rightarrow> string \<Rightarrow> bool"
where
  "session_log_ok to_line parse ser sha T clean w contents \<longleftrightarrow>
     file_pieced to_line (good_envelope ser sha T) contents \<and>
     wr_transport w \<in> {None, Some T} \<and>
     (meta_in_window parse contents \<longrightarrow>
        wr_transport w = Some T \<and> pane_fenced (parsed_envelopes parse contents)) \<and>
     (clean \<longrightarrow> (contents = [] \<or> last contents = LF) \<and>
        read_session_file parse contents = Inr (parsed_envelopes parse contents))"

lemma parsed_good:
  assumes "session_codec to_line parse" "file_pieced to_line (good_envelope ser sha T) contents"
    and "e \<in> set (parsed_envelopes parse contents)"
  shows "good_envelope ser sha T e"
proof -
  obtain l where "l \<in> set (split_on LF contents)" "parse l = Some e"
    using assms(3) by (auto simp: parsed_envelopes_def List.map_filter_def)
  then show ?thesis using pieced_parses [OF assms(1)] assms(2) by (auto simp: file_pieced_def)
qed

lemma newest_of_good:
  "\<forall>e \<in> set es. good_envelope ser sha T e \<Longrightarrow> newest_transport es \<in> {None, Some T}"
  by (induction es rule: rev_induct)
    (auto simp: newest_transport_def good_envelope_def split: option.splits)

lemma newest_of_none:
  "\<forall>e \<in> set es. \<not> states_transport e \<Longrightarrow> newest_transport es = None"
  by (induction es rule: rev_induct) (auto simp: newest_transport_def states_transport_def)

lemma fenced_of_none: "\<forall>e \<in> set es. \<not> states_transport e \<Longrightarrow> pane_fenced es"
proof -
  assume none: "\<forall>e \<in> set es. \<not> states_transport e"
  have "newest_transport (take i es) = None" for i
    using none by (intro newest_of_none) (auto dest: in_set_takeD)
  then show ?thesis by (simp add: pane_fenced_def)
qed

text \<open>The probe of a file: it finds \<open>T\<close> when a line in the window states it.\<close>

lemma fold_probe:
  assumes "\<forall>l \<in> set ls. \<forall>e. parse l = Some e \<longrightarrow> good_envelope ser sha T e" "t \<in> {None, Some T}"
  shows "fold (probe_line parse) ls t =
     (if \<exists>l \<in> set ls. \<exists>e. parse l = Some e \<and> states_transport e then Some T else t)"
  using assms
proof (induction ls arbitrary: t)
  case (Cons l ls)
  have step: "probe_line parse l t =
      (if \<exists>e. parse l = Some e \<and> states_transport e then Some T else t)"
    using Cons.prems(1)
    by (auto simp: probe_line_def states_transport_def good_envelope_def split: option.splits)
  show ?case using Cons.IH [of "probe_line parse l t"] Cons.prems step by (auto split: if_splits)
qed simp

lemma recorded_good:
  assumes "session_codec to_line parse" "file_pieced to_line (good_envelope ser sha T) contents"
  shows "recorded_transport parse contents \<in> {None, Some T}"
    "meta_in_window parse contents \<Longrightarrow> recorded_transport parse contents = Some T"
proof -
  let ?ls = "split_on LF (take TRANSPORT_PROBE_BYTES contents)"
  have "\<forall>l \<in> set ?ls. \<forall>e. parse l = Some e \<longrightarrow> good_envelope ser sha T e"
  proof (intro ballI allI impI)
    fix l e assume l: "l \<in> set ?ls" "parse l = Some e"
    then have "pieced to_line (good_envelope ser sha T) l"
      using file_pieced_take [OF assms(2)] unfolding file_pieced_def by blast
    then show "good_envelope ser sha T e" using pieced_parses [OF assms(1)] l(2) by blast
  qed
  note probe = fold_probe [OF this, of None]
  show "recorded_transport parse contents \<in> {None, Some T}"
    using probe by (simp add: recorded_transport_def)
  assume "meta_in_window parse contents"
  then have "\<exists>l \<in> set ?ls. \<exists>e. parse l = Some e \<and> states_transport e"
    using line_at_take unfolding meta_in_window_at by blast
  then show "recorded_transport parse contents = Some T"
    using probe by (simp add: recorded_transport_def)
qed

text \<open>A file without a \<open>run_meta\<close> line in the window that is not longer than the window has none at all.\<close>

lemma short_file_without_meta:
  assumes "\<not> meta_in_window parse contents" "length contents \<le> TRANSPORT_PROBE_BYTES"
    and "e \<in> set (parsed_envelopes parse contents)"
  shows "\<not> states_transport e"
proof
  assume meta: "states_transport e"
  obtain l where l: "l \<in> set (split_on LF contents)" "parse l = Some e"
    using assms(3) by (auto simp: parsed_envelopes_def List.map_filter_def)
  obtain pre post where at: "line_at contents pre l post" using member_line_at [OF l(1)] by blast
  then have "length pre + length l \<le> TRANSPORT_PROBE_BYTES" using assms(2) by (simp add: line_at_def)
  then show False using assms(1) at l(2) meta unfolding meta_in_window_at by blast
qed

section \<open>One more piece\<close>

text \<open>What a write leaves: the piece \<open>p\<close> of the line of \<open>e\<close>, and the line end when it came that far.\<close>

lemma written_piece:
  assumes "take k (line @ [LF]) = x" "LF \<notin> set line" "line \<noteq> []"
  obtains "x = []" | p q where "x = p @ q" "p \<noteq> []" "LF \<notin> set p" "q = [] \<or> q = [LF] \<and> p = line"
    "\<exists>r. line = p @ r"
proof (cases "k = 0")
  case False
  show ?thesis
  proof (cases "k \<le> length line")
    case True
    then have x: "x = take k line" using assms(1) by simp
    have "take k line \<noteq> []" using False assms(3) by simp
    moreover have "LF \<notin> set (take k line)" using assms(2) by (meson in_set_takeD)
    moreover have "\<exists>r. line = take k line @ r" using append_take_drop_id [of k line] by metis
    ultimately show ?thesis using x that(2) [of "take k line" "[]"] by simp
  next
    case False
    then have "x = line @ [LF]" using assms(1) by auto
    then show ?thesis using assms that(2) [of line "[LF]"] by simp
  qed
qed (use assms that(1) in simp)

lemma split_on_piece:
  assumes "LF \<notin> set p" "q = [] \<or> q = [LF]"
  shows "split_on LF (contents @ p @ q) =
    butlast (split_on LF contents) @ (last (split_on LF contents) @ p) # (if q = [] then [] else [[]])"
proof -
  have line: "split_on LF (contents @ p) = butlast (split_on LF contents) @ [last (split_on LF contents) @ p]"
    using split_on_extend [OF assms(1)] .
  have "split_on LF ((contents @ p) @ LF # []) = split_on LF (contents @ p) @ [[]]"
    using split_on_cut [of LF "contents @ p" "[]"] by simp
  then show ?thesis using assms(2) line by auto
qed

lemma last_line_at: "line_at contents pre line [] \<Longrightarrow> last (split_on LF contents) = line"
proof -
  assume at: "line_at contents pre line []"
  show ?thesis
  proof (cases "pre = []")
    case False
    then have "pre = butlast pre @ [LF]" using at by (metis append_butlast_last_id line_at_def)
    then have "contents = butlast pre @ LF # line" using at
      by (metis append.assoc append_Cons append_Nil append_Nil2 line_at_def)
    then show ?thesis using split_on_cut [of LF "butlast pre" line] split_on_free [of LF line] at
      by (simp add: line_at_def)
  qed (use at split_on_free [of LF line] in \<open>simp add: line_at_def\<close>)
qed

lemma append_longer: "a @ b = c @ d \<Longrightarrow> length c \<le> length a \<Longrightarrow> \<exists>u. a = c @ u \<and> u @ b = d"
  by (auto simp: append_eq_append_conv2)

lemma takeWhile_lf: "LF \<notin> set v \<Longrightarrow> takeWhile (\<lambda>c. c \<noteq> LF) (v @ LF # r) = v"
  by (induction v) auto

text \<open>A non-empty line of the longer file is a line of the file, or the last one with the new piece.\<close>

lemma line_at_piece:
  assumes at: "line_at (contents @ p @ q) pre line post" and p: "LF \<notin> set p" "q = [] \<or> q = [LF]" and ne: "line \<noteq> []"
  shows "(\<exists>post'. line_at contents pre line post') \<or>
    line = last (split_on LF contents) @ p \<and> length contents \<le> length pre + length line"
proof (cases "length pre + length line \<le> length contents")
  case True
  have eq: "contents @ p @ q = (pre @ line) @ post" using at by (simp add: line_at_def)
  then obtain u where u: "contents = (pre @ line) @ u" "u @ p @ q = post"
    using append_longer [OF eq] True by auto
  have "u = [] \<or> hd u = LF" using at u(2) by (cases u) (auto simp: line_at_def)
  then have "line_at contents pre line u" using at u(1) by (simp add: line_at_def)
  then show ?thesis by blast
next
  case beyond: False
  have eq: "contents @ p @ q = pre @ line @ post" using at by (simp add: line_at_def)
  show ?thesis
  proof (cases "length pre \<le> length contents")
    case True
    then obtain u where u: "contents = pre @ u" "u @ p @ q = line @ post"
      using append_longer [OF eq] by blast
    moreover have "length u \<le> length line" using beyond u(1) by simp
    ultimately obtain v where v: "line = u @ v" "v @ post = p @ q"
      using append_longer [OF u(2) [symmetric]] by blast
    have last: "last (split_on LF contents) = u"
      using at u(1) v(1) by (intro last_line_at [of _ pre]) (auto simp: line_at_def)
    have "LF \<notin> set v" "post = [] \<or> hd post = LF" using at v(1) by (auto simp: line_at_def)
    then have "takeWhile (\<lambda>c. c \<noteq> LF) (v @ post) = v"
      by (cases post) (auto simp: takeWhile_lf takeWhile_eq_all_conv)
    moreover have "takeWhile (\<lambda>c. c \<noteq> LF) (p @ q) = p"
      using p takeWhile_lf [of p "[]"] by (auto simp: takeWhile_eq_all_conv)
    ultimately have "v = p" using v(2) by simp
    then show ?thesis using last v(1) beyond by simp
  next
    case False
    then obtain u where u: "pre = contents @ u" "p @ q = u @ line @ post" "u \<noteq> []"
      using append_longer [OF eq [symmetric]] by fastforce
    then have "last u = LF" using at False by (auto simp: line_at_def)
    then have "LF \<in> set u" using u(3) last_in_set by metis
    then obtain u1 u2 where "u = u1 @ LF # u2" "LF \<notin> set u1" by (meson split_list_first)
    then have "p @ q = u1 @ LF # (u2 @ line @ post)" using u(2) by simp
    moreover have "takeWhile (\<lambda>c. c \<noteq> LF) (p @ q) = p"
      using p takeWhile_lf [of p "[]"] by (auto simp: takeWhile_eq_all_conv)
    moreover have "takeWhile (\<lambda>c. c \<noteq> LF) (u1 @ LF # (u2 @ line @ post)) = u1"
      using \<open>LF \<notin> set u1\<close> by (rule takeWhile_lf)
    ultimately have "q = LF # (u2 @ line @ post)" by simp
    then show ?thesis using p(2) ne by auto
  qed
qed


lemma map_filter_snoc:
  "List.map_filter f (xs @ [x]) = List.map_filter f xs @ (case f x of None \<Rightarrow> [] | Some y \<Rightarrow> [y])"
  by (auto simp: List.map_filter_def split: option.splits)

lemma parsed_of_lines:
  "parsed_envelopes parse contents = List.map_filter parse (butlast (split_on LF contents)) @
      (case parse (last (split_on LF contents)) of None \<Rightarrow> [] | Some e \<Rightarrow> [e])"
proof -
  have lines: "split_on LF contents = butlast (split_on LF contents) @ [last (split_on LF contents)]" by simp
  show ?thesis unfolding parsed_envelopes_def map_filter_snoc [symmetric] by (rule arg_cong [OF lines])
qed

lemma parsed_of_piece:
  assumes "LF \<notin> set p" "q = [] \<or> q = [LF]" "parse [] = None"
  shows "parsed_envelopes parse (contents @ p @ q) =
    List.map_filter parse (butlast (split_on LF contents)) @
      (case parse (last (split_on LF contents) @ p) of None \<Rightarrow> [] | Some e \<Rightarrow> [e])"
proof -
  let ?b = "butlast (split_on LF contents)" and ?l = "last (split_on LF contents) @ p"
  have "parsed_envelopes parse (contents @ p @ q) =
      List.map_filter parse ((?b @ [?l]) @ (if q = [] then [] else [[]]))"
    unfolding parsed_envelopes_def split_on_piece [OF assms(1,2)] by simp
  also have "\<dots> = List.map_filter parse (?b @ [?l])"
    using map_filter_snoc [of parse "?b @ [?l]" "[]"] assms(3) by simp
  finally show ?thesis unfolding map_filter_snoc .
qed

lemma last_of_whole_lines: "contents = [] \<or> last contents = LF \<Longrightarrow> last (split_on LF contents) = []"
proof (cases "contents = []")
  case False
  assume "contents = [] \<or> last contents = LF"
  then have "contents = butlast contents @ [LF]" using False by (metis append_butlast_last_id)
  then show ?thesis using split_on_cut [of LF "butlast contents" "[]"] by simp
qed simp

text \<open>What an append does: nothing to the file, or a piece of the line of the envelope of the event.\<close>

lemma writer_append_writes:
  assumes "writer_append to_line ser sha fault now kind event (w, contents) = (r, w', contents')"
  obtains (refused) "w' = w" "contents' = contents" "\<exists>t. r = Inl (RenderedPanePayloadRefused t)"
    | (row) e where "env_kind e = kind"
      "env_event e = (if kind = DriverEventKind
         then fst (bound_driver_event_payload ser sha event DRIVER_EVENT_PAYLOAD_CAP_BYTES) else event)"
      "kind = DriverEventKind \<Longrightarrow> get_str ''type'' event = Some ''text_chunk''
        \<Longrightarrow> (case wr_transport w of None \<Rightarrow> True | Some t \<Rightarrow> \<not> transport_is_pane t)"
      "wr_transport w' = (if kind = LifecycleKind \<and> run_meta_transport event \<noteq> None
         then run_meta_transport event else wr_transport w)"
      "to_line e = None \<and> contents' = contents \<or> (\<exists>line. to_line e = Some line \<and>
         contents' = contents @ take (case fault of None \<Rightarrow> Suc (length line) | Some k \<Rightarrow> k) (line @ [LF]))"
proof -
  let ?pane = "case (if kind = DriverEventKind \<and> get_str ''type'' event = Some ''text_chunk''
      then (case wr_transport w of
              Some transport \<Rightarrow> if transport_is_pane transport then Some transport else None
            | None \<Rightarrow> None)
      else None) of None \<Rightarrow> False | Some t \<Rightarrow> True"
  show thesis
  proof (cases ?pane)
    case True
    then show thesis using assms by (intro refused) (auto simp: writer_append_def split: option.splits if_splits)
  next
    case False
    define w1 where "w1 = (case (if kind = LifecycleKind then run_meta_transport event else None) of
        Some transport \<Rightarrow> w\<lparr>wr_transport := Some transport\<rparr> | None \<Rightarrow> w)"
    define e where "e = \<lparr>env_seq = wr_seq w1, env_time = now,
        env_run_id = ri_run_id (wr_identity w1), env_runtime_id = ri_runtime_id (wr_identity w1),
        env_boot_id = ri_boot_id (wr_identity w1), env_kind = kind,
        env_event = (case kind of
          DriverEventKind \<Rightarrow> fst (bound_driver_event_payload ser sha event DRIVER_EVENT_PAYLOAD_CAP_BYTES)
        | _ \<Rightarrow> event)\<rparr>"
    have run: "(case to_line e of
        None \<Rightarrow> (Inl SessionSerialize, w1, contents)
      | Some line \<Rightarrow>
          (case fault of
             Some k \<Rightarrow> (Inl SessionIo, w1, contents @ take k (line @ [LF]))
           | None \<Rightarrow> (Inr (wr_seq w1), w1\<lparr>wr_seq := wr_seq w1 + 1\<rparr>, contents @ line @ [LF])))
      = (r, w', contents')"
      using assms False
      by (auto simp: writer_append_def Let_def e_def w1_def split: option.splits if_splits)
    have w': "wr_transport w' = wr_transport w1"
      using run by (auto split: option.splits)
    show thesis
    proof (rule row [of e])
      show "env_kind e = kind" by (simp add: e_def)
      show "env_event e = (if kind = DriverEventKind
          then fst (bound_driver_event_payload ser sha event DRIVER_EVENT_PAYLOAD_CAP_BYTES) else event)"
        by (cases kind) (simp_all add: e_def)
      show "case wr_transport w of None \<Rightarrow> True | Some t \<Rightarrow> \<not> transport_is_pane t"
        if "kind = DriverEventKind" "get_str ''type'' event = Some ''text_chunk''"
        using False that by (auto split: option.splits if_splits)
      show "wr_transport w' = (if kind = LifecycleKind \<and> run_meta_transport event \<noteq> None
          then run_meta_transport event else wr_transport w)"
        unfolding w' by (auto simp: w1_def split: option.splits)
      show "to_line e = None \<and> contents' = contents \<or> (\<exists>line. to_line e = Some line \<and>
          contents' = contents @ take (case fault of None \<Rightarrow> Suc (length line) | Some k \<Rightarrow> k) (line @ [LF]))"
        using run by (auto split: option.splits)
    qed
  qed
qed

text \<open>The invariant after one more piece.\<close>

lemma file_pieced_piece:
  assumes "file_pieced to_line good contents" "piece to_line (e, p)" "good e" "LF \<notin> set p" "q = [] \<or> q = [LF]"
  shows "file_pieced to_line good (contents @ p @ q)"
proof -
  have lines: "split_on LF contents = butlast (split_on LF contents) @ [last (split_on LF contents)]" by simp
  have old: "\<forall>s \<in> set (butlast (split_on LF contents)). pieced to_line good s"
    using assms(1) by (auto simp: file_pieced_def dest: in_set_butlastD)
  have "pieced to_line good (last (split_on LF contents))"
    using assms(1) last_in_set [of "split_on LF contents"] by (simp add: file_pieced_def)
  then have "pieced to_line good (last (split_on LF contents) @ p)" using pieced_snoc assms(2,3) by blast
  then show ?thesis using old by (auto simp: file_pieced_def split_on_piece [OF assms(4,5)])
qed

lemma meta_in_window_piece:
  assumes codec: "session_codec to_line parse" and files: "file_pieced to_line good contents"
    and piece: "piece to_line (e, p)" "LF \<notin> set p" "q = [] \<or> q = [LF]"
    and meta: "meta_in_window parse (contents @ p @ q)"
  shows "meta_in_window parse contents \<or> states_transport e \<and> length contents \<le> TRANSPORT_PROBE_BYTES"
proof -
  obtain pre line post e' where at: "line_at (contents @ p @ q) pre line post"
    "length pre + length line \<le> TRANSPORT_PROBE_BYTES" "parse line = Some e'" "states_transport e'"
    using meta unfolding meta_in_window_at by blast
  have "line \<noteq> []" using at(3) codec_empty [OF codec] by auto
  from line_at_piece [OF at(1) piece(2,3) this] show ?thesis
  proof
    assume "\<exists>post'. line_at contents pre line post'"
    then show ?thesis using at(2-4) unfolding meta_in_window_at by blast
  next
    assume new: "line = last (split_on LF contents) @ p \<and> length contents \<le> length pre + length line"
    have "pieced to_line good (last (split_on LF contents))"
      using files last_in_set [of "split_on LF contents"] by (simp add: file_pieced_def)
    then have "e' = e" using piece_extends [OF codec _ piece(1)] at(3) new by blast
    then show ?thesis using at(2,4) new le_trans by blast
  qed
qed

lemma fenced_piece:
  assumes codec: "session_codec to_line parse"
    and files: "file_pieced to_line (good_envelope ser sha T) contents"
    and piece: "piece to_line (e, p)" "LF \<notin> set p" "q = [] \<or> q = [LF]"
    and meta: "meta_in_window parse (contents @ p @ q)"
    and fence: "meta_in_window parse contents \<Longrightarrow> pane_fenced (parsed_envelopes parse contents)"
    and refuse: "meta_in_window parse contents \<Longrightarrow> env_kind e = DriverEventKind
      \<Longrightarrow> get_str ''type'' (env_event e) = Some ''text_chunk'' \<Longrightarrow> \<not> transport_is_pane T"
  shows "pane_fenced (parsed_envelopes parse (contents @ p @ q))"
proof -
  let ?s = "last (split_on LF contents)" and ?base = "List.map_filter parse (butlast (split_on LF contents))"
  have empty: "parse [] = None" using codec_empty [OF codec] .
  have s: "pieced to_line (good_envelope ser sha T) ?s"
    using files last_in_set [of "split_on LF contents"] by (simp add: file_pieced_def)
  have old: "set ?base \<subseteq> set (parsed_envelopes parse contents)" by (simp add: parsed_of_lines)
  have base: "pane_fenced ?base \<and> (case newest_transport ?base of None \<Rightarrow> True
      | Some t \<Rightarrow> t = T \<and> meta_in_window parse contents)"
  proof (cases "meta_in_window parse contents")
    case True
    have "\<forall>e \<in> set ?base. good_envelope ser sha T e" using parsed_good [OF codec files] old by blast
    then have "newest_transport ?base \<in> {None, Some T}" by (rule newest_of_good)
    moreover have "pane_fenced ?base" using pane_fenced_take fence [OF True] by (simp add: parsed_of_lines)
    ultimately show ?thesis using True by auto
  next
    case False
    then have "length contents \<le> TRANSPORT_PROBE_BYTES"
      using meta_in_window_piece [OF codec files piece meta] by simp
    then have "\<forall>e \<in> set ?base. \<not> states_transport e"
      using short_file_without_meta [OF False] old by blast
    then show ?thesis using fenced_of_none [of ?base] newest_of_none [of ?base] by simp
  qed
  note parsed = parsed_of_piece [of p q parse contents, OF piece(2,3) empty]
  show ?thesis
  proof (cases "parse (?s @ p)")
    case None
    then show ?thesis using base parsed by simp
  next
    case (Some e')
    then have "e' = e" using piece_extends [OF codec s piece(1)] by blast
    then have "parsed_envelopes parse (contents @ p @ q) = ?base @ [e]" using parsed Some by simp
    moreover have "pane_fenced (?base @ [e])"
      using base refuse by (intro pane_fenced_snoc) (auto split: option.splits)
    ultimately show ?thesis by simp
  qed
qed

lemma read_whole_line:
  assumes codec: "session_codec to_line parse" and "to_line e = Some line"
    and whole: "contents = [] \<or> last contents = LF"
    and "read_session_file parse contents = Inr (parsed_envelopes parse contents)"
  shows "read_session_file parse (contents @ line @ [LF]) =
    Inr (parsed_envelopes parse (contents @ line @ [LF]))"
proof -
  have line: "parse line = Some e" "LF \<notin> set line"
    using assms(1,2) by (auto simp: session_codec_def)
  have empty: "parse [] = None" using codec_empty [OF codec] .
  have "parsed_envelopes parse (contents @ line @ [LF]) = parsed_envelopes parse contents @ [e]"
    using parsed_of_piece [of line "[LF]" parse contents, OF line(2) _ empty] parsed_of_lines [of parse contents]
      last_of_whole_lines [OF whole] line(1) empty by simp
  then show ?thesis using read_session_file_append [OF assms] by simp
qed

lemma good_row:
  assumes "json_ok event" "kind = LifecycleKind \<Longrightarrow> run_meta_transport event \<in> {None, Some T}"
    and "env_kind e = kind"
    and "env_event e = (if kind = DriverEventKind
      then fst (bound_driver_event_payload ser sha event DRIVER_EVENT_PAYLOAD_CAP_BYTES) else event)"
  shows "good_envelope ser sha T e"
  using assms by (auto simp: good_envelope_def)

lemma append_keeps_log_ok:
  assumes codec: "session_codec to_line parse"
    and ok: "session_log_ok to_line parse ser sha T clean w contents"
    and event: "json_ok event" "kind = LifecycleKind \<Longrightarrow> run_meta_transport event \<in> {None, Some T}"
    and run: "writer_append to_line ser sha fault now kind event (w, contents) = (r, w', contents')"
  shows "session_log_ok to_line parse ser sha T (clean \<and> fault = None) w' contents'"
proof (rule writer_append_writes [OF run])
  assume "w' = w" "contents' = contents"
  then show ?thesis using ok by (simp add: session_log_ok_def)
next
  fix e
  assume e: "env_kind e = kind"
    "env_event e = (if kind = DriverEventKind
      then fst (bound_driver_event_payload ser sha event DRIVER_EVENT_PAYLOAD_CAP_BYTES) else event)"
    and refuse: "kind = DriverEventKind \<Longrightarrow> get_str ''type'' event = Some ''text_chunk''
      \<Longrightarrow> (case wr_transport w of None \<Rightarrow> True | Some t \<Rightarrow> \<not> transport_is_pane t)"
    and transport: "wr_transport w' = (if kind = LifecycleKind \<and> run_meta_transport event \<noteq> None
      then run_meta_transport event else wr_transport w)"
    and written: "to_line e = None \<and> contents' = contents \<or> (\<exists>line. to_line e = Some line \<and>
      contents' = contents @ take (case fault of None \<Rightarrow> Suc (length line) | Some k \<Rightarrow> k) (line @ [LF]))"
  have good: "good_envelope ser sha T e" using good_row [OF event e] .
  have w': "wr_transport w' \<in> {None, Some T}" "states_transport e \<Longrightarrow> wr_transport w' = Some T"
    "wr_transport w = Some T \<Longrightarrow> wr_transport w' = Some T"
    using ok event(2) transport e by (auto simp: session_log_ok_def states_transport_def split: if_splits)
  have same: ?thesis if "contents' = contents"
    using ok w' that by (simp add: session_log_ok_def)
  show ?thesis
  proof (cases "to_line e")
    case (Some line)
    define k where "k = (case fault of None \<Rightarrow> Suc (length line) | Some k \<Rightarrow> k)"
    have c': "contents' = contents @ take k (line @ [LF])" using written Some by (auto simp: k_def)
    have line: "LF \<notin> set line" "line \<noteq> []"
      using codec Some by (force simp: session_codec_def trim_def trim_start_def trim_end_def)+
    show ?thesis
    proof (rule written_piece [OF refl line, of k])
      assume "take k (line @ [LF]) = []"
      then show ?thesis using same c' by simp
    next
      fix p q
      assume x: "take k (line @ [LF]) = p @ q" and p: "p \<noteq> []" "LF \<notin> set p"
        and q: "q = [] \<or> q = [LF] \<and> p = line" and "\<exists>r. line = p @ r"
      then have piece: "piece to_line (e, p)" using Some by (auto simp: piece_def)
      have q': "q = [] \<or> q = [LF]" using q by blast
      have c'': "contents' = contents @ p @ q" using c' x by simp
      have files: "file_pieced to_line (good_envelope ser sha T) contents"
        and fence: "meta_in_window parse contents \<Longrightarrow>
          wr_transport w = Some T \<and> pane_fenced (parsed_envelopes parse contents)"
        using ok by (auto simp: session_log_ok_def)
      have "file_pieced to_line (good_envelope ser sha T) contents'"
        unfolding c'' using file_pieced_piece [OF files piece good p(2) q'] .
      moreover have "wr_transport w' = Some T" if "meta_in_window parse contents'"
        using meta_in_window_piece [OF codec files piece p(2) q'] that fence w'(2,3) unfolding c'' by blast
      moreover have "pane_fenced (parsed_envelopes parse contents')" if meta: "meta_in_window parse contents'"
        unfolding c''
      proof (rule fenced_piece [OF codec files piece p(2) q'])
        show "meta_in_window parse (contents @ p @ q)" using meta unfolding c'' .
        show "pane_fenced (parsed_envelopes parse contents)" if "meta_in_window parse contents"
          using fence that by blast
        show "\<not> transport_is_pane T" if "meta_in_window parse contents" "env_kind e = DriverEventKind"
          "get_str ''type'' (env_event e) = Some ''text_chunk''"
          using fence [OF that(1)] refuse that(2,3) e bounded_text_chunk [OF event(1)] by auto
      qed
      moreover have "(contents' = [] \<or> last contents' = LF) \<and>
        read_session_file parse contents' = Inr (parsed_envelopes parse contents')" if "clean" "fault = None"
      proof -
        have x': "contents' = contents @ line @ [LF]" using c' that(2) by (simp add: k_def)
        show ?thesis
          using read_whole_line [OF codec Some] ok that(1) unfolding x' by (simp add: session_log_ok_def)
      qed
      ultimately show ?thesis using w'(1) by (simp add: session_log_ok_def)
    qed
  qed (use same written in simp)
qed

lemma history_log_ok:
  assumes "session_codec to_line parse" "session_history to_line parse ser sha T clean w contents"
  shows "session_log_ok to_line parse ser sha T clean w contents"
  using assms(2)
proof induction
  case (opened identity)
  have "parsed_envelopes parse [] = []" "\<not> meta_in_window parse []"
    using codec_empty [OF assms(1)]
    by (simp_all add: parsed_envelopes_def List.map_filter_def meta_in_window_def)
  then show ?case
    using recorded_good(1) [OF assms(1), of ser sha T "[]"]
    by (simp add: session_log_ok_def file_pieced_def writer_open_def read_session_file_def str_lines_def)
next
  case (appended clean w contents event kind fault now r w' contents')
  then show ?case using append_keeps_log_ok [OF assms(1)] by blast
next
  case (reopened clean w contents identity)
  then show ?case
    using recorded_good [OF assms(1), of ser sha T contents]
    by (simp add: session_log_ok_def writer_open_def)
qed

text \<open>Every driver event in the log is a bounded one.\<close>

definition bounded_events ::
  "(json \<Rightarrow> string) \<Rightarrow> (string \<Rightarrow> string) \<Rightarrow> session_envelope list \<Rightarrow> bool" where
  "bounded_events ser sha es \<longleftrightarrow>
     (\<forall>e \<in> set es. env_kind e = DriverEventKind \<longrightarrow>
        (\<exists>event. json_ok event \<and> env_event e =
           fst (bound_driver_event_payload ser sha event DRIVER_EVENT_PAYLOAD_CAP_BYTES)))"


definition sample_meta :: session_envelope where
  "sample_meta =
     \<lparr>env_seq = 0, env_time = ''t0'', env_run_id = ''run'', env_runtime_id = ''rt'', env_boot_id = ''b1'',
      env_kind = LifecycleKind,
      env_event = JObject [(''phase'', JString ''run_meta''), (''transport'', JString ''tmux'')]\<rparr>"

definition sample_to_line :: "session_envelope \<Rightarrow> string option" where
  "sample_to_line e = (if e = sample_meta then Some ''{}'' else None)"

definition sample_parse :: "string \<Rightarrow> session_envelope option" where
  "sample_parse line = (if line = ''{}'' then Some sample_meta else None)"

lemma sample_codec: "session_codec sample_to_line sample_parse"
proof -
  have piece: "p = ''{'' \<or> p = ''{}''" if "piece sample_to_line (e, p)" for e p
    using that by (auto simp: piece_def sample_to_line_def Cons_eq_append_conv split: if_splits)
  have meta: "e = sample_meta" if "piece sample_to_line (e, p)" for e p
    using that by (auto simp: piece_def sample_to_line_def split: if_splits)
  have "ps = [(sample_meta, ''{}'')]"
    if ps: "list_all (piece sample_to_line) ps" "row_text ps = ''{}''" for ps
  proof (cases ps)
    case (Cons ep qs)
    obtain e p where ep: "ep = (e, p)" by (cases ep)
    have e: "e = sample_meta" "p = ''{'' \<or> p = ''{}''" using ps(1) Cons ep meta piece by auto
    show ?thesis
    proof (cases qs)
      case (Cons eq rs)
      then obtain e' p' where "eq = (e', p')" "piece sample_to_line (e', p')"
        using ps(1) \<open>ps = ep # qs\<close> by (cases eq) auto
      then show ?thesis
        using piece [of e' p'] ps(2) \<open>ps = ep # qs\<close> ep e(2) Cons by (auto simp: row_text_def)
    qed (use ps(2) Cons ep e in \<open>auto simp: row_text_def\<close>)
  qed (use ps(2) in \<open>simp add: row_text_def\<close>)
  then show ?thesis
    by (auto simp: session_codec_def sample_to_line_def sample_parse_def trim_def trim_start_def
        trim_end_def is_whitespace_def ws_chars_def split: if_splits)
qed


text \<open>An accepted sub-state is a performer and a verb, split at its only dot.\<close>

lemma run_sub_state_parts:
  "run_sub_state_new s = Inr t \<longleftrightarrow>
     s = t \<and> (\<exists>n v. s = n @ ''.'' @ v \<and> is_valid_sub_state_namespace n \<and> v \<noteq> []
       \<and> list_all (\<lambda>c. is_ascii_lowercase c \<or> c = CHR ''_'') v)"
proof -
  have dot: "CHR ''.'' \<notin> set n" if "is_valid_sub_state_namespace n" for n
    using that by (auto simp: is_valid_sub_state_namespace_def list_all_iff is_ascii_lowercase_def
        is_ascii_digit_def split: list.splits)
  show ?thesis
  proof
    assume "run_sub_state_new s = Inr t"
    then show "s = t \<and> (\<exists>n v. s = n @ ''.'' @ v \<and> is_valid_sub_state_namespace n \<and> v \<noteq> []
       \<and> list_all (\<lambda>c. is_ascii_lowercase c \<or> c = CHR ''_'') v)"
      by (fastforce simp: run_sub_state_new_def split_once_Some_iff split: option.splits if_splits)
  next
    assume "s = t \<and> (\<exists>n v. s = n @ ''.'' @ v \<and> is_valid_sub_state_namespace n \<and> v \<noteq> []
       \<and> list_all (\<lambda>c. is_ascii_lowercase c \<or> c = CHR ''_'') v)"
    then show "run_sub_state_new s = Inr t"
      using dot split_once_append [of "CHR ''.''"] by (auto simp: run_sub_state_new_def)
  qed
qed

end
