(* ===== verification/Session_Scan.thy ===== *)
theory Session_Scan
  imports Session_Log "HOL-Library.Sublist"
begin

text \<open>
  The lifecycle scans of \<open>crates/orgasmic-core/src/session.rs\<close>, on the bytes of a session file:
  the substring search, the retention filter, the bounded scan that reads two windows and the
  complete scan that reads every line. The lemmas compare the search with its reference and the
  bounded scan with the complete one.
\<close>

section \<open>Searching bytes\<close>

text \<open>\<open>iter().position(p)\<close>.\<close>

fun position :: "('a \<Rightarrow> bool) \<Rightarrow> 'a list \<Rightarrow> nat option" where
  "position P [] = None"
| "position P (x # xs) = (if P x then Some 0 else map_option Suc (position P xs))"

function find_bytes_loop :: "string \<Rightarrow> string \<Rightarrow> char \<Rightarrow> nat \<Rightarrow> nat \<Rightarrow> nat option" where
  "find_bytes_loop haystack needle first last_start cursor =
     (if last_start < cursor then None
      else case position (\<lambda>b. b = first) (Rust_Str.slice haystack (cursor, last_start + 1)) of
        None \<Rightarrow> None
      | Some offset \<Rightarrow>
          (let start = cursor + offset in
           if Rust_Str.slice haystack (start, start + length needle) = needle then Some start
           else find_bytes_loop haystack needle first last_start (start + 1)))"
  by pat_completeness auto

termination
  by (relation "measure (\<lambda>(_, _, _, last_start, cursor). Suc last_start - cursor)") auto

declare find_bytes_loop.simps [simp del]

definition find_bytes :: "string \<Rightarrow> string \<Rightarrow> nat option" where
  "find_bytes haystack needle =
     (if needle = [] \<or> length haystack < length needle then None
      else find_bytes_loop haystack needle (hd needle) (length haystack - length needle) 0)"

section \<open>Lines\<close>

text \<open>\<open>u8::is_ascii_whitespace\<close>: not the vertical tab.\<close>

definition u8_is_ascii_whitespace :: "char \<Rightarrow> bool" where
  "u8_is_ascii_whitespace b \<longleftrightarrow> byte b \<in> {32, 9, 10, 12, 13}"

abbreviation blank_line :: "string \<Rightarrow> bool" where
  "blank_line line \<equiv> list_all u8_is_ascii_whitespace line"

definition ENVELOPE_HEADER_PROBE_BYTES :: nat where
  "ENVELOPE_HEADER_PROBE_BYTES = 1024"

definition LIFECYCLE_DRIVER_EVENT_MAX_LINE_BYTES :: nat where
  "LIFECYCLE_DRIVER_EVENT_MAX_LINE_BYTES = 64 * 1024"

definition LIFECYCLE_DRIVER_EVENT_TYPES :: "string list" where
  "LIFECYCLE_DRIVER_EVENT_TYPES = [''ready'', ''run_complete'', ''run_fail'', ''run_error'']"

definition probe_string_value :: "string \<Rightarrow> string \<Rightarrow> string option" where
  "probe_string_value probe key =
     (case find_bytes probe key of
        None \<Rightarrow> None
      | Some found \<Rightarrow>
          (let rest = drop (found + length key) probe
           in map_option (\<lambda>end. take end rest) (position (\<lambda>b. b = CHR 0x22) rest)))"

text \<open>\<open>std::str::from_utf8\<close> accepts exactly the well-formed sequences.\<close>

fun utf8_ok :: "string \<Rightarrow> bool" where
  "utf8_ok [] \<longleftrightarrow> True"
| "utf8_ok (a # s) \<longleftrightarrow>
     (if byte a < 128 then utf8_ok s
      else if 194 \<le> byte a \<and> byte a < 224 then
        (case s of b # s' \<Rightarrow> is_cont b \<and> utf8_ok s' | _ \<Rightarrow> False)
      else if 224 \<le> byte a \<and> byte a < 240 then
        (case s of
           b # c # s' \<Rightarrow> is_cont b \<and> is_cont c \<and> (byte a = 224 \<longrightarrow> 160 \<le> byte b)
             \<and> (byte a = 237 \<longrightarrow> byte b < 160) \<and> utf8_ok s'
         | _ \<Rightarrow> False)
      else if 240 \<le> byte a \<and> byte a < 245 then
        (case s of
           b # c # d # s' \<Rightarrow> is_cont b \<and> is_cont c \<and> is_cont d \<and> (byte a = 240 \<longrightarrow> 144 \<le> byte b)
             \<and> (byte a = 244 \<longrightarrow> byte b < 144) \<and> utf8_ok s'
         | _ \<Rightarrow> False)
      else False)"

definition line_run_id :: "string \<Rightarrow> string option" where
  "line_run_id line =
     (case probe_string_value (take ENVELOPE_HEADER_PROBE_BYTES line)
         (CHR 0x22 # ''run_id'' @ [CHR 0x22] @ '':'' @ [CHR 0x22]) of
        None \<Rightarrow> None
      | Some v \<Rightarrow> if utf8_ok v then Some v else None)"

definition window_final_line_run_id :: "string \<Rightarrow> string option" where
  "window_final_line_run_id window =
     Option.bind (List.find (\<lambda>line. \<not> blank_line line) (rev (split_on LF window))) line_run_id"

text \<open>The loop over the type tags of a line; the cursor is the rest of the line it points to.\<close>

definition TYPE_KEY :: string where
  "TYPE_KEY = CHR 0x22 # ''type'' @ [CHR 0x22] @ '':'' @ [CHR 0x22]"

lemma position_Some: "position P xs = Some i \<Longrightarrow> i < length xs \<and> P (xs ! i) \<and> (\<forall>j < i. \<not> P (xs ! j))"
proof (induction xs arbitrary: i)
  case (Cons x xs)
  show ?case
  proof (cases "P x")
    case False
    with Cons.prems obtain j where j: "position P xs = Some j" "i = Suc j" by auto
    then show ?thesis using Cons.IH [OF j(1)] False by (auto simp: nth_Cons split: nat.splits)
  qed (use Cons.prems in simp)
qed simp

lemma position_None: "position P xs = None \<longleftrightarrow> (\<forall>x \<in> set xs. \<not> P x)"
  by (induction xs) auto

lemma find_bytes_loop_bound:
  "find_bytes_loop haystack needle first last_start cursor = Some i \<Longrightarrow> i \<le> last_start"
proof (induction haystack needle first last_start cursor rule: find_bytes_loop.induct)
  case (1 haystack needle first last_start cursor)
  show ?case
  proof (cases "last_start < cursor")
    case True
    then show ?thesis using "1.prems" by (simp add: find_bytes_loop.simps [of _ _ _ _ cursor])
  next
    case False
    then obtain offset where o: "position (\<lambda>b. b = first) (Rust_Str.slice haystack (cursor, last_start + 1)) = Some offset"
      using "1.prems" by (auto simp: find_bytes_loop.simps [of _ _ _ _ cursor] split: option.splits)
    have "offset < length (Rust_Str.slice haystack (cursor, last_start + 1))" using position_Some [OF o] by simp
    then have "cursor + offset \<le> last_start" using False
      by (simp add: Rust_Str.slice_def less_diff_conv)
    then show ?thesis
      using 1 False o
      by (auto simp: find_bytes_loop.simps [of _ _ _ _ cursor] Let_def split: if_splits)
  qed
qed

lemma find_bytes_le: "find_bytes haystack needle = Some i \<Longrightarrow> i + length needle \<le> length haystack"
  by (auto simp: find_bytes_def split: if_splits dest!: find_bytes_loop_bound)

function has_lifecycle_type :: "string \<Rightarrow> bool" where
  "has_lifecycle_type line \<longleftrightarrow>
     (case find_bytes line TYPE_KEY of
        None \<Rightarrow> False
      | Some found \<Rightarrow>
          (let rest = drop (found + length TYPE_KEY) line in
           case position (\<lambda>b. b = CHR 0x22) rest of
             None \<Rightarrow> True
           | Some end \<Rightarrow>
               take end rest \<in> set LIFECYCLE_DRIVER_EVENT_TYPES \<or> has_lifecycle_type (drop end rest)))"
  by pat_completeness auto

termination
  by (relation "measure length") (auto simp: TYPE_KEY_def dest!: find_bytes_le)

declare has_lifecycle_type.simps [simp del]

definition line_is_lifecycle_relevant :: "string \<Rightarrow> bool" where
  "line_is_lifecycle_relevant line \<longleftrightarrow>
     (if probe_string_value (take ENVELOPE_HEADER_PROBE_BYTES line)
           (CHR 0x22 # ''kind'' @ [CHR 0x22] @ '':'' @ [CHR 0x22]) \<noteq> Some ''driver_event''
      then True
      else if LIFECYCLE_DRIVER_EVENT_MAX_LINE_BYTES < length line then False
      else has_lifecycle_type line)"

section \<open>The search finds the first occurrence\<close>

lemma starts_with_take: "starts_with s p \<longleftrightarrow> take (length p) s = p"
  by (auto simp: starts_with_iff) (metis append_take_drop_id)

lemma find_sub_skip:
  assumes "\<forall>j < k. \<not> starts_with (drop j s) p" "k \<le> length s"
  shows "find_sub p s = map_option (\<lambda>i. k + i) (find_sub p (drop k s))"
  using assms
proof (induction k arbitrary: s)
  case (Suc k)
  then obtain c cs where s: "s = c # cs" by (cases s) auto
  have "\<not> starts_with (c # cs) p" using Suc.prems(1) s by fastforce
  moreover have "find_sub p cs = map_option (\<lambda>i. k + i) (find_sub p (drop k cs))"
  proof (rule Suc.IH)
    show "\<forall>j < k. \<not> starts_with (drop j cs) p"
    proof (intro allI impI)
      fix j assume "j < k"
      then have "\<not> starts_with (drop (Suc j) s) p" using Suc.prems(1) by blast
      then show "\<not> starts_with (drop j cs) p" using s by simp
    qed
  qed (use Suc.prems s in simp)
  ultimately show ?case
    by (simp add: s option.map_comp comp_def)
next
  case 0
  then show ?case by (cases "find_sub p s") simp_all
qed

lemma find_bytes_loop_finds:
  assumes "needle \<noteq> []" "length needle \<le> length haystack" "cursor \<le> Suc (length haystack - length needle)"
  shows "find_bytes_loop haystack needle (hd needle) (length haystack - length needle) cursor
    = map_option (\<lambda>i. cursor + i) (find_sub needle (drop cursor haystack))"
  using assms(3)
proof (induction "Suc (length haystack - length needle) - cursor" arbitrary: cursor rule: less_induct)
  case less
  let ?ls = "length haystack - length needle"
  let ?w = "Rust_Str.slice haystack (cursor, ?ls + 1)"
  have len: "0 < length needle" using assms(1) by simp
  have short: "\<not> starts_with (drop j haystack) needle" if "?ls < j" for j
  proof
    assume "starts_with (drop j haystack) needle"
    then have "length needle \<le> length haystack - j" using starts_with_length by fastforce
    then show False using that len assms(2) by linarith
  qed
  have w: "?w ! j = haystack ! (cursor + j)" if "j < length ?w" for j
    using that by (auto simp: Rust_Str.slice_def less_diff_conv intro!: nth_drop)
  have lw: "length ?w = Suc ?ls - cursor"
  proof -
    have "Suc ?ls - cursor \<le> length haystack - cursor" using assms(2) len by linarith
    then show ?thesis by (simp only: Rust_Str.slice_def fst_conv snd_conv length_take length_drop)
  qed
  have first: "haystack ! j = hd needle" if "starts_with (drop j haystack) needle" for j
  proof -
    obtain r where r: "drop j haystack = needle @ r" using \<open>starts_with _ _\<close> by (auto simp: starts_with_iff)
    then have "j < length haystack" using len by (metis append_is_Nil_conv drop_all leI length_greater_0_conv)
    then show ?thesis using r assms(1) by (metis hd_append2 hd_drop_conv_nth)
  qed
  note loop = find_bytes_loop.simps [of haystack needle "hd needle" ?ls cursor]
  show ?case
  proof (cases "?ls < cursor")
    case True
    have "find_sub needle (drop cursor haystack) = None"
    proof (rule ccontr)
      assume "find_sub needle (drop cursor haystack) \<noteq> None"
      then obtain i where "find_sub needle (drop cursor haystack) = Some i" by blast
      then have "i + length needle \<le> length haystack - cursor" using find_sub_Some by fastforce
      then show False using True len assms(2) by linarith
    qed
    then show ?thesis using True loop by simp
  next
    case False
    show ?thesis
    proof (cases "position (\<lambda>b. b = hd needle) ?w")
      case None
      then have no: "\<forall>b \<in> set ?w. b \<noteq> hd needle" by (simp add: position_None)
      have "\<not> starts_with (drop (cursor + j) haystack) needle" for j
      proof (cases "j < length ?w")
        case True
        then have "haystack ! (cursor + j) \<noteq> hd needle" using no w nth_mem by metis
        then show ?thesis using first by blast
      next
        case False
        then show ?thesis using short [of "cursor + j"] lw by simp
      qed
      then have "find_sub needle (drop cursor haystack) = None"
        using find_sub_Some by (metis drop_drop add.commute not_Some_eq)
      then show ?thesis using None False loop by simp
    next
      case (Some offset)
      let ?start = "cursor + offset"
      have o: "offset < length ?w" "\<forall>j < offset. ?w ! j \<noteq> hd needle"
        using position_Some [OF Some] by auto
      then have le: "?start \<le> ?ls" using lw by simp
      have skip: "\<forall>j < offset. \<not> starts_with (drop j (drop cursor haystack)) needle"
      proof (intro allI impI)
        fix j assume "j < offset"
        then have "haystack ! (cursor + j) \<noteq> hd needle" using o w by (metis order.strict_trans)
        then show "\<not> starts_with (drop j (drop cursor haystack)) needle"
          using first [of "cursor + j"] by (auto simp: add.commute)
      qed
      have here: "Rust_Str.slice haystack (?start, ?start + length needle) = needle
          \<longleftrightarrow> starts_with (drop ?start haystack) needle"
        by (simp add: starts_with_take Rust_Str.slice_def)
      have fs: "find_sub needle (drop cursor haystack)
          = map_option (\<lambda>i. offset + i) (find_sub needle (drop ?start haystack))"
        using find_sub_skip [OF skip] le len assms(2) by (simp add: add.commute)
      show ?thesis
      proof (cases "starts_with (drop ?start haystack) needle")
        case True
        then have "find_sub needle (drop ?start haystack) = Some 0"
          by (cases "drop ?start haystack") (auto simp: starts_with_iff)
        then show ?thesis using Some False loop here True fs by (simp add: Let_def)
      next
        case no: False
        have "find_bytes_loop haystack needle (hd needle) ?ls (Suc ?start)
            = map_option (\<lambda>i. Suc ?start + i) (find_sub needle (drop (Suc ?start) haystack))"
          using le by (intro less.hyps) auto
        moreover have "find_sub needle (drop ?start haystack)
            = map_option (\<lambda>i. 1 + i) (find_sub needle (drop 1 (drop ?start haystack)))"
        proof (rule find_sub_skip)
          have "?start < length haystack" using le len assms(2) by linarith
          then show "1 \<le> length (drop ?start haystack)" by simp
        qed (use no in simp)
        ultimately show ?thesis
          using Some False loop here no fs by (simp add: Let_def option.map_comp comp_def add.assoc)
      qed
    qed
  qed
qed

lemma find_bytes_finds:
  "find_bytes haystack needle = (if needle = [] then None else find_sub needle haystack)"
proof -
  have "find_sub needle haystack = None" if "length haystack < length needle"
    using that by (auto simp: find_sub_None_iff)
  moreover have "needle \<noteq> [] \<Longrightarrow> length needle \<le> length haystack \<Longrightarrow>
      find_bytes_loop haystack needle (hd needle) (length haystack - length needle) 0 = find_sub needle haystack"
    using find_bytes_loop_finds [of needle haystack 0] by (cases "find_sub needle haystack") simp_all
  ultimately show ?thesis by (auto simp: find_bytes_def)
qed

text \<open>The byte search that skips from one occurrence of the first byte to the next is
  the search for the first occurrence of the needle; only for an empty needle does it differ, where
  it finds nothing.\<close>

theorem find_bytes_is_find:
  "find_bytes haystack needle = (if needle = [] then None else find_sub needle haystack)"
  by (rule find_bytes_finds)

section \<open>The scans\<close>

record session_scan_budget =
  prefix_bytes :: nat
  tail_bytes :: nat

definition window_bytes :: "session_scan_budget \<Rightarrow> nat" where
  "window_bytes budget = min (prefix_bytes budget + tail_bytes budget) (2 ^ 64 - 1)"

definition DEFAULT_SCAN_BUDGET :: session_scan_budget where
  "DEFAULT_SCAN_BUDGET = \<lparr>prefix_bytes = 128 * 1024, tail_bytes = 64 * 1024\<rparr>"

record session_lifecycle_scan =
  envelopes :: "session_envelope list"
  file_bytes :: nat
  bytes_inspected :: nat
  truncated :: bool
  final_envelope_retained :: bool
  final_line_run_id :: "string option"
  skipped_transcript_lines :: nat

definition empty_scan :: "nat \<Rightarrow> session_lifecycle_scan" where
  "empty_scan n =
     \<lparr>envelopes = [], file_bytes = n, bytes_inspected = 0, truncated = False,
      final_envelope_retained = False, final_line_run_id = None, skipped_transcript_lines = 0\<rparr>"

datatype line_outcome = Blank | Dropped | Retained

definition strip_cr :: "string \<Rightarrow> string" where
  "strip_cr line = (case strip_suffix line [CR] of None \<Rightarrow> line | Some l \<Rightarrow> l)"

definition retain_lifecycle_line ::
  "(string \<Rightarrow> session_envelope option) \<Rightarrow> session_lifecycle_scan \<Rightarrow> string
    \<Rightarrow> session_error + line_outcome \<times> session_lifecycle_scan"
where
  "retain_lifecycle_line parse scan raw =
     (let line = strip_cr raw in
      if blank_line line then Inr (Blank, scan)
      else if \<not> line_is_lifecycle_relevant line
        then Inr (Dropped, scan\<lparr>skipped_transcript_lines := skipped_transcript_lines scan + 1\<rparr>)
      else case parse line of
        None \<Rightarrow> Inl SessionSerialize
      | Some e \<Rightarrow> Inr (Retained, scan\<lparr>envelopes := envelopes scan @ [e]\<rparr>))"

text \<open>The loop over the lines of a window, with the flag for the last line.\<close>

fun scan_lines ::
  "(string \<Rightarrow> session_envelope option) \<Rightarrow> string list \<Rightarrow> session_lifecycle_scan \<times> bool
    \<Rightarrow> session_error + session_lifecycle_scan \<times> bool"
where
  "scan_lines parse [] s = Inr s"
| "scan_lines parse (line # lines) (scan, retained) =
     try_res (retain_lifecycle_line parse scan line) (\<lambda>(outcome, scan').
       scan_lines parse lines
         (scan', case outcome of Blank \<Rightarrow> retained | Dropped \<Rightarrow> False | Retained \<Rightarrow> True))"

text \<open>The bounded scan, of a file whose length was \<open>len\<close> when it was asked for.\<close>

definition scan_session_lifecycle_reader ::
  "(string \<Rightarrow> session_envelope option) \<Rightarrow> string \<Rightarrow> nat \<Rightarrow> session_scan_budget
    \<Rightarrow> session_error + session_lifecycle_scan"
where
  "scan_session_lifecycle_reader parse contents len budget =
     try_res
       (if len \<le> window_bytes budget
        then Inr (contents, [], (empty_scan len)\<lparr>bytes_inspected := length contents\<rparr>)
        else if length contents < prefix_bytes budget
          \<or> length contents < len
        then Inl SessionIo
        else
          (let prefix = take (prefix_bytes budget) contents;
               prefix' = (case rposition (\<lambda>b. b = LF) prefix of
                            Some end \<Rightarrow> take (end + 1) prefix | None \<Rightarrow> []);
               tail = take (tail_bytes budget) (drop (len - tail_bytes budget) contents);
               tail' = (case position (\<lambda>b. b = LF) tail of
                          Some start \<Rightarrow> drop (start + 1) tail | None \<Rightarrow> [])
           in Inr (prefix', tail',
                (empty_scan len)\<lparr>truncated := True, bytes_inspected := window_bytes budget\<rparr>)))
       (\<lambda>(prefix, tail, scan).
          (let scan' = scan\<lparr>final_line_run_id :=
                 window_final_line_run_id (if truncated scan then tail else prefix)\<rparr>
           in try_res (scan_lines parse (split_on LF prefix @ split_on LF tail) (scan', False))
                (\<lambda>(scan'', retained).
                   Inr (scan''\<lparr>final_envelope_retained :=
                     retained \<and> \<not> (truncated scan'' \<and> tail = [])\<rparr>))))"

text \<open>The loop of the complete scan over the pieces \<open>read_until\<close> gives: the scan, the header of
  the last line, the two flags.\<close>

record complete_state =
  cs_scan :: session_lifecycle_scan
  cs_header :: string
  cs_retained :: bool
  cs_torn :: bool

fun complete_loop ::
  "(string \<Rightarrow> session_envelope option) \<Rightarrow> string list \<Rightarrow> complete_state
    \<Rightarrow> session_error + complete_state"
where
  "complete_loop parse [] st = Inr st"
| "complete_loop parse (line # lines) st =
     (let scan = (cs_scan st)\<lparr>bytes_inspected := bytes_inspected (cs_scan st) + length line\<rparr>;
          newline_terminated = ends_with line [LF];
          raw = (case strip_suffix line [LF] of None \<Rightarrow> line | Some l \<Rightarrow> l)
      in if blank_line raw then complete_loop parse lines (st\<lparr>cs_scan := scan\<rparr>)
         else case retain_lifecycle_line parse scan raw of
           Inr (Blank, scan') \<Rightarrow> complete_loop parse lines (st\<lparr>cs_scan := scan'\<rparr>)
         | Inr (outcome, scan') \<Rightarrow>
             complete_loop parse lines
               (st\<lparr>cs_scan := scan', cs_header := take ENVELOPE_HEADER_PROBE_BYTES raw,
                  cs_retained := (outcome = Retained)\<rparr>)
         | Inl e \<Rightarrow>
             if \<not> newline_terminated then Inr (st\<lparr>cs_scan := scan, cs_torn := True\<rparr>) else Inl e)"

definition scan_session_lifecycle_complete_reader ::
  "(string \<Rightarrow> session_envelope option) \<Rightarrow> string \<Rightarrow> nat \<Rightarrow> session_error + session_lifecycle_scan"
where
  "scan_session_lifecycle_complete_reader parse contents len =
     try_res
       (complete_loop parse (split_inclusive_lf contents)
         \<lparr>cs_scan = empty_scan len, cs_header = [], cs_retained = False, cs_torn = False\<rparr>)
       (\<lambda>st. Inr ((cs_scan st)\<lparr>final_line_run_id := window_final_line_run_id (cs_header st),
           final_envelope_retained := cs_retained st \<and> \<not> cs_torn st\<rparr>))"

text \<open>A file opened by its path is scanned with the length its metadata gives.\<close>

definition scan_session_lifecycle ::
  "(string \<Rightarrow> session_envelope option) \<Rightarrow> string \<Rightarrow> session_scan_budget
    \<Rightarrow> session_error + session_lifecycle_scan" where
  "scan_session_lifecycle parse contents budget =
     scan_session_lifecycle_reader parse contents (length contents) budget"

definition scan_session_lifecycle_complete ::
  "(string \<Rightarrow> session_envelope option) \<Rightarrow> string \<Rightarrow> session_error + session_lifecycle_scan" where
  "scan_session_lifecycle_complete parse contents =
     scan_session_lifecycle_complete_reader parse contents (length contents)"

section \<open>What the scans retain\<close>

definition relevant :: "string \<Rightarrow> bool" where
  "relevant raw \<longleftrightarrow> line_is_lifecycle_relevant (strip_cr raw)"

definition read_raw :: "(string \<Rightarrow> session_envelope option) \<Rightarrow> string \<Rightarrow> session_envelope option" where
  "read_raw parse raw = parse (strip_cr raw)"

text \<open>The envelopes of some lines, when all that are relevant parse.\<close>

definition kept :: "(string \<Rightarrow> session_envelope option) \<Rightarrow> string list \<Rightarrow> session_envelope list" where
  "kept parse ls = map (the \<circ> read_raw parse) (filter relevant ls)"

definition all_parse :: "(string \<Rightarrow> session_envelope option) \<Rightarrow> string list \<Rightarrow> bool" where
  "all_parse parse ls \<longleftrightarrow> (\<forall>l \<in> set ls. relevant l \<longrightarrow> read_raw parse l \<noteq> None)"

abbreviation nonblank :: "string list \<Rightarrow> string list" where
  "nonblank \<equiv> filter (\<lambda>l. \<not> blank_line l)"

lemma blank_strip_cr [simp]: "blank_line (strip_cr l) = blank_line l"
proof (cases "strip_suffix l [CR]")
  case (Some k)
  then have "l = k @ [CR]" by (simp add: strip_suffix_Some_iff)
  then show ?thesis using Some by (simp add: strip_cr_def u8_is_ascii_whitespace_def)
qed (simp add: strip_cr_def)

lemma retain_nonblank:
  "\<not> blank_line l \<Longrightarrow> retain_lifecycle_line parse scan l =
     (if \<not> relevant l
      then Inr (Dropped, scan\<lparr>skipped_transcript_lines := skipped_transcript_lines scan + 1\<rparr>)
      else case read_raw parse l of
        None \<Rightarrow> Inl SessionSerialize
      | Some e \<Rightarrow> Inr (Retained, scan\<lparr>envelopes := envelopes scan @ [e]\<rparr>))"
  by (simp add: retain_lifecycle_line_def relevant_def read_raw_def Let_def)

lemma retain_blank: "blank_line l \<Longrightarrow> retain_lifecycle_line parse scan l = Inr (Blank, scan)"
  by (simp add: retain_lifecycle_line_def Let_def)

lemma scan_lines_nonblank: "scan_lines parse ls s = scan_lines parse (nonblank ls) s"
proof (induction ls arbitrary: s)
  case (Cons l ls)
  obtain scan b where s: "s = (scan, b)" by (cases s)
  show ?case
  proof (cases "blank_line l")
    case True
    then show ?thesis using Cons.IH by (simp add: s retain_blank)
  next
    case False
    have "scan_lines parse ls = scan_lines parse (nonblank ls)" using Cons.IH by blast
    then show ?thesis using False by (simp add: s)
  qed
qed simp

text \<open>The state after some lines.\<close>

definition after_lines ::
  "(string \<Rightarrow> session_envelope option) \<Rightarrow> string list \<Rightarrow> session_lifecycle_scan \<Rightarrow> session_lifecycle_scan" where
  "after_lines parse ls scan =
     scan\<lparr>envelopes := envelopes scan @ kept parse ls,
       skipped_transcript_lines := skipped_transcript_lines scan + length (filter (\<lambda>l. \<not> relevant l) ls)\<rparr>"

definition last_relevant :: "string list \<Rightarrow> bool \<Rightarrow> bool" where
  "last_relevant ls b = (if ls = [] then b else relevant (last ls))"

lemma scan_lines_result:
  assumes "\<forall>l \<in> set ls. \<not> blank_line l"
  shows "scan_lines parse ls (scan, b) =
    (if all_parse parse ls then Inr (after_lines parse ls scan, last_relevant ls b) else Inl SessionSerialize)"
  using assms
proof (induction ls arbitrary: scan b)
  case Nil
  then show ?case by (simp add: all_parse_def after_lines_def kept_def last_relevant_def)
next
  case (Cons l ls)
  show ?case
  proof (cases "relevant l")
    case False
    then show ?thesis using Cons
      by (simp add: retain_nonblank all_parse_def after_lines_def kept_def last_relevant_def)
  next
    case True
    then show ?thesis using Cons
      by (cases "read_raw parse l")
        (simp_all add: retain_nonblank all_parse_def after_lines_def kept_def last_relevant_def)
  qed
qed

lemma scan_lines_window:
  "scan_lines parse ls (scan, b) =
    (if all_parse parse (nonblank ls)
     then Inr (after_lines parse (nonblank ls) scan, last_relevant (nonblank ls) b)
     else Inl SessionSerialize)"
  by (subst scan_lines_nonblank) (rule scan_lines_result, simp)

text \<open>The pieces of \<open>read_until\<close> and of \<open>split\<close> hold the same lines.\<close>

definition bare_line :: "string \<Rightarrow> string" where
  "bare_line line = (case strip_suffix line [LF] of None \<Rightarrow> line | Some l \<Rightarrow> l)"

definition lines_of :: "string \<Rightarrow> string list" where
  "lines_of contents = nonblank (map bare_line (split_inclusive_lf contents))"

lemma bare_line_LF [simp]: "bare_line (l @ [LF]) = l"
proof -
  have "strip_suffix (l @ [LF]) [LF] = Some l" by (simp add: strip_suffix_Some_iff)
  then show ?thesis by (simp add: bare_line_def)
qed

lemma bare_line_no_LF: "LF \<notin> set l \<Longrightarrow> bare_line l = l"
  by (cases "strip_suffix l [LF]") (auto simp: bare_line_def strip_suffix_Some_iff)

lemma blank_bare_line [simp]: "blank_line (bare_line l) = blank_line l"
proof (cases "strip_suffix l [LF]")
  case (Some k)
  then have "l = k @ [LF]" by (simp add: strip_suffix_Some_iff)
  then show ?thesis by (simp add: u8_is_ascii_whitespace_def)
qed (simp add: bare_line_def)

lemma lines_of_split_on: "nonblank (split_on LF contents) = lines_of contents"
proof (induction "length contents" arbitrary: contents rule: less_induct)
  case less
  show ?case
  proof (cases "LF \<in> set contents")
    case False
    then show ?thesis
    proof (cases "contents = []")
      case False
      then show ?thesis
        using \<open>LF \<notin> set contents\<close>
        by (simp add: lines_of_def split_on_no_sep split_inclusive_lf_last bare_line_no_LF)
    qed (simp add: lines_of_def)
  next
    case True
    then obtain x y where xy: "contents = x @ LF # y" "LF \<notin> set x" by (meson split_list_first)
    then have "nonblank (split_on LF y) = lines_of y" by (intro less.hyps) simp
    then show ?thesis
      using xy by (simp add: split_on_Cons_append split_inclusive_lf_cut lines_of_def)
  qed
qed

lemma lines_of_append:
  "a = [] \<or> last a = LF \<Longrightarrow> lines_of (a @ b) = lines_of a @ lines_of b"
  by (simp add: lines_of_def split_inclusive_lf_append)

lemma lines_of_Nil [simp]: "lines_of [] = []"
  by (simp add: lines_of_def)

lemma lines_of_nonblank: "l \<in> set (lines_of contents) \<Longrightarrow> \<not> blank_line l"
  by (auto simp: lines_of_def)

lemma lines_of_no_LF: "l \<in> set (lines_of contents) \<Longrightarrow> LF \<notin> set l"
  unfolding lines_of_split_on [symmetric] by (auto dest: split_on_no_sep_in)

text \<open>The complete scan reads all lines, or all but a torn last one.\<close>

definition after_complete ::
  "(string \<Rightarrow> session_envelope option) \<Rightarrow> string list \<Rightarrow> nat \<Rightarrow> complete_state \<Rightarrow> complete_state" where
  "after_complete parse ls n st =
     st\<lparr>cs_scan := (after_lines parse ls (cs_scan st))
          \<lparr>bytes_inspected := bytes_inspected (cs_scan st) + n\<rparr>,
        cs_header := (if ls = [] then cs_header st else take ENVELOPE_HEADER_PROBE_BYTES (last ls)),
        cs_retained := last_relevant ls (cs_retained st)\<rparr>"

definition bare_lines :: "string list \<Rightarrow> string list" where
  "bare_lines cs = nonblank (map bare_line cs)"

lemma bare_lines_Cons: "bare_lines (c # cs) = (if blank_line c then bare_lines cs else bare_line c # bare_lines cs)"
  by (simp add: bare_lines_def)

lemma after_complete_simps [simp]:
  "cs_torn (after_complete parse ls n st) = cs_torn st"
  "after_complete parse [] 0 st = st"
  by (simp_all add: after_complete_def after_lines_def last_relevant_def kept_def)

lemma after_complete_compose:
  "after_complete parse ls n (after_complete parse ks m st) = after_complete parse (ks @ ls) (m + n) st"
  by (simp add: after_complete_def after_lines_def last_relevant_def kept_def)

text \<open>One piece of the loop.\<close>

lemma complete_loop_blank:
  "blank_line c \<Longrightarrow> complete_loop parse (c # cs) st
    = complete_loop parse cs (after_complete parse [] (length c) st)"
proof -
  assume "blank_line c"
  then have "blank_line (bare_line c)" by simp
  then show ?thesis
    by (simp add: bare_line_def [symmetric] Let_def after_complete_def after_lines_def
        last_relevant_def kept_def)
qed

lemma complete_loop_line:
  assumes "\<not> blank_line c" "all_parse parse [bare_line c]"
  shows "complete_loop parse (c # cs) st
    = complete_loop parse cs (after_complete parse [bare_line c] (length c) st)"
proof -
  have "\<not> blank_line (bare_line c)" using assms(1) by simp
  then show ?thesis
    using assms(2)
    by (cases "cs_scan st"; cases "read_raw parse (bare_line c)"; cases "relevant (bare_line c)")
      (simp_all add: bare_line_def [symmetric] Let_def after_complete_def after_lines_def
        last_relevant_def kept_def retain_nonblank all_parse_def)
qed

lemma complete_loop_torn:
  assumes "\<not> blank_line c" "\<not> all_parse parse [bare_line c]"
  shows "complete_loop parse (c # cs) st =
    (if ends_with c [LF] then Inl SessionSerialize
     else Inr ((after_complete parse [] (length c) st)\<lparr>cs_torn := True\<rparr>))"
proof -
  have "\<not> blank_line (bare_line c)" using assms(1) by simp
  then show ?thesis
    using assms(2)
    by (simp add: bare_line_def [symmetric] Let_def after_complete_def after_lines_def
        last_relevant_def kept_def retain_nonblank all_parse_def)
qed

lemma complete_loop_result:
  assumes "complete_loop parse cs st = Inr st'" "\<not> cs_torn st"
    and "\<forall>c \<in> set (butlast cs). ends_with c [LF]"
  shows "(all_parse parse (bare_lines cs) \<and> st' = after_complete parse (bare_lines cs) (sum_list (map length cs)) st)
    \<or> (cs \<noteq> [] \<and> \<not> ends_with (last cs) [LF] \<and> \<not> blank_line (last cs) \<and> cs_torn st'
        \<and> \<not> all_parse parse [bare_line (last cs)]
        \<and> st' = (after_complete parse (bare_lines (butlast cs)) (sum_list (map length cs)) st)\<lparr>cs_torn := True\<rparr>)"
  using assms
proof (induction cs arbitrary: st)
  case Nil
  then show ?case by (simp add: bare_lines_def all_parse_def)
next
  case (Cons c cs)
  have tail: "\<forall>c \<in> set (butlast cs). ends_with c [LF]"
    using Cons.prems(3) by (cases cs) auto
  consider "blank_line c" | "\<not> blank_line c" "all_parse parse [bare_line c]"
    | "\<not> blank_line c" "\<not> all_parse parse [bare_line c]" by blast
  then show ?case
  proof cases
    case 1
    then have "complete_loop parse cs (after_complete parse [] (length c) st) = Inr st'"
      using Cons.prems(1) complete_loop_blank by metis
    from Cons.IH [OF this _ tail] show ?thesis
      using Cons.prems(2) 1 by (cases cs) (auto simp: bare_lines_Cons after_complete_compose bare_lines_def)
  next
    case 2
    then have "complete_loop parse cs (after_complete parse [bare_line c] (length c) st) = Inr st'"
      using Cons.prems(1) complete_loop_line by metis
    from Cons.IH [OF this _ tail] show ?thesis
      using Cons.prems(2) 2
      by (cases cs) (auto simp: bare_lines_Cons after_complete_compose all_parse_def)
  next
    case 3
    then have t: "\<not> ends_with c [LF]" "st' = (after_complete parse [] (length c) st)\<lparr>cs_torn := True\<rparr>"
      using Cons.prems(1) complete_loop_torn [OF 3] by (auto split: if_splits)
    then have "cs = []" using Cons.prems(3) by (cases cs) auto
    then show ?thesis using t 3 by (simp add: bare_lines_def)
  qed
qed

lemma complete_loop_all:
  assumes "all_parse parse (bare_lines cs)"
  shows "complete_loop parse cs st = Inr (after_complete parse (bare_lines cs) (sum_list (map length cs)) st)"
  using assms
proof (induction cs arbitrary: st)
  case (Cons c cs)
  show ?case
  proof (cases "blank_line c")
    case True
    then have "all_parse parse (bare_lines cs)" using Cons.prems by (simp add: bare_lines_Cons)
    then show ?thesis
      using Cons.IH True by (simp add: complete_loop_blank bare_lines_Cons after_complete_compose del: complete_loop.simps)
  next
    case False
    then have "all_parse parse [bare_line c]" "all_parse parse (bare_lines cs)"
      using Cons.prems by (auto simp: bare_lines_Cons all_parse_def)
    then show ?thesis
      using Cons.IH False
      by (simp add: complete_loop_line bare_lines_Cons after_complete_compose del: complete_loop.simps)
  qed
qed (simp add: bare_lines_def)

text \<open>The header kept of a line names the run that the line names.\<close>

lemma find_nonblank: "List.find (\<lambda>l. \<not> blank_line l) (rev ls) = (if nonblank ls = [] then None else Some (last (nonblank ls)))"
proof (induction ls rule: rev_induct)
  case (snoc l ls)
  then show ?case by (cases "blank_line l") auto
qed simp

lemma window_run_id:
  "window_final_line_run_id w = (if lines_of w = [] then None else line_run_id (last (lines_of w)))"
  by (simp add: window_final_line_run_id_def find_nonblank lines_of_split_on)

lemma blank_no_run_id:
  assumes "blank_line (take ENVELOPE_HEADER_PROBE_BYTES l)"
  shows "line_run_id l = None"
proof -
  let ?key = "CHR 0x22 # ''run_id'' @ [CHR 0x22] @ '':'' @ [CHR 0x22]"
  let ?h = "take ENVELOPE_HEADER_PROBE_BYTES l"
  have "find_sub ?key ?h = None"
  proof (rule ccontr)
    assume "find_sub ?key ?h \<noteq> None"
    then obtain i where "find_sub ?key ?h = Some i" by blast
    then have "starts_with (drop i ?h) ?key" using find_sub_Some by blast
    then have "CHR 0x22 \<in> set (drop i ?h)" by (auto simp: starts_with_iff)
    then have "CHR 0x22 \<in> set ?h" by (rule in_set_dropD)
    then show False using assms by (auto simp: list_all_iff u8_is_ascii_whitespace_def)
  qed
  then show ?thesis
    by (simp add: line_run_id_def probe_string_value_def find_bytes_finds)
qed

lemma header_run_id:
  assumes "LF \<notin> set l"
  shows "window_final_line_run_id (take ENVELOPE_HEADER_PROBE_BYTES l) = line_run_id l"
proof -
  let ?h = "take ENVELOPE_HEADER_PROBE_BYTES l"
  have "LF \<notin> set ?h" using assms by (auto dest: in_set_takeD)
  then have "split_on LF ?h = [?h]" by (rule split_on_no_sep)
  then show ?thesis
    using blank_no_run_id [of l]
    by (simp add: window_final_line_run_id_def) (simp add: line_run_id_def)
qed

section \<open>The bounded scan against the complete one\<close>

lemma sum_lengths_split [simp]: "sum_list (map length (split_inclusive_lf contents)) = length contents"
  using length_concat [of "split_inclusive_lf contents"] by simp

lemma bare_lines_split: "bare_lines (split_inclusive_lf contents) = lines_of contents"
  by (simp add: bare_lines_def lines_of_def)

lemma kept_append [simp]: "kept parse (ls @ ms) = kept parse ls @ kept parse ms"
  by (simp add: kept_def)

lemma all_parse_append [simp]: "all_parse parse (ls @ ms) \<longleftrightarrow> all_parse parse ls \<and> all_parse parse ms"
  by (auto simp: all_parse_def)

lemma all_parse_Nil [simp]: "all_parse parse []"
  by (simp add: all_parse_def)

lemma header_of_lines:
  "window_final_line_run_id (if lines_of w = [] then [] else take ENVELOPE_HEADER_PROBE_BYTES (last (lines_of w)))
    = window_final_line_run_id w"
proof (cases "lines_of w = []")
  case False
  then have "LF \<notin> set (last (lines_of w))" using lines_of_no_LF last_in_set by blast
  then show ?thesis using False header_run_id window_run_id by simp
qed (simp add: window_run_id)

text \<open>When every line parses, this is what the complete scan gives.\<close>

lemma complete_scan_all:
  assumes "all_parse parse (lines_of contents)"
  shows "scan_session_lifecycle_complete parse contents =
    Inr ((after_lines parse (lines_of contents) ((empty_scan (length contents))\<lparr>bytes_inspected := length contents\<rparr>))
      \<lparr>final_line_run_id := window_final_line_run_id contents,
       final_envelope_retained := last_relevant (lines_of contents) False\<rparr>)"
  using complete_loop_all [of parse "split_inclusive_lf contents"] assms header_of_lines [of contents]
  by (cases "lines_of contents = []")
    (simp_all add: scan_session_lifecycle_complete_def scan_session_lifecycle_complete_reader_def
      bare_lines_split after_complete_def after_lines_def empty_scan_def)

lemma bounded_scan_whole:
  assumes "length contents \<le> window_bytes budget"
  shows "scan_session_lifecycle parse contents budget =
    (if all_parse parse (lines_of contents)
     then Inr ((after_lines parse (lines_of contents) ((empty_scan (length contents))\<lparr>bytes_inspected := length contents\<rparr>))
       \<lparr>final_line_run_id := window_final_line_run_id contents,
        final_envelope_retained := last_relevant (lines_of contents) False\<rparr>)
     else Inl SessionSerialize)"
  using assms
  by (simp add: scan_session_lifecycle_def scan_session_lifecycle_reader_def scan_lines_window
      lines_of_split_on empty_scan_def after_lines_def)

text \<open>The two windows of a longer file.\<close>

definition head_window :: "session_scan_budget \<Rightarrow> string \<Rightarrow> string" where
  "head_window budget contents =
     (let prefix = take (prefix_bytes budget) contents in
      case rposition (\<lambda>b. b = LF) prefix of Some end \<Rightarrow> take (end + 1) prefix | None \<Rightarrow> [])"

definition tail_window :: "session_scan_budget \<Rightarrow> string \<Rightarrow> string" where
  "tail_window budget contents =
     (let tail = take (tail_bytes budget) (drop (length contents - tail_bytes budget) contents) in
      case position (\<lambda>b. b = LF) tail of Some start \<Rightarrow> drop (start + 1) tail | None \<Rightarrow> [])"

lemma windows_split:
  assumes "prefix_bytes budget + tail_bytes budget < length contents"
  shows "\<exists>mid. contents = head_window budget contents @ mid @ tail_window budget contents
    \<and> (head_window budget contents = [] \<or> last (head_window budget contents) = LF)
    \<and> (tail_window budget contents = [] \<or> (mid \<noteq> [] \<and> last mid = LF))"
proof -
  let ?P = "prefix_bytes budget" and ?k = "length contents - tail_bytes budget"
  let ?tail = "drop ?k contents"
  have tail: "take (tail_bytes budget) ?tail = ?tail" using assms by simp
  have "\<exists>r. take ?P contents = head_window budget contents @ r
      \<and> (head_window budget contents = [] \<or> last (head_window budget contents) = LF)"
  proof (cases "rposition (\<lambda>b. b = LF) (take ?P contents)")
    case None
    then show ?thesis by (simp add: head_window_def)
  next
    case (Some i)
    then have i: "i < length (take ?P contents)" "take ?P contents ! i = LF"
      using rposition_Some by fastforce+
    have "head_window budget contents = take (Suc i) (take ?P contents)"
      using Some by (simp add: head_window_def Let_def)
    moreover have "take (Suc i) (take ?P contents) = take i (take ?P contents) @ [LF]"
      using i take_Suc_conv_app_nth by metis
    moreover have "take ?P contents = take (Suc i) (take ?P contents) @ drop (Suc i) (take ?P contents)"
      by (rule append_take_drop_id [symmetric])
    ultimately show ?thesis by (metis last_snoc)
  qed
  then obtain r where r: "take ?P contents = head_window budget contents @ r"
    and head: "head_window budget contents = [] \<or> last (head_window budget contents) = LF" by blast
  have "\<exists>h. ?tail = h @ tail_window budget contents \<and> (tail_window budget contents = [] \<or> (h \<noteq> [] \<and> last h = LF))"
  proof (cases "position (\<lambda>b. b = LF) ?tail")
    case None
    then show ?thesis using tail by (simp add: tail_window_def)
  next
    case (Some i)
    have i: "i < length ?tail" "?tail ! i = LF" using position_Some [OF Some] by auto
    have "tail_window budget contents = drop (Suc i) ?tail"
      using Some tail by (simp add: tail_window_def Let_def)
    moreover have "take (Suc i) ?tail = take i ?tail @ [LF]" using i take_Suc_conv_app_nth by metis
    moreover have "?tail = take (Suc i) ?tail @ drop (Suc i) ?tail" by (rule append_take_drop_id [symmetric])
    ultimately show ?thesis by (metis last_snoc snoc_eq_iff_butlast)
  qed
  then obtain h where h: "?tail = h @ tail_window budget contents"
    "tail_window budget contents = [] \<or> (h \<noteq> [] \<and> last h = LF)" by blast
  have "?P + (?k - ?P) = ?k" using assms by linarith
  then have "take ?k contents = take ?P contents @ take (?k - ?P) (drop ?P contents)"
    using take_add [of ?P "?k - ?P" contents] by metis
  then have "contents = head_window budget contents @ (r @ take (?k - ?P) (drop ?P contents) @ h) @ tail_window budget contents"
    using append_take_drop_id [of ?k contents] r h(1) by simp
  moreover have "tail_window budget contents = [] \<or>
      (r @ take (?k - ?P) (drop ?P contents) @ h \<noteq> [] \<and> last (r @ take (?k - ?P) (drop ?P contents) @ h) = LF)"
    using h(2) by auto
  ultimately show ?thesis using head by blast
qed

lemma bounded_scan_windows:
  assumes "window_bytes budget < length contents" "length contents < 2 ^ 64"
  shows "scan_session_lifecycle parse contents budget =
    (let ls = lines_of (head_window budget contents) @ lines_of (tail_window budget contents) in
     if all_parse parse ls
     then Inr ((after_lines parse ls ((empty_scan (length contents))
         \<lparr>truncated := True, bytes_inspected := window_bytes budget\<rparr>))
       \<lparr>final_line_run_id := window_final_line_run_id (tail_window budget contents),
        final_envelope_retained := last_relevant ls False \<and> tail_window budget contents \<noteq> []\<rparr>)
     else Inl SessionSerialize)"
proof -
  have "prefix_bytes budget \<le> length contents"
    using assms by (auto simp: window_bytes_def min_def split: if_splits)
  then show ?thesis
    using assms(1)
    by (simp add: scan_session_lifecycle_def scan_session_lifecycle_reader_def scan_lines_window Let_def
        lines_of_split_on empty_scan_def after_lines_def head_window_def [unfolded Let_def]
        tail_window_def [unfolded Let_def] del: take_all take_all_iff)
qed

lemma split_inclusive_lf_ends: "\<forall>c \<in> set (butlast (split_inclusive_lf s)). ends_with c [LF]"
proof (induction "length s" arbitrary: s rule: less_induct)
  case less
  show ?case
  proof (cases "LF \<in> set s")
    case True
    then obtain x y where xy: "s = x @ LF # y" "LF \<notin> set x" by (meson split_list_first)
    then have "\<forall>c \<in> set (butlast (split_inclusive_lf y)). ends_with c [LF]" by (intro less.hyps) simp
    then show ?thesis using xy by (auto simp: split_inclusive_lf_cut ends_with_iff)
  next
    case False
    then show ?thesis by (cases "s = []") (simp_all add: split_inclusive_lf_last)
  qed
qed

lemma split_inclusive_lf_nonempty: "[] \<notin> set (split_inclusive_lf s)"
  by (induction s) (auto split: list.splits)

lemma last_split_inclusive_lf:
  assumes "s \<noteq> []"
  shows "split_inclusive_lf s \<noteq> []" "last (last (split_inclusive_lf s)) = last s"
proof -
  show ne: "split_inclusive_lf s \<noteq> []" using concat_split_inclusive_lf [of s] assms by (metis concat.simps(1))
  have ne': "last (split_inclusive_lf s) \<noteq> []"
    using ne split_inclusive_lf_nonempty by (metis last_in_set)
  have "s = concat (butlast (split_inclusive_lf s)) @ last (split_inclusive_lf s)"
    using concat_split_inclusive_lf [of s] ne by (metis append_butlast_last_id concat_append concat.simps append_Nil2)
  then show "last (last (split_inclusive_lf s)) = last s" using ne' by (metis last_append)
qed

text \<open>The last line of the file is not blank: so the writer leaves it.\<close>

definition ends_in_line :: "string \<Rightarrow> bool" where
  "ends_in_line contents \<longleftrightarrow> \<not> blank_line (last (split_inclusive_lf contents))"

lemma ends_in_line_tail:
  assumes "ends_in_line (a @ b)" "a = [] \<or> last a = LF" "b \<noteq> []"
  shows "lines_of b \<noteq> []"
proof -
  have ne: "split_inclusive_lf b \<noteq> []" using last_split_inclusive_lf [OF assms(3)] by simp
  then have "\<not> blank_line (last (split_inclusive_lf b))"
    using assms(1,2) by (auto simp: ends_in_line_def split_inclusive_lf_append)
  then have "bare_line (last (split_inclusive_lf b)) \<in> set (lines_of b)"
    using ne by (simp add: lines_of_def)
  then show ?thesis by auto
qed

lemma kept_last: "ls \<noteq> [] \<Longrightarrow> relevant (last ls) \<Longrightarrow> kept parse ls \<noteq> [] \<and> last (kept parse ls) = the (read_raw parse (last ls))"
  by (cases ls rule: rev_cases) (simp_all add: kept_def)

lemma truncated_window:
  assumes "window_bytes budget < length contents" "length contents < 2 ^ 64"
    and "scan_session_lifecycle parse contents budget = Inr s"
  shows "truncated s"
  using assms(3) unfolding bounded_scan_windows [OF assms(1,2)] Let_def
  by (auto simp: after_lines_def empty_scan_def split: if_splits)

text \<open>A truncated scan, and the complete scan of the same file.\<close>

lemma truncated_scan_sound:
  assumes "window_bytes budget < length contents" "length contents < 2 ^ 64"
    and "scan_session_lifecycle parse contents budget = Inr s"
    and "scan_session_lifecycle_complete parse contents = Inr t"
  shows "subseq (envelopes s) (envelopes t)"
    "final_line_run_id s = None \<or> final_line_run_id s = final_line_run_id t"
    "ends_in_line contents \<Longrightarrow> final_envelope_retained s
      \<Longrightarrow> final_envelope_retained t \<and> envelopes s \<noteq> [] \<and> last (envelopes s) = last (envelopes t)"
proof -
  let ?hd = "head_window budget contents" and ?tl = "tail_window budget contents"
  have "prefix_bytes budget + tail_bytes budget < length contents"
    using assms(1,2) by (auto simp: window_bytes_def min_def split: if_splits)
  then obtain mid where mid: "contents = ?hd @ mid @ ?tl" "?hd = [] \<or> last ?hd = LF"
    "?tl = [] \<or> (mid \<noteq> [] \<and> last mid = LF)"
    using windows_split by blast
  have s: "all_parse parse (lines_of ?hd @ lines_of ?tl)"
    "envelopes s = kept parse (lines_of ?hd @ lines_of ?tl)"
    "final_line_run_id s = window_final_line_run_id ?tl"
    "final_envelope_retained s \<longleftrightarrow> last_relevant (lines_of ?hd @ lines_of ?tl) False \<and> ?tl \<noteq> []"
    using assms(3) unfolding bounded_scan_windows [OF assms(1,2)] Let_def
    by (auto simp: after_lines_def empty_scan_def split: if_splits)
  have lines: "lines_of contents = lines_of ?hd @ lines_of mid @ lines_of ?tl"
  proof -
    have "lines_of (mid @ ?tl) = lines_of mid @ lines_of ?tl"
    proof (cases "?tl = []")
      case False
      then show ?thesis using mid(3) by (intro lines_of_append) auto
    qed simp
    then show ?thesis using mid(1,2) lines_of_append [of ?hd "mid @ ?tl"] by metis
  qed
  let ?cs = "split_inclusive_lf contents"
  let ?st = "\<lparr>cs_scan = empty_scan (length contents), cs_header = [], cs_retained = False, cs_torn = False\<rparr>"
  obtain st where st: "complete_loop parse ?cs ?st = Inr st"
    and t: "t = (cs_scan st)\<lparr>final_line_run_id := window_final_line_run_id (cs_header st),
           final_envelope_retained := cs_retained st \<and> \<not> cs_torn st\<rparr>"
    using assms(4)
    by (auto simp: scan_session_lifecycle_complete_def scan_session_lifecycle_complete_reader_def try_res_Inr_iff)
  consider (all) "all_parse parse (lines_of contents)"
    | (torn) "?cs \<noteq> []" "\<not> ends_with (last ?cs) [LF]" "\<not> blank_line (last ?cs)"
      "\<not> all_parse parse [bare_line (last ?cs)]" "envelopes t = kept parse (bare_lines (butlast ?cs))"
    using complete_loop_result [OF st _ split_inclusive_lf_ends] t
    by (auto simp: bare_lines_split after_complete_def after_lines_def empty_scan_def)
  then have "subseq (envelopes s) (envelopes t)
    \<and> (final_line_run_id s = None \<or> final_line_run_id s = final_line_run_id t)
    \<and> (ends_in_line contents \<longrightarrow> final_envelope_retained s \<longrightarrow>
        final_envelope_retained t \<and> envelopes s \<noteq> [] \<and> last (envelopes s) = last (envelopes t))"
  proof cases
    case all
    have t': "envelopes t = kept parse (lines_of contents)"
      "final_line_run_id t = window_final_line_run_id contents"
      "final_envelope_retained t = last_relevant (lines_of contents) False"
      using assms(4) complete_scan_all [OF all] by (auto simp: after_lines_def empty_scan_def)
    have "subseq (envelopes s) (envelopes t)"
      unfolding s(2) t'(1) lines kept_append
      by (intro list_emb_append_mono subseq_order.refl) (rule list_emb_append2 [OF subseq_order.refl])
    moreover have "final_line_run_id s = None \<or> final_line_run_id s = final_line_run_id t"
      using s(3) t'(2) lines by (auto simp: window_run_id)
    moreover have "final_envelope_retained t \<and> envelopes s \<noteq> [] \<and> last (envelopes s) = last (envelopes t)"
      if "ends_in_line contents" "final_envelope_retained s"
    proof -
      have "?tl \<noteq> []" using that(2) s(4) by simp
      then have ne: "lines_of ?tl \<noteq> []"
        using ends_in_line_tail [of "?hd @ mid" ?tl] that(1) mid(1,3) by (metis append.assoc last_append)
      then have r: "relevant (last (lines_of ?tl))" using that(2) s(4) by (simp add: last_relevant_def)
      then show ?thesis
        using t' s(2) ne lines kept_last [OF ne r, of parse] by (simp add: last_relevant_def)
    qed
    ultimately show ?thesis by blast
  next
    case torn
    have ne: "contents \<noteq> []" using torn(1) by auto
    have "?tl = []"
    proof (rule ccontr)
      assume tl: "?tl \<noteq> []"
      then have "?cs = split_inclusive_lf (?hd @ mid) @ split_inclusive_lf ?tl"
        using mid by (metis append.assoc last_append split_inclusive_lf_append)
      then have "last ?cs \<in> set (split_inclusive_lf ?tl)"
        using last_split_inclusive_lf(1) [OF tl] by simp
      then have "bare_line (last ?cs) \<in> set (lines_of ?tl)" using torn(3) by (simp add: lines_of_def)
      then show False using s(1) torn(4) by (auto simp: all_parse_def)
    qed
    then have split: "?cs = split_inclusive_lf ?hd @ split_inclusive_lf mid"
      using mid(1,2) split_inclusive_lf_append by (metis append_Nil2)
    have "mid \<noteq> []"
    proof
      assume "mid = []"
      then have "contents = ?hd" using mid(1) \<open>?tl = []\<close> by simp
      then have "last contents = LF" using mid(2) ne by auto
      then have "last (last ?cs) = LF" using last_split_inclusive_lf(2) [OF ne] by simp
      moreover have "last ?cs \<noteq> []" using torn(1) split_inclusive_lf_nonempty by (metis last_in_set)
      ultimately show False using torn(2) by (metis append_butlast_last_id ends_with_iff)
    qed
    then have "butlast ?cs = split_inclusive_lf ?hd @ butlast (split_inclusive_lf mid)"
      using split last_split_inclusive_lf(1) by (simp add: butlast_append)
    then have "envelopes t = kept parse (lines_of ?hd) @ kept parse (bare_lines (butlast (split_inclusive_lf mid)))"
      using torn(5) by (simp add: bare_lines_def lines_of_def)
    then have "subseq (envelopes s) (envelopes t)"
      using s(2) \<open>?tl = []\<close> by (simp add: subseq_rev_drop_many)
    then show ?thesis using s(3,4) \<open>?tl = []\<close> by (simp add: window_run_id)
  qed
  then show "subseq (envelopes s) (envelopes t)"
    "final_line_run_id s = None \<or> final_line_run_id s = final_line_run_id t"
    "ends_in_line contents \<Longrightarrow> final_envelope_retained s
      \<Longrightarrow> final_envelope_retained t \<and> envelopes s \<noteq> [] \<and> last (envelopes s) = last (envelopes t)"
    by blast+
qed

text \<open>
  Claim C33. What a bounded scan reports is true of the file: within the budget it is the complete
  scan, field by field; beyond it, it says that it is truncated, its envelopes are among those of
  the complete scan in the same order, and the run it names as the last one is the last one. Its
  claim to have kept the final envelope is true as long as the last line of the file is not blank (blank
  lines before it do no harm); \<open>blank_tail_claims_final\<close> shows that it need not be true otherwise.
\<close>

theorem bounded_scan_sound:
  assumes "scan_session_lifecycle parse contents budget = Inr s" "length contents < 2 ^ 64"
  shows "(length contents \<le> window_bytes budget \<longrightarrow> scan_session_lifecycle_complete parse contents = Inr s)
    \<and> (window_bytes budget < length contents \<longrightarrow> truncated s)
    \<and> (\<forall>t. scan_session_lifecycle_complete parse contents = Inr t \<longrightarrow>
        subseq (envelopes s) (envelopes t)
        \<and> (final_line_run_id s = None \<or> final_line_run_id s = final_line_run_id t)
        \<and> (ends_in_line contents \<longrightarrow> final_envelope_retained s \<longrightarrow>
            final_envelope_retained t \<and> envelopes s \<noteq> [] \<and> last (envelopes s) = last (envelopes t)))"
proof (cases "length contents \<le> window_bytes budget")
  case True
  then have "all_parse parse (lines_of contents)"
    using assms(1) bounded_scan_whole by (metis sum.distinct(2))
  then have c: "scan_session_lifecycle_complete parse contents = Inr s"
    using assms(1) bounded_scan_whole [OF True] complete_scan_all by simp
  have "envelopes s \<noteq> []" if "final_envelope_retained s"
  proof -
    have s: "envelopes s = kept parse (lines_of contents)"
      "final_envelope_retained s = last_relevant (lines_of contents) False"
      using c complete_scan_all [OF \<open>all_parse parse (lines_of contents)\<close>]
      by (auto simp: after_lines_def empty_scan_def)
    then have "lines_of contents \<noteq> []" "relevant (last (lines_of contents))"
      using that by (auto simp: last_relevant_def split: if_splits)
    then show ?thesis using kept_last s(1) by metis
  qed
  then show ?thesis using c True by simp
next
  case False
  then show ?thesis
    using truncated_scan_sound [OF _ assms(2,1)] truncated_window [OF _ assms(2,1)] by auto
qed

text \<open>A truncated scan of four lines that sees the first and the last.\<close>

definition sample_lines :: string where
  "sample_lines = ''a'' @ [LF] @ ''b'' @ [LF] @ ''c'' @ [LF] @ ''d'' @ [LF]"

lemma sample_windows:
  "lines_of (head_window \<lparr>prefix_bytes = 3, tail_bytes = 3\<rparr> sample_lines) = [''a'']"
  "lines_of (tail_window \<lparr>prefix_bytes = 3, tail_bytes = 3\<rparr> sample_lines) = [''d'']"
  "tail_window \<lparr>prefix_bytes = 3, tail_bytes = 3\<rparr> sample_lines \<noteq> []" "line_run_id ''d'' = None"
  "relevant ''a'' \<and> relevant ''b'' \<and> relevant ''d''" "relevant ''bcdefg''"
  by code_simp+

lemma sample_scan:
  "scan_session_lifecycle (\<lambda>_. Some sample_meta) sample_lines \<lparr>prefix_bytes = 3, tail_bytes = 3\<rparr> =
    Inr \<lparr>envelopes = [sample_meta, sample_meta], file_bytes = 8, bytes_inspected = 6, truncated = True,
      final_envelope_retained = True, final_line_run_id = None, skipped_transcript_lines = 0\<rparr>"
  using bounded_scan_windows [of "\<lparr>prefix_bytes = 3, tail_bytes = 3\<rparr>" sample_lines "\<lambda>_. Some sample_meta"]
  by (simp add: sample_windows window_bytes_def window_run_id all_parse_def read_raw_def kept_def
      after_lines_def empty_scan_def last_relevant_def) (simp add: sample_lines_def)

lemma bounded_scan_sound_witness:
  "\<exists>s. scan_session_lifecycle (\<lambda>_. Some sample_meta) sample_lines \<lparr>prefix_bytes = 3, tail_bytes = 3\<rparr> = Inr s
    \<and> truncated s \<and> length (envelopes s) = 2"
proof -
  have "length sample_lines < 2 ^ 64" by (simp add: sample_lines_def)
  from bounded_scan_sound [OF sample_scan this] sample_scan show ?thesis
    by (simp add: sample_lines_def window_bytes_def)
qed

text \<open>
  With a blank line at the end of a file whose last line does not fit in the window, the scan claims
  the final envelope although what it kept last is the head of the file.
\<close>

definition blank_tail :: string where
  "blank_tail = ''a'' @ [LF] @ ''bcdefg'' @ [LF, LF]"

lemma blank_tail_windows:
  "lines_of (head_window \<lparr>prefix_bytes = 3, tail_bytes = 2\<rparr> blank_tail) = [''a'']"
  "lines_of (tail_window \<lparr>prefix_bytes = 3, tail_bytes = 2\<rparr> blank_tail) = []"
  "tail_window \<lparr>prefix_bytes = 3, tail_bytes = 2\<rparr> blank_tail \<noteq> []"
  "lines_of blank_tail = [''a'', ''bcdefg'']" "length blank_tail = 10"
  by code_simp+

lemma blank_tail_claims_final:
  "\<exists>s t. scan_session_lifecycle (\<lambda>l. Some (sample_meta\<lparr>env_time := l\<rparr>)) blank_tail
        \<lparr>prefix_bytes = 3, tail_bytes = 2\<rparr> = Inr s
    \<and> scan_session_lifecycle_complete (\<lambda>l. Some (sample_meta\<lparr>env_time := l\<rparr>)) blank_tail = Inr t
    \<and> final_envelope_retained s \<and> last (envelopes s) \<noteq> last (envelopes t)"
proof -
  let ?parse = "\<lambda>l. Some (sample_meta\<lparr>env_time := l\<rparr>)"
  have cr: "strip_cr ''a'' = ''a''" "strip_cr ''bcdefg'' = ''bcdefg''" by code_simp+
  have all: "all_parse ?parse ls" for ls by (simp add: all_parse_def read_raw_def)
  have "\<exists>s. scan_session_lifecycle ?parse blank_tail \<lparr>prefix_bytes = 3, tail_bytes = 2\<rparr> = Inr s
    \<and> final_envelope_retained s \<and> envelopes s = [sample_meta\<lparr>env_time := ''a''\<rparr>]"
    using bounded_scan_windows [of "\<lparr>prefix_bytes = 3, tail_bytes = 2\<rparr>" blank_tail ?parse]
    by (simp add: blank_tail_windows sample_windows window_bytes_def all read_raw_def kept_def cr
        after_lines_def empty_scan_def last_relevant_def)
  moreover have "\<exists>t. scan_session_lifecycle_complete ?parse blank_tail = Inr t
    \<and> envelopes t = [sample_meta\<lparr>env_time := ''a''\<rparr>, sample_meta\<lparr>env_time := ''bcdefg''\<rparr>]"
    using complete_scan_all [OF all, of blank_tail]
    by (simp add: blank_tail_windows sample_windows read_raw_def kept_def cr after_lines_def empty_scan_def)
  ultimately show ?thesis by (fastforce simp: sample_meta_def)
qed

end
