(* ===== verification/Session_Exit.thy ===== *)
theory Session_Exit
  imports Rust_Str
begin

text \<open>
  The exit classification of \<open>crates/orgasmic-core/src/session.rs\<close>: why a run ended, from the
  release reason, the outcome, the worker's own declaration and the first error line.
\<close>

datatype release_outcome = Completed | Failed | Interrupted | Cancelled

datatype exit_reason =
    Reported
  | ProviderQuota "string option"
  | ProviderAuth
  | TransportError
  | StallKilled
  | SpawnFailed string
  | WorktreeSetupFailed
  | OperatorAborted
  | UnknownExit "string option"

text \<open>\<open>str::split_once\<close> at a pattern string, and trimming a set of ASCII characters.\<close>

definition split_once_str :: "string \<Rightarrow> string \<Rightarrow> (string \<times> string) option" where
  "split_once_str p s =
     map_option (\<lambda>i. (take i s, drop (i + length p) s)) (find_sub p s)"

definition trim_start_set :: "string \<Rightarrow> string \<Rightarrow> string" where
  "trim_start_set cs s = dropWhile (\<lambda>c. c \<in> set cs) s"

definition trim_end_set :: "string \<Rightarrow> string \<Rightarrow> string" where
  "trim_end_set cs s = rev (dropWhile (\<lambda>c. c \<in> set cs) (rev s))"

definition retry_units :: "string list" where
  "retry_units =
     [''second'', ''seconds'', ''minute'', ''minutes'', ''hour'', ''hours'', ''day'', ''days'']"

definition retry_after :: "string \<Rightarrow> string option" where
  "retry_after lower =
     Option.bind
       (map_option (\<lambda>(_, rest). trim_start_set '':= '' rest)
         (find_map (\<lambda>key. split_once_str key lower) [''retry-after'', ''retry_after'', ''retry after'']))
       (\<lambda>rest.
          case split_whitespace rest of
            [] \<Rightarrow> None
          | w # ws \<Rightarrow>
              (let amount = trim_end_set '',.;)'' w;
                   unit = (case ws of [] \<Rightarrow> None
                           | v # _ \<Rightarrow>
                               if trim_end_set '',.;)'' v \<in> set retry_units
                               then Some (trim_end_set '',.;)'' v) else None);
                   token = (case unit of Some u \<Rightarrow> amount @ '' '' @ u | None \<Rightarrow> amount)
               in if token = [] then None else Some token))"

definition AUTH :: "string list" where
  "AUTH = [''not logged in'', ''/login'', ''unauthorized'', ''401'', ''invalid api key'', ''authentication'']"

definition QUOTA :: "string list" where
  "QUOTA =
     [''429'', ''rate limit'', ''rate_limit'', ''quota'', ''usage limit'', ''usage_limit'', ''too many requests'']"

definition exit_from_error_line :: "string \<Rightarrow> exit_reason option" where
  "exit_from_error_line line =
     (let lower = to_ascii_lowercase line;
          spawn = (case split_once_str ''spawn: '' line of
                     None \<Rightarrow> None
                   | Some (_, os_error) \<Rightarrow>
                       if str_contains os_error ''(os error '' then Some (SpawnFailed (trim os_error)) else None)
      in case spawn of
           Some r \<Rightarrow> Some r
         | None \<Rightarrow>
             if list_ex (\<lambda>needle. str_contains lower needle) AUTH then Some ProviderAuth
             else if list_ex (\<lambda>needle. str_contains lower needle) QUOTA
               then Some (ProviderQuota (retry_after lower))
             else None)"

definition exit_classify ::
  "string \<Rightarrow> release_outcome \<Rightarrow> bool \<Rightarrow> (bool \<times> string) option \<Rightarrow> exit_reason" where
  "exit_classify reason outcome finalized_by_worker first_error =
     (if finalized_by_worker then Reported
      else if starts_with reason ''stall_timeout_exceeded'' then StallKilled
      else if outcome = Cancelled then OperatorAborted
      else case first_error of
        Some (transport, line) \<Rightarrow>
          (case exit_from_error_line line of
             Some r \<Rightarrow> r
           | None \<Rightarrow> if transport then TransportError else UnknownExit (Some line))
      | None \<Rightarrow> UnknownExit (Some reason))"

definition exit_label :: "exit_reason \<Rightarrow> string" where
  "exit_label r =
     (case r of
        Reported \<Rightarrow> ''reported''
      | ProviderQuota _ \<Rightarrow> ''provider_quota''
      | ProviderAuth \<Rightarrow> ''provider_auth''
      | TransportError \<Rightarrow> ''transport_error''
      | StallKilled \<Rightarrow> ''stall_killed''
      | SpawnFailed _ \<Rightarrow> ''spawn_failed''
      | WorktreeSetupFailed \<Rightarrow> ''worktree_setup_failed''
      | OperatorAborted \<Rightarrow> ''operator_aborted''
      | UnknownExit _ \<Rightarrow> ''unknown'')"

definition exit_detail :: "exit_reason \<Rightarrow> string option" where
  "exit_detail r =
     (case r of
        ProviderQuota (Some after) \<Rightarrow> Some after
      | SpawnFailed os_error \<Rightarrow> Some os_error
      | UnknownExit (Some detail) \<Rightarrow> Some detail
      | _ \<Rightarrow> None)"

section \<open>What a classification says\<close>

lemma exit_line_classes:
  "exit_from_error_line line = Some r \<Longrightarrow>
     (\<exists>e. r = SpawnFailed e) \<or> r = ProviderAuth \<or> (\<exists>t. r = ProviderQuota t)"
  by (auto simp: exit_from_error_line_def Let_def split: option.splits if_splits prod.splits)

text \<open>A run is reported exactly when its worker said so, and a worktree failure is never the
  answer; a class other than \<open>unknown\<close> rests on something the daemon saw.\<close>

lemma exit_reported_iff: "exit_classify reason outcome fin err = Reported \<longleftrightarrow> fin"
  by (auto simp: exit_classify_def split: option.splits prod.splits dest!: exit_line_classes)

lemma exit_never_worktree: "exit_classify reason outcome fin err \<noteq> WorktreeSetupFailed"
  by (auto simp: exit_classify_def split: option.splits prod.splits dest!: exit_line_classes)

lemma exit_unknown_has_detail:
  "exit_classify reason outcome fin err = UnknownExit d \<Longrightarrow> d \<noteq> None"
  by (auto simp: exit_classify_def split: option.splits prod.splits if_splits dest!: exit_line_classes)

lemma retry_after_sample:
  "retry_after ''429 too many requests, retry-after: 30 seconds.'' = Some ''30 seconds''"
  by code_simp

end
