(* ===== verification/Plugin_Manifest.thy ===== *)
theory Plugin_Manifest
  imports Node_Types "HOL-Library.Word" "HOL-Library.List_Lexorder" "HOL-Library.Char_ord"
begin

text \<open>
  Plugin manifests, \<open>crates/orgasmic-core/src/plugin.rs\<close>: the \<open>Plugin\<close> heading of \<open>plugin.org\<close>
  with its checks. Whether a version requirement accepts the SDK of the daemon is the answer of the
  semver library, a parameter: nothing when the requirement does not parse.
\<close>

section \<open>Data\<close>

definition PLUGIN_API :: "32 word" where "PLUGIN_API = 1"

definition KNOWN_SERVICES :: "string list" where
  "KNOWN_SERVICES = [''core.nodes@1'', ''core.links@1'', ''core.attachments@1'', ''core.chat@1'']"

record plugin_manifest =
  pm_id :: string
  pm_version :: string
  pm_schema :: "32 word"
  pm_schema_accepts :: "32 word list"
  pm_capabilities :: "string list"
  pm_commands :: "string list"
  pm_ui :: "string option"
  pm_sdk :: "string option"
  pm_node_type :: "descriptor option"

datatype plugin_error =
    InvalidPluginId
  | ManifestTooLarge
  | ManifestOrg org_error
  | NotOnePluginHeading
  | DuplicateManifestProperty string
  | MissingManifestProperty string string
  | BadInteger string
  | UnsupportedApi
  | BadVersion
  | SchemaZero
  | SchemaAcceptsZero
  | SidecarUnsupported
  | UnknownService string
  | BadUi
  | UiWithoutSdk
  | BadSdk
  | UnsupportedSdk
  | SdkWithoutUi
  | UnknownCapability string
  | InvalidCommandName
  | DuplicateCommand string
  | ManifestNodeType nt_error

section \<open>Parsing\<close>

definition validate_plugin_id :: "string \<Rightarrow> plugin_error + unit" where
  "validate_plugin_id i =
     (if i = [] \<or> 64 < length i \<or> starts_with i ''-'' \<or> ends_with i ''-''
        \<or> \<not> list_all (\<lambda>b. is_ascii_lowercase b \<or> is_ascii_digit b \<or> b = CHR ''-'') i
      then Inl InvalidPluginId else Inr ())"

text \<open>\<open>str::parse::<u32>\<close>: digits after at most one plus sign, without overflow.\<close>

definition digits_value :: "string \<Rightarrow> nat" where
  "digits_value ds = fold (\<lambda>d n. 10 * n + (byte d - 48)) ds 0"

definition parse_u32 :: "string \<Rightarrow> (32 word) option" where
  "parse_u32 s =
     (let ds = (case strip_prefix s ''+'' of Some r \<Rightarrow> r | None \<Rightarrow> s)
      in if ds = [] \<or> \<not> list_all is_ascii_digit ds then None
         else if 2 ^ 32 \<le> digits_value ds then None
         else Some (of_nat (digits_value ds)))"

definition manifest_u32 :: "string \<Rightarrow> plugin_error + 32 word" where
  "manifest_u32 s = ok_or (BadInteger s) (parse_u32 s)"

definition CAPABILITIES :: "string list" where
  "CAPABILITIES =
    [''nodes.read'', ''nodes.write'', ''ui.execute'', ''links.read'', ''links.write'',
     ''attachments.read'', ''attachments.write'', ''chat.read'', ''chat.write'']"

fun check_duplicates :: "heading list \<Rightarrow> plugin_error + unit" where
  "check_duplicates [] = Inr ()"
| "check_duplicates (h # hs) =
     (case first_repeat {} (map pe_key (property_entries h)) of
        Some key \<Rightarrow> Inl (DuplicateManifestProperty key)
      | None \<Rightarrow> check_duplicates hs)"

definition required_value :: "string \<Rightarrow> heading \<Rightarrow> string \<Rightarrow> plugin_error + string" where
  "required_value display root key = ok_or (MissingManifestProperty display key) (nonblank_property root key)"

fun parse_accepts :: "string list \<Rightarrow> 32 word list \<Rightarrow> plugin_error + 32 word list" where
  "parse_accepts [] acc = Inr acc"
| "parse_accepts (w # ws) acc = try_res (manifest_u32 w) (\<lambda>n. parse_accepts ws (bs_insert n acc))"

definition check_ui :: "(string \<Rightarrow> bool option) \<Rightarrow> string option \<Rightarrow> string option \<Rightarrow> plugin_error + unit" where
  "check_ui sdk_accepts ui sdk =
     (case ui of
        Some u \<Rightarrow>
          if u \<noteq> ''ui/index.js'' then Inl BadUi
          else
            (case sdk of
               None \<Rightarrow> Inl UiWithoutSdk
             | Some requirement \<Rightarrow>
                 (case sdk_accepts requirement of
                    None \<Rightarrow> Inl BadSdk
                  | Some ok \<Rightarrow> if ok then Inr () else Inl UnsupportedSdk))
      | None \<Rightarrow> if sdk = None then Inr () else Inl SdkWithoutUi)"

definition command_char :: "char \<Rightarrow> bool" where
  "command_char b \<longleftrightarrow> is_ascii_alphanumeric b \<or> b = CHR ''-'' \<or> b = CHR ''_''"

fun check_commands :: "string list \<Rightarrow> string list \<Rightarrow> plugin_error + unit" where
  "check_commands unique [] = Inr ()"
| "check_commands unique (c # cs) =
     (if c = [] \<or> \<not> list_all command_char c then Inl InvalidCommandName
      else if c \<in> set unique then Inl (DuplicateCommand c)
      else check_commands (bs_insert c unique) cs)"

definition parse_node_type :: "string \<Rightarrow> string \<Rightarrow> heading \<Rightarrow> plugin_error + descriptor option" where
  "parse_node_type source display root =
     (if list_ex (\<lambda>h. property h ''COLLECTION'' \<noteq> None) (h_sections root)
      then try_res (map_sum ManifestNodeType id (parse_descriptor source display)) (\<lambda>d.
        Inr (Some (if nt_chat_prompt d = None
                   then d\<lparr>nt_chat_prompt := nonblank_property root ''CHAT_PROMPT''\<rparr> else d)))
      else Inr None)"

text \<open>The fields in the order the code reads them: the identity and versions, then what the plugin asks
  for.\<close>

definition parse_versions ::
  "string \<Rightarrow> heading \<Rightarrow> plugin_error + string \<times> string \<times> 32 word \<times> 32 word list" where
  "parse_versions display root =
     try_res (required_value display root ''ID'') (\<lambda>i.
     try_res (validate_plugin_id i) (\<lambda>_.
     try_res (try_res (required_value display root ''PLUGIN_API'') manifest_u32) (\<lambda>api.
       if api \<noteq> PLUGIN_API then Inl UnsupportedApi
       else
         try_res (required_value display root ''VERSION'') (\<lambda>version.
           if length (split_on (CHR ''.'') version) \<noteq> 3
             \<or> \<not> list_all (\<lambda>n. parse_u32 n \<noteq> None) (split_on (CHR ''.'') version)
           then Inl BadVersion
           else
             try_res (try_res (required_value display root ''SCHEMA'') manifest_u32) (\<lambda>schema.
               if schema = 0 then Inl SchemaZero
               else
                 try_res (parse_accepts (opt_words (property root ''SCHEMA_ACCEPTS'')) []) (\<lambda>accepts.
                   if 0 \<in> set accepts then Inl SchemaAcceptsZero
                   else Inr (i, version, schema, bs_insert schema accepts)))))))"

definition parse_interface ::
  "(string \<Rightarrow> bool option) \<Rightarrow> heading \<Rightarrow> plugin_error + string option \<times> string option \<times> string list" where
  "parse_interface sdk_accepts root =
     (if nonblank_property root ''SIDECAR'' \<noteq> None then Inl SidecarUnsupported
      else
        (case find (\<lambda>s. s \<notin> set KNOWN_SERVICES) (opt_words (property root ''REQUIRES'')) of
           Some service \<Rightarrow> Inl (UnknownService service)
         | None \<Rightarrow>
             (let ui = nonblank_property root ''UI''; sdk = nonblank_property root ''SDK''
              in try_res (check_ui sdk_accepts ui sdk) (\<lambda>_.
                let declared = fold bs_insert (opt_words (property root ''CAPABILITIES'')) [];
                    capabilities = (if ui = None then declared else bs_insert ''ui.execute'' declared)
                in case find (\<lambda>c. c \<notin> set CAPABILITIES) capabilities of
                     Some capability \<Rightarrow> Inl (UnknownCapability capability)
                   | None \<Rightarrow> Inr (ui, sdk, capabilities)))))"

definition manifest_of_root ::
  "(string \<Rightarrow> bool option) \<Rightarrow> string \<Rightarrow> string \<Rightarrow> heading \<Rightarrow> plugin_error + plugin_manifest" where
  "manifest_of_root sdk_accepts source display root =
     (if \<not> eq_ignore_ascii_case (h_title root) ''Plugin'' then Inl NotOnePluginHeading
      else
        try_res (check_duplicates (root # h_sections root)) (\<lambda>_.
        try_res (parse_versions display root) (\<lambda>(i, version, schema, accepts).
        try_res (parse_interface sdk_accepts root) (\<lambda>(ui, sdk, capabilities).
          let commands = opt_words (property root ''COMMANDS'')
          in try_res (check_commands [] commands) (\<lambda>_.
             try_res (parse_node_type source display root) (\<lambda>node_type.
               Inr \<lparr>pm_id = i, pm_version = version, pm_schema = schema,
                 pm_schema_accepts = accepts, pm_capabilities = capabilities,
                 pm_commands = commands, pm_ui = ui, pm_sdk = sdk, pm_node_type = node_type\<rparr>))))))"

definition manifest_parse ::
  "(string \<Rightarrow> bool option) \<Rightarrow> string \<Rightarrow> string \<Rightarrow> plugin_error + plugin_manifest" where
  "manifest_parse sdk_accepts source display =
     (if 128 * 1024 < length source then Inl ManifestTooLarge
      else
        try_res (map_sum ManifestOrg id (org_parse source display)) (\<lambda>file.
          case of_headings file of
            [root] \<Rightarrow> manifest_of_root sdk_accepts source display root
          | _ \<Rightarrow> Inl NotOnePluginHeading))"

section \<open>Paths inside a plugin\<close>

text \<open>The checks on the text of a path; resolving it in the file system comes after them.\<close>

definition asset_path_ok :: "string \<Rightarrow> bool" where
  "asset_path_ok asset \<longleftrightarrow>
     asset \<noteq> [] \<and>
     list_all (\<lambda>part. part \<noteq> [] \<and> part \<noteq> ''.'' \<and> part \<noteq> ''..'' \<and> CHR 0x5C \<notin> set part)
       (split_on (CHR ''/'') asset)"

definition plugin_file_ok :: "string \<Rightarrow> bool" where
  "plugin_file_ok relative \<longleftrightarrow> \<not> starts_with relative ''/'' \<and> asset_path_ok relative"

definition command_declared :: "plugin_manifest \<Rightarrow> string \<Rightarrow> bool" where
  "command_declared m command \<longleftrightarrow> list_ex (\<lambda>c. c = command) (pm_commands m)"

record plugin_activation =
  pa_enabled :: bool
  pa_approved_capabilities :: "string list"

section \<open>What an accepted manifest is\<close>

text \<open>The type invariant of a manifest.\<close>

definition manifest_ok :: "plugin_manifest \<Rightarrow> bool" where
  "manifest_ok m \<longleftrightarrow>
     pm_id m \<noteq> [] \<and> length (pm_id m) \<le> 64 \<and>
     list_all (\<lambda>b. is_ascii_lowercase b \<or> is_ascii_digit b \<or> b = CHR ''-'') (pm_id m) \<and>
     sorted_wrt (<) (pm_schema_accepts m) \<and> pm_schema m \<in> set (pm_schema_accepts m) \<and>
     0 \<notin> set (pm_schema_accepts m) \<and>
     sorted_wrt (<) (pm_capabilities m) \<and> set (pm_capabilities m) \<subseteq> set CAPABILITIES \<and>
     (pm_ui m \<noteq> None \<longrightarrow> pm_ui m = Some ''ui/index.js'' \<and> pm_sdk m \<noteq> None \<and>
        ''ui.execute'' \<in> set (pm_capabilities m)) \<and>
     (pm_ui m = None \<longrightarrow> pm_sdk m = None) \<and>
     distinct (pm_commands m) \<and> list_all (\<lambda>c. c \<noteq> [] \<and> list_all command_char c) (pm_commands m) \<and>
     (case pm_node_type m of None \<Rightarrow> True | Some d \<Rightarrow> descriptor_ok d)"

declare map_sum_Inr_iff [simp]

lemma parse_accepts_ok:
  "parse_accepts ws acc = Inr out \<Longrightarrow> sorted_wrt (<) acc \<Longrightarrow> sorted_wrt (<) out"
  by (induction ws arbitrary: acc) (auto simp: try_res_Inr_iff bs_insert_sorted)

lemma fold_bs_insert_sorted: "sorted_wrt (<) acc \<Longrightarrow> sorted_wrt (<) (fold bs_insert xs acc)"
  by (induction xs arbitrary: acc) (simp_all add: bs_insert_sorted)

lemma check_commands_ok:
  "check_commands unique cs = Inr () \<Longrightarrow>
     distinct cs \<and> set cs \<inter> set unique = {} \<and> list_all (\<lambda>c. c \<noteq> [] \<and> list_all command_char c) cs"
  by (induction cs arbitrary: unique) (fastforce split: if_splits)+

lemma parse_versions_ok:
  assumes "parse_versions display root = Inr (i, version, schema, accepts)"
  shows "validate_plugin_id i = Inr () \<and> sorted_wrt (<) accepts \<and> schema \<in> set accepts \<and> 0 \<notin> set accepts"
  using assms by (auto simp: parse_versions_def try_res_Inr_iff bs_insert_sorted dest: parse_accepts_ok
      split: if_splits)

lemma parse_interface_ok:
  assumes "parse_interface sdk_accepts root = Inr (ui, sdk, capabilities)"
  shows "sorted_wrt (<) capabilities \<and> set capabilities \<subseteq> set CAPABILITIES
    \<and> (ui \<noteq> None \<longrightarrow> ui = Some ''ui/index.js'' \<and> sdk \<noteq> None \<and> ''ui.execute'' \<in> set capabilities)
    \<and> (ui = None \<longrightarrow> sdk = None)"
proof -
  let ?declared = "fold bs_insert (opt_words (property root ''CAPABILITIES'')) []"
  have u: "check_ui sdk_accepts ui sdk = Inr ()"
    and c: "capabilities = (if ui = None then ?declared else bs_insert ''ui.execute'' ?declared)"
    and k: "find (\<lambda>c. c \<notin> set CAPABILITIES) capabilities = None"
    using assms by (auto simp: parse_interface_def try_res_Inr_iff Let_def split: if_splits option.splits)
  have "sorted_wrt (<) capabilities" using c by (simp add: fold_bs_insert_sorted bs_insert_sorted)
  moreover have "set capabilities \<subseteq> set CAPABILITIES" using k by (auto simp: find_None_iff)
  ultimately show ?thesis
    using u c by (auto simp: check_ui_def split: option.splits if_splits)
qed

text \<open>
  Claim C37. What the parser accepts is well-formed, whatever the source: the id is a lower-case
  name, the schema is among the accepted ones and none of them is zero, every capability is one of
  the vocabulary, a manifest with a user interface asks for the capability to run it, the commands
  are distinct names without a path separator, and the node type is a valid descriptor.
\<close>

theorem manifest_well_formed:
  assumes "manifest_parse sdk_accepts source display = Inr m"
  shows "manifest_ok m"
proof -
  obtain root where "manifest_of_root sdk_accepts source display root = Inr m"
  proof -
    obtain f :: org_file where "(case of_headings f of [root] \<Rightarrow> manifest_of_root sdk_accepts source display root
        | _ \<Rightarrow> Inl NotOnePluginHeading) = Inr m"
      using assms by (auto simp: manifest_parse_def try_res_Inr_iff split: if_splits)
    then show thesis using that by (cases "of_headings f"; cases "tl (of_headings f)") auto
  qed
  then obtain i version schema accepts ui sdk capabilities commands node_type where
    p: "parse_versions display root = Inr (i, version, schema, accepts)"
      "parse_interface sdk_accepts root = Inr (ui, sdk, capabilities)"
      "check_commands [] commands = Inr ()" "parse_node_type source display root = Inr node_type"
    and m: "m = \<lparr>pm_id = i, pm_version = version, pm_schema = schema, pm_schema_accepts = accepts,
      pm_capabilities = capabilities, pm_commands = commands, pm_ui = ui, pm_sdk = sdk,
      pm_node_type = node_type\<rparr>"
    by (auto simp: manifest_of_root_def try_res_Inr_iff Let_def split: if_splits)
  have "case node_type of None \<Rightarrow> True | Some d \<Rightarrow> descriptor_ok d"
  proof (cases node_type)
    case (Some d)
    then obtain d0 c where "parse_descriptor source display = Inr d0" "d = d0\<lparr>nt_chat_prompt := c\<rparr>"
      using p(4) by (auto simp: parse_node_type_def try_res_Inr_iff split: if_splits)
        (metis descriptor.surjective descriptor.update_convs(9))+
    then show ?thesis using parsed_descriptor [of source display d0] Some by (simp add: descriptor_ok_def)
  qed simp
  then show ?thesis
    using parse_versions_ok [OF p(1)] parse_interface_ok [OF p(2)] check_commands_ok [OF p(3)]
    unfolding m manifest_ok_def
    by (auto simp: validate_plugin_id_def split: if_splits)
qed

definition sample_manifest_source :: string where
  "sample_manifest_source =
    ''* Plugin'' @ [LF] @ '':PROPERTIES:'' @ [LF] @ '':ID: meet'' @ [LF] @ '':PLUGIN_API: 1'' @ [LF] @
    '':VERSION: 0.1.0'' @ [LF] @ '':SCHEMA: 2'' @ [LF] @ '':CAPABILITIES: nodes.read'' @ [LF] @
    '':COMMANDS: sync'' @ [LF] @ '':END:'' @ [LF]"

definition sample_manifest :: plugin_manifest where
  "sample_manifest = \<lparr>pm_id = ''meet'', pm_version = ''0.1.0'', pm_schema = 2, pm_schema_accepts = [2],
     pm_capabilities = [''nodes.read''], pm_commands = [''sync''], pm_ui = None, pm_sdk = None,
     pm_node_type = None\<rparr>"

definition sample_manifest_fields :: "(string \<times> string) list" where
  "sample_manifest_fields =
    [(''ID'', ''meet''), (''PLUGIN_API'', ''1''), (''VERSION'', ''0.1.0''), (''SCHEMA'', ''2''),
     (''CAPABILITIES'', ''nodes.read''), (''COMMANDS'', ''sync'')]"

lemma sample_manifest_root:
  "\<exists>f root. org_parse sample_manifest_source ''f'' = Inr f \<and> of_headings f = [root] \<and> h_title root = ''Plugin''
    \<and> map (\<lambda>e. (pe_key e, pe_value e)) (property_entries root) = sample_manifest_fields \<and> h_sections root = []"
proof -
  have "(case org_parse sample_manifest_source ''f'' of Inl _ \<Rightarrow> False
    | Inr f \<Rightarrow> (case of_headings f of
        [root] \<Rightarrow> h_title root = ''Plugin''
          \<and> map (\<lambda>e. (pe_key e, pe_value e)) (property_entries root) = sample_manifest_fields
          \<and> h_sections root = []
      | _ \<Rightarrow> False))"
    by code_simp
  then show ?thesis by (auto split: sum.splits list.splits)
qed

lemma property_of_pairs: "property h key = map_of (map (\<lambda>e. (pe_key e, pe_value e)) (property_entries h)) key"
proof -
  have "map_option pe_value (find (\<lambda>e. pe_key e = key) es) = map_of (map (\<lambda>e. (pe_key e, pe_value e)) es) key" for es
    by (induction es) auto
  then show ?thesis by (auto simp: property_def property_entries_def split: option.split)
qed

lemma sample_manifest_words:
  "trim ''meet'' = ''meet''" "trim ''1'' = ''1''" "trim ''2'' = ''2''" "trim ''0.1.0'' = ''0.1.0''"
  "split_on (CHR ''.'') ''0.1.0'' = [''0'', ''1'', ''0'']" "validate_plugin_id ''meet'' = Inr ()"
  "split_whitespace ''nodes.read'' = [''nodes.read'']" "split_whitespace ''sync'' = [''sync'']"
  "check_commands [] [''sync''] = Inr ()" "eq_ignore_ascii_case ''Plugin'' ''Plugin''"
  "check_duplicates [] = Inr ()" "first_repeat {} (map fst sample_manifest_fields) = None"
  by code_simp+

lemma sample_manifest_parses: "manifest_parse (\<lambda>_. None) sample_manifest_source ''f'' = Inr sample_manifest"
proof -
  obtain f root where r: "org_parse sample_manifest_source ''f'' = Inr f" "of_headings f = [root]"
    "h_title root = ''Plugin''" "h_sections root = []"
    and kvs: "map (\<lambda>e. (pe_key e, pe_value e)) (property_entries root) = sample_manifest_fields"
    using sample_manifest_root by blast
  have keys: "map pe_key (property_entries root) = map fst sample_manifest_fields"
    using arg_cong [OF kvs, of "map fst"] by (simp add: comp_def)
  have u: "parse_u32 ''0'' = Some 0" "parse_u32 ''1'' = Some 1" "parse_u32 ''2'' = Some 2"
    by (simp_all add: parse_u32_def strip_prefix_def is_ascii_digit_def digits_value_def)
  have p: "property root key = map_of sample_manifest_fields key" for key
    unfolding property_of_pairs kvs ..
  have n: "nonblank_property root key = (case map_of sample_manifest_fields key of None \<Rightarrow> None
      | Some v \<Rightarrow> if trim v = [] then None else Some (trim v))" for key
    by (simp add: nonblank_property_def p)
  have v: "parse_versions ''f'' root = Inr (''meet'', ''0.1.0'', 2, [2])"
    by (simp add: parse_versions_def required_value_def manifest_u32_def n p sample_manifest_fields_def
        sample_manifest_words u PLUGIN_API_def opt_words_def)
  have i: "parse_interface (\<lambda>_. None) root = Inr (None, None, [''nodes.read''])"
    by (simp add: parse_interface_def n p sample_manifest_fields_def sample_manifest_words opt_words_def
        check_ui_def CAPABILITIES_def)
  have c: "opt_words (property root ''COMMANDS'') = [''sync'']"
    by (simp add: p sample_manifest_fields_def opt_words_def sample_manifest_words)
  have l: "\<not> 128 * 1024 < length sample_manifest_source" by (simp add: sample_manifest_source_def)
  show ?thesis
    using l r(1,2)
    by (simp add: manifest_parse_def manifest_of_root_def r(3,4) keys v i c sample_manifest_words parse_node_type_def
        sample_manifest_def Let_def del: check_commands.simps)
qed

theorem manifest_well_formed_witness:
  "manifest_ok sample_manifest \<and> pm_schema_accepts sample_manifest = [2]"
  using manifest_well_formed [OF sample_manifest_parses] by (simp add: sample_manifest_def)

end
