(* ===== verification/Members.thy ===== *)
theory Members
  imports Tx_Ledger
begin

text \<open>
  The member records of \<open>crates/orgasmic-core/src/members.rs\<close>: the file \<open>members.org\<close>, its
  validation, and the operations that add, change and revoke members. The file is its contents or
  its absence; SHA-256 and the random bytes of a fresh token are arguments.
\<close>

section \<open>Records\<close>

record member_entry =
  me_name :: string
  me_token_hash :: string
  me_grants :: "(string \<times> string) list"
  me_actions :: "string list"

datatype member_error =
    BadLength string nat
  | ControlCharacter string
  | BadNameLength
  | BadNameCharacters
  | NoGrants
  | GrantWhitespace
  | BadAction string
  | MembersParse org_error
  | MemberExists string

section \<open>Reading and writing the file\<close>

definition member_of_heading :: "heading \<Rightarrow> member_entry option" where
  "member_of_heading h =
     (case property h ''NAME'' of
        None \<Rightarrow> None
      | Some name \<Rightarrow>
          Some \<lparr>me_name = name,
            me_token_hash = (case property h ''TOKEN_HASH'' of None \<Rightarrow> [] | Some t \<Rightarrow> t),
            me_grants = List.map_filter (split_once (CHR ''=''))
              (split_whitespace (case property h ''GRANTS'' of None \<Rightarrow> [] | Some g \<Rightarrow> g)),
            me_actions =
              split_whitespace (case property h ''ACTIONS'' of None \<Rightarrow> [] | Some a \<Rightarrow> a)\<rparr>)"

definition parse_members :: "string \<Rightarrow> string \<Rightarrow> member_error + member_entry list" where
  "parse_members path source =
     (if trim source = [] then Inr []
      else case org_parse source path of
        Inl e \<Rightarrow> Inl (MembersParse e)
      | Inr f \<Rightarrow> Inr (List.map_filter member_of_heading (of_headings f)))"

definition render_grant :: "string \<times> string \<Rightarrow> string" where
  "render_grant = (\<lambda>(project, role). project @ ''='' @ role)"

definition render_member :: "member_entry \<Rightarrow> string" where
  "render_member e =
     ''* MEMBER '' @ me_name e @ [LF] @
     '':PROPERTIES:'' @ [LF] @
     '':NAME:        '' @ me_name e @ [LF] @
     '':TOKEN_HASH:  '' @ me_token_hash e @ [LF] @
     '':GRANTS:      '' @ join '' '' (map render_grant (me_grants e)) @ [LF] @
     (if me_actions e = [] then [] else '':ACTIONS:     '' @ join '' '' (me_actions e) @ [LF]) @
     '':END:'' @ [LF, LF]"

definition render_members :: "member_entry list \<Rightarrow> string" where
  "render_members es =
     ''#+title: orgasmic members'' @ [LF] @ ''#+orgasmic_version: 1'' @ [LF, LF] @
     concat (map render_member es)"

section \<open>Tokens\<close>

definition sha256_hex :: "(string \<Rightarrow> string) \<Rightarrow> string \<Rightarrow> string" where
  "sha256_hex sha256 bytes = hex_bytes (sha256 bytes)"

definition mint_token :: "string \<Rightarrow> string" where
  "mint_token random = hex_bytes random"

section \<open>Validation\<close>

definition validate_single_line :: "string \<Rightarrow> string \<Rightarrow> nat \<Rightarrow> member_error + unit" where
  "validate_single_line s field max_len =
     (if s = [] \<or> max_len < length s then Inl (BadLength field max_len)
      else if list_ex (\<lambda>c. c = [LF] \<or> c = [CR] \<or> c = [CHR 0x00] \<or> is_control c) (chars s)
        then Inl (ControlCharacter field)
      else Inr ())"

definition validate_member_name :: "string \<Rightarrow> member_error + unit" where
  "validate_member_name name =
     (if 64 < length name then Inl BadNameLength
      else if \<not> list_all (\<lambda>c. is_ascii_alphanumeric c \<or> c \<in> {CHR ''_'', CHR ''.'', CHR ''-''}) name
        \<or> name = []
        then Inl BadNameCharacters
      else Inr ())"

fun validate_grant_list :: "(string \<times> string) list \<Rightarrow> member_error + unit" where
  "validate_grant_list [] = Inr ()"
| "validate_grant_list ((project, role) # grants) =
     try_res (if project = ''*'' then Inr () else validate_single_line project ''grant project'' 64) (\<lambda>_.
     try_res (validate_single_line role ''grant role'' 64) (\<lambda>_.
       if list_ex is_whitespace (chars role) \<or> list_ex is_whitespace (chars project)
       then Inl GrantWhitespace
       else validate_grant_list grants))"

definition validate_grants :: "(string \<times> string) list \<Rightarrow> member_error + unit" where
  "validate_grants grants = (if grants = [] then Inl NoGrants else validate_grant_list grants)"

fun validate_actions :: "string list \<Rightarrow> member_error + unit" where
  "validate_actions [] = Inr ()"
| "validate_actions (action # actions) =
     try_res (validate_single_line action ''action'' 64) (\<lambda>_.
       if \<not> list_all (\<lambda>c. is_ascii_lowercase c \<or> is_ascii_digit c \<or> c = CHR ''.'' \<or> c = CHR ''_'') action
       then Inl (BadAction action)
       else validate_actions actions)"

section \<open>Operations\<close>

text \<open>Every operation gives its result and the file after it; the write is checked by parsing what
  was written, when it is already in the file.\<close>

definition write_members ::
  "string \<Rightarrow> 'a \<Rightarrow> member_entry list \<Rightarrow> (member_error + 'a) \<times> string" where
  "write_members path x es =
     (let rendered = render_members es in
      case org_parse rendered path of
        Inl e \<Rightarrow> (Inl (MembersParse e), rendered)
      | Inr _ \<Rightarrow> (Inr x, rendered))"

definition add_member_locked ::
  "(string \<Rightarrow> string) \<Rightarrow> string \<Rightarrow> string \<Rightarrow> string \<Rightarrow> (string \<times> string) list \<Rightarrow> string list \<Rightarrow> string
    \<Rightarrow> (member_error + string) \<times> string"
where
  "add_member_locked sha256 random path name grants actions source =
     (case parse_members path source of
        Inl e \<Rightarrow> (Inl e, source)
      | Inr existing \<Rightarrow>
          if list_ex (\<lambda>e. me_name e = name) existing then (Inl (MemberExists name), source)
          else
            (let token = mint_token random in
             write_members path token
               (existing @ [\<lparr>me_name = name, me_token_hash = sha256_hex sha256 token,
                  me_grants = grants, me_actions = actions\<rparr>])))"

definition add_member_with_actions ::
  "(string \<Rightarrow> string) \<Rightarrow> string \<Rightarrow> string \<Rightarrow> string \<Rightarrow> (string \<times> string) list \<Rightarrow> string list
    \<Rightarrow> string option \<Rightarrow> (member_error + string) \<times> string option"
where
  "add_member_with_actions sha256 random path name grants actions file =
     (case try_res (validate_member_name name) (\<lambda>_.
           try_res (validate_grants grants) (\<lambda>_. validate_actions actions)) of
        Inl e \<Rightarrow> (Inl e, file)
      | Inr _ \<Rightarrow>
          (let (r, source) = add_member_locked sha256 random path name grants actions
                 (case file of None \<Rightarrow> [] | Some s \<Rightarrow> s)
           in (r, Some source)))"

definition rewrite_members_locked ::
  "string \<Rightarrow> (member_entry list \<Rightarrow> member_entry list option) \<Rightarrow> string \<Rightarrow> (member_error + bool) \<times> string" where
  "rewrite_members_locked path transform source =
     (case parse_members path source of
        Inl e \<Rightarrow> (Inl e, source)
      | Inr existing \<Rightarrow>
          (case transform existing of
             None \<Rightarrow> (Inr False, source)
           | Some es \<Rightarrow> write_members path True es))"

definition set_actions_of ::
  "string \<Rightarrow> string list \<Rightarrow> member_entry list \<Rightarrow> member_entry list option" where
  "set_actions_of name actions entries =
     (if find (\<lambda>e. me_name e = name) entries = None then None
      else Some (update_first (\<lambda>e. me_name e = name) (\<lambda>e. e\<lparr>me_actions := actions\<rparr>) entries))"

definition set_member_actions ::
  "string \<Rightarrow> string \<Rightarrow> string list \<Rightarrow> string option \<Rightarrow> (member_error + bool) \<times> string option" where
  "set_member_actions path name actions file =
     (case validate_actions actions of
        Inl e \<Rightarrow> (Inl e, file)
      | Inr _ \<Rightarrow>
          (case file of
             None \<Rightarrow> (Inr False, None)
           | Some source \<Rightarrow>
               (let (r, source') = rewrite_members_locked path (set_actions_of name actions) source
                in (r, Some source'))))"

definition revoke_of :: "string \<Rightarrow> member_entry list \<Rightarrow> member_entry list option" where
  "revoke_of name entries =
     (let kept = filter (\<lambda>e. me_name e \<noteq> name) entries
      in if length kept = length entries then None else Some kept)"

definition revoke_member ::
  "string \<Rightarrow> string \<Rightarrow> string option \<Rightarrow> (member_error + bool) \<times> string option" where
  "revoke_member path name file =
     (case file of
        None \<Rightarrow> (Inr False, None)
      | Some source \<Rightarrow>
          (let (r, source') = rewrite_members_locked path (revoke_of name) source
           in (r, Some source')))"

definition read_members :: "string \<Rightarrow> string option \<Rightarrow> member_error + member_entry list" where
  "read_members path file =
     (case file of None \<Rightarrow> Inr [] | Some source \<Rightarrow> parse_members path source)"

definition find_member_by_name ::
  "string \<Rightarrow> string \<Rightarrow> string option \<Rightarrow> member_error + member_entry option" where
  "find_member_by_name path name file =
     try_res (read_members path file) (\<lambda>es. Inr (find (\<lambda>e. me_name e = name) es))"

definition find_member_by_token ::
  "(string \<Rightarrow> string) \<Rightarrow> string \<Rightarrow> string \<Rightarrow> string option \<Rightarrow> member_error + member_entry option" where
  "find_member_by_token sha256 path token file =
     (let hash = sha256_hex sha256 (trim token) in
      try_res (read_members path file) (\<lambda>es. Inr (find (\<lambda>e. me_token_hash e = hash) es)))"

section \<open>Words and property lines\<close>

lemma dropWhile_none: "\<forall>g \<in> set gs. \<not> P g \<Longrightarrow> dropWhile P gs = gs"
  by (cases gs) auto

lemma no_ws_trim_end: "no_ws s \<Longrightarrow> trim_end s = s"
  by (simp add: trim_end_def no_ws_def dropWhile_none)

lemma no_ws_trim_start: "no_ws s \<Longrightarrow> s \<noteq> [] \<Longrightarrow> boundary t \<Longrightarrow> trim_start (s @ t) = s @ t"
proof -
  assume s: "no_ws s" "s \<noteq> []" and t: "boundary t"
  then obtain g gs where g: "chars s = g # gs" by (cases "chars s") auto
  then have "\<not> is_whitespace g" using s by (simp add: no_ws_def)
  then have "trim_start (s @ t) = concat (chars s @ chars t)"
    using g t by (simp add: trim_start_def chars_append)
  then show ?thesis by simp
qed

lemma find_sub_first: "c \<notin> set a \<Longrightarrow> find_sub [c] (a @ c # b) = Some (length a)"
  by (induction a) auto

lemma property_kv_line:
  assumes "CHR '':'' \<notin> set k" "k \<noteq> []" "boundary v" "v = [] \<or> last v \<noteq> CR"
  shows "property_kv ('':'' @ k @ '':'' @ replicate n (CHR '' '') @ v) = Some (k, trim v)"
proof -
  let ?rest = "replicate n (CHR '' '') @ v"
  let ?t = "'':'' @ k @ '':'' @ ?rest"
  have "last ?t \<noteq> CR" using assms(4) by (cases "v = []"; cases n) (auto simp: last_append)
  then have "trim_end_matches CR ?t = ?t" by (intro trim_end_matches_last disjI2)
  moreover have "trim_start ?t = ?t" using trim_start_mark [of "CHR '':''" "k @ '':'' @ ?rest"] by simp
  moreover have "find_sub '':'' (k @ CHR '':'' # ?rest) = Some (length k)" using assms(1) by (rule find_sub_first)
  moreover have "trim ?rest = trim v" using assms(3) by (simp add: trim_def trim_start_spaces)
  ultimately show ?thesis using assms(2) by (simp add: property_kv_def parse_property_line_def Let_def)
qed

section \<open>What the validation leaves\<close>

definition word_ok :: "string \<Rightarrow> bool" where
  "word_ok w \<longleftrightarrow> w \<noteq> [] \<and> no_ws w \<and> rust_str w"

lemma word_ok_boundary: "word_ok w \<Longrightarrow> boundary w"
  by (simp add: word_ok_def rust_str_def)

lemma word_ok_simps:
  "word_ok w \<Longrightarrow> w \<noteq> []" "word_ok w \<Longrightarrow> no_ws w" "word_ok w \<Longrightarrow> rust_str w" "word_ok w \<Longrightarrow> one_line w"
proof -
  assume w: "word_ok w"
  have "c \<notin> set w" if "ascii_ws c" "byte c < 128" for c
    using w that ascii_char [of w c] by (fastforce simp: word_ok_def no_ws_def rust_str_def)
  from this [of LF] this [of CR] show "one_line w" by (simp add: one_line_def ascii_ws_def)
qed (simp_all add: word_ok_def)

lemma no_ws_append: "no_ws a \<Longrightarrow> no_ws b \<Longrightarrow> boundary b \<Longrightarrow> no_ws (a @ b)"
  by (auto simp: no_ws_def chars_append)

lemma word_ok_append: "word_ok a \<Longrightarrow> word_ok b \<Longrightarrow> word_ok (a @ b)"
  by (simp add: word_ok_def no_ws_append rust_str_append word_ok_boundary [unfolded word_ok_def])

lemma word_ok_grant: "word_ok p \<Longrightarrow> word_ok r \<Longrightarrow> word_ok (render_grant (p, r))"
proof -
  assume p: "word_ok p" and r: "word_ok r"
  have "word_ok ''=''"
    by (simp add: word_ok_def no_ws_def ascii_ws_def rust_str_def is_cont_def)
  then have "word_ok (p @ ''='' @ r)" by (intro word_ok_append p r)
  then show ?thesis by (simp add: render_grant_def)
qed

lemma join_words:
  assumes "list_all word_ok ws"
  shows "rust_str (join '' '' ws)" "one_line (join '' '' ws)" "trim (join '' '' ws) = join '' '' ws"
    "split_whitespace (join '' '' ws) = ws"
proof -
  have "rust_str (join '' '' ws) \<and> one_line (join '' '' ws) \<and>
      trim_end (join '' '' ws) = join '' '' ws \<and> (ws \<noteq> [] \<longrightarrow> join '' '' ws \<noteq> [])"
    using assms
  proof (induction ws)
    case (Cons x ys)
    let ?j = "join '' '' ys"
    have x: "word_ok x" using Cons.prems by simp
    show ?case
    proof (cases "ys = []")
      case False
      then have j: "rust_str ?j" "one_line ?j" "trim_end ?j = ?j" "?j \<noteq> []" using Cons by simp_all
      have e: "join '' '' (x # ys) = x @ '' '' @ ?j" using False by (cases ys) simp_all
      have "rust_str (CHR '' '' # ?j)" using j(1) by (intro rust_str_Cons) (simp_all add: is_cont_def)
      moreover have "trim_end ((x @ '' '') @ ?j) = (x @ '' '') @ ?j"
        using j by (intro trim_end_append) (simp_all add: rust_str_def)
      ultimately show ?thesis
        using j x word_ok_simps [OF x] rust_str_append [of x "CHR '' '' # ?j"] unfolding e by simp
    qed (use x in \<open>simp add: word_ok_simps no_ws_trim_end\<close>)
  qed simp
  moreover have "trim_start (join '' '' ws) = join '' '' ws"
  proof (cases ws)
    case (Cons x ys)
    then have x: "no_ws x" "x \<noteq> []" using assms by (simp_all add: word_ok_simps)
    show ?thesis using no_ws_trim_start [OF x, of "[]"]
        no_ws_trim_start [OF x, of "'' '' @ join '' '' ys"] Cons
      by (cases ys) (simp_all add: is_cont_def)
  qed simp
  ultimately show "rust_str (join '' '' ws)" "one_line (join '' '' ws)"
    "trim (join '' '' ws) = join '' '' ws" by (simp_all add: trim_def)
  show "split_whitespace (join '' '' ws) = ws"
    using assms by (intro split_whitespace_join) (auto simp: list_all_iff word_ok_simps word_ok_boundary)
qed

section \<open>A rendered file reads back\<close>

definition member_texts :: "member_entry \<Rightarrow> string list" where
  "member_texts e =
     [''* MEMBER '' @ me_name e, '':PROPERTIES:'', '':NAME:        '' @ me_name e,
      '':TOKEN_HASH:  '' @ me_token_hash e, '':GRANTS:      '' @ join '' '' (map render_grant (me_grants e))] @
     (if me_actions e = [] then [] else ['':ACTIONS:     '' @ join '' '' (me_actions e)]) @ ['':END:'', []]"

definition preamble_texts :: "string list" where
  "preamble_texts = [''#+title: orgasmic members'', ''#+orgasmic_version: 1'', []]"

definition members_texts :: "member_entry list \<Rightarrow> string list" where
  "members_texts es = concat (map member_texts es)"

lemma members_texts_simps [simp]:
  "members_texts [] = []" "members_texts (e # es) = member_texts e @ members_texts es"
  by (simp_all add: members_texts_def)

lemma render_members_texts:
  "render_members es = concat (map (\<lambda>t. t @ [LF]) (preamble_texts @ members_texts es))"
proof -
  have "render_member e = concat (map (\<lambda>t. t @ [LF]) (member_texts e))" for e
    by (simp add: render_member_def member_texts_def)
  then have "concat (map render_member es) = concat (map (\<lambda>t. t @ [LF]) (members_texts es))"
    by (induction es) simp_all
  then show ?thesis by (simp add: render_members_def preamble_texts_def)
qed

text \<open>The entries that read back. The equals sign is what the validation of a grant does not look at.\<close>

definition member_ok :: "member_entry \<Rightarrow> bool" where
  "member_ok e \<longleftrightarrow>
     word_ok (me_name e) \<and> word_ok (me_token_hash e) \<and> me_grants e \<noteq> [] \<and>
     list_all (\<lambda>(project, role). word_ok project \<and> word_ok role \<and> CHR ''='' \<notin> set project) (me_grants e) \<and>
     list_all word_ok (me_actions e)"

definition member_kvs :: "member_entry \<Rightarrow> properties" where
  "member_kvs e =
     [(''NAME'', me_name e), (''TOKEN_HASH'', me_token_hash e),
      (''GRANTS'', join '' '' (map render_grant (me_grants e)))] @
     (if me_actions e = [] then [] else [(''ACTIONS'', join '' '' (me_actions e))])"

definition value_ok :: "string \<Rightarrow> bool" where
  "value_ok v \<longleftrightarrow> v \<noteq> [] \<and> trim v = v \<and> rust_str v \<and> one_line v"

lemma value_ok_words: "list_all word_ok ws \<Longrightarrow> ws \<noteq> [] \<Longrightarrow> value_ok (join '' '' ws)"
proof -
  assume ws: "list_all word_ok ws" "ws \<noteq> []"
  then obtain w ws' where "ws = w # ws'" "w \<noteq> []" by (cases ws) (auto simp: word_ok_simps)
  then have "join '' '' ws \<noteq> []" by (cases ws') auto
  then show ?thesis using join_words [OF ws(1)] by (simp add: value_ok_def)
qed

lemma value_ok_word: "word_ok w \<Longrightarrow> value_ok w"
  using value_ok_words [of "[w]"] by simp

lemma grants_words:
  "list_all (\<lambda>(project, role). word_ok project \<and> word_ok role \<and> CHR ''='' \<notin> set project) gs \<Longrightarrow>
     list_all word_ok (map render_grant gs)"
  by (induction gs) (auto simp: word_ok_grant)

lemma member_values:
  assumes "member_ok e"
  shows "value_ok (me_name e)" "value_ok (me_token_hash e)"
    "value_ok (join '' '' (map render_grant (me_grants e)))"
    "me_actions e \<noteq> [] \<Longrightarrow> value_ok (join '' '' (me_actions e))"
  using assms grants_words value_ok_words value_ok_word by (auto simp: member_ok_def)

lemma property_line_reads:
  assumes "value_ok v" "CHR '':'' \<notin> set k" "k \<noteq> []"
  shows "property_kv ('':'' @ k @ '':'' @ replicate n (CHR '' '') @ v) = Some (k, v)"
    and "trim ('':'' @ k @ '':'' @ replicate n (CHR '' '') @ v) = '':'' @ k @ '':'' @ replicate n (CHR '' '') @ v"
proof -
  have v: "v \<noteq> []" "trim v = v" "boundary v" "CR \<notin> set v"
    using assms(1) by (auto simp: value_ok_def rust_str_def one_line_def)
  then have "last v \<noteq> CR" using last_in_set by metis
  then show "property_kv ('':'' @ k @ '':'' @ replicate n (CHR '' '') @ v) = Some (k, v)"
    using property_kv_line [OF assms(2,3) v(3)] v(2) by simp
  have "trim_end (('':'' @ k @ '':'' @ replicate n (CHR '' '')) @ v) = ('':'' @ k @ '':'' @ replicate n (CHR '' '')) @ v"
    using trim_eq_selfD(2) [OF v(2)] v(1,3) by (rule trim_end_append)
  then show "trim ('':'' @ k @ '':'' @ replicate n (CHR '' '') @ v) = '':'' @ k @ '':'' @ replicate n (CHR '' '') @ v"
    using trim_start_mark [of "CHR '':''"] by (simp add: trim_def)
qed

lemma drawer_property_line:
  assumes "value_ok v" "CHR '':'' \<notin> set k" "k \<noteq> []" "k \<noteq> ''END''"
  shows "drawer_kvs kvs (('':'' @ k @ '':'' @ replicate n (CHR '' '') @ v, b) # ls) = drawer_kvs (kvs @ [(k, v)]) ls"
proof -
  have "'':'' @ k @ '':'' @ replicate n (CHR '' '') @ v \<noteq> '':END:''"
  proof
    assume e: "'':'' @ k @ '':'' @ replicate n (CHR '' '') @ v = '':END:''"
    then have "takeWhile (\<lambda>c. c \<noteq> CHR '':'') (k @ CHR '':'' # replicate n (CHR '' '') @ v) = ''END''" by simp
    moreover have "takeWhile (\<lambda>c. c \<noteq> CHR '':'') (k @ CHR '':'' # replicate n (CHR '' '') @ v) = k"
      using assms(2) by (subst takeWhile_append2) auto
    ultimately show False using assms(4) by simp
  qed
  then show ?thesis using property_line_reads [OF assms(1-3), of n] by simp
qed

lemma drawer_words: "trim '':END:'' = '':END:''" "trim '':PROPERTIES:'' = '':PROPERTIES:''"
  by code_simp+

lemma member_texts_read:
  assumes "member_ok e"
  shows "entry_props (bare_texts (member_texts e)) = Some [member_kvs e]"
proof -
  note v = member_values [OF assms]
  have "drawer_kvs [] (bare_texts (tl (tl (member_texts e)))) = Some (member_kvs e, [([], False)])"
    using drawer_property_line [OF v(1), of "''NAME''" _ 8] drawer_property_line [OF v(2), of "''TOKEN_HASH''" _ 2]
      drawer_property_line [OF v(3), of "''GRANTS''" _ 6] drawer_property_line [OF v(4), of "''ACTIONS''" _ 5]
    by (cases "me_actions e = []")
      (simp_all add: member_texts_def bare_texts_def member_kvs_def eval_nat_numeral drawer_words)
  then have d: "opt_drawer_kvs (bare_texts (tl (member_texts e))) = Some (member_kvs e, [([], False)])"
    by (simp add: member_texts_def bare_texts_def opt_drawer_kvs_def drawer_words)
  have h: "heading_level (''* MEMBER '' @ me_name e) = Some 1" by (simp add: heading_level_def)
  then have "trim (''* MEMBER '' @ me_name e) \<noteq> []" by (rule heading_not_blank)
  moreover have "bare_texts (member_texts e) = (''* MEMBER '' @ me_name e, False) # bare_texts (tl (member_texts e))"
    by (simp add: member_texts_def bare_texts_def)
  ultimately show ?thesis using d h by (simp add: entry_props.simps(2))
qed

lemma member_texts_marked: "list_all marked (member_texts e)"
  by (auto simp: member_texts_def marked_def)

lemma members_open: "opens_entry (bare_texts (members_texts (e # es)))"
proof -
  have "bare_heading (''* MEMBER '' @ me_name e, False)" by (simp add: bare_heading_def heading_level_def)
  then show ?thesis
    unfolding opens_entry_def
    by (intro exI [of _ "[]"] exI [of _ "(''* MEMBER '' @ me_name e, False)"]
        exI [of _ "bare_texts (tl (member_texts e) @ members_texts es)"])
      (simp add: bare_texts_def member_texts_def)
qed

lemma members_texts_read:
  "list_all member_ok es \<Longrightarrow> entry_props (bare_texts (members_texts es)) = Some (map member_kvs es)"
proof (induction es)
  case (Cons e es)
  have "not_drawer (bare_texts (members_texts es))"
    using opens_entry_reads [OF members_open] by (cases es) (auto simp: bare_texts_def not_drawer_def)
  then have "entry_props (bare_texts (member_texts e) @ bare_texts (members_texts es)) =
      Some ([member_kvs e] @ map member_kvs es)"
    using Cons entry_props_append [OF member_texts_read] by simp
  then show ?case by (simp add: bare_texts_def)
qed (simp add: bare_texts_def)

lemma preamble_reads:
  "mask_texts 0 preamble_texts = bare_texts preamble_texts" "depth_after 0 preamble_texts = 0"
  "skip_keywords (bare_texts preamble_texts @ ls) = skip_keywords ls"
proof -
  show "mask_texts 0 preamble_texts = bare_texts preamble_texts" "depth_after 0 preamble_texts = 0"
    by code_simp+
  have "parse_keyword_line ''title: orgasmic members'' \<noteq> None" "parse_keyword_line ''orgasmic_version: 1'' \<noteq> None"
    by code_simp+
  moreover have "trim_start ''#+title: orgasmic members'' = ''#+title: orgasmic members''"
    "trim_start ''#+orgasmic_version: 1'' = ''#+orgasmic_version: 1''"
    by code_simp+
  ultimately show "skip_keywords (bare_texts preamble_texts @ ls) = skip_keywords ls"
    by (auto simp: bare_texts_def preamble_texts_def strip_prefix_def)
qed

lemma member_lines_read:
  assumes "list_all member_ok es"
  shows "line_props (mask_texts 0 (preamble_texts @ members_texts es)) = Some (map member_kvs es)"
proof -
  have "list_all marked (members_texts es)" by (induction es) (auto simp: member_texts_marked)
  then have m: "mask_texts 0 (preamble_texts @ members_texts es) =
      bare_texts preamble_texts @ bare_texts (members_texts es)"
    using mask_marked by (simp add: mask_texts_append preamble_reads bare_texts_def)
  show ?thesis
  proof (cases es)
    case (Cons e es')
    have o: "opens_entry (bare_texts (members_texts es))" using members_open Cons by simp
    show ?thesis
      using opens_entry_reads [OF o] members_texts_read [OF assms]
      unfolding m line_props_def preamble_reads by auto
  next
    case Nil
    have "skip_keywords (bare_texts preamble_texts) = Some []" using preamble_reads(3) [of "[]"] by simp
    then show ?thesis by (simp add: Nil line_props_def preamble_reads(1))
  qed
qed

text \<open>A member is what its drawer says.\<close>

definition member_of_props :: "properties \<Rightarrow> member_entry option" where
  "member_of_props kvs =
     (case lookup_prop kvs ''NAME'' of
        None \<Rightarrow> None
      | Some name \<Rightarrow>
          Some \<lparr>me_name = name,
            me_token_hash = (case lookup_prop kvs ''TOKEN_HASH'' of None \<Rightarrow> [] | Some t \<Rightarrow> t),
            me_grants = List.map_filter (split_once (CHR ''=''))
              (split_whitespace (case lookup_prop kvs ''GRANTS'' of None \<Rightarrow> [] | Some g \<Rightarrow> g)),
            me_actions =
              split_whitespace (case lookup_prop kvs ''ACTIONS'' of None \<Rightarrow> [] | Some a \<Rightarrow> a)\<rparr>)"

lemma member_of_heading_props: "member_of_heading h = member_of_props (kvs_of (property_entries h))"
  by (simp add: member_of_heading_def member_of_props_def property_lookup cong: option.case_cong)

lemma parse_members_props:
  assumes "file_props (org_parse source path) = Some ps" "trim source \<noteq> []"
  shows "parse_members path source = Inr (List.map_filter member_of_props ps)"
  using assms
  by (auto simp: file_props_def top_props_def parse_members_def member_of_heading_props map_filter_def
      filter_map comp_def split: sum.splits if_splits)

lemma grants_read:
  "list_all (\<lambda>(project, role). word_ok project \<and> word_ok role \<and> CHR ''='' \<notin> set project) gs \<Longrightarrow>
     List.map_filter (split_once (CHR ''='')) (map render_grant gs) = gs"
  by (induction gs) (auto simp: map_filter_simps render_grant_def)

lemma member_kvs_read: "member_ok e \<Longrightarrow> member_of_props (member_kvs e) = Some e"
proof -
  assume ok: "member_ok e"
  then have "list_all word_ok (map render_grant (me_grants e))" "list_all word_ok (me_actions e)"
    using grants_words by (auto simp: member_ok_def)
  then show ?thesis
    using ok grants_read join_words(4)
    by (cases e) (auto simp: member_of_props_def member_kvs_def lookup_prop_def member_ok_def)
qed

lemma rust_str_texts: "list_all rust_str ts \<Longrightarrow> rust_str (concat (map (\<lambda>t. t @ [LF]) ts))"
proof -
  assume "list_all rust_str ts"
  moreover have "rust_str [LF]" by (simp add: rust_str_def is_cont_def)
  ultimately have "list_all rust_str (map (\<lambda>t. t @ [LF]) ts)" by (auto simp: list_all_iff)
  then show ?thesis by (rule rust_str_concat)
qed

lemma member_texts_ok:
  assumes "member_ok e"
  shows "list_all one_line (member_texts e)" "list_all rust_str (member_texts e)"
proof -
  have v: "one_line v" "rust_str v" if "value_ok v" for v using that by (simp_all add: value_ok_def)
  note m = member_values [OF assms]
  show "list_all one_line (member_texts e)"
    using v(1) [OF m(1)] v(1) [OF m(2)] v(1) [OF m(3)] v(1) [OF m(4)] by (auto simp: member_texts_def)
  have r: "rust_str (p @ v)" if "value_ok v" "list_all (\<lambda>c. \<not> is_cont c) p" for p v
    using that v(2) [OF that(1)] by (induction p) (auto intro: rust_str_Cons)
  have fixed: "rust_str '':PROPERTIES:''" "rust_str '':END:''" by code_simp+
  show "list_all rust_str (member_texts e)"
    using r [OF m(1), of "''* MEMBER ''"] r [OF m(1), of "'':NAME:        ''"] r [OF m(2), of "'':TOKEN_HASH:  ''"]
      r [OF m(3), of "'':GRANTS:      ''"] r [OF m(4), of "'':ACTIONS:     ''"] fixed
    by (simp add: member_texts_def is_cont_def)
qed

lemma rendered_members_read:
  assumes "list_all member_ok es"
  shows "parse_members path (render_members es) = Inr es" "\<exists>f. org_parse (render_members es) path = Inr f"
proof -
  have ts: "list_all one_line (preamble_texts @ members_texts es)" "list_all rust_str (preamble_texts @ members_texts es)"
  proof -
    have "list_all one_line preamble_texts" "list_all rust_str preamble_texts" by code_simp+
    then show "list_all one_line (preamble_texts @ members_texts es)" "list_all rust_str (preamble_texts @ members_texts es)"
      using assms member_texts_ok by (induction es) simp_all
  qed
  have lines: "str_lines (render_members es) = preamble_texts @ members_texts es"
    using str_lines_texts [OF ts(1), of "[]"] by (simp add: render_members_texts str_lines_def)
  have "whole_ascii (render_members es)"
    using rust_str_texts [OF ts(2)] by (simp add: render_members_texts rust_str_def)
  then have p: "file_props (org_parse (render_members es) path) = Some (map member_kvs es)"
    using org_parse_props member_lines_read [OF assms] lines by metis
  then show "\<exists>f. org_parse (render_members es) path = Inr f"
    by (cases "org_parse (render_members es) path") (auto simp: file_props_def)
  have "trim_start (render_members es) = render_members es"
    using trim_start_mark [of "CHR ''#''"] by (simp add: render_members_def)
  moreover have "render_members es \<noteq> []" by (simp add: render_members_def)
  ultimately have "trim (render_members es) \<noteq> []" by (metis trim_Nil_iff trim_start_def concat.simps(1) dropWhile_eq_Nil_conv list_all_iff)
  then have "parse_members path (render_members es) = Inr (List.map_filter member_of_props (map member_kvs es))"
    using parse_members_props [OF p] by simp
  moreover have "List.map_filter member_of_props (map member_kvs es) = es"
    using assms by (induction es) (simp_all add: map_filter_simps member_kvs_read)
  ultimately show "parse_members path (render_members es) = Inr es" by simp
qed

section \<open>The file is the list of its members\<close>

lemma ascii_word:
  assumes "w \<noteq> []" "list_all (\<lambda>c. byte c < 128 \<and> \<not> ascii_ws c) w"
  shows "word_ok w"
proof -
  have c: "\<forall>c \<in> set w. \<not> is_cont c" using assms(2) by (auto simp: list_all_iff is_cont_def)
  have "rust_str s" if "\<forall>c \<in> set s. \<not> is_cont c" for s
    using that by (induction s) (auto intro: rust_str_Cons)
  then show ?thesis using assms c chars_ascii [OF c] by (auto simp: word_ok_def no_ws_def list_all_iff)
qed

lemma hex_word: "bytes \<noteq> [] \<Longrightarrow> word_ok (hex_bytes bytes)"
proof (rule ascii_word)
  show "bytes \<noteq> [] \<Longrightarrow> hex_bytes bytes \<noteq> []" by (cases bytes) (simp_all add: hex_bytes_def)
  have "list_all (\<lambda>c. byte c < 128 \<and> \<not> ascii_ws c) ''0123456789abcdef''" by (simp add: ascii_ws_def)
  then show "list_all (\<lambda>c. byte c < 128 \<and> \<not> ascii_ws c) (hex_bytes bytes)"
    using hex_bytes_digits [of bytes] unfolding list_all_iff by blast
qed

lemma ascii_name_char:
  "is_ascii_alphanumeric c \<or> c \<in> {CHR ''_'', CHR ''.'', CHR ''-''} \<Longrightarrow> byte c < 128 \<and> \<not> ascii_ws c"
  by (auto simp: ascii_defs ascii_ws_def)

lemma valid_name_word: "validate_member_name name = Inr () \<Longrightarrow> word_ok name"
proof (rule ascii_word)
  assume v: "validate_member_name name = Inr ()"
  then show "name \<noteq> []" by (auto simp: validate_member_name_def split: if_splits)
  have "list_all (\<lambda>c. is_ascii_alphanumeric c \<or> c \<in> {CHR ''_'', CHR ''.'', CHR ''-''}) name"
    using v by (auto simp: validate_member_name_def split: if_splits)
  then show "list_all (\<lambda>c. byte c < 128 \<and> \<not> ascii_ws c) name"
    using ascii_name_char by (rule list.pred_mono_strong)
qed

lemma valid_actions_words: "validate_actions actions = Inr () \<Longrightarrow> list_all word_ok actions"
proof (induction actions)
  case (Cons a as)
  have "byte c < 128 \<and> \<not> ascii_ws c"
    if "is_ascii_lowercase c \<or> is_ascii_digit c \<or> c = CHR ''.'' \<or> c = CHR ''_''" for c
    using that by (auto simp: ascii_defs ascii_ws_def)
  then have "word_ok a"
    using Cons.prems by (intro ascii_word)
      (auto simp: try_res_Inr_iff validate_single_line_def list_all_iff split: if_splits)
  then show ?case using Cons by (auto simp: try_res_Inr_iff split: if_splits)
qed simp

lemma valid_grants_words:
  "validate_grant_list gs = Inr () \<Longrightarrow> list_all (\<lambda>(project, role). rust_str project \<and> rust_str role) gs \<Longrightarrow>
     list_all (\<lambda>(project, role). word_ok project \<and> word_ok role) gs"
proof (induction gs rule: validate_grant_list.induct)
  case (2 project role gs)
  then have "no_ws project" "no_ws role" by (auto simp: try_res_Inr_iff no_ws_def list_ex_iff split: if_splits)
  moreover have "project \<noteq> []" "role \<noteq> []"
    using 2 by (auto simp: try_res_Inr_iff validate_single_line_def split: if_splits)
  ultimately show ?case using 2 by (auto simp: try_res_Inr_iff word_ok_def split: if_splits)
qed simp

lemma write_members_ok:
  "list_all member_ok es \<Longrightarrow> write_members path x es = (Inr x, render_members es)"
  using rendered_members_read(2) [of es path] by (auto simp: write_members_def Let_def)

text \<open>The file holds a list of members: reading it gives the list, under any display name.\<close>

definition holds :: "string option \<Rightarrow> member_entry list \<Rightarrow> bool" where
  "holds file es \<longleftrightarrow>
     list_all member_ok es \<and> distinct (map me_name es) \<and> (\<forall>path. read_members path file = Inr es)"

lemma holds_rendered: "list_all member_ok es \<Longrightarrow> distinct (map me_name es) \<Longrightarrow> holds (Some (render_members es)) es"
  by (simp add: holds_def read_members_def rendered_members_read)

lemma holds_empty: "holds None []"
  by (simp add: holds_def read_members_def)

lemma holds_Some: "holds (Some s) es \<Longrightarrow> parse_members path s = Inr es"
  by (simp add: holds_def read_members_def)

text \<open>The same operations on the list of the members.\<close>

datatype member_op =
    AddMember string string "(string \<times> string) list" "string list"
  | SetActions string "string list"
  | RevokeMember string

fun run_member_op ::
  "(string \<Rightarrow> string) \<Rightarrow> string \<Rightarrow> member_op \<Rightarrow> string option \<Rightarrow> (member_error + unit) \<times> string option" where
  "run_member_op sha256 path (AddMember random name grants actions) file =
     map_prod (map_sum id (\<lambda>_. ())) id (add_member_with_actions sha256 random path name grants actions file)"
| "run_member_op sha256 path (SetActions name actions) file =
     map_prod (map_sum id (\<lambda>_. ())) id (set_member_actions path name actions file)"
| "run_member_op sha256 path (RevokeMember name) file =
     map_prod (map_sum id (\<lambda>_. ())) id (revoke_member path name file)"

fun member_op_accepted :: "member_op \<Rightarrow> member_entry list \<Rightarrow> bool" where
  "member_op_accepted (AddMember random name grants actions) es \<longleftrightarrow>
     is_ok (validate_member_name name) \<and> is_ok (validate_grants grants) \<and> is_ok (validate_actions actions)
       \<and> name \<notin> set (map me_name es)"
| "member_op_accepted (SetActions name actions) es \<longleftrightarrow> is_ok (validate_actions actions)"
| "member_op_accepted (RevokeMember name) es \<longleftrightarrow> True"

fun apply_member_op :: "(string \<Rightarrow> string) \<Rightarrow> member_op \<Rightarrow> member_entry list \<Rightarrow> member_entry list" where
  "apply_member_op sha256 (AddMember random name grants actions) es =
     (if member_op_accepted (AddMember random name grants actions) es
      then es @ [\<lparr>me_name = name, me_token_hash = sha256_hex sha256 (mint_token random),
                  me_grants = grants, me_actions = actions\<rparr>]
      else es)"
| "apply_member_op sha256 (SetActions name actions) es =
     (if member_op_accepted (SetActions name actions) es
      then map (\<lambda>e. if me_name e = name then e\<lparr>me_actions := actions\<rparr> else e) es
      else es)"
| "apply_member_op sha256 (RevokeMember name) es = filter (\<lambda>e. me_name e \<noteq> name) es"

text \<open>What the command line hands over: strings, and projects without an equals sign.\<close>

fun member_op_ok :: "member_op \<Rightarrow> bool" where
  "member_op_ok (AddMember random name grants actions) \<longleftrightarrow>
     list_all (\<lambda>(project, role). rust_str project \<and> rust_str role \<and> CHR ''='' \<notin> set project) grants"
| "member_op_ok _ \<longleftrightarrow> True"

lemma new_member_ok:
  assumes "\<forall>s. sha256 s \<noteq> []" "is_ok (validate_member_name name)" "is_ok (validate_grants grants)"
    "is_ok (validate_actions actions)" "member_op_ok (AddMember random name grants actions)"
  shows "member_ok \<lparr>me_name = name, me_token_hash = sha256_hex sha256 (mint_token random),
    me_grants = grants, me_actions = actions\<rparr>"
proof -
  have g: "validate_grant_list grants = Inr ()" "grants \<noteq> []"
    using assms(3) by (auto simp: is_ok_iff validate_grants_def split: if_splits)
  then have "list_all (\<lambda>(project, role). word_ok project \<and> word_ok role) grants"
    using assms(5) by (intro valid_grants_words) (auto simp: list_all_iff)
  then have "list_all (\<lambda>(project, role). word_ok project \<and> word_ok role \<and> CHR ''='' \<notin> set project) grants"
    using assms(5) by (auto simp: list_all_iff)
  then show ?thesis
    using assms(1,2,4) g valid_name_word valid_actions_words hex_word
    by (auto simp: member_ok_def is_ok_iff sha256_hex_def)
qed

lemma add_member_works:
  assumes "holds file es" "\<forall>s. sha256 s \<noteq> []" "member_op_ok (AddMember random name grants actions)"
  shows "holds (snd (add_member_with_actions sha256 random path name grants actions file))
      (apply_member_op sha256 (AddMember random name grants actions) es)"
    and "is_ok (fst (add_member_with_actions sha256 random path name grants actions file)) \<longleftrightarrow>
      member_op_accepted (AddMember random name grants actions) es"
proof -
  let ?e = "\<lparr>me_name = name, me_token_hash = sha256_hex sha256 (mint_token random),
    me_grants = grants, me_actions = actions\<rparr>"
  let ?run = "add_member_with_actions sha256 random path name grants actions file"
  let ?op = "AddMember random name grants actions"
  have p: "parse_members path (case file of None \<Rightarrow> [] | Some s \<Rightarrow> s) = Inr es"
    and same: "holds (Some (case file of None \<Rightarrow> [] | Some s \<Rightarrow> s)) es"
    using assms(1) by (auto simp: holds_def read_members_def parse_members_def split: option.splits)
  have "holds (snd ?run) (apply_member_op sha256 ?op es) \<and> (is_ok (fst ?run) \<longleftrightarrow> member_op_accepted ?op es)"
  proof (cases "member_op_accepted ?op es")
    case True
    then have ok: "list_all member_ok (es @ [?e])" "distinct (map me_name (es @ [?e]))"
      using assms new_member_ok [OF assms(2) _ _ _ assms(3)] by (auto simp: holds_def)
    have "?run = (Inr (mint_token random), Some (render_members (es @ [?e])))"
      using True p
      by (auto simp: add_member_with_actions_def add_member_locked_def is_ok_iff list_ex_iff Let_def
          write_members_ok [OF ok(1)] simp del: list_all_append)
    then show ?thesis using True holds_rendered [OF ok] by simp
  next
    case False
    then show ?thesis
      using assms(1) same p
      by (auto simp: add_member_with_actions_def add_member_locked_def list_ex_iff try_res_def is_ok_iff
          split: sum.splits)
  qed
  then show "holds (snd ?run) (apply_member_op sha256 ?op es)" "is_ok (fst ?run) \<longleftrightarrow> member_op_accepted ?op es"
    by blast+
qed

lemma set_actions_of_map:
  "distinct (map me_name es) \<Longrightarrow>
     set_actions_of name actions es =
       (if name \<in> set (map me_name es)
        then Some (map (\<lambda>e. if me_name e = name then e\<lparr>me_actions := actions\<rparr> else e) es) else None)"
proof (induction es)
  case (Cons e es)
  have "map (\<lambda>e. if me_name e = name then e\<lparr>me_actions := actions\<rparr> else e) es = es" if "name \<notin> me_name ` set es"
    using that by (induction es) auto
  then show ?case using Cons by (auto simp: set_actions_of_def split: if_splits)
qed (simp add: set_actions_of_def)

lemma rewrite_members_works:
  assumes "holds (Some s) es" "\<And>fs. transform es = Some fs \<Longrightarrow> list_all member_ok fs \<and> distinct (map me_name fs)"
  shows "holds (Some (snd (rewrite_members_locked path transform s)))
      (case transform es of None \<Rightarrow> es | Some fs \<Rightarrow> fs)"
    and "fst (rewrite_members_locked path transform s) = Inr (transform es \<noteq> None)"
  using assms holds_Some [OF assms(1)] holds_rendered
  by (auto simp: rewrite_members_locked_def write_members_ok split: option.splits)

lemma set_actions_works:
  assumes "holds file es"
  shows "holds (snd (set_member_actions path name actions file))
      (apply_member_op sha256 (SetActions name actions) es)"
    and "is_ok (fst (set_member_actions path name actions file)) \<longleftrightarrow>
      member_op_accepted (SetActions name actions) es"
proof -
  let ?fs = "map (\<lambda>e. if me_name e = name then e\<lparr>me_actions := actions\<rparr> else e) es"
  have same: "?fs = es" if "name \<notin> set (map me_name es)" using that by (induction es) auto
  have names: "map me_name (map (\<lambda>e. if me_name e = name then e\<lparr>me_actions := actions\<rparr> else e) xs) = map me_name xs"
    for xs :: "member_entry list"
    by (induction xs) auto
  have d: "distinct (map me_name es)" "list_all member_ok es" using assms by (simp_all add: holds_def)
  then have dist: "distinct (map me_name ?fs)" unfolding names by simp
  have ok: "list_all member_ok ?fs" if "list_all word_ok actions"
    using d(2) that by (induction es) (auto simp: member_ok_def)
  have t: "set_actions_of name actions es = Some fs \<Longrightarrow> list_all word_ok actions \<Longrightarrow>
      list_all member_ok fs \<and> distinct (map me_name fs)" for fs
    using ok dist by (auto simp: set_actions_of_map [OF d(1)] simp del: map_map split: if_splits)
  show "holds (snd (set_member_actions path name actions file)) (apply_member_op sha256 (SetActions name actions) es)"
  proof (cases "file")
    case None
    then have "es = []" using assms by (auto simp: holds_def read_members_def)
    then show ?thesis using None holds_empty by (auto simp: set_member_actions_def split: sum.split)
  next
    case (Some s)
    show ?thesis
    proof (cases "validate_actions actions")
      case (Inr u)
      then have w: "list_all word_ok actions" by (intro valid_actions_words) simp
      have "holds (Some (snd (rewrite_members_locked path (set_actions_of name actions) s))) ?fs"
        using rewrite_members_works(1) [OF assms [unfolded Some], of "set_actions_of name actions" path, OF t [OF _ w]] same
        by (cases "name \<in> set (map me_name es)") (simp_all add: set_actions_of_map [OF d(1)])
      then show ?thesis using Inr Some by (simp add: set_member_actions_def case_prod_unfold Let_def)
    qed (use assms in \<open>simp add: set_member_actions_def\<close>)
  qed
  show "is_ok (fst (set_member_actions path name actions file)) \<longleftrightarrow> member_op_accepted (SetActions name actions) es"
  proof (cases "file")
    case (Some s)
    show ?thesis
    proof (cases "validate_actions actions")
      case (Inr u)
      then have w: "list_all word_ok actions" by (intro valid_actions_words) simp
      show ?thesis
        using rewrite_members_works(2) [OF assms [unfolded Some], of "set_actions_of name actions" path, OF t [OF _ w]] Inr Some
        by (simp add: set_member_actions_def case_prod_unfold Let_def)
    qed (simp add: set_member_actions_def)
  qed (auto simp: set_member_actions_def split: sum.split)
qed

lemma revoke_works:
  assumes "holds file es"
  shows "holds (snd (revoke_member path name file)) (apply_member_op sha256 (RevokeMember name) es)"
    and "fst (revoke_member path name file) = Inr (name \<in> set (map me_name es))"
proof -
  have d: "distinct (map me_name es)" "list_all member_ok es" using assms by (simp_all add: holds_def)
  let ?kept = "filter (\<lambda>e. me_name e \<noteq> name) es"
  have r: "revoke_of name es = (if name \<in> set (map me_name es) then Some ?kept else None)"
    and same: "name \<notin> set (map me_name es) \<Longrightarrow> ?kept = es"
  proof -
    show s: "name \<notin> set (map me_name es) \<Longrightarrow> ?kept = es" by (auto simp: filter_id_conv)
    have "length ?kept < length es" if "name \<in> set (map me_name es)"
      using that by (auto intro: length_filter_less)
    then show "revoke_of name es = (if name \<in> set (map me_name es) then Some ?kept else None)"
      using s by (auto simp: revoke_of_def Let_def)
  qed
  have ok: "list_all member_ok ?kept \<and> distinct (map me_name ?kept)"
    using d by (auto simp: list_all_iff distinct_map inj_on_def)
  then have t: "revoke_of name es = Some fs \<Longrightarrow> list_all member_ok fs \<and> distinct (map me_name fs)" for fs
    by (simp add: r split: if_splits)
  have "holds (snd (revoke_member path name file)) ?kept
      \<and> fst (revoke_member path name file) = Inr (name \<in> set (map me_name es))"
  proof (cases "file")
    case None
    then have "es = []" using assms by (auto simp: holds_def read_members_def)
    then show ?thesis using None holds_empty by (simp add: revoke_member_def)
  next
    case (Some s)
    have "(case revoke_of name es of None \<Rightarrow> es | Some fs \<Rightarrow> fs) = ?kept"
      using same by (simp add: r)
    then show ?thesis
      using rewrite_members_works [OF assms [unfolded Some], of "revoke_of name" path] t Some
      by (simp add: revoke_member_def case_prod_unfold Let_def r del: set_map split: if_splits)
  qed
  then show "holds (snd (revoke_member path name file)) (apply_member_op sha256 (RevokeMember name) es)"
    "fst (revoke_member path name file) = Inr (name \<in> set (map me_name es))"
    by simp_all
qed

lemma is_ok_map_sum [simp]: "is_ok (map_sum id f r) \<longleftrightarrow> is_ok r"
  by (cases r) simp_all

lemma member_op_works:
  assumes "holds file es" "\<forall>s. sha256 s \<noteq> []" "member_op_ok op"
  shows "holds (snd (run_member_op sha256 path op file)) (apply_member_op sha256 op es)"
    and "is_ok (fst (run_member_op sha256 path op file)) \<longleftrightarrow> member_op_accepted op es"
proof -
  show "holds (snd (run_member_op sha256 path op file)) (apply_member_op sha256 op es)"
    using add_member_works(1) [OF assms(1,2)] set_actions_works(1) [OF assms(1)] revoke_works(1) [OF assms(1)] assms(3)
    by (cases op) simp_all
  show "is_ok (fst (run_member_op sha256 path op file)) \<longleftrightarrow> member_op_accepted op es"
    using add_member_works(2) [OF assms(1,2)] set_actions_works(2) [OF assms(1)] revoke_works(2) [OF assms(1)] assms(3)
    by (cases op) simp_all
qed

section \<open>Properties\<close>

definition run_member_ops ::
  "(string \<Rightarrow> string) \<Rightarrow> string \<Rightarrow> member_op list \<Rightarrow> string option \<Rightarrow> string option" where
  "run_member_ops sha256 path = fold (\<lambda>op file. snd (run_member_op sha256 path op file))"

lemma run_member_ops_hold:
  "holds file es \<Longrightarrow> \<forall>s. sha256 s \<noteq> [] \<Longrightarrow> list_all member_op_ok ops \<Longrightarrow>
     holds (run_member_ops sha256 path ops file) (fold (apply_member_op sha256) ops es)"
proof (induction ops arbitrary: "file" es)
  case (Cons op ops)
  then show ?case using member_op_works(1) [of "file" es sha256 op path] by (simp add: run_member_ops_def)
qed (simp add: run_member_ops_def)

text \<open>
  Claim C27. The members file is a refinement of the list of members: after any sequence of adding,
  changing and revoking, starting without a file, reading the file gives exactly the list the same
  operations make of the empty list, no name occurs twice, and the next operation is accepted or
  refused as it is on the list. The digests are SHA-256 digests, of 32 bytes.
\<close>

theorem members_file_refines:
  assumes "\<forall>s. length (sha256 s) = 32" "list_all member_op_ok (op # ops)"
  shows "read_members path (run_member_ops sha256 path ops None) = Inr (fold (apply_member_op sha256) ops [])
    \<and> distinct (map me_name (fold (apply_member_op sha256) ops []))
    \<and> (is_ok (fst (run_member_op sha256 path op (run_member_ops sha256 path ops None)))
        \<longleftrightarrow> member_op_accepted op (fold (apply_member_op sha256) ops []))"
proof -
  have sha: "\<forall>s. sha256 s \<noteq> []" using assms(1) by (metis list.size(3) zero_neq_numeral)
  then have h: "holds (run_member_ops sha256 path ops None) (fold (apply_member_op sha256) ops [])"
    using run_member_ops_hold [OF holds_empty] assms(2) by simp
  then show ?thesis using member_op_works(2) [OF h sha] assms(2) by (simp add: holds_def)
qed

text \<open>A member is added, gets an action, and a second one is added and revoked.\<close>

definition sample_member_ops :: "member_op list" where
  "sample_member_ops =
    [AddMember ''r1'' ''alice'' [(''proj-a'', ''editor'')] [],
     SetActions ''alice'' [''chat.execute''],
     AddMember ''r2'' ''bob'' [(''*'', ''viewer'')] [],
     RevokeMember ''bob'']"

lemma members_file_refines_witness:
  "\<exists>h. read_members ''members.org'' (run_member_ops (\<lambda>_. replicate 32 (CHR ''x'')) ''members.org'' sample_member_ops None) =
    Inr [\<lparr>me_name = ''alice'', me_token_hash = h, me_grants = [(''proj-a'', ''editor'')], me_actions = [''chat.execute'']\<rparr>]"
proof -
  have s: "fold (apply_member_op (\<lambda>_. replicate 32 (CHR ''x''))) sample_member_ops [] =
      [\<lparr>me_name = ''alice'', me_token_hash = hex_bytes (replicate 32 (CHR ''x'')),
         me_grants = [(''proj-a'', ''editor'')], me_actions = [''chat.execute'']\<rparr>]"
    by code_simp
  have "list_all member_op_ok (RevokeMember ''bob'' # sample_member_ops)" by code_simp
  then show ?thesis using members_file_refines [of "\<lambda>_. replicate 32 (CHR ''x'')"] s by fastforce
qed

text \<open>The validation lets an equals sign into the name of a project; what is read back is another
  grant.\<close>

lemma equals_sign_grant_changes:
  "validate_grants [(''a=b'', ''editor'')] = Inr ()"
  "List.map_filter (split_once (CHR ''='')) (split_whitespace (render_grant (''a=b'', ''editor''))) =
     [(''a'', ''b=editor'')]"
  by code_simp+

end
