(* ===== verification/Auth.thy ===== *)
theory Auth
  imports Members Authz Ordered_Map "HOL-Library.List_Lexorder" "HOL-Library.Char_ord"
begin

text \<open>
  The daemon's credentials, \<open>crates/orgasmic-daemon/src/auth.rs\<close>: the bearer token, the one-time
  tickets and sessions of the user interface, the sessions of members, and the identity a request
  resolves to. Every reading of the clock is an argument, in nanoseconds, and so are the random
  bytes of a fresh token; the locks are those of a process in which no holder panics.
\<close>

section \<open>The bearer token\<close>

definition UI_SESSION_COOKIE :: string where
  "UI_SESSION_COOKIE = ''orgasmic_ui_session''"

definition MEMBER_SESSION_COOKIE :: string where
  "MEMBER_SESSION_COOKIE = ''orgasmic_member_session''"

definition UI_TICKET_TTL_SECONDS :: int where "UI_TICKET_TTL_SECONDS = 60"

definition UI_SESSION_TTL_SECONDS :: int where "UI_SESSION_TTL_SECONDS = 12 * 60 * 60"

definition MEMBER_SESSION_TTL_SECONDS :: int where "MEMBER_SESSION_TTL_SECONDS = 30 * 24 * 60 * 60"

text \<open>\<open>chrono::Duration::seconds\<close>, and the clock it is added to.\<close>

definition seconds :: "int \<Rightarrow> int" where
  "seconds n = n * 10 ^ 9"

definition generate_token :: "string \<Rightarrow> string" where
  "generate_token random = hex_bytes random"

text \<open>The token and the token file after it.\<close>

definition load_or_generate :: "string \<Rightarrow> string option \<Rightarrow> string \<times> string option" where
  "load_or_generate random file =
     (let fresh = (generate_token random, Some (generate_token random))
      in case file of
           None \<Rightarrow> fresh
         | Some raw \<Rightarrow> (let token = trim raw in if token \<noteq> [] then (token, file) else fresh))"

section \<open>State\<close>

record member_session =
  ms_member_name :: string
  ms_expires_at :: int

record auth_state =
  as_token :: string
  ui_tickets :: "(string \<times> int) list"
  ui_sessions :: "(string \<times> int) list"
  member_sessions :: "(string \<times> member_session) list"

definition auth_new :: "string \<Rightarrow> auth_state" where
  "auth_new token = \<lparr>as_token = token, ui_tickets = [], ui_sessions = [], member_sessions = []\<rparr>"

text \<open>The text of the first header of that name, when there is one and it is text.\<close>

record request_headers =
  rh_authorization :: "string option"
  rh_cookie :: "string option"

definition cookie_value :: "request_headers \<Rightarrow> string \<Rightarrow> string option" where
  "cookie_value headers name =
     (case rh_cookie headers of
        None \<Rightarrow> None
      | Some raw \<Rightarrow>
          find_map
            (\<lambda>part. case split_once (CHR ''='') (trim part) of
                None \<Rightarrow> None
              | Some (key, v) \<Rightarrow> if key = name then Some v else None)
            (split_on (CHR '';'') raw))"

definition check_token :: "auth_state \<Rightarrow> string \<Rightarrow> bool" where
  "check_token st presented =
     (let a = as_token st; b = trim presented
      in if length a \<noteq> length b then False else a = b)"

definition check :: "auth_state \<Rightarrow> request_headers \<Rightarrow> bool" where
  "check st headers =
     (case rh_authorization headers of
        None \<Rightarrow> False
      | Some raw \<Rightarrow>
          (case strip_prefix raw ''Bearer '' of
             None \<Rightarrow> False
           | Some presented \<Rightarrow> check_token st presented))"

definition check_query_token :: "auth_state \<Rightarrow> string option \<Rightarrow> bool" where
  "check_query_token st query =
     (case query of
        None \<Rightarrow> False
      | Some q \<Rightarrow>
          list_ex
            (\<lambda>pair. let (key, v) = (case split_once (CHR ''='') pair of None \<Rightarrow> (pair, []) | Some kv \<Rightarrow> kv)
                    in key = ''token'' \<and> check_token st v)
            (split_on (CHR ''&'') q))"

section \<open>Tickets and sessions of the user interface\<close>

definition ui_prune :: "int \<Rightarrow> auth_state \<Rightarrow> auth_state" where
  "ui_prune now st =
     st\<lparr>ui_tickets := filter (\<lambda>(_, expires_at). now < expires_at) (ui_tickets st),
        ui_sessions := filter (\<lambda>(_, expires_at). now < expires_at) (ui_sessions st)\<rparr>"

text \<open>The clock is read twice: for the expiry and for the pruning.\<close>

definition create_ui_ticket ::
  "string \<Rightarrow> int \<Rightarrow> int \<Rightarrow> auth_state \<Rightarrow> (string \<times> int) \<times> auth_state" where
  "create_ui_ticket random now now' st =
     (let ticket = generate_token random;
          expires_at = now + seconds UI_TICKET_TTL_SECONDS;
          st = ui_prune now' st
      in ((ticket, expires_at), st\<lparr>ui_tickets := bt_insert ticket expires_at (ui_tickets st)\<rparr>))"

definition redeem_ui_ticket ::
  "string \<Rightarrow> int \<Rightarrow> string \<Rightarrow> auth_state \<Rightarrow> string option \<times> auth_state" where
  "redeem_ui_ticket random now ticket st =
     (let st = ui_prune now st
      in case bt_get (ui_tickets st) ticket of
           None \<Rightarrow> (None, st)
         | Some expires_at \<Rightarrow>
             (let st = st\<lparr>ui_tickets := bt_remove ticket (ui_tickets st)\<rparr>
              in if expires_at \<le> now then (None, st)
                 else
                   (let session = generate_token random
                    in (Some session,
                        st\<lparr>ui_sessions :=
                          bt_insert session (now + seconds UI_SESSION_TTL_SECONDS) (ui_sessions st)\<rparr>))))"

definition check_ui_session :: "int \<Rightarrow> request_headers \<Rightarrow> auth_state \<Rightarrow> bool \<times> auth_state" where
  "check_ui_session now headers st =
     (case cookie_value headers UI_SESSION_COOKIE of
        None \<Rightarrow> (False, st)
      | Some session \<Rightarrow>
          (let st = ui_prune now st
           in ((case bt_get (ui_sessions st) session of
                  None \<Rightarrow> False
                | Some expires_at \<Rightarrow> now < expires_at), st)))"

definition check_headers :: "int \<Rightarrow> request_headers \<Rightarrow> auth_state \<Rightarrow> bool \<times> auth_state" where
  "check_headers now headers st =
     (if check st headers then (True, st) else check_ui_session now headers st)"

section \<open>Sessions of members\<close>

definition member_prune :: "int \<Rightarrow> auth_state \<Rightarrow> auth_state" where
  "member_prune now st =
     st\<lparr>member_sessions := filter (\<lambda>(_, s). now < ms_expires_at s) (member_sessions st)\<rparr>"

definition create_member_session ::
  "string \<Rightarrow> int \<Rightarrow> int \<Rightarrow> string \<Rightarrow> auth_state \<Rightarrow> (string \<times> int) \<times> auth_state" where
  "create_member_session random now now' name st =
     (let session = generate_token random;
          expires_at = now + seconds MEMBER_SESSION_TTL_SECONDS;
          st = member_prune now' st
      in ((session, expires_at),
          st\<lparr>member_sessions :=
            bt_insert session \<lparr>ms_member_name = name, ms_expires_at = expires_at\<rparr> (member_sessions st)\<rparr>))"

definition check_member_session ::
  "int \<Rightarrow> request_headers \<Rightarrow> auth_state \<Rightarrow> string option \<times> auth_state" where
  "check_member_session now headers st =
     (case cookie_value headers MEMBER_SESSION_COOKIE of
        None \<Rightarrow> (None, st)
      | Some session \<Rightarrow>
          (let st = member_prune now st
           in (map_option ms_member_name (bt_get (member_sessions st) session), st)))"

section \<open>The identity of a request\<close>

definition member_identity :: "member_entry \<Rightarrow> identity" where
  "member_identity entry = Member (me_name entry) (me_grants entry) (me_actions entry)"

text \<open>\<open>.ok().flatten()?\<close>: a members file that cannot be read is a file without the member.\<close>

definition found_member :: "member_error + member_entry option \<Rightarrow> identity option" where
  "found_member r = (case r of Inr (Some entry) \<Rightarrow> Some (member_identity entry) | _ \<Rightarrow> None)"

definition resolve_identity ::
  "(string \<Rightarrow> string) \<Rightarrow> int \<Rightarrow> int \<Rightarrow> request_headers \<Rightarrow> string \<Rightarrow> string option \<Rightarrow> auth_state
    \<Rightarrow> identity option \<times> auth_state"
where
  "resolve_identity sha256 now now' headers path file st =
     (let (admin, st) = check_headers now headers st
      in if admin then (Some Admin, st)
         else
           (let (member, st) = check_member_session now' headers st
            in case member of
                 Some name \<Rightarrow> (found_member (find_member_by_name path name file), st)
               | None \<Rightarrow>
                   ((case rh_authorization headers of
                       None \<Rightarrow> None
                     | Some raw \<Rightarrow>
                         (case strip_prefix raw ''Bearer '' of
                            None \<Rightarrow> None
                          | Some token \<Rightarrow> found_member (find_member_by_token sha256 path token file))), st)))"

section \<open>Stores whose entries expire\<close>

text \<open>
  What the three maps of the state have in common: an event may store an entry, drop one, and prune
  at the times it reads from the clock. An entry is there exactly when some event stored it and no
  later one replaced it, dropped it, or pruned at its expiry or later.
\<close>

locale expiring_store =
  fixes lookup :: "'s \<Rightarrow> 'k \<Rightarrow> 'v option"
    and step :: "'e \<Rightarrow> 's \<Rightarrow> 's"
    and init :: 's
    and ok :: "'s \<Rightarrow> bool"
    and stores :: "'s \<Rightarrow> 'e \<Rightarrow> ('k \<times> 'v) option"
    and drops :: "'e \<Rightarrow> 'k \<Rightarrow> bool"
    and prunes :: "'s \<Rightarrow> 'e \<Rightarrow> int list"
    and expiry :: "'v \<Rightarrow> int"
  assumes ok_init: "ok init"
    and ok_step: "ok s \<Longrightarrow> ok (step e s)"
    and lookup_init: "lookup init k = None"
    and lookup_stored: "ok s \<Longrightarrow> stores s e = Some (k, v) \<Longrightarrow> lookup (step e s) k = Some v"
    and lookup_other: "ok s \<Longrightarrow> (\<And>v. stores s e \<noteq> Some (k, v)) \<Longrightarrow>
      lookup (step e s) k = Some v \<longleftrightarrow>
        lookup s k = Some v \<and> \<not> drops e k \<and> list_all (\<lambda>t. t < expiry v) (prunes s e)"
begin

definition run :: "'e list \<Rightarrow> 's" where
  "run es = fold step es init"

definition keeps :: "'k \<Rightarrow> 'v \<Rightarrow> 's \<Rightarrow> 'e \<Rightarrow> bool" where
  "keeps k v s e \<longleftrightarrow>
     (\<forall>w. stores s e \<noteq> Some (k, w)) \<and> \<not> drops e k \<and> list_all (\<lambda>t. t < expiry v) (prunes s e)"

fun all_keep :: "'k \<Rightarrow> 'v \<Rightarrow> 's \<Rightarrow> 'e list \<Rightarrow> bool" where
  "all_keep k v s [] \<longleftrightarrow> True"
| "all_keep k v s (e # es) \<longleftrightarrow> keeps k v s e \<and> all_keep k v (step e s) es"

lemma run_snoc [simp]: "run [] = init" "run (es @ [e]) = step e (run es)"
  by (simp_all add: run_def)

lemma ok_run: "ok (run es)"
  by (induction es rule: rev_induct) (simp_all add: ok_init ok_step)

lemma all_keep_snoc: "all_keep k v s (es @ [e]) \<longleftrightarrow> all_keep k v s es \<and> keeps k v (fold step es s) e"
  by (induction es arbitrary: s) auto

lemma lookup_run:
  "lookup (run es) k = Some v \<longleftrightarrow>
     (\<exists>xs e ys. es = xs @ e # ys \<and> stores (run xs) e = Some (k, v) \<and> all_keep k v (run (xs @ [e])) ys)"
proof (induction es rule: rev_induct)
  case (snoc e es)
  show ?case
  proof (cases "\<exists>w. stores (run es) e = Some (k, w)")
    case True
    then obtain w where w: "stores (run es) e = Some (k, w)" by blast
    have l: "lookup (run (es @ [e])) k = Some w" using lookup_stored [OF ok_run w] by simp
    show ?thesis
    proof
      assume "lookup (run (es @ [e])) k = Some v"
      then show "\<exists>xs f ys. es @ [e] = xs @ f # ys \<and> stores (run xs) f = Some (k, v) \<and>
          all_keep k v (run (xs @ [f])) ys"
        using l w by (intro exI [of _ es] exI [of _ e] exI [of _ "[]"]) simp
    next
      assume "\<exists>xs f ys. es @ [e] = xs @ f # ys \<and> stores (run xs) f = Some (k, v) \<and>
          all_keep k v (run (xs @ [f])) ys"
      then obtain xs f ys where s: "es @ [e] = xs @ f # ys" "stores (run xs) f = Some (k, v)"
        "all_keep k v (run (xs @ [f])) ys" by blast
      show "lookup (run (es @ [e])) k = Some v"
      proof (cases ys rule: rev_cases)
        case Nil
        then show ?thesis using s(1,2) l w by simp
      next
        case (snoc zs z)
        then have z: "es = xs @ f # zs" "z = e" using s(1) by simp_all
        have "keeps k v (run es) e"
          using s(3) all_keep_snoc [of k v "run (xs @ [f])" zs z] z snoc by (simp add: run_def)
        then show ?thesis using w by (simp add: keeps_def)
      qed
    qed
  next
    case False
    then have "lookup (run (es @ [e])) k = Some v \<longleftrightarrow> lookup (run es) k = Some v \<and> keeps k v (run es) e"
      using lookup_other [OF ok_run, of es e k v] by (auto simp: keeps_def)
    also have "\<dots> \<longleftrightarrow> (\<exists>xs f ys. es = xs @ f # ys \<and> stores (run xs) f = Some (k, v) \<and>
        all_keep k v (run (xs @ [f])) (ys @ [e]))"
    proof -
      have "fold step ys (run (xs @ [f])) = run es" if "es = xs @ f # ys" for xs f ys
        using that by (simp add: run_def)
      then show ?thesis unfolding snoc all_keep_snoc by metis
    qed
    also have "\<dots> \<longleftrightarrow> (\<exists>xs f ys. es @ [e] = xs @ f # ys \<and> stores (run xs) f = Some (k, v) \<and>
        all_keep k v (run (xs @ [f])) ys)"
    proof
      assume "\<exists>xs f ys. es = xs @ f # ys \<and> stores (run xs) f = Some (k, v) \<and>
          all_keep k v (run (xs @ [f])) (ys @ [e])"
      then obtain xs f ys where s: "es = xs @ f # ys" "stores (run xs) f = Some (k, v)"
        "all_keep k v (run (xs @ [f])) (ys @ [e])" by blast
      then show "\<exists>xs f ys. es @ [e] = xs @ f # ys \<and> stores (run xs) f = Some (k, v) \<and>
          all_keep k v (run (xs @ [f])) ys"
        by (intro exI [of _ xs] exI [of _ f] exI [of _ "ys @ [e]"]) simp
    next
      assume "\<exists>xs f ys. es @ [e] = xs @ f # ys \<and> stores (run xs) f = Some (k, v) \<and>
          all_keep k v (run (xs @ [f])) ys"
      then obtain xs f ys where s: "es @ [e] = xs @ f # ys" "stores (run xs) f = Some (k, v)"
        "all_keep k v (run (xs @ [f])) ys" by blast
      show "\<exists>xs f ys. es = xs @ f # ys \<and> stores (run xs) f = Some (k, v) \<and>
          all_keep k v (run (xs @ [f])) (ys @ [e])"
      proof (cases ys rule: rev_cases)
        case Nil
        then show ?thesis using s(1,2) False by simp
      next
        case (snoc zs z)
        then show ?thesis using s by (intro exI [of _ xs] exI [of _ f] exI [of _ zs]) simp
      qed
    qed
    finally show ?thesis .
  qed
qed (simp add: lookup_init)

end

section \<open>The operations as events\<close>

datatype auth_event =
    CreateTicket string int int
  | RedeemTicket string int string
  | UiRequest int request_headers
  | MemberLogin string int int string
  | MemberRequest int request_headers

fun auth_step :: "auth_event \<Rightarrow> auth_state \<Rightarrow> auth_state" where
  "auth_step (CreateTicket random t t') st = snd (create_ui_ticket random t t' st)"
| "auth_step (RedeemTicket random t ticket) st = snd (redeem_ui_ticket random t ticket st)"
| "auth_step (UiRequest t headers) st = snd (check_headers t headers st)"
| "auth_step (MemberLogin random t t' name) st = snd (create_member_session random t t' name st)"
| "auth_step (MemberRequest t headers) st = snd (check_member_session t headers st)"

definition auth_ok :: "auth_state \<Rightarrow> bool" where
  "auth_ok st \<longleftrightarrow> bt_ok (ui_tickets st) \<and> bt_ok (ui_sessions st) \<and> bt_ok (member_sessions st)"

lemma bt_ok_filter: "bt_ok m \<Longrightarrow> bt_ok (filter P m)"
proof (induction m)
  case (Cons kv m)
  then show ?case by (cases kv) auto
qed simp

lemma bt_get_filter: "bt_ok m \<Longrightarrow> bt_get (filter (\<lambda>(_, v). P v) m) k = Some v \<longleftrightarrow> bt_get m k = Some v \<and> P v"
proof (induction m)
  case (Cons kv m)
  obtain k' v' where kv: "kv = (k', v')" by (cases kv)
  show ?case
  proof (cases "k = k'")
    case True
    then have "k \<notin> fst ` set m" using Cons.prems kv by auto
    then have "bt_get m k = None" by (rule bt_get_notin)
    then show ?thesis using Cons kv True by auto
  qed (use Cons kv in auto)
qed simp

lemma auth_prune_ok: "auth_ok st \<Longrightarrow> auth_ok (ui_prune now st)" "auth_ok st \<Longrightarrow> auth_ok (member_prune now st)"
  by (auto simp: auth_ok_def ui_prune_def member_prune_def bt_ok_filter)

lemma auth_step_ok: "auth_ok st \<Longrightarrow> auth_ok (auth_step e st)"
proof (cases e)
  case (RedeemTicket random t ticket)
  assume "auth_ok st"
  then have "auth_ok (ui_prune t st)" by (rule auth_prune_ok)
  then show ?thesis
    by (auto simp: RedeemTicket redeem_ui_ticket_def auth_ok_def Let_def bt_ok_insert bt_ok_remove
        split: option.split)
qed (use auth_prune_ok in \<open>auto simp: create_ui_ticket_def create_member_session_def check_headers_def
       check_ui_session_def check_member_session_def auth_ok_def Let_def bt_ok_insert split: option.split\<close>)

text \<open>The events as the three stores see them.\<close>

definition ticket_expiry :: "int \<Rightarrow> int" where "ticket_expiry t = t + seconds UI_TICKET_TTL_SECONDS"

definition session_expiry :: "int \<Rightarrow> int" where "session_expiry t = t + seconds UI_SESSION_TTL_SECONDS"

fun ticket_stores :: "auth_state \<Rightarrow> auth_event \<Rightarrow> (string \<times> int) option" where
  "ticket_stores st (CreateTicket random t t') = Some (generate_token random, ticket_expiry t)"
| "ticket_stores st _ = None"

fun ticket_drops :: "auth_event \<Rightarrow> string \<Rightarrow> bool" where
  "ticket_drops (RedeemTicket random t ticket) k \<longleftrightarrow> ticket = k"
| "ticket_drops _ k \<longleftrightarrow> False"

fun session_stores :: "auth_state \<Rightarrow> auth_event \<Rightarrow> (string \<times> int) option" where
  "session_stores st (RedeemTicket random t ticket) =
     map_option (\<lambda>s. (s, session_expiry t)) (fst (redeem_ui_ticket random t ticket st))"
| "session_stores st _ = None"

fun ui_prunes :: "auth_state \<Rightarrow> auth_event \<Rightarrow> int list" where
  "ui_prunes st (CreateTicket random t t') = [t']"
| "ui_prunes st (RedeemTicket random t ticket) = [t]"
| "ui_prunes st (UiRequest t headers) =
     (if \<not> check st headers \<and> cookie_value headers UI_SESSION_COOKIE \<noteq> None then [t] else [])"
| "ui_prunes st _ = []"

fun member_stores :: "auth_state \<Rightarrow> auth_event \<Rightarrow> (string \<times> member_session) option" where
  "member_stores st (MemberLogin random t t' name) =
     Some (generate_token random,
       \<lparr>ms_member_name = name, ms_expires_at = t + seconds MEMBER_SESSION_TTL_SECONDS\<rparr>)"
| "member_stores st _ = None"

fun member_prunes :: "auth_state \<Rightarrow> auth_event \<Rightarrow> int list" where
  "member_prunes st (MemberLogin random t t' name) = [t']"
| "member_prunes st (MemberRequest t headers) =
     (if cookie_value headers MEMBER_SESSION_COOKIE \<noteq> None then [t] else [])"
| "member_prunes st _ = []"

lemma ui_prune_get:
  "auth_ok st \<Longrightarrow> bt_get (ui_tickets (ui_prune t st)) k = Some v \<longleftrightarrow> bt_get (ui_tickets st) k = Some v \<and> t < v"
  "auth_ok st \<Longrightarrow> bt_get (ui_sessions (ui_prune t st)) k = Some v \<longleftrightarrow> bt_get (ui_sessions st) k = Some v \<and> t < v"
  by (simp_all add: ui_prune_def auth_ok_def bt_get_filter)

lemma member_prune_get:
  "auth_ok st \<Longrightarrow> bt_get (member_sessions (member_prune t st)) k = Some v \<longleftrightarrow>
     bt_get (member_sessions st) k = Some v \<and> t < ms_expires_at v"
  by (simp add: member_prune_def auth_ok_def bt_get_filter)

lemma prune_fields [simp]:
  "member_sessions (ui_prune t st) = member_sessions st" "as_token (ui_prune t st) = as_token st"
  "ui_tickets (member_prune t st) = ui_tickets st" "ui_sessions (member_prune t st) = ui_sessions st"
  "as_token (member_prune t st) = as_token st"
  by (simp_all add: ui_prune_def member_prune_def)

lemma auth_ok_new: "auth_ok (auth_new token)"
  by (simp add: auth_ok_def auth_new_def)

text \<open>A redemption, by cases.\<close>

lemma redeem_cases:
  assumes "auth_ok st"
  shows "redeem_ui_ticket random t ticket st =
    (let p = ui_prune t st
     in case bt_get (ui_tickets st) ticket of
          None \<Rightarrow> (None, p)
        | Some e \<Rightarrow>
            if t < e
            then (Some (generate_token random),
              p\<lparr>ui_tickets := bt_remove ticket (ui_tickets p),
                ui_sessions := bt_insert (generate_token random) (session_expiry t) (ui_sessions p)\<rparr>)
            else (None, p))"
proof (cases "bt_get (ui_tickets (ui_prune t st)) ticket")
  case None
  then have "bt_get (ui_tickets st) ticket = Some e \<Longrightarrow> \<not> t < e" for e
    using ui_prune_get(1) [OF assms, of t ticket] by auto
  then show ?thesis using None by (auto simp: redeem_ui_ticket_def Let_def split: option.split)
next
  case (Some e)
  then have "bt_get (ui_tickets st) ticket = Some e" "t < e"
    using ui_prune_get(1) [OF assms, of t ticket e] by auto
  then show ?thesis using Some by (simp add: redeem_ui_ticket_def Let_def session_expiry_def)
qed

interpretation ticket_store: expiring_store
  "\<lambda>st. bt_get (ui_tickets st)" auth_step "auth_new token" auth_ok ticket_stores ticket_drops ui_prunes "\<lambda>e. e"
proof unfold_locales
  fix s :: auth_state and e k v
  assume ok: "auth_ok s"
  note prune = ui_prune_get(1) [OF ok]
  show "bt_get (ui_tickets (auth_step e s)) k = Some v" if "ticket_stores s e = Some (k, v)"
    using that by (cases e) (auto simp: create_ui_ticket_def Let_def bt_get_insert ticket_expiry_def)
  show "bt_get (ui_tickets (auth_step e s)) k = Some v \<longleftrightarrow>
      bt_get (ui_tickets s) k = Some v \<and> \<not> ticket_drops e k \<and> list_all (\<lambda>t. t < v) (ui_prunes s e)"
    if "\<And>v. ticket_stores s e \<noteq> Some (k, v)"
  proof (cases e)
    case (RedeemTicket random t ticket)
    have b: "bt_ok (ui_tickets (ui_prune t s))" using auth_prune_ok(1) [OF ok] by (simp add: auth_ok_def)
    show ?thesis
      using redeem_cases [OF ok, of random t ticket] prune [of t] b
      by (auto simp: RedeemTicket Let_def bt_get_remove split: option.split)
  qed (use that prune in \<open>auto simp: create_ui_ticket_def create_member_session_def check_headers_def
      check_ui_session_def check_member_session_def Let_def bt_get_insert split: option.split\<close>)
qed (simp_all add: auth_ok_new auth_step_ok, simp add: auth_new_def)

interpretation session_store: expiring_store
  "\<lambda>st. bt_get (ui_sessions st)" auth_step "auth_new token" auth_ok session_stores "\<lambda>_ _. False" ui_prunes "\<lambda>e. e"
proof unfold_locales
  fix s :: auth_state and e k v
  assume ok: "auth_ok s"
  note prune = ui_prune_get(2) [OF ok]
  show "bt_get (ui_sessions (auth_step e s)) k = Some v" if "session_stores s e = Some (k, v)"
    using that redeem_cases [OF ok]
    by (cases e) (auto simp: Let_def bt_get_insert split: option.splits if_splits)
  show "bt_get (ui_sessions (auth_step e s)) k = Some v \<longleftrightarrow>
      bt_get (ui_sessions s) k = Some v \<and> \<not> False \<and> list_all (\<lambda>t. t < v) (ui_prunes s e)"
    if other: "\<And>v. session_stores s e \<noteq> Some (k, v)"
  proof (cases e)
    case (RedeemTicket random t ticket)
    show ?thesis
      using redeem_cases [OF ok, of random t ticket] prune [of t] other
      by (auto simp: RedeemTicket Let_def bt_get_insert split: option.splits if_splits)
  qed (use prune in \<open>auto simp: create_ui_ticket_def create_member_session_def check_headers_def
      check_ui_session_def check_member_session_def Let_def split: option.split\<close>)
qed (simp_all add: auth_ok_new auth_step_ok, simp add: auth_new_def)

interpretation login_store: expiring_store
  "\<lambda>st. bt_get (member_sessions st)" auth_step "auth_new token" auth_ok member_stores "\<lambda>_ _. False"
    member_prunes ms_expires_at
proof unfold_locales
  fix s :: auth_state and e k v
  assume ok: "auth_ok s"
  note prune = member_prune_get [OF ok]
  show "bt_get (member_sessions (auth_step e s)) k = Some v" if "member_stores s e = Some (k, v)"
    using that by (cases e) (auto simp: create_member_session_def Let_def bt_get_insert)
  show "bt_get (member_sessions (auth_step e s)) k = Some v \<longleftrightarrow>
      bt_get (member_sessions s) k = Some v \<and> \<not> False \<and>
        list_all (\<lambda>t. t < ms_expires_at v) (member_prunes s e)"
    if "\<And>v. member_stores s e \<noteq> Some (k, v)"
    using that prune
    by (cases e) (auto simp: create_ui_ticket_def create_member_session_def redeem_ui_ticket_def
        check_headers_def check_ui_session_def check_member_session_def Let_def bt_get_insert split: option.split)
qed (simp_all add: auth_ok_new auth_step_ok, simp add: auth_new_def)

definition auth_run :: "string \<Rightarrow> auth_event list \<Rightarrow> auth_state" where
  "auth_run token es = fold auth_step es (auth_new token)"

lemma auth_run_stores:
  "ticket_store.run token es = auth_run token es" "session_store.run token es = auth_run token es"
  "login_store.run token es = auth_run token es"
  by (simp_all add: ticket_store.run_def session_store.run_def login_store.run_def auth_run_def)

section \<open>Properties\<close>

fun event_times :: "auth_event \<Rightarrow> int list" where
  "event_times (CreateTicket random t t') = [t, t']"
| "event_times (RedeemTicket random t ticket) = [t]"
| "event_times (UiRequest t headers) = [t]"
| "event_times (MemberLogin random t t' name) = [t, t']"
| "event_times (MemberRequest t headers) = [t]"

fun names_ticket :: "string \<Rightarrow> auth_event \<Rightarrow> bool" where
  "names_ticket k (CreateTicket random t t') \<longleftrightarrow> generate_token random = k"
| "names_ticket k (RedeemTicket random t ticket) \<longleftrightarrow> ticket = k"
| "names_ticket k _ \<longleftrightarrow> False"

lemma auth_ok_run: "auth_ok (auth_run token es)"
  using ticket_store.ok_run by (simp add: auth_run_stores)

lemma redeem_succeeds_iff:
  "auth_ok st \<Longrightarrow> fst (redeem_ui_ticket random now k st) \<noteq> None \<longleftrightarrow>
     (\<exists>e. bt_get (ui_tickets st) k = Some e \<and> now < e)"
  by (auto simp: redeem_cases Let_def split: option.split)

lemma ticket_keeps_names: "ticket_store.keeps k v st e \<Longrightarrow> \<not> names_ticket k e"
  by (cases e) (auto simp: ticket_store.keeps_def)

lemma ticket_all_keep_names: "ticket_store.all_keep k v st ys \<Longrightarrow> list_all (\<lambda>e. \<not> names_ticket k e) ys"
  by (induction ys arbitrary: st) (auto dest: ticket_keeps_names)

lemma ticket_all_keep:
  "list_all (\<lambda>e. list_all (\<lambda>t. t \<le> now) (event_times e)) ys \<Longrightarrow> now < v \<Longrightarrow>
     list_all (\<lambda>e. \<not> names_ticket k e) ys \<Longrightarrow> ticket_store.all_keep k v st ys"
proof (induction ys arbitrary: st)
  case (Cons e ys)
  have "ticket_store.keeps k v st e"
    using Cons.prems by (cases e) (auto simp: ticket_store.keeps_def)
  then show ?case using Cons by simp
qed simp

lemma ticket_created:
  assumes "bt_get (ui_tickets (auth_run token es)) k = Some v"
  shows "\<exists>xs r t t' ys. es = xs @ CreateTicket r t t' # ys \<and> generate_token r = k \<and> v = ticket_expiry t
    \<and> list_all (\<lambda>e. \<not> names_ticket k e) ys"
proof -
  obtain xs e ys where s: "es = xs @ e # ys" "ticket_stores (auth_run token xs) e = Some (k, v)"
    "ticket_store.all_keep k v (auth_run token (xs @ [e])) ys"
    using ticket_store.lookup_run [of token es k v] assms unfolding auth_run_stores by blast
  then obtain r t t' where "e = CreateTicket r t t'" "generate_token r = k" "v = ticket_expiry t"
    by (cases e) auto
  then show ?thesis using s(1) ticket_all_keep_names [OF s(3)] by blast
qed

text \<open>
  Claim C18. A ticket opens one session, once: after any history of the credential store, with no
  reading of the clock in it later than now, redeeming a ticket succeeds exactly when it was created
  less than a minute ago and has not been presented, nor created again, since.
\<close>

theorem ui_ticket_once:
  assumes "list_all (\<lambda>e. list_all (\<lambda>t. t \<le> now) (event_times e)) es"
  shows "fst (redeem_ui_ticket random now k (auth_run token es)) \<noteq> None \<longleftrightarrow>
    (\<exists>xs r t t' ys. es = xs @ CreateTicket r t t' # ys \<and> generate_token r = k
      \<and> now < t + 60 * 10 ^ 9 \<and> list_all (\<lambda>e. \<not> names_ticket k e) ys)"
proof -
  have expiry: "ticket_expiry t = t + 60 * 10 ^ 9" for t
    by (simp add: ticket_expiry_def seconds_def UI_TICKET_TTL_SECONDS_def)
  show ?thesis
  proof
    assume "fst (redeem_ui_ticket random now k (auth_run token es)) \<noteq> None"
    then obtain v where "bt_get (ui_tickets (auth_run token es)) k = Some v" "now < v"
      using redeem_succeeds_iff [OF auth_ok_run] by blast
    then show "\<exists>xs r t t' ys. es = xs @ CreateTicket r t t' # ys \<and> generate_token r = k
      \<and> now < t + 60 * 10 ^ 9 \<and> list_all (\<lambda>e. \<not> names_ticket k e) ys"
      using ticket_created expiry by metis
  next
    assume "\<exists>xs r t t' ys. es = xs @ CreateTicket r t t' # ys \<and> generate_token r = k
      \<and> now < t + 60 * 10 ^ 9 \<and> list_all (\<lambda>e. \<not> names_ticket k e) ys"
    then obtain xs r t t' ys where s: "es = xs @ CreateTicket r t t' # ys" "generate_token r = k"
      "now < ticket_expiry t" "list_all (\<lambda>e. \<not> names_ticket k e) ys"
      unfolding expiry by blast
    have "list_all (\<lambda>e. list_all (\<lambda>t. t \<le> now) (event_times e)) ys" using assms s(1) by simp
    then have "ticket_store.all_keep k (ticket_expiry t) (auth_run token (xs @ [CreateTicket r t t'])) ys"
      using s(3,4) by (intro ticket_all_keep)
    moreover have "ticket_stores (auth_run token xs) (CreateTicket r t t') = Some (k, ticket_expiry t)"
      using s(2) by simp
    ultimately have "bt_get (ui_tickets (auth_run token es)) k = Some (ticket_expiry t)"
      using ticket_store.lookup_run [of token es k "ticket_expiry t"] s(1) unfolding auth_run_stores by blast
    then show "fst (redeem_ui_ticket random now k (auth_run token es)) \<noteq> None"
      using redeem_succeeds_iff [OF auth_ok_run] s(3) by blast
  qed
qed

theorem ui_ticket_once_witness:
  "fst (redeem_ui_ticket ''s'' 30 (generate_token ''r'') (auth_run ''token'' [CreateTicket ''r'' 10 11])) \<noteq> None
    \<and> fst (redeem_ui_ticket ''s'' 30 (generate_token ''r'')
        (auth_run ''token'' [CreateTicket ''r'' 10 11, RedeemTicket ''q'' 20 (generate_token ''r'')])) = None"
proof -
  have "fst (redeem_ui_ticket ''s'' 30 (generate_token ''r'') (auth_run ''token'' [CreateTicket ''r'' 10 11])) \<noteq> None"
    by (subst ui_ticket_once) (auto intro: exI [of _ "[]"])
  moreover have "fst (redeem_ui_ticket ''s'' 30 (generate_token ''r'')
        (auth_run ''token'' [CreateTicket ''r'' 10 11, RedeemTicket ''q'' 20 (generate_token ''r'')])) = None"
    using ui_ticket_once [of 30 "[CreateTicket ''r'' 10 11, RedeemTicket ''q'' 20 (generate_token ''r'')]"
        "''s''" "generate_token ''r''" "''token''"]
    by (auto simp: Cons_eq_append_conv)
  ultimately show ?thesis by blast
qed

text \<open>
  Claim C19. A session of the user interface has a history: when a request is let in by its cookie, the
  session was opened less than twelve hours ago by redeeming a ticket, which was less than a minute
  old then and had not been presented since it was created. Nothing is assumed of the clock.
\<close>

theorem ui_session_provenance:
  assumes "fst (check_ui_session now headers (auth_run token es))"
  shows "\<exists>ws r0 t0 t0' zs k r t ys.
    es = ws @ CreateTicket r0 t0 t0' # zs @ RedeemTicket r t k # ys
    \<and> generate_token r0 = k \<and> list_all (\<lambda>e. \<not> names_ticket k e) zs \<and> t < t0 + 60 * 10 ^ 9
    \<and> cookie_value headers UI_SESSION_COOKIE = Some (generate_token r) \<and> now < t + 43200 * 10 ^ 9"
proof -
  obtain s v where c: "cookie_value headers UI_SESSION_COOKIE = Some s"
    "bt_get (ui_sessions (auth_run token es)) s = Some v" "now < v"
    using assms ui_prune_get(2) [OF auth_ok_run]
    by (auto simp: check_ui_session_def Let_def split: option.splits)
  then obtain xs e ys where s: "es = xs @ e # ys" "session_stores (auth_run token xs) e = Some (s, v)"
    using session_store.lookup_run [of token es s v] unfolding auth_run_stores by blast
  then obtain r t k where e: "e = RedeemTicket r t k" "v = session_expiry t"
    "fst (redeem_ui_ticket r t k (auth_run token xs)) = Some s"
    by (cases e) auto
  then obtain u where u: "bt_get (ui_tickets (auth_run token xs)) k = Some u" "t < u"
    using redeem_succeeds_iff [OF auth_ok_run, of r t k token xs] by auto
  then obtain ws r0 t0 t0' zs where w: "xs = ws @ CreateTicket r0 t0 t0' # zs" "generate_token r0 = k"
    "u = ticket_expiry t0" "list_all (\<lambda>e. \<not> names_ticket k e) zs"
    using ticket_created [OF u(1)] by blast
  have "s = generate_token r"
    using e(3) redeem_cases [OF auth_ok_run, of r t k token xs] by (auto simp: Let_def split: option.splits if_splits)
  moreover have "t < t0 + 60 * 10 ^ 9" "now < t + 43200 * 10 ^ 9"
    using u(2) w(3) c(3) e(2)
    by (simp_all add: ticket_expiry_def session_expiry_def seconds_def UI_TICKET_TTL_SECONDS_def
        UI_SESSION_TTL_SECONDS_def)
  ultimately show ?thesis using s(1) e(1) w(1,2,4) c(1)
    by (intro exI [of _ ws] exI [of _ r0] exI [of _ t0] exI [of _ t0'] exI [of _ zs] exI [of _ k]
        exI [of _ r] exI [of _ t] exI [of _ ys]) simp
qed

text \<open>A ticket is created, redeemed, and its session presented as a cookie.\<close>

definition sample_auth_events :: "auth_event list" where
  "sample_auth_events = [CreateTicket ''r'' 10 11, RedeemTicket ''q'' 20 (generate_token ''r'')]"

definition sample_ui_headers :: request_headers where
  "sample_ui_headers = \<lparr>rh_authorization = None, rh_cookie = Some ''a=b; orgasmic_ui_session=71''\<rparr>"

lemma sample_ui_session: "fst (check_ui_session 30 sample_ui_headers (auth_run ''token'' sample_auth_events))"
  by code_simp

theorem ui_session_provenance_witness:
  "\<exists>ws r0 t0 t0' zs k r t ys. sample_auth_events = ws @ CreateTicket r0 t0 t0' # zs @ RedeemTicket r t k # ys
    \<and> cookie_value sample_ui_headers UI_SESSION_COOKIE = Some (generate_token r)"
  using ui_session_provenance [OF sample_ui_session] by blast

text \<open>What a request that is not the admin's resolves to.\<close>

lemma found_member_Some: "found_member r = Some i \<longleftrightarrow> (\<exists>e. r = Inr (Some e) \<and> i = member_identity e)"
  by (auto simp: found_member_def split: sum.splits option.splits)

lemma find_member_Some:
  "found_member (find_member_by_name path name file) = Some i \<Longrightarrow>
     \<exists>e es. i = member_identity e \<and> read_members path file = Inr es \<and> e \<in> set es \<and> me_name e = name"
  "found_member (find_member_by_token sha256 path token file) = Some i \<Longrightarrow>
     \<exists>e es. i = member_identity e \<and> read_members path file = Inr es \<and> e \<in> set es
       \<and> me_token_hash e = sha256_hex sha256 (trim token)"
  by (auto simp: found_member_Some find_member_by_name_def find_member_by_token_def try_res_Inr_iff Let_def dest!: find_SomeD)

lemma login_stored:
  assumes "bt_get (member_sessions (auth_run token es)) k = Some s"
  shows "\<exists>xs r t t' ys. es = xs @ MemberLogin r t t' (ms_member_name s) # ys \<and> generate_token r = k
    \<and> ms_expires_at s = t + 2592000 * 10 ^ 9"
proof -
  obtain xs e ys where s: "es = xs @ e # ys" "member_stores (auth_run token xs) e = Some (k, s)"
    using login_store.lookup_run [of token es k s] assms unfolding auth_run_stores by blast
  then show ?thesis
    by (cases e) (fastforce simp: seconds_def MEMBER_SESSION_TTL_SECONDS_def)+
qed

lemma auth_step_token: "as_token (auth_step e st) = as_token st"
  by (cases e) (auto simp: create_ui_ticket_def redeem_ui_ticket_def check_headers_def check_ui_session_def
      create_member_session_def check_member_session_def Let_def split: option.split)

lemma check_headers_store: "\<exists>e. snd (check_headers now headers st) = auth_step e st"
  by (rule exI [of _ "UiRequest now headers"]) simp

text \<open>
  Claim C16. A member's identity is always current: whatever sessions are open, a request resolves to a
  member only when the members file read for this very request has that member, with exactly the
  grants and actions the file gives, and the request bears a session opened for the name less than
  thirty days ago or a token whose digest the file holds for the member.
\<close>

theorem member_identity_is_current:
  assumes "fst (resolve_identity sha256 now now' headers path file (auth_run token es)) = Some i"
    and "i \<noteq> Admin"
  shows "\<exists>members e. read_members path file = Inr members \<and> e \<in> set members
    \<and> i = Member (me_name e) (me_grants e) (me_actions e)
    \<and> ((\<exists>xs r t t' ys. es = xs @ MemberLogin r t t' (me_name e) # ys \<and> now' < t + 2592000 * 10 ^ 9
          \<and> cookie_value headers MEMBER_SESSION_COOKIE = Some (generate_token r))
      \<or> (\<exists>presented. rh_authorization headers = Some (''Bearer '' @ presented)
          \<and> me_token_hash e = sha256_hex sha256 (trim presented)))"
proof -
  let ?st = "snd (check_headers now headers (auth_run token es))"
  have st: "?st = auth_run token (es @ [UiRequest now headers])" by (simp add: auth_run_def)
  have not_admin: "\<not> fst (check_headers now headers (auth_run token es))"
    using assms by (auto simp: resolve_identity_def Let_def case_prod_unfold split: if_splits)
  show ?thesis
  proof (cases "fst (check_member_session now' headers ?st)")
    case (Some name)
    then have "found_member (find_member_by_name path name file) = Some i"
      using assms(1) not_admin by (simp add: resolve_identity_def Let_def case_prod_unfold)
    then obtain e members where e: "i = member_identity e" "read_members path file = Inr members"
      "e \<in> set members" "me_name e = name"
      using find_member_Some(1) by blast
    obtain k s where k: "cookie_value headers MEMBER_SESSION_COOKIE = Some k" "ms_member_name s = name"
      "bt_get (member_sessions ?st) k = Some s" "now' < ms_expires_at s"
      using Some member_prune_get [OF auth_ok_run] unfolding st
      by (auto simp: check_member_session_def Let_def split: option.splits)
    obtain xs r t t' ys where "es @ [UiRequest now headers] = xs @ MemberLogin r t t' name # ys"
      "generate_token r = k" "ms_expires_at s = t + 2592000 * 10 ^ 9"
      using login_stored [OF k(3) [unfolded st]] k(2) by blast
    then have "es = xs @ MemberLogin r t t' name # butlast ys" "generate_token r = k" "now' < t + 2592000 * 10 ^ 9"
      using k(4) by (cases ys rule: rev_cases; simp)+
    then have "\<exists>xs r t t' ys. es = xs @ MemberLogin r t t' (me_name e) # ys \<and> now' < t + 2592000 * 10 ^ 9
        \<and> cookie_value headers MEMBER_SESSION_COOKIE = Some (generate_token r)"
      using k(1) e(4) by blast
    then show ?thesis using e(1-3) unfolding member_identity_def by blast
  next
    case None
    then obtain raw presented where p: "rh_authorization headers = Some raw"
      "strip_prefix raw ''Bearer '' = Some presented"
      "found_member (find_member_by_token sha256 path presented file) = Some i"
      using assms(1) not_admin
      by (auto simp: resolve_identity_def Let_def case_prod_unfold split: option.splits)
    then obtain e members where e: "i = member_identity e" "read_members path file = Inr members"
      "e \<in> set members" "me_token_hash e = sha256_hex sha256 (trim presented)"
      using find_member_Some(2) by blast
    have "rh_authorization headers = Some (''Bearer '' @ presented)"
      using p(1,2) by (simp only: strip_prefix_Some_iff)
    then show ?thesis using e unfolding member_identity_def by blast
  qed
qed

text \<open>A member logs in and makes a request with the session.\<close>

definition sample_members :: "string option" where
  "sample_members = Some (render_members
     [\<lparr>me_name = ''alice'', me_token_hash = ''ab'', me_grants = [(''p'', ''viewer'')], me_actions = []\<rparr>])"

definition sample_member_headers :: request_headers where
  "sample_member_headers = \<lparr>rh_authorization = None, rh_cookie = Some ''orgasmic_member_session=72''\<rparr>"

lemma sample_members_read:
  "read_members path sample_members =
     Inr [\<lparr>me_name = ''alice'', me_token_hash = ''ab'', me_grants = [(''p'', ''viewer'')], me_actions = []\<rparr>]"
proof -
  have "word_ok w" if "w \<in> {''alice'', ''ab'', ''p'', ''viewer''}" for w
    using that by (auto intro!: ascii_word simp: ascii_ws_def)
  then show ?thesis
    unfolding read_members_def sample_members_def option.case
    by (intro rendered_members_read) (simp add: member_ok_def)
qed

lemma login_session_lookup:
  assumes "check_headers now headers (auth_run token [MemberLogin random t t' name]) =
      (False, auth_run token [MemberLogin random t t' name])"
    and "cookie_value headers MEMBER_SESSION_COOKIE = Some (generate_token random)"
    and "now' < t + 2592000 * 10 ^ 9"
  shows "fst (resolve_identity sha256 now now' headers path file (auth_run token [MemberLogin random t t' name])) =
    found_member (find_member_by_name path name file)"
proof -
  have "bt_get (member_sessions (auth_run token [MemberLogin random t t' name])) (generate_token random) =
      Some \<lparr>ms_member_name = name, ms_expires_at = t + 2592000 * 10 ^ 9\<rparr>"
    by (simp add: auth_run_def create_member_session_def Let_def bt_get_insert seconds_def
        MEMBER_SESSION_TTL_SECONDS_def)
  then have "bt_get (member_sessions (member_prune now' (auth_run token [MemberLogin random t t' name])))
      (generate_token random) = Some \<lparr>ms_member_name = name, ms_expires_at = t + 2592000 * 10 ^ 9\<rparr>"
    using member_prune_get [OF auth_ok_run] assms(3) by simp
  then show ?thesis
    using assms(1,2) by (simp add: resolve_identity_def check_member_session_def Let_def)
qed

lemma sample_login_headers:
  "check_headers now sample_member_headers (auth_run token es) = (False, auth_run token es)"
  "cookie_value sample_member_headers MEMBER_SESSION_COOKIE = Some (generate_token ''r'')"
proof -
  have "cookie_value sample_member_headers UI_SESSION_COOKIE = None" by code_simp
  then show "check_headers now sample_member_headers (auth_run token es) = (False, auth_run token es)"
    by (simp add: check_headers_def check_def check_ui_session_def sample_member_headers_def)
  show "cookie_value sample_member_headers MEMBER_SESSION_COOKIE = Some (generate_token ''r'')" by code_simp
qed

theorem member_identity_is_current_witness:
  "\<exists>members e. read_members ''members.org'' sample_members = Inr members \<and> e \<in> set members
    \<and> Member ''alice'' [(''p'', ''viewer'')] [] = Member (me_name e) (me_grants e) (me_actions e)"
proof -
  have "fst (resolve_identity (\<lambda>s. s) 20 20 sample_member_headers ''members.org'' sample_members
      (auth_run ''token'' [MemberLogin ''r'' 10 10 ''alice''])) = Some (Member ''alice'' [(''p'', ''viewer'')] [])"
    by (subst login_session_lookup [OF sample_login_headers])
      (simp_all add: find_member_by_name_def sample_members_read found_member_def member_identity_def)
  from member_identity_is_current [OF this] show ?thesis by blast
qed

text \<open>
  Claim C17. A revoked member is locked out with the next request: after any history of the members
  file that ends with the revocation of a name, no request resolves to that name, whatever sessions
  the store holds and whatever token is presented.
\<close>

theorem revoked_member_locked_out:
  assumes "\<forall>s. length (sha256 s) = 32" "list_all member_op_ok ops"
  shows "fst (resolve_identity sha256 now now' headers path
      (run_member_ops sha256 path (ops @ [RevokeMember name]) None) st) \<noteq> Some (Member name grants actions)"
proof
  let ?file = "run_member_ops sha256 path (ops @ [RevokeMember name]) None"
  let ?members = "fold (apply_member_op sha256) (ops @ [RevokeMember name]) []"
  assume r: "fst (resolve_identity sha256 now now' headers path ?file st) = Some (Member name grants actions)"
  have "\<forall>s. sha256 s \<noteq> []" using assms(1) by (metis list.size(3) zero_neq_numeral)
  then have "read_members path ?file = Inr ?members"
    using run_member_ops_hold [OF holds_empty, of sha256 "ops @ [RevokeMember name]"] assms(2)
    by (simp add: holds_def)
  moreover have "\<exists>e members. read_members path ?file = Inr members \<and> e \<in> set members \<and> me_name e = name"
  proof -
    have "found_member (find_member_by_name path n ?file) = Some (Member name grants actions) \<or>
        found_member (find_member_by_token sha256 path presented ?file) = Some (Member name grants actions)
        \<Longrightarrow> \<exists>e members. read_members path ?file = Inr members \<and> e \<in> set members \<and> me_name e = name" for n presented
      by (auto dest!: find_member_Some simp: member_identity_def)
    then show ?thesis
      using r by (auto simp: resolve_identity_def Let_def case_prod_unfold split: if_splits option.splits)
  qed
  ultimately show False by auto
qed

theorem revoked_member_locked_out_witness:
  "fst (resolve_identity (\<lambda>_. replicate 32 (CHR ''x'')) 20 20 sample_member_headers ''members.org''
      (run_member_ops (\<lambda>_. replicate 32 (CHR ''x'')) ''members.org''
        ([AddMember ''t'' ''alice'' [(''p'', ''viewer'')] []] @ [RevokeMember ''alice'']) None)
      (auth_run ''token'' [MemberLogin ''r'' 10 10 ''alice''])) \<noteq> Some (Member ''alice'' [(''p'', ''viewer'')] [])"
  by (rule revoked_member_locked_out) (simp_all add: rust_str_def is_cont_def)

text \<open>
  The sessions of a name survive its revocation, though: they are kept by name, and once the name is
  added again, with a new token, an old session is let in again.
\<close>

lemma session_outlives_revocation:
  "fst (resolve_identity (\<lambda>_. replicate 32 (CHR ''x'')) 20 20 sample_member_headers ''members.org''
      (run_member_ops (\<lambda>_. replicate 32 (CHR ''x'')) ''members.org''
        [AddMember ''t'' ''alice'' [(''p'', ''viewer'')] [], RevokeMember ''alice'',
         AddMember ''u'' ''alice'' [(''p'', ''editor'')] []] None)
      (auth_run ''token'' [MemberLogin ''r'' 10 10 ''alice''])) = Some (Member ''alice'' [(''p'', ''editor'')] [])"
proof -
  let ?sha = "\<lambda>_. replicate 32 (CHR ''x'')"
  let ?ops = "[AddMember ''t'' ''alice'' [(''p'', ''viewer'')] [], RevokeMember ''alice'',
    AddMember ''u'' ''alice'' [(''p'', ''editor'')] []]"
  have "list_all member_op_ok ?ops" by code_simp
  then have "read_members ''members.org'' (run_member_ops ?sha ''members.org'' ?ops None) =
      Inr (fold (apply_member_op ?sha) ?ops [])"
    using run_member_ops_hold [OF holds_empty, of ?sha ?ops] by (simp add: holds_def)
  moreover have "fold (apply_member_op ?sha) ?ops [] =
      [\<lparr>me_name = ''alice'', me_token_hash = hex_bytes (replicate 32 (CHR ''x'')),
         me_grants = [(''p'', ''editor'')], me_actions = []\<rparr>]"
    by code_simp
  ultimately show ?thesis
    by (subst login_session_lookup [OF sample_login_headers])
      (simp_all add: find_member_by_name_def found_member_def member_identity_def)
qed

end
