(* ===== verification/Plugins.thy ===== *)
theory Plugins
  imports Plugin_Manifest Auth
begin

text \<open>
  The plugin registry of the daemon, \<open>crates/orgasmic-daemon/src/plugins.rs\<close>: snapshots of the
  projects' active plugins, reconciled with the files, and the leases under which plugin commands
  act. The files are a record of what reading them answers at that moment; roots of projects are
  values of an ordered type, and so are signatures of the files. Fresh identifiers and the clock are
  arguments.
\<close>

section \<open>State\<close>

datatype registry_fault =
    FileUnreadable
  | WriteFailed
  | BadManifest plugin_error
  | DirectoryMismatch
  | ReservedByCore
  | TypeRefused nt_error
  | OwnershipChanged
  | CapabilitiesGrew
  | NotInstalled
  | ApproveFirst
  | PluginsCannotMint
  | PluginUnavailable
  | CapabilityDenied string
  | CommandRejected
  | TooManyLeases
  | ForeignCredential
  | SchemaMismatch string
  | NotADirectory

record project_plugins =
  pp_registry :: registry
  pp_active :: "(string \<times> plugin_manifest) list"
  pp_owners :: "(string \<times> descriptor) list"
  pp_errors :: "(string \<times> registry_fault) list"

record 'p run_lease =
  rl_token_hash :: string
  rl_root :: 'p
  rl_project :: string
  rl_manifest :: plugin_manifest
  rl_caller :: identity
  rl_expires :: int

record ('p, 's) cached =
  pc_signature :: "'s option"
  pc_revisions :: "(string \<times> string) list"
  pc_base :: registry
  pc_installed :: "(string \<times> plugin_manifest) list"
  pc_errors :: "(string \<times> registry_fault) list"
  pc_owners :: "(string \<times> descriptor) list"
  pc_projects :: "('p \<times> project_plugins) list"
  pc_leases :: "(string \<times> 'p run_lease) list"

text \<open>What the files answer: the stamps of the watched files, the node types of the home, the entries
  of the plugin directory (nothing when it cannot be listed) each with what reading its manifest
  answers, the ownership file, the activation file of every root, and whether writes go through.\<close>

record ('p, 's) plugin_files =
  fs_signature :: "'p list \<Rightarrow> registry_fault + 's"
  fs_base :: "nt_error + registry"
  fs_dirs :: "(registry_fault + string \<times> (plugin_error + plugin_manifest)) list option"
  fs_owners :: "registry_fault + (string \<times> descriptor) list"
  fs_activations :: "'p \<Rightarrow> registry_fault + (string \<times> plugin_activation) list"
  fs_revision :: "'s \<Rightarrow> string \<Rightarrow> string"
  fs_writes_owners :: bool
  fs_writes_activations :: "'p \<Rightarrow> bool"

section \<open>A snapshot\<close>

definition pp_owner :: "project_plugins \<Rightarrow> string \<Rightarrow> string option" where
  "pp_owner pp collection = map_option fst (find (\<lambda>(_, d). nt_collection d = collection) (pp_owners pp))"

definition pp_descriptor :: "project_plugins \<Rightarrow> string \<Rightarrow> descriptor option" where
  "pp_descriptor pp collection =
     (if (case pp_owner pp collection of None \<Rightarrow> False | Some i \<Rightarrow> bt_get (pp_active pp) i = None)
      then None else reg_descriptor (pp_registry pp) collection)"

definition header_line :: "string \<Rightarrow> string option" where
  "header_line source =
     find_map (\<lambda>line. strip_prefix line ''#+plugin: '')
       (takeWhile (\<lambda>line. \<not> starts_with line ''* '') (str_lines source))"

definition str_split_once :: "string \<Rightarrow> string \<Rightarrow> (string \<times> string) option" where
  "str_split_once s p =
     (case find_sub p s of None \<Rightarrow> None | Some i \<Rightarrow> Some (take i s, drop (i + length p) s))"

definition header_valid :: "string \<Rightarrow> plugin_manifest \<Rightarrow> string \<Rightarrow> bool" where
  "header_valid i manifest source \<longleftrightarrow>
     (case Option.bind (header_line source) (\<lambda>s. str_split_once s '' schema='') of
        None \<Rightarrow> False
      | Some (owner, schema) \<Rightarrow>
          owner = i \<and> (case parse_u32 schema of None \<Rightarrow> False | Some v \<Rightarrow> v \<in> set (pm_schema_accepts manifest)))"

definition check_write :: "project_plugins \<Rightarrow> string \<Rightarrow> string option \<Rightarrow> registry_fault + unit" where
  "check_write pp collection source =
     (case pp_owner pp collection of
        None \<Rightarrow> Inr ()
      | Some i \<Rightarrow>
          (case bt_get (pp_active pp) i of
             None \<Rightarrow> Inl PluginUnavailable
           | Some manifest \<Rightarrow>
               (case source of
                  None \<Rightarrow> Inr ()
                | Some s \<Rightarrow> if header_valid i manifest s then Inr () else Inl (SchemaMismatch i))))"

definition plugin_header :: "project_plugins \<Rightarrow> string \<Rightarrow> string option" where
  "plugin_header pp collection =
     Option.bind (pp_owner pp collection) (\<lambda>i.
       map_option (\<lambda>m. ''#+plugin: '' @ i @ '' schema='' @ show_nat (unat (pm_schema m)) @ [LF])
         (bt_get (pp_active pp) i))"

section \<open>Building a snapshot\<close>

definition register_fault :: "descriptor \<Rightarrow> bool \<Rightarrow> registry \<Rightarrow> registry_fault + registry" where
  "register_fault d replace r = map_sum TypeRefused id (register d replace r)"

record build_state =
  bs_registry :: registry
  bs_active :: "(string \<times> plugin_manifest) list"
  bs_errors :: "(string \<times> registry_fault) list"

text \<open>An owner whose plugin is installed and enabled: refused, or active.\<close>

definition activate_owner ::
  "string \<Rightarrow> descriptor \<Rightarrow> plugin_manifest \<Rightarrow> plugin_activation \<Rightarrow> build_state \<Rightarrow> registry_fault + build_state"
where
  "activate_owner i d manifest activation b =
     (if (case pm_node_type manifest of
            None \<Rightarrow> True
          | Some d' \<Rightarrow> nt_collection d' \<noteq> nt_collection d \<or> nt_id_prefix d' \<noteq> nt_id_prefix d)
      then Inr (b\<lparr>bs_errors := bt_insert i OwnershipChanged (bs_errors b)\<rparr>)
      else if \<not> set (pm_capabilities manifest) \<subseteq> set (pa_approved_capabilities activation)
      then Inr (b\<lparr>bs_errors := bt_insert i CapabilitiesGrew (bs_errors b)\<rparr>)
      else
        try_res
          (case pm_node_type manifest of
             Some d' \<Rightarrow> register_fault d' True (bs_registry b)
           | None \<Rightarrow> Inr (bs_registry b))
          (\<lambda>r. Inr (b\<lparr>bs_registry := r, bs_active := bt_insert i manifest (bs_active b)\<rparr>)))"

fun build_owners ::
  "(string \<times> plugin_manifest) list \<Rightarrow> (string \<times> plugin_activation) list \<Rightarrow> (string \<times> descriptor) list
    \<Rightarrow> build_state \<Rightarrow> registry_fault + build_state"
where
  "build_owners installed activations [] b = Inr b"
| "build_owners installed activations ((i, d) # owners) b =
     try_res (register_fault d False (bs_registry b)) (\<lambda>r.
     try_res
       (case (bt_get installed i, bt_get activations i) of
          (Some manifest, Some activation) \<Rightarrow>
            if pa_enabled activation then activate_owner i d manifest activation (b\<lparr>bs_registry := r\<rparr>)
            else Inr (b\<lparr>bs_registry := r\<rparr>)
        | _ \<Rightarrow> Inr (b\<lparr>bs_registry := r\<rparr>))
       (build_owners installed activations owners))"

definition activates_plain ::
  "(string \<times> descriptor) list \<Rightarrow> (string \<times> plugin_activation) list \<Rightarrow> string \<Rightarrow> plugin_manifest \<Rightarrow> bool" where
  "activates_plain owners activations i manifest \<longleftrightarrow>
     pm_node_type manifest = None \<and> bt_get owners i = None \<and>
     (case bt_get activations i of
        None \<Rightarrow> False
      | Some a \<Rightarrow> pa_enabled a \<and> set (pm_capabilities manifest) \<subseteq> set (pa_approved_capabilities a))"

definition build ::
  "('p, 's) plugin_files \<Rightarrow> ('p, 's) cached \<Rightarrow> 'p \<Rightarrow> registry_fault + project_plugins" where
  "build fs c root =
     (let (activations, errors) =
            (case fs_activations fs root of
               Inr a \<Rightarrow> (a, pc_errors c)
             | Inl e \<Rightarrow> ([], bt_insert ''activation'' e (pc_errors c)))
      in try_res
           (build_owners (pc_installed c) activations (pc_owners c)
             \<lparr>bs_registry = pc_base c, bs_active = [], bs_errors = errors\<rparr>)
           (\<lambda>b. Inr \<lparr>pp_registry = bs_registry b,
              pp_active = fold (\<lambda>(i, m) active.
                  if activates_plain (pc_owners c) activations i m then bt_insert i m active else active)
                (pc_installed c) (bs_active b),
              pp_owners = pc_owners c, pp_errors = bs_errors b\<rparr>))"

section \<open>Reconciliation\<close>

text \<open>\<open>reg_all\<close> registers the owners on a copy of the base, to see whether they still fit.\<close>

fun reg_all :: "descriptor list \<Rightarrow> registry \<Rightarrow> nt_error + registry" where
  "reg_all [] r = Inr r"
| "reg_all (d # ds) r = try_res (register d False r) (reg_all ds)"

definition admit_manifest ::
  "registry \<Rightarrow> string \<Rightarrow> plugin_error + plugin_manifest \<Rightarrow> registry_fault + plugin_manifest" where
  "admit_manifest base i r =
     try_res (map_sum BadManifest id (validate_plugin_id i)) (\<lambda>_.
     try_res (map_sum BadManifest id r) (\<lambda>manifest.
       if pm_id manifest \<noteq> i then Inl DirectoryMismatch
       else if reg_descriptor base i \<noteq> None then Inl ReservedByCore
       else Inr manifest))"

fun read_installed ::
  "registry \<Rightarrow> (registry_fault + string \<times> (plugin_error + plugin_manifest)) list
    \<Rightarrow> (string \<times> plugin_manifest) list \<Rightarrow> (string \<times> registry_fault) list
    \<Rightarrow> registry_fault + (string \<times> plugin_manifest) list \<times> (string \<times> registry_fault) list"
where
  "read_installed base [] installed errors = Inr (installed, errors)"
| "read_installed base (Inl e # entries) installed errors = Inl e"
| "read_installed base (Inr (i, r) # entries) installed errors =
     (if starts_with i ''.'' then read_installed base entries installed errors
      else case admit_manifest base i r of
        Inr manifest \<Rightarrow> read_installed base entries (bt_insert i manifest installed) errors
      | Inl e \<Rightarrow> read_installed base entries installed (bt_insert i e errors))"

text \<open>The snapshots are rebuilt one by one; an error leaves those before it.\<close>

fun rebuild ::
  "('p::linorder, 's) plugin_files \<Rightarrow> 'p list \<Rightarrow> ('p, 's) cached \<Rightarrow> (registry_fault + unit) \<times> ('p, 's) cached" where
  "rebuild fs [] c = (Inr (), c)"
| "rebuild fs (root # roots) c =
     (case build fs c root of
        Inl e \<Rightarrow> (Inl e, c)
      | Inr pp \<Rightarrow> rebuild fs roots (c\<lparr>pc_projects := bt_insert root pp (pc_projects c)\<rparr>))"

definition lease_live :: "int \<Rightarrow> ('p \<times> project_plugins) list \<Rightarrow> 'p run_lease \<Rightarrow> bool" where
  "lease_live now projects lease \<longleftrightarrow>
     now < rl_expires lease \<and>
     Option.bind (bt_get projects (rl_root lease)) (\<lambda>p. bt_get (pp_active p) (pm_id (rl_manifest lease)))
       = Some (rl_manifest lease)"

definition reconcile ::
  "('p::linorder, 's) plugin_files \<Rightarrow> bool \<Rightarrow> int \<Rightarrow> ('p, 's) cached \<Rightarrow> (registry_fault + bool) \<times> ('p, 's) cached"
where
  "reconcile fs force now c =
     (case fs_signature fs (map fst (pc_projects c)) of
        Inl e \<Rightarrow> (Inl e, c)
      | Inr signature \<Rightarrow>
          if \<not> force \<and> pc_signature c = Some signature then (Inr False, c)
          else
            (let (c, errors) =
                   (case try_res (fs_base fs) (\<lambda>base.
                           try_res (reg_all (map snd (pc_owners c)) base) (\<lambda>_. Inr base)) of
                      Inr base \<Rightarrow> (c\<lparr>pc_base := base\<rparr>, [])
                    | Inl e \<Rightarrow> (c, [(''legacy-descriptors'', TypeRefused e)]))
             in case read_installed (pc_base c) (case fs_dirs fs of None \<Rightarrow> [] | Some es \<Rightarrow> es) [] errors of
                  Inl e \<Rightarrow> (Inl e, c)
                | Inr (installed, errors) \<Rightarrow>
                    (let c = c\<lparr>pc_installed := installed, pc_errors := errors\<rparr>
                     in case fs_owners fs of
                          Inl e \<Rightarrow> (Inl e, c)
                        | Inr owners \<Rightarrow>
                            (let c = c\<lparr>pc_owners := owners\<rparr>
                             in case rebuild fs (map fst (pc_projects c)) c of
                                  (Inl e, c) \<Rightarrow> (Inl e, c)
                                | (Inr _, c) \<Rightarrow>
                                    (Inr True,
                                      c\<lparr>pc_leases := filter (\<lambda>(_, l). lease_live now (pc_projects c) l) (pc_leases c),
                                        pc_revisions :=
                                          map (\<lambda>(i, _). (i, fs_revision fs signature i)) (pc_installed c),
                                        pc_signature := Some signature\<rparr>)))))"

definition registry_new ::
  "('p::linorder, 's) plugin_files \<Rightarrow> int \<Rightarrow> registry_fault + ('p, 's) cached" where
  "registry_new fs now =
     try_res (map_sum TypeRefused id (fs_base fs)) (\<lambda>base.
     try_res (fs_owners fs) (\<lambda>owners.
       let (r, c) = reconcile fs True now
             \<lparr>pc_signature = None, pc_revisions = [], pc_base = base, pc_installed = [], pc_errors = [],
              pc_owners = owners, pc_projects = [], pc_leases = []\<rparr>
       in try_res r (\<lambda>_. Inr c)))"

definition project ::
  "('p::linorder, 's) plugin_files \<Rightarrow> 'p \<Rightarrow> ('p, 's) cached
    \<Rightarrow> (registry_fault + project_plugins) \<times> ('p, 's) cached"
where
  "project fs root c =
     (case bt_get (pc_projects c) root of
        Some snapshot \<Rightarrow> (Inr snapshot, c)
      | None \<Rightarrow>
          (case build fs c root of
             Inl e \<Rightarrow> (Inl e, c)
           | Inr snapshot \<Rightarrow> (Inr snapshot, c\<lparr>pc_projects := bt_insert root snapshot (pc_projects c)\<rparr>)))"

record plugin_status =
  ps_id :: string
  ps_manifest :: "plugin_manifest option"
  ps_enabled :: bool
  ps_error :: "registry_fault option"
  ps_revision :: string

definition plugin_list ::
  "('p::linorder, 's) plugin_files \<Rightarrow> 'p \<Rightarrow> ('p, 's) cached
    \<Rightarrow> (registry_fault + plugin_status list) \<times> ('p, 's) cached"
where
  "plugin_list fs root c =
     (let (r, c) = project fs root c
      in (try_res r (\<lambda>snapshot.
            let ids = fold bs_insert
                  (map fst (pc_installed c) @ map fst (pc_owners c) @ map fst (pp_errors snapshot)) []
            in Inr (map (\<lambda>i.
                 \<lparr>ps_id = i, ps_manifest = bt_get (pc_installed c) i,
                  ps_enabled = (bt_get (pp_active snapshot) i \<noteq> None),
                  ps_error = bt_get (pp_errors snapshot) i,
                  ps_revision = (case bt_get (pc_revisions c) i of None \<Rightarrow> [] | Some s \<Rightarrow> s)\<rparr>) ids)), c))"

section \<open>Leases\<close>

definition capability_action :: "string \<Rightarrow> action" where
  "capability_action capability =
     (if capability = ''nodes.write'' then NodesWrite
      else if capability = ''links.write'' then LinksWrite
      else if capability = ''attachments.write'' then AttachmentsWrite
      else if capability = ''links.read'' then LinksRead
      else if capability = ''attachments.read'' then AttachmentsRead
      else if capability = ''chat.read'' then ChatRead
      else if capability = ''chat.write'' then ChatWrite
      else GraphRead)"

fun require_all :: "identity \<Rightarrow> string \<Rightarrow> string list \<Rightarrow> registry_fault + unit" where
  "require_all caller prj [] = Inr ()"
| "require_all caller prj (c # cs) =
     try_res (map_sum CapabilityDenied id (require caller (Some prj) (capability_action c))) (\<lambda>_.
       require_all caller prj cs)"

text \<open>Two fresh identifiers: the lease and the token. The command resolves inside the plugin, or not.\<close>

definition issue ::
  "(string \<Rightarrow> string) \<Rightarrow> ('p::linorder, 's) plugin_files \<Rightarrow> bool \<Rightarrow> string \<Rightarrow> string \<Rightarrow> int
    \<Rightarrow> 'p \<Rightarrow> string \<Rightarrow> string \<Rightarrow> string \<Rightarrow> identity \<Rightarrow> ('p, 's) cached
    \<Rightarrow> (registry_fault + string \<times> string) \<times> ('p, 's) cached"
where
  "issue sha256 fs command_resolves uuid uuid' now root prj i command caller c =
     (case caller of
        Plugin _ _ _ _ \<Rightarrow> (Inl PluginsCannotMint, c)
      | _ \<Rightarrow>
          (let (r, c) = project fs root c
           in case r of
                Inl e \<Rightarrow> (Inl e, c)
              | Inr snapshot \<Rightarrow>
                  (case bt_get (pp_active snapshot) i of
                     None \<Rightarrow> (Inl PluginUnavailable, c)
                   | Some manifest \<Rightarrow>
                       (case require_all caller prj (pm_capabilities manifest) of
                          Inl e \<Rightarrow> (Inl e, c)
                        | Inr _ \<Rightarrow>
                            if \<not> (command_declared manifest command \<and> command_resolves)
                            then (Inl CommandRejected, c)
                            else
                              (let c = c\<lparr>pc_leases := filter (\<lambda>(_, l). now < rl_expires l) (pc_leases c)\<rparr>
                               in if \<not> length (pc_leases c) < 1024 then (Inl TooManyLeases, c)
                                  else
                                    (let token = ''plugin-'' @ uuid'
                                     in (Inr (uuid, token),
                                         c\<lparr>pc_leases := bt_insert uuid
                                           \<lparr>rl_token_hash = sha256 token, rl_root = root, rl_project = prj,
                                            rl_manifest = manifest, rl_caller = caller,
                                            rl_expires = now + 24 * 60 * 60 * 10 ^ 9\<rparr> (pc_leases c)\<rparr>)))))))"

definition lease_revoke ::
  "string \<Rightarrow> identity \<Rightarrow> ('p, 's) cached \<Rightarrow> (registry_fault + unit) \<times> ('p, 's) cached" where
  "lease_revoke lease caller c =
     (if (case bt_get (pc_leases c) lease of
            None \<Rightarrow> False
          | Some run \<Rightarrow> caller \<noteq> Admin \<and> member_name caller \<noteq> member_name (rl_caller run))
      then (Inl ForeignCredential, c)
      else (Inr (), c\<lparr>pc_leases := bt_remove lease (pc_leases c)\<rparr>))"

definition plugin_identity ::
  "(string \<Rightarrow> string) \<Rightarrow> string \<Rightarrow> string option \<Rightarrow> int \<Rightarrow> string \<Rightarrow> ('p, 's) cached \<Rightarrow> identity option"
where
  "plugin_identity sha256 path members now token c =
     (let hash = sha256 token
      in Option.bind (find (\<lambda>l. rl_token_hash l = hash) (map snd (pc_leases c))) (\<lambda>lease.
           if rl_expires lease \<le> now then None
           else
             Option.bind (bt_get (pc_projects c) (rl_root lease)) (\<lambda>snapshot.
             Option.bind (bt_get (pp_active snapshot) (pm_id (rl_manifest lease))) (\<lambda>manifest.
               if manifest \<noteq> rl_manifest lease then None
               else
                 map_option (Plugin (pm_id manifest) (rl_project lease) (pm_capabilities manifest))
                   (case rl_caller lease of
                      Member name _ _ \<Rightarrow> found_member (find_member_by_name path name members)
                    | Admin \<Rightarrow> Some Admin
                    | Plugin _ _ _ _ \<Rightarrow> None)))))"

section \<open>Activation and removal\<close>

definition no_plugins :: project_plugins where
  "no_plugins = \<lparr>pp_registry = empty_registry, pp_active = [], pp_owners = [], pp_errors = []\<rparr>"

text \<open>The ownership of a plugin with a node type: unchanged if there was one, and without conflict.\<close>

definition take_ownership ::
  "string \<Rightarrow> descriptor \<Rightarrow> ('p, 's) cached \<Rightarrow> registry_fault + ('p, 's) cached" where
  "take_ownership i d c =
     (if (case bt_get (pc_owners c) i of
            None \<Rightarrow> False
          | Some previous \<Rightarrow>
              nt_collection previous \<noteq> nt_collection d \<or> nt_id_prefix previous \<noteq> nt_id_prefix d)
      then Inl OwnershipChanged
      else
        try_res (map_sum TypeRefused id
          (reg_all (map snd (filter (\<lambda>(owner, _). owner \<noteq> i) (pc_owners c))) (pc_base c))) (\<lambda>r.
        try_res (register_fault d False r) (\<lambda>_.
          Inr (c\<lparr>pc_owners := bt_insert i d (pc_owners c)\<rparr>))))"

definition set_activation ::
  "'p \<Rightarrow> (string \<times> plugin_activation) list \<Rightarrow> ('p, 's) plugin_files \<Rightarrow> registry_fault + ('p, 's) plugin_files"
where
  "set_activation root activations fs =
     (if fs_writes_activations fs root
      then Inr (fs\<lparr>fs_activations := (fs_activations fs)(root := Inr activations)\<rparr>) else Inl WriteFailed)"

definition enable_plugin ::
  "string \<Rightarrow> string list \<Rightarrow> (string \<times> plugin_activation) list \<Rightarrow> ('p, 's) plugin_files \<Rightarrow> ('p, 's) cached
    \<Rightarrow> (registry_fault + (string \<times> plugin_activation) list) \<times> ('p, 's) plugin_files \<times> ('p, 's) cached"
where
  "enable_plugin i approved activations fs c =
     (let activations' = bt_insert i \<lparr>pa_enabled = True, pa_approved_capabilities = approved\<rparr> activations
      in case bt_get (pc_installed c) i of
           None \<Rightarrow> (Inl NotInstalled, fs, c)
         | Some manifest \<Rightarrow>
             if pm_capabilities manifest \<noteq> approved then (Inl ApproveFirst, fs, c)
             else
               (case pm_node_type manifest of
                  None \<Rightarrow> (Inr activations', fs, c)
                | Some d \<Rightarrow>
                    (case take_ownership i d c of
                       Inl e \<Rightarrow> (Inl e, fs, c)
                     | Inr c \<Rightarrow>
                         if fs_writes_owners fs
                         then (Inr activations', fs\<lparr>fs_owners := Inr (pc_owners c)\<rparr>, c)
                         else (Inl WriteFailed, fs, c))))"

definition disable_plugin :: "string \<Rightarrow> (string \<times> plugin_activation) list \<Rightarrow> (string \<times> plugin_activation) list" where
  "disable_plugin i activations =
     (let a = (case bt_get activations i of
                 None \<Rightarrow> \<lparr>pa_enabled = False, pa_approved_capabilities = []\<rparr> | Some a \<Rightarrow> a)
      in bt_insert i (a\<lparr>pa_enabled := False\<rparr>) activations)"

text \<open>The stamps of the files are read again after the writes.\<close>

definition activate ::
  "('p::linorder, 's) plugin_files \<Rightarrow> ('p list \<Rightarrow> registry_fault + 's) \<Rightarrow> int \<Rightarrow> int
    \<Rightarrow> 'p \<Rightarrow> string \<Rightarrow> bool \<Rightarrow> string list \<Rightarrow> ('p, 's) cached
    \<Rightarrow> (registry_fault + unit) \<times> ('p, 's) plugin_files \<times> ('p, 's) cached"
where
  "activate fs stamps now now' root i enabled approved c =
     (case validate_plugin_id i of
        Inl e \<Rightarrow> (Inl (BadManifest e), fs, c)
      | Inr _ \<Rightarrow>
          (let (r, c) = reconcile fs True now c
           in case r of
                Inl e \<Rightarrow> (Inl e, fs, c)
              | Inr _ \<Rightarrow>
                  (case fs_activations fs root of
                     Inl e \<Rightarrow> (Inl e, fs, c)
                   | Inr activations \<Rightarrow>
                       (let (r, fs, c) =
                              (if enabled then enable_plugin i approved activations fs c
                               else (Inr (disable_plugin i activations), fs, c))
                        in case try_res r (\<lambda>activations. set_activation root activations fs) of
                             Inl e \<Rightarrow> (Inl e, fs, c)
                           | Inr fs \<Rightarrow>
                               (let fs = fs\<lparr>fs_signature := stamps\<rparr>;
                                    c = (if bt_get (pc_projects c) root = None
                                         then c\<lparr>pc_projects := bt_insert root no_plugins (pc_projects c)\<rparr> else c);
                                    (r, c) = reconcile fs True now' c
                                in (try_res r (\<lambda>_. Inr ()), fs, c))))))"

fun disable_everywhere ::
  "string \<Rightarrow> 'p list \<Rightarrow> ('p, 's) plugin_files \<Rightarrow> (registry_fault + unit) \<times> ('p, 's) plugin_files" where
  "disable_everywhere i [] fs = (Inr (), fs)"
| "disable_everywhere i (root # roots) fs =
     (case fs_activations fs root of
        Inl e \<Rightarrow> (Inl e, fs)
      | Inr activations \<Rightarrow>
          (case bt_get activations i of
             None \<Rightarrow> disable_everywhere i roots fs
           | Some a \<Rightarrow>
               (case set_activation root (bt_insert i (a\<lparr>pa_enabled := False\<rparr>) activations) fs of
                  Inl e \<Rightarrow> (Inl e, fs)
                | Inr fs \<Rightarrow> disable_everywhere i roots fs)))"

definition dir_entry :: "string \<Rightarrow> registry_fault + string \<times> 'a \<Rightarrow> bool" where
  "dir_entry i e \<longleftrightarrow> (case e of Inl _ \<Rightarrow> False | Inr (j, _) \<Rightarrow> j = i)"

text \<open>Whether the directory is there and moving it to the backup works are arguments.\<close>

definition plugin_remove ::
  "('p::linorder, 's) plugin_files \<Rightarrow> ('p list \<Rightarrow> registry_fault + 's) \<Rightarrow> bool \<Rightarrow> bool \<Rightarrow> string \<Rightarrow> int
    \<Rightarrow> string \<Rightarrow> 'p list \<Rightarrow> ('p, 's) cached
    \<Rightarrow> (registry_fault + string) \<times> ('p, 's) plugin_files \<times> ('p, 's) cached"
where
  "plugin_remove fs stamps is_dir moves uuid now i roots c =
     (case validate_plugin_id i of
        Inl e \<Rightarrow> (Inl (BadManifest e), fs, c)
      | Inr _ \<Rightarrow>
          if \<not> is_dir then (Inl NotADirectory, fs, c)
          else
            (case disable_everywhere i roots fs of
               (Inl e, fs) \<Rightarrow> (Inl e, fs, c)
             | (Inr _, fs) \<Rightarrow>
                 if \<not> moves then (Inl FileUnreadable, fs, c)
                 else
                   (let fs = fs\<lparr>fs_dirs := map_option (filter (\<lambda>e. \<not> dir_entry i e)) (fs_dirs fs),
                          fs_signature := stamps\<rparr>;
                        (r, c) = reconcile fs True now c
                    in (try_res r (\<lambda>_. Inr (i @ ''-'' @ uuid)), fs, c))))"

section \<open>What is active\<close>

definition may_run :: "(string \<times> plugin_activation) list \<Rightarrow> string \<Rightarrow> plugin_manifest \<Rightarrow> bool" where
  "may_run activations i m \<longleftrightarrow>
     (case bt_get activations i of
        None \<Rightarrow> False
      | Some a \<Rightarrow> pa_enabled a \<and> set (pm_capabilities m) \<subseteq> set (pa_approved_capabilities a))"

definition owns_type :: "(string \<times> descriptor) list \<Rightarrow> string \<Rightarrow> plugin_manifest \<Rightarrow> bool" where
  "owns_type owners i m \<longleftrightarrow>
     (case bt_get owners i of
        None \<Rightarrow> pm_node_type m = None
      | Some d \<Rightarrow>
          (case pm_node_type m of
             None \<Rightarrow> False
           | Some d' \<Rightarrow> nt_collection d' = nt_collection d \<and> nt_id_prefix d' = nt_id_prefix d))"

lemma activate_owner_active:
  assumes "activate_owner i d m a b = Inr b'"
  shows "bt_get (bs_active b') =
    (if (case pm_node_type m of None \<Rightarrow> False
         | Some d' \<Rightarrow> nt_collection d' = nt_collection d \<and> nt_id_prefix d' = nt_id_prefix d)
        \<and> set (pm_capabilities m) \<subseteq> set (pa_approved_capabilities a)
     then (bt_get (bs_active b))(i \<mapsto> m) else bt_get (bs_active b))"
  using assms
  by (auto simp: activate_owner_def try_res_Inr_iff bt_get_insert split: if_splits option.splits)

lemma build_owners_active:
  "build_owners installed activations owners b = Inr b' \<Longrightarrow> distinct (map fst owners) \<Longrightarrow>
   bt_get (bs_active b') i = Some m \<longleftrightarrow>
     (if bt_get owners i \<noteq> None \<and> (\<exists>m. bt_get installed i = Some m \<and> may_run activations i m \<and> owns_type owners i m)
      then bt_get installed i = Some m else bt_get (bs_active b) i = Some m)"
proof (induction owners arbitrary: b)
  case (Cons x owners)
  obtain j d where x: "x = (j, d)" by (cases x)
  obtain r where r: "register_fault d False (bs_registry b) = Inr r"
    using Cons.prems(1) by (auto simp: x try_res_Inr_iff)
  obtain b1 where b1: "(case (bt_get installed j, bt_get activations j) of
        (Some manifest, Some activation) \<Rightarrow>
          if pa_enabled activation then activate_owner j d manifest activation (b\<lparr>bs_registry := r\<rparr>)
          else Inr (b\<lparr>bs_registry := r\<rparr>)
      | _ \<Rightarrow> Inr (b\<lparr>bs_registry := r\<rparr>)) = Inr b1"
    and rest: "build_owners installed activations owners b1 = Inr b'"
    using Cons.prems(1) r by (auto simp: x try_res_Inr_iff)
  have j: "j \<notin> fst ` set owners" using Cons.prems(2) by (auto simp: x)
  then have none: "bt_get owners j = None" by (rule bt_get_notin)
  have active: "bt_get (bs_active b1) =
      (if \<exists>m. bt_get installed j = Some m \<and> may_run activations j m \<and> owns_type (x # owners) j m
       then (bt_get (bs_active b))(j := bt_get installed j) else bt_get (bs_active b))"
  proof (cases "bt_get installed j")
    case None
    then show ?thesis using b1 by auto
  next
    case inst: (Some m)
    show ?thesis
    proof (cases "bt_get activations j")
      case None
      then show ?thesis using b1 inst by (auto simp: may_run_def)
    next
      case (Some a)
      show ?thesis
      proof (cases "pa_enabled a")
        case True
        then have "activate_owner j d m a (b\<lparr>bs_registry := r\<rparr>) = Inr b1" using b1 inst Some by simp
        from activate_owner_active [OF this] show ?thesis
          using inst Some True by (cases "pm_node_type m") (simp_all add: may_run_def owns_type_def x)
      qed (use b1 inst Some in \<open>auto simp: may_run_def\<close>)
    qed
  qed
  have step: "bt_get (bs_active b') i = Some m \<longleftrightarrow>
     (if bt_get owners i \<noteq> None \<and> (\<exists>m. bt_get installed i = Some m \<and> may_run activations i m \<and> owns_type owners i m)
      then bt_get installed i = Some m else bt_get (bs_active b1) i = Some m)"
    using Cons.IH [OF rest] Cons.prems(2) by (simp add: x)
  show ?case
  proof (cases "i = j")
    case True
    then show ?thesis using step none unfolding active by (auto simp: x)
  next
    case False
    then have "owns_type (x # owners) i = owns_type owners i" by (auto simp: owns_type_def x fun_eq_iff)
    then show ?thesis using step False unfolding active by (auto simp: x)
  qed
qed simp

lemma fold_plain_active:
  assumes "distinct (map fst installed)"
  shows "bt_get (fold (\<lambda>(i, m) active. if P i m then bt_insert i m active else active) installed active) i = Some m \<longleftrightarrow>
    (case bt_get installed i of
       Some m' \<Rightarrow> if P i m' then m' = m else bt_get active i = Some m | None \<Rightarrow> bt_get active i = Some m)"
  using assms
proof (induction installed arbitrary: active)
  case (Cons x installed)
  obtain j n where x: "x = (j, n)" by (cases x)
  have "j = i \<Longrightarrow> bt_get installed i = None" using Cons.prems by (auto simp: x intro!: bt_get_notin)
  then show ?case using Cons by (auto simp: x bt_get_insert split: option.splits)
qed simp

lemma build_active_iff:
  assumes "build fs c root = Inr pp" "bt_ok (pc_installed c)" "bt_ok (pc_owners c)"
  shows "bt_get (pp_active pp) i = Some m \<longleftrightarrow>
    bt_get (pc_installed c) i = Some m \<and> owns_type (pc_owners c) i m
    \<and> may_run (case fs_activations fs root of Inl _ \<Rightarrow> [] | Inr activations \<Rightarrow> activations) i m"
proof -
  let ?a = "case fs_activations fs root of Inl _ \<Rightarrow> [] | Inr activations \<Rightarrow> activations"
  note d = bt_ok_distinct [OF assms(2)] bt_ok_distinct [OF assms(3)]
  obtain errors b where b: "build_owners (pc_installed c) ?a (pc_owners c)
      \<lparr>bs_registry = pc_base c, bs_active = [], bs_errors = errors\<rparr> = Inr b"
    and pp: "pp_active pp = fold (\<lambda>(i, m) active. if activates_plain (pc_owners c) ?a i m
        then bt_insert i m active else active) (pc_installed c) (bs_active b)"
    using assms(1) by (auto simp: build_def try_res_Inr_iff split: sum.splits)
  have plain: "activates_plain (pc_owners c) ?a i m \<longleftrightarrow>
      bt_get (pc_owners c) i = None \<and> owns_type (pc_owners c) i m \<and> may_run ?a i m" for m
    by (auto simp: activates_plain_def owns_type_def may_run_def)
  show ?thesis
    unfolding pp fold_plain_active [OF d(1)] plain
    using build_owners_active [OF b d(2), of i m] by (auto split: option.splits)
qed


text \<open>A home with one plugin, enabled in the project of root 0.\<close>

definition sample_files :: "(nat, nat) plugin_files" where
  "sample_files = \<lparr>fs_signature = (\<lambda>_. Inr 0), fs_base = Inr empty_registry,
     fs_dirs = Some [Inr (''meet'', Inr sample_manifest)], fs_owners = Inr [],
     fs_activations = (\<lambda>root. Inr (if root = 0
       then [(''meet'', \<lparr>pa_enabled = True, pa_approved_capabilities = [''nodes.read'']\<rparr>)] else [])),
     fs_revision = (\<lambda>_ _. ''r''), fs_writes_owners = True, fs_writes_activations = (\<lambda>_. True)\<rparr>"

definition sample_cached :: "(nat, nat) cached" where
  "sample_cached = \<lparr>pc_signature = Some 0, pc_revisions = [(''meet'', ''r'')], pc_base = empty_registry,
     pc_installed = [(''meet'', sample_manifest)], pc_errors = [], pc_owners = [], pc_projects = [],
     pc_leases = []\<rparr>"

definition sample_snapshot :: project_plugins where
  "sample_snapshot = \<lparr>pp_registry = empty_registry, pp_active = [(''meet'', sample_manifest)],
     pp_owners = [], pp_errors = []\<rparr>"

lemma sample_reserved: "reg_descriptor empty_registry ''meet'' = None" "validate_plugin_id ''meet'' = Inr ()"
  by code_simp+

lemma sample_registry_new: "registry_new sample_files 0 = Inr sample_cached"
  by (simp add: registry_new_def reconcile_def sample_files_def sample_cached_def admit_manifest_def starts_with_def
      sample_manifest_def sample_reserved Let_def)

lemma sample_build: "build sample_files sample_cached 0 = Inr sample_snapshot"
  by (simp add: build_def sample_files_def sample_cached_def sample_snapshot_def activates_plain_def
      sample_manifest_def)

section \<open>Reconciliation brings the snapshots in line\<close>

lemma build_projects [simp]: "build fs (c\<lparr>pc_projects := projects\<rparr>) root = build fs c root"
  by (cases "fs_activations fs root") (simp_all add: build_def)

lemma rebuild_fields:
  "rebuild fs roots c = (r, c') \<Longrightarrow>
   pc_installed c' = pc_installed c \<and> pc_owners c' = pc_owners c \<and> pc_leases c' = pc_leases c
   \<and> (\<forall>root. build fs c' root = build fs c root)"
proof (induction roots arbitrary: c)
  case (Cons root roots)
  then show ?case by (cases "build fs c root") (auto dest!: Cons.IH)
qed auto

lemma rebuild_get:
  "rebuild fs roots c = (Inr (), c') \<Longrightarrow>
   (root \<in> set roots \<longrightarrow> is_ok (build fs c root)) \<and>
   bt_get (pc_projects c') root =
     (if root \<in> set roots then (case build fs c root of Inl _ \<Rightarrow> None | Inr pp \<Rightarrow> Some pp)
      else bt_get (pc_projects c) root)"
proof (induction roots arbitrary: c)
  case (Cons x roots)
  show ?case
  proof (cases "build fs c x")
    case (Inr pp)
    then have "rebuild fs roots (c\<lparr>pc_projects := bt_insert x pp (pc_projects c)\<rparr>) = (Inr (), c')"
      using Cons.prems by simp
    from Cons.IH [OF this] show ?thesis using Inr by (auto simp: bt_get_insert)
  qed (use Cons.prems in simp)
qed auto

lemma rebuild_all:
  assumes "rebuild fs roots c = (Inr (), c')" "root \<in> set roots"
  shows "\<exists>pp. bt_get (pc_projects c') root = Some pp \<and> build fs c' root = Inr pp"
  using rebuild_get [OF assms(1), of root] rebuild_fields [OF assms(1)] assms(2)
  by (cases "build fs c root") auto

lemma read_installed_sorted:
  "read_installed base es installed errors = Inr (installed', errors') \<Longrightarrow> bt_ok installed \<Longrightarrow> bt_ok installed'"
  by (induction base es installed errors rule: read_installed.induct)
    (auto simp: bt_ok_insert split: if_splits sum.splits)

text \<open>The names in the plugin directory, and what it means that a manifest lies in it: its own directory
  is not hidden, is named by the manifest's id, a valid plugin id, and the core has no type of that name.\<close>

fun entry_names :: "(registry_fault + string \<times> 'a) list \<Rightarrow> string list" where
  "entry_names [] = []"
| "entry_names (Inl e # entries) = entry_names entries"
| "entry_names (Inr (i, r) # entries) = i # entry_names entries"

definition in_directory ::
  "registry \<Rightarrow> (registry_fault + string \<times> (plugin_error + plugin_manifest)) list option
    \<Rightarrow> string \<Rightarrow> plugin_manifest \<Rightarrow> bool"
where
  "in_directory base dirs i m \<longleftrightarrow>
     (case dirs of None \<Rightarrow> False | Some entries \<Rightarrow> Inr (i, Inr m) \<in> set entries) \<and>
     \<not> starts_with i ''.'' \<and> validate_plugin_id i = Inr () \<and> pm_id m = i \<and> reg_descriptor base i = None"

lemma entry_names_member: "Inr (i, r) \<in> set entries \<Longrightarrow> i \<in> set (entry_names entries)"
  by (induction entries rule: entry_names.induct) auto

lemma admit_manifest_iff:
  "admit_manifest base i r = Inr m \<longleftrightarrow>
     r = Inr m \<and> validate_plugin_id i = Inr () \<and> pm_id m = i \<and> reg_descriptor base i = None"
  by (cases "validate_plugin_id i"; cases r) (auto simp: admit_manifest_def try_res_Inr_iff)

lemma read_installed_get:
  "read_installed base es installed errors = Inr (installed', errors') \<Longrightarrow> distinct (entry_names es) \<Longrightarrow>
   bt_get installed' i = Some m \<longleftrightarrow>
     in_directory base (Some es) i m \<or>
     (\<nexists>m. in_directory base (Some es) i m) \<and> bt_get installed i = Some m"
proof (induction base es installed errors rule: read_installed.induct)
  case (3 base j r entries installed errors)
  have fresh: "\<not> in_directory base (Some entries) j n" for n
    using "3.prems"(2) entry_names_member by (fastforce simp: in_directory_def)
  have split: "in_directory base (Some (Inr (j, r) # entries)) i n \<longleftrightarrow>
      in_directory base (Some entries) i n \<or>
      i = j \<and> \<not> starts_with j ''.'' \<and> admit_manifest base j r = Inr n" for n
    by (auto simp: in_directory_def admit_manifest_iff)
  show ?case
  proof (cases "starts_with j ''.''")
    case True
    then show ?thesis using "3.IH"(1) "3.prems" unfolding split by simp
  next
    case visible: False
    show ?thesis
    proof (cases "admit_manifest base j r")
      case (Inl e)
      then show ?thesis using "3.IH"(2) [OF visible Inl] "3.prems" visible unfolding split by simp
    next
      case (Inr n)
      then show ?thesis
        using "3.IH"(3) [OF visible Inr] "3.prems" visible fresh unfolding split
        by (auto simp: bt_get_insert)
    qed
  qed
qed (auto simp: in_directory_def)

text \<open>The node types a reconciliation works with: those of the home when they load and what the plugins
  own still fits them, and otherwise those it had.\<close>

definition reconciled_base :: "('p, 's) plugin_files \<Rightarrow> ('p, 's) cached \<Rightarrow> registry" where
  "reconciled_base fs c =
     (case fs_base fs of
        Inl e \<Rightarrow> pc_base c
      | Inr base \<Rightarrow> if is_ok (reg_all (map snd (pc_owners c)) base) then base else pc_base c)"

lemma reconcile_forced: "reconcile fs True now c = (Inr done, c') \<Longrightarrow> done = True"
  by (auto simp: reconcile_def Let_def split: sum.splits prod.splits)

lemma reconcile_done:
  assumes "reconcile fs force now c = (Inr True, c')"
  shows "bt_ok (pc_installed c') \<and> fs_owners fs = Inr (pc_owners c')
    \<and> (\<exists>errors errors'. read_installed (reconciled_base fs c)
         (case fs_dirs fs of None \<Rightarrow> [] | Some es \<Rightarrow> es) [] errors = Inr (pc_installed c', errors'))
    \<and> (\<forall>root. bt_get (pc_projects c) root \<noteq> None \<longrightarrow>
         (\<exists>pp. bt_get (pc_projects c') root = Some pp \<and> build fs c' root = Inr pp))
    \<and> pc_leases c' = filter (\<lambda>(_, l). lease_live now (pc_projects c') l) (pc_leases c)"
proof -
  obtain signature where s: "fs_signature fs (map fst (pc_projects c)) = Inr signature"
    using assms by (auto simp: reconcile_def split: sum.splits)
  have rebuilt: "\<not> (\<not> force \<and> pc_signature c = Some signature)"
    using assms by (auto simp: reconcile_def s)
  define c1 errors where "c1 = (case try_res (fs_base fs) (\<lambda>base.
      try_res (reg_all (map snd (pc_owners c)) base) (\<lambda>_. Inr base)) of
        Inr base \<Rightarrow> c\<lparr>pc_base := base\<rparr> | Inl e \<Rightarrow> c)"
    and "errors = (case try_res (fs_base fs) (\<lambda>base.
      try_res (reg_all (map snd (pc_owners c)) base) (\<lambda>_. Inr base)) of
        Inr base \<Rightarrow> [] | Inl e \<Rightarrow> [(''legacy-descriptors'', TypeRefused e)])"
  have c1: "pc_projects c1 = pc_projects c" "pc_leases c1 = pc_leases c" "pc_base c1 = reconciled_base fs c"
    by (auto simp: c1_def reconciled_base_def try_res_Inr_iff is_ok_iff try_res_def split: sum.split)
  have pair: "(case try_res (fs_base fs) (\<lambda>base.
      try_res (reg_all (map snd (pc_owners c)) base) (\<lambda>_. Inr base)) of
        Inr base \<Rightarrow> (c\<lparr>pc_base := base\<rparr>, []) | Inl e \<Rightarrow> (c, [(''legacy-descriptors'', TypeRefused e)])) = (c1, errors)"
    by (simp add: c1_def errors_def split: sum.split)
  note r = assms [unfolded reconcile_def s, simplified, unfolded pair if_not_P [OF rebuilt, simplified], simplified]
  obtain installed errors' where i: "read_installed (pc_base c1) (case fs_dirs fs of None \<Rightarrow> [] | Some es \<Rightarrow> es) [] errors
      = Inr (installed, errors')"
    using r by (cases "read_installed (pc_base c1) (case fs_dirs fs of None \<Rightarrow> [] | Some es \<Rightarrow> es) [] errors") auto
  obtain owners where o: "fs_owners fs = Inr owners" using r i by (cases "fs_owners fs") auto
  define c2 where "c2 = c1\<lparr>pc_installed := installed, pc_errors := errors', pc_owners := owners\<rparr>"
  obtain x c3 where b: "rebuild fs (map fst (pc_projects c)) c2 = (x, c3)" by fastforce
  show ?thesis
  proof (cases x)
    case (Inr u)
    then have b: "rebuild fs (map fst (pc_projects c)) c2 = (Inr (), c3)" using b by simp
    have c': "c' = c3\<lparr>pc_leases := filter (\<lambda>(_, l). lease_live now (pc_projects c3) l) (pc_leases c3),
         pc_revisions := map (\<lambda>(i, _). (i, fs_revision fs signature i)) (pc_installed c3),
         pc_signature := Some signature\<rparr>"
      using r i o b by (simp add: c1 c2_def Let_def)
    have same: "build fs c' = build fs c3" by (simp add: c' build_def fun_eq_iff split: sum.split)
    have "\<exists>errors errors'. read_installed (reconciled_base fs c)
        (case fs_dirs fs of None \<Rightarrow> [] | Some es \<Rightarrow> es) [] errors = Inr (pc_installed c', errors')"
      using i rebuild_fields [OF b] c1(3) by (auto simp: c' c2_def)
    then show ?thesis
      using rebuild_all [OF b] rebuild_fields [OF b] read_installed_sorted [OF i] o
      unfolding same
      by (intro conjI) (auto simp: c' c1 c2_def image_iff dest!: map_of_SomeD, force)
  qed (use r i o b in \<open>simp add: c1 c2_def Let_def\<close>)
qed

text \<open>
  Claim C35. Exactly the right plugins are active. After a reconciliation that ran to its end (it was
  forced, or the files had changed), a manifest is active for an id in a project if and only if it lies in
  the plugin directory, in a directory of that very name that is not hidden, the id is valid, is the one the
  manifest declares and is not taken by a core node type, the project's activation file enables it and
  approves every capability it asks for, and its node type has the collection and id prefix the plugin owns,
  if it owns one. With a plugin directory that cannot be listed, or an activation file that cannot be read,
  nothing is active. The entries of a directory have different names.
\<close>

theorem active_plugins_exact:
  assumes "reconcile fs force now c = (Inr True, c')" "bt_get (pc_projects c) root \<noteq> None"
    and "fs_owners fs = Inr owners" "bt_ok owners"
    and "distinct (entry_names (case fs_dirs fs of None \<Rightarrow> [] | Some es \<Rightarrow> es))"
  shows "\<exists>pp. bt_get (pc_projects c') root = Some pp \<and>
    (\<forall>i m. bt_get (pp_active pp) i = Some m \<longleftrightarrow>
       in_directory (reconciled_base fs c) (fs_dirs fs) i m \<and> owns_type owners i m
       \<and> may_run (case fs_activations fs root of Inl _ \<Rightarrow> [] | Inr activations \<Rightarrow> activations) i m)"
proof -
  have o: "pc_owners c' = owners" and i: "bt_ok (pc_installed c')"
    using reconcile_done [OF assms(1)] assms(3) by auto
  obtain errors errors' where r: "read_installed (reconciled_base fs c)
      (case fs_dirs fs of None \<Rightarrow> [] | Some es \<Rightarrow> es) [] errors = Inr (pc_installed c', errors')"
    using reconcile_done [OF assms(1)] by blast
  have installed: "bt_get (pc_installed c') i = Some m \<longleftrightarrow>
      in_directory (reconciled_base fs c) (fs_dirs fs) i m" for i m
    using read_installed_get [OF r assms(5)] by (cases "fs_dirs fs") (auto simp: in_directory_def)
  obtain pp where "bt_get (pc_projects c') root = Some pp" "build fs c' root = Inr pp"
    using reconcile_done [OF assms(1)] assms(2) by blast
  then show ?thesis using build_active_iff [of fs c' root pp] i assms(4) unfolding o installed by blast
qed

definition sample_seen :: "(nat, nat) cached" where
  "sample_seen = sample_cached\<lparr>pc_projects := [(0, sample_snapshot)]\<rparr>"

lemma sample_reconcile: "reconcile sample_files True 0 sample_seen = (Inr True, sample_seen)"
proof -
  have "build sample_files sample_cached 0 = Inr sample_snapshot" by (rule sample_build)
  then have "build sample_files sample_seen 0 = Inr sample_snapshot" by (simp add: sample_seen_def)
  then have b: "rebuild sample_files [0] sample_seen = (Inr (), sample_seen)" by (simp add: sample_seen_def)
  have c: "sample_seen\<lparr>pc_base := empty_registry\<rparr> = sample_seen"
    "sample_seen\<lparr>pc_base := empty_registry, pc_installed := [(''meet'', sample_manifest)], pc_errors := [],
       pc_owners := []\<rparr> = sample_seen"
    "sample_seen\<lparr>pc_leases := [], pc_revisions := [(''meet'', ''r'')], pc_signature := Some 0\<rparr> = sample_seen"
    "sample_seen\<lparr>pc_base := empty_registry, pc_installed := [(''meet'', sample_manifest)], pc_errors := []\<rparr> = sample_seen"
    "sample_seen\<lparr>pc_installed := [(''meet'', sample_manifest)], pc_errors := [], pc_owners := []\<rparr> = sample_seen"
    by (simp_all add: sample_seen_def sample_cached_def)
  have f: "fs_base sample_files = Inr empty_registry" "fs_dirs sample_files = Some [Inr (''meet'', Inr sample_manifest)]"
    "fs_owners sample_files = Inr []" "fs_signature sample_files ps = Inr 0" "fs_revision sample_files n i = ''r''"
    "pc_projects sample_seen = [(0, sample_snapshot)]" "pc_owners sample_seen = []" "pc_leases sample_seen = []"
    "pc_installed sample_seen = [(''meet'', sample_manifest)]" "pc_base sample_seen = empty_registry" for ps n i
    by (simp_all add: sample_files_def sample_seen_def sample_cached_def)
  have r: "read_installed empty_registry [Inr (''meet'', Inr sample_manifest)] [] [] = Inr ([(''meet'', sample_manifest)], [])"
    by (simp add: admit_manifest_def starts_with_def sample_manifest_def sample_reserved)
  show ?thesis
    by (simp add: reconcile_def f r b c del: read_installed.simps rebuild.simps)
qed

theorem active_plugins_exact_witness:
  "\<exists>pp. bt_get (pc_projects sample_seen) 0 = Some pp \<and> bt_get (pp_active pp) ''meet'' = Some sample_manifest"
proof -
  have "bt_get (pc_projects sample_seen) 0 \<noteq> None" "fs_owners sample_files = Inr []" "bt_ok []"
    "distinct (entry_names (case fs_dirs sample_files of None \<Rightarrow> [] | Some es \<Rightarrow> es))"
    by (simp_all add: sample_seen_def sample_files_def)
  from active_plugins_exact [OF sample_reconcile this] show ?thesis
    by (simp add: sample_seen_def sample_cached_def sample_files_def owns_type_def may_run_def
        in_directory_def starts_with_def reconciled_base_def sample_reserved sample_manifest_def)
qed

section \<open>Disabling a plugin\<close>

text \<open>A plugin that is not active in any project it may be asked for has no lease and gets none.\<close>

definition plugin_out :: "'p \<Rightarrow> string \<Rightarrow> ('p, 's) cached \<Rightarrow> bool" where
  "plugin_out root i c \<longleftrightarrow>
     (case bt_get (pc_projects c) root of None \<Rightarrow> False | Some pp \<Rightarrow> bt_get (pp_active pp) i = None) \<and>
     list_all (\<lambda>(_, l). \<not> (rl_root l = root \<and> pm_id (rl_manifest l) = i)) (pc_leases c)"

lemma may_run_disabled: "\<not> may_run (disable_plugin i activations) i m"
  by (simp add: may_run_def disable_plugin_def bt_get_insert Let_def)

lemma active_may_run:
  assumes "build fs c root = Inr pp" "bt_ok (pc_installed c)" "bt_ok (pc_owners c)"
    and "fs_activations fs root = Inr activations" "bt_get (pp_active pp) i = Some m"
  shows "may_run activations i m"
  using build_active_iff [OF assms(1,2,3), of i m] assms(4,5) by simp

text \<open>
  Claim C36. Disabling a plugin takes effect at once: when the call answers that all went well, the
  plugin is not active in the project's snapshot, none of its leases there is left, and no new one is
  issued.
\<close>

theorem disabled_plugin_is_out:
  assumes "activate fs stamps now now' root i False approved c = (Inr (), fs', c')"
    and "fs_owners fs = Inr owners" "bt_ok owners"
  shows "plugin_out root i c'
    \<and> (fst (issue sha256 fs' resolves uuid uuid' now'' root prj i command caller c')
         \<in> {Inl PluginsCannotMint, Inl PluginUnavailable})"
proof -
  obtain done1 c1 where r1: "reconcile fs True now c = (Inr done1, c1)"
    using assms(1) by (auto simp: activate_def Let_def split: sum.splits prod.splits)
  obtain activations where a: "fs_activations fs root = Inr activations"
    using assms(1) r1 by (auto simp: activate_def Let_def split: sum.splits)
  define fs1 where "fs1 = fs\<lparr>fs_activations := (fs_activations fs)(root := Inr (disable_plugin i activations)),
    fs_signature := stamps\<rparr>"
  define c2 where "c2 = (if bt_get (pc_projects c1) root = None
    then c1\<lparr>pc_projects := bt_insert root no_plugins (pc_projects c1)\<rparr> else c1)"
  have w: "fs_writes_activations fs root"
    using assms(1) r1 a by (auto simp: activate_def Let_def set_activation_def split: sum.splits if_splits)
  obtain done2 where r2: "reconcile fs1 True now' c2 = (Inr done2, c')"
    using assms(1) r1 a w
    by (cases "reconcile fs1 True now' c2")
      (auto simp: activate_def Let_def set_activation_def fs1_def c2_def try_res_Inr_iff split: sum.splits)
  have root: "bt_get (pc_projects c2) root \<noteq> None" by (simp add: c2_def bt_get_insert)
  note rec = reconcile_done [OF r2 [unfolded reconcile_forced [OF r2]]]
  have owners: "bt_ok (pc_owners c')" using rec assms(2,3) by (auto simp: fs1_def)
  obtain pp where pp: "bt_get (pc_projects c') root = Some pp" "build fs1 c' root = Inr pp"
    using rec root by blast
  have acts: "fs_activations fs1 root = Inr (disable_plugin i activations)" by (simp add: fs1_def)
  have none: "bt_get (pp_active pp) i = None"
    using active_may_run [OF pp(2) _ owners acts] rec may_run_disabled by (metis option.exhaust)
  then have "list_all (\<lambda>(_, l). \<not> (rl_root l = root \<and> pm_id (rl_manifest l) = i)) (pc_leases c')"
    using rec pp by (auto simp: list_all_iff lease_live_def)
  then show ?thesis
    using pp(1) none by (cases caller) (simp_all add: plugin_out_def issue_def project_def)
qed


theorem disabled_plugin_is_out_witness:
  "\<exists>fs' c'. activate sample_files (\<lambda>_. Inr 1) 0 0 0 ''meet'' False [] sample_cached = (Inr (), fs', c')
    \<and> plugin_out 0 ''meet'' c'"
proof -
  have "is_ok (fst (activate sample_files (\<lambda>_. Inr 1) 0 0 0 ''meet'' False [] sample_cached))"
    by code_simp
  then obtain fs' c' where a: "activate sample_files (\<lambda>_. Inr 1) 0 0 0 ''meet'' False [] sample_cached = (Inr (), fs', c')"
    by (cases "activate sample_files (\<lambda>_. Inr 1) 0 0 0 ''meet'' False [] sample_cached") (auto simp: is_ok_iff)
  have "fs_owners sample_files = Inr []" by (simp add: sample_files_def)
  from disabled_plugin_is_out [OF a this, of id True "''''" "''''" 0 "''''" "''''" Admin] show ?thesis
    using a by auto
qed

section \<open>What a token gives\<close>

text \<open>
  Claim C34. A plugin token is worth no more than the plugin and its caller are at this moment: an
  action its identity may perform is allowed only while the lease lives, in the project it was
  issued for, with exactly the manifest that is active there, for a capability that manifest asks
  for, and when the caller may perform it: an administrator, or a member with the grants the members
  file has now.
\<close>

theorem plugin_token_bounded:
  assumes "plugin_identity sha256 path members now token c = Some i" "is_ok (require i prj a)"
  shows "\<exists>lease \<in> snd ` set (pc_leases c).
    rl_token_hash lease = sha256 token \<and> now < rl_expires lease \<and> prj = Some (rl_project lease) \<and>
    (\<exists>pp. bt_get (pc_projects c) (rl_root lease) = Some pp \<and>
      bt_get (pp_active pp) (pm_id (rl_manifest lease)) = Some (rl_manifest lease)) \<and>
    (\<exists>capability \<in> set (pm_capabilities (rl_manifest lease)). plugin_capability a = Some capability) \<and>
    (rl_caller lease = Admin \<or>
      (\<exists>name es e. member_name (rl_caller lease) = Some name \<and> read_members path members = Inr es \<and> e \<in> set es
        \<and> me_name e = name \<and> is_ok (require (member_identity e) prj a)))"
proof -
  obtain k lease pp caller where l: "(k, lease) \<in> set (pc_leases c)" "rl_token_hash lease = sha256 token"
    "now < rl_expires lease" "bt_get (pc_projects c) (rl_root lease) = Some pp"
    "bt_get (pp_active pp) (pm_id (rl_manifest lease)) = Some (rl_manifest lease)"
    and i: "i = Plugin (pm_id (rl_manifest lease)) (rl_project lease) (pm_capabilities (rl_manifest lease)) caller"
    and caller: "(case rl_caller lease of
        Member name _ _ \<Rightarrow> found_member (find_member_by_name path name members)
      | Admin \<Rightarrow> Some Admin | Plugin _ _ _ _ \<Rightarrow> None) = Some caller"
    using assms(1)
    by (fastforce simp: plugin_identity_def Let_def bind_eq_Some_conv dest!: find_SomeD split: if_splits)
  note r = assms(2) [unfolded i require_plugin_iff]
  have "rl_caller lease = Admin \<or>
      (\<exists>name es e. member_name (rl_caller lease) = Some name \<and> read_members path members = Inr es \<and> e \<in> set es
        \<and> me_name e = name \<and> is_ok (require (member_identity e) prj a))"
  proof (cases "rl_caller lease")
    case (Member name grants actions)
    then have "found_member (find_member_by_name path name members) = Some caller" using caller by simp
    from find_member_Some(1) [OF this] show ?thesis using Member r by auto
  qed (use caller in simp_all)
  then show ?thesis using l r by (intro bexI [of _ lease]) (auto simp: image_iff intro: rev_bexI)
qed





definition sample_lease_state :: "(nat, nat) cached" where
  "sample_lease_state = snd (issue (\<lambda>s. s) sample_files True ''l'' ''u'' 0 0 ''p'' ''meet'' ''sync'' Admin sample_seen)"

lemma sample_lease_state_leases:
  "pc_leases sample_lease_state = [(''l'', \<lparr>rl_token_hash = ''plugin-u'', rl_root = 0, rl_project = ''p'',
     rl_manifest = sample_manifest, rl_caller = Admin, rl_expires = 24 * 60 * 60 * 10 ^ 9\<rparr>)]"
  "pc_projects sample_lease_state = [(0, sample_snapshot)]"
  by (simp_all add: sample_lease_state_def issue_def project_def sample_seen_def sample_cached_def sample_snapshot_def
      sample_manifest_def command_declared_def Let_def)

theorem plugin_token_bounded_witness:
  "\<exists>lease \<in> snd ` set (pc_leases sample_lease_state). rl_token_hash lease = ''plugin-u'' \<and> rl_project lease = ''p''
    \<and> rl_manifest lease = sample_manifest"
proof -
  have "plugin_identity (\<lambda>s. s) ''members.org'' None 5 ''plugin-u'' sample_lease_state
      = Some (Plugin ''meet'' ''p'' [''nodes.read''] Admin)"
    by (simp add: plugin_identity_def sample_lease_state_leases sample_snapshot_def sample_manifest_def Let_def)
  from plugin_token_bounded [OF this, of "Some ''p''" GraphRead] show ?thesis
    by (auto simp: sample_lease_state_leases)
qed

section \<open>The header of a plugin's node\<close>

lemma digits_value_snoc: "digits_value (ds @ [d]) = 10 * digits_value ds + (byte d - 48)"
  by (simp add: digits_value_def)

lemma show_nat_digits: "show_nat n \<noteq> [] \<and> list_all is_ascii_digit (show_nat n) \<and> digits_value (show_nat n) = n"
proof (induction n rule: show_nat.induct)
  case (1 n)
  show ?case
  proof (cases "n < 10")
    case True
    then show ?thesis by (simp add: show_nat.simps [of n] is_ascii_digit_def digits_value_def)
  next
    case False
    then show ?thesis using 1
      by (simp add: show_nat.simps [of n] digits_value_snoc is_ascii_digit_def)
  qed
qed

lemma parse_show_u32: "parse_u32 (show_nat (unat w)) = Some w"
proof -
  have "strip_prefix (show_nat (unat w)) ''+'' = None"
    using show_nat_digits [of "unat w"]
    by (cases "show_nat (unat w)") (auto simp: strip_prefix_def is_ascii_digit_def)
  moreover have "unat w < 2 ^ 32" by (rule order.strict_trans2 [OF unsigned_less]) simp
  ultimately show ?thesis using show_nat_digits [of "unat w"] by (simp add: parse_u32_def Let_def)
qed

lemma find_sub_fresh: "c \<notin> set a \<Longrightarrow> find_sub (c # p) (a @ (c # p) @ b) = Some (length a)"
proof (induction a)
  case Nil
  then show ?case by (cases b) (simp_all add: starts_with_def)
qed (auto simp: starts_with_def)

definition plugin_name :: "string \<Rightarrow> bool" where
  "plugin_name i \<longleftrightarrow> list_all (\<lambda>b. is_ascii_lowercase b \<or> is_ascii_digit b \<or> b = CHR ''-'') i"

lemma plugin_name_char: "plugin_name i \<Longrightarrow> c \<in> {CHR '' '', LF} \<Longrightarrow> c \<notin> set i"
  by (auto simp: plugin_name_def list_all_iff is_ascii_lowercase_def is_ascii_digit_def)

text \<open>The header is a whole line of its own, the first one of the file it is put in front of.\<close>

definition header_text :: "string \<Rightarrow> 32 word \<Rightarrow> string" where
  "header_text i schema = ''#+plugin: '' @ i @ '' schema='' @ show_nat (unat schema)"

lemma header_text_one_line:
  assumes "plugin_name i"
  shows "one_line (header_text i schema)"
proof -
  have "CR \<notin> set i" "LF \<notin> set i"
    using assms by (auto simp: plugin_name_def list_all_iff is_ascii_lowercase_def is_ascii_digit_def)
  moreover have "CR \<notin> set (show_nat n)" "LF \<notin> set (show_nat n)" for n
    using show_nat_digits [of n] by (auto simp: list_all_iff is_ascii_digit_def)
  ultimately show ?thesis by (simp add: header_text_def one_line_def)
qed

lemma header_text_valid:
  assumes "plugin_name i" "schema \<in> set (pm_schema_accepts m)"
  shows "header_valid i m (header_text i schema @ [LF] @ body)"
proof -
  have "str_lines (header_text i schema @ [LF] @ body) = header_text i schema # str_lines body"
    using str_lines_texts [of "[header_text i schema]" body] header_text_one_line [OF assms(1)] by simp
  then have "header_line (header_text i schema @ [LF] @ body) = Some (i @ '' schema='' @ show_nat (unat schema))"
    by (simp add: header_line_def header_text_def starts_with_def strip_prefix_def)
  moreover have "find_sub '' schema='' (i @ '' schema='' @ show_nat (unat schema)) = Some (length i)"
    by (rule find_sub_fresh) (use plugin_name_char [OF assms(1)] in simp)
  ultimately show ?thesis
    using assms(2) by (simp add: header_valid_def str_split_once_def parse_show_u32)
qed

text \<open>
  Claim C38. The header the registry gives a new node is one its own write check accepts: in front of
  any text, it is read back as the owner of the collection and a schema the active manifest accepts,
  whatever the version number; and without a header only collections of the core pass the check.
\<close>

theorem plugin_header_round_trip:
  assumes "list_all (\<lambda>(i, m). manifest_ok m \<and> pm_id m = i) (pp_active pp)"
  shows "case plugin_header pp collection of
      Some h \<Rightarrow> check_write pp collection (Some (h @ body)) = Inr ()
    | None \<Rightarrow> is_ok (check_write pp collection (Some body)) = (pp_owner pp collection = None)"
proof (cases "pp_owner pp collection")
  case None
  then show ?thesis by (simp add: plugin_header_def check_write_def)
next
  case owner: (Some i)
  show ?thesis
  proof (cases "bt_get (pp_active pp) i")
    case None
    then show ?thesis using owner by (simp add: plugin_header_def check_write_def)
  next
    case (Some m)
    then have "(i, m) \<in> set (pp_active pp)" by (rule map_of_SomeD)
    then have m: "plugin_name i" "pm_schema m \<in> set (pm_schema_accepts m)"
      using assms by (auto simp: list_all_iff manifest_ok_def plugin_name_def)
    have "plugin_header pp collection = Some (header_text i (pm_schema m) @ [LF])"
      using owner Some by (simp add: plugin_header_def header_text_def)
    then show ?thesis
      using owner Some header_text_valid [OF m, of body] by (simp add: check_write_def)
  qed
qed

text \<open>The snapshot of a project where the plugin owns the node type it brings.\<close>

definition sample_owning :: project_plugins where
  "sample_owning = sample_snapshot\<lparr>pp_owners := [(''meet'', sample_descriptor)]\<rparr>"

theorem plugin_header_round_trip_witness:
  "plugin_header sample_owning ''cs'' = Some (''#+plugin: meet schema=2'' @ [LF]) \<and>
   check_write sample_owning ''cs'' (Some ((''#+plugin: meet schema=2'' @ [LF]) @ ''text'')) = Inr ()"
proof -
  have "show_nat 2 = ''2''" by code_simp
  then have h: "plugin_header sample_owning ''cs'' = Some (''#+plugin: meet schema=2'' @ [LF])"
    by (simp add: plugin_header_def pp_owner_def sample_owning_def sample_snapshot_def sample_descriptor_def
        sample_manifest_def)
  have "manifest_ok sample_manifest"
    by (simp add: manifest_ok_def sample_manifest_def CAPABILITIES_def is_ascii_lowercase_def command_char_def
        ascii_defs)
  then have "list_all (\<lambda>(i, m). manifest_ok m \<and> pm_id m = i) (pp_active sample_owning)"
    by (simp add: sample_owning_def sample_snapshot_def sample_manifest_def)
  from plugin_header_round_trip [OF this, of "''cs''" "''text''"] show ?thesis by (simp add: h)
qed

end
