(* ===== verification/Gateway.thy ===== *)
theory Gateway
  imports Plugins
begin

text \<open>
  The gate of the HTTP interface, \<open>crates/orgasmic-daemon/src/api.rs\<close>: how a request gets its
  identity and which routes each kind of identity may reach, the login of a member, the tickets of
  the user interface and the capability snapshot. The router is not under \<open>src/\<close>: the template of
  the matched route is an argument.
\<close>

section \<open>Requests and answers\<close>

record http_request =
  rq_method :: string
  rq_path :: string
  rq_query :: "string option"
  rq_matched :: "string option"
  rq_headers :: request_headers

datatype refusal =
    Unauthorized
  | RouteUnavailableToPlugins
  | ForbiddenForRole

section \<open>Routes\<close>

definition SERVICE_ROUTES :: "(string \<times> string) list" where
  "SERVICE_ROUTES =
    [(''GET'', ''/links''),
     (''POST'', ''/links''),
     (''GET'', ''/attachments''),
     (''POST'', ''/attachments/uploads''),
     (''GET'', ''/attachments/uploads/:id''),
     (''PUT'', ''/attachments/uploads/:id''),
     (''DELETE'', ''/attachments/uploads/:id''),
     (''POST'', ''/attachments/uploads/:id/finish''),
     (''GET'', ''/attachments/:node/:id/:revision/content''),
     (''HEAD'', ''/attachments/:node/:id/:revision/content'')]"

definition CONVERSATION_ROUTES :: "(string \<times> string) list" where
  "CONVERSATION_ROUTES =
    [(''POST'', ''/conversations''),
     (''POST'', ''/conversations/:id/input'')]"

definition MEMBER_ALLOWED_ROUTES :: "(string \<times> string) list" where
  "MEMBER_ALLOWED_ROUTES =
    [(''GET'', ''/plugins/:id/ui/:project/*asset''),
     (''GET'', ''/org/node''),
     (''POST'', ''/org/node''),
     (''POST'', ''/org/node/:id/edit''),
     (''POST'', ''/org/node/:id/delete''),
     (''GET'', ''/board''),
     (''GET'', ''/me''),
     (''GET'', ''/projects/:id''),
     (''GET'', ''/projects/:id/tasks''),
     (''GET'', ''/projects/:id/tasks/:task_id''),
     (''GET'', ''/tasks/:id/activity''),
     (''GET'', ''/tasks/:id/dispatches''),
     (''POST'', ''/tasks/:id/comments''),
     (''POST'', ''/tasks/:id/comments/:entry_id/edit''),
     (''POST'', ''/tasks/:id/comments/:entry_id/delete''),
     (''GET'', ''/graph/nodes''),
     (''GET'', ''/node-types''),
     (''GET'', ''/plugins''),
     (''POST'', ''/plugins/:id/run''),
     (''POST'', ''/plugins/run/revoke''),
     (''POST'', ''/id/mint''),
     (''POST'', ''/graph/nodes''),
     (''GET'', ''/graph/edges''),
     (''GET'', ''/decisions''),
     (''GET'', ''/decisions/:id''),
     (''GET'', ''/glossary''),
     (''GET'', ''/glossary/:id''),
     (''GET'', ''/artifacts''),
     (''GET'', ''/artifacts/:id''),
     (''POST'', ''/artifacts/generate''),
     (''POST'', ''/artifacts/:id/regenerate''),
     (''POST'', ''/artifacts/:id/comments''),
     (''POST'', ''/artifacts/:id/comments/:cid/resolve''),
     (''GET'', ''/ws''),
     (''GET'', ''/ws/tmux/:run_id''),
     (''GET'', ''/ws/transcript/:run_id''),
     (''GET'', ''/runs/:id''),
     (''GET'', ''/runs/live''),
     (''POST'', ''/runs/:id/release''),
     (''POST'', ''/manager/chat/launch'')]"

definition PLUGIN_ROUTES :: "(string \<times> string) list" where
  "PLUGIN_ROUTES =
    [(''GET'', ''/org/node''),
     (''GET'', ''/graph/nodes''),
     (''GET'', ''/node-types''),
     (''POST'', ''/org/node''),
     (''POST'', ''/graph/nodes''),
     (''POST'', ''/org/node/:id/edit''),
     (''POST'', ''/org/node/:id/delete''),
     (''POST'', ''/id/mint'')]"

definition member_route_allowed :: "string \<Rightarrow> string \<Rightarrow> bool" where
  "member_route_allowed method pattern \<longleftrightarrow>
     list_ex (\<lambda>(m, p). m = method \<and> p = pattern)
       (MEMBER_ALLOWED_ROUTES @ SERVICE_ROUTES @ CONVERSATION_ROUTES)"

definition plugin_route_allowed :: "string \<Rightarrow> string \<Rightarrow> bool" where
  "plugin_route_allowed method pattern \<longleftrightarrow>
     (method, pattern) \<in> set PLUGIN_ROUTES \<or> (method, pattern) \<in> set SERVICE_ROUTES"

section \<open>The identity of a request\<close>

definition bearer_plugin_token :: "request_headers \<Rightarrow> string option" where
  "bearer_plugin_token headers =
     (case Option.bind (rh_authorization headers) (split_once (CHR '' '')) of
        None \<Rightarrow> None
      | Some (scheme, rest) \<Rightarrow>
          if eq_ignore_ascii_case scheme ''bearer'' \<and> starts_with (trim rest) ''plugin-''
          then Some (trim rest) else None)"

definition query_token_allowed :: "string \<Rightarrow> bool" where
  "query_token_allowed path \<longleftrightarrow>
     path = ''/api/ws'' \<or> starts_with path ''/api/ws/'' \<or> path = ''/ws'' \<or> starts_with path ''/ws/''"

definition raw_pattern :: "http_request \<Rightarrow> string" where
  "raw_pattern rq = (case rq_matched rq of None \<Rightarrow> rq_path rq | Some m \<Rightarrow> m)"

definition plugin_pattern :: "http_request \<Rightarrow> string" where
  "plugin_pattern rq =
     (case strip_prefix (raw_pattern rq) ''/api'' of None \<Rightarrow> raw_pattern rq | Some rest \<Rightarrow> rest)"

definition member_pattern :: "http_request \<Rightarrow> string" where
  "member_pattern rq =
     (case strip_prefix (raw_pattern rq) ''/api'' of
        None \<Rightarrow> raw_pattern rq
      | Some rest \<Rightarrow> if starts_with rest ''/'' then rest else raw_pattern rq)"

text \<open>The readings of the clock are those of the session store, of the member sessions and of the
  leases; the members file is read once on the way the identity takes.\<close>

definition identity_middleware ::
  "(string \<Rightarrow> string) \<Rightarrow> int \<Rightarrow> int \<Rightarrow> int \<Rightarrow> string \<Rightarrow> string option \<Rightarrow> ('p, 's) cached \<Rightarrow> http_request
    \<Rightarrow> auth_state \<Rightarrow> (refusal + identity) \<times> auth_state"
where
  "identity_middleware sha256 now now' now'' path members plugins rq st =
     (let plugin_token = bearer_plugin_token (rq_headers rq);
          (resolved, st) =
            (case plugin_token of
               Some token \<Rightarrow> (plugin_identity sha256 path members now'' token plugins, st)
             | None \<Rightarrow> resolve_identity sha256 now now' (rq_headers rq) path members st);
          identity =
            (case resolved of
               Some identity \<Rightarrow> Some identity
             | None \<Rightarrow>
                 if plugin_token = None \<and> query_token_allowed (rq_path rq) \<and> check_query_token st (rq_query rq)
                 then Some Admin else None)
      in (case identity of
            None \<Rightarrow> Inl Unauthorized
          | Some (Plugin i prj caps caller) \<Rightarrow>
              if plugin_route_allowed (rq_method rq) (plugin_pattern rq)
              then Inr (Plugin i prj caps caller) else Inl RouteUnavailableToPlugins
          | Some (Member name grants actions) \<Rightarrow>
              if member_route_allowed (rq_method rq) (member_pattern rq)
              then Inr (Member name grants actions) else Inl ForbiddenForRole
          | Some Admin \<Rightarrow> Inr Admin,
          st))"

section \<open>Sessions\<close>

text \<open>The cookie header an answer sets.\<close>

definition set_cookie :: "string \<Rightarrow> string \<Rightarrow> int \<Rightarrow> string" where
  "set_cookie name session max_age =
     name @ ''='' @ session @ ''; Path=/; HttpOnly; SameSite=Lax; Max-Age='' @ show_nat (nat max_age)"

text \<open>The name, the expiry and the cookie, or nothing for a token nobody has.\<close>

definition post_login ::
  "(string \<Rightarrow> string) \<Rightarrow> string \<Rightarrow> int \<Rightarrow> int \<Rightarrow> string \<Rightarrow> string option \<Rightarrow> string \<Rightarrow> auth_state
    \<Rightarrow> (string \<times> int \<times> string) option \<times> auth_state"
where
  "post_login sha256 random now now' path members token st =
     (case find_member_by_token sha256 path token members of
        Inr (Some entry) \<Rightarrow>
          (let ((session, expires_at), st) = create_member_session random now now' (me_name entry) st
           in (Some (me_name entry, expires_at,
                 set_cookie MEMBER_SESSION_COOKIE session MEMBER_SESSION_TTL_SECONDS), st))
      | _ \<Rightarrow> (None, st))"

definition post_ui_session ::
  "string \<Rightarrow> int \<Rightarrow> int \<Rightarrow> int \<Rightarrow> request_headers \<Rightarrow> auth_state \<Rightarrow> (string \<times> int) option \<times> auth_state"
where
  "post_ui_session random now now' now'' headers st =
     (let (admin, st) = check_headers now headers st
      in if \<not> admin then (None, st)
         else
           (let ((ticket, expires_at), st) = create_ui_ticket random now' now'' st
            in (Some (''/api/auth/ui-session?ticket='' @ ticket, expires_at), st)))"

definition get_app_session :: "string \<Rightarrow> int \<Rightarrow> string \<Rightarrow> auth_state \<Rightarrow> string option \<times> auth_state" where
  "get_app_session random now ticket st =
     (let (session, st) = redeem_ui_ticket random now ticket st
      in (map_option (\<lambda>s. set_cookie UI_SESSION_COOKIE s UI_SESSION_TTL_SECONDS) session, st))"

section \<open>The capability snapshot\<close>

record me_project =
  mp_project_id :: string
  mp_role :: string
  mp_capabilities :: "string list"

definition me_role :: "identity \<Rightarrow> string \<Rightarrow> string" where
  "me_role identity project_id =
     (case identity of
        Admin \<Rightarrow> ''admin''
      | Plugin _ _ _ _ \<Rightarrow> ''plugin''
      | Member _ _ _ \<Rightarrow> (case role_for identity project_id of None \<Rightarrow> [] | Some role \<Rightarrow> role))"

definition push_new :: "string \<Rightarrow> string list \<Rightarrow> string list" where
  "push_new name capabilities = (if name \<in> set capabilities then capabilities else capabilities @ [name])"

definition me_capabilities :: "identity \<Rightarrow> string \<Rightarrow> string list" where
  "me_capabilities identity role =
     (case identity of
        Admin \<Rightarrow> map action_name ALL_ACTIONS
      | Plugin _ _ _ _ \<Rightarrow> []
      | Member _ _ actions \<Rightarrow>
          (let capabilities = map action_name (role_capabilities role)
           in if role \<noteq> []
              then fold (push_new \<circ> action_name) (List.map_filter action_from_name actions) capabilities
              else capabilities))"

definition get_me :: "identity \<Rightarrow> string list \<Rightarrow> string \<times> string option \<times> me_project list" where
  "get_me identity all_ids =
     ((case identity of Admin \<Rightarrow> ''admin'' | Plugin _ _ _ _ \<Rightarrow> ''plugin'' | Member _ _ _ \<Rightarrow> ''member''),
      member_name identity,
      map (\<lambda>project_id.
          let role = me_role identity project_id
          in \<lparr>mp_project_id = project_id, mp_role = role, mp_capabilities = me_capabilities identity role\<rparr>)
        (visible_project_ids identity all_ids))"

section \<open>Assets\<close>

definition trim_start_slashes :: "string \<Rightarrow> string" where
  "trim_start_slashes = dropWhile (\<lambda>c. c = CHR ''/'')"

definition safe_app_asset_path :: "string \<Rightarrow> string option" where
  "safe_app_asset_path path =
     (let trimmed = trim_start_slashes path
      in if trimmed = [] \<or> ends_with trimmed ''/'' then Some ''index.html''
         else if list_ex (\<lambda>segment. segment = [] \<or> segment = ''.'' \<or> segment = ''..'') (split_on (CHR ''/'') trimmed)
         then None else Some trimmed)"

section \<open>Properties\<close>

lemma resolve_not_plugin: "fst (resolve_identity sha256 now now' headers path file st) \<noteq> Some (Plugin i prj caps caller)"
  by (auto simp: resolve_identity_def found_member_Some member_identity_def Let_def case_prod_unfold
      split: if_splits option.splits)

lemma resolve_admin:
  "fst (resolve_identity sha256 now now' headers path file st) = Some Admin \<longleftrightarrow> fst (check_headers now headers st)"
  by (auto simp: resolve_identity_def found_member_Some member_identity_def Let_def case_prod_unfold
      split: if_splits option.splits)

lemma plugin_identity_is_plugin:
  "plugin_identity sha256 path members now token c = Some i \<Longrightarrow> \<exists>j prj caps caller. i = Plugin j prj caps caller"
  by (auto simp: plugin_identity_def Let_def bind_eq_Some_conv split: if_splits)

lemma check_headers_token: "as_token (snd (check_headers now headers st)) = as_token st"
  by (simp add: check_headers_def check_ui_session_def ui_prune_def Let_def split: option.split)

lemma resolve_query_token:
  "check_query_token (snd (resolve_identity sha256 now now' headers path file st)) = check_query_token st"
proof -
  have "as_token (snd (resolve_identity sha256 now now' headers path file st)) = as_token st"
    using check_headers_token [of now headers st]
    by (simp add: resolve_identity_def check_member_session_def member_prune_def Let_def case_prod_unfold
        split: option.split)
  then have "check_token (snd (resolve_identity sha256 now now' headers path file st)) = check_token st"
    by (intro ext) (simp only: check_token_def)
  then show ?thesis by (intro ext) (simp only: check_query_token_def)
qed

lemma gate_iff:
  "fst (identity_middleware sha256 now now' now'' path members plugins rq st) = Inr i \<longleftrightarrow>
   (let resolved = (case bearer_plugin_token (rq_headers rq) of
          Some token \<Rightarrow> plugin_identity sha256 path members now'' token plugins
        | None \<Rightarrow> fst (resolve_identity sha256 now now' (rq_headers rq) path members st))
    in (resolved = Some i \<or> resolved = None \<and> i = Admin \<and> bearer_plugin_token (rq_headers rq) = None
          \<and> query_token_allowed (rq_path rq) \<and> check_query_token st (rq_query rq))
       \<and> (case i of Admin \<Rightarrow> True
            | Plugin _ _ _ _ \<Rightarrow> plugin_route_allowed (rq_method rq) (plugin_pattern rq)
            | Member _ _ _ \<Rightarrow> member_route_allowed (rq_method rq) (member_pattern rq)))"
  by (auto simp: identity_middleware_def Let_def case_prod_unfold resolve_query_token
      split: option.split identity.split)

text \<open>
  Claim C39. No request passes the gate as more than its credential: an administrator has presented
  the bearer token or a live session of the user interface, or on a socket path the query token, and
  no plugin token; a plugin has presented a plugin token that its lease answers for, and asks for a
  route plugins may reach; a member asks for a route members may reach.
\<close>

theorem gateway_admits:
  assumes "fst (identity_middleware sha256 now now' now'' path members plugins rq st) = Inr i"
  shows "case i of
      Admin \<Rightarrow> bearer_plugin_token (rq_headers rq) = None \<and>
        (fst (check_headers now (rq_headers rq) st) \<or>
          query_token_allowed (rq_path rq) \<and> check_query_token st (rq_query rq))
    | Plugin _ _ _ _ \<Rightarrow> plugin_route_allowed (rq_method rq) (plugin_pattern rq) \<and>
        (\<exists>token. bearer_plugin_token (rq_headers rq) = Some token
          \<and> plugin_identity sha256 path members now'' token plugins = Some i)
    | Member _ _ _ \<Rightarrow> member_route_allowed (rq_method rq) (member_pattern rq) \<and>
        bearer_plugin_token (rq_headers rq) = None \<and>
        fst (resolve_identity sha256 now now' (rq_headers rq) path members st) = Some i"
proof (cases "bearer_plugin_token (rq_headers rq)")
  case None
  then show ?thesis
    using assms [unfolded gate_iff Let_def] resolve_admin [of sha256 now now' "rq_headers rq" path members st]
    by (cases i) (auto simp: resolve_not_plugin)
next
  case (Some token)
  then have i: "plugin_identity sha256 path members now'' token plugins = Some i"
    using assms by (simp add: gate_iff Let_def)
  then show ?thesis
    using plugin_identity_is_plugin [OF i] assms Some by (auto simp: gate_iff Let_def)
qed

text \<open>A plugin token that resolves, in a request that also carries a session of the user interface.\<close>

definition sample_plugin_request :: http_request where
  "sample_plugin_request = \<lparr>rq_method = ''GET'', rq_path = ''/api/graph/nodes'', rq_query = None,
     rq_matched = Some ''/api/graph/nodes'',
     rq_headers = \<lparr>rh_authorization = Some ''Bearer plugin-u'', rh_cookie = Some ''orgasmic_ui_session=s''\<rparr>\<rparr>"

theorem gateway_admits_witness:
  "\<exists>token. bearer_plugin_token (rq_headers sample_plugin_request) = Some token \<and>
     plugin_identity (\<lambda>s. s) ''members.org'' None 5 token sample_lease_state
       = Some (Plugin ''meet'' ''p'' [''nodes.read''] Admin)"
proof -
  have b: "bearer_plugin_token (rq_headers sample_plugin_request) = Some ''plugin-u''"
    "plugin_route_allowed ''GET'' (plugin_pattern sample_plugin_request)"
    by code_simp+
  have "plugin_identity (\<lambda>s. s) ''members.org'' None 5 ''plugin-u'' sample_lease_state
      = Some (Plugin ''meet'' ''p'' [''nodes.read''] Admin)"
    by (simp add: plugin_identity_def sample_lease_state_leases sample_snapshot_def sample_manifest_def Let_def)
  then have "fst (identity_middleware (\<lambda>s. s) 5 5 5 ''members.org'' None sample_lease_state sample_plugin_request
      (auth_new ''t'')) = Inr (Plugin ''meet'' ''p'' [''nodes.read''] Admin)"
    using b by (simp add: gate_iff Let_def) (simp add: sample_plugin_request_def)
  from gateway_admits [OF this] show ?thesis by simp
qed

lemma set_push_new: "set (fold (push_new \<circ> f) xs ys) = f ` set xs \<union> set ys"
  by (induction xs arbitrary: ys) (auto simp: push_new_def)

lemma set_named_actions: "action_name ` set (List.map_filter action_from_name names) = set names \<inter> range action_name"
proof -
  have "action_from_name (action_name a) = Some a" for a
    by (rule action.dec_enc)
  then show ?thesis
    by (force simp: List.map_filter_def image_iff action.dec_iff action.dec_enc)
qed

text \<open>
  The capability snapshot tells the truth: for every project it lists, the advertised
  capabilities are the names of exactly the actions the seam permits, for the administrator and for
  a member whose grant names a role.
\<close>

theorem me_capabilities_exact:
  assumes "identity = Admin \<or> (\<exists>role. role_for identity p = Some role \<and> role \<noteq> [])"
  shows "name \<in> set (me_capabilities identity (me_role identity p)) \<longleftrightarrow>
    (\<exists>a. name = action_name a \<and> is_ok (require identity (Some p) a))"
proof (cases identity)
  case Admin
  then show ?thesis using ALL_ACTIONS_complete by (auto simp: me_capabilities_def)
next
  case (Member n grants actions)
  then obtain role where role: "grant_role grants p = Some role" "role \<noteq> []" using assms by auto
  then show ?thesis
    using Member by (auto simp: me_capabilities_def me_role_def require_member_iff set_push_new set_named_actions)
qed (use assms in simp)

theorem me_capabilities_exact_witness:
  "''chat.execute'' \<in> set (me_capabilities (Member ''kim'' [(''p'', ''viewer'')] [''chat.execute''])
     (me_role (Member ''kim'' [(''p'', ''viewer'')] [''chat.execute'']) ''p''))"
proof -
  have "\<exists>role. role_for (Member ''kim'' [(''p'', ''viewer'')] [''chat.execute'']) ''p'' = Some role \<and> role \<noteq> []"
    by (simp add: grant_role_def)
  moreover have "is_ok (require (Member ''kim'' [(''p'', ''viewer'')] [''chat.execute'']) (Some ''p'') ChatExecute)"
    by code_simp
  moreover have "''chat.execute'' = action_name ChatExecute" by simp
  ultimately show ?thesis by (subst me_capabilities_exact) blast+
qed

section \<open>A login lasts\<close>

text \<open>What other requests do to a session: they prune at the times they read.\<close>

fun spares :: "string \<Rightarrow> int \<Rightarrow> auth_event \<Rightarrow> bool" where
  "spares k expires_at (MemberLogin random t t' name) \<longleftrightarrow> generate_token random \<noteq> k \<and> t' < expires_at"
| "spares k expires_at (MemberRequest t headers) \<longleftrightarrow> t < expires_at"
| "spares k expires_at _ \<longleftrightarrow> True"

lemma session_spared:
  "auth_ok st \<Longrightarrow> bt_get (member_sessions st) k = Some s \<Longrightarrow> list_all (spares k (ms_expires_at s)) es \<Longrightarrow>
   bt_get (member_sessions (fold auth_step es st)) k = Some s \<and> auth_ok (fold auth_step es st)"
proof (induction es arbitrary: st)
  case (Cons e es)
  have "bt_get (member_sessions (auth_step e st)) k = Some s"
    using Cons.prems login_store.lookup_other [OF Cons.prems(1), of e k s] by (cases e) auto
  then show ?case using Cons.IH [of "auth_step e st"] auth_step_ok [OF Cons.prems(1)] Cons.prems(3) by simp
qed simp

text \<open>
  Claim C40. A login lasts: after it, whatever logins with other tokens and requests come in between,
  and until the session expires, a request with the session's cookie and no administrator's
  credential passes the gate to every route of members, as the member with the entry the members
  file then has for the name.
\<close>

theorem member_login_lasts:
  assumes "auth_ok st"
    and "post_login sha256 random t t' path members token st = (Some (name, expires_at, cookie), st')"
    and "list_all (spares (generate_token random) expires_at) es"
    and "cookie_value (rq_headers rq) MEMBER_SESSION_COOKIE = Some (generate_token random)"
    and "bearer_plugin_token (rq_headers rq) = None"
    and "\<not> fst (check_headers now (rq_headers rq) (fold auth_step es st'))" "now' < expires_at"
    and "find_member_by_name path name members' = Inr (Some entry)"
    and "member_route_allowed (rq_method rq) (member_pattern rq)"
  shows "fst (identity_middleware sha256 now now' now'' path members' plugins rq (fold auth_step es st'))
    = Inr (member_identity entry)"
proof -
  let ?s = "\<lparr>ms_member_name = name, ms_expires_at = expires_at\<rparr>"
  let ?st = "fold auth_step es st'"
  let ?st1 = "snd (check_headers now (rq_headers rq) ?st)"
  have st': "st' = auth_step (MemberLogin random t t' name) st" and e: "expires_at = t + seconds MEMBER_SESSION_TTL_SECONDS"
    using assms(2) by (auto simp: post_login_def create_member_session_def Let_def split: sum.splits option.splits)
  have "bt_get (member_sessions st') (generate_token random) = Some ?s"
    unfolding st' e by (rule login_store.lookup_stored [OF assms(1)]) simp
  moreover have "auth_ok st'" unfolding st' by (rule auth_step_ok [OF assms(1)])
  ultimately have "bt_get (member_sessions ?st) (generate_token random) = Some ?s" "auth_ok ?st"
    using session_spared [of st' "generate_token random" ?s es] assms(3) by simp_all
  then have "bt_get (member_sessions ?st1) (generate_token random) = Some ?s" "auth_ok ?st1"
    using session_spared [of ?st "generate_token random" ?s "[UiRequest now (rq_headers rq)]"] by simp_all
  then have "fst (check_member_session now' (rq_headers rq) ?st1) = Some name"
    using member_prune_get [of ?st1 now' "generate_token random" ?s] assms(4,7)
    by (simp add: check_member_session_def Let_def)
  then have "fst (resolve_identity sha256 now now' (rq_headers rq) path members' ?st) = Some (member_identity entry)"
    using assms(6,8) by (simp add: resolve_identity_def found_member_def Let_def case_prod_unfold)
  then show ?thesis using assms(5,9) by (simp add: gate_iff Let_def member_identity_def)
qed

definition sample_member_request :: http_request where
  "sample_member_request = \<lparr>rq_method = ''GET'', rq_path = ''/api/me'', rq_query = None,
     rq_matched = Some ''/api/me'', rq_headers = sample_member_headers\<rparr>"

theorem member_login_lasts_witness:
  "\<exists>st'. snd (post_login (\<lambda>_. [CHR 0xAB]) ''r'' 10 10 ''members.org'' sample_members ''secret'' (auth_new ''token'')) = st' \<and>
     fst (identity_middleware (\<lambda>_. [CHR 0xAB]) 30 30 30 ''members.org'' sample_members sample_cached sample_member_request
       (fold auth_step [MemberLogin ''q'' 20 20 ''bob''] st')) = Inr (Member ''alice'' [(''p'', ''viewer'')] [])"
proof -
  let ?entry = "\<lparr>me_name = ''alice'', me_token_hash = ''ab'', me_grants = [(''p'', ''viewer'')], me_actions = []\<rparr>"
  let ?st = "snd (post_login (\<lambda>_. [CHR 0xAB]) ''r'' 10 10 ''members.org'' sample_members ''secret'' (auth_new ''token''))"
  have f: "find_member_by_token (\<lambda>_. [CHR 0xAB]) ''members.org'' ''secret'' sample_members = Inr (Some ?entry)"
    "find_member_by_name ''members.org'' ''alice'' sample_members = Inr (Some ?entry)"
  proof -
    have "sha256_hex (\<lambda>_. [CHR 0xAB]) (trim ''secret'') = ''ab''" by code_simp
    then show "find_member_by_token (\<lambda>_. [CHR 0xAB]) ''members.org'' ''secret'' sample_members = Inr (Some ?entry)"
      by (simp add: find_member_by_token_def sample_members_read)
  qed (simp add: find_member_by_name_def sample_members_read)
  have l: "\<exists>cookie. post_login (\<lambda>_. [CHR 0xAB]) ''r'' 10 10 ''members.org'' sample_members ''secret'' (auth_new ''token'')
      = (Some (''alice'', 10 + seconds MEMBER_SESSION_TTL_SECONDS, cookie), ?st)"
    by (simp add: post_login_def f create_member_session_def Let_def)
  then obtain cookie where l: "post_login (\<lambda>_. [CHR 0xAB]) ''r'' 10 10 ''members.org'' sample_members ''secret'' (auth_new ''token'')
      = (Some (''alice'', 10 + seconds MEMBER_SESSION_TTL_SECONDS, cookie), ?st)" by blast
  have s: "?st = auth_run ''token'' [MemberLogin ''r'' 10 10 ''alice'']"
    by (simp add: post_login_def f auth_run_def case_prod_unfold Let_def)
  have ok: "auth_ok (auth_new ''token'')" by (simp add: auth_ok_def auth_new_def)
  have sp: "list_all (spares (generate_token ''r'') (10 + seconds MEMBER_SESSION_TTL_SECONDS)) [MemberLogin ''q'' 20 20 ''bob'']"
    by code_simp
  have rq: "rq_headers sample_member_request = sample_member_headers"
    "member_route_allowed (rq_method sample_member_request) (member_pattern sample_member_request)"
    "bearer_plugin_token sample_member_headers = None"
    by code_simp+
  have c: "\<not> fst (check_headers 30 sample_member_headers (fold auth_step [MemberLogin ''q'' 20 20 ''bob''] ?st))"
    unfolding s using sample_login_headers(1) [of 30 "''token''" "[MemberLogin ''r'' 10 10 ''alice'', MemberLogin ''q'' 20 20 ''bob'']"]
    by (simp add: auth_run_def)
  have "fst (identity_middleware (\<lambda>_. [CHR 0xAB]) 30 30 30 ''members.org'' sample_members sample_cached sample_member_request
       (fold auth_step [MemberLogin ''q'' 20 20 ''bob''] ?st)) = Inr (member_identity ?entry)"
    by (rule member_login_lasts [OF ok l sp]) (use sample_login_headers(2) rq c f(2) in \<open>simp_all add: seconds_def MEMBER_SESSION_TTL_SECONDS_def\<close>)
  then show ?thesis by (simp add: member_identity_def)
qed

section \<open>Assets stay inside\<close>

lemma safe_asset_path:
  assumes "safe_app_asset_path path = Some p"
  shows "p = ''index.html'' \<or> list_all (\<lambda>segment. segment \<notin> {[], ''.'', ''..''}) (split_on (CHR ''/'') p)"
  using assms by (auto simp: safe_app_asset_path_def Let_def list_all_iff list_ex_iff split: if_splits)

end
