(* ===== verification/Recovery_Store.thy ===== *)
theory Recovery_Store
  imports Auth Session_Scan
begin

unbundle bit_operations_syntax

text \<open>
  The store of recovery claims, first half of \<open>crates/orgasmic-daemon/src/recovery_claim.rs\<close>: a claim
  says which run replaces a failed one; it is written before the replacement is spawned and signed
  with a key of the host, one file per origin. Every system call may fail: the world carries the
  errors the next calls meet, in order, and whatever does not fail acts on the files. The JSON
  library, SHA-256, the random bytes of a fresh token and fresh identifiers are arguments. The cases of
  the code under \<open>cfg(unix)\<close> are modelled.
\<close>

section \<open>What an error says\<close>

datatype errno = ENOENT | EEXIST | ELOOP | ENOTDIR | EISDIR | ENAMETOOLONG | OtherErrno nat

datatype io_kind = KindNotFound | KindAlreadyExists | KindInvalidData | KindInvalidInput | OtherKind

datatype io_error = OsError errno | SimpleError io_kind

fun error_kind :: "io_error \<Rightarrow> io_kind" where
  "error_kind (OsError ENOENT) = KindNotFound"
| "error_kind (OsError EEXIST) = KindAlreadyExists"
| "error_kind (OsError _) = OtherKind"
| "error_kind (SimpleError k) = k"

datatype observation_class = ObsAbsent | ObsDecided | ObsUnobserved

fun classify_observation :: "io_error \<Rightarrow> observation_class" where
  "classify_observation (OsError code) =
     (case code of
        ENOENT \<Rightarrow> ObsAbsent
      | ELOOP \<Rightarrow> ObsDecided | ENOTDIR \<Rightarrow> ObsDecided | EISDIR \<Rightarrow> ObsDecided | ENAMETOOLONG \<Rightarrow> ObsDecided
      | _ \<Rightarrow> ObsUnobserved)"
| "classify_observation (SimpleError kind) =
     (case kind of
        KindNotFound \<Rightarrow> ObsAbsent
      | KindInvalidData \<Rightarrow> ObsDecided | KindInvalidInput \<Rightarrow> ObsDecided
      | _ \<Rightarrow> ObsUnobserved)"

datatype unobserved_session =
    SessionDirectoryUnavailable
  | SessionUnreadable
  | OriginSessionUnreadable
  | AuthorityKeyUnreadable
  | SessionPathUnresolvable
  | ClaimStoreUnreadable
  | ClaimFileUnreadable
  | TmuxHandleUnobserved

datatype remediation =
    RepairSessionFile | RepairSessionStore | RepairAuthKey | RepairClaimStore | RepairTmux

fun remediation_of :: "unobserved_session \<Rightarrow> remediation" where
  "remediation_of SessionUnreadable = RepairSessionFile"
| "remediation_of OriginSessionUnreadable = RepairSessionFile"
| "remediation_of SessionDirectoryUnavailable = RepairSessionStore"
| "remediation_of SessionPathUnresolvable = RepairSessionStore"
| "remediation_of AuthorityKeyUnreadable = RepairAuthKey"
| "remediation_of ClaimStoreUnreadable = RepairClaimStore"
| "remediation_of ClaimFileUnreadable = RepairClaimStore"
| "remediation_of TmuxHandleUnobserved = RepairTmux"

record unobserved_evidence =
  ue_reason :: unobserved_session
  ue_subject :: "string option"
  ue_remediation :: remediation

definition evidence_new :: "unobserved_session \<Rightarrow> unobserved_evidence" where
  "evidence_new reason = \<lparr>ue_reason = reason, ue_subject = None, ue_remediation = remediation_of reason\<rparr>"

definition with_subject :: "string option \<Rightarrow> unobserved_evidence \<Rightarrow> unobserved_evidence" where
  "with_subject subject e = (if ue_subject e = None then e\<lparr>ue_subject := subject\<rparr> else e)"

definition evidence_for :: "unobserved_session \<Rightarrow> string \<Rightarrow> unobserved_evidence" where
  "evidence_for reason subject = with_subject (Some subject) (evidence_new reason)"

datatype claim_evidence = EvValid | EvInvalid | EvUnobserved unobserved_evidence

definition verified :: "bool \<Rightarrow> claim_evidence" where
  "verified held = (if held then EvValid else EvInvalid)"

definition evidence_about :: "claim_evidence \<Rightarrow> string \<Rightarrow> claim_evidence" where
  "evidence_about evidence subject =
     (case evidence of EvUnobserved u \<Rightarrow> EvUnobserved (with_subject (Some subject) u) | other \<Rightarrow> other)"

section \<open>Paths\<close>

text \<open>A path is the list of its components, with \<open>/\<close> for the root.\<close>

type_synonym file_path = "string list"

definition normal_component :: "string \<Rightarrow> bool" where
  "normal_component c \<longleftrightarrow> c \<noteq> ''/'' \<and> c \<noteq> ''.'' \<and> c \<noteq> ''..''"

definition path_is_absolute :: "file_path \<Rightarrow> bool" where
  "path_is_absolute p \<longleftrightarrow> p \<noteq> [] \<and> hd p = ''/''"

definition path_parent :: "file_path \<Rightarrow> file_path option" where
  "path_parent p = (if p = [] \<or> p = [''/''] then None else Some (butlast p))"

definition path_file_name :: "file_path \<Rightarrow> string option" where
  "path_file_name p = (if p \<noteq> [] \<and> normal_component (last p) then Some (last p) else None)"

definition path_strip_prefix :: "file_path \<Rightarrow> file_path \<Rightarrow> file_path option" where
  "path_strip_prefix root p = (if take (length root) p = root then Some (drop (length root) p) else None)"

definition subject_byte :: "char \<Rightarrow> char" where
  "subject_byte b = (if is_ascii_alphanumeric b \<or> b \<in> {CHR ''.'', CHR ''_'', CHR ''-''} then b else CHR ''_'')"

definition sanitized_subject :: "file_path \<Rightarrow> file_path \<Rightarrow> string" where
  "sanitized_subject project_root path =
     (let relative = (case path_strip_prefix project_root path of
            Some r \<Rightarrow> r
          | None \<Rightarrow> [case path_file_name path of None \<Rightarrow> ''unnamed'' | Some n \<Rightarrow> n]);
          out = join ''/'' (map (map subject_byte) (filter normal_component relative))
      in take 120 (if out = [] then ''unnamed'' else out))"

definition validate_safe_component :: "string \<Rightarrow> bool" where
  "validate_safe_component v \<longleftrightarrow>
     v \<noteq> [] \<and> CHR ''/'' \<notin> set v \<and> CHR 0x5C \<notin> set v \<and> v \<noteq> ''.'' \<and> v \<noteq> ''..''"

section \<open>Claims\<close>

datatype recovery_claim_status = ClaimPending | ClaimCommitted

record recovery_run_options =
  ro_stall_timeout_secs :: "(32 word) option"
  ro_max_run_duration_secs :: "(32 word) option"
  ro_idle_timeout_secs :: "(32 word) option"
  ro_cleanup_on_failure :: bool

record native_runtime_meta =
  nr_provider :: string
  nr_session_id :: "string option"
  nr_session_path :: "file_path option"
  nr_launch_argv :: "string list"
  nr_resume_argv :: "string list"
  nr_credential_mode :: "string option"

record recovery_claim =
  rc_plan_version :: "(32 word) option"
  rc_authority_tag :: "string option"
  rc_project_id :: string
  rc_origin_run_id :: string
  rc_request_id :: string
  rc_status :: recovery_claim_status
  rc_replacement_run_id :: string
  rc_replacement_session_path :: file_path
  rc_replacement_runtime_id :: string
  rc_runtime_id :: "string option"
  rc_boot_id :: "string option"
  rc_action :: "string option"
  rc_target :: "string option"
  rc_draft_prompt :: "string option"
  rc_origin_session_path :: "file_path option"
  rc_planned_tmux_session :: "string option"
  rc_task_id :: "string option"
  rc_kind :: "string option"
  rc_worker_id :: "string option"
  rc_role :: "string option"
  rc_requires_worker_finalize :: "bool option"
  rc_transport :: "string option"
  rc_harness :: "string option"
  rc_driver_config :: "json option"
  rc_force_inert :: "bool option"
  rc_worktree :: "file_path option"
  rc_last_path :: "file_path option"
  rc_stdout_path :: "file_path option"
  rc_planned_native_runtime :: "native_runtime_meta option"
  rc_run_options :: "recovery_run_options option"
  rc_spawn_started :: bool

datatype recovery_claim_error =
    InvalidIdentifier
  | UnresolvableProjectRoot
  | AlreadyClaimed recovery_claim
  | CorruptClaim
  | MissingClaim
  | DeadPlannedHandle
  | ForeignSessionPath
  | RcUnobserved unobserved_evidence
  | RcIo io_error

definition claim_io_error :: "unobserved_session \<Rightarrow> string option \<Rightarrow> io_error \<Rightarrow> recovery_claim_error" where
  "claim_io_error reason subject err =
     (case classify_observation err of
        ObsAbsent \<Rightarrow> RcIo err
      | ObsDecided \<Rightarrow> CorruptClaim
      | ObsUnobserved \<Rightarrow> RcUnobserved (with_subject subject (evidence_new reason)))"

definition is_not_found :: "recovery_claim_error \<Rightarrow> bool" where
  "is_not_found e \<longleftrightarrow> (case e of RcIo err \<Rightarrow> error_kind err = KindNotFound | _ \<Rightarrow> False)"

definition nonempty :: "string option \<Rightarrow> bool" where
  "nonempty v \<longleftrightarrow> (case v of None \<Rightarrow> False | Some s \<Rightarrow> s \<noteq> [])"

definition is_ascii_hexdigit :: "char \<Rightarrow> bool" where
  "is_ascii_hexdigit c \<longleftrightarrow>
     is_ascii_digit c \<or> 65 \<le> byte c \<and> byte c \<le> 70 \<or> 97 \<le> byte c \<and> byte c \<le> 102"

definition recovery_claim_has_complete_plan :: "recovery_claim \<Rightarrow> bool" where
  "recovery_claim_has_complete_plan c \<longleftrightarrow>
     rc_plan_version c = Some 1 \<and>
     (case rc_authority_tag c of None \<Rightarrow> False | Some tag \<Rightarrow> length tag = 64 \<and> list_all is_ascii_hexdigit tag) \<and>
     rc_runtime_id c = Some (rc_replacement_runtime_id c) \<and>
     nonempty (rc_boot_id c) \<and> nonempty (rc_action c) \<and> nonempty (rc_target c) \<and>
     rc_draft_prompt c \<noteq> None \<and> rc_origin_session_path c \<noteq> None \<and>
     nonempty (rc_planned_tmux_session c) \<and> nonempty (rc_task_id c) \<and> nonempty (rc_kind c) \<and>
     nonempty (rc_worker_id c) \<and> nonempty (rc_role c) \<and> rc_requires_worker_finalize c \<noteq> None \<and>
     nonempty (rc_transport c) \<and> nonempty (rc_harness c) \<and> rc_driver_config c \<noteq> None \<and>
     rc_force_inert c \<noteq> None \<and> rc_run_options c \<noteq> None"

section \<open>The world of a call\<close>

text \<open>A claim file is text, bytes that are not UTF-8, or no regular file; a session file is its bytes, or
  no regular file; the token is a regular file. The
  store has a directory for each project, the sessions those of the one project.\<close>

datatype claim_file = TextFile string | NotText | NotRegular

type_synonym claim_files = "(string \<times> claim_file) list"

record claim_world =
  cw_token :: "string option"
  cw_store :: "(string \<times> claim_files) list option"
  cw_sessions :: "(string \<times> string option) list option"
  cw_faults :: "io_error option list"

type_synonym 'a rc = "claim_world \<Rightarrow> (recovery_claim_error + 'a) \<times> claim_world"

definition rc_ok :: "'a \<Rightarrow> 'a rc" where
  "rc_ok x w = (Inr x, w)"

definition rc_err :: "recovery_claim_error \<Rightarrow> 'a rc" where
  "rc_err e w = (Inl e, w)"

definition rc_then ::
  "(claim_world \<Rightarrow> 'a \<times> claim_world) \<Rightarrow> ('a \<Rightarrow> claim_world \<Rightarrow> 'b \<times> claim_world) \<Rightarrow> claim_world \<Rightarrow> 'b \<times> claim_world" where
  "rc_then m f w = (case m w of (r, w') \<Rightarrow> f r w')"

text \<open>The question mark.\<close>

definition rc_bind :: "'a rc \<Rightarrow> ('a \<Rightarrow> 'b rc) \<Rightarrow> 'b rc" where
  "rc_bind m f = rc_then m (case_sum rc_err f)"

definition rc_lift :: "recovery_claim_error + 'a \<Rightarrow> 'a rc" where
  "rc_lift r w = (r, w)"

text \<open>One system call: it meets the next error, or it acts.\<close>

definition raw_sys :: "(claim_world \<Rightarrow> (io_error + 'a) \<times> claim_world) \<Rightarrow> claim_world \<Rightarrow> (io_error + 'a) \<times> claim_world" where
  "raw_sys act w =
     (case cw_faults w of
        [] \<Rightarrow> act w
      | None # fs \<Rightarrow> act (w\<lparr>cw_faults := fs\<rparr>)
      | Some e # fs \<Rightarrow> (Inl e, w\<lparr>cw_faults := fs\<rparr>))"

definition sys :: "(io_error \<Rightarrow> recovery_claim_error) \<Rightarrow> (claim_world \<Rightarrow> (io_error + 'a) \<times> claim_world) \<Rightarrow> 'a rc" where
  "sys conv act = rc_then (raw_sys act) (\<lambda>r. rc_lift (map_sum conv id r))"

definition nop :: "claim_world \<Rightarrow> (io_error + unit) \<times> claim_world" where
  "nop w = (Inr (), w)"

definition found :: "'a option \<Rightarrow> io_error + 'a" where
  "found x = (case x of None \<Rightarrow> Inl (OsError ENOENT) | Some y \<Rightarrow> Inr y)"

section \<open>The claim directory\<close>

definition claims_of :: "string \<Rightarrow> claim_world \<Rightarrow> claim_files" where
  "claims_of project w =
     (case Option.bind (cw_store w) (\<lambda>s. bt_get s project) of None \<Rightarrow> [] | Some fs \<Rightarrow> fs)"

definition set_claims :: "string \<Rightarrow> claim_files \<Rightarrow> claim_world \<Rightarrow> claim_world" where
  "set_claims project fs w =
     w\<lparr>cw_store := Some (bt_insert project fs (case cw_store w of None \<Rightarrow> [] | Some s \<Rightarrow> s))\<rparr>"

abbreviation store_error :: "string option \<Rightarrow> io_error \<Rightarrow> recovery_claim_error" where
  "store_error \<equiv> claim_io_error ClaimStoreUnreadable"

text \<open>The two components below the state root: the store and the directory of the project.\<close>

datatype store_component = RootComponent | ProjectComponent string

definition component_name :: "store_component \<Rightarrow> string" where
  "component_name c = (case c of RootComponent \<Rightarrow> ''recovery-claims'' | ProjectComponent p \<Rightarrow> p)"

definition component_there :: "store_component \<Rightarrow> claim_world \<Rightarrow> bool" where
  "component_there c w \<longleftrightarrow>
     (case c of
        RootComponent \<Rightarrow> cw_store w \<noteq> None
      | ProjectComponent p \<Rightarrow> Option.bind (cw_store w) (\<lambda>s. bt_get s p) \<noteq> None)"

definition make_component :: "store_component \<Rightarrow> claim_world \<Rightarrow> (io_error + unit) \<times> claim_world" where
  "make_component c w =
     (if component_there c w then (Inl (OsError EEXIST), w)
      else (Inr (), case c of RootComponent \<Rightarrow> w\<lparr>cw_store := Some []\<rparr> | ProjectComponent p \<Rightarrow> set_claims p [] w))"

definition open_at :: "store_component \<Rightarrow> claim_world \<Rightarrow> (io_error + unit) \<times> claim_world" where
  "open_at c w = (found (if component_there c w then Some () else None), w)"

text \<open>Whether the component is there; it is made when \<open>create\<close> asks for it.\<close>

definition open_component :: "bool \<Rightarrow> store_component \<Rightarrow> bool rc" where
  "open_component create c =
     rc_then (raw_sys (open_at c)) (\<lambda>r. rc_bind
       (case r of
          Inr _ \<Rightarrow> rc_ok True
        | Inl err \<Rightarrow>
            (case classify_observation err of
               ObsAbsent \<Rightarrow>
                 if \<not> create then rc_ok False
                 else
                   rc_bind
                     (rc_then (raw_sys (make_component c)) (\<lambda>m.
                        case m of
                          Inr _ \<Rightarrow> rc_ok ()
                        | Inl e \<Rightarrow> if error_kind e \<noteq> KindAlreadyExists
                            then rc_err (store_error (Some (component_name c)) e) else rc_ok ()))
                     (\<lambda>_. rc_bind (sys (store_error None) nop) (\<lambda>_.
                       rc_bind (sys (store_error (Some (component_name c))) (open_at c)) (\<lambda>_. rc_ok True)))
             | ObsDecided \<Rightarrow> rc_err CorruptClaim
             | ObsUnobserved \<Rightarrow> rc_err (RcUnobserved (evidence_for ClaimStoreUnreadable (component_name c)))))
       (\<lambda>there. if \<not> there then rc_ok False
          else rc_bind (sys (store_error (Some (component_name c))) nop) (\<lambda>_. rc_ok True)))"

definition claim_dir_open :: "string \<Rightarrow> bool \<Rightarrow> bool rc" where
  "claim_dir_open project create =
     (if \<not> validate_safe_component project then rc_err InvalidIdentifier
      else
        rc_bind (sys (store_error None) nop) (\<lambda>_.
        rc_bind (sys (store_error None) nop) (\<lambda>_.
        rc_bind (open_component create RootComponent) (\<lambda>there.
          if \<not> there then rc_ok False else open_component create (ProjectComponent project)))))"

abbreviation file_error :: "string \<Rightarrow> io_error \<Rightarrow> recovery_claim_error" where
  "file_error name \<equiv> claim_io_error ClaimFileUnreadable (Some (sanitized_subject [] [name]))"

definition read_regular :: "string \<Rightarrow> string \<Rightarrow> string rc" where
  "read_regular project name =
     rc_bind (sys (file_error name) (\<lambda>w. (found (bt_get (claims_of project w) name), w))) (\<lambda>f.
     rc_bind (sys (file_error name) nop) (\<lambda>_.
       if f = NotRegular then rc_err CorruptClaim
       else sys (file_error name) (\<lambda>w.
         (case f of TextFile t \<Rightarrow> Inr t | _ \<Rightarrow> Inl (SimpleError KindInvalidData), w))))"

definition rename_act :: "string \<Rightarrow> string \<Rightarrow> string \<Rightarrow> claim_world \<Rightarrow> (io_error + unit) \<times> claim_world" where
  "rename_act project from to w =
     (case bt_get (claims_of project w) from of
        None \<Rightarrow> (Inl (OsError ENOENT), w)
      | Some f \<Rightarrow> (Inr (), if from = to then w
          else set_claims project (bt_insert to f (bt_remove from (claims_of project w))) w))"

definition claim_rename :: "string \<Rightarrow> string \<Rightarrow> string \<Rightarrow> unit rc" where
  "claim_rename project from to = sys RcIo (rename_act project from to)"

definition remove_act :: "string \<Rightarrow> string \<Rightarrow> claim_world \<Rightarrow> (io_error + unit) \<times> claim_world" where
  "remove_act project name w =
     (if bt_get (claims_of project w) name = None then (Inl (OsError ENOENT), w)
      else (Inr (), set_claims project (bt_remove name (claims_of project w)) w))"

definition claim_remove :: "string \<Rightarrow> string \<Rightarrow> bool rc" where
  "claim_remove project name =
     rc_then (raw_sys (remove_act project name)) (\<lambda>r.
       case r of
         Inr _ \<Rightarrow> rc_ok True
       | Inl e \<Rightarrow> if error_kind e = KindNotFound then rc_ok False else rc_err (RcIo e))"

text \<open>One call of \<open>readdir\<close> for every entry and one for the end; an error still closes.\<close>

fun read_entries :: "string list \<Rightarrow> string list rc" where
  "read_entries [] =
     rc_then (raw_sys nop) (\<lambda>r. case r of
         Inl e \<Rightarrow> rc_then (raw_sys nop) (\<lambda>_. rc_err (store_error None e))
       | Inr _ \<Rightarrow> rc_bind (sys (store_error None) nop) (\<lambda>_. rc_ok []))"
| "read_entries (n # ns) =
     rc_then (raw_sys nop) (\<lambda>r. case r of
         Inl e \<Rightarrow> rc_then (raw_sys nop) (\<lambda>_. rc_err (store_error None e))
       | Inr _ \<Rightarrow> rc_bind (read_entries ns) (\<lambda>rest. rc_ok (n # rest)))"

definition claim_names :: "string \<Rightarrow> string list rc" where
  "claim_names project =
     rc_bind (sys (store_error None) nop) (\<lambda>_.
     rc_bind (sys (store_error None) nop) (\<lambda>_ w.
       read_entries (map fst (claims_of project w)) w))"

definition claim_sync :: "unit rc" where
  "claim_sync = sys RcIo nop"

section \<open>Authority\<close>

record claim_codec =
  cc_parse :: "string \<Rightarrow> recovery_claim option"
  cc_text :: "recovery_claim \<Rightarrow> string"
  cc_payload :: "recovery_claim \<Rightarrow> string option"
  cc_sha256 :: "string \<Rightarrow> string"
  cc_random :: string
  cc_ulid :: "string \<Rightarrow> bool"
  cc_uuid :: "string \<Rightarrow> string option"

definition ascii_whitespace_byte :: "char \<Rightarrow> bool" where
  "ascii_whitespace_byte c \<longleftrightarrow> c \<in> {CHR 0x20, CHR 0x09, CHR 0x0A, CHR 0x0C, CHR 0x0D}"

definition token_is_present :: "bool rc" where
  "token_is_present =
     sys (claim_io_error AuthorityKeyUnreadable (Some ''auth/token'')) (\<lambda>w. (Inr (cw_token w \<noteq> None), w))"

text \<open>A token that is not there is generated; that it is a regular file is part of the world.\<close>

definition authority_key :: "claim_codec \<Rightarrow> string rc" where
  "authority_key cc =
     rc_bind token_is_present (\<lambda>present.
     rc_bind
       (if present then rc_ok ()
        else sys (\<lambda>_. CorruptClaim) (\<lambda>w.
          (Inr (), w\<lparr>cw_token := snd (load_or_generate (cc_random cc) (cw_token w))\<rparr>)))
       (\<lambda>_. rc_bind (sys RcIo (\<lambda>w. (found (cw_token w), w))) (\<lambda>raw.
         rc_bind (sys RcIo nop) (\<lambda>_. rc_bind (sys RcIo nop) (\<lambda>_.
           let key = rev (dropWhile ascii_whitespace_byte (rev raw))
           in if key = [] then rc_err CorruptClaim else rc_ok key)))))"

definition xor_pad :: "nat \<Rightarrow> string \<Rightarrow> string" where
  "xor_pad pad key = map (\<lambda>c. char_of (pad XOR byte c)) key"

definition normalized_key :: "(string \<Rightarrow> string) \<Rightarrow> string \<Rightarrow> string" where
  "normalized_key sha256 key =
     (let k = (if 64 < length key then sha256 key else key) in k @ replicate (64 - length k) (CHR 0x00))"

definition hmac_sha256 :: "(string \<Rightarrow> string) \<Rightarrow> string \<Rightarrow> string \<Rightarrow> string" where
  "hmac_sha256 sha256 key message =
     (let k = normalized_key sha256 key
      in sha256 (xor_pad 0x5c k @ sha256 (xor_pad 0x36 k @ message)))"

definition authority_payload :: "claim_codec \<Rightarrow> recovery_claim \<Rightarrow> recovery_claim_error + string" where
  "authority_payload cc claim =
     ok_or CorruptClaim (cc_payload cc (claim\<lparr>rc_authority_tag := None, rc_status := ClaimPending\<rparr>))"

definition mac_text :: "claim_codec \<Rightarrow> string \<Rightarrow> string \<Rightarrow> string" where
  "mac_text cc key payload = hex_bytes (hmac_sha256 (cc_sha256 cc) key payload)"

definition authority_tag :: "claim_codec \<Rightarrow> recovery_claim \<Rightarrow> string rc" where
  "authority_tag cc claim =
     rc_bind (authority_key cc) (\<lambda>key.
     rc_bind (rc_lift (authority_payload cc claim)) (\<lambda>payload. rc_ok (mac_text cc key payload)))"

definition claim_has_valid_authority :: "claim_codec \<Rightarrow> recovery_claim \<Rightarrow> claim_world \<Rightarrow> claim_evidence \<times> claim_world" where
  "claim_has_valid_authority cc claim w =
     (case rc_authority_tag claim of
        None \<Rightarrow> (EvInvalid, w)
      | Some actual \<Rightarrow>
          (case authority_key cc w of
             (Inl (RcUnobserved evidence), w) \<Rightarrow> (EvUnobserved evidence, w)
           | (Inl _, w) \<Rightarrow> (EvUnobserved (evidence_for AuthorityKeyUnreadable ''auth/token''), w)
           | (Inr key, w) \<Rightarrow>
               (case authority_payload cc claim of
                  Inl _ \<Rightarrow> (EvInvalid, w)
                | Inr payload \<Rightarrow> (verified (actual = mac_text cc key payload), w))))"



section \<open>Claim files\<close>

definition claim_file_name :: "string \<Rightarrow> recovery_claim_error + string" where
  "claim_file_name origin =
     (if \<not> validate_safe_component origin then Inl InvalidIdentifier else Inr (origin @ ''.json''))"

definition temp_prefix :: "string \<Rightarrow> string" where
  "temp_prefix final = final @ ''.tmp.''"

text \<open>Does a temporary file hold a claim this daemon wrote for the origin?\<close>

definition temp_authentic ::
  "claim_codec \<Rightarrow> string \<Rightarrow> string \<Rightarrow> string \<Rightarrow> bool rc" where
  "temp_authentic cc project origin raw =
     (case cc_parse cc raw of
        None \<Rightarrow> rc_ok False
      | Some claim \<Rightarrow>
          if rc_project_id claim = project \<and> rc_origin_run_id claim = origin \<and> recovery_claim_has_complete_plan claim
          then rc_then (claim_has_valid_authority cc claim) (\<lambda>ev.
            case ev of
              EvValid \<Rightarrow> rc_ok True
            | EvInvalid \<Rightarrow> rc_ok False
            | EvUnobserved reason \<Rightarrow> rc_err (RcUnobserved reason))
          else rc_ok False)"

text \<open>The authentic ones among the temporary files; the others are removed, if that works.\<close>

fun sift_temps :: "claim_codec \<Rightarrow> string \<Rightarrow> string \<Rightarrow> string list \<Rightarrow> string list rc" where
  "sift_temps cc project origin [] = rc_ok []"
| "sift_temps cc project origin (name # names) =
     rc_then (read_regular project name) (\<lambda>r.
       case r of
         Inl e \<Rightarrow> if is_not_found e then sift_temps cc project origin names else rc_err e
       | Inr raw \<Rightarrow>
           rc_bind (temp_authentic cc project origin raw) (\<lambda>authentic.
             if authentic then rc_bind (sift_temps cc project origin names) (\<lambda>rest. rc_ok (name # rest))
             else rc_then (claim_remove project name) (\<lambda>_. sift_temps cc project origin names)))"

definition promote_temp :: "string \<Rightarrow> string \<Rightarrow> string list \<Rightarrow> unit rc" where
  "promote_temp project final valid =
     (if 1 < length valid then rc_err CorruptClaim
      else
        (case valid of
           [] \<Rightarrow> rc_ok ()
         | name # _ \<Rightarrow> rc_bind (claim_rename project name final) (\<lambda>_. claim_sync)))"

definition reconcile_stale_claim_temp :: "claim_codec \<Rightarrow> string \<Rightarrow> string \<Rightarrow> unit rc" where
  "reconcile_stale_claim_temp cc project origin =
     rc_bind (claim_dir_open project False) (\<lambda>there.
       if \<not> there then rc_ok ()
       else
         rc_bind (rc_lift (claim_file_name origin)) (\<lambda>final.
         rc_then (read_regular project final) (\<lambda>r.
           case r of
             Inr _ \<Rightarrow> rc_ok ()
           | Inl e \<Rightarrow>
               if \<not> is_not_found e then rc_err e
               else
                 rc_bind (claim_names project) (\<lambda>names.
                 rc_bind (sift_temps cc project origin (filter (\<lambda>n. starts_with n (temp_prefix final)) names))
                   (promote_temp project final)))))"

definition file_of_bytes :: "string \<Rightarrow> claim_file" where
  "file_of_bytes bytes = (if rust_str bytes then TextFile bytes else NotText)"

definition put_claim :: "string \<Rightarrow> string \<Rightarrow> claim_file \<Rightarrow> claim_world \<Rightarrow> claim_world" where
  "put_claim project name f w = set_claims project (bt_insert name f (claims_of project w)) w"

text \<open>A write that fails has written the first \<open>torn\<close> bytes.\<close>

definition write_temp :: "nat \<Rightarrow> string \<Rightarrow> string \<Rightarrow> string \<Rightarrow> unit rc" where
  "write_temp torn project name text =
     rc_bind (sys RcIo (\<lambda>w.
       if bt_get (claims_of project w) name \<noteq> None then (Inl (OsError EEXIST), w)
       else (Inr (), put_claim project name (TextFile []) w))) (\<lambda>_.
     rc_bind (\<lambda>w. case raw_sys nop w of
         (Inl e, w) \<Rightarrow> (Inl (RcIo e), put_claim project name (file_of_bytes (take torn text)) w)
       | (Inr _, w) \<Rightarrow> (Inr (), put_claim project name (file_of_bytes text) w)) (\<lambda>_.
     sys RcIo nop))"

definition write_claim_atomic :: "claim_codec \<Rightarrow> nat \<Rightarrow> string \<Rightarrow> recovery_claim \<Rightarrow> unit rc" where
  "write_claim_atomic cc torn uuid claim =
     (let project = rc_project_id claim
      in rc_bind (claim_dir_open project True) (\<lambda>there.
         if \<not> there then rc_err CorruptClaim
         else
           rc_bind (rc_lift (claim_file_name (rc_origin_run_id claim))) (\<lambda>final.
             let tmp = temp_prefix final @ uuid
             in rc_then
                  (rc_bind (write_temp torn project tmp (cc_text cc claim)) (\<lambda>_.
                   rc_bind (claim_rename project tmp final) (\<lambda>_. claim_sync)))
                  (\<lambda>result. case result of
                     Inr _ \<Rightarrow> rc_ok ()
                   | Inl e \<Rightarrow> rc_then (claim_remove project tmp) (\<lambda>_. rc_err e)))))"

definition write_claim_atomic_or_reconcile ::
  "claim_codec \<Rightarrow> nat \<Rightarrow> string \<Rightarrow> string \<Rightarrow> recovery_claim \<Rightarrow> unit rc" where
  "write_claim_atomic_or_reconcile cc torn uuid uuid' claim =
     rc_then (write_claim_atomic cc torn uuid claim) (\<lambda>r.
       case r of
         Inr _ \<Rightarrow> rc_ok ()
       | Inl e \<Rightarrow>
           if (case e of RcIo err \<Rightarrow> error_kind err = KindAlreadyExists | _ \<Rightarrow> False)
           then rc_bind (reconcile_stale_claim_temp cc (rc_project_id claim) (rc_origin_run_id claim)) (\<lambda>_.
             write_claim_atomic cc torn uuid' claim)
           else rc_err e)"

text \<open>What a file that was read must be: a whole plan for this origin, signed by this host.\<close>

definition check_claim :: "claim_codec \<Rightarrow> string \<Rightarrow> string \<Rightarrow> string \<Rightarrow> recovery_claim option rc" where
  "check_claim cc project origin raw =
     (case cc_parse cc raw of
        None \<Rightarrow> rc_err CorruptClaim
      | Some claim \<Rightarrow>
          if rc_project_id claim \<noteq> project \<or> rc_origin_run_id claim \<noteq> origin then rc_err CorruptClaim
          else if \<not> recovery_claim_has_complete_plan claim then rc_err CorruptClaim
          else rc_then (claim_has_valid_authority cc claim) (\<lambda>ev.
            case ev of
              EvValid \<Rightarrow> rc_ok (Some claim)
            | EvInvalid \<Rightarrow> rc_err CorruptClaim
            | EvUnobserved reason \<Rightarrow> rc_err (RcUnobserved reason)))"

definition load_recovery_claim :: "claim_codec \<Rightarrow> string \<Rightarrow> string \<Rightarrow> recovery_claim option rc" where
  "load_recovery_claim cc project origin =
     rc_bind (rc_lift (claim_file_name origin)) (\<lambda>name.
     rc_bind (claim_dir_open project False) (\<lambda>there.
       if \<not> there then rc_ok None
       else
         rc_then (read_regular project name) (\<lambda>r.
           case r of
             Inr raw \<Rightarrow> check_claim cc project origin raw
           | Inl e \<Rightarrow>
               if \<not> is_not_found e then rc_err e
               else
                 rc_bind (reconcile_stale_claim_temp cc project origin) (\<lambda>_.
                 rc_bind (claim_dir_open project False) (\<lambda>there.
                   if \<not> there then rc_ok None
                   else
                     rc_then (read_regular project name) (\<lambda>r.
                       case r of
                         Inr raw \<Rightarrow> check_claim cc project origin raw
                       | Inl e \<Rightarrow> if is_not_found e then rc_ok None else rc_err e))))))"

definition quarantine_invalid_claim :: "string \<Rightarrow> string \<Rightarrow> unit rc" where
  "quarantine_invalid_claim project origin =
     rc_bind (claim_dir_open project False) (\<lambda>there.
       if \<not> there then rc_ok ()
       else
         rc_bind (rc_lift (claim_file_name origin)) (\<lambda>name.
         rc_bind (claim_remove project (name @ ''.quarantine'')) (\<lambda>_.
         rc_then (claim_rename project name (name @ ''.quarantine'')) (\<lambda>r.
           case r of
             Inr _ \<Rightarrow> claim_sync
           | Inl e \<Rightarrow> if is_not_found e then rc_ok () else rc_err e))))"

definition load_committed_recovery_claim :: "claim_codec \<Rightarrow> string \<Rightarrow> string \<Rightarrow> recovery_claim option rc" where
  "load_committed_recovery_claim cc project origin =
     rc_bind (load_recovery_claim cc project origin) (\<lambda>claim.
       case claim of
         None \<Rightarrow> rc_ok None
       | Some c \<Rightarrow> if rc_status c \<noteq> ClaimCommitted then rc_ok None else rc_ok (Some c))"

definition remove_recovery_claim :: "string \<Rightarrow> string \<Rightarrow> unit rc" where
  "remove_recovery_claim project origin =
     rc_bind (claim_dir_open project False) (\<lambda>there.
       if \<not> there then rc_ok ()
       else
         rc_bind (rc_lift (claim_file_name origin)) (\<lambda>name.
         rc_bind (claim_remove project name) (\<lambda>removed. if removed then claim_sync else rc_ok ())))"

section \<open>The transaction of a rescue\<close>

text \<open>Fresh values: the two ids of a plan and the names of two temporary files.\<close>

record claim_fresh =
  cf_run_id :: string
  cf_runtime_id :: string
  cf_temp :: string
  cf_temp' :: string
  cf_torn :: nat

definition write_claim :: "claim_codec \<Rightarrow> claim_fresh \<Rightarrow> recovery_claim \<Rightarrow> unit rc" where
  "write_claim cc fresh = write_claim_atomic_or_reconcile cc (cf_torn fresh) (cf_temp fresh) (cf_temp' fresh)"

record pending_recovery_claim_spec =
  ps_project_id :: string
  ps_origin_run_id :: string
  ps_request_id :: string
  ps_origin_session_path :: file_path
  ps_replacement_session_path :: file_path
  ps_boot_id :: string
  ps_action :: string
  ps_target :: string
  ps_draft_prompt :: "string option"
  ps_force_inert :: bool
  ps_task_id :: string
  ps_kind :: string
  ps_worker_id :: string
  ps_role :: string
  ps_requires_worker_finalize :: bool
  ps_transport :: string
  ps_harness :: "string option"
  ps_driver_config :: json
  ps_worktree :: "file_path option"
  ps_last_path :: "file_path option"
  ps_stdout_path :: "file_path option"
  ps_planned_native_runtime :: "native_runtime_meta option"
  ps_run_options :: recovery_run_options

text \<open>The session of the terminal multiplexer a run is planned for, \<open>tmux_session_name\<close> of
  \<open>crates/orgasmic-drivers/src/modes/tmux.rs\<close>. Which texts are a ULID or a UUID, and the simple form
  of the latter, is what those libraries answer.\<close>

definition compact_run_id_token :: "claim_codec \<Rightarrow> string \<Rightarrow> string option" where
  "compact_run_id_token cc run_id =
     (case strip_prefix run_id ''run-'' of
        None \<Rightarrow> None
      | Some token \<Rightarrow> if length token \<noteq> 26 \<or> \<not> cc_ulid cc token then None else Some token)"

definition tmux_session_prefix :: "claim_codec \<Rightarrow> string \<Rightarrow> string" where
  "tmux_session_prefix cc run_id =
     (case compact_run_id_token cc run_id of
        Some token \<Rightarrow> ''og_'' @ token @ ''_'' | None \<Rightarrow> ''orgasmic-'' @ run_id @ ''-'')"

definition tmux_session_name :: "claim_codec \<Rightarrow> runtime_identity \<Rightarrow> string" where
  "tmux_session_name cc identity =
     (if compact_run_id_token cc (ri_run_id identity) = None
      then ''orgasmic-'' @ ri_run_id identity @ ''-'' @ ri_runtime_id identity
      else
        (let token = (case cc_uuid cc (ri_runtime_id identity) of
               Some simple \<Rightarrow> take 8 simple
             | None \<Rightarrow>
                 (let t = take 8 (filter is_ascii_alphanumeric (ri_runtime_id identity))
                  in if t = [] then ''runtime'' else t))
         in tmux_session_prefix cc (ri_run_id identity) @ token))"

text \<open>\<open>Value::as_array\<close> and the texts in it; a path from text.\<close>

definition json_as_array :: "json \<Rightarrow> json list option" where
  "json_as_array v = (case v of JArray vs \<Rightarrow> Some vs | _ \<Rightarrow> None)"

definition json_as_bool :: "json \<Rightarrow> bool option" where
  "json_as_bool v = (case v of JBool b \<Rightarrow> Some b | _ \<Rightarrow> None)"

definition path_of_text :: "string \<Rightarrow> file_path" where
  "path_of_text s =
     (let parts = filter (\<lambda>c. c \<noteq> []) (split_on (CHR ''/'') s)
      in if starts_with s ''/'' then ''/'' # filter (\<lambda>c. c \<noteq> ''.'') parts
         else (case parts of
                 [] \<Rightarrow> []
               | c # cs \<Rightarrow> c # filter (\<lambda>c. c \<noteq> ''.'') cs))"

definition claude_args :: "json \<Rightarrow> string \<Rightarrow> string list" where
  "claude_args config runtime_id =
     (let args = (case Option.bind (json_get ''args'' config) json_as_array of
            None \<Rightarrow> [] | Some vs \<Rightarrow> List.map_filter json_as_str vs);
          args = (if ''--dangerously-skip-permissions'' \<in> set args then args
            else args @ [''--dangerously-skip-permissions''])
      in if ''--session-id'' \<in> set args then args else args @ [''--session-id'', runtime_id])"

definition claude_session_path :: "json \<Rightarrow> string \<Rightarrow> file_path option" where
  "claude_session_path config runtime_id =
     Option.bind (get_str ''cwd'' config) (\<lambda>cwd.
       map_option
         (\<lambda>home. path_of_text home @ [''.claude'', ''projects'']
            @ path_of_text (map (\<lambda>ch. if ch = CHR ''/'' \<or> ch = CHR ''.'' then CHR ''-'' else ch) cwd)
            @ [runtime_id @ ''.jsonl''])
         (get_str ''provider_home'' config))"

definition planned_native :: "pending_recovery_claim_spec \<Rightarrow> string \<Rightarrow> native_runtime_meta option" where
  "planned_native spec runtime_id =
     (if ps_action spec = ''start_recovery_run'' \<and> ps_harness spec = Some ''claude''
      then
        (let config = ps_driver_config spec;
             command = (case get_str ''command'' config of None \<Rightarrow> ''claude'' | Some c \<Rightarrow> c)
         in Some \<lparr>nr_provider = ''claude'', nr_session_id = Some runtime_id,
              nr_session_path = claude_session_path config runtime_id,
              nr_launch_argv = command # claude_args config runtime_id,
              nr_resume_argv = [command, ''--resume'', runtime_id, ''--fork-session'',
                ''--dangerously-skip-permissions''],
              nr_credential_mode = None\<rparr>)
      else ps_planned_native_runtime spec)"

definition planned_identity :: "string \<Rightarrow> string \<Rightarrow> string \<Rightarrow> runtime_identity" where
  "planned_identity run_id runtime_id boot_id =
     \<lparr>ri_run_id = run_id, ri_runtime_id = runtime_id, ri_boot_id = boot_id\<rparr>"

definition planned_claim :: "claim_codec \<Rightarrow> claim_fresh \<Rightarrow> pending_recovery_claim_spec \<Rightarrow> recovery_claim" where
  "planned_claim cc fresh spec =
     \<lparr>rc_plan_version = Some 1, rc_authority_tag = None, rc_project_id = ps_project_id spec,
      rc_origin_run_id = ps_origin_run_id spec, rc_request_id = ps_request_id spec,
      rc_status = ClaimPending, rc_replacement_run_id = cf_run_id fresh,
      rc_replacement_session_path = ps_replacement_session_path spec,
      rc_replacement_runtime_id = cf_runtime_id fresh, rc_runtime_id = Some (cf_runtime_id fresh),
      rc_boot_id = Some (ps_boot_id spec), rc_action = Some (ps_action spec),
      rc_target = Some (ps_target spec), rc_draft_prompt = ps_draft_prompt spec,
      rc_origin_session_path = Some (ps_origin_session_path spec),
      rc_planned_tmux_session = Some (tmux_session_name cc
        (planned_identity (cf_run_id fresh) (cf_runtime_id fresh) (ps_boot_id spec))),
      rc_task_id = Some (ps_task_id spec), rc_kind = Some (ps_kind spec),
      rc_worker_id = Some (ps_worker_id spec), rc_role = Some (ps_role spec),
      rc_requires_worker_finalize = Some (ps_requires_worker_finalize spec),
      rc_transport = Some (ps_transport spec), rc_harness = ps_harness spec,
      rc_driver_config = Some (ps_driver_config spec), rc_force_inert = Some (ps_force_inert spec),
      rc_worktree = ps_worktree spec, rc_last_path = ps_last_path spec,
      rc_stdout_path = ps_stdout_path spec,
      rc_planned_native_runtime = planned_native spec (cf_runtime_id fresh),
      rc_run_options = Some (ps_run_options spec), rc_spawn_started = False\<rparr>"

definition plan_pending_recovery_claim ::
  "claim_codec \<Rightarrow> claim_fresh \<Rightarrow> pending_recovery_claim_spec \<Rightarrow> recovery_claim rc" where
  "plan_pending_recovery_claim cc fresh spec =
     (if \<not> validate_safe_component (ps_request_id spec) then rc_err InvalidIdentifier
      else
        rc_bind (load_recovery_claim cc (ps_project_id spec) (ps_origin_run_id spec)) (\<lambda>existing.
          case existing of
            Some c \<Rightarrow> rc_err (AlreadyClaimed c)
          | None \<Rightarrow>
              (let claim = planned_claim cc fresh spec
               in rc_bind (authority_tag cc claim) (\<lambda>tag.
                  let claim = claim\<lparr>rc_authority_tag := Some tag\<rparr>
                  in rc_bind (write_claim cc fresh claim) (\<lambda>_. rc_ok claim)))))"

definition required_claim :: "recovery_claim option \<Rightarrow> recovery_claim rc" where
  "required_claim c = (case c of None \<Rightarrow> rc_err MissingClaim | Some c \<Rightarrow> rc_ok c)"

definition mark_pending_recovery_spawn_started ::
  "claim_codec \<Rightarrow> claim_fresh \<Rightarrow> string \<Rightarrow> string \<Rightarrow> recovery_claim rc" where
  "mark_pending_recovery_spawn_started cc fresh project origin =
     rc_bind (rc_bind (load_recovery_claim cc project origin) required_claim) (\<lambda>claim.
       if rc_status claim \<noteq> ClaimPending then rc_ok claim
       else if rc_spawn_started claim then rc_ok claim
       else
         (let claim = claim\<lparr>rc_spawn_started := True, rc_authority_tag := None\<rparr>
          in rc_bind (authority_tag cc claim) (\<lambda>tag.
             let claim = claim\<lparr>rc_authority_tag := Some tag\<rparr>
             in rc_bind (write_claim cc fresh claim) (\<lambda>_. rc_ok claim))))"

record commit_recovery_details =
  cd_runtime_id :: string
  cd_boot_id :: string
  cd_action :: string
  cd_target :: string
  cd_draft_prompt :: "string option"

definition or_else :: "'a option \<Rightarrow> 'a option \<Rightarrow> 'a option" where
  "or_else a b = (if a = None then b else a)"

definition committed_claim :: "commit_recovery_details \<Rightarrow> recovery_claim \<Rightarrow> recovery_claim" where
  "committed_claim d c =
     c\<lparr>rc_status := ClaimCommitted,
       rc_runtime_id := or_else (rc_runtime_id c) (Some (cd_runtime_id d)),
       rc_boot_id := or_else (rc_boot_id c) (Some (cd_boot_id d)),
       rc_action := or_else (rc_action c) (Some (cd_action d)),
       rc_target := or_else (rc_target c) (Some (cd_target d)),
       rc_draft_prompt := or_else (rc_draft_prompt c) (cd_draft_prompt d)\<rparr>"

definition commit_recovery_claim ::
  "claim_codec \<Rightarrow> claim_fresh \<Rightarrow> string \<Rightarrow> string \<Rightarrow> commit_recovery_details \<Rightarrow> recovery_claim rc" where
  "commit_recovery_claim cc fresh project origin d =
     rc_bind (rc_bind (load_recovery_claim cc project origin) required_claim) (\<lambda>claim.
       if rc_replacement_runtime_id claim \<noteq> cd_runtime_id d
         \<or> (case rc_boot_id claim of None \<Rightarrow> False | Some boot \<Rightarrow> boot \<noteq> cd_boot_id d)
         \<or> (case rc_action claim of None \<Rightarrow> False | Some action \<Rightarrow> action \<noteq> cd_action d)
         \<or> (case rc_target claim of None \<Rightarrow> False | Some target \<Rightarrow> target \<noteq> cd_target d)
       then rc_err CorruptClaim
       else
         (let claim = committed_claim d claim
          in rc_bind (write_claim cc fresh claim) (\<lambda>_. rc_ok claim)))"

end
