(* ===== verification/Recovery_Session.thy ===== *)
theory Recovery_Session
  imports Recovery_Store Session_Exit
begin

text \<open>
  What sessions say about recovery claims, second half of
  \<open>crates/orgasmic-daemon/src/recovery_claim.rs\<close>: session files read through the pinned directory, the
  check of a committed claim against its session, the index of the links to origins, the prefix of a
  pending replacement and its reconciliation, and the resolution of a claim. The readings of the JSON
  library, the canonical form of a path and the probe of the terminal multiplexer are arguments.
\<close>

section \<open>Lifecycle events\<close>

record run_meta =
  rm_transport :: string
  rm_harness :: "string option"
  rm_project_id :: "string option"
  rm_worktree :: "file_path option"
  rm_last_path :: "file_path option"
  rm_stdout_path :: "file_path option"
  rm_dispatch_attempt_token :: "string option"
  rm_role :: "string option"
  rm_requires_worker_finalize :: "bool option"
  rm_credential_mode :: "string option"
  rm_preflight :: "string option"
  rm_conversation_id :: "string option"
  rm_driver_config :: json

record recovery_origin =
  ro_project_id :: string
  ro_origin_run_id :: string
  ro_origin_session_path :: file_path
  ro_request_id :: string
  ro_replacement_run_id :: string
  ro_replacement_session_path :: file_path
  ro_action :: string
  ro_target :: "string option"
  ro_claim :: "json option"

datatype lifecycle =
    LcAcquire string string string
  | LcRunMeta run_meta
  | LcStageMeta string
  | LcAttach
  | LcRelease string release_outcome bool "exit_reason option"
  | LcContinuation string file_path string "string list"
  | LcReattach string string
  | LcManagerTerminalClaim string bool
  | LcNativeRuntime string "string option" "file_path option" "string list" "string list"
  | LcRecoveryOrigin recovery_origin
  | LcPromptDraft string bool
  | LcComposerSend string "json option"

datatype tmux_observation = TmuxPresent | TmuxAbsent | TmuxUnobserved

record origin_codec =
  oc_claims :: claim_codec
  oc_envelope :: "string \<Rightarrow> session_envelope option"
  oc_lifecycle :: "json \<Rightarrow> lifecycle option"
  oc_claim_value :: "json \<Rightarrow> recovery_claim option"
  oc_canon :: "file_path \<Rightarrow> io_error + file_path"
  oc_tmux :: "string \<Rightarrow> tmux_observation"

definition lifecycle_in :: "origin_codec \<Rightarrow> session_envelope \<Rightarrow> lifecycle option" where
  "lifecycle_in oc e = (if env_kind e \<noteq> LifecycleKind then None else oc_lifecycle oc (env_event e))"

section \<open>The session directory\<close>

text \<open>The directory is known by its canonical path; its components are directories when they exist.\<close>

definition session_dir_open :: "origin_codec \<Rightarrow> file_path \<Rightarrow> file_path rc" where
  "session_dir_open oc project_root =
     rc_bind (sys RcIo (\<lambda>w. (oc_canon oc project_root, w))) (\<lambda>root.
     rc_bind (sys RcIo nop) (\<lambda>_.
     rc_bind (sys RcIo nop) (\<lambda>_. rc_bind (sys RcIo nop) (\<lambda>_.
     rc_bind (sys RcIo nop) (\<lambda>_. rc_bind (sys RcIo nop) (\<lambda>_.
     rc_bind (sys RcIo (\<lambda>w. (found (map_option (\<lambda>_. ()) (cw_sessions w)), w))) (\<lambda>_.
     rc_bind (sys RcIo nop) (\<lambda>_. rc_ok (root @ [''.orgasmic'', ''tmp'', ''sessions''])))))))))"

definition name_for_path :: "origin_codec \<Rightarrow> file_path \<Rightarrow> file_path \<Rightarrow> string rc" where
  "name_for_path oc dir path =
     (case path_parent path of
        None \<Rightarrow> rc_err CorruptClaim
      | Some parent \<Rightarrow>
          rc_then (raw_sys (\<lambda>w. (oc_canon oc parent, w))) (\<lambda>r.
            case r of
              Inl e \<Rightarrow> if error_kind e = KindNotFound then rc_err ForeignSessionPath else rc_err (RcIo e)
            | Inr resolved \<Rightarrow>
                if resolved \<noteq> dir then rc_err ForeignSessionPath
                else
                  (case path_file_name path of
                     None \<Rightarrow> rc_err InvalidIdentifier
                   | Some name \<Rightarrow>
                       if \<not> validate_safe_component name \<or> \<not> ends_with name ''.jsonl''
                       then rc_err InvalidIdentifier else rc_ok name)))"

definition session_file_at :: "string \<Rightarrow> claim_world \<Rightarrow> string option option" where
  "session_file_at name w = Option.bind (cw_sessions w) (\<lambda>fs. bt_get fs name)"

text \<open>An open file is its name; that the file of that name is still the same one is not modelled.\<close>

definition open_name :: "string \<Rightarrow> string rc" where
  "open_name name =
     (if \<not> validate_safe_component name \<or> \<not> ends_with name ''.jsonl'' then rc_err InvalidIdentifier
      else
        rc_bind (sys RcIo (\<lambda>w. (found (session_file_at name w), w))) (\<lambda>f.
        rc_bind (sys RcIo nop) (\<lambda>_. if f = None then rc_err ForeignSessionPath else rc_ok name)))"

definition open_path :: "origin_codec \<Rightarrow> file_path \<Rightarrow> file_path \<Rightarrow> string rc" where
  "open_path oc dir path = rc_bind (name_for_path oc dir path) open_name"

definition create_path :: "origin_codec \<Rightarrow> file_path \<Rightarrow> file_path \<Rightarrow> string rc" where
  "create_path oc dir path =
     rc_bind (name_for_path oc dir path) (\<lambda>name.
     rc_bind (sys RcIo (\<lambda>w.
       if session_file_at name w \<noteq> None then (Inl (OsError EEXIST), w)
       else (Inr (), w\<lparr>cw_sessions := Some (bt_insert name (Some [])
         (case cw_sessions w of None \<Rightarrow> [] | Some fs \<Rightarrow> fs))\<rparr>))) (\<lambda>_.
     rc_bind (sys RcIo nop) (\<lambda>_. rc_ok name)))"

definition validate_current :: "string \<Rightarrow> unit rc" where
  "validate_current name = rc_bind (open_name name) (\<lambda>_. rc_ok ())"

fun parse_session_lines ::
  "(string \<Rightarrow> session_envelope option) \<Rightarrow> string list \<Rightarrow> recovery_claim_error + session_envelope list" where
  "parse_session_lines parse [] = Inr []"
| "parse_session_lines parse (line # lines) =
     (if trim line = [] then parse_session_lines parse lines
      else
        try_res (ok_or CorruptClaim (parse line)) (\<lambda>e.
        try_res (parse_session_lines parse lines) (\<lambda>es. Inr (e # es))))"

definition parse_session_raw ::
  "(string \<Rightarrow> session_envelope option) \<Rightarrow> string \<Rightarrow> recovery_claim_error + session_envelope list" where
  "parse_session_raw parse raw = parse_session_lines parse (str_lines raw)"

definition session_bytes :: "string \<Rightarrow> claim_world \<Rightarrow> string" where
  "session_bytes name w = (case session_file_at name w of Some (Some bytes) \<Rightarrow> bytes | _ \<Rightarrow> [])"

definition read_checked :: "origin_codec \<Rightarrow> string \<Rightarrow> session_envelope list rc" where
  "read_checked oc name =
     rc_bind (validate_current name) (\<lambda>_.
     rc_bind (sys RcIo nop) (\<lambda>_. rc_bind (sys RcIo nop) (\<lambda>_.
     rc_bind (sys RcIo (\<lambda>w. (let bytes = session_bytes name w
         in if rust_str bytes then Inr bytes else Inl (SimpleError KindInvalidData), w))) (\<lambda>raw.
       rc_lift (parse_session_raw (oc_envelope oc) raw)))))"

definition read_path :: "origin_codec \<Rightarrow> file_path \<Rightarrow> file_path \<Rightarrow> session_envelope list rc" where
  "read_path oc dir path = rc_bind (open_path oc dir path) (read_checked oc)"

text \<open>Both scans, through the checked handle: any error of the reader is \<open>CorruptClaim\<close>.\<close>

definition scan_checked ::
  "(string \<Rightarrow> nat \<Rightarrow> session_error + session_lifecycle_scan) \<Rightarrow> string \<Rightarrow> session_lifecycle_scan rc" where
  "scan_checked scan name =
     rc_bind (validate_current name) (\<lambda>_.
     rc_bind (sys RcIo nop) (\<lambda>_. rc_bind (sys RcIo nop) (\<lambda>_.
     rc_bind (sys (\<lambda>_. CorruptClaim) (\<lambda>w. (Inr (session_bytes name w), w))) (\<lambda>bytes.
       rc_lift (map_sum (\<lambda>_. CorruptClaim) id (scan bytes (length bytes)))))))"

definition scan_path :: "origin_codec \<Rightarrow> file_path \<Rightarrow> file_path \<Rightarrow> session_scan_budget \<Rightarrow> session_lifecycle_scan rc" where
  "scan_path oc dir path budget =
     rc_bind (open_path oc dir path)
       (scan_checked (\<lambda>bytes len. scan_session_lifecycle_reader (oc_envelope oc) bytes len budget))"

definition scan_path_complete :: "origin_codec \<Rightarrow> file_path \<Rightarrow> file_path \<Rightarrow> session_lifecycle_scan rc" where
  "scan_path_complete oc dir path =
     rc_bind (open_path oc dir path) (scan_checked (scan_session_lifecycle_complete_reader (oc_envelope oc)))"

definition complete_session_scan :: "origin_codec \<Rightarrow> file_path \<Rightarrow> file_path \<Rightarrow> session_lifecycle_scan rc" where
  "complete_session_scan oc dir path =
     rc_then (scan_path oc dir path DEFAULT_SCAN_BUDGET) (\<lambda>r.
       case r of
         Inr scan \<Rightarrow> if truncated scan then scan_path_complete oc dir path else rc_ok scan
       | Inl _ \<Rightarrow> scan_path_complete oc dir path)"

definition session_read_evidence :: "recovery_claim_error \<Rightarrow> unobserved_session \<Rightarrow> claim_evidence" where
  "session_read_evidence err reason =
     (case err of
        RcIo io \<Rightarrow>
          if error_kind io = KindNotFound then EvInvalid
          else (case classify_observation io of
            ObsAbsent \<Rightarrow> EvInvalid | ObsDecided \<Rightarrow> EvInvalid | ObsUnobserved \<Rightarrow> EvUnobserved (evidence_new reason))
      | CorruptClaim \<Rightarrow> EvUnobserved (evidence_new reason)
      | RcUnobserved evidence \<Rightarrow> EvUnobserved evidence
      | _ \<Rightarrow> EvInvalid)"

section \<open>What a session says\<close>

definition session_run_meta_project :: "origin_codec \<Rightarrow> session_envelope list \<Rightarrow> string option" where
  "session_run_meta_project oc es =
     find_map (\<lambda>e. case lifecycle_in oc e of Some (LcRunMeta m) \<Rightarrow> rm_project_id m | _ \<Rightarrow> None) es"

definition session_prompt_draft :: "origin_codec \<Rightarrow> session_envelope list \<Rightarrow> string option" where
  "session_prompt_draft oc es =
     find_map (\<lambda>e. case lifecycle_in oc e of
         Some (LcPromptDraft text sent) \<Rightarrow> if sent then None else Some text | _ \<Rightarrow> None) (rev es)"

definition session_has_acquire :: "origin_codec \<Rightarrow> session_envelope list \<Rightarrow> bool" where
  "session_has_acquire oc es \<longleftrightarrow>
     list_ex (\<lambda>e. case lifecycle_in oc e of Some (LcAcquire _ _ _) \<Rightarrow> True | _ \<Rightarrow> False) es"

definition origin_in ::
  "origin_codec \<Rightarrow> string \<Rightarrow> string \<Rightarrow> string \<Rightarrow> session_envelope \<Rightarrow> recovery_origin option" where
  "origin_in oc project origin request e =
     (case lifecycle_in oc e of
        Some (LcRecoveryOrigin r) \<Rightarrow>
          if ro_project_id r = project \<and> ro_origin_run_id r = origin \<and> ro_request_id r = request
          then Some r else None
      | _ \<Rightarrow> None)"

definition recovery_origin_in_session ::
  "origin_codec \<Rightarrow> session_envelope list \<Rightarrow> string \<Rightarrow> string \<Rightarrow> string \<Rightarrow> (string \<times> file_path \<times> string) option" where
  "recovery_origin_in_session oc es project origin request =
     map_option (\<lambda>r. (ro_replacement_run_id r, ro_replacement_session_path r, ro_action r))
       (find_map (origin_in oc project origin request) (rev es))"

definition recovery_claim_snapshot_in_session ::
  "origin_codec \<Rightarrow> session_envelope list \<Rightarrow> string \<Rightarrow> string \<Rightarrow> string \<Rightarrow> recovery_claim option" where
  "recovery_claim_snapshot_in_session oc es project origin request =
     find_map (\<lambda>e. Option.bind (origin_in oc project origin request e) (\<lambda>r.
       Option.bind (ro_claim r) (oc_claim_value oc))) (rev es)"

definition claim_matches_acquire :: "recovery_claim \<Rightarrow> string \<Rightarrow> string \<Rightarrow> string \<Rightarrow> bool" where
  "claim_matches_acquire c task_id kind worker_id \<longleftrightarrow>
     rc_task_id c = Some task_id \<and> rc_kind c = Some kind \<and> rc_worker_id c = Some worker_id"

definition claim_matches_run_meta :: "recovery_claim \<Rightarrow> run_meta \<Rightarrow> bool" where
  "claim_matches_run_meta c m \<longleftrightarrow>
     rc_transport c = Some (rm_transport m) \<and> rc_harness c = rm_harness m \<and>
     rm_project_id m = Some (rc_project_id c) \<and> rc_worktree c = rm_worktree m \<and>
     rc_last_path c = rm_last_path m \<and> rc_stdout_path c = rm_stdout_path m \<and>
     rc_role c = rm_role m \<and> rc_requires_worker_finalize c = rm_requires_worker_finalize m \<and>
     rc_driver_config c = Some (rm_driver_config m)"

definition expected_launch :: "recovery_claim \<Rightarrow> string list option" where
  "expected_launch c =
     Option.bind (rc_driver_config c) (\<lambda>config.
     Option.bind (get_str ''command'' config) (\<lambda>command.
     Option.bind (Option.bind (json_get ''args'' config) json_as_array) (\<lambda>args.
       if list_all (\<lambda>v. json_as_str v \<noteq> None) args
       then Some (command # List.map_filter json_as_str args) else None)))"

definition launch_as_planned :: "recovery_claim \<Rightarrow> string list \<Rightarrow> bool" where
  "launch_as_planned c argv \<longleftrightarrow>
     rc_action c = Some ''start_recovery_run'' \<or>
     (case expected_launch c of None \<Rightarrow> True | Some expected \<Rightarrow> expected = argv)"

definition native_meta ::
  "string \<Rightarrow> string option \<Rightarrow> file_path option \<Rightarrow> string list \<Rightarrow> string list \<Rightarrow> native_runtime_meta" where
  "native_meta provider session_id session_path launch_argv resume_argv =
     \<lparr>nr_provider = provider, nr_session_id = session_id, nr_session_path = session_path,
      nr_launch_argv = launch_argv, nr_resume_argv = resume_argv, nr_credential_mode = None\<rparr>"

definition claim_immutable_plan_matches_session ::
  "origin_codec \<Rightarrow> recovery_claim \<Rightarrow> session_envelope list \<Rightarrow> bool" where
  "claim_immutable_plan_matches_session oc c es \<longleftrightarrow>
     recovery_claim_has_complete_plan c \<and>
     (case find_map (\<lambda>e. case lifecycle_in oc e of Some (LcAcquire t k wk) \<Rightarrow> Some (t, k, wk) | _ \<Rightarrow> None) es of
        None \<Rightarrow> False
      | Some (t, k, wk) \<Rightarrow> claim_matches_acquire c t k wk) \<and>
     (case find_map (\<lambda>e. case lifecycle_in oc e of Some (LcRunMeta m) \<Rightarrow> Some m | _ \<Rightarrow> None) es of
        None \<Rightarrow> False
      | Some m \<Rightarrow> claim_matches_run_meta c m
          \<and> rc_force_inert c = Option.bind (json_get ''force_inert'' (rm_driver_config m)) json_as_bool) \<and>
     rc_draft_prompt c = session_prompt_draft oc es \<and>
     (case find_map (\<lambda>e. case lifecycle_in oc e of
          Some (LcNativeRuntime p i sp la ra) \<Rightarrow> Some (native_meta p i sp la ra) | _ \<Rightarrow> None) es of
        None \<Rightarrow> True
      | Some actual \<Rightarrow>
          (rc_action c = Some ''start_recovery_run'' \<longrightarrow> rc_planned_native_runtime c = Some actual) \<and>
          nr_provider actual = (case rc_harness c of None \<Rightarrow> [] | Some h \<Rightarrow> h) \<and>
          launch_as_planned c (nr_launch_argv actual))"

section \<open>A committed claim and its session\<close>

definition say :: "'a \<Rightarrow> claim_world \<Rightarrow> 'a \<times> claim_world" where
  "say x w = (x, w)"

text \<open>An observation that may fail: its failure is read as evidence, its answer goes on.\<close>

definition observe ::
  "'a rc \<Rightarrow> unobserved_session \<Rightarrow> ('a \<Rightarrow> claim_world \<Rightarrow> claim_evidence \<times> claim_world) \<Rightarrow> claim_world
    \<Rightarrow> claim_evidence \<times> claim_world" where
  "observe m reason f =
     rc_then m (\<lambda>r. case r of Inl err \<Rightarrow> say (session_read_evidence err reason) | Inr x \<Rightarrow> f x)"

definition origin_is_of_run :: "origin_codec \<Rightarrow> session_envelope list \<Rightarrow> string \<Rightarrow> string \<Rightarrow> bool" where
  "origin_is_of_run oc es origin project \<longleftrightarrow>
     (case es of [] \<Rightarrow> False | first # _ \<Rightarrow> env_run_id first = origin) \<and>
     session_run_meta_project oc es = Some project"

definition committed_claim_matches :: "origin_codec \<Rightarrow> recovery_claim \<Rightarrow> session_envelope list \<Rightarrow> bool" where
  "committed_claim_matches oc c es \<longleftrightarrow>
     (case es of
        [] \<Rightarrow> False
      | first # _ \<Rightarrow>
          env_run_id first = rc_replacement_run_id c \<and>
          env_runtime_id first = rc_replacement_runtime_id c \<and>
          (case rc_boot_id c of None \<Rightarrow> True | Some boot \<Rightarrow> env_boot_id first = boot)) \<and>
     session_run_meta_project oc es = Some (rc_project_id c) \<and>
     session_has_acquire oc es \<and>
     (case recovery_origin_in_session oc es (rc_project_id c) (rc_origin_run_id c) (rc_request_id c) of
        None \<Rightarrow> False
      | Some (run_id, session_path, action) \<Rightarrow>
          rc_replacement_run_id c = run_id \<and> rc_replacement_session_path c = session_path \<and>
          rc_action c = Some action) \<and>
     (case find_map (\<lambda>e. case lifecycle_in oc e of
          Some (LcRecoveryOrigin r) \<Rightarrow> Some (ro_origin_session_path r, ro_target r) | _ \<Rightarrow> None) (rev es) of
        None \<Rightarrow> False
      | Some (origin_session_path, link_target) \<Rightarrow>
          rc_origin_session_path c = Some origin_session_path \<and>
          (case rc_target c of None \<Rightarrow> True | Some target \<Rightarrow> link_target = Some target)) \<and>
     claim_immutable_plan_matches_session oc c es \<and>
     recovery_claim_snapshot_in_session oc es (rc_project_id c) (rc_origin_run_id c) (rc_request_id c) = Some c"

definition verify_committed_claim_against_session ::
  "origin_codec \<Rightarrow> file_path \<Rightarrow> recovery_claim \<Rightarrow> claim_world \<Rightarrow> claim_evidence \<times> claim_world" where
  "verify_committed_claim_against_session oc project_root c =
     (if rc_status c \<noteq> ClaimCommitted \<or> \<not> recovery_claim_has_complete_plan c then say EvInvalid
      else
        rc_then (claim_has_valid_authority (oc_claims oc) c) (\<lambda>ev.
          if ev \<noteq> EvValid then say ev
          else
            observe (session_dir_open oc project_root) SessionDirectoryUnavailable (\<lambda>dir.
            observe (read_path oc dir (rc_replacement_session_path c)) SessionUnreadable (\<lambda>es.
              if \<not> committed_claim_matches oc c es then say EvInvalid
              else
                (case rc_origin_session_path c of
                   None \<Rightarrow> say EvInvalid
                 | Some origin_path \<Rightarrow>
                     observe (read_path oc dir origin_path) OriginSessionUnreadable (\<lambda>origin.
                       say (verified (origin_is_of_run oc origin (rc_origin_run_id c) (rc_project_id c)))))))))"

section \<open>The index of links to origins\<close>

record indexed_recovery_origin =
  io_project_root :: file_path
  io_project_id :: string
  io_origin_run_id :: string
  io_request_id :: string
  io_replacement_run_id :: string
  io_replacement_session_path :: file_path
  io_action :: string
  io_target :: "string option"
  io_origin_session_path :: file_path
  io_replacement_boot_id :: string
  io_draft_prompt :: "string option"
  io_claim :: recovery_claim

text \<open>Complete with links, or not observed.\<close>

type_synonym origins = "unobserved_evidence + indexed_recovery_origin list"

definition link_fits ::
  "string \<Rightarrow> session_envelope \<Rightarrow> session_envelope \<Rightarrow> recovery_origin \<Rightarrow> bool" where
  "link_fits project first e r \<longleftrightarrow>
     env_run_id e = ro_replacement_run_id r \<and> env_runtime_id e = env_runtime_id first \<and>
     env_boot_id e = env_boot_id first \<and> ro_project_id r = project"

definition snapshot_fits :: "session_envelope \<Rightarrow> recovery_origin \<Rightarrow> recovery_claim \<Rightarrow> bool" where
  "snapshot_fits first r c \<longleftrightarrow>
     rc_project_id c = ro_project_id r \<and> rc_origin_run_id c = ro_origin_run_id r \<and>
     rc_request_id c = ro_request_id r \<and> rc_replacement_run_id c = ro_replacement_run_id r \<and>
     rc_replacement_runtime_id c = env_runtime_id first \<and> rc_boot_id c = Some (env_boot_id first) \<and>
     rc_replacement_session_path c = ro_replacement_session_path r \<and> rc_action c = Some (ro_action r) \<and>
     rc_target c = ro_target r \<and> rc_origin_session_path c = Some (ro_origin_session_path r)"

text \<open>Does the path of the link name this very file?\<close>

definition same_session ::
  "origin_codec \<Rightarrow> file_path \<Rightarrow> file_path \<Rightarrow> file_path \<Rightarrow> file_path \<Rightarrow> claim_world
    \<Rightarrow> (unobserved_evidence + bool) \<times> claim_world" where
  "same_session oc dir project_root session_path link_path =
     rc_then (name_for_path oc dir session_path) (\<lambda>r.
       case r of
         Inl _ \<Rightarrow> say (Inl (evidence_for SessionPathUnresolvable (sanitized_subject project_root session_path)))
       | Inr indexed \<Rightarrow>
           rc_then (name_for_path oc dir link_path) (\<lambda>r.
             case r of
               Inr name \<Rightarrow> say (Inr (name = indexed))
             | Inl ForeignSessionPath \<Rightarrow> say (Inr False)
             | Inl InvalidIdentifier \<Rightarrow> say (Inr False)
             | Inl _ \<Rightarrow>
                 say (Inl (evidence_for SessionPathUnresolvable (sanitized_subject project_root link_path)))))"

text \<open>The link of one envelope, if it is one; the bytes of the origin's session count as inspected.\<close>

definition index_envelope ::
  "origin_codec \<Rightarrow> file_path \<Rightarrow> file_path \<Rightarrow> file_path \<Rightarrow> string \<Rightarrow> session_envelope list \<Rightarrow> session_envelope
    \<Rightarrow> session_envelope \<Rightarrow> claim_world
    \<Rightarrow> (unobserved_evidence + indexed_recovery_origin option \<times> nat) \<times> claim_world" where
  "index_envelope oc dir project_root session_path project es first e =
     (case lifecycle_in oc e of
        Some (LcRecoveryOrigin r) \<Rightarrow>
          (case Option.bind (ro_claim r) (oc_claim_value oc) of
             None \<Rightarrow> say (Inr (None, 0))
           | Some c \<Rightarrow>
               if rc_status c \<noteq> ClaimCommitted \<or> \<not> recovery_claim_has_complete_plan c then say (Inr (None, 0))
               else
                 rc_then (claim_has_valid_authority (oc_claims oc) c) (\<lambda>ev.
                   case ev of
                     EvInvalid \<Rightarrow> say (Inr (None, 0))
                   | EvUnobserved evidence \<Rightarrow>
                       say (Inl (with_subject (Some (sanitized_subject project_root session_path)) evidence))
                   | EvValid \<Rightarrow>
                       if \<not> link_fits project first e r then say (Inr (None, 0))
                       else
                         rc_then (same_session oc dir project_root session_path (ro_replacement_session_path r)) (\<lambda>s.
                           case s of
                             Inl evidence \<Rightarrow> say (Inl evidence)
                           | Inr same \<Rightarrow>
                               if \<not> same \<or> \<not> snapshot_fits first r c
                                 \<or> \<not> claim_immutable_plan_matches_session oc c es
                                 \<or> \<not> path_is_absolute (ro_origin_session_path r)
                               then say (Inr (None, 0))
                               else
                                 rc_then (complete_session_scan oc dir (ro_origin_session_path r)) (\<lambda>scanned.
                                   case scanned of
                                     Inl _ \<Rightarrow> say (Inl (evidence_for OriginSessionUnreadable
                                       (sanitized_subject project_root (ro_origin_session_path r))))
                                   | Inr scan \<Rightarrow>
                                       say (Inr
                                         (if origin_is_of_run oc (envelopes scan) (ro_origin_run_id r) project
                                          then Some \<lparr>io_project_root = project_root, io_project_id = ro_project_id r,
                                            io_origin_run_id = ro_origin_run_id r,
                                            io_request_id = ro_request_id r,
                                            io_replacement_run_id = ro_replacement_run_id r,
                                            io_replacement_session_path = ro_replacement_session_path r,
                                            io_action = ro_action r, io_target = ro_target r,
                                            io_origin_session_path = ro_origin_session_path r,
                                            io_replacement_boot_id = env_boot_id first,
                                            io_draft_prompt = session_prompt_draft oc es,
                                            io_claim = c\<rparr>
                                          else None, bytes_inspected scan))))))
      | _ \<Rightarrow> say (Inr (None, 0)))"

fun index_envelopes ::
  "(session_envelope \<Rightarrow> claim_world \<Rightarrow> (unobserved_evidence + indexed_recovery_origin option \<times> nat) \<times> claim_world)
    \<Rightarrow> session_envelope list \<Rightarrow> nat \<Rightarrow> claim_world \<Rightarrow> (origins \<times> nat) \<times> claim_world" where
  "index_envelopes f [] n w = ((Inr [], n), w)"
| "index_envelopes f (e # es) n w =
     (case f e w of
        (Inl evidence, w) \<Rightarrow> ((Inl evidence, n), w)
      | (Inr (link, k), w) \<Rightarrow>
          (case index_envelopes f es (n + k) w of
             ((Inr links, n), w) \<Rightarrow> ((Inr (case link of None \<Rightarrow> links | Some l \<Rightarrow> l # links), n), w)
           | other \<Rightarrow> other))"

definition index_recovery_origins_in_session ::
  "origin_codec \<Rightarrow> file_path \<Rightarrow> file_path \<Rightarrow> string \<Rightarrow> claim_world \<Rightarrow> (origins \<times> nat) \<times> claim_world" where
  "index_recovery_origins_in_session oc project_root session_path project =
     (let subject = sanitized_subject project_root session_path
      in rc_then (session_dir_open oc project_root) (\<lambda>d.
         case d of
           Inl _ \<Rightarrow> say (Inl (evidence_for SessionDirectoryUnavailable subject), 0)
         | Inr dir \<Rightarrow>
             rc_then (complete_session_scan oc dir session_path) (\<lambda>s.
               case s of
                 Inl _ \<Rightarrow> say (Inl (evidence_for SessionUnreadable subject), 0)
               | Inr scan \<Rightarrow>
                   (case envelopes scan of
                      [] \<Rightarrow> say (Inr [], bytes_inspected scan)
                    | first # _ \<Rightarrow>
                        if session_run_meta_project oc (envelopes scan) \<noteq> Some project
                        then say (Inr [], bytes_inspected scan)
                        else
                          index_envelopes
                            (index_envelope oc dir project_root session_path project (envelopes scan) first)
                            (envelopes scan) (bytes_inspected scan)))))"



section \<open>The authoritative links of a project\<close>

record origin_enumeration_cost =
  oe_files :: nat
  oe_bytes_inspected :: nat

definition path_extension :: "string \<Rightarrow> string option" where
  "path_extension name =
     (case rposition (\<lambda>c. c = CHR ''.'') name of
        None \<Rightarrow> None
      | Some i \<Rightarrow> if i = 0 \<or> name = ''..'' then None else Some (drop (i + 1) name))"

definition project_sessions_dir :: "file_path \<Rightarrow> file_path" where
  "project_sessions_dir project_root = project_root @ [''.orgasmic'', ''tmp'', ''sessions'']"

fun enumerate_entries ::
  "origin_codec \<Rightarrow> file_path \<Rightarrow> string \<Rightarrow> string list \<Rightarrow> indexed_recovery_origin list \<Rightarrow> origin_enumeration_cost
    \<Rightarrow> claim_world \<Rightarrow> (origins \<times> origin_enumeration_cost) \<times> claim_world"
where
  "enumerate_entries oc root project names links cost w =
     (let unavailable = Inl (evidence_for SessionDirectoryUnavailable
            (sanitized_subject root (project_sessions_dir root)))
      in case raw_sys nop w of
           (Inl _, w) \<Rightarrow> ((unavailable, cost), w)
         | (Inr _, w) \<Rightarrow>
             (case names of
                [] \<Rightarrow> ((Inr links, cost), w)
              | name # names \<Rightarrow>
                  if path_extension name \<noteq> Some ''jsonl''
                  then enumerate_entries oc root project names links cost w
                  else
                    (case index_recovery_origins_in_session oc root (project_sessions_dir root @ [name]) project w of
                       ((r, bytes), w) \<Rightarrow>
                         (let cost = \<lparr>oe_files = oe_files cost + 1,
                                oe_bytes_inspected = oe_bytes_inspected cost + bytes\<rparr>
                          in case r of
                               Inl evidence \<Rightarrow> ((Inl evidence, cost), w)
                             | Inr here \<Rightarrow> enumerate_entries oc root project names (links @ here) cost w))))"

definition enumerate_recovery_origin_links ::
  "origin_codec \<Rightarrow> file_path \<Rightarrow> string \<Rightarrow> claim_world \<Rightarrow> (origins \<times> origin_enumeration_cost) \<times> claim_world" where
  "enumerate_recovery_origin_links oc root project =
     rc_then (raw_sys (\<lambda>w. (found (map_option (map fst) (cw_sessions w)), w))) (\<lambda>r.
       case r of
         Inr names \<Rightarrow> enumerate_entries oc root project names [] \<lparr>oe_files = 0, oe_bytes_inspected = 0\<rparr>
       | Inl err \<Rightarrow>
           say (if classify_observation err = ObsAbsent then Inr []
                else Inl (evidence_for SessionDirectoryUnavailable (sanitized_subject root (project_sessions_dir root))),
             \<lparr>oe_files = 0, oe_bytes_inspected = 0\<rparr>))"

text \<open>One enumeration for each project, for the duration of one decision.\<close>

record project_origin_authority =
  oa_by_project :: "(file_path \<times> origins) list"
  oa_cost :: origin_enumeration_cost

definition links_for ::
  "origin_codec \<Rightarrow> file_path \<Rightarrow> string \<Rightarrow> project_origin_authority \<Rightarrow> claim_world
    \<Rightarrow> (origins \<times> project_origin_authority) \<times> claim_world" where
  "links_for oc root project a w =
     (case bt_get (oa_by_project a) root of
        Some links \<Rightarrow> ((links, a), w)
      | None \<Rightarrow>
          (case enumerate_recovery_origin_links oc root project w of
             ((links, cost), w) \<Rightarrow>
               ((links, \<lparr>oa_by_project = bt_insert root links (oa_by_project a),
                  oa_cost = \<lparr>oe_files = oe_files (oa_cost a) + oe_files cost,
                    oe_bytes_inspected = oe_bytes_inspected (oa_cost a) + oe_bytes_inspected cost\<rparr>\<rparr>), w)))"

definition matching_origin_links ::
  "indexed_recovery_origin list \<Rightarrow> file_path \<Rightarrow> string \<Rightarrow> string \<Rightarrow> indexed_recovery_origin list" where
  "matching_origin_links links root project origin =
     filter (\<lambda>l. io_project_id l = project \<and> io_origin_run_id l = origin \<and> io_project_root l = root) links"

section \<open>Resolution\<close>

datatype resolved_recovery_claim =
    ResolvedValid recovery_claim
  | ResolvedReconstructed recovery_claim
  | ResolvedInvalidQuarantined
  | ResolvedMissing
  | ResolvedUnobserved unobserved_evidence

definition reload_or_missing :: "origin_codec \<Rightarrow> string \<Rightarrow> string \<Rightarrow> resolved_recovery_claim rc" where
  "reload_or_missing oc project origin =
     rc_then (load_recovery_claim (oc_claims oc) project origin) (\<lambda>r.
       case r of
         Inr (Some _) \<Rightarrow> rc_ok ResolvedInvalidQuarantined
       | Inr None \<Rightarrow> rc_ok ResolvedMissing
       | Inl (RcUnobserved reason) \<Rightarrow> rc_ok (ResolvedUnobserved reason)
       | Inl CorruptClaim \<Rightarrow> rc_ok ResolvedInvalidQuarantined
       | Inl err \<Rightarrow> rc_err err)"

definition reconstruct_or_quarantine ::
  "origin_codec \<Rightarrow> claim_fresh \<Rightarrow> file_path \<Rightarrow> string \<Rightarrow> string \<Rightarrow> indexed_recovery_origin list
    \<Rightarrow> resolved_recovery_claim rc" where
  "reconstruct_or_quarantine oc fresh root project origin links =
     (case matching_origin_links links root project origin of
        [] \<Rightarrow> reload_or_missing oc project origin
      | [link] \<Rightarrow>
          rc_then (claim_has_valid_authority (oc_claims oc) (io_claim link)) (\<lambda>authority.
          rc_then (verify_committed_claim_against_session oc root (io_claim link)) (\<lambda>session.
            case authority of
              EvInvalid \<Rightarrow> rc_ok ResolvedInvalidQuarantined
            | EvUnobserved reason \<Rightarrow> rc_ok (ResolvedUnobserved reason)
            | EvValid \<Rightarrow>
                (case session of
                   EvInvalid \<Rightarrow> rc_ok ResolvedInvalidQuarantined
                 | EvUnobserved reason \<Rightarrow> rc_ok (ResolvedUnobserved reason)
                 | EvValid \<Rightarrow>
                     rc_bind (write_claim (oc_claims oc) fresh (io_claim link)) (\<lambda>_.
                       rc_ok (ResolvedReconstructed (io_claim link))))))
      | _ \<Rightarrow> rc_ok ResolvedInvalidQuarantined)"

definition quarantine_and_reconstruct ::
  "origin_codec \<Rightarrow> claim_fresh \<Rightarrow> file_path \<Rightarrow> string \<Rightarrow> string \<Rightarrow> indexed_recovery_origin list
    \<Rightarrow> resolved_recovery_claim rc" where
  "quarantine_and_reconstruct oc fresh root project origin links =
     rc_bind (quarantine_invalid_claim project origin) (\<lambda>_.
       reconstruct_or_quarantine oc fresh root project origin links)"

definition resolve_with_links ::
  "origin_codec \<Rightarrow> claim_fresh \<Rightarrow> file_path \<Rightarrow> string \<Rightarrow> string \<Rightarrow> indexed_recovery_origin list
    \<Rightarrow> resolved_recovery_claim rc" where
  "resolve_with_links oc fresh root project origin links =
     rc_then (load_recovery_claim (oc_claims oc) project origin) (\<lambda>loaded.
       case loaded of
         Inr (Some c) \<Rightarrow>
           if rc_status c = ClaimCommitted
           then
             (case matching_origin_links links root project origin of
                [only] \<Rightarrow>
                  if io_claim only = c
                  then
                    rc_then (verify_committed_claim_against_session oc root c) (\<lambda>ev.
                      case ev of
                        EvValid \<Rightarrow> rc_ok (ResolvedValid c)
                      | EvUnobserved reason \<Rightarrow> rc_ok (ResolvedUnobserved reason)
                      | EvInvalid \<Rightarrow> quarantine_and_reconstruct oc fresh root project origin links)
                  else quarantine_and_reconstruct oc fresh root project origin links
              | _ \<Rightarrow> quarantine_and_reconstruct oc fresh root project origin links)
           else rc_ok (ResolvedValid c)
       | Inr None \<Rightarrow> reconstruct_or_quarantine oc fresh root project origin links
       | Inl CorruptClaim \<Rightarrow> quarantine_and_reconstruct oc fresh root project origin links
       | Inl (RcUnobserved reason) \<Rightarrow> rc_ok (ResolvedUnobserved reason)
       | Inl err \<Rightarrow> rc_err err)"

definition resolve_authoritative_recovery_claim ::
  "origin_codec \<Rightarrow> claim_fresh \<Rightarrow> file_path \<Rightarrow> string \<Rightarrow> string \<Rightarrow> project_origin_authority \<Rightarrow> claim_world
    \<Rightarrow> ((recovery_claim_error + resolved_recovery_claim) \<times> project_origin_authority) \<times> claim_world" where
  "resolve_authoritative_recovery_claim oc fresh root project origin a w =
     (case links_for oc root project a w of
        ((Inl evidence, a), w) \<Rightarrow> ((Inr (ResolvedUnobserved evidence), a), w)
      | ((Inr links, a), w) \<Rightarrow>
          (case resolve_with_links oc fresh root project origin links w of (r, w) \<Rightarrow> ((r, a), w)))"

section \<open>The answer of the handler\<close>

datatype committed_claim_authority =
    Authoritative
  | NotAuthoritative
  | AuthorityUnobserved unobserved_evidence

definition authority_answer ::
  "string \<Rightarrow> recovery_claim \<Rightarrow> recovery_claim_error + resolved_recovery_claim \<Rightarrow> committed_claim_authority" where
  "authority_answer origin c r =
     (case r of
        Inr (ResolvedValid resolved) \<Rightarrow>
          if rc_status resolved = ClaimCommitted \<and> resolved = c then Authoritative else NotAuthoritative
      | Inr (ResolvedReconstructed resolved) \<Rightarrow>
          if rc_status resolved = ClaimCommitted \<and> resolved = c then Authoritative else NotAuthoritative
      | Inr (ResolvedUnobserved evidence) \<Rightarrow> AuthorityUnobserved evidence
      | Inr ResolvedInvalidQuarantined \<Rightarrow> NotAuthoritative
      | Inr ResolvedMissing \<Rightarrow> NotAuthoritative
      | Inl (RcUnobserved evidence) \<Rightarrow> AuthorityUnobserved evidence
      | Inl (RcIo err) \<Rightarrow>
          if classify_observation err = ObsUnobserved
          then AuthorityUnobserved (evidence_for ClaimFileUnreadable (''recovery-claims/'' @ origin @ ''.json''))
          else NotAuthoritative
      | Inl _ \<Rightarrow> NotAuthoritative)"

definition committed_claim_is_authoritative ::
  "origin_codec \<Rightarrow> claim_fresh \<Rightarrow> file_path \<Rightarrow> string \<Rightarrow> string \<Rightarrow> project_origin_authority \<Rightarrow> recovery_claim
    \<Rightarrow> claim_world \<Rightarrow> (committed_claim_authority \<times> project_origin_authority) \<times> claim_world" where
  "committed_claim_is_authoritative oc fresh root project origin a c w =
     (case resolve_authoritative_recovery_claim oc fresh root project origin a w of
        ((r, a), w) \<Rightarrow> ((authority_answer origin c r, a), w))"

section \<open>A pending claim and the session of its replacement\<close>

datatype expected_phase = PhAcquire | PhRunMeta | PhNativeRuntime | PhPromptDraft | PhRecoveryOrigin

definition expected_phases :: "recovery_claim \<Rightarrow> expected_phase list" where
  "expected_phases c =
     [PhAcquire, PhRunMeta] @ (if rc_planned_native_runtime c \<noteq> None then [PhNativeRuntime] else [])
       @ [PhPromptDraft, PhRecoveryOrigin]"

fun phase_of :: "lifecycle \<Rightarrow> expected_phase option" where
  "phase_of (LcAcquire _ _ _) = Some PhAcquire"
| "phase_of (LcRunMeta _) = Some PhRunMeta"
| "phase_of (LcNativeRuntime _ _ _ _ _) = Some PhNativeRuntime"
| "phase_of (LcPromptDraft _ _) = Some PhPromptDraft"
| "phase_of (LcRecoveryOrigin _) = Some PhRecoveryOrigin"
| "phase_of _ = None"

text \<open>The lifecycle events are those planned, in order; anything else comes after all of them.\<close>

fun phases_match :: "origin_codec \<Rightarrow> expected_phase list \<Rightarrow> session_envelope list \<Rightarrow> bool" where
  "phases_match oc expected [] \<longleftrightarrow> True"
| "phases_match oc expected (e # es) \<longleftrightarrow>
     (if env_kind e \<noteq> LifecycleKind then expected = [] \<and> phases_match oc expected es
      else
        (case expected of
           [] \<Rightarrow> False
         | phase # rest \<Rightarrow>
             Option.bind (oc_lifecycle oc (env_event e)) phase_of = Some phase \<and> phases_match oc rest es))"

definition snapshot_is_claim :: "origin_codec \<Rightarrow> recovery_claim \<Rightarrow> json option \<Rightarrow> bool" where
  "snapshot_is_claim oc c snapshot \<longleftrightarrow>
     (case Option.bind snapshot (oc_claim_value oc) of
        None \<Rightarrow> False
      | Some s \<Rightarrow> s\<lparr>rc_status := ClaimPending\<rparr> = c)"

fun event_matches_claim :: "origin_codec \<Rightarrow> recovery_claim \<Rightarrow> lifecycle \<Rightarrow> bool" where
  "event_matches_claim oc c (LcAcquire t k wk) \<longleftrightarrow> claim_matches_acquire c t k wk"
| "event_matches_claim oc c (LcRunMeta m) \<longleftrightarrow> claim_matches_run_meta c m"
| "event_matches_claim oc c (LcPromptDraft text sent) \<longleftrightarrow> \<not> sent \<and> rc_draft_prompt c = Some text"
| "event_matches_claim oc c (LcNativeRuntime p i sp la ra) \<longleftrightarrow>
     (rc_action c = Some ''start_recovery_run'' \<longrightarrow>
        rc_planned_native_runtime c = Some (native_meta p i sp la ra)) \<and>
     rc_harness c = Some p \<and> launch_as_planned c la"
| "event_matches_claim oc c (LcRecoveryOrigin r) \<longleftrightarrow>
     ro_project_id r = rc_project_id c \<and> ro_origin_run_id r = rc_origin_run_id c \<and>
     rc_origin_session_path c = Some (ro_origin_session_path r) \<and> ro_request_id r = rc_request_id c \<and>
     ro_replacement_run_id r = rc_replacement_run_id c \<and>
     ro_replacement_session_path r = rc_replacement_session_path c \<and>
     rc_action c = Some (ro_action r) \<and> rc_target c = ro_target r \<and> snapshot_is_claim oc c (ro_claim r)"
| "event_matches_claim oc c _ \<longleftrightarrow> False"

definition pending_session_prefix_matches_claim ::
  "origin_codec \<Rightarrow> recovery_claim \<Rightarrow> session_envelope list \<Rightarrow> bool" where
  "pending_session_prefix_matches_claim oc c es \<longleftrightarrow>
     recovery_claim_has_complete_plan c \<and>
     (case rc_boot_id c of
        None \<Rightarrow> False
      | Some boot \<Rightarrow>
          list_all (\<lambda>e. env_run_id e = rc_replacement_run_id c \<and>
            env_runtime_id e = rc_replacement_runtime_id c \<and> env_boot_id e = boot) es) \<and>
     phases_match oc (expected_phases c) es \<and>
     list_all (\<lambda>e. env_kind e = LifecycleKind \<longrightarrow>
       (case oc_lifecycle oc (env_event e) of None \<Rightarrow> False | Some l \<Rightarrow> event_matches_claim oc c l)) es"

definition claim_planned_boot_id :: "recovery_claim \<Rightarrow> string" where
  "claim_planned_boot_id c = (case rc_boot_id c of None \<Rightarrow> [] | Some b \<Rightarrow> b)"

definition claim_identity :: "recovery_claim \<Rightarrow> runtime_identity" where
  "claim_identity c =
     planned_identity (rc_replacement_run_id c) (rc_replacement_runtime_id c) (claim_planned_boot_id c)"

definition planned_handle_observation :: "origin_codec \<Rightarrow> recovery_claim \<Rightarrow> tmux_observation" where
  "planned_handle_observation oc c =
     (if rc_status c \<noteq> ClaimPending \<or> \<not> rc_spawn_started c then TmuxAbsent
      else
        (let configured = map_option (oc_tmux oc) (rc_planned_tmux_session c);
             derived = oc_tmux oc (tmux_session_name (oc_claims oc) (claim_identity c))
         in if configured = Some TmuxPresent \<or> derived = TmuxPresent then TmuxPresent
            else if configured = Some TmuxUnobserved \<or> derived = TmuxUnobserved then TmuxUnobserved
            else TmuxAbsent))"

record pending_recovery_plan =
  pp_claim :: recovery_claim
  pp_planned_identity :: runtime_identity
  pp_reattach_existing :: bool
  pp_session_file :: "string option"

definition reconciled_details ::
  "origin_codec \<Rightarrow> recovery_claim \<Rightarrow> session_envelope list \<Rightarrow> string \<Rightarrow> commit_recovery_details" where
  "reconciled_details oc c es action =
     (let link_target = find_map (\<lambda>e. case lifecycle_in oc e of
            Some (LcRecoveryOrigin r) \<Rightarrow> ro_target r | _ \<Rightarrow> None) (rev es)
      in \<lparr>cd_runtime_id = rc_replacement_runtime_id c, cd_boot_id = claim_planned_boot_id c,
          cd_action = (case rc_action c of None \<Rightarrow> action | Some a \<Rightarrow> a),
          cd_target = (case or_else (rc_target c) link_target of None \<Rightarrow> ''worker'' | Some t \<Rightarrow> t),
          cd_draft_prompt = rc_draft_prompt c\<rparr>)"

definition reconcile_session ::
  "origin_codec \<Rightarrow> claim_fresh \<Rightarrow> recovery_claim \<Rightarrow> tmux_observation \<Rightarrow> string \<Rightarrow> pending_recovery_plan option rc" where
  "reconcile_session oc fresh c tmux name =
     rc_bind (read_checked oc name) (\<lambda>es.
       if \<not> pending_session_prefix_matches_claim oc c es then rc_err CorruptClaim
       else if rc_spawn_started c \<and> tmux = TmuxAbsent then rc_err DeadPlannedHandle
       else
         (case recovery_origin_in_session oc es (rc_project_id c) (rc_origin_run_id c) (rc_request_id c) of
            Some (_, _, action) \<Rightarrow>
              rc_bind (commit_recovery_claim (oc_claims oc) fresh (rc_project_id c) (rc_origin_run_id c)
                  (reconciled_details oc c es action)) (\<lambda>committed.
                rc_ok (Some \<lparr>pp_claim = committed, pp_planned_identity = claim_identity c,
                  pp_reattach_existing = False, pp_session_file = Some name\<rparr>))
          | None \<Rightarrow>
              (let has_acquire = list_ex (\<lambda>e. env_kind e = LifecycleKind
                   \<and> get_str ''phase'' (env_event e) = Some ''acquire'') es
               in rc_ok (Some \<lparr>pp_claim = c, pp_planned_identity = claim_identity c,
                    pp_reattach_existing = (has_acquire \<or> tmux = TmuxPresent), pp_session_file = Some name\<rparr>))))"

definition reconcile_pending_claim ::
  "origin_codec \<Rightarrow> claim_fresh \<Rightarrow> file_path \<Rightarrow> recovery_claim \<Rightarrow> pending_recovery_plan option rc" where
  "reconcile_pending_claim oc fresh project_root c =
     (if rc_status c \<noteq> ClaimPending then rc_ok None
      else
        (let tmux = planned_handle_observation oc c
         in if rc_spawn_started c \<and> tmux = TmuxUnobserved
            then rc_err (RcUnobserved (evidence_for TmuxHandleUnobserved (''tmux/'' @ rc_replacement_run_id c)))
            else
              rc_bind (session_dir_open oc project_root) (\<lambda>dir.
              rc_then (open_path oc dir (rc_replacement_session_path c)) (\<lambda>r.
                case r of
                  Inr name \<Rightarrow> reconcile_session oc fresh c tmux name
                | Inl err \<Rightarrow>
                    if \<not> is_not_found err then rc_err err
                    else if rc_spawn_started c \<and> tmux = TmuxAbsent then rc_err DeadPlannedHandle
                    else
                      rc_bind (create_path oc dir (rc_replacement_session_path c)) (\<lambda>name.
                      rc_bind (validate_current name) (\<lambda>_.
                        rc_ok (Some \<lparr>pp_claim = c, pp_planned_identity = claim_identity c,
                          pp_reattach_existing = (tmux = TmuxPresent), pp_session_file = Some name\<rparr>)))))))"

end
