(* ===== verification/Recovery_Calls.thy ===== *)
theory Recovery_Calls
  imports Recovery_Session
begin

text \<open>
  How calls on the claim store behave together. A frame is a relation between the world before and after
  a call that sequences of calls keep: faults are only used up, sessions and token stay. A calm call
  changes nothing and, when calls fail in a way that says nothing about the files, answers as it
  would without those failures or answers doubt.
\<close>

named_theorems keep
named_theorems calms

section \<open>Calls in a row\<close>

lemma fst_rc_ok [simp]: "fst (rc_ok x w) = Inr x"
  and snd_rc_ok [simp]: "snd (rc_ok x w) = w"
  and fst_rc_err [simp]: "fst (rc_err e w) = Inl e"
  and snd_rc_err [simp]: "snd (rc_err e w) = w"
  and fst_rc_lift [simp]: "fst (rc_lift r w) = r"
  and snd_rc_lift [simp]: "snd (rc_lift r w) = w"
  and fst_say [simp]: "fst (say y w) = y"
  and snd_say [simp]: "snd (say y w) = w"
  by (simp_all add: rc_ok_def rc_err_def rc_lift_def say_def)

lemma rc_then_run: "m w = (r, w') \<Longrightarrow> rc_then m f w = f r w'"
  by (simp add: rc_then_def)

lemma rc_then_split: "rc_then m f w = f (fst (m w)) (snd (m w))"
  by (simp add: rc_then_def split: prod.split)

lemma rc_bind_split:
  "rc_bind m f w = (case fst (m w) of Inl e \<Rightarrow> (Inl e, snd (m w)) | Inr x \<Rightarrow> f x (snd (m w)))"
  by (simp add: rc_bind_def rc_then_split rc_err_def split: sum.split)

lemma rc_then_rc_ok [simp]: "rc_then (rc_ok x) f = f (Inr x)"
  by (rule ext) (simp add: rc_then_def rc_ok_def)

lemma rc_then_say [simp]: "rc_then (say x) f = f x"
  by (rule ext) (simp add: rc_then_def say_def)

lemma claim_has_valid_authority_seq:
  "claim_has_valid_authority cc c =
     (case rc_authority_tag c of
        None \<Rightarrow> say EvInvalid
      | Some actual \<Rightarrow> rc_then (authority_key cc) (\<lambda>r.
          case r of
            Inl e \<Rightarrow> say (EvUnobserved (case e of RcUnobserved evidence \<Rightarrow> evidence
              | _ \<Rightarrow> evidence_for AuthorityKeyUnreadable ''auth/token''))
          | Inr key \<Rightarrow> say (case authority_payload cc c of Inl _ \<Rightarrow> EvInvalid
              | Inr payload \<Rightarrow> verified (actual = mac_text cc key payload))))"
  by (rule ext) (auto simp: claim_has_valid_authority_def rc_then_def say_def
      split: option.splits sum.splits prod.splits recovery_claim_error.splits)

section \<open>Frames\<close>

definition keeps :: "(claim_world \<Rightarrow> claim_world \<Rightarrow> bool) \<Rightarrow> (claim_world \<Rightarrow> 'a \<times> claim_world) \<Rightarrow> bool" where
  "keeps R m \<longleftrightarrow> (\<forall>w. R w (snd (m w)))"

text \<open>Calls that read keep every relation that allows faults to be used up.\<close>

locale call_frame =
  fixes R :: "claim_world \<Rightarrow> claim_world \<Rightarrow> bool"
  assumes R_refl: "R w w"
    and R_trans: "R w w' \<Longrightarrow> R w' w'' \<Longrightarrow> R w w''"
    and R_faults: "set fs \<subseteq> set (cw_faults w) \<Longrightarrow> R w (w\<lparr>cw_faults := fs\<rparr>)"
begin

lemma keeps_say [keep]: "keeps R (say x)"
  by (simp add: keeps_def R_refl)

lemma keeps_ok [keep]: "keeps R (rc_ok x)"
  by (simp add: keeps_def R_refl)

lemma keeps_err [keep]: "keeps R (rc_err e)"
  by (simp add: keeps_def R_refl)

lemma keeps_lift [keep]: "keeps R (rc_lift r)"
  by (simp add: keeps_def R_refl)

lemma keeps_then [keep]: "keeps R m \<Longrightarrow> (\<And>r. keeps R (f r)) \<Longrightarrow> keeps R (rc_then m f)"
  unfolding keeps_def rc_then_split using R_trans by blast

lemma keeps_bind [keep]: "keeps R m \<Longrightarrow> (\<And>x. keeps R (f x)) \<Longrightarrow> keeps R (rc_bind m f)"
  unfolding rc_bind_def by (intro keeps_then) (auto split: sum.split intro: keeps_err)

lemma keeps_raw_sys [keep]: "keeps R act \<Longrightarrow> keeps R (raw_sys act)"
  unfolding keeps_def
proof
  fix w
  assume act: "\<forall>w. R w (snd (act w))"
  have "set fs \<subseteq> set (cw_faults w) \<Longrightarrow> R w (snd (act (w\<lparr>cw_faults := fs\<rparr>)))" for fs
    using act R_faults R_trans by blast
  then show "R w (snd (raw_sys act w))"
    using act
    by (simp add: raw_sys_def R_faults subset_insertI split: list.split option.split)
qed

lemma keeps_sys [keep]: "keeps R act \<Longrightarrow> keeps R (sys conv act)"
  unfolding sys_def by (intro keeps_then keeps_raw_sys keeps_lift)

lemma keeps_pure [keep]: "keeps R (\<lambda>w. (v w, w))"
  by (simp add: keeps_def R_refl)

lemma keeps_nop [keep]: "keeps R nop"
  by (simp add: keeps_def nop_def R_refl)

lemma keeps_read_only [keep]: "keeps R (\<lambda>w. (case f of TextFile t \<Rightarrow> Inr t | _ \<Rightarrow> Inl (SimpleError KindInvalidData), w))"
  by (simp add: keeps_def R_refl)

lemma keeps_case_sum [keep]:
  "(\<And>e. keeps R (f e)) \<Longrightarrow> (\<And>x. keeps R (g x)) \<Longrightarrow> keeps R (case r of Inl e \<Rightarrow> f e | Inr x \<Rightarrow> g x)"
  by (simp split: sum.split)

lemma keeps_case_option [keep]:
  "keeps R f \<Longrightarrow> (\<And>x. keeps R (g x)) \<Longrightarrow> keeps R (case r of None \<Rightarrow> f | Some x \<Rightarrow> g x)"
  by (simp split: option.split)

lemma keeps_if [keep]: "(b \<Longrightarrow> keeps R f) \<Longrightarrow> (\<not> b \<Longrightarrow> keeps R g) \<Longrightarrow> keeps R (if b then f else g)"
  by simp

text \<open>Calls that write one file.\<close>

lemma keeps_rename_when:
  assumes "\<And>w f. bt_get (claims_of p w) a = Some f \<Longrightarrow> R w (set_claims p (bt_insert b f (bt_remove a (claims_of p w))) w)"
  shows "keeps R (claim_rename p a b)"
proof -
  have "keeps R (rename_act p a b)"
    using assms by (auto simp: keeps_def rename_act_def R_refl split: option.split)
  then show ?thesis
    unfolding claim_rename_def by (intro keep)
qed

lemma keeps_remove_when:
  assumes "\<And>w. R w (set_claims p (bt_remove n (claims_of p w)) w)"
  shows "keeps R (claim_remove p n)"
proof -
  have "keeps R (remove_act p n)"
    using assms by (auto simp: keeps_def remove_act_def R_refl)
  then show ?thesis
    unfolding claim_remove_def by (intro keep)
qed

lemma keeps_write_temp_when:
  assumes put: "\<And>w f. R w (put_claim p n f w)"
  shows "keeps R (write_temp torn p n text)"
proof -
  have "keeps R (\<lambda>w. if bt_get (claims_of p w) n \<noteq> None then (Inl (OsError EEXIST), w)
      else (Inr (), put_claim p n (TextFile []) w))"
    by (simp add: keeps_def R_refl put)
  moreover have "keeps R (\<lambda>w. case raw_sys nop w of
      (Inl e, w) \<Rightarrow> (Inl (RcIo e), put_claim p n (file_of_bytes (take torn text)) w)
    | (Inr _, w) \<Rightarrow> (Inr (), put_claim p n (file_of_bytes text) w))"
    unfolding keeps_def
  proof
    fix w
    have "R w (snd (raw_sys nop w))"
      using keeps_raw_sys [OF keeps_nop] by (simp add: keeps_def)
    then have "R w (put_claim p n f (snd (raw_sys nop w)))" for f
      using put R_trans by blast
    then show "R w (snd (case raw_sys nop w of
        (Inl e, w) \<Rightarrow> (Inl (RcIo e), put_claim p n (file_of_bytes (take torn text)) w)
      | (Inr _, w) \<Rightarrow> (Inr (), put_claim p n (file_of_bytes text) w)))"
      by (simp split: prod.split sum.split) (metis snd_conv)
  qed
  ultimately show ?thesis
    unfolding write_temp_def by (intro keep)
qed

end

text \<open>Calls that open the directory of a project or check a signature may make what is not there.\<close>

locale dir_frame = call_frame +
  assumes R_make: "\<not> component_there c w \<Longrightarrow> R w (snd (make_component c w))"
    and R_make_token: "cw_token w = None \<Longrightarrow> R w (w\<lparr>cw_token := snd (load_or_generate fresh (cw_token w))\<rparr>)"
begin

lemma keeps_open_component [keep]: "keeps R (open_component create c)"
proof -
  have "R w (snd (make_component c w))" for w
    using R_make R_refl by (cases "component_there c w") (auto simp: make_component_def)
  then have "keeps R (make_component c)"
    by (simp add: keeps_def)
  moreover have "keeps R (open_at c)"
    by (simp add: keeps_def open_at_def R_refl)
  ultimately show ?thesis
    unfolding open_component_def
    by (intro keep) (auto split: observation_class.split intro!: keep)
qed

lemma keeps_claim_dir_open [keep]: "keeps R (claim_dir_open p create)"
  unfolding claim_dir_open_def by (intro keep)

lemma keeps_read_regular [keep]: "keeps R (read_regular p n)"
  unfolding read_regular_def by (intro keep)

lemma keeps_read_entries [keep]: "keeps R (read_entries ns)"
  by (induction ns) (auto intro!: keep)

lemma keeps_claim_names [keep]: "keeps R (claim_names p)"
proof -
  have "keeps R (\<lambda>w. read_entries (map fst (claims_of p w)) w)"
    using keeps_read_entries by (simp add: keeps_def)
  then show ?thesis
    unfolding claim_names_def by (intro keep)
qed

lemma keeps_claim_sync [keep]: "keeps R claim_sync"
  unfolding claim_sync_def by (intro keep)

lemma keeps_token_is_present [keep]: "keeps R token_is_present"
  unfolding token_is_present_def by (intro keep)

text \<open>The token is made only where there is none.\<close>

lemma keeps_authority_key [keep]: "keeps R (authority_key cc)"
proof -
  let ?gen = "\<lambda>w. (Inr (), w\<lparr>cw_token := snd (load_or_generate (cc_random cc) (cw_token w))\<rparr>)"
  let ?safe = "\<lambda>w. if cw_token w = None then ?gen w else (Inr (), w)"
  define rest where "rest = (\<lambda>_::unit. rc_bind (sys RcIo (\<lambda>w. (found (cw_token w), w))) (\<lambda>raw.
    rc_bind (sys RcIo nop) (\<lambda>_. rc_bind (sys RcIo nop) (\<lambda>_.
      let key = rev (dropWhile ascii_whitespace_byte (rev raw))
      in if key = [] then rc_err CorruptClaim else rc_ok key))))"
  have rest: "keeps R (rest x)" for x
    unfolding rest_def Let_def by (intro keep)
  have "keeps R ?safe"
    unfolding keeps_def using R_make_token by (clarsimp simp: R_refl)
  then have made: "keeps R (rc_bind (sys (\<lambda>_. CorruptClaim) ?safe) rest)"
    by (intro keep rest)
  have same: "sys (\<lambda>_. CorruptClaim) ?gen w = sys (\<lambda>_. CorruptClaim) ?safe w" if "cw_token w = None" for w
    using that by (auto simp: sys_def rc_then_def raw_sys_def split: list.split option.split)
  have step: "R w (snd (rc_bind (if present then rc_ok () else sys (\<lambda>_. CorruptClaim) ?gen) rest w))"
    if "present \<longleftrightarrow> cw_token w \<noteq> None" for present w
  proof (cases present)
    case True
    then show ?thesis
      using rest by (simp add: rc_bind_split keeps_def)
  next
    case False
    then have "cw_token w = None"
      using that by simp
    then have "rc_bind (sys (\<lambda>_. CorruptClaim) ?gen) rest w = rc_bind (sys (\<lambda>_. CorruptClaim) ?safe) rest w"
      by (simp only: rc_bind_def rc_then_def same)
    then show ?thesis
      using False made by (simp only: keeps_def if_False)
  qed
  have seen: "fst (token_is_present w) = Inr present \<Longrightarrow> present \<longleftrightarrow> cw_token (snd (token_is_present w)) \<noteq> None"
    for w present
    by (auto simp: token_is_present_def sys_def rc_then_def raw_sys_def rc_lift_def split: list.splits option.splits)
  have "R w (snd (authority_key cc w))" for w
  proof -
    have first: "R w (snd (token_is_present w))"
      using keeps_token_is_present by (simp add: keeps_def)
    show ?thesis
    proof (cases "fst (token_is_present w)")
      case (Inl e)
      then show ?thesis
        using first by (simp add: authority_key_def rc_bind_split)
    next
      case (Inr present)
      then have "R (snd (token_is_present w)) (snd (authority_key cc w))"
        using step [OF seen [OF Inr]]
        by (simp add: authority_key_def rc_bind_split [of token_is_present] rest_def)
      then show ?thesis
        using first R_trans by blast
    qed
  qed
  then show ?thesis
    by (simp add: keeps_def)
qed

lemma keeps_authority_tag [keep]: "keeps R (authority_tag cc c)"
  unfolding authority_tag_def by (intro keep)

lemma keeps_valid_authority [keep]: "keeps R (claim_has_valid_authority cc c)"
  unfolding claim_has_valid_authority_seq by (intro keep)

lemma keeps_check_claim [keep]: "keeps R (check_claim cc p og raw)"
  unfolding check_claim_def by (intro keep) (auto split: claim_evidence.split intro!: keep)

end

text \<open>Calls that write to the claim store keep a frame that allows this.\<close>

locale store_frame = call_frame +
  assumes R_set_claims: "R w (set_claims p fs w)"
    and R_make_store: "R w (w\<lparr>cw_store := Some []\<rparr>)"
    and R_new_token: "cw_token w = None \<Longrightarrow> R w (w\<lparr>cw_token := snd (load_or_generate fresh (cw_token w))\<rparr>)"

sublocale store_frame < dir_frame
proof
  show "\<not> component_there c w \<Longrightarrow> R w (snd (make_component c w))" for c w
    by (simp add: make_component_def R_make_store R_set_claims split: store_component.split)
qed (rule R_new_token)

context store_frame begin

lemma R_put: "R w (put_claim p n f w)"
  by (simp add: put_claim_def R_set_claims)

lemma keeps_claim_rename [keep]: "keeps R (claim_rename p a b)"
  by (rule keeps_rename_when) (simp add: R_set_claims)

lemma keeps_claim_remove [keep]: "keeps R (claim_remove p n)"
  by (rule keeps_remove_when) (simp add: R_set_claims)

lemma keeps_write_temp [keep]: "keeps R (write_temp torn p n text)"
  by (rule keeps_write_temp_when) (rule R_put)

lemma keeps_temp_authentic [keep]: "keeps R (temp_authentic cc p og raw)"
  unfolding temp_authentic_def by (intro keep) (auto split: claim_evidence.split intro!: keep)

lemma keeps_sift_temps [keep]: "keeps R (sift_temps cc p og ns)"
  by (induction ns) (auto intro!: keep)

lemma keeps_promote_temp [keep]: "keeps R (promote_temp p final valid)"
  unfolding promote_temp_def by (intro keep) (auto split: list.split intro!: keep)

lemma keeps_reconcile_stale [keep]: "keeps R (reconcile_stale_claim_temp cc p og)"
  unfolding reconcile_stale_claim_temp_def by (intro keep)

lemma keeps_write_claim_atomic [keep]: "keeps R (write_claim_atomic cc torn uuid c)"
  unfolding write_claim_atomic_def Let_def by (intro keep)

lemma keeps_write_claim [keep]: "keeps R (write_claim cc fresh c)"
  unfolding write_claim_def write_claim_atomic_or_reconcile_def by (intro keep)

lemma keeps_load [keep]: "keeps R (load_recovery_claim cc p og)"
  unfolding load_recovery_claim_def by (intro keep)

lemma keeps_quarantine [keep]: "keeps R (quarantine_invalid_claim p og)"
  unfolding quarantine_invalid_claim_def by (intro keep)

end

section \<open>Frames of the session calls\<close>

context call_frame begin

lemma keeps_session_dir_open [keep]: "keeps R (session_dir_open oc root)"
  unfolding session_dir_open_def by (intro keep)

lemma keeps_name_for_path [keep]: "keeps R (name_for_path oc dir path)"
  unfolding name_for_path_def by (intro keep)

lemma keeps_open_name [keep]: "keeps R (open_name name)"
  unfolding open_name_def by (intro keep)

lemma keeps_open_path [keep]: "keeps R (open_path oc dir path)"
  unfolding open_path_def by (intro keep)

lemma keeps_validate_current [keep]: "keeps R (validate_current name)"
  unfolding validate_current_def by (intro keep)

lemma keeps_read_checked [keep]: "keeps R (read_checked oc name)"
proof -
  have "keeps R (\<lambda>w. (let bytes = session_bytes name w
      in if rust_str bytes then Inr bytes else Inl (SimpleError KindInvalidData), w))"
    by (simp add: keeps_def R_refl)
  then show ?thesis
    unfolding read_checked_def by (intro keep)
qed

lemma keeps_read_path [keep]: "keeps R (read_path oc dir path)"
  unfolding read_path_def by (intro keep)

lemma keeps_scan_checked [keep]: "keeps R (scan_checked scan name)"
  unfolding scan_checked_def by (intro keep)

lemma keeps_complete_scan [keep]: "keeps R (complete_session_scan oc dir path)"
  unfolding complete_session_scan_def scan_path_def scan_path_complete_def by (intro keep)

lemma keeps_observe [keep]:
  "keeps R m \<Longrightarrow> (\<And>x. keeps R (f x)) \<Longrightarrow> keeps R (observe m reason f)"
  unfolding observe_def by (intro keep)

end

text \<open>The enumerations of the index thread the world by hand; they are calls in a row too.\<close>

lemma index_envelopes_seq:
  "index_envelopes f (e # es) n = rc_then (f e) (\<lambda>r.
     case r of
       Inl evidence \<Rightarrow> say (Inl evidence, n)
     | Inr (link, k) \<Rightarrow> rc_then (index_envelopes f es (n + k)) (\<lambda>r.
         say (case r of
             (Inr links, n) \<Rightarrow> (Inr (case link of None \<Rightarrow> links | Some l \<Rightarrow> l # links), n)
           | (Inl evidence, n) \<Rightarrow> (Inl evidence, n))))"
  by (rule ext) (auto simp: rc_then_def say_def split: prod.splits sum.splits)

lemma enumerate_entries_seq:
  "enumerate_entries oc root p names links cost =
     rc_then (raw_sys nop) (\<lambda>r.
       case r of
         Inl _ \<Rightarrow> say (Inl (evidence_for SessionDirectoryUnavailable
           (sanitized_subject root (project_sessions_dir root))), cost)
       | Inr _ \<Rightarrow>
           (case names of
              [] \<Rightarrow> say (Inr links, cost)
            | name # names \<Rightarrow>
                if path_extension name \<noteq> Some ''jsonl'' then enumerate_entries oc root p names links cost
                else rc_then (index_recovery_origins_in_session oc root (project_sessions_dir root @ [name]) p)
                  (\<lambda>(r, bytes).
                    let cost = \<lparr>oe_files = oe_files cost + 1, oe_bytes_inspected = oe_bytes_inspected cost + bytes\<rparr>
                    in case r of
                         Inl evidence \<Rightarrow> say (Inl evidence, cost)
                       | Inr here \<Rightarrow> enumerate_entries oc root p names (links @ here) cost)))"
  by (rule ext, subst enumerate_entries.simps)
    (auto simp: rc_then_def say_def Let_def split: prod.splits sum.splits list.splits)

lemma links_for_seq:
  "links_for oc root p a =
     (case bt_get (oa_by_project a) root of
        Some links \<Rightarrow> say (links, a)
      | None \<Rightarrow> rc_then (enumerate_recovery_origin_links oc root p) (\<lambda>(links, cost).
          say (links, \<lparr>oa_by_project = bt_insert root links (oa_by_project a),
            oa_cost = \<lparr>oe_files = oe_files (oa_cost a) + oe_files cost,
              oe_bytes_inspected = oe_bytes_inspected (oa_cost a) + oe_bytes_inspected cost\<rparr>\<rparr>)))"
  by (rule ext) (auto simp: links_for_def rc_then_def say_def split: prod.splits option.splits)

context dir_frame begin

lemma keeps_verify [keep]: "keeps R (verify_committed_claim_against_session oc root c)"
  unfolding verify_committed_claim_against_session_def by (intro keep)

lemma keeps_same_session [keep]: "keeps R (same_session oc dir root sp lp)"
  unfolding same_session_def
  by (intro keep) (auto split: recovery_claim_error.split intro!: keep)

lemma keeps_index_envelope [keep]: "keeps R (index_envelope oc dir root sp p es first e)"
proof -
  have keeps_case_evidence: "keeps R f \<Longrightarrow> keeps R g \<Longrightarrow> (\<And>u. keeps R (h u))
      \<Longrightarrow> keeps R (case ev of EvValid \<Rightarrow> f | EvInvalid \<Rightarrow> g | EvUnobserved u \<Rightarrow> h u)"
    for ev and f g :: "claim_world \<Rightarrow> 'a \<times> claim_world" and h
    by (simp split: claim_evidence.split)
  show ?thesis
    unfolding index_envelope_def
    by (auto split: option.split lifecycle.split intro!: keep keeps_case_evidence)
qed

lemma keeps_index_envelopes: "(\<And>e. keeps R (f e)) \<Longrightarrow> keeps R (index_envelopes f es n)"
proof (induction es arbitrary: n)
  case Nil
  then show ?case by (simp add: keeps_def R_refl)
next
  case (Cons e es)
  then show ?case
    unfolding index_envelopes_seq by (auto intro!: keep split: sum.split)
qed

lemma keeps_index_session [keep]: "keeps R (index_recovery_origins_in_session oc root sp p)"
  unfolding index_recovery_origins_in_session_def Let_def
  by (intro keep) (auto split: list.split intro!: keep keeps_index_envelopes)

lemma keeps_enumerate_entries [keep]: "keeps R (enumerate_entries oc root p names links cost)"
proof (induction names arbitrary: links cost)
  case Nil
  show ?case
    unfolding enumerate_entries_seq [of _ _ _ "[]"] by (auto intro!: keep split: sum.split)
next
  case (Cons n ns)
  show ?case
    unfolding enumerate_entries_seq [of _ _ _ "n # ns"] Let_def
    by (auto intro!: keep Cons split: sum.split prod.split)
qed

lemma keeps_enumerate [keep]: "keeps R (enumerate_recovery_origin_links oc root p)"
  unfolding enumerate_recovery_origin_links_def by (intro keep)

lemma keeps_links_for [keep]: "keeps R (links_for oc root p a)"
  unfolding links_for_seq by (auto intro!: keep split: option.split prod.split)

end

context store_frame begin

lemma keeps_reload [keep]: "keeps R (reload_or_missing oc p og)"
  unfolding reload_or_missing_def
  by (intro keep) (auto split: recovery_claim_error.split intro!: keep)

lemma keeps_reconstruct [keep]: "keeps R (reconstruct_or_quarantine oc fresh root p og links)"
  unfolding reconstruct_or_quarantine_def
  by (auto split: list.split claim_evidence.split intro!: keep)

lemma keeps_quarantine_and_reconstruct [keep]:
  "keeps R (quarantine_and_reconstruct oc fresh root p og links)"
  unfolding quarantine_and_reconstruct_def by (intro keep)

lemma keeps_resolve_with_links [keep]: "keeps R (resolve_with_links oc fresh root p og links)"
  unfolding resolve_with_links_def
  by (auto split: sum.split option.split list.split claim_evidence.split recovery_claim_error.split intro!: keep)

end

interpretation fewer_faults: store_frame "\<lambda>w w'. set (cw_faults w') \<subseteq> set (cw_faults w)"
  by unfold_locales (auto simp: set_claims_def)

interpretation same_sessions: store_frame "\<lambda>w w'. cw_sessions w' = cw_sessions w"
  by unfold_locales (auto simp: set_claims_def)

interpretation same_token: store_frame "\<lambda>w w'. cw_token w = Some t \<longrightarrow> cw_token w' = Some t" for t
  by unfold_locales (auto simp: set_claims_def load_or_generate_def)

interpretation same_files: call_frame "\<lambda>w w'. cw_store w' = cw_store w \<and> cw_token w' = cw_token w"
  by unfold_locales auto

section \<open>Calm calls\<close>

text \<open>Calls that fail with errors of a kind \<open>S\<close> only; in the calm world none fails.\<close>

definition faulted :: "(io_error \<Rightarrow> bool) \<Rightarrow> io_error option list \<Rightarrow> bool" where
  "faulted S fs \<longleftrightarrow> list_all (\<lambda>f. case f of None \<Rightarrow> True | Some e \<Rightarrow> S e) fs"

abbreviation calm :: "claim_world \<Rightarrow> claim_world" where
  "calm w \<equiv> w\<lparr>cw_faults := []\<rparr>"

definition answers ::
  "(io_error \<Rightarrow> bool) \<Rightarrow> claim_world \<Rightarrow> ('a \<Rightarrow> bool) \<Rightarrow> (claim_world \<Rightarrow> 'a \<times> claim_world) \<Rightarrow> bool" where
  "answers S w P m \<longleftrightarrow>
     (\<forall>fs. faulted S fs \<longrightarrow>
       (\<exists>r fs'. faulted S fs' \<and> m (w\<lparr>cw_faults := fs\<rparr>) = (r, w\<lparr>cw_faults := fs'\<rparr>) \<and> P r))"

definition calmly ::
  "(io_error \<Rightarrow> bool) \<Rightarrow> claim_world \<Rightarrow> ('a \<Rightarrow> bool) \<Rightarrow> (claim_world \<Rightarrow> 'a \<times> claim_world) \<Rightarrow> bool" where
  "calmly S w D m \<longleftrightarrow> snd (m (calm w)) = calm w \<and> answers S w (\<lambda>r. r = fst (m (calm w)) \<or> D r) m"

lemma faulted_Nil [simp]: "faulted S []"
  and faulted_Cons [simp]: "faulted S (f # fs) \<longleftrightarrow> (case f of None \<Rightarrow> True | Some e \<Rightarrow> S e) \<and> faulted S fs"
  by (simp_all add: faulted_def)

lemma calmly_run:
  assumes "calmly S w D m" "faulted S (cw_faults w)"
  obtains r fs where "faulted S fs" "m w = (r, w\<lparr>cw_faults := fs\<rparr>)" "r = fst (m (calm w)) \<or> D r"
proof -
  have "\<exists>r fs'. faulted S fs' \<and> m (w\<lparr>cw_faults := cw_faults w\<rparr>) = (r, w\<lparr>cw_faults := fs'\<rparr>)
      \<and> (r = fst (m (calm w)) \<or> D r)"
    using assms unfolding calmly_def answers_def by blast
  then show ?thesis
    using that by auto
qed

lemma answers_then: "answers S w P m \<Longrightarrow> (\<And>r. P r \<Longrightarrow> answers S w Q (f r)) \<Longrightarrow> answers S w Q (rc_then m f)"
proof -
  assume m: "answers S w P m" and f: "\<And>r. P r \<Longrightarrow> answers S w Q (f r)"
  show ?thesis
    unfolding answers_def
  proof (intro allI impI)
    fix fs
    assume "faulted S fs"
    then obtain r fs' where "faulted S fs'" "m (w\<lparr>cw_faults := fs\<rparr>) = (r, w\<lparr>cw_faults := fs'\<rparr>)" "P r"
      using m unfolding answers_def by blast
    then show "\<exists>s fs'. faulted S fs' \<and> rc_then m f (w\<lparr>cw_faults := fs\<rparr>) = (s, w\<lparr>cw_faults := fs'\<rparr>) \<and> Q s"
      using f unfolding answers_def by (simp add: rc_then_run)
  qed
qed

lemma answers_mono: "answers S w P m \<Longrightarrow> (\<And>r. P r \<Longrightarrow> Q r) \<Longrightarrow> answers S w Q m"
  unfolding answers_def by blast

lemma answers_say [calms]: "P x \<Longrightarrow> answers S w P (say x)"
  by (auto simp: answers_def say_def)

lemma answers_ok [calms]: "P (Inr x) \<Longrightarrow> answers S w P (rc_ok x)"
  by (auto simp: answers_def rc_ok_def)

lemma answers_err [calms]: "P (Inl e) \<Longrightarrow> answers S w P (rc_err e)"
  by (auto simp: answers_def rc_err_def)

lemma calmly_say [calms]: "calmly S w D (say x)"
  by (simp add: calmly_def answers_say)

lemma calmly_ok [calms]: "calmly S w D (rc_ok x)"
  by (simp add: calmly_def answers_ok)

lemma calmly_err [calms]: "calmly S w D (rc_err e)"
  by (simp add: calmly_def answers_err)

lemma calmly_lift [calms]: "calmly S w D (rc_lift r)"
  by (auto simp: calmly_def answers_def rc_lift_def)

text \<open>A call that doubts may be retried in another way; whatever follows must not matter.\<close>

lemma calmly_retry:
  assumes m: "calmly S w D m"
    and goes: "calmly S w D' (f (fst (m (calm w))))"
    and doubts: "\<And>r. D r \<Longrightarrow> answers S w (\<lambda>s. s = fst (f (fst (m (calm w))) (calm w)) \<or> D' s) (f r)"
  shows "calmly S w D' (rc_then m f)"
proof -
  have "answers S w (\<lambda>s. s = fst (f (fst (m (calm w))) (calm w)) \<or> D' s) (rc_then m f)"
    using m goes doubts by (intro answers_then [of S w "\<lambda>r. r = fst (m (calm w)) \<or> D r"]) (auto simp: calmly_def)
  then show ?thesis
    using m goes by (simp add: calmly_def rc_then_split)
qed

lemma calmly_then:
  assumes "calmly S w D m" "calmly S w D' (f (fst (m (calm w))))" "\<And>r. D r \<Longrightarrow> answers S w D' (f r)"
  shows "calmly S w D' (rc_then m f)"
  by (rule calmly_retry [of S w D, OF assms(1)]) (auto intro: assms(2) answers_mono [OF assms(3)])

lemma calmly_mono: "calmly S w D m \<Longrightarrow> (\<And>r. D r \<Longrightarrow> D' r) \<Longrightarrow> calmly S w D' m"
  unfolding calmly_def answers_def by blast

lemma calm_bind:
  "snd (m (calm w)) = calm w \<Longrightarrow>
    rc_bind m f (calm w) = (case fst (m (calm w)) of Inl e \<Rightarrow> (Inl e, calm w) | Inr x \<Rightarrow> f x (calm w))"
  by (simp add: rc_bind_split split: sum.split)

lemma calm_then: "snd (m (calm w)) = calm w \<Longrightarrow> rc_then m f (calm w) = f (fst (m (calm w))) (calm w)"
  by (simp add: rc_then_split)

text \<open>A result that only doubts: an error of the given sort.\<close>

definition fails :: "(recovery_claim_error \<Rightarrow> bool) \<Rightarrow> recovery_claim_error + 'a \<Rightarrow> bool" where
  "fails E r \<longleftrightarrow> (case r of Inl e \<Rightarrow> E e | Inr _ \<Rightarrow> False)"

lemma fails_simps [simp]: "fails E (Inl e) \<longleftrightarrow> E e" "\<not> fails E (Inr x)"
  by (simp_all add: fails_def)

lemma calmly_bind [calms]:
  assumes m: "calmly S w (fails E) m"
    and f: "\<And>x. fst (m (calm w)) = Inr x \<Longrightarrow> calmly S w (fails E) (f x)"
  shows "calmly S w (fails E) (rc_bind m f)"
  unfolding rc_bind_def
proof (rule calmly_then [OF m])
  show "calmly S w (fails E) (case_sum rc_err f (fst (m (calm w))))"
    using f by (auto split: sum.split intro: calms)
  show "answers S w (fails E) (case_sum rc_err f r)" if "fails E r" for r
    using that by (auto simp: fails_def split: sum.split_asm intro: calms)
qed

lemma calmly_raw_sys:
  assumes "\<And>fs. act (w\<lparr>cw_faults := fs\<rparr>) = (v, w\<lparr>cw_faults := fs\<rparr>)"
  shows "calmly S w (\<lambda>r. \<exists>e. r = Inl e \<and> S e) (raw_sys act)"
proof -
  have "\<exists>r fs'. faulted S fs' \<and> raw_sys act (w\<lparr>cw_faults := fs\<rparr>) = (r, w\<lparr>cw_faults := fs'\<rparr>)
      \<and> (r = v \<or> (\<exists>e. r = Inl e \<and> S e))" if "faulted S fs" for fs
  proof (cases fs)
    case Nil
    then have "raw_sys act (w\<lparr>cw_faults := fs\<rparr>) = (v, w\<lparr>cw_faults := []\<rparr>)"
      using assms by (simp add: raw_sys_def)
    then show ?thesis
      using faulted_Nil by blast
  next
    case (Cons f fs')
    then have "raw_sys act (w\<lparr>cw_faults := fs\<rparr>) = (case f of None \<Rightarrow> v | Some e \<Rightarrow> Inl e, w\<lparr>cw_faults := fs'\<rparr>)"
      using assms by (simp add: raw_sys_def split: option.split)
    then show ?thesis
      using that Cons by (auto split: option.splits)
  qed
  then show ?thesis
    using assms [of "[]"] by (simp add: calmly_def answers_def raw_sys_def)
qed

lemma calmly_sys:
  assumes act: "\<And>fs. act (w\<lparr>cw_faults := fs\<rparr>) = (v, w\<lparr>cw_faults := fs\<rparr>)"
    and conv: "\<And>e. S e \<Longrightarrow> E (conv e)"
  shows "calmly S w (fails E) (sys conv act)"
  unfolding sys_def
  using conv by (intro calmly_then [OF calmly_raw_sys [OF act]]) (auto simp: answers_def rc_lift_def intro: calms)

lemma sys_calm: "fst (sys conv (\<lambda>w. (v w, w)) (calm w)) = map_sum conv id (v (calm w))"
  by (simp add: sys_def rc_then_def raw_sys_def rc_lift_def)

text \<open>Which errors \<open>E\<close> the store makes of failures \<open>S\<close> that never say a file is absent.\<close>

locale fault_class =
  fixes S :: "io_error \<Rightarrow> bool" and E :: "recovery_claim_error \<Rightarrow> bool"
  assumes S_present: "S e \<Longrightarrow> error_kind e \<noteq> KindNotFound"
    and S_io: "S e \<Longrightarrow> E (RcIo e)"
    and S_decided: "S e \<Longrightarrow> classify_observation e = ObsDecided \<Longrightarrow> E CorruptClaim"
    and E_unobserved: "E (RcUnobserved u)"
    and E_present: "E x \<Longrightarrow> \<not> is_not_found x"
begin

lemma S_class: "S e \<Longrightarrow> classify_observation e \<noteq> ObsAbsent"
proof (cases e)
  case (OsError n)
  then show "S e \<Longrightarrow> ?thesis" using S_present by (cases n) fastforce+
next
  case (SimpleError k)
  then show "S e \<Longrightarrow> ?thesis" using S_present by (cases k) fastforce+
qed

lemma S_conv: "S e \<Longrightarrow> E (claim_io_error reason subject e)"
  using S_class [of e] S_decided E_unobserved
  by (auto simp: claim_io_error_def split: observation_class.split)

lemma calmly_open_component [calms]: "calmly S w (fails E) (open_component False c)"
  unfolding open_component_def
proof (rule calmly_then [OF calmly_raw_sys])
  let ?next = "\<lambda>r. rc_bind (case r of
      Inr _ \<Rightarrow> rc_ok True
    | Inl err \<Rightarrow>
        (case classify_observation err of
           ObsAbsent \<Rightarrow>
             if \<not> False then rc_ok False
             else
               rc_bind
                 (rc_then (raw_sys (make_component c)) (\<lambda>m.
                    case m of
                      Inr _ \<Rightarrow> rc_ok ()
                    | Inl e \<Rightarrow> if error_kind e \<noteq> KindAlreadyExists
                        then rc_err (store_error (Some (component_name c)) e) else rc_ok ()))
                 (\<lambda>_. rc_bind (sys (store_error None) nop) (\<lambda>_.
                   rc_bind (sys (store_error (Some (component_name c))) (open_at c)) (\<lambda>_. rc_ok True)))
         | ObsDecided \<Rightarrow> rc_err CorruptClaim
         | ObsUnobserved \<Rightarrow> rc_err (RcUnobserved (evidence_for ClaimStoreUnreadable (component_name c)))))
    (\<lambda>there. if \<not> there then rc_ok False
       else rc_bind (sys (store_error (Some (component_name c))) nop) (\<lambda>_. rc_ok True))"
  show "open_at c (w\<lparr>cw_faults := fs\<rparr>) = (found (if component_there c w then Some () else None), w\<lparr>cw_faults := fs\<rparr>)"
    for fs
    by (simp add: open_at_def component_there_def split: store_component.split)
  show "calmly S w (fails E) (?next (fst (raw_sys (open_at c) (calm w))))"
    by (auto simp: raw_sys_def open_at_def found_def nop_def S_conv intro!: calms calmly_sys)
  show "answers S w (fails E) (?next r)" if "\<exists>e. r = Inl e \<and> S e" for r
    using that S_class S_decided E_unobserved
    by (auto simp: rc_bind_def rc_then_def rc_err_def answers_def split: observation_class.split)
qed

lemma calmly_claim_dir_open [calms]: "calmly S w (fails E) (claim_dir_open p False)"
  unfolding claim_dir_open_def
  by (auto simp: nop_def S_conv intro!: calms calmly_sys)

lemma calmly_read_regular [calms]: "calmly S w (fails E) (read_regular p n)"
  unfolding read_regular_def
  by (auto simp: nop_def S_conv claims_of_def intro!: calms calmly_sys)

lemma calmly_token_is_present [calms]: "calmly S w (fails E) token_is_present"
  unfolding token_is_present_def
  by (auto simp: S_conv intro!: calmly_sys)

lemma calmly_authority_key [calms]:
  assumes "cw_token w \<noteq> None"
  shows "calmly S w (fails E) (authority_key cc)"
proof -
  have present: "x" if "fst (token_is_present (calm w)) = Inr x" for x
    using that assms by (simp add: token_is_present_def sys_calm)
  show ?thesis
    unfolding authority_key_def Let_def
    by (auto simp: nop_def S_io dest!: present intro!: calms calmly_sys)
qed

text \<open>A signature that could not be checked is not observed.\<close>

lemma calmly_valid_authority [calms]:
  assumes "cw_token w \<noteq> None"
  shows "calmly S w (\<lambda>ev. \<exists>u. ev = EvUnobserved u) (claim_has_valid_authority cc c)"
proof (cases "rc_authority_tag c")
  case None
  then show ?thesis
    by (simp add: claim_has_valid_authority_seq calms)
next
  case (Some tag)
  show ?thesis
    unfolding claim_has_valid_authority_seq Some option.case
    by (rule calmly_then [OF calmly_authority_key [OF assms]])
      (auto simp: fails_def intro!: calms split: sum.splits)
qed

lemma calmly_check_claim [calms]:
  assumes "cw_token w \<noteq> None"
  shows "calmly S w (fails E) (check_claim cc p og raw)"
proof (cases "cc_parse cc raw")
  case None
  then show ?thesis
    by (simp add: check_claim_def calms)
next
  case (Some c)
  have "calmly S w (fails E) (rc_then (claim_has_valid_authority cc c) (\<lambda>ev. case ev of
      EvValid \<Rightarrow> rc_ok (Some c) | EvInvalid \<Rightarrow> rc_err CorruptClaim | EvUnobserved reason \<Rightarrow> rc_err (RcUnobserved reason)))"
    by (rule calmly_then [OF calmly_valid_authority [OF assms]])
      (auto simp: E_unobserved intro!: calms split: claim_evidence.split)
  then show ?thesis
    by (simp add: check_claim_def Some calms)
qed

end


lemma read_regular_calm:
  "read_regular p n (calm w) =
     (case bt_get (claims_of p w) n of
        None \<Rightarrow> Inl (RcIo (OsError ENOENT))
      | Some (TextFile t) \<Rightarrow> Inr t
      | Some _ \<Rightarrow> Inl CorruptClaim, calm w)"
  by (auto simp: read_regular_def rc_bind_def rc_then_def sys_def raw_sys_def rc_lift_def rc_err_def nop_def
      found_def claims_of_def claim_io_error_def split: option.split claim_file.split)

context fault_class begin

text \<open>A claim file that is there is read without touching the store.\<close>

lemma calmly_load:
  assumes token: "cw_token w \<noteq> None"
    and stored: "bt_get (claims_of p w) (og @ ''.json'') \<noteq> None"
  shows "calmly S w (fails E) (load_recovery_claim cc p og)"
proof -
  let ?use = "\<lambda>name r. case r of
      Inr raw \<Rightarrow> check_claim cc p og raw
    | Inl e \<Rightarrow>
        if \<not> is_not_found e then rc_err e
        else
          rc_bind (reconcile_stale_claim_temp cc p og) (\<lambda>_.
          rc_bind (claim_dir_open p False) (\<lambda>there.
            if \<not> there then rc_ok None
            else
              rc_then (read_regular p name) (\<lambda>r.
                case r of
                  Inr raw \<Rightarrow> check_claim cc p og raw
                | Inl e \<Rightarrow> if is_not_found e then rc_ok None else rc_err e)))"
  have read: "calmly S w (fails E) (rc_then (read_regular p name) (?use name))"
    if "claim_file_name og = Inr name" for name
  proof (rule calmly_then [OF calmly_read_regular])
    have "name = og @ ''.json''"
      using that by (auto simp: claim_file_name_def split: if_splits)
    then show "calmly S w (fails E) (?use name (fst (read_regular p name (calm w))))"
      using stored token
      by (auto simp: read_regular_calm is_not_found_def intro!: calms split: option.split claim_file.split)
    show "answers S w (fails E) (?use name r)" if "fails E r" for r
      using that E_present by (auto simp: fails_def intro!: calms split: sum.split_asm)
  qed
  show ?thesis
    unfolding load_recovery_claim_def
    using read by (auto intro!: calms)
qed

end

section \<open>Calm session calls\<close>

context fault_class begin

lemma calmly_session_dir_open [calms]: "calmly S w (fails E) (session_dir_open oc root)"
  unfolding session_dir_open_def
  by (auto simp: nop_def S_io intro!: calms calmly_sys)

lemma calmly_name_for_path [calms]: "calmly S w (fails E) (name_for_path oc dir path)"
proof (cases "path_parent path")
  case None
  then show ?thesis
    by (simp add: name_for_path_def calms)
next
  case (Some parent)
  show ?thesis
    unfolding name_for_path_def Some option.case
    by (rule calmly_then [OF calmly_raw_sys])
      (auto simp: raw_sys_def S_io dest: S_present intro!: calms split: sum.split option.split)
qed

lemma calmly_open_name [calms]: "calmly S w (fails E) (open_name name)"
  unfolding open_name_def
  by (auto simp: nop_def S_io session_file_at_def intro!: calms calmly_sys)

lemma calmly_open_path [calms]: "calmly S w (fails E) (open_path oc dir path)"
  unfolding open_path_def by (intro calms)

lemma calmly_read_checked [calms]: "calmly S w (fails E) (read_checked oc name)"
  unfolding read_checked_def validate_current_def
  by (auto simp: nop_def S_io session_bytes_def session_file_at_def intro!: calms calmly_sys)

lemma calmly_read_path [calms]: "calmly S w (fails E) (read_path oc dir path)"
  unfolding read_path_def by (intro calms)

end

text \<open>Failures that say nothing about the files, and the errors that doubt.\<close>

definition transient :: "io_error \<Rightarrow> bool" where
  "transient e \<longleftrightarrow> classify_observation e = ObsUnobserved"

fun doubt :: "recovery_claim_error \<Rightarrow> bool" where
  "doubt (RcUnobserved _) \<longleftrightarrow> True"
| "doubt (RcIo e) \<longleftrightarrow> transient e"
| "doubt _ \<longleftrightarrow> False"

text \<open>Failures that do not say a file is absent, and the errors that do not say so.\<close>

definition present :: "io_error \<Rightarrow> bool" where
  "present e \<longleftrightarrow> error_kind e \<noteq> KindNotFound"

lemma transient_present: "transient e \<Longrightarrow> present e"
proof (cases e)
  case (OsError n)
  then show "transient e \<Longrightarrow> ?thesis" by (cases n) (auto simp: transient_def present_def)
next
  case (SimpleError k)
  then show "transient e \<Longrightarrow> ?thesis" by (cases k) (auto simp: transient_def present_def)
qed

lemma doubt_present: "doubt x \<Longrightarrow> \<not> is_not_found x"
  using transient_present by (cases x) (auto simp: is_not_found_def present_def)

interpretation transient_faults: fault_class transient doubt
proof
  show "transient e \<Longrightarrow> error_kind e \<noteq> KindNotFound" for e
    using transient_present by (simp add: present_def)
qed (auto simp: doubt_present, simp add: transient_def)

interpretation present_faults: fault_class present "\<lambda>x. \<not> is_not_found x"
  by unfold_locales (auto simp: present_def is_not_found_def)

lemma faulted_present: "faulted transient fs \<Longrightarrow> faulted present fs"
  unfolding faulted_def by (erule list.pred_mono_strong) (auto simp: transient_present split: option.splits)

lemma faulted_subset: "faulted S fs \<Longrightarrow> set fs' \<subseteq> set fs \<Longrightarrow> faulted S fs'"
  by (auto simp: faulted_def list_all_iff)

lemma faulted_after:
  "faulted S (cw_faults w) \<Longrightarrow> keeps (\<lambda>w w'. set (cw_faults w') \<subseteq> set (cw_faults w)) m
    \<Longrightarrow> faulted S (cw_faults (snd (m w)))"
  using faulted_subset by (auto simp: keeps_def)

section \<open>Evidence under transient failures\<close>

text \<open>A session that could not be read is evidence of nothing.\<close>

abbreviation unsure :: "claim_evidence \<Rightarrow> bool" where
  "unsure ev \<equiv> \<exists>u. ev = EvUnobserved u"

lemma unsure_read: "doubt e \<Longrightarrow> unsure (session_read_evidence e reason)"
  using transient_present
  by (cases e) (auto simp: session_read_evidence_def transient_def present_def split: observation_class.split)

lemma calmly_observe [calms]:
  assumes m: "calmly transient w (fails doubt) m"
    and f: "\<And>x. fst (m (calm w)) = Inr x \<Longrightarrow> calmly transient w unsure (f x)"
  shows "calmly transient w unsure (observe m reason f)"
  unfolding observe_def
  using f unsure_read
  by (intro calmly_then [OF m]) (auto simp: fails_def intro!: calms split: sum.split sum.split_asm)

lemma calmly_verify [calms]:
  assumes "cw_token w \<noteq> None"
  shows "calmly transient w unsure (verify_committed_claim_against_session oc root c)"
proof -
  note valid = transient_faults.calmly_valid_authority [OF assms]
  show ?thesis
    unfolding verify_committed_claim_against_session_def
    by (auto intro!: calms calmly_then [OF valid] split: option.split)
qed

end
