(* ===== verification/Recovery_Safety.thy ===== *)
theory Recovery_Safety
  imports Recovery_Calls
begin

text \<open>
  What the resolution of a recovery claim may conclude. A failure that says nothing about the files never
  costs a live claim its authority and never touches the store; only the absence of the claim, and
  of every link to its origin, is reported as missing; authority needs one link and a session that
  carries the claim.
\<close>

section \<open>The links under transient failures\<close>

definition small_sessions :: "claim_world \<Rightarrow> bool" where
  "small_sessions w \<longleftrightarrow> (\<forall>name. length (session_bytes name w) < 2 ^ 64)"

lemma untruncated_scan:
  assumes "scan_session_lifecycle_reader parse bytes (length bytes) budget = Inr s" "\<not> truncated s"
    and "length bytes < 2 ^ 64"
  shows "scan_session_lifecycle_complete_reader parse bytes (length bytes) = Inr s"
proof -
  have s: "scan_session_lifecycle parse bytes budget = Inr s"
    using assms(1) by (simp add: scan_session_lifecycle_def)
  then have len: "length bytes \<le> window_bytes budget"
    using truncated_window assms(2,3) by (meson not_le_imp_less)
  then have "all_parse parse (lines_of bytes)"
    using s bounded_scan_whole by (metis sum.distinct(2))
  then show ?thesis
    using s bounded_scan_whole [OF len] complete_scan_all
    by (metis scan_session_lifecycle_complete_def)
qed

text \<open>A scan fails with any error.\<close>

abbreviation errs :: "recovery_claim_error + 'a \<Rightarrow> bool" where
  "errs \<equiv> fails (\<lambda>_. True)"

lemma errs_if: "fails E r \<Longrightarrow> errs r"
  by (simp add: fails_def split: sum.splits)

lemma calmly_open_path_errs [calms]: "calmly transient w errs (open_path oc dir path)"
  using transient_faults.calmly_open_path errs_if by (rule calmly_mono)

lemma calmly_open_name_errs [calms]: "calmly transient w errs (open_name name)"
  using transient_faults.calmly_open_name errs_if by (rule calmly_mono)

lemma calmly_scan_checked [calms]: "calmly transient w errs (scan_checked scan name)"
  unfolding scan_checked_def validate_current_def
  by (auto simp: nop_def session_bytes_def session_file_at_def intro!: calms calmly_sys)

lemma scan_checked_calm:
  "fst (scan_checked scan name (calm w)) =
     (case fst (open_name name (calm w)) of
        Inl e \<Rightarrow> Inl e
      | Inr _ \<Rightarrow> map_sum (\<lambda>_. CorruptClaim) id (scan (session_bytes name w) (length (session_bytes name w))))"
proof -
  have "snd (open_name name (calm w)) = calm w"
    using calmly_open_name_errs [of w name] by (simp add: calmly_def)
  then show ?thesis
    by (simp add: scan_checked_def validate_current_def rc_bind_split sys_def rc_then_def raw_sys_def nop_def
        rc_lift_def session_bytes_def session_file_at_def split: sum.split)
qed

lemma scan_path_calm:
  "fst (rc_bind (open_path oc dir path) (scan_checked scan) (calm w)) =
     (case fst (open_path oc dir path (calm w)) of
        Inl e \<Rightarrow> Inl e | Inr name \<Rightarrow> fst (scan_checked scan name (calm w)))"
  using calmly_open_path_errs [of w oc dir path] by (simp add: calm_bind calmly_def split: sum.split)

lemma complete_after_untruncated:
  assumes "small_sessions w" "fst (scan_path oc dir path budget (calm w)) = Inr s" "\<not> truncated s"
  shows "fst (scan_path_complete oc dir path (calm w)) = Inr s"
  using assms untruncated_scan
  by (auto simp: scan_path_def scan_path_complete_def scan_path_calm scan_checked_calm small_sessions_def
      map_sum_Inr_iff split: sum.splits)

lemma calmly_scan_path:
  "calmly transient w errs (scan_path oc dir path budget)" "calmly transient w errs (scan_path_complete oc dir path)"
  unfolding scan_path_def scan_path_complete_def by (intro calms)+

lemma calmly_complete_scan [calms]:
  assumes small: "small_sessions w"
  shows "calmly transient w errs (complete_session_scan oc dir path)"
  unfolding complete_session_scan_def
proof (rule calmly_retry [OF calmly_scan_path(1)])
  let ?go = "\<lambda>r. case r of
      Inr scan \<Rightarrow> if truncated scan then scan_path_complete oc dir path else rc_ok scan
    | Inl _ \<Rightarrow> scan_path_complete oc dir path"
  let ?first = "fst (scan_path oc dir path DEFAULT_SCAN_BUDGET (calm w))"
  show "calmly transient w errs (?go ?first)"
    by (auto intro!: calms calmly_scan_path split: sum.split)
  have same: "fst (scan_path_complete oc dir path (calm w)) = fst (?go ?first (calm w))"
    using complete_after_untruncated [OF small] by (auto split: sum.split)
  show "answers transient w (\<lambda>s. s = fst (?go ?first (calm w)) \<or> errs s) (?go r)" if "errs r" for r
  proof (cases r)
    case (Inl e)
    have "answers transient w (\<lambda>s. s = fst (scan_path_complete oc dir path (calm w)) \<or> errs s)
        (scan_path_complete oc dir path)"
      using calmly_scan_path(2) unfolding calmly_def by blast
    then show ?thesis
      unfolding same Inl sum.case .
  next
    case (Inr s)
    then show ?thesis using that by simp
  qed
qed

abbreviation bad :: "unobserved_evidence + 'a \<Rightarrow> bool" where
  "bad r \<equiv> \<exists>u. r = Inl u"

text \<open>The link of an envelope is what it is, or not observed.\<close>

lemma calmly_same_session [calms]: "calmly transient w bad (same_session oc dir root sp lp)"
proof -
  note name = transient_faults.calmly_name_for_path
  let ?with = "\<lambda>indexed r. case r of
      Inr name \<Rightarrow> say (Inr (name = indexed))
    | Inl ForeignSessionPath \<Rightarrow> say (Inr False)
    | Inl InvalidIdentifier \<Rightarrow> say (Inr False)
    | Inl _ \<Rightarrow> say (Inl (evidence_for SessionPathUnresolvable (sanitized_subject root lp)))"
  have link: "calmly transient w bad (rc_then (name_for_path oc dir lp) (?with indexed))" for indexed
  proof (rule calmly_then [OF name])
    show "calmly transient w bad (?with indexed (fst (name_for_path oc dir lp (calm w))))"
      by (auto intro!: calms split: sum.split recovery_claim_error.split)
    show "answers transient w bad (?with indexed r)" if "fails doubt r" for r
      using that by (auto simp: fails_def intro!: calms split: sum.splits recovery_claim_error.split)
  qed
  show ?thesis
    unfolding same_session_def
    using link by (intro calmly_then [OF name]) (auto simp: fails_def intro!: calms split: sum.splits)
qed

lemma calmly_index_envelope [calms]:
  assumes token: "cw_token w \<noteq> None" and small: "small_sessions w"
  shows "calmly transient w bad (index_envelope oc dir root sp p es first e)"
proof -
  note valid = transient_faults.calmly_valid_authority [OF token]
  show ?thesis
    unfolding index_envelope_def
    by (auto simp: fails_def intro!: calms small
          calmly_then [OF valid] calmly_then [OF calmly_same_session] calmly_then [OF calmly_complete_scan [OF small]]
        split: option.split lifecycle.split claim_evidence.split sum.split sum.splits)
qed

lemma calmly_index_envelopes:
  "(\<And>e. calmly transient w bad (f e)) \<Longrightarrow> calmly transient w (\<lambda>r. bad (fst r)) (index_envelopes f es n)"
proof (induction es arbitrary: n)
  case Nil
  then show ?case
    by (auto simp: calmly_def answers_def)
next
  case (Cons e es)
  let ?add = "\<lambda>link r. say (case r of
      (Inr links, n) \<Rightarrow> (Inr (case link of None \<Rightarrow> links | Some l \<Rightarrow> l # links), n)
    | (Inl evidence, n) \<Rightarrow> (Inl evidence, n))"
  have rest: "calmly transient w (\<lambda>r. bad (fst r)) (rc_then (index_envelopes f es m) (?add link))" for m link
    by (rule calmly_then [OF Cons.IH [OF Cons.prems]]) (auto intro!: calms)
  show ?case
    unfolding index_envelopes_seq
    using rest by (intro calmly_then [OF Cons.prems]) (auto intro!: calms split: sum.split)
qed

lemma calmly_index_session [calms]:
  assumes token: "cw_token w \<noteq> None" and small: "small_sessions w"
  shows "calmly transient w (\<lambda>r. bad (fst r)) (index_recovery_origins_in_session oc root sp p)"
  unfolding index_recovery_origins_in_session_def Let_def
  by (rule calmly_then [OF transient_faults.calmly_session_dir_open])
    (auto simp: fails_def intro!: calms calmly_index_envelopes token small
        calmly_then [OF calmly_complete_scan [OF small]] split: sum.split sum.splits list.split)

lemma calmly_nop: "calmly transient w bad_io (raw_sys nop)" if "\<And>e. bad_io (Inl e)"
  using that by (intro calmly_mono [OF calmly_raw_sys]) (auto simp: nop_def)

lemma calmly_enumerate_entries:
  assumes token: "cw_token w \<noteq> None" and small: "small_sessions w"
  shows "calmly transient w (\<lambda>r. bad (fst r)) (enumerate_entries oc root p names links cost)"
proof (induction names arbitrary: links cost)
  case Nil
  show ?case
    unfolding enumerate_entries_seq [of _ _ _ "[]"]
    by (rule calmly_then [OF calmly_nop [of "\<lambda>r. \<exists>e. r = Inl e"]]) (auto intro!: calms split: sum.split)
next
  case (Cons name names)
  let ?on = "\<lambda>(r, bytes).
      let cost = \<lparr>oe_files = oe_files cost + 1, oe_bytes_inspected = oe_bytes_inspected cost + bytes\<rparr>
      in case r of
           Inl evidence \<Rightarrow> say (Inl evidence, cost)
         | Inr here \<Rightarrow> enumerate_entries oc root p names (links @ here) cost"
  have one: "calmly transient w (\<lambda>r. bad (fst r)) (rc_then
      (index_recovery_origins_in_session oc root (project_sessions_dir root @ [name]) p) ?on)"
    by (rule calmly_then [OF calmly_index_session [OF token small]])
      (auto simp: Let_def simp del: enumerate_entries.simps intro!: calms Cons.IH split: sum.split prod.split)
  show ?case
    unfolding enumerate_entries_seq [of _ _ _ "name # names"]
    using one Cons.IH
    by (intro calmly_then [OF calmly_nop [of "\<lambda>r. \<exists>e. r = Inl e"]])
      (auto simp del: enumerate_entries.simps intro!: calms split: sum.split)
qed

lemma calmly_enumerate:
  assumes "cw_token w \<noteq> None" "small_sessions w"
  shows "calmly transient w (\<lambda>r. bad (fst r)) (enumerate_recovery_origin_links oc root p)"
  unfolding enumerate_recovery_origin_links_def
  by (rule calmly_then [OF calmly_raw_sys])
    (auto simp: transient_def intro!: calms calmly_enumerate_entries assms split: sum.split)

lemma calmly_links_for:
  assumes "cw_token w \<noteq> None" "small_sessions w"
  shows "calmly transient w (\<lambda>r. bad (fst r)) (links_for oc root p a)"
  unfolding links_for_seq
  by (auto intro!: calms calmly_then [OF calmly_enumerate [OF assms]] split: option.split prod.split)

section \<open>A live claim survives\<close>

text \<open>No decision: the state was not observed.\<close>

definition undecided :: "recovery_claim_error + resolved_recovery_claim \<Rightarrow> bool" where
  "undecided r \<longleftrightarrow> (case r of Inl e \<Rightarrow> doubt e | Inr (ResolvedUnobserved _) \<Rightarrow> True | Inr _ \<Rightarrow> False)"

lemma undecided_simps [simp]:
  "undecided (Inl e) \<longleftrightarrow> doubt e" "undecided (Inr (ResolvedUnobserved u))"
  by (simp_all add: undecided_def)

lemma reconstruct_not_valid:
  "fst (reconstruct_or_quarantine oc fresh root p og links w) \<noteq> Inr (ResolvedValid c)"
  by (auto simp: reconstruct_or_quarantine_def reload_or_missing_def rc_then_split rc_bind_split
      split: list.split sum.split option.split recovery_claim_error.split claim_evidence.split)

lemma quarantine_not_valid:
  "fst (quarantine_and_reconstruct oc fresh root p og links w) \<noteq> Inr (ResolvedValid c)"
  by (auto simp: quarantine_and_reconstruct_def rc_bind_split reconstruct_not_valid split: sum.split)

lemma calmly_resolve_valid:
  assumes token: "cw_token w \<noteq> None"
    and stored: "bt_get (claims_of p w) (og @ ''.json'') \<noteq> None"
    and valid: "fst (resolve_with_links oc fresh root p og links (calm w)) = Inr (ResolvedValid c)"
  shows "calmly transient w undecided (resolve_with_links oc fresh root p og links)"
proof -
  note load = transient_faults.calmly_load [OF token stored]
  note verify = calmly_verify [OF token]
  let ?load = "fst (load_recovery_claim (oc_claims oc) p og (calm w))"
  have calm_load: "snd (load_recovery_claim (oc_claims oc) p og (calm w)) = calm w"
    using load by (simp add: calmly_def)
  have calm_verify: "snd (verify_committed_claim_against_session oc root d (calm w)) = calm w" for d
    using verify by (simp add: calmly_def)
  have verify_run: "rc_then (verify_committed_claim_against_session oc root d) f (calm w)
      = f (fst (verify_committed_claim_against_session oc root d (calm w))) (calm w)"
    for d and f :: "claim_evidence \<Rightarrow> resolved_recovery_claim rc"
    using calm_verify by (simp add: rc_then_split)
  have load_run: "rc_then (load_recovery_claim (oc_claims oc) p og) f (calm w) = f ?load (calm w)"
    for f :: "recovery_claim_error + recovery_claim option \<Rightarrow> resolved_recovery_claim rc"
    using calm_load by (simp add: rc_then_split)
  note run = valid [unfolded resolve_with_links_def load_run]
  show ?thesis
    unfolding resolve_with_links_def
  proof (rule calmly_then [OF load])
    let ?go = "\<lambda>loaded. case loaded of
         Inr (Some c) \<Rightarrow>
           if rc_status c = ClaimCommitted
           then
             (case matching_origin_links links root p og of
                [only] \<Rightarrow>
                  if io_claim only = c
                  then
                    rc_then (verify_committed_claim_against_session oc root c) (\<lambda>ev.
                      case ev of
                        EvValid \<Rightarrow> rc_ok (ResolvedValid c)
                      | EvUnobserved reason \<Rightarrow> rc_ok (ResolvedUnobserved reason)
                      | EvInvalid \<Rightarrow> quarantine_and_reconstruct oc fresh root p og links)
                  else quarantine_and_reconstruct oc fresh root p og links
              | _ \<Rightarrow> quarantine_and_reconstruct oc fresh root p og links)
           else rc_ok (ResolvedValid c)
       | Inr None \<Rightarrow> reconstruct_or_quarantine oc fresh root p og links
       | Inl CorruptClaim \<Rightarrow> quarantine_and_reconstruct oc fresh root p og links
       | Inl (RcUnobserved reason) \<Rightarrow> rc_ok (ResolvedUnobserved reason)
       | Inl err \<Rightarrow> rc_err err"
    show "calmly transient w undecided (?go ?load)"
      using run
      by (auto simp: quarantine_not_valid reconstruct_not_valid verify_run
          intro!: calms calmly_then [OF verify]
          split: sum.splits option.splits list.splits recovery_claim_error.splits if_splits claim_evidence.splits)
    show "answers transient w undecided (?go r)" if "fails doubt r" for r
      using that by (auto simp: fails_def intro!: calms split: sum.split_asm recovery_claim_error.split)
  qed
qed

lemma resolve_authoritative_seq:
  "resolve_authoritative_recovery_claim oc fresh root p og a =
     rc_then (links_for oc root p a) (\<lambda>(r, a).
       case r of
         Inl evidence \<Rightarrow> say (Inr (ResolvedUnobserved evidence), a)
       | Inr links \<Rightarrow> rc_then (resolve_with_links oc fresh root p og links) (\<lambda>r. say (r, a)))"
  by (rule ext) (auto simp: resolve_authoritative_recovery_claim_def rc_then_def say_def split: prod.splits sum.splits)

lemma calmly_resolve_authoritative:
  assumes token: "cw_token w \<noteq> None" and small: "small_sessions w"
    and stored: "bt_get (claims_of p w) (og @ ''.json'') \<noteq> None"
    and valid: "fst (fst (resolve_authoritative_recovery_claim oc fresh root p og a (calm w))) = Inr (ResolvedValid c)"
  shows "calmly transient w (\<lambda>r. undecided (fst r)) (resolve_authoritative_recovery_claim oc fresh root p og a)"
proof -
  note links = calmly_links_for [OF token small]
  have calm_links: "snd (links_for oc root p a (calm w)) = calm w"
    using links by (simp add: calmly_def)
  note run = valid [unfolded resolve_authoritative_seq rc_then_split [of "links_for oc root p a"] calm_links]
  show ?thesis
    unfolding resolve_authoritative_seq
  proof (rule calmly_then [OF links])
    let ?go = "\<lambda>(r, a). case r of
         Inl evidence \<Rightarrow> say (Inr (ResolvedUnobserved evidence), a)
       | Inr links \<Rightarrow> rc_then (resolve_with_links oc fresh root p og links) (\<lambda>r. say (r, a))"
    obtain r a' where found: "fst (links_for oc root p a (calm w)) = (r, a')"
      by fastforce
    show "calmly transient w (\<lambda>r. undecided (fst r)) (?go (fst (links_for oc root p a (calm w))))"
    proof (cases r)
      case (Inl u)
      then show ?thesis by (simp add: found calms)
    next
      case (Inr ls)
      then have "fst (resolve_with_links oc fresh root p og ls (calm w)) = Inr (ResolvedValid c)"
        using run found by (simp add: rc_then_split)
      then show ?thesis
        unfolding found Inr
        using calmly_resolve_valid [OF token stored] by (auto intro!: calms calmly_then)
    qed
    show "answers transient w (\<lambda>r. undecided (fst r)) (?go r)" if "bad (fst r)" for r
      using that by (cases r) (auto intro!: calms)
  qed
qed

text \<open>
  Claim C5. A live recovery claim survives failures that say nothing about the files. Where the
  undisturbed decision finds the stored claim valid, the decision in which any calls fail in such a
  way finds it valid too or leaves it undecided, and changes no file; asked whether a committed
  claim has authority, the handler never answers that it has none.
\<close>

theorem live_claim_survives:
  assumes "faulted transient (cw_faults w)" "cw_token w \<noteq> None" "small_sessions w"
    and "bt_get (claims_of p w) (og @ ''.json'') \<noteq> None"
    and "fst (fst (resolve_authoritative_recovery_claim oc fresh root p og a (calm w))) = Inr (ResolvedValid c)"
  shows "\<exists>r a' fs. resolve_authoritative_recovery_claim oc fresh root p og a w = ((r, a'), w\<lparr>cw_faults := fs\<rparr>)
    \<and> (r = Inr (ResolvedValid c) \<or> undecided r)
    \<and> (rc_status c = ClaimPending
       \<or> fst (fst (committed_claim_is_authoritative oc fresh root p og a c w)) \<noteq> NotAuthoritative)"
proof -
  obtain ra fs where run: "resolve_authoritative_recovery_claim oc fresh root p og a w = (ra, w\<lparr>cw_faults := fs\<rparr>)"
    and ra: "ra = fst (resolve_authoritative_recovery_claim oc fresh root p og a (calm w)) \<or> undecided (fst ra)"
    using calmly_run [OF calmly_resolve_authoritative [OF assms(2,3,4,5)] assms(1)] .
  obtain r a' where pair: "ra = (r, a')"
    by fastforce
  have r: "r = Inr (ResolvedValid c) \<or> undecided r"
    using ra assms(5) pair by (metis fst_conv)
  then have "rc_status c = ClaimPending \<or> authority_answer og c r \<noteq> NotAuthoritative"
    by (cases "rc_status c")
      (auto simp: authority_answer_def undecided_def transient_def
        split: sum.splits recovery_claim_error.splits resolved_recovery_claim.splits)
  then show ?thesis
    using run pair r by (auto simp: committed_claim_is_authoritative_def)
qed



section \<open>A missing claim is not there\<close>

text \<open>A store or directory that is not there has no claims.\<close>

lemma no_component: "\<not> component_there c w \<Longrightarrow> claims_of (case c of RootComponent \<Rightarrow> p | ProjectComponent q \<Rightarrow> q) w = []"
  by (auto simp: component_there_def claims_of_def split: store_component.splits)

lemma open_component_calm:
  "open_component False c (calm w) = (Inr (component_there c w), calm w)"
  by (auto simp: open_component_def rc_then_def rc_bind_def raw_sys_def open_at_def found_def sys_def nop_def
      rc_lift_def rc_ok_def rc_err_def component_there_def split: store_component.split)

lemma claim_dir_calm:
  assumes "validate_safe_component p"
  shows "claim_dir_open p False (calm w) =
    (Inr (component_there RootComponent w \<and> component_there (ProjectComponent p) w), calm w)"
  using assms
  by (simp add: claim_dir_open_def rc_bind_split sys_def raw_sys_def nop_def rc_then_def rc_lift_def rc_ok_def open_component_calm)

lemma claims_of_faults [simp]: "claims_of p (w\<lparr>cw_faults := fs\<rparr>) = claims_of p w"
  by (simp add: claims_of_def)

text \<open>What a call that only reads answers is what is there, or no word about it.\<close>

lemma claim_dir_absent:
  assumes run: "claim_dir_open p False w = (Inr False, w')" and ok: "faulted present (cw_faults w)"
  shows "claims_of p w' = []"
proof -
  have safe: "validate_safe_component p"
    using run by (auto simp: claim_dir_open_def rc_err_def split: if_splits)
  obtain r fs where "claim_dir_open p False w = (r, w\<lparr>cw_faults := fs\<rparr>)"
    and r: "r = fst (claim_dir_open p False (calm w)) \<or> fails (\<lambda>x. \<not> is_not_found x) r"
    using calmly_run [OF present_faults.calmly_claim_dir_open ok] .
  then have "w' = w\<lparr>cw_faults := fs\<rparr>" "\<not> (component_there RootComponent w \<and> component_there (ProjectComponent p) w)"
    using run by (auto simp: claim_dir_calm [OF safe])
  then show ?thesis
    using no_component [of RootComponent w p] no_component [of "ProjectComponent p" w p] by auto
qed

lemma read_absent:
  assumes run: "read_regular p n w = (Inl e, w')" and e: "is_not_found e" and ok: "faulted present (cw_faults w)"
  shows "bt_get (claims_of p w') n = None"
proof -
  obtain r fs where "read_regular p n w = (r, w\<lparr>cw_faults := fs\<rparr>)"
    and r: "r = fst (read_regular p n (calm w)) \<or> fails (\<lambda>x. \<not> is_not_found x) r"
    using calmly_run [OF present_faults.calmly_read_regular ok] .
  then have "w' = w\<lparr>cw_faults := fs\<rparr>" "fst (read_regular p n (calm w)) = Inl e"
    using run e by auto
  then show ?thesis
    using e by (auto simp: read_regular_calm is_not_found_def split: option.splits claim_file.splits)
qed

lemma check_claim_some: "fst (check_claim cc p og raw w) \<noteq> Inr None"
  by (auto simp: check_claim_def rc_then_split split: option.split claim_evidence.split)

lemma load_none:
  assumes run: "load_recovery_claim cc p og w = (Inr None, w')" and ok: "faulted present (cw_faults w)"
  shows "bt_get (claims_of p w') (og @ ''.json'') = None"
proof -
  have name: "claim_file_name og = Inr (og @ ''.json'')"
    using run by (auto simp: load_recovery_claim_def rc_bind_split claim_file_name_def split: if_splits)
  let ?n = "og @ ''.json''"
  let ?w1 = "snd (claim_dir_open p False w)"
  let ?w2 = "snd (read_regular p ?n ?w1)"
  let ?w3 = "snd (reconcile_stale_claim_temp cc p og ?w2)"
  let ?w4 = "snd (claim_dir_open p False ?w3)"
  have ok1: "faulted present (cw_faults ?w1)"
    using ok by (rule faulted_after) (intro keep)
  have ok2: "faulted present (cw_faults ?w2)"
    using ok1 by (rule faulted_after) (intro keep)
  have ok3: "faulted present (cw_faults ?w3)"
    using ok2 by (rule faulted_after) (intro keep)
  have ok4: "faulted present (cw_faults ?w4)"
    using ok3 by (rule faulted_after) (intro keep)
  note split = load_recovery_claim_def name rc_bind_split rc_then_split
  consider "claim_dir_open p False w = (Inr False, w')"
    | "claim_dir_open p False ?w3 = (Inr False, w')"
    | e where "read_regular p ?n ?w4 = (Inl e, w')" "is_not_found e"
    using run check_claim_some
    by (auto simp: split prod_eq_iff split: sum.splits if_splits)
  then show ?thesis
    using claim_dir_absent [OF _ ok] claim_dir_absent [OF _ ok3] read_absent [OF _ _ ok4]
    by cases auto
qed

text \<open>
  Claim C7. What is reported missing is not there. If the resolution of a claim answers that there is
  none, under any failures but the report of an absent file, then no link names the origin and, when it
  answers, the store holds no claim of it: a new rescue for the same origin can only be planned after that.
\<close>

theorem missing_claim_is_absent:
  assumes "resolve_with_links oc fresh root p og links w = (Inr ResolvedMissing, w')"
    and "faulted present (cw_faults w)"
  shows "matching_origin_links links root p og = [] \<and> bt_get (claims_of p w') (og @ ''.json'') = None"
proof -
  have reload: "bt_get (claims_of p w2) (og @ ''.json'') = None"
    if "reload_or_missing oc p og w1 = (Inr ResolvedMissing, w2)" "faulted present (cw_faults w1)" for w1 w2
  proof -
    have "load_recovery_claim (oc_claims oc) p og w1 = (Inr None, w2)"
      using that(1) by (auto simp: reload_or_missing_def rc_then_split prod_eq_iff
          split: sum.splits option.splits recovery_claim_error.splits)
    then show ?thesis using that(2) by (rule load_none)
  qed
  have reconstruct: "matching_origin_links links root p og = [] \<and> bt_get (claims_of p w2) (og @ ''.json'') = None"
    if "reconstruct_or_quarantine oc fresh root p og links w1 = (Inr ResolvedMissing, w2)"
      "faulted present (cw_faults w1)" for w1 w2
  proof -
    have "matching_origin_links links root p og = [] \<and> reload_or_missing oc p og w1 = (Inr ResolvedMissing, w2)"
      using that(1)
      by (auto simp: reconstruct_or_quarantine_def rc_then_split rc_bind_split prod_eq_iff
          split: list.splits claim_evidence.splits sum.splits)
    then show ?thesis using reload that(2) by blast
  qed
  let ?w1 = "snd (load_recovery_claim (oc_claims oc) p og w)"
  have ok1: "faulted present (cw_faults ?w1)"
    using assms(2) by (rule faulted_after) (intro keep)
  have quarantine: "matching_origin_links links root p og = [] \<and> bt_get (claims_of p w2) (og @ ''.json'') = None"
    if "quarantine_and_reconstruct oc fresh root p og links w1 = (Inr ResolvedMissing, w2)"
      "faulted present (cw_faults w1)" for w1 w2
  proof -
    have "faulted present (cw_faults (snd (quarantine_invalid_claim p og w1)))"
      using that(2) by (rule faulted_after) (intro keep)
    then show ?thesis
      using that(1) reconstruct by (auto simp: quarantine_and_reconstruct_def rc_bind_split split: sum.splits)
  qed
  show ?thesis
  proof -
    have verified: "faulted present (cw_faults (snd (verify_committed_claim_against_session oc root c ?w1)))" for c
      using ok1 by (rule faulted_after) (intro keep)
    show ?thesis
      using assms(1) reconstruct [OF _ ok1] quarantine [OF _ ok1] quarantine [OF _ verified]
      by (auto simp: resolve_with_links_def rc_then_split prod_eq_iff
          split: sum.splits option.splits list.splits if_splits claim_evidence.splits recovery_claim_error.splits)
  qed
qed



section \<open>Authority\<close>

text \<open>The signature of a claim is the host's, and the sessions carry the claim.\<close>

definition signed :: "claim_codec \<Rightarrow> claim_world \<Rightarrow> recovery_claim \<Rightarrow> bool" where
  "signed cc w c \<longleftrightarrow>
     (case cw_token w of
        None \<Rightarrow> False
      | Some token \<Rightarrow>
          (let key = rev (dropWhile ascii_whitespace_byte (rev token))
           in key \<noteq> [] \<and>
             (case authority_payload cc c of
                Inl _ \<Rightarrow> False
              | Inr payload \<Rightarrow> rc_authority_tag c = Some (mac_text cc key payload))))"

definition session_text :: "origin_codec \<Rightarrow> file_path \<Rightarrow> claim_world \<Rightarrow> session_envelope list option" where
  "session_text oc path w =
     Option.bind (path_file_name path) (\<lambda>name.
       (let bytes = session_bytes name w
        in if rust_str bytes then (case parse_session_raw (oc_envelope oc) bytes of Inl _ \<Rightarrow> None | Inr es \<Rightarrow> Some es)
           else None))"

definition carried :: "origin_codec \<Rightarrow> claim_world \<Rightarrow> recovery_claim \<Rightarrow> bool" where
  "carried oc w c \<longleftrightarrow>
     (case session_text oc (rc_replacement_session_path c) w of
        None \<Rightarrow> False | Some es \<Rightarrow> committed_claim_matches oc c es) \<and>
     (case Option.bind (rc_origin_session_path c) (\<lambda>path. session_text oc path w) of
        None \<Rightarrow> False | Some es \<Rightarrow> origin_is_of_run oc es (rc_origin_run_id c) (rc_project_id c))"

lemma sys_Inr:
  assumes "sys conv act w = (Inr x, w')"
  obtains fs where "act (w\<lparr>cw_faults := fs\<rparr>) = (Inr x, w')"
proof (cases "cw_faults w")
  case Nil
  then have "act w = (Inr x, w')"
    using assms by (auto simp: sys_def rc_then_split raw_sys_def rc_lift_def map_sum_Inr_iff prod_eq_iff)
  then have "act (w\<lparr>cw_faults := cw_faults w\<rparr>) = (Inr x, w')"
    by simp
  then show ?thesis by (rule that)
next
  case (Cons f fs)
  then have "act (w\<lparr>cw_faults := fs\<rparr>) = (Inr x, w')"
    using assms by (auto simp: sys_def rc_then_split raw_sys_def rc_lift_def map_sum_Inr_iff prod_eq_iff split: option.splits)
  then show ?thesis by (rule that)
qed

lemma bind_Inr:
  "rc_bind m f w = (Inr y, w') \<longleftrightarrow> (\<exists>x w1. m w = (Inr x, w1) \<and> f x w1 = (Inr y, w'))"
  by (auto simp: rc_bind_split prod_eq_iff split: sum.splits)

lemma if_err: "(if b then rc_err e else m) w = (Inr y, w') \<longleftrightarrow> \<not> b \<and> m w = (Inr y, w')"
  by (simp add: rc_err_def)

lemma key_from_token:
  assumes "authority_key cc w = (Inr key, w')"
  shows "\<exists>token. cw_token w' = Some token \<and> key = rev (dropWhile ascii_whitespace_byte (rev token)) \<and> key \<noteq> []"
proof -
  have nops: "sys RcIo nop w1 = (Inr x, w2) \<Longrightarrow> cw_token w2 = cw_token w1" for w1 w2 x
    by (auto elim!: sys_Inr simp: nop_def)
  have raw: "sys RcIo (\<lambda>w. (found (cw_token w), w)) w1 = (Inr x, w2) \<Longrightarrow> cw_token w2 = Some x" for w1 w2 x
    by (auto elim!: sys_Inr simp: found_def split: option.splits)
  show ?thesis
    using assms
    by (auto simp: authority_key_def bind_Inr Let_def rc_ok_def rc_err_def dest!: raw nops split: if_splits)
qed

lemma valid_is_signed:
  assumes "claim_has_valid_authority cc c w = (EvValid, w')"
  shows "signed cc w' c"
  using assms
  by (auto simp: claim_has_valid_authority_def signed_def verified_def dest!: key_from_token
      split: option.splits sum.splits prod.splits if_splits recovery_claim_error.splits)

lemma session_unmoved: "keeps (\<lambda>w w'. cw_sessions w' = cw_sessions w) m \<Longrightarrow> m w = (r, w') \<Longrightarrow> session_text oc path w' = session_text oc path w"
  by (auto simp: keeps_def session_text_def session_bytes_def session_file_at_def dest!: spec [of _ w] split: option.split)

lemma read_path_text:
  assumes run: "read_path oc dir path w = (Inr es, w')"
  shows "session_text oc path w = Some es"
proof -
  obtain name w1 where opened: "open_path oc dir path w = (Inr name, w1)" and checked: "read_checked oc name w1 = (Inr es, w')"
    using run by (auto simp: read_path_def bind_Inr)
  have opened_name: "open_name n w2 = (Inr m, w3) \<Longrightarrow> m = n" for n m w2 w3
    by (auto simp: open_name_def if_err bind_Inr rc_ok_def)
  have "path_file_name path = Some name"
    using opened
    by (auto simp: open_path_def bind_Inr name_for_path_def rc_err_def rc_ok_def rc_then_split dest!: opened_name
        split: option.splits sum.splits if_splits)
  moreover have "cw_sessions w1 = cw_sessions w"
    using same_sessions.keeps_open_path [of oc dir path] opened by (auto simp: keeps_def dest!: spec [of _ w])
  moreover have "\<exists>w2. cw_sessions w2 = cw_sessions w1 \<and> rust_str (session_bytes name w2)
      \<and> parse_session_raw (oc_envelope oc) (session_bytes name w2) = Inr es"
  proof -
    have nops: "sys RcIo nop w2 = (Inr x, w3) \<Longrightarrow> cw_sessions w3 = cw_sessions w2" for w2 w3 x
      by (auto elim!: sys_Inr simp: nop_def)
    have valid: "validate_current name w2 = (Inr x, w3) \<Longrightarrow> cw_sessions w3 = cw_sessions w2" for w2 w3 x
      using same_sessions.keeps_validate_current [of name] by (auto simp: keeps_def dest!: spec [of _ w2])
    have read: "\<exists>w3. cw_sessions w3 = cw_sessions w2 \<and> rust_str (session_bytes name w3) \<and> raw = session_bytes name w3"
      if "sys RcIo (\<lambda>w. (let bytes = session_bytes name w
          in if rust_str bytes then Inr bytes else Inl (SimpleError KindInvalidData), w)) w2 = (Inr raw, w4)" for w2 raw w4
      using that by (rule sys_Inr) (auto simp: Let_def split: if_splits intro!: exI [of _ w4])
    show ?thesis
      using checked
      by (auto simp: read_checked_def bind_Inr rc_lift_def dest!: valid nops read)
  qed
  ultimately show ?thesis
    by (auto simp: session_text_def session_bytes_def session_file_at_def)
qed



lemma signed_later: "signed cc w c \<Longrightarrow> (\<And>t. cw_token w = Some t \<longrightarrow> cw_token w' = Some t) \<Longrightarrow> signed cc w' c"
  by (auto simp: signed_def split: option.splits)

lemma carried_later: "carried oc w c \<Longrightarrow> cw_sessions w' = cw_sessions w \<Longrightarrow> carried oc w' c"
  by (simp add: carried_def session_text_def session_bytes_def session_file_at_def)

lemma observe_valid:
  "observe m reason f w = (EvValid, w') \<longleftrightarrow> (\<exists>x w1. m w = (Inr x, w1) \<and> f x w1 = (EvValid, w'))"
  by (auto simp: observe_def rc_then_split say_def session_read_evidence_def prod_eq_iff
      split: sum.splits recovery_claim_error.splits if_splits observation_class.splits)

lemma then_valid:
  "rc_then (claim_has_valid_authority cc c) (\<lambda>ev. if ev \<noteq> EvValid then say ev else f) w = (EvValid, w') \<longleftrightarrow>
     (\<exists>w1. claim_has_valid_authority cc c w = (EvValid, w1) \<and> f w1 = (EvValid, w'))"
  by (auto simp: rc_then_split say_def prod_eq_iff)

text \<open>Evidence and the world it was seen in: what it says still holds when the call ends.\<close>

lemma verified_claim:
  assumes run: "verify_committed_claim_against_session oc root c w = (EvValid, w')"
  shows "rc_status c = ClaimCommitted \<and> recovery_claim_has_complete_plan c \<and> signed (oc_claims oc) w' c \<and> carried oc w' c"
proof -
  from run have status: "rc_status c = ClaimCommitted" "recovery_claim_has_complete_plan c"
    by (auto simp: verify_committed_claim_against_session_def say_def split: if_splits)
  obtain w1 w2 w3 dir es path origin w4 where
    signature: "claim_has_valid_authority (oc_claims oc) c w = (EvValid, w1)"
    and dir: "session_dir_open oc root w1 = (Inr dir, w2)"
    and es: "read_path oc dir (rc_replacement_session_path c) w2 = (Inr es, w3)" "committed_claim_matches oc c es"
    and origin: "rc_origin_session_path c = Some path" "read_path oc dir path w3 = (Inr origin, w4)"
      "origin_is_of_run oc origin (rc_origin_run_id c) (rc_project_id c)" "w' = w4"
    using run status
    by (auto simp: verify_committed_claim_against_session_def then_valid observe_valid say_def verified_def
        split: if_splits option.splits)
  have sessions: "cw_sessions w2 = cw_sessions w1" "cw_sessions w3 = cw_sessions w2" "cw_sessions w4 = cw_sessions w3"
    using dir es(1) origin(2) same_sessions.keeps_session_dir_open [of oc root]
      same_sessions.keeps_read_path [of oc dir]
    by (auto simp: keeps_def dest!: spec [of _ w1]) (metis snd_conv)+
  have "cw_token w' = cw_token w1"
    using dir es(1) origin(2,4) same_files.keeps_session_dir_open [of oc root] same_files.keeps_read_path [of oc dir]
    unfolding keeps_def by (metis snd_conv)
  then have "signed (oc_claims oc) w' c"
    using valid_is_signed [OF signature] signed_later by metis
  moreover have "carried oc w' c"
    using read_path_text [OF es(1)] read_path_text [OF origin(2)] es(2) origin(1,3,4) sessions
    by (simp add: carried_def session_text_def session_bytes_def session_file_at_def)
  ultimately show ?thesis
    using status by blast
qed

lemma verified_now:
  "verify_committed_claim_against_session oc root c w = (EvValid, w') \<Longrightarrow>
    cw_sessions w'' = cw_sessions w' \<Longrightarrow> (\<And>t. cw_token w' = Some t \<longrightarrow> cw_token w'' = Some t) \<Longrightarrow>
    rc_status c = ClaimCommitted \<and> recovery_claim_has_complete_plan c \<and> signed (oc_claims oc) w'' c \<and> carried oc w'' c"
  using verified_claim signed_later carried_later by metis

definition proved :: "origin_codec \<Rightarrow> claim_world \<Rightarrow> recovery_claim \<Rightarrow> bool" where
  "proved oc w c \<longleftrightarrow>
     rc_status c = ClaimCommitted \<and> recovery_claim_has_complete_plan c \<and> signed (oc_claims oc) w c \<and> carried oc w c"

lemma reconstruct_reconstructed:
  assumes "reconstruct_or_quarantine oc fresh root p og links w = (Inr (ResolvedReconstructed c), w')"
  shows "\<exists>l. matching_origin_links links root p og = [l] \<and> io_claim l = c \<and> proved oc w' c"
proof -
  obtain l where l: "matching_origin_links links root p og = [l]" "io_claim l = c"
    and ev: "fst (verify_committed_claim_against_session oc root c (snd (claim_has_valid_authority (oc_claims oc) c w))) = EvValid"
    and wr: "w' = snd (write_claim (oc_claims oc) fresh c (snd (verify_committed_claim_against_session oc root c
      (snd (claim_has_valid_authority (oc_claims oc) c w)))))"
    using assms
    by (auto simp: reconstruct_or_quarantine_def reload_or_missing_def rc_then_split rc_bind_split prod_eq_iff
        split: list.splits sum.splits option.splits recovery_claim_error.splits claim_evidence.splits)
  obtain w1 where w1: "verify_committed_claim_against_session oc root c
      (snd (claim_has_valid_authority (oc_claims oc) c w)) = (EvValid, w1)"
    using ev by (metis prod.collapse)
  then have "w' = snd (write_claim (oc_claims oc) fresh c w1)"
    using wr by simp
  then have "cw_sessions w' = cw_sessions w1" "\<And>t. cw_token w1 = Some t \<longrightarrow> cw_token w' = Some t"
    using same_sessions.keeps_write_claim same_token.keeps_write_claim unfolding keeps_def by metis+
  then show ?thesis
    using l verified_now [OF w1] by (simp add: proved_def)
qed

lemma resolve_authority:
  assumes run: "resolve_with_links oc fresh root p og links w = (r, w')"
    and auth: "authority_answer og c r = Authoritative"
  shows "\<exists>l. matching_origin_links links root p og = [l] \<and> io_claim l = c \<and> proved oc w' c"
proof -
  have quarantine: "\<exists>l. matching_origin_links links root p og = [l] \<and> io_claim l = c \<and> proved oc w' c"
    if "quarantine_and_reconstruct oc fresh root p og links w1 = (Inr (ResolvedReconstructed c), w')" for w1
    using that reconstruct_reconstructed by (auto simp: quarantine_and_reconstruct_def bind_Inr)
  have committed: "rc_status c = ClaimCommitted" and r: "r = Inr (ResolvedValid c) \<or> r = Inr (ResolvedReconstructed c)"
    using auth
    by (auto simp: authority_answer_def split: sum.splits resolved_recovery_claim.splits recovery_claim_error.splits if_splits)
  from r show ?thesis
  proof
    assume r: "r = Inr (ResolvedReconstructed c)"
    then show ?thesis
      using run quarantine reconstruct_reconstructed
      by (auto simp: resolve_with_links_def rc_then_split rc_ok_def rc_err_def
          split: sum.splits option.splits list.splits if_splits claim_evidence.splits recovery_claim_error.splits)
  next
    assume r: "r = Inr (ResolvedValid c)"
    let ?w1 = "snd (load_recovery_claim (oc_claims oc) p og w)"
    have "\<exists>l. matching_origin_links links root p og = [l] \<and> io_claim l = c
        \<and> verify_committed_claim_against_session oc root c ?w1 = (EvValid, w')"
      using run r committed quarantine_not_valid reconstruct_not_valid
      by (auto simp: resolve_with_links_def rc_then_split rc_ok_def rc_err_def prod_eq_iff
          split: sum.splits option.splits list.splits if_splits claim_evidence.splits recovery_claim_error.splits)
    then show ?thesis
      using verified_claim by (auto simp: proved_def)
  qed
qed

text \<open>
  Claim C6. Authority needs evidence. When the handler answers that a committed claim is authoritative,
  whatever failed on the way, the links of the project were enumerated, exactly one names the
  origin and it carries this very claim; the claim is a whole plan signed with the key of the host; the
  session of the replacement, as it is when the answer is given, carries the claim; and the session of
  the origin is that of the run.
\<close>

theorem authority_needs_evidence:
  assumes "committed_claim_is_authoritative oc fresh root p og a c w = ((Authoritative, a'), w')"
  shows "\<exists>links l. fst (fst (links_for oc root p a w)) = Inr links
    \<and> matching_origin_links links root p og = [l] \<and> io_claim l = c
    \<and> rc_status c = ClaimCommitted \<and> recovery_claim_has_complete_plan c
    \<and> signed (oc_claims oc) w' c \<and> carried oc w' c"
proof -
  obtain r where run: "resolve_authoritative_recovery_claim oc fresh root p og a w = ((r, a'), w')"
    and auth: "authority_answer og c r = Authoritative"
    using assms by (auto simp: committed_claim_is_authoritative_def split: prod.splits)
  obtain links where "fst (fst (links_for oc root p a w)) = Inr links"
    and "resolve_with_links oc fresh root p og links (snd (links_for oc root p a w)) = (r, w')"
    using run auth
    by (auto simp: resolve_authoritative_seq rc_then_split say_def authority_answer_def prod_eq_iff
        split: sum.splits prod.splits)
  then show ?thesis
    using resolve_authority [OF _ auth] unfolding proved_def by blast
qed



section \<open>A rescue that happened\<close>

text \<open>One host, one committed rescue: the claim file, the session of the replacement, that of the origin.\<close>

definition rescue_claim :: recovery_claim where
  "rescue_claim =
     \<lparr>rc_plan_version = Some 1, rc_authority_tag = Some (hex_bytes (replicate 32 (CHR ''a''))), rc_project_id = ''p'',
      rc_origin_run_id = ''run-o'', rc_request_id = ''req'', rc_status = ClaimCommitted,
      rc_replacement_run_id = ''run-r'', rc_replacement_session_path = [''/'', ''p'', ''.orgasmic'', ''tmp'', ''sessions'', ''r.jsonl''],
      rc_replacement_runtime_id = ''rt'', rc_runtime_id = Some ''rt'', rc_boot_id = Some ''b'',
      rc_action = Some ''resume_run'', rc_target = Some ''worker'', rc_draft_prompt = Some ''go'',
      rc_origin_session_path = Some [''/'', ''p'', ''.orgasmic'', ''tmp'', ''sessions'', ''o.jsonl''],
      rc_planned_tmux_session = Some ''t'', rc_task_id = Some ''TASK-1'', rc_kind = Some ''worker'',
      rc_worker_id = Some ''w'', rc_role = Some ''worker'', rc_requires_worker_finalize = Some True,
      rc_transport = Some ''tmux'', rc_harness = Some ''codex'',
      rc_driver_config = Some (JObject [(''force_inert'', JBool False)]), rc_force_inert = Some False,
      rc_worktree = None, rc_last_path = None, rc_stdout_path = None, rc_planned_native_runtime = None,
      rc_run_options = Some \<lparr>ro_stall_timeout_secs = None, ro_max_run_duration_secs = None,
        ro_idle_timeout_secs = None, ro_cleanup_on_failure = False\<rparr>,
      rc_spawn_started = True\<rparr>"

definition rescue_event :: "string \<Rightarrow> lifecycle option" where
  "rescue_event tag =
     (if tag = ''1'' then Some (LcAcquire ''TASK-1'' ''worker'' ''w'')
      else if tag = ''2'' then Some (LcRunMeta
        \<lparr>rm_transport = ''tmux'', rm_harness = Some ''codex'', rm_project_id = Some ''p'', rm_worktree = None,
         rm_last_path = None, rm_stdout_path = None, rm_dispatch_attempt_token = None, rm_role = Some ''worker'',
         rm_requires_worker_finalize = Some True, rm_credential_mode = None, rm_preflight = None,
         rm_conversation_id = None, rm_driver_config = JObject [(''force_inert'', JBool False)]\<rparr>)
      else if tag = ''3'' then Some (LcPromptDraft ''go'' False)
      else if tag = ''4'' then Some (LcRecoveryOrigin
        \<lparr>ro_project_id = ''p'', ro_origin_run_id = ''run-o'',
         ro_origin_session_path = [''/'', ''p'', ''.orgasmic'', ''tmp'', ''sessions'', ''o.jsonl''],
         ro_request_id = ''req'', ro_replacement_run_id = ''run-r'',
         ro_replacement_session_path = [''/'', ''p'', ''.orgasmic'', ''tmp'', ''sessions'', ''r.jsonl''],
         ro_action = ''resume_run'', ro_target = Some ''worker'', ro_claim = Some (JString ''4'')\<rparr>)
      else None)"

definition rescue_envelope :: "string \<Rightarrow> session_envelope" where
  "rescue_envelope line =
     \<lparr>env_seq = 0, env_time = ''t'', env_run_id = (if hd line = CHR ''o'' then ''run-o'' else ''run-r''),
      env_runtime_id = ''rt'', env_boot_id = ''b'', env_kind = LifecycleKind, env_event = JString (tl line)\<rparr>"

definition rescue_claims :: claim_codec where
  "rescue_claims =
     \<lparr>cc_parse = (\<lambda>_. Some rescue_claim), cc_text = (\<lambda>_. ''{}''), cc_payload = (\<lambda>_. Some ''{}''),
      cc_sha256 = (\<lambda>_. replicate 32 (CHR ''a'')), cc_random = ''k'', cc_ulid = (\<lambda>_. True), cc_uuid = (\<lambda>_. None)\<rparr>"

definition rescue_codec :: origin_codec where
  "rescue_codec =
     \<lparr>oc_claims = rescue_claims, oc_envelope = (\<lambda>line. Some (rescue_envelope line)),
      oc_lifecycle = (\<lambda>v. Option.bind (json_as_str v) rescue_event), oc_claim_value = (\<lambda>_. Some rescue_claim),
      oc_canon = Inr, oc_tmux = (\<lambda>_. TmuxAbsent)\<rparr>"

definition rescue_link :: indexed_recovery_origin where
  "rescue_link =
     \<lparr>io_project_root = [''/'', ''p''], io_project_id = ''p'', io_origin_run_id = ''run-o'', io_request_id = ''req'',
      io_replacement_run_id = ''run-r'',
      io_replacement_session_path = [''/'', ''p'', ''.orgasmic'', ''tmp'', ''sessions'', ''r.jsonl''],
      io_action = ''resume_run'', io_target = Some ''worker'',
      io_origin_session_path = [''/'', ''p'', ''.orgasmic'', ''tmp'', ''sessions'', ''o.jsonl''],
      io_replacement_boot_id = ''b'', io_draft_prompt = Some ''go'', io_claim = rescue_claim\<rparr>"

definition rescue_authority :: project_origin_authority where
  "rescue_authority =
     \<lparr>oa_by_project = [([''/'', ''p''], Inr [rescue_link])],
      oa_cost = \<lparr>oe_files = 0, oe_bytes_inspected = 0\<rparr>\<rparr>"

definition rescue_world :: "io_error option list \<Rightarrow> claim_world" where
  "rescue_world fs =
     \<lparr>cw_token = Some ''k'', cw_store = Some [(''p'', [(''run-o.json'', TextFile ''{}'')])],
      cw_sessions = Some [(''o.jsonl'', Some (''o2'' @ [LF])),
        (''r.jsonl'', Some (''r1'' @ [LF] @ ''r2'' @ [LF] @ ''r3'' @ [LF] @ ''r4'' @ [LF]))],
      cw_faults = fs\<rparr>"

lemma rescue_sessions:
  "session_file_at ''r.jsonl'' (rescue_world fs) = Some (Some (''r1'' @ [LF] @ ''r2'' @ [LF] @ ''r3'' @ [LF] @ ''r4'' @ [LF]))"
  "session_file_at ''o.jsonl'' (rescue_world fs) = Some (Some (''o2'' @ [LF]))"
  by (simp_all add: session_file_at_def rescue_world_def)

lemma rescue_lines:
  "str_lines (''r1'' @ [LF] @ ''r2'' @ [LF] @ ''r3'' @ [LF] @ ''r4'' @ [LF]) = [''r1'', ''r2'', ''r3'', ''r4'']"
  "str_lines (''o2'' @ [LF]) = [''o2'']"
  "rust_str (''r1'' @ [LF] @ ''r2'' @ [LF] @ ''r3'' @ [LF] @ ''r4'' @ [LF])" "rust_str (''o2'' @ [LF])"
  "trim ''r1'' = ''r1''" "trim ''r2'' = ''r2''" "trim ''r3'' = ''r3''" "trim ''r4'' = ''r4''" "trim ''o2'' = ''o2''"
  by code_simp+

lemma rescue_complete: "recovery_claim_has_complete_plan rescue_claim"
  by (simp add: recovery_claim_has_complete_plan_def rescue_claim_def nonempty_def length_hex_bytes) code_simp

lemma rescue_signed: "claim_has_valid_authority rescue_claims c (rescue_world []) = (verified (rc_authority_tag c = Some (hex_bytes (replicate 32 (CHR ''a'')))), rescue_world [])"
  if "rc_authority_tag c \<noteq> None"
  using that
  by (auto simp: claim_has_valid_authority_def authority_key_def token_is_present_def rc_bind_split sys_def rc_then_def
      raw_sys_def rc_lift_def rc_ok_def found_def nop_def rescue_world_def ascii_whitespace_byte_def Let_def
      authority_payload_def rescue_claims_def mac_text_def hmac_sha256_def ok_or_def)



abbreviation rescue_dir :: file_path where
  "rescue_dir \<equiv> [''/'', ''p'', ''.orgasmic'', ''tmp'', ''sessions'']"

lemma rescue_read:
  "read_path rescue_codec rescue_dir (rescue_dir @ [''r.jsonl'']) (rescue_world []) =
     (Inr (map rescue_envelope [''r1'', ''r2'', ''r3'', ''r4'']), rescue_world [])"
  "read_path rescue_codec rescue_dir (rescue_dir @ [''o.jsonl'']) (rescue_world []) =
     (Inr [rescue_envelope ''o2''], rescue_world [])"
proof -
  have fine: "validate_safe_component ''r.jsonl''" "validate_safe_component ''o.jsonl''"
    "ends_with ''r.jsonl'' ''.jsonl''" "ends_with ''o.jsonl'' ''.jsonl''"
    "path_file_name (rescue_dir @ [''r.jsonl'']) = Some ''r.jsonl''" "path_parent (rescue_dir @ [''r.jsonl'']) = Some rescue_dir"
    "path_file_name (rescue_dir @ [''o.jsonl'']) = Some ''o.jsonl''" "path_parent (rescue_dir @ [''o.jsonl'']) = Some rescue_dir"
    by code_simp+
  have bytes: "cw_faults (rescue_world []) = []" "oc_canon rescue_codec path = Inr path"
    "oc_envelope rescue_codec line = Some (rescue_envelope line)" for path line
    by (simp_all add: rescue_world_def rescue_codec_def)
  note run = read_path_def open_path_def name_for_path_def open_name_def read_checked_def validate_current_def
    rc_bind_split rc_then_split sys_def raw_sys_def rc_lift_def rc_ok_def nop_def found_def session_bytes_def
  show "read_path rescue_codec rescue_dir (rescue_dir @ [''r.jsonl'']) (rescue_world []) =
      (Inr (map rescue_envelope [''r1'', ''r2'', ''r3'', ''r4'']), rescue_world [])"
    using fine rescue_lines
    by (simp add: run bytes rescue_sessions parse_session_raw_def ok_or_def del: append.simps)
  show "read_path rescue_codec rescue_dir (rescue_dir @ [''o.jsonl'']) (rescue_world []) =
      (Inr [rescue_envelope ''o2''], rescue_world [])"
    using fine rescue_lines
    by (simp add: run bytes rescue_sessions parse_session_raw_def ok_or_def del: append.simps)
qed

lemma rescue_matches:
  "committed_claim_matches rescue_codec rescue_claim (map rescue_envelope [''r1'', ''r2'', ''r3'', ''r4''])"
  "origin_is_of_run rescue_codec [rescue_envelope ''o2''] ''run-o'' ''p''"
proof -
  have events: "lifecycle_in rescue_codec (rescue_envelope line) = rescue_event (tl line)" for line
    by (simp add: lifecycle_in_def rescue_codec_def rescue_envelope_def json_as_str_def)
  have snapshots: "oc_claim_value rescue_codec v = Some rescue_claim" for v
    by (simp add: rescue_codec_def)
  show "origin_is_of_run rescue_codec [rescue_envelope ''o2''] ''run-o'' ''p''"
    by (simp add: origin_is_of_run_def session_run_meta_project_def events rescue_event_def )
      (simp add: rescue_envelope_def)
  show "committed_claim_matches rescue_codec rescue_claim (map rescue_envelope [''r1'', ''r2'', ''r3'', ''r4''])"
    using rescue_complete
    by (simp add: committed_claim_matches_def claim_immutable_plan_matches_session_def session_run_meta_project_def
        session_has_acquire_def recovery_origin_in_session_def recovery_claim_snapshot_in_session_def origin_in_def
        session_prompt_draft_def events snapshots rescue_event_def )
      (simp add: rescue_envelope_def rescue_claim_def claim_matches_acquire_def claim_matches_run_meta_def
        json_get_def json_as_bool_def)
qed



lemma rescue_verified:
  "verify_committed_claim_against_session rescue_codec [''/'', ''p''] rescue_claim (rescue_world []) = (EvValid, rescue_world [])"
proof -
  have claim: "rc_status rescue_claim = ClaimCommitted" "rc_replacement_session_path rescue_claim = rescue_dir @ [''r.jsonl'']"
    "rc_origin_session_path rescue_claim = Some (rescue_dir @ [''o.jsonl''])" "rc_origin_run_id rescue_claim = ''run-o''"
    "rc_project_id rescue_claim = ''p''"
    "rc_authority_tag rescue_claim = Some (hex_bytes (replicate 32 (CHR ''a'')))"
    by (simp_all add: rescue_claim_def)
  have dir: "session_dir_open rescue_codec [''/'', ''p''] (rescue_world []) = (Inr rescue_dir, rescue_world [])"
    by (simp add: session_dir_open_def rc_bind_split sys_def rc_then_split raw_sys_def rc_lift_def nop_def found_def
        rc_ok_def rescue_world_def rescue_codec_def)
  have codec: "oc_claims rescue_codec = rescue_claims"
    by (simp add: rescue_codec_def)
  show ?thesis
    using rescue_read rescue_matches
    by (simp add: verify_committed_claim_against_session_def claim rescue_complete codec rc_then_split
        rescue_signed verified_def observe_def dir say_def)
qed

lemma rescue_loads:
  "load_recovery_claim rescue_claims ''p'' ''run-o'' (rescue_world []) = (Inr (Some rescue_claim), rescue_world [])"
proof -
  have fine: "validate_safe_component ''p''" "claim_file_name ''run-o'' = Inr ''run-o.json''"
    by code_simp+
  have dir: "claim_dir_open ''p'' False (rescue_world []) = (Inr True, rescue_world [])"
    using claim_dir_calm [OF fine(1), of "rescue_world []"] by (simp add: component_there_def rescue_world_def)
  have raw: "read_regular ''p'' ''run-o.json'' (rescue_world []) = (Inr ''{}'', rescue_world [])"
    using read_regular_calm [of "''p''" "''run-o.json''" "rescue_world []"] by (simp add: claims_of_def rescue_world_def)
  have claim: "rc_project_id rescue_claim = ''p''" "rc_origin_run_id rescue_claim = ''run-o''"
    "rc_authority_tag rescue_claim = Some (hex_bytes (replicate 32 (CHR ''a'')))"
    by (simp_all add: rescue_claim_def)
  have parses: "cc_parse rescue_claims raw = Some rescue_claim" for raw
    by (simp add: rescue_claims_def)
  have checked: "check_claim rescue_claims ''p'' ''run-o'' ''{}'' (rescue_world []) = (Inr (Some rescue_claim), rescue_world [])"
    using rescue_signed [of rescue_claim] rescue_complete
    by (simp add: check_claim_def parses rc_then_split claim verified_def rc_ok_def)
  show ?thesis
    by (simp add: load_recovery_claim_def rc_bind_split rc_then_split fine dir raw checked)
qed

lemma rescue_resolves:
  "resolve_authoritative_recovery_claim rescue_codec fresh [''/'', ''p''] ''p'' ''run-o'' rescue_authority (rescue_world [])
     = ((Inr (ResolvedValid rescue_claim), rescue_authority), rescue_world [])"
proof -
  have "oc_claims rescue_codec = rescue_claims" "rc_status rescue_claim = ClaimCommitted"
    "matching_origin_links [rescue_link] [''/'', ''p''] ''p'' ''run-o'' = [rescue_link]" "io_claim rescue_link = rescue_claim"
    by (simp_all add: rescue_codec_def rescue_claim_def matching_origin_links_def rescue_link_def)
  moreover have "links_for rescue_codec [''/'', ''p''] ''p'' rescue_authority (rescue_world [])
      = ((Inr [rescue_link], rescue_authority), rescue_world [])"
    by (simp add: links_for_def rescue_authority_def)
  ultimately show ?thesis
    by (simp add: resolve_authoritative_recovery_claim_def resolve_with_links_def rc_then_split rescue_loads
        rescue_verified rc_ok_def)
qed

lemma rescue_world_faults [simp]: "(rescue_world fs)\<lparr>cw_faults := fs'\<rparr> = rescue_world fs'" "cw_faults (rescue_world fs) = fs"
  by (simp_all add: rescue_world_def)

text \<open>The second call fails with an error of the device.\<close>

lemma live_claim_survives_witness:
  "\<exists>r a' fs. resolve_authoritative_recovery_claim rescue_codec undefined [''/'', ''p''] ''p'' ''run-o'' rescue_authority
       (rescue_world [None, Some (OsError (OtherErrno 5))]) = ((r, a'), rescue_world fs)
     \<and> (r = Inr (ResolvedValid rescue_claim) \<or> undecided r)"
proof -
  let ?fs = "[None, Some (OsError (OtherErrno 5))]"
  have bytes: "length (session_bytes name (rescue_world ?fs)) < 2 ^ 64" for name
    by (auto simp: session_bytes_def session_file_at_def rescue_world_def split: option.split)
  have "faulted transient (cw_faults (rescue_world ?fs))" "cw_token (rescue_world ?fs) \<noteq> None"
    "small_sessions (rescue_world ?fs)" "bt_get (claims_of ''p'' (rescue_world ?fs)) (''run-o'' @ ''.json'') \<noteq> None"
    using bytes by (simp_all add: transient_def small_sessions_def) (simp_all add: rescue_world_def claims_of_def)
  moreover have "fst (fst (resolve_authoritative_recovery_claim rescue_codec undefined [''/'', ''p''] ''p'' ''run-o''
      rescue_authority (calm (rescue_world ?fs)))) = Inr (ResolvedValid rescue_claim)"
    by (simp add: rescue_resolves)
  ultimately show ?thesis
    using live_claim_survives [of "rescue_world ?fs" "''p''" "''run-o''" rescue_codec undefined "[''/'', ''p'']"
        rescue_authority rescue_claim]
    by (simp only: rescue_world_faults) blast
qed

lemma authority_needs_evidence_witness:
  "matching_origin_links [rescue_link] [''/'', ''p''] ''p'' ''run-o'' = [rescue_link]
     \<and> carried rescue_codec (rescue_world []) rescue_claim"
proof -
  have "committed_claim_is_authoritative rescue_codec undefined [''/'', ''p''] ''p'' ''run-o'' rescue_authority rescue_claim
      (rescue_world []) = ((Authoritative, rescue_authority), rescue_world [])"
    by (simp add: committed_claim_is_authoritative_def rescue_resolves authority_answer_def) (simp add: rescue_claim_def)
  from authority_needs_evidence [OF this] show ?thesis
    by (auto simp: links_for_def rescue_authority_def matching_origin_links_def rescue_link_def)
qed

lemma missing_claim_is_absent_witness:
  "resolve_with_links rescue_codec undefined [''/'', ''p''] ''p'' ''run-x'' [rescue_link] (rescue_world [])
      = (Inr ResolvedMissing, rescue_world [])
    \<and> bt_get (claims_of ''p'' (rescue_world [])) ''run-x.json'' = None"
proof -
  have fine: "validate_safe_component ''p''" "claim_file_name ''run-x'' = Inr ''run-x.json''"
    "\<not> starts_with ''run-o.json'' (temp_prefix ''run-x.json'')"
    by code_simp+
  have dir: "claim_dir_open ''p'' False (rescue_world []) = (Inr True, rescue_world [])"
    using claim_dir_calm [OF fine(1), of "rescue_world []"] by (simp add: component_there_def rescue_world_def)
  have absent: "read_regular ''p'' ''run-x.json'' (rescue_world []) = (Inl (RcIo (OsError ENOENT)), rescue_world [])"
    using read_regular_calm [of "''p''" "''run-x.json''" "rescue_world []"] by (simp add: claims_of_def rescue_world_def)
  have names: "claim_names ''p'' (rescue_world []) = (Inr [''run-o.json''], rescue_world [])"
    by (simp add: claim_names_def rc_bind_split sys_def rc_then_split raw_sys_def nop_def rc_lift_def claims_of_def
        rescue_world_def rc_ok_def)
  have stale: "reconcile_stale_claim_temp rescue_claims ''p'' ''run-x'' (rescue_world []) = (Inr (), rescue_world [])"
    by (simp add: reconcile_stale_claim_temp_def rc_bind_split rc_then_split dir fine absent is_not_found_def names
        promote_temp_def rc_ok_def)
  have load: "load_recovery_claim rescue_claims ''p'' ''run-x'' (rescue_world []) = (Inr None, rescue_world [])"
    by (simp add: load_recovery_claim_def rc_bind_split rc_then_split fine dir absent is_not_found_def stale rc_ok_def)
  have "oc_claims rescue_codec = rescue_claims" "matching_origin_links [rescue_link] [''/'', ''p''] ''p'' ''run-x'' = []"
    by (simp_all add: rescue_codec_def matching_origin_links_def rescue_link_def)
  then have run: "resolve_with_links rescue_codec undefined [''/'', ''p''] ''p'' ''run-x'' [rescue_link] (rescue_world [])
      = (Inr ResolvedMissing, rescue_world [])"
    by (simp add: resolve_with_links_def reconstruct_or_quarantine_def reload_or_missing_def rc_then_split load rc_ok_def)
  show ?thesis
    using missing_claim_is_absent [OF run] run by simp
qed

end
