(* ===== verification/Recovery_Plan.thy ===== *)
theory Recovery_Plan
  imports Recovery_Safety
begin

text \<open>
  The rescue of a run over its whole life: its claim is planned, marked, committed and reconciled, each
  of these calls may fail or break off anywhere, and the claim that was once acknowledged stays on the
  disk with its plan.
\<close>

section \<open>The claim on the disk\<close>

text \<open>The plan of a claim: what no later step may change.\<close>

definition plan_of :: "recovery_claim \<Rightarrow> recovery_claim" where
  "plan_of c = c\<lparr>rc_status := ClaimPending, rc_spawn_started := False, rc_authority_tag := None\<rparr>"

definition same_plan :: "recovery_claim \<Rightarrow> recovery_claim \<Rightarrow> bool" where
  "same_plan c d \<longleftrightarrow> plan_of c = plan_of d"

text \<open>What is relied on of the JSON library and of the digest, for the claims of one plan.\<close>

definition reads_back :: "claim_codec \<Rightarrow> recovery_claim \<Rightarrow> bool" where
  "reads_back cc c0 \<longleftrightarrow>
     (\<forall>c. same_plan c0 c \<longrightarrow> cc_payload cc c \<noteq> None \<and>
        (recovery_claim_has_complete_plan c \<longrightarrow> cc_parse cc (cc_text cc c) = Some c \<and> rust_str (cc_text cc c))) \<and>
     (\<forall>s. length (cc_sha256 cc s) = 32)"

definition stored :: "claim_codec \<Rightarrow> string \<Rightarrow> string \<Rightarrow> claim_world \<Rightarrow> recovery_claim \<Rightarrow> bool" where
  "stored cc p og w c \<longleftrightarrow>
     bt_get (claims_of p w) (og @ ''.json'') = Some (TextFile (cc_text cc c)) \<and>
     validate_safe_component p \<and> validate_safe_component og \<and>
     rc_project_id c = p \<and> rc_origin_run_id c = og \<and> recovery_claim_has_complete_plan c \<and>
     signed cc w c \<and> cc_parse cc (cc_text cc c) = Some c"

lemma same_plan_refl [simp]: "same_plan c c"
  and same_plan_trans: "same_plan c d \<Longrightarrow> same_plan d e \<Longrightarrow> same_plan c e"
  by (simp_all add: same_plan_def)

lemma same_plan_upd [simp]:
  "same_plan c (c\<lparr>rc_status := s\<rparr>)" "same_plan c (c\<lparr>rc_spawn_started := b, rc_authority_tag := t\<rparr>)"
  "same_plan c (c\<lparr>rc_authority_tag := t\<rparr>)"
  by (simp_all add: same_plan_def plan_of_def)

lemma plan_of_sel:
  "rc_project_id (plan_of c) = rc_project_id c" "rc_origin_run_id (plan_of c) = rc_origin_run_id c"
  "rc_replacement_run_id (plan_of c) = rc_replacement_run_id c"
  by (simp_all add: plan_of_def)

lemma same_plan_ids:
  assumes "same_plan c d"
  shows "rc_project_id d = rc_project_id c" "rc_origin_run_id d = rc_origin_run_id c"
    "rc_replacement_run_id d = rc_replacement_run_id c"
  using assms plan_of_sel unfolding same_plan_def by metis+

section \<open>One file of the store\<close>

lemma bt_get_remove_other: "k' \<noteq> k \<Longrightarrow> bt_get (bt_remove k m) k' = bt_get m k'"
  by (induction k m rule: bt_remove.induct) auto

lemma claims_of_set [simp]: "claims_of p (set_claims q fs w) = (if p = q then fs else claims_of p w)"
  by (simp add: claims_of_def set_claims_def bt_get_insert split: option.split)

lemma claims_of_make: "\<not> component_there c w \<Longrightarrow> claims_of p (snd (make_component c w)) = claims_of p w"
  by (auto simp: make_component_def component_there_def split: store_component.splits)
    (auto simp: claims_of_def)

interpretation other_files: dir_frame
  "\<lambda>w w'. \<forall>m. m \<noteq> t \<longrightarrow> bt_get (claims_of p w') m = bt_get (claims_of p w) m" for p t
  by unfold_locales (auto simp: claims_of_make, simp add: claims_of_def)

lemma keeps_others:
  "keeps (\<lambda>w w'. \<forall>m. m \<noteq> t \<longrightarrow> bt_get (claims_of p w') m = bt_get (claims_of p w) m) f \<Longrightarrow> f w = (r, w') \<Longrightarrow> n \<noteq> t
    \<Longrightarrow> bt_get (claims_of p w') n = bt_get (claims_of p w) n"
  by (auto simp: keeps_def dest!: spec [of _ w])

lemma write_temp_others:
  "keeps (\<lambda>w w'. \<forall>m. m \<noteq> t \<longrightarrow> bt_get (claims_of p w') m = bt_get (claims_of p w) m) (write_temp torn p t text)"
  by (rule other_files.keeps_write_temp_when) (simp add: put_claim_def bt_get_insert)

lemma remove_others:
  "keeps (\<lambda>w w'. \<forall>m. m \<noteq> t \<longrightarrow> bt_get (claims_of p w') m = bt_get (claims_of p w) m) (claim_remove p t)"
  by (rule other_files.keeps_remove_when) (simp add: bt_get_remove_other)

lemma nop_Inr: "sys conv nop w = (Inr x, w') \<Longrightarrow> \<exists>fs. w' = w\<lparr>cw_faults := fs\<rparr>"
  by (erule sys_Inr) (auto simp: nop_def)

lemma write_temp_text:
  assumes "write_temp torn p t text w = (Inr (), w')"
  shows "bt_get (claims_of p w') t = Some (file_of_bytes text)"
proof -
  have torn: "w2 = put_claim p t (file_of_bytes text) (snd (raw_sys nop w1))"
    if "(case raw_sys nop w1 of
      (Inl e, w) \<Rightarrow> (Inl (RcIo e), put_claim p t (file_of_bytes (take torn text)) w)
    | (Inr _, w) \<Rightarrow> (Inr (), put_claim p t (file_of_bytes text) w)) = (Inr (), w2)" for w1 w2
    using that by (auto split: prod.splits sum.splits)
  show ?thesis
    using assms
    by (auto simp: write_temp_def bind_Inr put_claim_def bt_get_insert dest!: torn nop_Inr)
qed

text \<open>After a write the final file is as it was, or it is the text; once the write says so, it is the text.\<close>

lemma write_atomic_final:
  assumes run: "write_claim_atomic cc torn uuid c w = (r, w')"
    and p: "rc_project_id c = p" and og: "rc_origin_run_id c = og"
  shows "(bt_get (claims_of p w') (og @ ''.json'') = bt_get (claims_of p w) (og @ ''.json'')
      \<or> bt_get (claims_of p w') (og @ ''.json'') = Some (file_of_bytes (cc_text cc c)))
    \<and> (r = Inr () \<longrightarrow> bt_get (claims_of p w') (og @ ''.json'') = Some (file_of_bytes (cc_text cc c)))"
proof -
  let ?n = "og @ ''.json''" and ?t = "temp_prefix (og @ ''.json'') @ uuid"
  let ?f = "\<lambda>w. bt_get (claims_of p w) ?n"
  have other: "?n \<noteq> ?t"
    by (simp add: temp_prefix_def)
  let ?block = "rc_bind (write_temp torn p ?t (cc_text cc c)) (\<lambda>_. rc_bind (claim_rename p ?t ?n) (\<lambda>_. claim_sync))"
  have block: "(?f w2 = ?f w1 \<or> ?f w2 = Some (file_of_bytes (cc_text cc c)))
      \<and> (b = Inr () \<longrightarrow> ?f w2 = Some (file_of_bytes (cc_text cc c)))" if "?block w1 = (b, w2)" for w1 w2 b
  proof -
    obtain a w3 where tmp: "write_temp torn p ?t (cc_text cc c) w1 = (a, w3)" by fastforce
    have kept: "?f w3 = ?f w1"
      using keeps_others [OF write_temp_others tmp other] .
    show ?thesis
    proof (cases a)
      case (Inl e)
      then show ?thesis using that tmp kept by (auto simp: rc_bind_split)
    next
      case (Inr u)
      then have whole: "bt_get (claims_of p w3) ?t = Some (file_of_bytes (cc_text cc c))"
        using tmp write_temp_text by simp
      obtain d w4 where ren: "claim_rename p ?t ?n w3 = (d, w4)" by fastforce
      have moved: "(d = Inr () \<longrightarrow> ?f w4 = Some (file_of_bytes (cc_text cc c))) \<and> (\<forall>e. d = Inl e \<longrightarrow> ?f w4 = ?f w3)"
        using ren whole other
        by (auto simp: claim_rename_def sys_def rc_then_split raw_sys_def rc_lift_def rename_act_def bt_get_insert
            split: list.splits option.splits)
      have synced: "?f (snd (claim_sync w4)) = ?f w4"
        by (rule keeps_others [OF other_files.keeps_claim_sync prod.collapse [symmetric] other])
      show ?thesis
        using that tmp Inr ren moved synced kept by (cases d) (auto simp: rc_bind_split)
    qed
  qed
  have cleanup: "?f (snd (claim_remove p ?t w2)) = ?f w2" for w2
    by (rule keeps_others [OF remove_others prod.collapse [symmetric] other])
  have name: "claim_file_name og = Inr x \<Longrightarrow> x = ?n" for x
    by (auto simp: claim_file_name_def split: if_splits)
  obtain d w1 where d: "claim_dir_open p True w = (d, w1)" by fastforce
  then have w1: "?f w1 = ?f w"
    by (rule keeps_others [OF other_files.keeps_claim_dir_open _ other])
  obtain b w2 where bl: "?block w1 = (b, w2)" by fastforce
  show ?thesis
  proof (cases "d = Inr True \<and> claim_file_name og = Inr ?n")
    case True
    then have "(r, w') = (case b of Inr _ \<Rightarrow> (Inr (), w2) | Inl e \<Rightarrow> (Inl e, snd (claim_remove p ?t w2)))"
      using run d bl p og
      by (auto simp: write_claim_atomic_def Let_def rc_bind_split [of "claim_dir_open p True"] rc_bind_split [of "rc_lift x" for x]
          rc_then_split rc_ok_def rc_err_def split: sum.splits)
    then show ?thesis
      using block [OF bl] w1 cleanup [of w2] by (cases b) auto
  next
    case False
    then have "w' = w1 \<and> r \<noteq> Inr ()"
      using run d p og
      by (auto simp: write_claim_atomic_def Let_def rc_bind_split rc_err_def dest: name split: sum.splits if_splits)
        (auto simp: claim_file_name_def split: if_splits)
    then show ?thesis using w1 by simp
  qed
qed

section \<open>Calls on a stored claim\<close>

lemma calmly_reconcile_stored:
  assumes "bt_get (claims_of p w) (og @ ''.json'') \<noteq> None"
  shows "calmly present w (fails (\<lambda>x. \<not> is_not_found x)) (reconcile_stale_claim_temp cc p og)"
proof -
  let ?rest = "\<lambda>final r. case r of
      Inr _ \<Rightarrow> rc_ok ()
    | Inl e \<Rightarrow>
        if \<not> is_not_found e then rc_err e
        else
          rc_bind (claim_names p) (\<lambda>names.
          rc_bind (sift_temps cc p og (filter (\<lambda>n. starts_with n (temp_prefix final)) names)) (promote_temp p final))"
  have read: "calmly present w (fails (\<lambda>x. \<not> is_not_found x)) (rc_then (read_regular p name) (?rest name))"
    if "claim_file_name og = Inr name" for name
  proof (rule calmly_then [OF present_faults.calmly_read_regular])
    have "name = og @ ''.json''"
      using that by (auto simp: claim_file_name_def split: if_splits)
    then show "calmly present w (fails (\<lambda>x. \<not> is_not_found x)) (?rest name (fst (read_regular p name (calm w))))"
      using assms
      by (auto simp: read_regular_calm is_not_found_def intro!: calms split: option.split claim_file.split)
    show "answers present w (fails (\<lambda>x. \<not> is_not_found x)) (?rest name r)" if "fails (\<lambda>x. \<not> is_not_found x) r" for r
      using that by (auto simp: fails_def intro!: calms split: sum.split_asm)
  qed
  show ?thesis
    unfolding reconcile_stale_claim_temp_def
    using read by (auto intro!: calms present_faults.calmly_claim_dir_open)
qed

lemma write_claim_final:
  assumes run: "write_claim cc fresh c w = (r, w')"
    and ids: "rc_project_id c = p" "rc_origin_run_id c = og"
    and there: "bt_get (claims_of p w) (og @ ''.json'') \<noteq> None" and ok: "faulted present (cw_faults w)"
  shows "bt_get (claims_of p w') (og @ ''.json'') = bt_get (claims_of p w) (og @ ''.json'')
    \<or> bt_get (claims_of p w') (og @ ''.json'') = Some (file_of_bytes (cc_text cc c))"
proof -
  let ?f = "\<lambda>w. bt_get (claims_of p w) (og @ ''.json'')"
  obtain a w1 where first: "write_claim_atomic cc (cf_torn fresh) (cf_temp fresh) c w = (a, w1)"
    by fastforce
  have w1: "?f w1 = ?f w \<or> ?f w1 = Some (file_of_bytes (cc_text cc c))"
    using write_atomic_final [OF first ids] by simp
  have ok1: "faulted present (cw_faults w1)"
    using faulted_after [OF ok fewer_faults.keeps_write_claim_atomic] first by (metis snd_conv)
  obtain b w2 where stale: "reconcile_stale_claim_temp cc p og w1 = (b, w2)"
    by fastforce
  have "?f w1 \<noteq> None"
    using w1 there by auto
  then have w2: "?f w2 = ?f w1"
    using calmly_run [OF calmly_reconcile_stored ok1] stale by (metis Pair_inject claims_of_faults)
  obtain d w3 where second: "write_claim_atomic cc (cf_torn fresh) (cf_temp' fresh) c w2 = (d, w3)"
    by fastforce
  have w3: "?f w3 = ?f w2 \<or> ?f w3 = Some (file_of_bytes (cc_text cc c))"
    using write_atomic_final [OF second ids] by simp
  have "w' = w1 \<or> w' = w2 \<or> w' = w3"
    using run first stale second ids
    by (auto simp: write_claim_def write_claim_atomic_or_reconcile_def rc_then_split rc_bind_split rc_ok_def rc_err_def
        split: sum.splits if_splits)
  then show ?thesis
    using w1 w2 w3 by auto
qed

lemma write_claim_done:
  assumes run: "write_claim cc fresh c w = (Inr (), w')"
  shows "bt_get (claims_of (rc_project_id c) w') (rc_origin_run_id c @ ''.json'') = Some (file_of_bytes (cc_text cc c))"
proof -
  have "\<exists>uuid w1. write_claim_atomic cc (cf_torn fresh) uuid c w1 = (Inr (), w')"
  proof -
    obtain a w1 where first: "write_claim_atomic cc (cf_torn fresh) (cf_temp fresh) c w = (a, w1)"
      by fastforce
    show ?thesis
    proof (cases a)
      case (Inl e)
      then show ?thesis
        using run first
        by (auto simp: write_claim_def write_claim_atomic_or_reconcile_def rc_then_def bind_Inr rc_err_def
            split: if_splits)
    next
      case (Inr u)
      then show ?thesis
        using run first
        by (auto simp: write_claim_def write_claim_atomic_or_reconcile_def rc_then_def rc_ok_def)
    qed
  qed
  then show ?thesis
    using write_atomic_final [of cc _ _ c _ "Inr ()"] by blast
qed

lemma stored_cong: "cw_store w' = cw_store w \<and> cw_token w' = cw_token w \<Longrightarrow> stored cc p og w' c = stored cc p og w c"
  by (simp add: stored_def claims_of_def signed_def)

lemma stored_faults [simp]: "stored cc p og (w\<lparr>cw_faults := fs\<rparr>) c = stored cc p og w c"
  by (rule stored_cong) simp

lemma signed_valid: "signed cc w c \<Longrightarrow> claim_has_valid_authority cc c (calm w) = (EvValid, calm w)"
  by (auto simp: signed_def claim_has_valid_authority_def authority_key_def token_is_present_def rc_bind_split sys_def
      rc_then_def raw_sys_def rc_lift_def rc_ok_def found_def nop_def Let_def verified_def split: option.splits sum.splits)

lemma stored_there: "stored cc p og w c \<Longrightarrow> bt_get (claims_of p w) (og @ ''.json'') \<noteq> None \<and> cw_token w \<noteq> None"
  by (auto simp: stored_def signed_def split: option.splits)

lemma stored_loads:
  assumes "stored cc p og w c"
  shows "load_recovery_claim cc p og (calm w) = (Inr (Some c), calm w)"
proof -
  have c: "validate_safe_component p" "validate_safe_component og" "rc_project_id c = p" "rc_origin_run_id c = og"
    "recovery_claim_has_complete_plan c" "cc_parse cc (cc_text cc c) = Some c" "signed cc w c"
    "bt_get (claims_of p w) (og @ ''.json'') = Some (TextFile (cc_text cc c))"
    using assms by (auto simp: stored_def)
  have "component_there RootComponent w \<and> component_there (ProjectComponent p) w"
    using c(8) by (cases "cw_store w") (auto simp: claims_of_def component_there_def split: option.splits)
  then have dir: "claim_dir_open p False (calm w) = (Inr True, calm w)"
    using claim_dir_calm [OF c(1)] by simp
  have raw: "read_regular p (og @ ''.json'') (calm w) = (Inr (cc_text cc c), calm w)"
    using c(8) by (simp add: read_regular_calm)
  have "check_claim cc p og (cc_text cc c) (calm w) = (Inr (Some c), calm w)"
    using c signed_valid [OF c(7)] by (simp add: check_claim_def rc_then_split rc_ok_def)
  then show ?thesis
    by (simp add: load_recovery_claim_def rc_bind_split rc_then_split claim_file_name_def c dir raw)
qed

lemma stored_load:
  assumes "stored cc p og w c" "faulted present (cw_faults w)" "load_recovery_claim cc p og w = (r, w')"
  shows "(r = Inr (Some c) \<or> (\<exists>e. r = Inl e)) \<and> stored cc p og w' c \<and> faulted present (cw_faults w')"
proof -
  have there: "cw_token w \<noteq> None" "bt_get (claims_of p w) (og @ ''.json'') \<noteq> None"
    using stored_there [OF assms(1)] by auto
  obtain r1 fs where "faulted present fs" "load_recovery_claim cc p og w = (r1, w\<lparr>cw_faults := fs\<rparr>)"
    "r1 = fst (load_recovery_claim cc p og (calm w)) \<or> fails (\<lambda>x. \<not> is_not_found x) r1"
    using calmly_run [OF present_faults.calmly_load [OF there] assms(2)] .
  then show ?thesis
    using assms stored_loads [OF assms(1)] by (auto simp: fails_def split: sum.split_asm)
qed

text \<open>A write of another claim of the plan leaves the one or the other.\<close>

lemma write_stored:
  assumes st: "stored cc p og w c" and ok: "faulted present (cw_faults w)"
    and d: "rc_project_id d = p" "rc_origin_run_id d = og" "recovery_claim_has_complete_plan d" "signed cc w d"
      "cc_parse cc (cc_text cc d) = Some d" "rust_str (cc_text cc d)"
    and run: "write_claim cc fresh d w = (r, w')"
  shows "stored cc p og w' c \<or> stored cc p og w' d"
proof -
  have token: "cw_token w = Some t \<longrightarrow> cw_token w' = Some t" for t
    using same_token.keeps_write_claim run unfolding keeps_def by (metis snd_conv)
  have "signed cc w' c" "signed cc w' d"
    using st d(4) token signed_later unfolding stored_def by blast+
  moreover have "bt_get (claims_of p w) (og @ ''.json'') \<noteq> None"
    using stored_there [OF st] by simp
  then have "bt_get (claims_of p w') (og @ ''.json'') = bt_get (claims_of p w) (og @ ''.json'')
      \<or> bt_get (claims_of p w') (og @ ''.json'') = Some (TextFile (cc_text cc d))"
    using write_claim_final [OF run d(1,2) _ ok] d(6) by (simp add: file_of_bytes_def)
  ultimately show ?thesis
    using st d unfolding stored_def by auto
qed



section \<open>Signing\<close>

lemma tag_signs:
  assumes "authority_tag cc d w = (Inr tag, w')"
  shows "signed cc w' (d\<lparr>rc_authority_tag := Some tag\<rparr>)" "\<exists>key payload. tag = mac_text cc key payload"
proof -
  obtain key payload where key: "authority_key cc w = (Inr key, w')"
    and payload: "authority_payload cc d = Inr payload" "tag = mac_text cc key payload"
    using assms by (auto simp: authority_tag_def bind_Inr rc_lift_def rc_ok_def)
  have "authority_payload cc (d\<lparr>rc_authority_tag := Some tag\<rparr>) = Inr payload"
    using payload(1) by (simp add: authority_payload_def)
  then show "signed cc w' (d\<lparr>rc_authority_tag := Some tag\<rparr>)"
    using key_from_token [OF key] payload(2) by (auto simp: signed_def)
  show "\<exists>key payload. tag = mac_text cc key payload"
    using payload(2) by blast
qed

lemma mac_text_hex:
  assumes "\<forall>s. length (cc_sha256 cc s) = 32"
  shows "length (mac_text cc key payload) = 64" "list_all is_ascii_hexdigit (mac_text cc key payload)"
proof -
  show "length (mac_text cc key payload) = 64"
    using assms by (simp add: mac_text_def length_hex_bytes hmac_sha256_def Let_def)
  have "list_all is_ascii_hexdigit ''0123456789abcdef''"
    by code_simp
  then show "list_all is_ascii_hexdigit (mac_text cc key payload)"
    using hex_bytes_digits unfolding mac_text_def list_all_iff by blast
qed

lemma signed_complete:
  assumes "recovery_claim_has_complete_plan c" "\<forall>s. length (cc_sha256 cc s) = 32"
  shows "recovery_claim_has_complete_plan (c\<lparr>rc_spawn_started := True, rc_authority_tag := Some (mac_text cc key payload)\<rparr>)"
  using assms mac_text_hex [OF assms(2)] by (simp add: recovery_claim_has_complete_plan_def)

lemma nonempty_Some: "nonempty v \<Longrightarrow> \<exists>s. v = Some s"
  by (auto simp: nonempty_def split: option.splits)

lemma committed_complete:
  assumes "recovery_claim_has_complete_plan c"
  shows "committed_claim d c = c\<lparr>rc_status := ClaimCommitted\<rparr>"
proof -
  have "rc_runtime_id c \<noteq> None" "rc_boot_id c \<noteq> None" "rc_action c \<noteq> None" "rc_target c \<noteq> None"
    "rc_draft_prompt c \<noteq> None"
    using assms by (auto simp: recovery_claim_has_complete_plan_def dest!: nonempty_Some)
  then show ?thesis
    by (cases c) (auto simp: committed_claim_def or_else_def)
qed

lemma signed_status: "signed cc w (c\<lparr>rc_status := s\<rparr>) = signed cc w c"
proof -
  have "authority_payload cc (c\<lparr>rc_status := s\<rparr>) = authority_payload cc c"
    "rc_authority_tag (c\<lparr>rc_status := s\<rparr>) = rc_authority_tag c"
    by (simp_all add: authority_payload_def)
  then show ?thesis
    by (simp only: signed_def)
qed

section \<open>The steps of a rescue\<close>

text \<open>What a later claim keeps of an earlier one.\<close>

definition later :: "recovery_claim \<Rightarrow> recovery_claim \<Rightarrow> bool" where
  "later c d \<longleftrightarrow> same_plan c d \<and> (rc_status c = ClaimCommitted \<longrightarrow> rc_status d = ClaimCommitted)
     \<and> (rc_spawn_started c \<longrightarrow> rc_spawn_started d)"

lemma later_refl [simp]: "later c c"
  and later_trans: "later c d \<Longrightarrow> later d e \<Longrightarrow> later c e"
  by (auto simp: later_def intro: same_plan_trans)

text \<open>
  A resolution that has no reason to quarantine the claim on the disk: the claim is pending, or the
  undisturbed resolution finds it valid (one link of the project matches, carries this very claim, and the
  session bears it out). A resolution of a committed claim without such a link moves the file away.
\<close>

definition no_quarantine_due ::
  "origin_codec \<Rightarrow> claim_fresh \<Rightarrow> file_path \<Rightarrow> string \<Rightarrow> string \<Rightarrow> project_origin_authority \<Rightarrow> claim_world \<Rightarrow> bool"
where
  "no_quarantine_due oc fresh root p og a w \<longleftrightarrow>
     (\<exists>c. fst (load_recovery_claim (oc_claims oc) p og (calm w)) = Inr (Some c) \<and> rc_status c = ClaimPending) \<or>
     (\<exists>c. fst (fst (resolve_authoritative_recovery_claim oc fresh root p og a (calm w))) = Inr (ResolvedValid c))"

text \<open>
  The calls on the claim of one origin, with any fresh values, between which the environment writes
  sessions and decides which of the next calls fail: the end of the process is the failure of all that
  remain. The claim of another origin is another file. A resolution is a step when it answers that the
  claim is valid, whatever failed, and, whatever it answers, when no quarantine is due and the failures of
  its calls say nothing about the files. Not steps are the resolutions that do quarantine, and
  \<open>remove_recovery_claim\<close>, which no part of the daemon calls: both take the claim away
  (\<open>removed_claim_is_planned_again\<close>).
\<close>

inductive rescue_step ::
  "origin_codec \<Rightarrow> file_path \<Rightarrow> string \<Rightarrow> string \<Rightarrow> claim_world \<Rightarrow> claim_world \<Rightarrow> bool"
  for oc root p og where
  load: "load_recovery_claim (oc_claims oc) p og w = (r, w') \<Longrightarrow> rescue_step oc root p og w w'"
| load_committed: "load_committed_recovery_claim (oc_claims oc) p og w = (r, w') \<Longrightarrow> rescue_step oc root p og w w'"
| plan: "ps_project_id spec = p \<Longrightarrow> ps_origin_run_id spec = og \<Longrightarrow>
     plan_pending_recovery_claim (oc_claims oc) fresh spec w = (rp, w') \<Longrightarrow> rescue_step oc root p og w w'"
| mark: "mark_pending_recovery_spawn_started (oc_claims oc) fresh p og w = (rp, w') \<Longrightarrow> rescue_step oc root p og w w'"
| commit: "commit_recovery_claim (oc_claims oc) fresh p og d w = (rp, w') \<Longrightarrow> rescue_step oc root p og w w'"
| reconcile: "rc_project_id c = p \<Longrightarrow> rc_origin_run_id c = og \<Longrightarrow>
     reconcile_pending_claim oc fresh root c w = (rq, w') \<Longrightarrow> rescue_step oc root p og w w'"
| resolve_valid: "resolve_authoritative_recovery_claim oc fresh root p og a w = ((Inr (ResolvedValid c), a'), w')
     \<Longrightarrow> rescue_step oc root p og w w'"
| resolve: "no_quarantine_due oc fresh root p og a w \<Longrightarrow> faulted transient (cw_faults w) \<Longrightarrow> small_sessions w \<Longrightarrow>
     resolve_authoritative_recovery_claim oc fresh root p og a w = (ra, w') \<Longrightarrow> rescue_step oc root p og w w'"
| failures: "faulted present fs \<Longrightarrow> rescue_step oc root p og w (w\<lparr>cw_faults := fs\<rparr>)"
| sessions: "rescue_step oc root p og w (w\<lparr>cw_sessions := s\<rparr>)"

definition safe_at :: "claim_codec \<Rightarrow> string \<Rightarrow> string \<Rightarrow> recovery_claim \<Rightarrow> claim_world \<Rightarrow> bool" where
  "safe_at cc p og c0 w \<longleftrightarrow> faulted present (cw_faults w) \<and> (\<exists>c. stored cc p og w c \<and> later c0 c)"

lemma bind_world: "(\<And>x w. snd (f x w) = w) \<Longrightarrow> snd (rc_bind m f w) = snd (m w)"
  by (simp add: rc_bind_split split: sum.split)

lemma load_required:
  assumes run: "rc_bind (rc_bind (load_recovery_claim cc p og) required_claim) f w = (r, w')"
    and st: "stored cc p og w c" and ok: "faulted present (cw_faults w)"
  shows "\<exists>w1. stored cc p og w1 c \<and> faulted present (cw_faults w1) \<and> (w' = w1 \<or> w' = snd (f c w1))"
proof -
  obtain l w1 where load: "load_recovery_claim cc p og w = (l, w1)" by fastforce
  have l: "(l = Inr (Some c) \<or> (\<exists>e. l = Inl e)) \<and> stored cc p og w1 c \<and> faulted present (cw_faults w1)"
    using stored_load [OF st ok load] .
  then have "w' = w1 \<or> w' = snd (f c w1)"
    using run load by (auto simp: rc_bind_split required_claim_def rc_ok_def)
  then show ?thesis using l by blast
qed

lemma reads_back_claim:
  assumes "reads_back cc c0" "same_plan c0 c" "recovery_claim_has_complete_plan c"
  shows "cc_parse cc (cc_text cc c) = Some c" "rust_str (cc_text cc c)"
  using assms by (auto simp: reads_back_def)

lemma mark_safe:
  assumes run: "mark_pending_recovery_spawn_started cc fresh p og w = (r, w')"
    and safe: "safe_at cc p og c0 w" and codec: "reads_back cc c0"
  shows "\<exists>c. stored cc p og w' c \<and> later c0 c"
proof -
  obtain c where c: "stored cc p og w c" "later c0 c" and ok: "faulted present (cw_faults w)"
    using safe by (auto simp: safe_at_def)
  obtain w1 where w1: "stored cc p og w1 c" "faulted present (cw_faults w1)"
    and goes: "w' = w1 \<or> w' = snd ((if rc_status c \<noteq> ClaimPending then rc_ok c
       else if rc_spawn_started c then rc_ok c
       else
         (let claim = c\<lparr>rc_spawn_started := True, rc_authority_tag := None\<rparr>
          in rc_bind (authority_tag cc claim) (\<lambda>tag.
             let claim = claim\<lparr>rc_authority_tag := Some tag\<rparr>
             in rc_bind (write_claim cc fresh claim) (\<lambda>_. rc_ok claim)))) w1)"
    using load_required [OF run [unfolded mark_pending_recovery_spawn_started_def] c(1) ok] by blast
  let ?d = "c\<lparr>rc_spawn_started := True, rc_authority_tag := None\<rparr>"
  obtain a w2 where tag: "authority_tag cc ?d w1 = (a, w2)" by fastforce
  have token: "cw_token w1 \<noteq> None"
    using stored_there [OF w1(1)] by simp
  obtain fs where w2: "w2 = w1\<lparr>cw_faults := fs\<rparr>" "faulted present fs"
  proof -
    have "calmly present w1 (fails (\<lambda>x. \<not> is_not_found x)) (authority_tag cc ?d)"
      unfolding authority_tag_def by (intro calms present_faults.calmly_authority_key token)
    from calmly_run [OF this w1(2)] tag that show ?thesis by (metis prod.inject)
  qed
  show ?thesis
  proof (cases "w' = w1 \<or> w' = w2")
    case True
    then show ?thesis using w1(1) w2 c(2) by auto
  next
    case False
    then obtain t where pending: "rc_status c = ClaimPending" "\<not> rc_spawn_started c" "a = Inr t"
      and written: "w' = snd (write_claim cc fresh (?d\<lparr>rc_authority_tag := Some t\<rparr>) w2)"
      using goes tag
      by (auto simp: Let_def rc_bind_split [of "authority_tag cc d" for d] bind_world split: if_splits sum.splits)
    let ?e = "?d\<lparr>rc_authority_tag := Some t\<rparr>"
    have e: "?e = c\<lparr>rc_spawn_started := True, rc_authority_tag := Some t\<rparr>"
      by simp
    have plan: "same_plan c ?e" "later c0 ?e"
      using c(2) pending by (auto simp: later_def e intro: same_plan_trans)
    have complete: "recovery_claim_has_complete_plan ?e"
      using signed_complete [of c cc] tag_signs(2) [OF tag [unfolded pending(3)]] c(1) codec
      by (auto simp: e stored_def reads_back_def)
    have "stored cc p og w' c \<or> stored cc p og w' ?e"
    proof (rule write_stored)
      show "stored cc p og w2 c" "faulted present (cw_faults w2)"
        using w1 w2 by simp_all
      show "signed cc w2 ?e"
        using tag_signs(1) [OF tag [unfolded pending(3)]] by simp
      show "rc_project_id ?e = p" "rc_origin_run_id ?e = og"
        using c(1) by (simp_all add: stored_def)
      show "recovery_claim_has_complete_plan ?e" by (rule complete)
      have "same_plan c0 ?e" using plan(2) by (simp add: later_def)
      then show "cc_parse cc (cc_text cc ?e) = Some ?e" "rust_str (cc_text cc ?e)"
        using reads_back_claim [OF codec _ complete] by blast+
      show "write_claim cc fresh ?e w2 = (fst (write_claim cc fresh ?e w2), w')"
        using written by simp
    qed
    then show ?thesis using c(2) plan(2) by blast
  qed
qed

lemma commit_safe:
  assumes run: "commit_recovery_claim cc fresh p og d w = (r, w')"
    and safe: "safe_at cc p og c0 w" and codec: "reads_back cc c0"
  shows "\<exists>c. stored cc p og w' c \<and> later c0 c"
proof -
  obtain c where c: "stored cc p og w c" "later c0 c" and ok: "faulted present (cw_faults w)"
    using safe by (auto simp: safe_at_def)
  have complete: "recovery_claim_has_complete_plan c"
    using c(1) by (simp add: stored_def)
  let ?e = "c\<lparr>rc_status := ClaimCommitted\<rparr>"
  obtain w1 where w1: "stored cc p og w1 c" "faulted present (cw_faults w1)"
    and "w' = w1 \<or> w' = snd ((if rc_replacement_runtime_id c \<noteq> cd_runtime_id d
         \<or> (case rc_boot_id c of None \<Rightarrow> False | Some boot \<Rightarrow> boot \<noteq> cd_boot_id d)
         \<or> (case rc_action c of None \<Rightarrow> False | Some action \<Rightarrow> action \<noteq> cd_action d)
         \<or> (case rc_target c of None \<Rightarrow> False | Some target \<Rightarrow> target \<noteq> cd_target d)
       then rc_err CorruptClaim
       else
         (let claim = committed_claim d c
          in rc_bind (write_claim cc fresh claim) (\<lambda>_. rc_ok claim))) w1)"
    using load_required [OF run [unfolded commit_recovery_claim_def] c(1) ok] by blast
  then have "w' = w1 \<or> w' = snd (write_claim cc fresh ?e w1)"
    by (simp add: committed_complete [OF complete] Let_def bind_world split: if_splits)
  then consider "w' = w1" | "write_claim cc fresh ?e w1 = (fst (write_claim cc fresh ?e w1), w')"
    by (metis prod.collapse)
  then show ?thesis
  proof cases
    case 1
    then show ?thesis using w1(1) c(2) by blast
  next
    case 2
    have later: "later c0 ?e"
      using c(2) by (auto simp: later_def intro: same_plan_trans)
    have e: "recovery_claim_has_complete_plan ?e"
      using complete by (simp add: recovery_claim_has_complete_plan_def)
    have "stored cc p og w' c \<or> stored cc p og w' ?e"
      using write_stored [OF w1 _ _ e _ _ _ 2] c(1) w1(1) later e reads_back_claim [OF codec _ e]
      by (auto simp: stored_def signed_status later_def)
    then show ?thesis using c(2) later by blast
  qed
qed



text \<open>Reading sessions and making a session file leave the claims alone.\<close>

interpretation same_claims: call_frame
  "\<lambda>w w'. (cw_store w' = cw_store w \<and> cw_token w' = cw_token w) \<and> set (cw_faults w') \<subseteq> set (cw_faults w)"
  by unfold_locales auto

lemma keeps_create_path:
  "keeps (\<lambda>w w'. (cw_store w' = cw_store w \<and> cw_token w' = cw_token w) \<and> set (cw_faults w') \<subseteq> set (cw_faults w))
     (create_path oc dir path)"
proof -
  have "keeps (\<lambda>w w'. (cw_store w' = cw_store w \<and> cw_token w' = cw_token w) \<and> set (cw_faults w') \<subseteq> set (cw_faults w))
      (\<lambda>w. if session_file_at name w \<noteq> None then (Inl (OsError EEXIST), w)
        else (Inr (), w\<lparr>cw_sessions := Some (bt_insert name (Some [])
          (case cw_sessions w of None \<Rightarrow> [] | Some fs \<Rightarrow> fs))\<rparr>))" for name
    by (simp add: keeps_def)
  then show ?thesis
    unfolding create_path_def
    by (intro same_claims.keeps_bind same_claims.keeps_name_for_path same_claims.keeps_sys same_claims.keeps_nop
        same_claims.keeps_ok)
qed

lemma same_claims_safe:
  assumes "keeps (\<lambda>w w'. (cw_store w' = cw_store w \<and> cw_token w' = cw_token w) \<and> set (cw_faults w') \<subseteq> set (cw_faults w)) m"
    and "safe_at cc p og c0 w"
  shows "safe_at cc p og c0 (snd (m w))"
  using assms faulted_subset stored_cong unfolding safe_at_def keeps_def by metis

text \<open>Every part of a call that keeps the claims may be skipped when it is followed.\<close>

lemma bind_safe:
  assumes "keeps (\<lambda>w w'. (cw_store w' = cw_store w \<and> cw_token w' = cw_token w) \<and> set (cw_faults w') \<subseteq> set (cw_faults w)) m"
    and "safe_at cc p og c0 w" and "\<And>x w. safe_at cc p og c0 w \<Longrightarrow> \<exists>c. stored cc p og (snd (f x w)) c \<and> later c0 c"
  shows "\<exists>c. stored cc p og (snd (rc_bind m f w)) c \<and> later c0 c"
  using same_claims_safe [OF assms(1,2)] assms(3)
  by (auto simp: rc_bind_split safe_at_def split: sum.split)

lemma then_safe:
  assumes "keeps (\<lambda>w w'. (cw_store w' = cw_store w \<and> cw_token w' = cw_token w) \<and> set (cw_faults w') \<subseteq> set (cw_faults w)) m"
    and "safe_at cc p og c0 w" and "\<And>x w. safe_at cc p og c0 w \<Longrightarrow> \<exists>c. stored cc p og (snd (f x w)) c \<and> later c0 c"
  shows "\<exists>c. stored cc p og (snd (rc_then m f w)) c \<and> later c0 c"
  using same_claims_safe [OF assms(1,2)] assms(3) by (simp add: rc_then_split)

lemma safe_stored: "safe_at cc p og c0 w \<Longrightarrow> \<exists>c. stored cc p og w c \<and> later c0 c"
  by (simp add: safe_at_def)

lemma reconcile_session_safe:
  assumes "safe_at (oc_claims oc) p og c0 w" "reads_back (oc_claims oc) c0" "rc_project_id c = p" "rc_origin_run_id c = og"
  shows "\<exists>d. stored (oc_claims oc) p og (snd (reconcile_session oc fresh c tmux name w)) d \<and> later c0 d"
  unfolding reconcile_session_def
proof (rule bind_safe [OF same_claims.keeps_read_checked assms(1)])
  fix es w
  assume safe: "safe_at (oc_claims oc) p og c0 w"
  have "\<exists>e. stored (oc_claims oc) p og (snd (commit_recovery_claim (oc_claims oc) fresh p og d w)) e \<and> later c0 e" for d
    using commit_safe [OF prod.collapse [symmetric] safe assms(2)] .
  then show "\<exists>d. stored (oc_claims oc) p og (snd ((if \<not> pending_session_prefix_matches_claim oc c es then rc_err CorruptClaim
       else if rc_spawn_started c \<and> tmux = TmuxAbsent then rc_err DeadPlannedHandle
       else
         (case recovery_origin_in_session oc es (rc_project_id c) (rc_origin_run_id c) (rc_request_id c) of
            Some (_, _, action) \<Rightarrow>
              rc_bind (commit_recovery_claim (oc_claims oc) fresh (rc_project_id c) (rc_origin_run_id c)
                  (reconciled_details oc c es action)) (\<lambda>committed.
                rc_ok (Some \<lparr>pp_claim = committed, pp_planned_identity = claim_identity c,
                  pp_reattach_existing = False, pp_session_file = Some name\<rparr>))
          | None \<Rightarrow>
              (let has_acquire = list_ex (\<lambda>e. env_kind e = LifecycleKind
                   \<and> get_str ''phase'' (env_event e) = Some ''acquire'') es
               in rc_ok (Some \<lparr>pp_claim = c, pp_planned_identity = claim_identity c,
                    pp_reattach_existing = (has_acquire \<or> tmux = TmuxPresent), pp_session_file = Some name\<rparr>)))) w)) d
      \<and> later c0 d"
    using assms(3,4) safe_stored [OF safe] by (auto simp: bind_world Let_def split: option.split)
qed

lemma reconcile_safe:
  assumes "reconcile_pending_claim oc fresh root c w = (r, w')"
    and "safe_at (oc_claims oc) p og c0 w" "reads_back (oc_claims oc) c0" "rc_project_id c = p" "rc_origin_run_id c = og"
  shows "\<exists>d. stored (oc_claims oc) p og w' d \<and> later c0 d"
proof -
  let ?tmux = "planned_handle_observation oc c"
  let ?session = "rc_replacement_session_path c"
  have make: "\<exists>d. stored (oc_claims oc) p og (snd (rc_bind (create_path oc dir ?session) (\<lambda>name.
      rc_bind (validate_current name) (\<lambda>_.
        rc_ok (Some \<lparr>pp_claim = c, pp_planned_identity = claim_identity c,
          pp_reattach_existing = (?tmux = TmuxPresent), pp_session_file = Some name\<rparr>))) w1)) d \<and> later c0 d"
    if "safe_at (oc_claims oc) p og c0 w1" for w1 dir
    by (rule bind_safe [OF keeps_create_path that], rule bind_safe [OF same_claims.keeps_validate_current])
      (auto intro: safe_stored)
  have go: "\<exists>d. stored (oc_claims oc) p og (snd (rc_bind (session_dir_open oc root) (\<lambda>dir.
      rc_then (open_path oc dir ?session) (\<lambda>r.
        case r of
          Inr name \<Rightarrow> reconcile_session oc fresh c ?tmux name
        | Inl err \<Rightarrow>
            if \<not> is_not_found err then rc_err err
            else if rc_spawn_started c \<and> ?tmux = TmuxAbsent then rc_err DeadPlannedHandle
            else
              rc_bind (create_path oc dir ?session) (\<lambda>name.
              rc_bind (validate_current name) (\<lambda>_.
                rc_ok (Some \<lparr>pp_claim = c, pp_planned_identity = claim_identity c,
                  pp_reattach_existing = (?tmux = TmuxPresent), pp_session_file = Some name\<rparr>))))) w)) d \<and> later c0 d"
  proof (rule bind_safe [OF same_claims.keeps_session_dir_open assms(2)],
      rule then_safe [OF same_claims.keeps_open_path], assumption)
    fix dir r w1 assume safe: "safe_at (oc_claims oc) p og c0 w1"
    show "\<exists>d. stored (oc_claims oc) p og (snd ((case r of
          Inr name \<Rightarrow> reconcile_session oc fresh c ?tmux name
        | Inl err \<Rightarrow>
            if \<not> is_not_found err then rc_err err
            else if rc_spawn_started c \<and> ?tmux = TmuxAbsent then rc_err DeadPlannedHandle
            else
              rc_bind (create_path oc dir ?session) (\<lambda>name.
              rc_bind (validate_current name) (\<lambda>_.
                rc_ok (Some \<lparr>pp_claim = c, pp_planned_identity = claim_identity c,
                  pp_reattach_existing = (?tmux = TmuxPresent), pp_session_file = Some name\<rparr>)))) w1)) d \<and> later c0 d"
      using reconcile_session_safe [OF safe assms(3-5)] make [OF safe] safe_stored [OF safe]
      by (simp split: sum.split)
  qed
  have "w' = snd (reconcile_pending_claim oc fresh root c w)"
    using assms(1) by simp
  then show ?thesis
    using go safe_stored [OF assms(2)] by (simp add: reconcile_pending_claim_def Let_def split: if_splits)
qed



context store_frame begin

lemma keeps_required [keep]: "keeps R (required_claim c)"
  unfolding required_claim_def by (intro keep)

lemma keeps_plan [keep]: "keeps R (plan_pending_recovery_claim cc fresh spec)"
  unfolding plan_pending_recovery_claim_def Let_def by (intro keep)

lemma keeps_mark [keep]: "keeps R (mark_pending_recovery_spawn_started cc fresh p og)"
  unfolding mark_pending_recovery_spawn_started_def Let_def by (intro keep)

lemma keeps_commit [keep]: "keeps R (commit_recovery_claim cc fresh p og d)"
  unfolding commit_recovery_claim_def Let_def by (intro keep)

lemma keeps_reconcile_session [keep]: "keeps R (reconcile_session oc fresh c tmux name)"
  unfolding reconcile_session_def Let_def by (intro keep) (auto split: option.split intro!: keep)

end

lemma keeps_reconcile: "keeps (\<lambda>w w'. set (cw_faults w') \<subseteq> set (cw_faults w)) (reconcile_pending_claim oc fresh root c)"
proof -
  have "keeps (\<lambda>w w'. set (cw_faults w') \<subseteq> set (cw_faults w)) (create_path oc dir path)" for dir path
    using keeps_create_path by (simp add: keeps_def)
  then show ?thesis
    unfolding reconcile_pending_claim_def Let_def by (intro keep)
qed

lemma plan_stored:
  assumes run: "plan_pending_recovery_claim cc fresh spec w = (r, w')"
    and st: "stored cc (ps_project_id spec) (ps_origin_run_id spec) w c" and ok: "faulted present (cw_faults w)"
  shows "stored cc (ps_project_id spec) (ps_origin_run_id spec) w' c \<and> (\<exists>e. r = Inl e)"
proof -
  obtain l w1 where load: "load_recovery_claim cc (ps_project_id spec) (ps_origin_run_id spec) w = (l, w1)"
    by fastforce
  show ?thesis
    using run load stored_load [OF st ok load] st
    by (auto simp: plan_pending_recovery_claim_def rc_bind_split rc_err_def split: if_splits)
qed

text \<open>A resolution that finds a claim valid, or that has no reason to quarantine one, leaves it.\<close>

interpretation kept_claims: dir_frame
  "\<lambda>w w'. (\<forall>p. claims_of p w' = claims_of p w) \<and> (\<forall>t. cw_token w = Some t \<longrightarrow> cw_token w' = Some t)
     \<and> set (cw_faults w') \<subseteq> set (cw_faults w)"
proof unfold_locales
  fix c w
  assume new: "\<not> component_there c w"
  have "cw_token (snd (make_component c w)) = cw_token w" "cw_faults (snd (make_component c w)) = cw_faults w"
    by (simp_all add: make_component_def set_claims_def split: store_component.split)
  then show "(\<forall>p. claims_of p (snd (make_component c w)) = claims_of p w)
      \<and> (\<forall>t. cw_token w = Some t \<longrightarrow> cw_token (snd (make_component c w)) = Some t)
      \<and> set (cw_faults (snd (make_component c w))) \<subseteq> set (cw_faults w)"
    using claims_of_make [OF new] by simp
qed (auto simp: claims_of_def)

lemma kept_claims_safe:
  assumes kept: "keeps (\<lambda>w w'. (\<forall>p. claims_of p w' = claims_of p w) \<and> (\<forall>t. cw_token w = Some t \<longrightarrow> cw_token w' = Some t)
     \<and> set (cw_faults w') \<subseteq> set (cw_faults w)) m"
    and safe: "safe_at cc p og c0 w" and run: "m w = (r, w')"
  shows "safe_at cc p og c0 w'"
proof -
  have same: "claims_of p w' = claims_of p w" "\<And>t. cw_token w = Some t \<longrightarrow> cw_token w' = Some t"
    "set (cw_faults w') \<subseteq> set (cw_faults w)"
    using kept run unfolding keeps_def by (metis snd_conv)+
  have "stored cc p og w c \<Longrightarrow> stored cc p og w' c" for c
    using same(1,2) signed_later unfolding stored_def by metis
  then show ?thesis using safe faulted_subset [OF _ same(3)] unfolding safe_at_def by blast
qed

lemma resolve_with_links_valid:
  assumes run: "resolve_with_links oc fresh root p og links w = (Inr (ResolvedValid d), w')"
    and safe: "safe_at (oc_claims oc) p og c0 w"
  shows "safe_at (oc_claims oc) p og c0 w'"
proof -
  obtain c where c: "stored (oc_claims oc) p og w c" "later c0 c" and ok: "faulted present (cw_faults w)"
    using safe by (auto simp: safe_at_def)
  obtain l w1 where load: "load_recovery_claim (oc_claims oc) p og w = (l, w1)" by fastforce
  have l: "l = Inr (Some c) \<or> (\<exists>e. l = Inl e)" and safe1: "safe_at (oc_claims oc) p og c0 w1"
    using stored_load [OF c(1) ok load] c(2) by (auto simp: safe_at_def)
  let ?quarantine = "quarantine_and_reconstruct oc fresh root p og links w1"
  have no: "?quarantine \<noteq> (Inr (ResolvedValid d), w')"
    using quarantine_not_valid by (metis fst_conv)
  obtain ev w2 where verify: "verify_committed_claim_against_session oc root c w1 = (ev, w2)" by fastforce
  have safe2: "safe_at (oc_claims oc) p og c0 w2"
    by (rule kept_claims_safe [OF kept_claims.keeps_verify safe1 verify])
  have no2: "quarantine_and_reconstruct oc fresh root p og links w2 \<noteq> (Inr (ResolvedValid d), w')"
    using quarantine_not_valid by (metis fst_conv)
  show ?thesis
  proof (cases l)
    case (Inl e)
    then show ?thesis
      using run load no
      by (auto simp: resolve_with_links_def rc_then_split rc_ok_def rc_err_def split: recovery_claim_error.splits)
  next
    case (Inr x)
    then have "l = Inr (Some c)" using l by auto
    then show ?thesis
      using run load no no2 safe1 safe2 verify
      by (auto simp: resolve_with_links_def rc_then_split rc_ok_def
          split: if_splits list.splits claim_evidence.splits)
  qed
qed

lemma resolve_valid_safe:
  assumes run: "resolve_authoritative_recovery_claim oc fresh root p og a w = ((Inr (ResolvedValid d), a'), w')"
    and safe: "safe_at (oc_claims oc) p og c0 w"
  shows "safe_at (oc_claims oc) p og c0 w'"
proof -
  obtain r b w1 where links: "links_for oc root p a w = ((r, b), w1)" by (metis surj_pair)
  have safe1: "safe_at (oc_claims oc) p og c0 w1"
    by (rule kept_claims_safe [OF kept_claims.keeps_links_for safe links])
  obtain ls where "r = Inr ls" "resolve_with_links oc fresh root p og ls w1 = (Inr (ResolvedValid d), w')"
    using run links by (cases r) (auto simp: resolve_authoritative_recovery_claim_def split: prod.splits)
  then show ?thesis using resolve_with_links_valid safe1 by blast
qed

lemma pending_resolves_valid:
  assumes "stored (oc_claims oc) p og w c" "rc_status c = ClaimPending"
  shows "fst (resolve_with_links oc fresh root p og links (calm w)) = Inr (ResolvedValid c)"
  using assms(2) by (simp add: resolve_with_links_def rc_then_split stored_loads [OF assms(1)] rc_ok_def)

lemma faults_safe:
  "safe_at cc p og c0 w \<Longrightarrow> faulted transient fs \<Longrightarrow> safe_at cc p og c0 (w\<lparr>cw_faults := fs\<rparr>)"
  using faulted_present by (auto simp: safe_at_def)

lemma small_sessions_faults [simp]: "small_sessions (w\<lparr>cw_faults := fs\<rparr>) = small_sessions w"
  by (simp add: small_sessions_def session_bytes_def session_file_at_def)

lemma resolve_safe:
  assumes due: "no_quarantine_due oc fresh root p og a w" and ok: "faulted transient (cw_faults w)"
    and small: "small_sessions w" and run: "resolve_authoritative_recovery_claim oc fresh root p og a w = (ra, w')"
    and safe: "safe_at (oc_claims oc) p og c0 w"
  shows "safe_at (oc_claims oc) p og c0 w'"
proof -
  obtain c where c: "stored (oc_claims oc) p og w c" "later c0 c" using safe by (auto simp: safe_at_def)
  have there: "cw_token w \<noteq> None" "bt_get (claims_of p w) (og @ ''.json'') \<noteq> None"
    using stored_there [OF c(1)] by auto
  from due [unfolded no_quarantine_due_def] show ?thesis
  proof
    assume "\<exists>d. fst (load_recovery_claim (oc_claims oc) p og (calm w)) = Inr (Some d) \<and> rc_status d = ClaimPending"
    then have pending: "rc_status c = ClaimPending" using stored_loads [OF c(1)] by auto
    obtain rl fs where links: "links_for oc root p a w = (rl, w\<lparr>cw_faults := fs\<rparr>)" and fs: "faulted transient fs"
      using calmly_run [OF calmly_links_for [OF there(1) small] ok] .
    let ?w = "w\<lparr>cw_faults := fs\<rparr>"
    have safe1: "safe_at (oc_claims oc) p og c0 ?w" using faults_safe [OF safe fs] .
    show ?thesis
    proof (cases "fst rl")
      case (Inl u)
      then show ?thesis
        using run links safe1 by (cases rl) (auto simp: resolve_authoritative_recovery_claim_def)
    next
      case (Inr ls)
      have "fst (resolve_with_links oc fresh root p og ls (calm ?w)) = Inr (ResolvedValid c)"
        using pending_resolves_valid [OF c(1) pending] by simp
      then have "calmly transient ?w undecided (resolve_with_links oc fresh root p og ls)"
        using there by (intro calmly_resolve_valid) simp_all
      then obtain r fs' where "resolve_with_links oc fresh root p og ls ?w = (r, ?w\<lparr>cw_faults := fs'\<rparr>)"
        "faulted transient fs'"
        using calmly_run fs by (metis (no_types, lifting) claim_world.select_convs(4) claim_world.surjective claim_world.update_convs(4))
      then show ?thesis
        using run links Inr faults_safe [OF safe]
        by (cases rl) (auto simp: resolve_authoritative_recovery_claim_def)
    qed
  next
    assume "\<exists>d. fst (fst (resolve_authoritative_recovery_claim oc fresh root p og a (calm w))) = Inr (ResolvedValid d)"
    then obtain d where "fst (fst (resolve_authoritative_recovery_claim oc fresh root p og a (calm w))) = Inr (ResolvedValid d)"
      by blast
    from calmly_run [OF calmly_resolve_authoritative [OF there(1) small there(2) this] ok]
    obtain r fs where "resolve_authoritative_recovery_claim oc fresh root p og a w = (r, w\<lparr>cw_faults := fs\<rparr>)"
      "faulted transient fs" .
    then show ?thesis using run faults_safe [OF safe] by simp
  qed
qed

lemma load_committed_world: "snd (load_committed_recovery_claim cc p og w) = snd (load_recovery_claim cc p og w)"
  unfolding load_committed_recovery_claim_def
  by (rule bind_world) (auto simp: rc_ok_def split: option.split)

text \<open>Every step keeps the claim and its plan.\<close>

lemma step_safe:
  assumes "rescue_step oc root p og w w'" "safe_at (oc_claims oc) p og c0 w" "reads_back (oc_claims oc) c0"
  shows "safe_at (oc_claims oc) p og c0 w'"
  using assms(1)
proof cases
  case (load r)
  then show ?thesis
    using assms(2) stored_load unfolding safe_at_def by blast
next
  case (load_committed r)
  then have "w' = snd (load_recovery_claim (oc_claims oc) p og w)"
    using load_committed_world by (metis snd_conv)
  then have "load_recovery_claim (oc_claims oc) p og w = (fst (load_recovery_claim (oc_claims oc) p og w), w')"
    by simp
  then show ?thesis
    using assms(2) stored_load unfolding safe_at_def by blast
next
  case (resolve_valid fresh a c a')
  then show ?thesis using resolve_valid_safe assms(2) by blast
next
  case (resolve fresh a ra)
  then show ?thesis using resolve_safe assms(2) by blast
next
  case (plan spec fresh r)
  have "faulted present (cw_faults w')"
    using faulted_after [OF _ fewer_faults.keeps_plan] plan(3) assms(2) unfolding safe_at_def by (metis snd_conv)
  then show ?thesis
    using assms(2) plan plan_stored unfolding safe_at_def by metis
next
  case (mark fresh r)
  have "faulted present (cw_faults w')"
    using faulted_after [OF _ fewer_faults.keeps_mark] mark assms(2) unfolding safe_at_def by (metis snd_conv)
  then show ?thesis
    using mark_safe [OF mark assms(2,3)] by (simp add: safe_at_def)
next
  case (commit fresh d r)
  have "faulted present (cw_faults w')"
    using faulted_after [OF _ fewer_faults.keeps_commit] commit assms(2) unfolding safe_at_def by (metis snd_conv)
  then show ?thesis
    using commit_safe [OF commit assms(2,3)] by (simp add: safe_at_def)
next
  case (reconcile c fresh r)
  have "faulted present (cw_faults w')"
    using faulted_after [OF _ keeps_reconcile] reconcile(3) assms(2) unfolding safe_at_def by (metis snd_conv)
  then show ?thesis
    using reconcile_safe [OF reconcile(3) assms(2,3) reconcile(1,2)] by (simp add: safe_at_def)
next
  case (failures fs)
  then show ?thesis
    using assms(2) by (simp add: safe_at_def)
next
  case (sessions s)
  then show ?thesis
    using assms(2) stored_cong [of "w\<lparr>cw_sessions := s\<rparr>" w] by (simp add: safe_at_def)
qed

lemma steps_safe:
  assumes "(rescue_step oc root p og)\<^sup>*\<^sup>* w w'" "safe_at (oc_claims oc) p og c0 w" "reads_back (oc_claims oc) c0"
  shows "safe_at (oc_claims oc) p og c0 w'"
  using assms(1,2) by (induction rule: rtranclp_induct) (auto intro: step_safe assms(3))

section \<open>A planned claim is there\<close>

text \<open>The fields of a request that a complete plan needs.\<close>

definition whole_spec :: "pending_recovery_claim_spec \<Rightarrow> bool" where
  "whole_spec spec \<longleftrightarrow>
     ps_boot_id spec \<noteq> [] \<and> ps_action spec \<noteq> [] \<and> ps_target spec \<noteq> [] \<and> ps_draft_prompt spec \<noteq> None \<and>
     ps_task_id spec \<noteq> [] \<and> ps_kind spec \<noteq> [] \<and> ps_worker_id spec \<noteq> [] \<and> ps_role spec \<noteq> [] \<and>
     ps_transport spec \<noteq> [] \<and> nonempty (ps_harness spec)"

lemma tmux_session_name_nonempty: "tmux_session_name cc i \<noteq> []"
  by (auto simp: tmux_session_name_def tmux_session_prefix_def Let_def split: option.split)

lemma planned_complete:
  assumes "whole_spec spec" "\<forall>s. length (cc_sha256 cc s) = 32"
  shows "recovery_claim_has_complete_plan ((planned_claim cc fresh spec)\<lparr>rc_authority_tag := Some (mac_text cc key payload)\<rparr>)"
  using assms(1) mac_text_hex [OF assms(2)] tmux_session_name_nonempty
  by (simp add: whole_spec_def planned_claim_def recovery_claim_has_complete_plan_def nonempty_def)

lemma load_safe_ids:
  assumes "load_recovery_claim cc p og w = (Inr x, w')"
  shows "validate_safe_component p \<and> validate_safe_component og"
  using assms
  by (auto simp: load_recovery_claim_def claim_file_name_def bind_Inr rc_lift_def claim_dir_open_def rc_err_def
      split: if_splits)

lemma plan_is_stored:
  assumes run: "plan_pending_recovery_claim cc fresh spec w = (Inr c, w')"
    and spec: "whole_spec spec" and codec: "reads_back cc c"
  shows "stored cc (ps_project_id spec) (ps_origin_run_id spec) w' c \<and> same_plan (planned_claim cc fresh spec) c
    \<and> validate_safe_component (ps_request_id spec)"
proof -
  let ?p = "ps_project_id spec" and ?og = "ps_origin_run_id spec" and ?c = "planned_claim cc fresh spec"
  obtain w1 w2 tag where load: "load_recovery_claim cc ?p ?og w = (Inr None, w1)"
    and tag: "authority_tag cc ?c w1 = (Inr tag, w2)" and c: "c = ?c\<lparr>rc_authority_tag := Some tag\<rparr>"
    and written: "write_claim cc fresh c w2 = (Inr (), w')" and request: "validate_safe_component (ps_request_id spec)"
    using run
    by (auto simp: plan_pending_recovery_claim_def bind_Inr Let_def rc_ok_def rc_err_def split: if_splits option.splits)
  have ids: "rc_project_id c = ?p" "rc_origin_run_id c = ?og"
    by (simp_all add: c planned_claim_def)
  have complete: "recovery_claim_has_complete_plan c"
    using planned_complete [OF spec] tag_signs(2) [OF tag] codec by (auto simp: c reads_back_def)
  have "cw_token w2 = Some t \<longrightarrow> cw_token w' = Some t" for t
    using same_token.keeps_write_claim written unfolding keeps_def by (metis snd_conv)
  then have "signed cc w' c"
    using tag_signs(1) [OF tag] signed_later c by blast
  then have "stored cc ?p ?og w' c"
    using write_claim_done [OF written] reads_back_claim [OF codec same_plan_refl complete] complete ids load_safe_ids [OF load]
    by (simp add: stored_def file_of_bytes_def)
  then show ?thesis
    using request by (simp add: c)
qed

text \<open>
  Claim C8. What a plan acknowledges is on the disk: after any run of \<open>plan_pending_recovery_claim\<close> that
  answers with a claim, through whatever failures, the claim is the planned one and loads again
  unchanged, and planning the same rescue again answers that this claim is there.
\<close>

theorem planned_claim_loads:
  assumes "plan_pending_recovery_claim cc fresh spec w = (Inr c, w')" "whole_spec spec" "reads_back cc c"
  shows "same_plan (planned_claim cc fresh spec) c
    \<and> load_recovery_claim cc (ps_project_id spec) (ps_origin_run_id spec) (calm w') = (Inr (Some c), calm w')
    \<and> plan_pending_recovery_claim cc fresh' spec (calm w') = (Inl (AlreadyClaimed c), calm w')"
proof -
  note planned = plan_is_stored [OF assms]
  then have load: "load_recovery_claim cc (ps_project_id spec) (ps_origin_run_id spec) (calm w') = (Inr (Some c), calm w')"
    using stored_loads by blast
  then show ?thesis
    using planned by (simp add: plan_pending_recovery_claim_def rc_bind_split) (simp add: rc_err_def)
qed

text \<open>
  Claim C4. A rescue is planned once. From a plan that was acknowledged, let the claim be loaded, planned
  again, marked, committed, reconciled and resolved in any order, with sessions changing and calls failing or
  breaking off anywhere. Two things are excluded: failures that report a file or directory as not found, and
  resolutions that quarantine the claim, which are those of a committed claim without the one link that
  carries it, or those disturbed by failures that are not transient and that do not answer that the claim is
  valid (and \<open>remove_recovery_claim\<close>, which nothing calls). Then the claim on the disk still loads, with the
  plan and the replacement run of the first, never back from committed to pending or from started to not
  started, and no further plan for the origin is acknowledged.
\<close>

theorem rescue_planned_once:
  assumes "plan_pending_recovery_claim (oc_claims oc) fresh spec w = (Inr c0, w0)" "whole_spec spec"
    and "reads_back (oc_claims oc) c0" "faulted present (cw_faults w)"
    and "(rescue_step oc root (ps_project_id spec) (ps_origin_run_id spec))\<^sup>*\<^sup>* w0 w'"
  shows "\<exists>c. load_recovery_claim (oc_claims oc) (ps_project_id spec) (ps_origin_run_id spec) (calm w') = (Inr (Some c), calm w')
    \<and> later c0 c \<and> rc_replacement_run_id c = cf_run_id fresh
    \<and> (\<forall>fresh' spec'. ps_project_id spec' = ps_project_id spec \<and> ps_origin_run_id spec' = ps_origin_run_id spec \<longrightarrow>
        (\<exists>e. fst (plan_pending_recovery_claim (oc_claims oc) fresh' spec' w') = Inl e))"
proof -
  let ?p = "ps_project_id spec" and ?og = "ps_origin_run_id spec"
  have first: "stored (oc_claims oc) ?p ?og w0 c0" "same_plan (planned_claim (oc_claims oc) fresh spec) c0"
    using plan_is_stored [OF assms(1-3)] by simp_all
  have "faulted present (cw_faults w0)"
    using faulted_after [OF assms(4) fewer_faults.keeps_plan] assms(1) by (metis snd_conv)
  then have "safe_at (oc_claims oc) ?p ?og c0 w0"
    using first(1) later_refl unfolding safe_at_def by blast
  then have safe: "safe_at (oc_claims oc) ?p ?og c0 w'"
    using steps_safe assms(3,5) by blast
  then obtain c where c: "stored (oc_claims oc) ?p ?og w' c" "later c0 c" "faulted present (cw_faults w')"
    by (auto simp: safe_at_def)
  have "same_plan (planned_claim (oc_claims oc) fresh spec) c"
    using first(2) c(2) same_plan_trans by (auto simp: later_def)
  then have run_id: "rc_replacement_run_id c = cf_run_id fresh"
    using same_plan_ids(3) by (simp add: planned_claim_def)
  have "\<exists>e. fst (plan_pending_recovery_claim (oc_claims oc) fresh' spec' w') = Inl e"
    if "ps_project_id spec' = ?p" "ps_origin_run_id spec' = ?og" for fresh' spec'
    using plan_stored [OF prod.collapse [symmetric] _ c(3)] c(1) that by metis
  then show ?thesis
    using stored_loads [OF c(1)] c(2) run_id by blast
qed

section \<open>A plan that was made\<close>

definition rescue_spec :: pending_recovery_claim_spec where
  "rescue_spec =
     \<lparr>ps_project_id = ''p'', ps_origin_run_id = ''run-o'', ps_request_id = ''req'',
      ps_origin_session_path = rescue_dir @ [''o.jsonl''], ps_replacement_session_path = rescue_dir @ [''r.jsonl''],
      ps_boot_id = ''b'', ps_action = ''resume_run'', ps_target = ''worker'', ps_draft_prompt = Some ''go'',
      ps_force_inert = False, ps_task_id = ''TASK-1'', ps_kind = ''worker'', ps_worker_id = ''w'', ps_role = ''worker'',
      ps_requires_worker_finalize = True, ps_transport = ''tmux'', ps_harness = Some ''codex'',
      ps_driver_config = JObject [], ps_worktree = None, ps_last_path = None, ps_stdout_path = None,
      ps_planned_native_runtime = None,
      ps_run_options = \<lparr>ro_stall_timeout_secs = None, ro_max_run_duration_secs = None,
        ro_idle_timeout_secs = None, ro_cleanup_on_failure = False\<rparr>\<rparr>"

definition rescue_fresh :: claim_fresh where
  "rescue_fresh = \<lparr>cf_run_id = ''run-r'', cf_runtime_id = ''rt'', cf_temp = ''u'', cf_temp' = ''v'', cf_torn = 0\<rparr>"

text \<open>A text with the three fields of a claim that change; the rest is the plan.\<close>

definition plan_text :: "recovery_claim \<Rightarrow> string" where
  "plan_text c =
     (if rc_status c = ClaimCommitted then CHR ''C'' else CHR ''P'')
       # (if rc_spawn_started c then CHR ''1'' else CHR ''0'')
       # (case rc_authority_tag c of None \<Rightarrow> [] | Some t \<Rightarrow> t)"

definition plan_parse :: "recovery_claim \<Rightarrow> string \<Rightarrow> recovery_claim option" where
  "plan_parse base s =
     (case s of
        a # b # t \<Rightarrow> Some (base\<lparr>rc_status := (if a = CHR ''C'' then ClaimCommitted else ClaimPending),
          rc_spawn_started := (b = CHR ''1''), rc_authority_tag := Some t\<rparr>)
      | _ \<Rightarrow> None)"

definition plan_codec :: "recovery_claim \<Rightarrow> claim_codec" where
  "plan_codec base =
     \<lparr>cc_parse = plan_parse base, cc_text = plan_text, cc_payload = (\<lambda>_. Some ''{}''),
      cc_sha256 = (\<lambda>_. replicate 32 (CHR ''a'')), cc_random = ''k'', cc_ulid = (\<lambda>_. True), cc_uuid = (\<lambda>_. None)\<rparr>"

lemma hex_rust_str: "list_all is_ascii_hexdigit t \<Longrightarrow> rust_str t"
proof (induction t)
  case (Cons c t)
  then show ?case
    by (intro rust_str_Cons) (auto simp: is_ascii_hexdigit_def is_ascii_digit_def is_cont_def)
qed (simp add: rust_str_def)

lemma plan_codec_reads_back:
  assumes "plan_of c0 = plan_of base"
  shows "reads_back (plan_codec base) c0"
proof -
  have "plan_parse base (plan_text c) = Some c \<and> rust_str (plan_text c)"
    if same: "same_plan c0 c" and complete: "recovery_claim_has_complete_plan c" for c
  proof -
    obtain t where t: "rc_authority_tag c = Some t" "list_all is_ascii_hexdigit t"
      using complete by (auto simp: recovery_claim_has_complete_plan_def split: option.splits)
    have "plan_of base = plan_of c"
      using same assms by (simp add: same_plan_def)
    then have "base\<lparr>rc_status := rc_status c, rc_spawn_started := rc_spawn_started c, rc_authority_tag := rc_authority_tag c\<rparr> = c"
      by (cases base, cases c) (simp add: plan_of_def)
    moreover have "rc_status c = (if rc_status c = ClaimCommitted then ClaimCommitted else ClaimPending)"
      by (cases "rc_status c") simp_all
    ultimately have "plan_parse base (plan_text c) = Some c"
      using t by (auto simp: plan_parse_def plan_text_def)
    moreover have "rust_str (plan_text c)"
      using hex_rust_str [OF t(2)] t(1) by (auto simp: plan_text_def is_cont_def intro!: rust_str_Cons)
    ultimately show ?thesis by simp
  qed
  then show ?thesis
    by (simp add: reads_back_def plan_codec_def)
qed

definition plan_base :: recovery_claim where
  "plan_base = planned_claim rescue_claims rescue_fresh rescue_spec"

lemma planned_base: "planned_claim (plan_codec base) rescue_fresh rescue_spec = plan_base"
proof -
  have "cc_ulid (plan_codec base) = cc_ulid rescue_claims" "cc_uuid (plan_codec base) = cc_uuid rescue_claims"
    by (simp_all add: plan_codec_def rescue_claims_def)
  then show ?thesis
    by (simp only: plan_base_def planned_claim_def tmux_session_name_def tmux_session_prefix_def compact_run_id_token_def)
qed

definition plan_tag :: string where
  "plan_tag = hex_bytes (replicate 32 (CHR ''a''))"

definition empty_store_world :: "io_error option list \<Rightarrow> claim_world" where
  "empty_store_world fs = \<lparr>cw_token = Some ''k'', cw_store = None, cw_sessions = None, cw_faults = fs\<rparr>"

definition planned_world :: claim_world where
  "planned_world = \<lparr>cw_token = Some ''k'',
     cw_store = Some [(''p'', [(''run-o.json'', TextFile (plan_text (plan_base\<lparr>rc_authority_tag := Some plan_tag\<rparr>)))])],
     cw_sessions = None, cw_faults = []\<rparr>"

lemma plan_runs:
  "plan_pending_recovery_claim (plan_codec plan_base) rescue_fresh rescue_spec (empty_store_world [])
     = (Inr (plan_base\<lparr>rc_authority_tag := Some plan_tag\<rparr>), planned_world)"
proof -
  let ?cc = "plan_codec plan_base" and ?c = "plan_base\<lparr>rc_authority_tag := Some plan_tag\<rparr>"
  have fine: "validate_safe_component ''p''" "validate_safe_component ''req''" "claim_file_name ''run-o'' = Inr ''run-o.json''"
    "temp_prefix ''run-o.json'' @ ''u'' = ''run-o.json.tmp.u''"
    by code_simp+
  have ids: "ps_request_id rescue_spec = ''req''" "ps_project_id rescue_spec = ''p''" "ps_origin_run_id rescue_spec = ''run-o''"
    "rc_project_id plan_base = ''p''" "rc_origin_run_id plan_base = ''run-o''"
    "cf_temp rescue_fresh = ''u''" "cf_torn rescue_fresh = 0" "cc_text ?cc = plan_text"
    by (simp_all add: rescue_spec_def plan_base_def planned_claim_def rescue_fresh_def plan_codec_def)
  have load: "load_recovery_claim ?cc ''p'' ''run-o'' (empty_store_world []) = (Inr None, empty_store_world [])"
    using claim_dir_calm [OF fine(1), of "empty_store_world []"]
    by (simp add: load_recovery_claim_def rc_bind_split fine component_there_def empty_store_world_def rc_ok_def)
  have tag: "authority_tag ?cc plan_base (empty_store_world []) = (Inr plan_tag, empty_store_world [])"
    by (simp add: authority_tag_def authority_key_def token_is_present_def rc_bind_split sys_def rc_then_split raw_sys_def
        rc_lift_def rc_ok_def found_def nop_def empty_store_world_def ascii_whitespace_byte_def Let_def
        authority_payload_def plan_codec_def mac_text_def hmac_sha256_def ok_or_def plan_tag_def)
  have "list_all is_ascii_hexdigit plan_tag"
    unfolding plan_tag_def by code_simp
  then have rust: "rust_str (plan_text ?c)"
    using hex_rust_str by (auto simp: plan_text_def is_cont_def intro!: rust_str_Cons)
  have "write_claim ?cc rescue_fresh ?c (empty_store_world []) = (Inr (), planned_world)"
    using fine rust
    by (simp add: write_claim_def write_claim_atomic_or_reconcile_def write_claim_atomic_def Let_def ids rc_then_split
        rc_bind_split claim_dir_open_def open_component_def sys_def raw_sys_def rc_lift_def rc_ok_def nop_def found_def
        open_at_def make_component_def component_there_def set_claims_def write_temp_def put_claim_def claims_of_def
        claim_rename_def rename_act_def claim_sync_def file_of_bytes_def empty_store_world_def planned_world_def
        component_name_def)
  then show ?thesis
    by (simp add: plan_pending_recovery_claim_def rc_bind_split ids fine load planned_base tag Let_def rc_ok_def)
qed

lemma rescue_spec_whole: "whole_spec rescue_spec"
  by (simp add: whole_spec_def rescue_spec_def nonempty_def)

lemma planned_claim_loads_witness:
  "plan_pending_recovery_claim (plan_codec plan_base) rescue_fresh rescue_spec planned_world
     = (Inl (AlreadyClaimed (plan_base\<lparr>rc_authority_tag := Some plan_tag\<rparr>)), planned_world)"
proof -
  have "reads_back (plan_codec plan_base) (plan_base\<lparr>rc_authority_tag := Some plan_tag\<rparr>)"
    by (rule plan_codec_reads_back) (simp add: plan_of_def)
  moreover have "calm planned_world = planned_world"
    by (simp add: planned_world_def)
  ultimately show ?thesis
    using planned_claim_loads [OF plan_runs rescue_spec_whole] by simp
qed

text \<open>After the plan every call fails: the process ended; then the claim is marked and loaded.\<close>

lemma rescue_planned_once_witness:
  "\<exists>c r w. mark_pending_recovery_spawn_started (plan_codec plan_base) rescue_fresh ''p'' ''run-o''
       (planned_world\<lparr>cw_faults := replicate 40 (Some (OsError (OtherErrno 5)))\<rparr>) = (r, w)
     \<and> load_recovery_claim (plan_codec plan_base) ''p'' ''run-o'' (calm w) = (Inr (Some c), calm w)
     \<and> rc_replacement_run_id c = ''run-r''"
proof -
  let ?oc = "rescue_codec\<lparr>oc_claims := plan_codec plan_base\<rparr>"
  let ?w = "planned_world\<lparr>cw_faults := replicate 40 (Some (OsError (OtherErrno 5)))\<rparr>"
  obtain r w where mark: "mark_pending_recovery_spawn_started (plan_codec plan_base) rescue_fresh ''p'' ''run-o'' ?w = (r, w)"
    by fastforce
  have codec: "oc_claims ?oc = plan_codec plan_base" by simp
  have "rescue_step ?oc [''/'', ''p''] ''p'' ''run-o'' planned_world ?w"
    by (rule rescue_step.failures) (simp add: faulted_def present_def list_all_iff)
  moreover have "rescue_step ?oc [''/'', ''p''] ''p'' ''run-o'' ?w w"
    using mark by (intro rescue_step.mark) simp
  ultimately have steps: "(rescue_step ?oc [''/'', ''p''] (ps_project_id rescue_spec) (ps_origin_run_id rescue_spec))\<^sup>*\<^sup>*
      planned_world w"
    by (auto simp: rescue_spec_def)
  have rb: "reads_back (oc_claims ?oc) (plan_base\<lparr>rc_authority_tag := Some plan_tag\<rparr>)"
    unfolding codec by (rule plan_codec_reads_back) (simp add: plan_of_def)
  have planned: "plan_pending_recovery_claim (oc_claims ?oc) rescue_fresh rescue_spec (empty_store_world [])
      = (Inr (plan_base\<lparr>rc_authority_tag := Some plan_tag\<rparr>), planned_world)"
    unfolding codec by (rule plan_runs)
  have "faulted present (cw_faults (empty_store_world []))"
    by (simp add: empty_store_world_def)
  from rescue_planned_once [OF planned rescue_spec_whole rb this steps]
  have "\<exists>c. load_recovery_claim (plan_codec plan_base) ''p'' ''run-o'' (calm w) = (Inr (Some c), calm w)
      \<and> rc_replacement_run_id c = ''run-r''"
    by (auto simp: rescue_spec_def rescue_fresh_def)
  then show ?thesis
    using mark by blast
qed

text \<open>A claim that was taken away is planned again, with another replacement run.\<close>

lemma removed_claim_is_planned_again:
  "\<exists>w. remove_recovery_claim ''p'' ''run-o'' planned_world = (Inr (), w)
     \<and> is_ok (fst (plan_pending_recovery_claim (plan_codec plan_base) rescue_fresh rescue_spec w))"
proof -
  let ?cc = "plan_codec plan_base" and ?c = "plan_base\<lparr>rc_authority_tag := Some plan_tag\<rparr>"
  let ?w = "\<lparr>cw_token = Some ''k'', cw_store = Some [(''p'', [])], cw_sessions = None, cw_faults = []\<rparr>"
  have fine: "validate_safe_component ''p''" "validate_safe_component ''req''" "claim_file_name ''run-o'' = Inr ''run-o.json''"
    "temp_prefix ''run-o.json'' @ ''u'' = ''run-o.json.tmp.u''"
    by code_simp+
  have ids: "ps_request_id rescue_spec = ''req''" "ps_project_id rescue_spec = ''p''" "ps_origin_run_id rescue_spec = ''run-o''"
    "rc_project_id plan_base = ''p''" "rc_origin_run_id plan_base = ''run-o''"
    "cf_temp rescue_fresh = ''u''" "cf_torn rescue_fresh = 0" "cc_text ?cc = plan_text"
    by (simp_all add: rescue_spec_def plan_base_def planned_claim_def rescue_fresh_def plan_codec_def)
  have open_before: "claim_dir_open ''p'' False planned_world = (Inr True, planned_world)"
    using claim_dir_calm [OF fine(1), of planned_world] by (simp add: component_there_def planned_world_def)
  have removed: "remove_recovery_claim ''p'' ''run-o'' planned_world = (Inr (), ?w)"
    using open_before
    by (simp add: remove_recovery_claim_def rc_bind_split fine rc_lift_def claim_remove_def remove_act_def claim_sync_def
        sys_def rc_then_split raw_sys_def nop_def rc_ok_def claims_of_def set_claims_def planned_world_def)
  have dir: "claim_dir_open ''p'' False ?w = (Inr True, ?w)"
    using claim_dir_calm [OF fine(1), of ?w] by (simp add: component_there_def)
  have absent: "read_regular ''p'' ''run-o.json'' ?w = (Inl (RcIo (OsError ENOENT)), ?w)"
    using read_regular_calm [of "''p''" "''run-o.json''" ?w] by (simp add: claims_of_def)
  have names: "claim_names ''p'' ?w = (Inr [], ?w)"
    by (simp add: claim_names_def rc_bind_split sys_def rc_then_split raw_sys_def nop_def rc_lift_def claims_of_def rc_ok_def)
  have stale: "reconcile_stale_claim_temp ?cc ''p'' ''run-o'' ?w = (Inr (), ?w)"
    by (simp add: reconcile_stale_claim_temp_def rc_bind_split rc_then_split dir fine absent is_not_found_def names
        promote_temp_def rc_ok_def)
  have load: "load_recovery_claim ?cc ''p'' ''run-o'' ?w = (Inr None, ?w)"
    by (simp add: load_recovery_claim_def rc_bind_split rc_then_split fine dir absent is_not_found_def stale rc_ok_def)
  have tag: "authority_tag ?cc plan_base ?w = (Inr plan_tag, ?w)"
    by (simp add: authority_tag_def authority_key_def token_is_present_def rc_bind_split sys_def rc_then_split raw_sys_def
        rc_lift_def rc_ok_def found_def nop_def ascii_whitespace_byte_def Let_def
        authority_payload_def plan_codec_def mac_text_def hmac_sha256_def ok_or_def plan_tag_def)
  have "fst (write_claim ?cc rescue_fresh ?c ?w) = Inr ()"
    using fine
    by (simp add: write_claim_def write_claim_atomic_or_reconcile_def write_claim_atomic_def Let_def ids rc_then_split
        rc_bind_split claim_dir_open_def open_component_def sys_def raw_sys_def rc_lift_def rc_ok_def nop_def found_def
        open_at_def component_there_def set_claims_def write_temp_def put_claim_def claims_of_def
        claim_rename_def rename_act_def claim_sync_def component_name_def)
  then have "is_ok (fst (plan_pending_recovery_claim ?cc rescue_fresh rescue_spec ?w))"
    by (simp add: plan_pending_recovery_claim_def rc_bind_split ids fine load planned_base tag Let_def rc_ok_def)
  then show ?thesis using removed by blast
qed

section \<open>A torn temporary file\<close>

text \<open>
  A write that broke off inside a character of several bytes leaves a temporary file that is not text.
  It is neither promoted nor removed, so that every load of the origin, which has no claim, answers
  that its claim is corrupt, and leaves everything as it is.
\<close>

definition torn_world :: claim_world where
  "torn_world = \<lparr>cw_token = Some ''k'', cw_store = Some [(''p'', [(''run-o.json.tmp.u'', NotText)])],
     cw_sessions = None, cw_faults = []\<rparr>"

lemma torn_temp_blocks:
  "load_recovery_claim cc ''p'' ''run-o'' torn_world = (Inl CorruptClaim, torn_world)"
  "plan_pending_recovery_claim cc fresh rescue_spec torn_world = (Inl CorruptClaim, torn_world)"
proof -
  have fine: "validate_safe_component ''p''" "claim_file_name ''run-o'' = Inr ''run-o.json''"
    "starts_with ''run-o.json.tmp.u'' (temp_prefix ''run-o.json'')" "validate_safe_component ''req''"
    by code_simp+
  have calm: "calm torn_world = torn_world"
    by (simp add: torn_world_def)
  have dir: "claim_dir_open ''p'' False torn_world = (Inr True, torn_world)"
    using claim_dir_calm [OF fine(1), of torn_world] by (simp add: calm component_there_def torn_world_def)
  have raw: "read_regular ''p'' ''run-o.json'' torn_world = (Inl (RcIo (OsError ENOENT)), torn_world)"
    "read_regular ''p'' ''run-o.json.tmp.u'' torn_world = (Inl CorruptClaim, torn_world)"
    using read_regular_calm [of "''p''" "''run-o.json''" torn_world]
      read_regular_calm [of "''p''" "''run-o.json.tmp.u''" torn_world]
    by (simp_all add: calm claims_of_def torn_world_def)
  have names: "claim_names ''p'' torn_world = (Inr [''run-o.json.tmp.u''], torn_world)"
    by (simp add: claim_names_def rc_bind_split sys_def rc_then_split raw_sys_def nop_def rc_lift_def claims_of_def
        torn_world_def rc_ok_def)
  have "reconcile_stale_claim_temp cc ''p'' ''run-o'' torn_world = (Inl CorruptClaim, torn_world)"
    by (simp add: reconcile_stale_claim_temp_def rc_bind_split rc_then_split dir fine raw is_not_found_def names
        rc_err_def)
  then show load: "load_recovery_claim cc ''p'' ''run-o'' torn_world = (Inl CorruptClaim, torn_world)"
    by (simp add: load_recovery_claim_def rc_bind_split rc_then_split fine dir raw is_not_found_def)
  show "plan_pending_recovery_claim cc fresh rescue_spec torn_world = (Inl CorruptClaim, torn_world)"
    using fine load by (simp add: plan_pending_recovery_claim_def rc_bind_split rescue_spec_def)
qed

end
