(* ===== verification/Writer_Files.thy ===== *)
theory Writer_Files
  imports Recovery_Store Tx_Ledger Node_Kernel
begin

text \<open>
  The files of the writer, \<open>crates/orgasmic-daemon/src/writer.rs\<close>: how the daemon appends to a ledger
  through a descriptor it keeps, rewrites a file, and runs a transaction that rewrites several files and
  appends to one ledger. Names and contents are apart, as inodes are, so that a kept descriptor may
  outlive the name it was opened by. Every system call may fail. The lock a call takes on a file is
  held by that call alone: failing to get it is a failing call.
\<close>

section \<open>The world of the writer\<close>

text \<open>What may fail: a call that does the work, one that undoes or cleans up, one that only asks whether
  a file is there.\<close>

datatype call_class = Work | Undo | Look

datatype ledger_kind = LedgerTx bool | LedgerJournal

text \<open>A kept descriptor: its inode, the inode the path named when it was opened, the events in the file.
  The flag of a tx ledger says that a blank line is missing at its end.\<close>

record cached_tx_writer =
  lh_kind :: ledger_kind
  lh_inode :: nat
  lh_identity :: nat
  lh_event_ids :: "(string \<times> string) list"

text \<open>The next calls of a class: \<open>None\<close> succeeds; \<open>Some n\<close> fails, a write after its first \<open>n\<close> bytes.
  Calls beyond the list succeed. \<open>ww_drawn\<close> counts the fresh identifiers drawn.\<close>

record writer_world =
  ww_names :: "file_path \<Rightarrow> nat option"
  ww_bytes :: "nat \<Rightarrow> string"
  ww_next :: nat
  ww_dirs :: "file_path set"
  ww_handles :: "file_path \<Rightarrow> cached_tx_writer option"
  ww_faults :: "call_class \<Rightarrow> nat option list"
  ww_drawn :: nat

datatype writer_error =
    CallFailed
  | NoSuchFile
  | FileExists
  | NotADirectory
  | IsADirectory
  | TargetIsDirectory file_path
  | NoFilename
  | NoNodeId file_path
  | NotUtf8
  | TxRefused tx_error
  | JournalRefused kernel_error
  | JournalProse nat
  | EventIdNotUuid
  | DuplicateEventIds
  | NoTransactions
  | ManyLedgers
  | DuplicateRequestId string
  | DuplicateTarget file_path
  | NoCachedWriter file_path
  | LostDescriptor string
  | AppendSyncFailed file_path
  | TransformRefused string
  | ReservedReplay
  | RequestIdReuse string
  | NoMutationIdOnRecord string
  | PendingLacksEvent
  | ConflictingReplay
  | CommittedSyncUncertain bool writer_error
  | NoMutationIdentity
  | UsedOutsideMulti string
  | NoCachedResults
  | ClaimHeldElsewhere string string string
  | ClaimsUnreadable
  | SessionRefused session_error
  | SessionPathChanged
  | SessionFileChanged
  | AlreadyLeased file_path
  | ShutDownUnderLease file_path
  | CommentNotFound string
  | NotAComment string
  | CommentAuthorshipForbidden string
  | CommentConflict string
  | EntryExists string
  | ReplayUnreadable
  | OutsideRoots

type_synonym 'a fs = "writer_world \<Rightarrow> (writer_error + 'a) \<times> writer_world"

definition fs_ok :: "'a \<Rightarrow> 'a fs" where
  "fs_ok x w = (Inr x, w)"

definition fs_err :: "writer_error \<Rightarrow> 'a fs" where
  "fs_err e w = (Inl e, w)"

text \<open>The question mark, and a result that is not propagated.\<close>

definition fs_bind :: "'a fs \<Rightarrow> ('a \<Rightarrow> 'b fs) \<Rightarrow> 'b fs" where
  "fs_bind m f w = (case m w of (Inl e, w') \<Rightarrow> (Inl e, w') | (Inr x, w') \<Rightarrow> f x w')"

definition fs_try :: "'a fs \<Rightarrow> (writer_error + 'a \<Rightarrow> 'b fs) \<Rightarrow> 'b fs" where
  "fs_try m f w = (case m w of (r, w') \<Rightarrow> f r w')"

definition fs_lift :: "writer_error + 'a \<Rightarrow> 'a fs" where
  "fs_lift r w = (r, w)"

definition next_fault :: "call_class \<Rightarrow> writer_world \<Rightarrow> nat option \<times> writer_world" where
  "next_fault c w =
     (case ww_faults w c of
        [] \<Rightarrow> (None, w)
      | f # fs \<Rightarrow> (f, w\<lparr>ww_faults := (ww_faults w)(c := fs)\<rparr>))"

definition fs_call :: "call_class \<Rightarrow> 'a fs \<Rightarrow> 'a fs" where
  "fs_call c act w =
     (case next_fault c w of (None, w') \<Rightarrow> act w' | (Some _, w') \<Rightarrow> (Inl CallFailed, w'))"

text \<open>A write adds bytes at the end of an inode: the descriptors written through are fresh or opened to
  append.\<close>

definition write_all :: "nat \<Rightarrow> string \<Rightarrow> unit fs" where
  "write_all i bytes w =
     (case next_fault Work w of
        (None, w') \<Rightarrow> (Inr (), w'\<lparr>ww_bytes := (ww_bytes w')(i := ww_bytes w' i @ bytes)\<rparr>)
      | (Some n, w') \<Rightarrow> (Inl CallFailed, w'\<lparr>ww_bytes := (ww_bytes w')(i := ww_bytes w' i @ take n bytes)\<rparr>))"

section \<open>System calls\<close>

definition path_look :: "writer_world \<Rightarrow> file_path \<Rightarrow> string option" where
  "path_look w p = map_option (ww_bytes w) (ww_names w p)"

definition new_inode :: "file_path \<Rightarrow> nat fs" where
  "new_inode p w =
     (Inr (ww_next w), w\<lparr>ww_names := (ww_names w)(p \<mapsto> ww_next w),
        ww_bytes := (ww_bytes w)(ww_next w := []), ww_next := ww_next w + 1\<rparr>)"

definition creatable :: "file_path \<Rightarrow> writer_world \<Rightarrow> writer_error + unit" where
  "creatable p w =
     (if p \<in> ww_dirs w then Inl IsADirectory
      else case path_parent p of
          None \<Rightarrow> Inl IsADirectory
        | Some parent \<Rightarrow> if parent \<in> ww_dirs w then Inr () else Inl NoSuchFile)"

definition open_there :: "file_path \<Rightarrow> nat fs" where
  "open_there p = fs_call Work (\<lambda>w.
     (case ww_names w p of
        Some i \<Rightarrow> Inr i
      | None \<Rightarrow> Inl (if p \<in> ww_dirs w then IsADirectory else NoSuchFile), w))"

definition open_create :: "file_path \<Rightarrow> nat fs" where
  "open_create p = fs_call Work (\<lambda>w.
     case ww_names w p of
       Some i \<Rightarrow> (Inr i, w)
     | None \<Rightarrow> (case creatable p w of Inl e \<Rightarrow> (Inl e, w) | Inr _ \<Rightarrow> new_inode p w))"

definition open_new :: "file_path \<Rightarrow> nat fs" where
  "open_new p = fs_call Work (\<lambda>w.
     case ww_names w p of
       Some i \<Rightarrow> (Inl FileExists, w)
     | None \<Rightarrow>
         (if p \<in> ww_dirs w then (Inl FileExists, w)
          else case creatable p w of Inl e \<Rightarrow> (Inl e, w) | Inr _ \<Rightarrow> new_inode p w))"

definition truncate_to_empty :: "nat \<Rightarrow> writer_world \<Rightarrow> writer_world" where
  "truncate_to_empty i w = w\<lparr>ww_bytes := (ww_bytes w)(i := [])\<rparr>"

text \<open>\<open>std::fs::write\<close>.\<close>

definition write_whole :: "file_path \<Rightarrow> string \<Rightarrow> unit fs" where
  "write_whole p bytes =
     fs_bind (open_create p) (\<lambda>i w. write_all i bytes (truncate_to_empty i w))"

text \<open>Directories are made down to the path; a file on the way is an error.\<close>

definition create_dir_all :: "file_path \<Rightarrow> unit fs" where
  "create_dir_all p = fs_call Work (\<lambda>w.
     if \<exists>n \<in> set [0..<Suc (length p)]. ww_names w (take n p) \<noteq> None then (Inl NotADirectory, w)
     else (Inr (), w\<lparr>ww_dirs := (\<lambda>n. take n p) ` set [0..<Suc (length p)] \<union> ww_dirs w\<rparr>))"

definition create_parent :: "file_path \<Rightarrow> unit fs" where
  "create_parent p = (case path_parent p of None \<Rightarrow> fs_ok () | Some parent \<Rightarrow> create_dir_all parent)"

definition sync_inode :: "unit fs" where
  "sync_inode = fs_call Work (fs_ok ())"

definition lock_exclusive :: "unit fs" where
  "lock_exclusive = fs_call Work (fs_ok ())"

definition read_path :: "file_path \<Rightarrow> string fs" where
  "read_path p = fs_call Work (\<lambda>w. (case path_look w p of None \<Rightarrow> Inl NoSuchFile | Some s \<Rightarrow> Inr s, w))"

definition read_to_string :: "file_path \<Rightarrow> string fs" where
  "read_to_string p = fs_bind (read_path p) (\<lambda>s. if utf8_ok s then fs_ok s else fs_err NotUtf8)"

definition rename_path :: "call_class \<Rightarrow> file_path \<Rightarrow> file_path \<Rightarrow> unit fs" where
  "rename_path c a b = fs_call c (\<lambda>w.
     case ww_names w a of
       None \<Rightarrow> (Inl NoSuchFile, w)
     | Some i \<Rightarrow>
         (if b \<in> ww_dirs w then (Inl IsADirectory, w)
          else if a = b then (Inr (), w)
          else (Inr (), w\<lparr>ww_names := (ww_names w)(a := None, b \<mapsto> i)\<rparr>)))"

definition remove_path :: "call_class \<Rightarrow> file_path \<Rightarrow> unit fs" where
  "remove_path c p = fs_call c (\<lambda>w.
     case ww_names w p of
       None \<Rightarrow> (Inl NoSuchFile, w)
     | Some i \<Rightarrow> (Inr (), w\<lparr>ww_names := (ww_names w)(p := None)\<rparr>))"

text \<open>\<open>Path::exists\<close> and \<open>Path::is_dir\<close> answer no when the call fails.\<close>

definition path_exists :: "file_path \<Rightarrow> bool fs" where
  "path_exists p w =
     (case next_fault Look w of
        (None, w') \<Rightarrow> (Inr (ww_names w' p \<noteq> None \<or> p \<in> ww_dirs w'), w')
      | (Some _, w') \<Rightarrow> (Inr False, w'))"

definition path_is_dir :: "file_path \<Rightarrow> bool fs" where
  "path_is_dir p w =
     (case next_fault Look w of
        (None, w') \<Rightarrow> (Inr (p \<in> ww_dirs w'), w')
      | (Some _, w') \<Rightarrow> (Inr False, w'))"

text \<open>The inode behind a path.\<close>

definition file_identity :: "call_class \<Rightarrow> file_path \<Rightarrow> nat fs" where
  "file_identity c p = fs_call c (\<lambda>w. (case ww_names w p of None \<Rightarrow> Inl NoSuchFile | Some i \<Rightarrow> Inr i, w))"

section \<open>Requests and answers\<close>

datatype tx_id_policy = Preserve | ProjectSequence string string

record tx_append =
  ta_tx_path :: file_path
  ta_entry :: tx_entry
  ta_project_id :: "string option"
  ta_tx_id_policy :: tx_id_policy
  ta_request_id :: "string option"

record tx_append_result =
  ar_tx_id :: string
  ar_tx_path :: file_path

record file_rewrite =
  fr_path :: file_path
  fr_new_contents :: string

record file_mutate =
  fm_path :: file_path
  fm_transform :: "string \<Rightarrow> writer_error + string"

text \<open>Fresh identifiers, by how many were drawn before, and \<open>Uuid::parse_str\<close>.\<close>

record uuid_source =
  us_fresh :: "nat \<Rightarrow> string"
  us_parse :: "string \<Rightarrow> bool"

definition new_v4 :: "uuid_source \<Rightarrow> string fs" where
  "new_v4 us w = (Inr (us_fresh us (ww_drawn w)), w\<lparr>ww_drawn := ww_drawn w + 1\<rparr>)"

section \<open>Entries\<close>

definition event_id :: "tx_entry \<Rightarrow> string" where
  "event_id e =
     (case find (\<lambda>(key, _). key = ''EVENT_ID'') (tx_extra e) of Some (_, v) \<Rightarrow> v | None \<Rightarrow> tx_id e)"

fun unescape_property_value :: "string \<Rightarrow> string" where
  "unescape_property_value [] = []"
| "unescape_property_value [c] = [c]"
| "unescape_property_value (c # d # s) =
     (if c = CHR 0x5C \<and> d = CHR ''n'' then LF # unescape_property_value s
      else if c = CHR 0x5C \<and> d = CHR 0x5C then CHR 0x5C # unescape_property_value s
      else c # unescape_property_value (d # s))"

definition journal_entry_of :: "tx_entry \<Rightarrow> journal_entry" where
  "journal_entry_of e =
     \<lparr>je_id = tx_id e, je_time = tx_time e, je_ty = tx_ty e, je_actor = tx_actor e, je_machine = tx_machine e,
      je_extras =
        opt_prop ''PROJECT'' (tx_project e) @ opt_prop ''TASK'' (tx_task e) @
        opt_prop ''TARGET'' (tx_target e) @ opt_prop ''REASON'' (tx_reason e) @
        filter (\<lambda>(key, _). key \<noteq> ''BODY'') (tx_extra e),
      je_body =
        (case find (\<lambda>(key, _). key = ''BODY'') (tx_extra e) of
           Some (_, v) \<Rightarrow> unescape_property_value v | None \<Rightarrow> [])\<rparr>"

definition project_tx_slug :: "string \<Rightarrow> string" where
  "project_tx_slug project_id =
     (let slug = filter (\<lambda>c. is_ascii_alphanumeric c \<or> c = CHR ''_'') (hd (split_on CHR ''-'' project_id))
      in if slug = [] then ''proj'' else slug)"

definition prepare_tx_entry :: "uuid_source \<Rightarrow> tx_append \<Rightarrow> tx_entry fs" where
  "prepare_tx_entry us req =
     fs_bind
       (case ta_tx_id_policy req of
          Preserve \<Rightarrow> fs_ok (ta_entry req)
        | ProjectSequence project date \<Rightarrow>
            fs_bind (new_v4 us) (\<lambda>uuid. fs_ok ((ta_entry req)\<lparr>tx_id :=
              ''tx-'' @ date @ ''-'' @ project_tx_slug project @ ''-'' @ uuid\<rparr>)))
       (\<lambda>entry.
         case map snd (filter (\<lambda>(key, _). key = ''EVENT_ID'') (tx_extra entry)) of
           [] \<Rightarrow> fs_bind (new_v4 us) (\<lambda>uuid. fs_ok (entry\<lparr>tx_extra := tx_extra entry @ [(''EVENT_ID'', uuid)]\<rparr>))
         | [i] \<Rightarrow> if us_parse us i then fs_ok entry else fs_err EventIdNotUuid
         | _ \<Rightarrow> fs_err DuplicateEventIds)"

text \<open>The first line of the body that opens a heading, counted from one.\<close>

definition reject_journal_prose :: "string \<Rightarrow> writer_error + unit" where
  "reject_journal_prose body =
     (case find (\<lambda>(_, l). starts_with l ''* '') (enumerate 0 (str_lines body)) of
        Some (n, _) \<Rightarrow> Inl (JournalProse (n + 1))
      | None \<Rightarrow> Inr ())"

section \<open>Ledgers\<close>

definition is_journal_path :: "file_path \<Rightarrow> bool" where
  "is_journal_path p \<longleftrightarrow> path_file_name p = Some ''journal.org''"

definition path_display :: "file_path \<Rightarrow> string" where
  "path_display p =
     (case p of [] \<Rightarrow> [] | c # cs \<Rightarrow> if c = ''/'' then ''/'' @ join ''/'' cs else join ''/'' p)"

text \<open>\<open>Path::file_stem\<close>: a leading dot does not start an extension.\<close>

definition file_stem :: "file_path \<Rightarrow> string option" where
  "file_stem p =
     (case path_file_name p of
        None \<Rightarrow> None
      | Some name \<Rightarrow> (case rsplit_once CHR ''.'' name of
            None \<Rightarrow> Some name
          | Some (stem, _) \<Rightarrow> Some (if stem = [] then name else stem)))"

definition read_event_ids :: "file_path \<Rightarrow> (string \<times> string) list fs" where
  "read_event_ids p =
     fs_bind (read_to_string p) (\<lambda>source. fs_lift (
       map_sum id (\<lambda>kvs. fold (\<lambda>(k, v). bt_insert k v) kvs [])
         (if is_journal_path p then
            map_sum JournalRefused (map (\<lambda>e. (case je_extra e ''EVENT_ID'' of Some v \<Rightarrow> v | None \<Rightarrow> je_id e, je_id e)))
              (parse_journal source (path_display p))
          else map_sum TxRefused (map (\<lambda>e. (event_id e, tx_id e))) (parse_tx_file source (path_display p)))))"

text \<open>\<open>TxWriter::open\<close> with its calls: a length that cannot be read counts as no length.\<close>

definition tx_writer_open :: "file_path \<Rightarrow> (nat \<times> ledger_kind) fs" where
  "tx_writer_open p =
     fs_try (fs_call Look (\<lambda>w. (case path_look w p of None \<Rightarrow> Inl NoSuchFile | Some s \<Rightarrow> Inr (length s), w)))
       (\<lambda>len.
         let existed = (case len of Inl _ \<Rightarrow> False | Inr n \<Rightarrow> 0 < n)
         in fs_bind (if existed then fs_bind (read_path p) (\<lambda>s. fs_ok (\<not> file_ends_with_blank_line s)) else fs_ok False)
              (\<lambda>blank. fs_bind (open_create p) (\<lambda>i.
                 fs_bind
                   (if existed then fs_ok ()
                    else write_all i (tw_bytes (tx_open (case file_stem p of Some s \<Rightarrow> s | None \<Rightarrow> ''tx'') [])))
                   (\<lambda>_. fs_ok (i, LedgerTx blank)))))"

definition journal_open :: "file_path \<Rightarrow> (nat \<times> ledger_kind) fs" where
  "journal_open p =
     fs_bind (create_parent p) (\<lambda>_. fs_bind (open_create p) (\<lambda>i.
     fs_bind (fs_call Work (\<lambda>w. (Inr (length (ww_bytes w i)), w))) (\<lambda>len.
     fs_bind
       (if len = 0 then
          (case Option.bind (path_parent p) path_file_name of
             None \<Rightarrow> fs_err (NoNodeId p)
           | Some node_id \<Rightarrow> write_all i (journal_header node_id))
        else fs_ok ())
       (\<lambda>_. fs_ok (i, LedgerJournal)))))"

definition cached_open :: "file_path \<Rightarrow> cached_tx_writer fs" where
  "cached_open p =
     fs_bind (if is_journal_path p then journal_open p else tx_writer_open p) (\<lambda>(i, kind).
     fs_bind (file_identity Work p) (\<lambda>identity.
     fs_bind (read_event_ids p) (\<lambda>ids.
       fs_ok \<lparr>lh_kind = kind, lh_inode = i, lh_identity = identity, lh_event_ids = ids\<rparr>)))"

text \<open>The handle of a path is kept in the world; a handle that is not there is opened.\<close>

definition set_handle :: "file_path \<Rightarrow> cached_tx_writer \<Rightarrow> writer_world \<Rightarrow> writer_world" where
  "set_handle p h w = w\<lparr>ww_handles := (ww_handles w)(p \<mapsto> h)\<rparr>"

definition handle_of :: "file_path \<Rightarrow> cached_tx_writer fs" where
  "handle_of p w =
     (case ww_handles w p of
        Some h \<Rightarrow> (Inr h, w)
      | None \<Rightarrow> fs_bind (cached_open p) (\<lambda>h w. (Inr h, set_handle p h w)) w)"

definition set_ledger :: "file_path \<Rightarrow> cached_tx_writer \<Rightarrow> string \<Rightarrow> writer_world \<Rightarrow> writer_world" where
  "set_ledger p h bytes w =
     (set_handle p h w)\<lparr>ww_bytes := (ww_bytes w)(lh_inode h := bytes)\<rparr>"

text \<open>The write of one entry that is not in the file yet.\<close>

definition ledger_write :: "file_path \<Rightarrow> cached_tx_writer \<Rightarrow> tx_entry \<Rightarrow> cached_tx_writer fs" where
  "ledger_write p h e w =
     (case lh_kind h of
        LedgerTx blank \<Rightarrow>
          (case render_checked [e] of
             Inl err \<Rightarrow> (Inl (TxRefused err), w)
           | Inr _ \<Rightarrow>
               (case next_fault Work w of (fault, w') \<Rightarrow>
                  (case append_one (case fault of None \<Rightarrow> Wrote | Some n \<Rightarrow> WriteFailed n) e
                          \<lparr>tw_bytes = ww_bytes w' (lh_inode h), tw_needs_leading_blank = blank\<rparr> of
                     (r, tw) \<Rightarrow>
                       (let h' = h\<lparr>lh_kind := LedgerTx (tw_needs_leading_blank tw)\<rparr>
                        in (map_sum TxRefused (\<lambda>_. h') r, set_ledger p h' (tw_bytes tw) w')))))
      | LedgerJournal \<Rightarrow>
          (let entry = journal_entry_of e
           in fs_bind (fs_lift (map_sum JournalRefused id (je_validate entry))) (\<lambda>_.
              fs_bind (fs_lift (reject_journal_prose (je_body entry))) (\<lambda>_.
              fs_bind (write_all (lh_inode h) (journal_entry_block entry)) (\<lambda>_. fs_ok h))) w))"

definition ledger_append :: "file_path \<Rightarrow> tx_entry \<Rightarrow> string fs" where
  "ledger_append p e w =
     (case ww_handles w p of
        None \<Rightarrow> (Inl (NoCachedWriter p), w)
      | Some h \<Rightarrow>
          (case bt_get (lh_event_ids h) (event_id e) of
             Some existing \<Rightarrow> (Inr existing, w)
           | None \<Rightarrow>
               fs_bind (ledger_write p h e) (\<lambda>h' w.
                 (Inr (tx_id e), set_handle p (h'\<lparr>lh_event_ids := bt_insert (event_id e) (tx_id e) (lh_event_ids h')\<rparr>) w))
                 w))"

fun ledger_append_many :: "file_path \<Rightarrow> tx_entry list \<Rightarrow> string list fs" where
  "ledger_append_many p [] = fs_ok []"
| "ledger_append_many p (e # es) =
     fs_bind (ledger_append p e) (\<lambda>i. fs_bind (ledger_append_many p es) (\<lambda>is. fs_ok (i # is)))"

text \<open>Handles whose path names another file by now, or cannot be looked up, are dropped.\<close>

definition path_still_names_writer :: "file_path \<Rightarrow> cached_tx_writer \<Rightarrow> bool fs" where
  "path_still_names_writer p h =
     fs_try (file_identity Look p) (\<lambda>r. fs_ok (case r of Inl _ \<Rightarrow> False | Inr i \<Rightarrow> i = lh_identity h))"

fun tx_handles_detached_from_paths :: "file_path list \<Rightarrow> unit fs" where
  "tx_handles_detached_from_paths [] w = (Inr (), w)"
| "tx_handles_detached_from_paths (p # ps) w =
     (case ww_handles w p of
        None \<Rightarrow> tx_handles_detached_from_paths ps w
      | Some h \<Rightarrow>
          fs_bind (path_still_names_writer p h) (\<lambda>still w.
            tx_handles_detached_from_paths ps
              (if still then w else w\<lparr>ww_handles := (ww_handles w)(p := None)\<rparr>)) w)"

definition write_tx_append :: "file_path \<Rightarrow> tx_entry \<Rightarrow> tx_append_result fs" where
  "write_tx_append p e =
     fs_bind (create_parent p) (\<lambda>_. fs_bind (handle_of p) (\<lambda>_. fs_bind (ledger_append p e) (\<lambda>i.
       fs_ok \<lparr>ar_tx_id = i, ar_tx_path = p\<rparr>)))"

definition sync_tx_writer :: "file_path \<Rightarrow> unit fs" where
  "sync_tx_writer p w =
     (case ww_handles w p of None \<Rightarrow> (Inl (NoCachedWriter p), w) | Some _ \<Rightarrow> sync_inode w)"

definition sync_committed_tx :: "tx_append_result \<Rightarrow> unit fs" where
  "sync_committed_tx result w =
     (if (case ww_handles w (ar_tx_path result) of
            None \<Rightarrow> False | Some h \<Rightarrow> ar_tx_id result \<in> set (map snd (lh_event_ids h)))
      then sync_tx_writer (ar_tx_path result) w
      else (Inl (LostDescriptor (ar_tx_id result)), w))"

fun prepare_all :: "uuid_source \<Rightarrow> tx_append list \<Rightarrow> tx_entry list fs" where
  "prepare_all us [] = fs_ok []"
| "prepare_all us (r # rs) =
     fs_bind (prepare_tx_entry us r) (\<lambda>e. fs_bind (prepare_all us rs) (\<lambda>es. fs_ok (e # es)))"

definition append_txs_inner :: "uuid_source \<Rightarrow> tx_append list \<Rightarrow> tx_append_result list fs" where
  "append_txs_inner us reqs =
     (case reqs of
        [] \<Rightarrow> fs_err NoTransactions
      | first # _ \<Rightarrow>
          (let p = ta_tx_path first
           in if list_ex (\<lambda>r. ta_tx_path r \<noteq> p) reqs then fs_err ManyLedgers
              else
                fs_bind (tx_handles_detached_from_paths [p]) (\<lambda>_.
                fs_bind (prepare_all us reqs) (\<lambda>entries.
                fs_bind (create_parent p) (\<lambda>_.
                fs_bind (handle_of p) (\<lambda>_.
                fs_bind (ledger_append_many p entries) (\<lambda>ids.
                  fs_ok (map (\<lambda>i. \<lparr>ar_tx_id = i, ar_tx_path = p\<rparr>) ids))))))))"

text \<open>A batch of single appends: every request is answered, then every ledger is synced once.\<close>

fun batch_appends :: "uuid_source \<Rightarrow> tx_append list \<Rightarrow> writer_world \<Rightarrow> (tx_append \<times> (writer_error + tx_append_result)) list \<times> writer_world" where
  "batch_appends us [] w = ([], w)"
| "batch_appends us (req # reqs) w =
     (case fs_bind (prepare_tx_entry us req) (write_tx_append (ta_tx_path req)) w of
        (r, w') \<Rightarrow> (case batch_appends us reqs w' of (rs, w'') \<Rightarrow> ((req, r) # rs, w'')))"

fun sync_failures :: "file_path list \<Rightarrow> writer_world \<Rightarrow> file_path list \<times> writer_world" where
  "sync_failures [] w = ([], w)"
| "sync_failures (p # ps) w =
     (case sync_tx_writer p w of (r, w') \<Rightarrow>
       (case sync_failures ps w' of (bad, w'') \<Rightarrow> (if is_ok r then bad else p # bad, w'')))"

definition process_tx_batch ::
  "uuid_source \<Rightarrow> tx_append list \<Rightarrow> writer_world \<Rightarrow> (tx_append \<times> (writer_error + tx_append_result)) list \<times> writer_world" where
  "process_tx_batch us batch w =
     (case tx_handles_detached_from_paths (remdups (map ta_tx_path batch)) w of (_, w1) \<Rightarrow>
     (case batch_appends us batch w1 of (done, w2) \<Rightarrow>
     (case sync_failures (remdups (map (ta_tx_path \<circ> fst) (filter (is_ok \<circ> snd) done))) w2 of (bad, w3) \<Rightarrow>
       (map (\<lambda>(req, r). (req, if is_ok r \<and> ta_tx_path req \<in> set bad then Inl (AppendSyncFailed (ta_tx_path req)) else r))
          done, w3))))"



section \<open>Rewriting one file\<close>

text \<open>A sibling of the path: its file name with something appended.\<close>

definition path_sibling :: "file_path \<Rightarrow> string \<Rightarrow> writer_error + file_path" where
  "path_sibling p ext =
     (case path_file_name p of None \<Rightarrow> Inl NoFilename | Some name \<Rightarrow> Inr (butlast p @ [name @ ext]))"

definition validate_rewrite_path :: "file_path \<Rightarrow> unit fs" where
  "validate_rewrite_path p = fs_bind (path_is_dir p) (\<lambda>dir. if dir then fs_err (TargetIsDirectory p) else fs_ok ())"

definition replace_file :: "file_path \<Rightarrow> string \<Rightarrow> unit fs" where
  "replace_file p contents =
     fs_bind (fs_lift (path_sibling p ''.tmp'')) (\<lambda>tmp.
     fs_bind (write_whole tmp contents) (\<lambda>_. rename_path Work tmp p))"

definition rewrite_file_inner :: "file_rewrite \<Rightarrow> unit fs" where
  "rewrite_file_inner req =
     fs_bind (create_parent (fr_path req)) (\<lambda>_.
     fs_bind (open_create (fr_path req)) (\<lambda>_.
     fs_bind lock_exclusive (\<lambda>_. replace_file (fr_path req) (fr_new_contents req))))"

definition mutate_file_inner :: "file_mutate \<Rightarrow> unit fs" where
  "mutate_file_inner req =
     fs_bind (validate_rewrite_path (fm_path req)) (\<lambda>_.
     fs_bind (create_parent (fm_path req)) (\<lambda>_.
     fs_bind (open_create (fm_path req)) (\<lambda>_.
     fs_bind lock_exclusive (\<lambda>_.
     fs_bind (read_to_string (fm_path req)) (\<lambda>source.
     fs_bind (fs_lift (fm_transform req source)) (\<lambda>contents. replace_file (fm_path req) contents))))))"

section \<open>Transactions\<close>

record staged_rewrite =
  sr_target :: file_path
  sr_tmp :: file_path
  sr_backup :: "file_path option"

datatype multi_transaction_commit =
    Committed "tx_append_result list"
  | CommitUncertain "tx_append_result list" writer_error

definition safe_request_id :: "string \<Rightarrow> string" where
  "safe_request_id request_id =
     concat (map (\<lambda>ch. case ch of
         [c] \<Rightarrow> if is_ascii_alphanumeric c \<or> c \<in> {CHR ''-'', CHR ''_'', CHR ''.''} then [c] else ''_''
       | _ \<Rightarrow> ''_'') (chars request_id))"

definition transaction_sidecar_path :: "file_path \<Rightarrow> string \<Rightarrow> string \<Rightarrow> writer_error + file_path" where
  "transaction_sidecar_path p kind request_id =
     path_sibling p (''.'' @ kind @ ''.'' @ safe_request_id request_id)"

definition transaction_tmp_path :: "file_path \<Rightarrow> string \<Rightarrow> writer_error + file_path" where
  "transaction_tmp_path p request_id = transaction_sidecar_path p ''tmp'' request_id"

definition transaction_backup_path :: "file_path \<Rightarrow> string \<Rightarrow> writer_error + file_path" where
  "transaction_backup_path p request_id = transaction_sidecar_path p ''bak'' request_id"

fun reject_duplicate_rewrites :: "file_path set \<Rightarrow> file_rewrite list \<Rightarrow> writer_error + unit" where
  "reject_duplicate_rewrites prior [] = Inr ()"
| "reject_duplicate_rewrites prior (r # rs) =
     (if fr_path r \<in> prior then Inl (DuplicateTarget (fr_path r))
      else reject_duplicate_rewrites (insert (fr_path r) prior) rs)"

fun reject_duplicate_request_ids :: "string set \<Rightarrow> tx_append list \<Rightarrow> writer_error + unit" where
  "reject_duplicate_request_ids seen [] = Inr ()"
| "reject_duplicate_request_ids seen (t # ts) =
     (case ta_request_id t of
        None \<Rightarrow> reject_duplicate_request_ids seen ts
      | Some i \<Rightarrow>
          if i \<in> seen then Inl (DuplicateRequestId i) else reject_duplicate_request_ids (insert i seen) ts)"

definition remove_transaction_sidecar :: "file_path \<Rightarrow> writer_world \<Rightarrow> writer_world" where
  "remove_transaction_sidecar p w = snd (remove_path Undo p w)"

definition remove_backup :: "staged_rewrite \<Rightarrow> writer_world \<Rightarrow> writer_world" where
  "remove_backup s w = (case sr_backup s of None \<Rightarrow> w | Some b \<Rightarrow> remove_transaction_sidecar b w)"

definition cleanup_staged_rewrites :: "staged_rewrite list \<Rightarrow> writer_world \<Rightarrow> writer_world" where
  "cleanup_staged_rewrites staged = fold (\<lambda>s w. remove_backup s (remove_transaction_sidecar (sr_tmp s) w)) staged"

definition cleanup_committed_backups :: "staged_rewrite list \<Rightarrow> writer_world \<Rightarrow> writer_world" where
  "cleanup_committed_backups staged = fold remove_backup staged"

definition rollback_one :: "staged_rewrite \<Rightarrow> writer_world \<Rightarrow> writer_world" where
  "rollback_one s w =
     (case sr_backup s of
        Some b \<Rightarrow> snd (rename_path Undo b (sr_target s) w)
      | None \<Rightarrow> remove_transaction_sidecar (sr_target s) w)"

text \<open>The renamed rewrites, latest first.\<close>

definition rollback_renamed_rewrites :: "staged_rewrite list \<Rightarrow> writer_world \<Rightarrow> writer_world" where
  "rollback_renamed_rewrites renamed = fold rollback_one (rev renamed)"

text \<open>New contents go to files beside the targets. What was staged is known even when a call fails.\<close>

definition stage_one :: "string \<Rightarrow> file_rewrite \<Rightarrow> writer_world \<Rightarrow> (writer_error + unit) \<times> staged_rewrite list \<times> writer_world" where
  "stage_one request_id r w =
     (case fs_bind (create_parent (fr_path r)) (\<lambda>_.
             fs_bind (fs_lift (transaction_tmp_path (fr_path r) request_id)) (\<lambda>tmp.
             fs_bind (open_new tmp) (\<lambda>i. fs_ok (tmp, i)))) w of
        (Inl e, w') \<Rightarrow> (Inl e, [], w')
      | (Inr (tmp, i), w') \<Rightarrow>
          (case fs_bind (write_all i (fr_new_contents r)) (\<lambda>_. sync_inode) w' of
             (r', w'') \<Rightarrow> (r', [\<lparr>sr_target = fr_path r, sr_tmp = tmp, sr_backup = None\<rparr>], w'')))"

fun stage_rewrites ::
  "string \<Rightarrow> file_rewrite list \<Rightarrow> writer_world \<Rightarrow> (writer_error + unit) \<times> staged_rewrite list \<times> writer_world" where
  "stage_rewrites request_id [] w = (Inr (), [], w)"
| "stage_rewrites request_id (r # rs) w =
     (case stage_one request_id r w of
        (Inl e, s, w') \<Rightarrow> (Inl e, s, w')
      | (Inr _, s, w') \<Rightarrow>
          (case stage_rewrites request_id rs w' of (r', s', w'') \<Rightarrow> (r', s @ s', w'')))"

text \<open>What the targets hold is copied aside. \<open>io::copy\<close> reads the target and writes the backup.\<close>

definition copy_contents :: "nat \<Rightarrow> nat \<Rightarrow> unit fs" where
  "copy_contents from to =
     fs_bind (fs_call Work (\<lambda>w. (Inr (ww_bytes w from), w))) (\<lambda>bytes. write_all to bytes)"

definition backup_one ::
  "string \<Rightarrow> staged_rewrite \<Rightarrow> writer_world \<Rightarrow> (writer_error + unit) \<times> staged_rewrite \<times> writer_world" where
  "backup_one request_id s w =
     (case fs_bind (path_exists (sr_target s)) (\<lambda>there.
             if \<not> there then fs_ok None
             else
               fs_bind (fs_lift (transaction_backup_path (sr_target s) request_id)) (\<lambda>backup.
               fs_bind (open_there (sr_target s)) (\<lambda>source.
               fs_bind (open_new backup) (\<lambda>i. fs_ok (Some (backup, source, i)))))) w of
        (Inl e, w') \<Rightarrow> (Inl e, s, w')
      | (Inr None, w') \<Rightarrow> (Inr (), s, w')
      | (Inr (Some (backup, source, i)), w') \<Rightarrow>
          (case fs_bind (copy_contents source i) (\<lambda>_. sync_inode) w' of
             (r, w'') \<Rightarrow> (r, s\<lparr>sr_backup := Some backup\<rparr>, w'')))"

fun backup_all ::
  "string \<Rightarrow> staged_rewrite list \<Rightarrow> writer_world \<Rightarrow> (writer_error + unit) \<times> staged_rewrite list \<times> writer_world" where
  "backup_all request_id [] w = (Inr (), [], w)"
| "backup_all request_id (s # ss) w =
     (case backup_one request_id s w of
        (Inl e, s', w') \<Rightarrow> (Inl e, s' # ss, w')
      | (Inr _, s', w') \<Rightarrow>
          (case backup_all request_id ss w' of (r, ss', w'') \<Rightarrow> (r, s' # ss', w'')))"

text \<open>The renames, with the list of those made so far; a failing one rolls them back.\<close>

fun rename_all :: "staged_rewrite list \<Rightarrow> staged_rewrite list \<Rightarrow> unit fs" where
  "rename_all renamed [] w = (Inr (), w)"
| "rename_all renamed (s # ss) w =
     (case rename_path Work (sr_tmp s) (sr_target s) w of
        (Inl e, w') \<Rightarrow> (Inl e, rollback_renamed_rewrites renamed w')
      | (Inr _, w') \<Rightarrow> rename_all (renamed @ [s]) ss w')"

definition commit_ledger :: "uuid_source \<Rightarrow> staged_rewrite list \<Rightarrow> tx_append list \<Rightarrow> multi_transaction_commit fs" where
  "commit_ledger us staged txs w =
     (case append_txs_inner us txs w of
        (Inl e, w') \<Rightarrow> (Inl e, rollback_renamed_rewrites staged w')
      | (Inr appended, w') \<Rightarrow>
          (case sync_tx_writer (ar_tx_path (hd appended)) w' of
             (Inl e, w'') \<Rightarrow> (Inr (CommitUncertain appended e), w'')
           | (Inr _, w'') \<Rightarrow> (Inr (Committed appended), w'')))"

text \<open>The body of a transaction: its result, what was staged, the world.\<close>

definition transaction_body ::
  "uuid_source \<Rightarrow> file_rewrite list \<Rightarrow> tx_append list \<Rightarrow> string \<Rightarrow> writer_error + unit \<Rightarrow> writer_world
    \<Rightarrow> (writer_error + multi_transaction_commit) \<times> staged_rewrite list \<times> writer_world" where
  "transaction_body us rewrites txs request_id verify w =
     (case stage_rewrites request_id rewrites w of
        (Inl e, staged, w1) \<Rightarrow> (Inl e, staged, w1)
      | (Inr _, staged, w1) \<Rightarrow>
          (case backup_all request_id staged w1 of
             (Inl e, staged', w2) \<Rightarrow> (Inl e, staged', w2)
           | (Inr _, staged', w2) \<Rightarrow>
               (case fs_bind (fs_lift verify) (\<lambda>_. fs_bind (rename_all [] staged') (\<lambda>_. commit_ledger us staged' txs)) w2 of
                  (r, w3) \<Rightarrow> (r, staged', w3))))"

definition transaction_multi_locked_inner ::
  "uuid_source \<Rightarrow> file_rewrite list \<Rightarrow> tx_append list \<Rightarrow> string \<Rightarrow> writer_error + unit \<Rightarrow> multi_transaction_commit fs" where
  "transaction_multi_locked_inner us rewrites txs request_id verify w =
     (case transaction_body us rewrites txs request_id verify w of
        (Inl e, staged, w') \<Rightarrow> (Inl e, cleanup_staged_rewrites staged w')
      | (Inr commit, staged, w') \<Rightarrow> (Inr commit, cleanup_committed_backups staged w'))"

definition transaction_locked_inner ::
  "uuid_source \<Rightarrow> file_rewrite list \<Rightarrow> tx_append \<Rightarrow> string \<Rightarrow> writer_error + unit \<Rightarrow> multi_transaction_commit fs" where
  "transaction_locked_inner us rewrites tx request_id verify =
     transaction_multi_locked_inner us rewrites [tx] request_id verify"

fun lock_targets :: "file_rewrite list \<Rightarrow> unit fs" where
  "lock_targets [] = fs_ok ()"
| "lock_targets (r # rs) =
     fs_bind (validate_rewrite_path (fr_path r)) (\<lambda>_. fs_bind (path_exists (fr_path r)) (\<lambda>there.
     fs_bind (if there then fs_bind (open_there (fr_path r)) (\<lambda>_. lock_exclusive) else fs_ok ()) (\<lambda>_. lock_targets rs)))"

definition transaction_multi_inner ::
  "uuid_source \<Rightarrow> file_rewrite list \<Rightarrow> tx_append list \<Rightarrow> string \<Rightarrow> writer_error + unit \<Rightarrow> multi_transaction_commit fs" where
  "transaction_multi_inner us rewrites txs request_id verify =
     (case txs of
        [] \<Rightarrow> fs_err NoTransactions
      | tx # _ \<Rightarrow>
          if list_ex (\<lambda>t. ta_tx_path t \<noteq> ta_tx_path tx) txs then fs_err ManyLedgers
          else
            fs_bind (fs_lift (reject_duplicate_request_ids {} txs)) (\<lambda>_.
            fs_bind (fs_lift (reject_duplicate_rewrites {} rewrites)) (\<lambda>_.
            fs_bind (lock_targets rewrites) (\<lambda>_.
              transaction_multi_locked_inner us rewrites txs request_id verify))))"

definition transaction_inner ::
  "uuid_source \<Rightarrow> file_rewrite list \<Rightarrow> tx_append \<Rightarrow> string \<Rightarrow> writer_error + unit \<Rightarrow> multi_transaction_commit fs" where
  "transaction_inner us rewrites tx request_id verify = transaction_multi_inner us rewrites [tx] request_id verify"

definition transaction_mutate_file_inner ::
  "uuid_source \<Rightarrow> file_mutate \<Rightarrow> tx_append \<Rightarrow> string \<Rightarrow> multi_transaction_commit fs" where
  "transaction_mutate_file_inner us req tx request_id =
     fs_bind (validate_rewrite_path (fm_path req)) (\<lambda>_.
     fs_bind (create_parent (fm_path req)) (\<lambda>_.
     fs_bind (open_create (fm_path req)) (\<lambda>_.
     fs_bind lock_exclusive (\<lambda>_.
     fs_bind (read_to_string (fm_path req)) (\<lambda>source.
     fs_bind (fs_lift (fm_transform req source)) (\<lambda>contents.
       transaction_locked_inner us [\<lparr>fr_path = fm_path req, fr_new_contents = contents\<rparr>] tx request_id (Inr ())))))))"

end
