(* ===== verification/Writer_Actor.thy ===== *)
theory Writer_Actor
  imports Writer_Files
begin

text \<open>
  The writer task of \<open>crates/orgasmic-daemon/src/writer.rs\<close>: one command after the other, with the cache of
  answers that makes a request id safe to send again, the events it publishes, the session logs it keeps
  open, and the leases that hold back appends to a session while maintenance replaces its file. A
  command is a step from an actor to an actor; what \<open>reply.send\<close> gives is the result. A batch of
  single appends, which the loop collects from the queue, is one command. What is only reported
  (the write in flight, durations, counters) is not part of the actor.
\<close>

section \<open>Identities and cached answers\<close>

record mutation_identity =
  mi_operation :: string
  mi_project_id :: string
  mi_payload_sha256 :: string

text \<open>SHA-256 in hexadecimal, the JSON and the clock of the session logs are arguments.\<close>

record writer_env =
  we_uuids :: uuid_source
  we_sha256 :: "string \<Rightarrow> string"
  we_json :: "json \<Rightarrow> string"
  we_now :: string
  we_parse :: "string \<Rightarrow> session_envelope option"
  we_to_line :: "session_envelope \<Rightarrow> string option"

definition identity_new :: "writer_env \<Rightarrow> string \<Rightarrow> string \<Rightarrow> string \<Rightarrow> mutation_identity" where
  "identity_new env operation project payload =
     \<lparr>mi_operation = operation, mi_project_id = project, mi_payload_sha256 = we_sha256 env payload\<rparr>"

record cached_mutation =
  cm_tx_id :: string
  cm_mutation_id :: string

datatype event_payload =
    TxAppended "string option" string string
  | RunEvent string "64 word"
  | RunLifecycle string string

datatype transaction_durability = Durable | SyncUncertain

record cached_tx =
  ct_result :: tx_append_result
  ct_mutation :: "mutation_identity option"
  ct_mutation_id :: "string option"
  ct_written_paths :: "file_path list"
  ct_event :: "event_payload option"
  ct_durability :: transaction_durability

datatype cached_response =
    CachedTx cached_tx
  | CachedMulti "tx_append_result list" mutation_identity transaction_durability
  | CachedRewrite

type_synonym response_cache = "string \<Rightarrow> cached_response option"

definition reject_supplied_replay :: "tx_append \<Rightarrow> writer_error + unit" where
  "reject_supplied_replay tx =
     (if list_ex (\<lambda>(key, _). starts_with (to_ascii_uppercase key) ''REQUEST_REPLAY_'') (tx_extra (ta_entry tx))
      then Inl ReservedReplay else Inr ())"

definition cached_mutation_from_map ::
  "response_cache \<Rightarrow> string \<Rightarrow> mutation_identity \<Rightarrow> writer_error + cached_mutation option" where
  "cached_mutation_from_map cache request_id expected =
     (case cache request_id of
        None \<Rightarrow> Inr None
      | Some (CachedTx c) \<Rightarrow>
          if ct_mutation c \<noteq> Some expected then Inl (RequestIdReuse request_id)
          else (case ct_mutation_id c of
              None \<Rightarrow> Inl (NoMutationIdOnRecord request_id)
            | Some mutation_id \<Rightarrow>
                if ct_durability c = SyncUncertain then Inr None
                else Inr (Some \<lparr>cm_tx_id = ar_tx_id (ct_result c), cm_mutation_id = mutation_id\<rparr>))
      | Some _ \<Rightarrow> Inl (RequestIdReuse request_id))"

definition cached_transaction_from_map ::
  "response_cache \<Rightarrow> string \<Rightarrow> mutation_identity \<Rightarrow> writer_error + tx_append_result option" where
  "cached_transaction_from_map cache request_id expected =
     (case cache request_id of
        None \<Rightarrow> Inr None
      | Some (CachedTx c) \<Rightarrow>
          if ct_mutation c \<noteq> Some expected then Inl (RequestIdReuse request_id)
          else if ct_durability c = SyncUncertain then Inr None
          else Inr (Some (ct_result c))
      | Some _ \<Rightarrow> Inl (RequestIdReuse request_id))"

definition multi_cache_key :: "string \<Rightarrow> string" where
  "multi_cache_key request_id = ''transaction-multi:'' @ request_id"

definition cached_multi_from_map ::
  "response_cache \<Rightarrow> string \<Rightarrow> string \<Rightarrow> mutation_identity
    \<Rightarrow> writer_error + (tx_append_result list \<times> transaction_durability) option" where
  "cached_multi_from_map cache cache_key request_id expected =
     (case cache cache_key of
        None \<Rightarrow> Inr None
      | Some (CachedMulti results mutation durability) \<Rightarrow>
          if mutation \<noteq> expected then Inl (RequestIdReuse request_id) else Inr (Some (results, durability))
      | Some _ \<Rightarrow> Inl (RequestIdReuse request_id))"

text \<open>The event is compared as its JSON text, which determines it.\<close>

definition validate_recovered_replay :: "cached_response \<Rightarrow> cached_response \<Rightarrow> writer_error + unit" where
  "validate_recovered_replay prior recovered =
     (case (prior, recovered) of
        (CachedTx a, CachedTx b) \<Rightarrow>
          if ar_tx_id (ct_result a) = ar_tx_id (ct_result b) \<and> ct_mutation a = ct_mutation b \<and>
             ct_mutation_id a = ct_mutation_id b \<and> ct_written_paths a = ct_written_paths b \<and> ct_event a = ct_event b
          then Inr () else Inl ConflictingReplay
      | _ \<Rightarrow> Inl ConflictingReplay)"

text \<open>\<open>{:?}\<close> of a byte slice.\<close>

definition debug_bytes :: "string \<Rightarrow> string" where
  "debug_bytes bytes = ''['' @ join '', '' (map (show_nat \<circ> byte) bytes) @ '']''"

definition transaction_identity :: "writer_env \<Rightarrow> tx_append \<Rightarrow> file_rewrite list \<Rightarrow> mutation_identity" where
  "transaction_identity env tx rewrites =
     identity_new env (tx_ty (ta_entry tx)) (case ta_project_id tx of None \<Rightarrow> ''<none>'' | Some p \<Rightarrow> p)
       (join ''|'' (map (\<lambda>r. path_display (fr_path r) @ '':'' @ debug_bytes (fr_new_contents r)) rewrites))"

definition json_of_option :: "string option \<Rightarrow> json" where
  "json_of_option v = (case v of None \<Rightarrow> JNull | Some s \<Rightarrow> JString s)"

definition json_of_policy :: "tx_id_policy \<Rightarrow> json" where
  "json_of_policy policy =
     (case policy of
        Preserve \<Rightarrow> JString ''Preserve''
      | ProjectSequence project date \<Rightarrow>
          JObject [(''ProjectSequence'', JObject [(''date'', JString date), (''project_id'', JString project)])])"

definition json_of_append :: "tx_append \<Rightarrow> json" where
  "json_of_append tx =
     (let e = ta_entry tx in JObject
       [(''actor'', JString (tx_actor e)),
        (''extra'', JArray (map (\<lambda>(k, v). JArray [JString k, JString v])
           (filter (\<lambda>(key, _). key \<noteq> ''EVENT_ID'') (tx_extra e)))),
        (''machine'', JString (tx_machine e)), (''project'', json_of_option (tx_project e)),
        (''project_id'', json_of_option (ta_project_id tx)), (''reason'', json_of_option (tx_reason e)),
        (''request_id'', json_of_option (ta_request_id tx)), (''target'', json_of_option (tx_target e)),
        (''task'', json_of_option (tx_task e)), (''tx_id_policy'', json_of_policy (ta_tx_id_policy tx)),
        (''tx_path'', JString (path_display (ta_tx_path tx))), (''type'', JString (tx_ty e))])"

definition multi_transaction_identity :: "writer_env \<Rightarrow> tx_append list \<Rightarrow> file_rewrite list \<Rightarrow> mutation_identity" where
  "multi_transaction_identity env txs rewrites =
     identity_new env ''transaction_multi'' (join ''+'' (concat (map (\<lambda>t. case ta_project_id t of None \<Rightarrow> [] | Some p \<Rightarrow> [p]) txs)))
       (we_json env (JObject
         [(''rewrites'', JArray (map (\<lambda>r. JObject
             [(''contents'', JArray (map (\<lambda>c. JNumber (show_nat (byte c))) (fr_new_contents r))),
              (''path'', JString (path_display (fr_path r)))]) rewrites)),
          (''txs'', JArray (map json_of_append txs))]))"

section \<open>The actor\<close>

text \<open>An append to a session and the channel its answer goes to. The file a run was authorized on may
  be handed over with it: its path and its inode.\<close>

record session_file_authority =
  au_path :: file_path
  au_inode :: nat

record session_append =
  sa_run_id :: string
  sa_session_path :: file_path
  sa_identity :: runtime_identity
  sa_authority :: "session_file_authority option"
  sa_kind :: session_event_kind
  sa_event :: json
  sa_reply :: nat

record session_handle =
  sh_path :: file_path
  sh_inode :: nat
  sh_writer :: session_writer

record transaction_request =
  tr_rewrites :: "file_rewrite list"
  tr_tx :: tx_append
  tr_request_id :: string
  tr_mutation :: "mutation_identity option"
  tr_mutation_id :: "string option"

record transaction_multi_request =
  tm_rewrites :: "file_rewrite list"
  tm_txs :: "tx_append list"
  tm_request_id :: string
  tm_mutation :: mutation_identity

record transaction_mutate_request =
  tu_file :: file_mutate
  tu_tx :: tx_append
  tu_request_id :: string
  tu_mutation :: mutation_identity
  tu_mutation_id :: "string option"

datatype writer_command =
    CmdTx "tx_append list"
  | CmdSession session_append
  | CmdRewrite file_rewrite
  | CmdMutate file_mutate
  | CmdTransaction transaction_request
  | CmdTransactionMulti transaction_multi_request
  | CmdTransactionMutate transaction_mutate_request
  | CmdRecoverMutation string mutation_identity
  | CmdLeaseSessions "file_path list"
  | CmdReleaseSessions "file_path list"
  | CmdBarrier
  | CmdShutdown

datatype writer_reply =
    ReplyTx "(writer_error + tx_append_result) list"
  | ReplyUnit "writer_error + unit"
  | ReplyTransaction "writer_error + tx_append_result"
  | ReplyMulti "writer_error + tx_append_result list"
  | ReplyMutation "writer_error + cached_mutation option"
  | NoReply

text \<open>\<open>wa_replies\<close> are the answers given to session appends, in order.\<close>

record writer_actor =
  wa_world :: writer_world
  wa_cache :: response_cache
  wa_events :: "event_payload list"
  wa_sessions :: "string \<Rightarrow> session_handle option"
  wa_leased :: "file_path set"
  wa_deferred :: "session_append list"
  wa_replies :: "(session_append \<times> (writer_error + 64 word)) list"

definition publish :: "event_payload list \<Rightarrow> writer_actor \<Rightarrow> writer_actor" where
  "publish es a = a\<lparr>wa_events := wa_events a @ es\<rparr>"

definition remember :: "string \<Rightarrow> cached_response \<Rightarrow> writer_actor \<Rightarrow> writer_actor" where
  "remember key response a = a\<lparr>wa_cache := (wa_cache a)(key \<mapsto> response)\<rparr>"

text \<open>A call on the files within the actor.\<close>

definition on_world :: "'a fs \<Rightarrow> writer_actor \<Rightarrow> (writer_error + 'a) \<times> writer_actor" where
  "on_world m a = (case m (wa_world a) of (r, w) \<Rightarrow> (r, a\<lparr>wa_world := w\<rparr>))"

section \<open>Transactions\<close>

definition tx_event :: "tx_append \<Rightarrow> tx_append_result \<Rightarrow> event_payload" where
  "tx_event tx result = TxAppended (ta_project_id tx) (ar_tx_id result) (tx_ty (ta_entry tx))"

definition publish_multi_events :: "tx_append list \<Rightarrow> tx_append_result list \<Rightarrow> writer_actor \<Rightarrow> writer_actor" where
  "publish_multi_events txs results = publish (map (\<lambda>(tx, result). tx_event tx result) (zip txs results))"

text \<open>Only the writer turns an uncertain answer into a durable one, by syncing the ledger it kept open.\<close>

definition retry_single_transaction ::
  "string \<Rightarrow> mutation_identity \<Rightarrow> bool \<Rightarrow> writer_actor \<Rightarrow> (writer_error + tx_append_result option) \<times> writer_actor" where
  "retry_single_transaction request_id mutation needs_mutation_id a =
     (case (if needs_mutation_id then map_sum id (\<lambda>_. ()) (cached_mutation_from_map (wa_cache a) request_id mutation)
            else map_sum id (\<lambda>_. ()) (cached_transaction_from_map (wa_cache a) request_id mutation)) of
        Inl e \<Rightarrow> (Inl e, a)
      | Inr _ \<Rightarrow>
          (case wa_cache a request_id of
             Some (CachedTx c) \<Rightarrow>
               (if ct_durability c = SyncUncertain then
                  (case ct_event c of
                     None \<Rightarrow> (Inl PendingLacksEvent, a)
                   | Some event \<Rightarrow>
                       (case on_world (sync_committed_tx (ct_result c)) a of
                          (Inl e, a') \<Rightarrow> (Inl (CommittedSyncUncertain True e), a')
                        | (Inr _, a') \<Rightarrow>
                            (Inr (Some (ct_result c)),
                             publish [event] (remember request_id (CachedTx (c\<lparr>ct_durability := Durable\<rparr>)) a'))))
                else (Inr (Some (ct_result c)), a))
           | _ \<Rightarrow> (Inr None, a)))"

definition finish_single_transaction ::
  "tx_append \<Rightarrow> string \<Rightarrow> mutation_identity option \<Rightarrow> string option \<Rightarrow> file_path list
    \<Rightarrow> writer_error + multi_transaction_commit \<Rightarrow> writer_actor \<Rightarrow> (writer_error + tx_append_result) \<times> writer_actor" where
  "finish_single_transaction tx request_id mutation mutation_id written_paths outcome a =
     (case outcome of
        Inl e \<Rightarrow> (Inl e, a)
      | Inr commit \<Rightarrow>
          (let (results, error) = (case commit of Committed rs \<Rightarrow> (rs, None) | CommitUncertain rs e \<Rightarrow> (rs, Some e));
               result = hd results;
               a' = remember request_id (CachedTx
                 \<lparr>ct_result = result, ct_mutation = mutation, ct_mutation_id = mutation_id,
                  ct_written_paths = written_paths, ct_event = Some (tx_event tx result),
                  ct_durability = (if error = None then Durable else SyncUncertain)\<rparr>) a
           in case error of
                Some e \<Rightarrow> (Inl (CommittedSyncUncertain False e), a')
              | None \<Rightarrow> (Inr result, publish_multi_events [tx] [result] a')))"

fun remember_entries ::
  "writer_env \<Rightarrow> transaction_multi_request \<Rightarrow> (tx_append \<times> tx_append_result) list \<Rightarrow> writer_actor \<Rightarrow> writer_actor" where
  "remember_entries env req [] a = a"
| "remember_entries env req ((tx, result) # rest) a =
     remember_entries env req rest
       (case ta_request_id tx of
          None \<Rightarrow> a
        | Some request_id \<Rightarrow> remember request_id (CachedTx
            \<lparr>ct_result = result, ct_mutation = Some (transaction_identity env tx (tm_rewrites req)), ct_mutation_id = None,
             ct_written_paths = map fr_path (tm_rewrites req) @ [ta_tx_path tx], ct_event = None,
             ct_durability = Durable\<rparr>) a)"

definition cache_durable_multi ::
  "writer_env \<Rightarrow> string \<Rightarrow> transaction_multi_request \<Rightarrow> tx_append_result list \<Rightarrow> writer_actor \<Rightarrow> writer_actor" where
  "cache_durable_multi env cache_key req results a =
     remember cache_key (CachedMulti results (tm_mutation req) Durable)
       (remember_entries env req (zip (tm_txs req) results) a)"

definition handle_transaction :: "writer_env \<Rightarrow> transaction_request \<Rightarrow> writer_actor \<Rightarrow> (writer_error + tx_append_result) \<times> writer_actor" where
  "handle_transaction env req a =
     (case tr_mutation req of
        None \<Rightarrow> (Inl NoMutationIdentity, a)
      | Some mutation \<Rightarrow>
          (case retry_single_transaction (tr_request_id req) mutation (tr_mutation_id req \<noteq> None) a of
             (Inl e, a') \<Rightarrow> (Inl e, a')
           | (Inr (Some result), a') \<Rightarrow> (Inr result, a')
           | (Inr None, a') \<Rightarrow>
               (case on_world (transaction_inner (we_uuids env) (tr_rewrites req) (tr_tx req) (tr_request_id req) (Inr ())) a' of
                  (outcome, a'') \<Rightarrow>
                    finish_single_transaction (tr_tx req) (tr_request_id req) (tr_mutation req) (tr_mutation_id req)
                      (map fr_path (tr_rewrites req) @ [ta_tx_path (tr_tx req)]) outcome a'')))"

definition handle_transaction_mutate ::
  "writer_env \<Rightarrow> transaction_mutate_request \<Rightarrow> writer_actor \<Rightarrow> (writer_error + tx_append_result) \<times> writer_actor" where
  "handle_transaction_mutate env req a =
     (case retry_single_transaction (tu_request_id req) (tu_mutation req) (tu_mutation_id req \<noteq> None) a of
        (Inl e, a') \<Rightarrow> (Inl e, a')
      | (Inr (Some result), a') \<Rightarrow> (Inr result, a')
      | (Inr None, a') \<Rightarrow>
          (case on_world (transaction_mutate_file_inner (we_uuids env) (tu_file req) (tu_tx req) (tu_request_id req)) a' of
             (outcome, a'') \<Rightarrow>
               finish_single_transaction (tu_tx req) (tu_request_id req) (Some (tu_mutation req)) (tu_mutation_id req)
                 [fm_path (tu_file req), ta_tx_path (tu_tx req)] outcome a''))"

definition multi_collision :: "response_cache \<Rightarrow> tx_append list \<Rightarrow> string option" where
  "multi_collision cache txs =
     find_map (\<lambda>tx. case ta_request_id tx of
         None \<Rightarrow> None | Some i \<Rightarrow> if cache i \<noteq> None then Some i else None) txs"

definition handle_transaction_multi ::
  "writer_env \<Rightarrow> transaction_multi_request \<Rightarrow> writer_actor \<Rightarrow> (writer_error + tx_append_result list) \<times> writer_actor" where
  "handle_transaction_multi env req a =
     (let cache_key = multi_cache_key (tm_request_id req) in
      case cached_multi_from_map (wa_cache a) cache_key (tm_request_id req) (tm_mutation req) of
        Inl e \<Rightarrow> (Inl e, a)
      | Inr (Some (results, Durable)) \<Rightarrow> (Inr results, a)
      | Inr (Some (results, SyncUncertain)) \<Rightarrow>
          (case results of
             [] \<Rightarrow> (Inl (CommittedSyncUncertain True NoCachedResults), a)
           | result # _ \<Rightarrow>
               (case on_world (sync_committed_tx result) a of
                  (Inl e, a') \<Rightarrow> (Inl (CommittedSyncUncertain True e), a')
                | (Inr _, a') \<Rightarrow>
                    (Inr results, publish_multi_events (tm_txs req) results (cache_durable_multi env cache_key req results a'))))
      | Inr None \<Rightarrow>
          (case multi_collision (wa_cache a) (tm_txs req) of
             Some request_id \<Rightarrow> (Inl (UsedOutsideMulti request_id), a)
           | None \<Rightarrow>
               (case on_world (transaction_multi_inner (we_uuids env) (tm_rewrites req) (tm_txs req) (tm_request_id req) (Inr ())) a of
                  (Inl e, a') \<Rightarrow> (Inl e, a')
                | (Inr (Committed results), a') \<Rightarrow>
                    (Inr results, publish_multi_events (tm_txs req) results (cache_durable_multi env cache_key req results a'))
                | (Inr (CommitUncertain results e), a') \<Rightarrow>
                    (Inl (CommittedSyncUncertain False e),
                     remember cache_key (CachedMulti results (tm_mutation req) SyncUncertain) a'))))"

definition handle_recover_mutation ::
  "string \<Rightarrow> mutation_identity \<Rightarrow> writer_actor \<Rightarrow> (writer_error + cached_mutation option) \<times> writer_actor" where
  "handle_recover_mutation request_id mutation a =
     (case retry_single_transaction request_id mutation True a of
        (Inl e, a') \<Rightarrow> (Inl e, a')
      | (Inr _, a') \<Rightarrow> (cached_mutation_from_map (wa_cache a') request_id mutation, a'))"

definition handle_tx_batch ::
  "writer_env \<Rightarrow> tx_append list \<Rightarrow> writer_actor \<Rightarrow> (writer_error + tx_append_result) list \<times> writer_actor" where
  "handle_tx_batch env batch a =
     (case process_tx_batch (we_uuids env) batch (wa_world a) of
        (outcomes, w) \<Rightarrow>
          (map snd outcomes,
           publish (concat (map (\<lambda>(req, r). case r of Inl _ \<Rightarrow> [] | Inr result \<Rightarrow> [tx_event req result]) outcomes))
             (a\<lparr>wa_world := w\<rparr>)))"

section \<open>Sessions and leases\<close>

definition authorizes_path :: "session_file_authority \<Rightarrow> file_path \<Rightarrow> bool fs" where
  "authorizes_path au p = fs_call Work (\<lambda>w. (Inr (au_path au = p), w))"

definition clone_file_for_append :: "session_file_authority \<Rightarrow> nat fs" where
  "clone_file_for_append au = fs_call Work (\<lambda>w.
     (if ww_names w (au_path au) = Some (au_inode au) then Inr (au_inode au) else Inl SessionFileChanged, w))"

text \<open>Opening a session: the transport it recorded is read back from its path.\<close>

definition session_open :: "writer_env \<Rightarrow> session_append \<Rightarrow> session_handle fs" where
  "session_open env req =
     fs_bind
       (case sa_authority req of
          Some au \<Rightarrow>
            fs_bind (authorizes_path au (sa_session_path req)) (\<lambda>allowed.
              if \<not> allowed then fs_err SessionPathChanged else clone_file_for_append au)
        | None \<Rightarrow> fs_bind (create_parent (sa_session_path req)) (\<lambda>_. open_create (sa_session_path req)))
       (\<lambda>i. fs_try (read_path (sa_session_path req)) (\<lambda>contents.
          fs_ok \<lparr>sh_path = sa_session_path req, sh_inode = i,
            sh_writer = writer_open (we_parse env) (case contents of Inl _ \<Rightarrow> [] | Inr s \<Rightarrow> s) (sa_identity req)\<rparr>))"

text \<open>One append through the descriptor of the handle; a refused event writes nothing.\<close>

definition session_write :: "writer_env \<Rightarrow> session_append \<Rightarrow> session_handle \<Rightarrow> writer_world
    \<Rightarrow> (writer_error + 64 word) \<times> session_handle \<times> writer_world" where
  "session_write env req h w =
     (let attempt = (\<lambda>fault w. writer_append (we_to_line env) (we_json env) (we_sha256 env) fault (we_now env)
            (sa_kind req) (sa_event req) (sh_writer h, ww_bytes w (sh_inode h)))
      in case attempt None w of
           (Inl e, writer, _) \<Rightarrow> (Inl (SessionRefused e), h\<lparr>sh_writer := writer\<rparr>, w)
         | (Inr _, _) \<Rightarrow>
             (case next_fault Work w of (fault, w') \<Rightarrow>
               (case attempt fault w' of (r, writer, bytes) \<Rightarrow>
                 (map_sum SessionRefused id r, h\<lparr>sh_writer := writer\<rparr>,
                  w'\<lparr>ww_bytes := (ww_bytes w')(sh_inode h := bytes)\<rparr>))))"

definition append_session_inner :: "writer_env \<Rightarrow> session_append \<Rightarrow> writer_actor \<Rightarrow> (writer_error + 64 word) \<times> writer_actor" where
  "append_session_inner env req a =
     (case (case wa_sessions a (sa_run_id req) of
              Some h \<Rightarrow> (Inr h, a)
            | None \<Rightarrow> on_world (session_open env req) a) of
        (Inl e, a') \<Rightarrow> (Inl e, a')
      | (Inr h, a') \<Rightarrow>
          (case session_write env req h (wa_world a') of
             (r, h', w) \<Rightarrow> (r, a'\<lparr>wa_world := w, wa_sessions := (wa_sessions a')(sa_run_id req \<mapsto> h')\<rparr>)))"

definition lifecycle_phase :: "session_append \<Rightarrow> string option" where
  "lifecycle_phase req = (if sa_kind req = LifecycleKind then get_str ''phase'' (sa_event req) else None)"

text \<open>The last line of a run closes its handle.\<close>

definition run_session_append :: "writer_env \<Rightarrow> session_append \<Rightarrow> writer_actor \<Rightarrow> writer_actor" where
  "run_session_append env req a =
     (case append_session_inner env req a of
        (r, a1) \<Rightarrow>
          (let a2 = (case r of
                 Inl _ \<Rightarrow> a1
               | Inr seq \<Rightarrow>
                   (let a3 = publish [RunEvent (sa_run_id req) seq] a1;
                        a4 = (if lifecycle_phase req = Some ''release''
                              then a3\<lparr>wa_sessions := (wa_sessions a3)(sa_run_id req := None)\<rparr> else a3)
                    in case lifecycle_phase req of
                         None \<Rightarrow> a4
                       | Some phase \<Rightarrow> publish [RunLifecycle (sa_run_id req) phase] a4))
           in a2\<lparr>wa_replies := wa_replies a2 @ [(req, r)]\<rparr>))"

definition handle_session :: "writer_env \<Rightarrow> session_append \<Rightarrow> writer_actor \<Rightarrow> writer_actor" where
  "handle_session env req a =
     (if sa_session_path req \<in> wa_leased a then a\<lparr>wa_deferred := wa_deferred a @ [req]\<rparr>
      else run_session_append env req a)"

text \<open>A lease drops the handles of its paths; a path can be held once.\<close>

definition drop_handles :: "file_path \<Rightarrow> (string \<Rightarrow> session_handle option) \<Rightarrow> string \<Rightarrow> session_handle option" where
  "drop_handles p sessions r =
     (case sessions r of None \<Rightarrow> None | Some h \<Rightarrow> if sh_path h = p then None else Some h)"

definition handle_lease :: "file_path list \<Rightarrow> writer_actor \<Rightarrow> (writer_error + unit) \<times> writer_actor" where
  "handle_lease paths a =
     (case find (\<lambda>p. p \<in> wa_leased a) paths of
        Some p \<Rightarrow> (Inl (AlreadyLeased p), a)
      | None \<Rightarrow>
          (Inr (), fold (\<lambda>p a. a\<lparr>wa_sessions := drop_handles p (wa_sessions a), wa_leased := insert p (wa_leased a)\<rparr>) paths a))"

definition handle_release :: "writer_env \<Rightarrow> file_path list \<Rightarrow> writer_actor \<Rightarrow> writer_actor" where
  "handle_release env paths a =
     (let leased = wa_leased a - set paths;
          held = filter (\<lambda>r. sa_session_path r \<in> leased) (wa_deferred a);
          ready = filter (\<lambda>r. sa_session_path r \<notin> leased) (wa_deferred a)
      in fold (run_session_append env) ready (a\<lparr>wa_leased := leased, wa_deferred := held\<rparr>))"

definition handle_shutdown :: "writer_actor \<Rightarrow> writer_actor" where
  "handle_shutdown a =
     a\<lparr>wa_world := (wa_world a)\<lparr>ww_handles := Map.empty\<rparr>, wa_sessions := Map.empty, wa_deferred := [],
       wa_replies := wa_replies a @ map (\<lambda>r. (r, Inl (ShutDownUnderLease (sa_session_path r)))) (wa_deferred a)\<rparr>"

section \<open>The loop\<close>

text \<open>One command. A barrier runs a closure that is not the writer's.\<close>

fun handle_command :: "writer_env \<Rightarrow> writer_command \<Rightarrow> writer_actor \<Rightarrow> writer_reply \<times> writer_actor" where
  "handle_command env (CmdTx batch) a = map_prod ReplyTx id (handle_tx_batch env batch a)"
| "handle_command env (CmdSession req) a = (NoReply, handle_session env req a)"
| "handle_command env (CmdRewrite req) a = map_prod ReplyUnit id (on_world (rewrite_file_inner req) a)"
| "handle_command env (CmdMutate req) a = map_prod ReplyUnit id (on_world (mutate_file_inner req) a)"
| "handle_command env (CmdTransaction req) a = map_prod ReplyTransaction id (handle_transaction env req a)"
| "handle_command env (CmdTransactionMulti req) a = map_prod ReplyMulti id (handle_transaction_multi env req a)"
| "handle_command env (CmdTransactionMutate req) a = map_prod ReplyTransaction id (handle_transaction_mutate env req a)"
| "handle_command env (CmdRecoverMutation i m) a = map_prod ReplyMutation id (handle_recover_mutation i m a)"
| "handle_command env (CmdLeaseSessions ps) a = map_prod ReplyUnit id (handle_lease ps a)"
| "handle_command env (CmdReleaseSessions ps) a = (NoReply, handle_release env ps a)"
| "handle_command env CmdBarrier a = (NoReply, a)"
| "handle_command env CmdShutdown a = (NoReply, handle_shutdown a)"

text \<open>The loop ends with the queue or with a shutdown.\<close>

fun writer_loop :: "writer_env \<Rightarrow> writer_command list \<Rightarrow> writer_actor \<Rightarrow> writer_actor" where
  "writer_loop env [] a = a"
| "writer_loop env (CmdShutdown # cs) a = snd (handle_command env CmdShutdown a)"
| "writer_loop env (c # cs) a = writer_loop env cs (snd (handle_command env c a))"

end
