(* ===== verification/Writer_Calls.thy ===== *)
theory Writer_Calls
  imports Writer_Files
begin

text \<open>
  Calls of the writer in a row. A frame is a relation between the world before and after a call that calls in a row
  keep; what a call touches is one. The calls that write are described by what they touch and what they
  leave.
\<close>

named_theorems fsk

section \<open>Calls in a row\<close>

lemma fs_bind_cases:
  "fs_bind m f w = (r, w') \<Longrightarrow>
     (\<exists>e. m w = (Inl e, w') \<and> r = Inl e) \<or> (\<exists>x w1. m w = (Inr x, w1) \<and> f x w1 = (r, w'))"
  by (cases "m w"; cases "fst (m w)") (auto simp: fs_bind_def)

lemma fs_bindE:
  assumes "fs_bind m f w = (r, w')"
  obtains (error) e where "m w = (Inl e, w')" "r = Inl e"
    | (ok) x w1 where "m w = (Inr x, w1)" "f x w1 = (r, w')"
  using fs_bind_cases [OF assms] by blast

lemma fs_bind_Inr:
  assumes "fs_bind m f w = (Inr y, w')"
  obtains x w1 where "m w = (Inr x, w1)" "f x w1 = (Inr y, w')"
  using fs_bindE [OF assms] by auto

lemma snd_fs_bind:
  "snd (fs_bind m f w) = (case m w of (Inl e, w') \<Rightarrow> w' | (Inr x, w') \<Rightarrow> snd (f x w'))"
  by (simp add: fs_bind_def split: prod.split sum.split)

section \<open>Frames\<close>

definition frames :: "(writer_world \<Rightarrow> writer_world \<Rightarrow> bool) \<Rightarrow> 'a fs \<Rightarrow> bool" where
  "frames R m \<longleftrightarrow> (\<forall>w. R w (snd (m w)))"

text \<open>A frame is kept by calls in a row, and allows faults and identifiers to be used up.\<close>

locale fs_frame =
  fixes R :: "writer_world \<Rightarrow> writer_world \<Rightarrow> bool"
  assumes R_refl: "R w w"
    and R_trans: "R w w' \<Longrightarrow> R w' w'' \<Longrightarrow> R w w''"
    and R_fault: "ww_faults w c = f # fs \<Longrightarrow> R w (w\<lparr>ww_faults := (ww_faults w)(c := fs)\<rparr>)"
    and R_drawn: "R w (w\<lparr>ww_drawn := n\<rparr>)"
begin

lemma frames_ok [fsk]: "frames R (fs_ok x)"
  by (simp add: frames_def fs_ok_def R_refl)

lemma frames_err [fsk]: "frames R (fs_err e)"
  by (simp add: frames_def fs_err_def R_refl)

lemma frames_lift [fsk]: "frames R (fs_lift r)"
  by (simp add: frames_def fs_lift_def R_refl)

lemma frames_pure [fsk]: "frames R (\<lambda>w. (v w, w))"
  by (simp add: frames_def R_refl)

lemma frames_bind [fsk]: "frames R m \<Longrightarrow> (\<And>x. frames R (f x)) \<Longrightarrow> frames R (fs_bind m f)"
  unfolding frames_def
proof
  fix w
  assume m: "\<forall>w. R w (snd (m w))" and f: "\<And>x. \<forall>w. R w (snd (f x w))"
  obtain r w1 where run: "m w = (r, w1)" by fastforce
  then have "R w w1" using m by (metis snd_conv)
  then show "R w (snd (fs_bind m f w))"
    using f R_trans run by (cases r) (auto simp: snd_fs_bind)
qed

lemma frames_try [fsk]: "frames R m \<Longrightarrow> (\<And>x. frames R (f x)) \<Longrightarrow> frames R (fs_try m f)"
  unfolding frames_def
proof
  fix w
  assume m: "\<forall>w. R w (snd (m w))" and f: "\<And>x. \<forall>w. R w (snd (f x w))"
  obtain r w1 where run: "m w = (r, w1)" by fastforce
  then have "R w w1" using m by (metis snd_conv)
  then show "R w (snd (fs_try m f w))"
    using f R_trans run by (auto simp: fs_try_def)
qed

lemma R_next_fault: "R w (snd (next_fault c w))"
  by (simp add: next_fault_def R_refl R_fault split: list.split)

lemma frames_call [fsk]: "frames R act \<Longrightarrow> frames R (fs_call c act)"
  unfolding frames_def fs_call_def
proof
  fix w
  assume "\<forall>w. R w (snd (act w))"
  moreover have "R w (snd (next_fault c w))" by (rule R_next_fault)
  ultimately show "R w (snd (case next_fault c w of (None, w') \<Rightarrow> act w' | (Some _, w') \<Rightarrow> (Inl CallFailed, w')))"
    by (auto split: prod.split option.split) (metis R_trans snd_conv)
qed

lemma frames_if [fsk]: "(b \<Longrightarrow> frames R f) \<Longrightarrow> (\<not> b \<Longrightarrow> frames R g) \<Longrightarrow> frames R (if b then f else g)"
  by simp

lemma frames_case_option [fsk]:
  "frames R f \<Longrightarrow> (\<And>x. frames R (g x)) \<Longrightarrow> frames R (case r of None \<Rightarrow> f | Some x \<Rightarrow> g x)"
  by (simp split: option.split)

lemma frames_path_exists [fsk]: "frames R (path_exists p)"
  and frames_path_is_dir [fsk]: "frames R (path_is_dir p)"
  using R_next_fault
  by (auto simp: frames_def path_exists_def path_is_dir_def split: prod.split option.split) (metis snd_conv)+

lemma frames_open_there [fsk]: "frames R (open_there p)"
  unfolding open_there_def by (intro fsk)

lemma frames_sync [fsk]: "frames R sync_inode"
  and frames_lock [fsk]: "frames R lock_exclusive"
  unfolding sync_inode_def lock_exclusive_def by (intro fsk)+

lemma frames_read_path [fsk]: "frames R (read_path p)"
  unfolding read_path_def by (intro fsk)

lemma frames_read_to_string [fsk]: "frames R (read_to_string p)"
  unfolding read_to_string_def by (intro fsk)

lemma frames_file_identity [fsk]: "frames R (file_identity c p)"
  unfolding file_identity_def by (intro fsk)

lemma frames_new_v4 [fsk]: "frames R (new_v4 us)"
  by (simp add: frames_def new_v4_def R_drawn)

lemma frames_prepare [fsk]: "frames R (prepare_tx_entry us req)"
  unfolding prepare_tx_entry_def
  by (intro fsk) (auto split: tx_id_policy.split list.split intro!: fsk)

lemma frames_prepare_all [fsk]: "frames R (prepare_all us reqs)"
  by (induction reqs) (auto intro!: fsk)

lemma frames_read_event_ids [fsk]: "frames R (read_event_ids p)"
  unfolding read_event_ids_def by (intro fsk)

lemma frames_validate_rewrite_path [fsk]: "frames R (validate_rewrite_path p)"
  unfolding validate_rewrite_path_def by (intro fsk)

lemma frames_lock_targets [fsk]: "frames R (lock_targets rs)"
  by (induction rs) (auto intro!: fsk)

lemma framesD: "frames R m \<Longrightarrow> m w = (r, w') \<Longrightarrow> R w w'"
  unfolding frames_def by (metis snd_conv)

end

section \<open>What a call touches\<close>

text \<open>No two paths share an inode; directories are no files; a kept descriptor is on the inode its
  identity says.\<close>

definition files_ok :: "writer_world \<Rightarrow> bool" where
  "files_ok w \<longleftrightarrow>
     (\<forall>p q i. ww_names w p = Some i \<longrightarrow> ww_names w q = Some i \<longrightarrow> p = q) \<and>
     (\<forall>p i. ww_names w p = Some i \<longrightarrow> i < ww_next w \<and> p \<notin> ww_dirs w) \<and>
     (\<forall>p h. ww_handles w p = Some h \<longrightarrow> lh_identity h = lh_inode h \<and> lh_inode h < ww_next w)"

definition touches :: "file_path set \<Rightarrow> writer_world \<Rightarrow> writer_world \<Rightarrow> bool" where
  "touches S w w' \<longleftrightarrow>
     (\<forall>c. ww_faults w c = [] \<longrightarrow> ww_faults w' c = []) \<and>
     (\<forall>p. p \<notin> S \<longrightarrow> ww_names w' p = ww_names w p) \<and>
     (files_ok w \<longrightarrow> files_ok w' \<and> (\<forall>p. p \<notin> S \<longrightarrow> path_look w' p = path_look w p))"

lemma files_ok_unused [simp]:
  "files_ok (w\<lparr>ww_faults := fs\<rparr>) \<longleftrightarrow> files_ok w" "files_ok (w\<lparr>ww_drawn := n\<rparr>) \<longleftrightarrow> files_ok w"
  by (simp_all add: files_ok_def)

lemma path_look_unused [simp]:
  "path_look (w\<lparr>ww_faults := fs\<rparr>) p = path_look w p" "path_look (w\<lparr>ww_drawn := n\<rparr>) p = path_look w p"
  by (simp_all add: path_look_def)

interpretation touched: fs_frame "touches S" for S
proof
  show "touches S w w' \<Longrightarrow> touches S w' w'' \<Longrightarrow> touches S w w''" for w w' w''
    unfolding touches_def by metis
qed (simp_all add: touches_def)

lemma touches_mono: "touches S w w' \<Longrightarrow> S \<subseteq> T \<Longrightarrow> touches T w w'"
  unfolding touches_def by blast

lemma touches_trans: "touches S w w' \<Longrightarrow> touches T w' w'' \<Longrightarrow> touches (S \<union> T) w w''"
  unfolding touches_def by auto

lemma frames_mono: "frames (touches S) m \<Longrightarrow> S \<subseteq> T \<Longrightarrow> frames (touches T) m"
  unfolding frames_def using touches_mono by blast

lemma next_faultD:
  assumes "next_fault c w = (f, w')"
  shows "ww_names w' = ww_names w" "ww_bytes w' = ww_bytes w" "ww_next w' = ww_next w" "ww_dirs w' = ww_dirs w"
    "ww_handles w' = ww_handles w" "ww_faults w c = [] \<Longrightarrow> f = None" "touches S w w'"
  using assms touched.R_next_fault [of S w c]
  by (auto simp: next_fault_def split: list.splits)

section \<open>The calls that write\<close>

lemma fs_callE:
  assumes "fs_call c act w = (r, w')"
  obtains (fault) "r = Inl CallFailed" "ww_faults w c \<noteq> []" "touches {} w w'" "ww_handles w' = ww_handles w"
    | (acted) w1 where "act w1 = (r, w')" "touches {} w w1" "ww_names w1 = ww_names w" "ww_bytes w1 = ww_bytes w"
        "ww_next w1 = ww_next w" "ww_dirs w1 = ww_dirs w" "ww_handles w1 = ww_handles w"
proof (cases "next_fault c w")
  case (Pair f w1)
  note facts = next_faultD [OF Pair]
  show thesis
  proof (cases f)
    case None
    then show ?thesis
      using assms Pair facts that(2) by (simp add: fs_call_def)
  next
    case (Some n)
    then show ?thesis
      using assms Pair facts that(1) by (auto simp: fs_call_def)
  qed
qed

lemma look_unchanged:
  "ww_names w1 = ww_names w \<Longrightarrow> ww_bytes w1 = ww_bytes w \<Longrightarrow> path_look w1 p = path_look w p"
  by (simp add: path_look_def)

lemma touches_names: "touches S w w' \<Longrightarrow> p \<notin> S \<Longrightarrow> ww_names w' p = ww_names w p"
  by (simp add: touches_def)

lemma touches_ok: "touches S w w' \<Longrightarrow> files_ok w \<Longrightarrow> files_ok w'"
  and touches_look: "touches S w w' \<Longrightarrow> files_ok w \<Longrightarrow> p \<notin> S \<Longrightarrow> path_look w' p = path_look w p"
  and touches_faults: "touches S w w' \<Longrightarrow> ww_faults w c = [] \<Longrightarrow> ww_faults w' c = []"
  by (simp_all add: touches_def)

lemma files_okD:
  assumes "files_ok w"
  shows "ww_names w p = Some i \<Longrightarrow> ww_names w q = Some i \<Longrightarrow> p = q"
    and "ww_names w p = Some i \<Longrightarrow> i < ww_next w"
    and "ww_names w p = Some i \<Longrightarrow> p \<notin> ww_dirs w"
    and "ww_handles w p = Some h \<Longrightarrow> lh_identity h = lh_inode h"
    and "ww_handles w p = Some h \<Longrightarrow> lh_inode h < ww_next w"
  using assms unfolding files_ok_def by blast+

lemma look_None [simp]: "path_look w p = None \<longleftrightarrow> ww_names w p = None"
  by (simp add: path_look_def)

lemma look_Some: "path_look w p = Some s \<longleftrightarrow> (\<exists>i. ww_names w p = Some i \<and> ww_bytes w i = s)"
  by (auto simp: path_look_def)

text \<open>Only the path that names the inode sees a write.\<close>

lemma set_bytes_touches:
  assumes "ww_names w p = Some i"
  shows "touches {p} w (w\<lparr>ww_bytes := (ww_bytes w)(i := s)\<rparr>)"
proof -
  have "path_look (w\<lparr>ww_bytes := (ww_bytes w)(i := s)\<rparr>) q = path_look w q" if "files_ok w" "q \<noteq> p" for q
  proof (cases "ww_names w q")
    case (Some j)
    then have "j \<noteq> i" using files_okD(1) [OF that(1), of q j p] assms that(2) by auto
    then show ?thesis using Some by (simp add: path_look_def)
  qed (simp add: path_look_def)
  then show ?thesis
    by (auto simp: touches_def files_ok_def)
qed

lemma write_all_runs:
  assumes "write_all i s w = (r, w')" "ww_names w p = Some i"
  shows "touches {p} w w'" "ww_handles w' = ww_handles w" "ww_names w' = ww_names w"
    "r = Inr () \<Longrightarrow> path_look w' p = Some (ww_bytes w i @ s)"
    "ww_faults w Work = [] \<Longrightarrow> r = Inr ()"
proof -
  obtain f w1 where fault: "next_fault Work w = (f, w1)" by fastforce
  note facts = next_faultD [OF fault]
  have named: "ww_names w1 p = Some i" using facts assms by simp
  obtain t where w': "w' = w1\<lparr>ww_bytes := (ww_bytes w1)(i := t)\<rparr>"
    and t: "r = Inr () \<Longrightarrow> t = ww_bytes w i @ s" and r: "f = None \<Longrightarrow> r = Inr ()"
    using assms(1) facts unfolding write_all_def fault by (auto split: option.splits)
  show "touches {p} w w'"
    unfolding w' using touched.R_trans [OF facts(7) set_bytes_touches [OF named]] .
  show "ww_handles w' = ww_handles w" "ww_names w' = ww_names w"
    using w' facts by simp_all
  show "r = Inr () \<Longrightarrow> path_look w' p = Some (ww_bytes w i @ s)"
    using w' t named by (simp add: path_look_def)
  show "ww_faults w Work = [] \<Longrightarrow> r = Inr ()"
    using facts(6) r by simp
qed

lemma new_inode_touches:
  assumes "p \<notin> ww_dirs w" "ww_names w p = None"
  shows "touches {p} w (snd (new_inode p w))"
proof -
  have "files_ok (snd (new_inode p w))" if "files_ok w"
    using that assms unfolding files_ok_def new_inode_def by (auto simp: less_Suc_eq)
  moreover have "path_look (snd (new_inode p w)) q = path_look w q" if "files_ok w" "q \<noteq> p" for q
    using that(2) files_okD(2) [OF that(1), of q]
    by (cases "ww_names w q") (auto simp: new_inode_def path_look_def)
  ultimately show ?thesis
    by (simp add: touches_def new_inode_def)
qed

lemma creatable_Inr: "creatable p w = Inr u \<Longrightarrow> p \<notin> ww_dirs w"
  by (auto simp: creatable_def split: if_splits)

lemma open_new_runs:
  assumes "open_new p w = (r, w')"
  shows "touches {p} w w'" "ww_handles w' = ww_handles w" "\<And>e. r = Inl e \<Longrightarrow> touches {} w w'"
    "\<And>i. r = Inr i \<Longrightarrow> path_look w p = None \<and> ww_names w' p = Some i \<and> ww_bytes w' i = []"
proof -
  have "touches {p} w w' \<and> ww_handles w' = ww_handles w \<and> (\<forall>e. r = Inl e \<longrightarrow> touches {} w w')
      \<and> (\<forall>i. r = Inr i \<longrightarrow> path_look w p = None \<and> ww_names w' p = Some i \<and> ww_bytes w' i = [])"
    using assms unfolding open_new_def
  proof (cases rule: fs_callE)
    case fault
    then show ?thesis using touches_mono [of "{}" w w' "{p}"] by simp
  next
    case (acted w1)
    show ?thesis
    proof (cases "\<exists>i. r = Inr i")
      case True
      then have new: "ww_names w1 p = None" "p \<notin> ww_dirs w1" "(r, w') = new_inode p w1"
        using acted(1) creatable_Inr [of p w1]
        by (auto split: option.splits if_splits sum.splits)
      then have "touches {p} w1 w'"
        using new_inode_touches [of p w1] by (metis snd_conv)
      then show ?thesis
        using new acted(2-) touches_trans [of "{}" w w1 "{p}" w'] by (auto simp: new_inode_def)
    next
      case False
      then have "w' = w1"
        using acted(1) by (auto simp: new_inode_def split: option.splits if_splits sum.splits)
      then show ?thesis
        using acted(2-) False touches_mono [of "{}" w w1 "{p}"] by (auto split: sum.splits)
    qed
  qed
  then show "touches {p} w w'" "ww_handles w' = ww_handles w" "\<And>e. r = Inl e \<Longrightarrow> touches {} w w'"
    "\<And>i. r = Inr i \<Longrightarrow> path_look w p = None \<and> ww_names w' p = Some i \<and> ww_bytes w' i = []"
    by simp_all
qed

lemma open_create_runs:
  assumes "open_create p w = (r, w')"
  shows "touches {p} w w'" "ww_handles w' = ww_handles w"
    "\<And>i. r = Inr i \<Longrightarrow> ww_names w' p = Some i \<and> ww_bytes w' i = (case path_look w p of None \<Rightarrow> [] | Some s \<Rightarrow> s)"
    "path_look w p \<noteq> None \<Longrightarrow> touches {} w w'"
proof -
  have "touches {p} w w' \<and> ww_handles w' = ww_handles w \<and> (path_look w p \<noteq> None \<longrightarrow> touches {} w w')
      \<and> (\<forall>i. r = Inr i \<longrightarrow> ww_names w' p = Some i \<and> ww_bytes w' i = (case path_look w p of None \<Rightarrow> [] | Some s \<Rightarrow> s))"
    using assms unfolding open_create_def
  proof (cases rule: fs_callE)
    case fault
    then show ?thesis using touches_mono [of "{}" w w' "{p}"] by simp
  next
    case (acted w1)
    have small: "touches {p} w w1" using acted(2) by (rule touches_mono) simp
    show ?thesis
    proof (cases "ww_names w1 p")
      case (Some i)
      then show ?thesis using acted small by (auto simp: path_look_def)
    next
      case None
      show ?thesis
      proof (cases "creatable p w1")
        case (Inl e)
        then show ?thesis using acted small None by auto
      next
        case (Inr u)
        then have new: "(r, w') = new_inode p w1"
          using acted(1) None by simp
        moreover have "touches {p} w1 w'"
          using new_inode_touches [OF creatable_Inr [OF Inr] None] new by (metis snd_conv)
        ultimately show ?thesis
          using None acted(2-) touches_trans [of "{}" w w1 "{p}" w'] by (auto simp: new_inode_def path_look_def)
      qed
    qed
  qed
  then show "touches {p} w w'" "ww_handles w' = ww_handles w"
    "\<And>i. r = Inr i \<Longrightarrow> ww_names w' p = Some i \<and> ww_bytes w' i = (case path_look w p of None \<Rightarrow> [] | Some s \<Rightarrow> s)"
    "path_look w p \<noteq> None \<Longrightarrow> touches {} w w'"
    by simp_all
qed

lemma frames_create_dir_all: "frames (touches {}) (create_dir_all p)"
proof -
  have "touches {} w (w\<lparr>ww_dirs := (\<lambda>n. take n p) ` set [0..<Suc (length p)] \<union> ww_dirs w\<rparr>)"
    if "\<forall>n \<in> set [0..<Suc (length p)]. ww_names w (take n p) = None" for w
    using that by (auto simp: touches_def files_ok_def path_look_def)
  then have "frames (touches {}) (\<lambda>w.
      if \<exists>n \<in> set [0..<Suc (length p)]. ww_names w (take n p) \<noteq> None then (Inl NotADirectory, w)
      else (Inr (), w\<lparr>ww_dirs := (\<lambda>n. take n p) ` set [0..<Suc (length p)] \<union> ww_dirs w\<rparr>))"
    unfolding frames_def by (simp add: touched.R_refl)
  then show ?thesis
    unfolding create_dir_all_def by (rule touched.frames_call)
qed

lemma frames_create_parent [fsk]: "frames (touches S) (create_parent p)"
  unfolding create_parent_def
  by (auto split: option.split intro: touched.frames_ok frames_mono [OF frames_create_dir_all])

text \<open>Renaming moves one file over another; the target need not be there.\<close>

lemma rename_runs:
  assumes "rename_path c a b w = (r, w')"
  shows "touches {a, b} w w'" "ww_handles w' = ww_handles w" "\<And>e. r = Inl e \<Longrightarrow> touches {} w w'"
    "r = Inr () \<Longrightarrow> a \<noteq> b \<Longrightarrow> path_look w' b = path_look w a \<and> path_look w a \<noteq> None \<and> path_look w' a = None"
    "ww_faults w c = [] \<Longrightarrow> files_ok w \<Longrightarrow> path_look w a \<noteq> None \<Longrightarrow> path_look w b \<noteq> None \<Longrightarrow> r = Inr ()"
proof -
  let ?goal = "touches {a, b} w w' \<and> ww_handles w' = ww_handles w \<and> (\<forall>e. r = Inl e \<longrightarrow> touches {} w w')
    \<and> (r = Inr () \<longrightarrow> a \<noteq> b \<longrightarrow> path_look w' b = path_look w a \<and> path_look w a \<noteq> None \<and> path_look w' a = None)
    \<and> (ww_faults w c = [] \<longrightarrow> files_ok w \<longrightarrow> path_look w a \<noteq> None \<longrightarrow> path_look w b \<noteq> None \<longrightarrow> r = Inr ())"
  have ?goal
    using assms unfolding rename_path_def
  proof (cases rule: fs_callE)
    case fault
    then show ?thesis using touches_mono [of "{}" w w' "{a, b}"] by simp
  next
    case (acted w1)
    have small: "touches {a, b} w w1" using acted(2) by (rule touches_mono) simp
    show ?thesis
    proof (cases "\<exists>i. ww_names w1 a = Some i \<and> b \<notin> ww_dirs w1 \<and> a \<noteq> b")
      case True
      then obtain i where i: "ww_names w1 a = Some i" "b \<notin> ww_dirs w1" "a \<noteq> b" by blast
      then have w': "w' = w1\<lparr>ww_names := (ww_names w1)(a := None, b \<mapsto> i)\<rparr>" "r = Inr ()"
        using acted(1) by auto
      have "files_ok w'" if "files_ok w1"
        using that i unfolding w' files_ok_def by (auto split: if_splits)
      then have "touches {a, b} w1 w'"
        unfolding w' by (auto simp: touches_def path_look_def)
      then show ?thesis
        using w' i acted(3-7) touched.R_trans [OF small] by (simp add: path_look_def)
    next
      case False
      then have "w' = w1"
        using acted(1) by (auto split: option.splits if_splits)
      then show ?thesis
        using False acted small files_okD(3) [of w b] by (auto split: option.splits if_splits simp: look_Some)
    qed
  qed
  then show "touches {a, b} w w'" "ww_handles w' = ww_handles w" "\<And>e. r = Inl e \<Longrightarrow> touches {} w w'"
    "r = Inr () \<Longrightarrow> a \<noteq> b \<Longrightarrow> path_look w' b = path_look w a \<and> path_look w a \<noteq> None \<and> path_look w' a = None"
    "ww_faults w c = [] \<Longrightarrow> files_ok w \<Longrightarrow> path_look w a \<noteq> None \<Longrightarrow> path_look w b \<noteq> None \<Longrightarrow> r = Inr ()"
    by simp_all
qed

lemma remove_runs:
  assumes "w' = remove_transaction_sidecar p w"
  shows "touches {p} w w'" "ww_handles w' = ww_handles w" "ww_faults w Undo = [] \<Longrightarrow> path_look w' p = None"
proof -
  obtain r where run: "remove_path Undo p w = (r, w')"
    using assms unfolding remove_transaction_sidecar_def by (metis prod.collapse)
  have "touches {p} w w' \<and> ww_handles w' = ww_handles w \<and> (ww_faults w Undo = [] \<longrightarrow> path_look w' p = None)"
    using run unfolding remove_path_def
  proof (cases rule: fs_callE)
    case fault
    then show ?thesis using touches_mono [of "{}" w w' "{p}"] by simp
  next
    case (acted w1)
    have small: "touches {p} w w1" using acted(2) by (rule touches_mono) simp
    have "touches {p} w1 (w1\<lparr>ww_names := (ww_names w1)(p := None)\<rparr>)"
      by (auto simp: touches_def files_ok_def path_look_def)
    then show ?thesis
      using acted small touched.R_trans [OF small] by (auto split: option.splits)
  qed
  then show "touches {p} w w'" "ww_handles w' = ww_handles w" "ww_faults w Undo = [] \<Longrightarrow> path_look w' p = None"
    by simp_all
qed

declare look_None [simp del]

end
