(* ===== verification/Writer_Rewrites.thy ===== *)
theory Writer_Rewrites
  imports Writer_Calls
begin

text \<open>
  The files of a transaction: staging, backing up, renaming and undoing. As long as the undoing calls work, a
  transaction in the middle can go back to where it began; whatever fails, a target is whole.
\<close>

section \<open>The files beside a target\<close>

lemma path_sibling_Inr:
  "path_sibling p ext = Inr q \<longleftrightarrow> p \<noteq> [] \<and> normal_component (last p) \<and> q = butlast p @ [last p @ ext]"
  by (auto simp: path_sibling_def path_file_name_def)

lemma path_sibling_inj:
  assumes "path_sibling p ext = Inr q" "path_sibling p' ext = Inr q"
  shows "p = p'"
proof -
  have q: "p \<noteq> []" "p' \<noteq> []" "q = butlast p @ [last p @ ext]" "q = butlast p' @ [last p' @ ext]"
    using assms by (simp_all add: path_sibling_Inr)
  then have "butlast p = butlast p'" "last p = last p'"
    by simp_all
  then show ?thesis
    using q(1,2) append_butlast_last_id by metis
qed

lemma tmp_inj: "transaction_tmp_path p i = Inr q \<Longrightarrow> transaction_tmp_path p' i = Inr q \<Longrightarrow> p = p'"
  unfolding transaction_tmp_path_def transaction_sidecar_path_def by (rule path_sibling_inj)

lemma backup_inj: "transaction_backup_path p i = Inr q \<Longrightarrow> transaction_backup_path p' i = Inr q \<Longrightarrow> p = p'"
  unfolding transaction_backup_path_def transaction_sidecar_path_def by (rule path_sibling_inj)

lemma tmp_no_backup:
  "transaction_tmp_path p i = Inr q \<Longrightarrow> transaction_backup_path p' i = Inr q' \<Longrightarrow> q \<noteq> q'"
  by (auto simp: transaction_tmp_path_def transaction_backup_path_def transaction_sidecar_path_def path_sibling_Inr)

definition sidecars :: "string \<Rightarrow> file_path set \<Rightarrow> file_path set" where
  "sidecars i ps = {q. \<exists>p \<in> ps. transaction_tmp_path p i = Inr q \<or> transaction_backup_path p i = Inr q}"

definition staged_for :: "string \<Rightarrow> staged_rewrite \<Rightarrow> bool" where
  "staged_for i s \<longleftrightarrow> transaction_tmp_path (sr_target s) i = Inr (sr_tmp s) \<and>
     (\<forall>b. sr_backup s = Some b \<longrightarrow> transaction_backup_path (sr_target s) i = Inr b)"

abbreviation targets :: "staged_rewrite list \<Rightarrow> file_path set" where
  "targets ss \<equiv> sr_target ` set ss"

abbreviation tmps :: "staged_rewrite list \<Rightarrow> file_path set" where
  "tmps ss \<equiv> sr_tmp ` set ss"

definition backups :: "staged_rewrite list \<Rightarrow> file_path set" where
  "backups ss = {b. \<exists>s \<in> set ss. sr_backup s = Some b}"

lemma backups_simps [simp]:
  "backups [] = {}"
  "backups (s # ss) = set_option (sr_backup s) \<union> backups ss"
  "backups (ss @ ss') = backups ss \<union> backups ss'"
  by (auto simp: backups_def)

text \<open>A staging as the code lays it out: targets differ, and no file beside a target is a target.\<close>

definition laid_out :: "string \<Rightarrow> staged_rewrite list \<Rightarrow> bool" where
  "laid_out i ss \<longleftrightarrow>
     distinct (map sr_target ss) \<and> list_all (staged_for i) ss \<and> sidecars i (targets ss) \<inter> targets ss = {}"

lemma laid_out_apart:
  assumes "laid_out i ss" "s \<in> set ss" "t \<in> set ss"
  shows "sr_tmp s \<noteq> sr_target t" "sr_backup s = Some b \<Longrightarrow> b \<noteq> sr_target t" "sr_backup s = Some b \<Longrightarrow> b \<noteq> sr_tmp t"
    "sr_tmp s = sr_tmp t \<Longrightarrow> s = t" "sr_backup s = Some b \<Longrightarrow> sr_backup t = Some b \<Longrightarrow> s = t" "sr_target s = sr_target t \<Longrightarrow> s = t"
proof -
  have same: "sr_target s = sr_target t \<Longrightarrow> s = t"
    using assms by (auto simp: laid_out_def distinct_map inj_on_def)
  then show "sr_target s = sr_target t \<Longrightarrow> s = t" .
  have for_s: "staged_for i s" and for_t: "staged_for i t"
    using assms by (auto simp: laid_out_def list_all_iff)
  have "sr_tmp s \<in> sidecars i (targets ss)" "sr_backup s = Some b \<Longrightarrow> b \<in> sidecars i (targets ss)" for b
    using for_s assms(2) by (auto simp: staged_for_def sidecars_def)
  then show "sr_tmp s \<noteq> sr_target t" "sr_backup s = Some b \<Longrightarrow> b \<noteq> sr_target t" for b
    using assms by (auto simp: laid_out_def)
  show "sr_backup s = Some b \<Longrightarrow> b \<noteq> sr_tmp t" for b
    using for_s for_t tmp_no_backup [of "sr_target t" i "sr_tmp t" "sr_target s" b] by (auto simp: staged_for_def)
  show "sr_tmp s = sr_tmp t \<Longrightarrow> s = t"
    using for_s for_t tmp_inj same by (auto simp: staged_for_def)
  show "sr_backup s = Some b \<Longrightarrow> sr_backup t = Some b \<Longrightarrow> s = t" for b
    using for_s for_t backup_inj same by (auto simp: staged_for_def)
qed

lemma laid_out_target:
  assumes "laid_out i ss" "s \<in> set ss"
  shows "sr_target s \<notin> tmps ss" "sr_target s \<notin> backups ss"
proof -
  show "sr_target s \<notin> tmps ss"
    using laid_out_apart(1) [OF assms(1) _ assms(2)] by (metis imageE)
  show "sr_target s \<notin> backups ss"
    using laid_out_apart(2) [OF assms(1) _ assms(2)] unfolding backups_def by blast
qed

section \<open>Staging\<close>

lemma run_cases:
  obtains (Inl) e w where "x = (Inl e, w)" | (Inr) y w where "x = (Inr y, w)"
  by (cases x; cases "fst x") auto

lemma stage_one_runs:
  assumes "stage_one i r w = (res, ss, w')"
  shows "touches (tmps ss) w w'"
    "ss = [] \<and> (\<exists>e. res = Inl e) \<or>
      (\<exists>tmp. ss = [\<lparr>sr_target = fr_path r, sr_tmp = tmp, sr_backup = None\<rparr>] \<and> transaction_tmp_path (fr_path r) i = Inr tmp
        \<and> (files_ok w \<longrightarrow> path_look w tmp = None) \<and> (files_ok w \<longrightarrow> res = Inr () \<longrightarrow> path_look w' tmp = Some (fr_new_contents r)))"
proof -
  let ?open = "fs_bind (create_parent (fr_path r)) (\<lambda>_. fs_bind (fs_lift (transaction_tmp_path (fr_path r) i)) (\<lambda>tmp.
    fs_bind (open_new tmp) (\<lambda>n. fs_ok (tmp, n)))) w"
  have opened: "touches {} w w1" if "?open = (Inl e, w1)" for e w1
    using that
    by (auto elim!: fs_bindE dest!: open_new_runs(3) touched.framesD [OF frames_create_parent]
        intro: touched.R_trans simp: fs_lift_def fs_ok_def)
  have made: "\<exists>w0. touches {} w w0 \<and> transaction_tmp_path (fr_path r) i = Inr tmp \<and> open_new tmp w0 = (Inr n, w1)"
    if "?open = (Inr (tmp, n), w1)" for tmp n w1
    using that
    by (auto elim!: fs_bind_Inr dest!: touched.framesD [OF frames_create_parent] simp: fs_lift_def fs_ok_def)
  have "touches (tmps ss) w w' \<and> (ss = [] \<and> (\<exists>e. res = Inl e) \<or>
      (\<exists>tmp. ss = [\<lparr>sr_target = fr_path r, sr_tmp = tmp, sr_backup = None\<rparr>] \<and> transaction_tmp_path (fr_path r) i = Inr tmp
        \<and> (files_ok w \<longrightarrow> path_look w tmp = None) \<and> (files_ok w \<longrightarrow> res = Inr () \<longrightarrow> path_look w' tmp = Some (fr_new_contents r))))"
  proof (cases "?open" rule: run_cases)
    case (Inl e w1)
    then show ?thesis using assms opened [OF Inl] by (auto simp: stage_one_def)
  next
    case (Inr x w1)
    obtain tmp n where x: "x = (tmp, n)" by (cases x)
    then have run: "?open = (Inr (tmp, n), w1)" using Inr by simp
    then obtain w0 where w0: "touches {} w w0" "transaction_tmp_path (fr_path r) i = Inr tmp" "open_new tmp w0 = (Inr n, w1)"
      using made by blast
    note new = open_new_runs(1) [OF w0(3)] open_new_runs(4) [OF w0(3) refl]
    have ss: "ss = [\<lparr>sr_target = fr_path r, sr_tmp = tmp, sr_backup = None\<rparr>]"
      and wrote: "fs_bind (write_all n (fr_new_contents r)) (\<lambda>_. sync_inode) w1 = (res, w')"
      using assms run by (auto simp: stage_one_def split: prod.splits)
    have first: "touches {tmp} w w1"
      using touches_trans [OF w0(1) new(1)] by simp
    have free: "files_ok w \<longrightarrow> path_look w tmp = None"
      using w0(1) new(2) touches_look [of "{}" w w0 tmp] by (auto)
    from wrote have "touches {tmp} w1 w' \<and> (res = Inr () \<longrightarrow> files_ok w1 \<longrightarrow> path_look w' tmp = Some (fr_new_contents r))"
    proof (cases rule: fs_bindE)
      case (error e)
      then show ?thesis using write_all_runs(1) [OF error(1), of tmp] new(2) by simp
    next
      case (ok x w2)
      have named: "ww_names w1 tmp = Some n" using new(2) by simp
      note out = write_all_runs [OF ok(1) named]
      have sync: "touches {} w2 w'" by (rule touched.framesD [OF touched.frames_sync ok(2)])
      have "path_look w' tmp = Some (fr_new_contents r)" if "files_ok w1"
        using out(4) new(2) touches_look [OF sync touches_ok [OF out(1) that]] by simp
      then show ?thesis
        using touches_trans [OF out(1) sync] by simp
    qed
    then show ?thesis
      using ss w0(2) free touched.R_trans [OF first, of w'] touches_ok [OF first] by simp
  qed
  then show "touches (tmps ss) w w'"
    "ss = [] \<and> (\<exists>e. res = Inl e) \<or>
      (\<exists>tmp. ss = [\<lparr>sr_target = fr_path r, sr_tmp = tmp, sr_backup = None\<rparr>] \<and> transaction_tmp_path (fr_path r) i = Inr tmp
        \<and> (files_ok w \<longrightarrow> path_look w tmp = None) \<and> (files_ok w \<longrightarrow> res = Inr () \<longrightarrow> path_look w' tmp = Some (fr_new_contents r)))"
    by blast+
qed

lemma stage_rewrites_runs:
  assumes "stage_rewrites i rs w = (res, ss, w')" "files_ok w"
  shows "touches (tmps ss) w w' \<and> map sr_target ss = take (length ss) (map fr_path rs) \<and> list_all (staged_for i) ss
    \<and> backups ss = {} \<and> (\<forall>s \<in> set ss. path_look w (sr_tmp s) = None)
    \<and> (res = Inr () \<longrightarrow> list_all2 (\<lambda>r s. sr_target s = fr_path r \<and> path_look w' (sr_tmp s) = Some (fr_new_contents r)) rs ss)"
  using assms
proof (induction rs arbitrary: w ss)
  case Nil
  then show ?case by (simp add: touched.R_refl)
next
  case (Cons r rs)
  show ?case
  proof (cases "stage_one i r w")
    case (fields one s1 w1)
    note run = stage_one_runs [OF fields]
    show ?thesis
    proof (cases one)
      case (Inl e)
      then show ?thesis
        using Cons.prems fields run by (auto simp: staged_for_def backups_def)
    next
      case (Inr u)
      obtain tmp where s1: "s1 = [\<lparr>sr_target = fr_path r, sr_tmp = tmp, sr_backup = None\<rparr>]"
        and tmp: "transaction_tmp_path (fr_path r) i = Inr tmp" "path_look w tmp = None" "path_look w1 tmp = Some (fr_new_contents r)"
        using run Inr Cons.prems(2) by auto
      obtain ss2 where rest: "stage_rewrites i rs w1 = (res, ss2, w')" and ss: "ss = s1 @ ss2"
        using Cons.prems(1) fields Inr by (auto split: prod.splits)
      have ok1: "files_ok w1" using touches_ok [OF run(1) Cons.prems(2)] .
      note IH = Cons.IH [OF rest ok1]
      have "path_look w (sr_tmp s) = None" if "s \<in> set ss2" for s
        using IH that tmp(2,3) touches_look [OF run(1) Cons.prems(2), of "sr_tmp s"] s1
        by (cases "sr_tmp s = tmp") (auto)
      moreover have "path_look w' tmp = Some (fr_new_contents r)"
      proof -
        have "tmp \<notin> tmps ss2" using IH tmp(3) by force
        then show ?thesis using IH tmp(3) touches_look [OF _ ok1, of "tmps ss2" w' tmp] by simp
      qed
      ultimately show ?thesis
        using IH ss s1 tmp touches_trans [OF run(1), of "tmps ss2" w'] by (simp add: staged_for_def)
    qed
  qed
qed

section \<open>Backing up\<close>

lemma path_exists_runs:
  assumes "path_exists p w = (r, w')"
  shows "touches {} w w'" "\<exists>b. r = Inr b"
    "ww_faults w Look = [] \<Longrightarrow> r = Inr (path_look w p \<noteq> None \<or> p \<in> ww_dirs w)"
proof -
  obtain f w1 where fault: "next_fault Look w = (f, w1)" by fastforce
  note facts = next_faultD [OF fault]
  show "touches {} w w'" "\<exists>b. r = Inr b"
    "ww_faults w Look = [] \<Longrightarrow> r = Inr (path_look w p \<noteq> None \<or> p \<in> ww_dirs w)"
    using assms facts unfolding path_exists_def fault by (auto split: option.splits simp: look_None)
qed

lemma open_there_runs:
  assumes "open_there p w = (r, w')"
  shows "touches {} w w'" "r = Inr i \<Longrightarrow> ww_names w' p = Some i"
  using touched.framesD [OF touched.frames_open_there assms] apply assumption
  using assms unfolding open_there_def by (cases rule: fs_callE) (auto split: option.splits)

lemma open_new_refused: "open_new p w = (Inl e, w') \<Longrightarrow> touches {} w w'"
  using open_new_runs(3) by blast

lemma open_new_names:
  assumes "open_new p w = (r, w')" "q \<noteq> p"
  shows "ww_names w' q = ww_names w q"
proof -
  obtain f w1 where fault: "next_fault Work w = (f, w1)" by fastforce
  then have "ww_names w1 = ww_names w" by (rule next_faultD(1))
  then show ?thesis
    using assms unfolding open_new_def fs_call_def fault
    by (auto simp: new_inode_def split: option.splits if_splits sum.splits)
qed

lemma copy_contents_runs:
  assumes "copy_contents a i w = (r, w')" "ww_names w p = Some i" "ww_bytes w i = []"
  shows "touches {p} w w' \<and> (r = Inr () \<longrightarrow> path_look w' p = Some (ww_bytes w a))"
  using assms(1) unfolding copy_contents_def
proof (cases rule: fs_bindE)
  case (error e)
  then have "touches {p} w w'" by (auto elim!: fs_callE intro: touches_mono)
  then show ?thesis using error by simp
next
  case (ok bytes w1)
  from ok(1) have read: "touches {p} w w1" "ww_names w1 p = Some i" "bytes = ww_bytes w a" "ww_bytes w1 i = []"
    using assms(2,3) by (auto elim!: fs_callE intro: touches_mono)
  show ?thesis
    using write_all_runs [OF ok(2) read(2)] touched.R_trans [OF read(1)] read by simp
qed

lemma then_sync:
  assumes "fs_bind m (\<lambda>_. sync_inode) w = (r, w')" "files_ok w"
    and m: "\<And>r1 w1. m w = (r1, w1) \<Longrightarrow> touches {p} w w1 \<and> (r1 = Inr () \<longrightarrow> path_look w1 p = Some s)"
  shows "touches {p} w w' \<and> (r = Inr () \<longrightarrow> path_look w' p = Some s)"
  using assms(1)
proof (cases rule: fs_bindE)
  case (error e)
  then show ?thesis using m by blast
next
  case (ok x w1)
  note m1 = m [OF ok(1)]
  have sync: "touches {} w1 w'" by (rule touched.framesD [OF touched.frames_sync ok(2)])
  have "files_ok w1" using m1 touches_ok assms(2) by blast
  then show ?thesis
    using m1 touches_trans [of "{p}" w w1 "{}" w'] sync touches_look [OF sync, of p] by simp
qed

text \<open>The backup holds what the target held; without one the target was not there, as far as could be
  told.\<close>

definition backed_up :: "writer_world \<Rightarrow> writer_world \<Rightarrow> staged_rewrite \<Rightarrow> bool" where
  "backed_up w0 w s \<longleftrightarrow>
     (case sr_backup s of
        None \<Rightarrow> ww_faults w0 Look = [] \<longrightarrow> path_look w0 (sr_target s) = None
      | Some b \<Rightarrow> path_look w0 (sr_target s) \<noteq> None \<and> path_look w b = path_look w0 (sr_target s))"

lemma backup_one_runs:
  assumes "backup_one i s w = (res, s', w')" "files_ok w" "staged_for i s" "sr_backup s = None"
  shows "staged_for i s' \<and> sr_target s' = sr_target s \<and> sr_tmp s' = sr_tmp s \<and> touches (set_option (sr_backup s')) w w'
    \<and> (\<forall>b. sr_backup s' = Some b \<longrightarrow> path_look w b = None)
    \<and> (res = Inr () \<longrightarrow> backed_up w w' s')"
proof -
  let ?ask = "fs_bind (path_exists (sr_target s)) (\<lambda>there.
      if \<not> there then fs_ok None
      else fs_bind (fs_lift (transaction_backup_path (sr_target s) i)) (\<lambda>backup.
        fs_bind (open_there (sr_target s)) (\<lambda>source. fs_bind (open_new backup) (\<lambda>n. fs_ok (Some (backup, source, n)))))) w"
  have refused: "touches {} w w1" if "?ask = (Inl e, w1)" for e w1
    using that
    by (auto elim!: fs_bindE split: if_splits simp: fs_lift_def fs_ok_def
        dest!: path_exists_runs(1) open_there_runs(1) open_new_refused) (meson touched.R_trans)+
  have absent: "touches {} w w1 \<and> (ww_faults w Look = [] \<longrightarrow> path_look w (sr_target s) = None)" if "?ask = (Inr None, w1)" for w1
    using that path_exists_runs
    by (fastforce elim!: fs_bind_Inr split: if_splits simp: fs_lift_def fs_ok_def)
  have there: "\<exists>w0 w2. touches {} w w0 \<and> transaction_backup_path (sr_target s) i = Inr b
      \<and> open_there (sr_target s) w0 = (Inr a, w2) \<and> open_new b w2 = (Inr n, w1)"
    if "?ask = (Inr (Some (b, a, n)), w1)" for b a n w1
    using that path_exists_runs(1)
    by (fastforce elim!: fs_bind_Inr split: if_splits simp: fs_lift_def fs_ok_def)
  show ?thesis
  proof (cases "?ask" rule: run_cases)
    case (Inl e w1)
    then show ?thesis using assms refused [OF Inl] by (auto simp: backup_one_def backed_up_def)
  next
    case (Inr x w1)
    show ?thesis
    proof (cases x)
      case None
      then show ?thesis using assms absent Inr by (auto simp: backup_one_def backed_up_def)
    next
      case (Some y)
      obtain b a n where y: "y = (b, a, n)" by (cases y)
      with Inr Some have run: "?ask = (Inr (Some (b, a, n)), w1)" by simp
      obtain w0 w2 where w0: "touches {} w w0" "transaction_backup_path (sr_target s) i = Inr b"
        and a: "open_there (sr_target s) w0 = (Inr a, w2)" and n: "open_new b w2 = (Inr n, w1)"
        using there [OF run] by blast
      have s': "s' = s\<lparr>sr_backup := Some b\<rparr>"
        and copied: "fs_bind (copy_contents a n) (\<lambda>_. sync_inode) w1 = (res, w')"
        using assms(1) run by (auto simp: backup_one_def split: prod.splits)
      note src = open_there_runs [OF a]
      note new = open_new_runs(1) [OF n] open_new_runs(4) [OF n refl]
      have t02: "touches {} w w2" by (rule touched.R_trans [OF w0(1) src(1)])
      have ok2: "files_ok w2" using touches_ok [OF t02 assms(2)] .
      have t12: "touches {b} w w1" using touches_trans [OF t02 new(1)] by simp
      have ok1: "files_ok w1" using touches_ok [OF t12 assms(2)] .
      have copy: "touches {b} w1 w' \<and> (res = Inr () \<longrightarrow> path_look w' b = Some (ww_bytes w1 a))"
        by (rule then_sync [OF copied ok1]) (use copy_contents_runs new(2) in blast)
      have named: "ww_names w2 (sr_target s) = Some a" using src(2) by simp
      have free: "path_look w b = None"
        using new(2) touches_look [OF t02 assms(2), of b] by simp
      have "b \<noteq> sr_target s" using named new(2) by (auto simp: look_None)
      then have kept: "path_look w1 (sr_target s) = path_look w (sr_target s)" "path_look w2 (sr_target s) = path_look w (sr_target s)"
        using touches_look [OF t12 assms(2)] touches_look [OF t02 assms(2)] by auto
      have "ww_names w1 (sr_target s) = Some a"
        using open_new_names [OF n] named \<open>b \<noteq> sr_target s\<close> by simp
      then have "path_look w (sr_target s) = Some (ww_bytes w1 a)"
        using kept by (simp add: path_look_def)
      then show ?thesis
        using s' assms(3) w0(2) free copy touched.R_trans [OF t12]
        by (auto simp: staged_for_def backed_up_def)
    qed
  qed
qed

lemma laid_out_Cons: "laid_out i (s # ss) \<Longrightarrow> laid_out i ss"
  by (auto simp: laid_out_def sidecars_def)

lemma laid_out_backups:
  assumes "map sr_target ss' = map sr_target ss" "list_all (staged_for i) ss'" "laid_out i ss"
  shows "laid_out i ss'"
proof -
  have "targets ss' = targets ss"
    using assms(1) by (metis list.set_map)
  then show ?thesis
    using assms by (simp add: laid_out_def)
qed

lemma backup_all_runs:
  assumes "backup_all i ss w = (res, ss', w')" "files_ok w" "laid_out i ss" "backups ss = {}"
  shows "map sr_target ss' = map sr_target ss \<and> map sr_tmp ss' = map sr_tmp ss \<and> list_all (staged_for i) ss'
    \<and> touches (backups ss') w w' \<and> (\<forall>b \<in> backups ss'. path_look w b = None)
    \<and> (res = Inr () \<longrightarrow> (\<forall>s \<in> set ss'. backed_up w w' s))"
  using assms
proof (induction ss arbitrary: w ss')
  case Nil
  then show ?case by (simp add: touched.R_refl)
next
  case (Cons s ss)
  obtain one s1 w1 where fields: "backup_one i s w = (one, s1, w1)" by (metis surj_pair)
  have for_s: "staged_for i s" "sr_backup s = None"
    using Cons.prems by (auto simp: laid_out_def)
  note run = backup_one_runs [OF fields Cons.prems(2) for_s]
  show ?case
  proof (cases one)
    case (Inl e)
    then show ?thesis
      using Cons.prems fields run by (auto simp: laid_out_def)
  next
    case (Inr u)
    obtain ss2 where rest: "backup_all i ss w1 = (res, ss2, w')" and ss': "ss' = s1 # ss2"
      using Cons.prems(1) fields Inr by (auto split: prod.splits)
    have t1: "touches (set_option (sr_backup s1)) w w1" using run by blast
    have ok1: "files_ok w1" using touches_ok [OF t1 Cons.prems(2)] .
    have IH: "map sr_target ss2 = map sr_target ss \<and> map sr_tmp ss2 = map sr_tmp ss \<and> list_all (staged_for i) ss2
      \<and> touches (backups ss2) w1 w' \<and> (\<forall>b \<in> backups ss2. path_look w1 b = None)
      \<and> (res = Inr () \<longrightarrow> (\<forall>s \<in> set ss2. backed_up w1 w' s))"
      using Cons.IH [OF rest ok1 laid_out_Cons [OF Cons.prems(3)]] Cons.prems(4) by simp
    have own: "backed_up w w1 s1" using run Inr by simp
    have apart: "b \<notin> backups ss2" if "sr_backup s1 = Some b" for b
      using that own IH by (force simp: backed_up_def)
    have "path_look w b = None" if "b \<in> backups ss2" for b
    proof -
      have "b \<notin> set_option (sr_backup s1)" using apart that by auto
      then show ?thesis using that IH touches_look [OF t1 Cons.prems(2), of b] by metis
    qed
    moreover have "backed_up w w' s1"
      using own apart IH touches_look [OF _ ok1] by (cases "sr_backup s1") (auto simp: backed_up_def)
    moreover have "backed_up w w' t" if "t \<in> set ss2" "backed_up w1 w' t" for t
    proof -
      have "sr_target t \<in> targets ss"
        using IH that(1) by (metis list.set_map imageI)
      then have "sr_target t \<noteq> b" if "sr_backup s1 = Some b" for b
        using run that Cons.prems(3) by (auto simp: laid_out_def sidecars_def staged_for_def)
      then have "path_look w1 (sr_target t) = path_look w (sr_target t)"
        using touches_look [OF t1 Cons.prems(2), of "sr_target t"] by (cases "sr_backup s1") auto
      then show ?thesis
        using that(2) touches_faults [OF t1] by (auto simp: backed_up_def split: option.splits)
    qed
    ultimately show ?thesis
      using IH ss' run touches_trans [OF t1, of "backups ss2" w'] by auto
  qed
qed

section \<open>Renaming, and undoing it\<close>

text \<open>In the middle of a transaction that began in \<open>w0\<close>: what is renamed has its backup, and nothing else
  changed but the files beside the targets and those in \<open>E\<close>.\<close>

definition ready :: "writer_world \<Rightarrow> writer_world \<Rightarrow> staged_rewrite \<Rightarrow> bool" where
  "ready w0 w s \<longleftrightarrow>
     (case sr_backup s of
        None \<Rightarrow> path_look w0 (sr_target s) = None
      | Some b \<Rightarrow> path_look w0 (sr_target s) \<noteq> None \<and> path_look w b = path_look w0 (sr_target s))"

definition midway :: "file_path set \<Rightarrow> writer_world \<Rightarrow> staged_rewrite list \<Rightarrow> staged_rewrite list \<Rightarrow> writer_world \<Rightarrow> bool" where
  "midway E w0 ss renamed w \<longleftrightarrow>
     files_ok w \<and> set renamed \<subseteq> set ss \<and> distinct renamed \<and>
     (\<forall>p. p \<notin> tmps ss \<union> backups ss \<union> targets renamed \<union> E \<longrightarrow> path_look w p = path_look w0 p) \<and>
     (\<forall>s \<in> set renamed. path_look w (sr_target s) \<noteq> None \<and> ready w0 w s)"

definition undo_value :: "staged_rewrite \<Rightarrow> writer_world \<Rightarrow> string option" where
  "undo_value s w = (case sr_backup s of None \<Rightarrow> None | Some b \<Rightarrow> path_look w b)"

lemma ready_undo: "ready w0 w s \<Longrightarrow> undo_value s w = path_look w0 (sr_target s)"
  by (simp add: ready_def undo_value_def split: option.splits)

lemma ready_held: "ready w0 w s \<Longrightarrow> sr_backup s = Some b \<Longrightarrow> path_look w b \<noteq> None"
  by (simp add: ready_def)

lemma ready_cong: "(\<And>b. sr_backup s = Some b \<Longrightarrow> path_look w' b = path_look w b) \<Longrightarrow> ready w0 w' s = ready w0 w s"
  by (auto simp: ready_def split: option.splits)

lemma rollback_one_runs:
  assumes "sr_backup s \<noteq> Some (sr_target s)" "files_ok w"
  shows "touches (insert (sr_target s) (set_option (sr_backup s))) w (rollback_one s w)"
    and "path_look (rollback_one s w) (sr_target s) \<in> {path_look w (sr_target s), undo_value s w}"
    and "ww_faults w Undo = [] \<Longrightarrow> path_look w (sr_target s) \<noteq> None \<Longrightarrow> (\<And>b. sr_backup s = Some b \<Longrightarrow> path_look w b \<noteq> None)
      \<Longrightarrow> path_look (rollback_one s w) (sr_target s) = undo_value s w"
proof -
  have "touches (insert (sr_target s) (set_option (sr_backup s))) w (rollback_one s w)
    \<and> path_look (rollback_one s w) (sr_target s) \<in> {path_look w (sr_target s), undo_value s w}
    \<and> (ww_faults w Undo = [] \<longrightarrow> path_look w (sr_target s) \<noteq> None \<longrightarrow> (\<forall>b. sr_backup s = Some b \<longrightarrow> path_look w b \<noteq> None)
      \<longrightarrow> path_look (rollback_one s w) (sr_target s) = undo_value s w)"
  proof (cases "sr_backup s")
    case None
    let ?w' = "remove_transaction_sidecar (sr_target s) w"
    have "path_look ?w' (sr_target s) \<in> {path_look w (sr_target s), None}"
    proof -
      obtain r w' where w': "remove_path Undo (sr_target s) w = (r, w')" by fastforce
      then have "path_look w' (sr_target s) \<in> {path_look w (sr_target s), None}"
        unfolding remove_path_def
      proof (cases rule: fs_callE)
        case fault
        then show ?thesis using touches_look [OF fault(3) assms(2)] by simp
      next
        case (acted w1)
        show ?thesis
        proof (cases "ww_names w1 (sr_target s)")
          case None
          then show ?thesis using acted by (simp add: path_look_def)
        next
          case (Some n)
          then have "ww_names w' (sr_target s) = None" using acted(1) by auto
          then show ?thesis by (simp add: look_None)
        qed
      qed
      then show ?thesis
        using w' by (simp add: remove_transaction_sidecar_def)
    qed
    then show ?thesis
      using None remove_runs [of ?w' "sr_target s" w] by (simp add: rollback_one_def undo_value_def)
  next
    case (Some b)
    then have apart: "b \<noteq> sr_target s" using assms(1) by simp
    obtain r w' where run: "rename_path Undo b (sr_target s) w = (r, w')" by fastforce
    note out = rename_runs [OF run]
    have "path_look w' (sr_target s) \<in> {path_look w (sr_target s), path_look w b}"
    proof (cases r)
      case (Inl e)
      then show ?thesis using touches_look [OF out(3) [OF Inl] assms(2)] by simp
    next
      case (Inr u)
      then show ?thesis using out(4) apart by simp
    qed
    then show ?thesis
      using Some run out apart assms(2) by (simp add: rollback_one_def undo_value_def insert_commute)
  qed
  then show "touches (insert (sr_target s) (set_option (sr_backup s))) w (rollback_one s w)"
    and "path_look (rollback_one s w) (sr_target s) \<in> {path_look w (sr_target s), undo_value s w}"
    and "ww_faults w Undo = [] \<Longrightarrow> path_look w (sr_target s) \<noteq> None \<Longrightarrow> (\<And>b. sr_backup s = Some b \<Longrightarrow> path_look w b \<noteq> None)
      \<Longrightarrow> path_look (rollback_one s w) (sr_target s) = undo_value s w"
    by blast+
qed

lemma rollback_snoc:
  "rollback_renamed_rewrites (done @ [s]) w = rollback_renamed_rewrites done (rollback_one s w)"
  by (simp add: rollback_renamed_rewrites_def)

lemma midway_rollback_one:
  assumes laid: "laid_out i ss" and mid: "midway E w0 ss (done @ [s]) w"
    and E: "E \<inter> (tmps ss \<union> backups ss \<union> targets ss) = {}" and undo: "ww_faults w Undo = []"
  shows "midway E w0 ss done (rollback_one s w)" "ww_faults (rollback_one s w) Undo = []"
proof -
  let ?w' = "rollback_one s w"
  have s: "s \<in> set ss" "s \<notin> set done" and ok: "files_ok w"
    using mid by (auto simp: midway_def)
  have no: "sr_backup s \<noteq> Some (sr_target s)"
    using laid_out_apart(2) [OF laid s(1) s(1)] by blast
  have held: "path_look w (sr_target s) \<noteq> None" "undo_value s w = path_look w0 (sr_target s)"
    "\<And>b. sr_backup s = Some b \<Longrightarrow> path_look w b \<noteq> None"
    using mid ready_undo ready_held by (auto simp: midway_def)
  note run = rollback_one_runs(1,3) [OF no ok]
  have restored: "path_look ?w' (sr_target s) = path_look w0 (sr_target s)"
    using run(2) undo held by simp
  have other: "path_look ?w' p = path_look w p" if "p \<noteq> sr_target s" "sr_backup s \<noteq> Some p" for p
    using touches_look [OF run(1) ok, of p] that by auto
  have "path_look ?w' p = path_look w0 p" if p: "p \<notin> tmps ss \<union> backups ss \<union> targets done \<union> E" for p
  proof (cases "p = sr_target s")
    case False
    moreover have "sr_backup s \<noteq> Some p" using p s(1) by (auto simp: backups_def)
    ultimately show ?thesis using mid p other by (simp add: midway_def)
  qed (simp add: restored)
  moreover have "path_look ?w' (sr_target t) = path_look w (sr_target t)"
    "sr_backup t = Some b \<Longrightarrow> path_look ?w' b = path_look w b" if "t \<in> set done" for t b
  proof -
    have t: "t \<in> set ss" "t \<noteq> s" using that s mid by (auto simp: midway_def)
    show "path_look ?w' (sr_target t) = path_look w (sr_target t)"
    proof (rule other)
      show "sr_target t \<noteq> sr_target s" using laid_out_apart(6) [OF laid t(1) s(1)] t(2) by blast
      show "sr_backup s \<noteq> Some (sr_target t)" using laid_out_apart(2) [OF laid s(1) t(1)] by blast
    qed
    show "path_look ?w' b = path_look w b" if "sr_backup t = Some b"
    proof (rule other)
      show "b \<noteq> sr_target s" using laid_out_apart(2) [OF laid t(1) s(1) that] .
      show "sr_backup s \<noteq> Some b" using laid_out_apart(5) [OF laid t(1) s(1) that] t(2) by blast
    qed
  qed
  moreover from this have "ready w0 ?w' t = ready w0 w t" if "t \<in> set done" for t
    using that by (intro ready_cong) blast
  ultimately show "midway E w0 ss done ?w'"
    using mid touches_ok [OF run(1) ok] by (auto simp: midway_def)
  show "ww_faults ?w' Undo = []"
    using touches_faults [OF run(1) undo] .
qed

lemma midway_rollback:
  assumes "laid_out i ss" "midway E w0 ss done w" "E \<inter> (tmps ss \<union> backups ss \<union> targets ss) = {}" "ww_faults w Undo = []"
  shows "midway E w0 ss [] (rollback_renamed_rewrites done w)
    \<and> ww_faults (rollback_renamed_rewrites done w) Undo = []"
  using assms(2,4)
proof (induction "done" arbitrary: w rule: rev_induct)
  case Nil
  then show ?case by (simp add: rollback_renamed_rewrites_def)
next
  case (snoc s "done")
  show ?case
    using snoc.IH midway_rollback_one [OF assms(1) snoc.prems(1) assms(3) snoc.prems(2)] by (simp add: rollback_snoc)
qed

text \<open>Whatever fails while undoing: every target holds its old contents or its new ones.\<close>

definition whole :: "writer_world \<Rightarrow> (file_path \<Rightarrow> string) \<Rightarrow> staged_rewrite list \<Rightarrow> writer_world \<Rightarrow> bool" where
  "whole w0 fresh ss w \<longleftrightarrow>
     (\<forall>s \<in> set ss. path_look w (sr_target s) \<in> {path_look w0 (sr_target s), Some (fresh (sr_target s))})"

definition undoable :: "writer_world \<Rightarrow> staged_rewrite list \<Rightarrow> staged_rewrite list \<Rightarrow> writer_world \<Rightarrow> bool" where
  "undoable w0 ss renamed w \<longleftrightarrow>
     files_ok w \<and> set renamed \<subseteq> set ss \<and> distinct renamed \<and>
     (\<forall>s \<in> set renamed. undo_value s w = path_look w0 (sr_target s))"

lemma midway_undoable: "midway E w0 ss renamed w \<Longrightarrow> undoable w0 ss renamed w"
  using ready_undo by (auto simp: midway_def undoable_def)

lemma whole_rollback_one:
  assumes laid: "laid_out i ss" and mid: "undoable w0 ss (done @ [s]) w" and whole: "whole w0 fresh ss w"
  shows "undoable w0 ss done (rollback_one s w) \<and> whole w0 fresh ss (rollback_one s w)"
proof -
  let ?w' = "rollback_one s w"
  have s: "s \<in> set ss" "s \<notin> set done" and ok: "files_ok w"
    and undone: "undo_value s w = path_look w0 (sr_target s)"
    using mid by (auto simp: undoable_def)
  have no: "sr_backup s \<noteq> Some (sr_target s)"
    using laid_out_apart(2) [OF laid s(1) s(1)] by blast
  note run = rollback_one_runs(1,2) [OF no ok]
  have other: "path_look ?w' p = path_look w p" if "p \<noteq> sr_target s" "sr_backup s \<noteq> Some p" for p
    using touches_look [OF run(1) ok, of p] that by auto
  have "path_look ?w' (sr_target t) \<in> {path_look w0 (sr_target t), Some (fresh (sr_target t))}" if t: "t \<in> set ss" for t
  proof (cases "t = s")
    case True
    then show ?thesis using run(2) undone whole s by (auto simp: whole_def)
  next
    case False
    have "path_look ?w' (sr_target t) = path_look w (sr_target t)"
    proof (rule other)
      show "sr_target t \<noteq> sr_target s" using laid_out_apart(6) [OF laid t s(1)] False by blast
      show "sr_backup s \<noteq> Some (sr_target t)" using laid_out_apart(2) [OF laid s(1) t] by blast
    qed
    then show ?thesis using whole t by (simp add: whole_def)
  qed
  moreover have "undo_value t ?w' = undo_value t w" if "t \<in> set done" for t
  proof (cases "sr_backup t")
    case (Some b)
    have t: "t \<in> set ss" "t \<noteq> s" using that s mid by (auto simp: undoable_def)
    have "path_look ?w' b = path_look w b"
    proof (rule other)
      show "b \<noteq> sr_target s" using laid_out_apart(2) [OF laid t(1) s(1) Some] .
      show "sr_backup s \<noteq> Some b" using laid_out_apart(5) [OF laid t(1) s(1) Some] t(2) by blast
    qed
    then show ?thesis using Some by (simp add: undo_value_def)
  qed (simp add: undo_value_def)
  ultimately show ?thesis
    using mid touches_ok [OF run(1) ok] by (auto simp: undoable_def whole_def)
qed

lemma whole_rollback:
  assumes "laid_out i ss" "undoable w0 ss done w" "whole w0 fresh ss w"
  shows "whole w0 fresh ss (rollback_renamed_rewrites done w)"
  using assms(2,3)
proof (induction "done" arbitrary: w rule: rev_induct)
  case Nil
  then show ?case by (simp add: rollback_renamed_rewrites_def)
next
  case (snoc s "done")
  show ?case
    using snoc.IH whole_rollback_one [OF assms(1) snoc.prems] by (simp add: rollback_snoc)
qed

lemma rollback_one_touches: "touches (insert (sr_target s) (set_option (sr_backup s))) w (rollback_one s w)"
proof (cases "sr_backup s")
  case None
  then show ?thesis
    using remove_runs(1) [OF refl, of "sr_target s" w] by (simp add: rollback_one_def)
next
  case (Some b)
  obtain r w' where "rename_path Undo b (sr_target s) w = (r, w')" by fastforce
  then show ?thesis
    using Some rename_runs(1) by (auto simp: rollback_one_def insert_commute)
qed

definition area :: "staged_rewrite list \<Rightarrow> file_path set" where
  "area ss = tmps ss \<union> backups ss \<union> targets ss"

lemma area_mono: "set ss \<subseteq> set ss' \<Longrightarrow> area ss \<subseteq> area ss'"
  by (auto simp: area_def backups_def)

lemma rollback_touches: "touches (area done) w (rollback_renamed_rewrites done w)"
proof (induction "done" arbitrary: w rule: rev_induct)
  case Nil
  then show ?case by (simp add: rollback_renamed_rewrites_def touched.R_refl)
next
  case (snoc s "done")
  have "touches (area (done @ [s])) w (rollback_one s w)"
    using rollback_one_touches by (rule touches_mono) (auto simp: area_def)
  moreover have "touches (area (done @ [s])) v (rollback_renamed_rewrites done v)" for v
    using snoc.IH by (rule touches_mono) (auto simp: area_def)
  ultimately show ?case
    using touched.R_trans by (simp add: rollback_snoc)
qed

text \<open>Before, between and after the renames.\<close>

definition renaming ::
  "file_path set \<Rightarrow> writer_world \<Rightarrow> (file_path \<Rightarrow> string) \<Rightarrow> staged_rewrite list \<Rightarrow> staged_rewrite list \<Rightarrow> writer_world \<Rightarrow> bool"
where
  "renaming E w0 fresh renamed todo w \<longleftrightarrow>
     midway E w0 (renamed @ todo) renamed w \<and>
     (\<forall>s \<in> set renamed. path_look w (sr_target s) = Some (fresh (sr_target s)) \<and> path_look w (sr_tmp s) = None) \<and>
     (\<forall>s \<in> set todo. ready w0 w s \<and> path_look w (sr_tmp s) = Some (fresh (sr_target s)))"

lemma renaming_whole:
  assumes "renaming E w0 fresh renamed todo w" "laid_out i (renamed @ todo)"
    "E \<inter> targets (renamed @ todo) = {}"
  shows "whole w0 fresh (renamed @ todo) w"
proof -
  have "path_look w (sr_target s) = path_look w0 (sr_target s)" if "s \<in> set todo" for s
  proof -
    have "sr_target s \<notin> tmps (renamed @ todo) \<union> backups (renamed @ todo)"
      using laid_out_target [OF assms(2), of s] that by simp
    moreover have "sr_target s \<notin> targets renamed"
      using assms(2) that by (auto simp: laid_out_def)
    moreover have "sr_target s \<notin> E"
      using assms(3) that by auto
    ultimately show ?thesis using assms(1) by (auto simp: renaming_def midway_def)
  qed
  then show ?thesis using assms(1) by (auto simp: whole_def renaming_def)
qed

lemma rename_one:
  assumes ren: "renaming E w0 fresh renamed (s # todo) w" and laid: "laid_out i (renamed @ s # todo)"
    and E: "E \<inter> (tmps (renamed @ s # todo) \<union> backups (renamed @ s # todo) \<union> targets (renamed @ s # todo)) = {}"
    and run: "rename_path Work (sr_tmp s) (sr_target s) w = (Inr (), w')"
  shows "renaming E w0 fresh (renamed @ [s]) todo w'"
proof -
  let ?ss = "renamed @ s # todo"
  have ok: "files_ok w" using ren by (simp add: renaming_def midway_def)
  have in_ss: "s \<in> set ?ss" by simp
  have no: "sr_tmp s \<noteq> sr_target s" using laid_out_apart(1) [OF laid in_ss in_ss] .
  note out = rename_runs(1) [OF run] rename_runs(4) [OF run refl no]
  have new: "path_look w' (sr_target s) = Some (fresh (sr_target s))" "path_look w' (sr_tmp s) = None"
    using out ren by (simp_all add: renaming_def)
  have other: "path_look w' p = path_look w p" if "p \<noteq> sr_target s" "p \<noteq> sr_tmp s" for p
    using touches_look [OF out(1) ok, of p] that by auto
  have distinct: "distinct ?ss"
    using laid by (auto simp: laid_out_def distinct_map)
  have apart: "sr_target t \<noteq> sr_target s" "sr_target t \<noteq> sr_tmp s" "sr_tmp t \<noteq> sr_target s" "sr_tmp t \<noteq> sr_tmp s"
    if "t \<in> set renamed \<union> set todo" for t
  proof -
    have t: "t \<in> set ?ss" "t \<noteq> s" using that distinct by auto
    show "sr_target t \<noteq> sr_target s" using laid_out_apart(6) [OF laid t(1) in_ss] t(2) by blast
    show "sr_target t \<noteq> sr_tmp s" using laid_out_apart(1) [OF laid in_ss t(1)] by simp
    show "sr_tmp t \<noteq> sr_target s" using laid_out_apart(1) [OF laid t(1) in_ss] .
    show "sr_tmp t \<noteq> sr_tmp s" using laid_out_apart(4) [OF laid t(1) in_ss] t(2) by blast
  qed
  have backup: "path_look w' b = path_look w b" if "t \<in> set ?ss" "sr_backup t = Some b" for t b
    by (rule other [OF laid_out_apart(2,3) [OF laid that(1) in_ss that(2)]])
  have "path_look w' p = path_look w0 p"
    if "p \<notin> tmps ?ss \<union> backups ?ss \<union> targets (renamed @ [s]) \<union> E" for p
    using that other ren by (auto simp: renaming_def midway_def)
  moreover have "ready w0 w' t = ready w0 w t" if "t \<in> set ?ss" for t
    using backup [OF that] by (rule ready_cong)
  moreover have "\<forall>t \<in> set (renamed @ [s]). path_look w' (sr_target t) = Some (fresh (sr_target t)) \<and> path_look w' (sr_tmp t) = None"
    using new other apart ren by (auto simp: renaming_def)
  moreover have "\<forall>t \<in> set todo. path_look w' (sr_tmp t) = Some (fresh (sr_target t))"
    using other apart ren by (auto simp: renaming_def)
  moreover have "\<forall>t \<in> set renamed. ready w0 w t"
    using ren by (auto simp: renaming_def midway_def)
  ultimately show ?thesis
    using ren distinct touches_ok [OF out(1) ok] new
    by (auto simp: renaming_def midway_def)
qed

lemma rename_all_runs:
  assumes "rename_all renamed todo w = (r, w')" "renaming E w0 fresh renamed todo w" "laid_out i (renamed @ todo)"
    "E \<inter> (tmps (renamed @ todo) \<union> backups (renamed @ todo) \<union> targets (renamed @ todo)) = {}"
  shows "touches (area (renamed @ todo)) w w' \<and> whole w0 fresh (renamed @ todo) w' \<and>
    (case r of
       Inr _ \<Rightarrow> renaming E w0 fresh (renamed @ todo) [] w'
     | Inl _ \<Rightarrow> ww_faults w Undo = [] \<longrightarrow> midway E w0 (renamed @ todo) [] w')"
  using assms
proof (induction renamed todo w rule: rename_all.induct)
  case (1 renamed w)
  then show ?case
    using renaming_whole [OF 1(2,3)] by (auto simp: touched.R_refl)
next
  case (2 renamed s todo w)
  obtain r1 w1 where run: "rename_path Work (sr_tmp s) (sr_target s) w = (r1, w1)" by fastforce
  have t1: "touches (area (renamed @ s # todo)) w w1"
    using rename_runs(1) [OF run] by (rule touches_mono) (auto simp: area_def)
  have apart: "E \<inter> targets (renamed @ s # todo) = {}" using 2(5) by auto
  have mid: "midway E w0 (renamed @ s # todo) renamed w" using 2(3) by (simp add: renaming_def)
  then have ok: "files_ok w" by (simp add: midway_def)
  show ?case
  proof (cases r1)
    case (Inl e)
    have w': "w' = rollback_renamed_rewrites renamed w1" "r = Inl e"
      using 2(2) run Inl by auto
    have same: "path_look w1 p = path_look w p" and ok1: "files_ok w1" for p
      using touches_look [OF rename_runs(3) [OF run Inl] ok] touches_ok [OF t1 ok] by auto
    have mid1: "midway E w0 (renamed @ s # todo) renamed w1"
    proof -
      have "ready w0 w1 t = ready w0 w t" for t
        using same by (intro ready_cong)
      then show ?thesis using mid same ok1 by (simp add: midway_def)
    qed
    have "whole w0 fresh (renamed @ s # todo) w1"
      using renaming_whole [OF 2(3,4) apart] same by (simp add: whole_def)
    then have "whole w0 fresh (renamed @ s # todo) w'"
      unfolding w' by (rule whole_rollback [OF 2(4) midway_undoable [OF mid1]])
    moreover have "midway E w0 (renamed @ s # todo) [] w'" if "ww_faults w Undo = []"
      using midway_rollback [OF 2(4) mid1 2(5)] touches_faults [OF t1 that] w' by simp
    ultimately show ?thesis
      using w' touched.R_trans [OF t1 touches_mono [OF rollback_touches area_mono, of renamed]] by auto
  next
    case (Inr u)
    then have run': "rename_path Work (sr_tmp s) (sr_target s) w = (Inr (), w1)"
      and rest: "rename_all (renamed @ [s]) todo w1 = (r, w')"
      using 2(2) run by auto
    have shape: "(renamed @ [s]) @ todo = renamed @ s # todo" by simp
    have "renaming E w0 fresh (renamed @ [s]) todo w1"
      by (rule rename_one [OF 2(3,4,5) run'])
    then have "touches (area (renamed @ s # todo)) w1 w' \<and> whole w0 fresh (renamed @ s # todo) w' \<and>
      (case r of Inr _ \<Rightarrow> renaming E w0 fresh (renamed @ s # todo) [] w'
       | Inl _ \<Rightarrow> ww_faults w1 Undo = [] \<longrightarrow> midway E w0 (renamed @ s # todo) [] w')"
      using 2(1) [OF run'[symmetric] refl _ _ _, unfolded shape] rest 2(4,5) by blast
    then show ?thesis
      using touched.R_trans [OF t1] touches_faults [OF t1] by (auto split: sum.split)
  qed
qed

end
