(* ===== verification/Writer_Ledger.thy ===== *)
theory Writer_Ledger
  imports Writer_Rewrites
begin

text \<open>
  The ledgers of the writer: a handle writes to the file its path names, and a ledger is a log of events, each
  stored once under its id.
\<close>

section \<open>The ledger\<close>

text \<open>Calls that change nothing but the faults and identifiers left.\<close>

definition quiet :: "writer_world \<Rightarrow> writer_world \<Rightarrow> bool" where
  "quiet w w' \<longleftrightarrow>
     ww_names w' = ww_names w \<and> ww_bytes w' = ww_bytes w \<and> ww_next w' = ww_next w \<and> ww_dirs w' = ww_dirs w \<and>
     ww_handles w' = ww_handles w \<and> (\<forall>c. ww_faults w c = [] \<longrightarrow> ww_faults w' c = [])"

interpretation still: fs_frame quiet
  by unfold_locales (simp_all add: quiet_def)

lemma quiet_touches: "quiet w w' \<Longrightarrow> touches S w w'"
  by (simp add: quiet_def touches_def files_ok_def path_look_def)

lemma quiet_look: "quiet w w' \<Longrightarrow> path_look w' p = path_look w p"
  by (simp add: quiet_def path_look_def)

text \<open>The handle of a ledger writes to the file its path names.\<close>

definition attached :: "file_path \<Rightarrow> writer_world \<Rightarrow> bool" where
  "attached p w \<longleftrightarrow> (\<exists>h. ww_handles w p = Some h \<and> ww_names w p = Some (lh_inode h))"

lemma set_handle_touches:
  assumes "lh_identity h = lh_inode h" "lh_inode h < ww_next w"
  shows "touches S w (set_handle p h w)"
  using assms by (auto simp: set_handle_def touches_def files_ok_def path_look_def)

lemma path_still_names_runs:
  assumes "path_still_names_writer p h w = (r, w')"
  shows "quiet w w'" "\<exists>b. r = Inr b" "r = Inr True \<Longrightarrow> ww_names w p = Some (lh_identity h)"
proof -
  have "frames quiet (path_still_names_writer p h)"
    unfolding path_still_names_writer_def by (intro fsk)
  then show "quiet w w'"
    using assms by (rule still.framesD)
  obtain i w1 where run: "file_identity Look p w = (i, w1)" by fastforce
  then have "i = Inr n \<Longrightarrow> ww_names w p = Some n" for n
    unfolding file_identity_def by (cases rule: fs_callE) (auto split: option.splits)
  then show "\<exists>b. r = Inr b" "r = Inr True \<Longrightarrow> ww_names w p = Some (lh_identity h)"
    using assms run by (auto simp: path_still_names_writer_def fs_try_def fs_ok_def split: sum.splits)
qed

lemma detached_runs:
  assumes "tx_handles_detached_from_paths [p] w = (r, w')"
  shows "touches {} w w'" "r = Inr ()" "files_ok w \<Longrightarrow> ww_handles w' p = None \<or> attached p w'"
    "ww_bytes w' = ww_bytes w" "ww_names w' = ww_names w"
proof -
  have "touches {} w w' \<and> r = Inr () \<and> (files_ok w \<longrightarrow> ww_handles w' p = None \<or> attached p w')
    \<and> ww_bytes w' = ww_bytes w \<and> ww_names w' = ww_names w"
  proof (cases "ww_handles w p")
    case None
    then show ?thesis using assms by (simp add: touched.R_refl)
  next
    case (Some h)
    obtain b w1 where run: "path_still_names_writer p h w = (Inr b, w1)"
      using path_still_names_runs(2) by (metis prod.exhaust)
    note out = path_still_names_runs(1,3) [OF run]
    have w': "r = Inr ()" "w' = (if b then w1 else w1\<lparr>ww_handles := (ww_handles w1)(p := None)\<rparr>)"
      using assms Some run by (auto simp: fs_bind_def)
    have "touches {} w1 (w1\<lparr>ww_handles := (ww_handles w1)(p := None)\<rparr>)"
      by (auto simp: touches_def files_ok_def path_look_def)
    then have "touches {} w w'"
      using w' quiet_touches [OF out(1), of "{}"] touched.R_trans [of "{}" w w1] by (cases b) auto
    then show ?thesis
      using w' out Some by (auto simp: attached_def quiet_def files_ok_def)
  qed
  then show "touches {} w w'" "r = Inr ()" "files_ok w \<Longrightarrow> ww_handles w' p = None \<or> attached p w'"
    "ww_bytes w' = ww_bytes w" "ww_names w' = ww_names w"
    by simp_all
qed

text \<open>Opening: the descriptor is on the inode of the path, and only that file was written.\<close>

text \<open>What the file held is still at its beginning.\<close>

definition extends :: "file_path \<Rightarrow> writer_world \<Rightarrow> writer_world \<Rightarrow> bool" where
  "extends p w w' \<longleftrightarrow> (\<forall>s. path_look w p = Some s \<longrightarrow> (\<exists>t. path_look w' p = Some (s @ t)))"

lemma extends_refl: "extends p w w"
  by (simp add: extends_def)

lemma extends_trans: "extends p w w' \<Longrightarrow> extends p w' w'' \<Longrightarrow> extends p w w''"
  by (fastforce simp: extends_def)

lemma extends_look: "path_look w' p = path_look w p \<Longrightarrow> extends p w w'"
  by (simp add: extends_def)

definition on_file :: "file_path \<Rightarrow> (writer_world \<Rightarrow> bool) \<Rightarrow> writer_world \<Rightarrow> writer_world \<Rightarrow> bool" where
  "on_file p P w w' \<longleftrightarrow>
     (P w \<longrightarrow> touches {p} w w' \<and> ww_handles w' = ww_handles w \<and> ww_names w' = ww_names w \<and> P w' \<and> extends p w w')"

definition names_inode :: "file_path \<Rightarrow> nat \<Rightarrow> writer_world \<Rightarrow> bool" where
  "names_inode p i w \<longleftrightarrow> ww_names w p = Some i"

interpretation named: fs_frame "on_file p (names_inode p i)" for p i
proof
  show "on_file p (names_inode p i) w w' \<Longrightarrow> on_file p (names_inode p i) w' w'' \<Longrightarrow> on_file p (names_inode p i) w w''"
    for w w' w''
    unfolding on_file_def using touched.R_trans [of "{p}" w w' w''] extends_trans by auto
qed (simp_all add: on_file_def extends_refl extends_look names_inode_def touched.R_refl touched.R_fault touched.R_drawn)

interpretation anyhow: fs_frame "on_file p (\<lambda>_. True)" for p
proof
  show "on_file p (\<lambda>_. True) w w' \<Longrightarrow> on_file p (\<lambda>_. True) w' w'' \<Longrightarrow> on_file p (\<lambda>_. True) w w''" for w w' w''
    unfolding on_file_def using touched.R_trans [of "{p}" w w' w''] extends_trans by auto
qed (simp_all add: on_file_def extends_refl extends_look touched.R_refl touched.R_fault touched.R_drawn)

lemma write_all_extends: "ww_names w p = Some i \<Longrightarrow> extends p w (snd (write_all i s w))"
  by (auto simp: write_all_def next_fault_def extends_def path_look_def split: option.splits list.splits)

lemma frames_write_named [fsk]: "frames (on_file p (names_inode p i)) (write_all i s)"
  unfolding frames_def on_file_def names_inode_def
  using write_all_runs(1-3) write_all_extends by (metis prod.collapse)

lemma create_dir_all_names:
  "ww_names (snd (create_dir_all p w)) = ww_names w \<and> ww_handles (snd (create_dir_all p w)) = ww_handles w
    \<and> ww_bytes (snd (create_dir_all p w)) = ww_bytes w"
proof -
  obtain r w' where run: "create_dir_all p w = (r, w')" by fastforce
  then show ?thesis
    unfolding create_dir_all_def by (cases rule: fs_callE) (auto simp: fs_call_def next_fault_def split: list.splits option.splits prod.splits if_splits)
qed

lemma create_parent_quiet:
  "ww_names (snd (create_parent p w)) = ww_names w \<and> ww_handles (snd (create_parent p w)) = ww_handles w
    \<and> ww_bytes (snd (create_parent p w)) = ww_bytes w"
  unfolding create_parent_def using create_dir_all_names by (auto simp: fs_ok_def split: option.split)

lemma frames_create_parent_anyhow [fsk]: "frames (on_file p (\<lambda>_. True)) (create_parent q)"
  unfolding frames_def on_file_def
  using frames_create_parent [of "{p}" q] create_parent_quiet by (auto simp: frames_def extends_def path_look_def)

lemma opened_by:
  assumes run: "fs_bind m (\<lambda>x. fs_bind (open_create p) (f x)) w = (r, w')"
    and m: "frames (on_file p (\<lambda>_. True)) m" and f: "\<And>x i. frames (on_file p (names_inode p i)) (f x i)"
    and result: "\<And>x i w r w'. f x i w = (Inr r, w') \<Longrightarrow> fst r = i"
  shows "touches {p} w w' \<and> ww_handles w' = ww_handles w \<and> (files_ok w \<longrightarrow> extends p w w')
    \<and> (\<forall>i k. r = Inr (i, k) \<longrightarrow> ww_names w' p = Some i)"
  using run
proof (cases rule: fs_bindE)
  case (error e)
  then show ?thesis
    using anyhow.framesD [OF m error(1)] by (simp add: on_file_def)
next
  case (ok x w1)
  have first: "touches {p} w w1" "ww_handles w1 = ww_handles w" "extends p w w1"
    using anyhow.framesD [OF m ok(1)] by (simp_all add: on_file_def)
  have again: "files_ok w \<Longrightarrow> extends p w1 w2 \<Longrightarrow> extends p w w2" for w2
    using extends_trans [OF first(3)] .
  from ok(2) show ?thesis
  proof (cases rule: fs_bindE)
    case (error e)
    have "extends p w1 w'" if "files_ok w1"
      using open_create_runs(4) [OF error(1)] touches_look [of "{}" w1 w' p] that by (auto simp: extends_def)
    then show ?thesis
      using open_create_runs(1,2) [OF error(1)] first error(2) touched.R_trans [OF first(1)] again touches_ok [OF first(1)] by simp
  next
    case (ok i w2)
    note made = open_create_runs(1,2,3) [OF ok(1)]
    have grown: "extends p w1 w2" using made(3) by (auto simp: extends_def path_look_def)
    have "names_inode p i w2" using made(3) by (simp add: names_inode_def)
    then have "touches {p} w2 w'" "ww_handles w' = ww_handles w2" "names_inode p i w'" "extends p w2 w'"
      using named.framesD [OF f ok(2)] by (simp_all add: on_file_def)
    then show ?thesis
      using first made result ok(2) touched.R_trans [OF first(1) touched.R_trans [OF made(1)]] again
        extends_trans [OF grown] by (auto simp: names_inode_def) (metis fst_conv)
  qed
qed

lemma tx_writer_open_runs:
  assumes "tx_writer_open p w = (r, w')"
  shows "touches {p} w w' \<and> ww_handles w' = ww_handles w \<and> (files_ok w \<longrightarrow> extends p w w')
    \<and> (\<forall>i k. r = Inr (i, k) \<longrightarrow> ww_names w' p = Some i)"
proof -
  obtain len w1 where look: "fs_call Look (\<lambda>w. (case path_look w p of None \<Rightarrow> Inl NoSuchFile | Some s \<Rightarrow> Inr (length s), w)) w = (len, w1)"
    by fastforce
  then have "quiet w w1"
    using still.framesD [OF still.frames_call [OF still.frames_pure] look] by simp
  moreover define existed where "existed = (case len of Inl _ \<Rightarrow> False | Inr n \<Rightarrow> 0 < n)"
  have "touches {p} w1 w' \<and> ww_handles w' = ww_handles w1 \<and> (files_ok w1 \<longrightarrow> extends p w1 w') \<and> (\<forall>i k. r = Inr (i, k) \<longrightarrow> ww_names w' p = Some i)"
  proof (rule opened_by)
    show "fs_bind (if existed then fs_bind (read_path p) (\<lambda>s. fs_ok (\<not> file_ends_with_blank_line s)) else fs_ok False)
      (\<lambda>blank. fs_bind (open_create p) (\<lambda>i. fs_bind (if existed then fs_ok ()
          else write_all i (tw_bytes (tx_open (case file_stem p of Some s \<Rightarrow> s | None \<Rightarrow> ''tx'') []))) (\<lambda>_. fs_ok (i, LedgerTx blank)))) w1 = (r, w')"
      using assms unfolding tx_writer_open_def fs_try_def look existed_def Let_def by (simp only: prod.case)
  qed (auto intro!: fsk elim!: fs_bind_Inr simp: fs_ok_def)
  ultimately show ?thesis
    using quiet_touches [of w w1 "{p}"] touched.R_trans [of "{p}" w w1 w'] quiet_look [of w w1]
    by (auto simp: quiet_def extends_def files_ok_def)
qed

lemma journal_open_runs:
  assumes "journal_open p w = (r, w')"
  shows "touches {p} w w' \<and> ww_handles w' = ww_handles w \<and> (files_ok w \<longrightarrow> extends p w w')
    \<and> (\<forall>i k. r = Inr (i, k) \<longrightarrow> ww_names w' p = Some i)"
  using assms unfolding journal_open_def
  by (rule opened_by) (auto intro!: fsk elim!: fs_bind_Inr simp: fs_ok_def)

lemma cached_open_runs:
  assumes "cached_open p w = (r, w')"
  shows "touches {p} w w'" "ww_handles w' = ww_handles w" "files_ok w \<Longrightarrow> extends p w w'"
    "r = Inr h \<Longrightarrow> ww_names w' p = Some (lh_inode h) \<and> lh_identity h = lh_inode h"
proof -
  have "touches {p} w w' \<and> ww_handles w' = ww_handles w \<and> (files_ok w \<longrightarrow> extends p w w') \<and>
    (\<forall>h. r = Inr h \<longrightarrow> ww_names w' p = Some (lh_inode h) \<and> lh_identity h = lh_inode h)"
    using assms unfolding cached_open_def
  proof (cases rule: fs_bindE)
    case (error e)
    then show ?thesis using journal_open_runs tx_writer_open_runs by (auto split: if_splits)
  next
    case (ok x w1)
    obtain i kind where x: "x = (i, kind)" by (cases x)
    have opened: "touches {p} w w1" "ww_handles w1 = ww_handles w" "ww_names w1 p = Some i" "files_ok w \<longrightarrow> extends p w w1"
      using ok(1) journal_open_runs tx_writer_open_runs x by (auto split: if_splits)
    from ok(2) have rest: "fs_bind (file_identity Work p) (\<lambda>identity. fs_bind (read_event_ids p) (\<lambda>ids.
      fs_ok \<lparr>lh_kind = kind, lh_inode = i, lh_identity = identity, lh_event_ids = ids\<rparr>)) w1 = (r, w')"
      using x by simp
    have quiet: "quiet w1 w'"
      using rest by (rule still.framesD [rotated]) (intro fsk)
    have "\<forall>h. r = Inr h \<longrightarrow> lh_inode h = i \<and> lh_identity h = i"
    proof (intro allI impI)
      fix h
      assume "r = Inr h"
      then obtain n w2 where "file_identity Work p w1 = (Inr n, w2)" "lh_inode h = i" "lh_identity h = n"
        using rest by (auto elim!: fs_bind_Inr simp: fs_ok_def)
      then show "lh_inode h = i \<and> lh_identity h = i"
        using opened(3) unfolding file_identity_def by (auto elim!: fs_callE split: option.splits)
    qed
    then show ?thesis
      using quiet opened touched.R_trans [OF opened(1) quiet_touches [OF quiet]] quiet_look [OF quiet, of p]
      by (auto simp: quiet_def extends_def)
  qed
  then show "touches {p} w w'" "ww_handles w' = ww_handles w" "files_ok w \<Longrightarrow> extends p w w'"
    "r = Inr h \<Longrightarrow> ww_names w' p = Some (lh_inode h) \<and> lh_identity h = lh_inode h"
    by blast+
qed

section \<open>The ledger as a log\<close>

text \<open>What a ledger is to its clients: a kind, the events recorded and the id each was stored under, and a
  text that only grows. An event that is recorded is answered with its id and not written again.\<close>

type_synonym ledger_log = "ledger_kind \<times> (string \<times> string) list \<times> string"

definition entry_text :: "ledger_kind \<Rightarrow> tx_entry \<Rightarrow> string" where
  "entry_text k e =
     (case k of
        LedgerTx blank \<Rightarrow> (if blank then [LF] else []) @ [LF] @ tx_render e
      | LedgerJournal \<Rightarrow> journal_entry_block (journal_entry_of e))"

definition kind_after :: "ledger_kind \<Rightarrow> ledger_kind" where
  "kind_after k = (case k of LedgerTx _ \<Rightarrow> LedgerTx False | LedgerJournal \<Rightarrow> LedgerJournal)"

definition log_one :: "tx_entry \<Rightarrow> ledger_log \<Rightarrow> string \<times> ledger_log" where
  "log_one e = (\<lambda>(k, ids, s).
     case bt_get ids (event_id e) of
       Some i \<Rightarrow> (i, k, ids, s)
     | None \<Rightarrow> (tx_id e, kind_after k, bt_insert (event_id e) (tx_id e) ids, s @ entry_text k e))"

fun log_all :: "tx_entry list \<Rightarrow> ledger_log \<Rightarrow> string list \<times> ledger_log" where
  "log_all [] l = ([], l)"
| "log_all (e # es) l =
     (let one = log_one e l; rest = log_all es (snd one) in (fst one # fst rest, snd rest))"

definition log_text :: "ledger_log \<Rightarrow> string" where
  "log_text l = snd (snd l)"

definition log_ids :: "ledger_log \<Rightarrow> (string \<times> string) list" where
  "log_ids l = fst (snd l)"

definition holds_log :: "file_path \<Rightarrow> ledger_log \<Rightarrow> writer_world \<Rightarrow> bool" where
  "holds_log p l w \<longleftrightarrow>
     (\<exists>h. ww_handles w p = Some h \<and> ww_names w p = Some (lh_inode h) \<and>
          l = (lh_kind h, lh_event_ids h, ww_bytes w (lh_inode h)))"

lemma attached_log: "attached p w \<longleftrightarrow> (\<exists>l. holds_log p l w)"
  by (auto simp: attached_def holds_log_def)

lemma holds_log_look: "holds_log p l w \<Longrightarrow> path_look w p = Some (log_text l)"
  by (auto simp: holds_log_def path_look_def log_text_def)

lemma holds_log_quiet: "quiet w w' \<Longrightarrow> holds_log p l w' = holds_log p l w"
  by (simp add: quiet_def holds_log_def)

lemma log_one_grows: "\<exists>t. log_text (snd (log_one e l)) = log_text l @ t"
  by (cases l) (auto simp: log_one_def log_text_def split: option.split)

lemma log_all_grows: "\<exists>t. log_text (snd (log_all es l)) = log_text l @ t"
proof (induction es arbitrary: l)
  case (Cons e es)
  obtain t u where "log_text (snd (log_one e l)) = log_text l @ t"
    "log_text (snd (log_all es (snd (log_one e l)))) = log_text (snd (log_one e l)) @ u"
    using log_one_grows Cons by metis
  then show ?case
    by (simp add: Let_def)
qed simp

lemma set_ledger_touches:
  assumes "ww_handles w p = Some h" "ww_names w p = Some (lh_inode h)"
    and "lh_inode h' = lh_inode h" "lh_identity h' = lh_identity h"
  shows "touches {p} w (set_ledger p h' s w)"
proof -
  have "files_ok (set_ledger p h' s w)" if "files_ok w"
    using that assms unfolding files_ok_def set_ledger_def set_handle_def by (auto simp: files_okD(4,5) [OF that])
  moreover have "path_look (set_ledger p h' s w) q = path_look w q" if "files_ok w" "q \<noteq> p" for q
    using set_bytes_touches [OF assms(2), of s] that assms(3)
    by (auto simp: touches_def set_ledger_def set_handle_def path_look_def)
  ultimately show ?thesis
    by (simp add: touches_def set_ledger_def set_handle_def)
qed

lemma ledger_write_runs:
  assumes "ledger_write p h e w = (r, w')" "ww_handles w p = Some h" "ww_names w p = Some (lh_inode h)"
  shows "touches {p} w w'" "attached p w'" "extends p w w'"
    "\<And>h'. r = Inr h' \<Longrightarrow> h' = h\<lparr>lh_kind := kind_after (lh_kind h)\<rparr> \<and> ww_handles w' p = Some h' \<and>
       ww_names w' p = Some (lh_inode h) \<and> ww_bytes w' (lh_inode h) = ww_bytes w (lh_inode h) @ entry_text (lh_kind h) e"
proof -
  have "touches {p} w w' \<and> attached p w' \<and> extends p w w' \<and>
    (\<forall>h'. r = Inr h' \<longrightarrow> h' = h\<lparr>lh_kind := kind_after (lh_kind h)\<rparr> \<and> ww_handles w' p = Some h' \<and>
       ww_names w' p = Some (lh_inode h) \<and> ww_bytes w' (lh_inode h) = ww_bytes w (lh_inode h) @ entry_text (lh_kind h) e)"
  proof (cases "lh_kind h")
    case (LedgerTx blank)
    show ?thesis
    proof (cases "render_checked [e]")
      case (Inl err)
      then show ?thesis
        using assms LedgerTx by (auto simp: ledger_write_def touched.R_refl extends_refl attached_def)
    next
      case (Inr s)
      obtain fault w1 where fault: "next_fault Work w = (fault, w1)" by fastforce
      note facts = next_faultD [OF fault]
      define tw0 where "tw0 = \<lparr>tw_bytes = ww_bytes w1 (lh_inode h), tw_needs_leading_blank = blank\<rparr>"
      obtain r1 tw where one: "append_one (case fault of None \<Rightarrow> Wrote | Some n \<Rightarrow> WriteFailed n) e tw0 = (r1, tw)"
        by fastforce
      define h1 where "h1 = h\<lparr>lh_kind := LedgerTx (tw_needs_leading_blank tw)\<rparr>"
      have out: "r = map_sum TxRefused (\<lambda>_. h1) r1" "w' = set_ledger p h1 (tw_bytes tw) w1"
        using assms(1) LedgerTx Inr fault one by (simp_all add: ledger_write_def Let_def h1_def tw0_def)
      have s: "s = [LF] @ tx_render e"
        using Inr by (auto simp: try_res_def split: sum.splits)
      have grown: "\<exists>t. tw_bytes tw = tw_bytes tw0 @ t"
        and exact: "r1 = Inr u \<Longrightarrow> tw = \<lparr>tw_bytes = tw_bytes tw0 @ entry_text (LedgerTx blank) e, tw_needs_leading_blank = False\<rparr>" for u
        using one Inr s by (auto simp: append_one_def append_many_def Let_def tw0_def entry_text_def split: option.splits)
      have "touches {p} w1 w'"
        unfolding out(2) by (rule set_ledger_touches [of _ _ h]) (use facts assms h1_def in simp_all)
      then have t: "touches {p} w w'" using touched.R_trans [OF facts(7)] by blast
      then show ?thesis
        using out grown exact facts assms LedgerTx
        by (cases r1) (auto simp: set_ledger_def set_handle_def h1_def tw0_def attached_def extends_def path_look_def kind_after_def)
    qed
  next
    case LedgerJournal
    let ?entry = "journal_entry_of e"
    let ?m = "fs_bind (fs_lift (map_sum JournalRefused id (je_validate ?entry))) (\<lambda>_.
      fs_bind (fs_lift (reject_journal_prose (je_body ?entry))) (\<lambda>_.
      fs_bind (write_all (lh_inode h) (journal_entry_block ?entry)) (\<lambda>_. fs_ok h)))"
    have run: "?m w = (r, w')" using assms(1) LedgerJournal by (simp add: ledger_write_def Let_def)
    have frame: "frames (on_file p (names_inode p (lh_inode h))) ?m"
      by (intro fsk)
    have on: "on_file p (names_inode p (lh_inode h)) w w'"
      by (rule named.framesD [OF frame run])
    have finished: "\<exists>w1. quiet w w1 \<and> write_all (lh_inode h) (journal_entry_block (journal_entry_of e)) w1 = (Inr (), w') \<and> h' = h"
      if "r = Inr h'" for h'
      using run that by (auto simp: fs_lift_def fs_ok_def elim!: fs_bind_Inr intro: still.R_refl)
    have "ww_bytes w' (lh_inode h) = ww_bytes w (lh_inode h) @ entry_text (lh_kind h) e" if "r = Inr h'" for h'
    proof -
      note r = that
      obtain w1 where "quiet w w1" "write_all (lh_inode h) (journal_entry_block ?entry) w1 = (Inr (), w')"
        using finished [OF r] by blast
      then have "path_look w' p = Some (ww_bytes w (lh_inode h) @ journal_entry_block ?entry)"
        using write_all_runs(4) assms(3) by (auto simp: quiet_def)
      then show ?thesis
        using on assms(3) LedgerJournal by (auto simp: on_file_def names_inode_def path_look_def entry_text_def)
    qed
    then show ?thesis
      using on finished assms LedgerJournal
      by (auto simp: on_file_def names_inode_def attached_def kind_after_def)
  qed
  then show "touches {p} w w'" "attached p w'" "extends p w w'"
    "\<And>h'. r = Inr h' \<Longrightarrow> h' = h\<lparr>lh_kind := kind_after (lh_kind h)\<rparr> \<and> ww_handles w' p = Some h' \<and>
       ww_names w' p = Some (lh_inode h) \<and> ww_bytes w' (lh_inode h) = ww_bytes w (lh_inode h) @ entry_text (lh_kind h) e"
    by blast+
qed

lemma ledger_append_runs:
  assumes "ledger_append p e w = (r, w')" "holds_log p l w"
  shows "touches {p} w w' \<and> attached p w' \<and> extends p w w' \<and>
    (\<forall>i. r = Inr i \<longrightarrow> i = fst (log_one e l) \<and> holds_log p (snd (log_one e l)) w')"
proof -
  obtain h where h: "ww_handles w p = Some h" "ww_names w p = Some (lh_inode h)"
    and l: "l = (lh_kind h, lh_event_ids h, ww_bytes w (lh_inode h))"
    using assms(2) by (auto simp: holds_log_def)
  show ?thesis
  proof (cases "bt_get (lh_event_ids h) (event_id e)")
    case (Some i)
    then show ?thesis
      using assms h l by (auto simp: ledger_append_def attached_log log_one_def touched.R_refl extends_refl)
  next
    case None
    let ?store = "\<lambda>h' w. (Inr (tx_id e), set_handle p (h'\<lparr>lh_event_ids := bt_insert (event_id e) (tx_id e) (lh_event_ids h')\<rparr>) w)"
    have "fs_bind (ledger_write p h e) ?store w = (r, w')"
      using assms(1) h None by (simp add: ledger_append_def)
    then show ?thesis
    proof (cases rule: fs_bindE)
      case (error err)
      then show ?thesis using ledger_write_runs [OF error(1) h] by simp
    next
      case (ok h' w1)
      note out = ledger_write_runs [OF ok(1) h]
      note h' = out(4) [OF refl]
      define h2 where "h2 = h'\<lparr>lh_event_ids := bt_insert (event_id e) (tx_id e) (lh_event_ids h')\<rparr>"
      have w': "w' = set_handle p h2 w1" "r = Inr (tx_id e)"
        using ok(2) by (simp_all add: h2_def)
      have "touches {p} w1 (set_ledger p h2 (ww_bytes w1 (lh_inode h2)) w1)"
        by (rule set_ledger_touches [of _ _ h']) (use h' h2_def in simp_all)
      moreover have "set_ledger p h2 (ww_bytes w1 (lh_inode h2)) w1 = w'"
        using w' by (simp add: set_ledger_def set_handle_def)
      ultimately have "touches {p} w w'"
        using touched.R_trans [OF out(1)] by simp
      moreover have "holds_log p (snd (log_one e l)) w'"
        using w' h' l None by (auto simp: holds_log_def set_handle_def h2_def log_one_def)
      moreover have "extends p w w'"
        using out(3) w' by (simp add: extends_def set_handle_def path_look_def)
      ultimately show ?thesis
        using w' l None by (auto simp: attached_log log_one_def)
    qed
  qed
qed

lemma ledger_append_many_runs:
  assumes "ledger_append_many p es w = (r, w')" "holds_log p l w"
  shows "touches {p} w w' \<and> attached p w' \<and> extends p w w' \<and>
    (\<forall>is. r = Inr is \<longrightarrow> is = fst (log_all es l) \<and> holds_log p (snd (log_all es l)) w')"
  using assms
proof (induction es arbitrary: w l r)
  case Nil
  then show ?case by (cases l) (auto simp: fs_ok_def touched.R_refl extends_refl attached_log)
next
  case (Cons e es)
  from Cons.prems(1) show ?case
    unfolding ledger_append_many.simps
  proof (cases rule: fs_bindE)
    case (error err)
    then show ?thesis using ledger_append_runs [OF error(1) Cons.prems(2)] by simp
  next
    case (ok i w1)
    have one: "touches {p} w w1" "extends p w w1" "i = fst (log_one e l)" "holds_log p (snd (log_one e l)) w1"
      using ledger_append_runs [OF ok(1) Cons.prems(2)] by simp_all
    obtain r2 w2 where run: "ledger_append_many p es w1 = (r2, w2)" by fastforce
    then have r: "r = map_sum id (\<lambda>is. i # is) r2" and w2: "w2 = w'"
      using ok(2) by (auto simp: fs_bind_def fs_ok_def split: sum.splits)
    have rest: "ledger_append_many p es w1 = (r2, w')" using run w2 by simp
    show ?thesis
      using Cons.IH [OF rest one(4)] one r touched.R_trans [OF one(1)] extends_trans [OF one(2)]
      by (cases r2) (auto simp: Let_def)
  qed
qed

lemma handle_of_runs:
  assumes "handle_of p w = (r, w')" "ww_handles w p = None \<or> attached p w" "files_ok w"
  shows "touches {p} w w' \<and> extends p w w' \<and> (\<forall>h. r = Inr h \<longrightarrow> attached p w')"
proof (cases "ww_handles w p")
  case (Some h)
  then show ?thesis
    using assms by (auto simp: handle_of_def touched.R_refl extends_refl)
next
  case None
  then have "fs_bind (cached_open p) (\<lambda>h w. (Inr h, set_handle p h w)) w = (r, w')"
    using assms(1) by (simp add: handle_of_def)
  then show ?thesis
  proof (cases rule: fs_bindE)
    case (error e)
    then show ?thesis using cached_open_runs(1,3) [OF error(1)] assms(3) by simp
  next
    case (ok h w1)
    note out = cached_open_runs(1,3) [OF ok(1)] cached_open_runs(4) [OF ok(1) refl]
    have w': "w' = set_handle p h w1" using ok(2) by simp
    have "files_ok w1" using touches_ok [OF out(1) assms(3)] .
    then have "lh_inode h < ww_next w1" using out(3) files_okD(2) by blast
    then have "touches {p} w1 w'"
      unfolding w' using out(3) by (intro set_handle_touches) simp_all
    then show ?thesis
      using out w' assms(3) touched.R_trans [OF out(1)] by (auto simp: attached_def set_handle_def extends_def path_look_def)
  qed
qed

section \<open>Appending, committing, cleaning up\<close>

lemma prepare_all_length: "prepare_all us rs w = (Inr es, w') \<Longrightarrow> length es = length rs"
  by (induction rs arbitrary: w es) (auto simp: fs_ok_def elim!: fs_bind_Inr)

text \<open>The entries that preparing the requests gives.\<close>

definition prepared :: "uuid_source \<Rightarrow> tx_append list \<Rightarrow> tx_entry list \<Rightarrow> bool" where
  "prepared us reqs es \<longleftrightarrow> (\<exists>w w'. prepare_all us reqs w = (Inr es, w'))"

lemma prepared_length: "prepared us reqs es \<Longrightarrow> length es = length reqs"
  using prepare_all_length by (auto simp: prepared_def)

lemma log_all_length: "length (fst (log_all es l)) = length es"
  by (induction es arbitrary: l) (auto simp: Let_def)

lemma append_txs_runs:
  assumes "append_txs_inner us reqs w = (r, w')" "files_ok w" "list_all (\<lambda>t. ta_tx_path t = p) reqs"
  shows "touches {p} w w'" and "extends p w w'"
    and "\<And>results. r = Inr results \<Longrightarrow> \<exists>es l w1. prepared us reqs es \<and> length results = length reqs
      \<and> map ar_tx_id results = fst (log_all es l) \<and> list_all (\<lambda>x. ar_tx_path x = p) results
      \<and> holds_log p l w1 \<and> extends p w w1 \<and> holds_log p (snd (log_all es l)) w'"
proof -
  have "touches {p} w w' \<and> extends p w w' \<and> (\<forall>results. r = Inr results \<longrightarrow> (\<exists>es l w1. prepared us reqs es \<and> length results = length reqs
      \<and> map ar_tx_id results = fst (log_all es l) \<and> list_all (\<lambda>x. ar_tx_path x = p) results
      \<and> holds_log p l w1 \<and> extends p w w1 \<and> holds_log p (snd (log_all es l)) w'))"
  proof (cases reqs)
    case Nil
    then show ?thesis
      using assms(1) by (auto simp: append_txs_inner_def fs_err_def touched.R_refl extends_refl)
  next
    case (Cons t ts)
    then have "fs_bind (tx_handles_detached_from_paths [p]) (\<lambda>_. fs_bind (prepare_all us reqs) (\<lambda>es.
      fs_bind (create_parent p) (\<lambda>_. fs_bind (handle_of p) (\<lambda>_. fs_bind (ledger_append_many p es) (\<lambda>ids.
        fs_ok (map (\<lambda>i. \<lparr>ar_tx_id = i, ar_tx_path = p\<rparr>) ids)))))) w = (r, w')"
      using assms(1,3) by (auto simp: append_txs_inner_def Let_def list_ex_iff list_all_iff)
    then show ?thesis
    proof (cases rule: fs_bindE)
      case (error e)
      then show ?thesis using detached_runs(2) [OF error(1)] by simp
    next
      case (ok u w1)
      note d = detached_runs(1,4,5) [OF ok(1)] detached_runs(3) [OF ok(1) assms(2)]
      have t1: "touches {p} w w1" using d(1) by (rule touches_mono) simp
      have e1: "extends p w w1" using d(2,3) by (intro extends_look) (simp add: path_look_def)
      from ok(2) show ?thesis
      proof (cases rule: fs_bindE)
        case (error e)
        then show ?thesis
          using touched.R_trans [OF t1 quiet_touches [OF still.framesD [OF still.frames_prepare_all error(1)]]]
            extends_trans [OF e1 extends_look [OF quiet_look [OF still.framesD [OF still.frames_prepare_all error(1)]]]]
          by simp
      next
        case (ok es w2)
        have q: "quiet w1 w2" by (rule still.framesD [OF still.frames_prepare_all ok(1)])
        have len: "length es = length reqs" "prepared us reqs es"
          using prepare_all_length [OF ok(1)] ok(1) by (auto simp: prepared_def)
        have t2: "touches {p} w w2" by (rule touched.R_trans [OF t1 quiet_touches [OF q]])
        have e2: "extends p w w2" by (rule extends_trans [OF e1 extends_look [OF quiet_look [OF q]]])
        from ok(2) show ?thesis
        proof (cases rule: fs_bindE)
          case (error e)
          then show ?thesis
            using touched.R_trans [OF t2 touched.framesD [OF frames_create_parent error(1)]]
              create_parent_quiet [of p w2] error(1) extends_trans [OF e2 extends_look, of w']
            by (simp add: path_look_def)
        next
          case (ok v w3)
          have same: "ww_names w3 = ww_names w" "ww_handles w3 = ww_handles w1" "ww_bytes w3 = ww_bytes w" "ww_names w1 = ww_names w"
            using create_parent_quiet [of p w2] ok(1) q d by (auto simp: quiet_def)
          have t3: "touches {p} w w3"
            by (rule touched.R_trans [OF t2 touched.framesD [OF frames_create_parent ok(1)]])
          have ok3: "files_ok w3" by (rule touches_ok [OF t3 assms(2)])
          have held: "ww_handles w3 p = None \<or> attached p w3"
            using d(4) same by (auto simp: attached_def)
          have look: "extends p w w3" using same by (intro extends_look) (simp add: path_look_def)
          from ok(2) show ?thesis
          proof (cases rule: fs_bindE)
            case (error e)
            then show ?thesis
              using handle_of_runs [OF error(1) held ok3] touched.R_trans [OF t3] extends_trans [OF look] by simp
          next
            case (ok h w4)
            note opened = handle_of_runs [OF ok(1) held ok3]
            obtain l where l: "holds_log p l w4" using opened attached_log by auto
            have t4: "touches {p} w w4" using opened touched.R_trans [OF t3] by simp
            have grown: "extends p w w4" using extends_trans [OF look] opened by simp
            from ok(2) show ?thesis
            proof (cases rule: fs_bindE)
              case (error e)
              then show ?thesis
                using ledger_append_many_runs [OF error(1) l] touched.R_trans [OF t4] extends_trans [OF grown] by simp
            next
              case (ok ids w5)
              note out = ledger_append_many_runs [OF ok(1) l]
              have fin: "r = Inr (map (\<lambda>i. \<lparr>ar_tx_id = i, ar_tx_path = p\<rparr>) ids)" "w' = w5"
                using ok(2) by (simp_all add: fs_ok_def)
              have "length (fst (log_all es l)) = length es" by (rule log_all_length)
              then show ?thesis
                using out fin l grown len touched.R_trans [OF t4] extends_trans [OF grown] by (auto simp: list_all_iff comp_def simp del: split_paired_Ex intro!: exI [of _ es] exI [of _ l])
            qed
          qed
        qed
      qed
    qed
  qed
  then show "touches {p} w w'" and "extends p w w'"
    and "\<And>results. r = Inr results \<Longrightarrow> \<exists>es l w1. prepared us reqs es \<and> length results = length reqs
      \<and> map ar_tx_id results = fst (log_all es l) \<and> list_all (\<lambda>x. ar_tx_path x = p) results
      \<and> holds_log p l w1 \<and> extends p w w1 \<and> holds_log p (snd (log_all es l)) w'"
    by blast+
qed

end
