(* ===== verification/Writer_Commit.thy ===== *)
theory Writer_Commit
  imports Writer_Ledger
begin

text \<open>
  What a transaction of the writer leaves behind: one that is refused leaves every file as it was, one that
  commits leaves the new ones and its entries in the ledger; appending again writes nothing.
\<close>

section \<open>Cleaning up\<close>

lemma remove_backup_runs: "touches (set_option (sr_backup s)) w (remove_backup s w)"
  "ww_faults w Undo = [] \<Longrightarrow> sr_backup s = Some b \<Longrightarrow> path_look (remove_backup s w) b = None"
  using remove_runs [OF refl] by (auto simp: remove_backup_def touched.R_refl split: option.split)

lemma cleanup_committed_touches: "touches (backups ss) w (cleanup_committed_backups ss w)"
proof (induction ss arbitrary: w)
  case (Cons s ss)
  then show ?case
    using touches_trans [OF remove_backup_runs(1) Cons.IH] by (simp add: cleanup_committed_backups_def)
qed (simp add: cleanup_committed_backups_def touched.R_refl)

text \<open>Nothing but the files beside the targets goes, and they go when removing works.\<close>

lemma cleanup_staged_both:
  "touches (tmps ss \<union> backups ss) w (cleanup_staged_rewrites ss w) \<and>
    (files_ok w \<longrightarrow> ww_faults w Undo = [] \<longrightarrow>
      (\<forall>p. path_look w p = None \<or> p \<in> tmps ss \<union> backups ss \<longrightarrow> path_look (cleanup_staged_rewrites ss w) p = None))"
  proof (induction ss arbitrary: w)
    case Nil
    then show ?case by (simp add: cleanup_staged_rewrites_def touched.R_refl)
  next
    case (Cons s ss)
    let ?w1 = "remove_transaction_sidecar (sr_tmp s) w"
    let ?w2 = "remove_backup s ?w1"
    have t1: "touches {sr_tmp s} w ?w1" and t2: "touches (set_option (sr_backup s)) ?w1 ?w2"
      using remove_runs(1) remove_backup_runs(1) by auto
    have t: "touches ({sr_tmp s} \<union> set_option (sr_backup s)) w ?w2"
      using touches_trans [OF t1 t2] .
    have gone: "path_look ?w2 p = None"
      if "files_ok w" "ww_faults w Undo = []" "path_look w p = None \<or> p = sr_tmp s \<or> sr_backup s = Some p" for p
    proof (cases "sr_backup s = Some p")
      case True
      then show ?thesis using remove_backup_runs(2) touches_faults [OF t1 that(2)] by blast
    next
      case False
      then have "path_look ?w2 p = path_look ?w1 p"
        using touches_look [OF t2 touches_ok [OF t1 that(1)]] by auto
      then show ?thesis
        using False that remove_runs(3) [OF refl that(2)] touches_look [OF t1 that(1), of p] by (cases "p = sr_tmp s") auto
    qed
    have step: "cleanup_staged_rewrites (s # ss) w = cleanup_staged_rewrites ss ?w2"
      by (simp add: cleanup_staged_rewrites_def)
    have frame: "touches (tmps (s # ss) \<union> backups (s # ss)) w (cleanup_staged_rewrites (s # ss) w)"
    proof -
      have "touches ({sr_tmp s} \<union> set_option (sr_backup s) \<union> (tmps ss \<union> backups ss)) w (cleanup_staged_rewrites ss ?w2)"
        using touches_trans [OF t] Cons.IH [of ?w2] by blast
      then show ?thesis unfolding step by (rule touches_mono) auto
    qed
    have all: "path_look (cleanup_staged_rewrites (s # ss) w) p = None"
      if "files_ok w" "ww_faults w Undo = []" "path_look w p = None \<or> p \<in> tmps (s # ss) \<union> backups (s # ss)" for p
    proof -
      have "path_look ?w2 p = None \<or> p \<in> tmps ss \<union> backups ss"
        using gone [OF that(1,2), of p] that(3) by auto
      then show ?thesis
        unfolding step
        by (rule conjunct2 [OF Cons.IH [of ?w2], rule_format, OF touches_ok [OF t that(1)] touches_faults [OF t that(2)]])
    qed
    show ?case by (intro conjI impI allI frame all)
  qed

lemma cleanup_staged_touches: "touches (tmps ss \<union> backups ss) w (cleanup_staged_rewrites ss w)"
  by (rule conjunct1 [OF cleanup_staged_both])

lemma cleanup_staged_gone:
  "files_ok w \<Longrightarrow> ww_faults w Undo = [] \<Longrightarrow> p \<in> tmps ss \<union> backups ss
    \<Longrightarrow> path_look (cleanup_staged_rewrites ss w) p = None"
  by (rule conjunct2 [OF cleanup_staged_both, rule_format]) simp_all

section \<open>The whole transaction\<close>

definition fresh_of :: "file_rewrite list \<Rightarrow> file_path \<Rightarrow> string" where
  "fresh_of rewrites q = the (map_of (map (\<lambda>r. (fr_path r, fr_new_contents r)) rewrites) q)"

lemma fresh_of_member:
  assumes "distinct (map fr_path rewrites)" "r \<in> set rewrites"
  shows "fresh_of rewrites (fr_path r) = fr_new_contents r"
proof -
  have "map_of (map (\<lambda>r. (fr_path r, fr_new_contents r)) rewrites) (fr_path r) = Some (fr_new_contents r)"
    using assms by (intro map_of_is_SomeI) (auto simp: comp_def)
  then show ?thesis by (simp add: fresh_of_def)
qed

fun commit_results :: "multi_transaction_commit \<Rightarrow> tx_append_result list" where
  "commit_results (Committed rs) = rs"
| "commit_results (CommitUncertain rs e) = rs"

text \<open>The entries are in the ledger, which still begins with what it held; each is answered with the id it
  is stored under.\<close>

definition logged ::
  "uuid_source \<Rightarrow> tx_append list \<Rightarrow> file_path \<Rightarrow> writer_world \<Rightarrow> tx_append_result list \<Rightarrow> writer_world \<Rightarrow> bool"
where
  "logged us reqs p w results w' \<longleftrightarrow>
     (\<exists>es l w1. prepared us reqs es \<and> length results = length reqs \<and> map ar_tx_id results = fst (log_all es l)
        \<and> list_all (\<lambda>x. ar_tx_path x = p) results
        \<and> holds_log p l w1 \<and> extends p w w1 \<and> holds_log p (snd (log_all es l)) w')"

lemma sync_quiet: "frames quiet (sync_tx_writer p)"
  using still.frames_sync by (auto simp: frames_def sync_tx_writer_def still.R_refl split: option.split)

lemma logged_quiet: "logged us reqs p w rs w1 \<Longrightarrow> quiet w1 w' \<Longrightarrow> logged us reqs p w rs w'"
  unfolding logged_def using holds_log_quiet by blast

lemma logged_from: "path_look w1 p = path_look w p \<Longrightarrow> logged us reqs p w1 rs w' = logged us reqs p w rs w'"
  by (simp add: logged_def extends_def)

lemma midway_touches:
  assumes "midway {} w0 ss renamed w" "touches {p} w w'" "p \<notin> tmps ss \<union> backups ss \<union> targets ss"
  shows "midway {p} w0 ss renamed w'"
proof -
  have ok: "files_ok w" using assms(1) by (simp add: midway_def)
  have same: "path_look w' q = path_look w q" if "q \<noteq> p" for q
    using touches_look [OF assms(2) ok] that by simp
  have "path_look w' (sr_target s) = path_look w (sr_target s) \<and> ready w0 w' s = ready w0 w s" if "s \<in> set ss" for s
  proof
    show "path_look w' (sr_target s) = path_look w (sr_target s)"
    proof (rule same)
      show "sr_target s \<noteq> p" using assms(3) that by auto
    qed
    show "ready w0 w' s = ready w0 w s"
    proof (rule ready_cong)
      fix b
      assume "sr_backup s = Some b"
      then have "b \<noteq> p" using assms(3) that by (auto simp: backups_def)
      then show "path_look w' b = path_look w b" by (rule same)
    qed
  qed
  then show ?thesis
    using assms(1) same touches_ok [OF assms(2) ok] unfolding midway_def by auto
qed

lemma whole_touches:
  assumes "whole w0 fresh ss w" "touches {p} w w'" "p \<notin> targets ss" "files_ok w"
  shows "whole w0 fresh ss w'"
  unfolding whole_def
proof
  fix s
  assume s: "s \<in> set ss"
  then have "path_look w' (sr_target s) = path_look w (sr_target s)"
    using touches_look [OF assms(2,4), of "sr_target s"] assms(3) by auto
  then show "path_look w' (sr_target s) \<in> {path_look w0 (sr_target s), Some (fresh (sr_target s))}"
    using assms(1) s by (simp add: whole_def)
qed

text \<open>Committing to the ledger after the renames.\<close>

lemma commit_ledger_runs:
  assumes run: "commit_ledger us ss txs w = (r, w')"
    and ren: "renaming {} w0 fresh ss [] w" and laid: "laid_out i ss"
    and p: "p \<notin> tmps ss \<union> backups ss \<union> targets ss"
    and txs: "list_all (\<lambda>t. ta_tx_path t = p) txs"
  shows "touches (insert p (area ss)) w w' \<and> whole w0 fresh ss w' \<and> extends p w0 w' \<and>
    (case r of
       Inl _ \<Rightarrow> ww_faults w Undo = [] \<longrightarrow> midway {p} w0 ss [] w'
     | Inr c \<Rightarrow> midway {p} w0 ss ss w' \<and> logged us txs p w0 (commit_results c) w' \<and>
         (\<forall>s \<in> set ss. path_look w' (sr_target s) = Some (fresh (sr_target s)) \<and> path_look w' (sr_tmp s) = None))"
proof -
  have mid: "midway {} w0 ss ss w" and ok: "files_ok w" using ren by (auto simp: renaming_def midway_def)
  have fin: "\<forall>s \<in> set ss. path_look w (sr_target s) = Some (fresh (sr_target s)) \<and> path_look w (sr_tmp s) = None"
    using ren by (simp add: renaming_def)
  have whole: "whole w0 fresh ss w" using renaming_whole [OF ren] laid by simp
  obtain r1 w1 where append: "append_txs_inner us txs w = (r1, w1)" by fastforce
  note out = append_txs_runs [OF append ok txs]
  have t1: "touches (insert p (area ss)) w w1" using out(1) by (rule touches_mono) simp
  have mid1: "midway {p} w0 ss ss w1" by (rule midway_touches [OF mid out(1) p])
  have whole1: "whole w0 fresh ss w1" using whole_touches [OF whole out(1) _ ok] p by simp
  have look: "path_look w p = path_look w0 p"
    using mid p by (simp add: midway_def)
  have log1: "extends p w0 w1" using out(2) look by (simp add: extends_def)
  show ?thesis
  proof (cases r1)
    case (Inl e)
    then have w': "w' = rollback_renamed_rewrites ss w1" "r = Inl e"
      using run append by (simp_all add: commit_ledger_def)
    have "midway {p} w0 ss [] w'" if "ww_faults w Undo = []"
      using midway_rollback [OF laid mid1] p touches_faults [OF t1 that] w' by simp
    moreover have "whole w0 fresh ss w'"
      unfolding w' by (rule whole_rollback [OF laid midway_undoable [OF mid1] whole1])
    moreover have "path_look w' p = path_look w1 p"
      unfolding w' using touches_look [OF rollback_touches touches_ok [OF t1 ok]] p by (auto simp: area_def)
    then have "extends p w0 w'" using extends_trans [OF log1 extends_look] by blast
    ultimately show ?thesis
      using w' touched.R_trans [OF t1 touches_mono [OF rollback_touches]] by auto
  next
    case (Inr results)
    obtain r2 where sync: "sync_tx_writer (ar_tx_path (hd results)) w1 = (r2, w')"
      and r: "\<exists>c. r = Inr c \<and> commit_results c = results"
      using run append Inr by (auto simp: commit_ledger_def split: prod.splits sum.splits)
    have quiet: "quiet w1 w'" by (rule still.framesD [OF sync_quiet sync])
    have same: "path_look w' q = path_look w1 q" for q by (rule quiet_look [OF quiet])
    have "logged us txs p w results w1"
      using out(3) [OF Inr] unfolding logged_def .
    then have log: "logged us txs p w0 results w'"
      using logged_quiet quiet logged_from [OF look] by blast
    have "files_ok w'" using touches_ok [OF quiet_touches [OF quiet]] touches_ok [OF t1 ok] by blast
    then have mid': "midway {p} w0 ss ss w'"
      using mid1 same ready_cong [of _ w' w1 w0] by (auto simp: midway_def)
    have "path_look w' q = path_look w q" if "q \<in> tmps ss \<union> targets ss" for q
      using same touches_look [OF out(1) ok, of q] that p by auto
    then show ?thesis
      using r log mid' whole1 same fin extends_trans [OF log1 extends_look [OF same]] touched.R_trans [OF t1 quiet_touches [OF quiet]] by (auto simp: whole_def)
  qed
qed

text \<open>The body, from the first staging to the sync.\<close>

lemma sidecars_mono: "A \<subseteq> B \<Longrightarrow> sidecars i A \<subseteq> sidecars i B"
  unfolding sidecars_def by blast

lemma stage_laid_out:
  assumes "stage_rewrites i rs w = (res, ss, w')" "files_ok w" "distinct (map fr_path rs)"
    and "sidecars i (fr_path ` set rs) \<inter> insert p (fr_path ` set rs) = {}" "p \<notin> fr_path ` set rs"
  shows "laid_out i ss" "targets ss \<subseteq> fr_path ` set rs"
proof -
  note run = stage_rewrites_runs [OF assms(1,2)]
  have "set (map sr_target ss) \<subseteq> set (map fr_path rs)"
    using run by (metis set_take_subset)
  then show sub: "targets ss \<subseteq> fr_path ` set rs" by simp
  then have "sidecars i (targets ss) \<subseteq> sidecars i (fr_path ` set rs)"
    by (rule sidecars_mono)
  moreover have "distinct (map sr_target ss)"
    using run assms(3) by (metis distinct_take)
  ultimately show "laid_out i ss"
    using run sub assms(4) unfolding laid_out_def by blast
qed

lemma staged_news:
  assumes "list_all2 (\<lambda>r s. sr_target s = fr_path r \<and> path_look w (sr_tmp s) = Some (fr_new_contents r)) rs ss"
    and "map sr_target ss' = map sr_target ss" "map sr_tmp ss' = map sr_tmp ss" "distinct (map fr_path rs)"
  shows "map sr_target ss' = map fr_path rs"
    and "s \<in> set ss' \<Longrightarrow> path_look w (sr_tmp s) = Some (fresh_of rs (sr_target s))"
proof -
  have len: "length ss' = length rs" "length ss = length rs"
    using list_all2_lengthD [OF assms(1)] arg_cong [OF assms(2), of length] by simp_all
  have at: "sr_target (ss' ! k) = fr_path (rs ! k)" "path_look w (sr_tmp (ss' ! k)) = Some (fr_new_contents (rs ! k))"
    if "k < length rs" for k
  proof -
    have "sr_target (ss ! k) = fr_path (rs ! k)" "path_look w (sr_tmp (ss ! k)) = Some (fr_new_contents (rs ! k))"
      using list_all2_nthD [OF assms(1) that] by simp_all
    moreover have "sr_target (ss' ! k) = sr_target (ss ! k)" "sr_tmp (ss' ! k) = sr_tmp (ss ! k)"
      using arg_cong [OF assms(2), of "\<lambda>l. l ! k"] arg_cong [OF assms(3), of "\<lambda>l. l ! k"] that len by simp_all
    ultimately show "sr_target (ss' ! k) = fr_path (rs ! k)" "path_look w (sr_tmp (ss' ! k)) = Some (fr_new_contents (rs ! k))"
      by simp_all
  qed
  show "map sr_target ss' = map fr_path rs"
  proof (rule nth_equalityI)
    show "length (map sr_target ss') = length (map fr_path rs)" using len by simp
  next
    fix k
    assume "k < length (map sr_target ss')"
    then show "map sr_target ss' ! k = map fr_path rs ! k" using at(1) [of k] len by simp
  qed
  show "path_look w (sr_tmp s) = Some (fresh_of rs (sr_target s))" if s: "s \<in> set ss'"
  proof -
    obtain k where k: "k < length rs" "s = ss' ! k" using s len by (auto simp: in_set_conv_nth)
    then have "fresh_of rs (sr_target s) = fr_new_contents (rs ! k)"
      using fresh_of_member [OF assms(4) nth_mem [OF k(1)]] at(1) [OF k(1)] by simp
    then show ?thesis using at(2) [OF k(1)] k(2) by simp
  qed
qed

lemma sidecars_of_staged: "list_all (staged_for i) ss \<Longrightarrow> tmps ss \<union> backups ss \<subseteq> sidecars i (targets ss)"
  by (auto simp: list_all_iff staged_for_def sidecars_def backups_def)

lemma transaction_body_runs:
  assumes run: "transaction_body us rewrites txs i verify w = (r, ss, w')"
    and ok: "files_ok w" and looks: "ww_faults w Look = []" and paths: "distinct (map fr_path rewrites)"
    and apart: "sidecars i (fr_path ` set rewrites) \<inter> insert p (fr_path ` set rewrites) = {}" "p \<notin> fr_path ` set rewrites"
    and txs: "list_all (\<lambda>t. ta_tx_path t = p) txs"
  shows "laid_out i ss \<and> targets ss \<subseteq> fr_path ` set rewrites \<and> (\<forall>q \<in> tmps ss \<union> backups ss. path_look w q = None) \<and>
    touches (insert p (area ss)) w w' \<and> whole w (fresh_of rewrites) ss w' \<and> extends p w w' \<and>
    (case r of
       Inl _ \<Rightarrow> ww_faults w Undo = [] \<longrightarrow> midway {p} w ss [] w'
     | Inr c \<Rightarrow> map sr_target ss = map fr_path rewrites \<and> midway {p} w ss ss w' \<and>
         logged us txs p w (commit_results c) w' \<and>
         (\<forall>s \<in> set ss. path_look w' (sr_target s) = Some (fresh_of rewrites (sr_target s)) \<and> path_look w' (sr_tmp s) = None))"
proof -
  obtain res1 ss1 w1 where stage: "stage_rewrites i rewrites w = (res1, ss1, w1)" by (metis surj_pair)
  note staged = stage_rewrites_runs [OF stage ok]
  note laid1 = stage_laid_out [OF stage ok paths apart]
  have t1: "touches (tmps ss1) w w1" and none1: "\<forall>q \<in> tmps ss1. path_look w q = None" using staged by auto
  have ok1: "files_ok w1" by (rule touches_ok [OF t1 ok])
  have look1: "path_look w1 q = path_look w q" if "q \<notin> tmps ss1" for q
    by (rule touches_look [OF t1 ok that])
  have keep1: "path_look w1 (sr_target s) = path_look w (sr_target s)" if "s \<in> set ss1" for s
    using look1 laid_out_target(1) [OF laid1(1) that] .
  have side: "tmps ss \<union> backups ss \<subseteq> sidecars i (fr_path ` set rewrites)"
    if "laid_out i ss" "targets ss \<subseteq> fr_path ` set rewrites" for ss
    using sidecars_of_staged [of i ss] sidecars_mono [OF that(2), of i] that(1) by (auto simp: laid_out_def)
  have off: "p \<notin> area ss" if "laid_out i ss" "targets ss \<subseteq> fr_path ` set rewrites" for ss
    using side [OF that] apart that(2) by (auto simp: area_def)
  have log1: "extends p w w1"
    using off [OF laid1] by (intro extends_look look1) (simp add: area_def)
  have mono: "touches (insert p (area ss1)) w w1" using t1 by (rule touches_mono) (auto simp: area_def)
  show ?thesis
  proof (cases res1)
    case (Inl e)
    then have eq: "r = Inl e" "ss = ss1" "w' = w1" using run stage by (simp_all add: transaction_body_def)
    have "midway {p} w ss [] w'"
      using ok1 look1 eq by (simp add: midway_def)
    moreover have "whole w (fresh_of rewrites) ss w'"
      using keep1 eq by (simp add: whole_def)
    ultimately show ?thesis
      using eq laid1 staged none1 mono log1 by auto
  next
    case (Inr u)
    obtain res2 ss2 w2 where backup: "backup_all i ss1 w1 = (res2, ss2, w2)" by (metis surj_pair)
    have none: "backups ss1 = {}" using staged by simp
    note backed = backup_all_runs [OF backup ok1 laid1(1) none]
    have laid2: "laid_out i ss2" using laid_out_backups [OF _ _ laid1(1)] backed by blast
    have eqs: "targets ss2 = targets ss1" "tmps ss2 = tmps ss1"
      using backed by (simp_all flip: set_map)
    have t2: "touches (backups ss2) w1 w2" and none2: "\<forall>q \<in> backups ss2. path_look w1 q = None"
      using backed by blast+
    have ok2: "files_ok w2" by (rule touches_ok [OF t2 ok1])
    have look2: "path_look w2 q = path_look w1 q" if "q \<notin> backups ss2" for q
      by (rule touches_look [OF t2 ok1 that])
    have sub2: "targets ss2 \<subseteq> fr_path ` set rewrites" using laid1(2) eqs by simp
    have log2: "extends p w w2"
      using off [OF laid2 sub2] extends_trans [OF log1 extends_look [OF look2]] by (simp add: area_def)
    have mono2: "touches (insert p (area ss2)) w w2"
    proof (rule touched.R_trans)
      show "touches (insert p (area ss2)) w w1" using t1 by (rule touches_mono) (use eqs in \<open>auto simp: area_def\<close>)
      show "touches (insert p (area ss2)) w1 w2" using t2 by (rule touches_mono) (auto simp: area_def)
    qed
    have disjoint: "q \<notin> tmps ss1" if q: "q \<in> backups ss2" for q
    proof -
      obtain s where "s \<in> set ss2" "sr_backup s = Some q" using q by (auto simp: backups_def)
      then have "q \<notin> tmps ss2" using laid_out_apart(3) [OF laid2] by blast
      then show ?thesis using eqs by simp
    qed
    have fresh_names: "\<forall>q \<in> tmps ss2 \<union> backups ss2. path_look w q = None"
      using none1 none2 look1 disjoint eqs by auto
    have keep2: "path_look w2 (sr_target s) = path_look w (sr_target s)" if "s \<in> set ss2" for s
      using look2 look1 laid_out_target [OF laid2 that] eqs by simp
    have mid2: "midway {p} w ss2 [] w2"
      using ok2 look1 look2 eqs by (simp add: midway_def)
    have whole2: "whole w (fresh_of rewrites) ss2 w2"
      using keep2 by (simp add: whole_def)
    show ?thesis
    proof (cases res2)
      case (Inl e)
      then have "r = Inl e" "ss = ss2" "w' = w2"
        using run stage Inr backup by (simp_all add: transaction_body_def)
      then show ?thesis
        using laid2 laid1(2) eqs fresh_names mono2 whole2 mid2 log2 by simp
    next
      case Inr2: (Inr u2)
      then have ss: "ss = ss2"
        and rest: "fs_bind (fs_lift verify) (\<lambda>_. fs_bind (rename_all [] ss2) (\<lambda>_. commit_ledger us ss2 txs)) w2 = (r, w')"
        using run stage Inr backup by (simp_all add: transaction_body_def split: prod.splits)
      have "list_all2 (\<lambda>r s. sr_target s = fr_path r \<and> path_look w1 (sr_tmp s) = Some (fr_new_contents r)) rewrites ss1"
        using staged Inr by simp
      note news = staged_news [OF this _ _ paths]
      have shape: "map sr_target ss2 = map sr_target ss1" "map sr_tmp ss2 = map sr_tmp ss1" using backed by simp_all
      have ren: "renaming {} w (fresh_of rewrites) [] ss2 w2"
        unfolding renaming_def
      proof (intro conjI ballI)
        show "midway {} w ([] @ ss2) [] w2"
          using ok2 look1 look2 eqs by (simp add: midway_def)
        fix s
        assume s: "s \<in> set ss2"
        have "path_look w1 (sr_target s) = path_look w (sr_target s)"
          using look1 laid_out_target(1) [OF laid2 s] eqs by simp
        moreover have "backed_up w1 w2 s" using backed Inr2 s by simp
        ultimately show "ready w w2 s"
          using touches_faults [OF t1 looks] by (simp add: backed_up_def ready_def split: option.splits)
        show "path_look w2 (sr_tmp s) = Some (fresh_of rewrites (sr_target s))"
        proof -
          have "sr_tmp s \<notin> backups ss2" using disjoint eqs s by blast
          then show ?thesis using look2 news(2) [OF shape s] by simp
        qed
      qed simp_all
      show ?thesis
      proof (cases verify)
        case (Inl e)
        then have "r = Inl e" "w' = w2" using rest by (simp_all add: fs_bind_def fs_lift_def)
        then show ?thesis
          using ss laid2 laid1(2) eqs fresh_names mono2 whole2 mid2 log2 by simp
      next
        case (Inr v)
        then have "fs_bind (rename_all [] ss2) (\<lambda>_. commit_ledger us ss2 txs) w2 = (r, w')"
          using rest by (simp add: fs_bind_def fs_lift_def)
        then show ?thesis
        proof (cases rule: fs_bindE)
          case (error e)
          note out = rename_all_runs [OF error(1) ren]
          have "midway {p} w ss2 [] w'" if "midway {} w ss2 [] w'"
            using that by (simp add: midway_def)
          moreover have "touches (insert p (area ss2)) w w'"
            using out laid2 touched.R_trans [OF mono2 touches_mono, of "area ss2"] by auto
          moreover have "extends p w w'"
            using out laid2 extends_trans [OF log2 extends_look [OF touches_look [OF _ ok2 off [OF laid2 sub2]]]]
            by simp
          ultimately show ?thesis
            using out laid2 error(2) ss laid1(2) eqs fresh_names touches_faults [OF mono2] by simp
        next
          case (ok v3 w3)
          note out = rename_all_runs [OF ok(1) ren]
          have t3: "touches (insert p (area ss2)) w w3"
            using out laid2 touched.R_trans [OF mono2 touches_mono, of "area ss2"] by auto
          have ren3: "renaming {} w (fresh_of rewrites) ss2 [] w3"
            using out laid2 by simp
          have pq: "p \<notin> tmps ss2 \<union> backups ss2 \<union> targets ss2"
            using off [OF laid2 sub2] by (simp add: area_def)
          note fin = commit_ledger_runs [OF ok(2) ren3 laid2 pq txs]
          show ?thesis
            using fin ss laid2 laid1(2) eqs fresh_names touched.R_trans [OF t3, of w'] touches_faults [OF t3] news(1) [OF shape]
            by (auto split: sum.splits)
        qed
      qed
    qed
  qed
qed

section \<open>What a transaction leaves\<close>

lemma reject_duplicates_distinct:
  "reject_duplicate_rewrites prior rs = Inr u \<Longrightarrow> distinct (map fr_path rs) \<and> fr_path ` set rs \<inter> prior = {}"
  by (induction prior rs rule: reject_duplicate_rewrites.induct) (auto split: if_splits)

text \<open>Removing backups does not touch the ledger.\<close>

lemma remove_keeps:
  "ww_bytes (remove_transaction_sidecar b w) = ww_bytes w \<and> ww_handles (remove_transaction_sidecar b w) = ww_handles w
    \<and> (q \<noteq> b \<longrightarrow> ww_names (remove_transaction_sidecar b w) q = ww_names w q)"
  by (auto simp: remove_transaction_sidecar_def remove_path_def fs_call_def next_fault_def split: list.split option.split)

lemma holds_log_remove_backup: "sr_backup s \<noteq> Some p \<Longrightarrow> holds_log p l (remove_backup s w) = holds_log p l w"
  using remove_keeps [of _ w p] by (auto simp: remove_backup_def holds_log_def split: option.split)

lemma holds_log_cleanup: "p \<notin> backups ss \<Longrightarrow> holds_log p l (cleanup_committed_backups ss w) = holds_log p l w"
proof (induction ss arbitrary: w)
  case (Cons s ss)
  then show ?case
    using holds_log_remove_backup [of s p l w] by (simp add: cleanup_committed_backups_def)
qed (simp add: cleanup_committed_backups_def)

lemma logged_cleanup: "p \<notin> backups ss \<Longrightarrow> logged us reqs p w rs w1 \<Longrightarrow> logged us reqs p w rs (cleanup_committed_backups ss w1)"
  unfolding logged_def using holds_log_cleanup by blast

lemma locked_inner_runs:
  assumes run: "transaction_multi_locked_inner us rewrites txs i verify w = (r, w')"
    and ok: "files_ok w" and looks: "ww_faults w Look = []" and paths: "distinct (map fr_path rewrites)"
    and apart: "sidecars i (fr_path ` set rewrites) \<inter> insert p (fr_path ` set rewrites) = {}" "p \<notin> fr_path ` set rewrites"
    and txs: "list_all (\<lambda>t. ta_tx_path t = p) txs"
  shows "(\<forall>f \<in> set rewrites. path_look w' (fr_path f) \<in> {path_look w (fr_path f), Some (fr_new_contents f)}) \<and>
    extends p w w' \<and>
    (case r of
       Inl _ \<Rightarrow> ww_faults w Undo = [] \<longrightarrow> (\<forall>q. q \<noteq> p \<longrightarrow> path_look w' q = path_look w q)
     | Inr c \<Rightarrow> (\<forall>f \<in> set rewrites. path_look w' (fr_path f) = Some (fr_new_contents f)) \<and>
         (\<forall>q. q \<notin> insert p (fr_path ` set rewrites) \<union> sidecars i (fr_path ` set rewrites) \<longrightarrow> path_look w' q = path_look w q) \<and>
         logged us txs p w (commit_results c) w')"
proof -
  let ?T = "fr_path ` set rewrites"
  obtain ss w1 where body: "transaction_body us rewrites txs i verify w = (r, ss, w1)"
    and w': "w' = (case r of Inl _ \<Rightarrow> cleanup_staged_rewrites ss w1 | Inr _ \<Rightarrow> cleanup_committed_backups ss w1)"
    using run by (auto simp: transaction_multi_locked_inner_def split: prod.splits sum.splits)
  note out = transaction_body_runs [OF body ok looks paths apart txs]
  have laid: "laid_out i ss" and sub: "targets ss \<subseteq> ?T" and t1: "touches (insert p (area ss)) w w1"
    and whole: "whole w (fresh_of rewrites) ss w1" and none: "\<forall>q \<in> tmps ss \<union> backups ss. path_look w q = None"
    by (rule out [THEN conjunct1] out [THEN conjunct2, THEN conjunct1] out [THEN conjunct2, THEN conjunct2, THEN conjunct1]
        out [THEN conjunct2, THEN conjunct2, THEN conjunct2, THEN conjunct1]
        out [THEN conjunct2, THEN conjunct2, THEN conjunct2, THEN conjunct2, THEN conjunct1])+
  have ok1: "files_ok w1" by (rule touches_ok [OF t1 ok])
  have side: "tmps ss \<union> backups ss \<subseteq> sidecars i ?T"
    using sidecars_of_staged [of i ss] sidecars_mono [OF sub, of i] laid by (auto simp: laid_out_def)
  have t2: "touches (tmps ss \<union> backups ss) w1 w'"
  proof (cases r)
    case (Inl e)
    then show ?thesis using w' cleanup_staged_touches by simp
  next
    case (Inr c)
    have "touches (backups ss) w1 w'" using w' Inr cleanup_committed_touches by simp
    then show ?thesis by (rule touches_mono) simp
  qed
  have clean: "path_look w' q = path_look w1 q" if "q \<notin> sidecars i ?T" for q
    by (rule touches_look [OF t2 ok1]) (use that side in blast)
  have clean_target: "path_look w' q = path_look w1 q" if "q \<in> insert p ?T" for q
    by (rule clean) (use that apart(1) in blast)
  have "extends p w w1" using out by blast
  then have log: "extends p w w'"
    by (rule extends_trans) (intro extends_look clean_target, simp)
  have target: "path_look w' (fr_path f) \<in> {path_look w (fr_path f), Some (fr_new_contents f)}" if f: "f \<in> set rewrites" for f
  proof (cases "fr_path f \<in> targets ss")
    case True
    then have "path_look w1 (fr_path f) \<in> {path_look w (fr_path f), Some (fresh_of rewrites (fr_path f))}"
      using whole by (auto simp: whole_def)
    then show ?thesis
      using clean_target [of "fr_path f"] fresh_of_member [OF paths f] f by simp
  next
    case False
    moreover have "fr_path f \<notin> sidecars i ?T" "fr_path f \<noteq> p" using apart f by blast+
    ultimately have "fr_path f \<notin> insert p (area ss)" using side by (auto simp: area_def)
    then show ?thesis
      using clean_target [of "fr_path f"] touches_look [OF t1 ok] f by simp
  qed
  show ?thesis
  proof (cases r)
    case (Inl e)
    have "path_look w' q = path_look w q" if "ww_faults w Undo = []" "q \<noteq> p" for q
    proof (cases "q \<in> tmps ss \<union> backups ss")
      case True
      then have "path_look w q = None" by (rule none [rule_format])
      moreover have "path_look w' q = None"
        using w' Inl cleanup_staged_gone [OF ok1 touches_faults [OF t1 that(1)] True] by simp
      ultimately show ?thesis by simp
    next
      case False
      then have "path_look w' q = path_look w1 q" by (rule touches_look [OF t2 ok1])
      moreover have "path_look w1 q = path_look w q"
        using out Inl that False by (simp add: midway_def)
      ultimately show ?thesis by simp
    qed
    then show ?thesis using target log Inl by simp
  next
    case (Inr c)
    have all: "map sr_target ss = map fr_path rewrites" and entries: "logged us txs p w (commit_results c) w1"
      and new: "\<forall>s \<in> set ss. path_look w1 (sr_target s) = Some (fresh_of rewrites (sr_target s))"
      using out Inr by auto
    have "path_look w' (fr_path f) = Some (fr_new_contents f)" if f: "f \<in> set rewrites" for f
    proof -
      have "fr_path f \<in> set (map sr_target ss)" using all f by simp
      then have "path_look w1 (fr_path f) = Some (fresh_of rewrites (fr_path f))" using new by auto
      then show ?thesis using clean_target [of "fr_path f"] fresh_of_member [OF paths f] f by simp
    qed
    moreover have "path_look w' q = path_look w q" if "q \<notin> insert p ?T \<union> sidecars i ?T" for q
    proof -
      have "q \<notin> insert p (area ss)" using that side sub by (auto simp: area_def)
      then show ?thesis using clean [of q] touches_look [OF t1 ok] that by simp
    qed
    moreover have "logged us txs p w (commit_results c) w'"
    proof -
      have "p \<notin> backups ss" using side apart(1) by blast
      then show ?thesis using entries w' Inr logged_cleanup by simp
    qed
    ultimately show ?thesis using target log Inr by simp
  qed
qed

lemma path_is_dir_quiet: "frames quiet (path_is_dir p)"
  by (rule still.frames_path_is_dir)

lemma lock_targets_quiet: "lock_targets rs w = (r, w') \<Longrightarrow> quiet w w'"
  by (rule still.framesD [OF still.frames_lock_targets])

lemma gated:
  assumes "fs_bind (fs_lift a) (\<lambda>_. fs_bind (fs_lift b) (\<lambda>_. fs_bind (lock_targets rs) (\<lambda>_. m))) w = (r, w')"
  shows "(\<exists>e. r = Inl e \<and> quiet w w') \<or> (\<exists>w1. b = Inr () \<and> quiet w w1 \<and> m w1 = (r, w'))"
proof (cases a)
  case (Inl e)
  then show ?thesis using assms still.R_refl by (auto simp: fs_bind_def fs_lift_def)
next
  case a: (Inr u)
  show ?thesis
  proof (cases b)
    case (Inl e)
    then show ?thesis using assms a still.R_refl by (auto simp: fs_bind_def fs_lift_def)
  next
    case (Inr v)
    then have "fs_bind (lock_targets rs) (\<lambda>_. m) w = (r, w')"
      using assms a by (simp add: fs_bind_def fs_lift_def)
    then show ?thesis
    proof (cases rule: fs_bindE)
      case (error e)
      then show ?thesis using lock_targets_quiet by blast
    next
      case (ok x w1)
      then show ?thesis using lock_targets_quiet Inr by auto
    qed
  qed
qed

text \<open>Claim C3. What a transaction leaves, under three conditions: the calls that ask whether a file is
  there do not fail (\<open>unseen_target_is_lost\<close> shows why), the files beside a target are neither targets nor
  the ledger, and the ledger is no target. Whatever other calls fail, every target holds its old contents or
  its new ones, also when the process stops in between (which is a transaction whose later calls all fail),
  and the ledger still begins with what it held. A refused transaction leaves every file but the ledger as it
  was, provided the calls that undo it do not fail; the ledger may have gained entries of the refused group
  (\<open>refused_group_keeps_first_entry\<close>). A committed one leaves all the new contents, changes no file but its
  targets, its ledger and the files beside the targets, and its entries are in the ledger.\<close>

theorem transaction_targets_old_or_new:
  assumes run: "transaction_multi_inner us rewrites txs request_id verify w = (r, w')"
    and ok: "files_ok w" and looks: "ww_faults w Look = []"
    and apart: "sidecars request_id (fr_path ` set rewrites) \<inter> insert p (fr_path ` set rewrites) = {}"
    and ledger: "p \<notin> fr_path ` set rewrites" "p = ta_tx_path (hd txs)"
  shows "(\<forall>f \<in> set rewrites. path_look w' (fr_path f) \<in> {path_look w (fr_path f), Some (fr_new_contents f)}) \<and>
    extends p w w' \<and>
    (case r of
       Inl _ \<Rightarrow> ww_faults w Undo = [] \<longrightarrow> (\<forall>q. q \<noteq> p \<longrightarrow> path_look w' q = path_look w q)
     | Inr c \<Rightarrow> (\<forall>f \<in> set rewrites. path_look w' (fr_path f) = Some (fr_new_contents f)) \<and>
         (\<forall>q. q \<notin> insert p (fr_path ` set rewrites) \<union> sidecars request_id (fr_path ` set rewrites)
            \<longrightarrow> path_look w' q = path_look w q) \<and>
         logged us txs p w (commit_results c) w')"
proof -
  have early: ?thesis if "r = Inl e" "quiet w w'" for e
    using that quiet_look [OF that(2)] by (simp add: extends_look)
  show ?thesis
  proof (cases "\<exists>tx ts. txs = tx # ts \<and> \<not> list_ex (\<lambda>t. ta_tx_path t \<noteq> ta_tx_path tx) txs")
    case False
    then have "\<exists>e. r = Inl e \<and> w' = w"
      using run by (auto simp: transaction_multi_inner_def fs_err_def split: list.splits if_splits)
    then show ?thesis using early still.R_refl by blast
  next
    case True
    then have txs: "list_all (\<lambda>t. ta_tx_path t = p) txs"
      using ledger(2) by (auto simp: list_ex_iff list_all_iff)
    have "fs_bind (fs_lift (reject_duplicate_request_ids {} txs)) (\<lambda>_. fs_bind (fs_lift (reject_duplicate_rewrites {} rewrites)) (\<lambda>_.
        fs_bind (lock_targets rewrites) (\<lambda>_. transaction_multi_locked_inner us rewrites txs request_id verify))) w = (r, w')"
      using run True by (auto simp: transaction_multi_inner_def)
    then have "(\<exists>e. r = Inl e \<and> quiet w w') \<or> (\<exists>w1. reject_duplicate_rewrites {} rewrites = Inr () \<and> quiet w w1 \<and>
        transaction_multi_locked_inner us rewrites txs request_id verify w1 = (r, w'))"
      by (rule gated)
    then consider (refused) e where "r = Inl e" "quiet w w'"
      | (locked) w1 where "reject_duplicate_rewrites {} rewrites = Inr ()" "quiet w w1"
          "transaction_multi_locked_inner us rewrites txs request_id verify w1 = (r, w')"
      by blast
    then show ?thesis
    proof cases
      case refused
      then show ?thesis by (rule early)
    next
      case locked
      have "distinct (map fr_path rewrites)" using reject_duplicates_distinct [OF locked(1)] by simp
      moreover have "ww_faults w1 Look = []" "files_ok w1" "ww_faults w Undo = [] \<Longrightarrow> ww_faults w1 Undo = []"
        using locked(2) looks touches_ok [OF quiet_touches [OF locked(2)] ok] by (simp_all add: quiet_def)
      ultimately show ?thesis
        using locked_inner_runs [OF locked(3) _ _ _ apart ledger(1) txs] quiet_look [OF locked(2)]
          logged_from [of w1 p w us txs] extends_look [of w1 p w] extends_trans [of p w w1 w']
        by (auto split: sum.splits)
    qed
  qed
qed

section \<open>Each event once\<close>

definition recorded :: "tx_entry list \<Rightarrow> string list \<Rightarrow> ledger_log \<Rightarrow> bool" where
  "recorded es is l \<longleftrightarrow> list_all2 (\<lambda>e i. bt_get (log_ids l) (event_id e) = Some i) es is"

lemma log_one_keeps: "bt_get (log_ids l) k = Some i \<Longrightarrow> bt_get (log_ids (snd (log_one e l))) k = Some i"
  by (cases l) (auto simp: log_one_def log_ids_def bt_get_insert split: option.split)

lemma log_one_records: "bt_get (log_ids (snd (log_one e l))) (event_id e) = Some (fst (log_one e l))"
  by (cases l) (auto simp: log_one_def log_ids_def bt_get_insert split: option.split)

lemma log_all_keeps: "bt_get (log_ids l) k = Some i \<Longrightarrow> bt_get (log_ids (snd (log_all es l))) k = Some i"
  by (induction es arbitrary: l) (auto simp: Let_def log_one_keeps)

lemma log_all_records: "recorded es (fst (log_all es l)) (snd (log_all es l))"
proof (induction es arbitrary: l)
  case (Cons e es)
  then show ?case
    using log_all_keeps [OF log_one_records] by (simp add: recorded_def Let_def)
qed (simp add: recorded_def)

lemma recorded_append_many:
  assumes "recorded es is l" "holds_log p l w"
  shows "ledger_append_many p es w = (Inr is, w)"
  using assms(1)
proof (induction es arbitrary: "is")
  case (Cons e es)
  then obtain i js where "is": "is = i # js" and i: "bt_get (log_ids l) (event_id e) = Some i" and rest: "recorded es js l"
    by (auto simp: recorded_def list_all2_Cons1)
  have "ledger_append p e w = (Inr i, w)"
    using assms(2) i by (auto simp: ledger_append_def holds_log_def log_ids_def)
  then show ?case
    using Cons.IH [OF rest] "is" by (simp add: fs_bind_def fs_ok_def)
qed (simp add: recorded_def fs_ok_def)

text \<open>A request with an event id of its own is prepared to an entry with that event id.\<close>

definition gives_event_id :: "tx_append \<Rightarrow> bool" where
  "gives_event_id t \<longleftrightarrow>
     (\<exists>i. map snd (filter (\<lambda>(key, _). key = ''EVENT_ID'') (tx_extra (ta_entry t))) = [i])"

lemma find_one: "map snd (filter P xs) = [i] \<Longrightarrow> \<exists>k. find P xs = Some (k, i)"
  by (induction xs) (auto split: if_splits)

lemma gives_event_id_find:
  assumes "gives_event_id t" "tx_extra e = tx_extra (ta_entry t)"
  shows "event_id e = event_id (ta_entry t)"
proof -
  obtain k i where "find (\<lambda>(key, _). key = ''EVENT_ID'') (tx_extra (ta_entry t)) = Some (k, i)"
    using assms(1) find_one unfolding gives_event_id_def by metis
  then show ?thesis using assms(2) by (simp add: event_id_def)
qed

lemma prepare_event_id:
  assumes "prepare_tx_entry us t w = (Inr e, w')" "gives_event_id t"
  shows "event_id e = event_id (ta_entry t)"
proof -
  obtain i where i: "map snd (filter (\<lambda>(key, _). key = ''EVENT_ID'') (tx_extra (ta_entry t))) = [i]"
    using assms(2) by (auto simp: gives_event_id_def)
  obtain e0 w1 where e0: "(case ta_tx_id_policy t of
        Preserve \<Rightarrow> fs_ok (ta_entry t)
      | ProjectSequence project date \<Rightarrow>
          fs_bind (new_v4 us) (\<lambda>uuid. fs_ok ((ta_entry t)\<lparr>tx_id :=
            ''tx-'' @ date @ ''-'' @ project_tx_slug project @ ''-'' @ uuid\<rparr>))) w = (Inr e0, w1)"
    and e: "(case map snd (filter (\<lambda>(key, _). key = ''EVENT_ID'') (tx_extra e0)) of
        [] \<Rightarrow> fs_bind (new_v4 us) (\<lambda>uuid. fs_ok (e0\<lparr>tx_extra := tx_extra e0 @ [(''EVENT_ID'', uuid)]\<rparr>))
      | [i] \<Rightarrow> if us_parse us i then fs_ok e0 else fs_err EventIdNotUuid
      | _ \<Rightarrow> fs_err DuplicateEventIds) w1 = (Inr e, w')"
    using assms(1) unfolding prepare_tx_entry_def by (rule fs_bind_Inr)
  have same: "tx_extra e0 = tx_extra (ta_entry t)"
    using e0 by (auto simp: fs_ok_def elim!: fs_bind_Inr split: tx_id_policy.splits)
  have "(if us_parse us i then fs_ok e0 else fs_err EventIdNotUuid) w1 = (Inr e, w')"
    using e unfolding same i by simp
  then have "e = e0"
    by (cases "us_parse us i") (simp_all add: fs_ok_def fs_err_def)
  then have "tx_extra e = tx_extra (ta_entry t)" using same by simp
  then show ?thesis by (rule gives_event_id_find [OF assms(2)])
qed

lemma prepared_event_ids:
  assumes "prepared us reqs es" "list_all gives_event_id reqs"
  shows "map event_id es = map (\<lambda>t. event_id (ta_entry t)) reqs"
proof -
  obtain w w' where "prepare_all us reqs w = (Inr es, w')" using assms(1) by (auto simp: prepared_def)
  then show ?thesis
    using assms(2)
  proof (induction reqs arbitrary: w es)
    case (Cons t ts)
    then obtain e es2 w1 where e: "prepare_tx_entry us t w = (Inr e, w1)" "prepare_all us ts w1 = (Inr es2, w')" "es = e # es2"
      by (auto simp: fs_ok_def elim!: fs_bind_Inr)
    then show ?case using Cons.IH [OF e(2)] Cons.prems(2) prepare_event_id by simp
  qed (simp add: fs_ok_def)
qed

lemma recorded_event_ids: "recorded es is l \<Longrightarrow> map event_id es' = map event_id es \<Longrightarrow> recorded es' is l"
  unfolding recorded_def list_all2_conv_all_nth by (metis length_map nth_map)

lemma still_named:
  assumes "holds_log p l w" "files_ok w" "ww_faults w Look = []"
  shows "tx_handles_detached_from_paths [p] w = (Inr (), w)"
proof -
  obtain h where h: "ww_handles w p = Some h" "ww_names w p = Some (lh_inode h)"
    using assms(1) by (auto simp: holds_log_def)
  then have "path_still_names_writer p h w = (Inr True, w)"
    using assms(3) files_okD(4) [OF assms(2) h(1)]
    by (simp add: path_still_names_writer_def fs_try_def file_identity_def fs_call_def next_fault_def fs_ok_def)
  then show ?thesis using h by (simp add: fs_bind_def)
qed

text \<open>What a ledger has stored stays stored, whatever is appended next and whether that fails or not.\<close>

definition keeps_ids :: "ledger_log \<Rightarrow> ledger_log \<Rightarrow> bool" where
  "keeps_ids l l' \<longleftrightarrow> (\<forall>k i. bt_get (log_ids l) k = Some i \<longrightarrow> bt_get (log_ids l') k = Some i)"

lemma keeps_ids_refl: "keeps_ids l l"
  by (simp add: keeps_ids_def)

lemma keeps_ids_trans: "keeps_ids l l' \<Longrightarrow> keeps_ids l' l'' \<Longrightarrow> keeps_ids l l''"
  by (simp add: keeps_ids_def)

lemma recorded_keeps: "recorded es is l \<Longrightarrow> keeps_ids l l' \<Longrightarrow> recorded es is l'"
  by (auto simp: recorded_def keeps_ids_def list_all2_conv_all_nth)

definition still_logs :: "file_path \<Rightarrow> ledger_log \<Rightarrow> writer_world \<Rightarrow> bool" where
  "still_logs p l w \<longleftrightarrow> (\<exists>l'. holds_log p l' w \<and> keeps_ids l l')"

lemma still_logsI: "holds_log p l' w \<Longrightarrow> keeps_ids l l' \<Longrightarrow> still_logs p l w"
  unfolding still_logs_def by blast

lemma still_logsE: "still_logs p l w \<Longrightarrow> (\<And>l'. holds_log p l' w \<Longrightarrow> keeps_ids l l' \<Longrightarrow> P) \<Longrightarrow> P"
  unfolding still_logs_def by blast

lemma still_logs_trans: "keeps_ids l l' \<Longrightarrow> still_logs p l' w \<Longrightarrow> still_logs p l w"
  unfolding still_logs_def using keeps_ids_trans by blast

lemma still_logs_same: "holds_log p l w \<Longrightarrow> still_logs p l w"
  unfolding still_logs_def using keeps_ids_refl by blast

lemma ledger_write_keeps:
  assumes "ledger_write p h e w = (r, w')" "ww_handles w p = Some h" "ww_names w p = Some (lh_inode h)"
  shows "\<exists>h'. ww_handles w' p = Some h' \<and> lh_event_ids h' = lh_event_ids h"
proof (cases "lh_kind h")
  case (LedgerTx blank)
  then show ?thesis
    using assms(1,2)
    by (auto simp: ledger_write_def set_ledger_def set_handle_def Let_def split: sum.splits prod.splits)
next
  case LedgerJournal
  let ?entry = "journal_entry_of e"
  let ?m = "fs_bind (fs_lift (map_sum JournalRefused id (je_validate ?entry))) (\<lambda>_.
    fs_bind (fs_lift (reject_journal_prose (je_body ?entry))) (\<lambda>_.
    fs_bind (write_all (lh_inode h) (journal_entry_block ?entry)) (\<lambda>_. fs_ok h)))"
  have run: "?m w = (r, w')" using assms(1) LedgerJournal by (simp add: ledger_write_def Let_def)
  have "frames (on_file p (names_inode p (lh_inode h))) ?m" by (intro fsk)
  then have "on_file p (names_inode p (lh_inode h)) w w'" using run by (rule named.framesD)
  then show ?thesis using assms(2,3) by (auto simp: on_file_def names_inode_def)
qed

lemma ledger_append_keeps:
  assumes "ledger_append p e w = (r, w')" "holds_log p l w"
  shows "still_logs p l w'"
proof (cases r)
  case (Inr i)
  then have "holds_log p (snd (log_one e l)) w'" using ledger_append_runs [OF assms] by blast
  moreover have "keeps_ids l (snd (log_one e l))" using log_one_keeps by (simp add: keeps_ids_def)
  ultimately show ?thesis by (rule still_logsI)
next
  case (Inl err)
  obtain h where h: "ww_handles w p = Some h" "ww_names w p = Some (lh_inode h)"
    and l: "l = (lh_kind h, lh_event_ids h, ww_bytes w (lh_inode h))"
    using assms(2) by (auto simp: holds_log_def)
  have "ledger_write p h e w = (Inl err, w')"
    using assms(1) h Inl by (auto simp: ledger_append_def fs_bind_def split: option.splits prod.splits sum.splits)
  then obtain h' where h': "ww_handles w' p = Some h'" "lh_event_ids h' = lh_event_ids h"
    and at: "attached p w'"
    using ledger_write_keeps [OF _ h] ledger_write_runs(2) [OF _ h] by blast
  have "holds_log p (lh_kind h', lh_event_ids h', ww_bytes w' (lh_inode h')) w'"
    using at h'(1) by (auto simp: holds_log_def attached_def)
  moreover have "keeps_ids l (lh_kind h', lh_event_ids h', ww_bytes w' (lh_inode h'))"
    using l h'(2) by (simp add: keeps_ids_def log_ids_def)
  ultimately show ?thesis by (rule still_logsI)
qed

lemma ledger_append_many_keeps:
  "ledger_append_many p es w = (r, w') \<Longrightarrow> holds_log p l w \<Longrightarrow> still_logs p l w'"
proof (induction es arbitrary: w l r)
  case (Cons e es)
  from Cons.prems(1) show ?case
    unfolding ledger_append_many.simps
  proof (cases rule: fs_bindE)
    case (error err)
    then show ?thesis using ledger_append_keeps [OF error(1) Cons.prems(2)] by simp
  next
    case (ok i w1)
    obtain l1 where one: "holds_log p l1 w1" "keeps_ids l l1"
      using ledger_append_keeps [OF ok(1) Cons.prems(2)] by (elim still_logsE)
    obtain r2 w2 where "ledger_append_many p es w1 = (r2, w2)" by fastforce
    moreover from this have "w2 = w'"
      using ok(2) by (auto simp: fs_bind_def fs_ok_def split: sum.splits)
    ultimately show ?thesis using Cons.IH [OF _ one(1)] still_logs_trans [OF one(2)] by blast
  qed
qed (simp add: fs_ok_def still_logs_same)

lemma append_txs_keeps:
  assumes run: "append_txs_inner us reqs w = (r, w')" and log: "holds_log p l w"
    and ok: "files_ok w" and looks: "ww_faults w Look = []" and one: "list_all (\<lambda>t. ta_tx_path t = p) reqs"
  shows "still_logs p l w'"
proof (cases reqs)
  case Nil
  then show ?thesis using run log by (simp add: append_txs_inner_def fs_err_def still_logs_same)
next
  case (Cons t ts)
  then have "fs_bind (prepare_all us reqs) (\<lambda>es. fs_bind (create_parent p) (\<lambda>_. fs_bind (handle_of p) (\<lambda>_.
      fs_bind (ledger_append_many p es) (\<lambda>ids. fs_ok (map (\<lambda>i. \<lparr>ar_tx_id = i, ar_tx_path = p\<rparr>) ids))))) w = (r, w')"
    using run one still_named [OF log ok looks]
    by (auto simp: append_txs_inner_def Let_def list_ex_iff list_all_iff fs_bind_def [of "tx_handles_detached_from_paths [p]"])
  then show ?thesis
  proof (cases rule: fs_bindE)
    case (error e)
    have "quiet w w'" by (rule still.framesD [OF still.frames_prepare_all error(1)])
    then show ?thesis using log holds_log_quiet still_logs_same by blast
  next
    case (ok es w1)
    have q: "quiet w w1" by (rule still.framesD [OF still.frames_prepare_all ok(1)])
    have log1: "holds_log p l (snd (create_parent p w1))"
      using create_parent_quiet [of p w1] log q by (simp add: holds_log_def quiet_def)
    from ok(2) show ?thesis
    proof (cases rule: fs_bindE)
      case (error e)
      then show ?thesis using log1 still_logs_same by simp
    next
      case (ok u w2)
      then have log2: "holds_log p l w2" using log1 by simp
      then have "\<exists>h. handle_of p w2 = (Inr h, w2)" by (auto simp: holds_log_def handle_of_def)
      then have "fs_bind (ledger_append_many p es) (\<lambda>ids. fs_ok (map (\<lambda>i. \<lparr>ar_tx_id = i, ar_tx_path = p\<rparr>) ids)) w2 = (r, w')"
        using ok(2) by (auto simp: fs_bind_def)
      then show ?thesis
        by (cases rule: fs_bindE) (use ledger_append_many_keeps log2 in \<open>auto simp: fs_ok_def\<close>)
    qed
  qed
qed

text \<open>Any number of groups appended to the ledger, one after the other, whatever each call answers.\<close>

fun append_groups :: "uuid_source \<Rightarrow> tx_append list list \<Rightarrow> writer_world \<Rightarrow> writer_world" where
  "append_groups us [] w = w"
| "append_groups us (reqs # rest) w = append_groups us rest (snd (append_txs_inner us reqs w))"

lemma append_groups_keep:
  assumes "holds_log p l w" "files_ok w" "ww_faults w Look = []"
    and "list_all (list_all (\<lambda>t. ta_tx_path t = p)) groups"
  shows "still_logs p l (append_groups us groups w) \<and>
    files_ok (append_groups us groups w) \<and> ww_faults (append_groups us groups w) Look = [] \<and>
    extends p w (append_groups us groups w)"
  using assms
proof (induction groups arbitrary: l w)
  case (Cons reqs rest)
  obtain r w1 where run: "append_txs_inner us reqs w = (r, w1)" by fastforce
  have one: "list_all (\<lambda>t. ta_tx_path t = p) reqs" using Cons.prems(4) by simp
  obtain l1 where l1: "holds_log p l1 w1" "keeps_ids l l1"
    using append_txs_keeps [OF run Cons.prems(1-3) one] by (elim still_logsE)
  note out = append_txs_runs(1,2) [OF run Cons.prems(2) one]
  have "files_ok w1" "ww_faults w1 Look = []"
    using touches_ok [OF out(1) Cons.prems(2)] touches_faults [OF out(1) Cons.prems(3)] .
  then show ?case
    using Cons.IH [OF l1(1)] Cons.prems(4) run still_logs_trans [OF l1(2)] extends_trans [OF out(2)] by simp
qed (simp add: still_logs_same extends_refl)

text \<open>Claim C10. Retrying an append adds nothing. Suppose a group of entries, each with exactly one
  \<open>EVENT_ID\<close> of its own and all for one ledger, was appended with success, and then any groups were
  appended to that ledger, each accepted or refused. Appending the first group again leaves every file as it
  is, whatever fails, and if it succeeds it answers with the ids of the first time. The calls that ask which
  file a path names are assumed not to fail: when they do, the handle that knows the events is dropped. An
  entry without an \<open>EVENT_ID\<close> is outside the claim: each call mints it a new one and writes it again.\<close>

theorem retried_append_adds_nothing:
  assumes first: "append_txs_inner us reqs w = (Inr results, w1)"
    and between: "w2 = append_groups us groups w1" "list_all (list_all (\<lambda>t. ta_tx_path t = p)) groups"
    and again: "append_txs_inner us reqs w2 = (r, w3)"
    and ok: "files_ok w" and looks: "ww_faults w Look = []" and one: "list_all (\<lambda>t. ta_tx_path t = p) reqs"
    and given: "list_all gives_event_id reqs"
  shows "(\<forall>q. path_look w3 q = path_look w2 q) \<and> (r = Inr results \<or> (\<exists>e. r = Inl e)) \<and> extends p w1 w3"
proof -
  note out = append_txs_runs [OF first ok one]
  obtain es l w0 where es: "prepared us reqs es" "map ar_tx_id results = fst (log_all es l)"
      "list_all (\<lambda>x. ar_tx_path x = p) results" and log: "holds_log p (snd (log_all es l)) w1"
    using out(3) [OF refl] by blast
  have ok1: "files_ok w1" "ww_faults w1 Look = []"
    using touches_ok [OF out(1) ok] touches_faults [OF out(1) looks] .
  have still: "still_logs p (snd (log_all es l)) w2" and ok2: "files_ok w2" "ww_faults w2 Look = []"
    and grown: "extends p w1 w2"
    using append_groups_keep [OF log ok1 between(2)] unfolding between(1) by blast+
  obtain l2 where log2: "holds_log p l2 w2" and kept: "keeps_ids (snd (log_all es l)) l2"
    using still by (rule still_logsE)
  have rec: "recorded es (fst (log_all es l)) l2" using recorded_keeps [OF log_all_records kept] .
  obtain t ts where reqs: "reqs = t # ts" "ta_tx_path t = p"
    using first one by (cases reqs) (auto simp: append_txs_inner_def fs_err_def)
  have same_then: ?thesis if "\<And>q. path_look w3 q = path_look w2 q" "r = Inr results \<or> (\<exists>e. r = Inl e)"
    using that extends_trans [OF grown extends_look [OF that(1)]] by blast
  have "fs_bind (prepare_all us reqs) (\<lambda>es. fs_bind (create_parent p) (\<lambda>_. fs_bind (handle_of p) (\<lambda>_.
      fs_bind (ledger_append_many p es) (\<lambda>ids. fs_ok (map (\<lambda>i. \<lparr>ar_tx_id = i, ar_tx_path = p\<rparr>) ids))))) w2 = (r, w3)"
    using again one reqs still_named [OF log2 ok2]
    by (auto simp: append_txs_inner_def Let_def list_ex_iff list_all_iff fs_bind_def [of "tx_handles_detached_from_paths [p]"])
  then show ?thesis
  proof (cases rule: fs_bindE)
    case (error e)
    then show ?thesis
      using same_then quiet_look [OF still.framesD [OF still.frames_prepare_all error(1)]] by blast
  next
    case (ok es2 w4)
    have q: "quiet w2 w4" by (rule still.framesD [OF still.frames_prepare_all ok(1)])
    have "prepared us reqs es2" using ok(1) unfolding prepared_def by blast
    then have rec2: "recorded es2 (fst (log_all es l)) l2"
      using recorded_event_ids [OF rec] prepared_event_ids [OF _ given] es(1) by metis
    from ok(2) show ?thesis
    proof (cases rule: fs_bindE)
      case (error e)
      show ?thesis
      proof (rule same_then)
        show "path_look w3 q = path_look w2 q" for q
          using quiet_look [OF q] create_parent_quiet [of p w4] error(1) by (simp add: path_look_def)
      qed (use error(2) in simp)
    next
      case (ok u w5)
      have same: "ww_names w5 = ww_names w2" "ww_bytes w5 = ww_bytes w2" "ww_handles w5 = ww_handles w2"
        using create_parent_quiet [of p w4] ok(1) q by (auto simp: quiet_def)
      then have log5: "holds_log p l2 w5" using log2 by (simp add: holds_log_def)
      then have "\<exists>h. handle_of p w5 = (Inr h, w5)" by (auto simp: holds_log_def handle_of_def)
      then have "r = Inr (map (\<lambda>i. \<lparr>ar_tx_id = i, ar_tx_path = p\<rparr>) (fst (log_all es l))) \<and> w3 = w5"
        using ok(2) recorded_append_many [OF rec2 log5] by (auto simp: fs_bind_def fs_ok_def)
      moreover have "map (\<lambda>i. \<lparr>ar_tx_id = i, ar_tx_path = p\<rparr>) (fst (log_all es l)) = results"
        using es(3) unfolding es(2) [symmetric] by (auto simp: list_all_iff intro!: map_idI)
      ultimately show ?thesis using same same_then by (simp add: path_look_def)
    qed
  qed
qed

section \<open>A sample project\<close>

definition sample_uuids :: uuid_source where
  "sample_uuids = \<lparr>us_fresh = (\<lambda>n. ''u'' @ show_nat n), us_parse = (\<lambda>s. s \<noteq> [])\<rparr>"

definition sample_node :: file_path where
  "sample_node = [''/'', ''p'', ''node.org'']"

definition sample_journal :: file_path where
  "sample_journal = [''/'', ''p'', ''journal.org'']"

definition sample_world :: writer_world where
  "sample_world =
     \<lparr>ww_names = Map.empty(sample_node \<mapsto> 0), ww_bytes = (\<lambda>_. [])(0 := ''old''), ww_next = 1,
      ww_dirs = {[''/''], [''/'', ''p'']}, ww_handles = Map.empty, ww_faults = (\<lambda>_. []), ww_drawn = 0\<rparr>"

definition sample_append :: "string \<Rightarrow> string \<Rightarrow> tx_append" where
  "sample_append i ty =
     \<lparr>ta_tx_path = sample_journal, ta_entry = (tx_new i ty ''now'' ''me'' ''m'')\<lparr>tx_extra := [(''EVENT_ID'', i)]\<rparr>,
      ta_project_id = None, ta_tx_id_policy = Preserve, ta_request_id = None\<rparr>"

definition sample_rewrites :: "file_rewrite list" where
  "sample_rewrites = [\<lparr>fr_path = sample_node, fr_new_contents = ''new''\<rparr>]"

definition sample_run :: "tx_append list \<Rightarrow> writer_world \<Rightarrow> (writer_error + multi_transaction_commit) \<times> writer_world" where
  "sample_run txs = transaction_multi_inner sample_uuids sample_rewrites txs ''r'' (Inr ())"

lemma sample_files_ok: "files_ok (sample_world\<lparr>ww_faults := fs\<rparr>)" "files_ok sample_world"
  by (auto simp: files_ok_def sample_world_def sample_node_def)

lemma sample_sidecars:
  "sidecars ''r'' {sample_node} = {[''/'', ''p'', ''node.org.tmp.r''], [''/'', ''p'', ''node.org.bak.r'']}"
proof -
  have "transaction_tmp_path sample_node ''r'' = Inr [''/'', ''p'', ''node.org.tmp.r'']"
    "transaction_backup_path sample_node ''r'' = Inr [''/'', ''p'', ''node.org.bak.r'']"
    by code_simp+
  then show ?thesis by (auto simp: sidecars_def)
qed

lemma sample_commits:
  "(case sample_run [sample_append ''t1'' ''note''] sample_world of (r, w) \<Rightarrow>
     (map_sum (\<lambda>_. ()) commit_results r, path_look w sample_node)) =
   (Inr [\<lparr>ar_tx_id = ''t1'', ar_tx_path = sample_journal\<rparr>], Some ''new'')"
  by code_simp

lemma transaction_targets_old_or_new_witness:
  "path_look (snd (sample_run [sample_append ''t1'' ''note''] sample_world)) sample_node \<in> {Some ''old'', Some ''new''}"
proof -
  obtain r w' where run: "sample_run [sample_append ''t1'' ''note''] sample_world = (r, w')" by fastforce
  have "path_look w' sample_node \<in> {path_look sample_world sample_node, Some ''new''}"
    using transaction_targets_old_or_new [OF run [unfolded sample_run_def] sample_files_ok(2), of sample_journal] sample_sidecars
    by (simp add: sample_rewrites_def sample_append_def sample_world_def sample_node_def sample_journal_def)
  then show ?thesis
    using run by (simp add: sample_world_def path_look_def)
qed

lemma retried_append_adds_nothing_witness:
  "path_look (snd (append_txs_inner sample_uuids [sample_append ''t1'' ''note'']
      (snd (append_txs_inner sample_uuids [sample_append ''t2'' ''note'']
        (snd (append_txs_inner sample_uuids [sample_append ''t1'' ''note''] sample_world)))))) sample_journal
   = path_look (snd (append_txs_inner sample_uuids [sample_append ''t2'' ''note'']
        (snd (append_txs_inner sample_uuids [sample_append ''t1'' ''note''] sample_world)))) sample_journal"
proof -
  have "is_ok (fst (append_txs_inner sample_uuids [sample_append ''t1'' ''note''] sample_world))"
    by code_simp
  then obtain rs w1 where first: "append_txs_inner sample_uuids [sample_append ''t1'' ''note''] sample_world = (Inr rs, w1)"
    by (cases "append_txs_inner sample_uuids [sample_append ''t1'' ''note''] sample_world"; cases "fst (append_txs_inner sample_uuids [sample_append ''t1'' ''note''] sample_world)")
      (auto simp: is_ok_def)
  define w2 where "w2 = append_groups sample_uuids [[sample_append ''t2'' ''note'']] w1"
  obtain r w3 where again: "append_txs_inner sample_uuids [sample_append ''t1'' ''note''] w2 = (r, w3)" by fastforce
  show ?thesis
    using retried_append_adds_nothing [OF first w2_def _ again sample_files_ok(2), of sample_journal] first again
    by (simp add: sample_world_def sample_append_def w2_def gives_event_id_def)
qed

text \<open>The entries of a group are written one by one: when a later one is refused, the files are rolled back
  and the earlier entries stay in the ledger.\<close>

lemma refused_group_keeps_first_entry:
  "(case sample_run [sample_append ''t1'' ''note'', sample_append ''t2'' (''no'' @ [LF] @ ''te'')] sample_world of (r, w) \<Rightarrow>
     (is_ok r, path_look w sample_node, path_look w sample_journal)) =
   (False, Some ''old'', Some (journal_header ''p'' @ journal_entry_block (journal_entry_of (ta_entry (sample_append ''t1'' ''note'')))))"
  by code_simp

text \<open>A target whose presence cannot be asked counts as absent, gets no backup, and rolling back removes
  it.\<close>

lemma unseen_target_is_lost:
  "(case sample_run [sample_append ''t2'' (''no'' @ [LF] @ ''te'')] (sample_world\<lparr>ww_faults := (\<lambda>_. [])(Look := [None, None, Some 0])\<rparr>) of
      (r, w) \<Rightarrow> (is_ok r, path_look w sample_node)) = (False, None)"
  by code_simp

end
