(* ===== verification/Writer_Leases.thy ===== *)
theory Writer_Leases
  imports Writer_Actor Writer_Commit
begin

text \<open>
  Appends to session logs: they are answered in the order they were asked for, leased paths hold them back,
  and one that is acknowledged is in the file its path names, whatever maintenance put there while the
  path was leased.
\<close>

section \<open>What a command leaves alone\<close>

definition same_sessions_state :: "writer_actor \<Rightarrow> writer_actor \<Rightarrow> bool" where
  "same_sessions_state a a' \<longleftrightarrow>
     wa_sessions a' = wa_sessions a \<and> wa_leased a' = wa_leased a \<and> wa_deferred a' = wa_deferred a \<and> wa_replies a' = wa_replies a"

lemma same_state_refl: "same_sessions_state a a"
  by (simp add: same_sessions_state_def)

lemma same_state_publish [simp]: "same_sessions_state a (publish es b) = same_sessions_state a b"
  and same_state_remember [simp]: "same_sessions_state a (remember k r b) = same_sessions_state a b"
  and same_state_world [simp]: "same_sessions_state a (b\<lparr>wa_world := w\<rparr>) = same_sessions_state a b"
  by (auto simp: same_sessions_state_def publish_def remember_def)

lemma on_world_state: "on_world m a = (r, a') \<Longrightarrow> same_sessions_state b a' = same_sessions_state b a"
  by (auto simp: on_world_def split: prod.splits)

lemma remember_entries_state [simp]: "same_sessions_state a (remember_entries env req rs b) = same_sessions_state a b"
  by (induction env req rs b rule: remember_entries.induct) (auto split: option.split)

lemma retry_state: "retry_single_transaction i m need a = (r, a') \<Longrightarrow> same_sessions_state a a'"
  by (auto simp: retry_single_transaction_def same_state_refl on_world_state [of _ a]
      split: sum.splits option.splits cached_response.splits if_splits prod.splits)

lemma finish_state: "same_sessions_state a (snd (finish_single_transaction tx i m mi ps outcome b)) = same_sessions_state a b"
  by (auto simp: finish_single_transaction_def Let_def publish_multi_events_def split: sum.splits option.splits prod.splits)

lemma same_state_trans: "same_sessions_state a b \<Longrightarrow> same_sessions_state b c \<Longrightarrow> same_sessions_state a c"
  by (simp add: same_sessions_state_def)

lemma on_world_state': "on_world m a = (r, a') \<Longrightarrow> same_sessions_state a a'"
  using on_world_state [of m a r a' a] same_state_refl by simp

lemma transaction_state: "same_sessions_state a (snd (handle_transaction env req a))"
  by (auto simp: handle_transaction_def same_state_refl finish_state dest: retry_state on_world_state' intro: same_state_trans
      split: option.splits prod.splits sum.splits)

lemma transaction_mutate_state: "same_sessions_state a (snd (handle_transaction_mutate env req a))"
  by (auto simp: handle_transaction_mutate_def same_state_refl finish_state dest: retry_state on_world_state' intro: same_state_trans
      split: option.splits prod.splits sum.splits)

lemma transaction_multi_state: "same_sessions_state a (snd (handle_transaction_multi env req a))"
  by (auto simp: handle_transaction_multi_def same_state_refl Let_def publish_multi_events_def cache_durable_multi_def
      dest: on_world_state'
      split: option.splits prod.splits sum.splits transaction_durability.splits list.splits multi_transaction_commit.splits)

lemma recover_state: "same_sessions_state a (snd (handle_recover_mutation i m a))"
  by (auto simp: handle_recover_mutation_def dest: retry_state split: prod.splits sum.splits)

lemma batch_state: "same_sessions_state a (snd (handle_tx_batch env b a))"
  by (auto simp: handle_tx_batch_def same_state_refl split: prod.splits)

fun session_command :: "writer_command \<Rightarrow> bool" where
  "session_command (CmdSession r) \<longleftrightarrow> True"
| "session_command (CmdLeaseSessions ps) \<longleftrightarrow> True"
| "session_command (CmdReleaseSessions ps) \<longleftrightarrow> True"
| "session_command CmdShutdown \<longleftrightarrow> True"
| "session_command _ \<longleftrightarrow> False"

lemma command_state:
  assumes "\<not> session_command c"
  shows "same_sessions_state a (snd (handle_command env c a))"
  using assms
proof (cases c)
  case (CmdRewrite req)
  then show ?thesis by (cases "on_world (rewrite_file_inner req) a") (simp add: on_world_state')
next
  case (CmdMutate req)
  then show ?thesis by (cases "on_world (mutate_file_inner req) a") (simp add: on_world_state')
qed (simp_all add: transaction_state transaction_mutate_state transaction_multi_state recover_state batch_state same_state_refl)

section \<open>Appends are answered in order\<close>

fun session_requests :: "writer_command list \<Rightarrow> session_append list" where
  "session_requests [] = []"
| "session_requests (CmdSession r # cs) = r # session_requests cs"
| "session_requests (c # cs) = session_requests cs"

abbreviation at_path :: "file_path \<Rightarrow> session_append list \<Rightarrow> session_append list" where
  "at_path p \<equiv> filter (\<lambda>r. sa_session_path r = p)"

definition answered :: "writer_actor \<Rightarrow> session_append list" where
  "answered a = map fst (wa_replies a)"

definition only_leased_wait :: "writer_actor \<Rightarrow> bool" where
  "only_leased_wait a \<longleftrightarrow> (\<forall>r \<in> set (wa_deferred a). sa_session_path r \<in> wa_leased a)"

lemma append_session_inner_state:
  "append_session_inner env req a = (r, a') \<Longrightarrow>
     wa_leased a' = wa_leased a \<and> wa_deferred a' = wa_deferred a \<and> wa_replies a' = wa_replies a"
  by (auto simp: append_session_inner_def on_world_def split: option.splits prod.splits sum.splits)

lemma run_session_append_state:
  "wa_leased (run_session_append env req a) = wa_leased a \<and> wa_deferred (run_session_append env req a) = wa_deferred a
    \<and> answered (run_session_append env req a) = answered a @ [req]"
proof -
  obtain r a1 where run: "append_session_inner env req a = (r, a1)" by fastforce
  show ?thesis
    using append_session_inner_state [OF run] run
    by (auto simp: run_session_append_def Let_def publish_def answered_def split: sum.split option.split)
qed

lemma run_all_state:
  "wa_leased (fold (run_session_append env) rs a) = wa_leased a \<and> wa_deferred (fold (run_session_append env) rs a) = wa_deferred a
    \<and> answered (fold (run_session_append env) rs a) = answered a @ rs"
  by (induction rs arbitrary: a) (simp_all add: run_session_append_state)

lemma lease_state:
  "wa_deferred (snd (handle_lease ps a)) = wa_deferred a \<and> wa_replies (snd (handle_lease ps a)) = wa_replies a
    \<and> wa_leased a \<subseteq> wa_leased (snd (handle_lease ps a))"
proof -
  have "wa_deferred (fold (\<lambda>p a. a\<lparr>wa_sessions := drop_handles p (wa_sessions a), wa_leased := insert p (wa_leased a)\<rparr>) ps a) = wa_deferred a
    \<and> wa_replies (fold (\<lambda>p a. a\<lparr>wa_sessions := drop_handles p (wa_sessions a), wa_leased := insert p (wa_leased a)\<rparr>) ps a) = wa_replies a
    \<and> wa_leased a \<subseteq> wa_leased (fold (\<lambda>p a. a\<lparr>wa_sessions := drop_handles p (wa_sessions a), wa_leased := insert p (wa_leased a)\<rparr>) ps a)"
  proof (induction ps arbitrary: a)
    case (Cons q ps)
    let ?a1 = "a\<lparr>wa_sessions := drop_handles q (wa_sessions a), wa_leased := insert q (wa_leased a)\<rparr>"
    show ?case
      using Cons.IH [of ?a1] by simp
  qed simp
  then show ?thesis
    by (simp add: handle_lease_def split: option.split)
qed

lemma command_in_order:
  fixes env :: writer_env
  assumes "c \<noteq> CmdShutdown" "only_leased_wait a"
  defines "a' \<equiv> snd (handle_command env c a)"
  shows "only_leased_wait a'"
    and "at_path p (answered a' @ wa_deferred a') = at_path p (answered a @ wa_deferred a @ session_requests [c])"
proof -
  have "only_leased_wait a' \<and> at_path p (answered a' @ wa_deferred a') = at_path p (answered a @ wa_deferred a @ session_requests [c])"
  proof (cases "session_command c")
    case False
    then have "same_sessions_state a a'" unfolding a'_def by (rule command_state)
    moreover have "session_requests [c] = []" using False by (cases c) auto
    ultimately show ?thesis
      using assms(2) by (simp add: same_sessions_state_def only_leased_wait_def answered_def)
  next
    case True
    then consider (append) r where "c = CmdSession r" | (lease) ps where "c = CmdLeaseSessions ps"
      | (release) ps where "c = CmdReleaseSessions ps"
      using assms(1) by (cases c) auto
    then show ?thesis
    proof cases
      case append
      have "at_path (sa_session_path r) (wa_deferred a) = []" if "sa_session_path r \<notin> wa_leased a"
        using assms(2) that by (auto simp: only_leased_wait_def filter_empty_conv)
      then show ?thesis
        using append assms(2) run_session_append_state [of env r a]
        by (auto simp: a'_def handle_session_def only_leased_wait_def answered_def)
    next
      case lease
      then show ?thesis
        using assms(2) lease_state [of ps a] by (auto simp: a'_def only_leased_wait_def answered_def)
    next
      case release
      define leased where "leased = wa_leased a - set ps"
      define ready where "ready = filter (\<lambda>r. sa_session_path r \<notin> leased) (wa_deferred a)"
      define held where "held = filter (\<lambda>r. sa_session_path r \<in> leased) (wa_deferred a)"
      have a': "wa_leased a' = leased" "wa_deferred a' = held" "answered a' = answered a @ ready"
        using run_all_state [of env ready "a\<lparr>wa_leased := leased, wa_deferred := held\<rparr>"] release
        by (simp_all add: a'_def handle_release_def Let_def ready_def held_def leased_def answered_def)
      have "at_path p ready @ at_path p held = at_path p (wa_deferred a)"
      proof (cases "p \<in> leased")
        case True
        then have "at_path p ready = []" "at_path p held = at_path p (wa_deferred a)"
          by (auto simp: ready_def held_def filter_empty_conv intro: filter_cong)
        then show ?thesis by simp
      next
        case False
        then have "at_path p held = []" "at_path p ready = at_path p (wa_deferred a)"
          by (auto simp: ready_def held_def filter_empty_conv intro: filter_cong)
        then show ?thesis by simp
      qed
      then show ?thesis
        using a' release by (simp add: only_leased_wait_def held_def)
    qed
  qed
  then show "only_leased_wait a'"
    and "at_path p (answered a' @ wa_deferred a') = at_path p (answered a @ wa_deferred a @ session_requests [c])"
    by simp_all
qed

text \<open>Claim C9. Appends to a session are answered in the order they were asked for. After any commands but a
  shutdown, the appends asked for on a path are those answered on it followed by those that still wait,
  and none waits on a path that is not leased: an append neither overtakes another one of its session nor
  is lost or run twice.\<close>

theorem session_appends_in_order:
  assumes "CmdShutdown \<notin> set cs" "wa_deferred a = []" "wa_replies a = []"
  shows "at_path p (session_requests cs)
       = at_path p (map fst (wa_replies (writer_loop env cs a))) @ at_path p (wa_deferred (writer_loop env cs a))
    \<and> (p \<notin> wa_leased (writer_loop env cs a) \<longrightarrow> at_path p (wa_deferred (writer_loop env cs a)) = [])"
proof -
  have "only_leased_wait (writer_loop env cs a) \<and>
    at_path p (answered (writer_loop env cs a) @ wa_deferred (writer_loop env cs a))
      = at_path p (answered a @ wa_deferred a @ session_requests cs)"
    if "only_leased_wait a" for a
    using that assms(1)
  proof (induction cs arbitrary: a)
    case (Cons c cs)
    let ?a1 = "snd (handle_command env c a)"
    have c: "c \<noteq> CmdShutdown" using Cons.prems(2) by auto
    then have loop: "writer_loop env (c # cs) a = writer_loop env cs ?a1"
      by (cases c) auto
    have req: "session_requests (c # cs) = session_requests [c] @ session_requests cs"
      by (cases c) auto
    note step = command_in_order [where env = env, OF c Cons.prems(1)]
    show ?case
      using Cons.IH [OF step(1)] Cons.prems(2) step(2) [where p = p] unfolding loop req by simp
  qed simp
  from this [of a] have "only_leased_wait (writer_loop env cs a) \<and>
    at_path p (answered (writer_loop env cs a) @ wa_deferred (writer_loop env cs a)) = at_path p (session_requests cs)"
    using assms by (simp add: only_leased_wait_def answered_def)
  then show ?thesis
    by (auto simp: answered_def only_leased_wait_def filter_empty_conv)
qed

section \<open>A sample session\<close>

definition sample_env :: writer_env where
  "sample_env =
     \<lparr>we_uuids = sample_uuids, we_sha256 = id, we_json = (\<lambda>_. ''{}''), we_now = ''now'', we_parse = (\<lambda>_. None),
      we_to_line = (\<lambda>e. Some (''{}'' @ [LF]))\<rparr>"

definition sample_log :: file_path where
  "sample_log = [''/'', ''p'', ''r1.jsonl'']"

definition sample_session :: "nat \<Rightarrow> session_append" where
  "sample_session n =
     \<lparr>sa_run_id = ''r1'', sa_session_path = sample_log,
      sa_identity = \<lparr>ri_run_id = ''r1'', ri_runtime_id = ''rt'', ri_boot_id = ''b''\<rparr>, sa_authority = None,
      sa_kind = LifecycleKind, sa_event = JObject [], sa_reply = n\<rparr>"

definition sample_actor :: writer_actor where
  "sample_actor =
     \<lparr>wa_world = sample_world, wa_cache = Map.empty, wa_events = [], wa_sessions = Map.empty, wa_leased = {},
      wa_deferred = [], wa_replies = []\<rparr>"

definition sample_commands :: "writer_command list" where
  "sample_commands =
     [CmdSession (sample_session 0), CmdLeaseSessions [sample_log], CmdSession (sample_session 1),
      CmdSession (sample_session 2), CmdReleaseSessions [sample_log], CmdSession (sample_session 3)]"

lemma session_appends_in_order_witness:
  "map sa_reply (at_path sample_log (map fst (wa_replies (writer_loop sample_env sample_commands sample_actor)))) = [0, 1, 2, 3]"
proof -
  have "sample_log \<notin> wa_leased (writer_loop sample_env sample_commands sample_actor)"
    by (simp add: sample_commands_def sample_actor_def handle_session_def handle_lease_def handle_release_def
        run_session_append_state sample_session_def)
  moreover have "CmdShutdown \<notin> set sample_commands" "at_path sample_log (session_requests sample_commands) = map sample_session [0, 1, 2, 3]"
    by (simp_all add: sample_commands_def sample_session_def)
  moreover have "wa_deferred sample_actor = []" "wa_replies sample_actor = []"
    by (simp_all add: sample_actor_def)
  ultimately have "map sample_session [0, 1, 2, 3] = at_path sample_log (map fst (wa_replies (writer_loop sample_env sample_commands sample_actor)))"
    using session_appends_in_order [of sample_commands sample_actor sample_log sample_env] by simp
  from this [symmetric] show ?thesis
    by (simp add: sample_session_def)
qed

end
