(* ===== verification/Spec2Isabelle.thy ===== *)
theory Spec2Isabelle
  imports Ids Org_Heading_Line Tx_Ledger Tx_Fold Claims Authz Governance Slots Node_Kernel Node_Types
    Session_Scan Session_Exit Gateway Recovery_Plan Writer_Leases
begin

text \<open>
  \<^bold>\<open>A verification development for orgasmic.\<close>

  Orgasmic keeps a project as a directory of Org files, records what happens to it in an append-only
  ledger of tx entries, and runs agents whose events go to one session log per run. A daemon serves
  the files over HTTP and decides who may do what; a command line and the drivers of the agents work
  on the same files. This development models the pure core of that program: what is computed from
  the bytes of the files, the random bytes, the readings of the clock and the requests, with every
  error as a value. The crates are \<open>crates/orgasmic-core\<close> and \<open>crates/orgasmic-daemon\<close>.

  \<^bold>\<open>Theories and sources.\<close> Every definition carries the name of the Rust item it translates.

  \<^item> \<open>Prelude\<close>, \<open>Rust_Str\<close>, \<open>Ordered_Map\<close>, \<open>Codecs\<close>: results and their chaining with \<open>?\<close>, the
    operations of \<open>str\<close> on bytes (a string is its UTF-8 bytes; \<open>chars\<close> cuts them into characters),
    hexadecimal text, \<open>BTreeMap\<close> and \<open>BTreeSet\<close> as sorted lists with the interface \<open>ordered_map\<close>,
    and the interfaces of name tables and of layered permissions.
  \<^item> \<open>Ids\<close> (\<open>id.rs\<close>): classes of node ids, minting, parent pointers and the parent tree.
  \<^item> \<open>Org_Syntax\<close>, \<open>Org_Parser\<close>, \<open>Org_Structure\<close> (\<open>org.rs\<close>, first half): line spans, block mask,
    heading lines, drawers, the recursive descent; the spans of a parsed file tile its source.
  \<^item> \<open>Org_Rewriter\<close>, \<open>Org_Heading_Line\<close> (\<open>org.rs\<close>, second half): the editing operations, as functions
    from a rewriter to a result and a rewriter, with the guards that undo a body write; heading lines.
  \<^item> \<open>Tx\<close>, \<open>Tx_Lines\<close>, \<open>Tx_Ledger\<close>, \<open>Tx_Fold\<close> (\<open>tx.rs\<close>): entries, the writer over the bytes of its
    file, a reference reader that works line by line, the ledger as a log, and the fold of the ledger
    into dispatches. \<open>Claims\<close> (\<open>claims.rs\<close>) is the fold of the claim logs of all machines.
  \<^item> \<open>Schema\<close>, \<open>Sandbox\<close>, \<open>Governance\<close> (\<open>schema.rs\<close>, \<open>sandbox.rs\<close>, \<open>governance.rs\<close>): typed views of
    task headings, the permission allowlist, and the resolution of defaults and overlays.
  \<^item> \<open>Slots\<close> (\<open>slots.rs\<close>), \<open>Node_Kernel\<close> (\<open>node_kernel.rs\<close>), \<open>Node_Types\<close> (\<open>node_type.rs\<close>,
    \<open>node_registry.rs\<close>, \<open>node_kind.rs\<close>): the prompt compiler, journals and their in-place edits,
    descriptors of node types, the registry of their id prefixes and the states of nodes.
  \<^item> \<open>Event_Bound\<close>, \<open>Session_Log\<close>, \<open>Session_Scan\<close>, \<open>Session_Exit\<close> (\<open>session.rs\<close>): the budget of a
    persisted event, the writer and reader of a session file, the bounded and complete scans of its
    lifecycle lines, and the classification of exits.
  \<^item> \<open>Authz\<close> (\<open>authz.rs\<close>, topics and payloads of \<open>events.rs\<close>), \<open>Members\<close> (\<open>members.rs\<close>) and \<open>Auth\<close>
    (\<open>auth.rs\<close>): actions, roles, identities and the check every handler calls; the file of the members
    and their grants; the bearer token, tickets and sessions, and the identity of a request.
  \<^item> \<open>Plugin_Manifest\<close> (\<open>plugin.rs\<close>), \<open>Plugins\<close> (\<open>plugins.rs\<close>) and \<open>Gateway\<close> (the middleware, login and
    capability snapshot of \<open>api.rs\<close>): manifests of plugins, the registry of the active ones with its
    leases, and the gate that gives every request its identity and its routes.
  \<^item> \<open>Recovery_Store\<close>, \<open>Recovery_Session\<close> (\<open>recovery_claim.rs\<close>): the claim a rescue of a failed run writes
    before it starts the replacement, its file, its signature and its transaction; the sessions that
    confirm it and the resolution that decides who may act on it. \<open>Recovery_Calls\<close> holds the
    frames of these calls and how they behave when system calls fail, \<open>Recovery_Safety\<close> what a
    decision may conclude, and \<open>Recovery_Plan\<close> the life of a rescue as a step relation.
  \<^item> \<open>Writer_Files\<close>, \<open>Writer_Actor\<close> (\<open>writer.rs\<close>): the one actor that writes. \<open>Writer_Files\<close> has its
    work on files: ledgers and journals with their cached handles, rewrites, and transactions over
    several files; \<open>Writer_Actor\<close> has the commands, the cache of answers, the session handles and
    the leases. \<open>Writer_Calls\<close>, \<open>Writer_Rewrites\<close> and \<open>Writer_Ledger\<close> hold the frames of the
    calls, of the staged files and of the handles; \<open>Writer_Commit\<close> and \<open>Writer_Leases\<close> what a
    transaction and a lease promise.

  \<^bold>\<open>How state is modelled.\<close> A file is its bytes or its absence, and an operation on it returns the
  file after it, on the error paths as well. A writer is a record next to the bytes of its file; what
  the operating system does to a write is an argument with a value for every outcome (complete, torn,
  refused). The clock, the random bytes, SHA-256 and the JSON serializer are arguments; where a
  property depends on them its hypotheses state documented behaviour only (the length of a digest,
  that a parser reads back what the serializer wrote), and its witness instantiates them. The calls of
  the recovery store go through \<open>claim_world\<close>, which holds the files and the errors the next system
  calls meet: every call may fail with any error, and a process that ends is one whose calls all fail.
  Those of the writer go through \<open>writer_world\<close>, where paths name inodes, so that a descriptor kept
  open may no longer be the file of its path; a call that fails is one that does the work, one that
  undoes it or one that asks whether a file is there, and a write that fails may have written a part.

  \<^bold>\<open>What the lemmas show.\<close> The conditions of each claim are in its text and its statement; in short:

  \<^item> Parser: it consumes its lines, the spans tile at every depth, and every property of every heading
    reads back at its span, inside its line, drawer and heading.
  \<^item> Rewriter: a refused edit changes nothing, an accepted one replaces just the range it addresses in
    the heading it names, and an accepted body reads back.
  \<^item> Ledger: any history of creations, accepted and refused batches and reopenings reads as the log of
    the accepted batches. Torn writes are modelled (\<open>append_many\<close>, \<open>ledger_write\<close>) and are not part
    of these histories.
  \<^item> Folds: termination on every ledger, independence of the order the logs are read in, the holder and
    scope of every claimed task, and the closing rules of recoveries.
  \<^item> Node ids, types and registry: the parent walk of a validated tree returns the declared chain; a
    minted id resolves to its collection in every reachable registry; states follow their descriptor.
  \<^item> Session log: over histories with torn writes, failed serializations and reopenings, what is read is
    bounded, and once a \<open>run_meta\<close> line ends in the probed 256 KiB no rendered text of a pane transport
    follows it. Beyond that window a reopened writer does not know the transport and nothing is claimed.
  \<^item> Scans: agreement with the complete scan within the budget; beyond it, a subsequence, the right last
    run, and the final envelope when the last line is not blank.
  \<^item> Members, authorization, tokens and sessions: the file refines the list of members; nothing is
    allowed without a grant that gives it; identities are current and come from fresh tickets.
  \<^item> Plugins: the active ones are those of the plugin directory that are enabled and approved; a disabled
    one is out at once, and a token is worth no more than its caller.
  \<^item> Gate: no request passes as more than its credential, and a login lasts.
  \<^item> Recovery: a rescue once acknowledged is not planned a second time while its claim is neither
    quarantined nor removed and no failure reports a file as not found (\<open>removed_claim_is_planned_again\<close>
    shows what removal does); failures that say nothing about the files never cost a claim its authority;
    authority needs a signed claim carried by a session; what is missing is not there.
  \<^item> Writer transactions: with answers to the question whether a file is there, every target holds its
    old or its new contents, and on success all of them the new ones; a refused transaction restores every
    file but the ledger while no undoing call fails. \<open>unseen_target_is_lost\<close> shows that the first
    condition is needed, and \<open>refused_group_keeps_first_entry\<close> that a refused group may leave entries in the
    ledger.
  \<^item> Writer appends: repeating a group whose entries carry their \<open>EVENT_ID\<close> adds nothing, and appends to a
    session keep their order through leases.

  \<^bold>\<open>Recursion and bounds.\<close> Loops over text are structural or have a measure: the lines left for the
  parser, the bytes left for the scans. The fixpoint of the recovery edges and the walk up the parent
  pointers are partial functions that may fail to return; that they do return is proved (the first on
  every ledger, the second on every validated tree), so no fuel is used. Machine integers are words
  where they are stored (the sequence numbers of a session, the budgets of a governance layer) and
  natural numbers where they are lengths of what is in memory.

  \<^bold>\<open>Not modelled.\<close> The HTTP handlers behind the gate, the supervisor of agent processes, the index, the drivers and the
  command line, and of the writer its asynchronous methods, its projection into the index and the
  recovery of its answers after a restart: they are made of input and output, process control, channels and timers around the
  functions above. Files are read and written by the operating system and parsed by serde; calendar
  arithmetic is chrono's. The manifest lists these parts one by one.
\<close>

end
